(* ===== verification/Mars_Prelude.thy ===== *)
theory Mars_Prelude
  imports Main "HOL-Library.Word" "HOL-Library.Multiset"
begin

text \<open>
  Shared vocabulary of the development: the machine types of the LP64 targets the library is
  built for, the conversions between them, the network types of comm/platform_comm.h, the
  collections of simplification rules that the component theories extend, and the generic
  facts on lists, sorting and words that their proofs share.

  C and C++ unsigned integers are words of their width, so that their arithmetic wraps as the
  source's does; \<open>int\<close>, \<open>int32_t\<close> and \<open>off_t\<close> values are integers, and every
  place where the source converts to a narrower or a signed type applies one of the
  conversions below. A raw memory block is a list of bytes.
\<close>

section \<open>Machine types\<close>

unbundle bit_operations_syntax

type_synonym u8 = "8 word"
type_synonym u16 = "16 word"
type_synonym u32 = "32 word"
type_synonym u64 = "64 word"
type_synonym bytes = "u8 list"

text \<open>\<open>s32 x\<close> is the value of type \<open>int\<close> that the two's complement conversion of
  \<open>x\<close> yields.\<close>

definition s32 :: "int \<Rightarrow> int" where
  "s32 x = (x + 2 ^ 31) mod 2 ^ 32 - 2 ^ 31"

text \<open>\<open>size_t\<close> arithmetic over \<open>nat\<close>, with the wrap-around written out.\<close>

definition sz :: "nat \<Rightarrow> nat" where
  "sz n = n mod 2 ^ 64"

named_theorems mars_defs
named_theorems mars_inv

section \<open>Network types\<close>

datatype NetType = kNoNet | kWifi | kMobile | kOtherNet

section \<open>Facts on the conversions\<close>

lemma s32_range: "- (2 ^ 31) \<le> s32 x" "s32 x < 2 ^ 31"
  using pos_mod_bound [of "2 ^ 32" "x + 2 ^ 31"] pos_mod_sign [of "2 ^ 32" "x + 2 ^ 31"]
  by (simp_all add: s32_def)

lemma s32_id: "- (2 ^ 31) \<le> x \<Longrightarrow> x < 2 ^ 31 \<Longrightarrow> s32 x = x"
  by (simp add: s32_def mod_pos_pos_trivial)

text \<open>A 64-bit result converted to \<open>int\<close> only depends on its low 32 bits.\<close>

lemma s32_uint_wi: "s32 (uint (word_of_int x :: u64)) = s32 x"
proof -
  have "(2 ^ 32 :: int) dvd 2 ^ 64" by (simp add: le_imp_power_dvd)
  then have "(x mod 2 ^ 64 + 2 ^ 31) mod 2 ^ 32 = (x + 2 ^ 31) mod (2 ^ 32 :: int)"
    by (metis mod_add_left_eq mod_mod_cancel)
  then show ?thesis by (simp add: s32_def uint_word_of_int take_bit_eq_mod)
qed

lemma sz_id [simp]: "n < 2 ^ 64 \<Longrightarrow> sz n = n"
  by (simp add: sz_def)

lemma sz_less: "sz n < 2 ^ 64"
  by (simp add: sz_def)

text \<open>Elapsed times: where the clock has not gone back, the wrapping difference is the
  difference.\<close>

lemma uint_diff_le: "(a :: 'a::len word) \<le> b \<Longrightarrow> uint (b - a) = uint b - uint a"
  by (simp add: uint_sub_lem [THEN iffD1] word_le_def)

lemma unat_diff_le: "(a :: 'a::len word) \<le> b \<Longrightarrow> unat (b - a) = unat b - unat a"
  by (rule unat_sub)

lemma diff_le_iff_unat:
  "(a :: 'a::len word) \<le> b \<Longrightarrow> c \<le> b - a \<longleftrightarrow> unat a + unat c \<le> unat b"
  by (auto simp: word_le_nat_alt unat_sub)

lemma unat_of_nat_u64: "n < 2 ^ 64 \<Longrightarrow> unat (of_nat n :: u64) = n"
  by (simp add: unat_of_nat take_bit_nat_eq_self)

lemma of_nat_less_u64:
  "m < 2 ^ 64 \<Longrightarrow> n < 2 ^ 64 \<Longrightarrow> (of_nat m :: u64) < of_nat n \<longleftrightarrow> m < n"
  by (simp only: word_less_nat_alt unat_of_nat_u64)

lemma of_nat_le_u64:
  "m < 2 ^ 64 \<Longrightarrow> n < 2 ^ 64 \<Longrightarrow> (of_nat m :: u64) \<le> of_nat n \<longleftrightarrow> m \<le> n"
  by (simp only: word_le_nat_alt unat_of_nat_u64)

lemma uint_wi_u64: "0 \<le> x \<Longrightarrow> x < 2 ^ 64 \<Longrightarrow> uint (word_of_int x :: u64) = x"
  by (simp add: uint_word_of_int)

section \<open>Facts on lists\<close>

text \<open>Removing the first element that satisfies a predicate: the erase loops of the task
  managers.\<close>

fun remove_first :: "('a \<Rightarrow> bool) \<Rightarrow> 'a list \<Rightarrow> 'a list" where
  "remove_first P [] = []"
| "remove_first P (x # xs) = (if P x then xs else x # remove_first P xs)"

lemma remove_first_id [simp]: "(\<forall>x \<in> set xs. \<not> P x) \<Longrightarrow> remove_first P xs = xs"
  by (induction xs) auto

lemma remove_first_set: "set (remove_first P xs) \<subseteq> set xs"
  by (induction xs) auto

lemma mset_remove_first:
  "mset xs = (case find P xs of None \<Rightarrow> {#} | Some x \<Rightarrow> {#x#}) + mset (remove_first P xs)"
  by (induction xs) auto

end
