(* ===== verification/Stn_Task.thy ===== *)
theory Stn_Task
  imports Mars_Prelude
begin

text \<open>
  The data of stn/stn.h and stn/task_profile.h: tasks, error kinds, the profiles that the
  task managers keep for every task, and the timeout computations of stn/src/task_profile.cc.
  \<open>intptr_t\<close> and \<open>void*\<close> values are opaque numbers; the profile fields that are
  only written to log lines (thread id, round trip times, local address) are left out of
  \<open>ConnectProfile\<close>.
\<close>

section \<open>Tasks and error kinds\<close>

record Task =
  taskid :: u32
  cmdid :: u32
  channel_id :: u64
  channel_select :: int
  cgi :: string
  send_only :: bool
  need_authed :: bool
  limit_flow :: bool
  limit_frequency :: bool
  network_status_sensitive :: bool
  channel_strategy :: int
  priority :: int
  retry_count :: int
  server_process_cost :: int
  total_timetout :: int
  user_context :: nat

definition kChannelShort :: int where "kChannelShort = 1"
definition kChannelLong :: int where "kChannelLong = 2"
definition kChannelBoth :: int where "kChannelBoth = 3"
definition kChannelNormalStrategy :: int where "kChannelNormalStrategy = 0"
definition kChannelFastStrategy :: int where "kChannelFastStrategy = 1"
definition kTaskPriorityNormal :: int where "kTaskPriorityNormal = 3"
definition kInvalidTaskID :: u32 where "kInvalidTaskID = 0"

definition Task_new :: "u32 \<Rightarrow> Task" where
  "Task_new tid = \<lparr>taskid = tid, cmdid = 0, channel_id = 0, channel_select = 0, cgi = '''',
     send_only = False, need_authed = False, limit_flow = True, limit_frequency = True,
     network_status_sensitive = False, channel_strategy = kChannelNormalStrategy,
     priority = kTaskPriorityNormal, retry_count = -1, server_process_cost = -1,
     total_timetout = -1, user_context = 0\<rparr>"

datatype ErrCmdType =
    kEctOK | kEctFalse | kEctDial | kEctDns | kEctSocket | kEctHttp | kEctNetMsgXP
  | kEctEnDecode | kEctServer | kEctLocal | kEctCanceld

text \<open>\<open>TaskFailHandleType\<close> is passed as an \<open>int\<close>: the application may return a
  value outside the enumeration.\<close>

definition kTaskFailHandleNoError :: int where "kTaskFailHandleNoError = 0"
definition kTaskFailHandleDefault :: int where "kTaskFailHandleDefault = -1"
definition kTaskFailHandleRetryAllTasks :: int where "kTaskFailHandleRetryAllTasks = -12"
definition kTaskFailHandleSessionTimeout :: int where "kTaskFailHandleSessionTimeout = -13"
definition kTaskFailHandleTaskEnd :: int where "kTaskFailHandleTaskEnd = -14"
definition kTaskFailHandleTaskTimeout :: int where "kTaskFailHandleTaskTimeout = -15"

lemmas fail_handle_defs =
  kTaskFailHandleNoError_def kTaskFailHandleDefault_def kTaskFailHandleRetryAllTasks_def
  kTaskFailHandleSessionTimeout_def kTaskFailHandleTaskEnd_def kTaskFailHandleTaskTimeout_def

definition kEctLocalTaskTimeout :: int where "kEctLocalTaskTimeout = -1"
definition kEctLocalStartTaskFail :: int where "kEctLocalStartTaskFail = -3"
definition kEctLocalAntiAvalanche :: int where "kEctLocalAntiAvalanche = -4"
definition kEctLocalChannelSelect :: int where "kEctLocalChannelSelect = -5"
definition kEctLocalNoNet :: int where "kEctLocalNoNet = -6"
definition kEctLocalCancel :: int where "kEctLocalCancel = -7"
definition kEctLocalReset :: int where "kEctLocalReset = -9"
definition kEctLocalTaskParam :: int where "kEctLocalTaskParam = -12"
definition kEctLocalChannelID :: int where "kEctLocalChannelID = -14"
definition kEctLongFirstPkgTimeout :: int where "kEctLongFirstPkgTimeout = -500"
definition kEctLongPkgPkgTimeout :: int where "kEctLongPkgPkgTimeout = -501"
definition kEctLongReadWriteTimeout :: int where "kEctLongReadWriteTimeout = -502"
definition kEctHttpFirstPkgTimeout :: int where "kEctHttpFirstPkgTimeout = -500"
definition kEctHttpPkgPkgTimeout :: int where "kEctHttpPkgPkgTimeout = -501"
definition kEctHttpReadWriteTimeout :: int where "kEctHttpReadWriteTimeout = -502"
definition kEctSocketMakeSocketPrepared :: int where "kEctSocketMakeSocketPrepared = -10087"
definition kEctSocketShutdown :: int where "kEctSocketShutdown = -10090"
definition kEctSocketRecvErr :: int where "kEctSocketRecvErr = -10091"
definition kEctSocketUserBreak :: int where "kEctSocketUserBreak = -10095"
definition kEctNetMsgXPHandleBufferErr :: int where "kEctNetMsgXPHandleBufferErr = -10504"

datatype DynStatus = kEValuating | kExcellent | kBad

section \<open>Profiles\<close>

record ConnectProfile =
  cp_start_time :: u64
  cp_dns_time :: u64
  cp_ip :: string
  cp_port :: u16
  cp_host :: string
  cp_ip_index :: int
  cp_disconn_time :: u64
  cp_disconn_errtype :: ErrCmdType
  cp_disconn_errcode :: int

definition ConnectProfile_Reset :: ConnectProfile where
  "ConnectProfile_Reset = \<lparr>cp_start_time = 0, cp_dns_time = 0, cp_ip = '''', cp_port = 0,
     cp_host = '''', cp_ip_index = -1, cp_disconn_time = 0, cp_disconn_errtype = kEctOK,
     cp_disconn_errcode = 0\<rparr>"

record TransferProfile =
  connect_profile :: ConnectProfile
  loop_start_task_time :: u64
  first_start_send_time :: u64
  start_send_time :: u64
  last_receive_pkg_time :: u64
  read_write_timeout :: u64
  first_pkg_timeout :: u64
  sent_size :: u64
  send_data_size :: u64
  received_size :: u64
  receive_data_size :: u64
  tr_error_type :: ErrCmdType
  tr_error_code :: int

definition TransferProfile_Reset :: TransferProfile where
  "TransferProfile_Reset = \<lparr>connect_profile = ConnectProfile_Reset, loop_start_task_time = 0,
     first_start_send_time = 0, start_send_time = 0, last_receive_pkg_time = 0,
     read_write_timeout = 0, first_pkg_timeout = 0, sent_size = 0, send_data_size = 0,
     received_size = 0, receive_data_size = 0, tr_error_type = kEctOK, tr_error_code = 0\<rparr>"

text \<open>\<open>running_id\<close> is the handle of the attempt in flight, 0 when there is none. The
  status fields hold \<open>None\<close> for the integer 0, which is no \<open>DynamicTimeoutStatus\<close>.\<close>

record TaskProfile =
  tp_task :: Task
  transfer_profile :: TransferProfile
  running_id :: nat
  task_timeout :: u64
  start_task_time :: u64
  end_task_time :: u64
  retry_start_time :: u64
  remain_retry_count :: int
  force_no_retry :: bool
  last_failed_dyntime_status :: "DynStatus option"
  current_dyntime_status :: "DynStatus option"
  antiavalanche_checked :: bool
  use_proxy :: bool
  retry_time_interval :: u64
  err_type :: ErrCmdType
  err_code :: int
  link_type :: int
  history_transfer_profiles :: "TransferProfile list"

definition ComputeTaskTimeout :: "Task \<Rightarrow> u64" where
  "ComputeTaskTimeout t =
     (let readwritetimeout =
            (if 0 < server_process_cost t
             then word_of_int (s32 (server_process_cost t + 15 * 1000)) else 15 * 1000);
          trycount = (if 0 \<le> retry_count t then retry_count t else 0);
          trycount' = s32 (trycount + 1);
          timeout = (readwritetimeout + 5 * 1000) * word_of_int trycount'
      in if 0 < total_timetout t \<and> word_of_int (total_timetout t) < timeout
         then word_of_int (total_timetout t) else timeout)"

definition TaskProfile_new :: "u64 \<Rightarrow> Task \<Rightarrow> TaskProfile" where
  "TaskProfile_new now t = \<lparr>tp_task = t, transfer_profile = TransferProfile_Reset,
     running_id = 0, task_timeout = ComputeTaskTimeout t, start_task_time = now,
     end_task_time = 0, retry_start_time = 0, remain_retry_count = retry_count t,
     force_no_retry = False, last_failed_dyntime_status = None, current_dyntime_status = None,
     antiavalanche_checked = False, use_proxy = False, retry_time_interval = 0,
     err_type = kEctOK, err_code = 0, link_type = 0, history_transfer_profiles = []\<rparr>"

definition InitSendParam :: "TaskProfile \<Rightarrow> TaskProfile" where
  "InitSendParam p = p\<lparr>transfer_profile := TransferProfile_Reset, running_id := 0\<rparr>"

definition PushHistory :: "TaskProfile \<Rightarrow> TaskProfile" where
  "PushHistory p =
     p\<lparr>history_transfer_profiles := history_transfer_profiles p @ [transfer_profile p]\<rparr>"

datatype TaskFailStep =
    kStepSucc | kStepDns | kStepConnect | kStepFirstPkg | kStepPkgPkg | kStepDecode
  | kStepOther | kStepTimeout | kStepServer

definition GetFailStep :: "TaskProfile \<Rightarrow> TaskFailStep" where
  "GetFailStep p =
     (if err_type p = kEctOK \<and> err_code p = 0 then kStepSucc
      else if err_type p = kEctDns then kStepDns
      else if cp_ip_index (connect_profile (transfer_profile p)) = -1 then kStepConnect
      else if last_receive_pkg_time (transfer_profile p) = 0 then kStepFirstPkg
      else if err_type p = kEctEnDecode then kStepDecode
      else if err_type p = kEctSocket \<or> err_type p = kEctHttp \<or> err_type p = kEctNetMsgXP
        then kStepPkgPkg
      else if err_code p = kEctLocalTaskTimeout then kStepTimeout
      else if err_type p = kEctServer \<or> (err_type p = kEctOK \<and> err_code p \<noteq> 0)
        then kStepServer
      else kStepOther)"

section \<open>Timeouts and priorities\<close>

definition kBaseFirstPackageWifiTimeout :: u64 where "kBaseFirstPackageWifiTimeout = 12*1000"
definition kBaseFirstPackageGPRSTimeout :: u64 where "kBaseFirstPackageGPRSTimeout = 15*1000"
definition kMaxFirstPackageWifiTimeout :: u64 where "kMaxFirstPackageWifiTimeout = 22*1000"
definition kMaxFirstPackageGPRSTimeout :: u64 where "kMaxFirstPackageGPRSTimeout = 30*1000"
definition kGPRSMinRate :: u64 where "kGPRSMinRate = 4*1024"
definition kWifiMinRate :: u64 where "kWifiMinRate = 12*1024"
definition kWifiPackageInterval :: u64 where "kWifiPackageInterval = 8*1000"
definition kGPRSPackageInterval :: u64 where "kGPRSPackageInterval = 12*1000"
definition kWifiTaskDelay :: u64 where "kWifiTaskDelay = 1500"
definition kGPRSTaskDelay :: u64 where "kGPRSTaskDelay = 3000"
definition kMaxRecvLen :: u64 where "kMaxRecvLen = 64*1024"
definition kDynTimeFirstPackageWifiTimeout :: u64 where "kDynTimeFirstPackageWifiTimeout = 7*1000"
definition kDynTimeFirstPackageGPRSTimeout :: u64 where "kDynTimeFirstPackageGPRSTimeout = 10*1000"

lemmas timeout_consts =
  kBaseFirstPackageWifiTimeout_def kBaseFirstPackageGPRSTimeout_def
  kMaxFirstPackageWifiTimeout_def kMaxFirstPackageGPRSTimeout_def kGPRSMinRate_def
  kWifiMinRate_def kWifiPackageInterval_def kGPRSPackageInterval_def kWifiTaskDelay_def
  kGPRSTaskDelay_def kMaxRecvLen_def kDynTimeFirstPackageWifiTimeout_def
  kDynTimeFirstPackageGPRSTimeout_def

definition SetLastFailedStatus :: "TaskProfile \<Rightarrow> TaskProfile" where
  "SetLastFailedStatus p =
     (if 0 < remain_retry_count p
      then p\<lparr>last_failed_dyntime_status := current_dyntime_status p\<rparr> else p)"

definition ReadWriteTimeout :: "NetType \<Rightarrow> u64 \<Rightarrow> u64" where
  "ReadWriteTimeout net first_pkg =
     (let rate = (if net \<noteq> kMobile then kWifiMinRate else kGPRSMinRate)
      in first_pkg + 1000 * kMaxRecvLen div rate)"

definition FirstPkgTimeout :: "NetType \<Rightarrow> int \<Rightarrow> u64 \<Rightarrow> int \<Rightarrow> DynStatus \<Rightarrow> u64" where
  "FirstPkgTimeout net init_first_pkg_timeout sendlen send_count dynamictimeout_status =
     (let task_delay = (if net \<noteq> kMobile then kWifiTaskDelay else kGPRSTaskDelay)
      in if dynamictimeout_status = kExcellent \<and> init_first_pkg_timeout = 0 then
           (if net \<noteq> kMobile then kDynTimeFirstPackageWifiTimeout
            else kDynTimeFirstPackageGPRSTimeout) + word_of_int send_count * task_delay
         else
           let rate = (if net \<noteq> kMobile then kWifiMinRate else kGPRSMinRate);
               base_rw_timeout = (if net \<noteq> kMobile then kBaseFirstPackageWifiTimeout
                                  else kBaseFirstPackageGPRSTimeout);
               max_rw_timeout = (if net \<noteq> kMobile then kMaxFirstPackageWifiTimeout
                                 else kMaxFirstPackageGPRSTimeout);
               ret = (if 0 < init_first_pkg_timeout
                      then word_of_int init_first_pkg_timeout + 1000 * sendlen div rate
                      else let r = base_rw_timeout + 1000 * sendlen div rate
                           in if r < max_rw_timeout then r else max_rw_timeout)
           in ret + word_of_int send_count * task_delay)"

text \<open>\<open>lst_cmd_.sort(__CompareTask)\<close>: \<open>std::list::sort\<close> is stable, as
  \<open>sort_key\<close> is.\<close>

definition sort_tasks :: "TaskProfile list \<Rightarrow> TaskProfile list" where
  "sort_tasks ps = sort_key (\<lambda>p. priority (tp_task p)) ps"

section \<open>Properties\<close>

text \<open>A task as \<open>__ValidAndInitDefault\<close> of the network core leaves it.\<close>

definition valid_params :: "Task \<Rightarrow> bool" where
  "valid_params t \<longleftrightarrow> server_process_cost t \<le> 2*60*1000 \<and> 0 \<le> retry_count t \<and>
     retry_count t \<le> 30 \<and> total_timetout t \<le> 10*60*1000"

text \<open>The timeout over the integers: no intermediate value of the computation wraps.\<close>

definition full_timeout :: "Task \<Rightarrow> int" where
  "full_timeout t = (max 0 (server_process_cost t) + 20000) * (retry_count t + 1)"

lemma full_timeout_bounds:
  assumes "valid_params t"
  shows "20000 \<le> full_timeout t" "full_timeout t \<le> 4340000"
proof -
  let ?a = "max 0 (server_process_cost t) + 20000" and ?b = "retry_count t + 1"
  have a: "20000 \<le> ?a" "?a \<le> 140000" and b: "1 \<le> ?b" "?b \<le> 31"
    using assms by (auto simp: valid_params_def)
  show "20000 \<le> full_timeout t"
    unfolding full_timeout_def using mult_mono [OF a(1) b(1)] a by simp
  show "full_timeout t \<le> 4340000"
    unfolding full_timeout_def using mult_mono [OF a(2) b(2)] b by simp
qed

lemma ComputeTaskTimeout_int:
  assumes v: "valid_params t"
  shows "uint (ComputeTaskTimeout t) =
     (if 0 < total_timetout t then min (total_timetout t) (full_timeout t) else full_timeout t)"
proof -
  let ?f = "word_of_int (full_timeout t) :: u64"
  have f: "uint ?f = full_timeout t"
    using full_timeout_bounds [OF v] by (intro uint_wi_u64) auto
  have s: "s32 (server_process_cost t + 15 * 1000) = server_process_cost t + 15000"
    if "0 < server_process_cost t"
    using v that by (subst s32_id) (auto simp: valid_params_def)
  have r: "s32 (retry_count t + 1) = retry_count t + 1"
    using v by (intro s32_id) (auto simp: valid_params_def)
  have full: "((if 0 < server_process_cost t
        then word_of_int (s32 (server_process_cost t + 15 * 1000)) else 15 * 1000) + 5 * 1000)
        * word_of_int (s32 (retry_count t + 1)) = ?f"
    using s r by (auto simp: full_timeout_def max_def algebra_simps)
  have tt: "uint (word_of_int (total_timetout t) :: u64) = total_timetout t"
    if "0 < total_timetout t"
    using v that by (intro uint_wi_u64) (auto simp: valid_params_def)
  have "ComputeTaskTimeout t =
     (if 0 < total_timetout t \<and> word_of_int (total_timetout t) < ?f
      then word_of_int (total_timetout t) else ?f)"
    using v full by (simp add: ComputeTaskTimeout_def Let_def valid_params_def)
  then show ?thesis using f tt by (auto simp: word_less_def min_def)
qed

lemma set_sort_tasks [simp]: "set (sort_tasks ps) = set ps"
  by (simp add: sort_tasks_def)

lemma mset_sort_tasks [simp]: "mset (sort_tasks ps) = mset ps"
  by (simp add: sort_tasks_def)

end
