(* ===== verification/Task_Env.thy ===== *)
theory Task_Env
  imports Stn_Task "HOL-Library.Sublist"
begin

text \<open>
  What the task managers share. \<open>stn_env\<close> collects the functions they call and do not own:
  the application's callbacks of stn/stn_logic.h, the \<open>boost::function\<close> members that the
  network core fills in, the shared \<open>DynamicTimeout\<close>, the network type. They act on a state
  \<open>'w\<close> of their own and are parameters of every operation. \<open>walk\<close> is the traversal
  that every handler uses on its task list: the successor is taken before the element is
  handled, so the handler may change or erase the element.

  The two locales are the contracts around the managers: \<open>task_sink\<close> for what the callback
  does with a task that leaves a manager, \<open>task_store\<close> for the list operations that the
  network core calls by task id.
\<close>

section \<open>The functions the managers call\<close>

record 'w stn_env =
  MakesureAuthed :: "'w \<Rightarrow> bool \<times> 'w"
  Req2Buf :: "u32 \<Rightarrow> nat \<Rightarrow> int \<Rightarrow> bytes \<Rightarrow> bytes \<Rightarrow> 'w \<Rightarrow> (bool \<times> bytes \<times> bytes \<times> int) \<times> 'w"
  Buf2Resp :: "u32 \<Rightarrow> nat \<Rightarrow> bytes \<Rightarrow> bytes \<Rightarrow> int \<Rightarrow> 'w \<Rightarrow> (int \<times> int) \<times> 'w"
  ReportTask :: "TaskProfile \<Rightarrow> 'w \<Rightarrow> 'w"
  OnPkgEvent :: "bool \<Rightarrow> int \<Rightarrow> 'w \<Rightarrow> 'w"
  fun_callback :: "ErrCmdType \<Rightarrow> int \<Rightarrow> int \<Rightarrow> Task \<Rightarrow> u32 \<Rightarrow> 'w \<Rightarrow> int \<times> 'w"
  fun_anti_avalanche_check :: "Task \<Rightarrow> bytes \<Rightarrow> 'w \<Rightarrow> bool \<times> 'w"
  fun_notify_network_err :: "u32 \<Rightarrow> ErrCmdType \<Rightarrow> int \<Rightarrow> string \<Rightarrow> string \<Rightarrow> u16 \<Rightarrow> 'w \<Rightarrow> 'w"
  DynStatistic :: "string \<Rightarrow> u32 \<Rightarrow> u64 \<Rightarrow> 'w \<Rightarrow> 'w"
  DynGetStatus :: "'w \<Rightarrow> DynStatus"
  NetInfo :: "'w \<Rightarrow> NetType"

text \<open>Encoding a request and the avalanche check on the encoded bytes: the error to end the
  task with, or the two buffers.\<close>

definition encode_checked ::
    "('w, 'e) stn_env_scheme \<Rightarrow> int \<Rightarrow> Task \<Rightarrow> bytes \<Rightarrow> bytes \<Rightarrow> 'w
     \<Rightarrow> ((ErrCmdType \<times> int) + (bytes \<times> bytes)) \<times> 'w" where
  "encode_checked env channel t buf ext w =
     (case Req2Buf env (taskid t) (user_context t) channel buf ext w of
        ((ok, buf', ext', error_code), w1) \<Rightarrow>
          if \<not> ok then (Inl (kEctEnDecode, error_code), w1)
          else case fun_anti_avalanche_check env t buf' w1 of
                 (pass, w2) \<Rightarrow> if \<not> pass then (Inl (kEctLocal, kEctLocalAntiAvalanche), w2)
                              else (Inr (buf', ext'), w2))"

text \<open>\<open>MakesureAuthed\<close> is asked at most once per pass; the two flags are
  \<open>ismakesureauthruned\<close> and \<open>ismakesureauthsuccess\<close>. The first result says whether the
  task may go on.\<close>

definition auth_gate ::
    "('w, 'e) stn_env_scheme \<Rightarrow> Task \<Rightarrow> bool \<Rightarrow> bool \<Rightarrow> 'w \<Rightarrow> bool \<times> bool \<times> bool \<times> 'w" where
  "auth_gate env t authrun authok w =
     (if \<not> need_authed t then (True, authrun, authok, w)
      else if authrun then (authok, True, authok, w)
      else case MakesureAuthed env w of (ok, w1) \<Rightarrow> (ok, True, ok, w1))"

text \<open>The profile of a finished attempt: the last one (with the final error of the task) and
  one that is followed by a retry.\<close>

definition end_profile :: "u64 \<Rightarrow> ErrCmdType \<Rightarrow> int \<Rightarrow> int \<Rightarrow> TaskProfile \<Rightarrow> TaskProfile" where
  "end_profile now et ec errcode p =
     PushHistory (p\<lparr>end_task_time := now, err_code := errcode, err_type := et,
       transfer_profile := (transfer_profile p)\<lparr>tr_error_type := et, tr_error_code := ec\<rparr>\<rparr>)"

definition retry_profile :: "ErrCmdType \<Rightarrow> int \<Rightarrow> TaskProfile \<Rightarrow> TaskProfile" where
  "retry_profile et ec p =
     InitSendParam (PushHistory (p\<lparr>remain_retry_count := remain_retry_count p - 1,
       transfer_profile := (transfer_profile p)\<lparr>tr_error_type := et, tr_error_code := ec\<rparr>\<rparr>))"

definition set_connect_profile :: "ConnectProfile \<Rightarrow> TaskProfile \<Rightarrow> TaskProfile" where
  "set_connect_profile cp p = p\<lparr>transfer_profile := (transfer_profile p)\<lparr>connect_profile := cp\<rparr>\<rparr>"

text \<open>The timeouts and sizes that are set just before a request is handed to its link.\<close>

definition prepare_send ::
    "('w, 'e) stn_env_scheme \<Rightarrow> u64 \<Rightarrow> int \<Rightarrow> bytes \<Rightarrow> 'w \<Rightarrow> TaskProfile \<Rightarrow> TaskProfile" where
  "prepare_send env now sent_count buf w p =
     (let t = tp_task p; status = DynGetStatus env w; net = NetInfo env w;
          first = FirstPkgTimeout net (server_process_cost t) (of_nat (length buf)) sent_count status
      in p\<lparr>transfer_profile := (transfer_profile p)\<lparr>loop_start_task_time := now,
              first_pkg_timeout := first, read_write_timeout := ReadWriteTimeout net first,
              send_data_size := of_nat (length buf)\<rparr>,
           current_dyntime_status := Some (if server_process_cost t \<le> 0 then status else kEValuating)\<rparr>)"

text \<open>\<open>__OnSend\<close> and \<open>__OnRecv\<close> of both managers on the task they concern.\<close>

definition on_send :: "u64 \<Rightarrow> TaskProfile \<Rightarrow> TaskProfile" where
  "on_send now p =
     (let tr = transfer_profile p;
          tr1 = (if first_start_send_time tr = 0 then tr\<lparr>first_start_send_time := now\<rparr> else tr)
      in p\<lparr>transfer_profile := tr1\<lparr>start_send_time := now\<rparr>\<rparr>)"

definition on_recv ::
    "('w, 'e) stn_env_scheme \<Rightarrow> u64 \<Rightarrow> u64 \<Rightarrow> u64 \<Rightarrow> TaskProfile \<Rightarrow> 'w \<Rightarrow> TaskProfile \<times> 'w" where
  "on_recv env now cachedsize totalsize p w =
     (let tr = transfer_profile p;
          w1 = (if last_receive_pkg_time tr = 0
                then OnPkgEvent env True (s32 (uint (now - start_send_time tr))) w
                else OnPkgEvent env False (s32 (uint (now - last_receive_pkg_time tr))) w)
      in (p\<lparr>transfer_profile := tr\<lparr>received_size := cachedsize, receive_data_size := totalsize,
              last_receive_pkg_time := now\<rparr>\<rparr>, w1))"

definition on_body :: "u64 \<Rightarrow> bytes \<Rightarrow> TaskProfile \<Rightarrow> TaskProfile" where
  "on_body now body p = p\<lparr>transfer_profile := (transfer_profile p)\<lparr>
     received_size := of_nat (length body), receive_data_size := of_nat (length body),
     last_receive_pkg_time := now\<rparr>\<rparr>"

section \<open>Traversal of a task list\<close>

fun walk :: "(TaskProfile \<Rightarrow> 's \<Rightarrow> TaskProfile option \<times> 's) \<Rightarrow> TaskProfile list \<Rightarrow> 's
    \<Rightarrow> TaskProfile list \<times> 's" where
  "walk f [] s = ([], s)"
| "walk f (p # ps) s =
     (case f p s of (r, s1) \<Rightarrow>
        case walk f ps s1 of (qs, s2) \<Rightarrow> ((case r of None \<Rightarrow> qs | Some q \<Rightarrow> q # qs), s2))"

text \<open>The first task that satisfies a predicate, as \<open>std::find_if\<close> gives it, handled and put
  back in its place.\<close>

fun at_first :: "(TaskProfile \<Rightarrow> bool) \<Rightarrow> (TaskProfile \<Rightarrow> 's \<Rightarrow> TaskProfile option \<times> 's)
    \<Rightarrow> TaskProfile list \<Rightarrow> 's \<Rightarrow> TaskProfile list \<times> 's" where
  "at_first P f [] s = ([], s)"
| "at_first P f (p # ps) s =
     (if P p then (case f p s of (r, s1) \<Rightarrow> ((case r of None \<Rightarrow> ps | Some q \<Rightarrow> q # ps), s1))
      else case at_first P f ps s of (qs, s1) \<Rightarrow> (p # qs, s1))"

abbreviation pid :: "TaskProfile \<Rightarrow> u32" where
  "pid p \<equiv> taskid (tp_task p)"

definition ids :: "TaskProfile list \<Rightarrow> u32 multiset" where
  "ids ps = mset (map pid ps)"

lemma ids_simps [simp]:
  "ids [] = {#}" "ids (p # ps) = add_mset (pid p) (ids ps)" "ids (ps @ qs) = ids ps + ids qs"
  by (simp_all add: ids_def)

lemma ids_sort_tasks [simp]: "ids (sort_tasks ps) = ids ps"
  by (simp add: ids_def)

lemma pid_helpers [simp]:
  "tp_task (end_profile now et ec errcode p) = tp_task p"
  "tp_task (retry_profile et ec p) = tp_task p"
  "tp_task (set_connect_profile cp p) = tp_task p"
  "tp_task (prepare_send env now k buf w p) = tp_task p"
  "tp_task (on_send now p) = tp_task p" "tp_task (on_body now body p) = tp_task p"
  "tp_task (fst (on_recv env now a b p w)) = tp_task p"
  "tp_task (SetLastFailedStatus p) = tp_task p"
  by (simp_all add: end_profile_def retry_profile_def set_connect_profile_def prepare_send_def
      on_send_def on_body_def on_recv_def SetLastFailedStatus_def PushHistory_def InitSendParam_def Let_def)

text \<open>The attempts made and the attempts left add up to the number of retries asked for.\<close>

definition retries_ok :: "TaskProfile \<Rightarrow> bool" where
  "retries_ok p \<longleftrightarrow> 0 \<le> remain_retry_count p \<and>
     int (length (history_transfer_profiles p)) + remain_retry_count p = retry_count (tp_task p)"

text \<open>The task is not past its deadline at the given time.\<close>

definition in_time :: "u64 \<Rightarrow> TaskProfile \<Rightarrow> bool" where
  "in_time now p \<longleftrightarrow> \<not> task_timeout p \<le> now - start_task_time p"

text \<open>What a handler keeps of a task that stays in the list.\<close>

definition kept :: "TaskProfile \<Rightarrow> TaskProfile \<Rightarrow> bool" where
  "kept q p \<longleftrightarrow> tp_task q = tp_task p \<and> start_task_time q = start_task_time p \<and>
     task_timeout q = task_timeout p \<and> (retries_ok p \<longrightarrow> retries_ok q)"

lemma kept_refl [simp]: "kept p p"
  by (simp add: kept_def)

lemma kept_trans: "kept r q \<Longrightarrow> kept q p \<Longrightarrow> kept r p"
  by (simp add: kept_def)

lemma kept_task: "kept q p \<Longrightarrow> tp_task q = tp_task p"
  by (simp add: kept_def)

text \<open>\<open>survive qs ps\<close>: the tasks of \<open>qs\<close> are some of those of \<open>ps\<close>, in the same order.\<close>

abbreviation survive :: "TaskProfile list \<Rightarrow> TaskProfile list \<Rightarrow> bool" where
  "survive qs ps \<equiv> list_emb kept qs ps"

lemma survive_refl [simp]: "survive ps ps"
  by (simp add: list_emb_refl)

lemma survive_trans: "survive rs qs \<Longrightarrow> survive qs ps \<Longrightarrow> survive rs ps"
  by (rule list_emb_trans) (auto intro: kept_trans)

lemma survive_set: "survive qs ps \<Longrightarrow> q \<in> set qs \<Longrightarrow> \<exists>p \<in> set ps. kept q p"
  by (meson list_emb_set)

lemma survive_retries: "survive qs ps \<Longrightarrow> \<forall>p \<in> set ps. retries_ok p \<Longrightarrow> \<forall>q \<in> set qs. retries_ok q"
  by (metis survive_set kept_def)

lemma survive_in_time: "survive qs ps \<Longrightarrow> \<forall>p \<in> set ps. in_time now p \<Longrightarrow> \<forall>q \<in> set qs. in_time now q"
  by (metis survive_set kept_def in_time_def)

lemma survive_sorted:
  assumes "survive qs ps" "sorted (map (\<lambda>p. priority (tp_task p)) ps)"
  shows "sorted (map (\<lambda>p. priority (tp_task p)) qs)"
  using assms
proof (induction rule: list_emb.induct)
  case (list_emb_Cons2 q p qs ps)
  have "\<forall>r \<in> set qs. priority (tp_task q) \<le> priority (tp_task r)"
    using list_emb_Cons2.prems survive_set [OF list_emb_Cons2.hyps(2)] kept_task
      kept_task [OF list_emb_Cons2.hyps(1)] by fastforce
  then show ?case using list_emb_Cons2 by simp
qed simp_all

text \<open>One step of a handler: the task stays, or its id has moved into \<open>gone\<close>. \<open>timer\<close> is the
  part of the state that handlers of single tasks leave alone, \<open>iv\<close> an invariant that they
  keep.\<close>

definition step_ok :: "('s \<Rightarrow> u32 multiset) \<Rightarrow> ('s \<Rightarrow> bool) \<Rightarrow> ('s \<Rightarrow> bool) \<Rightarrow> TaskProfile \<Rightarrow> 's
    \<Rightarrow> TaskProfile option \<times> 's \<Rightarrow> bool" where
  "step_ok gone timer iv p s r \<longleftrightarrow> timer (snd r) = timer s \<and> (iv s \<longrightarrow> iv (snd r)) \<and>
     (case fst r of None \<Rightarrow> gone (snd r) = add_mset (pid p) (gone s)
                  | Some q \<Rightarrow> gone (snd r) = gone s \<and> kept q p)"

lemma step_ok_simps [simp]:
  "step_ok gone timer iv p s (None, s1) \<longleftrightarrow>
     timer s1 = timer s \<and> (iv s \<longrightarrow> iv s1) \<and> gone s1 = add_mset (pid p) (gone s)"
  "step_ok gone timer iv p s (Some q, s1) \<longleftrightarrow>
     timer s1 = timer s \<and> (iv s \<longrightarrow> iv s1) \<and> gone s1 = gone s \<and> kept q p"
  by (simp_all add: step_ok_def)

lemma step_ok_from:
  assumes "step_ok gone timer iv p s r" "timer s = timer s0" "gone s = gone s0" "iv s0 \<longrightarrow> iv s"
  shows "step_ok gone timer iv p s0 r"
  using assms by (simp add: step_ok_def split: option.splits)

lemma step_ok_kept: "step_ok gone timer iv q s r \<Longrightarrow> kept q p \<Longrightarrow> step_ok gone timer iv p s r"
  using kept_trans [of _ q p] kept_task [of q p] by (auto simp: step_ok_def split: option.splits)

lemma walk_ok:
  assumes "\<And>p s. step_ok gone timer iv p s (f p s)" and "walk f ps s = (qs, s')"
  shows "ids qs + gone s' = ids ps + gone s" and "timer s' = timer s" and "survive qs ps"
    and "iv s \<longrightarrow> iv s'"
proof -
  have "ids qs + gone s' = ids ps + gone s \<and> timer s' = timer s \<and> survive qs ps \<and> (iv s \<longrightarrow> iv s')"
    using assms(2)
  proof (induction ps arbitrary: s qs s')
    case (Cons p ps)
    obtain r s1 where r: "f p s = (r, s1)" by force
    obtain us s2 where u: "walk f ps s1 = (us, s2)" by force
    have "step_ok gone timer iv p s (r, s1)" using assms(1) [of p s] r by simp
    then show ?case
      using Cons.IH [OF u] Cons.prems r u
      by (cases r) (auto simp: ac_simps kept_task)
  qed simp
  then show "ids qs + gone s' = ids ps + gone s" "timer s' = timer s" "survive qs ps"
    "iv s \<longrightarrow> iv s'" by simp_all
qed

lemma at_first_ok:
  assumes "\<And>p s. step_ok gone timer iv p s (f p s)" and "at_first P f ps s = (qs, s')"
  shows "ids qs + gone s' = ids ps + gone s" and "timer s' = timer s" and "survive qs ps"
    and "iv s \<longrightarrow> iv s'"
proof -
  have "ids qs + gone s' = ids ps + gone s \<and> timer s' = timer s \<and> survive qs ps \<and> (iv s \<longrightarrow> iv s')"
    using assms(2)
  proof (induction ps arbitrary: s qs s')
    case (Cons p ps)
    show ?case
    proof (cases "P p")
      case True
      obtain r s1 where r: "f p s = (r, s1)" by force
      have "step_ok gone timer iv p s (r, s1)" using assms(1) [of p s] r by simp
      then show ?thesis
        using Cons.prems True r by (cases r) (auto simp: kept_task)
    next
      case False
      obtain us s1 where u: "at_first P f ps s = (us, s1)" by force
      then show ?thesis using Cons.IH [OF u] Cons.prems False by auto
    qed
  qed simp
  then show "ids qs + gone s' = ids ps + gone s" "timer s' = timer s" "survive qs ps"
    "iv s \<longrightarrow> iv s'" by simp_all
qed

lemma walk_all:
  assumes "\<And>p s q s'. f p s = (Some q, s') \<Longrightarrow> Q q" and "walk f ps s = (qs, s')"
  shows "\<forall>q \<in> set qs. Q q"
  using assms(2)
proof (induction ps arbitrary: s qs s')
  case (Cons p ps)
  obtain r s1 where r: "f p s = (r, s1)" by force
  obtain us s2 where u: "walk f ps s1 = (us, s2)" by force
  show ?case using Cons.IH [OF u] Cons.prems r u assms(1) by (cases r) auto
qed simp

lemma kept_helpers [simp]:
  "kept (set_connect_profile cp p) p" "kept (prepare_send env now k buf w p) p"
  "kept (on_send now p) p" "kept (on_body now body p) p" "kept (fst (on_recv env now a b p w)) p"
  "kept (SetLastFailedStatus p) p" "kept (p\<lparr>running_id := rid\<rparr>) p"
  "kept (p\<lparr>antiavalanche_checked := b'\<rparr>) p" "kept (p\<lparr>last_failed_dyntime_status := st\<rparr>) p"
  by (simp_all add: kept_def retries_ok_def set_connect_profile_def prepare_send_def on_send_def
      on_body_def on_recv_def SetLastFailedStatus_def Let_def)

lemma kept_frame [simp]:
  "kept (p\<lparr>retry_start_time := a, retry_time_interval := b\<rparr>) q \<longleftrightarrow> kept p q"
  "kept (p\<lparr>use_proxy := c, running_id := rid\<rparr>) q \<longleftrightarrow> kept p q"
  "kept (p\<lparr>force_no_retry := c\<rparr>) q \<longleftrightarrow> kept p q"
  by (simp_all add: kept_def retries_ok_def)

lemma kept_retry: "0 < remain_retry_count p \<Longrightarrow> kept (retry_profile et ec p) p"
  by (simp add: kept_def retries_ok_def retry_profile_def PushHistory_def InitSendParam_def)

lemma remain_helpers [simp]:
  "remain_retry_count (set_connect_profile cp p) = remain_retry_count p"
  by (simp add: set_connect_profile_def)

lemma retries_ok_new: "0 \<le> retry_count t \<Longrightarrow> retries_ok ((TaskProfile_new now t)\<lparr>link_type := l\<rparr>)"
  by (simp add: retries_ok_def TaskProfile_new_def)

section \<open>The contract of the callback\<close>

text \<open>\<open>gone w\<close>: the ids of the tasks that the managers have handed over. The callback adds the
  task it is called for; nothing else that a manager calls changes it. \<open>winv\<close> is an invariant
  of the callee that all the functions keep.\<close>

locale task_sink =
  fixes env :: "('w, 'e) stn_env_scheme" and gone :: "'w \<Rightarrow> u32 multiset" and winv :: "'w \<Rightarrow> bool"
  assumes callback: "gone (snd (fun_callback env et ec fh t cost w)) = add_mset (taskid t) (gone w) \<and>
      (winv w \<longrightarrow> winv (snd (fun_callback env et ec fh t cost w)))"
    and auth: "gone (snd (MakesureAuthed env w)) = gone w \<and> (winv w \<longrightarrow> winv (snd (MakesureAuthed env w)))"
    and req: "gone (snd (Req2Buf env i c ch buf ext w)) = gone w \<and>
      (winv w \<longrightarrow> winv (snd (Req2Buf env i c ch buf ext w)))"
    and resp: "gone (snd (Buf2Resp env i c buf ext ch w)) = gone w \<and>
      (winv w \<longrightarrow> winv (snd (Buf2Resp env i c buf ext ch w)))"
    and report: "gone (ReportTask env p w) = gone w \<and> (winv w \<longrightarrow> winv (ReportTask env p w))"
    and pkg: "gone (OnPkgEvent env b n w) = gone w \<and> (winv w \<longrightarrow> winv (OnPkgEvent env b n w))"
    and avalanche: "gone (snd (fun_anti_avalanche_check env t buf w)) = gone w \<and>
      (winv w \<longrightarrow> winv (snd (fun_anti_avalanche_check env t buf w)))"
    and notify: "gone (fun_notify_network_err env k et ec ip host port w) = gone w \<and>
      (winv w \<longrightarrow> winv (fun_notify_network_err env k et ec ip host port w))"
    and dyn: "gone (DynStatistic env cgi' size' cost' w) = gone w \<and>
      (winv w \<longrightarrow> winv (DynStatistic env cgi' size' cost' w))"
begin

text \<open>\<open>same w w'\<close>: a call that hands over no task and keeps the invariant.\<close>

definition same :: "'w \<Rightarrow> 'w \<Rightarrow> bool" where
  "same w w' \<longleftrightarrow> gone w' = gone w \<and> (winv w \<longrightarrow> winv w')"

lemma same_refl [simp]: "same w w"
  by (simp add: same_def)

lemma same_trans: "same w w' \<Longrightarrow> same w' w'' \<Longrightarrow> same w w''"
  by (simp add: same_def)

lemma encode_same: "same w (snd (encode_checked env ch t buf ext w))"
proof -
  obtain ok b e c w1 where r: "Req2Buf env (taskid t) (user_context t) ch buf ext w = ((ok, b, e, c), w1)"
    by (metis prod.exhaust)
  have "same w w1" using req [of "taskid t" "user_context t" ch buf ext w] r by (simp add: same_def)
  moreover have "same w1 (snd (fun_anti_avalanche_check env t b w1))"
    using avalanche [of t b w1] by (simp add: same_def)
  ultimately show ?thesis
    using same_trans by (auto simp: encode_checked_def r split: prod.splits)
qed

lemma auth_same: "auth_gate env t a b w = (ok, a', b', w') \<Longrightarrow> same w w'"
  using auth [of w] by (auto simp: auth_gate_def same_def split: if_splits prod.splits)

lemma recv_same: "same w (snd (on_recv env now a b p w))"
  by (simp add: on_recv_def Let_def pkg same_def)

end

section \<open>The contract of a task store\<close>

text \<open>The lookups and removals by task id that the network core uses on all three managers.\<close>

locale task_store =
  fixes held :: "'s \<Rightarrow> u32 list"
    and has :: "u32 \<Rightarrow> 's \<Rightarrow> bool"
    and stop :: "u32 \<Rightarrow> 's \<Rightarrow> bool \<times> 's"
    and clear :: "'s \<Rightarrow> 's"
  assumes has_iff: "has i s \<longleftrightarrow> i \<in> set (held s)"
    and stop_found: "fst (stop i s) \<longleftrightarrow> i \<in> set (held s)"
    and stop_held: "held (snd (stop i s)) = remove1 i (held s)"
    and clear_held: "held (clear s) = []"
begin

lemma stop_has: "distinct (held s) \<Longrightarrow> has j (snd (stop i s)) \<longleftrightarrow> has j s \<and> j \<noteq> i"
  by (auto simp: has_iff stop_held)

lemma stop_idem: "distinct (held s) \<Longrightarrow> \<not> fst (stop i (snd (stop i s)))"
  by (simp add: stop_found stop_held)

lemma stop_absent: "\<not> has i s \<Longrightarrow> \<not> fst (stop i s) \<and> held (snd (stop i s)) = held s"
  by (simp add: has_iff stop_found stop_held remove1_idem)

lemma clear_has: "\<not> has i (clear s)"
  by (simp add: has_iff clear_held)

end

text \<open>The loop that finds a task by its id and erases it.\<close>

fun erase_first :: "('t \<Rightarrow> bool) \<Rightarrow> 't list \<Rightarrow> ('t \<times> 't list) option" where
  "erase_first P [] = None"
| "erase_first P (x # xs) =
     (if P x then Some (x, xs)
      else case erase_first P xs of None \<Rightarrow> None | Some (y, ys) \<Rightarrow> Some (y, x # ys))"

lemma erase_first_None: "erase_first P xs = None \<longleftrightarrow> (\<forall>x \<in> set xs. \<not> P x)"
  by (induction xs) (auto split: option.splits)

lemma erase_first_key:
  assumes "erase_first (\<lambda>x. i = key x) xs = Some (y, ys)"
  shows "key y = i \<and> map key ys = remove1 i (map key xs) \<and> mset xs = add_mset y (mset ys)"
  using assms
proof (induction xs arbitrary: ys)
  case (Cons x xs)
  show ?case
  proof (cases "i = key x")
    case False
    then obtain zs where "erase_first (\<lambda>x. i = key x) xs = Some (y, zs)" "ys = x # zs"
      using Cons.prems by (auto split: option.splits)
    then show ?thesis using Cons.IH [of zs] False by simp
  qed (use Cons.prems in simp)
qed simp


lemma erase_first_cases:
  obtains (absent) "erase_first (\<lambda>x. i = key x) xs = None" "i \<notin> set (map key xs)"
  | (found) y ys where "erase_first (\<lambda>x. i = key x) xs = Some (y, ys)" "key y = i"
      "map key ys = remove1 i (map key xs)" "i \<in> set (map key xs)" "mset xs = add_mset y (mset ys)"
proof (cases "erase_first (\<lambda>x. i = key x) xs")
  case None
  then show ?thesis using absent by (auto simp: erase_first_None)
next
  case (Some yy)
  obtain y ys where yy: "yy = (y, ys)" by force
  note k = erase_first_key [OF Some [unfolded yy]]
  then have "set xs = insert y (set ys)" by (metis set_mset_add_mset_insert set_mset_mset)
  then show ?thesis using found Some yy k by auto
qed

end
