(* ===== verification/Auto_Buffer.thy ===== *)
theory Auto_Buffer
  imports Mars_Prelude "HOL-Library.Monad_Syntax"
begin

text \<open>
  The growable byte buffer of comm/autobuffer.cc. A buffer owns a heap block
  (\<open>ab_parray\<close>, \<open>None\<close> for a null pointer), a read/write position and a length. An
  operation yields \<open>None\<close> where the source would access memory outside the block; the
  assertions of the source only write a log line in a release build and are not part of the
  operations. \<open>realloc\<close> is modelled by the argument \<open>ok\<close>: the sizes for which it
  succeeds.
\<close>

section \<open>State and operations\<close>

datatype TSeek = ESeekStart | ESeekCur | ESeekEnd

record AutoBuffer =
  ab_parray :: "bytes option"
  ab_pos :: int
  ab_length :: nat
  ab_capacity :: nat
  ab_malloc_unitsize :: nat

definition block :: "AutoBuffer \<Rightarrow> bytes" where
  "block b = (case ab_parray b of None \<Rightarrow> [] | Some m \<Rightarrow> m)"

text \<open>\<open>memcpy\<close> and \<open>memmove\<close> into a block at an offset, and \<open>memset\<close> to zero.\<close>

definition mem_write :: "nat \<Rightarrow> bytes \<Rightarrow> bytes \<Rightarrow> bytes" where
  "mem_write p d m = take p m @ d @ drop (p + length d) m"

definition AutoBuffer_new :: "nat \<Rightarrow> AutoBuffer" where
  "AutoBuffer_new nSize =
     \<lparr>ab_parray = None, ab_pos = 0, ab_length = 0, ab_capacity = 0, ab_malloc_unitsize = nSize\<rparr>"

definition FitSize :: "(nat \<Rightarrow> bool) \<Rightarrow> nat \<Rightarrow> AutoBuffer \<Rightarrow> AutoBuffer option" where
  "FitSize ok len b =
     (if ab_capacity b < len then
        if ab_malloc_unitsize b = 0 then None
        else let mallocsize =
                   sz (sz (len + ab_malloc_unitsize b - 1) div ab_malloc_unitsize b
                       * ab_malloc_unitsize b)
             in if ok mallocsize then
                  if mallocsize < ab_capacity b then None
                  else Some (b\<lparr>ab_parray := Some (block b @ replicate (mallocsize - ab_capacity b) 0),
                               ab_capacity := mallocsize\<rparr>)
                else Some (b\<lparr>ab_parray := None, ab_capacity := 0\<rparr>)
      else Some b)"

definition Seek :: "int \<Rightarrow> TSeek \<Rightarrow> AutoBuffer \<Rightarrow> AutoBuffer" where
  "Seek offset origin b =
     (let p = (case origin of ESeekStart \<Rightarrow> offset
                            | ESeekCur \<Rightarrow> ab_pos b + offset
                            | ESeekEnd \<Rightarrow> int (ab_length b) + offset);
          p' = (if p < 0 then 0 else p)
      in b\<lparr>ab_pos := (if int (ab_length b) < p' then int (ab_length b) else p')\<rparr>)"

definition Length_set :: "int \<Rightarrow> nat \<Rightarrow> AutoBuffer \<Rightarrow> AutoBuffer" where
  "Length_set pos len b = Seek pos ESeekStart (b\<lparr>ab_length := len\<rparr>)"

definition PosLength :: "AutoBuffer \<Rightarrow> nat" where
  "PosLength b = nat ((int (ab_length b) - ab_pos b) mod 2 ^ 64)"

definition Reset :: "AutoBuffer \<Rightarrow> AutoBuffer" where
  "Reset b = b\<lparr>ab_parray := None, ab_pos := 0, ab_length := 0, ab_capacity := 0\<rparr>"

definition AllocWrite :: "(nat \<Rightarrow> bool) \<Rightarrow> nat \<Rightarrow> bool \<Rightarrow> AutoBuffer \<Rightarrow> AutoBuffer option" where
  "AllocWrite ok readytowrite changelength b =
     (let nLen = nat ((ab_pos b + int readytowrite) mod 2 ^ 64)
      in do { b' \<leftarrow> FitSize ok nLen b;
              Some (if changelength then b'\<lparr>ab_length := max nLen (ab_length b')\<rparr> else b') })"

definition AddCapacity :: "(nat \<Rightarrow> bool) \<Rightarrow> nat \<Rightarrow> AutoBuffer \<Rightarrow> AutoBuffer option" where
  "AddCapacity ok len b = FitSize ok (sz (ab_capacity b + len)) b"

text \<open>\<open>Write(const off_t& _pos, const void* _pbuffer, size_t _len)\<close>: the primitive that
  the other overloads call.\<close>

definition Write_at :: "(nat \<Rightarrow> bool) \<Rightarrow> int \<Rightarrow> bytes \<Rightarrow> AutoBuffer \<Rightarrow> AutoBuffer option" where
  "Write_at ok pos d b =
     (let nLen = nat ((pos + int (length d)) mod 2 ^ 64)
      in do { b1 \<leftarrow> FitSize ok nLen b;
              let b2 = b1\<lparr>ab_length := max nLen (ab_length b1)\<rparr>;
              if d = [] then Some b2
              else if pos < 0 \<or> int (length (block b2)) < pos + int (length d) then None
              else Some (b2\<lparr>ab_parray := Some (mem_write (nat pos) d (block b2))\<rparr>) })"

definition Write :: "(nat \<Rightarrow> bool) \<Rightarrow> bytes \<Rightarrow> AutoBuffer \<Rightarrow> AutoBuffer option" where
  "Write ok d b =
     do { b' \<leftarrow> Write_at ok (ab_pos b) d b; Some (Seek (int (length d)) ESeekCur b') }"

definition Write_pos :: "(nat \<Rightarrow> bool) \<Rightarrow> int \<Rightarrow> bytes \<Rightarrow> AutoBuffer \<Rightarrow> (int \<times> AutoBuffer) option" where
  "Write_pos ok pos d b =
     do { b' \<leftarrow> Write_at ok pos d b; Some (pos + int (length d), b') }"

definition Write_seek :: "(nat \<Rightarrow> bool) \<Rightarrow> TSeek \<Rightarrow> bytes \<Rightarrow> AutoBuffer \<Rightarrow> AutoBuffer option" where
  "Write_seek ok seek d b =
     (let pos = (case seek of ESeekStart \<Rightarrow> 0 | ESeekCur \<Rightarrow> ab_pos b
                            | ESeekEnd \<Rightarrow> int (ab_length b))
      in Write_at ok pos d b)"

text \<open>\<open>Read(const off_t& _pos, void* _pbuffer, size_t _len)\<close>: the number of bytes is
  computed from \<open>_pos\<close>, the bytes themselves are taken at \<open>PosPtr()\<close>.\<close>

definition Read_at :: "int \<Rightarrow> nat \<Rightarrow> AutoBuffer \<Rightarrow> bytes option" where
  "Read_at pos len b =
     (let readlen = min (nat ((int (ab_length b) - pos) mod 2 ^ 64)) len
      in if readlen = 0 then Some []
         else if ab_pos b < 0 \<or> int (length (block b)) < ab_pos b + int readlen then None
         else Some (take readlen (drop (nat (ab_pos b)) (block b))))"

definition Read :: "nat \<Rightarrow> AutoBuffer \<Rightarrow> (bytes \<times> AutoBuffer) option" where
  "Read len b =
     do { d \<leftarrow> Read_at (ab_pos b) len b; Some (d, Seek (int (length d)) ESeekCur b) }"

definition Read_pos :: "int \<Rightarrow> nat \<Rightarrow> AutoBuffer \<Rightarrow> (bytes \<times> int) option" where
  "Read_pos pos len b = do { d \<leftarrow> Read_at pos len b; Some (d, pos + int (length d)) }"

text \<open>The overloads that read into another buffer write the bytes at its position.\<close>

definition Read_at_into ::
    "(nat \<Rightarrow> bool) \<Rightarrow> int \<Rightarrow> AutoBuffer \<Rightarrow> nat \<Rightarrow> AutoBuffer \<Rightarrow> (nat \<times> AutoBuffer) option" where
  "Read_at_into ok pos rhs len b =
     do { d \<leftarrow> Read_at pos len b; rhs' \<leftarrow> Write ok d rhs; Some (length d, rhs') }"

definition Read_into ::
    "(nat \<Rightarrow> bool) \<Rightarrow> AutoBuffer \<Rightarrow> nat \<Rightarrow> AutoBuffer \<Rightarrow> (AutoBuffer \<times> AutoBuffer) option" where
  "Read_into ok rhs len b =
     do { (n, rhs') \<leftarrow> Read_at_into ok (ab_pos b) rhs len b;
          Some (rhs', Seek (int n) ESeekCur b) }"

definition Move :: "(nat \<Rightarrow> bool) \<Rightarrow> int \<Rightarrow> AutoBuffer \<Rightarrow> AutoBuffer option" where
  "Move ok move_len b =
     (if 0 < move_len then
        let n = nat move_len in
        do { b' \<leftarrow> FitSize ok (sz (ab_length b + n)) b;
             if length (block b') < ab_length b' + n then None
             else Some (Length_set (ab_pos b' + move_len) (sz (ab_length b' + n))
                    (b'\<lparr>ab_parray := Some (mem_write 0 (replicate n 0)
                          (mem_write n (take (ab_length b') (block b')) (block b')))\<rparr>)) }
      else
        let n = min (nat (- move_len)) (ab_length b) in
        if length (block b) < ab_length b then None
        else Some (Length_set (if int n < ab_pos b then ab_pos b - int n else 0) (ab_length b - n)
               (if ab_parray b = None then b
                else b\<lparr>ab_parray := Some (mem_write 0 (take (ab_length b - n) (drop n (block b)))
                                                (block b))\<rparr>)))"

definition Attach :: "bytes \<Rightarrow> AutoBuffer \<Rightarrow> AutoBuffer" where
  "Attach m b = (Reset b)\<lparr>ab_parray := Some m, ab_length := length m, ab_capacity := length m\<rparr>"

text \<open>\<open>Attach(AutoBuffer&)\<close> moves the block: the pair is (this, \<open>_rhs\<close>) afterwards.\<close>

definition Attach_from :: "AutoBuffer \<Rightarrow> AutoBuffer \<Rightarrow> AutoBuffer \<times> AutoBuffer" where
  "Attach_from rhs b =
     ((Reset b)\<lparr>ab_parray := ab_parray rhs, ab_pos := ab_pos rhs, ab_length := ab_length rhs,
                 ab_capacity := ab_capacity rhs\<rparr>,
      Reset (rhs\<lparr>ab_parray := None\<rparr>))"

definition Detach :: "AutoBuffer \<Rightarrow> (bytes option \<times> nat) \<times> AutoBuffer" where
  "Detach b = ((ab_parray b, ab_length b), Reset (b\<lparr>ab_parray := None\<rparr>))"

section \<open>Well-formedness and contents\<close>

definition wf_buffer :: "AutoBuffer \<Rightarrow> bool" where
  "wf_buffer b \<longleftrightarrow>
     0 < ab_malloc_unitsize b \<and> 0 \<le> ab_pos b \<and> ab_pos b \<le> int (ab_length b) \<and>
     ab_length b \<le> ab_capacity b \<and> length (block b) = ab_capacity b"

definition contents :: "AutoBuffer \<Rightarrow> bytes" where
  "contents b = take (ab_length b) (block b)"

text \<open>Room for \<open>n\<close> bytes: the size computations of the growth stay below
  \<open>SIZE_MAX\<close>.\<close>

definition room :: "nat \<Rightarrow> AutoBuffer \<Rightarrow> bool" where
  "room n b \<longleftrightarrow> n + ab_malloc_unitsize b < 2 ^ 64"

definition alloc_all :: "nat \<Rightarrow> bool" where
  "alloc_all n = True"

lemma alloc_all [simp]: "alloc_all n"
  by (simp add: alloc_all_def)

lemma length_mem_write [simp]:
  "p + length d \<le> length m \<Longrightarrow> length (mem_write p d m) = length m"
  by (simp add: mem_write_def)

lemma length_contents: "wf_buffer b \<Longrightarrow> length (contents b) = ab_length b"
  by (simp add: wf_buffer_def contents_def)

lemma wf_AutoBuffer_new: "0 < n \<Longrightarrow> wf_buffer (AutoBuffer_new n)"
  by (simp add: wf_buffer_def AutoBuffer_new_def block_def)

lemma contents_AutoBuffer_new [simp]: "contents (AutoBuffer_new n) = []"
  by (simp add: contents_def AutoBuffer_new_def)

lemma block_parray [simp]: "block (b\<lparr>ab_parray := Some m\<rparr>) = m"
  by (simp add: block_def)

lemma block_frame [simp]:
  "block (b\<lparr>ab_length := n\<rparr>) = block b" "block (b\<lparr>ab_pos := p\<rparr>) = block b"
  "block (b\<lparr>ab_capacity := c\<rparr>) = block b"
  by (simp_all add: block_def)

lemma Seek_frame [simp]:
  "block (Seek p w b) = block b" "ab_length (Seek p w b) = ab_length b"
  "ab_capacity (Seek p w b) = ab_capacity b" "ab_malloc_unitsize (Seek p w b) = ab_malloc_unitsize b"
  by (simp_all add: Seek_def Let_def block_def)

lemma contents_Seek [simp]: "contents (Seek p w b) = contents b"
  by (simp add: contents_def)

lemma Seek_pos_range: "0 \<le> ab_pos (Seek p w b)" "ab_pos (Seek p w b) \<le> int (ab_length b)"
  by (simp_all add: Seek_def Let_def)

lemma wf_Seek: "wf_buffer b \<Longrightarrow> wf_buffer (Seek p w b)"
  using Seek_pos_range [of p w b] by (simp add: wf_buffer_def)

lemma Seek_cur:
  "0 \<le> ab_pos b \<Longrightarrow>
   Seek (int n) ESeekCur b = b\<lparr>ab_pos := min (ab_pos b + int n) (int (ab_length b))\<rparr>"
  by (auto simp: Seek_def Let_def min_def)

lemma min_clamp:
  "q \<le> l \<Longrightarrow> min (int q + int (min (l - q) n)) (int l) = min (int q + int n) (int l)"
  by (cases "l - q \<le> n") (auto simp: min_def of_nat_diff)

lemma roundup_div:
  fixes u n :: nat
  assumes "0 < u"
  shows "n \<le> (n + u - 1) div u * u" "(n + u - 1) div u * u \<le> n + u - 1"
proof -
  have "(n + u - 1) div u * u + (n + u - 1) mod u = n + u - 1" by simp
  moreover have "(n + u - 1) mod u < u" using assms by simp
  ultimately show "n \<le> (n + u - 1) div u * u" "(n + u - 1) div u * u \<le> n + u - 1"
    using assms by linarith+
qed

text \<open>Growing never fails while there is room, keeps every byte of the block and pads it
  with zeros up to a capacity of at least the requested size.\<close>

lemma FitSize_grows:
  assumes wf: "wf_buffer b" and room: "room n b" and ok: "\<And>m. ok m"
  obtains b' k where "FitSize ok n b = Some b'" and "block b' = block b @ replicate k 0"
    and "wf_buffer b'" and "n \<le> ab_capacity b'" and "ab_length b' = ab_length b"
    and "ab_pos b' = ab_pos b" and "ab_malloc_unitsize b' = ab_malloc_unitsize b"
proof (cases "ab_capacity b < n")
  case False
  then show ?thesis using wf by (intro that [of b 0]) (simp_all add: FitSize_def)
next
  case True
  let ?u = "ab_malloc_unitsize b"
  let ?m = "(n + ?u - 1) div ?u * ?u"
  let ?b = "b\<lparr>ab_parray := Some (block b @ replicate (?m - ab_capacity b) 0), ab_capacity := ?m\<rparr>"
  have u: "0 < ?u" using wf by (simp add: wf_buffer_def)
  have m: "n \<le> ?m" "?m \<le> n + ?u - 1" using roundup_div [OF u] by blast+
  have lt: "n + ?u - 1 < 2 ^ 64" "?m < 2 ^ 64"
    using room m(2) u unfolding room_def by linarith+
  then have s: "sz (n + ?u - 1) = n + ?u - 1" "sz ?m = ?m" by (simp_all only: sz_id)
  have F: "FitSize ok n b = Some ?b"
    unfolding FitSize_def s Let_def using True u m ok by auto
  have blk: "block ?b = block b @ replicate (?m - ab_capacity b) 0" by (simp add: block_def)
  show ?thesis
    using that [OF F blk] wf True m(1) unfolding wf_buffer_def blk by simp
qed

section \<open>The operations on the contents\<close>

lemma nat_mod64: "n < 2 ^ 64 \<Longrightarrow> nat (int n mod 2 ^ 64) = n"
  by (metis mod_less nat_int of_nat_numeral of_nat_power zmod_int)

lemma take_mem_write:
  assumes "p + length d \<le> n" "p \<le> length m"
  shows "take n (mem_write p d m) = take p m @ d @ take (n - (p + length d)) (drop (p + length d) m)"
proof -
  have "take (n - p) d = d" using assms by simp
  moreover have "min n p = p" "min (length m) p = p" using assms by simp_all
  ultimately show ?thesis by (simp add: mem_write_def)
qed

lemma take_mem_write_zeros:
  assumes "p \<le> l" "l \<le> length m" "p + length d \<le> length m + k"
  shows "take (max (p + length d) l) (mem_write p d (m @ replicate k 0)) =
         take p (take l m) @ d @ drop (p + length d) (take l m)"
proof -
  let ?q = "p + length d" and ?m = "m @ replicate k 0"
  have "take (max ?q l) (mem_write p d ?m) =
        take p ?m @ d @ take (max ?q l - ?q) (drop ?q ?m)"
    using assms by (intro take_mem_write) simp_all
  moreover have "take p ?m = take p (take l m)" using assms by simp
  moreover have "take (max ?q l - ?q) (drop ?q ?m) = drop ?q (take l m)"
    using assms by (simp add: max_def drop_take)
  ultimately show ?thesis by simp
qed

lemma Write_at_spec:
  assumes wf: "wf_buffer b" and p: "p \<le> ab_length b" and room: "room (p + length d) b"
    and ok: "\<And>m. ok m"
  obtains b' where "Write_at ok (int p) d b = Some b'" and "wf_buffer b'"
    and "contents b' = take p (contents b) @ d @ drop (p + length d) (contents b)"
    and "ab_pos b' = ab_pos b" and "ab_malloc_unitsize b' = ab_malloc_unitsize b"
proof -
  let ?n = "p + length d"
  have n: "nat ((int p + int (length d)) mod 2 ^ 64) = ?n"
    using room nat_mod64 [of ?n] by (simp add: room_def)
  obtain b1 k where F: "FitSize ok ?n b = Some b1" and blk: "block b1 = block b @ replicate k 0"
    and wf1: "wf_buffer b1" and cap: "?n \<le> ab_capacity b1" and same: "ab_length b1 = ab_length b"
      "ab_pos b1 = ab_pos b" "ab_malloc_unitsize b1 = ab_malloc_unitsize b"
    by (rule FitSize_grows [OF wf room ok])
  let ?b2 = "b1\<lparr>ab_length := max ?n (ab_length b1)\<rparr>"
  let ?m = "mem_write p d (block b1)"
  let ?b3 = "if d = [] then ?b2 else ?b2\<lparr>ab_parray := Some ?m\<rparr>"
  have len: "?n \<le> length (block b1)" "ab_length b \<le> length (block b1)"
    using wf1 cap same by (simp_all add: wf_buffer_def)
  have W: "Write_at ok (int p) d b = Some ?b3"
    unfolding Write_at_def n Let_def F using len by simp
  have "block ?b3 = (if d = [] then block b1 else ?m)" by simp
  also have "\<dots> = ?m" using len by (simp add: mem_write_def)
  finally have blk3: "block ?b3 = ?m" .
  have l3: "ab_length ?b3 = max ?n (ab_length b)" using same by simp
  have "contents ?b3 = take (max ?n (ab_length b)) (mem_write p d (block b @ replicate k 0))"
    unfolding contents_def l3 blk3 by (simp add: blk)
  also have "\<dots> = take p (contents b) @ d @ drop ?n (contents b)"
    unfolding contents_def
    using p wf len(1) by (intro take_mem_write_zeros) (simp_all add: wf_buffer_def blk)
  finally have "contents ?b3 = take p (contents b) @ d @ drop ?n (contents b)" .
  moreover have "wf_buffer ?b3"
    using wf1 cap len same unfolding wf_buffer_def blk3 l3 by auto
  ultimately show ?thesis using that [OF W] same by simp
qed


text \<open>Appending at the end, and writing at the current position.\<close>

lemma Write_end_spec:
  assumes "wf_buffer b" "room (ab_length b + length d) b" "\<And>m. ok m"
  obtains b' where "Write_seek ok ESeekEnd d b = Some b'" and "wf_buffer b'"
    and "contents b' = contents b @ d" and "ab_pos b' = ab_pos b"
    and "ab_malloc_unitsize b' = ab_malloc_unitsize b"
proof -
  obtain b' where b': "Write_at ok (int (ab_length b)) d b = Some b'" "wf_buffer b'"
    "contents b' = take (ab_length b) (contents b) @ d @ drop (ab_length b + length d) (contents b)"
    "ab_pos b' = ab_pos b" "ab_malloc_unitsize b' = ab_malloc_unitsize b"
    by (rule Write_at_spec [OF assms(1) order_refl assms(2,3)])
  show ?thesis
    using that [of b'] b' length_contents [OF assms(1)] by (simp add: Write_seek_def)
qed

lemma Write_spec:
  assumes wf: "wf_buffer b" and room: "room (nat (ab_pos b) + length d) b" and ok: "\<And>m. ok m"
  obtains b' where "Write ok d b = Some b'" and "wf_buffer b'"
    and "contents b' = take (nat (ab_pos b)) (contents b) @ d
           @ drop (nat (ab_pos b) + length d) (contents b)"
    and "ab_pos b' = ab_pos b + int (length d)"
    and "ab_malloc_unitsize b' = ab_malloc_unitsize b"
proof -
  let ?p = "nat (ab_pos b)"
  have p: "?p \<le> ab_length b" "int ?p = ab_pos b" using wf by (auto simp: wf_buffer_def)
  obtain b1 where b1: "Write_at ok (int ?p) d b = Some b1" "wf_buffer b1"
    "contents b1 = take ?p (contents b) @ d @ drop (?p + length d) (contents b)"
    "ab_pos b1 = ab_pos b" "ab_malloc_unitsize b1 = ab_malloc_unitsize b"
    by (rule Write_at_spec [OF wf p(1) room ok])
  have "?p + length d \<le> length (contents b1)"
    using b1(3) p(1) length_contents [OF wf] by simp
  then have len: "ab_pos b1 + int (length d) \<le> int (ab_length b1)"
    using b1(2,4) p(2) length_contents [of b1] by linarith
  have "ab_pos (Seek (int (length d)) ESeekCur b1) = ab_pos b + int (length d)"
    using len b1(4) wf by (simp add: Seek_def Let_def wf_buffer_def)
  then show ?thesis
    using that [of "Seek (int (length d)) ESeekCur b1"] b1 p(2) wf_Seek [OF b1(2)]
    by (simp add: Write_def)
qed

lemma take_drop_contents:
  "n \<le> ab_length b - p \<Longrightarrow> take n (drop p (contents b)) = take n (drop p (block b))"
  by (simp add: contents_def drop_take min_def)

lemma Read_spec:
  assumes wf: "wf_buffer b" and lim: "ab_length b < 2 ^ 64"
  shows "Read len b =
     Some (take len (drop (nat (ab_pos b)) (contents b)),
           b\<lparr>ab_pos := min (ab_pos b + int len) (int (ab_length b))\<rparr>)"
proof -
  let ?p = "nat (ab_pos b)"
  have p: "?p \<le> ab_length b" "ab_pos b = int ?p"
    and W: "ab_length b \<le> length (block b)"
    using wf by (auto simp: wf_buffer_def)
  have n: "nat ((int (ab_length b) - ab_pos b) mod 2 ^ 64) = ab_length b - ?p"
  proof -
    have "int (ab_length b) - ab_pos b = int (ab_length b - ?p)" using p by linarith
    then show ?thesis using lim by (simp only: nat_mod64 [OF le_less_trans [OF diff_le_self lim]])
  qed
  let ?n = "min (ab_length b - ?p) len"
  have d: "take len (drop ?p (contents b)) = take ?n (drop ?p (block b))"
    by (simp add: contents_def drop_take min.commute)
  have R: "Read_at (ab_pos b) len b = Some (take ?n (drop ?p (block b)))"
  proof (cases "?n = 0")
    case False
    then have "int ?p + int ?n \<le> int (length (block b))" using p(1) W by linarith
    then show ?thesis
      unfolding Read_at_def n Let_def using False wf by (simp add: wf_buffer_def)
  qed (simp only: Read_at_def n Let_def take_0 refl if_True)
  have len: "length (take ?n (drop ?p (block b))) = ?n" using W by simp
  have pos: "Seek (int ?n) ESeekCur b = b\<lparr>ab_pos := min (ab_pos b + int len) (int (ab_length b))\<rparr>"
  proof -
    have "min (ab_pos b + int ?n) (int (ab_length b)) = min (ab_pos b + int len) (int (ab_length b))"
      using min_clamp [OF p(1), of len] p(2) by simp
    moreover have "0 \<le> ab_pos b" using wf by (simp add: wf_buffer_def)
    ultimately show ?thesis by (simp only: Seek_cur)
  qed
  show ?thesis unfolding Read_def R d by (simp only: bind.bind_lunit len pos)
qed

text \<open>Consuming a prefix: \<open>Move\<close> with a negative distance drops that many bytes of the
  contents; with a positive one it makes room in front, filled with zeros.\<close>

lemma Move_consume:
  assumes wf: "wf_buffer b" and n: "n \<le> ab_length b"
  obtains b' where "Move ok (- int n) b = Some b'" and "wf_buffer b'"
    and "contents b' = drop n (contents b)"
    and "ab_pos b' = (if int n < ab_pos b then ab_pos b - int n else 0)"
    and "ab_malloc_unitsize b' = ab_malloc_unitsize b"
proof -
  let ?m = "mem_write 0 (take (ab_length b - n) (drop n (block b))) (block b)"
  let ?b1 = "if ab_parray b = None then b else b\<lparr>ab_parray := Some ?m\<rparr>"
  let ?b2 = "Length_set (if int n < ab_pos b then ab_pos b - int n else 0) (ab_length b - n) ?b1"
  have W: "ab_length b \<le> length (block b)" "length (block b) = ab_capacity b"
    "0 \<le> ab_pos b" "ab_pos b \<le> int (ab_length b)" "0 < ab_malloc_unitsize b"
    using wf by (auto simp: wf_buffer_def)
  have M: "Move ok (- int n) b = Some ?b2"
    using W n by (simp add: Move_def min_absorb1)
  have blk: "block ?b1 = ?m"
    by (auto simp: mem_write_def block_def)
  have same: "ab_length ?b2 = ab_length b - n" "ab_capacity ?b2 = ab_capacity b"
    "ab_malloc_unitsize ?b2 = ab_malloc_unitsize b" "block ?b2 = ?m"
    using blk by (simp_all add: Length_set_def)
  have pos: "ab_pos ?b2 = (if int n < ab_pos b then ab_pos b - int n else 0)"
    using W n by (auto simp: Length_set_def Seek_def Let_def of_nat_diff)
  have "contents ?b2 = drop n (contents b)"
    unfolding contents_def same using W n by (simp add: mem_write_def drop_take)
  moreover have "wf_buffer ?b2"
    unfolding wf_buffer_def same pos using W n by (auto simp: of_nat_diff)
  ultimately show ?thesis using that [OF M] pos same by simp
qed


text \<open>\<open>AllocWrite\<close> with a length change extends the contents by zeros.\<close>

lemma AllocWrite_spec:
  assumes wf: "wf_buffer b" and room: "room (nat (ab_pos b) + n) b" and ok: "\<And>m. ok m"
  obtains b' where "AllocWrite ok n ch b = Some b'" and "wf_buffer b'"
    and "\<not> ch \<Longrightarrow> contents b' = contents b"
    and "ch \<Longrightarrow> ab_length b' = max (nat (ab_pos b) + n) (ab_length b)"
    and "take (ab_length b) (contents b') = contents b"
    and "nat (ab_pos b) + n \<le> ab_capacity b'"
    and "ab_pos b' = ab_pos b" and "ab_malloc_unitsize b' = ab_malloc_unitsize b"
proof -
  let ?n = "nat (ab_pos b) + n"
  have p: "ab_pos b + int n = int ?n" using wf by (simp add: wf_buffer_def)
  have n: "nat ((ab_pos b + int n) mod 2 ^ 64) = ?n"
    unfolding p using room by (intro nat_mod64) (simp add: room_def)
  obtain b1 k where F: "FitSize ok ?n b = Some b1" and blk: "block b1 = block b @ replicate k 0"
    and wf1: "wf_buffer b1" and cap: "?n \<le> ab_capacity b1" and same: "ab_length b1 = ab_length b"
      "ab_pos b1 = ab_pos b" "ab_malloc_unitsize b1 = ab_malloc_unitsize b"
    by (rule FitSize_grows [OF wf room ok])
  let ?b2 = "if ch then b1\<lparr>ab_length := max ?n (ab_length b1)\<rparr> else b1"
  have A: "AllocWrite ok n ch b = Some ?b2"
    unfolding AllocWrite_def n Let_def F by simp
  have W: "ab_length b \<le> length (block b)" using wf by (simp add: wf_buffer_def)
  have "wf_buffer ?b2" using wf1 cap same by (auto simp: wf_buffer_def)
  moreover have "take (ab_length b) (contents ?b2) = contents b"
    using W same by (auto simp: contents_def blk min_def)
  moreover have "\<not> ch \<Longrightarrow> contents ?b2 = contents b"
    using W same by (simp add: contents_def blk)
  ultimately show ?thesis using that [OF A] same cap by simp
qed

end
