(* ===== verification/Longlink_Packer.thy ===== *)
theory Longlink_Packer
  imports Auto_Buffer
begin

text \<open>
  The framing of the long link, stn/proto/longlink_packer.cc: a packed header of five
  big-endian 32-bit fields followed by the body. \<open>longlink_pack\<close> and
  \<open>longlink_unpack\<close> work on the buffers of \<open>Auto_Buffer\<close> and call its operations
  in the order of the source. The width of \<open>size_t\<close> is a type parameter of
  \<open>unpack_test\<close>: the library is built for 32- and 64-bit targets, and the sum of the two
  length fields behaves differently on them.
\<close>

section \<open>Network byte order\<close>

text \<open>The four bytes that \<open>htonl\<close> leaves in memory, and the value \<open>ntohl\<close> reads.\<close>

definition be32 :: "u32 \<Rightarrow> bytes" where
  "be32 w = [ucast (drop_bit 24 w), ucast (drop_bit 16 w), ucast (drop_bit 8 w), ucast w]"

fun rd32 :: "bytes \<Rightarrow> u32" where
  "rd32 (a # b # c # d # xs) =
     push_bit 24 (ucast a) OR push_bit 16 (ucast b) OR push_bit 8 (ucast c) OR ucast d"
| "rd32 _ = 0"

section \<open>The header\<close>

record STNetMsgXpHeader =
  head_length :: u32
  client_version :: u32
  hd_cmdid :: u32
  hd_seq :: u32
  body_length :: u32

definition header_size :: nat where
  "header_size = 20"

definition header_bytes :: "STNetMsgXpHeader \<Rightarrow> bytes" where
  "header_bytes st = be32 (head_length st) @ be32 (client_version st) @ be32 (hd_cmdid st)
     @ be32 (hd_seq st) @ be32 (body_length st)"

text \<open>\<open>memcpy(&st, _packed, sizeof(st))\<close> followed by \<open>ntohl\<close> on every field.\<close>

definition read_header :: "bytes \<Rightarrow> STNetMsgXpHeader" where
  "read_header bs = \<lparr>head_length = rd32 bs, client_version = rd32 (drop 4 bs),
     hd_cmdid = rd32 (drop 8 bs), hd_seq = rd32 (drop 12 bs), body_length = rd32 (drop 16 bs)\<rparr>"

datatype unpack_ret =
    LONGLINK_UNPACK_CONTINUE | LONGLINK_UNPACK_FALSE | LONGLINK_UNPACK_OK
  | LONGLINK_UNPACK_STREAM_PACKAGE

text \<open>The reference parameters of \<open>__unpack_test\<close> and \<open>longlink_unpack\<close>.\<close>

record 'z unpack_out =
  uo_cmdid :: u32
  uo_seq :: u32
  uo_package_len :: 'z
  uo_body_len :: 'z

definition unpack_test ::
    "u32 \<Rightarrow> bytes \<Rightarrow> 'z::len word \<Rightarrow> 'z word unpack_out \<Rightarrow> unpack_ret \<times> 'z word unpack_out" where
  "unpack_test sg_client_version packed packed_len out =
     (if packed_len < of_nat header_size then
        (LONGLINK_UNPACK_CONTINUE, out\<lparr>uo_package_len := 0, uo_body_len := 0\<rparr>)
      else
        let st = read_header packed in
        if client_version st \<noteq> sg_client_version then
          (LONGLINK_UNPACK_FALSE, out\<lparr>uo_package_len := 0, uo_body_len := 0\<rparr>)
        else
          let body_len = ucast (body_length st);
              package_len = ucast (head_length st) + body_len;
              out' = \<lparr>uo_cmdid = hd_cmdid st, uo_seq = hd_seq st,
                      uo_package_len = package_len, uo_body_len = body_len\<rparr>
          in if 1024 * 1024 < package_len then (LONGLINK_UNPACK_FALSE, out')
             else if packed_len < package_len then (LONGLINK_UNPACK_CONTINUE, out')
             else (LONGLINK_UNPACK_OK, out'))"

section \<open>Packing and unpacking\<close>

definition longlink_pack ::
    "(nat \<Rightarrow> bool) \<Rightarrow> u32 \<Rightarrow> u32 \<Rightarrow> u32 \<Rightarrow> AutoBuffer \<Rightarrow> AutoBuffer \<Rightarrow> AutoBuffer option" where
  "longlink_pack ok sg_client_version cmdid seq body packed =
     (let st = \<lparr>head_length = of_nat header_size, client_version = sg_client_version,
                hd_cmdid = cmdid, hd_seq = seq, body_length = of_nat (ab_length body)\<rparr>
      in do { p1 \<leftarrow> AllocWrite ok (sz (header_size + ab_length body)) True packed;
              p2 \<leftarrow> Write ok (header_bytes st) p1;
              p3 \<leftarrow> (if ab_parray body = None then Some p2 else Write ok (contents body) p2);
              Some (Seek 0 ESeekStart p3) })"

text \<open>Reading \<open>n\<close> bytes at \<open>_packed.Ptr(off)\<close>: undefined outside the block.\<close>

definition ptr_read :: "AutoBuffer \<Rightarrow> nat \<Rightarrow> nat \<Rightarrow> bytes option" where
  "ptr_read b off n =
     (if n = 0 then Some []
      else if off + n \<le> length (block b) then Some (take n (drop off (block b))) else None)"

definition longlink_unpack ::
    "(nat \<Rightarrow> bool) \<Rightarrow> u32 \<Rightarrow> AutoBuffer \<Rightarrow> u64 unpack_out \<Rightarrow> AutoBuffer
     \<Rightarrow> (unpack_ret \<times> u64 unpack_out \<times> AutoBuffer) option" where
  "longlink_unpack ok sg_client_version packed out body =
     (case unpack_test sg_client_version (contents packed) (of_nat (ab_length packed))
             (out\<lparr>uo_body_len := 0\<rparr>) of
        (ret, out') \<Rightarrow>
          if ret \<noteq> LONGLINK_UNPACK_OK then Some (ret, out', body)
          else do { d \<leftarrow> ptr_read packed (unat (uo_package_len out' - uo_body_len out'))
                          (unat (uo_body_len out'));
                    body' \<leftarrow> Write_seek ok ESeekCur d body;
                    Some (ret, out', body') })"

definition NOOP_CMDID :: u32 where "NOOP_CMDID = 6"
definition SIGNALKEEP_CMDID :: u32 where "SIGNALKEEP_CMDID = 243"
definition PUSH_DATA_TASKID :: u32 where "PUSH_DATA_TASKID = 0"
definition kNoopTaskID :: u32 where "kNoopTaskID = 0xFFFFFFFF"

definition longlink_noop_isresp :: "u32 \<Rightarrow> u32 \<Rightarrow> u32 \<Rightarrow> bool" where
  "longlink_noop_isresp taskid cmdid recv_seq \<longleftrightarrow> kNoopTaskID = taskid \<and> NOOP_CMDID = cmdid"

definition longlink_ispush :: "u32 \<Rightarrow> u32 \<Rightarrow> bool" where
  "longlink_ispush cmdid taskid \<longleftrightarrow> PUSH_DATA_TASKID = taskid"

definition longlink_identify_isresp :: "u32 \<Rightarrow> u32 \<Rightarrow> u32 \<Rightarrow> bool" where
  "longlink_identify_isresp sent_seq cmdid recv_seq \<longleftrightarrow> sent_seq = recv_seq \<and> 0 \<noteq> sent_seq"

section \<open>Round trip of the header\<close>

lemma rd32_be32 [simp]: "rd32 (be32 w @ xs) = w"
proof -
  have "bit (rd32 (be32 w @ xs)) n = bit w n" if "n < 32" for n
    using that
    by (cases "n < 8"; cases "n < 16"; cases "n < 24")
      (auto simp: be32_def bit_or_iff bit_push_bit_iff bit_ucast_iff bit_drop_bit_eq)
  then show ?thesis by (intro bit_word_eqI) simp
qed

lemma length_be32 [simp]: "length (be32 w) = 4"
  by (simp add: be32_def)

lemma length_header_bytes [simp]: "length (header_bytes st) = header_size"
  by (simp add: header_bytes_def header_size_def)

lemma read_header_bytes [simp]: "read_header (header_bytes st @ xs) = st"
  by (simp add: read_header_def header_bytes_def)


section \<open>What the two operations do to the contents\<close>

text \<open>The frame that the header and the body make on the wire.\<close>

definition frame :: "u32 \<Rightarrow> u32 \<Rightarrow> u32 \<Rightarrow> bytes \<Rightarrow> bytes" where
  "frame v cmdid seq body =
     header_bytes \<lparr>head_length = of_nat header_size, client_version = v, hd_cmdid = cmdid,
                    hd_seq = seq, body_length = of_nat (length body)\<rparr> @ body"

lemma length_frame [simp]: "length (frame v c s body) = header_size + length body"
  by (simp add: frame_def)

lemma longlink_pack_contents:
  assumes body: "wf_buffer body" and packed: "wf_buffer packed" "contents packed = []"
    and room: "header_size + ab_length body + ab_malloc_unitsize packed < 2 ^ 64"
    and ok: "\<And>m. ok m"
  obtains p where "longlink_pack ok v cmdid seq body packed = Some p" and "wf_buffer p"
    and "contents p = frame v cmdid seq (contents body)" and "ab_pos p = 0"
proof -
  let ?n = "header_size + ab_length body"
  let ?st = "\<lparr>head_length = of_nat header_size, client_version = v, hd_cmdid = cmdid,
              hd_seq = seq, body_length = of_nat (ab_length body)\<rparr> :: STNetMsgXpHeader"
  have sz: "sz ?n = ?n" using room by (intro sz_id) linarith
  have l0: "ab_length packed = 0" using length_contents [OF packed(1)] packed(2) by simp
  then have p0: "ab_pos packed = 0" using packed(1) by (simp add: wf_buffer_def)
  obtain p1 where p1: "AllocWrite ok ?n True packed = Some p1" "wf_buffer p1"
    "ab_length p1 = ?n" "ab_pos p1 = 0" "ab_malloc_unitsize p1 = ab_malloc_unitsize packed"
    using AllocWrite_spec [OF packed(1), of ?n ok True] room ok p0 l0 by (auto simp: room_def)
  obtain p2 where p2: "Write ok (header_bytes ?st) p1 = Some p2" "wf_buffer p2"
    "contents p2 = header_bytes ?st @ drop header_size (contents p1)"
    "ab_pos p2 = int header_size" "ab_malloc_unitsize p2 = ab_malloc_unitsize p1"
    using Write_spec [OF p1(2), of "header_bytes ?st" ok] room ok p1 by (auto simp: room_def)
  obtain p3 where p3: "(if ab_parray body = None then Some p2 else Write ok (contents body) p2) = Some p3"
    "wf_buffer p3" "contents p3 = header_bytes ?st @ contents body"
  proof (cases "ab_parray body = None")
    case True
    then have "ab_length body = 0" using body by (simp add: wf_buffer_def block_def)
    then show ?thesis using that [of p2] True p2 p1 length_contents [OF p1(2)]
      by (simp add: contents_def)
  next
    case False
    obtain p3 where "Write ok (contents body) p2 = Some p3" "wf_buffer p3"
      "contents p3 = take header_size (contents p2) @ contents body
         @ drop (header_size + ab_length body) (contents p2)"
      using Write_spec [OF p2(2), of "contents body" ok] room ok p1 p2 length_contents [OF body]
      by (auto simp: room_def)
    then show ?thesis
      using that [of p3] False p2(3) p1 length_contents [OF p1(2)] by simp
  qed
  have pos0: "ab_pos (Seek 0 ESeekStart p3) = 0" by (simp add: Seek_def)
  have "longlink_pack ok v cmdid seq body packed = Some (Seek 0 ESeekStart p3)"
    unfolding longlink_pack_def sz Let_def p1(1) using p2(1) p3(1) by simp
  then show ?thesis
    using that [of "Seek 0 ESeekStart p3"] p3(3) wf_Seek [OF p3(2), of 0 ESeekStart]
      length_contents [OF body] pos0
    by (simp add: frame_def)
qed

lemma unpack_test_frame:
  assumes "header_size + length body \<le> 1024 * 1024" and "header_size + length body \<le> n" "n < 2 ^ 64"
  shows "unpack_test v (frame v cmdid seq body @ rest) (of_nat n :: u64) out =
     (LONGLINK_UNPACK_OK, \<lparr>uo_cmdid = cmdid, uo_seq = seq,
        uo_package_len = of_nat (header_size + length body), uo_body_len = of_nat (length body)\<rparr>)"
proof -
  have b: "length body \<le> 1048556" using assms(1) by (simp add: header_size_def)
  have u: "ucast (of_nat (length body) :: u32) = (of_nat (length body) :: u64)"
    using b by (simp add: unsigned_of_nat take_bit_nat_eq_self)
  have "\<not> (of_nat n :: u64) < of_nat header_size"
    "\<not> (1024 * 1024 :: u64) < of_nat (header_size + length body)"
    "\<not> (of_nat n :: u64) < of_nat (header_size + length body)"
    using assms b of_nat_less_u64 [of n header_size] of_nat_less_u64 [of n "header_size + length body"]
      of_nat_less_u64 [of "1024 * 1024" "header_size + length body"]
    by (simp_all add: header_size_def)
  then show ?thesis
    by (simp add: unpack_test_def frame_def Let_def u header_size_def)
qed


lemma ptr_read_contents:
  "wf_buffer b \<Longrightarrow> off + n \<le> ab_length b \<Longrightarrow> ptr_read b off n = Some (take n (drop off (contents b)))"
  by (auto simp: ptr_read_def wf_buffer_def take_drop_contents)

text \<open>On a 64-bit target an accepted package lies inside the bytes received: the two 32-bit
  lengths cannot wrap, so the body is read inside the block.\<close>

lemma unpack_test_ok64:
  assumes "unpack_test v bs (of_nat n :: u64) out = (LONGLINK_UNPACK_OK, out')" "n < 2 ^ 64"
  shows "unat (uo_body_len out') \<le> unat (uo_package_len out')"
    and "unat (uo_package_len out') \<le> n" and "unat (uo_package_len out') \<le> 1024 * 1024"
    and "header_size \<le> n"
    and "unat (uo_package_len out' - uo_body_len out') = unat (head_length (read_header bs))"
    and "uo_cmdid out' = hd_cmdid (read_header bs) \<and> uo_seq out' = hd_seq (read_header bs)"
proof -
  let ?h = "head_length (read_header bs)" and ?b = "body_length (read_header bs)"
  have lt: "unat ?h < 2 ^ 32" "unat ?b < 2 ^ 32"
    using unsigned_less [of ?h, where 'a = nat] unsigned_less [of ?b, where 'a = nat] by simp_all
  have u: "unat (ucast ?h + ucast ?b :: u64) = unat ?h + unat ?b"
    using lt
    by (simp add: unat_word_ariths unsigned_ucast_eq take_bit_nat_eq_self)
  have ub: "unat (ucast ?b :: u64) = unat ?b" "unat (ucast ?h :: u64) = unat ?h"
    using lt by (simp_all add: unsigned_ucast_eq take_bit_nat_eq_self)
  have c: "\<not> (of_nat n :: u64) < of_nat header_size" "\<not> (1024 * 1024 :: u64) < ucast ?h + ucast ?b"
    "\<not> (of_nat n :: u64) < ucast ?h + ucast ?b"
    "uo_package_len out' = ucast ?h + ucast ?b" "uo_body_len out' = ucast ?b"
    "uo_cmdid out' = hd_cmdid (read_header bs)" "uo_seq out' = hd_seq (read_header bs)"
    using assms(1) by (auto simp: unpack_test_def Let_def split: if_splits)
  show "unat (uo_body_len out') \<le> unat (uo_package_len out')" using c u ub by simp
  show "unat (uo_package_len out') \<le> n"
    using c(3,4) by (simp add: word_less_nat_alt unat_of_nat_u64 [OF assms(2)])
  show "unat (uo_package_len out') \<le> 1024 * 1024" using c(2,4) by (simp add: word_less_nat_alt)
  show "header_size \<le> n"
    using c(1) of_nat_less_u64 [OF assms(2), of header_size] by (simp add: header_size_def)
  show "unat (uo_package_len out' - uo_body_len out') = unat ?h" using c ub by simp
  show "uo_cmdid out' = hd_cmdid (read_header bs) \<and> uo_seq out' = hd_seq (read_header bs)"
    using c by simp
qed

lemma longlink_unpack_ok:
  assumes wf: "wf_buffer p" "ab_length p < 2 ^ 64"
    and body: "wf_buffer body" "room (nat (ab_pos body) + 1024 * 1024) body" and ok: "\<And>m. ok m"
    and t: "unpack_test v (contents p) (of_nat (ab_length p) :: u64) (out\<lparr>uo_body_len := 0\<rparr>) =
              (LONGLINK_UNPACK_OK, out')"
  obtains body' d where "longlink_unpack ok v p out body = Some (LONGLINK_UNPACK_OK, out', body')"
    and "wf_buffer body'"
    and "d = take (unat (uo_body_len out')) (drop (unat (head_length (read_header (contents p)))) (contents p))"
    and "contents body' = take (nat (ab_pos body)) (contents body) @ d
           @ drop (nat (ab_pos body) + length d) (contents body)"
    and "ab_pos body' = ab_pos body"
proof -
  note o = unpack_test_ok64 [OF t wf(2)]
  let ?n = "unat (uo_body_len out')" and ?off = "unat (head_length (read_header (contents p)))"
  have le: "uo_body_len out' \<le> uo_package_len out'" using o(1) by (simp add: word_le_nat_alt)
  have in_range: "?off + ?n \<le> ab_length p" using o(1,2,5) unat_diff_le [OF le] by linarith
  let ?d = "take ?n (drop ?off (contents p))"
  have r: "ptr_read p ?off ?n = Some ?d" by (rule ptr_read_contents [OF wf(1) in_range])
  have len: "length ?d = ?n" using in_range length_contents [OF wf(1)] by simp
  have pos: "0 \<le> ab_pos body" "nat (ab_pos body) \<le> ab_length body"
    using body(1) unfolding wf_buffer_def by linarith+
  have "room (nat (ab_pos body) + length ?d) body"
    using body(2) o(1,3) len by (auto simp: room_def)
  from Write_at_spec [where ok = ok, OF body(1) pos(2) this ok]
  obtain body' where w: "Write_at ok (int (nat (ab_pos body))) ?d body = Some body'" "wf_buffer body'"
    "contents body' = take (nat (ab_pos body)) (contents body) @ ?d
       @ drop (nat (ab_pos body) + length ?d) (contents body)" "ab_pos body' = ab_pos body" by metis
  have "longlink_unpack ok v p out body = Some (LONGLINK_UNPACK_OK, out', body')"
    using w(1) pos(1) by (simp add: longlink_unpack_def t o(5) r Write_seek_def)
  then show ?thesis using that w by blast
qed

lemma longlink_unpack_not_ok:
  assumes "fst (unpack_test v (contents p) (of_nat (ab_length p) :: u64) (out\<lparr>uo_body_len := 0\<rparr>)) \<noteq> LONGLINK_UNPACK_OK"
  shows "\<exists>ret out'. longlink_unpack ok v p out body = Some (ret, out', body)"
  using assms by (auto simp: longlink_unpack_def split: prod.splits)

lemma longlink_unpack_frame:
  assumes wf: "wf_buffer p" "ab_length p < 2 ^ 64" and c: "contents p = frame v cmdid seq d @ rest"
    and small: "header_size + length d \<le> 1024 * 1024"
    and body: "wf_buffer body" "room (1024 * 1024) body" "contents body = []" and ok: "\<And>m. ok m"
  obtains body' where "longlink_unpack ok v p out body =
      Some (LONGLINK_UNPACK_OK, \<lparr>uo_cmdid = cmdid, uo_seq = seq,
        uo_package_len = of_nat (header_size + length d), uo_body_len = of_nat (length d)\<rparr>, body')"
    and "wf_buffer body'" and "contents body' = d"
proof -
  have n: "header_size + length d \<le> ab_length p"
    using length_contents [OF wf(1)] c by simp
  note t = unpack_test_frame [OF small n wf(2), of v cmdid seq rest "out\<lparr>uo_body_len := 0\<rparr>"]
  have "ab_length body = 0" using length_contents [OF body(1)] body(3) by simp
  then have p0: "ab_pos body = 0" using body(1) by (simp add: wf_buffer_def)
  have h: "head_length (read_header (contents p)) = of_nat header_size" by (simp add: c frame_def)
  have l: "unat (of_nat (length d) :: u64) = length d"
    using small by (intro unat_of_nat_u64) simp
  have "room (nat (ab_pos body) + 1024 * 1024) body" using body(2) p0 by simp
  from longlink_unpack_ok [where ok = ok, OF wf body(1) this ok t [folded c]]
  obtain body' where b: "longlink_unpack ok v p out body =
      Some (LONGLINK_UNPACK_OK, \<lparr>uo_cmdid = cmdid, uo_seq = seq,
        uo_package_len = of_nat (header_size + length d), uo_body_len = of_nat (length d)\<rparr>, body')"
    "wf_buffer body'" "contents body' = take (length d) (drop header_size (contents p))"
    using h l body(3) p0 by (auto simp: header_size_def)
  have "take (length d) (drop header_size (contents p)) = d"
    by (simp add: c frame_def)
  then show ?thesis using that b by simp
qed


section \<open>Properties\<close>

text \<open>C12. Packing and unpacking are inverse: a body of at most a megabyte less the header that
  \<open>longlink_pack\<close> frames into an empty buffer is accepted by \<open>longlink_unpack\<close>, which returns
  the command, the sequence number, the whole frame as the package length and exactly the bytes
  of the body.\<close>

theorem longlink_roundtrip:
  assumes body: "wf_buffer body" "header_size + ab_length body \<le> 1024 * 1024"
    and packed: "wf_buffer packed" "contents packed = []" "ab_malloc_unitsize packed \<le> 2 ^ 32"
    and dst: "wf_buffer dst" "contents dst = []" "ab_malloc_unitsize dst \<le> 2 ^ 32"
    and ok: "\<And>m. ok m"
  shows "\<exists>p dst'. longlink_pack ok v cmdid seq body packed = Some p \<and>
     longlink_unpack ok v p out dst =
       Some (LONGLINK_UNPACK_OK, \<lparr>uo_cmdid = cmdid, uo_seq = seq,
         uo_package_len = of_nat (ab_length p), uo_body_len = of_nat (ab_length body)\<rparr>, dst') \<and>
     contents dst' = contents body"
proof -
  have "header_size + ab_length body + ab_malloc_unitsize packed < 2 ^ 64" using body packed by simp
  from longlink_pack_contents [where ok = ok, OF body(1) packed(1,2) this ok]
  obtain p where p: "longlink_pack ok v cmdid seq body packed = Some p" "wf_buffer p"
    "contents p = frame v cmdid seq (contents body) @ []" by (metis append_Nil2)
  have l: "ab_length p = header_size + ab_length body"
    using length_contents [OF p(2)] length_contents [OF body(1)] p(3) by simp
  have "room (1024 * 1024) dst" using dst(3) by (simp add: room_def)
  from longlink_unpack_frame [where ok = ok and out = out, OF p(2) _ p(3) _ dst(1) this dst(2) ok]
  show ?thesis using p(1) l body(2) length_contents [OF body(1)] by force
qed

definition sample_body :: AutoBuffer where
  "sample_body = \<lparr>ab_parray = Some [104, 105, 33], ab_pos = 0, ab_length = 2, ab_capacity = 3,
     ab_malloc_unitsize = 128\<rparr>"

theorem longlink_roundtrip_witness:
  "\<exists>p dst'. longlink_pack alloc_all 200 12 7 sample_body (AutoBuffer_new 128) = Some p \<and>
     longlink_unpack alloc_all 200 p \<lparr>uo_cmdid = 0, uo_seq = 0, uo_package_len = 0, uo_body_len = 0\<rparr>
       (AutoBuffer_new 128) =
       Some (LONGLINK_UNPACK_OK, \<lparr>uo_cmdid = 12, uo_seq = 7,
         uo_package_len = of_nat (ab_length p), uo_body_len = of_nat (ab_length sample_body)\<rparr>, dst') \<and>
     contents dst' = contents sample_body"
  by (rule longlink_roundtrip)
    (simp_all add: wf_AutoBuffer_new sample_body_def wf_buffer_def block_def header_size_def
      AutoBuffer_new_def contents_def)

text \<open>C13. On a 64-bit target unpacking is memory safe on arbitrary input: for every received
  buffer and every body buffer, \<open>longlink_unpack\<close> returns, and when it accepts, the package
  is within the received bytes and within a megabyte and the body lies inside the package.\<close>

theorem longlink_unpack_safe:
  assumes "wf_buffer packed" "ab_length packed < 2 ^ 64"
    and "wf_buffer body" "room (nat (ab_pos body) + 1024 * 1024) body" and ok: "\<And>m. ok m"
  shows "\<exists>ret out' body'. longlink_unpack ok v packed out body = Some (ret, out', body') \<and>
     (if ret = LONGLINK_UNPACK_OK
      then unat (uo_package_len out') \<le> ab_length packed \<and>
           unat (uo_package_len out') \<le> 1024 * 1024 \<and>
           uo_body_len out' \<le> uo_package_len out' \<and> wf_buffer body'
      else body' = body)"
proof (cases "unpack_test v (contents packed) (of_nat (ab_length packed) :: u64) (out\<lparr>uo_body_len := 0\<rparr>)")
  case (Pair ret out')
  show ?thesis
  proof (cases "ret = LONGLINK_UNPACK_OK")
    case True
    note t = Pair [unfolded True]
    obtain body' where "longlink_unpack ok v packed out body = Some (ret, out', body')" "wf_buffer body'"
      using longlink_unpack_ok [where ok = ok, OF assms(1-4) ok t] True by metis
    then show ?thesis using True unpack_test_ok64 [OF t assms(2)] by (simp add: word_le_nat_alt)
  next
    case False
    then show ?thesis using Pair by (simp add: longlink_unpack_def)
  qed
qed

theorem longlink_unpack_safe_witness:
  "\<exists>ret out' body'. longlink_unpack alloc_all 200 sample_body
       \<lparr>uo_cmdid = 0, uo_seq = 0, uo_package_len = 0, uo_body_len = 0\<rparr> (AutoBuffer_new 128)
       = Some (ret, out', body') \<and>
     (if ret = LONGLINK_UNPACK_OK
      then unat (uo_package_len out') \<le> ab_length sample_body \<and>
           unat (uo_package_len out') \<le> 1024 * 1024 \<and>
           uo_body_len out' \<le> uo_package_len out' \<and> wf_buffer body'
      else body' = AutoBuffer_new 128)"
  by (rule longlink_unpack_safe)
    (simp_all add: wf_AutoBuffer_new sample_body_def wf_buffer_def block_def room_def AutoBuffer_new_def)

text \<open>On a 32-bit target the sum of the two length fields wraps: a 31-byte packet whose header
  announces a body of \<open>2 ^ 32 - 1\<close> bytes is accepted, with a body far longer than what was
  received.\<close>

theorem unpack_overread_32:
  "\<exists>packet out. length packet = 31 \<and>
     (case unpack_test 200 packet (31 :: u32) out of
        (ret, out') \<Rightarrow> ret = LONGLINK_UNPACK_OK \<and> unat (uo_body_len out') = 2 ^ 32 - 1)"
proof -
  let ?st = "\<lparr>head_length = 32, client_version = 200, hd_cmdid = 1, hd_seq = 1, body_length = 0xFFFFFFFF\<rparr>"
  let ?out = "\<lparr>uo_cmdid = 0, uo_seq = 0, uo_package_len = 0, uo_body_len = 0\<rparr> :: u32 unpack_out"
  have "length (header_bytes ?st @ replicate 11 0) = 31" by (simp add: header_size_def)
  moreover have "case unpack_test 200 (header_bytes ?st @ replicate 11 0) (31 :: u32) ?out of
      (ret, out') \<Rightarrow> ret = LONGLINK_UNPACK_OK \<and> unat (uo_body_len out') = 2 ^ 32 - 1"
    by (simp add: unpack_test_def Let_def header_size_def)
  ultimately show ?thesis by (intro exI conjI)
qed

end
