(* ===== verification/Longlink_Task_Manager.thy ===== *)
theory Longlink_Task_Manager
  imports Task_Env Longlink_Packer
begin

text \<open>
  stn/src/longlink_task_manager.cc: the tasks that go over the long link. Operations take the
  environment, the reading of the clock for the call, the manager and the state \<open>'w\<close> of
  everything outside it. \<open>lm_timer\<close> says that the one-second message that runs
  \<open>__RunLoop\<close> is in the message queue; \<open>CancelMessage(asyncreg_.Get(), 0)\<close> drops the
  responses that wait in the queue (their title is 0, the one of the timer is \<open>this\<close>) and is a
  function of the environment. While a handler walks over the list, the list field of the
  manager still holds the old list; the new one is put in when the walk is over.
\<close>

section \<open>State and environment\<close>

datatype TDisconnectInternalCode =
    kNone | kReset | kRemoteClosed | kUnknownErr | kNoopTimeout | kDecodeError | kUnknownRead
  | kUnknownWrite | kDecodeErr | kTaskTimeout | kNetworkChange | kIDCChange | kNetworkLost
  | kSelectError | kPipeError | kHasNewDnsIP | kSelectException | kLinkCheckTimeout
  | kForceNewGetDns | kLinkCheckError | kTimeCheckSucc

datatype TLongLinkStatus = kConnectIdle | kConnecting | kConnected | kDisConnected | kConnectFailed

record 'w long_env = "'w stn_env" +
  ll_Send :: "bytes \<Rightarrow> bytes \<Rightarrow> Task \<Rightarrow> 'w \<Rightarrow> nat \<times> 'w"
  ll_Stop :: "u32 \<Rightarrow> 'w \<Rightarrow> 'w"
  ll_Disconnect :: "TDisconnectInternalCode \<Rightarrow> 'w \<Rightarrow> 'w"
  ll_Profile :: "'w \<Rightarrow> ConnectProfile"
  ll_MakeSureConnected :: "'w \<Rightarrow> bool \<times> 'w"
  ll_CancelAsync :: "'w \<Rightarrow> 'w"
  fun_on_push :: "u64 \<Rightarrow> u32 \<Rightarrow> u32 \<Rightarrow> bytes \<Rightarrow> bytes \<Rightarrow> 'w \<Rightarrow> 'w"

record LongLinkTaskManager =
  lm_lst_cmd :: "TaskProfile list"
  lm_lastbatcherrortime :: u64
  lm_retry_interval :: u64
  lm_tasks_continuous_fail_count :: u32
  lm_timer :: bool

definition DEF_TASK_RETRY_INTERNAL :: u64 where "DEF_TASK_RETRY_INTERNAL = 1 * 1000"
definition kDynTimeTaskFailedPkgLen32 :: u32 where "kDynTimeTaskFailedPkgLen32 = 0xffffffff"

definition LongLinkTaskManager_new :: LongLinkTaskManager where
  "LongLinkTaskManager_new = \<lparr>lm_lst_cmd = [], lm_lastbatcherrortime = 0, lm_retry_interval = 0,
     lm_tasks_continuous_fail_count = 0, lm_timer = False\<rparr>"

section \<open>Ending or retrying tasks\<close>

definition LL_SingleRespHandle ::
    "('w, 'e) long_env_scheme \<Rightarrow> u64 \<Rightarrow> ErrCmdType \<Rightarrow> int \<Rightarrow> int \<Rightarrow> ConnectProfile \<Rightarrow> TaskProfile
     \<Rightarrow> LongLinkTaskManager \<Rightarrow> 'w \<Rightarrow> TaskProfile option \<times> LongLinkTaskManager \<times> 'w" where
  "LL_SingleRespHandle env now et ec fh cp p m w =
     (let p1 = set_connect_profile cp p;
          m1 = (if et = kEctOK then m\<lparr>lm_retry_interval := 0, lm_tasks_continuous_fail_count := 0\<rparr>
                else m\<lparr>lm_tasks_continuous_fail_count := lm_tasks_continuous_fail_count m + 1\<rparr>)
      in if remain_retry_count p1 \<le> 0 \<or> et = kEctOK \<or> fh = kTaskFailHandleTaskEnd
            \<or> fh = kTaskFailHandleTaskTimeout
         then case fun_callback env et ec fh (tp_task p1) (ucast (now - start_task_time p1)) w of
                (cgi_retcode, w1) \<Rightarrow>
                  let errcode = (if \<not> send_only (tp_task p1) \<and> running_id p1 \<noteq> 0 \<and> et = kEctOK
                                 then cgi_retcode else ec)
                  in (None, m1, ReportTask env (end_profile now et ec errcode p1) w1)
         else (Some (retry_profile et ec p1), m1, w))"

definition LL_BatchErrorRespHandle ::
    "('w, 'e) long_env_scheme \<Rightarrow> u64 \<Rightarrow> ErrCmdType \<Rightarrow> int \<Rightarrow> int \<Rightarrow> u32 \<Rightarrow> ConnectProfile \<Rightarrow> bool
     \<Rightarrow> LongLinkTaskManager \<Rightarrow> 'w \<Rightarrow> LongLinkTaskManager \<times> 'w" where
  "LL_BatchErrorRespHandle env now et ec fh src_taskid cp callback_runing_task_only m w =
     (case walk (\<lambda>p (m, w).
              if callback_runing_task_only \<and> running_id p = 0 then (Some p, m, w)
              else LL_SingleRespHandle env now et
                     (if src_taskid = kInvalidTaskID \<or> src_taskid = pid p then ec else 0) fh cp p m w)
            (lm_lst_cmd m) (m, w) of
        (ps, m1, w1) \<Rightarrow>
          let m2 = m1\<lparr>lm_lst_cmd := ps, lm_lastbatcherrortime := now\<rparr>;
              m3 = (if et \<noteq> kEctLocal \<and> ps \<noteq> [] then m2\<lparr>lm_retry_interval := DEF_TASK_RETRY_INTERNAL\<rparr>
                    else m2);
              all = (fh = kTaskFailHandleSessionTimeout \<or> fh = kTaskFailHandleRetryAllTasks);
              m4 = (if all then m3\<lparr>lm_retry_interval := 0\<rparr> else m3);
              w2 = (if all then ll_CancelAsync env (ll_Disconnect env kDecodeErr w1) else w1);
              w3 = (if fh = kTaskFailHandleDefault
                    then ll_CancelAsync env (if et \<noteq> kEctDns \<and> et \<noteq> kEctSocket
                                             then ll_Disconnect env kDecodeErr w2 else w2)
                    else w2);
              w4 = (if et = kEctNetMsgXP then ll_CancelAsync env (ll_Disconnect env kTaskTimeout w3) else w3)
          in (m4, w4))"

section \<open>The run loop\<close>

text \<open>The three checks on a request in flight; when several fail, the last one gives the code.\<close>

definition LL_first_pkg_late :: "u64 \<Rightarrow> TaskProfile \<Rightarrow> bool" where
  "LL_first_pkg_late cur_time p \<longleftrightarrow>
     (let tr = transfer_profile p
      in running_id p \<noteq> 0 \<and> 0 < start_send_time tr \<and> last_receive_pkg_time tr = 0 \<and>
         first_pkg_timeout tr \<le> cur_time - start_send_time tr)"

definition LL_socket_timeout :: "NetType \<Rightarrow> u64 \<Rightarrow> TaskProfile \<Rightarrow> int option" where
  "LL_socket_timeout net cur_time p =
     (let tr = transfer_profile p;
          sending = (running_id p \<noteq> 0 \<and> 0 < start_send_time tr)
      in if sending \<and> read_write_timeout tr \<le> cur_time - start_send_time tr
           then Some kEctLongReadWriteTimeout
         else if sending \<and> 0 < last_receive_pkg_time tr \<and>
              (if net \<noteq> kMobile then kWifiPackageInterval else kGPRSPackageInterval)
                \<le> cur_time - last_receive_pkg_time tr
           then Some kEctLongPkgPkgTimeout
         else if LL_first_pkg_late cur_time p then Some kEctLongFirstPkgTimeout
         else None)"

text \<open>One task of \<open>__RunOnTimeout\<close>; the locals are \<open>socket_timeout_code\<close>,
  \<open>src_taskid\<close> and \<open>istasktimeout\<close>.\<close>

definition LL_timeout_one ::
    "('w, 'e) long_env_scheme \<Rightarrow> u64 \<Rightarrow> TaskProfile \<Rightarrow> LongLinkTaskManager \<times> 'w \<times> int \<times> u32 \<times> bool
     \<Rightarrow> TaskProfile option \<times> LongLinkTaskManager \<times> 'w \<times> int \<times> u32 \<times> bool" where
  "LL_timeout_one env cur_time p s =
     (case s of (m, w, code, src, istasktimeout) \<Rightarrow>
        let (code', src') = (case LL_socket_timeout (NetInfo env w) cur_time p of
                               None \<Rightarrow> (code, src) | Some c \<Rightarrow> (c, pid p));
            p' = (if LL_first_pkg_late cur_time p then SetLastFailedStatus p else p)
        in if task_timeout p' \<le> cur_time - start_task_time p'
           then case LL_SingleRespHandle env cur_time kEctLocal kEctLocalTaskTimeout
                       kTaskFailHandleTaskTimeout (ll_Profile env w) p' m w of
                  (r, m1, w1) \<Rightarrow> (r, m1, w1, code', src', True)
           else (Some p', m, w, code', src', istasktimeout))"

definition LL_RunOnTimeout ::
    "('w, 'e) long_env_scheme \<Rightarrow> u64 \<Rightarrow> LongLinkTaskManager \<Rightarrow> 'w \<Rightarrow> LongLinkTaskManager \<times> 'w" where
  "LL_RunOnTimeout env cur_time m w =
     (case walk (LL_timeout_one env cur_time) (lm_lst_cmd m) (m, w, 0, kInvalidTaskID, False) of
        (ps, m0, w1, code, src, istasktimeout) \<Rightarrow>
          let m1 = m0\<lparr>lm_lst_cmd := ps\<rparr>
          in if code \<noteq> 0 then
               let w2 = DynStatistic env '''' kDynTimeTaskFailedPkgLen32 0 w1
               in case LL_BatchErrorRespHandle env cur_time kEctNetMsgXP code kTaskFailHandleDefault src
                         (ll_Profile env w2) True m1 w2 of
                    (m2, w3) \<Rightarrow>
                      (m2, fun_notify_network_err env (lm_tasks_continuous_fail_count m2) kEctNetMsgXP code
                             (cp_ip (ll_Profile env w3)) '''' (cp_port (ll_Profile env w3)) w3)
             else if istasktimeout then
               LL_BatchErrorRespHandle env cur_time kEctNetMsgXP kEctLocalTaskTimeout
                 kTaskFailHandleDefault src (ll_Profile env w1) True m1 w1
             else (m1, w1))"

type_synonym 'w start_state = "LongLinkTaskManager \<times> 'w \<times> bool \<times> bool \<times> int"

text \<open>A task that cannot be started is ended.\<close>

definition LL_fail_one ::
    "('w, 'e) long_env_scheme \<Rightarrow> u64 \<Rightarrow> ErrCmdType \<Rightarrow> int \<Rightarrow> TaskProfile \<Rightarrow> 'w start_state
     \<Rightarrow> TaskProfile option \<times> 'w start_state" where
  "LL_fail_one env now et ec p s =
     (case s of (m, w, authrun, authok, sent) \<Rightarrow>
        case LL_SingleRespHandle env now et ec kTaskFailHandleTaskEnd (ll_Profile env w) p m w of
          (r, m1, w1) \<Rightarrow> (r, m1, w1, authrun, authok, sent))"

text \<open>The hand-over of an encoded request to the long link.\<close>

definition LL_send_one ::
    "('w, 'e) long_env_scheme \<Rightarrow> u64 \<Rightarrow> bytes \<Rightarrow> bytes \<Rightarrow> TaskProfile \<Rightarrow> 'w start_state
     \<Rightarrow> TaskProfile option \<times> 'w start_state" where
  "LL_send_one env now buf ext p s =
     (case s of (m, w, authrun, authok, sent) \<Rightarrow>
        let p1 = prepare_send env now sent buf w p
        in case ll_Send env buf ext (tp_task p1) w of
             (rid, w1) \<Rightarrow>
               let p2 = p1\<lparr>running_id := rid\<rparr>
               in if rid = 0 then (Some p2, m, w1, authrun, authok, sent)
                  else if send_only (tp_task p2) then
                    (case LL_SingleRespHandle env now kEctOK 0 kTaskFailHandleNoError (ll_Profile env w1) p2 m w1 of
                       (r, m1, w2) \<Rightarrow> (r, m1, w2, authrun, authok, sent + 1))
                  else (Some p2, m, w1, authrun, authok, sent + 1))"

text \<open>The part of \<open>__RunOnStartTask\<close> after the first encoding: the connection, the channel and
  the second encoding when the first left nothing.\<close>

definition LL_connect_one ::
    "('w, 'e) long_env_scheme \<Rightarrow> u64 \<Rightarrow> bytes \<Rightarrow> bytes \<Rightarrow> TaskProfile \<Rightarrow> 'w start_state
     \<Rightarrow> TaskProfile option \<times> 'w start_state" where
  "LL_connect_one env now buf ext p s =
     (case s of (m, w, authrun, authok, sent) \<Rightarrow>
        case ll_MakeSureConnected env w of
          (connected, w1) \<Rightarrow>
            let s1 = (m, w1, authrun, authok, sent); t = tp_task p
            in if \<not> connected then
                 (if channel_id t \<noteq> 0 then LL_fail_one env now kEctLocal kEctLocalChannelID p s1
                  else (Some p, s1))
               else if channel_id t \<noteq> 0 \<and> cp_start_time (ll_Profile env w1) \<noteq> channel_id t then
                 LL_fail_one env now kEctLocal kEctLocalChannelID p s1
               else if buf = [] then
                 (case encode_checked env kChannelLong t buf ext w1 of
                    (Inl (et, ec), w2) \<Rightarrow> LL_fail_one env now et ec p (m, w2, authrun, authok, sent)
                  | (Inr (buf', ext'), w2) \<Rightarrow> LL_send_one env now buf' ext' p (m, w2, authrun, authok, sent))
               else LL_send_one env now buf ext p s1)"

definition LL_start_one ::
    "('w, 'e) long_env_scheme \<Rightarrow> u64 \<Rightarrow> bool \<Rightarrow> TaskProfile \<Rightarrow> 'w start_state
     \<Rightarrow> TaskProfile option \<times> 'w start_state" where
  "LL_start_one env now canretry p s =
     (case s of (m, w, authrun, authok, sent) \<Rightarrow>
        if running_id p \<noteq> 0 then (Some p, m, w, authrun, authok, sent + 1)
        else if remain_retry_count p < retry_count (tp_task p) \<and> \<not> canretry then (Some p, s)
        else case auth_gate env (tp_task p) authrun authok w of
               (ok, authrun', authok', w1) \<Rightarrow>
                 if \<not> ok then (Some p, m, w1, authrun', authok', sent)
                 else if antiavalanche_checked p then
                   LL_connect_one env now [] [] p (m, w1, authrun', authok', sent)
                 else (case encode_checked env kChannelLong (tp_task p) [] [] w1 of
                         (Inl (et, ec), w2) \<Rightarrow>
                           LL_fail_one env now et ec p (m, w2, authrun', authok', sent)
                       | (Inr (buf, ext), w2) \<Rightarrow>
                           LL_connect_one env now buf ext (p\<lparr>antiavalanche_checked := True\<rparr>)
                             (m, w2, authrun', authok', sent)))"

definition LL_RunOnStartTask ::
    "('w, 'e) long_env_scheme \<Rightarrow> u64 \<Rightarrow> LongLinkTaskManager \<Rightarrow> 'w \<Rightarrow> LongLinkTaskManager \<times> 'w" where
  "LL_RunOnStartTask env curtime m w =
     (let canretry = (lm_retry_interval m \<le> curtime - lm_lastbatcherrortime m)
      in case walk (LL_start_one env curtime canretry) (lm_lst_cmd m) (m, w, False, False, 0) of
           (ps, m1, w1, authrun, authok, sent) \<Rightarrow> (m1\<lparr>lm_lst_cmd := ps\<rparr>, w1))"

definition LL_RunLoop ::
    "('w, 'e) long_env_scheme \<Rightarrow> u64 \<Rightarrow> LongLinkTaskManager \<Rightarrow> 'w \<Rightarrow> LongLinkTaskManager \<times> 'w" where
  "LL_RunLoop env now m w =
     (if lm_lst_cmd m = [] then (m, w)
      else case LL_RunOnTimeout env now m w of
             (m1, w1) \<Rightarrow> case LL_RunOnStartTask env now m1 w1 of
               (m2, w2) \<Rightarrow> ((if lm_lst_cmd m2 \<noteq> [] then m2\<lparr>lm_timer := True\<rparr> else m2), w2))"

text \<open>The timer message is taken out of the queue and run.\<close>

definition LL_OnTimer ::
    "('w, 'e) long_env_scheme \<Rightarrow> u64 \<Rightarrow> LongLinkTaskManager \<Rightarrow> 'w \<Rightarrow> LongLinkTaskManager \<times> 'w" where
  "LL_OnTimer env now m w = LL_RunLoop env now (m\<lparr>lm_timer := False\<rparr>) w"

section \<open>Operations of the network core\<close>

definition LL_StartTask ::
    "('w, 'e) long_env_scheme \<Rightarrow> u64 \<Rightarrow> Task \<Rightarrow> LongLinkTaskManager \<Rightarrow> 'w
     \<Rightarrow> bool \<times> LongLinkTaskManager \<times> 'w" where
  "LL_StartTask env now t m w =
     (let task = (TaskProfile_new now t)\<lparr>link_type := kChannelLong\<rparr>
      in case LL_RunLoop env now (m\<lparr>lm_lst_cmd := sort_tasks (lm_lst_cmd m @ [task])\<rparr>) w of
           (m1, w1) \<Rightarrow> (True, m1, w1))"

definition LL_StopTask ::
    "('w, 'e) long_env_scheme \<Rightarrow> u32 \<Rightarrow> LongLinkTaskManager \<Rightarrow> 'w
     \<Rightarrow> bool \<times> LongLinkTaskManager \<times> 'w" where
  "LL_StopTask env tid m w =
     (case erase_first (\<lambda>p. tid = pid p) (lm_lst_cmd m) of
        None \<Rightarrow> (False, m, w)
      | Some (p, ps) \<Rightarrow> (True, m\<lparr>lm_lst_cmd := ps\<rparr>, ll_Stop env (pid p) w))"

definition LL_HasTask :: "u32 \<Rightarrow> LongLinkTaskManager \<Rightarrow> bool" where
  "LL_HasTask tid m = list_ex (\<lambda>p. tid = pid p) (lm_lst_cmd m)"

definition LL_ClearTasks ::
    "('w, 'e) long_env_scheme \<Rightarrow> LongLinkTaskManager \<Rightarrow> 'w \<Rightarrow> LongLinkTaskManager \<times> 'w" where
  "LL_ClearTasks env m w = (m\<lparr>lm_lst_cmd := []\<rparr>, ll_CancelAsync env (ll_Disconnect env kReset w))"

definition LL_RedoTasks ::
    "('w, 'e) long_env_scheme \<Rightarrow> u64 \<Rightarrow> LongLinkTaskManager \<Rightarrow> 'w \<Rightarrow> LongLinkTaskManager \<times> 'w" where
  "LL_RedoTasks env now m w =
     (case walk (\<lambda>p (m, w).
              let p1 = p\<lparr>last_failed_dyntime_status := None\<rparr>
              in if running_id p1 \<noteq> 0
                 then LL_SingleRespHandle env now kEctLocal kEctLocalCancel kTaskFailHandleDefault
                        (ll_Profile env w) p1 m w
                 else (Some p1, m, w))
            (lm_lst_cmd m) (m, w) of
        (ps, m1, w1) \<Rightarrow>
          LL_RunLoop env now (m1\<lparr>lm_lst_cmd := ps, lm_retry_interval := 0\<rparr>) (ll_CancelAsync env w1))"

definition LL_RetryTasks ::
    "('w, 'e) long_env_scheme \<Rightarrow> u64 \<Rightarrow> ErrCmdType \<Rightarrow> int \<Rightarrow> int \<Rightarrow> u32 \<Rightarrow> LongLinkTaskManager \<Rightarrow> 'w
     \<Rightarrow> LongLinkTaskManager \<times> 'w" where
  "LL_RetryTasks env now et ec fh src m w =
     (case LL_BatchErrorRespHandle env now et ec fh src (ll_Profile env w) True m w of
        (m1, w1) \<Rightarrow> LL_RunLoop env now m1 w1)"

text \<open>The destructor ends every task, running or not.\<close>

definition LL_Destroy ::
    "('w, 'e) long_env_scheme \<Rightarrow> u64 \<Rightarrow> LongLinkTaskManager \<Rightarrow> 'w \<Rightarrow> LongLinkTaskManager \<times> 'w" where
  "LL_Destroy env now m w =
     LL_BatchErrorRespHandle env now kEctLocal kEctLocalReset kTaskFailHandleTaskEnd kInvalidTaskID
       (ll_Profile env w) False m w"

section \<open>Events of the long link\<close>

definition is_task :: "u32 \<Rightarrow> TaskProfile \<Rightarrow> bool" where
  "is_task tid p \<longleftrightarrow> tid \<noteq> kInvalidTaskID \<and> tid = pid p"

definition LL_OnSend :: "u64 \<Rightarrow> u32 \<Rightarrow> LongLinkTaskManager \<Rightarrow> LongLinkTaskManager" where
  "LL_OnSend now tid m =
     m\<lparr>lm_lst_cmd := fst (at_first (is_task tid) (\<lambda>p u. (Some (on_send now p), u)) (lm_lst_cmd m) ())\<rparr>"

definition LL_OnRecv ::
    "('w, 'e) long_env_scheme \<Rightarrow> u64 \<Rightarrow> u32 \<Rightarrow> u64 \<Rightarrow> u64 \<Rightarrow> LongLinkTaskManager \<Rightarrow> 'w
     \<Rightarrow> LongLinkTaskManager \<times> 'w" where
  "LL_OnRecv env now tid cachedsize totalsize m w =
     (case at_first (is_task tid)
             (\<lambda>p w. case on_recv env now cachedsize totalsize p w of (q, w1) \<Rightarrow> (Some q, w1))
             (lm_lst_cmd m) w of
        (ps, w1) \<Rightarrow> (m\<lparr>lm_lst_cmd := ps\<rparr>, w1))"

text \<open>What the response handler does with the decoded response. The request to retry all tasks
  of both managers is the last thing it does; it is part of the result and carried out by the
  network core.\<close>

type_synonym retry_request = "ErrCmdType \<times> int \<times> int \<times> u32"

definition LL_decoded ::
    "('w, 'e) long_env_scheme \<Rightarrow> u64 \<Rightarrow> bytes \<Rightarrow> ConnectProfile \<Rightarrow> int \<Rightarrow> int \<Rightarrow> TaskProfile
     \<Rightarrow> LongLinkTaskManager \<Rightarrow> 'w \<Rightarrow> LongLinkTaskManager \<times> 'w \<times> retry_request option" where
  "LL_decoded env now body cp handle_type ecode p m w =
     (let tid = pid p;
          single = (\<lambda>et w. case at_first (is_task tid)
                       (\<lambda>q (m, w). LL_SingleRespHandle env now et ecode handle_type cp q m w)
                       (lm_lst_cmd m) (m, w) of (ps, m1, w1) \<Rightarrow> (m1\<lparr>lm_lst_cmd := ps\<rparr>, w1));
          notify = (\<lambda>et code (m, w). (m, fun_notify_network_err env (lm_tasks_continuous_fail_count m) et code
                       (cp_ip cp) '''' (cp_port cp) w, None))
      in if handle_type = kTaskFailHandleNoError then
           notify kEctOK ecode
             (single kEctOK (DynStatistic env (cgi (tp_task p))
                (ucast (send_data_size (transfer_profile p)) + of_nat (length body))
                (now - start_send_time (transfer_profile p)) w))
         else if handle_type = kTaskFailHandleSessionTimeout \<or> handle_type = kTaskFailHandleRetryAllTasks
           then (m, w, Some (kEctEnDecode, ecode, handle_type, tid))
         else if handle_type = kTaskFailHandleTaskEnd then
           (case single kEctEnDecode w of (m1, w1) \<Rightarrow> (m1, w1, None))
         else notify kEctEnDecode (if handle_type = kTaskFailHandleDefault then ecode else handle_type)
                (LL_BatchErrorRespHandle env now kEctEnDecode ecode handle_type tid cp True m w))"

definition LL_OnResponse ::
    "('w, 'e) long_env_scheme \<Rightarrow> u64 \<Rightarrow> ErrCmdType \<Rightarrow> int \<Rightarrow> u32 \<Rightarrow> u32 \<Rightarrow> bytes \<Rightarrow> bytes \<Rightarrow> ConnectProfile
     \<Rightarrow> LongLinkTaskManager \<Rightarrow> 'w \<Rightarrow> LongLinkTaskManager \<times> 'w \<times> retry_request option" where
  "LL_OnResponse env now error_type error_code cmd tid body extension cp m w =
     (if error_type = kEctOK \<and> longlink_ispush cmd tid then
        (m, fun_on_push env (cp_start_time cp) cmd tid body extension w, None)
      else if error_type \<noteq> kEctOK then
        (case LL_BatchErrorRespHandle env now error_type error_code kTaskFailHandleDefault 0 cp True m w of
           (m1, w1) \<Rightarrow> (m1, w1, None))
      else case find (is_task tid) (lm_lst_cmd m) of
             None \<Rightarrow> (m, w, None)
           | Some p0 \<Rightarrow>
               let p = on_body now body p0;
                   m1 = m\<lparr>lm_lst_cmd := fst (at_first (is_task tid) (\<lambda>q u. (Some (on_body now body q), u))
                                               (lm_lst_cmd m) ())\<rparr>
               in case Buf2Resp env (pid p) (user_context (tp_task p)) body extension kChannelLong w of
                    ((handle_type, ecode), w1) \<Rightarrow> LL_decoded env now body cp handle_type ecode p m1 w1)"

definition LL_SignalConnection ::
    "('w, 'e) long_env_scheme \<Rightarrow> u64 \<Rightarrow> TLongLinkStatus \<Rightarrow> LongLinkTaskManager \<Rightarrow> 'w
     \<Rightarrow> LongLinkTaskManager \<times> 'w" where
  "LL_SignalConnection env now status m w =
     (if status = kConnected then LL_RunLoop env now m w else (m, w))"


section \<open>Lookup and removal by id\<close>

interpretation long_store: task_store "\<lambda>s. map pid (lm_lst_cmd (fst s))" "\<lambda>i s. LL_HasTask i (fst s)"
    "\<lambda>i (m, w). case LL_StopTask env i m w of (b, m', w') \<Rightarrow> (b, m', w')"
    "\<lambda>(m, w). LL_ClearTasks env m w"
  for env :: "('w, 'e) long_env_scheme"
proof (unfold_locales, goal_cases)
  case (1 i s)
  then show ?case by (auto simp: LL_HasTask_def list_ex_iff)
next
  case (2 i s)
  obtain m w where s: "s = (m, w)" by force
  show ?case
    by (rule erase_first_cases [of i pid "lm_lst_cmd m"]) (simp_all add: s LL_StopTask_def)
next
  case (3 i s)
  obtain m w where s: "s = (m, w)" by force
  show ?case
    by (rule erase_first_cases [of i pid "lm_lst_cmd m"])
      (simp_all add: s LL_StopTask_def remove1_idem)
next
  case (4 s)
  then show ?case by (cases s) (simp add: LL_ClearTasks_def)
qed

section \<open>What the operations keep\<close>

text \<open>The part of the contract that concerns the long link: none of its functions ends a task.\<close>

locale long_sink = task_sink env gone winv
  for env :: "('w, 'e) long_env_scheme" and gone :: "'w \<Rightarrow> u32 multiset" and winv :: "'w \<Rightarrow> bool" +
  assumes send: "gone (snd (ll_Send env buf ext t w)) = gone w \<and> (winv w \<longrightarrow> winv (snd (ll_Send env buf ext t w)))"
    and halt: "gone (ll_Stop env i w) = gone w \<and> (winv w \<longrightarrow> winv (ll_Stop env i w))"
    and disconnect: "gone (ll_Disconnect env c w) = gone w \<and> (winv w \<longrightarrow> winv (ll_Disconnect env c w))"
    and connect: "gone (snd (ll_MakeSureConnected env w)) = gone w \<and> (winv w \<longrightarrow> winv (snd (ll_MakeSureConnected env w)))"
    and cancel: "gone (ll_CancelAsync env w) = gone w \<and> (winv w \<longrightarrow> winv (ll_CancelAsync env w))"
    and push: "gone (fun_on_push env ch cmd i buf ext w) = gone w \<and> (winv w \<longrightarrow> winv (fun_on_push env ch cmd i buf ext w))"
begin

abbreviation mgone :: "LongLinkTaskManager \<times> 'w \<Rightarrow> u32 multiset" where
  "mgone s \<equiv> gone (snd s)"

abbreviation mtimer :: "LongLinkTaskManager \<times> 'x \<Rightarrow> bool" where
  "mtimer s \<equiv> lm_timer (fst s)"

abbreviation minv :: "LongLinkTaskManager \<times> 'w \<Rightarrow> bool" where
  "minv s \<equiv> winv (snd s)"

abbreviation sinv :: "LongLinkTaskManager \<times> 'w \<times> 'x \<Rightarrow> bool" where
  "sinv s \<equiv> winv (fst (snd s))"

abbreviation sgone :: "LongLinkTaskManager \<times> 'w \<times> 'x \<Rightarrow> u32 multiset" where
  "sgone s \<equiv> gone (fst (snd s))"

lemma single_ok:
  "step_ok mgone mtimer minv p (m, w) (LL_SingleRespHandle env now et ec fh cp p m w)"
proof -
  obtain ret w1 where c: "fun_callback env et ec fh (tp_task p) (ucast (now - start_task_time p)) w = (ret, w1)"
    by force
  have g: "gone w1 = add_mset (pid p) (gone w) \<and> (winv w \<longrightarrow> winv w1)"
    using callback [of et ec fh "tp_task p" "ucast (now - start_task_time p)" w] c by simp
  have st: "start_task_time (set_connect_profile cp p) = start_task_time p"
    by (simp add: set_connect_profile_def)
  have k: "kept (retry_profile et ec (set_connect_profile cp p)) p" if "0 < remain_retry_count p"
    using kept_trans [OF kept_retry kept_helpers(1), of cp p et ec] that by simp
  show ?thesis
    using c g k by (auto simp: LL_SingleRespHandle_def step_ok_def Let_def st report not_le)
qed

lemma single_keeps:
  "kept p' p \<Longrightarrow> step_ok mgone mtimer minv p (m, w) (LL_SingleRespHandle env now et ec fh cp p' m w)"
  by (rule step_ok_kept [OF single_ok])

text \<open>\<open>keeps s s'\<close>: no task is lost or invented between the two states of the manager and its
  environment, the timer stays, and the tasks left are those that were there.\<close>

definition keeps :: "LongLinkTaskManager \<times> 'w \<Rightarrow> LongLinkTaskManager \<times> 'w \<Rightarrow> bool" where
  "keeps s s' \<longleftrightarrow> ids (lm_lst_cmd (fst s')) + gone (snd s') = ids (lm_lst_cmd (fst s)) + gone (snd s) \<and>
     survive (lm_lst_cmd (fst s')) (lm_lst_cmd (fst s)) \<and>
     lm_timer (fst s') = lm_timer (fst s) \<and> (winv (snd s) \<longrightarrow> winv (snd s'))"

lemma keeps_refl [simp]: "keeps s s"
  by (simp add: keeps_def)

lemma keeps_trans: "keeps s1 s2 \<Longrightarrow> keeps s2 s3 \<Longrightarrow> keeps s1 s3"
  using survive_trans by (auto simp: keeps_def)

lemma keeps_walk:
  assumes "\<And>p s. step_ok mgone mtimer minv p s (f p s)" "walk f (lm_lst_cmd m) (m, w) = (ps, m1, w1)"
  shows "keeps (m, w) (m1\<lparr>lm_lst_cmd := ps\<rparr>, w1)"
  using walk_ok [OF assms] by (simp add: keeps_def)

lemma batch_keeps:
  "keeps (m, w) (LL_BatchErrorRespHandle env now et ec fh src cp only m w)"
proof -
  let ?f = "\<lambda>p (m, w). if only \<and> running_id p = 0 then (Some p, m, w)
     else LL_SingleRespHandle env now et (if src = kInvalidTaskID \<or> src = pid p then ec else 0) fh cp p m w"
  obtain ps m1 w1 where wk: "walk ?f (lm_lst_cmd m) (m, w) = (ps, m1, w1)"
    by (rule prod_cases3)
  have "step_ok mgone mtimer minv p s (?f p s)" for p s
  proof (cases s)
    case (Pair m w)
    then show ?thesis
      using single_ok [of p m w now et _ fh cp] by (auto simp: step_ok_def)
  qed
  from keeps_walk [OF this wk] show ?thesis
    unfolding LL_BatchErrorRespHandle_def wk
    by (auto simp: keeps_def Let_def disconnect cancel)
qed

lemma timeout_one_ok: "step_ok sgone mtimer sinv p s (LL_timeout_one env now p s)"
proof -
  obtain m w code src tt where s: "s = (m, w, code, src, tt)" by (rule prod_cases5)
  define p' where "p' = (if LL_first_pkg_late now p then SetLastFailedStatus p else p)"
  have k: "kept p' p" by (simp add: p'_def)
  obtain code' src' where c: "(case LL_socket_timeout (NetInfo env w) now p of
      None \<Rightarrow> (code, src) | Some c \<Rightarrow> (c, pid p)) = (code', src')" by force
  obtain r m1 w1 where r: "LL_SingleRespHandle env now kEctLocal kEctLocalTaskTimeout
      kTaskFailHandleTaskTimeout (ll_Profile env w) p' m w = (r, m1, w1)" by (rule prod_cases3)
  have "step_ok mgone mtimer minv p (m, w) (r, m1, w1)"
    unfolding r [symmetric] by (rule single_keeps [OF k])
  then show ?thesis
    using k by (cases r) (simp_all add: LL_timeout_one_def s c Let_def p'_def [symmetric] r)
qed

lemma timeout_one_in_time:
  assumes "LL_timeout_one env now p s = (Some q, s')"
  shows "in_time now q"
proof -
  obtain m w code src tt where s: "s = (m, w, code, src, tt)" by (rule prod_cases5)
  show ?thesis
    using assms
    by (auto simp: LL_timeout_one_def s LL_SingleRespHandle_def in_time_def Let_def
        split: prod.splits if_splits)
qed

lemma RunOnTimeout_keeps: "keeps (m, w) (LL_RunOnTimeout env now m w)"
  and RunOnTimeout_in_time: "\<forall>p \<in> set (lm_lst_cmd (fst (LL_RunOnTimeout env now m w))). in_time now p"
proof -
  let ?s = "(m, w, 0, kInvalidTaskID, False)"
  obtain ps m0 w1 code src tt where
    wk: "walk (LL_timeout_one env now) (lm_lst_cmd m) ?s = (ps, m0, w1, code, src, tt)"
    by (rule prod_cases6)
  let ?m1 = "m0\<lparr>lm_lst_cmd := ps\<rparr>"
  have k1: "keeps (m, w) (?m1, w1)"
    using walk_ok [OF timeout_one_ok wk] by (simp add: keeps_def)
  have t1: "\<forall>p \<in> set ps. in_time now p"
    using walk_all [OF timeout_one_in_time wk] .
  let ?w2 = "DynStatistic env '''' kDynTimeTaskFailedPkgLen32 0 w1"
  have kd: "keeps (?m1, w1) (?m1, ?w2)" by (simp add: keeps_def dyn)
  have kn: "keeps s (fst r, fun_notify_network_err env k et ec ip host port (snd r))"
    if "keeps s r" for s r k et ec ip host port
    using that by (simp add: keeps_def notify)
  have b: "keeps (?m1, w1) (LL_RunOnTimeout env now m w)"
  proof -
    let ?b = "LL_BatchErrorRespHandle env now kEctNetMsgXP code kTaskFailHandleDefault src
      (ll_Profile env ?w2) True ?m1 ?w2"
    obtain m2 w3 where b: "?b = (m2, w3)" by force
    have "keeps (?m1, w1) (m2, w3)" using keeps_trans [OF kd batch_keeps] b by metis
    from kn [OF this] show ?thesis
      unfolding LL_RunOnTimeout_def wk using batch_keeps [of ?m1 w1] by (simp add: Let_def b)
  qed
  show "keeps (m, w) (LL_RunOnTimeout env now m w)" by (rule keeps_trans [OF k1 b])
  show "\<forall>p \<in> set (lm_lst_cmd (fst (LL_RunOnTimeout env now m w))). in_time now p"
    using b t1 survive_in_time by (auto simp: keeps_def)
qed

lemma fail_one_ok: "step_ok sgone mtimer sinv p (m, w, x) (LL_fail_one env now et ec p (m, w, x))"
  using single_ok [of p m w now et ec kTaskFailHandleTaskEnd "ll_Profile env w"]
  by (auto simp: LL_fail_one_def step_ok_def split: prod.splits option.splits)

lemma send_one_ok: "step_ok sgone mtimer sinv p (m, w, x) (LL_send_one env now buf ext p (m, w, x))"
proof -
  obtain ar ao sent where x: "x = (ar, ao, sent)" by (rule prod_cases3)
  let ?p1 = "prepare_send env now sent buf w p"
  obtain rid w1 where sd: "ll_Send env buf ext (tp_task p) w = (rid, w1)" by force
  have g: "same w w1" using send [of buf ext "tp_task p" w] sd by (simp add: same_def)
  have k: "kept (?p1\<lparr>running_id := rid\<rparr>) p" by (rule kept_trans [OF kept_helpers(7) kept_helpers(2)])
  have "step_ok mgone mtimer minv p (m, w1) (LL_SingleRespHandle env now kEctOK 0 kTaskFailHandleNoError
      (ll_Profile env w1) (?p1\<lparr>running_id := rid\<rparr>) m w1)"
    by (rule single_keeps [OF k])
  then show ?thesis
    using g k by (auto simp: same_def LL_send_one_def x sd step_ok_def Let_def split: prod.splits option.splits)
qed

lemma connect_one_ok: "step_ok sgone mtimer sinv p (m, w, x) (LL_connect_one env now buf ext p (m, w, x))"
proof -
  obtain ar ao sent where x: "x = (ar, ao, sent)" by (rule prod_cases3)
  obtain conn w1 where c: "ll_MakeSureConnected env w = (conn, w1)" by force
  have g1: "same w w1" using connect [of w] c by (simp add: same_def)
  obtain r w2 where e: "encode_checked env kChannelLong (tp_task p) [] ext w1 = (r, w2)" by force
  have g2: "same w w2" using same_trans [OF g1 encode_same [of w1 kChannelLong "tp_task p" "[]" ext]] e by simp
  have fail: "step_ok sgone mtimer sinv p (m, w, x) (LL_fail_one env now et ec p (m, v, x))" if "same w v" for v et ec
    using that by (intro step_ok_from [OF fail_one_ok]) (simp_all add: same_def)
  have snd: "step_ok sgone mtimer sinv p (m, w, x) (LL_send_one env now b e p (m, v, x))" if "same w v" for v b e
    using that by (intro step_ok_from [OF send_one_ok]) (simp_all add: same_def)
  show ?thesis
    using fail [OF g1] fail [OF g2] snd [OF g1] snd [OF g2] g1
    by (cases r) (auto simp: same_def LL_connect_one_def x c e Let_def)
qed

lemma start_one_ok: "step_ok sgone mtimer sinv p s (LL_start_one env now canretry p s)"
proof -
  obtain m w ar ao sent where s: "s = (m, w, ar, ao, sent)" by (rule prod_cases5)
  obtain ok ar' ao' w1 where a: "auth_gate env (tp_task p) ar ao w = (ok, ar', ao', w1)" by (rule prod_cases4)
  have g1: "same w w1" by (rule auth_same [OF a])
  obtain r w2 where e: "encode_checked env kChannelLong (tp_task p) [] [] w1 = (r, w2)" by force
  have g2: "same w w2" using same_trans [OF g1 encode_same [of w1 kChannelLong "tp_task p" "[]" "[]"]] e by simp
  have fail: "step_ok sgone mtimer sinv p s (LL_fail_one env now et ec p (m, w2, x))" for et ec x
    using g2 by (intro step_ok_from [OF fail_one_ok]) (simp_all add: s same_def)
  have conn: "step_ok sgone mtimer sinv p s (LL_connect_one env now b e q (m, v, x))"
    if "same w v" "kept q p" for v b e q x
    using that by (intro step_ok_kept [OF step_ok_from [OF connect_one_ok]]) (simp_all add: s same_def)
  show ?thesis
    using fail conn [OF g1] conn [OF g2] g1
    by (cases r) (auto simp: same_def LL_start_one_def s a e)
qed

lemma RunOnStartTask_keeps: "keeps (m, w) (LL_RunOnStartTask env now m w)"
proof -
  let ?c = "lm_retry_interval m \<le> now - lm_lastbatcherrortime m"
  obtain ps m1 w1 x where wk: "walk (LL_start_one env now ?c) (lm_lst_cmd m) (m, w, False, False, 0) = (ps, m1, w1, x)"
    by (rule prod_cases4)
  from walk_ok [OF start_one_ok wk] show ?thesis
    by (cases x) (simp add: LL_RunOnStartTask_def wk Let_def keeps_def)
qed

text \<open>The run loop also re-arms the timer and leaves no task past its deadline.\<close>

definition runs :: "LongLinkTaskManager \<times> 'w \<Rightarrow> LongLinkTaskManager \<times> 'w \<Rightarrow> bool" where
  "runs s s' \<longleftrightarrow> ids (lm_lst_cmd (fst s')) + gone (snd s') = ids (lm_lst_cmd (fst s)) + gone (snd s) \<and>
     survive (lm_lst_cmd (fst s')) (lm_lst_cmd (fst s)) \<and>
     (lm_lst_cmd (fst s') \<noteq> [] \<longrightarrow> lm_timer (fst s')) \<and> (winv (snd s) \<longrightarrow> winv (snd s'))"

lemma RunLoop_runs: "runs (m, w) (LL_RunLoop env now m w)"
  and RunLoop_in_time: "\<forall>p \<in> set (lm_lst_cmd (fst (LL_RunLoop env now m w))). in_time now p"
proof -
  obtain m1 w1 where t: "LL_RunOnTimeout env now m w = (m1, w1)" by force
  obtain m2 w2 where st: "LL_RunOnStartTask env now m1 w1 = (m2, w2)" by force
  have k1: "keeps (m, w) (m1, w1)" using RunOnTimeout_keeps [of m w now] t by simp
  have k2: "keeps (m1, w1) (m2, w2)" using RunOnStartTask_keeps [of m1 w1 now] st by simp
  show "runs (m, w) (LL_RunLoop env now m w)"
    using keeps_trans [OF k1 k2] by (auto simp: LL_RunLoop_def t st runs_def keeps_def)
  have "\<forall>p \<in> set (lm_lst_cmd m2). in_time now p"
    using RunOnTimeout_in_time [of now m w] t k2 survive_in_time by (auto simp: keeps_def)
  then show "\<forall>p \<in> set (lm_lst_cmd (fst (LL_RunLoop env now m w))). in_time now p"
    by (simp add: LL_RunLoop_def t st)
qed

lemma keeps_runs: "keeps s1 s2 \<Longrightarrow> runs s2 s3 \<Longrightarrow> runs s1 s3"
  using survive_trans by (auto simp: keeps_def runs_def)

lemma RedoTasks_runs: "runs (m, w) (LL_RedoTasks env now m w)"
proof -
  let ?f = "\<lambda>p (m, w). let p1 = p\<lparr>last_failed_dyntime_status := None\<rparr>
     in if running_id p1 \<noteq> 0 then LL_SingleRespHandle env now kEctLocal kEctLocalCancel
          kTaskFailHandleDefault (ll_Profile env w) p1 m w else (Some p1, m, w)"
  obtain ps m1 w1 where wk: "walk ?f (lm_lst_cmd m) (m, w) = (ps, m1, w1)" by (rule prod_cases3)
  have "step_ok mgone mtimer minv p s (?f p s)" for p s
    by (cases s) (simp add: Let_def single_keeps)
  from keeps_walk [OF this wk]
  have "keeps (m, w) (m1\<lparr>lm_lst_cmd := ps, lm_retry_interval := 0\<rparr>, ll_CancelAsync env w1)"
    by (simp add: keeps_def cancel)
  from keeps_runs [OF this RunLoop_runs] show ?thesis unfolding LL_RedoTasks_def wk by simp
qed

lemma RetryTasks_runs: "runs (m, w) (LL_RetryTasks env now et ec fh src m w)"
proof -
  obtain m1 w1 where b: "LL_BatchErrorRespHandle env now et ec fh src (ll_Profile env w) True m w = (m1, w1)"
    by force
  have "keeps (m, w) (m1, w1)" using batch_keeps b by metis
  from keeps_runs [OF this RunLoop_runs] show ?thesis by (simp add: LL_RetryTasks_def b)
qed

lemma OnTimer_runs: "runs (m, w) (LL_OnTimer env now m w)"
  using RunLoop_runs [of "m\<lparr>lm_timer := False\<rparr>" w now] by (simp add: LL_OnTimer_def runs_def)

lemma OnTimer_in_time: "\<forall>p \<in> set (lm_lst_cmd (fst (LL_OnTimer env now m w))). in_time now p"
  by (simp add: LL_OnTimer_def RunLoop_in_time)

lemma StartTask_runs:
  assumes "LL_StartTask env now t m w = (ok, m', w')"
  shows "ok" and "ids (lm_lst_cmd m') + gone w' = add_mset (taskid t) (ids (lm_lst_cmd m) + gone w)"
    and "survive (lm_lst_cmd m')
      (sort_tasks (lm_lst_cmd m @ [(TaskProfile_new now t)\<lparr>link_type := kChannelLong\<rparr>]))"
    and "lm_lst_cmd m' \<noteq> [] \<longrightarrow> lm_timer m'" and "winv w \<longrightarrow> winv w'"
proof -
  let ?p = "(TaskProfile_new now t)\<lparr>link_type := kChannelLong\<rparr>"
  let ?m = "m\<lparr>lm_lst_cmd := sort_tasks (lm_lst_cmd m @ [?p])\<rparr>"
  have "pid ?p = taskid t" by (simp add: TaskProfile_new_def)
  then show "ok" "ids (lm_lst_cmd m') + gone w' = add_mset (taskid t) (ids (lm_lst_cmd m) + gone w)"
    "survive (lm_lst_cmd m') (sort_tasks (lm_lst_cmd m @ [?p]))"
    "lm_lst_cmd m' \<noteq> [] \<longrightarrow> lm_timer m'" "winv w \<longrightarrow> winv w'"
    using RunLoop_runs [of ?m w now] assms
    by (auto simp: LL_StartTask_def runs_def Let_def split: prod.splits)
qed

lemma OnSend_keeps: "keeps (m, w) (LL_OnSend now tid m, w)"
proof -
  obtain ps u where f: "at_first (is_task tid) (\<lambda>p u. (Some (on_send now p), u)) (lm_lst_cmd m) () = (ps, u)"
    by (rule prod.exhaust)
  from at_first_ok [OF _ f, of "\<lambda>_. {#}" "\<lambda>_. True" "\<lambda>_. True"] show ?thesis
    by (simp add: LL_OnSend_def f keeps_def)
qed

lemma OnRecv_keeps: "keeps (m, w) (LL_OnRecv env now tid a b m w)"
proof -
  let ?f = "\<lambda>p w. case on_recv env now a b p w of (q, w1) \<Rightarrow> (Some q, w1)"
  obtain ps w1 where f: "at_first (is_task tid) ?f (lm_lst_cmd m) w = (ps, w1)" by force
  have "step_ok gone (\<lambda>_. True) winv p w (?f p w)" for p w
  proof -
    obtain q w1 where r: "on_recv env now a b p w = (q, w1)" by force
    have "kept q p" using kept_helpers(5) [of env now a b p w] unfolding r by simp
    then show ?thesis using recv_same [of w now a b p] r by (simp add: same_def)
  qed
  from at_first_ok [OF this f] show ?thesis by (simp add: LL_OnRecv_def f keeps_def)
qed

lemma on_body_keeps:
  "keeps (m, w) (m\<lparr>lm_lst_cmd := fst (at_first P (\<lambda>q u. (Some (on_body now body q), u)) (lm_lst_cmd m) ())\<rparr>, w)"
proof -
  obtain ps u where f: "at_first P (\<lambda>q u. (Some (on_body now body q), u)) (lm_lst_cmd m) () = (ps, u)"
    by (rule prod.exhaust)
  from at_first_ok [OF _ f, of "\<lambda>_. {#}" "\<lambda>_. True" "\<lambda>_. True"] show ?thesis by (simp add: f keeps_def)
qed

lemma at_first_single_keeps:
  "keeps (m, w) (case at_first P (\<lambda>q (m, w). LL_SingleRespHandle env now et ec fh cp q m w)
      (lm_lst_cmd m) (m, w) of (ps, m1, w1) \<Rightarrow> (m1\<lparr>lm_lst_cmd := ps\<rparr>, w1))"
proof -
  let ?f = "\<lambda>q (m, w). LL_SingleRespHandle env now et ec fh cp q m w"
  obtain ps m1 w1 where f: "at_first P ?f (lm_lst_cmd m) (m, w) = (ps, m1, w1)" by (rule prod_cases3)
  have "step_ok mgone mtimer minv p s (?f p s)" for p s by (cases s) (simp add: single_ok)
  from at_first_ok [OF this f] show ?thesis by (simp add: f keeps_def)
qed

lemma decoded_keeps:
  assumes "LL_decoded env now body cp ht ec p m w = (m', w', rr)"
  shows "keeps (m, w) (m', w')"
proof -
  have n: "keeps s (fst r, fun_notify_network_err env k et c ip host port (snd r))"
    if "keeps s r" for s r k et c ip host port
    using that by (simp add: keeps_def notify)
  let ?single = "\<lambda>et w. case at_first (is_task (pid p))
      (\<lambda>q (m, w). LL_SingleRespHandle env now et ec ht cp q m w) (lm_lst_cmd m) (m, w)
      of (ps, m1, w1) \<Rightarrow> (m1\<lparr>lm_lst_cmd := ps\<rparr>, w1)"
  let ?w1 = "DynStatistic env (cgi (tp_task p)) (ucast (send_data_size (transfer_profile p)) + of_nat (length body))
      (now - start_send_time (transfer_profile p)) w"
  have d: "keeps (m, w) (?single kEctOK ?w1)"
    using at_first_single_keeps [of m ?w1 "is_task (pid p)" now kEctOK ec ht cp] by (simp add: keeps_def dyn)
  note e = at_first_single_keeps [of m w "is_task (pid p)" now kEctEnDecode ec ht cp]
  note b = batch_keeps [of m w now kEctEnDecode ec ht "pid p" cp True]
  show ?thesis
    using assms n [OF d] n [OF b] e
    by (auto simp: LL_decoded_def Let_def case_prod_beta split: if_splits)
qed

lemma OnResponse_keeps:
  assumes "LL_OnResponse env now et ec cmd tid body ext cp m w = (m', w', rr)"
  shows "keeps (m, w) (m', w')"
proof -
  consider (pushed) "et = kEctOK" "longlink_ispush cmd tid" | (err) "et \<noteq> kEctOK"
    | (none) "et = kEctOK" "\<not> longlink_ispush cmd tid" "find (is_task tid) (lm_lst_cmd m) = None"
    | (task) p0 where "et = kEctOK" "\<not> longlink_ispush cmd tid" "find (is_task tid) (lm_lst_cmd m) = Some p0"
    by (cases "find (is_task tid) (lm_lst_cmd m)") auto
  then show ?thesis
  proof cases
    case pushed
    then show ?thesis using assms by (auto simp: LL_OnResponse_def keeps_def push)
  next
    case err
    then show ?thesis
      using assms batch_keeps [of m w now et ec kTaskFailHandleDefault 0 cp True]
      by (auto simp: LL_OnResponse_def split: prod.splits)
  next
    case none
    then show ?thesis using assms by (simp add: LL_OnResponse_def)
  next
    case task
    let ?p = "on_body now body p0"
    let ?m1 = "m\<lparr>lm_lst_cmd := fst (at_first (is_task tid) (\<lambda>q u. (Some (on_body now body q), u)) (lm_lst_cmd m) ())\<rparr>"
    obtain ht c w1 where b: "Buf2Resp env (pid ?p) (user_context (tp_task ?p)) body ext kChannelLong w = ((ht, c), w1)"
      by (metis prod.exhaust)
    have "same w w1"
      using resp [of "pid ?p" "user_context (tp_task ?p)" body ext kChannelLong w] b by (simp add: same_def)
    then have "keeps (m, w) (?m1, w1)" using on_body_keeps [of m w "is_task tid" now body] by (simp add: keeps_def same_def)
    moreover have "LL_decoded env now body cp ht c ?p ?m1 w1 = (m', w', rr)"
      using assms task b by (simp add: LL_OnResponse_def Let_def)
    ultimately show ?thesis using decoded_keeps keeps_trans by blast
  qed
qed

lemma Destroy_ends_all:
  assumes "LL_Destroy env now m w = (m', w')"
  defines "cp \<equiv> ll_Profile env w"
  shows "lm_lst_cmd m' = []" and "gone w' = ids (lm_lst_cmd m) + gone w"
proof -
  let ?f = "\<lambda>p (m, w). if False \<and> running_id p = 0 then (Some p, m, w)
     else LL_SingleRespHandle env now kEctLocal
       (if kInvalidTaskID = kInvalidTaskID \<or> kInvalidTaskID = pid p then kEctLocalReset else 0)
       kTaskFailHandleTaskEnd cp p m w"
  obtain ps m1 w1 where wk: "walk ?f (lm_lst_cmd m) (m, w) = (ps, m1, w1)" by (rule prod_cases3)
  have "\<forall>q \<in> set ps. False"
    by (rule walk_all [OF _ wk])
      (auto simp: LL_SingleRespHandle_def Let_def split: prod.splits if_splits)
  then have "ps = []" by auto
  then show l: "lm_lst_cmd m' = []"
    using assms(1) unfolding LL_Destroy_def LL_BatchErrorRespHandle_def cp_def [symmetric] wk
    by (auto simp: Let_def fail_handle_defs)
  show "gone w' = ids (lm_lst_cmd m) + gone w"
    using batch_keeps [of m w now kEctLocal kEctLocalReset kTaskFailHandleTaskEnd kInvalidTaskID "ll_Profile env w" False]
      assms l by (simp add: LL_Destroy_def keeps_def)
qed

end

end
