(* ===== verification/Shortlink_Task_Manager.thy ===== *)
theory Shortlink_Task_Manager
  imports Task_Env
begin

text \<open>
  stn/src/shortlink_task_manager.cc: the tasks that go over short (HTTP) connections, one worker
  per request. The conventions are those of the long link manager. \<open>running_id\<close> is the
  address of the worker, 0 for none; \<open>sl_Destroy\<close> stands for the destruction of a worker
  together with the cancellation of its queued callbacks.
\<close>

section \<open>State and environment\<close>

record 'w short_env = "'w stn_env" +
  sl_Create :: "Task \<Rightarrow> bool \<Rightarrow> 'w \<Rightarrow> nat \<times> 'w"
  sl_SendRequest :: "nat \<Rightarrow> bytes \<Rightarrow> bytes \<Rightarrow> 'w \<Rightarrow> 'w"
  sl_Destroy :: "nat \<Rightarrow> 'w \<Rightarrow> 'w"
  sl_Profile :: "nat \<Rightarrow> 'w \<Rightarrow> ConnectProfile"
  fun_shortlink_response :: "int \<Rightarrow> 'w \<Rightarrow> 'w"

record ShortLinkTaskManager =
  sm_lst_cmd :: "TaskProfile list"
  sm_default_use_proxy :: bool
  sm_tasks_continuous_fail_count :: u32
  sm_timer :: bool

definition ShortLinkTaskManager_new :: ShortLinkTaskManager where
  "ShortLinkTaskManager_new = \<lparr>sm_lst_cmd = [], sm_default_use_proxy = True,
     sm_tasks_continuous_fail_count = 0, sm_timer = False\<rparr>"

definition SL_DeleteShortLink :: "('w, 'e) short_env_scheme \<Rightarrow> nat \<Rightarrow> 'w \<Rightarrow> 'w" where
  "SL_DeleteShortLink env rid w = (if rid = 0 then w else sl_Destroy env rid w)"

text \<open>\<open>first->running_id ? worker->Profile() : ConnectProfile()\<close>\<close>

definition worker_profile :: "('w, 'e) short_env_scheme \<Rightarrow> TaskProfile \<Rightarrow> 'w \<Rightarrow> ConnectProfile" where
  "worker_profile env p w =
     (if running_id p \<noteq> 0 then sl_Profile env (running_id p) w else ConnectProfile_Reset)"

section \<open>Ending or retrying tasks\<close>

definition SL_SingleRespHandle ::
    "('w, 'e) short_env_scheme \<Rightarrow> u64 \<Rightarrow> ErrCmdType \<Rightarrow> int \<Rightarrow> int \<Rightarrow> ConnectProfile \<Rightarrow> TaskProfile
     \<Rightarrow> ShortLinkTaskManager \<Rightarrow> 'w \<Rightarrow> TaskProfile option \<times> ShortLinkTaskManager \<times> 'w" where
  "SL_SingleRespHandle env now et ec fh cp p m w =
     (let m1 = (if et = kEctOK
                then m\<lparr>sm_tasks_continuous_fail_count := 0, sm_default_use_proxy := use_proxy p\<rparr>
                else m\<lparr>sm_tasks_continuous_fail_count := sm_tasks_continuous_fail_count m + 1\<rparr>);
          p1 = set_connect_profile cp p
      in if force_no_retry p1 \<or> remain_retry_count p1 \<le> 0 \<or> et = kEctOK
            \<or> fh = kTaskFailHandleTaskEnd \<or> fh = kTaskFailHandleTaskTimeout
         then case fun_callback env et ec fh (tp_task p1) (ucast (now - start_task_time p1)) w of
                (cgi_retcode, w1) \<Rightarrow>
                  let errcode = (if running_id p1 \<noteq> 0 \<and> et = kEctOK then cgi_retcode else ec);
                      w2 = ReportTask env (end_profile now et ec errcode p1) w1
                  in (None, m1, SL_DeleteShortLink env (running_id p1) w2)
         else (Some ((retry_profile et ec p1)\<lparr>
                       retry_start_time := (if fh = kTaskFailHandleSessionTimeout then 0 else now),
                       retry_time_interval := 1 * 1000\<rparr>),
               m1, SL_DeleteShortLink env (running_id p1) w))"

definition SL_BatchErrorRespHandle ::
    "('w, 'e) short_env_scheme \<Rightarrow> u64 \<Rightarrow> ErrCmdType \<Rightarrow> int \<Rightarrow> int \<Rightarrow> u32 \<Rightarrow> bool
     \<Rightarrow> ShortLinkTaskManager \<Rightarrow> 'w \<Rightarrow> ShortLinkTaskManager \<times> 'w" where
  "SL_BatchErrorRespHandle env now et ec fh src_taskid callback_runing_task_only m w =
     (case walk (\<lambda>p (m, w).
              if callback_runing_task_only \<and> running_id p = 0 then (Some p, m, w)
              else if fh = kTaskFailHandleSessionTimeout \<and> \<not> need_authed (tp_task p) then (Some p, m, w)
              else SL_SingleRespHandle env now et
                     (if src_taskid = kInvalidTaskID \<or> src_taskid = pid p then ec else 0) fh
                     (worker_profile env p w) p m w)
            (sm_lst_cmd m) (m, w) of
        (ps, m1, w1) \<Rightarrow> (m1\<lparr>sm_lst_cmd := ps\<rparr>, w1))"

section \<open>The run loop\<close>

text \<open>The first check that fails gives the error; \<open>None\<close> when the task is in time.\<close>

definition SL_timeout_error :: "NetType \<Rightarrow> u64 \<Rightarrow> TaskProfile \<Rightarrow> (ErrCmdType \<times> int) option" where
  "SL_timeout_error net cur_time p =
     (let tr = transfer_profile p;
          sending = (running_id p \<noteq> 0 \<and> 0 < start_send_time tr)
      in if task_timeout p \<le> cur_time - start_task_time p then Some (kEctLocal, kEctLocalTaskTimeout)
         else if sending \<and> read_write_timeout tr \<le> cur_time - start_send_time tr
           then Some (kEctHttp, kEctHttpReadWriteTimeout)
         else if sending \<and> last_receive_pkg_time tr = 0
                 \<and> first_pkg_timeout tr \<le> cur_time - start_send_time tr
           then Some (kEctHttp, kEctHttpFirstPkgTimeout)
         else if sending \<and> 0 < last_receive_pkg_time tr \<and>
              (if net \<noteq> kMobile then kWifiPackageInterval else kGPRSPackageInterval)
                \<le> cur_time - last_receive_pkg_time tr
           then Some (kEctHttp, kEctHttpPkgPkgTimeout)
         else None)"

definition SL_timeout_one ::
    "('w, 'e) short_env_scheme \<Rightarrow> u64 \<Rightarrow> TaskProfile \<Rightarrow> ShortLinkTaskManager \<times> 'w
     \<Rightarrow> TaskProfile option \<times> ShortLinkTaskManager \<times> 'w" where
  "SL_timeout_one env cur_time p s =
     (case s of (m, w) \<Rightarrow>
        case SL_timeout_error (NetInfo env w) cur_time p of
          None \<Rightarrow> (Some p, m, w)
        | Some (et, code) \<Rightarrow>
            let cp = worker_profile env p w;
                w1 = DynStatistic env (cgi (tp_task p)) 0xffffffff 0 w;
                p1 = SetLastFailedStatus p
            in case SL_SingleRespHandle env cur_time et code
                      (if et = kEctLocal then kTaskFailHandleTaskTimeout else kTaskFailHandleDefault)
                      (worker_profile env p1 w1) p1 m w1 of
                 (r, m1, w2) \<Rightarrow>
                   (r, m1, fun_notify_network_err env (sm_tasks_continuous_fail_count m1) et code
                             (cp_ip cp) (cp_host cp) (if running_id p \<noteq> 0 then cp_port cp else 0) w2))"

definition SL_RunOnTimeout ::
    "('w, 'e) short_env_scheme \<Rightarrow> u64 \<Rightarrow> ShortLinkTaskManager \<Rightarrow> 'w \<Rightarrow> ShortLinkTaskManager \<times> 'w" where
  "SL_RunOnTimeout env cur_time m w =
     (case walk (SL_timeout_one env cur_time) (sm_lst_cmd m) (m, w) of
        (ps, m1, w1) \<Rightarrow> (m1\<lparr>sm_lst_cmd := ps\<rparr>, w1))"

type_synonym 'w sl_start_state = "ShortLinkTaskManager \<times> 'w \<times> bool \<times> bool \<times> int"

text \<open>The hand-over of an encoded request to a new worker.\<close>

definition SL_send_one ::
    "('w, 'e) short_env_scheme \<Rightarrow> u64 \<Rightarrow> bytes \<Rightarrow> bytes \<Rightarrow> TaskProfile \<Rightarrow> 'w sl_start_state
     \<Rightarrow> TaskProfile option \<times> 'w sl_start_state" where
  "SL_send_one env now buf ext p s =
     (case s of (m, w, authrun, authok, sent) \<Rightarrow>
        let p1 = prepare_send env now sent buf w p;
            proxy = (if remain_retry_count p1 = 0 \<and> 0 < retry_count (tp_task p1)
                     then \<not> sm_default_use_proxy m else sm_default_use_proxy m)
        in case sl_Create env (tp_task p1) proxy w of
             (worker, w1) \<Rightarrow>
               let p2 = p1\<lparr>use_proxy := proxy, running_id := worker\<rparr>
               in if worker = 0 then (Some p2, m, w1, authrun, authok, sent)
                  else (Some p2, m, sl_SendRequest env worker buf ext w1, authrun, authok, sent + 1))"

definition SL_start_one ::
    "('w, 'e) short_env_scheme \<Rightarrow> u64 \<Rightarrow> TaskProfile \<Rightarrow> 'w sl_start_state
     \<Rightarrow> TaskProfile option \<times> 'w sl_start_state" where
  "SL_start_one env curtime p s =
     (case s of (m, w, authrun, authok, sent) \<Rightarrow>
        if running_id p \<noteq> 0 then (Some p, m, w, authrun, authok, sent + 1)
        else if curtime - retry_start_time p < retry_time_interval p then (Some p, s)
        else case auth_gate env (tp_task p) authrun authok w of
               (ok, authrun', authok', w1) \<Rightarrow>
                 if \<not> ok then (Some p, m, w1, authrun', authok', sent)
                 else (case encode_checked env kChannelShort (tp_task p) [] [] w1 of
                         (Inl (et, ec), w2) \<Rightarrow>
                           (case SL_SingleRespHandle env curtime et ec kTaskFailHandleTaskEnd
                                   (worker_profile env p w2) p m w2 of
                              (r, m1, w3) \<Rightarrow> (r, m1, w3, authrun', authok', sent))
                       | (Inr (buf, ext), w2) \<Rightarrow>
                           SL_send_one env curtime buf ext p (m, w2, authrun', authok', sent)))"

definition SL_RunOnStartTask ::
    "('w, 'e) short_env_scheme \<Rightarrow> u64 \<Rightarrow> ShortLinkTaskManager \<Rightarrow> 'w \<Rightarrow> ShortLinkTaskManager \<times> 'w" where
  "SL_RunOnStartTask env curtime m w =
     (case walk (SL_start_one env curtime) (sm_lst_cmd m) (m, w, False, False, 0) of
        (ps, m1, w1, authrun, authok, sent) \<Rightarrow> (m1\<lparr>sm_lst_cmd := ps\<rparr>, w1))"

definition SL_RunLoop ::
    "('w, 'e) short_env_scheme \<Rightarrow> u64 \<Rightarrow> ShortLinkTaskManager \<Rightarrow> 'w \<Rightarrow> ShortLinkTaskManager \<times> 'w" where
  "SL_RunLoop env now m w =
     (if sm_lst_cmd m = [] then (m, w)
      else case SL_RunOnTimeout env now m w of
             (m1, w1) \<Rightarrow> case SL_RunOnStartTask env now m1 w1 of
               (m2, w2) \<Rightarrow> ((if sm_lst_cmd m2 \<noteq> [] then m2\<lparr>sm_timer := True\<rparr> else m2), w2))"

definition SL_OnTimer ::
    "('w, 'e) short_env_scheme \<Rightarrow> u64 \<Rightarrow> ShortLinkTaskManager \<Rightarrow> 'w \<Rightarrow> ShortLinkTaskManager \<times> 'w" where
  "SL_OnTimer env now m w = SL_RunLoop env now (m\<lparr>sm_timer := False\<rparr>) w"

section \<open>Operations of the network core\<close>

definition SL_StartTask ::
    "('w, 'e) short_env_scheme \<Rightarrow> u64 \<Rightarrow> Task \<Rightarrow> ShortLinkTaskManager \<Rightarrow> 'w
     \<Rightarrow> bool \<times> ShortLinkTaskManager \<times> 'w" where
  "SL_StartTask env now t m w =
     (if send_only t then (False, m, w)
      else let task = (TaskProfile_new now t)\<lparr>link_type := kChannelShort\<rparr>
           in case SL_RunLoop env now (m\<lparr>sm_lst_cmd := sort_tasks (sm_lst_cmd m @ [task])\<rparr>) w of
                (m1, w1) \<Rightarrow> (True, m1, w1))"

definition SL_StopTask ::
    "('w, 'e) short_env_scheme \<Rightarrow> u32 \<Rightarrow> ShortLinkTaskManager \<Rightarrow> 'w
     \<Rightarrow> bool \<times> ShortLinkTaskManager \<times> 'w" where
  "SL_StopTask env tid m w =
     (case erase_first (\<lambda>p. tid = pid p) (sm_lst_cmd m) of
        None \<Rightarrow> (False, m, w)
      | Some (p, ps) \<Rightarrow> (True, m\<lparr>sm_lst_cmd := ps\<rparr>, SL_DeleteShortLink env (running_id p) w))"

definition SL_HasTask :: "u32 \<Rightarrow> ShortLinkTaskManager \<Rightarrow> bool" where
  "SL_HasTask tid m = list_ex (\<lambda>p. tid = pid p) (sm_lst_cmd m)"

definition SL_ClearTasks ::
    "('w, 'e) short_env_scheme \<Rightarrow> ShortLinkTaskManager \<Rightarrow> 'w \<Rightarrow> ShortLinkTaskManager \<times> 'w" where
  "SL_ClearTasks env m w =
     (m\<lparr>sm_lst_cmd := []\<rparr>, fold (\<lambda>p w. SL_DeleteShortLink env (running_id p) w) (sm_lst_cmd m) w)"

definition SL_RedoTasks ::
    "('w, 'e) short_env_scheme \<Rightarrow> u64 \<Rightarrow> ShortLinkTaskManager \<Rightarrow> 'w \<Rightarrow> ShortLinkTaskManager \<times> 'w" where
  "SL_RedoTasks env now m w =
     (case walk (\<lambda>p (m, w).
              let p1 = p\<lparr>last_failed_dyntime_status := None\<rparr>
              in if running_id p1 \<noteq> 0
                 then SL_SingleRespHandle env now kEctLocal kEctLocalCancel kTaskFailHandleDefault
                        (sl_Profile env (running_id p1) w) p1 m w
                 else (Some p1, m, w))
            (sm_lst_cmd m) (m, w) of
        (ps, m1, w1) \<Rightarrow> SL_RunLoop env now (m1\<lparr>sm_lst_cmd := ps\<rparr>) w1)"

definition SL_RetryTasks ::
    "('w, 'e) short_env_scheme \<Rightarrow> u64 \<Rightarrow> ErrCmdType \<Rightarrow> int \<Rightarrow> int \<Rightarrow> u32 \<Rightarrow> ShortLinkTaskManager \<Rightarrow> 'w
     \<Rightarrow> ShortLinkTaskManager \<times> 'w" where
  "SL_RetryTasks env now et ec fh src m w =
     (case SL_BatchErrorRespHandle env now et ec fh src True m w of (m1, w1) \<Rightarrow> SL_RunLoop env now m1 w1)"

definition SL_Destroy ::
    "('w, 'e) short_env_scheme \<Rightarrow> u64 \<Rightarrow> ShortLinkTaskManager \<Rightarrow> 'w \<Rightarrow> ShortLinkTaskManager \<times> 'w" where
  "SL_Destroy env now m w =
     SL_BatchErrorRespHandle env now kEctLocal kEctLocalReset kTaskFailHandleTaskEnd kInvalidTaskID False m w"

text \<open>\<open>GetConnectProfile\<close> follows \<open>running_id\<close> without a test: for a task that waits for its
  first attempt or for a retry this is the null pointer, the value \<open>None\<close>.\<close>

definition SL_GetConnectProfile ::
    "('w, 'e) short_env_scheme \<Rightarrow> u32 \<Rightarrow> ShortLinkTaskManager \<Rightarrow> 'w \<Rightarrow> ConnectProfile option" where
  "SL_GetConnectProfile env tid m w =
     (case find (\<lambda>p. tid = pid p) (sm_lst_cmd m) of
        None \<Rightarrow> Some ConnectProfile_Reset
      | Some p \<Rightarrow> if running_id p = 0 then None else Some (sl_Profile env (running_id p) w))"

section \<open>Events of the workers\<close>

definition is_worker :: "nat \<Rightarrow> TaskProfile \<Rightarrow> bool" where
  "is_worker worker p \<longleftrightarrow> worker \<noteq> 0 \<and> worker = running_id p"

definition SL_OnSend :: "u64 \<Rightarrow> nat \<Rightarrow> ShortLinkTaskManager \<Rightarrow> ShortLinkTaskManager" where
  "SL_OnSend now worker m =
     m\<lparr>sm_lst_cmd := fst (at_first (is_worker worker) (\<lambda>p u. (Some (on_send now p), u)) (sm_lst_cmd m) ())\<rparr>"

definition SL_OnRecv ::
    "('w, 'e) short_env_scheme \<Rightarrow> u64 \<Rightarrow> nat \<Rightarrow> u32 \<Rightarrow> u32 \<Rightarrow> ShortLinkTaskManager \<Rightarrow> 'w
     \<Rightarrow> ShortLinkTaskManager \<times> 'w" where
  "SL_OnRecv env now worker cached_size total_size m w =
     (case at_first (is_worker worker)
             (\<lambda>p w. case on_recv env now (ucast cached_size) (ucast total_size) p w of (q, w1) \<Rightarrow> (Some q, w1))
             (sm_lst_cmd m) w of
        (ps, w1) \<Rightarrow> (m\<lparr>sm_lst_cmd := ps\<rparr>, w1))"

text \<open>The answer of a worker, for the task it works for; the last component is the request to
  retry all tasks of both managers, carried out by the network core.\<close>

definition SL_response_one ::
    "('w, 'e) short_env_scheme \<Rightarrow> u64 \<Rightarrow> ErrCmdType \<Rightarrow> int \<Rightarrow> bytes \<Rightarrow> bytes \<Rightarrow> bool \<Rightarrow> ConnectProfile
     \<Rightarrow> TaskProfile \<Rightarrow> ShortLinkTaskManager \<times> 'w \<times> (ErrCmdType \<times> int \<times> int \<times> u32) option
     \<Rightarrow> TaskProfile option \<times> ShortLinkTaskManager \<times> 'w \<times> (ErrCmdType \<times> int \<times> int \<times> u32) option" where
  "SL_response_one env now et status body extension cancel_retry cp p s =
     (case s of (m, w, rr) \<Rightarrow>
        if et \<noteq> kEctOK then
          let prepared = (et = kEctSocket \<and> status = kEctSocketMakeSocketPrepared);
              w1 = (if prepared then DynStatistic env (cgi (tp_task p)) 0xffffffff 0 w else w);
              p1 = (if prepared then SetLastFailedStatus p else p);
              p2 = (if et = kEctSocket then p1\<lparr>force_no_retry := cancel_retry\<rparr> else p1)
          in (case SL_SingleRespHandle env now et status kTaskFailHandleDefault cp p2 m w1 of
                (r, m1, w2) \<Rightarrow> (r, m1, w2, rr))
        else
          let p1 = on_body now body p
          in case Buf2Resp env (pid p1) (user_context (tp_task p1)) body extension kChannelShort w of
               ((handle_type, ecode), w1) \<Rightarrow>
                 if handle_type = kTaskFailHandleSessionTimeout \<or> handle_type = kTaskFailHandleRetryAllTasks
                   then (Some p1, m, w1, Some (kEctEnDecode, ecode, handle_type, pid p1))
                 else
                   let ok = (handle_type = kTaskFailHandleNoError);
                       w2 = (if ok then DynStatistic env (cgi (tp_task p1))
                                     (ucast (send_data_size (transfer_profile p1)) + of_nat (length body))
                                     (now - start_send_time (transfer_profile p1)) w1
                             else w1);
                       et' = (if ok then kEctOK else kEctEnDecode)
                   in case SL_SingleRespHandle env now et' ecode handle_type cp p1 m w2 of
                        (r, m1, w3) \<Rightarrow>
                          (r, m1,
                           (if handle_type = kTaskFailHandleTaskEnd then w3
                            else fun_notify_network_err env (sm_tasks_continuous_fail_count m1) et'
                                   (if ok then ecode else handle_type) (cp_ip cp) (cp_host cp) (cp_port cp) w3),
                           rr))"

definition SL_OnResponse ::
    "('w, 'e) short_env_scheme \<Rightarrow> u64 \<Rightarrow> nat \<Rightarrow> ErrCmdType \<Rightarrow> int \<Rightarrow> bytes \<Rightarrow> bytes \<Rightarrow> bool \<Rightarrow> ConnectProfile
     \<Rightarrow> ShortLinkTaskManager \<Rightarrow> 'w
     \<Rightarrow> ShortLinkTaskManager \<times> 'w \<times> (ErrCmdType \<times> int \<times> int \<times> u32) option" where
  "SL_OnResponse env now worker et status body extension cancel_retry cp m w =
     (case at_first (is_worker worker)
             (SL_response_one env now et status body extension cancel_retry cp) (sm_lst_cmd m)
             (m, fun_shortlink_response env status w, None) of
        (ps, m1, w1, rr) \<Rightarrow> (m1\<lparr>sm_lst_cmd := ps\<rparr>, w1, rr))"


section \<open>Lookup and removal by id\<close>

interpretation short_store: task_store "\<lambda>s. map pid (sm_lst_cmd (fst s))" "\<lambda>i s. SL_HasTask i (fst s)"
    "\<lambda>i (m, w). case SL_StopTask env i m w of (b, m', w') \<Rightarrow> (b, m', w')"
    "\<lambda>(m, w). SL_ClearTasks env m w"
  for env :: "('w, 'e) short_env_scheme"
proof (unfold_locales, goal_cases)
  case (1 i s)
  then show ?case by (auto simp: SL_HasTask_def list_ex_iff)
next
  case (2 i s)
  obtain m w where s: "s = (m, w)" by force
  show ?case
    by (rule erase_first_cases [of i pid "sm_lst_cmd m"]) (simp_all add: s SL_StopTask_def)
next
  case (3 i s)
  obtain m w where s: "s = (m, w)" by force
  show ?case
    by (rule erase_first_cases [of i pid "sm_lst_cmd m"])
      (simp_all add: s SL_StopTask_def remove1_idem)
next
  case (4 s)
  then show ?case by (cases s) (simp add: SL_ClearTasks_def)
qed

section \<open>What the operations keep\<close>

locale short_sink = task_sink env gone winv
  for env :: "('w, 'e) short_env_scheme" and gone :: "'w \<Rightarrow> u32 multiset" and winv :: "'w \<Rightarrow> bool" +
  assumes create: "gone (snd (sl_Create env t b w)) = gone w \<and> (winv w \<longrightarrow> winv (snd (sl_Create env t b w)))"
    and request: "gone (sl_SendRequest env i buf ext w) = gone w \<and> (winv w \<longrightarrow> winv (sl_SendRequest env i buf ext w))"
    and destroy: "gone (sl_Destroy env i w) = gone w \<and> (winv w \<longrightarrow> winv (sl_Destroy env i w))"
    and status: "gone (fun_shortlink_response env c w) = gone w \<and> (winv w \<longrightarrow> winv (fun_shortlink_response env c w))"
begin

abbreviation mgone :: "ShortLinkTaskManager \<times> 'w \<Rightarrow> u32 multiset" where
  "mgone s \<equiv> gone (snd s)"

abbreviation mtimer :: "ShortLinkTaskManager \<times> 'x \<Rightarrow> bool" where
  "mtimer s \<equiv> sm_timer (fst s)"

abbreviation minv :: "ShortLinkTaskManager \<times> 'w \<Rightarrow> bool" where
  "minv s \<equiv> winv (snd s)"

abbreviation sinv :: "ShortLinkTaskManager \<times> 'w \<times> 'x \<Rightarrow> bool" where
  "sinv s \<equiv> winv (fst (snd s))"

abbreviation sgone :: "ShortLinkTaskManager \<times> 'w \<times> 'x \<Rightarrow> u32 multiset" where
  "sgone s \<equiv> gone (fst (snd s))"

lemma delete_same [simp]: "gone (SL_DeleteShortLink env rid w) = gone w"
  "winv w \<Longrightarrow> winv (SL_DeleteShortLink env rid w)"
  by (simp_all add: SL_DeleteShortLink_def destroy)

lemma single_ok:
  "step_ok mgone mtimer minv p (m, w) (SL_SingleRespHandle env now et ec fh cp p m w)"
proof -
  obtain ret w1 where c: "fun_callback env et ec fh (tp_task p) (ucast (now - start_task_time p)) w = (ret, w1)"
    by force
  have g: "gone w1 = add_mset (pid p) (gone w) \<and> (winv w \<longrightarrow> winv w1)"
    using callback [of et ec fh "tp_task p" "ucast (now - start_task_time p)" w] c by simp
  have st: "start_task_time (set_connect_profile cp p) = start_task_time p"
    by (simp add: set_connect_profile_def)
  have k: "kept (retry_profile et ec (set_connect_profile cp p)) p" if "0 < remain_retry_count p"
    using kept_trans [OF kept_retry kept_helpers(1), of cp p et ec] that by simp
  show ?thesis
    using c g k by (auto simp: SL_SingleRespHandle_def Let_def st report not_le)
qed

lemma single_keeps:
  "kept p' p \<Longrightarrow> step_ok mgone mtimer minv p (m, w) (SL_SingleRespHandle env now et ec fh cp p' m w)"
  by (rule step_ok_kept [OF single_ok])

definition keeps :: "ShortLinkTaskManager \<times> 'w \<Rightarrow> ShortLinkTaskManager \<times> 'w \<Rightarrow> bool" where
  "keeps s s' \<longleftrightarrow> ids (sm_lst_cmd (fst s')) + gone (snd s') = ids (sm_lst_cmd (fst s)) + gone (snd s) \<and>
     survive (sm_lst_cmd (fst s')) (sm_lst_cmd (fst s)) \<and>
     sm_timer (fst s') = sm_timer (fst s) \<and> (winv (snd s) \<longrightarrow> winv (snd s'))"

lemma keeps_refl [simp]: "keeps s s"
  by (simp add: keeps_def)

lemma keeps_trans: "keeps s1 s2 \<Longrightarrow> keeps s2 s3 \<Longrightarrow> keeps s1 s3"
  using survive_trans by (auto simp: keeps_def)

lemma keeps_walk:
  assumes "\<And>p s. step_ok mgone mtimer minv p s (f p s)" "walk f (sm_lst_cmd m) (m, w) = (ps, m1, w1)"
  shows "keeps (m, w) (m1\<lparr>sm_lst_cmd := ps\<rparr>, w1)"
  using walk_ok [OF assms] by (simp add: keeps_def)

lemma batch_keeps: "keeps (m, w) (SL_BatchErrorRespHandle env now et ec fh src only m w)"
proof -
  let ?f = "\<lambda>p (m, w). if only \<and> running_id p = 0 then (Some p, m, w)
     else if fh = kTaskFailHandleSessionTimeout \<and> \<not> need_authed (tp_task p) then (Some p, m, w)
     else SL_SingleRespHandle env now et (if src = kInvalidTaskID \<or> src = pid p then ec else 0) fh
            (worker_profile env p w) p m w"
  obtain ps m1 w1 where wk: "walk ?f (sm_lst_cmd m) (m, w) = (ps, m1, w1)" by (rule prod_cases3)
  have "step_ok mgone mtimer minv p s (?f p s)" for p s
    by (cases s) (simp add: single_ok)
  from keeps_walk [OF this wk] show ?thesis unfolding SL_BatchErrorRespHandle_def wk by simp
qed

lemma timeout_one_ok: "step_ok mgone mtimer minv p s (SL_timeout_one env now p s)"
proof -
  obtain m w where s: "s = (m, w)" by force
  show ?thesis
  proof (cases "SL_timeout_error (NetInfo env w) now p")
    case None
    then show ?thesis by (simp add: SL_timeout_one_def s)
  next
    case (Some e)
    obtain et code where e: "e = (et, code)" by force
    let ?w1 = "DynStatistic env (cgi (tp_task p)) 0xffffffff 0 w" and ?p1 = "SetLastFailedStatus p"
    let ?fh = "if et = kEctLocal then kTaskFailHandleTaskTimeout else kTaskFailHandleDefault"
    obtain r m1 w2 where r: "SL_SingleRespHandle env now et code ?fh (worker_profile env ?p1 ?w1) ?p1 m ?w1
        = (r, m1, w2)" by (rule prod_cases3)
    have "step_ok mgone mtimer minv p (m, ?w1) (r, m1, w2)"
      unfolding r [symmetric] by (rule single_keeps [OF kept_helpers(6)])
    then show ?thesis
      using Some by (cases r) (simp_all add: SL_timeout_one_def s e Let_def r dyn notify)
  qed
qed

lemma timeout_one_in_time:
  assumes "SL_timeout_one env now p s = (Some q, s')"
  shows "in_time now q"
proof (cases "task_timeout p \<le> now - start_task_time p")
  case True
  then show ?thesis
    using assms
    by (auto simp: SL_timeout_one_def SL_timeout_error_def SL_SingleRespHandle_def Let_def
        split: prod.splits)
next
  case False
  obtain m w where s: "s = (m, w)" by force
  have "kept q p"
    using timeout_one_ok [of p s now] assms by simp
  then show ?thesis using False by (simp add: in_time_def kept_def)
qed

lemma RunOnTimeout_keeps: "keeps (m, w) (SL_RunOnTimeout env now m w)"
  and RunOnTimeout_in_time: "\<forall>p \<in> set (sm_lst_cmd (fst (SL_RunOnTimeout env now m w))). in_time now p"
proof -
  obtain ps m1 w1 where wk: "walk (SL_timeout_one env now) (sm_lst_cmd m) (m, w) = (ps, m1, w1)"
    by (rule prod_cases3)
  show "keeps (m, w) (SL_RunOnTimeout env now m w)"
    using keeps_walk [OF timeout_one_ok wk] by (simp add: SL_RunOnTimeout_def wk)
  show "\<forall>p \<in> set (sm_lst_cmd (fst (SL_RunOnTimeout env now m w))). in_time now p"
    using walk_all [OF timeout_one_in_time wk] by (simp add: SL_RunOnTimeout_def wk)
qed

lemma send_one_ok: "step_ok sgone mtimer sinv p (m, w, x) (SL_send_one env now buf ext p (m, w, x))"
proof -
  obtain ar ao sent where x: "x = (ar, ao, sent)" by (rule prod_cases3)
  let ?p1 = "prepare_send env now sent buf w p"
  let ?b = "if remain_retry_count ?p1 = 0 \<and> 0 < retry_count (tp_task ?p1)
     then \<not> sm_default_use_proxy m else sm_default_use_proxy m"
  obtain rid w1 where c: "sl_Create env (tp_task p) ?b w = (rid, w1)" by force
  have "same w w1" using create [of "tp_task p" ?b w] c by (simp add: same_def)
  then show ?thesis
    using c by (simp add: SL_send_one_def x Let_def request same_def split: prod.splits)
qed

lemma start_one_ok: "step_ok sgone mtimer sinv p s (SL_start_one env now p s)"
proof -
  obtain m w ar ao sent where s: "s = (m, w, ar, ao, sent)" by (rule prod_cases5)
  obtain ok ar' ao' w1 where a: "auth_gate env (tp_task p) ar ao w = (ok, ar', ao', w1)" by (rule prod_cases4)
  have g1: "same w w1" by (rule auth_same [OF a])
  obtain r w2 where e: "encode_checked env kChannelShort (tp_task p) [] [] w1 = (r, w2)" by force
  have g2: "same w w2" using same_trans [OF g1 encode_same [of w1 kChannelShort "tp_task p" "[]" "[]"]] e by simp
  have fail: "step_ok sgone mtimer sinv p s (case SL_SingleRespHandle env now et ec kTaskFailHandleTaskEnd
      (worker_profile env p w2) p m w2 of (r, m1, w3) \<Rightarrow> (r, m1, w3, x))" for et ec x
  proof -
    obtain r m1 w3 where r: "SL_SingleRespHandle env now et ec kTaskFailHandleTaskEnd
      (worker_profile env p w2) p m w2 = (r, m1, w3)" by (rule prod_cases3)
    show ?thesis
      using single_ok [of p m w2 now et ec kTaskFailHandleTaskEnd "worker_profile env p w2"] g2
      by (cases r) (simp_all add: r s same_def)
  qed
  have snd: "step_ok sgone mtimer sinv p s (SL_send_one env now b e p (m, w2, x))" for b e x
    using g2 by (intro step_ok_from [OF send_one_ok]) (simp_all add: s same_def)
  show ?thesis
    using fail snd g1 by (cases r) (auto simp: same_def SL_start_one_def s a e)
qed

lemma RunOnStartTask_keeps: "keeps (m, w) (SL_RunOnStartTask env now m w)"
proof -
  obtain ps m1 w1 x where wk: "walk (SL_start_one env now) (sm_lst_cmd m) (m, w, False, False, 0) = (ps, m1, w1, x)"
    by (rule prod_cases4)
  from walk_ok [OF start_one_ok wk] show ?thesis
    by (cases x) (simp add: SL_RunOnStartTask_def wk keeps_def)
qed

definition runs :: "ShortLinkTaskManager \<times> 'w \<Rightarrow> ShortLinkTaskManager \<times> 'w \<Rightarrow> bool" where
  "runs s s' \<longleftrightarrow> ids (sm_lst_cmd (fst s')) + gone (snd s') = ids (sm_lst_cmd (fst s)) + gone (snd s) \<and>
     survive (sm_lst_cmd (fst s')) (sm_lst_cmd (fst s)) \<and>
     (sm_lst_cmd (fst s') \<noteq> [] \<longrightarrow> sm_timer (fst s')) \<and> (winv (snd s) \<longrightarrow> winv (snd s'))"

lemma RunLoop_runs: "runs (m, w) (SL_RunLoop env now m w)"
  and RunLoop_in_time: "\<forall>p \<in> set (sm_lst_cmd (fst (SL_RunLoop env now m w))). in_time now p"
proof -
  obtain m1 w1 where t: "SL_RunOnTimeout env now m w = (m1, w1)" by force
  obtain m2 w2 where st: "SL_RunOnStartTask env now m1 w1 = (m2, w2)" by force
  have k1: "keeps (m, w) (m1, w1)" using RunOnTimeout_keeps [of m w now] t by simp
  have k2: "keeps (m1, w1) (m2, w2)" using RunOnStartTask_keeps [of m1 w1 now] st by simp
  show "runs (m, w) (SL_RunLoop env now m w)"
    using keeps_trans [OF k1 k2] by (auto simp: SL_RunLoop_def t st runs_def keeps_def)
  have "\<forall>p \<in> set (sm_lst_cmd m2). in_time now p"
    using RunOnTimeout_in_time [of now m w] t k2 survive_in_time by (auto simp: keeps_def)
  then show "\<forall>p \<in> set (sm_lst_cmd (fst (SL_RunLoop env now m w))). in_time now p"
    by (simp add: SL_RunLoop_def t st)
qed

lemma keeps_runs: "keeps s1 s2 \<Longrightarrow> runs s2 s3 \<Longrightarrow> runs s1 s3"
  using survive_trans by (auto simp: keeps_def runs_def)

lemma RedoTasks_runs: "runs (m, w) (SL_RedoTasks env now m w)"
proof -
  let ?f = "\<lambda>p (m, w). let p1 = p\<lparr>last_failed_dyntime_status := None\<rparr>
     in if running_id p1 \<noteq> 0 then SL_SingleRespHandle env now kEctLocal kEctLocalCancel
          kTaskFailHandleDefault (sl_Profile env (running_id p1) w) p1 m w else (Some p1, m, w)"
  obtain ps m1 w1 where wk: "walk ?f (sm_lst_cmd m) (m, w) = (ps, m1, w1)" by (rule prod_cases3)
  have "step_ok mgone mtimer minv p s (?f p s)" for p s
    by (cases s) (simp add: Let_def single_keeps)
  from keeps_runs [OF keeps_walk [OF this wk] RunLoop_runs] show ?thesis
    unfolding SL_RedoTasks_def wk by simp
qed

lemma RetryTasks_runs: "runs (m, w) (SL_RetryTasks env now et ec fh src m w)"
proof -
  obtain m1 w1 where b: "SL_BatchErrorRespHandle env now et ec fh src True m w = (m1, w1)" by force
  have "keeps (m, w) (m1, w1)" using batch_keeps b by metis
  from keeps_runs [OF this RunLoop_runs] show ?thesis by (simp add: SL_RetryTasks_def b)
qed

lemma OnTimer_runs: "runs (m, w) (SL_OnTimer env now m w)"
  using RunLoop_runs [of "m\<lparr>sm_timer := False\<rparr>" w now] by (simp add: SL_OnTimer_def runs_def)

lemma OnTimer_in_time: "\<forall>p \<in> set (sm_lst_cmd (fst (SL_OnTimer env now m w))). in_time now p"
  by (simp add: SL_OnTimer_def RunLoop_in_time)

lemma StartTask_runs:
  assumes "SL_StartTask env now t m w = (ok, m', w')"
  shows "ok \<longleftrightarrow> \<not> send_only t" and "\<not> ok \<Longrightarrow> m' = m \<and> w' = w"
    and "ok \<Longrightarrow> ids (sm_lst_cmd m') + gone w' = add_mset (taskid t) (ids (sm_lst_cmd m) + gone w)"
    and "ok \<Longrightarrow> survive (sm_lst_cmd m')
      (sort_tasks (sm_lst_cmd m @ [(TaskProfile_new now t)\<lparr>link_type := kChannelShort\<rparr>]))"
    and "ok \<Longrightarrow> sm_lst_cmd m' \<noteq> [] \<longrightarrow> sm_timer m'" and "winv w \<longrightarrow> winv w'"
proof -
  let ?p = "(TaskProfile_new now t)\<lparr>link_type := kChannelShort\<rparr>"
  let ?m = "m\<lparr>sm_lst_cmd := sort_tasks (sm_lst_cmd m @ [?p])\<rparr>"
  have "pid ?p = taskid t" by (simp add: TaskProfile_new_def)
  then show "ok \<longleftrightarrow> \<not> send_only t" "\<not> ok \<Longrightarrow> m' = m \<and> w' = w"
    "ok \<Longrightarrow> ids (sm_lst_cmd m') + gone w' = add_mset (taskid t) (ids (sm_lst_cmd m) + gone w)"
    "ok \<Longrightarrow> survive (sm_lst_cmd m') (sort_tasks (sm_lst_cmd m @ [?p]))"
    "ok \<Longrightarrow> sm_lst_cmd m' \<noteq> [] \<longrightarrow> sm_timer m'" "winv w \<longrightarrow> winv w'"
    using RunLoop_runs [of ?m w now] assms
    by (auto simp: SL_StartTask_def runs_def Let_def split: prod.splits if_splits)
qed

lemma OnSend_keeps: "keeps (m, w) (SL_OnSend now worker m, w)"
proof -
  obtain ps u where f: "at_first (is_worker worker) (\<lambda>p u. (Some (on_send now p), u)) (sm_lst_cmd m) () = (ps, u)"
    by (rule prod.exhaust)
  from at_first_ok [OF _ f, of "\<lambda>_. {#}" "\<lambda>_. True" "\<lambda>_. True"] show ?thesis
    by (simp add: SL_OnSend_def f keeps_def)
qed

lemma OnRecv_keeps: "keeps (m, w) (SL_OnRecv env now worker a b m w)"
proof -
  let ?f = "\<lambda>p w. case on_recv env now (ucast a) (ucast b) p w of (q, w1) \<Rightarrow> (Some q, w1)"
  obtain ps w1 where f: "at_first (is_worker worker) ?f (sm_lst_cmd m) w = (ps, w1)" by force
  have "step_ok gone (\<lambda>_. True) winv p w (?f p w)" for p w
  proof -
    obtain q w1 where r: "on_recv env now (ucast a) (ucast b) p w = (q, w1)" by force
    have "kept q p" using kept_helpers(5) [of env now "ucast a" "ucast b" p w] unfolding r by simp
    then show ?thesis using recv_same [of w now "ucast a" "ucast b" p] r by (simp add: same_def)
  qed
  from at_first_ok [OF this f] show ?thesis by (simp add: SL_OnRecv_def f keeps_def)
qed

lemma response_one_ok:
  "step_ok sgone mtimer sinv p (m, w, rr) (SL_response_one env now et st body ext c cp p (m, w, rr))"
proof (cases "et = kEctOK")
  case False
  define w1 where "w1 = (if et = kEctSocket \<and> st = kEctSocketMakeSocketPrepared
    then DynStatistic env (cgi (tp_task p)) 0xffffffff 0 w else w)"
  define p2 where "p2 = (let p1 = (if et = kEctSocket \<and> st = kEctSocketMakeSocketPrepared
    then SetLastFailedStatus p else p) in if et = kEctSocket then p1\<lparr>force_no_retry := c\<rparr> else p1)"
  have k: "kept p2 p" by (simp add: p2_def Let_def)
  have g: "same w w1" by (simp add: w1_def dyn same_def)
  obtain r m1 w2 where r: "SL_SingleRespHandle env now et st kTaskFailHandleDefault cp p2 m w1 = (r, m1, w2)"
    by (rule prod_cases3)
  have "step_ok mgone mtimer minv p (m, w1) (r, m1, w2)"
    unfolding r [symmetric] by (rule single_keeps [OF k])
  moreover have "SL_response_one env now et st body ext c cp p (m, w, rr) = (r, m1, w2, rr)"
    using False r by (simp add: SL_response_one_def Let_def w1_def p2_def)
  ultimately show ?thesis using g by (cases r) (simp_all add: same_def)
next
  case True
  let ?p1 = "on_body now body p"
  obtain ht ec w1 where b: "Buf2Resp env (pid ?p1) (user_context (tp_task ?p1)) body ext kChannelShort w = ((ht, ec), w1)"
    by (metis prod.exhaust)
  have g1: "same w w1"
    using resp [of "pid ?p1" "user_context (tp_task ?p1)" body ext kChannelShort w] b by (simp add: same_def)
  define w2 where "w2 = (if ht = kTaskFailHandleNoError then DynStatistic env (cgi (tp_task ?p1))
      (ucast (send_data_size (transfer_profile ?p1)) + of_nat (length body))
      (now - start_send_time (transfer_profile ?p1)) w1 else w1)"
  have g2: "same w w2" using g1 by (simp add: w2_def dyn same_def)
  let ?et = "if ht = kTaskFailHandleNoError then kEctOK else kEctEnDecode"
  obtain r m1 w3 where r: "SL_SingleRespHandle env now ?et ec ht cp ?p1 m w2 = (r, m1, w3)"
    by (rule prod_cases3)
  have s: "step_ok mgone mtimer minv p (m, w2) (r, m1, w3)"
    unfolding r [symmetric] by (rule single_keeps [OF kept_helpers(4)])
  show ?thesis
  proof (cases "ht = kTaskFailHandleSessionTimeout \<or> ht = kTaskFailHandleRetryAllTasks")
    case all: True
    then show ?thesis using True b g1 by (simp add: SL_response_one_def Let_def same_def)
  next
    case False
    then obtain w4 where "SL_response_one env now et st body ext c cp p (m, w, rr) = (r, m1, w4, rr)"
      "same w3 w4"
      using True b r by (simp add: SL_response_one_def Let_def w2_def [symmetric] notify same_def)
    then show ?thesis using s g2 by (cases r) (simp_all add: same_def)
  qed
qed

lemma OnResponse_keeps:
  assumes "SL_OnResponse env now worker et st body ext c cp m w = (m', w', rr)"
  shows "keeps (m, w) (m', w')"
proof -
  let ?f = "SL_response_one env now et st body ext c cp"
  obtain ps m1 w1 r where f: "at_first (is_worker worker) ?f (sm_lst_cmd m)
      (m, fun_shortlink_response env st w, None) = (ps, m1, w1, r)" by (rule prod_cases4)
  have "step_ok sgone mtimer sinv p s (?f p s)" for p s by (cases s) (simp add: response_one_ok)
  from at_first_ok [OF this f] show ?thesis
    using assms f by (auto simp: SL_OnResponse_def keeps_def status)
qed

lemma Destroy_ends_all:
  assumes "SL_Destroy env now m w = (m', w')"
  shows "sm_lst_cmd m' = []" and "gone w' = ids (sm_lst_cmd m) + gone w"
proof -
  let ?f = "\<lambda>p (m, w). if False \<and> running_id p = 0 then (Some p, m, w)
     else if kTaskFailHandleTaskEnd = kTaskFailHandleSessionTimeout \<and> \<not> need_authed (tp_task p)
       then (Some p, m, w)
     else SL_SingleRespHandle env now kEctLocal
       (if kInvalidTaskID = kInvalidTaskID \<or> kInvalidTaskID = pid p then kEctLocalReset else 0)
       kTaskFailHandleTaskEnd (worker_profile env p w) p m w"
  obtain ps m1 w1 where wk: "walk ?f (sm_lst_cmd m) (m, w) = (ps, m1, w1)" by (rule prod_cases3)
  have "\<forall>q \<in> set ps. False"
    by (rule walk_all [OF _ wk])
      (auto simp: SL_SingleRespHandle_def Let_def fail_handle_defs split: prod.splits if_splits)
  then have "ps = []" by auto
  then show l: "sm_lst_cmd m' = []"
    using assms(1) unfolding SL_Destroy_def SL_BatchErrorRespHandle_def wk by auto
  show "gone w' = ids (sm_lst_cmd m) + gone w"
    using batch_keeps [of m w now kEctLocal kEctLocalReset kTaskFailHandleTaskEnd kInvalidTaskID False]
      assms l by (simp add: SL_Destroy_def keeps_def)
qed

end

end
