(* ===== verification/Zombie_Task_Manager.thy ===== *)
theory Zombie_Task_Manager
  imports Task_Env
begin

text \<open>
  stn/src/zombie_task_manager.cc: tasks that failed on the network and whose total time is not
  used up wait here for a better network. The calls of \<open>fun_start_task_\<close> and
  \<open>fun_callback_\<close> that an operation makes are part of its result, in their order: neither
  function reads or changes the manager (starting a task posts a message, and the callback of a
  zombie goes straight to the application). \<open>tick i\<close> is the reading of the clock for the
  \<open>i\<close>-th task of a pass.
\<close>

section \<open>State and operations\<close>

definition RETRY_INTERVAL :: u64 where "RETRY_INTERVAL = 60 * 1000"

record ZombieTask =
  z_task :: Task
  save_time :: u64

record ZombieTaskManager =
  z_lsttask :: "ZombieTask list"
  net_core_last_start_task_time :: u64
  z_timer :: bool

datatype zombie_event = ZStart Task | ZEnd Task u32

definition ZombieTaskManager_new :: "u64 \<Rightarrow> ZombieTaskManager" where
  "ZombieTaskManager_new now = \<lparr>z_lsttask = [], net_core_last_start_task_time = now, z_timer = False\<rparr>"

definition Z_SaveTask :: "u64 \<Rightarrow> Task \<Rightarrow> u32 \<Rightarrow> ZombieTaskManager \<Rightarrow> bool \<times> ZombieTaskManager" where
  "Z_SaveTask now t taskcosttime z =
     (if network_status_sensitive t then (False, z)
      else let t1 = t\<lparr>retry_count := 0,
                      total_timetout := s32 (uint (word_of_int (total_timetout t) - taskcosttime))\<rparr>
           in if total_timetout t1 \<le> 0 then (False, z)
              else (True, z\<lparr>z_lsttask := z_lsttask z @ [\<lparr>z_task = t1, save_time = now\<rparr>], z_timer := True\<rparr>))"

definition Z_StopTask :: "u32 \<Rightarrow> ZombieTaskManager \<Rightarrow> bool \<times> ZombieTaskManager" where
  "Z_StopTask tid z =
     (case erase_first (\<lambda>x. tid = taskid (z_task x)) (z_lsttask z) of
        None \<Rightarrow> (False, z)
      | Some (x, xs) \<Rightarrow> (True, z\<lparr>z_lsttask := xs\<rparr>))"

definition Z_HasTask :: "u32 \<Rightarrow> ZombieTaskManager \<Rightarrow> bool" where
  "Z_HasTask tid z = list_ex (\<lambda>x. tid = taskid (z_task x)) (z_lsttask z)"

definition Z_ClearTasks :: "ZombieTaskManager \<Rightarrow> ZombieTaskManager" where
  "Z_ClearTasks z = z\<lparr>z_lsttask := []\<rparr>"

definition Z_OnNetCoreStartTask :: "u64 \<Rightarrow> ZombieTaskManager \<Rightarrow> ZombieTaskManager" where
  "Z_OnNetCoreStartTask now z = z\<lparr>net_core_last_start_task_time := now\<rparr>"

text \<open>\<open>total_timetout -= (cur_time - save_time)\<close>: computed in 64 bits, stored in 32.\<close>

definition age_task :: "u64 \<Rightarrow> Task \<Rightarrow> Task" where
  "age_task elapsed t =
     t\<lparr>total_timetout := s32 (uint (word_of_int (total_timetout t) - elapsed :: u64))\<rparr>"

definition zombie_late :: "u64 \<Rightarrow> ZombieTask \<Rightarrow> bool" where
  "zombie_late now x \<longleftrightarrow> word_of_int (total_timetout (z_task x)) \<le> now - save_time x"

definition start_zombie :: "u64 \<Rightarrow> ZombieTask \<Rightarrow> zombie_event" where
  "start_zombie cur_time x =
     (if zombie_late cur_time x then ZEnd (z_task x) (ucast (cur_time - save_time x))
      else ZStart (age_task (cur_time - save_time x) (z_task x)))"

text \<open>\<open>RedoTasks\<close>, which is \<open>__StartTask\<close>: the tasks are started in the order of their
  priority.\<close>

definition Z_RedoTasks :: "(nat \<Rightarrow> u64) \<Rightarrow> ZombieTaskManager \<Rightarrow> zombie_event list \<times> ZombieTaskManager" where
  "Z_RedoTasks tick z =
     (if z_lsttask z = [] then ([], z)
      else let xs = sort_key (\<lambda>x. priority (z_task x)) (z_lsttask z)
           in (map (\<lambda>(i, x). start_zombie (tick i) x) (enumerate 0 xs), z\<lparr>z_lsttask := []\<rparr>))"

fun check_zombies :: "u64 \<Rightarrow> u64 \<Rightarrow> ZombieTask list \<Rightarrow> zombie_event list \<times> ZombieTask list" where
  "check_zombies cur_time last_start [] = ([], [])"
| "check_zombies cur_time last_start (x # xs) =
     (case check_zombies cur_time last_start xs of
        (es, ys) \<Rightarrow>
          if zombie_late cur_time x then (ZEnd (z_task x) (ucast (cur_time - save_time x)) # es, ys)
          else if RETRY_INTERVAL \<le> cur_time - save_time x \<and> RETRY_INTERVAL \<le> cur_time - last_start
            then (ZStart (age_task (cur_time - save_time x) (z_task x)) # es, ys)
          else (es, x # ys))"

text \<open>The periodic check keeps its message in the queue until the list is empty.\<close>

definition Z_TimerChecker :: "u64 \<Rightarrow> ZombieTaskManager \<Rightarrow> zombie_event list \<times> ZombieTaskManager" where
  "Z_TimerChecker cur_time z =
     (case check_zombies cur_time (net_core_last_start_task_time z) (z_lsttask z) of
        (es, ys) \<Rightarrow> (es, z\<lparr>z_lsttask := ys, z_timer := (ys \<noteq> [] \<and> z_timer z)\<rparr>))"

section \<open>Lookup and removal by id\<close>

interpretation zombie_store: task_store "\<lambda>z. map (\<lambda>x. taskid (z_task x)) (z_lsttask z)" Z_HasTask
    Z_StopTask Z_ClearTasks
proof (unfold_locales, goal_cases)
  case (1 i s)
  then show ?case by (auto simp: Z_HasTask_def list_ex_iff)
next
  case (2 i s)
  show ?case
    by (rule erase_first_cases [of i "\<lambda>x. taskid (z_task x)" "z_lsttask s"]) (simp_all add: Z_StopTask_def)
next
  case (3 i s)
  show ?case
    by (rule erase_first_cases [of i "\<lambda>x. taskid (z_task x)" "z_lsttask s"])
      (simp_all add: Z_StopTask_def remove1_idem)
next
  case (4 s)
  then show ?case by (simp add: Z_ClearTasks_def)
qed

section \<open>Invariant and conservation\<close>

text \<open>Every waiting task has time left, will not be retried by the managers, and is watched by
  the timer.\<close>

definition zombie_inv :: "ZombieTaskManager \<Rightarrow> bool" where
  "zombie_inv z \<longleftrightarrow>
     (\<forall>x \<in> set (z_lsttask z). 0 < total_timetout (z_task x) \<and> total_timetout (z_task x) < 2 ^ 31 \<and>
        retry_count (z_task x) = 0 \<and> \<not> network_status_sensitive (z_task x)) \<and>
     (z_lsttask z \<noteq> [] \<longrightarrow> z_timer z)"

definition z_ids :: "ZombieTaskManager \<Rightarrow> u32 multiset" where
  "z_ids z = mset (map (\<lambda>x. taskid (z_task x)) (z_lsttask z))"

fun event_task :: "zombie_event \<Rightarrow> Task" where
  "event_task (ZStart t) = t"
| "event_task (ZEnd t c) = t"

definition event_ids :: "zombie_event list \<Rightarrow> u32 multiset" where
  "event_ids es = mset (map (\<lambda>e. taskid (event_task e)) es)"

lemma age_task_id [simp]: "taskid (age_task d t) = taskid t" "priority (age_task d t) = priority t"
  by (simp_all add: age_task_def)

lemma SaveTask_inv: "zombie_inv z \<Longrightarrow> zombie_inv (snd (Z_SaveTask now t c z))"
  using s32_range(2) [of "uint (word_of_int (total_timetout t) - c)"]
  by (auto simp: zombie_inv_def Z_SaveTask_def Let_def)

lemma SaveTask_ids:
  "z_ids (snd (Z_SaveTask now t c z)) =
     (if fst (Z_SaveTask now t c z) then add_mset (taskid t) (z_ids z) else z_ids z)"
  by (simp add: Z_SaveTask_def Let_def z_ids_def)

lemma StopTask_inv: "zombie_inv z \<Longrightarrow> zombie_inv (snd (Z_StopTask i z))"
proof -
  assume inv: "zombie_inv z"
  show ?thesis
  proof (rule erase_first_cases [of i "\<lambda>x. taskid (z_task x)" "z_lsttask z"])
    fix y ys
    assume e: "erase_first (\<lambda>x. i = taskid (z_task x)) (z_lsttask z) = Some (y, ys)"
      and "mset (z_lsttask z) = add_mset y (mset ys)"
    then have "set (z_lsttask z) = insert y (set ys)" by (metis set_mset_add_mset_insert set_mset_mset)
    moreover have "z_lsttask z \<noteq> []" using e by auto
    ultimately show ?thesis using inv e by (auto simp: zombie_inv_def Z_StopTask_def)
  qed (simp add: Z_StopTask_def inv)
qed

lemma check_zombies_ids:
  "check_zombies now last_start xs = (es, ys) \<Longrightarrow>
     mset (map (\<lambda>x. taskid (z_task x)) xs) = event_ids es + mset (map (\<lambda>x. taskid (z_task x)) ys) \<and>
     set ys \<subseteq> set xs"
  by (induction xs arbitrary: es ys) (auto simp: event_ids_def split: prod.splits if_splits)

lemma TimerChecker_ids:
  "Z_TimerChecker now z = (es, z') \<Longrightarrow> z_ids z = event_ids es + z_ids z'"
  by (auto simp: Z_TimerChecker_def z_ids_def split: prod.splits dest: check_zombies_ids)

lemma TimerChecker_inv: "zombie_inv z \<Longrightarrow> zombie_inv (snd (Z_TimerChecker now z))"
  by (cases "check_zombies now (net_core_last_start_task_time z) (z_lsttask z)")
    (auto simp: Z_TimerChecker_def zombie_inv_def dest!: check_zombies_ids)

lemma start_zombie_id [simp]: "taskid (event_task (start_zombie now x)) = taskid (z_task x)"
  by (simp add: start_zombie_def)

lemma RedoTasks_ids: "Z_RedoTasks tick z = (es, z') \<Longrightarrow> z_ids z = event_ids es + z_ids z'"
proof -
  assume r: "Z_RedoTasks tick z = (es, z')"
  let ?xs = "sort_key (\<lambda>x. priority (z_task x)) (z_lsttask z)"
  have "map (\<lambda>e. taskid (event_task e)) (map (\<lambda>(i, x). start_zombie (tick i) x) (enumerate 0 ?xs))
      = map (\<lambda>x. taskid (z_task x)) ?xs"
    by (rule nth_equalityI) (simp_all add: nth_enumerate_eq)
  then have "event_ids (map (\<lambda>(i, x). start_zombie (tick i) x) (enumerate 0 ?xs))
      = mset (map (\<lambda>x. taskid (z_task x)) ?xs)" unfolding event_ids_def by (rule arg_cong)
  also have "\<dots> = z_ids z" by (simp add: z_ids_def)
  finally show ?thesis
    using r by (auto simp: Z_RedoTasks_def Let_def z_ids_def event_ids_def [of "[]"] split: if_splits)
qed

lemma RedoTasks_inv: "zombie_inv z \<Longrightarrow> zombie_inv (snd (Z_RedoTasks tick z))"
  by (simp add: Z_RedoTasks_def Let_def zombie_inv_def)

section \<open>The time of a zombie\<close>

lemma age_task_total:
  assumes "0 < total_timetout t" "total_timetout t < 2 ^ 31" "\<not> word_of_int (total_timetout t) \<le> elapsed"
  shows "total_timetout (age_task elapsed t) = total_timetout t - uint elapsed \<and>
         0 < total_timetout (age_task elapsed t)"
proof -
  have u: "uint (word_of_int (total_timetout t) :: u64) = total_timetout t"
    using assms by (intro uint_wi_u64) auto
  have lt: "uint elapsed < total_timetout t" using assms(3) u by (simp add: word_le_def)
  have "uint (word_of_int (total_timetout t) - elapsed) = total_timetout t - uint elapsed"
    using uint_diff_le [of elapsed "word_of_int (total_timetout t)"] u lt by (simp add: word_le_def)
  moreover have "s32 (total_timetout t - uint elapsed) = total_timetout t - uint elapsed"
    using lt assms(1,2) unsigned_greater_eq [of elapsed, where 'a = int] by (intro s32_id) linarith+
  ultimately show ?thesis using lt by (simp add: age_task_def)
qed


text \<open>What an event of a pass at time \<open>now\<close> says about the task it comes from.\<close>

fun event_sound :: "u64 \<Rightarrow> ZombieTask \<Rightarrow> zombie_event \<Rightarrow> bool" where
  "event_sound now x (ZStart t) \<longleftrightarrow> taskid t = taskid (z_task x) \<and>
     total_timetout t = total_timetout (z_task x) - uint (now - save_time x) \<and> 0 < total_timetout t"
| "event_sound now x (ZEnd t c) \<longleftrightarrow> t = z_task x \<and> total_timetout t \<le> uint (now - save_time x)"

definition z_live :: "ZombieTask \<Rightarrow> bool" where
  "z_live x \<longleftrightarrow> 0 < total_timetout (z_task x) \<and> total_timetout (z_task x) < 2 ^ 31"

lemma zombie_late_iff:
  assumes "z_live x"
  shows "zombie_late now x \<longleftrightarrow> total_timetout (z_task x) \<le> uint (now - save_time x)"
proof -
  have "uint (word_of_int (total_timetout (z_task x)) :: u64) = total_timetout (z_task x)"
    using assms by (intro uint_wi_u64) (auto simp: z_live_def)
  then show ?thesis by (simp add: zombie_late_def word_le_def)
qed

lemma start_sound:
  assumes "z_live x" "\<not> zombie_late now x"
  shows "event_sound now x (ZStart (age_task (now - save_time x) (z_task x)))"
  using age_task_total [of "z_task x" "now - save_time x"] assms
  by (auto simp: z_live_def zombie_late_def)

lemma check_zombies_sound:
  "\<forall>x \<in> set xs. z_live x \<Longrightarrow> check_zombies now last_start xs = (es, ys) \<Longrightarrow>
     (\<forall>e \<in> set es. \<exists>x \<in> set xs. event_sound now x e) \<and>
     (\<forall>y \<in> set ys. uint (now - save_time y) < total_timetout (z_task y))"
proof (induction xs arbitrary: es ys)
  case (Cons x xs)
  obtain es' ys' where c: "check_zombies now last_start xs = (es', ys')" by force
  have l: "z_live x" using Cons.prems(1) by simp
  have IH: "(\<forall>e \<in> set es'. \<exists>x \<in> set xs. event_sound now x e) \<and>
     (\<forall>y \<in> set ys'. uint (now - save_time y) < total_timetout (z_task y))"
    using Cons.IH [OF _ c] Cons.prems(1) by simp
  have late: "event_sound now x (ZEnd (z_task x) k)" if "zombie_late now x" for k
    using that by (simp add: zombie_late_iff [OF l])
  show ?case
    using Cons.prems(2) IH late start_sound [OF l] zombie_late_iff [OF l, of now]
    by (auto simp: c split: if_splits)
qed simp

section \<open>Properties\<close>

text \<open>C11. Waiting tasks are never lost or doubled: the periodic check leaves every task waiting or
  hands it over exactly once, the redo on a network change hands over all of them, and each
  keeps the invariant (time left, no retries, watched by the timer).\<close>

theorem zombie_conservation:
  assumes "zombie_inv z"
  shows "(case Z_TimerChecker now z of (es, z') \<Rightarrow> z_ids z = event_ids es + z_ids z' \<and> zombie_inv z') \<and>
         (case Z_RedoTasks tick z of (es, z') \<Rightarrow> z_ids z = event_ids es + z_ids z' \<and> z_ids z' = {#} \<and> zombie_inv z')"
proof -
  obtain es z1 where t: "Z_TimerChecker now z = (es, z1)" by force
  obtain fs z2 where r: "Z_RedoTasks tick z = (fs, z2)" by force
  have "z_ids z2 = {#}" using r by (auto simp: Z_RedoTasks_def Let_def z_ids_def split: if_splits)
  then show ?thesis
    using TimerChecker_ids [OF t] TimerChecker_inv [OF assms, of now]
      RedoTasks_ids [OF r] RedoTasks_inv [OF assms, of tick] t r by simp
qed

definition waiting_zombie :: ZombieTask where
  "waiting_zombie = \<lparr>z_task = (Task_new 9)\<lparr>retry_count := 0, total_timetout := 100000\<rparr>, save_time = 5000\<rparr>"

definition sample_zombies :: ZombieTaskManager where
  "sample_zombies = \<lparr>z_lsttask = [waiting_zombie, waiting_zombie\<lparr>save_time := 60000\<rparr>],
     net_core_last_start_task_time = 1000, z_timer = True\<rparr>"

theorem zombie_conservation_witness:
  "zombie_inv sample_zombies \<and> z_ids sample_zombies = {#9, 9#} \<and>
   (case Z_TimerChecker 70000 sample_zombies of (es, z') \<Rightarrow> {#9, 9#} = event_ids es + z_ids z' \<and> zombie_inv z')"
proof -
  have i: "zombie_inv sample_zombies"
    by (simp add: zombie_inv_def sample_zombies_def waiting_zombie_def Task_new_def)
  moreover have s: "z_ids sample_zombies = {#9, 9#}"
    by (simp add: z_ids_def sample_zombies_def waiting_zombie_def Task_new_def)
  ultimately show ?thesis using zombie_conservation [OF i, of 70000 "\<lambda>_. 0"] by simp
qed

text \<open>The time of a waiting task is respected: the periodic check restarts a task only with
  exactly the time it has left, which is positive, ends it with a timeout only when its time has
  passed, and a task that goes on waiting still has time.\<close>

theorem zombie_deadline:
  assumes "zombie_inv z" "Z_TimerChecker now z = (es, z')"
  shows "(\<forall>e \<in> set es. \<exists>x \<in> set (z_lsttask z). event_sound now x e) \<and>
         (\<forall>y \<in> set (z_lsttask z'). uint (now - save_time y) < total_timetout (z_task y))"
proof -
  have "\<forall>x \<in> set (z_lsttask z). z_live x" using assms(1) by (simp add: zombie_inv_def z_live_def)
  from check_zombies_sound [OF this] assms(2) show ?thesis
    by (auto simp: Z_TimerChecker_def split: prod.splits)
qed

theorem zombie_deadline_witness:
  "\<exists>x \<in> set (z_lsttask sample_zombies).
     event_sound 70000 x (ZStart ((Task_new 9)\<lparr>retry_count := 0, total_timetout := 35000\<rparr>))"
proof -
  let ?t = "(Task_new 9)\<lparr>retry_count := 0, total_timetout := 35000\<rparr>"
  have i: "zombie_inv sample_zombies"
    by (simp add: zombie_inv_def sample_zombies_def waiting_zombie_def Task_new_def)
  have t: "Z_TimerChecker 70000 sample_zombies =
      ([ZStart ?t], sample_zombies\<lparr>z_lsttask := [waiting_zombie\<lparr>save_time := 60000\<rparr>]\<rparr>)"
    by code_simp
  show ?thesis using zombie_deadline [OF i t] by simp
qed

end
