(* ===== verification/Dynamic_Timeout.thy ===== *)
theory Dynamic_Timeout
  imports Stn_Task
begin

text \<open>
  stn/src/dynamic_timeout.cc: the state machine that grades the network from the outcome of
  finished tasks. Its status selects the first-package timeout of the task managers. The ten
  flags of the \<open>std::bitset<10>\<close> are a list of booleans; \<open>dyntime_fncount_pos_\<close> is a
  \<open>size_t\<close> that starts at -1, so it is a word. The four readings of the clock that
  \<open>__StatusSwitch\<close> makes are arguments, in their order; the network type is read once.
\<close>

section \<open>Constants of stn/config.h\<close>

definition kDynTimeSmallPackageLen :: u32 where "kDynTimeSmallPackageLen = 3*1024"
definition kDynTimeMiddlePackageLen :: u32 where "kDynTimeMiddlePackageLen = 10*1024"
definition kDynTimeBigPackageLen :: u32 where "kDynTimeBigPackageLen = 30*1024"
definition kDynTimeTaskFailedPkgLen :: u32 where "kDynTimeTaskFailedPkgLen = 0xffffffff"
definition kDynTimeMaxContinuousExcellentCount :: u32 where "kDynTimeMaxContinuousExcellentCount = 10"
definition kDynTimeMinNormalPkgCount :: nat where "kDynTimeMinNormalPkgCount = 6"
definition kDynTimeCountExpireTime :: u64 where "kDynTimeCountExpireTime = 5*60*1000"

lemmas dyn_consts = kDynTimeSmallPackageLen_def kDynTimeMiddlePackageLen_def
  kDynTimeBigPackageLen_def kDynTimeTaskFailedPkgLen_def kDynTimeMaxContinuousExcellentCount_def
  kDynTimeMinNormalPkgCount_def kDynTimeCountExpireTime_def

text \<open>The cost limits for small, middle, big and bigger packages.\<close>

definition pkg_costtimes :: "NetType \<Rightarrow> u64 \<times> u64 \<times> u64 \<times> u64" where
  "pkg_costtimes net = (if net \<noteq> kMobile then (500, 2*1000, 4*1000, 6*1000)
                        else (1*1000, 3*1000, 5*1000, 7*1000))"

section \<open>State and operations\<close>

datatype DynTag =
    kDynTimeTaskFailedTag | KDynTimeTaskNormalTag | kDynTimeTaskMeetExpectTag
  | kDynTimeTaskMidPkgMeetExpectTag | kDynTimeTaskBigPkgMeetExpectTag
  | kDynTimeTaskBiggerPkgMeetExpectTag

record DynamicTimeout =
  dyntime_status :: DynStatus
  dyntime_continuous_good_count :: u32
  dyntime_latest_bigpkg_goodtime :: u64
  dyntime_failed_normal_count :: "bool list"
  dyntime_fncount_latstmodify_time :: u64
  dyntime_fncount_pos :: u64

definition DynamicTimeout_new :: DynamicTimeout where
  "DynamicTimeout_new = \<lparr>dyntime_status = kEValuating, dyntime_continuous_good_count = 0,
     dyntime_latest_bigpkg_goodtime = 0, dyntime_failed_normal_count = replicate 10 True,
     dyntime_fncount_latstmodify_time = 0, dyntime_fncount_pos = -1\<rparr>"

definition DynamicTimeout_ResetStatus :: "DynamicTimeout \<Rightarrow> DynamicTimeout" where
  "DynamicTimeout_ResetStatus d = d\<lparr>dyntime_status := kEValuating,
     dyntime_latest_bigpkg_goodtime := 0, dyntime_continuous_good_count := 0,
     dyntime_failed_normal_count := replicate 10 True, dyntime_fncount_latstmodify_time := 0,
     dyntime_fncount_pos := -1\<rparr>"

definition task_tag :: "NetType \<Rightarrow> u32 \<Rightarrow> u64 \<Rightarrow> DynTag" where
  "task_tag net total_size cost_time =
     (if total_size = kDynTimeTaskFailedPkgLen \<or> cost_time = 0 then kDynTimeTaskFailedTag
      else case pkg_costtimes net of (small, middle, big, bigger) \<Rightarrow>
        if total_size < kDynTimeSmallPackageLen then
          (if cost_time \<le> small then kDynTimeTaskMeetExpectTag else KDynTimeTaskNormalTag)
        else if total_size \<le> kDynTimeMiddlePackageLen then
          (if cost_time \<le> middle then kDynTimeTaskMidPkgMeetExpectTag else KDynTimeTaskNormalTag)
        else if total_size \<le> kDynTimeBigPackageLen then
          (if cost_time \<le> big then kDynTimeTaskBigPkgMeetExpectTag else KDynTimeTaskNormalTag)
        else if cost_time \<le> bigger then kDynTimeTaskBiggerPkgMeetExpectTag
        else KDynTimeTaskNormalTag)"

text \<open>The expiry of the flags and the advance of the position at the head of
  \<open>__StatusSwitch\<close>.\<close>

definition expire_flags :: "u64 \<Rightarrow> u64 \<Rightarrow> DynamicTimeout \<Rightarrow> DynamicTimeout" where
  "expire_flags t1 t2 d =
     (if dyntime_fncount_latstmodify_time d = 0
         \<or> kDynTimeCountExpireTime < t1 - dyntime_fncount_latstmodify_time d
      then d\<lparr>dyntime_fncount_latstmodify_time := t2, dyntime_fncount_pos := -1,
             dyntime_failed_normal_count := replicate 10 (dyntime_status d \<noteq> kBad)\<rparr>
      else d)"

definition advance_pos :: "DynamicTimeout \<Rightarrow> DynamicTimeout" where
  "advance_pos d =
     (let p = dyntime_fncount_pos d + 1
      in d\<lparr>dyntime_fncount_pos := (if of_nat (length (dyntime_failed_normal_count d)) \<le> p then 0 else p)\<rparr>)"

definition set_flag :: "bool \<Rightarrow> DynamicTimeout \<Rightarrow> DynamicTimeout" where
  "set_flag v d = d\<lparr>dyntime_failed_normal_count :=
     (dyntime_failed_normal_count d)[unat (dyntime_fncount_pos d) := v]\<rparr>"

definition record_tag :: "u64 \<Rightarrow> DynTag \<Rightarrow> DynamicTimeout \<Rightarrow> DynamicTimeout" where
  "record_tag t3 tag d =
     (let meet = (\<lambda>d. set_flag True
            (if dyntime_status d = kEValuating
             then d\<lparr>dyntime_continuous_good_count := dyntime_continuous_good_count d + 1\<rparr> else d));
          big = (\<lambda>d. if dyntime_status d = kEValuating
                     then d\<lparr>dyntime_latest_bigpkg_goodtime := t3\<rparr> else d)
      in case tag of
           kDynTimeTaskMidPkgMeetExpectTag \<Rightarrow> meet (big d)
         | kDynTimeTaskBigPkgMeetExpectTag \<Rightarrow> meet (big d)
         | kDynTimeTaskBiggerPkgMeetExpectTag \<Rightarrow> meet (big d)
         | kDynTimeTaskMeetExpectTag \<Rightarrow> meet d
         | KDynTimeTaskNormalTag \<Rightarrow>
             set_flag True
               (if dyntime_status d = kEValuating
                then d\<lparr>dyntime_continuous_good_count := 0, dyntime_latest_bigpkg_goodtime := 0\<rparr> else d)
         | kDynTimeTaskFailedTag \<Rightarrow>
             set_flag False
               (d\<lparr>dyntime_continuous_good_count := 0, dyntime_latest_bigpkg_goodtime := 0\<rparr>))"

definition normal_count :: "DynamicTimeout \<Rightarrow> nat" where
  "normal_count d = length (filter id (dyntime_failed_normal_count d))"

definition switch_status :: "u64 \<Rightarrow> DynamicTimeout \<Rightarrow> DynamicTimeout" where
  "switch_status t4 d =
     (case dyntime_status d of
        kEValuating \<Rightarrow>
          (if kDynTimeMaxContinuousExcellentCount \<le> dyntime_continuous_good_count d
              \<and> t4 - dyntime_latest_bigpkg_goodtime d \<le> kDynTimeCountExpireTime
           then d\<lparr>dyntime_status := kExcellent\<rparr>
           else if normal_count d \<le> kDynTimeMinNormalPkgCount
           then d\<lparr>dyntime_status := kBad, dyntime_fncount_latstmodify_time := 0\<rparr>
           else d)
      | kExcellent \<Rightarrow>
          (if dyntime_continuous_good_count d = 0 \<and> dyntime_latest_bigpkg_goodtime d = 0
           then d\<lparr>dyntime_status := kEValuating\<rparr> else d)
      | kBad \<Rightarrow>
          (if kDynTimeMinNormalPkgCount < normal_count d
           then d\<lparr>dyntime_status := kEValuating, dyntime_fncount_latstmodify_time := 0\<rparr> else d))"

definition StatusSwitch :: "u64 \<Rightarrow> u64 \<Rightarrow> u64 \<Rightarrow> u64 \<Rightarrow> DynTag \<Rightarrow> DynamicTimeout \<Rightarrow> DynamicTimeout" where
  "StatusSwitch t1 t2 t3 t4 tag d =
     switch_status t4 (record_tag t3 tag (advance_pos (expire_flags t1 t2 d)))"

definition CgiTaskStatistic ::
    "u64 \<Rightarrow> u64 \<Rightarrow> u64 \<Rightarrow> u64 \<Rightarrow> NetType \<Rightarrow> u32 \<Rightarrow> u64 \<Rightarrow> DynamicTimeout \<Rightarrow> DynamicTimeout" where
  "CgiTaskStatistic t1 t2 t3 t4 net total_size cost_time d =
     StatusSwitch t1 t2 t3 t4 (task_tag net total_size cost_time) d"

section \<open>Invariant\<close>

definition dyn_inv :: "DynamicTimeout \<Rightarrow> bool" where
  "dyn_inv d \<longleftrightarrow> length (dyntime_failed_normal_count d) = 10 \<and>
     (dyntime_fncount_pos d = -1 \<or> dyntime_fncount_pos d < 10)"

lemma advance_pos_less:
  "dyn_inv d \<Longrightarrow> unat (dyntime_fncount_pos (advance_pos d)) < 10 \<and> dyn_inv (advance_pos d)"
  by (auto simp: dyn_inv_def advance_pos_def Let_def word_less_nat_alt not_le)

lemma dyn_inv_expire: "dyn_inv d \<Longrightarrow> dyn_inv (expire_flags t1 t2 d)"
  by (simp add: dyn_inv_def expire_flags_def)

lemma dyn_inv_record: "dyn_inv d \<Longrightarrow> dyn_inv (record_tag t3 tag d)"
  by (auto simp: dyn_inv_def record_tag_def set_flag_def Let_def split: DynTag.split)

lemma dyn_inv_switch: "dyn_inv d \<Longrightarrow> dyn_inv (switch_status t4 d)"
  by (simp add: dyn_inv_def switch_status_def split: DynStatus.split)

lemma StatusSwitch_inv: "dyn_inv d \<Longrightarrow> dyn_inv (StatusSwitch t1 t2 t3 t4 tag d)"
  by (simp add: StatusSwitch_def dyn_inv_switch dyn_inv_record advance_pos_less dyn_inv_expire)

section \<open>How much it takes to change the grade\<close>

lemma count_set_flag:
  "length (filter id (bs[i := True])) \<ge> length (filter id bs)"
  "Suc (length (filter id (bs[i := False]))) \<ge> length (filter id bs)"
  by (induction bs arbitrary: i; simp split: nat.split)+

definition is_good :: "DynTag \<Rightarrow> bool" where
  "is_good tag \<longleftrightarrow> tag \<noteq> kDynTimeTaskFailedTag \<and> tag \<noteq> KDynTimeTaskNormalTag"

text \<open>\<open>dyn_credit n g d\<close>: at most \<open>n\<close> flags are down and at most \<open>g\<close> good results have
  been counted.\<close>

definition dyn_credit :: "nat \<Rightarrow> nat \<Rightarrow> DynamicTimeout \<Rightarrow> bool" where
  "dyn_credit n g d \<longleftrightarrow> 10 \<le> normal_count d + n \<and> unat (dyntime_continuous_good_count d) \<le> g"

lemma credit_expire:
  "dyntime_status d \<noteq> kBad \<Longrightarrow> dyn_credit n g d \<Longrightarrow> dyn_credit n g (expire_flags t1 t2 d)"
  by (simp add: dyn_credit_def expire_flags_def normal_count_def)

lemma credit_advance: "dyn_credit n g (advance_pos d) = dyn_credit n g d"
  by (simp add: dyn_credit_def advance_pos_def normal_count_def Let_def)

lemma unat_inc_le: "unat (w + 1 :: 'a::len word) \<le> Suc (unat w)"
  by (simp add: unat_word_ariths)

lemma credit_record:
  assumes "dyn_credit n g d"
  shows "dyn_credit (if tag = kDynTimeTaskFailedTag then Suc n else n)
           (if is_good tag then Suc g else g) (record_tag t3 tag d)"
proof -
  let ?bs = "dyntime_failed_normal_count d" and ?i = "unat (dyntime_fncount_pos d)"
  have "unat (dyntime_continuous_good_count d + 1) \<le> Suc g"
    using unat_inc_le [of "dyntime_continuous_good_count d"] assms by (simp add: dyn_credit_def)
  moreover have "10 \<le> length (filter id (?bs[?i := True])) + n"
    "10 \<le> length (filter id (?bs[?i := False])) + Suc n"
    using count_set_flag [of ?bs ?i] assms by (simp_all add: dyn_credit_def normal_count_def)
  ultimately show ?thesis
    using assms
    by (cases tag) (simp_all add: dyn_credit_def normal_count_def record_tag_def set_flag_def
        is_good_def Let_def)
qed

lemma credit_switch: "dyn_credit n g (switch_status t4 d) = dyn_credit n g d"
  by (simp add: dyn_credit_def switch_status_def normal_count_def split: DynStatus.split)

lemma status_before_switch:
  "dyntime_status (record_tag t3 tag (advance_pos (expire_flags t1 t2 d))) = dyntime_status d"
  by (auto simp: record_tag_def set_flag_def advance_pos_def expire_flags_def Let_def
      split: DynTag.split)

lemma switch_needs:
  assumes "dyn_credit n g d" "n < 4"
  shows "dyntime_status d \<noteq> kBad \<Longrightarrow> dyntime_status (switch_status t4 d) \<noteq> kBad"
    and "g < 10 \<Longrightarrow> dyntime_status d = kEValuating \<Longrightarrow> dyntime_status (switch_status t4 d) = kEValuating"
  using assms
  by (auto simp: switch_status_def dyn_credit_def dyn_consts word_le_nat_alt split: DynStatus.split)

text \<open>A history of \<open>CgiTaskStatistic\<close> calls: the four clock readings, the network, the size and
  the cost of each.\<close>

type_synonym statistic = "u64 \<times> u64 \<times> u64 \<times> u64 \<times> NetType \<times> u32 \<times> u64"

fun statistics :: "statistic list \<Rightarrow> DynamicTimeout \<Rightarrow> DynamicTimeout" where
  "statistics [] d = d"
| "statistics ((t1, t2, t3, t4, net, len, cost) # ss) d =
     statistics ss (CgiTaskStatistic t1 t2 t3 t4 net len cost d)"

definition tags :: "statistic list \<Rightarrow> DynTag list" where
  "tags ss = map (\<lambda>(t1, t2, t3, t4, net, len, cost). task_tag net len cost) ss"

definition fails :: "statistic list \<Rightarrow> nat" where
  "fails ss = length (filter (\<lambda>t. t = kDynTimeTaskFailedTag) (tags ss))"

definition goods :: "statistic list \<Rightarrow> nat" where
  "goods ss = length (filter is_good (tags ss))"

lemma CgiTaskStatistic_step:
  fixes tag :: DynTag and n g :: nat and net :: NetType and len :: u32 and cost t1 t2 t3 t4 :: u64
  assumes "dyntime_status d \<noteq> kBad" "dyn_credit n g d"
  defines "tag \<equiv> task_tag net len cost"
  defines "n' \<equiv> (if tag = kDynTimeTaskFailedTag then Suc n else n)"
    and "g' \<equiv> (if is_good tag then Suc g else g)"
    and "d' \<equiv> CgiTaskStatistic t1 t2 t3 t4 net len cost d"
  shows "dyn_credit n' g' d'"
    and "n' < 4 \<Longrightarrow> dyntime_status d' \<noteq> kBad"
    and "n' < 4 \<Longrightarrow> g' < 10 \<Longrightarrow> dyntime_status d = kEValuating \<Longrightarrow> dyntime_status d' = kEValuating"
proof -
  let ?r = "record_tag t3 tag (advance_pos (expire_flags t1 t2 d))"
  have d': "d' = switch_status t4 ?r"
    by (simp add: d'_def CgiTaskStatistic_def StatusSwitch_def tag_def)
  have c: "dyn_credit n' g' ?r"
    unfolding n'_def g'_def by (intro credit_record) (simp add: credit_advance credit_expire assms)
  show "dyn_credit n' g' d'" using c by (simp add: d' credit_switch)
  show "n' < 4 \<Longrightarrow> dyntime_status d' \<noteq> kBad"
    using switch_needs(1) [OF c, of t4] assms(1) by (simp add: d' status_before_switch)
  show "n' < 4 \<Longrightarrow> g' < 10 \<Longrightarrow> dyntime_status d = kEValuating \<Longrightarrow> dyntime_status d' = kEValuating"
    using switch_needs(2) [OF c, of t4] by (simp add: d' status_before_switch)
qed

lemma statistics_credit:
  assumes "dyntime_status d \<noteq> kBad" "dyn_credit n g d" "n + fails ss < 4"
  shows "dyntime_status (statistics ss d) \<noteq> kBad \<and>
    (dyntime_status d = kEValuating \<and> g + goods ss < 10 \<longrightarrow> dyntime_status (statistics ss d) = kEValuating)"
  using assms
proof (induction ss arbitrary: d n g)
  case (Cons s ss)
  obtain t1 t2 t3 t4 net len cost where s: "s = (t1, t2, t3, t4, net, len, cost)" by (cases s) auto
  let ?tag = "task_tag net len cost"
  let ?n = "if ?tag = kDynTimeTaskFailedTag then Suc n else n" and ?g = "if is_good ?tag then Suc g else g"
  have n: "?n + fails ss < 4" and g: "g + goods (s # ss) = ?g + goods ss"
    using Cons.prems(3) by (auto simp: fails_def goods_def tags_def s)
  note st = CgiTaskStatistic_step [OF Cons.prems(1,2), of net len cost t1 t2 t3 t4]
  from Cons.IH [OF _ st(1) n] st(2,3) n g show ?case by (auto simp: s)
qed simp

section \<open>Runs of equal results\<close>

text \<open>The flags after \<open>k\<close> results of the same kind in a period that began at \<open>m\<close>.\<close>

definition run_state :: "bool \<Rightarrow> nat \<Rightarrow> u64 \<Rightarrow> DynamicTimeout \<Rightarrow> bool" where
  "run_state v k m d \<longleftrightarrow>
     dyntime_failed_normal_count d = replicate k v @ replicate (10 - k) (\<not> v) \<and>
     dyntime_fncount_pos d = of_nat k - 1 \<and> dyntime_fncount_latstmodify_time d = m"

lemma run_state_record:
  assumes r: "run_state v k m d" "k < 10" and tag: "(tag \<noteq> kDynTimeTaskFailedTag) = v"
    and m: "m \<noteq> 0" "t1 - m \<le> kDynTimeCountExpireTime"
  shows "run_state v (Suc k) m (record_tag t3 tag (advance_pos (expire_flags t1 t2 d)))"
    (is "run_state v _ m ?d")
proof -
  let ?a = "advance_pos (expire_flags t1 t2 d)"
  have e: "expire_flags t1 t2 d = d" using r m by (simp add: run_state_def expire_flags_def not_less)
  have k: "\<not> (10 :: u64) \<le> of_nat k" using r(2) of_nat_le_u64 [of 10 k] by simp
  have u: "unat (of_nat k :: u64) = k" using r(2) by (intro unat_of_nat_u64) simp
  have pos: "dyntime_fncount_pos ?a = of_nat k"
    using r k by (simp add: e advance_pos_def Let_def run_state_def)
  have bits: "dyntime_failed_normal_count ?a = replicate k v @ replicate (10 - k) (\<not> v)"
    "dyntime_fncount_latstmodify_time ?a = m"
    using r by (simp_all add: e advance_pos_def Let_def run_state_def)
  have "replicate (10 - k) (\<not> v) = (\<not> v) # replicate (10 - Suc k) (\<not> v)"
    using r(2) by (metis Suc_diff_Suc replicate_Suc)
  then have upd: "(replicate k v @ replicate (10 - k) (\<not> v))[k := v]
      = replicate (Suc k) v @ replicate (10 - Suc k) (\<not> v)"
    by (simp add: list_update_append replicate_append_same)
  have "dyntime_failed_normal_count ?d = (dyntime_failed_normal_count ?a)[unat (dyntime_fncount_pos ?a) := v]"
    "dyntime_fncount_pos ?d = dyntime_fncount_pos ?a"
    "dyntime_fncount_latstmodify_time ?d = dyntime_fncount_latstmodify_time ?a"
    using tag by (cases tag; simp add: record_tag_def set_flag_def Let_def)+
  then show ?thesis using upd bits pos u by (simp add: run_state_def)
qed

lemma normal_count_run: "run_state v k m d \<Longrightarrow> k \<le> 10 \<Longrightarrow> normal_count d = (if v then k else 10 - k)"
  by (simp add: run_state_def normal_count_def)

lemma bad_run:
  assumes "dyntime_status d = kBad" "run_state True k m d" "k + length ss = 7" "0 < length ss" "m \<noteq> 0"
    "\<forall>(t1, t2, t3, t4, net, len, cost) \<in> set ss.
       t1 - m \<le> kDynTimeCountExpireTime \<and> task_tag net len cost \<noteq> kDynTimeTaskFailedTag"
  shows "dyntime_status (statistics ss d) = kEValuating"
  using assms
proof (induction ss arbitrary: d k)
  case (Cons s ss)
  obtain t1 t2 t3 t4 net len cost where s: "s = (t1, t2, t3, t4, net, len, cost)" by (cases s) auto
  let ?r = "record_tag t3 (task_tag net len cost) (advance_pos (expire_flags t1 t2 d))"
  have r: "run_state True (Suc k) m ?r"
    using Cons.prems by (intro run_state_record) (auto simp: s)
  have n: "normal_count ?r = Suc k" using normal_count_run [OF r] Cons.prems(3) by simp
  have st: "dyntime_status ?r = kBad" using Cons.prems(1) by (simp add: status_before_switch)
  show ?case
  proof (cases ss)
    case Nil
    then have "k = 6" using Cons.prems(3) by simp
    then show ?thesis
      using n st Nil by (simp add: s CgiTaskStatistic_def StatusSwitch_def switch_status_def dyn_consts)
  next
    case (Cons s' ss')
    have "switch_status t4 ?r = ?r"
      using n st Cons Cons.prems(3) by (simp add: switch_status_def dyn_consts)
    then have e: "CgiTaskStatistic t1 t2 t3 t4 net len cost d = ?r"
      by (simp add: CgiTaskStatistic_def StatusSwitch_def)
    have "dyntime_status (statistics ss ?r) = kEValuating"
      by (rule Cons.IH [OF st r]) (use Cons Cons.prems in auto)
    then show ?thesis by (simp add: s e)
  qed
qed simp

section \<open>Properties\<close>

text \<open>The network is graded bad only after four failed tasks, and excellent only after ten
  tasks that met their expectation: a fresh (or reset) state stays clear of \<open>kBad\<close> through any
  history with fewer than four failures, and at \<open>kEValuating\<close> if it has fewer than ten good
  results too, whatever the clock does.\<close>

theorem dyn_grade_needs_evidence:
  assumes "fails ss < 4"
  shows "dyntime_status (statistics ss (DynamicTimeout_ResetStatus d)) \<noteq> kBad \<and>
    (goods ss < 10 \<longrightarrow> dyntime_status (statistics ss (DynamicTimeout_ResetStatus d)) = kEValuating)"
proof -
  let ?d = "DynamicTimeout_ResetStatus d"
  have "dyn_credit 0 0 ?d" "dyntime_status ?d = kEValuating"
    by (simp_all add: dyn_credit_def normal_count_def DynamicTimeout_ResetStatus_def)
  then show ?thesis using statistics_credit [of ?d 0 0 ss] assms by simp
qed

definition sample_statistics :: "statistic list" where
  "sample_statistics = [(1000, 1000, 1000, 1000, kWifi, 100, 0), (2000, 2000, 2000, 2000, kWifi, 100, 0),
     (3000, 3000, 3000, 3000, kWifi, 100, 200), (4000, 4000, 4000, 4000, kWifi, 100, 0)]"

theorem dyn_grade_needs_evidence_witness:
  "fails sample_statistics = 3 \<and> goods sample_statistics = 1 \<and>
   dyntime_status (statistics sample_statistics (DynamicTimeout_ResetStatus DynamicTimeout_new)) = kEValuating"
proof -
  have "fails sample_statistics = 3" "goods sample_statistics = 1" by code_simp+
  then show ?thesis
    using dyn_grade_needs_evidence [of sample_statistics DynamicTimeout_new] by simp
qed

text \<open>The grade moves one step at a time: between excellent and bad it always passes through
  the evaluation, and a failed task never leaves it at excellent.\<close>

theorem dyn_transitions:
  "let d' = CgiTaskStatistic t1 t2 t3 t4 net len cost d
   in (dyntime_status d, dyntime_status d') \<in>
        {(kEValuating, kEValuating), (kEValuating, kExcellent), (kEValuating, kBad),
         (kExcellent, kExcellent), (kExcellent, kEValuating), (kBad, kBad), (kBad, kEValuating)} \<and>
      (dyntime_status d', task_tag net len cost) \<noteq> (kExcellent, kDynTimeTaskFailedTag)"
proof -
  let ?r = "record_tag t3 (task_tag net len cost) (advance_pos (expire_flags t1 t2 d))"
  have f: "dyntime_continuous_good_count ?r = 0 \<and> dyntime_latest_bigpkg_goodtime ?r = 0"
    if "task_tag net len cost = kDynTimeTaskFailedTag"
    using that by (simp add: record_tag_def set_flag_def)
  have st: "dyntime_status ?r = dyntime_status d" by (rule status_before_switch)
  show ?thesis
    unfolding CgiTaskStatistic_def StatusSwitch_def Let_def
    using f st by (cases "dyntime_status d") (auto simp: switch_status_def dyn_consts)
qed

text \<open>A network graded bad recovers: seven tasks in a row that do not fail, within the five
  minutes of a counting period, bring it back to the evaluation. The period starts with the
  first of them, since the flags are cleared when the grade turns bad.\<close>

theorem dyn_bad_recovers:
  assumes "dyntime_status d = kBad" "dyntime_fncount_latstmodify_time d = 0" "m \<noteq> 0" "length ss = 6"
    "task_tag net0 len0 cost0 \<noteq> kDynTimeTaskFailedTag"
    "\<forall>(t1, t2, t3, t4, net, len, cost) \<in> set ss.
       t1 - m \<le> kDynTimeCountExpireTime \<and> task_tag net len cost \<noteq> kDynTimeTaskFailedTag"
  shows "dyntime_status (statistics ((m, m, m, m, net0, len0, cost0) # ss) d) = kEValuating"
proof -
  let ?e = "expire_flags m m d"
  have e: "dyntime_status ?e = kBad" "run_state True 0 m ?e"
    using assms(1,2) by (simp_all add: expire_flags_def run_state_def)
  have "expire_flags m m ?e = ?e"
    using assms(2,3) by (simp add: expire_flags_def kDynTimeCountExpireTime_def)
  then have "CgiTaskStatistic m m m m net0 len0 cost0 d = CgiTaskStatistic m m m m net0 len0 cost0 ?e"
    by (simp add: CgiTaskStatistic_def StatusSwitch_def)
  moreover have "dyntime_status (statistics ((m, m, m, m, net0, len0, cost0) # ss) ?e) = kEValuating"
    by (rule bad_run [OF e]) (use assms in auto)
  ultimately show ?thesis by simp
qed

theorem dyn_bad_recovers_witness:
  "dyntime_status (statistics (replicate 7 (5000, 5000, 5000, 5000, kWifi, 100, 900))
     (DynamicTimeout_new\<lparr>dyntime_status := kBad\<rparr>)) = kEValuating"
proof -
  let ?s = "(5000, 5000, 5000, 5000, kWifi, 100, 900) :: statistic"
  let ?d = "DynamicTimeout_new\<lparr>dyntime_status := kBad\<rparr>"
  have t: "task_tag kWifi 100 900 = KDynTimeTaskNormalTag" by code_simp
  have "dyntime_status (statistics (?s # replicate 6 ?s) ?d) = kEValuating"
    by (rule dyn_bad_recovers)
      (simp_all add: DynamicTimeout_new_def t kDynTimeCountExpireTime_def)
  then show ?thesis by (simp add: numeral_eq_Suc)
qed

end
