(* ===== verification/Anti_Avalanche.thy ===== *)
theory Anti_Avalanche
  imports Stn_Task
begin

text \<open>
  The limiters that stand between the application and the network: the funnel of
  stn/src/flow_limit.cc, the repetition counter of stn/src/frequency_limit.cc, their
  combination stn/src/anti_avalanche.cc and the sliding window of
  comm/comm_frequency_limit.cc. Every reading of the millisecond clock
  \<open>gettickcount()\<close> is an argument of the operation that makes it, in the order of the
  calls.
\<close>

section \<open>FlowLimit\<close>

definition kInactiveSpeed :: int where "kInactiveSpeed = 2 * 1024 * 1024 div 3600"
definition kActiveSpeed :: int where "kActiveSpeed = 8 * 1024 * 1024 div 3600"
definition kInactiveMinvol :: int where "kInactiveMinvol = 6 * 1024 * 1024"
definition kMaxVol :: int where "kMaxVol = 8 * 1024 * 1024"

lemmas flow_consts = kInactiveSpeed_def kActiveSpeed_def kInactiveMinvol_def kMaxVol_def

record FlowLimit =
  funnel_speed :: int
  cur_funnel_vol :: int
  time_lastflow_computer :: u64

definition FlowLimit_new :: "u64 \<Rightarrow> bool \<Rightarrow> FlowLimit" where
  "FlowLimit_new now isactive =
     \<lparr>funnel_speed = (if isactive then kActiveSpeed else kInactiveSpeed), cur_funnel_vol = 0,
      time_lastflow_computer = now\<rparr>"

text \<open>\<open>cur_funnel_vol_ -= interval * funnel_speed_\<close> is computed in \<open>uint64_t\<close> and
  converted back to \<open>int\<close>.\<close>

definition FlashCurVol :: "u64 \<Rightarrow> FlowLimit \<Rightarrow> FlowLimit" where
  "FlashCurVol timeCur f =
     (let interval = (timeCur - time_lastflow_computer f) div 1000
      in if interval = 0 then f
         else let vol = s32 (uint (word_of_int (cur_funnel_vol f)
                                   - interval * word_of_int (funnel_speed f) :: u64))
              in f\<lparr>cur_funnel_vol := max 0 vol, time_lastflow_computer := timeCur\<rparr>)"

definition FlowLimit_Check :: "u64 \<Rightarrow> Task \<Rightarrow> int \<Rightarrow> FlowLimit \<Rightarrow> bool \<times> FlowLimit" where
  "FlowLimit_Check now t len f =
     (if \<not> limit_flow t then (True, f)
      else let f' = FlashCurVol now f
           in if kMaxVol < s32 (cur_funnel_vol f' + len) then (False, f')
              else (True, f'\<lparr>cur_funnel_vol := s32 (cur_funnel_vol f' + len)\<rparr>))"

definition FlowLimit_Active :: "u64 \<Rightarrow> bool \<Rightarrow> FlowLimit \<Rightarrow> FlowLimit" where
  "FlowLimit_Active now isactive f =
     (let f1 = FlashCurVol now f;
          f2 = (if \<not> isactive \<and> kInactiveMinvol < cur_funnel_vol f1
                then f1\<lparr>cur_funnel_vol := kInactiveMinvol\<rparr> else f1)
      in f2\<lparr>funnel_speed := (if isactive then kActiveSpeed else kInactiveSpeed)\<rparr>)"

section \<open>FrequencyLimit\<close>

definition MAX_RECORD_COUNT :: nat where "MAX_RECORD_COUNT = 30"
definition RECORD_INTERCEPT_COUNT :: int where "RECORD_INTERCEPT_COUNT = 105"
definition NOT_CLEAR_INTERCEPT_COUNT_RETRY :: int where "NOT_CLEAR_INTERCEPT_COUNT_RETRY = 99"
definition NOT_CLEAR_INTERCEPT_COUNT :: int where "NOT_CLEAR_INTERCEPT_COUNT = 75"
definition NOT_CLEAR_INTERCEPT_INTERVAL_MINUTE :: u64 where
  "NOT_CLEAR_INTERCEPT_INTERVAL_MINUTE = 10*60*1000"
definition RUN_CLEAR_RECORDS_INTERVAL_MINUTE :: u64 where
  "RUN_CLEAR_RECORDS_INTERVAL_MINUTE = 60*60*1000"

lemmas freq_consts = MAX_RECORD_COUNT_def RECORD_INTERCEPT_COUNT_def
  NOT_CLEAR_INTERCEPT_COUNT_RETRY_def NOT_CLEAR_INTERCEPT_COUNT_def
  NOT_CLEAR_INTERCEPT_INTERVAL_MINUTE_def RUN_CLEAR_RECORDS_INTERVAL_MINUTE_def

record STAvalancheRecord =
  rec_hash :: u64
  rec_count :: int
  time_last_update :: u64

record FrequencyLimit =
  iarr_record :: "STAvalancheRecord list"
  itime_record_clear :: u64

definition FrequencyLimit_new :: "u64 \<Rightarrow> FrequencyLimit" where
  "FrequencyLimit_new now = \<lparr>iarr_record = [], itime_record_clear = now\<rparr>"

definition keep_record :: "u64 \<Rightarrow> STAvalancheRecord \<Rightarrow> bool" where
  "keep_record now r \<longleftrightarrow> now - time_last_update r \<le> NOT_CLEAR_INTERCEPT_INTERVAL_MINUTE \<and>
     NOT_CLEAR_INTERCEPT_COUNT \<le> rec_count r"

definition ClearRecord :: "u64 \<Rightarrow> STAvalancheRecord list \<Rightarrow> STAvalancheRecord list" where
  "ClearRecord now rs =
     map (\<lambda>r. if NOT_CLEAR_INTERCEPT_COUNT_RETRY < rec_count r
              then r\<lparr>rec_count := NOT_CLEAR_INTERCEPT_COUNT_RETRY\<rparr> else r)
       (filter (keep_record now) rs)"

text \<open>The last index that holds the hash; \<open>None\<close> is the source's -1.\<close>

definition LocateIndex :: "u64 \<Rightarrow> STAvalancheRecord list \<Rightarrow> nat option" where
  "LocateIndex h rs = find (\<lambda>i. rec_hash (rs ! i) = h) (rev [0..<length rs])"

definition oldest_index :: "STAvalancheRecord list \<Rightarrow> nat" where
  "oldest_index rs =
     foldl (\<lambda>d i. if time_last_update (rs ! i) < time_last_update (rs ! d) then i else d) 0
       [1..<length rs]"

definition InsertRecord :: "u64 \<Rightarrow> u64 \<Rightarrow> STAvalancheRecord list \<Rightarrow> STAvalancheRecord list" where
  "InsertRecord now h rs =
     (if MAX_RECORD_COUNT < length rs then rs
      else let temp = \<lparr>rec_hash = h, rec_count = 1, time_last_update = now\<rparr>;
               rs' = (if length rs = MAX_RECORD_COUNT
                      then take (oldest_index rs) rs @ drop (Suc (oldest_index rs)) rs else rs)
           in rs' @ [temp])"

definition UpdateRecord :: "u64 \<Rightarrow> nat \<Rightarrow> STAvalancheRecord list \<Rightarrow> STAvalancheRecord list" where
  "UpdateRecord now i rs =
     rs[i := (rs ! i)\<lparr>rec_count := rec_count (rs ! i) + 1, time_last_update := now\<rparr>]"

definition GetLastUpdateTillNow :: "u64 \<Rightarrow> nat \<Rightarrow> STAvalancheRecord list \<Rightarrow> u32" where
  "GetLastUpdateTillNow now i rs = ucast (now - time_last_update (rs ! i))"

definition CheckRecord :: "nat \<Rightarrow> STAvalancheRecord list \<Rightarrow> bool" where
  "CheckRecord i rs \<longleftrightarrow> rec_count (rs ! i) \<le> RECORD_INTERCEPT_COUNT"

text \<open>The checksum of the buffer is an argument, as are the clock readings: \<open>t1\<close> on
  entry, \<open>t2\<close> in \<open>__ClearRecord\<close>, \<open>t3\<close> in \<open>__GetLastUpdateTillNow\<close> and
  \<open>t4\<close> in \<open>__UpdateRecord\<close> or \<open>__InsertRecord\<close>. The result is the verdict, the
  time span reported with it and the new state.\<close>

definition FrequencyLimit_Check ::
    "u64 \<Rightarrow> u64 \<Rightarrow> u64 \<Rightarrow> u64 \<Rightarrow> Task \<Rightarrow> u64 \<Rightarrow> u32 \<Rightarrow> FrequencyLimit
     \<Rightarrow> bool \<times> u32 \<times> FrequencyLimit" where
  "FrequencyLimit_Check t1 t2 t3 t4 t h span f =
     (if \<not> limit_frequency t then (True, span, f)
      else
        let f1 = (if RUN_CLEAR_RECORDS_INTERVAL_MINUTE \<le> t1 - itime_record_clear f
                  then f\<lparr>itime_record_clear := t1, iarr_record := ClearRecord t2 (iarr_record f)\<rparr>
                  else f)
        in case LocateIndex h (iarr_record f1) of
             Some i \<Rightarrow>
               let span' = GetLastUpdateTillNow t3 i (iarr_record f1);
                   f2 = f1\<lparr>iarr_record := UpdateRecord t4 i (iarr_record f1)\<rparr>
               in (CheckRecord i (iarr_record f2), span', f2)
           | None \<Rightarrow> (True, span, f1\<lparr>iarr_record := InsertRecord t4 h (iarr_record f1)\<rparr>))"

section \<open>AntiAvalanche\<close>

record AntiAvalanche =
  aa_frequency_limit :: FrequencyLimit
  aa_flow_limit :: FlowLimit

datatype limit_kind = kFrequencyLimit | kFlowLimit

text \<open>The report to the application is part of the result: \<open>None\<close> when the task passes.\<close>

definition AntiAvalanche_Check ::
    "u64 \<Rightarrow> u64 \<Rightarrow> u64 \<Rightarrow> u64 \<Rightarrow> u64 \<Rightarrow> NetType \<Rightarrow> Task \<Rightarrow> u64 \<Rightarrow> int \<Rightarrow> AntiAvalanche
     \<Rightarrow> bool \<times> (limit_kind \<times> u32) option \<times> AntiAvalanche" where
  "AntiAvalanche_Check t1 t2 t3 t4 t5 net t h len a =
     (case FrequencyLimit_Check t1 t2 t3 t4 t h 0 (aa_frequency_limit a) of
        (ok, span, fq) \<Rightarrow>
          let a1 = a\<lparr>aa_frequency_limit := fq\<rparr>
          in if \<not> ok then (False, Some (kFrequencyLimit, span), a1)
             else if net = kMobile then
               (case FlowLimit_Check t5 t len (aa_flow_limit a1) of
                  (ok', fl) \<Rightarrow>
                    let a2 = a1\<lparr>aa_flow_limit := fl\<rparr>
                    in if \<not> ok' then (False, Some (kFlowLimit, word_of_int len), a2)
                       else (True, None, a2))
             else (True, None, a1))"

definition AntiAvalanche_OnSignalActive :: "u64 \<Rightarrow> bool \<Rightarrow> AntiAvalanche \<Rightarrow> AntiAvalanche" where
  "AntiAvalanche_OnSignalActive now isactive a =
     a\<lparr>aa_flow_limit := FlowLimit_Active now isactive (aa_flow_limit a)\<rparr>"

section \<open>CommFrequencyLimit\<close>

record CommFrequencyLimit =
  cf_count :: nat
  time_span :: u64
  touch_times :: "u64 list"

definition DelOlderTouchTime :: "u64 \<Rightarrow> u64 \<Rightarrow> u64 list \<Rightarrow> u64 list" where
  "DelOlderTouchTime span time ts = dropWhile (\<lambda>x. span < time - x) ts"

definition CommFrequencyLimit_Check ::
    "u64 \<Rightarrow> CommFrequencyLimit \<Rightarrow> bool \<times> CommFrequencyLimit" where
  "CommFrequencyLimit_Check now c =
     (let ts = (if touch_times c \<noteq> [] \<and> now < hd (touch_times c)
                then replicate (length (touch_times c)) (now - 1) else touch_times c)
      in if length ts \<le> cf_count c then (True, c\<lparr>touch_times := ts @ [now]\<rparr>)
         else if now - hd ts \<le> time_span c then (False, c\<lparr>touch_times := ts\<rparr>)
         else (True, c\<lparr>touch_times := DelOlderTouchTime (time_span c) now ts @ [now]\<rparr>))"


section \<open>The contract of a limiter\<close>

text \<open>What the callers of a limiter rely on: admissible requests keep its invariant, and a
  request it is not meant for passes and changes nothing.\<close>

locale limiter =
  fixes invar :: "'s \<Rightarrow> bool"
    and adm :: "'q \<Rightarrow> 's \<Rightarrow> bool"
    and exempt :: "'q \<Rightarrow> bool"
    and check :: "'q \<Rightarrow> 's \<Rightarrow> bool \<times> 's"
  assumes check_invar: "invar s \<Longrightarrow> adm q s \<Longrightarrow> invar (snd (check q s))"
    and check_exempt: "exempt q \<Longrightarrow> check q s = (True, s)"
begin

text \<open>A run is admissible when every request is, in the state it meets.\<close>

fun adm_run :: "'q list \<Rightarrow> 's \<Rightarrow> bool" where
  "adm_run [] s = True"
| "adm_run (q # qs) s = (adm q s \<and> adm_run qs (snd (check q s)))"

fun run :: "'q list \<Rightarrow> 's \<Rightarrow> 's" where
  "run [] s = s"
| "run (q # qs) s = run qs (snd (check q s))"

lemma run_invar: "invar s \<Longrightarrow> adm_run qs s \<Longrightarrow> invar (run qs s)"
  by (induction qs arbitrary: s) (simp_all add: check_invar)

lemma run_exempt: "(\<forall>q \<in> set qs. exempt q) \<Longrightarrow> run qs s = s"
  by (induction qs arbitrary: s) (simp_all add: check_exempt)

end

section \<open>The funnel\<close>

definition flow_inv :: "FlowLimit \<Rightarrow> bool" where
  "flow_inv f \<longleftrightarrow> 0 \<le> cur_funnel_vol f \<and> cur_funnel_vol f \<le> kMaxVol \<and>
     (funnel_speed f = kActiveSpeed \<or> funnel_speed f = kInactiveSpeed)"

text \<open>The clock has not gone back, and less than ten days have passed since the funnel was
  last drained.\<close>

definition fresh_clock :: "u64 \<Rightarrow> FlowLimit \<Rightarrow> bool" where
  "fresh_clock now f \<longleftrightarrow> time_lastflow_computer f \<le> now \<and>
     now - time_lastflow_computer f \<le> 10 * 24 * 60 * 60 * 1000"

definition drained_seconds :: "u64 \<Rightarrow> FlowLimit \<Rightarrow> int" where
  "drained_seconds now f = (uint now - uint (time_lastflow_computer f)) div 1000"

lemma interval_int:
  assumes "time_lastflow_computer f \<le> now"
  shows "(now - time_lastflow_computer f) div 1000 = word_of_int (drained_seconds now f)"
    and "((now - time_lastflow_computer f) div 1000 = 0) = (drained_seconds now f = 0)"
proof -
  have u: "uint ((now - time_lastflow_computer f) div 1000) = drained_seconds now f"
    using uint_diff_le [OF assms] by (simp add: uint_div drained_seconds_def)
  show "(now - time_lastflow_computer f) div 1000 = word_of_int (drained_seconds now f)"
    unfolding u [symmetric] by simp
  show "((now - time_lastflow_computer f) div 1000 = 0) = (drained_seconds now f = 0)"
    unfolding u [symmetric] by (simp add: uint_0_iff)
qed

lemma fresh_clock_bounds:
  assumes "fresh_clock now f"
  shows "0 \<le> drained_seconds now f" "drained_seconds now f \<le> 864000"
    "1000 * drained_seconds now f \<le> uint now - uint (time_lastflow_computer f)"
proof -
  have le: "time_lastflow_computer f \<le> now" using assms by (simp add: fresh_clock_def)
  have "now - time_lastflow_computer f \<le> 864000000"
    using assms by (simp add: fresh_clock_def)
  then have "uint now - uint (time_lastflow_computer f) \<le> 864000000"
    by (simp add: word_le_def uint_diff_le [OF le])
  moreover have "uint (time_lastflow_computer f) \<le> uint now" using le by (simp add: word_le_def)
  ultimately show "0 \<le> drained_seconds now f" "drained_seconds now f \<le> 864000"
    "1000 * drained_seconds now f \<le> uint now - uint (time_lastflow_computer f)"
    by (simp_all add: drained_seconds_def)
qed

text \<open>Within that time the unsigned computation is the leaky bucket over the integers.\<close>

lemma FlashCurVol_drains:
  assumes inv: "flow_inv f" and clk: "fresh_clock now f"
  shows "FlashCurVol now f =
     (if drained_seconds now f = 0 then f
      else f\<lparr>cur_funnel_vol := max 0 (cur_funnel_vol f - drained_seconds now f * funnel_speed f),
             time_lastflow_computer := now\<rparr>)"
proof -
  let ?n = "drained_seconds now f" and ?x = "cur_funnel_vol f - drained_seconds now f * funnel_speed f"
  have le: "time_lastflow_computer f \<le> now" using clk by (simp add: fresh_clock_def)
  have v: "0 \<le> cur_funnel_vol f" "cur_funnel_vol f \<le> 8388608"
    and sp: "0 \<le> funnel_speed f" "funnel_speed f \<le> 2330"
    using inv by (auto simp: flow_inv_def flow_consts)
  have "0 \<le> ?n * funnel_speed f" "?n * funnel_speed f \<le> 864000 * 2330"
    using fresh_clock_bounds [OF clk] sp by (simp, intro mult_mono) auto
  then have x: "s32 ?x = ?x" using v by (intro s32_id) simp_all
  have "s32 (uint (word_of_int (cur_funnel_vol f)
          - word_of_int ?n * word_of_int (funnel_speed f) :: u64)) = ?x"
    using s32_uint_wi [of ?x] x by simp
  then show ?thesis
    unfolding FlashCurVol_def Let_def interval_int(2) [OF le] unfolding interval_int(1) [OF le]
    by simp
qed

lemma FlashCurVol_inv:
  assumes "flow_inv f" "fresh_clock now f"
  shows "flow_inv (FlashCurVol now f)"
    and "1000 * (cur_funnel_vol f - cur_funnel_vol (FlashCurVol now f)) \<le>
         kActiveSpeed * (uint (time_lastflow_computer (FlashCurVol now f)) - uint (time_lastflow_computer f))"
    and "time_lastflow_computer (FlashCurVol now f) \<le> now"
    and "time_lastflow_computer f \<le> time_lastflow_computer (FlashCurVol now f)"
proof -
  let ?n = "drained_seconds now f"
  note b = fresh_clock_bounds [OF assms(2)]
  have sp: "0 \<le> funnel_speed f" "funnel_speed f \<le> 2330"
    and k: "kActiveSpeed = 2330"
    using assms(1) by (auto simp: flow_inv_def flow_consts)
  have m: "0 \<le> ?n * funnel_speed f" "1000 * (?n * funnel_speed f) \<le> 2330 * (1000 * ?n)"
    using b sp mult_left_mono [of "funnel_speed f" 2330 "1000 * ?n"] by simp_all
  show "flow_inv (FlashCurVol now f)"
    using assms(1) m by (auto simp: FlashCurVol_drains [OF assms] flow_inv_def)
  show "1000 * (cur_funnel_vol f - cur_funnel_vol (FlashCurVol now f)) \<le>
      kActiveSpeed * (uint (time_lastflow_computer (FlashCurVol now f)) - uint (time_lastflow_computer f))"
  proof -
    have "1000 * (?n * funnel_speed f) \<le> 2330 * (uint now - uint (time_lastflow_computer f))"
      using m(2) mult_left_mono [OF b(3), of 2330] by linarith
    then show ?thesis using m(1) assms(1)
      unfolding k FlashCurVol_drains [OF assms] by (auto simp: flow_inv_def max_def)
  qed
  show "time_lastflow_computer (FlashCurVol now f) \<le> now"
    "time_lastflow_computer f \<le> time_lastflow_computer (FlashCurVol now f)"
    using assms(2) by (simp_all add: FlashCurVol_drains [OF assms] fresh_clock_def)
qed


text \<open>The length handed to the funnel is the \<open>int\<close> of a buffer length; a length of
  more than two gigabytes is outside the range for which \<open>cur_funnel_vol_ + _len\<close> is
  defined in C++.\<close>

definition flow_adm :: "u64 \<times> Task \<times> int \<Rightarrow> FlowLimit \<Rightarrow> bool" where
  "flow_adm q f = (case q of (now, t, len) \<Rightarrow> fresh_clock now f \<and> 0 \<le> len \<and> len \<le> 2 ^ 31 - 1 - kMaxVol)"

definition flow_check :: "u64 \<times> Task \<times> int \<Rightarrow> FlowLimit \<Rightarrow> bool \<times> FlowLimit" where
  "flow_check q f = (case q of (now, t, len) \<Rightarrow> FlowLimit_Check now t len f)"

lemma FlowLimit_Check_spec:
  assumes "flow_inv f" "fresh_clock now f" "0 \<le> len" "len \<le> 2 ^ 31 - 1 - kMaxVol" "limit_flow t"
  shows "FlowLimit_Check now t len f =
    (let f' = FlashCurVol now f
     in if cur_funnel_vol f' + len \<le> kMaxVol
        then (True, f'\<lparr>cur_funnel_vol := cur_funnel_vol f' + len\<rparr>) else (False, f'))"
proof -
  have "flow_inv (FlashCurVol now f)" by (rule FlashCurVol_inv(1) [OF assms(1,2)])
  then have "s32 (cur_funnel_vol (FlashCurVol now f) + len) = cur_funnel_vol (FlashCurVol now f) + len"
    using assms(3,4) by (intro s32_id) (simp_all add: flow_inv_def flow_consts)
  then show ?thesis using assms(5) by (simp add: FlowLimit_Check_def Let_def)
qed

lemma FlowLimit_Check_inv:
  assumes "flow_inv f" "fresh_clock now f" "0 \<le> len" "len \<le> 2 ^ 31 - 1 - kMaxVol"
  shows "flow_inv (snd (FlowLimit_Check now t len f))"
proof (cases "limit_flow t")
  case True
  show ?thesis
    using FlashCurVol_inv(1) [OF assms(1,2)] assms(3)
    by (simp add: FlowLimit_Check_spec [OF assms True] Let_def flow_inv_def)
qed (simp add: FlowLimit_Check_def assms(1))

lemma FlowLimit_Active_inv:
  assumes "flow_inv f" "fresh_clock now f"
  shows "flow_inv (FlowLimit_Active now b f)"
  using FlashCurVol_inv(1) [OF assms]
  by (auto simp: FlowLimit_Active_def Let_def flow_inv_def kMaxVol_def kInactiveMinvol_def)

lemma FlowLimit_Check_exempt: "\<not> limit_flow t \<Longrightarrow> FlowLimit_Check now t len f = (True, f)"
  by (simp add: FlowLimit_Check_def)

interpretation flow: limiter flow_inv flow_adm "\<lambda>(now, t, len). \<not> limit_flow t" flow_check
  by unfold_locales
    (auto simp: flow_adm_def flow_check_def FlowLimit_Check_exempt intro: FlowLimit_Check_inv)

text \<open>A history of the funnel: the calls of \<open>Check\<close> and \<open>Active\<close> with the clock readings
  they make. \<open>flow_history\<close> gives the bytes of the limited tasks that passed, the number of
  switches to the inactive state and the final funnel.\<close>

datatype flow_event = FCheck u64 Task int | FActive u64 bool

fun flow_history :: "flow_event list \<Rightarrow> FlowLimit \<Rightarrow> int \<times> int \<times> FlowLimit" where
  "flow_history [] f = (0, 0, f)"
| "flow_history (FCheck now t len # es) f =
     (case FlowLimit_Check now t len f of (ok, f1) \<Rightarrow>
        case flow_history es f1 of (n, k, f2) \<Rightarrow> ((if ok \<and> limit_flow t then len else 0) + n, k, f2))"
| "flow_history (FActive now b # es) f =
     (case flow_history es (FlowLimit_Active now b f) of
        (n, k, f2) \<Rightarrow> (n, (if b then 0 else 1) + k, f2))"

fun flow_history_ok :: "flow_event list \<Rightarrow> FlowLimit \<Rightarrow> bool" where
  "flow_history_ok [] f = True"
| "flow_history_ok (FCheck now t len # es) f =
     (flow_adm (now, t, len) f \<and> flow_history_ok es (snd (FlowLimit_Check now t len f)))"
| "flow_history_ok (FActive now b # es) f =
     (fresh_clock now f \<and> flow_history_ok es (FlowLimit_Active now b f))"

definition flow_budget :: "FlowLimit \<Rightarrow> FlowLimit \<Rightarrow> int" where
  "flow_budget f g = 1000 * (cur_funnel_vol g - cur_funnel_vol f) +
     kActiveSpeed * (uint (time_lastflow_computer g) - uint (time_lastflow_computer f))"

lemma flow_budget_trans: "flow_budget f g + flow_budget g h = flow_budget f h"
  by (simp add: flow_budget_def algebra_simps)

lemma FlashCurVol_budget:
  "flow_inv f \<Longrightarrow> fresh_clock now f \<Longrightarrow> 0 \<le> flow_budget f (FlashCurVol now f)"
  using FlashCurVol_inv(2) [of f now] by (simp add: flow_budget_def algebra_simps)

lemma FlowLimit_Check_budget:
  assumes "flow_inv f" "flow_adm (now, t, len) f"
  shows "1000 * (if fst (FlowLimit_Check now t len f) \<and> limit_flow t then len else 0)
         \<le> flow_budget f (snd (FlowLimit_Check now t len f))"
proof (cases "limit_flow t")
  case True
  have a: "fresh_clock now f" "0 \<le> len" "len \<le> 2 ^ 31 - 1 - kMaxVol"
    using assms(2) by (simp_all add: flow_adm_def)
  show ?thesis
    using FlashCurVol_budget [OF assms(1) a(1)] True
    by (simp add: FlowLimit_Check_spec [OF assms(1) a True] Let_def flow_budget_def)
qed (simp add: FlowLimit_Check_exempt flow_budget_def)

lemma FlowLimit_Active_budget:
  assumes "flow_inv f" "fresh_clock now f"
  shows "0 \<le> flow_budget f (FlowLimit_Active now b f) +
              1000 * (kMaxVol - kInactiveMinvol) * (if b then 0 else 1)"
  using FlashCurVol_budget [OF assms] FlashCurVol_inv(1) [OF assms]
  by (auto simp: FlowLimit_Active_def Let_def flow_budget_def flow_inv_def kMaxVol_def kInactiveMinvol_def)

lemma flow_history_budget:
  "flow_inv f \<Longrightarrow> flow_history_ok es f \<Longrightarrow> flow_history es f = (n, k, g) \<Longrightarrow>
     flow_inv g \<and> 1000 * n \<le> flow_budget f g + 1000 * (kMaxVol - kInactiveMinvol) * k"
proof (induction es arbitrary: f n k g)
  case Nil
  then show ?case by (simp add: flow_budget_def)
next
  case (Cons e es)
  show ?case
  proof (cases e)
    case (FCheck now t len)
    obtain ok f1 where c: "FlowLimit_Check now t len f = (ok, f1)" by force
    obtain n' k' g' where h: "flow_history es f1 = (n', k', g')" by (cases "flow_history es f1") auto
    have adm: "flow_adm (now, t, len) f" and ok': "flow_history_ok es f1"
      using Cons.prems(2) FCheck c by simp_all
    have "flow_inv f1"
      using FlowLimit_Check_inv [of f now len t] Cons.prems(1) adm c by (simp add: flow_adm_def)
    from Cons.IH [OF this ok' h] FlowLimit_Check_budget [OF Cons.prems(1) adm]
      flow_budget_trans [of f f1 g']
    show ?thesis using Cons.prems(3) FCheck c h by (simp add: algebra_simps)
  next
    case (FActive now b)
    let ?f1 = "FlowLimit_Active now b f"
    obtain n' k' g' where h: "flow_history es ?f1 = (n', k', g')" by (cases "flow_history es ?f1") auto
    have fr: "fresh_clock now f" and ok': "flow_history_ok es ?f1"
      using Cons.prems(2) FActive by simp_all
    from Cons.IH [OF FlowLimit_Active_inv [OF Cons.prems(1) fr] ok' h]
      FlowLimit_Active_budget [OF Cons.prems(1) fr, of b] flow_budget_trans [of f ?f1 g']
    show ?thesis using Cons.prems(3) FActive h by (auto simp: algebra_simps)
  qed
qed


section \<open>The repetition counter\<close>

definition freq_inv :: "FrequencyLimit \<Rightarrow> bool" where
  "freq_inv f \<longleftrightarrow> length (iarr_record f) \<le> MAX_RECORD_COUNT \<and>
     distinct (map rec_hash (iarr_record f)) \<and> (\<forall>r \<in> set (iarr_record f). 1 \<le> rec_count r)"

text \<open>The count a hash stands at: zero when it has no record.\<close>

definition seen :: "u64 \<Rightarrow> STAvalancheRecord list \<Rightarrow> int" where
  "seen h rs = (case find (\<lambda>r. rec_hash r = h) rs of None \<Rightarrow> 0 | Some r \<Rightarrow> rec_count r)"

lemma LocateIndex_Some:
  "LocateIndex h rs = Some i \<Longrightarrow> i < length rs \<and> rec_hash (rs ! i) = h"
  by (auto simp: LocateIndex_def find_Some_iff rev_nth)

lemma LocateIndex_None: "LocateIndex h rs = None \<Longrightarrow> h \<notin> rec_hash ` set rs"
  by (auto simp: LocateIndex_def find_None_iff in_set_conv_nth)

lemma oldest_fold:
  assumes "d < length rs" "set is \<subseteq> {..<length rs}"
  defines "r \<equiv> foldl (\<lambda>d i. if time_last_update (rs ! i) < time_last_update (rs ! d) then i else d) d is"
  shows "r < length rs \<and> (\<forall>i \<in> insert d (set is). time_last_update (rs ! r) \<le> time_last_update (rs ! i))"
  using assms(1,2) unfolding r_def
proof (induction "is" arbitrary: d)
  case (Cons i "is")
  let ?d = "if time_last_update (rs ! i) < time_last_update (rs ! d) then i else d"
  have "?d < length rs" "set is \<subseteq> {..<length rs}" using Cons.prems by auto
  from Cons.IH [OF this] show ?case by (auto split: if_splits)
qed simp

lemma oldest_index_min:
  assumes "rs \<noteq> []"
  shows "oldest_index rs < length rs"
    and "\<forall>r \<in> set rs. time_last_update (rs ! oldest_index rs) \<le> time_last_update r"
proof -
  have r: "insert 0 (set [1..<length rs]) = {..<length rs}" using assms by (cases rs) auto
  have *: "oldest_index rs < length rs \<and> (\<forall>i \<in> insert 0 (set [1..<length rs]).
      time_last_update (rs ! oldest_index rs) \<le> time_last_update (rs ! i))"
    unfolding oldest_index_def using assms by (intro oldest_fold) auto
  show "oldest_index rs < length rs" using * by simp
  show "\<forall>r \<in> set rs. time_last_update (rs ! oldest_index rs) \<le> time_last_update r"
    using * unfolding r by (auto simp: in_set_conv_nth)
qed

lemma InsertRecord_inv:
  assumes "freq_inv f" "h \<notin> rec_hash ` set (iarr_record f)"
  shows "freq_inv (f\<lparr>iarr_record := InsertRecord now h (iarr_record f)\<rparr>)"
proof -
  let ?rs = "iarr_record f"
  let ?rs' = "if length ?rs = MAX_RECORD_COUNT
              then take (oldest_index ?rs) ?rs @ drop (Suc (oldest_index ?rs)) ?rs else ?rs"
  have sub: "set ?rs' \<subseteq> set ?rs" by (auto dest: in_set_takeD in_set_dropD)
  have len: "length ?rs' < MAX_RECORD_COUNT"
    using assms(1) oldest_index_min(1) [of ?rs]
    by (cases "?rs = []") (auto simp: freq_inv_def MAX_RECORD_COUNT_def)
  have "distinct (map rec_hash (take k ?rs @ drop (Suc k) ?rs))" for k
    using assms(1) set_take_disj_set_drop_if_distinct [of "map rec_hash ?rs" k "Suc k"]
    by (auto simp: freq_inv_def take_map [symmetric] drop_map [symmetric] distinct_append
        simp del: set_map)
  then have d: "distinct (map rec_hash ?rs')" using assms(1) by (auto simp: freq_inv_def)
  have "InsertRecord now h ?rs = ?rs' @ [\<lparr>rec_hash = h, rec_count = 1, time_last_update = now\<rparr>]"
    using assms(1) by (simp add: InsertRecord_def freq_inv_def)
  then show ?thesis using assms sub len d by (auto simp: freq_inv_def)
qed

lemma UpdateRecord_inv:
  assumes "freq_inv f" "i < length (iarr_record f)"
  shows "freq_inv (f\<lparr>iarr_record := UpdateRecord now i (iarr_record f)\<rparr>)"
proof -
  have "map rec_hash (UpdateRecord now i (iarr_record f)) = map rec_hash (iarr_record f)"
    using assms(2) list_update_id [of "map rec_hash (iarr_record f)" i]
    by (simp add: UpdateRecord_def map_update)
  moreover have "0 \<le> rec_count (iarr_record f ! i)"
    using assms unfolding freq_inv_def by (metis nth_mem order_trans zero_le_one)
  ultimately show ?thesis
    using assms by (auto simp: freq_inv_def UpdateRecord_def dest!: set_update_subset_insert [THEN subsetD])
qed

lemma ClearRecord_inv:
  assumes "freq_inv f"
  shows "freq_inv (f\<lparr>itime_record_clear := t, iarr_record := ClearRecord now (iarr_record f)\<rparr>)"
proof -
  let ?rs = "iarr_record f" and ?cs = "ClearRecord now (iarr_record f)"
  have "map rec_hash ?cs = map rec_hash (filter (keep_record now) ?rs)" by (simp add: ClearRecord_def)
  then have "distinct (map rec_hash ?cs)" using assms by (simp add: freq_inv_def distinct_map_filter)
  moreover have "length ?cs \<le> length ?rs" by (simp add: ClearRecord_def)
  moreover have "\<forall>r \<in> set ?cs. 1 \<le> rec_count r"
    using assms by (auto simp: freq_inv_def ClearRecord_def NOT_CLEAR_INTERCEPT_COUNT_RETRY_def)
  ultimately show ?thesis using assms by (simp add: freq_inv_def)
qed

lemma FrequencyLimit_Check_inv:
  assumes "freq_inv f"
  shows "freq_inv (snd (snd (FrequencyLimit_Check t1 t2 t3 t4 t h span f)))"
proof -
  define f1 where "f1 = (if RUN_CLEAR_RECORDS_INTERVAL_MINUTE \<le> t1 - itime_record_clear f
      then f\<lparr>itime_record_clear := t1, iarr_record := ClearRecord t2 (iarr_record f)\<rparr> else f)"
  have i: "freq_inv f1" using ClearRecord_inv [OF assms, of t2 t1] assms by (simp add: f1_def)
  show ?thesis
    unfolding FrequencyLimit_Check_def f1_def [symmetric]
    using assms UpdateRecord_inv [OF i] InsertRecord_inv [OF i]
    by (auto simp: Let_def split: option.split dest: LocateIndex_Some LocateIndex_None)
qed


interpretation freq: limiter freq_inv "\<lambda>_ _. True" "\<lambda>(t1, t2, t3, t4, t, h). \<not> limit_frequency t"
    "\<lambda>(t1, t2, t3, t4, t, h) f. case FrequencyLimit_Check t1 t2 t3 t4 t h 0 f of (ok, sp, g) \<Rightarrow> (ok, g)"
proof (unfold_locales, goal_cases)
  case (1 s q)
  obtain t1 t2 t3 t4 t h where q: "q = (t1, t2, t3, t4, t, h)" by (cases q) auto
  show ?case using FrequencyLimit_Check_inv [OF 1(1), of t1 t2 t3 t4 t h 0]
    by (auto simp: q split: prod.splits)
next
  case (2 q s)
  then show ?case by (cases q) (simp add: FrequencyLimit_Check_def)
qed

text \<open>What a check does to the counts when no clearing is due: the hash of the request goes up
  by one, the request passes while the new count is within the limit.\<close>

lemma find_update_hash:
  assumes "distinct (map rec_hash rs)" "i < length rs" "rec_hash r = rec_hash (rs ! i)"
  shows "find (\<lambda>r. rec_hash r = rec_hash (rs ! i)) (rs[i := r]) = Some r"
  using assms
proof (induction rs arbitrary: i)
  case (Cons a rs)
  show ?case
  proof (cases i)
    case (Suc j)
    then have "rec_hash a \<noteq> rec_hash (rs ! j)" using Cons.prems nth_mem [of j rs] by force
    then show ?thesis using Cons Suc by simp
  qed (use Cons.prems in simp)
qed simp

lemma seen_at:
  assumes "distinct (map rec_hash rs)" "i < length rs" "rec_hash (rs ! i) = h"
  shows "seen h rs = rec_count (rs ! i)"
  using find_update_hash [OF assms(1,2) refl] assms(3) by (simp add: seen_def)

lemma seen_notin: "h \<notin> rec_hash ` set rs \<Longrightarrow> seen h rs = 0"
proof -
  assume "h \<notin> rec_hash ` set rs"
  then have "find (\<lambda>r. rec_hash r = h) rs = None" by (auto simp: find_None_iff)
  then show ?thesis by (simp add: seen_def)
qed

lemma FrequencyLimit_Check_count:
  assumes inv: "freq_inv f" and lim: "limit_frequency t"
    and quiet: "t1 - itime_record_clear f < RUN_CLEAR_RECORDS_INTERVAL_MINUTE"
    and c: "FrequencyLimit_Check t1 t2 t3 t4 t h span f = (ok, span', g)"
  shows "ok \<longleftrightarrow> seen h (iarr_record f) + 1 \<le> RECORD_INTERCEPT_COUNT"
    and "seen h (iarr_record g) = seen h (iarr_record f) + 1"
    and "itime_record_clear g = itime_record_clear f"
proof -
  let ?rs = "iarr_record f"
  have d: "distinct (map rec_hash ?rs)" using inv by (simp add: freq_inv_def)
  have nq: "\<not> RUN_CLEAR_RECORDS_INTERVAL_MINUTE \<le> t1 - itime_record_clear f"
    using quiet by (simp only: not_le)
  have "(ok \<longleftrightarrow> seen h ?rs + 1 \<le> RECORD_INTERCEPT_COUNT) \<and> seen h (iarr_record g) = seen h ?rs + 1
      \<and> itime_record_clear g = itime_record_clear f"
  proof (cases "LocateIndex h ?rs")
    case None
    then have n: "h \<notin> rec_hash ` set ?rs" by (rule LocateIndex_None)
    have g: "g = f\<lparr>iarr_record := InsertRecord t4 h ?rs\<rparr>" "ok"
      using c lim nq None by (auto simp: FrequencyLimit_Check_def Let_def)
    have gi: "distinct (map rec_hash (iarr_record g))"
      using InsertRecord_inv [OF inv n, of t4] g by (simp add: freq_inv_def)
    obtain rs' where rs': "iarr_record g = rs' @ [\<lparr>rec_hash = h, rec_count = 1, time_last_update = t4\<rparr>]"
      using inv g by (auto simp: InsertRecord_def freq_inv_def Let_def)
    have "seen h (iarr_record g) = 1"
      using seen_at [OF gi, of "length rs'" h] by (simp add: rs')
    then show ?thesis using g n by (simp add: seen_notin RECORD_INTERCEPT_COUNT_def)
  next
    case (Some i)
    then have i: "i < length ?rs" "rec_hash (?rs ! i) = h" using LocateIndex_Some by auto
    have g: "g = f\<lparr>iarr_record := UpdateRecord t4 i ?rs\<rparr>" "ok = CheckRecord i (UpdateRecord t4 i ?rs)"
      using c lim nq Some by (auto simp: FrequencyLimit_Check_def Let_def)
    have gi: "distinct (map rec_hash (iarr_record g))"
      using UpdateRecord_inv [OF inv i(1), of t4] g by (simp add: freq_inv_def)
    have "seen h (iarr_record g) = seen h ?rs + 1"
      using seen_at [OF gi, of i h] seen_at [OF d i] i g by (simp add: UpdateRecord_def)
    then show ?thesis using g i seen_at [OF d i] by (simp add: CheckRecord_def UpdateRecord_def)
  qed
  then show "ok \<longleftrightarrow> seen h ?rs + 1 \<le> RECORD_INTERCEPT_COUNT"
    "seen h (iarr_record g) = seen h ?rs + 1" "itime_record_clear g = itime_record_clear f" by simp_all
qed

text \<open>The verdicts on the same buffer sent again and again, each with its four clock readings.\<close>

fun repeat_verdicts :: "Task \<Rightarrow> u64 \<Rightarrow> (u64 \<times> u64 \<times> u64 \<times> u64) list \<Rightarrow> FrequencyLimit \<Rightarrow> bool list" where
  "repeat_verdicts t h [] f = []"
| "repeat_verdicts t h ((t1, t2, t3, t4) # cs) f =
     (case FrequencyLimit_Check t1 t2 t3 t4 t h 0 f of
        (ok, sp, g) \<Rightarrow> ok # repeat_verdicts t h cs g)"

lemma repeat_verdicts_from:
  assumes "freq_inv f" "limit_frequency t"
    "\<forall>c \<in> set cs. fst c - itime_record_clear f < RUN_CLEAR_RECORDS_INTERVAL_MINUTE"
  shows "repeat_verdicts t h cs f =
    map (\<lambda>k. seen h (iarr_record f) + 1 + int k \<le> RECORD_INTERCEPT_COUNT) [0..<length cs]"
  using assms(1,3)
proof (induction cs arbitrary: f)
  case (Cons c cs)
  obtain t1 t2 t3 t4 where c: "c = (t1, t2, t3, t4)" by (cases c) auto
  obtain ok sp g where g: "FrequencyLimit_Check t1 t2 t3 t4 t h 0 f = (ok, sp, g)"
    by (cases "FrequencyLimit_Check t1 t2 t3 t4 t h 0 f") auto
  have q: "t1 - itime_record_clear f < RUN_CLEAR_RECORDS_INTERVAL_MINUTE" using Cons.prems c by simp
  note s = FrequencyLimit_Check_count [OF Cons.prems(1) assms(2) q g]
  have "freq_inv g" using FrequencyLimit_Check_inv [OF Cons.prems(1), of t1 t2 t3 t4 t h 0] g by simp
  from Cons.IH [OF this] Cons.prems(2) s(3)
  have "repeat_verdicts t h cs g =
      map (\<lambda>k. seen h (iarr_record g) + 1 + int k \<le> RECORD_INTERCEPT_COUNT) [0..<length cs]" by simp
  moreover have "[0..<length (c # cs)] = 0 # map Suc [0..<length cs]"
    by (simp add: upt_conv_Cons map_Suc_upt del: upt_Suc)
  ultimately show ?case using s by (simp add: c g algebra_simps del: upt_Suc)
qed simp


section \<open>The sliding window\<close>

text \<open>\<open>window_ok prev acc c\<close>: the admitted times \<open>acc\<close> end with the times the limiter still
  holds, the ones it has dropped are out of the window of the last call.\<close>

definition window_ok :: "u64 \<Rightarrow> u64 list \<Rightarrow> CommFrequencyLimit \<Rightarrow> bool" where
  "window_ok prev acc c \<longleftrightarrow> length (touch_times c) \<le> Suc (cf_count c) \<and>
     (\<exists>pre. acc = pre @ touch_times c \<and> (\<forall>x \<in> set pre. time_span c < prev - x)) \<and>
     (\<forall>x \<in> set acc. x \<le> prev) \<and>
     (\<forall>i. i + Suc (cf_count c) < length acc \<longrightarrow> time_span c < acc ! (i + Suc (cf_count c)) - acc ! i)"

lemma older_still:
  assumes "x \<le> prev" "prev \<le> (now :: u64)" "span < prev - x"
  shows "span < now - x"
proof -
  have "unat (prev - x) \<le> unat (now - x)"
    using assms(1,2) unat_diff_le [of x prev] unat_diff_le [of x now]
    by (simp add: word_le_nat_alt)
  then show ?thesis using assms(3) by (simp add: word_less_nat_alt)
qed

lemma window_admit:
  assumes w: "window_ok prev acc c" and le: "prev \<le> now"
    and split: "touch_times c = old @ ts" "length ts \<le> cf_count c"
    and old: "\<forall>x \<in> set old. time_span c < now - x"
  shows "window_ok now (acc @ [now]) (c\<lparr>touch_times := ts @ [now]\<rparr>)"
proof -
  let ?k = "Suc (cf_count c)"
  obtain pre where pre: "acc = pre @ touch_times c" "\<forall>x \<in> set pre. time_span c < prev - x"
    and b: "\<forall>x \<in> set acc. x \<le> prev"
    and gap: "\<forall>i. i + ?k < length acc \<longrightarrow> time_span c < acc ! (i + ?k) - acc ! i"
    using w by (auto simp: window_ok_def)
  have out: "\<forall>x \<in> set (pre @ old). time_span c < now - x"
    using older_still [OF _ le] pre b old by auto
  have acc: "acc = (pre @ old) @ ts" using pre(1) split(1) by simp
  have "time_span c < (acc @ [now]) ! (i + ?k) - (acc @ [now]) ! i" if "i + ?k < length (acc @ [now])" for i
  proof (cases "i + ?k < length acc")
    case True
    then show ?thesis using gap by (simp add: nth_append)
  next
    case False
    then have "i + ?k = length acc" "i < length (pre @ old)" using that split(2) acc by auto
    moreover have "acc ! i \<in> set (pre @ old)"
      using \<open>i < length (pre @ old)\<close> unfolding acc by (metis nth_append nth_mem)
    ultimately show ?thesis using out by (simp add: nth_append)
  qed
  then show ?thesis
    using split(2) out b le acc
    by (auto simp: window_ok_def intro!: exI [of _ "pre @ old"] intro: order_trans)
qed

lemma window_sorted_head:
  assumes "window_ok prev acc c" "prev \<le> now"
  shows "\<not> (touch_times c \<noteq> [] \<and> now < hd (touch_times c))"
proof
  assume a: "touch_times c \<noteq> [] \<and> now < hd (touch_times c)"
  then have "hd (touch_times c) \<in> set acc" using assms(1) by (auto simp: window_ok_def)
  then have "hd (touch_times c) \<le> prev" using assms(1) by (auto simp: window_ok_def)
  then show False using a assms(2) by (meson leD order_trans)
qed

lemma CommFrequencyLimit_Check_window:
  assumes w: "window_ok prev acc c" and le: "prev \<le> now"
    and r: "CommFrequencyLimit_Check now c = (ok, c')"
  shows "window_ok now (if ok then acc @ [now] else acc) c'"
    and "cf_count c' = cf_count c \<and> time_span c' = time_span c"
proof -
  let ?ts = "touch_times c"
  have len: "length ?ts \<le> Suc (cf_count c)" using w by (simp add: window_ok_def)
  have c: "(ok, c') = (if length ?ts \<le> cf_count c then (True, c\<lparr>touch_times := ?ts @ [now]\<rparr>)
         else if now - hd ?ts \<le> time_span c then (False, c)
         else (True, c\<lparr>touch_times := DelOlderTouchTime (time_span c) now ?ts @ [now]\<rparr>))"
    using r window_sorted_head [OF w le] by (auto simp: CommFrequencyLimit_Check_def Let_def)
  show "cf_count c' = cf_count c \<and> time_span c' = time_span c" using c by (simp split: if_splits)
  consider "length ?ts \<le> cf_count c"
    | "cf_count c < length ?ts" "now - hd ?ts \<le> time_span c"
    | "cf_count c < length ?ts" "time_span c < now - hd ?ts" by force
  then show "window_ok now (if ok then acc @ [now] else acc) c'"
  proof cases
    case 1
    then show ?thesis using c window_admit [OF w le, of "[]" ?ts] by simp
  next
    case 2
    then show ?thesis using c w le older_still [OF _ le]
      by (auto simp: window_ok_def intro: order_trans)
  next
    case 3
    let ?P = "\<lambda>x. time_span c < now - x"
    have "?ts \<noteq> []" "?P (hd ?ts)" using 3 by auto
    then have "length (dropWhile ?P ?ts) < length ?ts"
      by (cases ?ts) (auto simp: length_dropWhile_le less_Suc_eq_le)
    then have "length (dropWhile ?P ?ts) \<le> cf_count c" using len by simp
    then have "window_ok now (acc @ [now]) (c\<lparr>touch_times := dropWhile ?P ?ts @ [now]\<rparr>)"
      by (intro window_admit [OF w le, of "takeWhile ?P ?ts"]) (auto dest: set_takeWhileD)
    moreover have "\<not> now - hd ?ts \<le> time_span c" using 3(2) by (simp only: not_le)
    ultimately show ?thesis using c 3(1) by (simp add: DelOlderTouchTime_def)
  qed
qed

fun admitted :: "u64 list \<Rightarrow> CommFrequencyLimit \<Rightarrow> u64 list" where
  "admitted [] c = []"
| "admitted (now # ts) c =
     (case CommFrequencyLimit_Check now c of
        (ok, c') \<Rightarrow> if ok then now # admitted ts c' else admitted ts c')"

lemma admitted_window:
  "window_ok prev acc c \<Longrightarrow> sorted_wrt (\<le>) (prev # ts) \<Longrightarrow>
     \<exists>prev' c'. window_ok prev' (acc @ admitted ts c) c' \<and> cf_count c' = cf_count c \<and> time_span c' = time_span c"
proof (induction ts arbitrary: prev acc c)
  case (Cons now ts)
  obtain ok c' where r: "CommFrequencyLimit_Check now c = (ok, c')" by force
  have "prev \<le> now" "sorted_wrt (\<le>) (now # ts)" using Cons.prems(2) by simp_all
  note s = CommFrequencyLimit_Check_window [OF Cons.prems(1) this(1) r]
  from Cons.IH [OF s(1) \<open>sorted_wrt (\<le>) (now # ts)\<close>] s(2) show ?case
    by (cases ok) (simp_all add: r)
qed auto


section \<open>Both limits together\<close>

definition aa_inv :: "AntiAvalanche \<Rightarrow> bool" where
  "aa_inv a \<longleftrightarrow> freq_inv (aa_frequency_limit a) \<and> flow_inv (aa_flow_limit a)"

lemma AntiAvalanche_Check_inv:
  assumes "aa_inv a" "net = kMobile \<Longrightarrow> flow_adm (t5, t, len) (aa_flow_limit a)"
  shows "aa_inv (snd (snd (AntiAvalanche_Check t1 t2 t3 t4 t5 net t h len a)))"
proof -
  obtain ok span fq where q: "FrequencyLimit_Check t1 t2 t3 t4 t h 0 (aa_frequency_limit a) = (ok, span, fq)"
    by (cases "FrequencyLimit_Check t1 t2 t3 t4 t h 0 (aa_frequency_limit a)") auto
  obtain ok' fl where l: "FlowLimit_Check t5 t len (aa_flow_limit a) = (ok', fl)" by force
  have "freq_inv fq"
    using FrequencyLimit_Check_inv [of "aa_frequency_limit a" t1 t2 t3 t4 t h 0] assms(1) q
    by (simp add: aa_inv_def)
  moreover have "flow_inv fl" if "net = kMobile"
    using flow.check_invar [OF _ assms(2) [OF that]] assms(1) l by (simp add: aa_inv_def flow_check_def)
  ultimately show ?thesis
    using assms(1) by (auto simp: AntiAvalanche_Check_def q l aa_inv_def Let_def)
qed

interpretation aa: limiter aa_inv
    "\<lambda>(t1, t2, t3, t4, t5, net, t, h, len) a. flow_adm (t5, t, len) (aa_flow_limit a)"
    "\<lambda>(t1, t2, t3, t4, t5, net, t, h, len). \<not> limit_frequency t \<and> \<not> limit_flow t"
    "\<lambda>(t1, t2, t3, t4, t5, net, t, h, len) a.
       case AntiAvalanche_Check t1 t2 t3 t4 t5 net t h len a of (ok, rep, b) \<Rightarrow> (ok, b)"
proof (unfold_locales, goal_cases)
  case (1 s q)
  obtain t1 t2 t3 t4 t5 net t h len where q: "q = (t1, t2, t3, t4, t5, net, t, h, len)" by (cases q) auto
  show ?case using AntiAvalanche_Check_inv [OF 1(1), of net t5 t len t1 t2 t3 t4 h] 1(2)
    by (auto simp: q split: prod.splits)
next
  case (2 q s)
  then show ?case
    by (cases q) (auto simp: AntiAvalanche_Check_def FrequencyLimit_Check_def FlowLimit_Check_exempt)
qed

section \<open>Properties\<close>

text \<open>C14. The funnel bounds the traffic: over any history of checks and activity switches, the
  bytes of the limited tasks that pass are at most the free room of the funnel plus 2330 bytes
  for every second between the first and the last drain plus two megabytes for every switch to
  the inactive state; the funnel stays within its bounds.\<close>

theorem flow_rate_bound:
  assumes "flow_inv f" "flow_history_ok es f" "flow_history es f = (n, k, g)"
  shows "flow_inv g \<and>
    1000 * n \<le> 1000 * (kMaxVol - cur_funnel_vol f)
       + kActiveSpeed * (uint (time_lastflow_computer g) - uint (time_lastflow_computer f))
       + 1000 * (kMaxVol - kInactiveMinvol) * k"
  using flow_history_budget [OF assms] by (simp add: flow_budget_def flow_inv_def)

definition limited_task :: Task where
  "limited_task = (Task_new 7)\<lparr>limit_flow := True, limit_frequency := True\<rparr>"

definition sample_history :: "flow_event list" where
  "sample_history = [FCheck 1000 limited_task 8000000, FCheck 2000 limited_task 1000000,
     FActive 3000 False, FCheck 4000 limited_task 1000000]"

theorem flow_rate_bound_witness:
  "1000 * 9000000 \<le> 1000 * (kMaxVol - 0) + kActiveSpeed * (4000 - 0) + 1000 * (kMaxVol - kInactiveMinvol) * 1"
proof -
  let ?f = "FlowLimit_new 0 True"
  let ?g = "(FlowLimit_new 4000 False)\<lparr>cur_funnel_vol := 7290874\<rparr>"
  have "flow_inv ?f" by (simp add: flow_inv_def FlowLimit_new_def flow_consts)
  moreover have "flow_history_ok sample_history ?f" by code_simp
  moreover have "flow_history sample_history ?f = (9000000, 1, ?g)" by code_simp
  ultimately have "1000 * 9000000 \<le> 1000 * (kMaxVol - cur_funnel_vol ?f)
       + kActiveSpeed * (uint (time_lastflow_computer ?g) - uint (time_lastflow_computer ?f))
       + 1000 * (kMaxVol - kInactiveMinvol) * 1"
    using flow_rate_bound [of ?f sample_history 9000000 1 ?g] by blast
  then show ?thesis by (simp add: FlowLimit_new_def)
qed

text \<open>The funnel jams when it has been idle for long: 921684 seconds (ten days and sixteen
  hours) after the last drain at active speed the drained amount no longer fits the \<open>int\<close> it is
  converted to, the empty funnel reads as over-full and every limited task of up to
  32 kilobytes is refused.\<close>

theorem flow_idle_jam:
  assumes "limit_flow t" "0 \<le> len" "len \<le> 32 * 1024"
  shows "\<not> fst (FlowLimit_Check 921684000 t len (FlowLimit_new 0 True))"
proof -
  have "cur_funnel_vol (FlashCurVol 921684000 (FlowLimit_new 0 True)) = 2147443576"
    by (simp add: FlashCurVol_def FlowLimit_new_def kActiveSpeed_def s32_def)
  moreover have "s32 (2147443576 + len) = 2147443576 + len"
    using assms(2,3) by (intro s32_id) simp_all
  ultimately show ?thesis using assms(1,2) by (simp add: FlowLimit_Check_def Let_def kMaxVol_def)
qed

theorem flow_idle_jam_witness:
  "limit_flow limited_task \<and> \<not> fst (FlowLimit_Check 921684000 limited_task 1 (FlowLimit_new 0 True))"
  using flow_idle_jam [of limited_task 1] by (simp add: limited_task_def)


text \<open>A buffer that is sent again and again passes exactly the first 105 times: while no
  clearing of the records is due, the \<open>k\<close>-th repetition (from 0) of a request whose hash has no
  record yet passes iff \<open>k < 105\<close>, whatever the clock readings are.\<close>

theorem frequency_limit_105:
  assumes "freq_inv f" "limit_frequency t" "h \<notin> rec_hash ` set (iarr_record f)"
    "\<forall>c \<in> set cs. fst c - itime_record_clear f < RUN_CLEAR_RECORDS_INTERVAL_MINUTE"
  shows "repeat_verdicts t h cs f = map (\<lambda>k. k < 105) [0..<length cs]"
  using repeat_verdicts_from [OF assms(1,2,4), of h] seen_notin [OF assms(3)]
  by (auto simp: RECORD_INTERCEPT_COUNT_def)

theorem frequency_limit_105_witness:
  "repeat_verdicts limited_task 5 (replicate 107 (10, 10, 10, 10)) (FrequencyLimit_new 0)
     = replicate 105 True @ [False, False]"
proof -
  have "repeat_verdicts limited_task 5 (replicate 107 (10, 10, 10, 10)) (FrequencyLimit_new 0)
      = map (\<lambda>k. k < 105) [0..<length (replicate 107 (10 :: u64, 10 :: u64, 10 :: u64, 10 :: u64))]"
    by (rule frequency_limit_105)
      (simp_all add: FrequencyLimit_new_def freq_inv_def limited_task_def freq_consts)
  also have "\<dots> = map (\<lambda>k. k < 105) [0..<105] @ map (\<lambda>k. k < 105) [105, 106 :: nat]"
    using upt_add_eq_append [of 0 105 2] by (simp add: upt_rec [of 105 107] upt_rec [of 106 107])
  also have "map (\<lambda>k. k < 105) [0..<105] = replicate 105 True"
    by (rule nth_equalityI) simp_all
  finally show ?thesis by simp
qed

text \<open>The records of the repetition counter stay bounded: at most thirty of them, no hash
  twice, every count positive, after any sequence of checks with any clock readings.\<close>

theorem frequency_limit_bounded:
  "let f = freq.run qs (FrequencyLimit_new now)
   in freq_inv f \<and> length (iarr_record f) \<le> 30"
proof -
  have "freq.adm_run qs f" for f by (induction qs arbitrary: f) simp_all
  moreover have "freq_inv (FrequencyLimit_new now)" by (simp add: freq_inv_def FrequencyLimit_new_def)
  ultimately have "freq_inv (freq.run qs (FrequencyLimit_new now))" by (intro freq.run_invar)
  then show ?thesis by (simp add: Let_def freq_inv_def MAX_RECORD_COUNT_def)
qed

text \<open>The sliding window of \<open>CommFrequencyLimit\<close>: with a clock that does not go back, of
  the admitted calls any two that are \<open>count + 1\<close> places apart are more than the time span
  apart, so no window of the time span holds more than \<open>count + 1\<close> admitted calls.\<close>

theorem comm_frequency_window:
  assumes "touch_times c = []" "sorted_wrt (\<le>) ts"
    "i + Suc (cf_count c) < length (admitted ts c)"
  shows "time_span c < admitted ts c ! (i + Suc (cf_count c)) - admitted ts c ! i"
proof -
  have "window_ok 0 [] c" using assms(1) by (simp add: window_ok_def)
  from admitted_window [OF this, of ts] assms(2,3) show ?thesis
    by (fastforce simp: window_ok_def)
qed

theorem comm_frequency_window_witness:
  "admitted [1, 2, 3, 20, 21, 22] \<lparr>cf_count = 1, time_span = 10, touch_times = []\<rparr> = [1, 2, 20, 21] \<and>
   (10 :: u64) < 20 - 1"
proof -
  let ?c = "\<lparr>cf_count = 1, time_span = 10, touch_times = []\<rparr>"
  have a: "admitted [1, 2, 3, 20, 21, 22] ?c = [1, 2, 20, 21]" by code_simp
  have "time_span ?c < admitted [1, 2, 3, 20, 21, 22] ?c ! (0 + Suc (cf_count ?c))
      - admitted [1, 2, 3, 20, 21, 22] ?c ! 0"
    by (rule comm_frequency_window) (simp_all only: a, simp_all)
  then show ?thesis using a by simp
qed

text \<open>A task passes the avalanche check exactly when the repetition counter lets it pass and,
  on a mobile network, the funnel too; a refusal is reported with the limit that caused it and
  a task that passes is not reported; the funnel is charged only on a mobile network.\<close>

theorem anti_avalanche_verdict:
  "case AntiAvalanche_Check t1 t2 t3 t4 t5 net t h len a of (ok, rep, b) \<Rightarrow>
     (ok \<longleftrightarrow> fst (FrequencyLimit_Check t1 t2 t3 t4 t h 0 (aa_frequency_limit a)) \<and>
            (if net = kMobile then fst (FlowLimit_Check t5 t len (aa_flow_limit a)) else True)) \<and>
     (ok = (rep = None)) \<and>
     (map_option fst rep = Some kFrequencyLimit \<longleftrightarrow>
        \<not> fst (FrequencyLimit_Check t1 t2 t3 t4 t h 0 (aa_frequency_limit a))) \<and>
     (aa_flow_limit b = (if rep = None \<and> net = kMobile \<or> map_option fst rep = Some kFlowLimit
        then snd (FlowLimit_Check t5 t len (aa_flow_limit a)) else aa_flow_limit a))"
  by (auto simp: AntiAvalanche_Check_def Let_def FlowLimit_Check_exempt split: prod.splits)

end
