(* ===== verification/Net_Core.thy ===== *)
theory Net_Core
  imports Longlink_Task_Manager Shortlink_Task_Manager Zombie_Task_Manager Dynamic_Timeout Anti_Avalanche
begin

text \<open>
  stn/src/net_core.cc: the network core owns the three task managers, the dynamic timeout and the
  avalanche check, and wires them together. \<open>app_env\<close> holds what is outside of it: the callbacks
  of the application (stn/stn_logic.h), the long link and its connect monitor, the short link
  workers, the network source and the network check; they act on a state \<open>'x\<close> of their own.
  \<open>World\<close> is the state the callbacks of the managers work on. \<open>nw_left\<close> records how each task
  left the library, in the order of the calls; \<open>nw_posted\<close> is the queue of \<open>StartTask\<close>
  messages (\<open>ASYNC_BLOCK_START\<close> always posts); \<open>nw_now\<close> is the clock, which is read once per
  message.
\<close>

section \<open>Outside of the network core\<close>

datatype NetStatus =
    kNetworkUnkown | kNetworkUnavailable | kGateWayFailed | kServerFailed | kNetConnecting
  | kNetConnected | kServerDown

datatype call_from = kCallFromLong | kCallFromShort | kCallFromZombie

record 'x app_env =
  app_MakesureAuthed :: "'x \<Rightarrow> bool \<times> 'x"
  app_Req2Buf :: "u32 \<Rightarrow> nat \<Rightarrow> int \<Rightarrow> bytes \<Rightarrow> bytes \<Rightarrow> 'x \<Rightarrow> (bool \<times> bytes \<times> bytes \<times> int) \<times> 'x"
  app_Buf2Resp :: "u32 \<Rightarrow> nat \<Rightarrow> bytes \<Rightarrow> bytes \<Rightarrow> int \<Rightarrow> 'x \<Rightarrow> (int \<times> int) \<times> 'x"
  app_ReportTask :: "TaskProfile \<Rightarrow> 'x \<Rightarrow> 'x"
  app_OnPkgEvent :: "bool \<Rightarrow> int \<Rightarrow> 'x \<Rightarrow> 'x"
  app_OnTaskEnd :: "u32 \<Rightarrow> nat \<Rightarrow> ErrCmdType \<Rightarrow> int \<Rightarrow> 'x \<Rightarrow> int \<times> 'x"
  app_OnPush :: "u64 \<Rightarrow> u32 \<Rightarrow> u32 \<Rightarrow> bytes \<Rightarrow> bytes \<Rightarrow> 'x \<Rightarrow> 'x"
  app_OnLongLinkNetworkError :: "u32 \<Rightarrow> ErrCmdType \<Rightarrow> int \<Rightarrow> string \<Rightarrow> u16 \<Rightarrow> 'x \<Rightarrow> 'x"
  app_OnShortLinkNetworkError :: "u32 \<Rightarrow> ErrCmdType \<Rightarrow> int \<Rightarrow> string \<Rightarrow> string \<Rightarrow> u16 \<Rightarrow> 'x \<Rightarrow> 'x"
  app_ReportLongIP :: "bool \<Rightarrow> string \<Rightarrow> u16 \<Rightarrow> 'x \<Rightarrow> 'x"
  app_ReportShortIP :: "bool \<Rightarrow> string \<Rightarrow> string \<Rightarrow> u16 \<Rightarrow> 'x \<Rightarrow> 'x"
  app_ReportConnectStatus :: "NetStatus \<Rightarrow> NetStatus \<Rightarrow> 'x \<Rightarrow> 'x"
  app_OnLongLinkStatusChange :: "TLongLinkStatus \<Rightarrow> 'x \<Rightarrow> 'x"
  app_ResetSources :: "'x \<Rightarrow> 'x"
  app_NetworkChange :: "'x \<Rightarrow> bool \<times> 'x"
  app_ll_Send :: "bytes \<Rightarrow> bytes \<Rightarrow> Task \<Rightarrow> 'x \<Rightarrow> nat \<times> 'x"
  app_ll_Stop :: "u32 \<Rightarrow> 'x \<Rightarrow> 'x"
  app_ll_Disconnect :: "TDisconnectInternalCode \<Rightarrow> 'x \<Rightarrow> 'x"
  app_ll_Profile :: "'x \<Rightarrow> ConnectProfile"
  app_ll_MakeSureConnected :: "'x \<Rightarrow> bool \<times> 'x"
  app_ll_CancelAsync :: "'x \<Rightarrow> 'x"
  app_ll_ConnectStatus :: "'x \<Rightarrow> TLongLinkStatus"
  app_sl_address :: "nat list \<Rightarrow> nat"
  app_sl_SendRequest :: "nat \<Rightarrow> bytes \<Rightarrow> bytes \<Rightarrow> 'x \<Rightarrow> 'x"
  app_sl_Profile :: "nat \<Rightarrow> 'x \<Rightarrow> ConnectProfile"
  app_NetInfo :: "'x \<Rightarrow> NetType"
  app_IsForeground :: "'x \<Rightarrow> bool"
  app_LastForegroundChangeTime :: "'x \<Rightarrow> u64"
  app_hash :: "bytes \<Rightarrow> u64"
  app_process_hook :: "Task \<Rightarrow> Task"
  app_callback_hook :: "call_from \<Rightarrow> ErrCmdType \<Rightarrow> int \<Rightarrow> int \<Rightarrow> Task \<Rightarrow> bool"

datatype task_exit = TaskEnd ErrCmdType int | HookReturned

record 'x World =
  nw_zombie :: ZombieTaskManager
  nw_dyn :: DynamicTimeout
  nw_aa :: AntiAvalanche
  nw_left :: "(u32 \<times> task_exit) list"
  nw_posted :: "Task list"
  nw_workers :: "nat list"
  nw_shortlink_error_count :: nat
  nw_shortlink_try_flag :: bool
  nw_now :: u64
  nw_ext :: 'x

record 'x NetCore =
  nc_long :: LongLinkTaskManager
  nc_short :: ShortLinkTaskManager
  nc_world :: "'x World"

text \<open>An outside function with a result, and one without.\<close>

definition ext1 :: "('x \<Rightarrow> 'r \<times> 'x) \<Rightarrow> 'x World \<Rightarrow> 'r \<times> 'x World" where
  "ext1 f w = (case f (nw_ext w) of (r, x) \<Rightarrow> (r, w\<lparr>nw_ext := x\<rparr>))"

definition ext0 :: "('x \<Rightarrow> 'x) \<Rightarrow> 'x World \<Rightarrow> 'x World" where
  "ext0 f w = w\<lparr>nw_ext := f (nw_ext w)\<rparr>"

section \<open>Callbacks of the managers\<close>

definition NC_OnTaskEnd ::
    "'x app_env \<Rightarrow> u32 \<Rightarrow> nat \<Rightarrow> ErrCmdType \<Rightarrow> int \<Rightarrow> 'x World \<Rightarrow> int \<times> 'x World" where
  "NC_OnTaskEnd app tid ctx et ec w =
     ext1 (app_OnTaskEnd app tid ctx et ec) (w\<lparr>nw_left := nw_left w @ [(tid, TaskEnd et ec)]\<rparr>)"

definition NC_CallBack ::
    "'x app_env \<Rightarrow> call_from \<Rightarrow> ErrCmdType \<Rightarrow> int \<Rightarrow> int \<Rightarrow> Task \<Rightarrow> u32 \<Rightarrow> 'x World \<Rightarrow> int \<times> 'x World" where
  "NC_CallBack app from et ec fh t cost w =
     (if app_callback_hook app from et ec fh t then
        (0, w\<lparr>nw_left := nw_left w @ [(taskid t, HookReturned)]\<rparr>)
      else if et = kEctOK \<or> fh = kTaskFailHandleTaskEnd then
        NC_OnTaskEnd app (taskid t) (user_context t) et ec w
      else if from = kCallFromZombie then NC_OnTaskEnd app (taskid t) (user_context t) et ec w
      else case Z_SaveTask (nw_now w) t cost (nw_zombie w) of
             (saved, z) \<Rightarrow>
               if \<not> saved then NC_OnTaskEnd app (taskid t) (user_context t) et ec (w\<lparr>nw_zombie := z\<rparr>)
               else (0, w\<lparr>nw_zombie := z\<rparr>))"

text \<open>The calls a pass of the zombie manager makes.\<close>

fun zombie_calls :: "'x app_env \<Rightarrow> zombie_event list \<Rightarrow> 'x World \<Rightarrow> 'x World" where
  "zombie_calls app [] w = w"
| "zombie_calls app (ZStart t # es) w = zombie_calls app es (w\<lparr>nw_posted := nw_posted w @ [t]\<rparr>)"
| "zombie_calls app (ZEnd t c # es) w =
     zombie_calls app es (snd (NC_CallBack app kCallFromZombie kEctLocal kEctLocalTaskTimeout
       kTaskFailHandleTaskEnd t c w))"

definition NC_zombie_redo :: "'x app_env \<Rightarrow> 'x World \<Rightarrow> 'x World" where
  "NC_zombie_redo app w =
     (case Z_RedoTasks (\<lambda>_. nw_now w) (nw_zombie w) of
        (es, z) \<Rightarrow> zombie_calls app es (w\<lparr>nw_zombie := z\<rparr>))"

definition NC_zombie_timer :: "'x app_env \<Rightarrow> 'x World \<Rightarrow> 'x World" where
  "NC_zombie_timer app w =
     (case Z_TimerChecker (nw_now w) (nw_zombie w) of
        (es, z) \<Rightarrow> zombie_calls app es (w\<lparr>nw_zombie := z\<rparr>))"

definition kShortlinkErrTime :: nat where "kShortlinkErrTime = 3"

text \<open>The two statuses reported for the state of the short link and of the long link; nothing is
  reported while the long link is disconnected.\<close>

definition short_status :: "NetStatus \<Rightarrow> bool \<Rightarrow> nat \<Rightarrow> NetStatus" where
  "short_status pending try_flag error_count =
     (if try_flag then
        (if error_count = 0 then kNetConnected
         else if kShortlinkErrTime \<le> error_count then kServerFailed else pending)
      else pending)"

definition conn_status :: "bool \<Rightarrow> nat \<Rightarrow> TLongLinkStatus \<Rightarrow> (NetStatus \<times> NetStatus) option" where
  "conn_status try_flag error_count longlink_connstatus =
     (case longlink_connstatus of
        kDisConnected \<Rightarrow> None
      | kConnectFailed \<Rightarrow> Some (short_status kNetworkUnkown try_flag error_count, kServerFailed)
      | kConnectIdle \<Rightarrow> Some (short_status kNetConnecting try_flag error_count, kNetConnecting)
      | kConnecting \<Rightarrow> Some (short_status kNetConnecting try_flag error_count, kNetConnecting)
      | kConnected \<Rightarrow> Some (kNetConnected, kNetConnected))"

definition NC_ConnStatusCallBack :: "'x app_env \<Rightarrow> 'x World \<Rightarrow> 'x World" where
  "NC_ConnStatusCallBack app w =
     (let longlink = app_ll_ConnectStatus app (nw_ext w)
      in case conn_status (nw_shortlink_try_flag w) (nw_shortlink_error_count w) longlink of
           None \<Rightarrow> w
         | Some (a, l) \<Rightarrow>
             ext0 (app_ReportConnectStatus app a l)
               (if longlink = kConnected
                then w\<lparr>nw_shortlink_error_count := 0, nw_shortlink_try_flag := False\<rparr> else w))"

definition NC_OnLongLinkNetworkError ::
    "'x app_env \<Rightarrow> u32 \<Rightarrow> ErrCmdType \<Rightarrow> int \<Rightarrow> string \<Rightarrow> string \<Rightarrow> u16 \<Rightarrow> 'x World \<Rightarrow> 'x World" where
  "NC_OnLongLinkNetworkError app fail_count et ec ip host port w =
     (let w1 = ext0 (app_OnLongLinkNetworkError app fail_count et ec ip port) w;
          w2 = (if et = kEctOK then NC_zombie_redo app w1 else w1)
      in if et \<in> {kEctDial, kEctHttp, kEctServer, kEctLocal} then w2
         else ext0 (app_ReportLongIP app (et = kEctOK) ip port) w2)"

definition NC_OnShortLinkNetworkError ::
    "'x app_env \<Rightarrow> u32 \<Rightarrow> ErrCmdType \<Rightarrow> int \<Rightarrow> string \<Rightarrow> string \<Rightarrow> u16 \<Rightarrow> 'x World \<Rightarrow> 'x World" where
  "NC_OnShortLinkNetworkError app fail_count et ec ip host port w =
     (let w1 = ext0 (app_OnShortLinkNetworkError app fail_count et ec ip host port) w;
          w2 = w1\<lparr>nw_shortlink_try_flag := True,
                  nw_shortlink_error_count := (if et = kEctOK then 0 else nw_shortlink_error_count w1 + 1)\<rparr>;
          w3 = NC_ConnStatusCallBack app w2;
          w4 = (if et = kEctOK then NC_zombie_redo app w3 else w3)
      in if et \<in> {kEctDial, kEctNetMsgXP, kEctServer, kEctLocal} then w4
         else ext0 (app_ReportShortIP app (et = kEctOK) ip host port) w4)"

definition NC_avalanche :: "'x app_env \<Rightarrow> Task \<Rightarrow> bytes \<Rightarrow> 'x World \<Rightarrow> bool \<times> 'x World" where
  "NC_avalanche app t buf w =
     (let n = nw_now w
      in case AntiAvalanche_Check n n n n n (app_NetInfo app (nw_ext w)) t (app_hash app buf)
                (s32 (int (length buf))) (nw_aa w) of
           (ok, rep, a) \<Rightarrow> (ok, w\<lparr>nw_aa := a\<rparr>))"

definition NC_statistic :: "'x app_env \<Rightarrow> string \<Rightarrow> u32 \<Rightarrow> u64 \<Rightarrow> 'x World \<Rightarrow> 'x World" where
  "NC_statistic app cgi_uri total_size cost_time w =
     (let n = nw_now w
      in w\<lparr>nw_dyn := CgiTaskStatistic n n n n (app_NetInfo app (nw_ext w)) total_size cost_time (nw_dyn w)\<rparr>)"

section \<open>Wiring\<close>

definition long_of :: "'x app_env \<Rightarrow> 'x World long_env" where
  "long_of app = \<lparr>
     MakesureAuthed = ext1 (app_MakesureAuthed app),
     Req2Buf = (\<lambda>i c ch buf ext. ext1 (app_Req2Buf app i c ch buf ext)),
     Buf2Resp = (\<lambda>i c buf ext ch. ext1 (app_Buf2Resp app i c buf ext ch)),
     ReportTask = (\<lambda>p. ext0 (app_ReportTask app p)),
     OnPkgEvent = (\<lambda>b n. ext0 (app_OnPkgEvent app b n)),
     fun_callback = NC_CallBack app kCallFromLong,
     fun_anti_avalanche_check = NC_avalanche app,
     fun_notify_network_err = NC_OnLongLinkNetworkError app,
     DynStatistic = NC_statistic app,
     DynGetStatus = (\<lambda>w. dyntime_status (nw_dyn w)),
     NetInfo = (\<lambda>w. app_NetInfo app (nw_ext w)),
     ll_Send = (\<lambda>buf ext t. ext1 (app_ll_Send app buf ext t)),
     ll_Stop = (\<lambda>i. ext0 (app_ll_Stop app i)),
     ll_Disconnect = (\<lambda>c. ext0 (app_ll_Disconnect app c)),
     ll_Profile = (\<lambda>w. app_ll_Profile app (nw_ext w)),
     ll_MakeSureConnected = ext1 (app_ll_MakeSureConnected app),
     ll_CancelAsync = ext0 (app_ll_CancelAsync app),
     fun_on_push = (\<lambda>ch cmd i buf ext. ext0 (app_OnPush app ch cmd i buf ext))\<rparr>"

text \<open>\<open>ShortLinkChannelFactory::Create\<close> and \<open>Destory\<close> (stn/src/net_channel_factory.cc) are
  \<open>new\<close> and \<open>delete\<close>: \<open>nw_workers\<close> lists the live workers and \<open>app_sl_address\<close> is the
  choice of the allocator. \<open>__OnShortLinkResponse\<close> only writes a log line.\<close>

definition short_of :: "'x app_env \<Rightarrow> 'x World short_env" where
  "short_of app = \<lparr>
     MakesureAuthed = ext1 (app_MakesureAuthed app),
     Req2Buf = (\<lambda>i c ch buf ext. ext1 (app_Req2Buf app i c ch buf ext)),
     Buf2Resp = (\<lambda>i c buf ext ch. ext1 (app_Buf2Resp app i c buf ext ch)),
     ReportTask = (\<lambda>p. ext0 (app_ReportTask app p)),
     OnPkgEvent = (\<lambda>b n. ext0 (app_OnPkgEvent app b n)),
     fun_callback = NC_CallBack app kCallFromShort,
     fun_anti_avalanche_check = NC_avalanche app,
     fun_notify_network_err = NC_OnShortLinkNetworkError app,
     DynStatistic = NC_statistic app,
     DynGetStatus = (\<lambda>w. dyntime_status (nw_dyn w)),
     NetInfo = (\<lambda>w. app_NetInfo app (nw_ext w)),
     sl_Create = (\<lambda>t proxy w. let a = app_sl_address app (nw_workers w)
                              in (a, w\<lparr>nw_workers := a # nw_workers w\<rparr>)),
     sl_SendRequest = (\<lambda>i buf ext. ext0 (app_sl_SendRequest app i buf ext)),
     sl_Destroy = (\<lambda>i w. w\<lparr>nw_workers := remove1 i (nw_workers w)\<rparr>),
     sl_Profile = (\<lambda>i w. app_sl_Profile app i (nw_ext w)),
     fun_shortlink_response = (\<lambda>c w. w)\<rparr>"


section \<open>Operations\<close>

definition DEF_TASK_RETRY_COUNT :: int where "DEF_TASK_RETRY_COUNT = 1"

definition ValidAndInitDefault :: "Task \<Rightarrow> Task option" where
  "ValidAndInitDefault t =
     (if 2*60*1000 < server_process_cost t then None
      else if 30 < retry_count t then None
      else if 10*60*1000 < total_timetout t then None
      else
        let t1 = (if channel_select t AND kChannelLong \<noteq> 0 \<and> cmdid t = 0
                  then t\<lparr>channel_select := channel_select t AND NOT kChannelLong\<rparr> else t);
            t2 = (if channel_select t1 AND kChannelShort \<noteq> 0 \<and> cgi t1 = []
                  then t1\<lparr>channel_select := channel_select t1 AND NOT kChannelShort\<rparr> else t1)
        in Some (if retry_count t2 < 0 then t2\<lparr>retry_count := DEF_TASK_RETRY_COUNT\<rparr> else t2))"

definition with_long ::
    "(LongLinkTaskManager \<Rightarrow> 'x World \<Rightarrow> LongLinkTaskManager \<times> 'x World) \<Rightarrow> 'x NetCore \<Rightarrow> 'x NetCore" where
  "with_long f nc = (case f (nc_long nc) (nc_world nc) of (m, w) \<Rightarrow> nc\<lparr>nc_long := m, nc_world := w\<rparr>)"

definition with_short ::
    "(ShortLinkTaskManager \<Rightarrow> 'x World \<Rightarrow> ShortLinkTaskManager \<times> 'x World) \<Rightarrow> 'x NetCore \<Rightarrow> 'x NetCore" where
  "with_short f nc = (case f (nc_short nc) (nc_world nc) of (m, w) \<Rightarrow> nc\<lparr>nc_short := m, nc_world := w\<rparr>)"

definition with_world :: "('x World \<Rightarrow> 'x World) \<Rightarrow> 'x NetCore \<Rightarrow> 'x NetCore" where
  "with_world f nc = nc\<lparr>nc_world := f (nc_world nc)\<rparr>"

definition NC_end_task :: "'x app_env \<Rightarrow> Task \<Rightarrow> int \<Rightarrow> 'x NetCore \<Rightarrow> 'x NetCore" where
  "NC_end_task app t ec = with_world (\<lambda>w. snd (NC_OnTaskEnd app (taskid t) (user_context t) kEctLocal ec w))"

definition NC_start_long :: "'x app_env \<Rightarrow> Task \<Rightarrow> 'x NetCore \<Rightarrow> bool \<times> 'x NetCore" where
  "NC_start_long app t nc =
     (case LL_StartTask (long_of app) (nw_now (nc_world nc)) t (nc_long nc) (nc_world nc) of
        (ok, m, w) \<Rightarrow> (ok, nc\<lparr>nc_long := m, nc_world := w\<rparr>))"

definition NC_start_short :: "'x app_env \<Rightarrow> Task \<Rightarrow> 'x NetCore \<Rightarrow> bool \<times> 'x NetCore" where
  "NC_start_short app t nc =
     (case SL_StartTask (short_of app) (nw_now (nc_world nc)) t (nc_short nc) (nc_world nc) of
        (ok, m, w) \<Rightarrow> (ok, nc\<lparr>nc_short := m, nc_world := w\<rparr>))"

text \<open>The choice of the channel; \<open>kFastSendUseLonglinkTaskCntLimit\<close> is 0.\<close>

definition NC_dispatch :: "'x app_env \<Rightarrow> Task \<Rightarrow> 'x NetCore \<Rightarrow> bool \<times> 'x NetCore" where
  "NC_dispatch app t nc =
     (if channel_select t = kChannelBoth then
        (if app_ll_ConnectStatus app (nw_ext (nc_world nc)) = kConnected \<and>
            (channel_strategy t \<noteq> kChannelFastStrategy \<or> length (lm_lst_cmd (nc_long nc)) \<le> 0)
         then NC_start_long app t nc else NC_start_short app t nc)
      else if channel_select t = kChannelLong then NC_start_long app t nc
      else if channel_select t = kChannelShort then NC_start_short app t nc
      else (False, nc))"

definition NC_StartTask :: "'x app_env \<Rightarrow> Task \<Rightarrow> 'x NetCore \<Rightarrow> 'x NetCore" where
  "NC_StartTask app t0 nc =
     (case ValidAndInitDefault t0 of
        None \<Rightarrow> NC_end_task app t0 kEctLocalTaskParam nc
      | Some t1 \<Rightarrow>
          let t = app_process_hook app t1;
              x = nw_ext (nc_world nc);
              connected = (app_ll_ConnectStatus app x = kConnected)
          in if channel_select t = 0 then NC_end_task app t kEctLocalChannelSelect nc
             else if network_status_sensitive t \<and> app_NetInfo app x = kNoNet \<and> \<not> connected
               then NC_end_task app t kEctLocalNoNet nc
             else
               let nc1 = (if \<not> connected \<and> kChannelLong AND channel_select t \<noteq> 0 \<and> app_IsForeground app x \<and>
                             nw_now (nc_world nc) - app_LastForegroundChangeTime app x \<le> 15 * 60 * 1000
                          then with_world (\<lambda>w. snd (ext1 (app_ll_MakeSureConnected app) w)) nc else nc)
               in case NC_dispatch app t nc1 of
                    (ok, nc2) \<Rightarrow>
                      if \<not> ok then NC_end_task app t kEctLocalStartTaskFail nc2
                      else with_world (\<lambda>w. w\<lparr>nw_zombie := Z_OnNetCoreStartTask (nw_now w) (nw_zombie w)\<rparr>) nc2)"

text \<open>\<open>StartTask\<close> as the application calls it posts the message; the message is run later.\<close>

definition NC_PostStart :: "Task \<Rightarrow> 'x NetCore \<Rightarrow> 'x NetCore" where
  "NC_PostStart t = with_world (\<lambda>w. w\<lparr>nw_posted := nw_posted w @ [t]\<rparr>)"

definition NC_RunPosted :: "'x app_env \<Rightarrow> 'x NetCore \<Rightarrow> 'x NetCore" where
  "NC_RunPosted app nc =
     (case nw_posted (nc_world nc) of
        [] \<Rightarrow> nc
      | t # ts \<Rightarrow> NC_StartTask app t (with_world (\<lambda>w. w\<lparr>nw_posted := ts\<rparr>) nc))"

definition NC_StopTask :: "'x app_env \<Rightarrow> u32 \<Rightarrow> 'x NetCore \<Rightarrow> 'x NetCore" where
  "NC_StopTask app tid nc =
     (case LL_StopTask (long_of app) tid (nc_long nc) (nc_world nc) of
        (found, m, w) \<Rightarrow>
          let nc1 = nc\<lparr>nc_long := m, nc_world := w\<rparr>
          in if found then nc1
             else case Z_StopTask tid (nw_zombie w) of
                    (found', z) \<Rightarrow>
                      let w1 = w\<lparr>nw_zombie := z\<rparr>; nc2 = nc1\<lparr>nc_world := w1\<rparr>
                      in if found' then nc2
                         else case SL_StopTask (short_of app) tid (nc_short nc) w1 of
                                (found'', sm, w2) \<Rightarrow> nc2\<lparr>nc_short := sm, nc_world := w2\<rparr>)"

definition NC_HasTask :: "u32 \<Rightarrow> 'x NetCore \<Rightarrow> bool" where
  "NC_HasTask tid nc \<longleftrightarrow> LL_HasTask tid (nc_long nc) \<or> Z_HasTask tid (nw_zombie (nc_world nc))
     \<or> SL_HasTask tid (nc_short nc)"

definition NC_ClearTasks :: "'x app_env \<Rightarrow> 'x NetCore \<Rightarrow> 'x NetCore" where
  "NC_ClearTasks app nc =
     with_short (SL_ClearTasks (short_of app))
       (with_world (\<lambda>w. w\<lparr>nw_zombie := Z_ClearTasks (nw_zombie w)\<rparr>)
         (with_long (LL_ClearTasks (long_of app)) nc))"

definition NC_long_redo :: "'x app_env \<Rightarrow> 'x NetCore \<Rightarrow> 'x NetCore" where
  "NC_long_redo app nc = with_long (LL_RedoTasks (long_of app) (nw_now (nc_world nc))) nc"

definition NC_short_redo :: "'x app_env \<Rightarrow> 'x NetCore \<Rightarrow> 'x NetCore" where
  "NC_short_redo app nc = with_short (SL_RedoTasks (short_of app) (nw_now (nc_world nc))) nc"

definition NC_OnNetworkChange :: "'x app_env \<Rightarrow> 'x NetCore \<Rightarrow> 'x NetCore" where
  "NC_OnNetworkChange app nc =
     (let nc1 = with_world (\<lambda>w. (ext0 (app_ResetSources app) w)\<lparr>nw_dyn := DynamicTimeout_ResetStatus (nw_dyn w)\<rparr>) nc
      in case ext1 (app_NetworkChange app) (nc_world nc1) of
           (redo, w) \<Rightarrow>
             let nc2 = nc1\<lparr>nc_world := w\<rparr>;
                 nc3 = (if redo then NC_long_redo app nc2 else nc2);
                 nc4 = NC_short_redo app (with_world (NC_zombie_redo app) nc3)
             in with_world (\<lambda>w. w\<lparr>nw_shortlink_try_flag := False, nw_shortlink_error_count := 0\<rparr>) nc4)"

definition NC_RedoTasks :: "'x app_env \<Rightarrow> 'x NetCore \<Rightarrow> 'x NetCore" where
  "NC_RedoTasks app nc =
     (let nc1 = with_world (\<lambda>w. snd (ext1 (app_ll_MakeSureConnected app)
                  (ext0 (app_ll_Disconnect app kReset) (ext0 (app_ResetSources app) w)))) nc
      in NC_short_redo app (with_world (NC_zombie_redo app) (NC_long_redo app nc1)))"

definition NC_RetryTasks :: "'x app_env \<Rightarrow> ErrCmdType \<Rightarrow> int \<Rightarrow> int \<Rightarrow> u32 \<Rightarrow> 'x NetCore \<Rightarrow> 'x NetCore" where
  "NC_RetryTasks app et ec fh src nc =
     (let now = nw_now (nc_world nc)
      in with_long (LL_RetryTasks (long_of app) now et ec fh src)
           (with_short (SL_RetryTasks (short_of app) now et ec fh src) nc))"

definition NC_retry_request ::
    "'x app_env \<Rightarrow> (ErrCmdType \<times> int \<times> int \<times> u32) option \<Rightarrow> 'x NetCore \<Rightarrow> 'x NetCore" where
  "NC_retry_request app rr nc =
     (case rr of None \<Rightarrow> nc | Some (et, ec, fh, src) \<Rightarrow> NC_RetryTasks app et ec fh src nc)"

definition NC_LongResponse ::
    "'x app_env \<Rightarrow> ErrCmdType \<Rightarrow> int \<Rightarrow> u32 \<Rightarrow> u32 \<Rightarrow> bytes \<Rightarrow> bytes \<Rightarrow> ConnectProfile \<Rightarrow> 'x NetCore \<Rightarrow> 'x NetCore" where
  "NC_LongResponse app et ec cmd tid body ext cp nc =
     (case LL_OnResponse (long_of app) (nw_now (nc_world nc)) et ec cmd tid body ext cp (nc_long nc) (nc_world nc) of
        (m, w, rr) \<Rightarrow> NC_retry_request app rr (nc\<lparr>nc_long := m, nc_world := w\<rparr>))"

definition NC_ShortResponse ::
    "'x app_env \<Rightarrow> nat \<Rightarrow> ErrCmdType \<Rightarrow> int \<Rightarrow> bytes \<Rightarrow> bytes \<Rightarrow> bool \<Rightarrow> ConnectProfile \<Rightarrow> 'x NetCore \<Rightarrow> 'x NetCore" where
  "NC_ShortResponse app worker et st body ext c cp nc =
     (case SL_OnResponse (short_of app) (nw_now (nc_world nc)) worker et st body ext c cp (nc_short nc) (nc_world nc) of
        (m, w, rr) \<Rightarrow> NC_retry_request app rr (nc\<lparr>nc_short := m, nc_world := w\<rparr>))"

text \<open>The slots of the connection signal: the task manager first, then the core.\<close>

definition NC_OnLongLinkConnStatusChange :: "'x app_env \<Rightarrow> TLongLinkStatus \<Rightarrow> 'x World \<Rightarrow> 'x World" where
  "NC_OnLongLinkConnStatusChange app status w =
     ext0 (app_OnLongLinkStatusChange app status)
       (NC_ConnStatusCallBack app (if status = kConnected then NC_zombie_redo app w else w))"

definition NC_LongConnection :: "'x app_env \<Rightarrow> TLongLinkStatus \<Rightarrow> 'x NetCore \<Rightarrow> 'x NetCore" where
  "NC_LongConnection app status nc =
     with_world (NC_OnLongLinkConnStatusChange app status)
       (with_long (LL_SignalConnection (long_of app) (nw_now (nc_world nc)) status) nc)"

definition NC_OnSignalActive :: "bool \<Rightarrow> 'x NetCore \<Rightarrow> 'x NetCore" where
  "NC_OnSignalActive isactive =
     with_world (\<lambda>w. w\<lparr>nw_aa := AntiAvalanche_OnSignalActive (nw_now w) isactive (nw_aa w)\<rparr>)"


section \<open>Where the tasks are\<close>

text \<open>\<open>out w\<close>: the ids of the tasks that are in no task list: ended, waiting as zombies, or posted
  to be started.\<close>

definition out :: "'x World \<Rightarrow> u32 multiset" where
  "out w = mset (map fst (nw_left w)) + z_ids (nw_zombie w) + mset (map taskid (nw_posted w))"

definition tasks_of :: "'x NetCore \<Rightarrow> u32 multiset" where
  "tasks_of nc = ids (lm_lst_cmd (nc_long nc)) + ids (sm_lst_cmd (nc_short nc)) + out (nc_world nc)"

lemma out_ext0 [simp]: "out (ext0 f w) = out w"
  by (simp add: ext0_def out_def)

lemma out_ext1 [simp]: "out (snd (ext1 f w)) = out w"
  by (simp add: ext1_def out_def split: prod.splits)

lemma out_frame [simp]:
  "out (w\<lparr>nw_dyn := d\<rparr>) = out w" "out (w\<lparr>nw_aa := a\<rparr>) = out w" "out (w\<lparr>nw_workers := ws\<rparr>) = out w"
  "out (w\<lparr>nw_shortlink_try_flag := b, nw_shortlink_error_count := k\<rparr>) = out w"
  "out (w\<lparr>nw_shortlink_error_count := k, nw_shortlink_try_flag := b\<rparr>) = out w" "out (w\<lparr>nw_now := n\<rparr>) = out w"
  by (simp_all add: out_def)

lemma out_OnTaskEnd [simp]: "out (snd (NC_OnTaskEnd app tid ctx et ec w)) = add_mset tid (out w)"
  by (simp add: NC_OnTaskEnd_def) (simp add: out_def)

lemma out_CallBack: "out (snd (NC_CallBack app from et ec fh t cost w)) = add_mset (taskid t) (out w)"
proof -
  obtain saved z where s: "Z_SaveTask (nw_now w) t cost (nw_zombie w) = (saved, z)" by force
  have z: "z_ids z = (if saved then add_mset (taskid t) (z_ids (nw_zombie w)) else z_ids (nw_zombie w))"
    using SaveTask_ids [of "nw_now w" t cost "nw_zombie w"] s by simp
  have "out (w\<lparr>nw_zombie := z\<rparr>) = (if saved then add_mset (taskid t) (out w) else out w)"
    using z by (simp add: out_def)
  then show ?thesis using s by (simp add: NC_CallBack_def) (simp add: out_def)
qed

lemma out_zombie_calls: "out (zombie_calls app es w) = out w + event_ids es"
proof (induction app es w rule: zombie_calls.induct)
  case (2 app t es w)
  then show ?case by (simp add: event_ids_def out_def)
next
  case (3 app t c es w)
  then show ?case by (simp add: event_ids_def out_CallBack)
qed (simp add: event_ids_def)

lemma out_zombie_set: "z_ids (nw_zombie w) = event_ids es + z_ids z \<Longrightarrow>
    out (zombie_calls app es (w\<lparr>nw_zombie := z\<rparr>)) = out w"
  by (simp add: out_zombie_calls) (simp add: out_def ac_simps)

lemma out_zombie_redo [simp]: "out (NC_zombie_redo app w) = out w"
  by (cases "Z_RedoTasks (\<lambda>_. nw_now w) (nw_zombie w)")
    (simp add: NC_zombie_redo_def out_zombie_set RedoTasks_ids)

lemma out_zombie_timer [simp]: "out (NC_zombie_timer app w) = out w"
  by (cases "Z_TimerChecker (nw_now w) (nw_zombie w)")
    (simp add: NC_zombie_timer_def out_zombie_set TimerChecker_ids)

lemma out_ConnStatus [simp]: "out (NC_ConnStatusCallBack app w) = out w"
  by (simp add: NC_ConnStatusCallBack_def Let_def split: option.split)

lemma out_LongError [simp]: "out (NC_OnLongLinkNetworkError app k et ec ip host port w) = out w"
  by (simp add: NC_OnLongLinkNetworkError_def Let_def)

lemma out_ShortError [simp]: "out (NC_OnShortLinkNetworkError app k et ec ip host port w) = out w"
  by (simp add: NC_OnShortLinkNetworkError_def Let_def)

lemma out_avalanche [simp]: "out (snd (NC_avalanche app t buf w)) = out w"
  by (simp add: NC_avalanche_def Let_def split: prod.splits)

lemma out_statistic [simp]: "out (NC_statistic app c n k w) = out w"
  by (simp add: NC_statistic_def Let_def)

section \<open>The invariant of the core's own components\<close>

definition world_inv :: "'x World \<Rightarrow> bool" where
  "world_inv w \<longleftrightarrow> zombie_inv (nw_zombie w) \<and> dyn_inv (nw_dyn w) \<and> freq_inv (aa_frequency_limit (nw_aa w))"

lemma inv_ext0 [simp]: "world_inv (ext0 f w) = world_inv w"
  by (simp add: ext0_def world_inv_def)

lemma inv_ext1 [simp]: "world_inv (snd (ext1 f w)) = world_inv w"
  by (simp add: ext1_def world_inv_def split: prod.splits)

lemma inv_frame [simp]:
  "world_inv (w\<lparr>nw_workers := ws\<rparr>) = world_inv w" "world_inv (w\<lparr>nw_left := l\<rparr>) = world_inv w"
  "world_inv (w\<lparr>nw_posted := ts\<rparr>) = world_inv w" "world_inv (w\<lparr>nw_now := n\<rparr>) = world_inv w"
  "world_inv (w\<lparr>nw_shortlink_try_flag := b, nw_shortlink_error_count := k\<rparr>) = world_inv w"
  "world_inv (w\<lparr>nw_shortlink_error_count := k, nw_shortlink_try_flag := b\<rparr>) = world_inv w"
  by (simp_all add: world_inv_def)

lemma inv_zombie: "world_inv w \<Longrightarrow> zombie_inv z \<Longrightarrow> world_inv (w\<lparr>nw_zombie := z\<rparr>)"
  by (simp add: world_inv_def)

lemma inv_OnTaskEnd [simp]: "world_inv (snd (NC_OnTaskEnd app tid ctx et ec w)) = world_inv w"
  by (simp add: NC_OnTaskEnd_def)

lemma inv_CallBack: "world_inv w \<Longrightarrow> world_inv (snd (NC_CallBack app from et ec fh t cost w))"
proof -
  assume i: "world_inv w"
  obtain saved z where s: "Z_SaveTask (nw_now w) t cost (nw_zombie w) = (saved, z)" by force
  have "zombie_inv z"
    using SaveTask_inv [of "nw_zombie w" "nw_now w" t cost] i s by (simp add: world_inv_def)
  then show ?thesis using i inv_zombie [OF i] s by (simp add: NC_CallBack_def)
qed

lemma inv_zombie_calls: "world_inv w \<Longrightarrow> world_inv (zombie_calls app es w)"
  by (induction app es w rule: zombie_calls.induct) (simp_all add: inv_CallBack)

lemma inv_zombie_redo: "world_inv w \<Longrightarrow> world_inv (NC_zombie_redo app w)"
proof -
  assume i: "world_inv w"
  obtain es z where r: "Z_RedoTasks (\<lambda>_. nw_now w) (nw_zombie w) = (es, z)" by force
  have "zombie_inv z"
    using RedoTasks_inv [of "nw_zombie w" "\<lambda>_. nw_now w"] i r by (simp add: world_inv_def)
  then show ?thesis using r by (simp add: NC_zombie_redo_def inv_zombie_calls inv_zombie [OF i])
qed

lemma inv_zombie_timer: "world_inv w \<Longrightarrow> world_inv (NC_zombie_timer app w)"
proof -
  assume i: "world_inv w"
  obtain es z where r: "Z_TimerChecker (nw_now w) (nw_zombie w) = (es, z)" by force
  have "zombie_inv z"
    using TimerChecker_inv [of "nw_zombie w" "nw_now w"] i r by (simp add: world_inv_def)
  then show ?thesis using r by (simp add: NC_zombie_timer_def inv_zombie_calls inv_zombie [OF i])
qed

lemma inv_ConnStatus [simp]: "world_inv (NC_ConnStatusCallBack app w) = world_inv w"
  by (simp add: NC_ConnStatusCallBack_def Let_def split: option.split)

lemma inv_LongError: "world_inv w \<Longrightarrow> world_inv (NC_OnLongLinkNetworkError app k et ec ip host port w)"
  by (simp add: NC_OnLongLinkNetworkError_def Let_def inv_zombie_redo)

lemma inv_ShortError: "world_inv w \<Longrightarrow> world_inv (NC_OnShortLinkNetworkError app k et ec ip host port w)"
  by (simp add: NC_OnShortLinkNetworkError_def Let_def inv_zombie_redo)

lemma inv_statistic: "world_inv w \<Longrightarrow> world_inv (NC_statistic app c n k w)"
  by (simp add: NC_statistic_def Let_def world_inv_def CgiTaskStatistic_def StatusSwitch_inv)

lemma AntiAvalanche_Check_freq:
  "freq_inv (aa_frequency_limit a) \<Longrightarrow>
   freq_inv (aa_frequency_limit (snd (snd (AntiAvalanche_Check t1 t2 t3 t4 t5 net t h len a))))"
  using FrequencyLimit_Check_inv [of "aa_frequency_limit a" t1 t2 t3 t4 t h 0]
  by (auto simp: AntiAvalanche_Check_def Let_def split: prod.splits)

lemma inv_avalanche: "world_inv w \<Longrightarrow> world_inv (snd (NC_avalanche app t buf w))"
proof -
  assume i: "world_inv w"
  let ?c = "AntiAvalanche_Check (nw_now w) (nw_now w) (nw_now w) (nw_now w) (nw_now w)
    (app_NetInfo app (nw_ext w)) t (app_hash app buf) (s32 (int (length buf))) (nw_aa w)"
  obtain ok rep a where c: "?c = (ok, rep, a)" by (rule prod_cases3)
  have "freq_inv (aa_frequency_limit (snd (snd ?c)))"
    using i by (intro AntiAvalanche_Check_freq) (simp add: world_inv_def)
  then show ?thesis using i c by (simp add: NC_avalanche_def Let_def world_inv_def)
qed

text \<open>The core keeps the contract of the callback towards both managers.\<close>

interpretation core_long: long_sink "long_of app" out world_inv for app :: "'x app_env"
  by unfold_locales
    (simp_all add: long_of_def out_CallBack inv_CallBack inv_avalanche inv_LongError inv_statistic)

interpretation core_short: short_sink "short_of app" out world_inv for app :: "'x app_env"
  by unfold_locales
    (simp_all add: short_of_def out_CallBack inv_CallBack inv_avalanche inv_ShortError inv_statistic Let_def)

section \<open>Messages\<close>

text \<open>The messages that the queue of the network core delivers. \<open>LongNetworkReport\<close> and
  \<open>ShortNetworkReport\<close> are what the threads of the links themselves report of a connection, through
  \<open>fun_network_report_\<close> of the long link and \<open>func_network_report\<close> of a short link; the core posts such a call to
  its own queue and reads the number of failed tasks when it handles it.\<close>

datatype nc_event =
    PostStart Task | RunPosted
  | LongTimer | ShortTimer | ZombieTimer
  | LongSend u32 | LongRecv u32 u64 u64
  | LongResponse ErrCmdType int u32 u32 bytes bytes ConnectProfile
  | LongConnection TLongLinkStatus
  | LongNetworkReport ErrCmdType int string u16
  | ShortNetworkReport ErrCmdType int string string u16
  | ShortSend nat | ShortRecv nat u32 u32
  | ShortResponse nat ErrCmdType int bytes bytes bool ConnectProfile
  | NetworkChange | RedoAll | SignalActive bool
  | StopTask u32 | ClearTasks

fun NC_handle :: "'x app_env \<Rightarrow> nc_event \<Rightarrow> 'x NetCore \<Rightarrow> 'x NetCore" where
  "NC_handle app (PostStart t) nc = NC_PostStart t nc"
| "NC_handle app RunPosted nc = NC_RunPosted app nc"
| "NC_handle app LongTimer nc = with_long (LL_OnTimer (long_of app) (nw_now (nc_world nc))) nc"
| "NC_handle app ShortTimer nc = with_short (SL_OnTimer (short_of app) (nw_now (nc_world nc))) nc"
| "NC_handle app ZombieTimer nc = with_world (NC_zombie_timer app) nc"
| "NC_handle app (LongSend tid) nc = with_long (\<lambda>m w. (LL_OnSend (nw_now w) tid m, w)) nc"
| "NC_handle app (LongRecv tid a b) nc =
     with_long (LL_OnRecv (long_of app) (nw_now (nc_world nc)) tid a b) nc"
| "NC_handle app (LongResponse et ec cmd tid body ext cp) nc = NC_LongResponse app et ec cmd tid body ext cp nc"
| "NC_handle app (LongConnection st) nc = NC_LongConnection app st nc"
| "NC_handle app (LongNetworkReport et ec ip port) nc =
     with_world (NC_OnLongLinkNetworkError app (lm_tasks_continuous_fail_count (nc_long nc)) et ec ip [] port) nc"
| "NC_handle app (ShortNetworkReport et ec ip host port) nc =
     with_world (NC_OnShortLinkNetworkError app (sm_tasks_continuous_fail_count (nc_short nc)) et ec ip host port) nc"
| "NC_handle app (ShortSend wk) nc = with_short (\<lambda>m w. (SL_OnSend (nw_now w) wk m, w)) nc"
| "NC_handle app (ShortRecv wk a b) nc =
     with_short (SL_OnRecv (short_of app) (nw_now (nc_world nc)) wk a b) nc"
| "NC_handle app (ShortResponse wk et st body ext c cp) nc = NC_ShortResponse app wk et st body ext c cp nc"
| "NC_handle app NetworkChange nc = NC_OnNetworkChange app nc"
| "NC_handle app RedoAll nc = NC_RedoTasks app nc"
| "NC_handle app (SignalActive b) nc = NC_OnSignalActive b nc"
| "NC_handle app (StopTask tid) nc = NC_StopTask app tid nc"
| "NC_handle app ClearTasks nc = NC_ClearTasks app nc"

definition NC_step :: "'x app_env \<Rightarrow> u64 \<times> nc_event \<Rightarrow> 'x NetCore \<Rightarrow> 'x NetCore" where
  "NC_step app te nc = NC_handle app (snd te) (with_world (\<lambda>w. w\<lparr>nw_now := fst te\<rparr>) nc)"

fun NC_run :: "'x app_env \<Rightarrow> (u64 \<times> nc_event) list \<Rightarrow> 'x NetCore \<Rightarrow> 'x NetCore" where
  "NC_run app [] nc = nc"
| "NC_run app (te # es) nc = NC_run app es (NC_step app te nc)"

definition NC_new :: "u64 \<Rightarrow> bool \<Rightarrow> 'x \<Rightarrow> 'x NetCore" where
  "NC_new now isactive x = \<lparr>nc_long = LongLinkTaskManager_new, nc_short = ShortLinkTaskManager_new,
     nc_world = \<lparr>nw_zombie = ZombieTaskManager_new now, nw_dyn = DynamicTimeout_new,
       nw_aa = \<lparr>aa_frequency_limit = FrequencyLimit_new now, aa_flow_limit = FlowLimit_new now isactive\<rparr>,
       nw_left = [], nw_posted = [], nw_workers = [], nw_shortlink_error_count = 0,
       nw_shortlink_try_flag = False, nw_now = now, nw_ext = x\<rparr>\<rparr>"


section \<open>What the messages keep\<close>

text \<open>A task list in order: sorted by priority, with its retries accounted for and its timer
  armed.\<close>

definition list_inv :: "TaskProfile list \<Rightarrow> bool \<Rightarrow> bool" where
  "list_inv ps timer \<longleftrightarrow> sorted (map (\<lambda>p. priority (tp_task p)) ps) \<and> (\<forall>p \<in> set ps. retries_ok p) \<and>
     (ps \<noteq> [] \<longrightarrow> timer)"

definition core_inv :: "'x NetCore \<Rightarrow> bool" where
  "core_inv nc \<longleftrightarrow> list_inv (lm_lst_cmd (nc_long nc)) (lm_timer (nc_long nc)) \<and>
     list_inv (sm_lst_cmd (nc_short nc)) (sm_timer (nc_short nc)) \<and> world_inv (nc_world nc)"

lemma list_inv_survive: "list_inv ps t \<Longrightarrow> survive qs ps \<Longrightarrow> (qs \<noteq> [] \<longrightarrow> t') \<Longrightarrow> list_inv qs t'"
  using survive_sorted survive_retries by (auto simp: list_inv_def)

lemma list_inv_same: "list_inv ps t \<Longrightarrow> survive qs ps \<Longrightarrow> list_inv qs t"
  by (rule list_inv_survive) (auto simp: list_inv_def)

text \<open>\<open>safe nc nc'\<close>: no task is lost or doubled, and the invariant is kept.\<close>

definition safe :: "'x NetCore \<Rightarrow> 'x NetCore \<Rightarrow> bool" where
  "safe nc nc' \<longleftrightarrow> tasks_of nc' = tasks_of nc \<and> (core_inv nc \<longrightarrow> core_inv nc')"

lemma safe_refl [simp]: "safe nc nc"
  by (simp add: safe_def)

lemma safe_trans: "safe a b \<Longrightarrow> safe b c \<Longrightarrow> safe a c"
  by (simp add: safe_def)

lemma safe_long_keeps:
  assumes "core_long.keeps (nc_long nc, nc_world nc) (m, w)"
  shows "safe nc (nc\<lparr>nc_long := m, nc_world := w\<rparr>)"
proof -
  have k: "ids (lm_lst_cmd m) + out w = ids (lm_lst_cmd (nc_long nc)) + out (nc_world nc)"
    "survive (lm_lst_cmd m) (lm_lst_cmd (nc_long nc))" "lm_timer m = lm_timer (nc_long nc)"
    "world_inv (nc_world nc) \<longrightarrow> world_inv w"
    using assms unfolding core_long.keeps_def by simp_all
  have "tasks_of (nc\<lparr>nc_long := m, nc_world := w\<rparr>) = tasks_of nc"
    using k(1) by (simp add: tasks_of_def ac_simps)
  then show ?thesis using k list_inv_same by (auto simp: safe_def core_inv_def)
qed

lemma safe_long_runs:
  assumes "core_long.runs (nc_long nc, nc_world nc) (m, w)"
  shows "safe nc (nc\<lparr>nc_long := m, nc_world := w\<rparr>)"
proof -
  have k: "ids (lm_lst_cmd m) + out w = ids (lm_lst_cmd (nc_long nc)) + out (nc_world nc)"
    "survive (lm_lst_cmd m) (lm_lst_cmd (nc_long nc))" "lm_lst_cmd m \<noteq> [] \<longrightarrow> lm_timer m"
    "world_inv (nc_world nc) \<longrightarrow> world_inv w"
    using assms unfolding core_long.runs_def by simp_all
  have "tasks_of (nc\<lparr>nc_long := m, nc_world := w\<rparr>) = tasks_of nc"
    using k(1) by (simp add: tasks_of_def ac_simps)
  then show ?thesis using k list_inv_survive by (auto simp: safe_def core_inv_def)
qed

lemma safe_short_keeps:
  assumes "core_short.keeps (nc_short nc, nc_world nc) (m, w)"
  shows "safe nc (nc\<lparr>nc_short := m, nc_world := w\<rparr>)"
proof -
  have k: "ids (sm_lst_cmd m) + out w = ids (sm_lst_cmd (nc_short nc)) + out (nc_world nc)"
    "survive (sm_lst_cmd m) (sm_lst_cmd (nc_short nc))" "sm_timer m = sm_timer (nc_short nc)"
    "world_inv (nc_world nc) \<longrightarrow> world_inv w"
    using assms unfolding core_short.keeps_def by simp_all
  then show ?thesis using list_inv_same by (auto simp: safe_def core_inv_def tasks_of_def ac_simps)
qed

lemma safe_short_runs:
  assumes "core_short.runs (nc_short nc, nc_world nc) (m, w)"
  shows "safe nc (nc\<lparr>nc_short := m, nc_world := w\<rparr>)"
proof -
  have k: "ids (sm_lst_cmd m) + out w = ids (sm_lst_cmd (nc_short nc)) + out (nc_world nc)"
    "survive (sm_lst_cmd m) (sm_lst_cmd (nc_short nc))" "sm_lst_cmd m \<noteq> [] \<longrightarrow> sm_timer m"
    "world_inv (nc_world nc) \<longrightarrow> world_inv w"
    using assms unfolding core_short.runs_def by simp_all
  then show ?thesis using list_inv_survive by (auto simp: safe_def core_inv_def tasks_of_def ac_simps)
qed

lemma safe_world:
  "out (f (nc_world nc)) = out (nc_world nc) \<Longrightarrow> (world_inv (nc_world nc) \<longrightarrow> world_inv (f (nc_world nc))) \<Longrightarrow>
   safe nc (with_world f nc)"
  by (simp add: safe_def with_world_def tasks_of_def core_inv_def)

lemma with_long_runs:
  "core_long.runs (nc_long nc, nc_world nc) (f (nc_long nc) (nc_world nc)) \<Longrightarrow> safe nc (with_long f nc)"
  by (cases "f (nc_long nc) (nc_world nc)") (simp add: with_long_def safe_long_runs)

lemma with_long_keeps:
  "core_long.keeps (nc_long nc, nc_world nc) (f (nc_long nc) (nc_world nc)) \<Longrightarrow> safe nc (with_long f nc)"
  by (cases "f (nc_long nc) (nc_world nc)") (simp add: with_long_def safe_long_keeps)

lemma with_short_runs:
  "core_short.runs (nc_short nc, nc_world nc) (f (nc_short nc) (nc_world nc)) \<Longrightarrow> safe nc (with_short f nc)"
  by (cases "f (nc_short nc) (nc_world nc)") (simp add: with_short_def safe_short_runs)

lemma with_short_keeps:
  "core_short.keeps (nc_short nc, nc_world nc) (f (nc_short nc) (nc_world nc)) \<Longrightarrow> safe nc (with_short f nc)"
  by (cases "f (nc_short nc) (nc_world nc)") (simp add: with_short_def safe_short_keeps)

lemma safe_long_redo: "safe nc (NC_long_redo app nc)"
  unfolding NC_long_redo_def by (rule with_long_runs, rule core_long.RedoTasks_runs)

lemma safe_short_redo: "safe nc (NC_short_redo app nc)"
  unfolding NC_short_redo_def by (rule with_short_runs, rule core_short.RedoTasks_runs)

lemma safe_zombie_redo: "safe nc (with_world (NC_zombie_redo app) nc)"
  by (rule safe_world) (simp_all add: inv_zombie_redo)

lemma safe_RetryTasks: "safe nc (NC_RetryTasks app et ec fh src nc)"
  unfolding NC_RetryTasks_def Let_def
  by (rule safe_trans [OF with_short_runs with_long_runs])
    (rule core_short.RetryTasks_runs, rule core_long.RetryTasks_runs)

lemma safe_retry_request: "safe nc (NC_retry_request app rr nc)"
  by (simp add: NC_retry_request_def safe_RetryTasks split: option.split)


lemma safe_OnNetworkChange: "safe nc (NC_OnNetworkChange app nc)"
proof -
  let ?nc1 = "with_world (\<lambda>w. (ext0 (app_ResetSources app) w)\<lparr>nw_dyn := DynamicTimeout_ResetStatus (nw_dyn w)\<rparr>) nc"
  obtain redo w where c: "ext1 (app_NetworkChange app) (nc_world ?nc1) = (redo, w)" by force
  let ?nc2 = "?nc1\<lparr>nc_world := w\<rparr>"
  let ?nc3 = "if redo then NC_long_redo app ?nc2 else ?nc2"
  have 1: "safe nc ?nc1"
    by (rule safe_world)
      (simp_all add: world_inv_def ext0_def out_def dyn_inv_def DynamicTimeout_ResetStatus_def)
  have eq: "?nc2 = with_world (\<lambda>w. snd (ext1 (app_NetworkChange app) w)) ?nc1"
    using c by (simp add: with_world_def)
  have 2: "safe ?nc1 ?nc2" unfolding eq by (rule safe_world) simp_all
  have 3: "safe ?nc2 ?nc3" by (simp add: safe_long_redo)
  have 4: "safe (NC_short_redo app (with_world (NC_zombie_redo app) ?nc3)) (NC_OnNetworkChange app nc)"
    unfolding NC_OnNetworkChange_def Let_def c prod.case by (rule safe_world) simp_all
  show ?thesis
    by (rule safe_trans [OF 1 safe_trans [OF 2 safe_trans [OF 3
          safe_trans [OF safe_zombie_redo safe_trans [OF safe_short_redo 4]]]]])
qed

lemma safe_RedoTasks: "safe nc (NC_RedoTasks app nc)"
proof -
  let ?f = "\<lambda>w. snd (ext1 (app_ll_MakeSureConnected app)
                  (ext0 (app_ll_Disconnect app kReset) (ext0 (app_ResetSources app) w)))"
  have 1: "safe nc (with_world ?f nc)" by (rule safe_world) simp_all
  show ?thesis unfolding NC_RedoTasks_def Let_def
    by (rule safe_trans [OF 1 safe_trans [OF safe_long_redo safe_trans [OF safe_zombie_redo safe_short_redo]]])
qed

lemma safe_LongResponse: "safe nc (NC_LongResponse app et ec cmd tid body ext cp nc)"
proof -
  obtain m w rr where r: "LL_OnResponse (long_of app) (nw_now (nc_world nc)) et ec cmd tid body ext cp
      (nc_long nc) (nc_world nc) = (m, w, rr)" by (rule prod_cases3)
  from safe_trans [OF safe_long_keeps [OF core_long.OnResponse_keeps [OF r]] safe_retry_request]
  show ?thesis by (simp add: NC_LongResponse_def r)
qed

lemma safe_ShortResponse: "safe nc (NC_ShortResponse app wk et st body ext c cp nc)"
proof -
  obtain m w rr where r: "SL_OnResponse (short_of app) (nw_now (nc_world nc)) wk et st body ext c cp
      (nc_short nc) (nc_world nc) = (m, w, rr)" by (rule prod_cases3)
  from safe_trans [OF safe_short_keeps [OF core_short.OnResponse_keeps [OF r]] safe_retry_request]
  show ?thesis by (simp add: NC_ShortResponse_def r)
qed

lemma safe_LongConnection: "safe nc (NC_LongConnection app st nc)"
proof -
  let ?nc1 = "with_long (LL_SignalConnection (long_of app) (nw_now (nc_world nc)) st) nc"
  have 1: "safe nc ?nc1"
  proof (cases "st = kConnected")
    case True
    then show ?thesis
      by (intro with_long_runs) (simp add: LL_SignalConnection_def core_long.RunLoop_runs)
  next
    case False
    then show ?thesis
      by (intro with_long_keeps) (simp add: LL_SignalConnection_def)
  qed
  have 2: "safe ?nc1 (with_world (NC_OnLongLinkConnStatusChange app st) ?nc1)"
    by (rule safe_world) (simp_all add: NC_OnLongLinkConnStatusChange_def inv_zombie_redo)
  show ?thesis unfolding NC_LongConnection_def by (rule safe_trans [OF 1 2])
qed

section \<open>Starting a task\<close>

text \<open>What the hook on outgoing tasks is for: it may change the parameters of a task, not its
  identity, and leaves the number of retries legal.\<close>

definition hook_ok :: "'x app_env \<Rightarrow> bool" where
  "hook_ok app \<longleftrightarrow> (\<forall>t. taskid (app_process_hook app t) = taskid t \<and>
     (0 \<le> retry_count t \<longrightarrow> 0 \<le> retry_count (app_process_hook app t)))"

definition takes :: "u32 \<Rightarrow> 'x NetCore \<Rightarrow> 'x NetCore \<Rightarrow> bool" where
  "takes tid nc nc' \<longleftrightarrow> tasks_of nc' = add_mset tid (tasks_of nc) \<and> (core_inv nc \<longrightarrow> core_inv nc')"

lemma takes_safe: "takes tid a b \<Longrightarrow> safe b c \<Longrightarrow> takes tid a c"
  and safe_takes: "safe a b \<Longrightarrow> takes tid b c \<Longrightarrow> takes tid a c"
  by (simp_all add: takes_def safe_def)

lemma takes_end: "takes (taskid t) nc (NC_end_task app t ec nc)"
  by (simp add: takes_def NC_end_task_def with_world_def tasks_of_def core_inv_def)

lemma ValidAndInitDefault_Some:
  assumes "ValidAndInitDefault t = Some t1"
  shows "taskid t1 = taskid t" "0 \<le> retry_count t1" "retry_count t1 \<le> 30"
    "server_process_cost t1 \<le> 2*60*1000" "total_timetout t1 \<le> 10*60*1000"
  using assms by (auto simp: ValidAndInitDefault_def Let_def DEF_TASK_RETRY_COUNT_def split: if_splits)

lemma list_inv_insert:
  assumes "list_inv ps t" "0 \<le> retry_count task"
    "survive qs (sort_tasks (ps @ [(TaskProfile_new now task)\<lparr>link_type := l\<rparr>]))" "qs \<noteq> [] \<longrightarrow> t'"
  shows "list_inv qs t'"
proof -
  let ?ps = "sort_tasks (ps @ [(TaskProfile_new now task)\<lparr>link_type := l\<rparr>])"
  have "list_inv ?ps True"
    using assms(1,2) retries_ok_new [of task l now] by (auto simp: list_inv_def sort_tasks_def)
  from list_inv_survive [OF this assms(3,4)] show ?thesis .
qed

lemma takes_start_long:
  assumes "NC_start_long app t nc = (ok, nc')" "0 \<le> retry_count t"
  shows "ok" "takes (taskid t) nc nc'"
proof -
  obtain ok' m w where r: "LL_StartTask (long_of app) (nw_now (nc_world nc)) t (nc_long nc) (nc_world nc) = (ok', m, w)"
    by (rule prod_cases3)
  note k = core_long.StartTask_runs [OF r]
  have nc': "nc' = nc\<lparr>nc_long := m, nc_world := w\<rparr>" "ok = ok'"
    using assms(1) r by (simp_all add: NC_start_long_def)
  show "ok" using k(1) nc' by simp
  have "tasks_of nc' = add_mset (taskid t) (tasks_of nc)"
    using k(2) by (simp add: nc' tasks_of_def ac_simps)
  moreover have "core_inv nc \<longrightarrow> core_inv nc'"
    using k(5) list_inv_insert [OF _ assms(2) k(3,4)] by (auto simp: core_inv_def nc')
  ultimately show "takes (taskid t) nc nc'" by (simp add: takes_def)
qed

lemma takes_start_short:
  assumes "NC_start_short app t nc = (ok, nc')" "0 \<le> retry_count t"
  shows "if ok then takes (taskid t) nc nc' else nc' = nc"
proof -
  obtain ok' m w where r: "SL_StartTask (short_of app) (nw_now (nc_world nc)) t (nc_short nc) (nc_world nc) = (ok', m, w)"
    by (rule prod_cases3)
  note k = core_short.StartTask_runs [OF r]
  have nc': "nc' = nc\<lparr>nc_short := m, nc_world := w\<rparr>" "ok = ok'"
    using assms(1) r by (simp_all add: NC_start_short_def)
  show ?thesis
  proof (cases ok')
    case True
    have "tasks_of nc' = add_mset (taskid t) (tasks_of nc)"
      using k(3) [OF True] by (simp add: nc' tasks_of_def ac_simps)
    moreover have "core_inv nc \<longrightarrow> core_inv nc'"
      using k(6) list_inv_insert [OF _ assms(2) k(4,5) [OF True]] by (auto simp: core_inv_def nc')
    ultimately show ?thesis using True nc' by (simp add: takes_def)
  next
    case False
    then show ?thesis using k(2) nc' by simp
  qed
qed

lemma takes_dispatch:
  assumes "NC_dispatch app t nc = (ok, nc')" "0 \<le> retry_count t"
  shows "if ok then takes (taskid t) nc nc' else nc' = nc"
  using assms takes_start_long [OF _ assms(2), of app nc ok nc'] takes_start_short [OF _ assms(2), of app nc ok nc']
  by (auto simp: NC_dispatch_def split: if_splits)

lemma takes_StartTask:
  assumes "hook_ok app"
  shows "takes (taskid t0) nc (NC_StartTask app t0 nc)"
proof (cases "ValidAndInitDefault t0")
  case None
  then show ?thesis by (simp add: NC_StartTask_def takes_end)
next
  case (Some t1)
  let ?t = "app_process_hook app t1"
  have id: "taskid ?t = taskid t0" and rc: "0 \<le> retry_count ?t"
    using assms ValidAndInitDefault_Some [OF Some] by (simp_all add: hook_ok_def)
  have e: "takes (taskid t0) nc (NC_end_task app ?t ec nc)" for ec using takes_end [of ?t nc app ec] id by simp
  define nc1 where "nc1 = (let x = nw_ext (nc_world nc) in
     if app_ll_ConnectStatus app x \<noteq> kConnected \<and> kChannelLong AND channel_select ?t \<noteq> 0 \<and> app_IsForeground app x \<and>
        nw_now (nc_world nc) - app_LastForegroundChangeTime app x \<le> 15 * 60 * 1000
     then with_world (\<lambda>w. snd (ext1 (app_ll_MakeSureConnected app) w)) nc else nc)"
  have s1: "safe nc nc1" unfolding nc1_def Let_def by (simp, intro impI safe_world) simp_all
  obtain ok nc2 where d: "NC_dispatch app ?t nc1 = (ok, nc2)" by force
  note t = takes_dispatch [OF d rc]
  have f: "takes (taskid t0) nc (NC_end_task app ?t ec nc2)" if "\<not> ok" for ec
    using safe_takes [OF s1 takes_end [of ?t nc1 app ec]] t that id by simp
  have z: "safe nc2 (with_world (\<lambda>w. w\<lparr>nw_zombie := Z_OnNetCoreStartTask (nw_now w) (nw_zombie w)\<rparr>) nc2)"
    by (rule safe_world)
      (simp_all add: out_def world_inv_def z_ids_def zombie_inv_def Z_OnNetCoreStartTask_def)
  have g: "takes (taskid t0) nc (with_world (\<lambda>w. w\<lparr>nw_zombie := Z_OnNetCoreStartTask (nw_now w) (nw_zombie w)\<rparr>) nc2)"
    if ok using takes_safe [OF safe_takes [OF s1, of "taskid ?t" nc2] z] t that id by simp
  show ?thesis
    unfolding NC_StartTask_def Some using e f g d by (simp add: Let_def nc1_def)
qed


section \<open>Removing tasks\<close>

definition drops :: "u32 multiset \<Rightarrow> 'x NetCore \<Rightarrow> 'x NetCore \<Rightarrow> bool" where
  "drops d nc nc' \<longleftrightarrow> tasks_of nc = d + tasks_of nc' \<and> (core_inv nc \<longrightarrow> core_inv nc')"

lemma list_inv_erase:
  assumes "list_inv ps t" "erase_first P ps = Some (p, qs)"
  shows "list_inv qs t"
proof -
  have "survive qs ps"
    using assms(2)
    by (induction ps arbitrary: qs) (auto split: if_splits option.splits)
  then show ?thesis using assms(1) by (rule list_inv_same [rotated])
qed

lemma long_of_Stop [simp]: "out (ll_Stop (long_of app) i w) = out w"
    "world_inv (ll_Stop (long_of app) i w) = world_inv w"
  by (simp_all add: long_of_def)

lemma short_Delete [simp]: "out (SL_DeleteShortLink (short_of app) i w) = out w"
    "world_inv (SL_DeleteShortLink (short_of app) i w) = world_inv w"
  by (simp_all add: SL_DeleteShortLink_def short_of_def)

lemma ids_erase:
  "mset ps = add_mset p (mset qs) \<Longrightarrow> ids ps = add_mset (pid p) (ids qs)"
  by (simp add: ids_def)

lemma drops_StopTask:
  "drops (if NC_HasTask tid nc then {#tid#} else {#}) nc (NC_StopTask app tid nc)"
proof (rule erase_first_cases [of tid pid "lm_lst_cmd (nc_long nc)"])
  fix p ps
  assume e: "erase_first (\<lambda>p. tid = pid p) (lm_lst_cmd (nc_long nc)) = Some (p, ps)" "pid p = tid"
    "tid \<in> set (map pid (lm_lst_cmd (nc_long nc)))" "mset (lm_lst_cmd (nc_long nc)) = add_mset p (mset ps)"
  have "NC_HasTask tid nc" using e(3) by (auto simp: NC_HasTask_def LL_HasTask_def list_ex_iff)
  then show ?thesis
    using e list_inv_erase [OF _ e(1)] ids_erase [OF e(4)]
    by (simp add: NC_StopTask_def LL_StopTask_def drops_def tasks_of_def core_inv_def)
next
  assume a: "erase_first (\<lambda>p. tid = pid p) (lm_lst_cmd (nc_long nc)) = None"
    "tid \<notin> set (map pid (lm_lst_cmd (nc_long nc)))"
  let ?w = "nc_world nc" and ?zid = "\<lambda>x. taskid (z_task x)"
  show ?thesis
  proof (rule erase_first_cases [of tid ?zid "z_lsttask (nw_zombie ?w)"])
    fix y ys
    assume e: "erase_first (\<lambda>x. tid = ?zid x) (z_lsttask (nw_zombie ?w)) = Some (y, ys)" "?zid y = tid"
      "tid \<in> set (map ?zid (z_lsttask (nw_zombie ?w)))" "mset (z_lsttask (nw_zombie ?w)) = add_mset y (mset ys)"
    have h: "NC_HasTask tid nc" using e(3) by (auto simp: NC_HasTask_def Z_HasTask_def list_ex_iff)
    have "zombie_inv (nw_zombie ?w) \<longrightarrow> zombie_inv ((nw_zombie ?w)\<lparr>z_lsttask := ys\<rparr>)"
      using StopTask_inv [of "nw_zombie ?w" tid] e(1) by (simp add: Z_StopTask_def)
    then show ?thesis
      using a e h
      by (simp add: NC_StopTask_def LL_StopTask_def Z_StopTask_def drops_def tasks_of_def core_inv_def
          out_def z_ids_def world_inv_def)
  next
    assume z: "erase_first (\<lambda>x. tid = ?zid x) (z_lsttask (nw_zombie ?w)) = None"
      "tid \<notin> set (map ?zid (z_lsttask (nw_zombie ?w)))"
    have zw: "?w\<lparr>nw_zombie := nw_zombie ?w\<rparr> = ?w" by simp
    show ?thesis
    proof (rule erase_first_cases [of tid pid "sm_lst_cmd (nc_short nc)"])
      fix p ps
      assume e: "erase_first (\<lambda>p. tid = pid p) (sm_lst_cmd (nc_short nc)) = Some (p, ps)" "pid p = tid"
        "tid \<in> set (map pid (sm_lst_cmd (nc_short nc)))" "mset (sm_lst_cmd (nc_short nc)) = add_mset p (mset ps)"
      have "NC_HasTask tid nc" using e(3) by (auto simp: NC_HasTask_def SL_HasTask_def list_ex_iff)
      then show ?thesis
        using a z e list_inv_erase [OF _ e(1)] ids_erase [OF e(4)]
        by (simp add: NC_StopTask_def LL_StopTask_def Z_StopTask_def SL_StopTask_def drops_def
            tasks_of_def core_inv_def)
    next
      assume e: "erase_first (\<lambda>p. tid = pid p) (sm_lst_cmd (nc_short nc)) = None"
        "tid \<notin> set (map pid (sm_lst_cmd (nc_short nc)))"
      have "\<not> NC_HasTask tid nc"
        using a(2) z(2) e(2)
        by (auto simp: NC_HasTask_def LL_HasTask_def Z_HasTask_def SL_HasTask_def list_ex_iff)
      then show ?thesis
        using a z e
        by (simp add: NC_StopTask_def LL_StopTask_def Z_StopTask_def SL_StopTask_def drops_def)
    qed
  qed
qed

lemma ClearTasks_out:
  "out (fold (\<lambda>p w. SL_DeleteShortLink (short_of app) (running_id p) w) ps w) = out w"
  "world_inv (fold (\<lambda>p w. SL_DeleteShortLink (short_of app) (running_id p) w) ps w) = world_inv w"
  by (induction ps arbitrary: w) simp_all

lemma drops_ClearTasks:
  "drops (ids (lm_lst_cmd (nc_long nc)) + ids (sm_lst_cmd (nc_short nc)) + z_ids (nw_zombie (nc_world nc)))
     nc (NC_ClearTasks app nc)"
  by (simp add: NC_ClearTasks_def with_long_def with_short_def with_world_def LL_ClearTasks_def
      SL_ClearTasks_def Z_ClearTasks_def drops_def tasks_of_def core_inv_def ClearTasks_out long_of_def
      list_inv_def)
    (simp add: out_def z_ids_def world_inv_def zombie_inv_def ext0_def)

section \<open>Runs\<close>

fun removal :: "nc_event \<Rightarrow> bool" where
  "removal (StopTask tid) = True"
| "removal ClearTasks = True"
| "removal e = False"

fun started :: "nc_event \<Rightarrow> u32 multiset" where
  "started (PostStart t) = {#taskid t#}"
| "started e = {#}"

lemma RunPosted_safe: "hook_ok app \<Longrightarrow> safe nc (NC_RunPosted app nc)"
proof (cases "nw_posted (nc_world nc)")
  case (Cons t ts)
  assume h: "hook_ok app"
  let ?nc = "with_world (\<lambda>w. w\<lparr>nw_posted := ts\<rparr>) nc"
  have "tasks_of nc = add_mset (taskid t) (tasks_of ?nc)"
    using Cons by (simp add: tasks_of_def with_world_def out_def)
  moreover have "core_inv nc \<longrightarrow> core_inv ?nc" by (simp add: core_inv_def with_world_def)
  ultimately show ?thesis
    using takes_StartTask [OF h, of t ?nc] by (simp add: NC_RunPosted_def Cons takes_def safe_def)
qed (simp add: NC_RunPosted_def)

lemma handle_safe:
  assumes "hook_ok app" "\<not> removal e"
  shows "tasks_of (NC_handle app e nc) = started e + tasks_of nc \<and> (core_inv nc \<longrightarrow> core_inv (NC_handle app e nc))"
proof (cases e)
  case (PostStart t)
  then show ?thesis
    by (simp add: NC_PostStart_def with_world_def tasks_of_def core_inv_def) (simp add: out_def)
next
  case RunPosted
  then show ?thesis using RunPosted_safe [OF assms(1), of nc] by (simp add: safe_def)
next
  case LongTimer
  have "safe nc (NC_handle app e nc)"
    unfolding LongTimer NC_handle.simps by (rule with_long_runs, rule core_long.OnTimer_runs)
  then show ?thesis by (simp add: LongTimer safe_def)
next
  case ShortTimer
  have "safe nc (NC_handle app e nc)"
    unfolding ShortTimer NC_handle.simps by (rule with_short_runs, rule core_short.OnTimer_runs)
  then show ?thesis by (simp add: ShortTimer safe_def)
next
  case ZombieTimer
  have "safe nc (NC_handle app e nc)"
    unfolding ZombieTimer NC_handle.simps by (rule safe_world) (simp_all add: inv_zombie_timer)
  then show ?thesis by (simp add: ZombieTimer safe_def)
next
  case (LongSend i)
  have "safe nc (NC_handle app e nc)"
    unfolding LongSend NC_handle.simps by (rule with_long_keeps, rule core_long.OnSend_keeps)
  then show ?thesis by (simp add: LongSend safe_def)
next
  case (LongRecv i a b)
  have "safe nc (NC_handle app e nc)"
    unfolding LongRecv NC_handle.simps by (rule with_long_keeps, rule core_long.OnRecv_keeps)
  then show ?thesis by (simp add: LongRecv safe_def)
next
  case (ShortSend i)
  have "safe nc (NC_handle app e nc)"
    unfolding ShortSend NC_handle.simps by (rule with_short_keeps, rule core_short.OnSend_keeps)
  then show ?thesis by (simp add: ShortSend safe_def)
next
  case (ShortRecv i a b)
  have "safe nc (NC_handle app e nc)"
    unfolding ShortRecv NC_handle.simps by (rule with_short_keeps, rule core_short.OnRecv_keeps)
  then show ?thesis by (simp add: ShortRecv safe_def)
next
  case (SignalActive b)
  have "safe nc (NC_handle app e nc)"
    unfolding SignalActive NC_handle.simps NC_OnSignalActive_def
    by (rule safe_world) (simp_all add: world_inv_def AntiAvalanche_OnSignalActive_def)
  then show ?thesis by (simp add: SignalActive safe_def)
next
  case (LongResponse et ec cmd tid body ext cp)
  then show ?thesis using safe_LongResponse [of nc app et ec cmd tid body ext cp] by (simp add: safe_def)
next
  case (LongConnection st)
  then show ?thesis using safe_LongConnection [of nc app st] by (simp add: safe_def)
next
  case (LongNetworkReport et ec ip port)
  have "safe nc (NC_handle app e nc)"
    unfolding LongNetworkReport NC_handle.simps by (rule safe_world) (simp_all add: inv_LongError)
  then show ?thesis by (simp add: LongNetworkReport safe_def)
next
  case (ShortNetworkReport et ec ip host port)
  have "safe nc (NC_handle app e nc)"
    unfolding ShortNetworkReport NC_handle.simps by (rule safe_world) (simp_all add: inv_ShortError)
  then show ?thesis by (simp add: ShortNetworkReport safe_def)
next
  case (ShortResponse wk et st body ext c cp)
  then show ?thesis using safe_ShortResponse [of nc app wk et st body ext c cp] by (simp add: safe_def)
next
  case NetworkChange
  then show ?thesis using safe_OnNetworkChange [of nc app] by (simp add: safe_def)
next
  case RedoAll
  then show ?thesis using safe_RedoTasks [of nc app] by (simp add: safe_def)
qed (use assms(2) in simp_all)

lemma drops_sub: "drops d nc nc' \<Longrightarrow> tasks_of nc' \<subseteq># tasks_of nc \<and> (core_inv nc \<longrightarrow> core_inv nc')"
  by (auto simp: drops_def)

lemma handle_removal:
  assumes "removal e"
  shows "tasks_of (NC_handle app e nc) \<subseteq># tasks_of nc \<and> (core_inv nc \<longrightarrow> core_inv (NC_handle app e nc))"
  using assms by (cases e) (simp_all add: drops_sub [OF drops_StopTask] drops_sub [OF drops_ClearTasks])

lemma now_frame: "tasks_of (with_world (\<lambda>w. w\<lparr>nw_now := n\<rparr>) nc) = tasks_of nc"
    "core_inv (with_world (\<lambda>w. w\<lparr>nw_now := n\<rparr>) nc) = core_inv nc"
  by (simp_all add: tasks_of_def core_inv_def with_world_def)

lemma step_tasks:
  assumes "hook_ok app"
  shows "tasks_of (NC_step app te nc) \<subseteq># started (snd te) + tasks_of nc"
    and "\<not> removal (snd te) \<Longrightarrow> tasks_of (NC_step app te nc) = started (snd te) + tasks_of nc"
    and "core_inv nc \<Longrightarrow> core_inv (NC_step app te nc)"
proof -
  let ?nc = "with_world (\<lambda>w. w\<lparr>nw_now := fst te\<rparr>) nc"
  show "\<not> removal (snd te) \<Longrightarrow> tasks_of (NC_step app te nc) = started (snd te) + tasks_of nc"
    using handle_safe [OF assms, of "snd te" ?nc] by (simp add: NC_step_def now_frame)
  then show "tasks_of (NC_step app te nc) \<subseteq># started (snd te) + tasks_of nc"
    using handle_removal [of "snd te" app ?nc] subset_mset.add_increasing [of "started (snd te)"]
    by (cases "removal (snd te)") (simp_all add: NC_step_def now_frame)
  show "core_inv nc \<Longrightarrow> core_inv (NC_step app te nc)"
    using handle_safe [OF assms, of "snd te" ?nc] handle_removal [of "snd te" app ?nc]
    by (cases "removal (snd te)") (simp_all add: NC_step_def now_frame)
qed

definition started_in :: "(u64 \<times> nc_event) list \<Rightarrow> u32 multiset" where
  "started_in es = sum_list (map (\<lambda>te. started (snd te)) es)"

lemma run_tasks:
  assumes "hook_ok app"
  shows "tasks_of (NC_run app es nc) \<subseteq># started_in es + tasks_of nc"
    and "\<forall>te \<in> set es. \<not> removal (snd te) \<Longrightarrow> tasks_of (NC_run app es nc) = started_in es + tasks_of nc"
    and "core_inv nc \<Longrightarrow> core_inv (NC_run app es nc)"
proof (induction es arbitrary: nc)
  case (Cons te es)
  {
    case 1
    have "tasks_of (NC_run app es (NC_step app te nc)) \<subseteq># started_in es + (started (snd te) + tasks_of nc)"
      using subset_mset.order_trans [OF Cons.IH(1) subset_mset.add_left_mono [OF step_tasks(1) [OF assms]]] .
    then show ?case by (simp add: started_in_def ac_simps)
  next
    case 2
    then show ?case
      using Cons.IH(2) [of "NC_step app te nc"] step_tasks(2) [OF assms, of te nc]
      by (simp add: started_in_def ac_simps)
  next
    case 3
    then show ?case using Cons.IH(3) step_tasks(3) [OF assms] by simp
  }
qed (simp_all add: started_in_def)

lemma distinct_by_count: "(\<And>i. count (mset xs) i \<le> 1) \<Longrightarrow> distinct xs"
proof (induction xs)
  case (Cons a xs)
  have "count (mset xs) a = 0" using Cons.prems [of a] by simp
  moreover have "count (mset xs) i \<le> 1" for i
    by (rule le_trans [OF _ Cons.prems [of i]]) simp
  ultimately show ?case using Cons.IH by (simp add: count_eq_zero_iff)
qed simp

lemma core_inv_new: "core_inv (NC_new now b x)" and tasks_of_new: "tasks_of (NC_new now b x) = {#}"
  by (simp_all add: core_inv_def NC_new_def list_inv_def LongLinkTaskManager_new_def
      ShortLinkTaskManager_new_def world_inv_def zombie_inv_def ZombieTaskManager_new_def dyn_inv_def
      DynamicTimeout_new_def freq_inv_def FrequencyLimit_new_def tasks_of_def out_def z_ids_def)


section \<open>Properties\<close>

text \<open>C1. Every task ends exactly once or is still there: through any sequence of messages without
  a stop or a clear, the ids of the tasks that left the library, of the tasks in the two lists,
  of the waiting zombies and of the posted starts are together exactly the ids of the tasks that
  the application started, with multiplicity.\<close>

theorem task_conservation:
  assumes "hook_ok app" "\<forall>te \<in> set es. \<not> removal (snd te)"
  shows "let nc = NC_run app es (NC_new now isactive x); w = nc_world nc
    in mset (map fst (nw_left w)) + ids (lm_lst_cmd (nc_long nc)) + ids (sm_lst_cmd (nc_short nc))
         + z_ids (nw_zombie w) + mset (map taskid (nw_posted w)) = started_in es"
  using run_tasks(2) [OF assms, of "NC_new now isactive x"]
  by (simp add: tasks_of_new) (simp add: Let_def tasks_of_def out_def ac_simps)

text \<open>An application that accepts everything and a network that is not connected.\<close>

definition sample_app :: "unit app_env" where
  "sample_app = \<lparr>app_MakesureAuthed = (\<lambda>x. (True, x)),
     app_Req2Buf = (\<lambda>i c ch buf ext x. ((True, [1, 2, 3], [], 0), x)),
     app_Buf2Resp = (\<lambda>i c buf ext ch x. ((0, 0), x)), app_ReportTask = (\<lambda>p x. x),
     app_OnPkgEvent = (\<lambda>b n x. x), app_OnTaskEnd = (\<lambda>i c et ec x. (0, x)),
     app_OnPush = (\<lambda>ch cmd i buf ext x. x), app_OnLongLinkNetworkError = (\<lambda>k et ec ip port x. x),
     app_OnShortLinkNetworkError = (\<lambda>k et ec ip host port x. x), app_ReportLongIP = (\<lambda>b ip port x. x),
     app_ReportShortIP = (\<lambda>b ip host port x. x), app_ReportConnectStatus = (\<lambda>a l x. x),
     app_OnLongLinkStatusChange = (\<lambda>st x. x), app_ResetSources = (\<lambda>x. x),
     app_NetworkChange = (\<lambda>x. (True, x)), app_ll_Send = (\<lambda>buf ext t x. (0, x)),
     app_ll_Stop = (\<lambda>i x. x), app_ll_Disconnect = (\<lambda>c x. x), app_ll_Profile = (\<lambda>x. ConnectProfile_Reset),
     app_ll_MakeSureConnected = (\<lambda>x. (False, x)), app_ll_CancelAsync = (\<lambda>x. x),
     app_ll_ConnectStatus = (\<lambda>x. kConnectIdle), app_sl_address = (\<lambda>ws. Suc (Max (insert 0 (set ws)))),
     app_sl_SendRequest = (\<lambda>i buf ext x. x), app_sl_Profile = (\<lambda>i x. ConnectProfile_Reset),
     app_NetInfo = (\<lambda>x. kWifi), app_IsForeground = (\<lambda>x. True), app_LastForegroundChangeTime = (\<lambda>x. 0),
     app_hash = (\<lambda>buf. of_nat (length buf)), app_process_hook = (\<lambda>t. t),
     app_callback_hook = (\<lambda>from et ec fh t. False)\<rparr>"

definition sample_task :: Task where
  "sample_task = (Task_new 42)\<lparr>cmdid := 9, cgi := ''/x'', channel_select := kChannelBoth,
     total_timetout := 60000\<rparr>"

definition sample_run :: "(u64 \<times> nc_event) list" where
  "sample_run = [(1000, PostStart sample_task), (1001, RunPosted), (20000, ShortTimer), (90000, ShortTimer),
     (91000, ZombieTimer), (92000, NetworkChange), (93000, RunPosted)]"

lemma sample_app_hook: "hook_ok sample_app"
  by (simp add: hook_ok_def sample_app_def)

theorem task_conservation_witness:
  "let nc = NC_run sample_app sample_run (NC_new 0 True ()); w = nc_world nc
   in mset (map fst (nw_left w)) + ids (lm_lst_cmd (nc_long nc)) + ids (sm_lst_cmd (nc_short nc))
         + z_ids (nw_zombie w) + mset (map taskid (nw_posted w)) = {#42#}"
proof -
  have "\<forall>te \<in> set sample_run. \<not> removal (snd te)" by (simp add: sample_run_def)
  moreover have "started_in sample_run = {#42#}"
    by (simp add: started_in_def sample_run_def sample_task_def Task_new_def)
  ultimately show ?thesis
    using task_conservation [OF sample_app_hook, of sample_run 0 True "()"] by simp
qed

text \<open>C2. No task is reported twice: when the application starts every id at most once, then in any
  run, stops and clears included, no id leaves the library twice, and an id that has left is in
  no list, not waiting and not posted.\<close>

theorem task_ends_once:
  assumes "hook_ok app" "\<forall>i. count (started_in es) i \<le> 1"
  shows "let nc = NC_run app es (NC_new now isactive x)
    in distinct (map fst (nw_left (nc_world nc))) \<and>
       (\<forall>i \<in> fst ` set (nw_left (nc_world nc)). \<not> NC_HasTask i nc \<and> i \<notin> taskid ` set (nw_posted (nc_world nc)))"
proof -
  define nc where "nc = NC_run app es (NC_new now isactive x)"
  define left where "left = map fst (nw_left (nc_world nc))"
  have "tasks_of nc \<subseteq># started_in es"
    using run_tasks(1) [OF assms(1), of es "NC_new now isactive x"] by (simp add: nc_def tasks_of_new)
  then have c: "count (tasks_of nc) i \<le> 1" for i
    using le_trans [OF mset_subset_eq_count [of "tasks_of nc" "started_in es" i]] assms(2) by simp
  have t: "tasks_of nc = mset left + (ids (lm_lst_cmd (nc_long nc)) + ids (sm_lst_cmd (nc_short nc))
      + z_ids (nw_zombie (nc_world nc)) + mset (map taskid (nw_posted (nc_world nc))))"
    by (simp add: tasks_of_def out_def left_def ac_simps)
  have "count (mset left) i \<le> 1" for i using c [of i] by (simp add: t)
  then have "distinct left" by (rule distinct_by_count)
  moreover have "\<not> NC_HasTask i nc \<and> i \<notin> taskid ` set (nw_posted (nc_world nc))" if "i \<in> set left" for i
  proof -
    have "0 < count (mset left) i" using that by simp
    then have z: "count (ids (lm_lst_cmd (nc_long nc))) i = 0" "count (ids (sm_lst_cmd (nc_short nc))) i = 0"
      "count (z_ids (nw_zombie (nc_world nc))) i = 0" "count (mset (map taskid (nw_posted (nc_world nc)))) i = 0"
      using c [of i] unfolding t count_union by linarith+
    then show ?thesis
      by (auto simp: NC_HasTask_def LL_HasTask_def SL_HasTask_def Z_HasTask_def list_ex_iff ids_def z_ids_def
          count_eq_zero_iff)
  qed
  ultimately show ?thesis unfolding nc_def [symmetric] by (auto simp: Let_def left_def)
qed

theorem task_ends_once_witness:
  "let nc = NC_run sample_app (sample_run @ [(94000, StopTask 42)]) (NC_new 0 True ())
   in distinct (map fst (nw_left (nc_world nc)))"
proof -
  have "started_in (sample_run @ [(94000, StopTask 42)]) = {#42#}"
    by (simp add: started_in_def sample_run_def sample_task_def Task_new_def)
  then show ?thesis
    using task_ends_once [OF sample_app_hook, of "sample_run @ [(94000, StopTask 42)]" 0 True "()"]
    by (simp add: Let_def)
qed

text \<open>C3. The invariant of the network core holds in every reachable state: both task lists are
  sorted by priority, the attempts made and left of every task add up to its retries and the run
  loop of a non-empty list is armed; every zombie has time left and is watched by its timer; the
  flags of the dynamic timeout and the records of the repetition counter are in their bounds.\<close>

theorem core_invariant:
  assumes "hook_ok app"
  shows "core_inv (NC_run app es (NC_new now isactive x))"
  by (rule run_tasks(3) [OF assms core_inv_new])

theorem core_invariant_witness: "core_inv (NC_run sample_app sample_run (NC_new 0 True ()))"
  by (rule core_invariant [OF sample_app_hook])

text \<open>C4. Deadlines are enforced: after the timer message of a task manager, no task in its list is
  past its task timeout.\<close>

theorem deadlines_enforced:
  "list_all (in_time now) (lm_lst_cmd (nc_long (NC_step app (now, LongTimer) nc))) \<and>
   list_all (in_time now) (sm_lst_cmd (nc_short (NC_step app (now, ShortTimer) nc)))"
proof -
  let ?nc = "with_world (\<lambda>w. w\<lparr>nw_now := now\<rparr>) nc"
  have n: "nw_now (nc_world ?nc) = now" by (simp add: with_world_def)
  have "nc_long (NC_step app (now, LongTimer) nc) = fst (LL_OnTimer (long_of app) now (nc_long ?nc) (nc_world ?nc))"
    "nc_short (NC_step app (now, ShortTimer) nc) = fst (SL_OnTimer (short_of app) now (nc_short ?nc) (nc_world ?nc))"
    by (simp_all add: NC_step_def n with_long_def with_short_def split: prod.splits)
  then show ?thesis using core_long.OnTimer_in_time core_short.OnTimer_in_time by (metis list_all_iff)
qed

end
