(* ===== verification/Std_Map.thy ===== *)
theory Std_Map
  imports Mars_Prelude "HOL-Library.List_Lexorder" "HOL-Library.Char_ord"
begin

text \<open>
  \<open>std::map\<close> as the sources use it: a list of key/value pairs in increasing order of the keys,
  which is also the order in which an iterator walks it. Strings are ordered by their characters,
  as \<open>std::string\<close> orders them. The interface that the clients rely on is the locale
  \<open>ordered_map\<close>; the sorted list is its interpretation \<open>smap\<close>.
\<close>

section \<open>Operations\<close>

text \<open>\<open>m[k] = v\<close>, \<open>m.find(k)\<close> and \<open>m.erase(k)\<close>; \<open>m[k]\<close> alone inserts a default value
  where the key is missing.\<close>

fun mput :: "'k::linorder \<Rightarrow> 'v \<Rightarrow> ('k \<times> 'v) list \<Rightarrow> ('k \<times> 'v) list" where
  "mput k v [] = [(k, v)]"
| "mput k v ((k', v') # m) =
     (if k < k' then (k, v) # (k', v') # m
      else if k = k' then (k, v) # m else (k', v') # mput k v m)"

definition mget :: "('k \<times> 'v) list \<Rightarrow> 'k \<Rightarrow> 'v option" where
  "mget m k = map_of m k"

fun merase :: "'k \<Rightarrow> ('k \<times> 'v) list \<Rightarrow> ('k \<times> 'v) list" where
  "merase k [] = []"
| "merase k ((k', v') # m) = (if k = k' then m else (k', v') # merase k m)"

definition mtouch :: "'v \<Rightarrow> 'k::linorder \<Rightarrow> ('k \<times> 'v) list \<Rightarrow> ('k \<times> 'v) list" where
  "mtouch d k m = (case mget m k of None \<Rightarrow> mput k d m | Some v \<Rightarrow> m)"

definition msorted :: "('k::linorder \<times> 'v) list \<Rightarrow> bool" where
  "msorted m \<longleftrightarrow> sorted_wrt (<) (map fst m)"

section \<open>Interface\<close>

locale ordered_map =
  fixes get :: "'m \<Rightarrow> 'k \<Rightarrow> 'v option"
    and put :: "'k \<Rightarrow> 'v \<Rightarrow> 'm \<Rightarrow> 'm"
    and erase :: "'k \<Rightarrow> 'm \<Rightarrow> 'm"
    and invar :: "'m \<Rightarrow> bool"
  assumes get_put: "get (put k v m) = (get m)(k \<mapsto> v)"
    and get_erase: "invar m \<Longrightarrow> get (erase k m) = (get m)(k := None)"
    and invar_put: "invar m \<Longrightarrow> invar (put k v m)"
    and invar_erase: "invar m \<Longrightarrow> invar (erase k m)"
    and ext: "invar m \<Longrightarrow> invar m' \<Longrightarrow> get m = get m' \<Longrightarrow> m = m'"
begin

lemma put_put: "invar m \<Longrightarrow> put k v (put k v' m) = put k v m"
  by (rule ext) (simp_all add: invar_put get_put)

lemma put_swap: "invar m \<Longrightarrow> k \<noteq> k' \<Longrightarrow> put k v (put k' v' m) = put k' v' (put k v m)"
  by (rule ext) (simp_all add: invar_put get_put fun_upd_twist)

lemma put_same: "invar m \<Longrightarrow> get m k = Some v \<Longrightarrow> put k v m = m"
  by (rule ext) (simp_all add: invar_put get_put fun_upd_idem)

lemma erase_put: "invar m \<Longrightarrow> get m k = None \<Longrightarrow> erase k (put k v m) = m"
  by (rule ext) (simp_all add: invar_put invar_erase get_put get_erase fun_upd_idem)

lemma erase_none: "invar m \<Longrightarrow> get m k = None \<Longrightarrow> erase k m = m"
  by (rule ext) (simp_all add: invar_erase get_erase fun_upd_idem)

end

lemma fst_mput: "fst ` set (mput k v m) = insert k (fst ` set m)"
  by (induction k v m rule: mput.induct) auto

lemma msorted_Cons [simp]: "msorted ((k, v) # m) \<longleftrightarrow> (\<forall>x \<in> fst ` set m. k < x) \<and> msorted m"
  by (auto simp: msorted_def)

lemma msorted_Nil [simp]: "msorted []"
  by (simp add: msorted_def)

lemma msorted_mput: "msorted m \<Longrightarrow> msorted (mput k v m)"
  by (induction k v m rule: mput.induct) (auto simp: fst_mput simp flip: image_iff)

lemma map_of_mput: "map_of (mput k v m) = (map_of m)(k \<mapsto> v)"
  by (induction k v m rule: mput.induct) auto

lemma set_merase: "set (merase k m) \<subseteq> set m"
  by (induction m) (auto split: if_splits)

lemma fst_merase: "fst ` set (merase k m) \<subseteq> fst ` set m"
  using set_merase by (rule image_mono)

lemma msorted_merase: "msorted m \<Longrightarrow> msorted (merase k m)"
  by (induction m) (use fst_merase in \<open>fastforce+\<close>)

lemma map_of_merase: "msorted m \<Longrightarrow> map_of (merase k m) = (map_of m)(k := None)"
proof (induction m)
  case (Cons a m)
  have "map_of m (fst a) = None"
    using Cons.prems by (cases a) (force simp: map_of_eq_None_iff)
  then show ?case using Cons by (cases a) (auto simp: fun_eq_iff)
qed simp

lemma msorted_distinct: "msorted m \<Longrightarrow> sorted (map fst m) \<and> distinct (map fst m)"
  by (simp add: msorted_def strict_sorted_iff)

lemma msorted_ext:
  assumes "msorted m" "msorted m'" "map_of m = map_of m'"
  shows "m = m'"
proof -
  note d = assms(1,2) [THEN msorted_distinct]
  have e: "set m = set m'" using map_of_inject_set d assms(3) by blast
  have "inj_on fst (set m \<union> set m')" using d e by (simp add: distinct_map)
  then show ?thesis using d e by (intro map_sorted_distinct_set_unique [of fst]) simp_all
qed

interpretation smap: ordered_map mget mput merase msorted
  by unfold_locales
    (auto simp: mget_def fun_eq_iff map_of_mput map_of_merase msorted_mput msorted_merase intro: msorted_ext)

text \<open>Keys that arrive in increasing order are appended.\<close>

lemma mput_snoc: "(\<forall>x \<in> fst ` set m. x < k) \<Longrightarrow> mput k v m = m @ [(k, v)]"
  by (induction m) (auto simp: less_le_not_le)

lemma mput_last: "(\<forall>x \<in> fst ` set m. x < k) \<Longrightarrow> mput k v (m @ [(k, v')]) = m @ [(k, v)]"
  by (induction m) (auto simp: less_le_not_le)

lemma mget_last: "(\<forall>x \<in> fst ` set m. x < (k :: 'k::linorder)) \<Longrightarrow> mget (m @ [(k, v)]) k = Some v"
  unfolding mget_def by (induction m) auto

lemma msorted_snoc: "msorted (m @ [(k, v)]) \<longleftrightarrow> msorted m \<and> (\<forall>x \<in> fst ` set m. x < k)"
  by (auto simp: msorted_def sorted_wrt_append)

end
