(* ===== verification/Str_Util.thy ===== *)
theory Str_Util
  imports Mars_Prelude "HOL-Library.Sublist"
begin

text \<open>
  The string utilities of comm/strutil.cc and comm/strutil.h: trimming, searching, the tokenizer,
  URL and hexadecimal encodings. A string is the list of its characters; positions are natural
  numbers, and \<open>None\<close> is \<open>npos\<close>.
\<close>

section \<open>Characters\<close>

text \<open>\<open>isspace\<close>, \<open>toupper\<close> and \<open>tolower\<close> in the C locale.\<close>

definition is_space :: "char \<Rightarrow> bool" where
  "is_space c \<longleftrightarrow> c = CHR '' '' \<or> c \<in> {CHR 0x09, CHR 0x0A, CHR 0x0B, CHR 0x0C, CHR 0x0D}"

definition char_code :: "char \<Rightarrow> nat" where
  "char_code c = of_char c"

definition to_upper :: "char \<Rightarrow> char" where
  "to_upper c = (if 97 \<le> char_code c \<and> char_code c \<le> 122 then char_of (char_code c - 32) else c)"

definition to_lower :: "char \<Rightarrow> char" where
  "to_lower c = (if 65 \<le> char_code c \<and> char_code c \<le> 90 then char_of (char_code c + 32) else c)"

definition hex_digit :: "bool \<Rightarrow> nat \<Rightarrow> char" where
  "hex_digit upper d = (if upper then ''0123456789ABCDEF'' else ''0123456789abcdef'') ! d"

text \<open>\<open>%02x\<close> and \<open>%02X\<close> of a byte.\<close>

definition hex_byte :: "bool \<Rightarrow> char \<Rightarrow> string" where
  "hex_byte upper c = [hex_digit upper (char_code c div 16), hex_digit upper (char_code c mod 16)]"

section \<open>Encodings\<close>

definition url_plain :: "char \<Rightarrow> bool" where
  "url_plain ch \<longleftrightarrow>
     65 \<le> char_code ch \<and> char_code ch \<le> 90 \<or> 97 \<le> char_code ch \<and> char_code ch \<le> 122 \<or>
     48 \<le> char_code ch \<and> char_code ch \<le> 57 \<or> ch \<in> {CHR ''.'', CHR ''-'', CHR ''_'', CHR ''*''}"

text \<open>\<open>URLEncode\<close> appends to the output string.\<close>

fun URLEncode :: "string \<Rightarrow> string \<Rightarrow> string" where
  "URLEncode [] out = out"
| "URLEncode (ch # url) out =
     URLEncode url (out @ (if url_plain ch then [ch]
                           else if ch = CHR '' '' then ''+''
                           else CHR ''%'' # hex_byte True ch))"

fun Hex2Str :: "string \<Rightarrow> string" where
  "Hex2Str [] = []"
| "Hex2Str (c # cs) = hex_byte False c @ Hex2Str cs"

text \<open>\<open>strtol\<close> in base 16 of the two characters copied to \<open>tmp\<close>, converted to
  \<open>char\<close>.\<close>

definition hex_val :: "char \<Rightarrow> nat" where
  "hex_val c =
     (let n = char_code c
      in if 48 \<le> n \<and> n \<le> 57 then n - 48
         else if 65 \<le> n \<and> n \<le> 70 then n - 55
         else if 97 \<le> n \<and> n \<le> 102 then n - 87 else 16)"

definition strtol16 :: "string \<Rightarrow> int" where
  "strtol16 s =
     (let s1 = dropWhile is_space (takeWhile (\<lambda>c. c \<noteq> CHR 0x00) s);
          neg = (s1 \<noteq> [] \<and> hd s1 = CHR ''-'');
          s2 = (if s1 \<noteq> [] \<and> (hd s1 = CHR ''-'' \<or> hd s1 = CHR ''+'') then tl s1 else s1);
          v = int (foldl (\<lambda>a c. a * 16 + hex_val c) 0 (takeWhile (\<lambda>c. hex_val c < 16) s2))
      in if neg then - v else v)"

definition byte_of :: "int \<Rightarrow> char" where
  "byte_of v = char_of (nat (v mod 256))"

text \<open>\<open>Str2Hex\<close>: the output array has 64 bytes, longer input is cut.\<close>

definition Str2Hex :: "string \<Rightarrow> string" where
  "Str2Hex str =
     map (\<lambda>i. byte_of (strtol16 [str ! (i * 2), str ! (i * 2 + 1)])) [0..<min (length str div 2) 64]"

section \<open>Trimming and case\<close>

definition TrimLeft :: "string \<Rightarrow> string" where
  "TrimLeft str = dropWhile is_space str"

text \<open>The loops that run backwards from the last character.\<close>

fun trim_back :: "string \<Rightarrow> nat \<Rightarrow> string" where
  "trim_back t 0 = (if \<not> is_space (t ! 0) then take 1 t else [])"
| "trim_back t (Suc i) = (if \<not> is_space (t ! Suc i) then take (Suc (Suc i)) t else trim_back t i)"

definition TrimRight :: "string \<Rightarrow> string" where
  "TrimRight str = (if str = [] then str else trim_back str (length str - 1))"

definition Trim :: "string \<Rightarrow> string" where
  "Trim str =
     (let t = dropWhile is_space str in if t = [] then [] else trim_back t (length t - 1))"

definition ToLower :: "string \<Rightarrow> string" where "ToLower str = map to_lower str"

definition ToUpper :: "string \<Rightarrow> string" where "ToUpper str = map to_upper str"

definition ReplaceChar :: "string \<Rightarrow> char \<Rightarrow> char \<Rightarrow> string" where
  "ReplaceChar input_str be_replaced replace_with =
     map (\<lambda>c. if be_replaced = c then replace_with else c) (takeWhile (\<lambda>c. c \<noteq> CHR 0x00) input_str)"

section \<open>Searching\<close>

text \<open>\<open>std::search\<close> with a comparison of characters, \<open>std::string::find\<close> and \<open>rfind\<close>.\<close>

fun matches_at :: "(char \<Rightarrow> char \<Rightarrow> bool) \<Rightarrow> string \<Rightarrow> string \<Rightarrow> bool" where
  "matches_at eq [] s = True"
| "matches_at eq (p # ps) [] = False"
| "matches_at eq (p # ps) (c # s) = (eq c p \<and> matches_at eq ps s)"

fun search :: "(char \<Rightarrow> char \<Rightarrow> bool) \<Rightarrow> string \<Rightarrow> string \<Rightarrow> nat option" where
  "search eq p s =
     (if matches_at eq p s then Some 0
      else case s of [] \<Rightarrow> None | c # s' \<Rightarrow> map_option Suc (search eq p s'))"

definition str_find :: "string \<Rightarrow> string \<Rightarrow> nat option" where
  "str_find str p = search (=) p str"

fun str_rfind :: "string \<Rightarrow> string \<Rightarrow> nat option" where
  "str_rfind [] p = (if p = [] then Some 0 else None)"
| "str_rfind (c # s) p =
     (case str_rfind s p of
        Some i \<Rightarrow> Some (Suc i)
      | None \<Rightarrow> if matches_at (=) p (c # s) then Some 0 else None)"

definition StartsWith :: "string \<Rightarrow> string \<Rightarrow> bool" where
  "StartsWith str substr \<longleftrightarrow> str_find str substr = Some 0"

definition EndsWith :: "string \<Rightarrow> string \<Rightarrow> bool" where
  "EndsWith str substr \<longleftrightarrow>
     (case str_rfind str substr of None \<Rightarrow> False | Some i \<Rightarrow> int i = int (length str) - int (length substr))"

text \<open>\<open>ci_find_substr\<close>; a start position behind the string is outside its range.\<close>

definition ci_find_substr :: "string \<Rightarrow> string \<Rightarrow> nat \<Rightarrow> nat option option" where
  "ci_find_substr str sub pos =
     (if length str < pos then None
      else case search (\<lambda>c d. to_upper c = to_upper d) sub (drop pos str) of
             None \<Rightarrow> Some None
           | Some i \<Rightarrow> Some (if pos + i \<noteq> length str then Some (pos + i) else None))"

definition strrchr :: "string \<Rightarrow> char \<Rightarrow> nat option" where
  "strrchr s c = str_rfind s [c]"

definition GetFileNameFromPath :: "string option \<Rightarrow> string" where
  "GetFileNameFromPath path =
     (case path of
        None \<Rightarrow> []
      | Some p \<Rightarrow>
          case (case strrchr p (CHR 0x5C) of None \<Rightarrow> strrchr p (CHR ''/'') | Some i \<Rightarrow> Some i) of
            None \<Rightarrow> p
          | Some i \<Rightarrow> if drop (i + 1) p = [] then p else drop (i + 1) p)"

section \<open>The tokenizer\<close>

definition find_first :: "(char \<Rightarrow> bool) \<Rightarrow> string \<Rightarrow> nat \<Rightarrow> nat option" where
  "find_first P s pos =
     (let i = pos + length (takeWhile (\<lambda>c. \<not> P c) (drop pos s)) in if i < length s then Some i else None)"

record Tokenizer =
  tk_offset :: nat
  tk_string :: string
  tk_token :: string
  tk_delimiters :: string

definition Tokenizer_new :: "string \<Rightarrow> string \<Rightarrow> Tokenizer" where
  "Tokenizer_new str delimiters =
     \<lparr>tk_offset = 0, tk_string = str, tk_token = [], tk_delimiters = delimiters\<rparr>"

definition NextToken :: "Tokenizer \<Rightarrow> bool \<times> Tokenizer" where
  "NextToken t =
     (let s = tk_string t; ds = tk_delimiters t
      in case find_first (\<lambda>c. c \<notin> set ds) s (tk_offset t) of
           None \<Rightarrow> (False, t\<lparr>tk_offset := length s\<rparr>)
         | Some i \<Rightarrow>
             case find_first (\<lambda>c. c \<in> set ds) s i of
               None \<Rightarrow> (True, t\<lparr>tk_token := drop i s, tk_offset := length s\<rparr>)
             | Some j \<Rightarrow> (True, t\<lparr>tk_token := take (j - i) (drop i s), tk_offset := j\<rparr>))"

lemma find_first_bounds: "find_first P s pos = Some i \<Longrightarrow> pos \<le> i \<and> i < length s \<and> P (s ! i)"
proof -
  assume a: "find_first P s pos = Some i"
  let ?n = "length (takeWhile (\<lambda>c. \<not> P c) (drop pos s))"
  have i: "i = pos + ?n" "i < length s" using a by (auto simp: find_first_def Let_def split: if_splits)
  then have "?n < length (drop pos s)" by simp
  from nth_length_takeWhile [OF this] show ?thesis using i by simp
qed

function split_tokens :: "Tokenizer \<Rightarrow> string list" where
  "split_tokens t =
     (case NextToken t of (True, t') \<Rightarrow> tk_token t' # split_tokens t' | (False, t') \<Rightarrow> [])"
  by pat_completeness auto

lemma NextToken_shorter:
  assumes "NextToken t = (True, t')"
  shows "length (tk_string t') - tk_offset t' < length (tk_string t) - tk_offset t"
proof -
  obtain i where i: "find_first (\<lambda>c. c \<notin> set (tk_delimiters t)) (tk_string t) (tk_offset t) = Some i"
    using assms by (auto simp: NextToken_def Let_def split: option.splits)
  note b = find_first_bounds [OF i]
  show ?thesis
  proof (cases "find_first (\<lambda>c. c \<in> set (tk_delimiters t)) (tk_string t) i")
    case None
    then show ?thesis using assms i b by (auto simp: NextToken_def Let_def)
  next
    case (Some j)
    from find_first_bounds [OF Some] have "i < j" using b by (cases "i = j") auto
    then show ?thesis using assms i b Some find_first_bounds [OF Some] by (auto simp: NextToken_def Let_def)
  qed
qed

termination split_tokens
  by (relation "measure (\<lambda>t. length (tk_string t) - tk_offset t)") (auto dest: NextToken_shorter [OF sym])

declare split_tokens.simps [simp del]

definition SplitToken :: "string \<Rightarrow> string \<Rightarrow> string list" where
  "SplitToken str delimiters = split_tokens (Tokenizer_new str delimiters)"

definition default_delimiters :: string where
  "default_delimiters = '' '' @ [CHR 0x09, CHR 0x0A, CHR 0x0D] @ '';:,.?''"

text \<open>\<open>MergeToken\<close>: \<open>None\<close> is the result \<open>false\<close>.\<close>

fun merge_tokens :: "string list \<Rightarrow> string \<Rightarrow> string" where
  "merge_tokens [] d = []"
| "merge_tokens [t] d = t"
| "merge_tokens (t # ts) d = t @ d @ merge_tokens ts d"

definition MergeToken :: "string list \<Rightarrow> string \<Rightarrow> string option" where
  "MergeToken ts delimiter =
     (if ts = [] then None else if delimiter = [] then None else Some (merge_tokens ts delimiter))"

section \<open>Searching finds what it should\<close>

lemma matches_at_prefix: "matches_at (=) p s \<longleftrightarrow> prefix p s"
  by (induction "(=) :: char \<Rightarrow> char \<Rightarrow> bool" p s rule: matches_at.induct) auto

lemma search_0: "search eq p s = Some 0 \<longleftrightarrow> matches_at eq p s"
  by (subst search.simps) (auto split: list.splits)

lemma str_rfind_Some: "str_rfind s p = Some i \<Longrightarrow> i \<le> length s \<and> prefix p (drop i s)"
  by (induction s arbitrary: i) (auto simp: matches_at_prefix split: if_splits option.splits)

lemma str_rfind_suffix: "suffix p s \<Longrightarrow> str_rfind s p = Some (length s - length p)"
proof (induction s)
  case (Cons c s)
  show ?case
  proof (cases "suffix p s")
    case True
    then have "length p \<le> length s" by (rule suffix_length_le)
    then show ?thesis using Cons.IH [OF True] by (simp add: Suc_diff_le)
  next
    case False
    then have p: "p = c # s" using Cons.prems by (auto simp: suffix_Cons)
    have "str_rfind s (c # s) = None"
      using str_rfind_Some [of s "c # s"] by (cases "str_rfind s (c # s)") (auto dest: prefix_length_le)
    then show ?thesis using p by (simp add: matches_at_prefix)
  qed
qed simp

section \<open>Trimming\<close>

lemma trim_back_rev: "i < length t \<Longrightarrow> trim_back t i = rev (dropWhile is_space (rev (take (Suc i) t)))"
proof (induction i)
  case 0
  then show ?case by (cases t) auto
next
  case (Suc i)
  then have "take (Suc (Suc i)) t = take (Suc i) t @ [t ! Suc i]" by (simp add: take_Suc_conv_app_nth)
  then show ?case using Suc by simp
qed

lemma TrimRight_rev: "TrimRight s = rev (dropWhile is_space (rev s))"
  using trim_back_rev [of "length s - 1" s] by (cases s) (simp_all add: TrimRight_def)

lemma Trim_both: "Trim s = TrimRight (TrimLeft s)"
  unfolding Trim_def TrimRight_def TrimLeft_def Let_def by (simp del: dropWhile_eq_Nil_conv)

lemma Trim_ends: "Trim s = [] \<or> \<not> is_space (hd (Trim s)) \<and> \<not> is_space (last (Trim s))"
proof -
  let ?t = "TrimLeft s" and ?r = "TrimRight (TrimLeft s)"
  have "?r = [] \<or> \<not> is_space (last ?r)"
    unfolding TrimRight_rev using hd_dropWhile [of is_space "rev ?t"] by (auto simp: last_rev)
  moreover have "?r = [] \<or> \<not> is_space (hd ?r)"
  proof -
    have "prefix ?r ?t" unfolding TrimRight_rev
      by (metis rev_rev_ident suffix_dropWhile suffix_to_prefix)
    then have "?r = [] \<or> hd ?r = hd ?t" by (metis hd_append2 prefix_def)
    moreover have "?t = [] \<or> \<not> is_space (hd ?t)" using hd_dropWhile [of is_space s] by (auto simp: TrimLeft_def)
    ultimately show ?thesis by (auto simp: TrimRight_def)
  qed
  ultimately show ?thesis by (auto simp: Trim_both)
qed

section \<open>Tokens\<close>

text \<open>The tokens of a string in the usual sense: the maximal runs without delimiters.\<close>

function tokens :: "(char \<Rightarrow> bool) \<Rightarrow> string \<Rightarrow> string list" where
  "tokens d s =
     (let s' = dropWhile d s
      in if s' = [] then [] else takeWhile (\<lambda>c. \<not> d c) s' # tokens d (dropWhile (\<lambda>c. \<not> d c) s'))"
  by pat_completeness auto

lemma dropWhile_shorter: "dropWhile P s \<noteq> [] \<Longrightarrow> length (dropWhile (\<lambda>c. \<not> P c) (dropWhile P s)) < length s"
proof -
  assume a: "dropWhile P s \<noteq> []"
  then obtain c r where c: "dropWhile P s = c # r" "\<not> P c" using hd_dropWhile [OF a] by (cases "dropWhile P s") auto
  have "length (dropWhile (\<lambda>c. \<not> P c) r) \<le> length r" by (rule length_dropWhile_le)
  moreover have "length (c # r) \<le> length s" using length_dropWhile_le [of P s] c(1) by simp
  ultimately show ?thesis using c by simp
qed

termination tokens
  by (relation "measure (\<lambda>(d, s). length s)") (simp_all add: dropWhile_shorter del: dropWhile_eq_Nil_conv)

declare tokens.simps [simp del]

lemma find_first_drop:
  "pos \<le> length s \<Longrightarrow> dropWhile (\<lambda>c. \<not> P c) (drop pos s) =
     (case find_first P s pos of None \<Rightarrow> [] | Some i \<Rightarrow> drop i s)"
  "pos \<le> length s \<Longrightarrow> takeWhile (\<lambda>c. \<not> P c) (drop pos s) =
     (case find_first P s pos of None \<Rightarrow> drop pos s | Some i \<Rightarrow> take (i - pos) (drop pos s))"
proof -
  assume p: "pos \<le> length s"
  let ?t = "takeWhile (\<lambda>c. \<not> P c) (drop pos s)"
  have le: "length ?t \<le> length s - pos" using length_takeWhile_le [of _ "drop pos s"] by simp
  have dw: "dropWhile (\<lambda>c. \<not> P c) (drop pos s) = drop (pos + length ?t) s"
    by (simp add: dropWhile_eq_drop add.commute)
  show "dropWhile (\<lambda>c. \<not> P c) (drop pos s) = (case find_first P s pos of None \<Rightarrow> [] | Some i \<Rightarrow> drop i s)"
    unfolding dw by (simp add: find_first_def Let_def)
  show "?t = (case find_first P s pos of None \<Rightarrow> drop pos s | Some i \<Rightarrow> take (i - pos) (drop pos s))"
    using le p takeWhile_eq_take [of "\<lambda>c. \<not> P c" "drop pos s"] by (auto simp: find_first_def Let_def)
qed

lemma split_tokens_eq:
  "tk_offset t \<le> length (tk_string t) \<Longrightarrow>
   split_tokens t = tokens (\<lambda>c. c \<in> set (tk_delimiters t)) (drop (tk_offset t) (tk_string t))"
proof (induction t rule: split_tokens.induct)
  case (1 t)
  let ?s = "tk_string t" and ?d = "\<lambda>c. c \<in> set (tk_delimiters t)"
  note f = find_first_drop [OF 1(2), where P = "\<lambda>c. \<not> ?d c", simplified]
  show ?case
  proof (cases "find_first (\<lambda>c. \<not> ?d c) ?s (tk_offset t)")
    case None
    then have "NextToken t = (False, t\<lparr>tk_offset := length ?s\<rparr>)" by (simp add: NextToken_def)
    then show ?thesis
      using f(1) None by (subst split_tokens.simps, subst tokens.simps) simp
  next
    case (Some i)
    have i: "i < length ?s" "drop i ?s \<noteq> []" using find_first_bounds [OF Some] by simp_all
    note g = find_first_drop [of i ?s, where P = ?d, OF less_imp_le [OF i(1)]]
    obtain t' where t': "NextToken t = (True, t')" "tk_token t' = takeWhile (\<lambda>c. \<not> ?d c) (drop i ?s)"
      "tk_delimiters t' = tk_delimiters t" "tk_string t' = ?s" "tk_offset t' \<le> length ?s"
      "drop (tk_offset t') ?s = dropWhile (\<lambda>c. \<not> ?d c) (drop i ?s)"
    proof (cases "find_first ?d ?s i")
      case None
      then show ?thesis
        using that [of "t\<lparr>tk_token := drop i ?s, tk_offset := length ?s\<rparr>"] g Some by (simp add: NextToken_def Let_def)
    next
      case (Some j)
      then show ?thesis
        using that [of "t\<lparr>tk_token := take (j - i) (drop i ?s), tk_offset := j\<rparr>"] g
          find_first_bounds [OF Some] \<open>find_first (\<lambda>c. \<not> ?d c) ?s (tk_offset t) = Some i\<close>
        by (simp add: NextToken_def Let_def)
    qed
    have "split_tokens t' = tokens ?d (dropWhile (\<lambda>c. \<not> ?d c) (drop i ?s))"
      using 1(1) [OF t'(1) [symmetric] refl] t'(3-6) by simp
    then show ?thesis
      using f(1) Some i t'(1,2) by (subst split_tokens.simps, subst tokens.simps) (simp add: Let_def)
  qed
qed

lemma tokens_step:
  assumes "t \<noteq> []" "\<forall>c \<in> set t. \<not> d c" "s = [] \<or> d (hd s)"
  shows "tokens d (t @ s) = t # tokens d s"
proof -
  have dw: "dropWhile d (t @ s) = t @ s" using assms(1,2) by (cases t) simp_all
  have "takeWhile (\<lambda>c. \<not> d c) s = []" "dropWhile (\<lambda>c. \<not> d c) s = s" using assms(3) by (cases s, auto)+
  then have "takeWhile (\<lambda>c. \<not> d c) (t @ s) = t" "dropWhile (\<lambda>c. \<not> d c) (t @ s) = s"
    using assms(2) by (simp_all add: takeWhile_append2 dropWhile_append2)
  then show ?thesis using assms(1) by (subst tokens.simps) (simp add: dw)
qed

lemma tokens_skip: "\<forall>c \<in> set ds. d c \<Longrightarrow> tokens d (ds @ s) = tokens d s"
  by (subst (1 2) tokens.simps) (simp add: dropWhile_append2)

lemma tokens_merge:
  assumes "\<forall>t \<in> set ts. t \<noteq> [] \<and> (\<forall>c \<in> set t. \<not> d c)" "ds \<noteq> []" "\<forall>c \<in> set ds. d c"
  shows "tokens d (merge_tokens ts ds) = ts"
  using assms(1)
proof (induction ts)
  case (Cons t ts)
  show ?case
  proof (cases ts)
    case Nil
    then show ?thesis using Cons.prems tokens_step [of t d "[]"] by (simp add: tokens.simps [of d "[]"])
  next
    case (Cons t' ts')
    have "d (hd (ds @ merge_tokens ts ds))" using assms(2,3) by (cases ds) simp_all
    then have "tokens d (t @ ds @ merge_tokens ts ds) = t # tokens d (merge_tokens ts ds)"
      using Cons.prems(1) tokens_step [of t d "ds @ merge_tokens ts ds"] tokens_skip [OF assms(3)] by simp
    then show ?thesis using Cons.IH Cons.prems local.Cons by simp
  qed
qed (simp add: tokens.simps)

section \<open>Encodings can be undone\<close>

lemma char_code_less: "char_code c < 256"
  by (simp add: char_code_def)

lemma char_of_code: "char_of (char_code c) = c"
  by (simp add: char_code_def)

lemma all_hex: "list_all P [0..<16] \<Longrightarrow> d < 16 \<Longrightarrow> P d"
  by (auto simp: list_all_iff)

lemma upto_16: "[0..<16] = [0,1,2,3,4,5,6,7,8,9,10,11,12,13,14,15]"
  by (simp add: upt_rec)

lemmas hex_simps = upto_16 hex_digit_def hex_val_def char_code_def is_space_def Let_def

lemma hex_digit_val: "d < 16 \<Longrightarrow> hex_val (hex_digit upper d) = d"
  by (rule all_hex [where P = "\<lambda>d. hex_val (hex_digit upper d) = d"]) (cases upper; simp add: hex_simps)

lemma hex_digit_plain:
  "d < 16 \<Longrightarrow> \<not> is_space (hex_digit upper d) \<and> hex_digit upper d \<notin> {CHR ''-'', CHR ''+'', CHR 0x00}"
  by (rule all_hex [where P = "\<lambda>d. \<not> is_space (hex_digit upper d) \<and> hex_digit upper d \<notin> {CHR ''-'', CHR ''+'', CHR 0x00}"])
    (cases upper; simp add: hex_simps)

lemma strtol16_hex_byte: "byte_of (strtol16 (hex_byte upper c)) = c"
proof -
  let ?h = "char_code c div 16" and ?l = "char_code c mod 16"
  have d: "?h < 16" "?l < 16" using char_code_less [of c] by auto
  have "strtol16 (hex_byte upper c) = int (?h * 16 + ?l)"
    using hex_digit_plain [OF d(1), of upper] hex_digit_plain [OF d(2), of upper]
      hex_digit_val [OF d(1), of upper] hex_digit_val [OF d(2), of upper] d
    by (simp add: strtol16_def hex_byte_def Let_def)
  also have "\<dots> = int (char_code c)" by (simp only: div_mult_mod_eq)
  finally show ?thesis using char_code_less [of c] by (simp add: byte_of_def char_of_code nat_mod_as_int)
qed

lemma length_Hex2Str: "length (Hex2Str s) = 2 * length s"
  by (induction s) (simp_all add: hex_byte_def)

lemma nth_Hex2Str:
  "i < length s \<Longrightarrow> [Hex2Str s ! (i * 2), Hex2Str s ! (i * 2 + 1)] = hex_byte False (s ! i)"
proof (induction s arbitrary: i)
  case (Cons c s)
  then show ?case by (cases i) (simp_all add: hex_byte_def)
qed simp

text \<open>A decoder of the URL form, as a reference.\<close>

fun url_decode :: "string \<Rightarrow> string" where
  "url_decode [] = []"
| "url_decode (c # s) =
     (if c = CHR ''+'' then CHR '' '' # url_decode s
      else if c = CHR ''%'' then
        (case s of a # b # s' \<Rightarrow> byte_of (strtol16 [a, b]) # url_decode s' | _ \<Rightarrow> [])
      else c # url_decode s)"

fun url_chars :: "string \<Rightarrow> string" where
  "url_chars [] = []"
| "url_chars (ch # s) =
     (if url_plain ch then [ch] else if ch = CHR '' '' then ''+'' else CHR ''%'' # hex_byte True ch) @ url_chars s"

lemma URLEncode_append: "URLEncode s out = out @ url_chars s"
  by (induction s arbitrary: out) simp_all

lemma url_decode_chars: "url_decode (url_chars s) = s"
proof (induction s)
  case (Cons c s)
  have "\<not> url_plain CHR ''+''" "\<not> url_plain CHR ''%''" by (simp_all add: url_plain_def char_code_def)
  then show ?case using Cons strtol16_hex_byte [of True c] by (auto simp: hex_byte_def)
qed simp

section \<open>Properties\<close>

text \<open>Splitting undoes merging: the tokens of a merged string are the merged tokens, for non-empty
  tokens without delimiters and a non-empty separator made of delimiters.\<close>

theorem split_merge:
  assumes "MergeToken ts sep = Some s" "set sep \<subseteq> set delims" "\<forall>t \<in> set ts. t \<noteq> [] \<and> set t \<inter> set delims = {}"
  shows "SplitToken s delims = ts"
proof -
  have "sep \<noteq> []" "s = merge_tokens ts sep" using assms(1) by (auto simp: MergeToken_def split: if_splits)
  then show ?thesis
    using tokens_merge [of ts "\<lambda>c. c \<in> set delims" sep] assms(2,3) split_tokens_eq [of "Tokenizer_new s delims"]
    by (auto simp: SplitToken_def Tokenizer_new_def)
qed

theorem split_merge_witness: "SplitToken ''10.0.0.1, 8080'' '', '' = [''10.0.0.1'', ''8080'']"
  by (rule split_merge [of _ "'', ''"]) (auto simp: MergeToken_def)

text \<open>The two searches with a position are the prefix and the suffix test: \<open>StartsWith\<close> by the
  first occurrence and \<open>EndsWith\<close> by the last one.\<close>

theorem starts_ends_with:
  "(StartsWith str substr \<longleftrightarrow> prefix substr str) \<and> (EndsWith str substr \<longleftrightarrow> suffix substr str)"
proof
  show "StartsWith str substr \<longleftrightarrow> prefix substr str"
    by (simp add: StartsWith_def str_find_def search_0 matches_at_prefix del: search.simps)
  show "EndsWith str substr \<longleftrightarrow> suffix substr str"
  proof
    assume "EndsWith str substr"
    then obtain i where "str_rfind str substr = Some i" "int i = int (length str) - int (length substr)"
      by (auto simp: EndsWith_def split: option.splits)
    then have i: "prefix substr (drop i str)" "length (drop i str) = length substr"
      using str_rfind_Some [of str substr i] by auto
    then have "drop i str = substr" by (metis append_eq_conv_conj prefix_def take_all_iff order_refl)
    then show "suffix substr str" by (metis suffix_drop)
  next
    assume "suffix substr str"
    then show "EndsWith str substr"
      using str_rfind_suffix [of substr str] suffix_length_le [of substr str] by (simp add: EndsWith_def)
  qed
qed

text \<open>The encodings are reversible: decoding the URL form gives the string back, and \<open>Str2Hex\<close>
  of the hexadecimal text gives back its first 64 bytes.\<close>

theorem encodings_reversible:
  "url_decode (URLEncode s []) = s \<and> Str2Hex (Hex2Str s) = take 64 s"
proof
  show "url_decode (URLEncode s []) = s" by (simp add: URLEncode_append url_decode_chars)
  show "Str2Hex (Hex2Str s) = take 64 s"
    using nth_Hex2Str [of _ s] strtol16_hex_byte
    by (intro nth_equalityI) (auto simp: Str2Hex_def length_Hex2Str)
qed

end
