(* ===== verification/String_Cast.thy ===== *)
theory String_Cast
  imports Str_Util
begin

text \<open>
  Conversions between numbers and text, comm/string_cast.h: \<open>string_cast_itoa\<close> prints an
  integer in a base between 2 and 36, and the \<open>number_cast\<close> templates read one back with
  \<open>strtoimax\<close> and \<open>strtoumax\<close> of the C library in base 0, where the text chooses
  between decimal, octal (leading 0) and hexadecimal (leading 0x). Strings hold no null
  character.
\<close>

section \<open>Printing\<close>

text \<open>Division of C, towards zero.\<close>

definition tdiv :: "int \<Rightarrow> int \<Rightarrow> int" where
  "tdiv a b = (if a < 0 then - ((- a) div b) else a div b)"

definition num_mapping :: "bool \<Rightarrow> string" where
  "num_mapping upper_case =
     (if upper_case
      then ''ZYXWVUTSRQPONMLKJIHGFEDCBA9876543210123456789ABCDEFGHIJKLMNOPQRSTUVWXYZ''
      else ''zyxwvutsrqponmlkjihgfedcba9876543210123456789abcdefghijklmnopqrstuvwxyz'')"

text \<open>The characters in the order in which the loop writes them: the last digit first. The base
  is at least 2 where the loop is entered.\<close>

function itoa_digits :: "bool \<Rightarrow> int \<Rightarrow> int \<Rightarrow> string" where
  "itoa_digits upper base tmp =
     (let quotient = tdiv tmp base;
          c = num_mapping upper ! nat (35 + tmp - quotient * base)
      in if quotient = 0 \<or> base < 2 then [c] else c # itoa_digits upper base quotient)"
  by pat_completeness auto

lemma tdiv_smaller:
  assumes "2 \<le> b" "tdiv a b \<noteq> 0"
  shows "\<bar>tdiv a b\<bar> < \<bar>a\<bar>"
proof -
  have d: "x div b < x" if "0 < x" for x :: int
    using that assms(1) by (intro int_div_less_self) simp_all
  have "a \<noteq> 0" using assms(2) by (auto simp: tdiv_def)
  then show ?thesis
    using d [of a] d [of "- a"] assms(1) pos_imp_zdiv_nonneg_iff [of b a]
      pos_imp_zdiv_nonneg_iff [of b "- a"]
    by (auto simp: tdiv_def)
qed

lemma tdiv_zero [simp]: "tdiv 0 b = 0"
  by (simp add: tdiv_def)

termination itoa_digits
  by (relation "measure (\<lambda>(u, b, t). nat \<bar>t\<bar>)") (auto simp: tdiv_smaller)

declare itoa_digits.simps [simp del]

definition string_cast_itoa :: "int \<Rightarrow> int \<Rightarrow> bool \<Rightarrow> string" where
  "string_cast_itoa v base upper_case =
     (if \<not> (2 \<le> base \<and> base \<le> 36) then ''itoa err''
      else rev (itoa_digits upper_case base v @ (if v < 0 then ''-'' else [])))"

section \<open>Reading\<close>

text \<open>The value of a digit in any base.\<close>

definition digit_val :: "char \<Rightarrow> nat" where
  "digit_val c =
     (let n = of_char c
      in if 48 \<le> n \<and> n \<le> 57 then n - 48
         else if 65 \<le> n \<and> n \<le> 90 then n - 55
         else if 97 \<le> n \<and> n \<le> 122 then n - 87 else 99)"

text \<open>The sign, the base that the prefix selects and the digits that follow it; \<open>None\<close>
  when there is no number.\<close>

definition number_prefix :: "string \<Rightarrow> nat \<times> string" where
  "number_prefix s =
     (case s of
        c # x # h # r \<Rightarrow>
          if c = CHR ''0'' \<and> (x = CHR ''x'' \<or> x = CHR ''X'') \<and> digit_val h < 16 then (16, h # r)
          else if c = CHR ''0'' then (8, s) else (10, s)
      | c # r \<Rightarrow> if c = CHR ''0'' then (8, s) else (10, s)
      | [] \<Rightarrow> (10, s))"

definition digits_value :: "nat \<Rightarrow> string \<Rightarrow> nat" where
  "digits_value base s = foldl (\<lambda>a c. a * base + digit_val c) 0 s"

definition scan_number :: "string \<Rightarrow> (bool \<times> nat) option" where
  "scan_number s =
     (let s1 = dropWhile is_space s;
          neg = (s1 \<noteq> [] \<and> hd s1 = CHR ''-'');
          s2 = (if s1 \<noteq> [] \<and> (hd s1 = CHR ''-'' \<or> hd s1 = CHR ''+'') then tl s1 else s1);
          (base, s3) = number_prefix s2;
          ds = takeWhile (\<lambda>c. digit_val c < base) s3
      in if ds = [] then None else Some (neg, digits_value base ds))"

definition strtoimax :: "string \<Rightarrow> int option" where
  "strtoimax s =
     (case scan_number s of
        None \<Rightarrow> None
      | Some (neg, n) \<Rightarrow>
          Some (if neg then max (- int n) (- (2 ^ 63)) else min (int n) (2 ^ 63 - 1)))"

definition strtoumax :: "string \<Rightarrow> int option" where
  "strtoumax s =
     (case scan_number s of
        None \<Rightarrow> None
      | Some (neg, n) \<Rightarrow>
          Some (if 2 ^ 64 - 1 < int n then 2 ^ 64 - 1
                else if neg then (- int n) mod 2 ^ 64 else int n))"

text \<open>The value and the flag \<open>vaild_\<close> of the casts to a signed or an unsigned type with the
  given limits.\<close>

definition clamp_cast :: "int \<Rightarrow> int \<Rightarrow> int option \<Rightarrow> int \<times> bool" where
  "clamp_cast lo hi r =
     (case r of None \<Rightarrow> (0, False)
      | Some v \<Rightarrow> if v < lo then (lo, False) else if hi < v then (hi, False) else (v, True))"

definition signed_number_cast :: "int \<Rightarrow> int \<Rightarrow> string \<Rightarrow> int \<times> bool" where
  "signed_number_cast lo hi s = clamp_cast lo hi (strtoimax s)"

definition unsigned_number_cast :: "int \<Rightarrow> int \<Rightarrow> string \<Rightarrow> int \<times> bool" where
  "unsigned_number_cast lo hi s = clamp_cast lo hi (strtoumax s)"

text \<open>\<open>string_cast(bool)\<close> and \<open>number_cast<bool>\<close>; \<open>strcasecmp\<close> compares the lower-case
  characters.\<close>

definition string_cast_bool :: "bool \<Rightarrow> string" where
  "string_cast_bool v = (if v then ''true'' else ''false'')"

definition strcaseeq :: "string \<Rightarrow> string \<Rightarrow> bool" where
  "strcaseeq s t \<longleftrightarrow> ToLower s = ToLower t"

definition bool_number_cast :: "string \<Rightarrow> bool \<times> bool" where
  "bool_number_cast s =
     (case SplitToken s default_delimiters of
        [] \<Rightarrow> (False, False)
      | t # ts \<Rightarrow>
          let r1 = (if t = ''1'' \<or> strcaseeq ''true'' t then (True, True) else (False, False))
          in if t = ''0'' \<or> strcaseeq ''false'' t then (False, True) else r1)"

section \<open>The digits that are printed\<close>

definition digit_char :: "bool \<Rightarrow> nat \<Rightarrow> char" where
  "digit_char upper d = num_mapping upper ! (35 + d)"

lemma all_digits:
  "list_all (P True) [0..<36] \<Longrightarrow> list_all (P False) [0..<36] \<Longrightarrow> d < 36 \<Longrightarrow> P upper d"
  by (cases upper) (auto simp: list_all_iff)

lemma upto_36: "[0..<36] = [0,1,2,3,4,5,6,7,8,9,10,11,12,13,14,15,16,17,18,19,20,21,22,23,24,25,26,27,28,29,30,31,32,33,34,35]"
  by (simp add: upt_rec)

lemmas digit_simps = upto_36 digit_char_def num_mapping_def digit_val_def is_space_def Let_def

lemma digit_char_val: "d < 36 \<Longrightarrow> digit_val (digit_char upper d) = d"
  by (rule all_digits [where P = "\<lambda>u d. digit_val (digit_char u d) = d"]) (simp_all add: digit_simps)

lemma mapping_symmetric: "d < 36 \<Longrightarrow> num_mapping upper ! (35 - d) = digit_char upper d"
  by (rule all_digits [where P = "\<lambda>u d. num_mapping u ! (35 - d) = digit_char u d"]) (simp_all add: digit_simps)

lemma digit_char_plain:
  "d < 36 \<Longrightarrow> \<not> is_space (digit_char upper d) \<and> digit_char upper d \<notin> {CHR ''-'', CHR ''+''}"
  by (rule all_digits [where P = "\<lambda>u d. \<not> is_space (digit_char u d) \<and> digit_char u d \<notin> {CHR ''-'', CHR ''+''}"])
    (simp_all add: digit_simps)

lemma digit_char_zero: "0 < d \<Longrightarrow> d < 36 \<Longrightarrow> digit_char upper d \<noteq> CHR ''0''"
  using digit_char_val [of d upper] by (auto simp: digit_val_def)

text \<open>The digits of a number in the usual sense, last digit first.\<close>

fun digits_rev :: "bool \<Rightarrow> nat \<Rightarrow> nat \<Rightarrow> string" where
  "digits_rev upper b n =
     (if n < b \<or> b < 2 then [digit_char upper (n mod b)]
      else digit_char upper (n mod b) # digits_rev upper b (n div b))"

declare digits_rev.simps [simp del]

text \<open>The loop prints the digits of the absolute value, for the most negative number of a type as
  well, because it never negates the value.\<close>

lemma tdiv_int: "tdiv (int n) (int b) = int (n div b)" "tdiv (- int n) (int b) = - int (n div b)"
  by (auto simp: tdiv_def zdiv_int)

lemma itoa_digits_abs:
  assumes b: "2 \<le> b" "b \<le> 36"
  shows "itoa_digits upper (int b) (int n) = digits_rev upper b n"
    and "itoa_digits upper (int b) (- int n) = digits_rev upper b n"
proof (induction n rule: less_induct)
  case (less n)
  have m: "n mod b < 36" using b by (intro less_le_trans [OF mod_less_divisor]) simp_all
  have e: "int n - int (n div b) * int b = int (n mod b)"
    "- int n + int (n div b) * int b = - int (n mod b)"
    by (simp_all add: minus_div_mult_eq_mod [symmetric] of_nat_mod zdiv_int)
  have i: "nat (35 + int n - int (n div b) * int b) = 35 + n mod b"
    "nat (35 - int n + int (n div b) * int b) = 35 - n mod b"
    using e m by linarith+
  have j: "nat (35 + int n) = 35 + n" "nat (35 - int n) = 35 - n" by linarith+
  have z: "n div b = 0 \<longleftrightarrow> n < b" using b by (simp add: div_eq_0_iff)
  have ih: "itoa_digits upper (int b) (int (n div b)) = digits_rev upper b (n div b)"
    "itoa_digits upper (int b) (- int (n div b)) = digits_rev upper b (n div b)" if "\<not> n < b"
    using that b less.IH [of "n div b"] by simp_all
  {
    case 1
    show ?case
      by (subst itoa_digits.simps, subst digits_rev.simps)
        (use b z ih(1) in \<open>simp add: Let_def tdiv_int i j digit_char_def\<close>)
  next
    case 2
    show ?case
      by (subst itoa_digits.simps, subst digits_rev.simps)
        (use b z ih(2) mapping_symmetric [OF m, of upper] in \<open>auto simp: Let_def tdiv_int i j\<close>)
  }
qed

lemma digits_value_snoc: "digits_value b (xs @ [c]) = digits_value b xs * b + digit_val c"
  by (simp add: digits_value_def)

lemma digits_rev_value:
  assumes "2 \<le> b" "b \<le> 36"
  shows "digits_value b (rev (digits_rev upper b n)) = n"
proof (induction n rule: less_induct)
  case (less n)
  have m: "digit_val (digit_char upper (n mod b)) = n mod b"
    using assms by (intro digit_char_val less_le_trans [OF mod_less_divisor]) simp_all
  have "digits_value b (rev (digits_rev upper b (n div b))) = n div b" if "\<not> n < b"
    using less.IH [of "n div b"] that assms by simp
  then show ?case
    by (subst digits_rev.simps)
      (use assms m in \<open>auto simp: digits_value_snoc digits_value_snoc [of b "[]", simplified] digits_value_def [of b "[]"]\<close>)
qed

lemma digits_rev_digits:
  assumes "2 \<le> b" "b \<le> 36"
  shows "set (digits_rev upper b n) \<subseteq> digit_char upper ` {0..<b}"
proof (induction n rule: less_induct)
  case (less n)
  then show ?case
    by (subst digits_rev.simps) (use assms less.IH [of "n div b"] in auto)
qed

lemma digits_rev_lead:
  assumes "2 \<le> b" "b \<le> 36" "0 < n"
  shows "digits_rev upper b n \<noteq> [] \<and> (\<exists>d. 0 < d \<and> d < b \<and> last (digits_rev upper b n) = digit_char upper d)"
  using assms(3)
proof (induction n rule: less_induct)
  case (less n)
  show ?case
  proof (cases "n < b")
    case True
    then show ?thesis by (subst digits_rev.simps, subst (2) digits_rev.simps) (use less.prems in auto)
  next
    case False
    then have "0 < n div b" "n div b < n" using assms by (simp_all add: div_greater_zero_iff)
    from less.IH [OF this(2,1)] show ?thesis
      by (subst digits_rev.simps, subst (2) digits_rev.simps) (use False assms in auto)
  qed
qed

text \<open>Scanning a printed number, with or without its sign.\<close>

lemma takeWhile_digits:
  "set xs \<subseteq> digit_char upper ` {0..<b} \<Longrightarrow> b \<le> 36 \<Longrightarrow> takeWhile (\<lambda>c. digit_val c < b) xs = xs"
  by (intro takeWhile_eq_all_conv [THEN iffD2] ballI) (auto simp: digit_char_val dest!: subsetD)

lemma number_prefix_nonzero: "s \<noteq> [] \<Longrightarrow> hd s \<noteq> CHR ''0'' \<Longrightarrow> number_prefix s = (10, s)"
  by (auto simp: number_prefix_def split: list.splits)

lemma scan_digits:
  fixes upper n
  assumes "0 < n"
  defines "ds \<equiv> rev (digits_rev upper 10 n)"
  shows "scan_number ds = Some (False, n)" and "scan_number (CHR ''-'' # ds) = Some (True, n)"
proof -
  obtain d where d: "digits_rev upper 10 n \<noteq> []" "0 < d" "d < 10" "hd ds = digit_char upper d"
    using digits_rev_lead [of 10 n upper] assms(1) unfolding ds_def by (auto simp: hd_rev)
  have "set ds \<subseteq> digit_char upper ` {0..<10}"
    using digits_rev_digits [of 10 upper n] by (simp add: ds_def)
  then have tw: "takeWhile (\<lambda>c. digit_val c < 10) ds = ds" by (rule takeWhile_digits) simp
  have hd: "hd ds \<noteq> CHR ''0''" "\<not> is_space (hd ds)" "hd ds \<noteq> CHR ''-''" "hd ds \<noteq> CHR ''+''"
    using digit_char_zero [OF d(2)] digit_char_plain [of d upper] d(3,4) by auto
  have ne: "ds \<noteq> []" using d(1) by (simp add: ds_def)
  have np: "number_prefix ds = (10, ds)" by (rule number_prefix_nonzero [OF ne hd(1)])
  have val: "digits_value 10 ds = n" using digits_rev_value [of 10 upper n] by (simp add: ds_def)
  have dw: "dropWhile is_space ds = ds" using ne hd(2) by (cases ds) simp_all
  show "scan_number ds = Some (False, n)"
    using ne hd(3,4) by (simp add: scan_number_def dw np tw val)
  have "\<not> is_space CHR ''-''" by (simp add: is_space_def)
  then show "scan_number (CHR ''-'' # ds) = Some (True, n)"
    using ne by (simp add: scan_number_def np tw val)
qed

lemma scan_zero: "scan_number (string_cast_itoa 0 10 upper) = Some (False, 0)"
  by (simp add: string_cast_itoa_def itoa_digits.simps [of upper 10 0] scan_number_def
      number_prefix_def digits_value_def digit_val_def is_space_def num_mapping_def Let_def)

lemma scan_itoa:
  "scan_number (string_cast_itoa v 10 upper) = Some (v < 0, nat \<bar>v\<bar>)"
proof (cases "v = 0")
  case False
  let ?n = "nat \<bar>v\<bar>"
  have v: "v = int ?n \<or> v = - int ?n" by linarith
  have "itoa_digits upper 10 v = digits_rev upper 10 ?n"
    using v itoa_digits_abs [of 10 upper ?n] by auto
  then show ?thesis
    using False scan_digits [of ?n upper] by (cases "v < 0") (simp_all add: string_cast_itoa_def)
qed (simp add: scan_zero)

text \<open>The number of characters.\<close>

lemma length_digits_rev:
  assumes "2 \<le> b" "n < b ^ k" "0 < k"
  shows "length (digits_rev upper b n) \<le> k"
  using assms(2,3)
proof (induction k arbitrary: n)
  case (Suc k)
  show ?case
  proof (cases "n < b")
    case False
    then have "0 < k" using Suc.prems(1) by (cases k) simp_all
    moreover have "n div b < b ^ k"
      using Suc.prems(1) assms(1) by (simp add: div_less_iff_less_mult mult.commute)
    ultimately show ?thesis
      using Suc.IH [of "n div b"] False by (subst digits_rev.simps) simp
  qed (subst digits_rev.simps, simp)
qed simp

lemma length_digits_rev_low:
  assumes "2 \<le> b" "b ^ k \<le> n"
  shows "k < length (digits_rev upper b n)"
  using assms(2)
proof (induction k arbitrary: n)
  case 0
  show ?case by (subst digits_rev.simps) simp
next
  case (Suc k)
  have "b \<le> b ^ Suc k" using assms(1) by simp
  then have "\<not> n < b" using Suc.prems by linarith
  moreover have "b ^ k \<le> n div b"
    using div_le_mono [OF Suc.prems, of b] assms(1) by simp
  ultimately show ?case using Suc.IH [of "n div b"] assms(1) by (subst digits_rev.simps) simp
qed

lemma length_itoa:
  "2 \<le> b \<Longrightarrow> b \<le> 36 \<Longrightarrow> length (string_cast_itoa v (int b) upper) =
     length (digits_rev upper b (nat \<bar>v\<bar>)) + (if v < 0 then 1 else 0)"
  using itoa_digits_abs [of b upper "nat \<bar>v\<bar>"]
  by (cases "v < 0") (simp_all add: string_cast_itoa_def)

lemma bool_cast: "bool_number_cast (string_cast_bool b) = (b, True)"
  by (cases b) (simp_all add: bool_number_cast_def string_cast_bool_def SplitToken_def split_tokens_eq
      Tokenizer_new_def tokens.simps default_delimiters_def strcaseeq_def ToLower_def to_lower_def char_code_def)

lemma signed_cast_itoa:
  "- (2 ^ 63) \<le> lo \<Longrightarrow> hi < 2 ^ 63 \<Longrightarrow> lo \<le> v \<Longrightarrow> v \<le> hi \<Longrightarrow>
   signed_number_cast lo hi (string_cast_itoa v 10 upper) = (v, True)"
  by (auto simp: signed_number_cast_def strtoimax_def scan_itoa clamp_cast_def)

lemma unsigned_cast_itoa:
  "hi < 2 ^ 64 \<Longrightarrow> 0 \<le> v \<Longrightarrow> v \<le> hi \<Longrightarrow>
   unsigned_number_cast 0 hi (string_cast_itoa v 10 upper) = (v, True)"
  by (auto simp: unsigned_number_cast_def strtoumax_def scan_itoa clamp_cast_def)

text \<open>A printed number is not empty and consists of digits and a sign.\<close>

lemma itoa_chars:
  "string_cast_itoa v 10 upper \<noteq> [] \<and> set (string_cast_itoa v 10 upper) \<subseteq> digit_char upper ` {0..<10} \<union> {CHR ''-''}"
proof -
  have "itoa_digits upper 10 v = digits_rev upper 10 (nat \<bar>v\<bar>)"
    using itoa_digits_abs [of 10 upper "nat \<bar>v\<bar>"] by (cases "v < 0") simp_all
  moreover have "digits_rev upper 10 n \<noteq> []" for n by (subst digits_rev.simps) simp
  ultimately show ?thesis
    using digits_rev_digits [of 10 upper "nat \<bar>v\<bar>"] by (auto simp: string_cast_itoa_def)
qed

lemma itoa_plain:
  "c \<in> set (string_cast_itoa v 10 upper) \<Longrightarrow> \<not> is_space c \<and> c \<noteq> CHR 0x00"
proof -
  assume "c \<in> set (string_cast_itoa v 10 upper)"
  then consider d where "c = digit_char upper d" "d < 10" | "c = CHR ''-''"
    using itoa_chars [of v upper] by auto
  then show ?thesis
  proof cases
    case 1
    then show ?thesis
      using digit_char_plain [of d upper] digit_char_val [of d upper] by (auto simp: digit_val_def)
  qed (simp add: is_space_def)
qed

lemma itoa_short:
  assumes "\<bar>v\<bar> < 2 ^ 64"
  shows "length (string_cast_itoa v 10 upper) \<le> 21"
proof -
  have "nat \<bar>v\<bar> < 10 ^ 20" using assms by simp
  then have "length (digits_rev upper 10 (nat \<bar>v\<bar>)) \<le> 20" by (intro length_digits_rev) simp_all
  then show ?thesis using length_itoa [of 10 v upper] by (simp split: if_splits)
qed

section \<open>Properties\<close>

text \<open>Reading back what was printed: for every signed type of at most 64 bits with limits
  \<open>lo\<close> and \<open>hi\<close> and for every unsigned one, casting the decimal text of a value of the type
  gives the value and a valid flag; this includes the most negative value, and zero although its
  text selects the octal base.\<close>

theorem number_cast_roundtrip:
  "(- (2 ^ 63) \<le> lo \<and> hi < 2 ^ 63 \<and> lo \<le> v \<and> v \<le> hi \<longrightarrow>
      signed_number_cast lo hi (string_cast_itoa v 10 upper) = (v, True)) \<and>
   (hi < 2 ^ 64 \<and> 0 \<le> v \<and> v \<le> hi \<longrightarrow>
      unsigned_number_cast 0 hi (string_cast_itoa v 10 upper) = (v, True))"
  by (simp add: signed_cast_itoa unsigned_cast_itoa)

theorem number_cast_roundtrip_witness:
  "signed_number_cast (- 2147483648) 2147483647 (string_cast_itoa (- 2147483648) 10 True) = (- 2147483648, True) \<and>
   unsigned_number_cast 0 4294967295 (string_cast_itoa 4294967295 10 True) = (4294967295, True)"
  using number_cast_roundtrip [of "- 2147483648" 2147483647 "- 2147483648" True]
    number_cast_roundtrip [of 0 4294967295 4294967295 True]
  by simp

text \<open>The text of a 64-bit number and its terminator fit the 65 characters of
  \<open>value_cache_\<close> in every base, except for the most negative number in base 2, which
  needs 66 of them.\<close>

theorem itoa_fits_cache:
  assumes "2 \<le> b" "b \<le> 36" "- (2 ^ 63) \<le> v" "v < 2 ^ 64"
  shows "length (string_cast_itoa v (int b) upper) + 1 \<le> 65 \<longleftrightarrow> v \<noteq> - (2 ^ 63) \<or> b \<noteq> 2"
proof -
  let ?n = "nat \<bar>v\<bar>" and ?d = "length (digits_rev upper b (nat \<bar>v\<bar>))"
  have len: "length (string_cast_itoa v (int b) upper) = ?d + (if v < 0 then 1 else 0)"
    by (rule length_itoa [OF assms(1,2)])
  show ?thesis
  proof (cases "v = - (2 ^ 63)")
    case True
    then have n: "?n = 2 ^ 63" by simp
    show ?thesis
    proof (cases "b = 2")
      case True
      have "63 < ?d" by (rule length_digits_rev_low) (simp_all add: n True)
      then show ?thesis using len \<open>v = - (2 ^ 63)\<close> True by simp
    next
      case False
      then have "3 ^ 62 \<le> b ^ 62" using assms(1) by (intro power_mono) simp_all
      then have "?n < b ^ 62" unfolding n by (rule less_le_trans [rotated]) simp
      then have "?d \<le> 62" by (intro length_digits_rev assms(1)) simp_all
      then show ?thesis unfolding len using False by auto
    qed
  next
    case False
    have pw: "2 ^ k \<le> b ^ k" for k :: nat using assms(1) by (intro power_mono) simp_all
    have "?d + (if v < 0 then 1 else 0) \<le> 64"
    proof (cases "v < 0")
      case True
      then have "?n < 2 ^ 63" using False assms(3) by simp
      then have "?d \<le> 63" using pw [of 63] by (intro length_digits_rev assms(1)) simp_all
      then show ?thesis by auto
    next
      case False
      then have "?n < 2 ^ 64" using assms(4) by simp
      then show ?thesis
        using pw [of 64] False length_digits_rev [OF assms(1), of ?n 64] by simp
    qed
    then show ?thesis using len False by simp
  qed
qed

theorem itoa_fits_cache_witness:
  "length (string_cast_itoa (- (2 ^ 63)) 2 True) + 1 \<le> 65 \<longleftrightarrow> (- (2 ^ 63) :: int) \<noteq> - (2 ^ 63) \<or> (2 :: nat) \<noteq> 2"
  using itoa_fits_cache [of 2 "- (2 ^ 63)" True] by simp

end
