(* ===== verification/Ini_File.thy ===== *)
theory Ini_File
  imports Std_Map String_Cast "HOL-Library.Monad_Syntax"
begin

text \<open>
  The INI files of comm/ini.h, in which stn keeps what it learns about a network, and the variant
  of stn/src/special_ini.h, whose section names are digests. The state is the name of the
  current section and a map from section names to maps of keys to values; a file is the string of
  its characters. \<open>None\<close> stands for an access outside an array.
\<close>

section \<open>State\<close>

type_synonym keys_t = "(string \<times> string) list"
type_synonym sections_t = "(string \<times> keys_t) list"

record INI =
  currentsection :: string
  sections :: sections_t

definition INI_new :: INI where
  "INI_new = \<lparr>currentsection = [], sections = []\<rparr>"

definition BUFFER_SIZE :: nat where "BUFFER_SIZE = 4096"

definition name_char :: "char \<Rightarrow> bool" where
  "name_char c =
     (if CHR ''a'' \<le> c \<and> c \<le> CHR ''z'' then True
      else if CHR ''A'' \<le> c \<and> c \<le> CHR ''Z'' then True
      else if CHR ''0'' \<le> c \<and> c \<le> CHR ''9'' then True
      else c \<in> set ''-_. '')"

definition VerifyName :: "string \<Rightarrow> bool" where
  "VerifyName name \<longleftrightarrow> name \<noteq> [] \<and> list_all name_char name"

section \<open>Sections and keys\<close>

definition INI_Select :: "string \<Rightarrow> INI \<Rightarrow> bool \<times> INI" where
  "INI_Select section ini =
     (if \<not> VerifyName section then (False, ini)
      else if mget (sections ini) section = None then (False, ini)
      else (True, ini\<lparr>currentsection := section\<rparr>))"

definition INI_Create :: "string \<Rightarrow> INI \<Rightarrow> bool \<times> INI" where
  "INI_Create section ini =
     (if \<not> VerifyName section then (False, ini)
      else case INI_Select section ini of
             (True, ini') \<Rightarrow> (False, ini')
           | (False, ini') \<Rightarrow>
               (True, ini'\<lparr>currentsection := section, sections := mtouch [] section (sections ini')\<rparr>))"

text \<open>\<open>sections[section][key] = svalue\<close>.\<close>

definition put_key :: "string \<Rightarrow> string \<Rightarrow> string \<Rightarrow> sections_t \<Rightarrow> sections_t" where
  "put_key section key svalue secs =
     mput section (mput key svalue (case mget secs section of None \<Rightarrow> [] | Some ks \<Rightarrow> ks)) secs"

definition INI_Set_in :: "string \<Rightarrow> string \<Rightarrow> string \<Rightarrow> INI \<Rightarrow> bool \<times> INI" where
  "INI_Set_in section key svalue ini =
     (if \<not> VerifyName section then (False, ini)
      else if \<not> VerifyName key then (False, ini)
      else if BUFFER_SIZE < length key + length svalue + 1 then (False, ini)
      else (True, ini\<lparr>sections := put_key section key svalue (sections ini)\<rparr>))"

definition INI_Set :: "string \<Rightarrow> string \<Rightarrow> INI \<Rightarrow> bool \<times> INI" where
  "INI_Set key svalue ini = INI_Set_in (currentsection ini) key svalue ini"

text \<open>\<open>Get\<close> of a string: the lookup \<open>sections[section]\<close> creates a missing section.\<close>

definition INI_Get_in :: "string \<Rightarrow> string \<Rightarrow> string \<Rightarrow> INI \<Rightarrow> string \<times> INI" where
  "INI_Get_in section key def ini =
     (if \<not> VerifyName section then (def, ini)
      else if \<not> VerifyName key then (def, ini)
      else let secs = mtouch [] section (sections ini);
               ks = (case mget secs section of None \<Rightarrow> [] | Some ks \<Rightarrow> ks)
           in (case mget ks key of None \<Rightarrow> def | Some v \<Rightarrow> v, ini\<lparr>sections := secs\<rparr>))"

text \<open>\<open>Get<V>\<close> with the cast of the type \<open>V\<close>.\<close>

definition INI_GetV_in :: "(string \<Rightarrow> 'v \<times> bool) \<Rightarrow> string \<Rightarrow> string \<Rightarrow> 'v \<Rightarrow> INI \<Rightarrow> 'v \<times> INI" where
  "INI_GetV_in cast section key def ini =
     (if \<not> VerifyName section then (def, ini)
      else if \<not> VerifyName key then (def, ini)
      else let secs = mtouch [] section (sections ini);
               ks = (case mget secs section of None \<Rightarrow> [] | Some ks \<Rightarrow> ks)
           in (case mget ks key of
                 None \<Rightarrow> def
               | Some s \<Rightarrow> if s = [] then def
                           else case cast s of (v, valid) \<Rightarrow> if valid then v else def,
               ini\<lparr>sections := secs\<rparr>))"

definition INI_GetV :: "(string \<Rightarrow> 'v \<times> bool) \<Rightarrow> string \<Rightarrow> 'v \<Rightarrow> INI \<Rightarrow> 'v \<times> INI" where
  "INI_GetV cast key def ini = INI_GetV_in cast (currentsection ini) key def ini"

definition INI_Clear :: "INI \<Rightarrow> INI" where
  "INI_Clear ini = ini\<lparr>sections := [], currentsection := []\<rparr>"

definition INI_ClearExceptSection :: "string \<Rightarrow> INI \<Rightarrow> INI" where
  "INI_ClearExceptSection name ini = ini\<lparr>sections := filter (\<lambda>(s, ks). s = name) (sections ini)\<rparr>"

definition INI_Sections :: "INI \<Rightarrow> sections_t \<times> INI" where
  "INI_Sections ini = (sections ini, ini\<lparr>currentsection := []\<rparr>)"

section \<open>Writing the file\<close>

definition newline :: char where "newline = CHR 0x0A"

definition makeSection :: "string \<Rightarrow> string" where
  "makeSection section = CHR ''['' # section @ [CHR '']'', newline]"

definition makeKeyValue :: "string \<Rightarrow> string \<Rightarrow> string" where
  "makeKeyValue key value = key @ CHR ''='' # value @ [newline]"

definition INI_Save :: "sections_t \<Rightarrow> string" where
  "INI_Save secs =
     concat (map (\<lambda>(s, ks). if ks = [] then []
                            else makeSection s @ concat (map (\<lambda>(k, v). makeKeyValue k v) ks)) secs)"

section \<open>Reading the file\<close>

text \<open>\<open>fgets\<close> with a buffer of \<open>n + 1\<close> characters: the characters read and the rest of the
  file.\<close>

fun fgets :: "nat \<Rightarrow> string \<Rightarrow> string \<times> string" where
  "fgets 0 s = ([], s)"
| "fgets (Suc n) [] = ([], [])"
| "fgets (Suc n) (c # s) =
     (if c = newline then ([c], s) else case fgets n s of (l, r) \<Rightarrow> (c # l, r))"

text \<open>One line, for the section name \<open>cur\<close>. \<open>sscanf\<close> copies the longest run of name
  characters into an array of 512 characters without a limit.\<close>

definition parse_line :: "string \<Rightarrow> string \<Rightarrow> sections_t \<Rightarrow> (string \<times> sections_t) option" where
  "parse_line buf cur secs =
     (let line = takeWhile (\<lambda>c. c \<noteq> CHR 0x00) buf
      in if line = [] then None
         else if 2 \<le> length line \<and> line ! 0 = CHR ''/'' \<and> line ! 1 = CHR ''/'' then Some (cur, secs)
         else
           let line' = (if last line = newline then butlast line else line)
           in if line' \<noteq> [] \<and> hd line' = CHR ''['' then
                let ssection = takeWhile name_char (tl line')
                in if 512 \<le> length ssection then None
                   else if \<not> VerifyName ssection then Some ([], secs)
                   else Some (ssection, mtouch [] ssection secs)
              else if cur = [] then Some (cur, secs)
              else if CHR ''='' \<notin> set line' then Some (cur, secs)
              else
                let skey = takeWhile (\<lambda>c. c \<noteq> CHR ''='') line';
                    svalue = tl (dropWhile (\<lambda>c. c \<noteq> CHR ''='') line')
                in if \<not> VerifyName skey then Some (cur, secs)
                   else Some (cur, put_key cur skey svalue secs))"

lemma fgets_shorter: "fgets (Suc n) s = (l, r) \<Longrightarrow> s \<noteq> [] \<Longrightarrow> length r < length s"
proof (induction n arbitrary: s l r)
  case 0
  then show ?case by (cases s) (auto split: if_splits)
next
  case (Suc n)
  then obtain c t where s: "s = c # t" by (cases s) auto
  show ?case
  proof (cases "c = newline \<or> t = []")
    case True
    then show ?thesis using Suc.prems s by (auto split: if_splits prod.splits)
  next
    case False
    then obtain l' where "fgets (Suc n) t = (l', r)" using Suc.prems s by (auto split: prod.splits)
    then show ?thesis using Suc.IH False s by fastforce
  qed
qed

function parse_lines :: "string \<Rightarrow> string \<Rightarrow> sections_t \<Rightarrow> sections_t option" where
  "parse_lines file cur secs =
     (if file = [] then Some secs
      else case fgets (BUFFER_SIZE - 1) file of
             (buf, rest) \<Rightarrow>
               (case parse_line buf cur secs of
                  None \<Rightarrow> None
                | Some (cur', secs') \<Rightarrow> parse_lines rest cur' secs'))"
  by pat_completeness auto

termination parse_lines
proof (relation "measure (\<lambda>(s, cur, secs). length s)", goal_cases)
  case (2 s cur secs buf rest y)
  then have "fgets (Suc 4094) s = (buf, rest)" by (simp add: BUFFER_SIZE_def)
  from fgets_shorter [OF this 2(1)] show ?case by simp
qed simp

declare parse_lines.simps [simp del]

text \<open>A file that does not exist leaves the map as it is.\<close>

definition INI_Parse :: "string option \<Rightarrow> INI \<Rightarrow> (bool \<times> INI) option" where
  "INI_Parse file ini =
     (case file of
        None \<Rightarrow> Some (False, ini)
      | Some s \<Rightarrow> do { secs \<leftarrow> parse_lines s [] (sections ini); Some (True, ini\<lparr>sections := secs\<rparr>) })"

section \<open>Digests as section names\<close>

text \<open>\<open>SpecialINI\<close> of stn/src/special_ini.h; \<open>des\<close> is the hexadecimal MD5 digest.\<close>

definition SpecialINI_Create :: "(string \<Rightarrow> string) \<Rightarrow> string \<Rightarrow> INI \<Rightarrow> bool \<times> INI" where
  "SpecialINI_Create des section ini =
     (case INI_Create (des section) ini of
        (True, ini') \<Rightarrow> (True, snd (INI_Set ''name'' section ini'))
      | (False, ini') \<Rightarrow> (False, ini'))"

definition SpecialINI_Select :: "(string \<Rightarrow> string) \<Rightarrow> string \<Rightarrow> INI \<Rightarrow> bool \<times> INI" where
  "SpecialINI_Select des section ini = INI_Select (des section) ini"

section \<open>What is written can be read\<close>

text \<open>Maps whose text survives the line format: verified names, section names that fit the
  512 characters of the scan, and values without line breaks that fit a line of the buffer.\<close>

definition key_ok :: "string \<times> string \<Rightarrow> bool" where
  "key_ok kv \<longleftrightarrow> VerifyName (fst kv) \<and> length (fst kv) + length (snd kv) + 2 < BUFFER_SIZE \<and>
     newline \<notin> set (snd kv) \<and> CHR 0x00 \<notin> set (snd kv)"

definition section_ok :: "string \<times> keys_t \<Rightarrow> bool" where
  "section_ok sk \<longleftrightarrow> VerifyName (fst sk) \<and> length (fst sk) < 512 \<and> msorted (snd sk) \<and> list_all key_ok (snd sk)"

definition ini_wf :: "sections_t \<Rightarrow> bool" where
  "ini_wf secs \<longleftrightarrow> msorted secs \<and> list_all section_ok secs"

lemma name_char_plain:
  "name_char c \<Longrightarrow> c \<noteq> newline \<and> c \<noteq> CHR 0x00 \<and> c \<noteq> CHR ''['' \<and> c \<noteq> CHR '']'' \<and> c \<noteq> CHR ''/'' \<and> c \<noteq> CHR ''=''"
  by (auto simp: name_char_def newline_def less_eq_char_def)

lemma VerifyName_plain:
  "VerifyName s \<Longrightarrow> newline \<notin> set s \<and> CHR 0x00 \<notin> set s \<and> CHR ''='' \<notin> set s \<and> CHR '']'' \<notin> set s"
  by (auto simp: VerifyName_def list_all_iff dest: name_char_plain)

lemma VerifyName_hd: "VerifyName s \<Longrightarrow> s \<noteq> [] \<and> name_char (hd s) \<and> hd s \<noteq> CHR ''['' \<and> hd s \<noteq> CHR ''/''"
  by (cases s) (auto simp: VerifyName_def dest: name_char_plain)

lemma fgets_line: "newline \<notin> set l \<Longrightarrow> length l < n \<Longrightarrow> fgets n (l @ newline # r) = (l @ [newline], r)"
proof (induction l arbitrary: n)
  case Nil
  then show ?case by (cases n) simp_all
next
  case (Cons c l)
  then show ?case by (cases n) auto
qed

text \<open>The effect of reading one line.\<close>

lemma parse_lines_line:
  assumes "newline \<notin> set l" "length l + 1 < BUFFER_SIZE" "parse_line (l @ [newline]) cur secs = Some (cur', secs')"
  shows "parse_lines (l @ newline # rest) cur secs = parse_lines rest cur' secs'"
proof -
  have "fgets (BUFFER_SIZE - 1) (l @ newline # rest) = (l @ [newline], rest)"
    using assms(1,2) by (intro fgets_line) (simp_all add: BUFFER_SIZE_def)
  then show ?thesis by (subst parse_lines.simps) (simp add: assms(3))
qed

lemma takeWhile_line: "CHR 0x00 \<notin> set l \<Longrightarrow> takeWhile (\<lambda>c. c \<noteq> CHR 0x00) (l @ [newline]) = l @ [newline]"
  by (auto simp: newline_def takeWhile_eq_all_conv)

lemma split_at_first:
  "c \<notin> set xs \<Longrightarrow> takeWhile (\<lambda>x. x \<noteq> c) (xs @ c # ys) = xs \<and> dropWhile (\<lambda>x. x \<noteq> c) (xs @ c # ys) = c # ys"
  by (induction xs) auto

lemma parse_section:
  assumes "VerifyName s" "length s < 512"
  shows "parse_lines (makeSection s @ rest) cur secs = parse_lines rest s (mtouch [] s secs)"
proof -
  let ?l = "CHR ''['' # s @ [CHR '']'']"
  have s: "newline \<notin> set s" "CHR 0x00 \<notin> set s" "list_all name_char s"
    using assms(1) VerifyName_plain [of s] by (auto simp: VerifyName_def)
  have "\<not> name_char CHR '']''" using name_char_plain by blast
  then have tw: "takeWhile name_char (s @ [CHR '']'']) = s"
    using s(3) by (simp add: takeWhile_append2 list_all_iff)
  have tl: "takeWhile (\<lambda>c. c \<noteq> CHR 0x00) (?l @ [newline]) = ?l @ [newline]"
    using s(2) by (intro takeWhile_line) simp
  have "parse_line (?l @ [newline]) cur secs = Some (s, mtouch [] s secs)"
    unfolding parse_line_def Let_def tl using assms tw by (simp add: butlast_append)
  moreover have "newline \<notin> set ?l" using s(1) by (simp add: newline_def)
  ultimately show ?thesis
    using parse_lines_line [of ?l] assms(2) by (simp add: makeSection_def BUFFER_SIZE_def)
qed

lemma parse_key:
  assumes "key_ok (k, v)" "cur \<noteq> []"
  shows "parse_lines (makeKeyValue k v @ rest) cur secs = parse_lines rest cur (put_key cur k v secs)"
proof -
  let ?l = "k @ CHR ''='' # v"
  have k: "VerifyName k" "length k + length v + 2 < BUFFER_SIZE" "newline \<notin> set v" "CHR 0x00 \<notin> set v"
    using assms(1) by (simp_all add: key_ok_def)
  note p = VerifyName_plain [OF k(1)] VerifyName_hd [OF k(1)]
  have tl: "takeWhile (\<lambda>c. c \<noteq> CHR 0x00) (?l @ [newline]) = ?l @ [newline]"
    using p k by (intro takeWhile_line) simp
  have hd: "hd ?l = hd k" "(?l @ [newline]) ! 0 = hd k" using p by (simp_all add: hd_conv_nth nth_append)
  have sp: "takeWhile (\<lambda>c. c \<noteq> CHR ''='') ?l = k" "dropWhile (\<lambda>c. c \<noteq> CHR ''='') ?l = CHR ''='' # v"
    using split_at_first [of "CHR ''=''" k v] p by simp_all
  have "parse_line (?l @ [newline]) cur secs = Some (cur, put_key cur k v secs)"
    unfolding parse_line_def Let_def tl using hd sp p k assms(2) by (simp add: butlast_append)
  moreover have "newline \<notin> set ?l" using p k by (simp add: newline_def)
  ultimately show ?thesis
    using parse_lines_line [of ?l] k(2) by (simp add: makeKeyValue_def)
qed

text \<open>The keys of the last section, and all sections, arrive in order.\<close>

lemma put_key_last:
  "(\<forall>x \<in> fst ` set secs. x < s) \<Longrightarrow> put_key s k v (secs @ [(s, ks)]) = secs @ [(s, mput k v ks)]"
  by (simp add: put_key_def mget_last mput_last)

lemma parse_keys:
  assumes "list_all key_ok ks" "s \<noteq> []" "\<forall>x \<in> fst ` set secs. x < s" "msorted (ks0 @ ks)"
  shows "parse_lines (concat (map (\<lambda>(k, v). makeKeyValue k v) ks) @ rest) s (secs @ [(s, ks0)]) =
    parse_lines rest s (secs @ [(s, ks0 @ ks)])"
  using assms(1,4)
proof (induction ks arbitrary: ks0)
  case (Cons kv ks)
  obtain k v where kv: "kv = (k, v)" by (rule prod.exhaust)
  have "\<forall>x \<in> fst ` set ks0. x < k"
    using Cons.prems(2) by (auto simp: kv msorted_def sorted_wrt_append)
  then have "put_key s k v (secs @ [(s, ks0)]) = secs @ [(s, ks0 @ [(k, v)])]"
    using assms(3) by (simp add: put_key_last mput_snoc)
  then show ?case
    using parse_key [of k v s] Cons.prems assms(2) Cons.IH [of "ks0 @ [(k, v)]"] by (simp add: kv)
qed simp

lemma parse_sections:
  assumes "list_all section_ok ss" "msorted (secs @ ss)"
  shows "parse_lines (INI_Save ss) cur secs = Some (secs @ filter (\<lambda>(s, ks). ks \<noteq> []) ss)"
  using assms
proof (induction ss arbitrary: cur secs)
  case Nil
  show ?case by (simp add: INI_Save_def parse_lines.simps)
next
  case (Cons sk ss)
  obtain s ks where sk: "sk = (s, ks)" by (rule prod.exhaust)
  have srt: "\<forall>x \<in> fst ` set secs. x < s"
    using Cons.prems(2) by (auto simp: sk msorted_def sorted_wrt_append)
  have ok: "VerifyName s" "length s < 512" "msorted ks" "list_all key_ok ks" "s \<noteq> []"
    using Cons.prems(1) by (auto simp: sk section_ok_def VerifyName_def)
  show ?case
  proof (cases "ks = []")
    case True
    have "msorted (secs @ ss)" using Cons.prems(2) by (auto simp: msorted_def sorted_wrt_append)
    then show ?thesis using Cons True by (simp add: sk INI_Save_def)
  next
    case False
    have "mget secs s = None" using srt by (force simp: mget_def map_of_eq_None_iff)
    then have "mtouch [] s secs = secs @ [(s, [])]" using srt by (simp add: mtouch_def mput_snoc)
    then have "parse_lines (INI_Save (sk # ss)) cur secs = parse_lines (INI_Save ss) s (secs @ [(s, ks)])"
      using parse_section [OF ok(1,2), of _ cur secs] parse_keys [OF ok(4,5) srt, of "[]" "INI_Save ss"] ok(3) False
      by (simp add: sk INI_Save_def)
    then show ?thesis using Cons.IH [of "secs @ [(s, ks)]" s] Cons.prems False by (simp add: sk)
  qed
qed

text \<open>Operations keep the map well formed; a value that \<open>Set\<close> accepts must in addition be free of
  line breaks and leave room for the line.\<close>

lemma msorted_mtouch: "msorted m \<Longrightarrow> msorted (mtouch d k m)"
  by (auto simp: mtouch_def msorted_mput split: option.splits)

lemma set_mput: "set (mput k v m) \<subseteq> insert (k, v) (set m)"
  by (induction k v m rule: mput.induct) auto

lemma list_all_mput: "P (k, v) \<Longrightarrow> list_all P m \<Longrightarrow> list_all P (mput k v m)"
  using set_mput [of k v m] by (auto simp: list_all_iff)

lemma list_all_mget: "list_all P m \<Longrightarrow> mget m k = Some v \<Longrightarrow> P (k, v)"
  by (auto simp: mget_def list_all_iff dest: map_of_SomeD)

lemma ini_wf_put_key:
  assumes "ini_wf secs" "VerifyName s" "length s < 512" "key_ok (k, v)"
  shows "ini_wf (put_key s k v secs)"
proof -
  have "section_ok (s, mput k v (case mget secs s of None \<Rightarrow> [] | Some ks \<Rightarrow> ks))"
  proof (cases "mget secs s")
    case (Some ks)
    then have "section_ok (s, ks)" using assms(1) list_all_mget by (force simp: ini_wf_def)
    then show ?thesis
      using Some assms by (simp add: section_ok_def msorted_mput list_all_mput)
  qed (use assms in \<open>simp add: section_ok_def\<close>)
  then show ?thesis
    using assms(1) by (simp add: ini_wf_def put_key_def msorted_mput list_all_mput)
qed

text \<open>The value of a key of a section, which is what the lookups read and \<open>put_key\<close> sets; sections
  without keys do not matter for it.\<close>

definition key_value :: "string \<Rightarrow> string \<Rightarrow> sections_t \<Rightarrow> string option" where
  "key_value s k secs = (case mget secs s of None \<Rightarrow> None | Some ks \<Rightarrow> mget ks k)"

lemma key_value_put [simp]:
  "key_value s k (put_key s' k' v secs) = (if s = s' \<and> k = k' then Some v else key_value s k secs)"
  by (auto simp: key_value_def put_key_def smap.get_put mget_def split: option.splits)

lemma mget_filter:
  "msorted m \<Longrightarrow> mget (filter P m) k = (case mget m k of None \<Rightarrow> None | Some v \<Rightarrow> if P (k, v) then Some v else None)"
proof (induction m)
  case (Cons a m)
  have "mget m (fst a) = None" using Cons.prems by (cases a) (force simp: mget_def map_of_eq_None_iff)
  then show ?case using Cons by (cases a) (auto simp: mget_def split: option.splits)
qed (simp add: mget_def)

lemma key_value_filter:
  "msorted secs \<Longrightarrow> key_value s k (filter (\<lambda>(s, ks). ks \<noteq> []) secs) = key_value s k secs"
  by (simp add: key_value_def mget_filter split: option.splits) (simp add: mget_def)

lemma fst_INI_GetV:
  "VerifyName (currentsection ini) \<Longrightarrow> VerifyName key \<Longrightarrow> fst (INI_GetV cast key def ini) =
     (case key_value (currentsection ini) key (sections ini) of
        None \<Rightarrow> def | Some s \<Rightarrow> if s = [] then def else case cast s of (v, ok) \<Rightarrow> if ok then v else def)"
  by (auto simp: INI_GetV_def INI_GetV_in_def key_value_def mtouch_def smap.get_put Let_def split: option.splits)
    (simp_all add: mget_def)

lemma mget_key_value: "key_value s k secs = Some v \<Longrightarrow> \<exists>ks. mget secs s = Some ks \<and> ks \<noteq> []"
  by (auto simp: key_value_def mget_def split: option.splits)

section \<open>Properties\<close>

text \<open>C21. A saved file is read back: for a well-formed map, parsing what \<open>Save\<close> wrote gives the same
  sections with the same keys and values, less the sections without keys, which are not written.\<close>

theorem ini_roundtrip:
  assumes "ini_wf (sections ini)" "sections ini' = []"
  shows "INI_Parse (Some (INI_Save (sections ini))) ini' =
    Some (True, ini'\<lparr>sections := filter (\<lambda>(s, ks). ks \<noteq> []) (sections ini)\<rparr>)"
  using parse_sections [of "sections ini" "[]" "[]"] assms by (simp add: INI_Parse_def ini_wf_def)

definition sample_ini :: INI where
  "sample_ini = snd (INI_Set ''curHeart'' ''210000'' (snd (INI_Create ''wifi'' (snd (INI_Create ''lte'' INI_new)))))"

theorem ini_roundtrip_witness:
  "INI_Parse (Some (INI_Save (sections sample_ini))) INI_new =
    Some (True, \<lparr>currentsection = [], sections = [(''wifi'', [(''curHeart'', ''210000'')])]\<rparr>)"
proof -
  have s: "sections sample_ini = [(''lte'', []), (''wifi'', [(''curHeart'', ''210000'')])]" by code_simp
  then have "ini_wf (sections sample_ini)" by (simp add: ini_wf_def section_ok_def key_ok_def) code_simp
  then show ?thesis using ini_roundtrip [of sample_ini INI_new] s by (simp add: INI_new_def)
qed

text \<open>\<open>Get\<close> after \<open>Set\<close>: a value that was set in a section is what a lookup of the key finds,
  and the other keys of the section and the other sections keep theirs.\<close>

theorem ini_get_set:
  assumes "INI_Set_in s k v ini = (True, ini')"
  shows "fst (INI_Get_in s k d ini') = v \<and>
    ((s', k') \<noteq> (s, k) \<longrightarrow> fst (INI_Get_in s' k' d ini') = fst (INI_Get_in s' k' d ini))"
proof -
  have v: "VerifyName s" "VerifyName k" "ini' = ini\<lparr>sections := put_key s k v (sections ini)\<rparr>"
    using assms by (auto simp: INI_Set_in_def split: if_splits)
  have g: "mget (put_key s k v secs) s' =
      (if s' = s then Some (mput k v (case mget secs s of None \<Rightarrow> [] | Some ks \<Rightarrow> ks)) else mget secs s')"
    for secs :: sections_t and s' by (simp add: put_key_def smap.get_put)
  have t: "mget (mtouch [] s' secs) s' = Some (case mget secs s' of None \<Rightarrow> [] | Some ks \<Rightarrow> ks)"
    for secs :: sections_t and s' by (auto simp: mtouch_def smap.get_put split: option.splits)
  show ?thesis
    using v by (auto simp: INI_Get_in_def t g smap.get_put Let_def)
qed

theorem ini_get_set_witness:
  "fst (INI_Get_in ''wifi'' ''stable'' ''0'' (snd (INI_Set_in ''wifi'' ''stable'' ''1'' sample_ini))) = ''1'' \<and>
   fst (INI_Get_in ''wifi'' ''curHeart'' ''0'' (snd (INI_Set_in ''wifi'' ''stable'' ''1'' sample_ini))) = ''210000''"
proof -
  let ?ini = "snd (INI_Set_in ''wifi'' ''stable'' ''1'' sample_ini)"
  have e: "INI_Set_in ''wifi'' ''stable'' ''1'' sample_ini = (True, ?ini)"
    by (rule prod_eqI) (code_simp, simp)
  have "fst (INI_Get_in ''wifi'' ''curHeart'' ''0'' sample_ini) = ''210000''" by code_simp
  then show ?thesis using ini_get_set [OF e, of "''0''" "''wifi''" "''curHeart''"] by simp
qed

lemma fgets_full: "newline \<notin> set l \<Longrightarrow> fgets (length l) (l @ r) = (l, r)"
  by (induction l) auto

lemma parse_long_key:
  assumes "newline \<notin> set v" "CHR 0x00 \<notin> set v" "length v = BUFFER_SIZE - 3" "c \<notin> {CHR ''['', CHR ''='', newline, CHR 0x00}"
  shows "parse_lines (makeKeyValue [CHR ''k''] (v @ [c])) [CHR ''s''] [(''s'', [])] = Some [(''s'', [(''k'', v)])]"
proof -
  let ?l = "''k='' @ v"
  have "fgets (length ?l) (?l @ [c, newline]) = (?l, [c, newline])"
    using assms(1) by (intro fgets_full) (simp add: newline_def)
  moreover have "length ?l = BUFFER_SIZE - 1" using assms(3) by (simp add: BUFFER_SIZE_def)
  ultimately have "fgets (BUFFER_SIZE - 1) (?l @ [c, newline]) = (?l, [c, newline])" by metis
  then have f: "fgets (BUFFER_SIZE - 1) (makeKeyValue [CHR ''k''] (v @ [c])) = (?l, [c, newline])"
    by (simp add: makeKeyValue_def)
  have tl: "takeWhile (\<lambda>x. x \<noteq> CHR 0x00) ?l = ?l" using assms(2) by (auto simp: takeWhile_eq_all_conv)
  have "VerifyName ''k''" by (simp add: VerifyName_def name_char_def less_eq_char_def)
  moreover have "last ?l \<noteq> newline" using assms(1) by (cases v rule: rev_cases) (auto simp: newline_def)
  ultimately have p: "parse_line ?l [CHR ''s''] [(''s'', [])] = Some (''s'', [(''s'', [(''k'', v)])])"
    unfolding parse_line_def tl Let_def by (simp add: put_key_def mget_def)
  have "parse_line ([c] @ [newline]) ''s'' [(''s'', [(''k'', v)])] = Some (''s'', [(''s'', [(''k'', v)])])"
    using assms(4) takeWhile_line [of "[c]"] by (auto simp: parse_line_def newline_def)
  then have "parse_lines ([c] @ [newline]) ''s'' [(''s'', [(''k'', v)])] = parse_lines [] ''s'' [(''s'', [(''k'', v)])]"
    using parse_lines_line [of "[c]" _ _ _ _ "[]"] assms(4) by (auto simp: BUFFER_SIZE_def)
  moreover have "makeKeyValue ''k'' (v @ [c]) \<noteq> []" by (simp add: makeKeyValue_def)
  ultimately show ?thesis
    by (subst parse_lines.simps) (simp add: f [simplified] p [simplified] parse_lines.simps [of "[]"])
qed

text \<open>The format does not survive every value that \<open>Set\<close> accepts. A value with a line break is
  read back as a shorter value and a further key, and a value that fills the length that
  \<open>Set\<close> allows loses its last character, because the buffer that reads a line also holds
  the line break and the terminator.\<close>

theorem ini_set_unreadable:
  "fst (INI_Set_in ''s'' ''k'' (''a'' @ newline # ''x=1'') INI_new) \<and>
   parse_lines (INI_Save (sections (snd (INI_Set_in ''s'' ''k'' (''a'' @ newline # ''x=1'') INI_new)))) [] [] =
     Some [(''s'', [(''k'', ''a''), (''x'', ''1'')])] \<and>
   fst (INI_Set_in ''s'' ''k'' (replicate 4094 CHR ''v'') INI_new) \<and>
   parse_lines (INI_Save (sections (snd (INI_Set_in ''s'' ''k'' (replicate 4094 CHR ''v'') INI_new)))) [] [] =
     Some [(''s'', [(''k'', replicate 4093 CHR ''v'')])]"
proof -
  have n: "VerifyName ''s''" "VerifyName ''k''" "VerifyName ''x''"
    by (simp_all add: VerifyName_def name_char_def less_eq_char_def)
  have st: "INI_Set_in ''s'' ''k'' v INI_new = (True, INI_new\<lparr>sections := [(''s'', [(''k'', v)])]\<rparr>)"
    if "length v \<le> 4094" for v
    using that n by (simp add: INI_Set_in_def INI_new_def put_key_def mget_def BUFFER_SIZE_def)
  have "INI_Save [(''s'', [(''k'', ''a'' @ newline # ''x=1'')])] = INI_Save [(''s'', [(''k'', ''a''), (''x'', ''1'')])]"
    by (simp add: INI_Save_def makeKeyValue_def)
  moreover have "ini_wf [(''s'', [(''k'', ''a''), (''x'', ''1'')])]"
    using n by (simp add: ini_wf_def section_ok_def key_ok_def BUFFER_SIZE_def newline_def)
  ultimately have a: "parse_lines (INI_Save [(''s'', [(''k'', ''a'' @ newline # ''x=1'')])]) [] [] =
      Some [(''s'', [(''k'', ''a''), (''x'', ''1'')])]"
    using parse_sections [of "[(''s'', [(''k'', ''a''), (''x'', ''1'')])]" "[]" "[]"] by (simp add: ini_wf_def)
  have r: "replicate 4094 CHR ''v'' = replicate 4093 CHR ''v'' @ ''v''"
    using replicate_add [of 4093 1 "CHR ''v''"] by simp
  have "parse_lines (INI_Save [(''s'', [(''k'', replicate 4094 CHR ''v'')])]) [] [] =
      parse_lines (makeKeyValue ''k'' (replicate 4093 CHR ''v'' @ ''v'')) ''s'' [(''s'', [])]"
    using parse_section [OF n(1), of _ "[]" "[]"] unfolding r
    by (simp add: INI_Save_def mtouch_def mget_def)
  also have "\<dots> = Some [(''s'', [(''k'', replicate 4093 CHR ''v'')])]"
    by (rule parse_long_key) (simp_all add: newline_def BUFFER_SIZE_def)
  finally show ?thesis using a by (simp add: st)
qed

end
