(* ===== verification/Smart_Heartbeat.thy ===== *)
theory Smart_Heartbeat
  imports Ini_File
begin

text \<open>
  The heartbeat interval that the long link learns per network, stn/src/smart_heartbeat.cc, and
  its persistence in the INI file of \<open>Ini_File\<close>. Every call takes an environment: the clock
  readings, the network and the activity of the application as the platform reports them. The
  MD5 digest that names a section is a function of the environment.
\<close>

section \<open>State\<close>

definition MinHeartInterval :: u32 where "MinHeartInterval = 3 * 60 * 1000 + 30 * 1000"
definition MaxHeartInterval :: u32 where "MaxHeartInterval = 10 * 60 * 1000"
definition HeartStep :: u32 where "HeartStep = 60 * 1000"
definition SuccessStep :: u32 where "SuccessStep = 20 * 1000"
definition MaxHeartFailCount :: u32 where "MaxHeartFailCount = 3"
definition BaseSuccCount :: u32 where "BaseSuccCount = 3"
definition NetStableTestCount :: u32 where "NetStableTestCount = 3"
definition MAX_INI_SECTIONS :: nat where "MAX_INI_SECTIONS = 20"

definition kNoSmartHeartBeat :: int where "kNoSmartHeartBeat = 0"
definition kSmartHeartBeat :: int where "kSmartHeartBeat = 1"
definition kDozeModeHeart :: int where "kDozeModeHeart = 2"

datatype TSmartHeartBeatAction = kActionCalcEnd | kActionReCalc | kActionDisconnect | kActionBadNetwork

record NetHeartbeatInfo =
  net_detail :: string
  net_type :: int
  cur_heart :: u32
  heart_type :: int
  is_stable :: bool
  last_modify_time :: int
  fail_heart_count :: u32
  succ_heart_count :: u32
  min_heart_fail_count :: u32

text \<open>\<open>sh_file\<close> is the file on disk, \<open>sh_reports\<close> the calls of the report function;
  \<open>sh_reporting\<close> says whether one is set.\<close>

record SmartHeartbeat =
  sh_is_wait_heart_response :: bool
  sh_success_heart_count :: u32
  sh_last_heart :: u32
  sh_info :: NetHeartbeatInfo
  sh_ini :: INI
  sh_doze_mode_count :: int
  sh_normal_mode_count :: int
  sh_noop_start_tick :: u64
  sh_file :: "string option"
  sh_reporting :: bool
  sh_reports :: "(TSmartHeartBeatAction \<times> NetHeartbeatInfo \<times> bool) list"

record heart_env =
  he_tick :: u64
  he_time :: int
  he_net :: NetType
  he_label :: string
  he_label_type :: int
  he_active :: bool
  he_connected :: bool
  he_digest :: "string \<Rightarrow> string"

section \<open>The INI file\<close>

definition NetHeartbeatInfo_Clear :: NetHeartbeatInfo where
  "NetHeartbeatInfo_Clear = \<lparr>net_detail = [], net_type = - 1, cur_heart = MinHeartInterval,
     heart_type = kNoSmartHeartBeat, is_stable = False, last_modify_time = 0, fail_heart_count = 0,
     succ_heart_count = 0, min_heart_fail_count = 0\<rparr>"

definition kKeyModifyTime :: string where "kKeyModifyTime = ''modifyTime''"
definition kKeyCurHeart :: string where "kKeyCurHeart = ''curHeart''"
definition kKeyFailHeartCount :: string where "kKeyFailHeartCount = ''failHeartCount''"
definition kKeyStable :: string where "kKeyStable = ''stable''"
definition kKeyNetType :: string where "kKeyNetType = ''netType''"
definition kKeyHeartType :: string where "kKeyHeartType = ''hearttype''"
definition kKeyMinHeartFail :: string where "kKeyMinHeartFail = ''minheartfail''"

lemmas key_names = kKeyModifyTime_def kKeyCurHeart_def kKeyFailHeartCount_def kKeyStable_def
  kKeyNetType_def kKeyHeartType_def kKeyMinHeartFail_def

text \<open>The casts for \<open>time_t\<close>, \<open>unsigned int\<close> and \<open>int\<close>, and the texts of numbers.\<close>

definition cast_time :: "string \<Rightarrow> int \<times> bool" where
  "cast_time s = signed_number_cast (- (2 ^ 63)) (2 ^ 63 - 1) s"

definition cast_uint :: "string \<Rightarrow> u32 \<times> bool" where
  "cast_uint s = (case unsigned_number_cast 0 (2 ^ 32 - 1) s of (v, ok) \<Rightarrow> (word_of_int v, ok))"

definition cast_int :: "string \<Rightarrow> int \<times> bool" where
  "cast_int s = signed_number_cast (- (2 ^ 31)) (2 ^ 31 - 1) s"

definition decimal :: "int \<Rightarrow> string" where
  "decimal v = string_cast_itoa v 10 True"

text \<open>The calls of \<open>Set\<close> in \<open>__SaveINI\<close>, in order.\<close>

definition saved_keys :: "NetHeartbeatInfo \<Rightarrow> keys_t" where
  "saved_keys i =
     [(kKeyModifyTime, decimal (last_modify_time i)), (kKeyCurHeart, decimal (uint (cur_heart i))),
      (kKeyFailHeartCount, decimal (uint (fail_heart_count i))), (kKeyStable, string_cast_bool (is_stable i)),
      (kKeyNetType, decimal (net_type i)), (kKeyHeartType, decimal (heart_type i)),
      (kKeyMinHeartFail, decimal (uint (min_heart_fail_count i)))]"

definition set_keys :: "keys_t \<Rightarrow> INI \<Rightarrow> INI" where
  "set_keys ks ini = foldl (\<lambda>i (k, v). snd (INI_Set k v i)) ini ks"

definition SaveINI :: "heart_env \<Rightarrow> SmartHeartbeat \<Rightarrow> SmartHeartbeat" where
  "SaveINI env h =
     (if net_detail (sh_info h) = [] then h
      else let i = (sh_info h)\<lparr>last_modify_time := he_time env\<rparr>;
               ini = set_keys (saved_keys i) (sh_ini h)
           in h\<lparr>sh_info := i, sh_ini := ini, sh_file := Some (INI_Save (sections ini))\<rparr>)"

text \<open>\<open>__LimitINISize\<close>: sections without a time or with one in the future are erased, then the
  oldest of the others. The scan returns the sections kept and the name of the oldest.\<close>

fun limit_scan :: "int \<Rightarrow> string option \<Rightarrow> int \<Rightarrow> sections_t \<Rightarrow> sections_t \<times> string option" where
  "limit_scan cur_time min_iter min_time [] = ([], min_iter)"
| "limit_scan cur_time min_iter min_time ((s, ks) # secs) =
     (case mget ks kKeyModifyTime of
        None \<Rightarrow> limit_scan cur_time min_iter min_time secs
      | Some txt \<Rightarrow>
          let time_value = fst (cast_time txt)
          in if cur_time < time_value then limit_scan cur_time min_iter min_time secs
             else case (if min_time = 0 \<or> time_value < min_time
                        then limit_scan cur_time (Some s) time_value secs
                        else limit_scan cur_time min_iter min_time secs) of
                    (kept, m) \<Rightarrow> ((s, ks) # kept, m))"

definition LimitINISize :: "heart_env \<Rightarrow> INI \<Rightarrow> INI" where
  "LimitINISize env ini0 =
     (case INI_Sections ini0 of
        (secs, ini) \<Rightarrow>
          if length secs \<le> MAX_INI_SECTIONS then ini
          else case limit_scan (he_time env) None 0 secs of
                 (kept, m) \<Rightarrow> ini\<lparr>sections := (case m of None \<Rightarrow> kept | Some s \<Rightarrow> merase s kept)\<rparr>)"

text \<open>The section that is selected exists, so that the lookups leave the map as it is.\<close>

definition ini_get :: "(string \<Rightarrow> 'v \<times> bool) \<Rightarrow> string \<Rightarrow> 'v \<Rightarrow> INI \<Rightarrow> 'v" where
  "ini_get cast key def ini = fst (INI_GetV cast key def ini)"

definition loaded_info :: "heart_env \<Rightarrow> INI \<Rightarrow> NetHeartbeatInfo \<Rightarrow> NetHeartbeatInfo" where
  "loaded_info env ini i0 =
     (let i1 = i0\<lparr>last_modify_time := ini_get cast_time kKeyModifyTime (last_modify_time i0) ini,
                  cur_heart := ini_get cast_uint kKeyCurHeart (cur_heart i0) ini,
                  fail_heart_count := ini_get cast_uint kKeyFailHeartCount (fail_heart_count i0) ini,
                  is_stable := ini_get bool_number_cast kKeyStable (is_stable i0) ini,
                  net_type := ini_get cast_int kKeyNetType (net_type i0) ini,
                  heart_type := ini_get cast_int kKeyHeartType 0 ini,
                  min_heart_fail_count := word_of_int (ini_get cast_int kKeyMinHeartFail 0 ini)\<rparr>;
          i2 = (if cur_heart i1 < MinHeartInterval then i1\<lparr>cur_heart := MinHeartInterval\<rparr> else i1);
          i3 = (if MaxHeartInterval < cur_heart i2
                then i2\<lparr>cur_heart := MaxHeartInterval - SuccessStep\<rparr> else i2)
      in if he_time env < last_modify_time i3 then i3\<lparr>last_modify_time := he_time env\<rparr> else i3)"

definition LoadINI :: "heart_env \<Rightarrow> SmartHeartbeat \<Rightarrow> SmartHeartbeat" where
  "LoadINI env h =
     (if he_label env = [] then h\<lparr>sh_info := NetHeartbeatInfo_Clear\<rparr>
      else if he_label env = net_detail (sh_info h) then h
      else
        let i0 = NetHeartbeatInfo_Clear\<lparr>net_detail := he_label env, net_type := he_label_type env\<rparr>
        in case SpecialINI_Select (he_digest env) (he_label env) (sh_ini h) of
             (True, ini) \<Rightarrow> h\<lparr>sh_info := loaded_info env ini i0, sh_ini := ini\<rparr>
           | (False, ini) \<Rightarrow>
               let ini' = snd (SpecialINI_Create (he_digest env) (he_label env) (LimitINISize env ini))
               in SaveINI env (h\<lparr>sh_info := i0, sh_ini := ini'\<rparr>))"

section \<open>Operations\<close>

definition SmartHeartbeat_new :: "bool \<Rightarrow> string option \<Rightarrow> SmartHeartbeat option" where
  "SmartHeartbeat_new reporting file =
     do { (ok, ini) \<leftarrow> INI_Parse file INI_new;
          Some \<lparr>sh_is_wait_heart_response = False, sh_success_heart_count = 0, sh_last_heart = MinHeartInterval,
                sh_info = NetHeartbeatInfo_Clear, sh_ini = ini, sh_doze_mode_count = 0,
                sh_normal_mode_count = 0, sh_noop_start_tick = 0, sh_file = file,
                sh_reporting = reporting, sh_reports = []\<rparr> }"

definition OnHeartbeatStart :: "heart_env \<Rightarrow> SmartHeartbeat \<Rightarrow> SmartHeartbeat" where
  "OnHeartbeatStart env h = h\<lparr>sh_noop_start_tick := he_tick env, sh_is_wait_heart_response := True\<rparr>"

definition OnLongLinkEstablished :: "heart_env \<Rightarrow> SmartHeartbeat \<Rightarrow> SmartHeartbeat" where
  "OnLongLinkEstablished env h = (LoadINI env h)\<lparr>sh_success_heart_count := 0\<rparr>"

definition IsDozeStyle :: "heart_env \<Rightarrow> SmartHeartbeat \<Rightarrow> bool" where
  "IsDozeStyle env h \<longleftrightarrow> 2 * sh_normal_mode_count h < sh_doze_mode_count h \<and> he_net env = kMobile"

definition report :: "TSmartHeartBeatAction \<Rightarrow> bool \<Rightarrow> SmartHeartbeat \<Rightarrow> SmartHeartbeat" where
  "report action timeout h =
     (if sh_reporting h then h\<lparr>sh_reports := sh_reports h @ [(action, sh_info h, timeout)]\<rparr> else h)"

definition upd_info :: "(NetHeartbeatInfo \<Rightarrow> NetHeartbeatInfo) \<Rightarrow> SmartHeartbeat \<Rightarrow> SmartHeartbeat" where
  "upd_info f h = h\<lparr>sh_info := f (sh_info h)\<rparr>"

text \<open>A success when the interval is stable: after a week a longer one is tried.\<close>

definition probe_bigger :: "heart_env \<Rightarrow> SmartHeartbeat \<Rightarrow> SmartHeartbeat" where
  "probe_bigger env h =
     (let i = sh_info h
      in if MaxHeartInterval - SuccessStep \<le> cur_heart i then h
         else if 7 * (24 * 60 * 60) \<le> he_time env - last_modify_time i \<and>
                 cur_heart i < MaxHeartInterval - SuccessStep
           then SaveINI env (report kActionReCalc False
                  (upd_info (\<lambda>i. i\<lparr>cur_heart := cur_heart i + SuccessStep, succ_heart_count := 0,
                                   is_stable := False, fail_heart_count := 0\<rparr>) h))
         else h)"

text \<open>A success while the interval is still searched.\<close>

definition search_up :: "heart_env \<Rightarrow> SmartHeartbeat \<Rightarrow> SmartHeartbeat" where
  "search_up env h =
     (let i = sh_info h; top = MaxHeartInterval - SuccessStep
      in if succ_heart_count i < BaseSuccCount then h
         else if top \<le> cur_heart i then
           report kActionCalcEnd False
             (upd_info (\<lambda>i. i\<lparr>cur_heart := top, succ_heart_count := 0, is_stable := True,
                heart_type := (if IsDozeStyle env h then kDozeModeHeart else kSmartHeartBeat)\<rparr>) h)
         else upd_info (\<lambda>i. i\<lparr>succ_heart_count := 0,
                cur_heart := (if IsDozeStyle env h then top else min top (cur_heart i + HeartStep))\<rparr>) h)"

text \<open>A failure at an interval above the shortest one.\<close>

definition search_down :: "heart_env \<Rightarrow> SmartHeartbeat \<Rightarrow> SmartHeartbeat" where
  "search_down env h =
     (let i = sh_info h
      in if fail_heart_count i < MaxHeartFailCount then h
         else if is_stable i then
           upd_info (\<lambda>i. i\<lparr>fail_heart_count := 0\<rparr>)
             (report kActionReCalc True
               (upd_info (\<lambda>i. i\<lparr>cur_heart := MinHeartInterval, succ_heart_count := 0, is_stable := False\<rparr>) h))
         else
           let cur = (if IsDozeStyle env h then MinHeartInterval
                      else if MinHeartInterval < cur_heart i - HeartStep - SuccessStep
                        then cur_heart i - HeartStep - SuccessStep
                      else MinHeartInterval)
           in report kActionCalcEnd False
                (upd_info (\<lambda>i. i\<lparr>cur_heart := cur, succ_heart_count := 0, fail_heart_count := 0,
                   is_stable := True,
                   heart_type := (if IsDozeStyle env h then kDozeModeHeart else kSmartHeartBeat)\<rparr>) h))"

text \<open>The counting while the network is not yet known to be stable.\<close>

definition test_phase :: "heart_env \<Rightarrow> bool \<Rightarrow> SmartHeartbeat \<Rightarrow> SmartHeartbeat" where
  "test_phase env sucess h =
     (let h1 = upd_info (\<lambda>i. i\<lparr>min_heart_fail_count := (if sucess then 0 else min_heart_fail_count i + 1)\<rparr>) h
      in if sh_reporting h1 \<and> 6 \<le> min_heart_fail_count (sh_info h1) \<and> he_connected env
         then upd_info (\<lambda>i. i\<lparr>min_heart_fail_count := 0\<rparr>) (report kActionBadNetwork False h1)
         else h1)"

definition OnHeartResult :: "heart_env \<Rightarrow> bool \<Rightarrow> bool \<Rightarrow> SmartHeartbeat \<Rightarrow> SmartHeartbeat" where
  "OnHeartResult env sucess fail_of_timeout h =
     (if \<not> sh_is_wait_heart_response h then h
      else
        let h1 = (if \<not> sucess \<and> NetStableTestCount \<le> sh_success_heart_count h \<and> is_stable (sh_info h)
                  then report kActionDisconnect fail_of_timeout h else h);
            h2 = h1\<lparr>sh_is_wait_heart_response := False\<rparr>
        in if net_detail (sh_info h2) = [] then h2
           else
             let h3 = (if sucess then h2\<lparr>sh_success_heart_count := sh_success_heart_count h2 + 1\<rparr> else h2)
             in if sh_success_heart_count h3 < NetStableTestCount then test_phase env sucess h3
                else if sh_last_heart h3 \<noteq> cur_heart (sh_info h3) then h3
                else
                  let h4 = upd_info (\<lambda>i. if sucess
                             then i\<lparr>succ_heart_count := succ_heart_count i + 1, fail_heart_count := 0\<rparr>
                             else i\<lparr>fail_heart_count := fail_heart_count i + 1\<rparr>) h3
                  in if sucess \<and> is_stable (sh_info h4) then probe_bigger env h4
                     else if sucess then SaveINI env (search_up env h4)
                     else if sh_last_heart h4 = MinHeartInterval then h4
                     else SaveINI env (search_down env h4))"

definition OnLongLinkDisconnect :: "heart_env \<Rightarrow> SmartHeartbeat \<Rightarrow> SmartHeartbeat" where
  "OnLongLinkDisconnect env h =
     (let h1 = OnHeartResult env False False h
      in if \<not> is_stable (sh_info h1) then h1
         else (upd_info (\<lambda>i. i\<lparr>succ_heart_count := 0\<rparr>) h1)\<lparr>sh_last_heart := MinHeartInterval\<rparr>)"

definition JudgeDozeStyle :: "heart_env \<Rightarrow> SmartHeartbeat \<Rightarrow> SmartHeartbeat" where
  "JudgeDozeStyle env h =
     (if he_active env then h
      else if sh_noop_start_tick h = 0 then h
      else if he_net env \<noteq> kMobile then h
      else
        let span = sint (he_tick env - sh_noop_start_tick h) - uint (sh_last_heart h);
            h1 = (if 20 * 1000 \<le> \<bar>span\<bar>
                  then h\<lparr>sh_doze_mode_count := sh_doze_mode_count h + 1,
                         sh_normal_mode_count := max (sh_normal_mode_count h - 1) 0\<rparr>
                  else h\<lparr>sh_normal_mode_count := sh_normal_mode_count h + 1,
                         sh_doze_mode_count := max (sh_doze_mode_count h - 1) 0\<rparr>)
        in h1\<lparr>sh_noop_start_tick := 0\<rparr>)"

definition GetNextHeartbeatInterval :: "heart_env \<Rightarrow> SmartHeartbeat \<Rightarrow> u32 \<times> SmartHeartbeat" where
  "GetNextHeartbeatInterval env h =
     (if he_active env then (MinHeartInterval, h\<lparr>sh_last_heart := MinHeartInterval\<rparr>)
      else if sh_success_heart_count h < NetStableTestCount \<or> net_detail (sh_info h) = []
        then (MinHeartInterval, h\<lparr>sh_last_heart := MinHeartInterval\<rparr>)
      else
        let h1 = h\<lparr>sh_last_heart := cur_heart (sh_info h)\<rparr>;
            reset = (\<lambda>h. (upd_info (\<lambda>i. i\<lparr>cur_heart := MinHeartInterval\<rparr>) h)\<lparr>sh_last_heart := MinHeartInterval\<rparr>);
            h2 = (if IsDozeStyle env h1 \<and> heart_type (sh_info h1) \<noteq> kDozeModeHeart \<and>
                     sh_last_heart h1 \<noteq> MaxHeartInterval - SuccessStep then reset h1 else h1);
            h3 = (if MaxHeartInterval \<le> sh_last_heart h2 \<or> sh_last_heart h2 < MinHeartInterval
                  then reset h2 else h2)
        in (sh_last_heart h3, h3))"

section \<open>The interval stays in its range\<close>

lemmas heart_consts = MinHeartInterval_def MaxHeartInterval_def HeartStep_def SuccessStep_def
  MaxHeartFailCount_def BaseSuccCount_def NetStableTestCount_def

definition heart_ok :: "NetHeartbeatInfo \<Rightarrow> bool" where
  "heart_ok i \<longleftrightarrow> MinHeartInterval \<le> cur_heart i \<and> cur_heart i \<le> MaxHeartInterval"

definition hb_inv :: "SmartHeartbeat \<Rightarrow> bool" where
  "hb_inv h \<longleftrightarrow> heart_ok (sh_info h) \<and> MinHeartInterval \<le> sh_last_heart h \<and> sh_last_heart h < MaxHeartInterval"

lemma unat_add_heart:
  "(a :: u32) \<le> 0x7FFFFFFF \<Longrightarrow> b \<le> 0x7FFFFFFF \<Longrightarrow> unat (a + b) = unat a + unat b"
  by (subst unat_add_lem [THEN iffD1]) (auto simp: word_le_nat_alt)

text \<open>Intervals as natural numbers.\<close>

lemma heart_nat:
  "unat MinHeartInterval = 210000" "unat MaxHeartInterval = 600000" "unat HeartStep = 60000"
  "unat SuccessStep = 20000" "unat (MaxHeartInterval - SuccessStep) = 580000"
  by (simp_all add: heart_consts)

lemma heart_ok_nat: "heart_ok i \<longleftrightarrow> 210000 \<le> unat (cur_heart i) \<and> unat (cur_heart i) \<le> 600000"
  by (simp add: heart_ok_def word_le_nat_alt heart_nat)

lemma heart_add:
  "unat c \<le> 600000 \<Longrightarrow> unat (c + SuccessStep) = unat c + 20000"
  "unat c \<le> 600000 \<Longrightarrow> unat (c + HeartStep) = unat c + 60000"
  using unat_add_heart [of c SuccessStep] unat_add_heart [of c HeartStep]
  by (simp_all add: word_le_nat_alt heart_nat)

lemma heart_sub:
  "210000 \<le> unat c \<Longrightarrow> unat (c - HeartStep - SuccessStep) = unat c - 80000"
proof -
  assume a: "210000 \<le> unat c"
  have "unat (c - HeartStep) = unat c - 60000"
    using a by (simp add: unat_sub word_le_nat_alt heart_nat)
  then show ?thesis using a by (simp add: unat_sub word_le_nat_alt heart_nat)
qed

text \<open>The invariant only depends on two fields.\<close>

lemma hb_inv_cong:
  "cur_heart (sh_info h') = cur_heart (sh_info h) \<Longrightarrow> sh_last_heart h' = sh_last_heart h \<Longrightarrow> hb_inv h' = hb_inv h"
  by (simp add: hb_inv_def heart_ok_def)

lemma frame_last [simp]:
  "sh_last_heart (report a b h) = sh_last_heart h" "sh_last_heart (upd_info f h) = sh_last_heart h"
  "sh_last_heart (SaveINI env h) = sh_last_heart h"
  by (simp_all add: report_def upd_info_def SaveINI_def Let_def)

lemma frame_info [simp]:
  "sh_info (report a b h) = sh_info h" "sh_info (upd_info f h) = f (sh_info h)"
  "cur_heart (sh_info (SaveINI env h)) = cur_heart (sh_info h)"
  "is_stable (sh_info (SaveINI env h)) = is_stable (sh_info h)"
  "succ_heart_count (sh_info (SaveINI env h)) = succ_heart_count (sh_info h)"
  "net_detail (sh_info (SaveINI env h)) = net_detail (sh_info h)"
  by (simp_all add: report_def upd_info_def SaveINI_def Let_def)

lemma hb_inv_SaveINI [simp]: "hb_inv (SaveINI env h) = hb_inv h"
  by (rule hb_inv_cong) simp_all

lemma hb_inv_report [simp]: "hb_inv (report a b h) = hb_inv h"
  by (rule hb_inv_cong) simp_all

lemma hb_inv_upd: "hb_inv h \<Longrightarrow> heart_ok (f (sh_info h)) \<Longrightarrow> hb_inv (upd_info f h)"
  by (simp add: hb_inv_def)

lemma hb_inv_heart: "hb_inv h \<Longrightarrow> heart_ok (sh_info h)"
  by (simp add: hb_inv_def)

lemma hb_inv_probe: "hb_inv h \<Longrightarrow> hb_inv (probe_bigger env h)"
  using hb_inv_heart [of h]
  by (auto simp: probe_bigger_def Let_def heart_ok_nat word_le_nat_alt word_less_nat_alt heart_nat heart_add
      intro!: hb_inv_upd)

lemma hb_inv_up: "hb_inv h \<Longrightarrow> hb_inv (search_up env h)"
  using hb_inv_heart [of h]
  by (auto simp: search_up_def Let_def heart_ok_nat heart_nat min_def word_le_nat_alt heart_add
      intro!: hb_inv_upd)

lemma hb_inv_down: "hb_inv h \<Longrightarrow> hb_inv (search_down env h)"
  using hb_inv_heart [of h]
  by (auto simp: search_down_def Let_def heart_ok_nat heart_nat word_less_nat_alt heart_sub
      intro!: hb_inv_upd)

lemma hb_inv_test: "hb_inv h \<Longrightarrow> hb_inv (test_phase env ok h)"
  by (auto simp: test_phase_def Let_def heart_ok_def hb_inv_def)

lemma hb_inv_fields [simp]:
  "hb_inv (h\<lparr>sh_is_wait_heart_response := b\<rparr>) = hb_inv h" "hb_inv (h\<lparr>sh_success_heart_count := n\<rparr>) = hb_inv h"
  "hb_inv (h\<lparr>sh_noop_start_tick := t\<rparr>) = hb_inv h" "hb_inv (h\<lparr>sh_doze_mode_count := i\<rparr>) = hb_inv h"
  "hb_inv (h\<lparr>sh_normal_mode_count := i\<rparr>) = hb_inv h" "hb_inv (h\<lparr>sh_ini := ini\<rparr>) = hb_inv h"
  by (simp_all add: hb_inv_def)

lemma hb_inv_count: "(\<And>i. cur_heart (f i) = cur_heart i) \<Longrightarrow> hb_inv (upd_info f h) = hb_inv h"
  by (rule hb_inv_cong) simp_all

lemma hb_inv_result: "hb_inv h \<Longrightarrow> hb_inv (OnHeartResult env ok tmo h)"
  unfolding OnHeartResult_def Let_def
  by (simp add: hb_inv_probe hb_inv_up hb_inv_down hb_inv_test hb_inv_count del: frame_info)

lemma heart_ok_clear: "heart_ok NetHeartbeatInfo_Clear"
  by (simp add: heart_ok_def NetHeartbeatInfo_Clear_def heart_consts)

lemma heart_ok_loaded: "heart_ok (loaded_info env ini i)"
  by (auto simp: loaded_info_def Let_def heart_ok_def not_less heart_consts)

lemma hb_inv_info: "hb_inv h \<Longrightarrow> heart_ok i \<Longrightarrow> hb_inv (h\<lparr>sh_info := i\<rparr>)"
  by (simp add: hb_inv_def)

lemma hb_inv_load: "hb_inv h \<Longrightarrow> hb_inv (LoadINI env h)"
  unfolding LoadINI_def Let_def
  by (auto intro!: hb_inv_info heart_ok_loaded heart_ok_clear split: prod.splits bool.splits)
    (use heart_ok_clear in \<open>simp add: heart_ok_def\<close>)

lemma hb_inv_next:
  assumes "hb_inv h"
  shows "hb_inv (snd (GetNextHeartbeatInterval env h))"
    and "fst (GetNextHeartbeatInterval env h) = sh_last_heart (snd (GetNextHeartbeatInterval env h))"
proof -
  have m: "MinHeartInterval < MaxHeartInterval" by (simp add: heart_consts)
  have "hb_inv (h\<lparr>sh_last_heart := MinHeartInterval\<rparr>)" using assms m by (simp add: hb_inv_def)
  moreover have "heart_ok (i\<lparr>cur_heart := MinHeartInterval\<rparr>)" for i by (simp add: heart_ok_def heart_consts)
  ultimately show "hb_inv (snd (GetNextHeartbeatInterval env h))"
    using assms m by (auto simp: GetNextHeartbeatInterval_def Let_def hb_inv_def upd_info_def not_le not_less)
  show "fst (GetNextHeartbeatInterval env h) = sh_last_heart (snd (GetNextHeartbeatInterval env h))"
    by (simp add: GetNextHeartbeatInterval_def Let_def)
qed

lemma hb_inv_disconnect: "hb_inv h \<Longrightarrow> hb_inv (OnLongLinkDisconnect env h)"
  using hb_inv_result [of h env False False]
  by (auto simp: OnLongLinkDisconnect_def Let_def upd_info_def hb_inv_def heart_ok_def heart_consts)

lemma hb_inv_judge: "hb_inv h \<Longrightarrow> hb_inv (JudgeDozeStyle env h)"
  by (simp add: JudgeDozeStyle_def Let_def)

lemma hb_inv_new: "SmartHeartbeat_new r file = Some h \<Longrightarrow> hb_inv h"
  using heart_ok_clear
  by (auto simp: SmartHeartbeat_new_def hb_inv_def heart_consts split: Option.bind_splits)

text \<open>The calls of the long link, with the interval that a call returns.\<close>

datatype heart_call = HEstablished | HDisconnect | HStart | HResult bool bool | HJudge | HNext

fun heart_step :: "heart_env \<Rightarrow> heart_call \<Rightarrow> SmartHeartbeat \<Rightarrow> u32 list \<times> SmartHeartbeat" where
  "heart_step env HEstablished h = ([], OnLongLinkEstablished env h)"
| "heart_step env HDisconnect h = ([], OnLongLinkDisconnect env h)"
| "heart_step env HStart h = ([], OnHeartbeatStart env h)"
| "heart_step env (HResult ok tmo) h = ([], OnHeartResult env ok tmo h)"
| "heart_step env HJudge h = ([], JudgeDozeStyle env h)"
| "heart_step env HNext h = (case GetNextHeartbeatInterval env h of (i, h') \<Rightarrow> ([i], h'))"

fun heart_run :: "(heart_env \<times> heart_call) list \<Rightarrow> SmartHeartbeat \<Rightarrow> u32 list \<times> SmartHeartbeat" where
  "heart_run [] h = ([], h)"
| "heart_run ((env, c) # cs) h =
     (case heart_step env c h of (is, h') \<Rightarrow> case heart_run cs h' of (js, h'') \<Rightarrow> (is @ js, h''))"

definition in_range :: "u32 \<Rightarrow> bool" where
  "in_range i \<longleftrightarrow> MinHeartInterval \<le> i \<and> i < MaxHeartInterval"

lemma heart_step_ok:
  "hb_inv h \<Longrightarrow> hb_inv (snd (heart_step env c h)) \<and> list_all in_range (fst (heart_step env c h))"
proof (cases c)
  case HNext
  assume "hb_inv h"
  then show ?thesis
    using HNext hb_inv_next [of h env]
    by (auto simp: in_range_def hb_inv_def split: prod.splits)
qed (simp_all add: OnLongLinkEstablished_def OnHeartbeatStart_def hb_inv_load hb_inv_disconnect
    hb_inv_result hb_inv_judge)

lemma heart_run_ok:
  "hb_inv h \<Longrightarrow> hb_inv (snd (heart_run cs h)) \<and> list_all in_range (fst (heart_run cs h))"
proof (induction cs arbitrary: h)
  case (Cons ec cs)
  obtain env c where "ec = (env, c)" by (rule prod.exhaust)
  then show ?case
    using heart_step_ok [OF Cons.prems, of env c] Cons.IH [of "snd (heart_step env c h)"]
    by (auto split: prod.splits)
qed simp

section \<open>What is saved can be loaded\<close>

lemma decimal_key_ok:
  "VerifyName k \<Longrightarrow> length k < 100 \<Longrightarrow> \<bar>v\<bar> < 2 ^ 64 \<Longrightarrow> key_ok (k, decimal v)"
  using itoa_plain [of _ v True] itoa_short [of v True]
  by (auto simp: key_ok_def decimal_def BUFFER_SIZE_def newline_def is_space_def)

lemma VerifyName_keys:
  "VerifyName kKeyModifyTime" "VerifyName kKeyCurHeart" "VerifyName kKeyFailHeartCount"
  "VerifyName kKeyStable" "VerifyName kKeyNetType" "VerifyName kKeyHeartType" "VerifyName kKeyMinHeartFail"
  by (simp_all add: key_names VerifyName_def name_char_def less_eq_char_def)

text \<open>The values that the types of the fields and the clock allow.\<close>

definition info_ok :: "NetHeartbeatInfo \<Rightarrow> bool" where
  "info_ok i \<longleftrightarrow> - (2 ^ 63) \<le> last_modify_time i \<and> last_modify_time i < 2 ^ 63 \<and>
     - (2 ^ 31) \<le> net_type i \<and> net_type i < 2 ^ 31 \<and> - (2 ^ 31) \<le> heart_type i \<and> heart_type i < 2 ^ 31 \<and>
     uint (min_heart_fail_count i) < 2 ^ 31"

lemma uint_small: "\<bar>uint (w :: u32)\<bar> < 2 ^ 64"
  using uint_lt2p [of w] by simp

lemma saved_keys_ok:
  assumes "info_ok i"
  shows "list_all key_ok (saved_keys i)"
proof -
  have k: "length kKeyModifyTime < 100" "length kKeyCurHeart < 100" "length kKeyFailHeartCount < 100"
    "length kKeyNetType < 100" "length kKeyHeartType < 100" "length kKeyMinHeartFail < 100"
    by (simp_all add: key_names)
  have "\<bar>last_modify_time i\<bar> < 2 ^ 64" "\<bar>net_type i\<bar> < 2 ^ 64" "\<bar>heart_type i\<bar> < 2 ^ 64"
    using assms by (auto simp: info_ok_def)
  moreover have "key_ok (kKeyStable, string_cast_bool b)" for b
    using VerifyName_keys(4) by (simp add: key_ok_def string_cast_bool_def BUFFER_SIZE_def newline_def key_names)
  ultimately show ?thesis
    using k VerifyName_keys uint_small by (simp add: saved_keys_def decimal_key_ok)
qed

lemma set_keys_put:
  assumes "list_all key_ok ks" "VerifyName (currentsection ini)"
  shows "set_keys ks ini =
    ini\<lparr>sections := foldl (\<lambda>secs (k, v). put_key (currentsection ini) k v secs) (sections ini) ks\<rparr>"
  using assms
proof (induction ks arbitrary: ini)
  case (Cons kv ks)
  obtain k v where kv: "kv = (k, v)" by (rule prod.exhaust)
  let ?ini = "ini\<lparr>sections := put_key (currentsection ini) k v (sections ini)\<rparr>"
  have "snd (INI_Set k v ini) = ?ini"
    using Cons.prems by (simp add: kv INI_Set_def INI_Set_in_def key_ok_def)
  then have "set_keys (kv # ks) ini = set_keys ks ?ini" by (simp add: set_keys_def kv)
  then show ?case using Cons.IH [of ?ini] Cons.prems by (simp add: kv)
qed (simp add: set_keys_def)

lemma ini_wf_fold:
  "ini_wf secs \<Longrightarrow> VerifyName s \<Longrightarrow> length s < 512 \<Longrightarrow> list_all key_ok ks \<Longrightarrow>
   ini_wf (foldl (\<lambda>secs (k, v). put_key s k v secs) secs ks)"
  by (induction ks arbitrary: secs) (auto simp: ini_wf_put_key)

text \<open>The keys of the current section after \<open>__SaveINI\<close>, as a restarted process reads them.\<close>

definition stored :: "string \<Rightarrow> NetHeartbeatInfo \<Rightarrow> sections_t \<Rightarrow> bool" where
  "stored s i secs \<longleftrightarrow> list_all (\<lambda>(k, v). key_value s k secs = Some v) (saved_keys i)"

lemma stored_fold: "stored s i (foldl (\<lambda>secs (k, v). put_key s k v secs) secs (saved_keys i))"
  by (simp add: stored_def saved_keys_def key_names)

lemma casts_decimal:
  "- (2 ^ 63) \<le> v \<Longrightarrow> v < 2 ^ 63 \<Longrightarrow> cast_time (decimal v) = (v, True)"
  "- (2 ^ 31) \<le> v \<Longrightarrow> v < 2 ^ 31 \<Longrightarrow> cast_int (decimal v) = (v, True)"
  "cast_uint (decimal (uint w)) = (w, True)"
  using uint_lt2p [of w]
  by (simp_all add: cast_time_def cast_int_def cast_uint_def decimal_def signed_cast_itoa unsigned_cast_itoa)

lemma decimal_nonempty: "decimal v \<noteq> []"
  using itoa_chars [of v True] by (simp add: decimal_def)

lemma loaded_stored:
  assumes "stored (currentsection ini) i (sections ini)" "VerifyName (currentsection ini)" "info_ok i" "heart_ok i"
    and "last_modify_time i \<le> he_time env"
  shows "loaded_info env ini i0 = i0\<lparr>last_modify_time := last_modify_time i, cur_heart := cur_heart i,
    fail_heart_count := fail_heart_count i, is_stable := is_stable i, net_type := net_type i,
    heart_type := heart_type i, min_heart_fail_count := min_heart_fail_count i\<rparr>"
proof -
  let ?s = "currentsection ini"
  have kv: "key_value ?s kKeyModifyTime (sections ini) = Some (decimal (last_modify_time i))"
    "key_value ?s kKeyCurHeart (sections ini) = Some (decimal (uint (cur_heart i)))"
    "key_value ?s kKeyFailHeartCount (sections ini) = Some (decimal (uint (fail_heart_count i)))"
    "key_value ?s kKeyStable (sections ini) = Some (string_cast_bool (is_stable i))"
    "key_value ?s kKeyNetType (sections ini) = Some (decimal (net_type i))"
    "key_value ?s kKeyHeartType (sections ini) = Some (decimal (heart_type i))"
    "key_value ?s kKeyMinHeartFail (sections ini) = Some (decimal (uint (min_heart_fail_count i)))"
    using assms(1) by (simp_all add: stored_def saved_keys_def)
  have bn: "string_cast_bool b \<noteq> []" for b by (simp add: string_cast_bool_def)
  have mf: "cast_int (decimal (uint (min_heart_fail_count i))) = (uint (min_heart_fail_count i), True)"
    using assms(3) uint_ge_0 [of "min_heart_fail_count i"] unfolding info_ok_def by (intro casts_decimal) linarith+
  note get = ini_get_def fst_INI_GetV [OF assms(2)] VerifyName_keys kv decimal_nonempty casts_decimal bool_cast bn
  have v: "ini_get cast_time kKeyModifyTime d ini = last_modify_time i"
    "ini_get cast_uint kKeyCurHeart e ini = cur_heart i"
    "ini_get cast_uint kKeyFailHeartCount f ini = fail_heart_count i"
    "ini_get bool_number_cast kKeyStable b ini = is_stable i"
    "ini_get cast_int kKeyNetType t ini = net_type i"
    "ini_get cast_int kKeyHeartType 0 ini = heart_type i"
    "ini_get cast_int kKeyMinHeartFail 0 ini = uint (min_heart_fail_count i)" for d e f b t
    using assms(3) by (simp_all add: get mf info_ok_def)
  have r: "\<not> cur_heart i < MinHeartInterval" "\<not> MaxHeartInterval < cur_heart i" "\<not> he_time env < last_modify_time i"
    using assms(4,5) unfolding heart_ok_def by (simp_all only: not_less)
  show ?thesis unfolding loaded_info_def v by (simp add: r Let_def)
qed

section \<open>Properties\<close>

text \<open>C19. Whatever the INI file held and whatever the calls and the readings of the platform, every
  interval that is handed out is at least 3.5 minutes and less than 10 minutes, and the learned
  interval stays within these limits.\<close>

theorem heart_interval_range:
  assumes "SmartHeartbeat_new reporting file = Some h" "heart_run cs h = (intervals, h')"
  shows "list_all (\<lambda>i. 210000 \<le> i \<and> i < 600000) intervals \<and>
    210000 \<le> cur_heart (sh_info h') \<and> cur_heart (sh_info h') \<le> 600000"
  using heart_run_ok [OF hb_inv_new [OF assms(1)], of cs] assms(2)
  by (simp add: in_range_def [abs_def] hb_inv_def heart_ok_def heart_consts)

definition sample_heart_env :: heart_env where
  "sample_heart_env = \<lparr>he_tick = 5000, he_time = 1700000000, he_net = kWifi, he_label = ''home'', he_label_type = 1,
     he_active = False, he_connected = True, he_digest = (\<lambda>s. CHR ''d'' # s)\<rparr>"

theorem heart_interval_range_witness:
  "\<exists>h. SmartHeartbeat_new False None = Some h \<and>
     list_all (\<lambda>i. 210000 \<le> i \<and> i < 600000)
       (fst (heart_run [(sample_heart_env, HEstablished), (sample_heart_env, HNext)] h))"
proof -
  obtain h where h: "SmartHeartbeat_new False None = Some h" by (simp add: SmartHeartbeat_new_def INI_Parse_def)
  then show ?thesis
    using heart_interval_range [OF h prod.collapse [symmetric], of "[(sample_heart_env, HEstablished), (sample_heart_env, HNext)]"]
    by blast
qed

text \<open>C20. What was learned survives a restart: when the state of a network is saved, a new process that
  reads the file and connects to the same network continues with the same interval, stability,
  counters and types; only the count of successes starts again.\<close>

theorem heartbeat_survives_restart:
  assumes "net_detail (sh_info h) \<noteq> []" "he_label env' = net_detail (sh_info h)"
    and "info_ok (sh_info h)" "heart_ok (sh_info h)" "ini_wf (sections (sh_ini h))"
    and "currentsection (sh_ini h) = he_digest env' (he_label env')"
    and "VerifyName (he_digest env' (he_label env'))" "length (he_digest env' (he_label env')) < 512"
    and "- (2 ^ 63) \<le> he_time env" "he_time env < 2 ^ 63" "he_time env \<le> he_time env'"
  shows "\<exists>h'. SmartHeartbeat_new reporting (sh_file (SaveINI env h)) = Some h' \<and>
    sh_info (LoadINI env' h') = (sh_info h)\<lparr>last_modify_time := he_time env, succ_heart_count := 0\<rparr>"
proof -
  let ?s = "he_digest env' (he_label env')" and ?i = "(sh_info h)\<lparr>last_modify_time := he_time env\<rparr>"
  define secs where "secs = foldl (\<lambda>secs (k, v). put_key ?s k v secs) (sections (sh_ini h)) (saved_keys ?i)"
  define secs' where "secs' = filter (\<lambda>(s, ks). ks \<noteq> []) secs"
  have i: "info_ok ?i" "heart_ok ?i" using assms(3,4,9,10) by (simp_all add: info_ok_def heart_ok_def)
  note k = saved_keys_ok [OF i(1)]
  have f: "sh_file (SaveINI env h) = Some (INI_Save secs)"
    using assms(1,6,7) set_keys_put [OF k, of "sh_ini h"] by (simp add: SaveINI_def secs_def Let_def)
  have wf: "ini_wf secs" unfolding secs_def by (rule ini_wf_fold [OF assms(5,7,8) k])
  then have st: "stored ?s ?i secs'"
    using stored_fold [of ?s ?i "sections (sh_ini h)"] key_value_filter [of secs]
    by (simp add: stored_def secs_def secs'_def ini_wf_def)
  obtain h' where h': "SmartHeartbeat_new reporting (sh_file (SaveINI env h)) = Some h'"
    "sections (sh_ini h') = secs'" "sh_info h' = NetHeartbeatInfo_Clear"
    using parse_sections [of secs "[]" "[]"] wf
    by (simp add: f SmartHeartbeat_new_def INI_Parse_def INI_new_def ini_wf_def secs'_def)
  have "key_value ?s kKeyStable secs' \<noteq> None" using st by (simp add: stored_def saved_keys_def)
  then have sel: "SpecialINI_Select (he_digest env') (he_label env') (sh_ini h') =
      (True, (sh_ini h')\<lparr>currentsection := ?s\<rparr>)"
    using assms(7) h'(2) by (auto simp: SpecialINI_Select_def INI_Select_def dest: mget_key_value)
  have "sh_info (LoadINI env' h') = loaded_info env' ((sh_ini h')\<lparr>currentsection := ?s\<rparr>)
      (NetHeartbeatInfo_Clear\<lparr>net_detail := he_label env', net_type := he_label_type env'\<rparr>)"
    unfolding LoadINI_def sel Let_def using assms(1,2) h'(3) by (simp add: NetHeartbeatInfo_Clear_def)
  also have "\<dots> = (sh_info h)\<lparr>last_modify_time := he_time env, succ_heart_count := 0\<rparr>"
    using loaded_stored [of "(sh_ini h')\<lparr>currentsection := ?s\<rparr>" ?i env'] st assms(2,7,11) i h'(2)
    by (simp add: NetHeartbeatInfo_Clear_def)
  finally show ?thesis using h'(1) by blast
qed

definition sample_heart :: SmartHeartbeat where
  "sample_heart = \<lparr>sh_is_wait_heart_response = False, sh_success_heart_count = 5, sh_last_heart = 270000,
     sh_info = \<lparr>net_detail = ''home'', net_type = 1, cur_heart = 330000, heart_type = 1, is_stable = True,
       last_modify_time = 1690000000, fail_heart_count = 1, succ_heart_count = 2, min_heart_fail_count = 0\<rparr>,
     sh_ini = \<lparr>currentsection = ''dhome'', sections = [(''dhome'', [(''name'', ''home'')])]\<rparr>,
     sh_doze_mode_count = 0, sh_normal_mode_count = 0, sh_noop_start_tick = 0, sh_file = None,
     sh_reporting = False, sh_reports = []\<rparr>"

theorem heartbeat_survives_restart_witness:
  "\<exists>h'. SmartHeartbeat_new False (sh_file (SaveINI sample_heart_env sample_heart)) = Some h' \<and>
    cur_heart (sh_info (LoadINI sample_heart_env h')) = 330000 \<and> is_stable (sh_info (LoadINI sample_heart_env h'))"
proof -
  have "\<exists>h'. SmartHeartbeat_new False (sh_file (SaveINI sample_heart_env sample_heart)) = Some h' \<and>
    sh_info (LoadINI sample_heart_env h') =
      (sh_info sample_heart)\<lparr>last_modify_time := he_time sample_heart_env, succ_heart_count := 0\<rparr>"
    by (rule heartbeat_survives_restart)
      (simp_all add: sample_heart_def sample_heart_env_def info_ok_def heart_ok_def heart_consts ini_wf_def
        section_ok_def key_ok_def VerifyName_def name_char_def less_eq_char_def BUFFER_SIZE_def newline_def)
  then show ?thesis by (auto simp: sample_heart_def)
qed

section \<open>The search ends\<close>

text \<open>One heartbeat that is answered: the interval is fetched, the heartbeat sent and its success
  reported.\<close>

definition heart_cycle :: "heart_env \<Rightarrow> SmartHeartbeat \<Rightarrow> SmartHeartbeat" where
  "heart_cycle env h =
     OnHeartResult env True False (OnHeartbeatStart env (snd (GetNextHeartbeatInterval env h)))"

definition searching :: "SmartHeartbeat \<Rightarrow> bool" where
  "searching h \<longleftrightarrow> \<not> is_stable (sh_info h) \<and> net_detail (sh_info h) \<noteq> [] \<and>
     210000 \<le> unat (cur_heart (sh_info h)) \<and> unat (cur_heart (sh_info h)) < 600000 \<and>
     unat (succ_heart_count (sh_info h)) < 3"

definition steps_left :: "nat \<Rightarrow> nat" where
  "steps_left c = (639999 - c) div 60000"

definition search_measure :: "SmartHeartbeat \<Rightarrow> nat" where
  "search_measure h = (3 - unat (sh_success_heart_count h)) + 3 * steps_left (unat (cur_heart (sh_info h)))
     + (3 - unat (succ_heart_count (sh_info h)))"

lemma steps_left_up: "c < 580000 \<Longrightarrow> steps_left (min 580000 (c + 60000)) + 1 \<le> steps_left c"
  by (auto simp: steps_left_def min_def)

lemma next_searching:
  assumes "\<not> he_active env" "he_net env \<noteq> kMobile" "searching h"
  shows "snd (GetNextHeartbeatInterval env h) =
    h\<lparr>sh_last_heart := (if sh_success_heart_count h < 3 then MinHeartInterval else cur_heart (sh_info h))\<rparr>"
proof -
  have "\<not> MaxHeartInterval \<le> cur_heart (sh_info h)" "\<not> cur_heart (sh_info h) < MinHeartInterval"
    using assms(3) by (simp_all add: searching_def word_le_nat_alt word_less_nat_alt heart_nat)
  then show ?thesis
    using assms by (simp add: GetNextHeartbeatInterval_def IsDozeStyle_def NetStableTestCount_def searching_def)
qed

lemma unat_inc: "unat (w :: u32) < 2 ^ 32 - 1 \<Longrightarrow> unat (w + 1) = unat w + 1"
  by (subst unat_add_lem [THEN iffD1]) simp_all

lemma search_up_measure:
  assumes "he_net env \<noteq> kMobile" "\<not> is_stable (sh_info h)" "net_detail (sh_info h) \<noteq> []"
    and c: "210000 \<le> unat (cur_heart (sh_info h))" "unat (cur_heart (sh_info h)) < 600000"
    and s: "unat (succ_heart_count (sh_info h)) \<le> 3"
  shows "is_stable (sh_info (search_up env h)) \<and> cur_heart (sh_info (search_up env h)) = MaxHeartInterval - SuccessStep \<or>
    searching (search_up env h) \<and> search_measure (search_up env h) \<le> search_measure h"
proof (cases "unat (succ_heart_count (sh_info h)) < 3")
  case True
  then have "search_up env h = h" by (simp add: search_up_def BaseSuccCount_def word_less_nat_alt)
  then show ?thesis using True assms by (simp add: searching_def)
next
  case False
  then have b: "\<not> succ_heart_count (sh_info h) < BaseSuccCount"
    by (simp add: BaseSuccCount_def word_less_nat_alt)
  show ?thesis
  proof (cases "unat (cur_heart (sh_info h)) < 580000")
    case True
    then have t: "\<not> MaxHeartInterval - SuccessStep \<le> cur_heart (sh_info h)" by (simp add: word_le_nat_alt heart_nat)
    let ?c = "min (MaxHeartInterval - SuccessStep) (cur_heart (sh_info h) + HeartStep)"
    have u: "unat ?c = min 580000 (unat (cur_heart (sh_info h)) + 60000)"
      using c(2) by (simp add: min_def word_le_nat_alt heart_nat heart_add)
    have e: "search_up env h = upd_info (\<lambda>i. i\<lparr>succ_heart_count := 0,
        cur_heart := min (MaxHeartInterval - SuccessStep) (cur_heart i + HeartStep)\<rparr>) h"
      using b t assms(1) by (simp add: search_up_def Let_def IsDozeStyle_def)
    have "searching (search_up env h)"
      using assms(2,3) c u by (simp add: e searching_def)
    moreover have "search_measure (search_up env h) \<le> search_measure h"
      using steps_left_up [OF True] False s u by (simp add: e search_measure_def upd_info_def)
    ultimately show ?thesis by blast
  next
    case False
    then show ?thesis using b by (simp add: search_up_def Let_def word_le_nat_alt heart_nat)
  qed
qed

lemma search_measure_SaveINI [simp]:
  "search_measure (SaveINI env h) = search_measure h" "searching (SaveINI env h) = searching h"
  by (simp_all add: search_measure_def searching_def SaveINI_def Let_def)

text \<open>What an answered heartbeat does while the interval is searched.\<close>

lemma heart_cycle_eq:
  assumes "\<not> he_active env" "he_net env \<noteq> kMobile" "searching h"
  obtains h3 where "sh_info h3 = sh_info h" "sh_success_heart_count h3 = sh_success_heart_count h + 1"
    and "sh_last_heart h3 = (if sh_success_heart_count h < 3 then MinHeartInterval else cur_heart (sh_info h))"
    and "heart_cycle env h =
      (if sh_success_heart_count h + 1 < 3 then test_phase env True h3
       else if sh_last_heart h3 \<noteq> cur_heart (sh_info h) then h3
       else SaveINI env (search_up env (upd_info (\<lambda>i. i\<lparr>succ_heart_count := succ_heart_count i + 1,
                                                        fail_heart_count := 0\<rparr>) h3)))"
proof -
  let ?h2 = "OnHeartbeatStart env (snd (GetNextHeartbeatInterval env h))"
  let ?h3 = "?h2\<lparr>sh_is_wait_heart_response := False, sh_success_heart_count := sh_success_heart_count h + 1\<rparr>"
  have i: "\<not> is_stable (sh_info h)" "net_detail (sh_info h) \<noteq> []" using assms(3) by (simp_all add: searching_def)
  have f: "sh_info ?h2 = sh_info h" "sh_success_heart_count ?h2 = sh_success_heart_count h"
    "sh_is_wait_heart_response ?h2"
    by (simp_all add: OnHeartbeatStart_def next_searching [OF assms])
  show ?thesis
    by (rule that [of ?h3])
      (use f i in \<open>simp_all add: heart_cycle_def OnHeartResult_def Let_def NetStableTestCount_def
        next_searching [OF assms] OnHeartbeatStart_def\<close>)
qed

lemma frame_success [simp]:
  "sh_success_heart_count (SaveINI env h) = sh_success_heart_count h"
  "sh_success_heart_count (report a b h) = sh_success_heart_count h"
  "sh_success_heart_count (upd_info f h) = sh_success_heart_count h"
  "sh_success_heart_count (search_up env h) = sh_success_heart_count h"
  "sh_success_heart_count (test_phase env b h) = sh_success_heart_count h"
  by (simp_all add: report_def upd_info_def SaveINI_def search_up_def test_phase_def Let_def)

lemma heart_cycle_step:
  fixes env h
  assumes env: "\<not> he_active env" "he_net env \<noteq> kMobile" and h: "searching h"
    and sc: "unat (sh_success_heart_count h) < 2 ^ 32 - 1"
  defines "h' \<equiv> heart_cycle env h"
  shows "is_stable (sh_info h') \<and> cur_heart (sh_info h') = MaxHeartInterval - SuccessStep \<or>
    searching h' \<and> search_measure h' < search_measure h"
    and "unat (sh_success_heart_count h') = unat (sh_success_heart_count h) + 1"
proof -
  let ?n = "sh_success_heart_count h"
  obtain h3 where f: "sh_info h3 = sh_info h" "sh_success_heart_count h3 = ?n + 1"
    "sh_last_heart h3 = (if ?n < 3 then MinHeartInterval else cur_heart (sh_info h))"
    and e: "heart_cycle env h = (if ?n + 1 < 3 then test_phase env True h3
       else if sh_last_heart h3 \<noteq> cur_heart (sh_info h) then h3
       else SaveINI env (search_up env (upd_info (\<lambda>i. i\<lparr>succ_heart_count := succ_heart_count i + 1,
                                                        fail_heart_count := 0\<rparr>) h3)))"
    by (rule heart_cycle_eq [OF env h])
  note n = unat_inc [OF sc]
  show "unat (sh_success_heart_count h') = unat ?n + 1" by (simp add: h'_def e f n)
  have less: "searching h3 \<and> search_measure h3 < search_measure h" if "?n < 3"
  proof -
    have "unat ?n < 3" using that by (simp add: word_less_nat_alt)
    then have "search_measure h3 < search_measure h" unfolding search_measure_def f n by linarith
    then show ?thesis using h f(1) by (simp add: searching_def)
  qed
  consider (test) "?n + 1 < 3" | (skip) "\<not> ?n + 1 < 3" "sh_last_heart h3 \<noteq> cur_heart (sh_info h)"
    | (count) "\<not> ?n + 1 < 3" "sh_last_heart h3 = cur_heart (sh_info h)" by blast
  then show "is_stable (sh_info h') \<and> cur_heart (sh_info h') = MaxHeartInterval - SuccessStep \<or>
    searching h' \<and> search_measure h' < search_measure h"
  proof cases
    case test
    then have "?n < 3" using n by (simp add: word_less_nat_alt)
    moreover have "searching h' = searching h3" "search_measure h' = search_measure h3"
      using test by (simp_all add: h'_def e test_phase_def searching_def search_measure_def Let_def)
    ultimately show ?thesis using less by simp
  next
    case skip
    then show ?thesis using less f(3) by (simp add: h'_def e split: if_splits)
  next
    case count
    let ?h4 = "upd_info (\<lambda>i. i\<lparr>succ_heart_count := succ_heart_count i + 1, fail_heart_count := 0\<rparr>) h3"
    have s: "unat (succ_heart_count (sh_info h) + 1) = unat (succ_heart_count (sh_info h)) + 1"
      using h by (intro unat_inc) (simp add: searching_def)
    have h': "h' = SaveINI env (search_up env ?h4)" using count by (simp add: h'_def e)
    have "unat (succ_heart_count (sh_info h)) < 3" using h by (simp add: searching_def)
    moreover have "search_measure ?h4 = (3 - (unat ?n + 1)) + 3 * steps_left (unat (cur_heart (sh_info h)))
        + (3 - (unat (succ_heart_count (sh_info h)) + 1))"
      by (simp add: search_measure_def f s n)
    ultimately have m: "search_measure ?h4 < search_measure h" unfolding search_measure_def by linarith
    show ?thesis
      using search_up_measure [of env ?h4] h env(2) f s m by (auto simp: h' searching_def)
  qed
qed

lemma search_ends:
  assumes "\<not> he_active env" "he_net env \<noteq> kMobile"
  shows "searching h \<Longrightarrow> unat (sh_success_heart_count h) + search_measure h < 2 ^ 32 \<Longrightarrow>
    \<exists>n \<le> search_measure h. is_stable (sh_info ((heart_cycle env ^^ n) h)) \<and>
      cur_heart (sh_info ((heart_cycle env ^^ n) h)) = MaxHeartInterval - SuccessStep"
proof (induction "search_measure h" arbitrary: h rule: less_induct)
  case less
  let ?h = "heart_cycle env h"
  have "0 < search_measure h" using less.prems(1) by (simp add: search_measure_def searching_def)
  then have sc: "unat (sh_success_heart_count h) < 2 ^ 32 - 1" using less.prems(2) by linarith
  note st = heart_cycle_step [OF assms less.prems(1) sc]
  show ?case
  proof (cases "is_stable (sh_info ?h) \<and> cur_heart (sh_info ?h) = MaxHeartInterval - SuccessStep")
    case True
    then show ?thesis using \<open>0 < search_measure h\<close> by (intro exI [of _ 1]) auto
  next
    case False
    then have m: "searching ?h" "search_measure ?h < search_measure h" using st(1) by blast+
    obtain n where n: "n \<le> search_measure ?h" "is_stable (sh_info ((heart_cycle env ^^ n) ?h))"
      "cur_heart (sh_info ((heart_cycle env ^^ n) ?h)) = MaxHeartInterval - SuccessStep"
      using less.hyps [OF m(2,1)] st(2) m(2) less.prems(2) by auto
    then show ?thesis using m(2) by (intro exI [of _ "Suc n"]) (simp add: funpow_swap1)
  qed
qed

text \<open>The search for the interval ends: on a network that answers every heartbeat, while the
  application is in the background and the network is not a mobile one, an unstable interval is
  stable at 9 minutes 40 seconds after at most 27 heartbeats.\<close>

theorem heart_search_converges:
  assumes "\<not> he_active env" "he_net env \<noteq> kMobile" "searching h" "sh_success_heart_count h \<le> 3"
  shows "\<exists>n \<le> 27. let i = sh_info ((heart_cycle env ^^ n) h) in is_stable i \<and> cur_heart i = 580000"
proof -
  have "639999 - unat (cur_heart (sh_info h)) \<le> 429999" using assms(3) unfolding searching_def by linarith
  then have "steps_left (unat (cur_heart (sh_info h))) \<le> 7"
    unfolding steps_left_def using div_le_mono [of _ 429999 60000] by fastforce
  then have m: "search_measure h \<le> 27" by (simp add: search_measure_def)
  moreover have "unat (sh_success_heart_count h) \<le> 3" using assms(4) by (simp add: word_le_nat_alt)
  ultimately obtain n where "n \<le> search_measure h" "is_stable (sh_info ((heart_cycle env ^^ n) h))"
    "cur_heart (sh_info ((heart_cycle env ^^ n) h)) = 580000"
    using search_ends [OF assms(1-3)] by (auto simp: MaxHeartInterval_def SuccessStep_def)
  then show ?thesis using m by (intro exI [of _ n]) (simp add: Let_def)
qed

theorem heart_search_converges_witness:
  "\<exists>n \<le> 27. let i = sh_info ((heart_cycle sample_heart_env ^^ n)
       (upd_info (\<lambda>i. i\<lparr>is_stable := False\<rparr>) sample_heart\<lparr>sh_success_heart_count := 0\<rparr>))
     in is_stable i \<and> cur_heart i = 580000"
  by (rule heart_search_converges)
    (simp_all add: sample_heart_env_def sample_heart_def upd_info_def searching_def)

end
