(* ===== verification/Alarm.thy ===== *)
theory Alarm
  imports Mars_Prelude
begin

text \<open>
  The one-shot timer of comm/alarm.cc. Starting it posts a delayed broadcast message that
  carries a fresh sequence number; the alarm goes off when a message with its own number comes
  in. The message queue and the alarm service of Android are behind the fields of
  \<open>alarm_env\<close>: whether the post succeeded, whether the library runs on Android, and what
  the two calls of the service answer. \<open>sg_seq\<close>, the counter that all alarms share, is
  passed through \<open>Start\<close>.
\<close>

section \<open>State and operations\<close>

datatype alarm_status = kInit | kStart | kCancel | kOnAlarm

record Alarm =
  al_seq :: int
  al_status :: alarm_status
  al_after :: int
  al_starttime :: u64
  al_endtime :: u64
  al_broadcast :: "int option"

record alarm_env =
  ae_now :: u64
  ae_post_ok :: bool
  ae_android :: bool
  ae_startAlarm :: bool
  ae_stopAlarm :: bool

definition INVAILD_SEQ :: int where "INVAILD_SEQ = 0"
definition MAX_LOCK_TIME :: int where "MAX_LOCK_TIME = 5000"

definition Alarm_new :: Alarm where
  "Alarm_new = \<lparr>al_seq = INVAILD_SEQ, al_status = kInit, al_after = 0, al_starttime = 0,
     al_endtime = 0, al_broadcast = None\<rparr>"

text \<open>\<open>al_broadcast\<close> is the post of the broadcast message, named by the sequence number the
  message carries. The result is the answer, the shared counter and the alarm.\<close>

definition Alarm_Start :: "alarm_env \<Rightarrow> int \<Rightarrow> int \<Rightarrow> Alarm \<Rightarrow> bool \<times> int \<times> Alarm" where
  "Alarm_Start env after sg_seq a =
     (if al_seq a \<noteq> INVAILD_SEQ then (False, sg_seq, a)
      else
        let seq = (if sg_seq = INVAILD_SEQ then 1 else sg_seq)
        in if \<not> ae_post_ok env then (False, seq + 1, a\<lparr>al_broadcast := None\<rparr>)
           else if ae_android env \<and> \<not> ae_startAlarm env
             then (False, seq + 1, a\<lparr>al_broadcast := None\<rparr>)
           else (True, seq + 1,
                 a\<lparr>al_status := kStart, al_starttime := ae_now env, al_endtime := 0,
                   al_after := after, al_seq := seq, al_broadcast := Some seq\<rparr>))"

definition Alarm_Cancel :: "alarm_env \<Rightarrow> Alarm \<Rightarrow> bool \<times> Alarm" where
  "Alarm_Cancel env a =
     (let a1 = a\<lparr>al_broadcast := None\<rparr>
      in if al_seq a1 = INVAILD_SEQ then (True, a1)
         else (\<not> (ae_android env \<and> \<not> ae_stopAlarm env),
               a1\<lparr>al_status := kCancel, al_endtime := ae_now env, al_seq := INVAILD_SEQ\<rparr>))"

definition Alarm_IsWaiting :: "Alarm \<Rightarrow> bool" where
  "Alarm_IsWaiting a \<longleftrightarrow> al_status a = kStart"

text \<open>A running alarm is measured with \<open>gettickspan\<close>, which answers 0 on a clock that has gone
  back.\<close>

definition Alarm_ElapseTime :: "alarm_env \<Rightarrow> Alarm \<Rightarrow> u64" where
  "Alarm_ElapseTime env a =
     (if al_endtime a < al_starttime a
      then if ae_now env < al_starttime a then 0 else ae_now env - al_starttime a
      else al_endtime a - al_starttime a)"

text \<open>The delivery of a message on the queue of the alarm. On Android a message that comes
  more than the lock time too early starts the system alarm again for the rest; the result says
  whether the target function runs.\<close>

definition Alarm_OnAlarm :: "alarm_env \<Rightarrow> int \<Rightarrow> Alarm \<Rightarrow> bool \<times> Alarm" where
  "Alarm_OnAlarm env body1 a =
     (if al_seq a \<noteq> body1 then (False, a)
      else
        let elapseTime = sint (ae_now env - al_starttime a);
            missTime = al_after a - elapseTime
        in if ae_android env \<and> 0 < missTime \<and> (missTime \<le> MAX_LOCK_TIME \<or> ae_startAlarm env)
           then (False, a)
           else (True, a\<lparr>al_status := kOnAlarm, al_seq := INVAILD_SEQ, al_endtime := ae_now env\<rparr>))"

section \<open>The state of an alarm\<close>

text \<open>An alarm waits exactly when it owns a sequence number, and only then does a message make
  it go off. A message with the number 0 finds an alarm that does not wait: no such message is
  ever sent.\<close>

definition alarm_ok :: "Alarm \<Rightarrow> bool" where
  "alarm_ok a \<longleftrightarrow> (al_status a = kStart \<longleftrightarrow> al_seq a \<noteq> INVAILD_SEQ)"

lemma alarm_ok_new: "alarm_ok Alarm_new"
  by (simp add: alarm_ok_def Alarm_new_def)

lemma alarm_ok_Start: "0 \<le> g \<Longrightarrow> alarm_ok a \<Longrightarrow> alarm_ok (snd (snd (Alarm_Start env n g a)))"
  by (simp add: alarm_ok_def Alarm_Start_def Let_def INVAILD_SEQ_def)

lemma alarm_ok_Cancel: "alarm_ok a \<Longrightarrow> alarm_ok (snd (Alarm_Cancel env a))"
  by (simp add: alarm_ok_def Alarm_Cancel_def Let_def)

lemma alarm_ok_OnAlarm: "alarm_ok a \<Longrightarrow> alarm_ok (snd (Alarm_OnAlarm env m a))"
  by (simp add: alarm_ok_def Alarm_OnAlarm_def Let_def)

lemma Cancel_not_waiting: "alarm_ok a \<Longrightarrow> \<not> Alarm_IsWaiting (snd (Alarm_Cancel env a))"
  by (simp add: alarm_ok_def Alarm_IsWaiting_def Alarm_Cancel_def Let_def)

lemma Cancel_free: "al_seq (snd (Alarm_Cancel env a)) = INVAILD_SEQ"
  by (simp add: Alarm_Cancel_def Let_def)

lemma Cancel_status: "al_status (snd (Alarm_Cancel env a)) \<in> {al_status a, kCancel}"
  by (simp add: Alarm_Cancel_def Let_def)

text \<open>Restarting, as the read/write loop of the long link does it: \<open>Cancel\<close> and then
  \<open>Start\<close>.\<close>

definition Alarm_Restart :: "alarm_env \<Rightarrow> int \<Rightarrow> int \<Rightarrow> Alarm \<Rightarrow> int \<times> Alarm" where
  "Alarm_Restart env after sg_seq a = snd (Alarm_Start env after sg_seq (snd (Alarm_Cancel env a)))"

lemma alarm_ok_Restart: "0 \<le> g \<Longrightarrow> alarm_ok a \<Longrightarrow> alarm_ok (snd (Alarm_Restart env n g a))"
  by (simp add: Alarm_Restart_def alarm_ok_Start alarm_ok_Cancel)

lemma Restart_waits:
  "ae_post_ok env \<Longrightarrow> \<not> ae_android env \<or> ae_startAlarm env \<Longrightarrow>
   Alarm_IsWaiting (snd (Alarm_Restart env n g a)) \<and> al_after (snd (Alarm_Restart env n g a)) = n"
  by (auto simp: Alarm_Restart_def Alarm_Start_def Alarm_Cancel_def Alarm_IsWaiting_def Let_def)

lemma Restart_seq_pos: "0 \<le> g \<Longrightarrow> 0 \<le> fst (Alarm_Restart env n g a)"
  by (simp add: Alarm_Restart_def Alarm_Start_def Alarm_Cancel_def Let_def INVAILD_SEQ_def)

end
