(* ===== verification/Socket_Breaker.thy ===== *)
theory Socket_Breaker
  imports Mars_Prelude
begin

text \<open>
  The self-pipe of comm/unix/socket/socketbreaker.cc that wakes a thread blocked in
  \<open>poll\<close>. \<open>sb_pipe\<close> is \<open>None\<close> while the two descriptors are -1 and otherwise the
  number of bytes that can be read; a poll on the read end returns at once exactly when that
  number is positive. What the system calls answer is an argument: \<open>ok\<close> says that
  \<open>pipe\<close> and \<open>fcntl\<close>, or \<open>write\<close>, succeeded.
\<close>

section \<open>State and operations\<close>

record SocketBreaker =
  sb_create_success :: bool
  sb_broken :: bool
  sb_pipe :: "nat option"

definition Breaker_ReCreate :: "bool \<Rightarrow> SocketBreaker \<Rightarrow> bool \<times> SocketBreaker" where
  "Breaker_ReCreate ok b =
     (ok, b\<lparr>sb_pipe := (if ok then Some 0 else None), sb_create_success := ok\<rparr>)"

definition SocketBreaker_new :: "bool \<Rightarrow> SocketBreaker" where
  "SocketBreaker_new ok =
     snd (Breaker_ReCreate ok \<lparr>sb_create_success = True, sb_broken = False, sb_pipe = None\<rparr>)"

definition Breaker_Break :: "bool \<Rightarrow> SocketBreaker \<Rightarrow> bool \<times> SocketBreaker" where
  "Breaker_Break ok b =
     (if sb_broken b then (True, b)
      else case sb_pipe b of
             None \<Rightarrow> (False, b\<lparr>sb_broken := False\<rparr>)
           | Some n \<Rightarrow> if ok then (True, b\<lparr>sb_broken := True, sb_pipe := Some (n + 1)\<rparr>)
                      else (False, b\<lparr>sb_broken := False\<rparr>))"

text \<open>The read end is non-blocking: \<open>read\<close> fails on an empty pipe.\<close>

definition Breaker_Clear :: "SocketBreaker \<Rightarrow> bool \<times> SocketBreaker" where
  "Breaker_Clear b =
     (case sb_pipe b of
        None \<Rightarrow> (False, b)
      | Some n \<Rightarrow> if n = 0 then (False, b)
                 else (True, b\<lparr>sb_pipe := Some (n - min n 128), sb_broken := False\<rparr>))"

definition Breaker_Close :: "SocketBreaker \<Rightarrow> SocketBreaker" where
  "Breaker_Close b = b\<lparr>sb_broken := True, sb_pipe := None\<rparr>"

definition breaker_ready :: "SocketBreaker \<Rightarrow> bool" where
  "breaker_ready b \<longleftrightarrow> (case sb_pipe b of None \<Rightarrow> False | Some n \<Rightarrow> 0 < n)"

section \<open>Use between two creations\<close>

datatype breaker_call = CallBreak bool | CallClear

fun breaker_step :: "breaker_call \<Rightarrow> SocketBreaker \<Rightarrow> SocketBreaker" where
  "breaker_step (CallBreak ok) b = snd (Breaker_Break ok b)"
| "breaker_step CallClear b = snd (Breaker_Clear b)"

definition breaker_run :: "breaker_call list \<Rightarrow> SocketBreaker \<Rightarrow> SocketBreaker" where
  "breaker_run cs b = fold breaker_step cs b"

text \<open>A breaker in order: the flag says whether the one byte is in the pipe. A breaker that
  was closed keeps the flag, whether it is created again or not.\<close>

definition breaker_ok :: "SocketBreaker \<Rightarrow> bool" where
  "breaker_ok b \<longleftrightarrow> sb_pipe b = Some (if sb_broken b then 1 else 0)"

definition breaker_stuck :: "SocketBreaker \<Rightarrow> bool" where
  "breaker_stuck b \<longleftrightarrow> sb_broken b \<and> sb_pipe b = Some 0"

lemma breaker_ok_new: "breaker_ok (SocketBreaker_new True)"
  by (simp add: breaker_ok_def SocketBreaker_new_def Breaker_ReCreate_def)

lemma breaker_ok_step: "breaker_ok b \<Longrightarrow> breaker_ok (breaker_step c b)"
  by (cases c) (auto simp: breaker_ok_def Breaker_Break_def Breaker_Clear_def split: if_splits)

lemma breaker_stuck_step: "breaker_stuck b \<Longrightarrow> breaker_stuck (breaker_step c b)"
  by (cases c) (auto simp: breaker_stuck_def Breaker_Break_def Breaker_Clear_def)

lemma breaker_run_keeps:
  assumes "P b" and "\<And>c b. P b \<Longrightarrow> P (breaker_step c b)"
  shows "P (breaker_run cs b)"
  unfolding breaker_run_def using assms(1)
  by (induction cs arbitrary: b) (simp_all add: assms(2))

text \<open>A wake-up is never lost on a breaker that was created once: whatever calls came
  before, a \<open>Break\<close> that answers true leaves the read end readable, a poll finds it readable
  exactly when the flag is set, and \<open>Clear\<close> empties the pipe however often \<open>Break\<close> was
  called.\<close>

theorem breaker_wakes:
  "let b = breaker_run cs (SocketBreaker_new True)
   in fst (Breaker_Break ok b) = breaker_ready (snd (Breaker_Break ok b)) \<and>
      breaker_ready b = sb_broken b \<and> \<not> breaker_ready (snd (Breaker_Clear b))"
proof -
  define b where "b = breaker_run cs (SocketBreaker_new True)"
  have "breaker_ok b"
    unfolding b_def by (rule breaker_run_keeps) (rule breaker_ok_new, erule breaker_ok_step)
  then have "fst (Breaker_Break ok b) = breaker_ready (snd (Breaker_Break ok b)) \<and>
      breaker_ready b = sb_broken b \<and> \<not> breaker_ready (snd (Breaker_Clear b))"
    by (auto simp: breaker_ok_def breaker_ready_def Breaker_Break_def Breaker_Clear_def)
  then show ?thesis by (simp add: b_def Let_def)
qed

text \<open>\<open>Close\<close> followed by \<open>ReCreate\<close>, which \<open>LongLink::Disconnect\<close> uses to repair
  a breaker, leaves it dead: the flag stays set over the empty pipe, so every later
  \<open>Break\<close> answers true without writing, \<open>Clear\<close> never resets the flag, and the thread in
  \<open>poll\<close> is never woken again.\<close>

theorem breaker_dead_after_recreate:
  "let b = breaker_run cs (snd (Breaker_ReCreate True (Breaker_Close b0)))
   in fst (Breaker_Break ok b) \<and> \<not> breaker_ready (snd (Breaker_Break ok b))"
proof -
  define b where "b = breaker_run cs (snd (Breaker_ReCreate True (Breaker_Close b0)))"
  have "breaker_stuck b" unfolding b_def
    by (rule breaker_run_keeps [where P = breaker_stuck])
      (simp_all add: breaker_stuck_step, simp add: breaker_stuck_def Breaker_ReCreate_def Breaker_Close_def)
  then show ?thesis
    unfolding b_def [symmetric] by (simp add: breaker_stuck_def breaker_ready_def Breaker_Break_def)
qed

end
