(* ===== verification/Long_Link.thy ===== *)
theory Long_Link
  imports Longlink_Task_Manager Smart_Heartbeat Alarm Socket_Breaker
begin

text \<open>
  The long link itself, stn/src/longlink.cc, with the identify checker of
  stn/src/longlink_identify_checker.cc. \<open>LongLink\<close> is the object that several threads share;
  \<open>rw_state\<close> extends it by the local variables of \<open>__RunReadWrite\<close>, so the calls that
  other threads make (\<open>Send\<close>, \<open>Stop\<close>, \<open>Disconnect\<close>) apply to a link whose loop runs.
  One pass of the loop is \<open>rw_prepare\<close> (down to \<open>select\<close>) followed by \<open>rw_io\<close> (what
  is done with the answers of the system, a \<open>sel_result\<close>); other threads run between the two.

  Every call takes a \<open>link_env\<close>: the clock, the alarms' environment, the heartbeat's
  environment, what \<open>realloc\<close> answers, the client version and the two callbacks of the
  application. The callbacks that the task manager and the network core install are the events of
  \<open>ll_events\<close>; what \<open>STATIC_RETURN_SYNC2ASYNC_FUNC\<close> moves to the message queue waits in
  \<open>ll_posts\<close>. \<open>None\<close> is an access outside a memory block.
\<close>

section \<open>Data\<close>

datatype IPSourceType =
    kIPSourceNULL | kIPSourceDebug | kIPSourceDNS | kIPSourceNewDns | kIPSourceProxy | kIPSourceBackup

record IPPortItem =
  str_ip :: string
  ipport :: u16
  source_type :: IPSourceType
  str_host :: string

datatype ProxyType = kProxyNone | kProxyHttpTunel | kProxySocks5 | kProxyHttp

record ProxyInfo =
  px_type :: ProxyType
  px_host :: string
  px_ip :: string
  px_port :: u16
  px_username :: string
  px_password :: string

definition ProxyInfo_new :: ProxyInfo where
  "ProxyInfo_new = \<lparr>px_type = kProxyNone, px_host = '''', px_ip = '''', px_port = 0,
     px_username = '''', px_password = ''''\<rparr>"

definition ProxyInfo_IsValid :: "ProxyInfo \<Rightarrow> bool" where
  "ProxyInfo_IsValid p \<longleftrightarrow>
     px_type p = kProxyNone \<or> (px_ip p \<noteq> '''' \<or> px_host p \<noteq> '''') \<and> 0 < px_port p"

record NoopProfile =
  np_success :: bool
  np_internal :: u64
  np_actual_internal :: u64
  np_cost :: u64
  np_starttime :: u64

text \<open>The fields of \<open>ConnectProfile\<close> that only the link itself fills in.\<close>

record link_profile = ConnectProfile +
  lp_net_type :: string
  lp_tid :: int
  lp_dns_endtime :: u64
  lp_ip_items :: "IPPortItem list"
  lp_conn_reason :: int
  lp_conn_time :: u64
  lp_conn_errcode :: int
  lp_conn_rtt :: u32
  lp_conn_cost :: u64
  lp_tryip_count :: int
  lp_ip_type :: IPSourceType
  lp_local_ip :: string
  lp_local_port :: u16
  lp_disconn_signal :: u32
  lp_nat64 :: bool
  lp_noop_profiles :: "NoopProfile list"
  lp_proxy_info :: ProxyInfo

text \<open>\<open>Reset\<close> clears every field but the proxy.\<close>

definition link_profile_Reset :: "link_profile \<Rightarrow> link_profile" where
  "link_profile_Reset p = ConnectProfile.extend ConnectProfile_Reset
     (link_profile.fields '''' 0 0 [] 0 0 0 0 0 0 kIPSourceNULL '''' 0 0 False [] (lp_proxy_info p))"

definition link_profile_new :: link_profile where
  "link_profile_new = ConnectProfile.extend ConnectProfile_Reset
     (link_profile.fields '''' 0 0 [] 0 0 0 0 0 0 kIPSourceNULL '''' 0 0 False [] ProxyInfo_new)"

record StreamResp =
  sr_task :: Task
  sr_stream :: AutoBuffer
  sr_extension :: AutoBuffer

definition KNullAtuoBuffer :: AutoBuffer where "KNullAtuoBuffer = AutoBuffer_new 128"

definition StreamResp_new :: StreamResp where
  "StreamResp_new = \<lparr>sr_task = Task_new kInvalidTaskID, sr_stream = KNullAtuoBuffer,
     sr_extension = KNullAtuoBuffer\<rparr>"

record LongLinkNWriteData =
  nw_writelen :: nat
  nw_task :: Task

datatype link_event =
    EvSend u32
  | EvRecv u32 nat nat
  | EvResponse ErrCmdType int u32 u32 bytes bytes link_profile
  | EvReport ErrCmdType int string u16
  | EvTraffic nat nat
  | EvSignal TLongLinkStatus
  | EvLinkStatus link_profile

datatype link_post = PostConnection TLongLinkStatus | PostProfile link_profile

record IdentifyChecker =
  ic_has_checked :: bool
  ic_cmd_id :: u32
  ic_taskid :: u32
  ic_hash_code_buffer :: AutoBuffer

record LongLink =
  ll_connectstatus :: TLongLinkStatus
  ll_conn_profile :: link_profile
  ll_disconnectinternalcode :: TDisconnectInternalCode
  ll_identifychecker :: IdentifyChecker
  ll_lstsenddata :: "(Task \<times> AutoBuffer) list"
  ll_lastrecvtime :: u64
  ll_smartheartbeat :: "SmartHeartbeat option"
  ll_readwritebreak :: SocketBreaker
  ll_connectbreak :: SocketBreaker
  ll_thread :: bool
  ll_tracker :: bool
  ll_sg_seq :: int
  ll_posts :: "link_post list"
  ll_events :: "link_event list"

record rw_state = LongLink +
  rw_interval :: Alarm
  rw_timeout :: Alarm
  rw_sent_taskids :: "(u32 \<times> StreamResp) list"
  rw_nsent_datas :: "LongLinkNWriteData list"
  rw_bufrecv :: AutoBuffer
  rw_first_noop_sent :: bool
  rw_nooping :: bool
  rw_profile :: link_profile

text \<open>\<open>le_identify\<close> is the answer of \<open>GetLonglinkIdentifyCheckBuffer\<close>: the mode, the two
  buffers it fills and the command; \<open>le_break_ok\<close> says that writing into a breaker's pipe
  succeeds. \<open>le_noop_interval\<close> is \<open>longlink_noop_interval()\<close>, a hook whose default
  answers 0.\<close>

record link_env =
  le_alarm :: alarm_env
  le_heart :: heart_env
  le_ok :: "nat \<Rightarrow> bool"
  le_version :: u32
  le_noop_interval :: u32
  le_break_ok :: bool
  le_identify :: "int \<times> AutoBuffer \<times> AutoBuffer \<times> u32"
  le_identify_resp :: "bytes \<Rightarrow> bytes \<Rightarrow> bool"

definition le_now :: "link_env \<Rightarrow> u64" where "le_now env = ae_now (le_alarm env)"

definition kLongLinkIdentifyCheckerTaskID :: u32 where "kLongLinkIdentifyCheckerTaskID = 0xFFFFFFFE"
definition kEctDnsMakeSocketPrepared :: int where "kEctDnsMakeSocketPrepared = -10606"

definition emit :: "link_event \<Rightarrow> 'a LongLink_scheme \<Rightarrow> 'a LongLink_scheme" where
  "emit e s = s\<lparr>ll_events := ll_events s @ [e]\<rparr>"

definition post_link :: "link_post \<Rightarrow> 'a LongLink_scheme \<Rightarrow> 'a LongLink_scheme" where
  "post_link p s = s\<lparr>ll_posts := ll_posts s @ [p]\<rparr>"

section \<open>The identify checker\<close>

definition kCheckNow :: int where "kCheckNow = 0"
definition kCheckNext :: int where "kCheckNext = 1"
definition kCheckNever :: int where "kCheckNever = 2"

definition IdentifyChecker_new :: IdentifyChecker where
  "IdentifyChecker_new = \<lparr>ic_has_checked = False, ic_cmd_id = 0, ic_taskid = 0,
     ic_hash_code_buffer = AutoBuffer_new 128\<rparr>"

text \<open>The result is the buffer and the command to send when the check is due now.\<close>

definition GetIdentifyBuffer ::
    "link_env \<Rightarrow> IdentifyChecker \<Rightarrow> (AutoBuffer \<times> u32) option \<times> IdentifyChecker" where
  "GetIdentifyBuffer env c =
     (if ic_has_checked c then (None, c)
      else case le_identify env of
        (mode, buffer, hash, cmd) \<Rightarrow>
          let c1 = c\<lparr>ic_hash_code_buffer := hash\<rparr>
          in if mode = kCheckNever then (None, c1\<lparr>ic_has_checked := True\<rparr>)
             else if mode = kCheckNext then (None, c1\<lparr>ic_has_checked := False\<rparr>)
             else if mode = kCheckNow then (Some (buffer, cmd), c1\<lparr>ic_cmd_id := cmd\<rparr>)
             else (None, c1))"

definition IC_SetID :: "u32 \<Rightarrow> IdentifyChecker \<Rightarrow> IdentifyChecker" where
  "IC_SetID tid c = c\<lparr>ic_taskid := tid\<rparr>"

definition IsIdentifyResp :: "IdentifyChecker \<Rightarrow> u32 \<Rightarrow> u32 \<Rightarrow> bool" where
  "IsIdentifyResp c cmd tid = longlink_identify_isresp (ic_taskid c) cmd tid"

definition OnIdentifyResp :: "link_env \<Rightarrow> AutoBuffer \<Rightarrow> IdentifyChecker \<Rightarrow> bool \<times> IdentifyChecker" where
  "OnIdentifyResp env buffer c =
     (let ret = le_identify_resp env (contents buffer) (contents (ic_hash_code_buffer c));
          c1 = c\<lparr>ic_taskid := 0\<rparr>
      in if ret then (True, c1\<lparr>ic_has_checked := True\<rparr>) else (False, c1))"

definition IC_Reset :: "IdentifyChecker \<Rightarrow> IdentifyChecker" where
  "IC_Reset c = c\<lparr>ic_has_checked := False, ic_taskid := 0, ic_cmd_id := 0,
     ic_hash_code_buffer := Reset (ic_hash_code_buffer c)\<rparr>"

section \<open>Construction\<close>

text \<open>The smart heartbeat exists on Android only; the two breakers say whether their pipes could be
  created. The counter of the alarms belongs to the process.\<close>

definition LongLink_new :: "SmartHeartbeat option \<Rightarrow> bool \<Rightarrow> bool \<Rightarrow> int \<Rightarrow> LongLink" where
  "LongLink_new heart pipe_ok1 pipe_ok2 sg_seq =
     \<lparr>ll_connectstatus = kConnectIdle, ll_conn_profile = link_profile_new, ll_disconnectinternalcode = kNone,
      ll_identifychecker = IdentifyChecker_new, ll_lstsenddata = [], ll_lastrecvtime = 0,
      ll_smartheartbeat = heart, ll_readwritebreak = SocketBreaker_new pipe_ok1,
      ll_connectbreak = SocketBreaker_new pipe_ok2, ll_thread = False, ll_tracker = False,
      ll_sg_seq = sg_seq, ll_posts = [], ll_events = []\<rparr>"

section \<open>The heartbeat notifications\<close>

definition on_heart ::
    "link_env \<Rightarrow> (SmartHeartbeat \<Rightarrow> SmartHeartbeat) \<Rightarrow> 'a LongLink_scheme \<Rightarrow> 'a LongLink_scheme" where
  "on_heart env f s =
     (if 0 < le_noop_interval env then s
      else s\<lparr>ll_smartheartbeat := map_option f (ll_smartheartbeat s)\<rparr>)"

definition NotifyHeartReq :: "link_env \<Rightarrow> u64 \<Rightarrow> u64 \<Rightarrow> rw_state \<Rightarrow> rw_state" where
  "NotifyHeartReq env internal actual_internal s =
     (if 0 < le_noop_interval env \<or> ll_smartheartbeat s = None then s
      else on_heart env (OnHeartbeatStart (le_heart env))
        (s\<lparr>rw_profile := (rw_profile s)\<lparr>lp_noop_profiles := lp_noop_profiles (rw_profile s) @
             [\<lparr>np_success = False, np_internal = internal, np_actual_internal = actual_internal,
               np_cost = 0, np_starttime = le_now env\<rparr>]\<rparr>\<rparr>))"

definition NotifyHeartResult :: "link_env \<Rightarrow> bool \<Rightarrow> bool \<Rightarrow> rw_state \<Rightarrow> rw_state" where
  "NotifyHeartResult env succes fail_of_timeout s =
     (if 0 < le_noop_interval env \<or> ll_smartheartbeat s = None then s
      else let ps = lp_noop_profiles (rw_profile s);
               ps' = (if ps = [] then []
                      else butlast ps @ [(last ps)\<lparr>np_cost := le_now env - np_starttime (last ps),
                                                   np_success := succes\<rparr>])
           in on_heart env (OnHeartResult (le_heart env) succes fail_of_timeout)
                (s\<lparr>rw_profile := (rw_profile s)\<lparr>lp_noop_profiles := ps'\<rparr>\<rparr>))"

definition NotifyJudgeDozeStyle :: "link_env \<Rightarrow> 'a LongLink_scheme \<Rightarrow> 'a LongLink_scheme" where
  "NotifyJudgeDozeStyle env s = on_heart env (JudgeDozeStyle (le_heart env)) s"

definition NotifyConnectStatus ::
    "link_env \<Rightarrow> TLongLinkStatus \<Rightarrow> 'a LongLink_scheme \<Rightarrow> 'a LongLink_scheme" where
  "NotifyConnectStatus env status s =
     (case status of
        kConnected \<Rightarrow> on_heart env (OnLongLinkEstablished (le_heart env)) s
      | kConnectFailed \<Rightarrow> on_heart env (OnLongLinkDisconnect (le_heart env)) s
      | kDisConnected \<Rightarrow> on_heart env (OnLongLinkDisconnect (le_heart env)) s
      | _ \<Rightarrow> s)"

definition LL_GetNextHeartbeatInterval ::
    "link_env \<Rightarrow> 'a LongLink_scheme \<Rightarrow> u32 \<times> 'a LongLink_scheme" where
  "LL_GetNextHeartbeatInterval env s =
     (if 0 < le_noop_interval env then (le_noop_interval env, s)
      else case ll_smartheartbeat s of
             None \<Rightarrow> (MinHeartInterval, s)
           | Some h \<Rightarrow> (case GetNextHeartbeatInterval (le_heart env) h of
                         (n, h') \<Rightarrow> (n, s\<lparr>ll_smartheartbeat := Some h'\<rparr>)))"

section \<open>The calls of the other threads\<close>

definition LongLink_Send ::
    "link_env \<Rightarrow> AutoBuffer \<Rightarrow> Task \<Rightarrow> 'a LongLink_scheme \<Rightarrow> (bool \<times> 'a LongLink_scheme) option" where
  "LongLink_Send env body task s =
     (if ll_connectstatus s \<noteq> kConnected then Some (False, s)
      else do {
        b \<leftarrow> longlink_pack (le_ok env) (le_version env) (cmdid task) (taskid task) body (AutoBuffer_new 128);
        Some (True, s\<lparr>ll_lstsenddata := ll_lstsenddata s @ [(task, Seek 0 ESeekStart b)],
                      ll_readwritebreak := snd (Breaker_Break (le_break_ok env) (ll_readwritebreak s))\<rparr>)
      })"

definition SendWhenNoData ::
    "link_env \<Rightarrow> AutoBuffer \<Rightarrow> u32 \<Rightarrow> u32 \<Rightarrow> 'a LongLink_scheme \<Rightarrow> (bool \<times> 'a LongLink_scheme) option" where
  "SendWhenNoData env body cmd tid s =
     (if ll_connectstatus s \<noteq> kConnected then Some (False, s)
      else if ll_lstsenddata s \<noteq> [] then Some (False, s)
      else do {
        b \<leftarrow> longlink_pack (le_ok env) (le_version env) cmd tid body (AutoBuffer_new 128);
        Some (True, s\<lparr>ll_lstsenddata := ll_lstsenddata s @
                        [((Task_new tid)\<lparr>send_only := True, cmdid := cmd, taskid := tid\<rparr>, Seek 0 ESeekStart b)],
                      ll_readwritebreak := snd (Breaker_Break (le_break_ok env) (ll_readwritebreak s))\<rparr>)
      })"

definition SendNoopWhenNoData :: "link_env \<Rightarrow> 'a LongLink_scheme \<Rightarrow> (bool \<times> 'a LongLink_scheme) option" where
  "SendNoopWhenNoData env s = SendWhenNoData env (AutoBuffer_new 128) NOOP_CMDID kNoopTaskID s"

fun stop_unsent :: "u32 \<Rightarrow> (Task \<times> AutoBuffer) list \<Rightarrow> bool \<times> (Task \<times> AutoBuffer) list" where
  "stop_unsent tid [] = (False, [])"
| "stop_unsent tid ((t, b) # xs) =
     (if tid = taskid t \<and> ab_pos b = 0 then (True, xs)
      else case stop_unsent tid xs of (r, ys) \<Rightarrow> (r, (t, b) # ys))"

definition LongLink_Stop :: "u32 \<Rightarrow> 'a LongLink_scheme \<Rightarrow> bool \<times> 'a LongLink_scheme" where
  "LongLink_Stop tid s =
     (case stop_unsent tid (ll_lstsenddata s) of (r, xs) \<Rightarrow> (r, s\<lparr>ll_lstsenddata := xs\<rparr>))"

text \<open>The thread starts with the mutex held, so \<open>__Run\<close> begins after the reset. The results are
  the answer and \<open>*_newone\<close>.\<close>

definition MakeSureConnected :: "'a LongLink_scheme \<Rightarrow> bool \<times> bool \<times> 'a LongLink_scheme" where
  "MakeSureConnected s =
     (if ll_connectstatus s = kConnected then (True, False, s)
      else if ll_thread s then (False, False, s)
      else (False, True,
            s\<lparr>ll_thread := True, ll_connectstatus := kConnectIdle,
              ll_conn_profile := link_profile_Reset (ll_conn_profile s),
              ll_identifychecker := IC_Reset (ll_identifychecker s),
              ll_disconnectinternalcode := kNone,
              ll_readwritebreak := snd (Breaker_Clear (ll_readwritebreak s)),
              ll_connectbreak := snd (Breaker_Clear (ll_connectbreak s)),
              ll_lstsenddata := []\<rparr>))"

text \<open>\<open>Disconnect\<close> up to the wait for the thread; the result says whether the breakers have to
  be created again. \<open>Disconnect_joined\<close> is what follows the wait.\<close>

definition LongLink_Disconnect ::
    "link_env \<Rightarrow> TDisconnectInternalCode \<Rightarrow> 'a LongLink_scheme \<Rightarrow> bool \<times> 'a LongLink_scheme" where
  "LongLink_Disconnect env scene s =
     (if \<not> ll_thread s then (False, s)
      else
        let (ok1, rb) = Breaker_Break (le_break_ok env) (ll_readwritebreak s);
            (ok2, cb) = (if ok1 then Breaker_Break (le_break_ok env) (ll_connectbreak s)
                         else (False, ll_connectbreak s));
            recreate = (\<not> ok1 \<or> \<not> ok2)
        in (recreate,
            s\<lparr>ll_disconnectinternalcode := scene,
              ll_readwritebreak := (if recreate then Breaker_Close rb else rb),
              ll_connectbreak := (if recreate then Breaker_Close cb else cb)\<rparr>))"

definition Disconnect_joined :: "bool \<Rightarrow> bool \<Rightarrow> 'a LongLink_scheme \<Rightarrow> 'a LongLink_scheme" where
  "Disconnect_joined recreate pipe_ok s =
     (if recreate
      then s\<lparr>ll_connectbreak := snd (Breaker_ReCreate pipe_ok (ll_connectbreak s)),
             ll_readwritebreak := snd (Breaker_ReCreate pipe_ok (ll_readwritebreak s))\<rparr>
      else s)"

definition LL_OnAlarm :: "link_env \<Rightarrow> 'a LongLink_scheme \<Rightarrow> 'a LongLink_scheme" where
  "LL_OnAlarm env s =
     s\<lparr>ll_readwritebreak := snd (Breaker_Break (le_break_ok env) (ll_readwritebreak s))\<rparr>"

section \<open>Status and profile\<close>

definition RunResponseError ::
    "ErrCmdType \<Rightarrow> int \<Rightarrow> link_profile \<Rightarrow> bool \<Rightarrow> 'a LongLink_scheme \<Rightarrow> 'a LongLink_scheme" where
  "RunResponseError et ec p networkreport s =
     (let s1 = emit (EvResponse et ec 0 kInvalidTaskID [] [] p) s
      in if networkreport then emit (EvReport et ec (cp_ip p) (cp_port p)) s1 else s1)"

definition LL_ConnectStatus ::
    "link_env \<Rightarrow> TLongLinkStatus \<Rightarrow> 'a LongLink_scheme \<Rightarrow> 'a LongLink_scheme" where
  "LL_ConnectStatus env status s =
     (if status = ll_connectstatus s then s
      else
        let s1 = NotifyConnectStatus env status (s\<lparr>ll_connectstatus := status\<rparr>);
            s2 = (if status = kConnected
                  then emit (EvReport kEctOK 0 (cp_ip (ll_conn_profile s1)) (cp_port (ll_conn_profile s1))) s1
                  else s1)
        in post_link (PostConnection status) s2)"

definition UpdateProfile :: "link_profile \<Rightarrow> 'a LongLink_scheme \<Rightarrow> 'a LongLink_scheme" where
  "UpdateProfile p s = post_link (PostProfile p) s"

text \<open>The message queue takes the next of the posted calls.\<close>

definition RunPosted_link :: "'a LongLink_scheme \<Rightarrow> 'a LongLink_scheme" where
  "RunPosted_link s =
     (case ll_posts s of
        [] \<Rightarrow> s
      | PostConnection st # ps \<Rightarrow> emit (EvSignal st) (s\<lparr>ll_posts := ps\<rparr>)
      | PostProfile p # ps \<Rightarrow>
          let s1 = s\<lparr>ll_posts := ps, ll_conn_profile := p\<rparr>
          in if cp_disconn_time p \<noteq> 0 then emit (EvLinkStatus p) s1 else s1)"

section \<open>Connecting\<close>

text \<open>What the connection attempt sees: the addresses that \<open>NetSource\<close> answers, the proxy,
  whether a debug address is set, the IPv6-only test, and what the DNS answers for the host of
  the proxy.\<close>

record connect_env =
  ce_ip_items :: "IPPortItem list"
  ce_proxy :: ProxyInfo
  ce_debug_ip :: string
  ce_nat64 :: bool
  ce_proxy_dns :: "string list option"
  ce_net_label :: string
  ce_tid :: int

text \<open>A socket address: address text, port, and whether it is mapped by \<open>v4tov6_address\<close>.\<close>

type_synonym socket_address = "string \<times> u16 \<times> bool"

text \<open>The calls \<open>ComplexConnect\<close> makes on its observer, and its results.\<close>

datatype observer_call =
    OnConnect nat
  | OnConnected nat int string u16
  | OnVerifyRecv nat AutoBuffer string u16

record connect_result =
  cr_calls :: "observer_call list"
  cr_index :: "nat option"
  cr_error :: int
  cr_rtt :: u32
  cr_cost :: u64
  cr_trycount :: int
  cr_local_ip :: string
  cr_local_port :: u16

text \<open>The error numbers are those of Linux. \<open>connecting_index_\<close> is an array of 32 characters; \<open>longlink_complexconnect_need_verify\<close>
  answers false unless the application replaces it.\<close>

definition EBADMSG :: int where "EBADMSG = 74"
definition ETIMEDOUT :: int where "ETIMEDOUT = 110"

definition observe ::
    "link_env \<Rightarrow> bool \<Rightarrow> observer_call \<Rightarrow> bool list \<times> link_event list
     \<Rightarrow> (bool list \<times> link_event list) option" where
  "observe env need_verify c st =
     (case st of (connecting, evs) \<Rightarrow>
        (case c of
           OnConnect i \<Rightarrow> if i < length connecting then Some (connecting[i := True], evs) else None
         | OnConnected i err ip port \<Rightarrow>
             if \<not> i < length connecting then None
             else if err = 0 then Some (if need_verify then connecting else connecting[i := False], evs)
             else Some (connecting[i := False], evs @ [EvReport kEctSocket err ip port])
         | OnVerifyRecv i buf ip port \<Rightarrow>
             if \<not> i < length connecting then None
             else do {
               (ret, out, body) \<leftarrow> longlink_unpack (le_ok env) (le_version env) buf
                   \<lparr>uo_cmdid = 0, uo_seq = kInvalidTaskID, uo_package_len = 0, uo_body_len = 0\<rparr>
                   (AutoBuffer_new 128);
               Some (connecting[i := False],
                     if ret \<noteq> LONGLINK_UNPACK_OK then evs @ [EvReport kEctSocket EBADMSG ip port] else evs)
             }))"

fun observe_all ::
    "link_env \<Rightarrow> bool \<Rightarrow> observer_call list \<Rightarrow> bool list \<times> link_event list
     \<Rightarrow> (bool list \<times> link_event list) option" where
  "observe_all env nv [] st = Some st"
| "observe_all env nv (c # cs) st = do { st' \<leftarrow> observe env nv c st; observe_all env nv cs st' }"

definition OnVerifySend :: "link_env \<Rightarrow> AutoBuffer option" where
  "OnVerifySend env = longlink_pack (le_ok env) (le_version env) NOOP_CMDID kNoopTaskID
     (AutoBuffer_new 128) (AutoBuffer_new 128)"

text \<open>\<open>__Run\<close> up to the call of \<open>__RunConnect\<close>.\<close>

definition Run_begin ::
    "link_env \<Rightarrow> connect_env \<Rightarrow> 'a LongLink_scheme \<Rightarrow> link_profile \<times> 'a LongLink_scheme" where
  "Run_begin env ce s =
     (let p = link_profile_new\<lparr>cp_start_time := le_now env,
                lp_conn_reason := cp_disconn_errcode (ll_conn_profile s),
                lp_net_type := ce_net_label ce, lp_tid := ce_tid ce\<rparr>
      in (p, UpdateProfile p (s\<lparr>ll_tracker := True\<rparr>)))"

text \<open>\<open>__RunConnect\<close> up to the call of \<open>ConnectImpatient\<close>: \<open>None\<close> in the first component
  stands for \<open>INVALID_SOCKET\<close>, otherwise it holds the addresses and the address of the proxy.\<close>

definition RunConnect_prepare ::
    "link_env \<Rightarrow> connect_env \<Rightarrow> link_profile \<Rightarrow> 'a LongLink_scheme
     \<Rightarrow> (socket_address list \<times> socket_address option) option \<times> link_profile \<times> 'a LongLink_scheme" where
  "RunConnect_prepare env ce p s =
     (let s1 = LL_ConnectStatus env kConnecting s;
          p1 = p\<lparr>cp_dns_time := le_now env\<rparr>;
          s2 = UpdateProfile p1 s1;
          items = ce_ip_items ce;
          px = ce_proxy ce;
          use_proxy = (ProxyInfo_IsValid px \<and> px_type px \<noteq> kProxyNone \<and> px_type px \<noteq> kProxyHttp \<and>
                       ce_debug_ip ce = '''');
          addrs = map (\<lambda>i. (str_ip i, ipport i, \<not> use_proxy \<and> ce_nat64 ce)) items
      in if items = []
         then (None, p1, RunResponseError kEctDns kEctDnsMakeSocketPrepared p1 True
                           (LL_ConnectStatus env kConnectFailed s2))
         else
           let p2 = p1\<lparr>lp_proxy_info := px, lp_ip_items := items, cp_host := str_host (hd items),
                      lp_ip_type := source_type (hd items), cp_ip := str_ip (hd items),
                      cp_port := ipport (hd items), lp_nat64 := ce_nat64 ce,
                      lp_dns_endtime := le_now env\<rparr>;
               s3 = UpdateProfile p2 s2
           in if \<not> use_proxy then (Some (addrs, None), p2, s3)
              else if px_ip px = '''' \<and> px_host px \<noteq> ''''
                then case ce_proxy_dns ce of
                       Some (ip # ips) \<Rightarrow>
                         (Some (addrs, Some (ip, px_port px, ce_nat64 ce)),
                          p2\<lparr>lp_ip_type := kIPSourceProxy\<rparr>, s3)
                     | _ \<Rightarrow> (None, p2, RunResponseError kEctDns kEctDnsMakeSocketPrepared p2 True
                                         (LL_ConnectStatus env kConnectFailed s3))
              else (Some (addrs, Some (px_ip px, px_port px, ce_nat64 ce)),
                    p2\<lparr>lp_ip_type := kIPSourceProxy\<rparr>, s3))"

text \<open>The rest of \<open>__RunConnect\<close> after \<open>ConnectImpatient\<close>: whether there is a connection. An
  index outside the addresses is undefined.\<close>

definition timed_out_reports :: "nat \<Rightarrow> bool list \<Rightarrow> IPPortItem list \<Rightarrow> link_event list" where
  "timed_out_reports n connecting items =
     map (\<lambda>i. EvReport kEctSocket ETIMEDOUT (str_ip (items ! i)) (ipport (items ! i)))
       (filter (\<lambda>i. connecting ! i) [0..<n])"

definition RunConnect_finish ::
    "link_env \<Rightarrow> bool \<Rightarrow> connect_env \<Rightarrow> connect_result \<Rightarrow> link_profile \<Rightarrow> 'a LongLink_scheme
     \<Rightarrow> (bool \<times> link_profile \<times> 'a LongLink_scheme) option" where
  "RunConnect_finish env need_verify ce cr p s =
     do {
       (connecting, evs) \<leftarrow> observe_all env need_verify (cr_calls cr) (replicate 32 False, []);
       let s1 = s\<lparr>ll_events := ll_events s @ evs\<rparr>;
       let p1 = p\<lparr>lp_conn_time := le_now env, lp_conn_errcode := cr_error cr, lp_conn_rtt := cr_rtt cr,
                  lp_conn_cost := cr_cost cr, lp_tryip_count := cr_trycount cr\<rparr>;
       let s2 = UpdateProfile p1 s1;
       case cr_index cr of
         None \<Rightarrow>
           let s3 = LL_ConnectStatus env kConnectFailed s2
           in Some (False, p1,
                if ll_disconnectinternalcode s3 = kNone
                then RunResponseError kEctSocket kEctSocketMakeSocketPrepared p1 False s3 else s3)
       | Some i \<Rightarrow>
           if \<not> (i < length (ce_ip_items ce) \<and> i \<le> length connecting) then None
           else
             let item = ce_ip_items ce ! i;
                 s3 = s2\<lparr>ll_events := ll_events s2 @ timed_out_reports i connecting (ce_ip_items ce)\<rparr>;
                 p2 = p1\<lparr>cp_ip_index := int i, cp_host := str_host item, lp_ip_type := source_type item,
                         cp_ip := str_ip item, cp_port := ipport item, lp_local_ip := cr_local_ip cr,
                         lp_local_port := cr_local_port cr\<rparr>
             in Some (True, p2, UpdateProfile p2 (LL_ConnectStatus env kConnected s3)) }"

text \<open>The two ends of \<open>__Run\<close>: no connection, and the end of the read/write loop. The caller
  passes what \<open>getSignal\<close> answers.\<close>

definition Run_unconnected ::
    "link_env \<Rightarrow> u32 \<Rightarrow> link_profile \<Rightarrow> 'a LongLink_scheme \<Rightarrow> 'a LongLink_scheme" where
  "Run_unconnected env signal p s =
     (UpdateProfile (p\<lparr>cp_disconn_time := le_now env, lp_disconn_signal := signal\<rparr>) s)
       \<lparr>ll_tracker := False, ll_thread := False\<rparr>"

definition Run_end ::
    "link_env \<Rightarrow> u32 \<Rightarrow> ErrCmdType \<Rightarrow> int \<Rightarrow> link_profile \<Rightarrow> 'a LongLink_scheme \<Rightarrow> 'a LongLink_scheme" where
  "Run_end env signal et ec p s =
     (let p1 = p\<lparr>cp_disconn_time := le_now env, cp_disconn_errtype := et, cp_disconn_errcode := ec,
                 lp_disconn_signal := signal\<rparr>;
          s1 = UpdateProfile p1 (LL_ConnectStatus env kDisConnected s);
          s2 = (if et \<noteq> kEctOK then RunResponseError et ec p1 True s1 else s1)
      in s2\<lparr>ll_tracker := False, ll_thread := False\<rparr>)"

section \<open>The read/write loop\<close>

datatype rw_verdict = RwGo | RwEnd ErrCmdType int

definition enter_ReadWrite :: "link_profile \<Rightarrow> LongLink \<Rightarrow> rw_state" where
  "enter_ReadWrite p s = LongLink.extend s
     (rw_state.fields Alarm_new Alarm_new [] [] (AutoBuffer_new 128) False False p)"

definition restart_interval :: "link_env \<Rightarrow> rw_state \<Rightarrow> rw_state" where
  "restart_interval env s =
     (case LL_GetNextHeartbeatInterval env s of (n, s1) \<Rightarrow>
        case Alarm_Restart (le_alarm env) (s32 (uint n)) (ll_sg_seq s1) (rw_interval s1) of
          (g, a) \<Rightarrow> s1\<lparr>rw_interval := a, ll_sg_seq := g\<rparr>)"

definition NoopReq_send :: "link_env \<Rightarrow> rw_state \<Rightarrow> (bool \<times> rw_state) option" where
  "NoopReq_send env s =
     (case GetIdentifyBuffer env (ll_identifychecker s) of
        (Some (buffer, req_cmdid), c) \<Rightarrow>
          do { (suc, s1) \<leftarrow> LongLink_Send env buffer
                   ((Task_new kLongLinkIdentifyCheckerTaskID)\<lparr>cmdid := req_cmdid\<rparr>)
                   (s\<lparr>ll_identifychecker := c\<rparr>);
               Some (suc, s1\<lparr>ll_identifychecker :=
                            IC_SetID kLongLinkIdentifyCheckerTaskID (ll_identifychecker s1)\<rparr>) }
      | (None, c) \<Rightarrow> SendNoopWhenNoData env (s\<lparr>ll_identifychecker := c\<rparr>))"

definition NoopReq :: "link_env \<Rightarrow> bool \<Rightarrow> rw_state \<Rightarrow> (bool \<times> rw_state) option" where
  "NoopReq env need_active_timeout s =
     do {
       (suc, s1) \<leftarrow> NoopReq_send env s;
       Some (suc,
         if suc then
           (case Alarm_Restart (le_alarm env) (if need_active_timeout then 5 * 1000 else 8 * 1000)
                   (ll_sg_seq s1) (rw_timeout s1) of
              (g, a) \<Rightarrow> s1\<lparr>rw_timeout := a, ll_sg_seq := g\<rparr>)
         else s1) }"

text \<open>The pass down to \<open>select\<close>.\<close>

definition rw_noop :: "link_env \<Rightarrow> rw_state \<Rightarrow> rw_state option" where
  "rw_noop env s =
     (if Alarm_IsWaiting (rw_interval s) then Some s
      else
        let fired = (al_status (rw_interval s) = kOnAlarm);
            s1 = (if rw_first_noop_sent s \<and> fired then NotifyJudgeDozeStyle env s else s);
            last_noop_interval = word_of_int (al_after (rw_interval s1));
            last_noop_actual_interval =
              (if fired then Alarm_ElapseTime (le_alarm env) (rw_interval s1) else 0);
            has_late_toomuch = (15 * 60 * 1000 \<le> last_noop_actual_interval)
        in do {
             (suc, s2) \<leftarrow> NoopReq env has_late_toomuch s1;
             let s3 = (if suc then NotifyHeartReq env last_noop_interval last_noop_actual_interval
                                     (s2\<lparr>rw_nooping := True\<rparr>) else s2);
             Some (restart_interval env (s3\<lparr>rw_first_noop_sent := True\<rparr>)) })"

definition rw_prepare :: "link_env \<Rightarrow> rw_state \<Rightarrow> (rw_verdict \<times> rw_state) option" where
  "rw_prepare env s =
     do { s1 \<leftarrow> rw_noop env s;
          Some (if rw_nooping s1 \<and> (al_status (rw_timeout s1) = kInit \<or> al_status (rw_timeout s1) = kCancel)
                then RwEnd kEctSocket kEctSocketRecvErr else RwGo, s1) }"

text \<open>The answers of the system in one pass: \<open>select\<close>, \<open>writev\<close> and \<open>recv\<close>. The error
  cases of the two transfers say whether the call would only have blocked.\<close>

datatype recv_result = RecvData bytes | RecvErr bool int

record sel_result =
  se_ret :: int
  se_errno :: int
  se_socket_errno :: int
  se_breaker_err :: bool
  se_sock_err :: "int option"
  se_nwrite :: int
  se_writable :: bool
  se_writev :: int
  se_send_again :: bool
  se_send_error :: int
  se_readable :: bool
  se_recv :: recv_result

definition stream_of :: "u32 \<Rightarrow> rw_state \<Rightarrow> StreamResp" where
  "stream_of tid s = (case mget (rw_sent_taskids s) tid of None \<Rightarrow> StreamResp_new | Some r \<Rightarrow> r)"

definition put_stream :: "u32 \<Rightarrow> StreamResp \<Rightarrow> rw_state \<Rightarrow> rw_state" where
  "put_stream tid r s = s\<lparr>rw_sent_taskids := mput tid r (rw_sent_taskids s)\<rparr>"

definition note_sent :: "Task \<Rightarrow> AutoBuffer \<Rightarrow> rw_state \<Rightarrow> rw_state" where
  "note_sent t b s =
     (let s1 = (if send_only t then s else put_stream (taskid t) ((stream_of (taskid t) s)\<lparr>sr_task := t\<rparr>) s)
      in s1\<lparr>rw_nsent_datas := rw_nsent_datas s1 @ [\<lparr>nw_writelen = ab_length b, nw_task = t\<rparr>]\<rparr>)"

text \<open>The \<open>while\<close> over the list with the number of bytes that were written.\<close>

fun drain_sent :: "nat \<Rightarrow> (Task \<times> AutoBuffer) list \<Rightarrow> rw_state \<Rightarrow> (Task \<times> AutoBuffer) list \<times> rw_state" where
  "drain_sent writelen [] s = ([], s)"
| "drain_sent writelen ((t, b) # xs) s =
     (if writelen = 0 then ((t, b) # xs, s)
      else
        let s1 = (if ab_pos b = 0 then emit (EvSend (taskid t)) s else s)
        in if PosLength b \<le> writelen then drain_sent (writelen - PosLength b) xs (note_sent t b s1)
           else ((t, Seek (int writelen) ESeekCur b) # xs, s1))"

definition rw_send :: "link_env \<Rightarrow> sel_result \<Rightarrow> rw_state \<Rightarrow> rw_verdict \<times> rw_state" where
  "rw_send env sel s =
     (if se_writev sel = 0 \<or> se_writev sel < 0 \<and> \<not> se_send_again sel
      then (RwEnd kEctSocket (se_send_error sel), s)
      else
        let writelen = nat (se_writev sel);
            s1 = emit (EvTraffic writelen 0) (restart_interval env s)
        in case drain_sent writelen (ll_lstsenddata s1) s1 of
             (xs, s2) \<Rightarrow> (RwGo, s2\<lparr>ll_lstsenddata := xs\<rparr>))"

definition NoopResp :: "link_env \<Rightarrow> u32 \<Rightarrow> u32 \<Rightarrow> AutoBuffer \<Rightarrow> rw_state \<Rightarrow> bool \<times> rw_state" where
  "NoopResp env cmd tid buf s =
     (let (is_id, s1) =
            (if IsIdentifyResp (ll_identifychecker s) cmd tid
             then case OnIdentifyResp env buf (ll_identifychecker s) of
                    (ok, c) \<Rightarrow>
                      let s' = s\<lparr>ll_identifychecker := c\<rparr>
                      in (True, if ok then emit (EvReport kEctOK 0 (cp_ip (rw_profile s)) (cp_port (rw_profile s))) s'
                                else s')
             else (False, s));
          is_noop = (is_id \<or> longlink_noop_isresp kNoopTaskID cmd tid)
      in (is_noop,
          if is_noop \<and> rw_nooping s1
          then NotifyHeartResult env True False
                 (s1\<lparr>rw_nooping := False, rw_timeout := snd (Alarm_Cancel (le_alarm env) (rw_timeout s1))\<rparr>)
          else s1))"

text \<open>Adding a package to the buffer of its task.\<close>

definition stream_add :: "link_env \<Rightarrow> AutoBuffer \<Rightarrow> AutoBuffer \<Rightarrow> AutoBuffer option" where
  "stream_add env pkg stream =
     (if ab_parray stream \<noteq> None then Write (le_ok env) (contents pkg) stream
      else Some (fst (Attach_from pkg stream)))"

datatype recv_step = RcvNext | RcvBreak | RcvFalse

definition recv_one :: "link_env \<Rightarrow> rw_state \<Rightarrow> (recv_step \<times> rw_state) option" where
  "recv_one env s =
     do {
       (ret, out, body) \<leftarrow> longlink_unpack (le_ok env) (le_version env) (rw_bufrecv s)
           \<lparr>uo_cmdid = 0, uo_seq = kInvalidTaskID, uo_package_len = 0, uo_body_len = 0\<rparr>
           (AutoBuffer_new 128);
       if ret = LONGLINK_UNPACK_FALSE then Some (RcvFalse, s)
       else
         let tid = uo_seq out; packlen = unat (uo_package_len out); r = stream_of tid s;
             s1 = (put_stream tid r s)\<lparr>ll_lastrecvtime := le_now env\<rparr>
         in if ret = LONGLINK_UNPACK_CONTINUE
            then Some (RcvBreak, emit (EvRecv tid (ab_length (rw_bufrecv s1)) packlen) s1)
            else do {
              stream \<leftarrow> stream_add env body (sr_stream r);
              extension \<leftarrow> stream_add env (AutoBuffer_new 128) (sr_extension r);
              bufrecv \<leftarrow> Move (le_ok env) (- s32 (int packlen)) (rw_bufrecv s1);
              let s2 = (put_stream tid (r\<lparr>sr_stream := stream, sr_extension := extension\<rparr>) s1)
                         \<lparr>rw_bufrecv := bufrecv\<rparr>;
              if ret = LONGLINK_UNPACK_STREAM_PACKAGE
              then Some (RcvNext, emit (EvRecv tid packlen packlen) s2)
              else case NoopResp env (uo_cmdid out) tid stream s2 of
                     (True, s3) \<Rightarrow> Some (RcvNext, s3)
                   | (False, s3) \<Rightarrow>
                       Some (RcvNext,
                         (emit (EvResponse kEctOK 0 (uo_cmdid out) tid (contents stream)
                                  (contents extension) (rw_profile s3)) s3)
                           \<lparr>rw_sent_taskids := merase tid (rw_sent_taskids s3)\<rparr>) } }"

text \<open>The loop over the packages of the receive buffer may run for ever, so it has fuel:
  \<open>Unfinished\<close> is the loop that still runs when the fuel is used up, \<open>Fault\<close> an access
  outside a block.\<close>

datatype 'a exec = Finished 'a | Fault | Unfinished

fun recv_loop :: "nat \<Rightarrow> link_env \<Rightarrow> rw_state \<Rightarrow> (rw_verdict \<times> rw_state) exec" where
  "recv_loop fuel env s =
     (if ab_length (rw_bufrecv s) = 0 then Finished (RwGo, s)
      else case fuel of
             0 \<Rightarrow> Unfinished
           | Suc n \<Rightarrow>
               (case recv_one env s of
                  None \<Rightarrow> Fault
                | Some (RcvFalse, s1) \<Rightarrow> Finished (RwEnd kEctNetMsgXP kEctNetMsgXPHandleBufferErr, s1)
                | Some (RcvBreak, s1) \<Rightarrow> Finished (RwGo, s1)
                | Some (RcvNext, s1) \<Rightarrow> recv_loop n env s1))"

declare recv_loop.simps [simp del]

text \<open>\<open>recv\<close> writes at \<open>PosPtr()\<close> after 64 KB were reserved there.\<close>

definition recv_into :: "link_env \<Rightarrow> bytes \<Rightarrow> AutoBuffer \<Rightarrow> AutoBuffer option" where
  "recv_into env d b =
     do { b1 \<leftarrow> AllocWrite (le_ok env) (64 * 1024) False b;
          if d = [] then Some b1
          else if ab_pos b1 < 0 \<or> int (length (block b1)) < ab_pos b1 + int (length d) then None
          else Some (b1\<lparr>ab_parray := Some (mem_write (nat (ab_pos b1)) d (block b1))\<rparr>) }"

definition rw_recv :: "nat \<Rightarrow> link_env \<Rightarrow> recv_result \<Rightarrow> rw_state \<Rightarrow> (rw_verdict \<times> rw_state) exec" where
  "rw_recv fuel env r s =
     (case recv_into env (case r of RecvData d \<Rightarrow> d | RecvErr _ _ \<Rightarrow> []) (rw_bufrecv s) of
        None \<Rightarrow> Fault
      | Some b1 \<Rightarrow>
          let s1 = s\<lparr>rw_bufrecv := b1\<rparr>
          in case r of
               RecvErr again err \<Rightarrow>
                 if \<not> again then Finished (RwEnd kEctSocket err, s1)
                 else recv_loop fuel env (emit (EvTraffic 0 0)
                        (s1\<lparr>rw_bufrecv := Length_set (ab_pos b1) (ab_length b1) b1\<rparr>))
             | RecvData d \<Rightarrow>
                 if d = [] then Finished (RwEnd kEctSocket kEctSocketShutdown, s1)
                 else recv_loop fuel env (emit (EvTraffic 0 (length d))
                        (s1\<lparr>rw_bufrecv := Length_set (ab_pos b1 + int (length d))
                                           (ab_length b1 + length d) b1\<rparr>)))"

text \<open>The checks after \<open>select\<close>, and the transfer: first sending, then receiving.\<close>

definition rw_checks :: "sel_result \<Rightarrow> rw_state \<Rightarrow> (ErrCmdType \<times> int) option" where
  "rw_checks sel s =
     (if ll_disconnectinternalcode s \<noteq> kNone then Some (kEctCanceld, kEctSocketUserBreak)
      else if se_ret sel < 0 then Some (kEctSocket, se_errno sel)
      else if se_breaker_err sel then Some (kEctSocket, se_socket_errno sel)
      else case se_sock_err sel of
             Some err \<Rightarrow> Some (kEctSocket, err)
           | None \<Rightarrow> if rw_nooping s \<and> al_status (rw_timeout s) = kOnAlarm
                     then Some (kEctSocket, kEctSocketRecvErr) else None)"

definition rw_transfer :: "nat \<Rightarrow> link_env \<Rightarrow> sel_result \<Rightarrow> rw_state \<Rightarrow> (rw_verdict \<times> rw_state) exec" where
  "rw_transfer fuel env sel s =
     (case (if se_writable sel \<and> ll_lstsenddata s \<noteq> [] then rw_send env sel s else (RwGo, s)) of
        (RwEnd et ec, s2) \<Rightarrow> Finished (RwEnd et ec, s2)
      | (RwGo, s2) \<Rightarrow> if se_readable sel then rw_recv fuel env (se_recv sel) s2 else Finished (RwGo, s2))"

text \<open>The pass after \<open>select\<close>, which clears the breaker.\<close>

definition rw_io :: "nat \<Rightarrow> link_env \<Rightarrow> sel_result \<Rightarrow> rw_state \<Rightarrow> (rw_verdict \<times> rw_state) exec" where
  "rw_io fuel env sel s0 =
     (let s = s0\<lparr>ll_readwritebreak := snd (Breaker_Clear (ll_readwritebreak s0))\<rparr>
      in case rw_checks sel s of
           Some (et, ec) \<Rightarrow> Finished (RwEnd et ec, s)
         | None \<Rightarrow> rw_transfer fuel env sel
                     (if se_nwrite sel = 0 then s\<lparr>rw_nsent_datas := []\<rparr> else s))"

text \<open>The label \<open>End\<close>: the rest of it only writes the log.\<close>

definition rw_end :: "link_env \<Rightarrow> int \<Rightarrow> rw_state \<Rightarrow> rw_state" where
  "rw_end env errcode s =
     (let s1 = (if rw_nooping s then NotifyHeartResult env False (errcode = kEctSocketRecvErr) s else s)
      in s1\<lparr>rw_nsent_datas := []\<rparr>)"

end
