(* ===== verification/Link_Receive.thy ===== *)
theory Link_Receive
  imports Long_Link "HOL-Library.Sublist"
begin

text \<open>
  How the long link takes the byte stream apart. A message is a triple of command, task id and
  body, \<open>wire\<close> its frame. The theory shows that one pass over the receive buffer hands every
  complete frame to \<open>OnResponse\<close> and keeps the rest, whatever the cuts between two calls of
  \<open>recv\<close>.
\<close>

section \<open>Messages\<close>

type_synonym message = "u32 \<times> u32 \<times> bytes"

fun wire :: "u32 \<Rightarrow> message \<Rightarrow> bytes" where
  "wire v (c, t, d) = frame v c t d"

text \<open>A message that is no answer of the identify check, whose frame has at most a megabyte, and
  whose body is empty if it is a heartbeat.\<close>

fun regular :: "message \<Rightarrow> bool" where
  "regular (c, t, d) \<longleftrightarrow> header_size + length d \<le> 1024 * 1024 \<and> t \<noteq> kLongLinkIdentifyCheckerTaskID \<and>
     (c = NOOP_CMDID \<longrightarrow> d = [])"

fun is_noop :: "message \<Rightarrow> bool" where
  "is_noop (c, t, d) \<longleftrightarrow> c = NOOP_CMDID"

text \<open>The messages handed to \<open>OnResponse\<close>, in order.\<close>

fun delivered_by :: "link_event \<Rightarrow> message list" where
  "delivered_by (EvResponse et ec c t d x p) = (if et = kEctOK then [(c, t, d)] else [])"
| "delivered_by _ = []"

definition delivered :: "'a LongLink_scheme \<Rightarrow> message list" where
  "delivered s = concat (map delivered_by (ll_events s))"

lemma length_wire: "length (wire v m) = header_size + length (snd (snd m))"
  by (cases m) simp

lemma wire_nonempty [simp]: "wire v m \<noteq> []"
  using length_wire [of v m] by (auto simp: header_size_def)

lemma wire_size: "regular m \<Longrightarrow> length (wire v m) \<le> 1024 * 1024"
  by (cases m) simp

lemma delivered_emit: "delivered (emit e s) = delivered s @ delivered_by e"
  by (simp add: delivered_def emit_def)

section \<open>A prefix of a frame\<close>

lemma unpack_test_partial:
  assumes p: "strict_prefix q (wire v m)" and r: "regular m"
  obtains out' where "unpack_test v q (of_nat (length q) :: u64) out = (LONGLINK_UNPACK_CONTINUE, out')"
proof -
  obtain c t d where m: "m = (c, t, d)" by (cases m)
  have n: "header_size + length d \<le> 1024 * 1024" using r m by simp
  have lt: "length q < header_size + length d"
    using p m prefix_length_less [OF p] by simp
  then have l64: "length q < 2 ^ 64" using n by simp
  show ?thesis
  proof (cases "length q < header_size")
    case True
    then have "(of_nat (length q) :: u64) < of_nat header_size"
      using of_nat_less_u64 [OF l64, of header_size] by (simp add: header_size_def)
    then show ?thesis using that by (simp add: unpack_test_def)
  next
    case False
    obtain z where z: "wire v m = q @ z" using p by (auto simp: strict_prefix_def prefix_def)
    let ?st = "\<lparr>head_length = of_nat header_size, client_version = v, hd_cmdid = c, hd_seq = t,
                body_length = of_nat (length d)\<rparr>"
    have "take header_size (wire v m) = header_bytes ?st" by (simp add: m frame_def)
    then have "q = header_bytes ?st @ drop header_size q"
      using z False by (metis append_take_drop_id diff_is_0_eq' linorder_not_less nat_le_linear take0 take_append append_Nil2)
    then have h: "read_header q = ?st" by (metis read_header_bytes)
    have b: "length d \<le> 1048556" using n by (simp add: header_size_def)
    have u: "ucast (of_nat (length d) :: u32) = (of_nat (length d) :: u64)"
      using b by (simp add: unsigned_of_nat take_bit_nat_eq_self)
    have c1: "\<not> (of_nat (length q) :: u64) < of_nat header_size"
      using False of_nat_less_u64 [OF l64, of header_size] by (simp add: header_size_def)
    have c2: "\<not> (1024 * 1024 :: u64) < of_nat (header_size + length d)"
      using n of_nat_less_u64 [of "1024 * 1024" "header_size + length d"] by simp
    have c3: "(of_nat (length q) :: u64) < of_nat (header_size + length d)"
      using lt of_nat_less_u64 [OF l64, of "header_size + length d"] n by simp
    show ?thesis
      using that c1 c2 c3 unfolding unpack_test_def h by (simp add: Let_def u header_size_def)
  qed
qed

section \<open>One package\<close>

text \<open>What the receiving side keeps: the buffer is filled up to its position, no task has bytes
  left over from an earlier package, and the identify check waits for no other id than its own.\<close>

definition streams_empty :: "(u32 \<times> StreamResp) list \<Rightarrow> bool" where
  "streams_empty m \<longleftrightarrow> msorted m \<and>
     list_all (\<lambda>(k, r). ab_parray (sr_stream r) = None \<and> ab_parray (sr_extension r) = None) m"

definition rx_inv :: "rw_state \<Rightarrow> bool" where
  "rx_inv s \<longleftrightarrow> wf_buffer (rw_bufrecv s) \<and> ab_pos (rw_bufrecv s) = int (ab_length (rw_bufrecv s)) \<and>
     ab_malloc_unitsize (rw_bufrecv s) = 128 \<and> streams_empty (rw_sent_taskids s) \<and>
     ic_taskid (ll_identifychecker s) \<in> {0, kLongLinkIdentifyCheckerTaskID}"

abbreviation pending_in :: "rw_state \<Rightarrow> bytes" where
  "pending_in s \<equiv> contents (rw_bufrecv s)"

lemma streams_empty_put:
  assumes "streams_empty m" "ab_parray (sr_stream r) = None" "ab_parray (sr_extension r) = None"
  shows "streams_empty (mput k r m)"
proof -
  have "set (mput k r m) \<subseteq> insert (k, r) (set m)"
    by (induction k r m rule: mput.induct) auto
  then show ?thesis
    using assms by (auto simp: streams_empty_def msorted_mput list_all_iff)
qed

lemma streams_empty_erase: "streams_empty m \<Longrightarrow> streams_empty (merase k m)"
  using set_merase [of k m] by (auto simp: streams_empty_def msorted_merase list_all_iff)

lemma streams_empty_of:
  "streams_empty (rw_sent_taskids s) \<Longrightarrow>
   ab_parray (sr_stream (stream_of t s)) = None \<and> ab_parray (sr_extension (stream_of t s)) = None"
  by (auto simp: streams_empty_def stream_of_def mget_def StreamResp_new_def KNullAtuoBuffer_def
      AutoBuffer_new_def list_all_iff dest: map_of_SomeD split: option.splits)

lemma HeartResult_frame [simp]:
  "rw_bufrecv (NotifyHeartResult env a b s) = rw_bufrecv s"
  "rw_sent_taskids (NotifyHeartResult env a b s) = rw_sent_taskids s"
  "ll_identifychecker (NotifyHeartResult env a b s) = ll_identifychecker s"
  "ll_events (NotifyHeartResult env a b s) = ll_events s"
  "ll_lstsenddata (NotifyHeartResult env a b s) = ll_lstsenddata s"
  by (simp_all add: NotifyHeartResult_def on_heart_def Let_def)

lemma NoopResp_regular:
  assumes "ic_taskid (ll_identifychecker s) \<in> {0, kLongLinkIdentifyCheckerTaskID}"
    and "t \<noteq> kLongLinkIdentifyCheckerTaskID"
  obtains s' where "NoopResp env c t b s = (c = NOOP_CMDID, s')"
    and "rw_bufrecv s' = rw_bufrecv s" "rw_sent_taskids s' = rw_sent_taskids s"
    and "ll_identifychecker s' = ll_identifychecker s" "ll_events s' = ll_events s"
    and "ll_lstsenddata s' = ll_lstsenddata s"
proof -
  have "\<not> IsIdentifyResp (ll_identifychecker s) c t"
    using assms by (auto simp: IsIdentifyResp_def longlink_identify_isresp_def)
  then show ?thesis
    by (intro that [of "snd (NoopResp env c t b s)"])
      (auto simp: NoopResp_def Let_def longlink_noop_isresp_def)
qed

lemma attach_contents:
  "ab_parray st = None \<Longrightarrow> stream_add env pkg st = Some (fst (Attach_from pkg st)) \<and>
     contents (fst (Attach_from pkg st)) = contents pkg \<and>
     ab_parray (fst (Attach_from pkg st)) = ab_parray pkg"
  by (simp add: stream_add_def Attach_from_def contents_def block_def Reset_def)

lemma s32_nat: "n \<le> 1024 * 1024 \<Longrightarrow> s32 (int n) = int n"
  by (rule s32_id) simp_all

text \<open>An empty body leaves the body buffer without a block.\<close>

lemma unpack_empty_body:
  assumes wf: "wf_buffer p" "ab_length p < 2 ^ 64" and c: "contents p = frame v cmd t [] @ rest"
  shows "longlink_unpack ok v p out (AutoBuffer_new 128) =
     Some (LONGLINK_UNPACK_OK, \<lparr>uo_cmdid = cmd, uo_seq = t, uo_package_len = of_nat header_size,
        uo_body_len = 0\<rparr>, AutoBuffer_new 128)"
proof -
  have n: "header_size \<le> ab_length p" using length_contents [OF wf(1)] c by simp
  have t: "unpack_test v (contents p) (of_nat (ab_length p) :: u64) (out\<lparr>uo_body_len := 0\<rparr>) =
      (LONGLINK_UNPACK_OK, \<lparr>uo_cmdid = cmd, uo_seq = t, uo_package_len = of_nat header_size, uo_body_len = 0\<rparr>)"
    using unpack_test_frame [of "[]" "ab_length p" v cmd t rest "out\<lparr>uo_body_len := 0\<rparr>"] n wf(2) c
    by (simp add: header_size_def)
  show ?thesis
    by (simp add: longlink_unpack_def t ptr_read_def Write_seek_def Write_at_def FitSize_def
        AutoBuffer_new_def)
qed

text \<open>The environments of the theorems: every allocation succeeds, and the version is the one the
  frames carry.\<close>

definition env_ok :: "u32 \<Rightarrow> link_env \<Rightarrow> bool" where
  "env_ok v env \<longleftrightarrow> le_version env = v \<and> le_ok env = alloc_all"

lemma unpack_message:
  assumes wf: "wf_buffer p" "ab_length p < 2 ^ 64" and c: "contents p = wire v (c, t, d) @ rest"
    and r: "regular (c, t, d)"
  obtains body where "longlink_unpack alloc_all v p out (AutoBuffer_new 128) =
      Some (LONGLINK_UNPACK_OK, \<lparr>uo_cmdid = c, uo_seq = t,
        uo_package_len = of_nat (header_size + length d), uo_body_len = of_nat (length d)\<rparr>, body)"
    and "contents body = d" and "c = NOOP_CMDID \<longrightarrow> ab_parray body = None"
proof (cases "d = []")
  case True
  show ?thesis
    using unpack_empty_body [OF wf, of v c t rest] c True
    by (intro that [of "AutoBuffer_new 128"]) (simp_all add: AutoBuffer_new_def contents_def)
next
  case False
  have n: "header_size + length d \<le> 1024 * 1024" using r by simp
  have new: "wf_buffer (AutoBuffer_new 128)" "room (1024 * 1024) (AutoBuffer_new 128)"
    "contents (AutoBuffer_new 128) = []"
    by (rule wf_AutoBuffer_new, simp) (simp_all add: room_def AutoBuffer_new_def contents_def)
  obtain body where "longlink_unpack alloc_all v p out (AutoBuffer_new 128) =
      Some (LONGLINK_UNPACK_OK, \<lparr>uo_cmdid = c, uo_seq = t,
        uo_package_len = of_nat (header_size + length d), uo_body_len = of_nat (length d)\<rparr>, body)"
    "contents body = d"
    by (rule longlink_unpack_frame [where ok = alloc_all and out = out, OF wf c [unfolded wire.simps] n new alloc_all])
  then show ?thesis using that False r by auto
qed

lemma rx_consume:
  assumes "rx_inv s" "n \<le> ab_length (rw_bufrecv s)"
  obtains b where "Move ok (- int n) (rw_bufrecv s) = Some b" "wf_buffer b"
    and "contents b = drop n (pending_in s)" "ab_pos b = int (ab_length b)" "ab_malloc_unitsize b = 128"
proof -
  have wf: "wf_buffer (rw_bufrecv s)" and pos: "ab_pos (rw_bufrecv s) = int (ab_length (rw_bufrecv s))"
    using assms(1) by (auto simp: rx_inv_def)
  obtain b where mv: "Move ok (- int n) (rw_bufrecv s) = Some b" "wf_buffer b"
    "contents b = drop n (pending_in s)"
    "ab_pos b = (if int n < ab_pos (rw_bufrecv s) then ab_pos (rw_bufrecv s) - int n else 0)"
    "ab_malloc_unitsize b = 128"
    using Move_consume [OF wf assms(2)] assms(1) by (metis rx_inv_def)
  moreover have "ab_length b = ab_length (rw_bufrecv s) - n"
    using length_contents [OF mv(2)] mv(3) length_contents [OF wf] by simp
  ultimately show ?thesis using that pos assms(2) by auto
qed

lemma streams_empty_settle:
  assumes "streams_empty m"
  shows "streams_empty (merase t (mput t r' (mput t r m)))"
proof -
  have "merase t (mput t r' (mput t r m)) = merase t m"
    using assms unfolding streams_empty_def
    by (intro msorted_ext)
      (simp_all add: msorted_merase msorted_mput map_of_merase map_of_mput fun_eq_iff)
  then show ?thesis using streams_empty_erase [OF assms] by simp
qed

text \<open>The state after a package of task \<open>t\<close> has been taken off the buffer.\<close>

definition took :: "link_env \<Rightarrow> u32 \<Rightarrow> AutoBuffer \<Rightarrow> AutoBuffer \<Rightarrow> AutoBuffer \<Rightarrow> rw_state \<Rightarrow> rw_state" where
  "took env t st ex b s =
     (put_stream t ((stream_of t s)\<lparr>sr_stream := st, sr_extension := ex\<rparr>)
        ((put_stream t (stream_of t s) s)\<lparr>ll_lastrecvtime := le_now env\<rparr>))\<lparr>rw_bufrecv := b\<rparr>"

lemma took_frame [simp]:
  "rw_bufrecv (took env t st ex b s) = b" "ll_identifychecker (took env t st ex b s) = ll_identifychecker s"
  "ll_events (took env t st ex b s) = ll_events s" "ll_lstsenddata (took env t st ex b s) = ll_lstsenddata s"
  "rw_sent_taskids (took env t st ex b s) = mput t ((stream_of t s)\<lparr>sr_stream := st, sr_extension := ex\<rparr>)
     (mput t (stream_of t s) (rw_sent_taskids s))"
  by (simp_all add: took_def put_stream_def)

definition handed :: "u32 \<Rightarrow> u32 \<Rightarrow> AutoBuffer \<Rightarrow> AutoBuffer \<Rightarrow> rw_state \<Rightarrow> rw_state" where
  "handed c t st ex s =
     (emit (EvResponse kEctOK 0 c t (contents st) (contents ex) (rw_profile s)) s)
       \<lparr>rw_sent_taskids := merase t (rw_sent_taskids s)\<rparr>"

lemma handed_frame [simp]:
  "rw_bufrecv (handed c t st ex s) = rw_bufrecv s" "ll_identifychecker (handed c t st ex s) = ll_identifychecker s"
  "ll_events (handed c t st ex s) =
     ll_events s @ [EvResponse kEctOK 0 c t (contents st) (contents ex) (rw_profile s)]"
  "ll_lstsenddata (handed c t st ex s) = ll_lstsenddata s"
  "rw_sent_taskids (handed c t st ex s) = merase t (rw_sent_taskids s)"
  by (simp_all add: handed_def emit_def)

lemma recv_one_steps:
  assumes up: "longlink_unpack (le_ok env) (le_version env) (rw_bufrecv s)
       \<lparr>uo_cmdid = 0, uo_seq = kInvalidTaskID, uo_package_len = 0, uo_body_len = 0\<rparr> (AutoBuffer_new 128) =
       Some (LONGLINK_UNPACK_OK, out, body)"
    and st: "stream_add env body (sr_stream (stream_of (uo_seq out) s)) = Some st"
    and ex: "stream_add env (AutoBuffer_new 128) (sr_extension (stream_of (uo_seq out) s)) = Some ex"
    and mv: "Move (le_ok env) (- s32 (uint (uo_package_len out))) (rw_bufrecv s) = Some b"
    and nr: "NoopResp env (uo_cmdid out) (uo_seq out) st (took env (uo_seq out) st ex b s) = (noop, s3)"
  shows "recv_one env s = Some (RcvNext, if noop then s3 else handed (uo_cmdid out) (uo_seq out) st ex s3)"
proof -
  have mv': "Move (le_ok env) (- s32 (int (unat (uo_package_len out))))
      (rw_bufrecv (put_stream (uo_seq out) (stream_of (uo_seq out) s) s)) = Some b"
    using mv by (simp add: put_stream_def)
  show ?thesis
    using nr unfolding recv_one_def up st ex mv' Let_def took_def [symmetric]
    by (cases noop) (simp_all add: st ex mv' took_def [symmetric] handed_def del: of_nat_unat)
qed

lemma recv_one_takes:
  assumes inv: "rx_inv s"
    and up: "longlink_unpack (le_ok env) (le_version env) (rw_bufrecv s)
       \<lparr>uo_cmdid = 0, uo_seq = kInvalidTaskID, uo_package_len = 0, uo_body_len = 0\<rparr> (AutoBuffer_new 128) =
       Some (LONGLINK_UNPACK_OK, out, body)"
    and t: "uo_seq out \<noteq> kLongLinkIdentifyCheckerTaskID"
    and n: "unat (uo_package_len out) \<le> ab_length (rw_bufrecv s)" "unat (uo_package_len out) \<le> 1024 * 1024"
    and body: "uo_cmdid out = NOOP_CMDID \<Longrightarrow> ab_parray body = None"
  obtains s' where "recv_one env s = Some (RcvNext, s')" and "rx_inv s'"
    and "pending_in s' = drop (unat (uo_package_len out)) (pending_in s)"
    and "delivered s' = delivered s @
           (if uo_cmdid out = NOOP_CMDID then [] else [(uo_cmdid out, uo_seq out, contents body)])"
    and "ll_lstsenddata s' = ll_lstsenddata s" and "ll_identifychecker s' = ll_identifychecker s"
proof -
  let ?c = "uo_cmdid out" and ?t = "uo_seq out" and ?n = "unat (uo_package_len out)"
  have se: "streams_empty (rw_sent_taskids s)"
    and ic: "ic_taskid (ll_identifychecker s) \<in> {0, kLongLinkIdentifyCheckerTaskID}"
    using inv by (auto simp: rx_inv_def)
  obtain b where b: "Move (le_ok env) (- int ?n) (rw_bufrecv s) = Some b" "wf_buffer b"
    "contents b = drop ?n (pending_in s)" "ab_pos b = int (ab_length b)" "ab_malloc_unitsize b = 128"
    by (rule rx_consume [OF inv n(1)])
  have none: "ab_parray (sr_stream (stream_of ?t s)) = None" "ab_parray (sr_extension (stream_of ?t s)) = None"
    using streams_empty_of [OF se] by blast+
  let ?st = "fst (Attach_from body (sr_stream (stream_of ?t s)))"
    and ?ex = "fst (Attach_from (AutoBuffer_new 128) (sr_extension (stream_of ?t s)))"
  note st = attach_contents [OF none(1), of env body]
  note ex = attach_contents [OF none(2), of env "AutoBuffer_new 128"]
  obtain s3 where nr: "NoopResp env ?c ?t ?st (took env ?t ?st ?ex b s) = (?c = NOOP_CMDID, s3)"
    and s3: "rw_bufrecv s3 = b" "rw_sent_taskids s3 = rw_sent_taskids (took env ?t ?st ?ex b s)"
      "ll_identifychecker s3 = ll_identifychecker s" "ll_events s3 = ll_events s"
      "ll_lstsenddata s3 = ll_lstsenddata s"
    using NoopResp_regular [of "took env ?t ?st ?ex b s", OF _ t] ic by (metis took_frame(1-4))
  let ?s = "if ?c = NOOP_CMDID then s3 else handed ?c ?t ?st ?ex s3"
  have one: "recv_one env s = Some (RcvNext, ?s)"
    using recv_one_steps [OF up _ _ _ nr] st ex b(1) s32_nat [OF n(2)] by simp
  have "?c = NOOP_CMDID \<Longrightarrow> ab_parray ?st = None" "ab_parray ?ex = None"
    using st ex body by (auto simp: AutoBuffer_new_def)
  then have se2: "streams_empty (rw_sent_taskids ?s)"
    using s3(2) se none by (auto simp: streams_empty_settle intro!: streams_empty_put)
  show ?thesis
  proof (rule that [OF one])
    show "rx_inv ?s" using b se2 ic s3 by (simp add: rx_inv_def)
    show "pending_in ?s = drop ?n (pending_in s)" using s3(1) b(3) by simp
    show "delivered ?s = delivered s @ (if ?c = NOOP_CMDID then [] else [(?c, ?t, contents body)])"
      using s3(4) st by (simp add: delivered_def)
  qed (simp_all add: s3)
qed

lemma recv_one_message:
  assumes inv: "rx_inv s" "ab_length (rw_bufrecv s) < 2 ^ 64" and e: "env_ok v env"
    and c: "pending_in s = wire v m @ rest" and r: "regular m"
  obtains s' where "recv_one env s = Some (RcvNext, s')" and "rx_inv s'" and "pending_in s' = rest"
    and "delivered s' = delivered s @ (if is_noop m then [] else [m])"
    and "ll_lstsenddata s' = ll_lstsenddata s" and "ll_identifychecker s' = ll_identifychecker s"
proof -
  obtain c t d where m: "m = (c, t, d)" by (cases m)
  have wf: "wf_buffer (rw_bufrecv s)" using inv by (simp add: rx_inv_def)
  let ?n = "header_size + length d"
  have un: "unat (of_nat ?n :: u64) = ?n" using r m by (intro unat_of_nat_u64) simp
  have eq: "le_ok env = alloc_all" "le_version env = v" using e by (simp_all add: env_ok_def)
  obtain body where up: "longlink_unpack (le_ok env) (le_version env) (rw_bufrecv s)
      \<lparr>uo_cmdid = 0, uo_seq = kInvalidTaskID, uo_package_len = 0, uo_body_len = 0\<rparr> (AutoBuffer_new 128) =
      Some (LONGLINK_UNPACK_OK, \<lparr>uo_cmdid = c, uo_seq = t, uo_package_len = of_nat ?n,
        uo_body_len = of_nat (length d)\<rparr>, body)"
    and body: "contents body = d" "c = NOOP_CMDID \<longrightarrow> ab_parray body = None"
    unfolding eq by (rule unpack_message [OF wf inv(2) c [unfolded m] r [unfolded m]])
  have n: "unat (of_nat ?n :: u64) \<le> ab_length (rw_bufrecv s)" "unat (of_nat ?n :: u64) \<le> 1024 * 1024"
    using un length_contents [OF wf] c m r by simp_all
  have t: "t \<noteq> kLongLinkIdentifyCheckerTaskID" using r m by simp
  note takes = recv_one_takes [OF inv(1) up, unfolded unpack_out.simps, OF t n body(2) [rule_format]]
  obtain s' where s': "recv_one env s = Some (RcvNext, s')" "rx_inv s'"
    "pending_in s' = drop ?n (pending_in s)"
    "delivered s' = delivered s @ (if c = NOOP_CMDID then [] else [(c, t, d)])"
    "ll_lstsenddata s' = ll_lstsenddata s" "ll_identifychecker s' = ll_identifychecker s"
    by (rule takes) (simp_all only: un body(1))
  have "pending_in s' = rest" using s'(3) c m by simp
  then show ?thesis using s' m by (intro that [of s']) simp_all
qed

lemma recv_one_partial:
  assumes inv: "rx_inv s" "ab_length (rw_bufrecv s) < 2 ^ 64" and e: "env_ok v env"
    and c: "strict_prefix (pending_in s) (wire v m)" and r: "regular m"
  obtains s' where "recv_one env s = Some (RcvBreak, s')" and "rx_inv s'"
    and "pending_in s' = pending_in s" and "delivered s' = delivered s"
    and "ll_lstsenddata s' = ll_lstsenddata s" and "ll_identifychecker s' = ll_identifychecker s"
proof -
  have wf: "wf_buffer (rw_bufrecv s)" and se: "streams_empty (rw_sent_taskids s)"
    using inv by (auto simp: rx_inv_def)
  note env = e [unfolded env_ok_def]
  obtain out where "unpack_test v (pending_in s) (of_nat (ab_length (rw_bufrecv s)) :: u64)
      \<lparr>uo_cmdid = 0, uo_seq = kInvalidTaskID, uo_package_len = 0, uo_body_len = 0\<rparr> =
      (LONGLINK_UNPACK_CONTINUE, out)"
    using unpack_test_partial [OF c r] length_contents [OF wf] by metis
  then have up: "longlink_unpack alloc_all v (rw_bufrecv s)
      \<lparr>uo_cmdid = 0, uo_seq = kInvalidTaskID, uo_package_len = 0, uo_body_len = 0\<rparr> (AutoBuffer_new 128) =
      Some (LONGLINK_UNPACK_CONTINUE, out, AutoBuffer_new 128)"
    by (simp add: longlink_unpack_def)
  let ?t = "uo_seq out"
  let ?s1 = "(put_stream ?t (stream_of ?t s) s)\<lparr>ll_lastrecvtime := le_now env\<rparr>"
  let ?s = "emit (EvRecv ?t (ab_length (rw_bufrecv ?s1)) (unat (uo_package_len out))) ?s1"
  have "recv_one env s = Some (RcvBreak, ?s)"
    using up env by (simp add: recv_one_def Let_def)
  moreover have "rx_inv ?s"
    using inv(1) streams_empty_of [OF se]
    by (simp add: rx_inv_def put_stream_def emit_def streams_empty_put)
  moreover have "pending_in ?s = pending_in s" "delivered ?s = delivered s"
    "ll_lstsenddata ?s = ll_lstsenddata s" "ll_identifychecker ?s = ll_identifychecker s"
    by (simp_all add: put_stream_def emit_def delivered_def)
  ultimately show ?thesis by (rule that)
qed

section \<open>The loop\<close>

text \<open>Cutting a prefix of a stream of frames: complete frames, then a proper prefix of the next
  one.\<close>

fun next_part :: "u32 \<Rightarrow> bytes \<Rightarrow> message list \<Rightarrow> bool" where
  "next_part v q [] \<longleftrightarrow> q = []"
| "next_part v q (m # ms) \<longleftrightarrow> strict_prefix q (wire v m)"

lemma split_frames:
  assumes "prefix bs (concat (map (wire v) ms))"
  obtains ms1 ms2 q where "ms = ms1 @ ms2" "bs = concat (map (wire v) ms1) @ q" "next_part v q ms2"
  using assms
proof (induction ms arbitrary: bs thesis)
  case Nil
  then show ?case by (auto intro: Nil(1) [of "[]" "[]" "[]"])
next
  case (Cons m ms)
  show ?case
  proof (cases "prefix (wire v m) bs")
    case True
    then obtain bs' where bs: "bs = wire v m @ bs'" by (auto simp: prefix_def)
    then have "prefix bs' (concat (map (wire v) ms))" using Cons.prems(2) by simp
    then obtain ms1 ms2 q where "ms = ms1 @ ms2" "bs' = concat (map (wire v) ms1) @ q" "next_part v q ms2"
      using Cons.IH by blast
    then show ?thesis using Cons.prems(1) [of "m # ms1" ms2 q] bs by simp
  next
    case False
    have "prefix bs (wire v m @ concat (map (wire v) ms))" using Cons.prems(2) by simp
    then have "prefix bs (wire v m)" using False by (metis prefix_append prefix_order.refl prefixI)
    then show ?thesis using False Cons.prems(1) [of "[]" "m # ms" bs] by (auto simp: strict_prefix_def)
  qed
qed

lemma recv_loop_frames:
  assumes "rx_inv s" "ab_length (rw_bufrecv s) < 2 ^ 64" "env_ok v env"
    and "pending_in s = concat (map (wire v) ms1) @ q" "next_part v q ms2"
    and "list_all regular (ms1 @ ms2)" and "ab_length (rw_bufrecv s) \<le> fuel"
  obtains s' where "recv_loop fuel env s = Finished (RwGo, s')" and "rx_inv s'" and "pending_in s' = q"
    and "delivered s' = delivered s @ filter (\<lambda>m. \<not> is_noop m) ms1"
    and "ll_lstsenddata s' = ll_lstsenddata s" and "ll_identifychecker s' = ll_identifychecker s"
  using assms
proof (induction ms1 arbitrary: s fuel thesis)
  case Nil
  have len: "length (pending_in s) = ab_length (rw_bufrecv s)"
    using Nil.prems(2) by (auto simp: rx_inv_def intro: length_contents)
  show ?case
  proof (cases "q = []")
    case True
    then show ?thesis using Nil.prems(1) [of s] Nil.prems len by (simp add: recv_loop.simps)
  next
    case False
    then obtain m ms where m: "ms2 = m # ms" "strict_prefix (pending_in s) (wire v m)" "regular m"
      using Nil.prems by (cases ms2) auto
    obtain s' where s': "recv_one env s = Some (RcvBreak, s')" "rx_inv s'" "pending_in s' = pending_in s"
      "delivered s' = delivered s" "ll_lstsenddata s' = ll_lstsenddata s"
      "ll_identifychecker s' = ll_identifychecker s"
      by (rule recv_one_partial [OF Nil.prems(2-4) m(2,3)])
    have "0 < ab_length (rw_bufrecv s)" using False Nil.prems(5) by (simp flip: len)
    then obtain n where "fuel = Suc n" "ab_length (rw_bufrecv s) \<noteq> 0" using Nil.prems(8) by (cases fuel) auto
    then show ?thesis using Nil.prems(1) [of s'] s' Nil.prems(5) by (simp add: recv_loop.simps)
  qed
next
  case (Cons m ms1)
  have len: "length (pending_in s) = ab_length (rw_bufrecv s)"
    using Cons.prems(2) by (auto simp: rx_inv_def intro: length_contents)
  obtain s1 where s1: "recv_one env s = Some (RcvNext, s1)" "rx_inv s1"
    "pending_in s1 = concat (map (wire v) ms1) @ q"
    "delivered s1 = delivered s @ (if is_noop m then [] else [m])"
    "ll_lstsenddata s1 = ll_lstsenddata s" "ll_identifychecker s1 = ll_identifychecker s"
    using recv_one_message [OF Cons.prems(2-4), of m "concat (map (wire v) ms1) @ q"] Cons.prems(5,7) by auto
  have len1: "length (pending_in s1) = ab_length (rw_bufrecv s1)"
    using s1(2) by (auto simp: rx_inv_def intro: length_contents)
  have lt: "ab_length (rw_bufrecv s1) < ab_length (rw_bufrecv s)"
    using len len1 s1(3) Cons.prems(5) length_wire [of v m] by (simp add: header_size_def)
  then obtain n where n: "fuel = Suc n" using Cons.prems(8) by (cases fuel) auto
  have "ab_length (rw_bufrecv s1) < 2 ^ 64" "ab_length (rw_bufrecv s1) \<le> n"
    using lt Cons.prems(3,8) n by linarith+
  then obtain s' where s': "recv_loop n env s1 = Finished (RwGo, s')" "rx_inv s'" "pending_in s' = q"
    "delivered s' = delivered s1 @ filter (\<lambda>m. \<not> is_noop m) ms1"
    "ll_lstsenddata s' = ll_lstsenddata s1" "ll_identifychecker s' = ll_identifychecker s1"
    using Cons.IH [of n s1, OF _ s1(2) _ Cons.prems(4) s1(3) Cons.prems(6)] Cons.prems(7)
    by (metis append_Cons list.pred_inject(2))
  have "recv_loop fuel env s = Finished (RwGo, s')"
    using s'(1) s1(1) n lt by (subst recv_loop.simps) simp
  then show ?case using Cons.prems(1) [of s'] s' s1 by simp
qed

section \<open>Receiving\<close>

lemma mem_write_end:
  assumes "l \<le> length m" "l + length d \<le> length m"
  shows "take (l + length d) (mem_write l d m) = take l m @ d"
  using take_mem_write [of l d "l + length d" m] assms by simp

lemma recv_into_appends:
  assumes wf: "wf_buffer b" and pos: "ab_pos b = int (ab_length b)"
    and room: "ab_length b + 64 * 1024 + ab_malloc_unitsize b < 2 ^ 64"
    and d: "length d \<le> 64 * 1024" and ok: "le_ok env = alloc_all"
  obtains b1 where "recv_into env d b = Some b1" and "ab_pos b1 = int (ab_length b)"
    and "ab_length b1 = ab_length b"
    and "wf_buffer (Length_set (ab_pos b1 + int (length d)) (ab_length b1 + length d) b1)"
    and "contents (Length_set (ab_pos b1 + int (length d)) (ab_length b1 + length d) b1) = contents b @ d"
    and "ab_malloc_unitsize b1 = ab_malloc_unitsize b"
proof -
  have "room (nat (ab_pos b) + 64 * 1024) b" using room pos by (simp add: room_def)
  then obtain b0 where b0: "AllocWrite alloc_all (64 * 1024) False b = Some b0" "wf_buffer b0"
    "contents b0 = contents b" "ab_length b + 64 * 1024 \<le> ab_capacity b0"
    "ab_pos b0 = ab_pos b" "ab_malloc_unitsize b0 = ab_malloc_unitsize b"
    using AllocWrite_spec [where ok = alloc_all and ch = False, OF wf] pos by (metis alloc_all nat_int)
  have l0: "ab_length b0 = ab_length b" using length_contents b0(2,3) wf by metis
  have cap: "length (block b0) = ab_capacity b0" using b0(2) by (simp add: wf_buffer_def)
  let ?b1 = "if d = [] then b0 else b0\<lparr>ab_parray := Some (mem_write (ab_length b) d (block b0))\<rparr>"
  have R: "recv_into env d b = Some ?b1"
    using b0(1,4,5) cap pos d ok by (simp add: recv_into_def)
  have blk: "block ?b1 = mem_write (ab_length b) d (block b0)"
    using b0(4) cap by (simp add: mem_write_def)
  have fits: "ab_length b + length d \<le> length (block b0)" using b0(4) cap d by simp
  let ?b2 = "Length_set (ab_pos ?b1 + int (length d)) (ab_length ?b1 + length d) ?b1"
  have f: "ab_length ?b2 = ab_length b + length d" "block ?b2 = mem_write (ab_length b) d (block b0)"
    "ab_capacity ?b2 = ab_capacity b0" "ab_malloc_unitsize ?b2 = ab_malloc_unitsize b"
    "ab_pos ?b2 = int (ab_length b + length d)"
    using blk l0 b0 pos by (simp_all add: Length_set_def Seek_def Let_def)
  have "wf_buffer ?b2"
    unfolding wf_buffer_def f using fits cap wf by (simp add: wf_buffer_def)
  moreover have "contents ?b2 = contents b @ d"
    unfolding contents_def [of ?b2] f
    using mem_write_end [of "ab_length b" "block b0" d] fits b0(3) l0 by (simp add: contents_def)
  moreover have "ab_pos ?b1 = int (ab_length b)" "ab_length ?b1 = ab_length b"
    "ab_malloc_unitsize ?b1 = ab_malloc_unitsize b"
    using b0 l0 pos by simp_all
  ultimately show ?thesis by (intro that [OF R])
qed

text \<open>A stream of regular frames, cut anywhere: the bytes received so far are complete frames, all
  handed over, and the part of the next frame that waits in the buffer.\<close>

definition rx_state :: "u32 \<Rightarrow> message list \<Rightarrow> message list \<Rightarrow> rw_state \<Rightarrow> bool" where
  "rx_state v ms1 ms2 s \<longleftrightarrow> rx_inv s \<and> next_part v (pending_in s) ms2 \<and>
     list_all regular (ms1 @ ms2) \<and> delivered s = filter (\<lambda>m. \<not> is_noop m) ms1"

definition recv_fuel :: nat where "recv_fuel = 1024 * 1024 + 64 * 1024"

lemma next_part_short:
  "next_part v q ms \<Longrightarrow> list_all regular ms \<Longrightarrow> length q \<le> 1024 * 1024"
  using wire_size by (cases ms) (auto dest!: prefix_length_less intro: less_imp_le order.strict_trans2)

lemma rx_state_length:
  assumes "rx_state v ms1 ms2 s"
  shows "ab_length (rw_bufrecv s) \<le> 1024 * 1024"
proof -
  have "length (pending_in s) \<le> 1024 * 1024"
    using assms by (intro next_part_short [of v _ ms2]) (simp_all add: rx_state_def)
  then show ?thesis using assms length_contents [of "rw_bufrecv s"] by (simp add: rx_state_def rx_inv_def)
qed

lemma rx_inv_buffer:
  "rx_inv s \<Longrightarrow> wf_buffer b \<Longrightarrow> ab_pos b = int (ab_length b) \<Longrightarrow> ab_malloc_unitsize b = 128 \<Longrightarrow>
   rx_inv (emit e (s\<lparr>rw_bufrecv := b\<rparr>))"
  by (simp add: rx_inv_def emit_def)

lemma rx_append:
  assumes rx: "rx_state v ms1 ms2 s" and e: "env_ok v env"
    and d: "length d \<le> 64 * 1024" and p: "prefix (pending_in s @ d) (concat (map (wire v) ms2))"
    and f: "recv_fuel \<le> fuel"
  obtains b1 s' ms ms3 where "recv_into env d (rw_bufrecv s) = Some b1"
    and "recv_loop fuel env (emit (EvTraffic 0 (length d))
           (s\<lparr>rw_bufrecv := Length_set (ab_pos b1 + int (length d)) (ab_length b1 + length d) b1\<rparr>)) =
         Finished (RwGo, s')"
    and "ms2 = ms @ ms3" and "rx_state v (ms1 @ ms) ms3 s'"
    and "pending_in s @ d = concat (map (wire v) ms) @ pending_in s'"
proof -
  have inv: "rx_inv s" and reg: "list_all regular (ms1 @ ms2)"
    and del: "delivered s = filter (\<lambda>m. \<not> is_noop m) ms1" using rx by (auto simp: rx_state_def)
  have B: "wf_buffer (rw_bufrecv s)" "ab_pos (rw_bufrecv s) = int (ab_length (rw_bufrecv s))"
    "ab_malloc_unitsize (rw_bufrecv s) = 128" using inv by (auto simp: rx_inv_def)
  have short: "ab_length (rw_bufrecv s) \<le> 1024 * 1024" by (rule rx_state_length [OF rx])
  obtain b1 where b1: "recv_into env d (rw_bufrecv s) = Some b1" "ab_pos b1 = int (ab_length (rw_bufrecv s))"
    "ab_length b1 = ab_length (rw_bufrecv s)"
    "wf_buffer (Length_set (ab_pos b1 + int (length d)) (ab_length b1 + length d) b1)"
    "contents (Length_set (ab_pos b1 + int (length d)) (ab_length b1 + length d) b1) = pending_in s @ d"
    "ab_malloc_unitsize b1 = ab_malloc_unitsize (rw_bufrecv s)"
    using recv_into_appends [OF B(1,2), of d env] short B(3) d e by (auto simp: env_ok_def)
  define b2 where "b2 = Length_set (ab_pos b1 + int (length d)) (ab_length b1 + length d) b1"
  have b2: "ab_length b2 = ab_length (rw_bufrecv s) + length d" "ab_pos b2 = int (ab_length b2)"
    "ab_malloc_unitsize b2 = 128"
    using b1 B(3) by (simp_all add: b2_def Length_set_def Seek_def Let_def)
  let ?s = "emit (EvTraffic 0 (length d)) (s\<lparr>rw_bufrecv := b2\<rparr>)"
  have inv2: "rx_inv ?s" by (rule rx_inv_buffer [OF inv b1(4) [folded b2_def] b2(2,3)])
  have bf: "rw_bufrecv ?s = b2" by (simp add: emit_def)
  have len: "ab_length (rw_bufrecv ?s) < 2 ^ 64" "ab_length (rw_bufrecv ?s) \<le> fuel"
    using bf b2(1) short d f by (simp_all add: recv_fuel_def)
  have "prefix (pending_in ?s) (concat (map (wire v) ms2))"
    using p b1(5) by (simp only: bf b2_def [symmetric])
  then obtain ms ms3 q where ms: "ms2 = ms @ ms3" "pending_in ?s = concat (map (wire v) ms) @ q"
    "next_part v q ms3" by (rule split_frames)
  have reg2: "list_all regular (ms @ ms3)" using reg ms(1) by simp
  obtain s' where s': "recv_loop fuel env ?s = Finished (RwGo, s')" "rx_inv s'" "pending_in s' = q"
    "delivered s' = delivered ?s @ filter (\<lambda>m. \<not> is_noop m) ms"
    by (rule recv_loop_frames [OF inv2 len(1) e ms(2,3) reg2 len(2)])
  have "rx_state v (ms1 @ ms) ms3 s'"
    using s' ms reg del by (simp add: rx_state_def delivered_emit) (simp add: delivered_def)
  moreover have "pending_in s @ d = concat (map (wire v) ms) @ pending_in s'"
    using ms(2) s'(3) b1(5) by (simp only: bf b2_def [symmetric])
  ultimately show ?thesis using that b1(1) ms(1) s'(1) unfolding b2_def by blast
qed

text \<open>What one call of \<open>recv\<close> contributes: data, or nothing when it would have blocked.\<close>

fun recv_ok :: "recv_result \<Rightarrow> bool" where
  "recv_ok (RecvData d) \<longleftrightarrow> length d \<le> 64 * 1024"
| "recv_ok (RecvErr again err) \<longleftrightarrow> True"

fun recv_bytes :: "recv_result \<Rightarrow> bytes" where
  "recv_bytes (RecvData d) = d"
| "recv_bytes (RecvErr again err) = []"

lemma rw_recv_frames:
  assumes rx: "rx_state v ms1 ms2 s" and e: "env_ok v env" and r: "recv_ok r"
    and p: "prefix (pending_in s @ recv_bytes r) (concat (map (wire v) ms2))" and f: "recv_fuel \<le> fuel"
  obtains verdict s' where "rw_recv fuel env r s = Finished (verdict, s')"
    and "verdict = RwGo \<longrightarrow> (\<exists>ms ms3. ms2 = ms @ ms3 \<and> rx_state v (ms1 @ ms) ms3 s' \<and>
           pending_in s @ recv_bytes r = concat (map (wire v) ms) @ pending_in s')"
proof -
  have "length (recv_bytes r) \<le> 64 * 1024" using r by (cases r) simp_all
  from rx_append [OF rx e this p f]
  obtain b1 s' ms ms3 where a: "recv_into env (recv_bytes r) (rw_bufrecv s) = Some b1"
    "recv_loop fuel env (emit (EvTraffic 0 (length (recv_bytes r))) (s\<lparr>rw_bufrecv :=
       Length_set (ab_pos b1 + int (length (recv_bytes r))) (ab_length b1 + length (recv_bytes r)) b1\<rparr>)) =
       Finished (RwGo, s')"
    "ms2 = ms @ ms3" "rx_state v (ms1 @ ms) ms3 s'"
    "pending_in s @ recv_bytes r = concat (map (wire v) ms) @ pending_in s'" by blast
  have "rw_recv fuel env r s = Finished (RwGo, s') \<or>
      (\<exists>et ec s'. rw_recv fuel env r s = Finished (RwEnd et ec, s'))"
    using a(1,2) by (cases r) (auto simp: rw_recv_def Let_def)
  then show ?thesis using that a(3-5) by blast
qed

section \<open>Termination\<close>

text \<open>A header that announces a package of no bytes at all.\<close>

definition zero_package :: "u32 \<Rightarrow> bytes \<Rightarrow> bool" where
  "zero_package v bs \<longleftrightarrow> header_size \<le> length bs \<and> client_version (read_header bs) = v \<and>
     head_length (read_header bs) = 0 \<and> body_length (read_header bs) = 0"

lemma NoopResp_buffer [simp]: "rw_bufrecv (snd (NoopResp env c t b s)) = rw_bufrecv s"
  by (simp add: NoopResp_def Let_def OnIdentifyResp_def emit_def split: prod.splits if_splits)

lemma unpack_some:
  "longlink_unpack ok v p out body = Some (ret, out', body') \<Longrightarrow>
   unpack_test v (contents p) (of_nat (ab_length p) :: u64) (out\<lparr>uo_body_len := 0\<rparr>) = (ret, out')"
  by (auto simp: longlink_unpack_def split: prod.splits if_splits bind_splits)

lemma unpack_test_no_stream: "fst (unpack_test v bs n out) \<noteq> LONGLINK_UNPACK_STREAM_PACKAGE"
  by (simp add: unpack_test_def Let_def)

lemma unpack_test_zero:
  assumes "unpack_test v bs (of_nat n :: u64) out = (LONGLINK_UNPACK_OK, out')" "n < 2 ^ 64" "n \<le> length bs"
    and "uo_package_len out' = 0"
  shows "zero_package v bs"
proof -
  note o = unpack_test_ok64 [OF assms(1,2)]
  have b: "uo_body_len out' = 0" using o(1) assms(4) by (simp add: unat_eq_0)
  then have "unat (head_length (read_header bs)) = 0" using o(5) assms(4) by simp
  moreover have "unat (ucast (body_length (read_header bs)) :: u64) = 0" "client_version (read_header bs) = v"
    using assms(1) b by (auto simp: unpack_test_def Let_def split: if_splits)
  moreover have "unat (body_length (read_header bs)) < 2 ^ 64"
    using unsigned_less [of "body_length (read_header bs)", where 'a = nat] by simp
  ultimately show ?thesis
    using o(4) assms(3) by (simp add: zero_package_def unat_eq_0 unsigned_ucast_eq take_bit_nat_eq_self)
qed

lemma recv_one_shrinks:
  assumes "recv_one env s = Some (RcvNext, s')" and wf: "wf_buffer (rw_bufrecv s)"
    and "ab_length (rw_bufrecv s) < 2 ^ 64"
  obtains n where "pending_in s' = drop n (pending_in s)" "wf_buffer (rw_bufrecv s')"
    and "n \<le> ab_length (rw_bufrecv s)"
    and "n = 0 \<longrightarrow> zero_package (le_version env) (pending_in s)"
proof -
  obtain ret out body where up: "longlink_unpack (le_ok env) (le_version env) (rw_bufrecv s)
       \<lparr>uo_cmdid = 0, uo_seq = kInvalidTaskID, uo_package_len = 0, uo_body_len = 0\<rparr> (AutoBuffer_new 128) =
       Some (ret, out, body)"
    using assms(1) by (auto simp: recv_one_def split: bind_splits)
  have ret: "ret = LONGLINK_UNPACK_OK"
  proof -
    have "ret \<noteq> LONGLINK_UNPACK_STREAM_PACKAGE"
      using unpack_some [OF up] unpack_test_no_stream by (metis fst_conv)
    then show ?thesis using assms(1) up by (cases ret) (simp_all add: recv_one_def Let_def)
  qed
  let ?n = "unat (uo_package_len out)"
  note t = unpack_some [OF up, unfolded ret]
  note o = unpack_test_ok64 [OF t assms(3)]
  obtain b where b: "Move (le_ok env) (- s32 (int ?n)) (rw_bufrecv s) = Some b" "rw_bufrecv s' = b"
    using assms(1) up ret
    by (auto simp: recv_one_def Let_def put_stream_def emit_def split: bind_splits prod.splits bool.splits
        dest: arg_cong [where f = "\<lambda>x. rw_bufrecv (snd x)"])
  show ?thesis
  proof (rule that [of ?n])
    have "Move (le_ok env) (- int ?n) (rw_bufrecv s) = Some b" using b(1) s32_nat [OF o(3)] by simp
    then show "pending_in s' = drop ?n (pending_in s)" "wf_buffer (rw_bufrecv s')"
      using Move_consume [OF wf o(2)] b(2) by (metis option.inject)+
    show "?n \<le> ab_length (rw_bufrecv s)" by (rule o(2))
    show "?n = 0 \<longrightarrow> zero_package (le_version env) (pending_in s)"
      using unpack_test_zero [OF t assms(3)] length_contents [OF wf] by (simp add: unat_eq_0)
  qed
qed

lemma recv_loop_ends:
  assumes "wf_buffer (rw_bufrecv s)" "ab_length (rw_bufrecv s) < 2 ^ 64"
    and "\<And>k. \<not> zero_package (le_version env) (drop k (pending_in s))"
    and "ab_length (rw_bufrecv s) \<le> fuel"
  shows "recv_loop fuel env s \<noteq> Unfinished"
  using assms
proof (induction fuel arbitrary: s)
  case 0
  then show ?case by (simp add: recv_loop.simps)
next
  case (Suc fuel)
  have "recv_loop fuel env s' \<noteq> Unfinished" if one: "recv_one env s = Some (RcvNext, s')"
    and ne: "ab_length (rw_bufrecv s) \<noteq> 0" for s'
  proof -
    obtain n where n: "pending_in s' = drop n (pending_in s)" "wf_buffer (rw_bufrecv s')"
      "n \<le> ab_length (rw_bufrecv s)" "n = 0 \<longrightarrow> zero_package (le_version env) (pending_in s)"
      by (rule recv_one_shrinks [OF one Suc.prems(1,2)])
    have "0 < n" using n(4) Suc.prems(3) [of 0] by (cases n) auto
    moreover have "ab_length (rw_bufrecv s') = ab_length (rw_bufrecv s) - n"
      using length_contents [OF n(2)] length_contents [OF Suc.prems(1)] n(1) by simp
    ultimately show ?thesis
      using Suc.prems(2-4) n ne by (intro Suc.IH) (simp_all add: drop_drop)
  qed
  then show ?case
    by (subst recv_loop.simps) (auto split: option.splits recv_step.splits)
qed

text \<open>A package of no bytes is accepted, handed over and not consumed.\<close>

lemma recv_one_zero:
  assumes inv: "rx_inv s" "ab_length (rw_bufrecv s) < 2 ^ 64" and v: "le_version env = v"
    and z: "zero_package v (pending_in s)"
    and t: "hd_seq (read_header (pending_in s)) \<noteq> kLongLinkIdentifyCheckerTaskID"
  obtains s' where "recv_one env s = Some (RcvNext, s')" and "rx_inv s'" and "pending_in s' = pending_in s"
proof -
  have wf: "wf_buffer (rw_bufrecv s)" using inv by (simp add: rx_inv_def)
  let ?h = "read_header (pending_in s)"
  let ?out = "\<lparr>uo_cmdid = hd_cmdid ?h, uo_seq = hd_seq ?h, uo_package_len = 0, uo_body_len = 0\<rparr> :: u64 unpack_out"
  have "\<not> (of_nat (ab_length (rw_bufrecv s)) :: u64) < of_nat header_size"
    using z length_contents [OF wf] of_nat_less_u64 [OF inv(2), of header_size]
    by (simp add: zero_package_def header_size_def)
  then have "longlink_unpack (le_ok env) (le_version env) (rw_bufrecv s)
      \<lparr>uo_cmdid = 0, uo_seq = kInvalidTaskID, uo_package_len = 0, uo_body_len = 0\<rparr> (AutoBuffer_new 128) =
      Some (LONGLINK_UNPACK_OK, ?out, AutoBuffer_new 128)"
    using z v by (simp add: longlink_unpack_def unpack_test_def Let_def zero_package_def ptr_read_def
        Write_seek_def Write_at_def FitSize_def AutoBuffer_new_def)
  from recv_one_takes [OF inv(1) this] show ?thesis
    using that t by (simp add: AutoBuffer_new_def) metis
qed

lemma recv_loop_zero:
  assumes "rx_inv s" "ab_length (rw_bufrecv s) < 2 ^ 64" "le_version env = v"
    and "zero_package v (pending_in s)"
    and "hd_seq (read_header (pending_in s)) \<noteq> kLongLinkIdentifyCheckerTaskID"
  shows "recv_loop fuel env s = Unfinished"
  using assms
proof (induction fuel arbitrary: s)
  case 0
  then show ?case
    using length_contents [of "rw_bufrecv s"]
    by (auto simp: recv_loop.simps zero_package_def header_size_def rx_inv_def)
next
  case (Suc fuel)
  have len: "ab_length (rw_bufrecv s) = length (pending_in s)"
    using Suc.prems(1) length_contents by (simp add: rx_inv_def)
  obtain s' where s': "recv_one env s = Some (RcvNext, s')" "rx_inv s'" "pending_in s' = pending_in s"
    by (rule recv_one_zero [OF Suc.prems])
  have "ab_length (rw_bufrecv s') = length (pending_in s')"
    using s'(2) length_contents by (simp add: rx_inv_def)
  then have "recv_loop fuel env s' = Unfinished"
    using Suc.prems s' len by (intro Suc.IH) simp_all
  then show ?case
    using s'(1) Suc.prems(4) len
    by (subst recv_loop.simps) (auto simp: zero_package_def header_size_def)
qed

end
