(* ===== verification/Link_Run.thy ===== *)
theory Link_Run
  imports Link_Receive
begin

text \<open>
  The long link while it is connected: any interleaving of the passes of the read/write loop with
  the calls of the other threads, the alarms and the message queue. \<open>rw_run\<close> stops at the first
  pass that ends the loop. The properties tie the bytes on the socket, in both directions, to the
  messages that go in and come out.
\<close>

section \<open>Interleavings\<close>

datatype link_op =
    OpSend link_env AutoBuffer Task
  | OpSendNoData link_env AutoBuffer u32 u32
  | OpStop u32
  | OpDisconnect link_env TDisconnectInternalCode
  | OpIntervalAlarm link_env int
  | OpTimeoutAlarm link_env int
  | OpPosted
  | OpPrepare link_env
  | OpIo link_env sel_result

definition from_call :: "(bool \<times> rw_state) option \<Rightarrow> (rw_verdict \<times> rw_state) exec" where
  "from_call r = (case r of None \<Rightarrow> Fault | Some (_, s) \<Rightarrow> Finished (RwGo, s))"

fun rw_step :: "nat \<Rightarrow> link_op \<Rightarrow> rw_state \<Rightarrow> (rw_verdict \<times> rw_state) exec" where
  "rw_step fuel (OpSend env body task) s = from_call (LongLink_Send env body task s)"
| "rw_step fuel (OpSendNoData env body cmd tid) s = from_call (SendWhenNoData env body cmd tid s)"
| "rw_step fuel (OpStop tid) s = Finished (RwGo, snd (LongLink_Stop tid s))"
| "rw_step fuel (OpDisconnect env scene) s = Finished (RwGo, snd (LongLink_Disconnect env scene s))"
| "rw_step fuel (OpIntervalAlarm env n) s =
     Finished (RwGo, case Alarm_OnAlarm (le_alarm env) n (rw_interval s) of (fired, a) \<Rightarrow>
       let s1 = s\<lparr>rw_interval := a\<rparr> in if fired then LL_OnAlarm env s1 else s1)"
| "rw_step fuel (OpTimeoutAlarm env n) s =
     Finished (RwGo, case Alarm_OnAlarm (le_alarm env) n (rw_timeout s) of (fired, a) \<Rightarrow>
       let s1 = s\<lparr>rw_timeout := a\<rparr> in if fired then LL_OnAlarm env s1 else s1)"
| "rw_step fuel OpPosted s = Finished (RwGo, RunPosted_link s)"
| "rw_step fuel (OpPrepare env) s = (case rw_prepare env s of None \<Rightarrow> Fault | Some r \<Rightarrow> Finished r)"
| "rw_step fuel (OpIo env sel) s = rw_io fuel env sel s"

fun rw_run :: "nat \<Rightarrow> link_op list \<Rightarrow> rw_state \<Rightarrow> (rw_verdict \<times> rw_state) exec" where
  "rw_run fuel [] s = Finished (RwGo, s)"
| "rw_run fuel (op # ops) s =
     (case rw_step fuel op s of
        Finished (RwGo, s1) \<Rightarrow> rw_run fuel ops s1
      | r \<Rightarrow> r)"

text \<open>The operations of the theorems: allocation succeeds, the version is fixed, the buffers passed
  in are well formed, and \<open>recv\<close> returns no more than it was asked for.\<close>

definition body_ok :: "AutoBuffer \<Rightarrow> bool" where
  "body_ok b \<longleftrightarrow> wf_buffer b \<and> ab_length b < 2 ^ 63"

definition identify_ok :: "link_env \<Rightarrow> bool" where
  "identify_ok env \<longleftrightarrow> body_ok (fst (snd (le_identify env)))"

fun op_ok :: "u32 \<Rightarrow> link_op \<Rightarrow> bool" where
  "op_ok v (OpSend env body task) \<longleftrightarrow> env_ok v env \<and> body_ok body"
| "op_ok v (OpSendNoData env body cmd tid) \<longleftrightarrow> env_ok v env \<and> body_ok body"
| "op_ok v (OpStop tid) \<longleftrightarrow> True"
| "op_ok v (OpDisconnect env scene) \<longleftrightarrow> True"
| "op_ok v (OpIntervalAlarm env n) \<longleftrightarrow> True"
| "op_ok v (OpTimeoutAlarm env n) \<longleftrightarrow> True"
| "op_ok v OpPosted \<longleftrightarrow> True"
| "op_ok v (OpPrepare env) \<longleftrightarrow> env_ok v env \<and> identify_ok env"
| "op_ok v (OpIo env sel) \<longleftrightarrow> env_ok v env \<and> recv_ok (se_recv sel)"

text \<open>The bytes that an operation takes from the socket.\<close>

fun op_in :: "link_op \<Rightarrow> bytes" where
  "op_in (OpIo env sel) = (if se_readable sel then recv_bytes (se_recv sel) else [])"
| "op_in _ = []"

section \<open>What the operations keep\<close>

text \<open>The receiving side of the state: nothing but \<open>recv\<close> and the registration of sent tasks
  touches it.\<close>

definition rx_same :: "rw_state \<Rightarrow> rw_state \<Rightarrow> bool" where
  "rx_same s s' \<longleftrightarrow> rw_bufrecv s' = rw_bufrecv s \<and> delivered s' = delivered s \<and>
     (streams_empty (rw_sent_taskids s) \<longrightarrow> streams_empty (rw_sent_taskids s')) \<and>
     (ic_taskid (ll_identifychecker s) \<in> {0, kLongLinkIdentifyCheckerTaskID} \<longrightarrow>
      ic_taskid (ll_identifychecker s') \<in> {0, kLongLinkIdentifyCheckerTaskID})"

lemma rx_same_state: "rx_same s s' \<Longrightarrow> rx_state v ms1 ms2 s \<Longrightarrow> rx_state v ms1 ms2 s'"
  by (auto simp: rx_same_def rx_state_def rx_inv_def)

lemma rx_same_refl [simp]: "rx_same s s"
  by (simp add: rx_same_def)

lemma rx_same_trans: "rx_same s s' \<Longrightarrow> rx_same s' s'' \<Longrightarrow> rx_same s s''"
  by (auto simp: rx_same_def)

lemma rx_same_frame:
  "rw_bufrecv s' = rw_bufrecv s \<Longrightarrow> ll_events s' = ll_events s \<Longrightarrow>
   rw_sent_taskids s' = rw_sent_taskids s \<Longrightarrow> ll_identifychecker s' = ll_identifychecker s \<Longrightarrow> rx_same s s'"
  by (simp add: rx_same_def delivered_def)

lemma rx_same_emit: "delivered_by e = [] \<Longrightarrow> rx_same s (emit e s)"
  by (simp add: rx_same_def delivered_emit) (simp add: emit_def)

lemma pack_ok:
  assumes "env_ok v env" "body_ok body"
  obtains b where "longlink_pack (le_ok env) (le_version env) cmd tid body (AutoBuffer_new 128) = Some b"
    and "wf_buffer b" and "contents b = wire v (cmd, tid, contents body)" and "ab_pos b = 0"
proof -
  have "wf_buffer (AutoBuffer_new 128)" by (rule wf_AutoBuffer_new) simp
  moreover have "header_size + ab_length body + ab_malloc_unitsize (AutoBuffer_new 128) < 2 ^ 64"
    using assms(2) by (simp add: body_ok_def header_size_def AutoBuffer_new_def)
  ultimately show ?thesis
    using longlink_pack_contents [where ok = alloc_all and v = v and cmdid = cmd and seq = tid
        and body = body and packed = "AutoBuffer_new 128"] assms that
    by (auto simp: env_ok_def body_ok_def)
qed

lemma heart_frame [simp]:
  "rw_bufrecv (on_heart env f s) = rw_bufrecv s" "rw_sent_taskids (on_heart env f s) = rw_sent_taskids s"
  "ll_events (on_heart env f s') = ll_events s'" "ll_identifychecker (on_heart env f s') = ll_identifychecker s'"
  "ll_lstsenddata (on_heart env f s') = ll_lstsenddata s'"
  "ll_connectstatus (on_heart env f s') = ll_connectstatus s'"
  by (simp_all add: on_heart_def)

lemma HeartReq_frame [simp]:
  "rw_bufrecv (NotifyHeartReq env a b s) = rw_bufrecv s"
  "rw_sent_taskids (NotifyHeartReq env a b s) = rw_sent_taskids s"
  "ll_events (NotifyHeartReq env a b s) = ll_events s"
  "ll_identifychecker (NotifyHeartReq env a b s) = ll_identifychecker s"
  "ll_lstsenddata (NotifyHeartReq env a b s) = ll_lstsenddata s"
  by (simp_all add: NotifyHeartReq_def)

lemma interval_frame [simp]:
  "rw_bufrecv (restart_interval env s) = rw_bufrecv s"
  "rw_sent_taskids (restart_interval env s) = rw_sent_taskids s"
  "ll_events (restart_interval env s) = ll_events s"
  "ll_identifychecker (restart_interval env s) = ll_identifychecker s"
  "ll_lstsenddata (restart_interval env s) = ll_lstsenddata s"
  by (simp_all add: restart_interval_def LL_GetNextHeartbeatInterval_def split: prod.splits option.splits)

section \<open>Sending\<close>

text \<open>An entry of the send list holds the frame of its task and a position inside it; only the
  first entry can be partly sent.\<close>

fun msg_of :: "Task \<times> AutoBuffer \<Rightarrow> message" where
  "msg_of (t, b) = (cmdid t, taskid t, drop header_size (contents b))"

fun entry_ok :: "u32 \<Rightarrow> Task \<times> AutoBuffer \<Rightarrow> bool" where
  "entry_ok v (t, b) \<longleftrightarrow> wf_buffer b \<and> ab_length b < 2 ^ 64 \<and> ab_pos b < int (ab_length b) \<and>
     contents b = wire v (msg_of (t, b))"

fun unsent :: "Task \<times> AutoBuffer \<Rightarrow> bool" where
  "unsent (t, b) \<longleftrightarrow> ab_pos b = 0"

definition tx_inv :: "u32 \<Rightarrow> rw_state \<Rightarrow> bool" where
  "tx_inv v s \<longleftrightarrow> list_all (entry_ok v) (ll_lstsenddata s) \<and> list_all unsent (tl (ll_lstsenddata s))"

text \<open>What a call appends to the list.\<close>

definition tx_add :: "u32 \<Rightarrow> message list \<Rightarrow> rw_state \<Rightarrow> rw_state \<Rightarrow> bool" where
  "tx_add v ms s s' \<longleftrightarrow> ll_events s' = ll_events s \<and>
     (\<exists>xs. ll_lstsenddata s' = ll_lstsenddata s @ xs \<and> list_all (entry_ok v) xs \<and>
           list_all unsent xs \<and> map msg_of xs = ms)"

lemma tx_add_refl: "ll_events s' = ll_events s \<Longrightarrow> ll_lstsenddata s' = ll_lstsenddata s \<Longrightarrow> tx_add v [] s s'"
  by (simp add: tx_add_def)

lemma entry_pack:
  assumes "wf_buffer b" "contents b = wire v (cmdid t, taskid t, d)" "ab_pos b = 0" "length d < 2 ^ 63"
  shows "entry_ok v (t, Seek 0 ESeekStart b) \<and> unsent (t, Seek 0 ESeekStart b) \<and>
     msg_of (t, Seek 0 ESeekStart b) = (cmdid t, taskid t, d)"
proof -
  have "ab_length b = header_size + length d" using length_contents [OF assms(1)] assms(2) by simp
  moreover have "drop header_size (contents b) = d" using assms(2) by (simp add: frame_def)
  moreover have "ab_pos (Seek 0 ESeekStart b) = 0" by (simp add: Seek_def)
  ultimately show ?thesis
    using assms wf_Seek [OF assms(1), of 0 ESeekStart] by (simp add: header_size_def)
qed

lemma Send_step:
  assumes "env_ok v env" "body_ok body"
  obtains r s' where "LongLink_Send env body task s = Some (r, s')" and "rx_same s s'"
    and "tx_add v (if ll_connectstatus s = kConnected then [(cmdid task, taskid task, contents body)] else []) s s'"
    and "ll_identifychecker s' = ll_identifychecker s"
proof (cases "ll_connectstatus s = kConnected")
  case False
  then show ?thesis by (intro that [of False s]) (simp_all add: LongLink_Send_def tx_add_refl)
next
  case True
  obtain b where b: "longlink_pack (le_ok env) (le_version env) (cmdid task) (taskid task) body (AutoBuffer_new 128) = Some b"
    "wf_buffer b" "contents b = wire v (cmdid task, taskid task, contents body)" "ab_pos b = 0"
    by (rule pack_ok [OF assms])
  let ?s = "s\<lparr>ll_lstsenddata := ll_lstsenddata s @ [(task, Seek 0 ESeekStart b)],
      ll_readwritebreak := snd (Breaker_Break (le_break_ok env) (ll_readwritebreak s))\<rparr>"
  have "length (contents body) < 2 ^ 63" using assms(2) length_contents by (simp add: body_ok_def)
  note entry = entry_pack [OF b(2,3,4) this]
  have "LongLink_Send env body task s = Some (True, ?s)" using True b(1) by (simp add: LongLink_Send_def)
  moreover have "rx_same s ?s" by (rule rx_same_frame) simp_all
  moreover have "tx_add v [(cmdid task, taskid task, contents body)] s ?s"
    unfolding tx_add_def using entry by (auto intro!: exI [of _ "[(task, Seek 0 ESeekStart b)]"])
  ultimately show ?thesis using that True by simp
qed

lemma NoData_step:
  assumes "env_ok v env" "body_ok body"
  obtains r s' where "SendWhenNoData env body cmd tid s = Some (r, s')" and "rx_same s s'"
    and "tx_add v (if ll_connectstatus s = kConnected \<and> ll_lstsenddata s = [] then [(cmd, tid, contents body)] else []) s s'"
    and "ll_identifychecker s' = ll_identifychecker s"
proof (cases "ll_connectstatus s = kConnected \<and> ll_lstsenddata s = []")
  case False
  then show ?thesis by (intro that [of False s]) (auto simp: SendWhenNoData_def tx_add_refl)
next
  case True
  let ?t = "(Task_new tid)\<lparr>send_only := True, cmdid := cmd, taskid := tid\<rparr>"
  obtain b where b: "longlink_pack (le_ok env) (le_version env) cmd tid body (AutoBuffer_new 128) = Some b"
    "wf_buffer b" "contents b = wire v (cmd, tid, contents body)" "ab_pos b = 0"
    by (rule pack_ok [OF assms])
  let ?s = "s\<lparr>ll_lstsenddata := ll_lstsenddata s @ [(?t, Seek 0 ESeekStart b)],
      ll_readwritebreak := snd (Breaker_Break (le_break_ok env) (ll_readwritebreak s))\<rparr>"
  have "length (contents body) < 2 ^ 63" using assms(2) length_contents by (simp add: body_ok_def)
  note entry = entry_pack [of b v ?t, OF b(2) _ b(4) this]
  have "SendWhenNoData env body cmd tid s = Some (True, ?s)" using True b(1) by (simp add: SendWhenNoData_def)
  moreover have "rx_same s ?s" by (rule rx_same_frame) simp_all
  moreover have "tx_add v [(cmd, tid, contents body)] s ?s"
    unfolding tx_add_def using entry b(3) by (auto intro!: exI [of _ "[(?t, Seek 0 ESeekStart b)]"])
  ultimately show ?thesis using that True by simp
qed

lemma tx_add_frame:
  "tx_add v ms s s' \<Longrightarrow> ll_events s'' = ll_events s' \<Longrightarrow> ll_lstsenddata s'' = ll_lstsenddata s' \<Longrightarrow>
   tx_add v ms s s''"
  by (simp add: tx_add_def)

lemma tx_add_from:
  "ll_events s1 = ll_events s \<Longrightarrow> ll_lstsenddata s1 = ll_lstsenddata s \<Longrightarrow> tx_add v ms s1 s' \<Longrightarrow> tx_add v ms s s'"
  by (simp add: tx_add_def)

lemma rx_same_checker:
  "rx_same s1 s' \<Longrightarrow> rw_bufrecv s1 = rw_bufrecv s \<Longrightarrow> ll_events s1 = ll_events s \<Longrightarrow>
   rw_sent_taskids s1 = rw_sent_taskids s \<Longrightarrow>
   ic_taskid (ll_identifychecker s1) = ic_taskid (ll_identifychecker s) \<Longrightarrow> rx_same s s'"
  by (simp add: rx_same_def delivered_def)

lemma GetIdentify_taskid: "ic_taskid (snd (GetIdentifyBuffer env c)) = ic_taskid c"
  by (simp add: GetIdentifyBuffer_def Let_def split: prod.splits)

lemma GetIdentify_body:
  "identify_ok env \<Longrightarrow> GetIdentifyBuffer env c = (Some (buffer, cmd), c') \<Longrightarrow> body_ok buffer"
  by (auto simp: GetIdentifyBuffer_def identify_ok_def Let_def split: if_splits prod.splits)

lemma body_ok_new: "body_ok (AutoBuffer_new 128)"
  using wf_AutoBuffer_new [of 128] by (simp add: body_ok_def) (simp add: AutoBuffer_new_def)

text \<open>The request itself, before the alarm is set.\<close>

lemma noop_request:
  assumes "env_ok v env" "identify_ok env"
  obtains suc s1 ms where "NoopReq_send env s = Some (suc, s1)" and "rx_same s s1" and "tx_add v ms s s1"
proof -
  obtain r c where g: "GetIdentifyBuffer env (ll_identifychecker s) = (r, c)" by fastforce
  have ic: "ic_taskid c = ic_taskid (ll_identifychecker s)" using GetIdentify_taskid g by (metis snd_conv)
  let ?s = "s\<lparr>ll_identifychecker := c\<rparr>"
  show ?thesis
  proof (cases r)
    case None
    obtain suc s1 where n: "SendWhenNoData env (AutoBuffer_new 128) NOOP_CMDID kNoopTaskID ?s = Some (suc, s1)"
      "rx_same ?s s1" "tx_add v (if ll_connectstatus ?s = kConnected \<and> ll_lstsenddata ?s = []
          then [(NOOP_CMDID, kNoopTaskID, contents (AutoBuffer_new 128))] else []) ?s s1"
      by (rule NoData_step [OF assms(1) body_ok_new])
    have "rx_same s s1" by (rule rx_same_checker [OF n(2)]) (simp_all add: ic)
    moreover note tx_add_from [OF _ _ n(3), of s]
    ultimately show ?thesis using that g None n(1) by (simp add: NoopReq_send_def SendNoopWhenNoData_def)
  next
    case (Some p)
    then obtain buffer cmd where p: "r = Some (buffer, cmd)" by (cases p) simp
    let ?t = "(Task_new kLongLinkIdentifyCheckerTaskID)\<lparr>cmdid := cmd\<rparr>"
    have "body_ok buffer" using GetIdentify_body [OF assms(2)] g p by blast
    then obtain suc s1 where n: "LongLink_Send env buffer ?t ?s = Some (suc, s1)" "rx_same ?s s1"
      "tx_add v (if ll_connectstatus ?s = kConnected then [(cmdid ?t, taskid ?t, contents buffer)] else []) ?s s1"
      by (rule Send_step [OF assms(1)])
    let ?s1 = "s1\<lparr>ll_identifychecker := IC_SetID kLongLinkIdentifyCheckerTaskID (ll_identifychecker s1)\<rparr>"
    have "rx_same s1 ?s1" by (simp add: rx_same_def delivered_def IC_SetID_def)
    moreover have "rx_same s s1" by (rule rx_same_checker [OF n(2)]) (simp_all add: ic)
    ultimately have "rx_same s ?s1" using rx_same_trans by blast
    moreover have "tx_add v (if ll_connectstatus ?s = kConnected
        then [(cmdid ?t, taskid ?t, contents buffer)] else []) s ?s1"
      by (rule tx_add_frame [OF tx_add_from [OF _ _ n(3)]]) simp_all
    ultimately show ?thesis using that g p n(1) by (simp add: NoopReq_send_def)
  qed
qed

lemma NoopReq_step:
  assumes "env_ok v env" "identify_ok env"
  obtains suc s' ms where "NoopReq env act s = Some (suc, s')" and "rx_same s s'" and "tx_add v ms s s'"
proof -
  obtain suc s1 ms where n: "NoopReq_send env s = Some (suc, s1)" "rx_same s s1" "tx_add v ms s s1"
    by (rule noop_request [OF assms])
  define s' where "s' = (if suc then
           (case Alarm_Restart (le_alarm env) (if act then 5 * 1000 else 8 * 1000) (ll_sg_seq s1) (rw_timeout s1) of
              (g, a) \<Rightarrow> s1\<lparr>rw_timeout := a, ll_sg_seq := g\<rparr>)
         else s1)"
  have "NoopReq env act s = Some (suc, s')"
    unfolding NoopReq_def n(1) s'_def by simp
  moreover have "rx_same s1 s'" "ll_events s' = ll_events s1" "ll_lstsenddata s' = ll_lstsenddata s1"
    by (auto simp: s'_def split: prod.splits intro!: rx_same_frame)
  ultimately show ?thesis
    using that rx_same_trans [OF n(2)] tx_add_frame [OF n(3)] by blast
qed

lemma prepare_step:
  assumes "env_ok v env" "identify_ok env"
  obtains verdict s' ms where "rw_prepare env s = Some (verdict, s')" and "rx_same s s'" and "tx_add v ms s s'"
proof -
  obtain s1 ms where n: "rw_noop env s = Some s1" "rx_same s s1" "tx_add v ms s s1"
  proof (cases "Alarm_IsWaiting (rw_interval s)")
    case True
    then show ?thesis by (intro that [of s "[]"]) (simp_all add: rw_noop_def tx_add_refl)
  next
    case False
    let ?s1 = "if rw_first_noop_sent s \<and> al_status (rw_interval s) = kOnAlarm then NotifyJudgeDozeStyle env s else s"
    define late where "late = (15 * 60 * 1000 \<le> (if al_status (rw_interval s) = kOnAlarm
        then Alarm_ElapseTime (le_alarm env) (rw_interval ?s1) else 0))"
    obtain suc s2 ms where r: "NoopReq env late ?s1 = Some (suc, s2)" "rx_same ?s1 s2" "tx_add v ms ?s1 s2"
      by (rule NoopReq_step [OF assms])
    define s3 where "s3 = restart_interval env ((if suc then NotifyHeartReq env
        (word_of_int (al_after (rw_interval ?s1)))
        (if al_status (rw_interval s) = kOnAlarm then Alarm_ElapseTime (le_alarm env) (rw_interval ?s1) else 0)
        (s2\<lparr>rw_nooping := True\<rparr>) else s2)\<lparr>rw_first_noop_sent := True\<rparr>)"
    have "rw_noop env s = Some s3"
      using False r(1) by (simp add: rw_noop_def Let_def s3_def late_def)
    moreover have "rx_same s ?s1" by (rule rx_same_frame) (simp_all add: NotifyJudgeDozeStyle_def)
    moreover have "rx_same s2 s3" by (rule rx_same_frame) (simp_all add: s3_def)
    moreover have "tx_add v ms s s3"
      by (rule tx_add_frame [OF tx_add_from [OF _ _ r(3)]]) (simp_all add: s3_def NotifyJudgeDozeStyle_def)
    ultimately show ?thesis using that rx_same_trans r(2) by blast
  qed
  then show ?thesis using that by (simp add: rw_prepare_def)
qed

section \<open>What the socket accepted\<close>

fun sent_part :: "Task \<times> AutoBuffer \<Rightarrow> bytes" where
  "sent_part (t, b) = take (nat (ab_pos b)) (contents b)"

fun pending_out :: "Task \<times> AutoBuffer \<Rightarrow> bytes" where
  "pending_out (t, b) = drop (nat (ab_pos b)) (contents b)"

fun sent_by :: "link_event \<Rightarrow> u32 list" where
  "sent_by (EvSend t) = [t]"
| "sent_by _ = []"

text \<open>The tasks for which \<open>OnSend\<close> was called.\<close>

definition sent_ids :: "'a LongLink_scheme \<Rightarrow> u32 list" where
  "sent_ids s = concat (map sent_by (ll_events s))"

abbreviation msg_id :: "message \<Rightarrow> u32" where
  "msg_id m \<equiv> fst (snd m)"

lemma sent_ids_emit: "sent_ids (emit e s) = sent_ids s @ sent_by e"
  by (simp add: sent_ids_def emit_def)

lemma unsent_parts: "list_all unsent xs \<Longrightarrow> concat (map sent_part xs) = [] \<and> filter (\<lambda>x. \<not> unsent x) xs = []"
  by (induction xs) auto

lemma entry_parts:
  assumes "entry_ok v (t, b)"
  shows "sent_part (t, b) @ pending_out (t, b) = wire v (msg_of (t, b))"
    and "length (pending_out (t, b)) = PosLength b" "0 < PosLength b"
    and "int (PosLength b) = int (ab_length b) - ab_pos b" "0 \<le> ab_pos b"
proof -
  have b: "wf_buffer b" "ab_length b < 2 ^ 64" "ab_pos b < int (ab_length b)"
    and c: "contents b = wire v (msg_of (t, b))" and p: "0 \<le> ab_pos b"
    using assms by (auto simp: wf_buffer_def)
  have "int (ab_length b) < 2 ^ 64" using b(2) by simp
  then have "0 \<le> int (ab_length b) - ab_pos b" "int (ab_length b) - ab_pos b < 2 ^ 64" using b p by linarith+
  then have pl: "int (PosLength b) = int (ab_length b) - ab_pos b" by (simp add: PosLength_def)
  show "sent_part (t, b) @ pending_out (t, b) = wire v (msg_of (t, b))" using c by simp
  show "length (pending_out (t, b)) = PosLength b"
    using length_contents [OF b(1)] pl p b(3) by simp
  show "0 < PosLength b" using pl b(3) by linarith
  show "int (PosLength b) = int (ab_length b) - ab_pos b" "0 \<le> ab_pos b" by fact+
qed

lemma note_sent_same: "rx_same s (note_sent t b s) \<and> sent_ids (note_sent t b s) = sent_ids s \<and>
   ll_lstsenddata (note_sent t b s) = ll_lstsenddata s"
  by (auto simp: rx_same_def note_sent_def put_stream_def Let_def sent_ids_def delivered_def
      intro!: streams_empty_put dest: streams_empty_of)

lemma advance_entry:
  assumes "entry_ok v (t, b)" "0 < n" "n < PosLength b"
  shows "entry_ok v (t, Seek (int n) ESeekCur b)" "\<not> unsent (t, Seek (int n) ESeekCur b)"
    and "msg_of (t, Seek (int n) ESeekCur b) = msg_of (t, b)"
    and "sent_part (t, Seek (int n) ESeekCur b) = sent_part (t, b) @ take n (pending_out (t, b))"
proof -
  note e = entry_parts [OF assms(1)]
  have pos: "ab_pos (Seek (int n) ESeekCur b) = ab_pos b + int n"
    using e(4,5) assms(3) by (simp add: Seek_cur)
  show "entry_ok v (t, Seek (int n) ESeekCur b)"
    using assms wf_Seek [of b "int n" ESeekCur] pos e(4) by simp
  show "\<not> unsent (t, Seek (int n) ESeekCur b)" using pos e(5) assms(2) by simp
  show "msg_of (t, Seek (int n) ESeekCur b) = msg_of (t, b)" by simp
  have "nat (ab_pos b + int n) = nat (ab_pos b) + n" using e(5) by linarith
  then show "sent_part (t, Seek (int n) ESeekCur b) = sent_part (t, b) @ take n (pending_out (t, b))"
    by (simp add: pos take_add)
qed

text \<open>What draining \<open>n\<close> bytes does: some messages \<open>dn\<close> leave the list completely, the accepted
  bytes are theirs and the beginning of the next one, and \<open>OnSend\<close> is called for the messages
  whose first byte left.\<close>

definition part_ids :: "(Task \<times> AutoBuffer) list \<Rightarrow> u32 list" where
  "part_ids xs = map (msg_id \<circ> msg_of) (filter (\<lambda>x. \<not> unsent x) xs)"

definition drained ::
    "u32 \<Rightarrow> nat \<Rightarrow> (Task \<times> AutoBuffer) list \<Rightarrow> rw_state \<Rightarrow> (Task \<times> AutoBuffer) list \<Rightarrow> rw_state \<Rightarrow> bool" where
  "drained v n xs s ys s' \<longleftrightarrow> (\<exists>dn nw.
     map msg_of xs = dn @ map msg_of ys \<and>
     concat (map sent_part xs) @ take n (concat (map pending_out xs)) =
       concat (map (wire v) dn) @ concat (map sent_part ys) \<and>
     sent_ids s' = sent_ids s @ nw \<and> part_ids xs @ nw = map msg_id dn @ part_ids ys \<and>
     list_all (entry_ok v) ys \<and> list_all unsent (tl ys) \<and> rx_same s s' \<and>
     ll_lstsenddata s' = ll_lstsenddata s)"

lemma drained_none:
  "list_all (entry_ok v) xs \<Longrightarrow> list_all unsent (tl xs) \<Longrightarrow> n = 0 \<or> xs = [] \<Longrightarrow> drained v n xs s xs s"
  unfolding drained_def by (intro exI [of _ "[]"]) auto

definition first_byte :: "Task \<Rightarrow> AutoBuffer \<Rightarrow> rw_state \<Rightarrow> rw_state" where
  "first_byte t b s = (if ab_pos b = 0 then emit (EvSend (taskid t)) s else s)"

lemma first_byte_same:
  "rx_same s (first_byte t b s)" "ll_lstsenddata (first_byte t b s) = ll_lstsenddata s"
  "sent_ids (first_byte t b s) = sent_ids s @ (if ab_pos b = 0 then [taskid t] else [])"
  by (simp_all add: first_byte_def rx_same_emit sent_ids_emit) (simp add: emit_def)

lemma unsent_part_ids: "list_all unsent xs \<Longrightarrow> part_ids xs = []"
  using unsent_parts by (simp add: part_ids_def)

lemma drained_whole:
  assumes e: "entry_ok v (t, b)" and un: "list_all unsent xs" and n: "PosLength b \<le> n"
    and d: "drained v (n - PosLength b) xs (note_sent t b (first_byte t b s)) ys s'"
  shows "drained v n ((t, b) # xs) s ys s'"
proof -
  let ?new = "if ab_pos b = 0 then [taskid t] else []" and ?s2 = "note_sent t b (first_byte t b s)"
  from d obtain dn nw where h: "map msg_of xs = dn @ map msg_of ys"
    "concat (map sent_part xs) @ take (n - PosLength b) (concat (map pending_out xs)) =
       concat (map (wire v) dn) @ concat (map sent_part ys)"
    "sent_ids s' = sent_ids ?s2 @ nw" "part_ids xs @ nw = map msg_id dn @ part_ids ys"
    "list_all (entry_ok v) ys" "list_all unsent (tl ys)" "rx_same ?s2 s'"
    "ll_lstsenddata s' = ll_lstsenddata ?s2" by (auto simp: drained_def)
  have nil: "concat (map sent_part xs) = []" using unsent_parts [OF un] by blast
  have "take n (concat (map pending_out ((t, b) # xs))) =
      pending_out (t, b) @ take (n - PosLength b) (concat (map pending_out xs))"
    using entry_parts(2) [OF e] n by simp
  then have "concat (map sent_part ((t, b) # xs)) @ take n (concat (map pending_out ((t, b) # xs))) =
      (sent_part (t, b) @ pending_out (t, b)) @
      (concat (map sent_part xs) @ take (n - PosLength b) (concat (map pending_out xs)))"
    by (simp only: list.map concat.simps nil append_Nil append_Nil2 append_assoc)
  then have "concat (map sent_part ((t, b) # xs)) @ take n (concat (map pending_out ((t, b) # xs))) =
      concat (map (wire v) (msg_of (t, b) # dn)) @ concat (map sent_part ys)"
    by (simp only: h(2) entry_parts(1) [OF e] list.map concat.simps append_assoc)
  moreover have "rx_same s s'"
    using first_byte_same(1) note_sent_same h(7) rx_same_trans by blast
  moreover have "sent_ids s' = sent_ids s @ ?new @ nw" "ll_lstsenddata s' = ll_lstsenddata s"
    using h(3,8) note_sent_same [of "first_byte t b s" t b] first_byte_same [where s = s and t = t and b = b] by simp_all
  moreover have "part_ids ((t, b) # xs) @ ?new @ nw = map msg_id (msg_of (t, b) # dn) @ part_ids ys"
    using h(4) unsent_part_ids [OF un] by (simp add: part_ids_def)
  ultimately show ?thesis
    unfolding drained_def using h(1,5,6) by (intro exI [of _ "msg_of (t, b) # dn"] exI [of _ "?new @ nw"]) simp
qed

lemma drained_part:
  assumes e: "entry_ok v (t, b)" "list_all (entry_ok v) xs" and un: "list_all unsent xs"
    and n: "0 < n" "n < PosLength b"
  shows "drained v n ((t, b) # xs) s ((t, Seek (int n) ESeekCur b) # xs) (first_byte t b s)"
proof -
  let ?new = "if ab_pos b = 0 then [taskid t] else []" and ?ys = "(t, Seek (int n) ESeekCur b) # xs"
  note a = advance_entry [OF e(1) n]
  have "take n (concat (map pending_out ((t, b) # xs))) = take n (pending_out (t, b))"
    using entry_parts(2) [OF e(1)] n(2) by simp
  then have "concat (map sent_part ((t, b) # xs)) @ take n (concat (map pending_out ((t, b) # xs))) =
      concat (map (wire v) []) @ concat (map sent_part ?ys)"
    using a(4) conjunct1 [OF unsent_parts [OF un]]
    by (simp only: list.map concat.simps append_Nil append_Nil2)
  moreover have "part_ids ((t, b) # xs) @ ?new = map msg_id [] @ part_ids ?ys"
    using a(2) unsent_part_ids [OF un] by (cases "ab_pos b = 0") (simp_all add: part_ids_def)
  ultimately show ?thesis
    unfolding drained_def using a(1,3) e(2) un first_byte_same [where s = s and t = t and b = b]
    by (intro exI [of _ "[]"] exI [of _ ?new]) (simp del: entry_ok.simps msg_of.simps)
qed

lemma drain_sent_drained:
  "list_all (entry_ok v) xs \<Longrightarrow> list_all unsent (tl xs) \<Longrightarrow> drain_sent n xs s = (ys, s') \<Longrightarrow>
   drained v n xs s ys s'"
proof (induction n xs s arbitrary: ys s' rule: drain_sent.induct)
  case (1 n s)
  then show ?case by (simp add: drained_none)
next
  case (2 n t b xs s)
  have e: "entry_ok v (t, b)" "list_all (entry_ok v) xs" and un: "list_all unsent xs"
    using "2.prems"(1,2) by simp_all
  have tl: "list_all unsent (tl xs)" using un by (cases xs) simp_all
  consider "n = 0" | "n \<noteq> 0" "PosLength b \<le> n" | "n \<noteq> 0" "n < PosLength b" by linarith
  then show ?case
  proof cases
    case 1
    then show ?thesis using "2.prems" drained_none by auto
  next
    case 2
    then have d: "drain_sent (n - PosLength b) xs (note_sent t b (first_byte t b s)) = (ys, s')"
      using "2.prems"(3) by (simp add: Let_def first_byte_def)
    show ?thesis
      using "2.IH" [OF 2(1) refl 2(2) e(2) tl d [unfolded first_byte_def]] drained_whole [OF e(1) un 2(2)]
      by (simp add: first_byte_def)
  next
    case 3
    then show ?thesis
      using "2.prems"(3) drained_part [OF e un, of n s] by (auto simp: Let_def first_byte_def)
  qed
qed

section \<open>The sending side of a run\<close>

text \<open>\<open>out\<close> is what the socket accepted so far, \<open>dn\<close> the messages sent completely, \<open>sub\<close> the
  ones submitted.\<close>

definition tx_state :: "u32 \<Rightarrow> bytes \<Rightarrow> message list \<Rightarrow> message list \<Rightarrow> rw_state \<Rightarrow> bool" where
  "tx_state v out dn sub s \<longleftrightarrow> tx_inv v s \<and>
     out = concat (map (wire v) dn) @ concat (map sent_part (ll_lstsenddata s)) \<and>
     sent_ids s = map msg_id dn @ part_ids (ll_lstsenddata s) \<and>
     subseq (dn @ map msg_of (ll_lstsenddata s)) sub"

definition tx_same :: "rw_state \<Rightarrow> rw_state \<Rightarrow> bool" where
  "tx_same s s' \<longleftrightarrow> ll_lstsenddata s' = ll_lstsenddata s \<and> sent_ids s' = sent_ids s"

lemma tx_same_state: "tx_same s s' \<Longrightarrow> tx_state v out dn sub s \<Longrightarrow> tx_state v out dn sub s'"
  by (simp add: tx_same_def tx_state_def tx_inv_def)

lemma tx_same_trans: "tx_same s s' \<Longrightarrow> tx_same s' s'' \<Longrightarrow> tx_same s s''"
  by (simp add: tx_same_def)

lemma tx_state_add:
  assumes "tx_state v out dn sub s" "tx_add v ms s s'"
  shows "tx_state v out dn (sub @ ms) s'"
proof -
  from assms(2) obtain xs where xs: "ll_events s' = ll_events s" "ll_lstsenddata s' = ll_lstsenddata s @ xs"
    "list_all (entry_ok v) xs" "list_all unsent xs" "map msg_of xs = ms" by (auto simp: tx_add_def)
  have "list_all unsent (tl xs)" using xs(4) by (cases xs) simp_all
  then have "list_all unsent (tl (ll_lstsenddata s @ xs))"
    using assms(1) xs(4) by (cases "ll_lstsenddata s") (simp_all add: tx_state_def tx_inv_def)
  moreover have "subseq ((dn @ map msg_of (ll_lstsenddata s)) @ ms) (sub @ ms)"
    using assms(1) by (intro list_emb_append_mono) (simp_all add: tx_state_def)
  ultimately show ?thesis
    using assms(1) xs unsent_parts [OF xs(4)]
    by (simp add: tx_state_def tx_inv_def sent_ids_def part_ids_def)
qed

lemma stop_unsent_keeps:
  "stop_unsent tid xs = (r, ys) \<Longrightarrow>
   concat (map sent_part ys) = concat (map sent_part xs) \<and> part_ids ys = part_ids xs \<and> subseq ys xs"
  by (induction xs arbitrary: r ys)
    (auto simp: part_ids_def split: if_splits prod.splits)

lemma subseq_list_all: "subseq ys xs \<Longrightarrow> list_all P xs \<Longrightarrow> list_all P ys"
  by (auto simp: list_all_iff elim: list_emb_set)

lemma subseq_tl_list_all: "subseq ys xs \<Longrightarrow> list_all P (tl xs) \<Longrightarrow> list_all P (tl ys)"
proof -
  assume a: "subseq ys xs" "list_all P (tl xs)"
  then have "subseq (tl ys) (tl xs)" by (cases xs; cases ys) (auto split: if_splits dest: subseq_Cons')
  then show ?thesis using a(2) by (rule subseq_list_all)
qed

lemma tx_state_stop:
  assumes "tx_state v out dn sub s"
  shows "tx_state v out dn sub (snd (LongLink_Stop tid s))"
proof -
  obtain r ys where st: "stop_unsent tid (ll_lstsenddata s) = (r, ys)" by fastforce
  note k = stop_unsent_keeps [OF st]
  have "subseq (dn @ map msg_of ys) (dn @ map msg_of (ll_lstsenddata s))"
    using k by (intro list_emb_append_mono) (simp_all add: subseq_map)
  then have "subseq (dn @ map msg_of ys) sub"
    using assms subseq_order.order_trans by (auto simp: tx_state_def)
  then show ?thesis
    using assms st k subseq_list_all subseq_tl_list_all
    by (auto simp: LongLink_Stop_def tx_state_def tx_inv_def sent_ids_def)
qed

lemma rw_send_tx:
  assumes tx: "tx_state v out dn sub s" and r: "rw_send env sel s = (RwGo, s')"
  obtains dn' where
    "tx_state v (out @ take (nat (se_writev sel)) (concat (map pending_out (ll_lstsenddata s)))) dn' sub s'"
    and "rx_same s s'"
proof -
  let ?n = "nat (se_writev sel)" and ?s1 = "emit (EvTraffic (nat (se_writev sel)) 0) (restart_interval env s)"
  have f: "ll_lstsenddata ?s1 = ll_lstsenddata s" "sent_ids ?s1 = sent_ids s" "rx_same s ?s1"
    by (simp_all add: emit_def sent_ids_def rx_same_def delivered_def)
  obtain ys s2 where d: "drain_sent ?n (ll_lstsenddata s) ?s1 = (ys, s2)" by fastforce
  have s': "s' = s2\<lparr>ll_lstsenddata := ys\<rparr>"
    using r d f(1) by (auto simp: rw_send_def Let_def split: if_splits)
  have "list_all (entry_ok v) (ll_lstsenddata s)" "list_all unsent (tl (ll_lstsenddata s))"
    using tx by (auto simp: tx_state_def tx_inv_def)
  from drain_sent_drained [OF this d] obtain dd nw where h:
    "map msg_of (ll_lstsenddata s) = dd @ map msg_of ys"
    "concat (map sent_part (ll_lstsenddata s)) @ take ?n (concat (map pending_out (ll_lstsenddata s))) =
       concat (map (wire v) dd) @ concat (map sent_part ys)"
    "sent_ids s2 = sent_ids ?s1 @ nw" "part_ids (ll_lstsenddata s) @ nw = map msg_id dd @ part_ids ys"
    "list_all (entry_ok v) ys" "list_all unsent (tl ys)" "rx_same ?s1 s2" by (auto simp: drained_def)
  have "tx_state v (out @ take ?n (concat (map pending_out (ll_lstsenddata s)))) (dn @ dd) sub s'"
    using tx h f(2) by (simp add: tx_state_def tx_inv_def s' sent_ids_def)
  moreover have "rx_same s2 s'" by (rule rx_same_frame) (simp_all add: s')
  ultimately show ?thesis using that f(3) h(7) rx_same_trans by blast
qed

lemma tx_same_refl [simp]: "tx_same s s"
  by (simp add: tx_same_def)

lemma NoopResp_tx: "NoopResp env c t b s = (r, s') \<Longrightarrow> tx_same s s'"
  by (auto simp: NoopResp_def Let_def OnIdentifyResp_def emit_def tx_same_def sent_ids_def
      split: prod.splits if_splits)

lemma recv_one_tx: "recv_one env s = Some (r, s') \<Longrightarrow> tx_same s s'"
  by (auto simp: recv_one_def Let_def put_stream_def emit_def tx_same_def sent_ids_def
      split: bind_splits prod.splits if_splits bool.splits dest!: NoopResp_tx)

lemma recv_loop_tx: "recv_loop fuel env s = Finished (verdict, s') \<Longrightarrow> tx_same s s'"
proof (induction fuel arbitrary: s)
  case 0
  then show ?case by (simp add: recv_loop.simps split: if_splits)
next
  case (Suc fuel)
  show ?case
    using Suc.prems
    by (subst (asm) recv_loop.simps)
      (auto split: if_splits option.splits recv_step.splits
        dest!: recv_one_tx Suc.IH dest: tx_same_trans)
qed

lemma rw_recv_tx: "rw_recv fuel env r s = Finished (verdict, s') \<Longrightarrow> tx_same s s'"
  by (auto simp: rw_recv_def Let_def tx_same_def emit_def sent_ids_def
      split: option.splits recv_result.splits if_splits dest!: recv_loop_tx)

section \<open>One pass\<close>

text \<open>The bytes that a pass hands to the socket when it does not end the loop, and the messages
  that an operation submits.\<close>

fun op_out :: "link_op \<Rightarrow> rw_state \<Rightarrow> bytes" where
  "op_out (OpIo env sel) s =
     (if se_writable sel \<and> ll_lstsenddata s \<noteq> []
      then take (nat (se_writev sel)) (concat (map pending_out (ll_lstsenddata s))) else [])"
| "op_out _ s = []"

fun op_submitted :: "link_op \<Rightarrow> rw_state \<Rightarrow> rw_state \<Rightarrow> message list" where
  "op_submitted (OpSend env body task) s s' =
     (if ll_connectstatus s = kConnected then [(cmdid task, taskid task, contents body)] else [])"
| "op_submitted (OpSendNoData env body cmd tid) s s' =
     (if ll_connectstatus s = kConnected \<and> ll_lstsenddata s = [] then [(cmd, tid, contents body)] else [])"
| "op_submitted (OpPrepare env) s s' = map msg_of (drop (length (ll_lstsenddata s)) (ll_lstsenddata s'))"
| "op_submitted _ s s' = []"

lemma rw_io_cases:
  obtains (ended) et ec s1 where "rw_io fuel env sel s = Finished (RwEnd et ec, s1)"
  | (passed) s1 where "rw_io fuel env sel s = rw_transfer fuel env sel s1" "rx_same s s1" "tx_same s s1"
proof -
  let ?s = "s\<lparr>ll_readwritebreak := snd (Breaker_Clear (ll_readwritebreak s))\<rparr>"
  let ?s1 = "if se_nwrite sel = 0 then ?s\<lparr>rw_nsent_datas := []\<rparr> else ?s"
  show ?thesis
  proof (cases "rw_checks sel ?s")
    case (Some e)
    then show ?thesis by (cases e) (auto simp: rw_io_def Let_def intro: ended)
  next
    case None
    have "rx_same s ?s1" by (rule rx_same_frame) simp_all
    moreover have "tx_same s ?s1" by (simp add: tx_same_def sent_ids_def)
    moreover have "rw_io fuel env sel s = rw_transfer fuel env sel ?s1" using None by (simp add: rw_io_def Let_def)
    ultimately show ?thesis using passed by blast
  qed
qed

text \<open>A pass keeps both sides: the received bytes are taken apart, the accepted ones are frames.\<close>

lemma transfer_send:
  assumes "tx_state v out dn sub s"
  obtains (ended) et ec s1 where "rw_transfer fuel env sel s = Finished (RwEnd et ec, s1)"
  | (went) dn' s1 where "rw_transfer fuel env sel s =
        (if se_readable sel then rw_recv fuel env (se_recv sel) s1 else Finished (RwGo, s1))"
      and "rx_same s s1" and "tx_state v (out @ op_out (OpIo env sel) s) dn' sub s1"
proof (cases "se_writable sel \<and> ll_lstsenddata s \<noteq> []")
  case False
  then show ?thesis using assms by (intro went [of s dn]) (auto simp: rw_transfer_def)
next
  case True
  obtain r s1 where r: "rw_send env sel s = (r, s1)" by fastforce
  show ?thesis
  proof (cases r)
    case (RwEnd et ec)
    then show ?thesis using True r by (intro ended) (simp add: rw_transfer_def)
  next
    case RwGo
    obtain dn' where "tx_state v (out @ take (nat (se_writev sel)) (concat (map pending_out (ll_lstsenddata s))))
        dn' sub s1" "rx_same s s1"
      by (rule rw_send_tx [OF assms r [unfolded RwGo]])
    then show ?thesis using True r RwGo by (intro went [of s1 dn']) (auto simp: rw_transfer_def)
  qed
qed

definition link_state ::
    "u32 \<Rightarrow> message list \<Rightarrow> message list \<Rightarrow> bytes \<Rightarrow> message list \<Rightarrow> message list \<Rightarrow> rw_state \<Rightarrow> bool" where
  "link_state v ms1 ms2 out dn sub s \<longleftrightarrow> rx_state v ms1 ms2 s \<and> tx_state v out dn sub s"

lemma io_step:
  assumes st: "link_state v ms1 ms2 out dn sub s" and ok: "env_ok v env" "recv_ok (se_recv sel)"
    and p: "prefix (pending_in s @ op_in (OpIo env sel)) (concat (map (wire v) ms2))"
    and f: "recv_fuel \<le> fuel"
  obtains verdict s' where "rw_io fuel env sel s = Finished (verdict, s')"
    and "verdict = RwGo \<longrightarrow> (\<exists>ms ms3 dn'. ms2 = ms @ ms3 \<and>
           link_state v (ms1 @ ms) ms3 (out @ op_out (OpIo env sel) s) dn' sub s' \<and>
           pending_in s @ op_in (OpIo env sel) = concat (map (wire v) ms) @ pending_in s')"
proof (cases rule: rw_io_cases [of fuel env sel s])
  case (ended et ec s1)
  then show ?thesis by (intro that [of "RwEnd et ec" s1]) auto
next
  case (passed s1)
  have rx1: "rx_state v ms1 ms2 s1" and tx1: "tx_state v out dn sub s1"
    using st rx_same_state [OF passed(2)] tx_same_state [OF passed(3)] by (auto simp: link_state_def)
  have out: "op_out (OpIo env sel) s1 = op_out (OpIo env sel) s" using passed(3) by (simp add: tx_same_def)
  show ?thesis
  proof (cases rule: transfer_send [OF tx1, of fuel env sel])
    case (1 et ec s2)
    then show ?thesis using passed(1) by (intro that [of "RwEnd et ec" s2]) auto
  next
    case (2 dn' s2)
    have rx2: "rx_state v ms1 ms2 s2" by (rule rx_same_state [OF 2(2) rx1])
    have pend: "pending_in s2 = pending_in s" using 2(2) passed(2) by (simp add: rx_same_def)
    show ?thesis
    proof (cases "se_readable sel")
      case False
      have "link_state v (ms1 @ []) ms2 (out @ op_out (OpIo env sel) s) dn' sub s2"
        using rx2 2(3) unfolding out link_state_def by simp
      moreover have "rw_io fuel env sel s = Finished (RwGo, s2)" using False passed(1) 2(1) by simp
      moreover have "pending_in s @ op_in (OpIo env sel) = concat (map (wire v) []) @ pending_in s2"
        using False pend by simp
      ultimately show ?thesis using that append_Nil by blast
    next
      case True
      have "prefix (pending_in s2 @ recv_bytes (se_recv sel)) (concat (map (wire v) ms2))"
        using p pend True by simp
      then obtain verdict s' where r: "rw_recv fuel env (se_recv sel) s2 = Finished (verdict, s')"
        "verdict = RwGo \<longrightarrow> (\<exists>ms ms3. ms2 = ms @ ms3 \<and> rx_state v (ms1 @ ms) ms3 s' \<and>
           pending_in s2 @ recv_bytes (se_recv sel) = concat (map (wire v) ms) @ pending_in s')"
        by (rule rw_recv_frames [OF rx2 ok(1,2) _ f])
      have tx: "tx_state v (out @ op_out (OpIo env sel) s) dn' sub s'"
        using tx_same_state [OF rw_recv_tx [OF r(1)]] 2(3) out by simp
      have "rw_io fuel env sel s = Finished (verdict, s')" using passed(1) 2(1) r(1) True by simp
      moreover have op: "op_in (OpIo env sel) = recv_bytes (se_recv sel)" using True by simp
      ultimately show ?thesis
        using r(2) tx by (intro that) (assumption, unfold op link_state_def pend, blast)
    qed
  qed
qed

section \<open>Every operation\<close>

lemma tx_add_submitted:
  "tx_add v ms s s' \<Longrightarrow> op_submitted (OpPrepare env) s s' = ms"
  by (auto simp: tx_add_def)

lemma quiet_same:
  "rx_same s (snd (LongLink_Disconnect env scene s))" "tx_same s (snd (LongLink_Disconnect env scene s))"
  "rx_same s (RunPosted_link s)" "tx_same s (RunPosted_link s)"
  "rx_same s (LL_OnAlarm env s)" "tx_same s (LL_OnAlarm env s)"
  "rx_same s (snd (LongLink_Stop tid s))"
  by (auto simp: LongLink_Disconnect_def RunPosted_link_def LL_OnAlarm_def LongLink_Stop_def Let_def
      rx_same_def tx_same_def delivered_def sent_ids_def emit_def split: prod.splits list.splits link_post.splits)

lemma alarm_same:
  "rx_same s (case p of (fired, a) \<Rightarrow> let s1 = s\<lparr>rw_interval := a\<rparr> in if fired then LL_OnAlarm env s1 else s1)"
  "tx_same s (case p of (fired, a) \<Rightarrow> let s1 = s\<lparr>rw_interval := a\<rparr> in if fired then LL_OnAlarm env s1 else s1)"
  "rx_same s (case p of (fired, a) \<Rightarrow> let s1 = s\<lparr>rw_timeout := a\<rparr> in if fired then LL_OnAlarm env s1 else s1)"
  "tx_same s (case p of (fired, a) \<Rightarrow> let s1 = s\<lparr>rw_timeout := a\<rparr> in if fired then LL_OnAlarm env s1 else s1)"
  by (auto simp: LL_OnAlarm_def rx_same_def tx_same_def delivered_def sent_ids_def Let_def split: prod.splits)

definition quiet :: "link_op \<Rightarrow> bool" where
  "quiet op \<longleftrightarrow> (case op of OpDisconnect _ _ \<Rightarrow> True | OpIntervalAlarm _ _ \<Rightarrow> True
     | OpTimeoutAlarm _ _ \<Rightarrow> True | OpPosted \<Rightarrow> True | _ \<Rightarrow> False)"

lemma quiet_step:
  assumes "quiet op"
  obtains s' where "rw_step fuel op s = Finished (RwGo, s')" and "rx_same s s'" and "tx_same s s'"
    and "op_submitted op s s' = []"
  using assms quiet_same alarm_same
  by (cases op) (auto simp: quiet_def)

text \<open>The calls that do not read the socket: the receiving side is untouched and the sending side
  keeps its state.\<close>

lemma call_step:
  assumes ok: "op_ok v op" and io: "\<And>env sel. op \<noteq> OpIo env sel"
  obtains verdict s' where "rw_step fuel op s = Finished (verdict, s')" and "rx_same s s'"
    and "\<And>out dn sub. tx_state v out dn sub s \<Longrightarrow> tx_state v out dn (sub @ op_submitted op s s') s'"
proof (cases "quiet op")
  case True
  obtain s' where "rw_step fuel op s = Finished (RwGo, s')" "rx_same s s'" "tx_same s s'"
    "op_submitted op s s' = []" by (rule quiet_step [OF True])
  then show ?thesis using tx_same_state by (intro that [of RwGo s']) auto
next
  case False
  show ?thesis
  proof (cases op)
    case (OpSend env body task)
    obtain r s' where "LongLink_Send env body task s = Some (r, s')" "rx_same s s'"
      "tx_add v (if ll_connectstatus s = kConnected then [(cmdid task, taskid task, contents body)] else []) s s'"
      using Send_step ok OpSend by (metis op_ok.simps(1))
    then show ?thesis using OpSend tx_state_add by (intro that [of RwGo s']) (auto simp: from_call_def)
  next
    case (OpSendNoData env body cmd tid)
    obtain r s' where "SendWhenNoData env body cmd tid s = Some (r, s')" "rx_same s s'"
      "tx_add v (if ll_connectstatus s = kConnected \<and> ll_lstsenddata s = [] then [(cmd, tid, contents body)] else []) s s'"
      using NoData_step ok OpSendNoData by (metis op_ok.simps(2))
    then show ?thesis using OpSendNoData tx_state_add by (intro that [of RwGo s']) (auto simp: from_call_def)
  next
    case (OpPrepare env)
    obtain verdict s' ms where p: "rw_prepare env s = Some (verdict, s')" "rx_same s s'" "tx_add v ms s s'"
      using prepare_step ok OpPrepare by (metis op_ok.simps(8))
    then show ?thesis
      using OpPrepare tx_state_add [OF _ p(3)] tx_add_submitted [OF p(3)] by (intro that [of verdict s']) auto
  next
    case (OpStop tid)
    then show ?thesis using quiet_same(7) tx_state_stop by (intro that [of RwGo "snd (LongLink_Stop tid s)"]) auto
  qed (use False io in \<open>simp_all add: quiet_def\<close>)
qed

section \<open>Runs\<close>

fun run_out :: "nat \<Rightarrow> link_op list \<Rightarrow> rw_state \<Rightarrow> bytes" where
  "run_out fuel [] s = []"
| "run_out fuel (op # ops) s =
     (case rw_step fuel op s of Finished (RwGo, s1) \<Rightarrow> op_out op s @ run_out fuel ops s1 | _ \<Rightarrow> [])"

fun run_submitted :: "nat \<Rightarrow> link_op list \<Rightarrow> rw_state \<Rightarrow> message list" where
  "run_submitted fuel [] s = []"
| "run_submitted fuel (op # ops) s =
     (case rw_step fuel op s of
        Finished (RwGo, s1) \<Rightarrow> op_submitted op s s1 @ run_submitted fuel ops s1 | _ \<Rightarrow> [])"

lemma step_tx:
  assumes "rw_step fuel op s = Finished (RwGo, s')" "tx_state v out dn sub s" "op_ok v op"
  obtains dn' where "tx_state v (out @ op_out op s) dn' (sub @ op_submitted op s s') s'"
proof (cases "\<exists>env sel. op = OpIo env sel")
  case False
  obtain verdict s1 where "rw_step fuel op s = Finished (verdict, s1)"
    "\<And>out dn sub. tx_state v out dn sub s \<Longrightarrow> tx_state v out dn (sub @ op_submitted op s s1) s1"
    using call_step [OF assms(3)] False by metis
  moreover have "op_out op s = []" using False by (cases op) auto
  ultimately show ?thesis using that assms by auto
next
  case True
  then obtain env sel where op: "op = OpIo env sel" by blast
  have io: "rw_io fuel env sel s = Finished (RwGo, s')" using assms(1) op by simp
  show ?thesis
  proof (cases rule: rw_io_cases [of fuel env sel s])
    case (passed s1)
    have tx1: "tx_state v out dn sub s1" by (rule tx_same_state [OF passed(3) assms(2)])
    have out: "op_out op s1 = op_out op s" using passed(3) op by (simp add: tx_same_def)
    show ?thesis
    proof (cases rule: transfer_send [OF tx1, of fuel env sel])
      case (2 dn' s2)
      have "tx_same s2 s'"
        using 2(1) io passed(1) rw_recv_tx by (auto split: if_splits)
      then have "tx_state v (out @ op_out op s) dn' sub s'"
        using tx_same_state [OF _ 2(3)] out by (simp only: op)
      then show ?thesis using that op by simp
    qed (use io passed(1) in simp)
  qed (use io in simp)
qed

lemma run_tx:
  assumes "rw_run fuel ops s = Finished (RwGo, s')" "tx_state v out dn sub s" "list_all (op_ok v) ops"
  obtains dn' where "tx_state v (out @ run_out fuel ops s) dn' (sub @ run_submitted fuel ops s) s'"
  using assms
proof (induction ops arbitrary: s out dn sub thesis)
  case Nil
  then show ?case by auto
next
  case (Cons op ops)
  obtain s1 where s1: "rw_step fuel op s = Finished (RwGo, s1)" "rw_run fuel ops s1 = Finished (RwGo, s')"
    using Cons.prems(2) by (auto split: exec.splits rw_verdict.splits)
  obtain dn1 where "tx_state v (out @ op_out op s) dn1 (sub @ op_submitted op s s1) s1"
    using step_tx [OF s1(1) Cons.prems(3)] Cons.prems(4) by auto
  from Cons.IH [OF _ s1(2) this] Cons.prems(1,4) s1(1) show ?case by auto
qed

lemma step_rx:
  assumes st: "link_state v ms1 ms2 out dn sub s" and ok: "op_ok v op" and f: "recv_fuel \<le> fuel"
    and p: "prefix (pending_in s @ op_in op) (concat (map (wire v) ms2))"
  obtains verdict s1 where "rw_step fuel op s = Finished (verdict, s1)"
    and "verdict = RwGo \<longrightarrow> (\<exists>ms ms3 out' dn' sub'. ms2 = ms @ ms3 \<and>
       link_state v (ms1 @ ms) ms3 out' dn' sub' s1 \<and>
       pending_in s @ op_in op = concat (map (wire v) ms) @ pending_in s1)"
proof (cases "\<exists>env sel. op = OpIo env sel")
  case True
  then obtain env sel where op: "op = OpIo env sel" by blast
  from io_step [OF st _ _ p [unfolded op] f] ok op show ?thesis
    using that by (metis op_ok.simps(9) rw_step.simps(9))
next
  case False
  obtain verdict s1 where s1: "rw_step fuel op s = Finished (verdict, s1)" "rx_same s s1"
    "\<And>out dn sub. tx_state v out dn sub s \<Longrightarrow> tx_state v out dn (sub @ op_submitted op s s1) s1"
    using call_step [OF ok] False by metis
  have "link_state v (ms1 @ []) ms2 out dn (sub @ op_submitted op s s1) s1"
    using st rx_same_state [OF s1(2)] s1(3) by (simp add: link_state_def)
  moreover have "pending_in s @ op_in op = concat (map (wire v) []) @ pending_in s1"
    using False s1(2) by (cases op) (auto simp: rx_same_def)
  ultimately show ?thesis using that [OF s1(1)] append_Nil by blast
qed

definition rx_after ::
    "u32 \<Rightarrow> rw_state \<Rightarrow> bytes \<Rightarrow> message list \<Rightarrow> message list \<Rightarrow> rw_state \<Rightarrow> bool" where
  "rx_after v s bs ms1 ms2 s' \<longleftrightarrow> (\<exists>ms ms3. ms2 = ms @ ms3 \<and> rx_state v (ms1 @ ms) ms3 s' \<and>
     pending_in s @ bs = concat (map (wire v) ms) @ pending_in s')"

lemma rx_after_start: "rx_state v ms1 ms2 s \<Longrightarrow> rx_after v s [] ms1 ms2 s"
  unfolding rx_after_def by (intro exI [of _ "[]"] exI [of _ ms2]) simp

lemma rx_after_trans:
  assumes "pending_in s @ bs = concat (map (wire v) ms) @ pending_in s1"
    and "rx_after v s1 bs' (ms1 @ ms) ms3 s'"
  shows "rx_after v s (bs @ bs') ms1 (ms @ ms3) s'"
proof -
  obtain ms' ms4 where m: "ms3 = ms' @ ms4" "rx_state v ((ms1 @ ms) @ ms') ms4 s'"
    "pending_in s1 @ bs' = concat (map (wire v) ms') @ pending_in s'"
    using assms(2) by (auto simp: rx_after_def)
  have "pending_in s @ bs @ bs' = concat (map (wire v) (ms @ ms')) @ pending_in s'"
    using assms(1) m(3) by (metis append_assoc concat_append map_append)
  then show ?thesis
    unfolding rx_after_def using m(1,2) by (intro exI [of _ "ms @ ms'"] exI [of _ ms4]) simp
qed

lemma run_rx:
  assumes "link_state v ms1 ms2 out dn sub s" "list_all (op_ok v) ops" "recv_fuel \<le> fuel"
    and "prefix (pending_in s @ concat (map op_in ops)) (concat (map (wire v) ms2))"
  shows "\<exists>verdict s'. rw_run fuel ops s = Finished (verdict, s') \<and>
     (verdict = RwGo \<longrightarrow> rx_after v s (concat (map op_in ops)) ms1 ms2 s')"
  using assms
proof (induction ops arbitrary: s ms1 ms2 out dn sub)
  case Nil
  then show ?case by (simp add: rx_after_start link_state_def)
next
  case (Cons op ops)
  have ok: "op_ok v op" "list_all (op_ok v) ops" using Cons.prems(2) by simp_all
  have px: "prefix (pending_in s @ op_in op) (concat (map (wire v) ms2))"
    using Cons.prems(4) by (auto simp: prefix_def)
  obtain verdict s1 where s1: "rw_step fuel op s = Finished (verdict, s1)"
    "verdict = RwGo \<longrightarrow> (\<exists>ms ms3 out' dn' sub'. ms2 = ms @ ms3 \<and>
       link_state v (ms1 @ ms) ms3 out' dn' sub' s1 \<and>
       pending_in s @ op_in op = concat (map (wire v) ms) @ pending_in s1)"
    by (rule step_rx [OF Cons.prems(1) ok(1) Cons.prems(3) px])
  show ?case
  proof (cases verdict)
    case (RwEnd et ec)
    then show ?thesis using s1(1) by simp
  next
    case RwGo
    then obtain ms ms3 out' dn' sub' where m: "ms2 = ms @ ms3" "link_state v (ms1 @ ms) ms3 out' dn' sub' s1"
      "pending_in s @ op_in op = concat (map (wire v) ms) @ pending_in s1" using s1(2) by blast
    have "prefix (concat (map (wire v) ms) @ pending_in s1 @ concat (map op_in ops)) (concat (map (wire v) ms2))"
      using Cons.prems(4) m(3) by (metis append_assoc concat.simps(2) list.map(2))
    then have "prefix (pending_in s1 @ concat (map op_in ops)) (concat (map (wire v) ms3))"
      using m(1) by simp
    from Cons.IH [OF m(2) ok(2) Cons.prems(3) this] show ?thesis
      using s1(1) RwGo m(1) rx_after_trans [OF m(3)] by auto
  qed
qed

section \<open>Properties\<close>

text \<open>A link whose loop begins: nothing queued, nothing handed over, no identify check under way.\<close>

definition fresh_link :: "LongLink \<Rightarrow> bool" where
  "fresh_link ll \<longleftrightarrow> ll_lstsenddata ll = [] \<and> delivered ll = [] \<and> sent_ids ll = [] \<and>
     ic_taskid (ll_identifychecker ll) = 0"

lemma enter_frame [simp]:
  "ll_lstsenddata (enter_ReadWrite p ll) = ll_lstsenddata ll"
  "ll_events (enter_ReadWrite p ll) = ll_events ll"
  "ll_identifychecker (enter_ReadWrite p ll) = ll_identifychecker ll"
  "rw_bufrecv (enter_ReadWrite p ll) = AutoBuffer_new 128" "rw_sent_taskids (enter_ReadWrite p ll) = []"
  by (simp_all add: enter_ReadWrite_def LongLink.defs rw_state.defs)

lemma fresh_state:
  assumes "fresh_link ll" "list_all regular ms"
  shows "link_state v [] ms [] [] [] (enter_ReadWrite p ll)"
proof -
  have "next_part v [] ms" by (cases ms) (simp_all add: strict_prefix_def not_sym [OF wire_nonempty])
  moreover have "wf_buffer (AutoBuffer_new 128)" by (rule wf_AutoBuffer_new) simp
  ultimately show ?thesis
    using assms
    by (simp add: link_state_def rx_state_def rx_inv_def tx_state_def tx_inv_def fresh_link_def
        streams_empty_def delivered_def sent_ids_def part_ids_def) (simp add: AutoBuffer_new_def)
qed

text \<open>C6. The long link takes the byte stream apart independently of how the network cuts it.
  Whatever calls of other threads, alarms and heartbeats are interleaved with the passes of the
  loop, and wherever the chunks that \<open>recv\<close> returns begin and end: the run touches no memory
  outside its buffers and its inner loop ends, and while the link is up, the bytes received are
  complete frames, each handed to \<open>OnResponse\<close> exactly once, in order and with its own body
  (heartbeats are consumed), followed by a beginning of the next frame, which waits in the
  buffer.\<close>

theorem link_receives_stream:
  assumes "fresh_link ll" "list_all regular ms" "list_all (op_ok v) ops" "recv_fuel \<le> fuel"
    and "prefix (concat (map op_in ops)) (concat (map (wire v) ms))"
  shows "\<exists>verdict s. rw_run fuel ops (enter_ReadWrite p ll) = Finished (verdict, s) \<and>
     (verdict = RwGo \<longrightarrow> (\<exists>ms1 ms2. ms = ms1 @ ms2 \<and>
        concat (map op_in ops) = concat (map (wire v) ms1) @ pending_in s \<and>
        next_part v (pending_in s) ms2 \<and> delivered s = filter (\<lambda>m. \<not> is_noop m) ms1))"
proof -
  have nil: "pending_in (enter_ReadWrite p ll) = []" by simp
  have "prefix (pending_in (enter_ReadWrite p ll) @ concat (map op_in ops)) (concat (map (wire v) ms))"
    using assms(5) by (simp add: nil)
  from run_rx [OF fresh_state [OF assms(1,2)] assms(3,4) this]
  show ?thesis by (auto simp: rx_after_def rx_state_def nil)
qed

text \<open>C7. What the long link puts on the socket is a sequence of whole frames: whatever the amounts
  that \<open>writev\<close> accepts and whatever calls are interleaved, the accepted bytes are the frames
  of messages \<open>dn\<close> followed by a beginning of the frame at the head of the send list; the
  messages are a subsequence of the submitted ones (those that were stopped in time are missing),
  and \<open>OnSend\<close> was called, in order, for exactly those whose first byte is out.\<close>

theorem link_sends_frames:
  assumes "fresh_link ll" "list_all (op_ok v) ops"
    and "rw_run fuel ops (enter_ReadWrite p ll) = Finished (RwGo, s)"
  shows "\<exists>dn. run_out fuel ops (enter_ReadWrite p ll) =
       concat (map (wire v) dn) @ concat (map sent_part (take 1 (ll_lstsenddata s))) \<and>
     subseq (dn @ map msg_of (ll_lstsenddata s)) (run_submitted fuel ops (enter_ReadWrite p ll)) \<and>
     sent_ids s = map msg_id dn @ part_ids (take 1 (ll_lstsenddata s))"
proof -
  have "tx_state v [] [] [] (enter_ReadWrite p ll)"
    using fresh_state [OF assms(1), of "[]"] by (simp add: link_state_def)
  from run_tx [OF assms(3) this assms(2)] obtain dn where
    tx: "tx_state v (run_out fuel ops (enter_ReadWrite p ll)) dn (run_submitted fuel ops (enter_ReadWrite p ll)) s"
    by auto
  let ?l = "ll_lstsenddata s"
  have "list_all unsent (tl ?l)" using tx by (simp add: tx_state_def tx_inv_def)
  then have "concat (map sent_part ?l) = concat (map sent_part (take 1 ?l))" "part_ids ?l = part_ids (take 1 ?l)"
    using unsent_parts [of "tl ?l"] by (cases ?l; simp add: part_ids_def)+
  then show ?thesis using tx by (auto simp: tx_state_def)
qed

text \<open>Two connected links: what one has sent is what the other receives.\<close>

lemma concat_wire_short:
  assumes "concat (map (wire v) ms2) = q" "next_part v q ms2"
  shows "ms2 = []"
proof (cases ms2)
  case (Cons m ms)
  then have "length q < length (wire v m)" "length (wire v m) \<le> length q"
    using assms by (auto dest: prefix_length_less)
  then show ?thesis by simp
qed

text \<open>C5. The pair of a sending and a receiving link is a first-in first-out channel. When the send
  list of the first has drained and the second has received what the first put on the socket, in
  chunks of any size, then the second has handed over, in order and unchanged, exactly the
  messages for which the first called \<open>OnSend\<close> (heartbeats aside), and these are a subsequence
  of the ones submitted to the first.\<close>

theorem link_to_link:
  assumes a: "fresh_link a" "list_all (op_ok v) ops_a"
      "rw_run fuel ops_a (enter_ReadWrite pa a) = Finished (RwGo, sa)" "ll_lstsenddata sa = []"
      "list_all regular (run_submitted fuel ops_a (enter_ReadWrite pa a))"
    and b: "fresh_link b" "list_all (op_ok v) ops_b" "recv_fuel \<le> fuel"
      "rw_run fuel ops_b (enter_ReadWrite pb b) = Finished (RwGo, sb)"
    and net: "concat (map op_in ops_b) = run_out fuel ops_a (enter_ReadWrite pa a)"
  shows "\<exists>dn. subseq dn (run_submitted fuel ops_a (enter_ReadWrite pa a)) \<and>
     sent_ids sa = map msg_id dn \<and> delivered sb = filter (\<lambda>m. \<not> is_noop m) dn"
proof -
  have "tx_state v [] [] [] (enter_ReadWrite pa a)"
    using fresh_state [OF a(1), of "[]"] by (simp add: link_state_def)
  from run_tx [OF a(3) this a(2)] obtain dn where dn: "run_out fuel ops_a (enter_ReadWrite pa a) = concat (map (wire v) dn)"
    "subseq dn (run_submitted fuel ops_a (enter_ReadWrite pa a))" "sent_ids sa = map msg_id dn"
    using a(4) by (auto simp: tx_state_def part_ids_def)
  have reg: "list_all regular dn" by (rule subseq_list_all [OF dn(2) a(5)])
  have nil: "pending_in (enter_ReadWrite pb b) = []" by simp
  have "prefix (pending_in (enter_ReadWrite pb b) @ concat (map op_in ops_b)) (concat (map (wire v) dn))"
    by (simp add: nil net dn(1))
  from run_rx [OF fresh_state [OF b(1) reg] b(2,3) this] b(4)
  obtain ms1 ms2 where m: "dn = ms1 @ ms2" "rx_state v ms1 ms2 sb"
    "concat (map op_in ops_b) = concat (map (wire v) ms1) @ pending_in sb"
    by (auto simp: rx_after_def nil)
  have "concat (map (wire v) ms2) = pending_in sb" using m(1,3) net dn(1) by simp
  then have "ms2 = []" by (rule concat_wire_short) (use m(2) in \<open>simp add: rx_state_def\<close>)
  then show ?thesis using dn(2,3) m(1,2) by (auto simp: rx_state_def)
qed

section \<open>Instances\<close>

definition sample_link_env :: link_env where
  "sample_link_env = \<lparr>le_alarm = \<lparr>ae_now = 1000, ae_post_ok = True, ae_android = False,
       ae_startAlarm = True, ae_stopAlarm = True\<rparr>,
     le_heart = sample_heart_env, le_ok = alloc_all, le_version = 200, le_noop_interval = 0,
     le_break_ok = True, le_identify = (kCheckNever, AutoBuffer_new 128, AutoBuffer_new 128, 0),
     le_identify_resp = (\<lambda>_ _. True)\<rparr>"

definition sample_link :: LongLink where
  "sample_link = \<lparr>ll_connectstatus = kConnected, ll_conn_profile = link_profile_new,
     ll_disconnectinternalcode = kNone, ll_identifychecker = IdentifyChecker_new, ll_lstsenddata = [],
     ll_lastrecvtime = 0, ll_smartheartbeat = None, ll_readwritebreak = SocketBreaker_new True,
     ll_connectbreak = SocketBreaker_new True, ll_thread = True, ll_tracker = True, ll_sg_seq = 1,
     ll_posts = [], ll_events = []\<rparr>"

definition sample_sel :: "bytes \<Rightarrow> int \<Rightarrow> sel_result" where
  "sample_sel d n = \<lparr>se_ret = 1, se_errno = 0, se_socket_errno = 0, se_breaker_err = False,
     se_sock_err = None, se_nwrite = 0, se_writable = (0 < n), se_writev = n, se_send_again = False,
     se_send_error = 0, se_readable = (d \<noteq> []), se_recv = RecvData d\<rparr>"

definition sample_task :: Task where
  "sample_task = (Task_new 7)\<lparr>cmdid := 12\<rparr>"

abbreviation sample_start :: rw_state where
  "sample_start \<equiv> enter_ReadWrite link_profile_new sample_link"

abbreviation sample_wire :: bytes where
  "sample_wire \<equiv> wire 200 (12, 7, [104, 105])"

definition sample_sends :: "link_op list" where
  "sample_sends = [OpSend sample_link_env sample_body sample_task, OpIo sample_link_env (sample_sel [] 22)]"

definition sample_reads :: "link_op list" where
  "sample_reads = [OpIo sample_link_env (sample_sel sample_wire 0)]"

lemma sample_env_ok: "env_ok 200 sample_link_env" "identify_ok sample_link_env"
  using body_ok_new by (simp_all add: env_ok_def identify_ok_def sample_link_env_def)

lemma sample_fresh: "fresh_link sample_link"
  by (simp add: fresh_link_def sample_link_def delivered_def sent_ids_def IdentifyChecker_new_def)

lemma sample_body_ok: "body_ok sample_body" "contents sample_body = [104, 105]"
  by (simp_all add: body_ok_def sample_body_def wf_buffer_def block_def contents_def)

lemma sample_length: "length sample_wire = 22"
  by (simp add: header_size_def)

lemma sample_ops_ok: "list_all (op_ok 200) sample_sends" "list_all (op_ok 200) sample_reads"
  using sample_env_ok sample_body_ok sample_length
  by (simp_all add: sample_sends_def sample_reads_def sample_sel_def)

lemma sample_runs:
  obtains s where "rw_run fuel sample_sends sample_start = Finished (RwGo, s)" and "ll_lstsenddata s = []"
    and "run_out fuel sample_sends sample_start = sample_wire"
    and "run_submitted fuel sample_sends sample_start = [(12, 7, [104, 105])]"
proof -
  obtain b where b: "longlink_pack (le_ok sample_link_env) (le_version sample_link_env) 12 7 sample_body
      (AutoBuffer_new 128) = Some b" "wf_buffer b" "contents b = wire 200 (12, 7, contents sample_body)" "ab_pos b = 0"
    by (rule pack_ok [OF sample_env_ok(1) sample_body_ok(1)])
  let ?b = "Seek 0 ESeekStart b"
  let ?s1 = "sample_start\<lparr>ll_lstsenddata := [(sample_task, ?b)],
      ll_readwritebreak := snd (Breaker_Break True (ll_readwritebreak sample_start))\<rparr>"
  have t: "cmdid sample_task = 12" "taskid sample_task = 7" by (simp_all add: sample_task_def Task_new_def)
  have start: "ll_connectstatus sample_start = kConnected" "ll_disconnectinternalcode sample_start = kNone"
    "rw_nooping sample_start = False"
    by (simp_all add: sample_link_def enter_ReadWrite_def LongLink.defs rw_state.defs)
  have lst: "ll_lstsenddata sample_start = []" by (simp add: sample_link_def)
  have "LongLink_Send sample_link_env sample_body sample_task sample_start = Some (True, ?s1)"
    using b(1) start(1) lst t by (simp add: LongLink_Send_def sample_link_env_def)
  then have one: "rw_step fuel (OpSend sample_link_env sample_body sample_task) sample_start = Finished (RwGo, ?s1)"
    by (simp add: from_call_def)
  have c: "contents b = wire 200 (cmdid sample_task, taskid sample_task, [104, 105])"
    by (simp only: b(3) sample_body_ok(2) t)
  have e: "entry_ok 200 (sample_task, ?b)"
    by (rule conjunct1 [OF entry_pack [OF b(2) c b(4)]]) simp
  have len: "PosLength ?b = 22" "pending_out (sample_task, ?b) = sample_wire"
  proof -
    have p: "ab_pos ?b = 0" "contents ?b = contents b" by (simp_all add: Seek_def contents_def block_def)
    show out: "pending_out (sample_task, ?b) = sample_wire"
      by (simp only: pending_out.simps p c t nat_zero_as_int [symmetric] drop0)
    show "PosLength ?b = 22" using entry_parts(2) [OF e] sample_length by (simp only: out)
  qed
  let ?s2 = "?s1\<lparr>ll_readwritebreak := snd (Breaker_Clear (ll_readwritebreak ?s1)), rw_nsent_datas := []\<rparr>"
  have "rw_io fuel sample_link_env (sample_sel [] 22) ?s1 = rw_transfer fuel sample_link_env (sample_sel [] 22) ?s2"
    using start by (simp add: rw_io_def Let_def rw_checks_def sample_sel_def)
  then obtain s where two: "rw_step fuel (OpIo sample_link_env (sample_sel [] 22)) ?s1 = Finished (RwGo, s)"
    "ll_lstsenddata s = []"
    using len(1) by (simp add: rw_transfer_def rw_send_def sample_sel_def Let_def emit_def)
  have "op_out (OpIo sample_link_env (sample_sel [] 22)) ?s1 = sample_wire"
    using len sample_length by (simp add: sample_sel_def del: wire.simps pending_out.simps)
  then show ?thesis
    using that one two start(1) t sample_body_ok(2) by (simp add: sample_sends_def)
qed


theorem link_sends_frames_witness:
  "\<exists>s dn. rw_run 0 sample_sends sample_start = Finished (RwGo, s) \<and> run_out 0 sample_sends sample_start = sample_wire \<and>
     sample_wire = concat (map (wire 200) dn) \<and> subseq dn [(12, 7, [104, 105])] \<and> sent_ids s = map msg_id dn"
proof -
  obtain s where s: "rw_run 0 sample_sends sample_start = Finished (RwGo, s)" "ll_lstsenddata s = []"
    "run_out 0 sample_sends sample_start = sample_wire"
    "run_submitted 0 sample_sends sample_start = [(12, 7, [104, 105])]" by (rule sample_runs)
  from link_sends_frames [OF sample_fresh sample_ops_ok(1) s(1)]
  show ?thesis using s by (simp del: wire.simps add: part_ids_def)
qed

lemma sample_read_io:
  assumes "d \<noteq> []" "ll_disconnectinternalcode s = kNone" "\<not> rw_nooping s"
  shows "rw_io fuel env (sample_sel d 0) s = rw_recv fuel env (RecvData d)
     (s\<lparr>ll_readwritebreak := snd (Breaker_Clear (ll_readwritebreak s)), rw_nsent_datas := []\<rparr>)"
  using assms by (simp add: rw_io_def rw_checks_def rw_transfer_def sample_sel_def Let_def)

lemma sample_reads_run:
  obtains s where "rw_run recv_fuel sample_reads sample_start = Finished (RwGo, s)"
proof -
  let ?s = "sample_start\<lparr>ll_readwritebreak := snd (Breaker_Clear (ll_readwritebreak sample_start)), rw_nsent_datas := []\<rparr>"
  have reg: "list_all regular [(12, 7, [104, 105])]"
    by (simp add: header_size_def kLongLinkIdentifyCheckerTaskID_def NOOP_CMDID_def)
  have "rx_state 200 [] [(12, 7, [104, 105])] sample_start"
    using fresh_state [OF sample_fresh reg] by (simp add: link_state_def)
  then have rx: "rx_state 200 [] [(12, 7, [104, 105])] ?s"
    by (rule rx_same_state [OF rx_same_frame, rotated -1]) simp_all
  have nil: "pending_in ?s = []" by simp
  have len: "length sample_wire \<le> 64 * 1024" using sample_length by simp
  have px: "prefix (pending_in ?s @ sample_wire) (concat (map (wire 200) [(12, 7, [104, 105])]))"
    by (simp only: nil) simp
  from rx_append [OF rx sample_env_ok(1) len px order.refl]
  obtain b1 s' where a: "recv_into sample_link_env sample_wire (rw_bufrecv ?s) = Some b1"
    "recv_loop recv_fuel sample_link_env (emit (EvTraffic 0 (length sample_wire)) (?s\<lparr>rw_bufrecv :=
       Length_set (ab_pos b1 + int (length sample_wire)) (ab_length b1 + length sample_wire) b1\<rparr>)) =
       Finished (RwGo, s')" by blast
  have "rw_recv recv_fuel sample_link_env (RecvData sample_wire) ?s = Finished (RwGo, s')"
    using a by (simp add: rw_recv_def Let_def del: wire.simps)
  moreover have "rw_io recv_fuel sample_link_env (sample_sel sample_wire 0) sample_start =
      rw_recv recv_fuel sample_link_env (RecvData sample_wire) ?s"
    by (rule sample_read_io [OF wire_nonempty])
      (simp_all add: sample_link_def enter_ReadWrite_def LongLink.defs rw_state.defs)
  ultimately show ?thesis using that by (simp add: sample_reads_def del: wire.simps)
qed

theorem link_receives_stream_witness:
  "\<exists>s ms1 ms2. rw_run recv_fuel sample_reads sample_start = Finished (RwGo, s) \<and>
     [(12, 7, [104, 105])] = ms1 @ ms2 \<and> sample_wire = concat (map (wire 200) ms1) @ pending_in s \<and>
     next_part 200 (pending_in s) ms2 \<and> delivered s = filter (\<lambda>m. \<not> is_noop m) ms1"
proof -
  obtain s where s: "rw_run recv_fuel sample_reads sample_start = Finished (RwGo, s)" by (rule sample_reads_run)
  have reg: "list_all regular [(12, 7, [104, 105])]"
    by (simp add: header_size_def kLongLinkIdentifyCheckerTaskID_def NOOP_CMDID_def)
  have i: "concat (map op_in sample_reads) = sample_wire" by (simp add: sample_reads_def sample_sel_def del: wire.simps)
  have "prefix (concat (map op_in sample_reads)) (concat (map (wire 200) [(12, 7, [104, 105])]))"
    by (simp only: i) simp
  from link_receives_stream [OF sample_fresh reg sample_ops_ok(2) order.refl this, of link_profile_new]
  show ?thesis unfolding i using s by (auto simp del: wire.simps)
qed

theorem link_to_link_witness:
  "\<exists>sa sb dn. rw_run recv_fuel sample_sends sample_start = Finished (RwGo, sa) \<and>
     rw_run recv_fuel sample_reads sample_start = Finished (RwGo, sb) \<and>
     subseq dn [(12, 7, [104, 105])] \<and> sent_ids sa = map msg_id dn \<and> delivered sb = filter (\<lambda>m. \<not> is_noop m) dn"
proof -
  obtain sa where a: "rw_run recv_fuel sample_sends sample_start = Finished (RwGo, sa)" "ll_lstsenddata sa = []"
    "run_out recv_fuel sample_sends sample_start = sample_wire"
    "run_submitted recv_fuel sample_sends sample_start = [(12, 7, [104, 105])]" by (rule sample_runs)
  obtain sb where b: "rw_run recv_fuel sample_reads sample_start = Finished (RwGo, sb)" by (rule sample_reads_run)
  have reg: "list_all regular (run_submitted recv_fuel sample_sends sample_start)"
    by (simp add: a(4) header_size_def kLongLinkIdentifyCheckerTaskID_def NOOP_CMDID_def)
  have i: "concat (map op_in sample_reads) = run_out recv_fuel sample_sends sample_start"
    by (simp add: a(3) sample_reads_def sample_sel_def del: wire.simps)
  from link_to_link [OF sample_fresh sample_ops_ok(1) a(1,2) reg sample_fresh sample_ops_ok(2) order.refl b i]
  show ?thesis using a(1,4) b by metis
qed

end
