(* ===== verification/Link_Progress.thy ===== *)
theory Link_Progress
  imports Link_Run
begin

text \<open>
  When the long link makes progress: the loop over the received packages ends unless a header
  announces a package of no bytes, an outstanding heartbeat is always watched by its alarm, and
  two places where what the link reports or checks is not what the peer sent.
\<close>

section \<open>The loop over the packages\<close>

text \<open>C22. The loop over the receive buffer ends: whatever bytes have been received, if no header
  announces a package of zero bytes, the loop takes at most one iteration for each byte of the
  buffer.\<close>

theorem recv_loop_terminates:
  assumes "wf_buffer (rw_bufrecv s)" "ab_length (rw_bufrecv s) < 2 ^ 64"
    and "\<forall>k. \<not> zero_package (le_version env) (drop k (pending_in s))"
  shows "recv_loop (ab_length (rw_bufrecv s)) env s \<noteq> Unfinished"
  using recv_loop_ends [OF assms(1,2)] assms(3) by blast

definition sample_received :: "bytes \<Rightarrow> rw_state" where
  "sample_received bs = sample_start\<lparr>rw_bufrecv := \<lparr>ab_parray = Some bs, ab_pos = int (length bs),
     ab_length = length bs, ab_capacity = length bs, ab_malloc_unitsize = 128\<rparr>\<rparr>"

lemma sample_received_buffer:
  "wf_buffer (rw_bufrecv (sample_received bs))" "pending_in (sample_received bs) = bs"
  "ab_length (rw_bufrecv (sample_received bs)) = length bs"
  by (simp_all add: sample_received_def wf_buffer_def contents_def block_def)

lemma sample_received_inv: "rx_inv (sample_received bs)"
  using sample_received_buffer [of bs] sample_fresh
  by (simp add: rx_inv_def sample_received_def streams_empty_def fresh_link_def)

theorem recv_loop_terminates_witness:
  "recv_loop 3 sample_link_env (sample_received [0, 0, 0]) \<noteq> Unfinished"
proof -
  have "\<forall>k. \<not> zero_package (le_version sample_link_env) (drop k (pending_in (sample_received [0, 0, 0])))"
    by (auto simp: zero_package_def header_size_def sample_received_buffer(2))
  from recv_loop_terminates [OF sample_received_buffer(1) _ this] show ?thesis
    by (simp add: sample_received_buffer(3) numeral_3_eq_3)
qed

text \<open>A header whose two lengths are zero is accepted as a complete package and takes nothing off
  the buffer, so the loop never ends: no number of iterations is enough.\<close>

theorem zero_package_loops:
  assumes "rx_inv s" "ab_length (rw_bufrecv s) < 2 ^ 64" "zero_package (le_version env) (pending_in s)"
    and "hd_seq (read_header (pending_in s)) \<noteq> kLongLinkIdentifyCheckerTaskID"
  shows "\<forall>fuel. recv_loop fuel env s = Unfinished"
  using recv_loop_zero [OF assms(1,2) refl assms(3,4)] by simp

definition sample_zero :: bytes where
  "sample_zero = header_bytes \<lparr>head_length = 0, client_version = 200, hd_cmdid = 12, hd_seq = 7, body_length = 0\<rparr>"

theorem zero_package_loops_witness:
  "\<forall>fuel. recv_loop fuel sample_link_env (sample_received sample_zero) = Unfinished"
proof -
  have h: "read_header sample_zero =
      \<lparr>head_length = 0, client_version = 200, hd_cmdid = 12, hd_seq = 7, body_length = 0\<rparr>"
    using read_header_bytes [where xs = "[]"] by (simp add: sample_zero_def)
  have l: "length sample_zero = header_size" by (simp add: sample_zero_def)
  show ?thesis
    by (rule zero_package_loops [OF sample_received_inv])
      (simp_all add: sample_received_buffer zero_package_def h l header_size_def sample_link_env_def
        kLongLinkIdentifyCheckerTaskID_def)
qed

section \<open>The heartbeat is watched\<close>

text \<open>While a heartbeat is outstanding its alarm runs or has gone off.\<close>

definition watched :: "rw_state \<Rightarrow> bool" where
  "watched s \<longleftrightarrow> (rw_nooping s \<longrightarrow> al_status (rw_timeout s) \<in> {kStart, kOnAlarm})"

definition alarms_work :: "link_env \<Rightarrow> bool" where
  "alarms_work env \<longleftrightarrow> ae_post_ok (le_alarm env) \<and> (\<not> ae_android (le_alarm env) \<or> ae_startAlarm (le_alarm env))"

fun op_alarms :: "link_op \<Rightarrow> bool" where
  "op_alarms (OpPrepare env) \<longleftrightarrow> alarms_work env"
| "op_alarms _ \<longleftrightarrow> True"

lemma watched_frame:
  "rw_nooping s' = rw_nooping s \<Longrightarrow> rw_timeout s' = rw_timeout s \<Longrightarrow> watched s \<Longrightarrow> watched s'"
  by (simp add: watched_def)

lemma watch_frames [simp]:
  "rw_nooping (on_heart env f s) = rw_nooping s" "rw_timeout (on_heart env f s) = rw_timeout s"
  "rw_nooping (emit e s) = rw_nooping s" "rw_timeout (emit e s) = rw_timeout s"
  "rw_nooping (put_stream t r s) = rw_nooping s" "rw_timeout (put_stream t r s) = rw_timeout s"
  "rw_nooping (note_sent u b s) = rw_nooping s" "rw_timeout (note_sent u b s) = rw_timeout s"
  by (simp_all add: on_heart_def emit_def put_stream_def note_sent_def Let_def)

lemma watch_heart_frames [simp]:
  "rw_nooping (NotifyHeartReq env x y s) = rw_nooping s" "rw_timeout (NotifyHeartReq env x y s) = rw_timeout s"
  "rw_nooping (NotifyHeartResult env c d s) = rw_nooping s" "rw_timeout (NotifyHeartResult env c d s) = rw_timeout s"
  "rw_nooping (restart_interval env s) = rw_nooping s" "rw_timeout (restart_interval env s) = rw_timeout s"
  "rw_nooping (NotifyJudgeDozeStyle env s) = rw_nooping s" "rw_timeout (NotifyJudgeDozeStyle env s) = rw_timeout s"
  by (simp_all add: NotifyHeartReq_def NotifyHeartResult_def restart_interval_def NotifyJudgeDozeStyle_def
      LL_GetNextHeartbeatInterval_def Let_def split: prod.splits option.splits)

lemma watched_simps [simp]:
  "watched (on_heart env f s) = watched s" "watched (emit e s) = watched s"
  "watched (put_stream t r s) = watched s" "watched (note_sent u b s) = watched s"
  "watched (restart_interval env s) = watched s"
  "watched (s\<lparr>ll_lstsenddata := l\<rparr>) = watched s" "watched (s\<lparr>rw_bufrecv := b\<rparr>) = watched s"
  "watched (s\<lparr>rw_sent_taskids := m\<rparr>) = watched s" "watched (s\<lparr>ll_lastrecvtime := n\<rparr>) = watched s"
  "watched (s\<lparr>rw_nsent_datas := w\<rparr>) = watched s" "watched (s\<lparr>ll_readwritebreak := br\<rparr>) = watched s"
  "watched (s\<lparr>rw_interval := a\<rparr>) = watched s"
  by (simp_all add: watched_def)

lemma watched_drain: "drain_sent n xs s = (ys, s') \<Longrightarrow> watched s \<Longrightarrow> watched s'"
  by (induction n xs s rule: drain_sent.induct) (auto simp: Let_def split: if_splits)

lemma watched_NoopResp: "NoopResp env c t b s = (x, s') \<Longrightarrow> watched s \<Longrightarrow> watched s'"
  by (auto simp: NoopResp_def Let_def watched_def split: prod.splits if_splits)

lemma watched_recv_one: "recv_one env s = Some (r, s') \<Longrightarrow> watched s \<Longrightarrow> watched s'"
  by (auto simp: recv_one_def Let_def split: bind_splits if_splits prod.splits bool.splits
      dest!: watched_NoopResp)

lemma watched_recv_loop: "recv_loop fuel env s = Finished (r, s') \<Longrightarrow> watched s \<Longrightarrow> watched s'"
proof (induction fuel arbitrary: s)
  case 0
  then show ?case by (subst (asm) recv_loop.simps) (simp split: if_splits)
next
  case (Suc fuel)
  show ?case
    using Suc.prems(1) watched_recv_one [OF _ Suc.prems(2)] Suc.prems(2) Suc.IH
    by (subst (asm) recv_loop.simps) (auto split: if_splits option.splits recv_step.splits)
qed

lemma watched_io:
  assumes "rw_io fuel env sel s = Finished (r, s')" "watched s"
  shows "watched s'"
proof -
  have recv: "watched s2" if "rw_recv fuel env x s1 = Finished (y, s2)" "watched s1" for x y s1 s2
    using that
    by (auto simp: rw_recv_def Let_def split: option.splits recv_result.splits if_splits
        dest!: watched_recv_loop)
  have send: "watched s2" if "rw_send env sel s1 = (y, s2)" "watched s1" for y s1 s2
    using that by (auto simp: rw_send_def Let_def split: prod.splits if_splits dest!: watched_drain)
  show ?thesis
    using assms
    by (auto simp: rw_io_def rw_transfer_def Let_def split: option.splits prod.splits if_splits rw_verdict.splits
        dest!: send recv)
qed

lemma watched_send:
  "LongLink_Send env body task s = Some (r, s') \<Longrightarrow> rw_nooping s' = rw_nooping s \<and> rw_timeout s' = rw_timeout s"
  "SendWhenNoData env body cmd tid s = Some (r, s') \<Longrightarrow> rw_nooping s' = rw_nooping s \<and> rw_timeout s' = rw_timeout s"
  by (auto simp: LongLink_Send_def SendWhenNoData_def split: if_splits bind_splits)

lemma watched_request:
  "NoopReq_send env s = Some (suc, s') \<Longrightarrow> rw_nooping s' = rw_nooping s \<and> rw_timeout s' = rw_timeout s"
  by (auto simp: NoopReq_send_def SendNoopWhenNoData_def split: prod.splits option.splits bind_splits
      dest!: watched_send)

text \<open>A request that was queued starts the alarm.\<close>

lemma watched_NoopReq:
  assumes "NoopReq env act s = Some (suc, s')" "alarms_work env"
  shows "if suc then al_status (rw_timeout s') = kStart
         else rw_nooping s' = rw_nooping s \<and> rw_timeout s' = rw_timeout s"
proof -
  have "al_status (snd (Alarm_Restart (le_alarm env) n g a)) = kStart" for n g a
    using assms(2) Restart_waits [of "le_alarm env" n g a] by (auto simp: alarms_work_def Alarm_IsWaiting_def)
  then show ?thesis
    using assms(1) by (auto simp: NoopReq_def split: bind_splits prod.splits dest: watched_request)
      (metis snd_conv)+
qed

lemma interval_waits: "alarms_work env \<Longrightarrow> Alarm_IsWaiting (rw_interval (restart_interval env s))"
  using Restart_waits [of "le_alarm env"]
  by (auto simp: restart_interval_def alarms_work_def split: prod.splits) (metis snd_conv)+

lemma watched_noop:
  assumes "rw_noop env s = Some s'" "alarms_work env" "watched s"
  shows "watched s' \<and> Alarm_IsWaiting (rw_interval s')"
proof (cases "Alarm_IsWaiting (rw_interval s)")
  case True
  then show ?thesis using assms by (simp add: rw_noop_def)
next
  case False
  let ?s1 = "if rw_first_noop_sent s \<and> al_status (rw_interval s) = kOnAlarm then NotifyJudgeDozeStyle env s else s"
  obtain act suc s2 s3 where r: "NoopReq env act ?s1 = Some (suc, s2)" "s' = restart_interval env s3"
    "rw_timeout s3 = rw_timeout s2" "rw_nooping s3 = (suc \<or> rw_nooping s2)"
    using assms(1) False by (auto simp: rw_noop_def Let_def split: bind_splits)
  have "watched ?s1" using assms(3) by (simp add: NotifyJudgeDozeStyle_def)
  then have "watched s3"
    using watched_NoopReq [OF r(1) assms(2)] r(3,4) by (simp add: watched_def split: if_splits)
  then show ?thesis using r(2) interval_waits [OF assms(2)] by simp
qed

lemma watched_prepare:
  assumes "env_ok v env" "identify_ok env" "alarms_work env" "watched s"
  obtains s' where "rw_prepare env s = Some (RwGo, s')" and "watched s'" and "Alarm_IsWaiting (rw_interval s')"
proof -
  obtain verdict s' where p: "rw_prepare env s = Some (verdict, s')"
    using prepare_step [OF assms(1,2)] by metis
  then have n: "rw_noop env s = Some s'" by (auto simp: rw_prepare_def split: bind_splits)
  note w = watched_noop [OF n assms(3,4)]
  have "verdict = RwGo" using p n w by (auto simp: rw_prepare_def watched_def)
  then show ?thesis using that p w by blast
qed

lemma watched_OnAlarm: "al_status (snd (Alarm_OnAlarm env n a)) \<in> {al_status a, kOnAlarm}"
  by (simp add: Alarm_OnAlarm_def Let_def)

lemma watched_step:
  assumes "rw_step fuel op s = Finished (r, s')" "op_ok v op" "op_alarms op" "watched s"
  shows "watched s'"
proof (cases op)
  case (OpTimeoutAlarm env n)
  obtain f a where o: "Alarm_OnAlarm (le_alarm env) n (rw_timeout s) = (f, a)" by fastforce
  then have "al_status a \<in> {al_status (rw_timeout s), kOnAlarm}"
    using watched_OnAlarm by (metis snd_conv)
  then show ?thesis using assms OpTimeoutAlarm o by (auto simp: watched_def LL_OnAlarm_def Let_def split: if_splits)
next
  case (OpPrepare env)
  obtain s1 where "rw_prepare env s = Some (RwGo, s1)" "watched s1"
    using watched_prepare [of v env s] assms(2-4) OpPrepare by auto
  then show ?thesis using assms(1) OpPrepare by auto
next
  case (OpIo env sel)
  then show ?thesis using assms watched_io by simp
next
  case OpPosted
  then show ?thesis
    using assms by (auto simp: RunPosted_link_def Let_def watched_def split: list.splits link_post.splits if_splits)
next
  case (OpDisconnect env scene)
  have "rw_nooping (snd (LongLink_Disconnect env scene s)) = rw_nooping s"
    "rw_timeout (snd (LongLink_Disconnect env scene s)) = rw_timeout s"
    by (simp_all add: LongLink_Disconnect_def Let_def split: prod.splits)
  then show ?thesis using assms OpDisconnect by (auto simp: watched_def)
next
  case (OpIntervalAlarm env n)
  then show ?thesis using assms by (auto simp: LL_OnAlarm_def Let_def split: prod.splits if_splits)
qed (use assms in \<open>auto simp: from_call_def LongLink_Stop_def watched_def split: option.splits prod.splits
        dest!: watched_send\<close>)

lemma watched_run:
  "rw_run fuel ops s = Finished (RwGo, s') \<Longrightarrow> list_all (op_ok v) ops \<Longrightarrow> list_all op_alarms ops \<Longrightarrow>
   watched s \<Longrightarrow> watched s'"
proof (induction ops arbitrary: s)
  case (Cons op ops)
  then obtain s1 where s1: "rw_step fuel op s = Finished (RwGo, s1)" "rw_run fuel ops s1 = Finished (RwGo, s')"
    by (auto split: exec.splits rw_verdict.splits)
  have "watched s1" using watched_step [OF s1(1), of v] Cons.prems by simp
  then show ?case using Cons.IH [OF s1(2)] Cons.prems by simp
qed simp

text \<open>C8. A link whose heartbeat is not answered cannot stay up unnoticed. In every interleaving in
  which the alarms can be started: the pass that follows never fails for a missing alarm and
  leaves the alarm for the next heartbeat running; and as soon as the alarm of an outstanding
  heartbeat no longer waits, the next pass ends the loop.\<close>

theorem heartbeat_watched:
  assumes "list_all (op_ok v) ops" "list_all op_alarms ops"
    and "rw_run fuel ops (enter_ReadWrite p ll) = Finished (RwGo, s)"
  shows "(\<forall>env. env_ok v env \<and> identify_ok env \<and> alarms_work env \<longrightarrow>
       (\<exists>s'. rw_prepare env s = Some (RwGo, s') \<and> Alarm_IsWaiting (rw_interval s'))) \<and>
     (\<forall>n env sel. rw_nooping s \<and> \<not> Alarm_IsWaiting (rw_timeout s) \<longrightarrow>
       (\<exists>et ec s'. rw_io n env sel s = Finished (RwEnd et ec, s')))"
proof -
  have "watched (enter_ReadWrite p ll)"
    by (simp add: watched_def enter_ReadWrite_def LongLink.defs rw_state.defs)
  then have w: "watched s" using watched_run [OF assms(3,1,2)] by blast
  have "\<exists>et ec s'. rw_io n env sel s = Finished (RwEnd et ec, s')"
    if "rw_nooping s" "\<not> Alarm_IsWaiting (rw_timeout s)" for n env sel
  proof -
    have "al_status (rw_timeout s) = kOnAlarm" using w that by (auto simp: watched_def Alarm_IsWaiting_def)
    then show ?thesis using that(1) by (auto simp: rw_io_def rw_checks_def Let_def split: option.splits)
  qed
  then show ?thesis using watched_prepare [OF _ _ _ w] by blast
qed

theorem heartbeat_watched_witness:
  "\<exists>s s'. rw_run recv_fuel sample_reads sample_start = Finished (RwGo, s) \<and>
     rw_prepare sample_link_env s = Some (RwGo, s') \<and> Alarm_IsWaiting (rw_interval s')"
proof -
  obtain s where s: "rw_run recv_fuel sample_reads sample_start = Finished (RwGo, s)" by (rule sample_reads_run)
  have a: "list_all op_alarms sample_reads" by (simp add: sample_reads_def)
  have "alarms_work sample_link_env" by (simp add: alarms_work_def sample_link_env_def)
  then show ?thesis using heartbeat_watched [OF sample_ops_ok(2) a s] sample_env_ok s by blast
qed

section \<open>The answer of the identify check\<close>

lemma FitSize_pos: "FitSize ok n b = Some b' \<Longrightarrow> ab_pos b' = ab_pos b"
  by (auto simp: FitSize_def Let_def split: if_splits)

lemma Write_seek_pos: "Write_seek ok seek d b = Some b' \<Longrightarrow> ab_pos b' = ab_pos b"
  by (auto simp: Write_seek_def Write_at_def Let_def split: bind_splits if_splits dest: FitSize_pos)

lemma unpack_pos: "longlink_unpack ok v p out body = Some (ret, out', body') \<Longrightarrow> ab_pos body' = ab_pos body"
  by (auto simp: longlink_unpack_def split: prod.splits if_splits bind_splits dest: Write_seek_pos)

lemma uint_of_small: "m < 2 ^ 64 \<Longrightarrow> uint (of_nat m :: u64) = int m"
  by (simp add: unsigned_of_nat take_bit_nat_eq_self)

abbreviation check_id :: u32 where "check_id \<equiv> kLongLinkIdentifyCheckerTaskID"

text \<open>A state with an answer of the identify check at the head of the receive buffer.\<close>

definition answer_waits :: "link_env \<Rightarrow> u32 \<Rightarrow> bytes \<Rightarrow> rw_state \<Rightarrow> bool" where
  "answer_waits env c d s \<longleftrightarrow> le_ok env = alloc_all \<and> wf_buffer (rw_bufrecv s) \<and> ab_length (rw_bufrecv s) < 2 ^ 64 \<and>
     prefix (wire (le_version env) (c, check_id, d)) (pending_in s) \<and> d \<noteq> [] \<and>
     header_size + length d \<le> 1024 * 1024 \<and> ic_taskid (ll_identifychecker s) = check_id \<and>
     ab_parray (sr_extension (stream_of check_id s)) = None"

lemma identify_NoopResp:
  assumes "ic_taskid (ll_identifychecker s) = check_id"
  obtains s' where "NoopResp env c check_id st s = (True, s')" and "rw_sent_taskids s' = rw_sent_taskids s"
    and "ic_has_checked (ll_identifychecker s') \<longleftrightarrow> ic_has_checked (ll_identifychecker s) \<or>
           le_identify_resp env (contents st) (contents (ic_hash_code_buffer (ll_identifychecker s)))"
proof -
  have "IsIdentifyResp (ll_identifychecker s) c check_id"
    using assms by (simp add: IsIdentifyResp_def longlink_identify_isresp_def kLongLinkIdentifyCheckerTaskID_def)
  then show ?thesis
    by (intro that [of "snd (NoopResp env c check_id st s)"])
      (simp_all add: NoopResp_def Let_def OnIdentifyResp_def emit_def)
qed

lemma identify_answer:
  assumes w: "answer_waits env c d s"
    and st: "\<forall>body. wf_buffer body \<and> contents body = d \<and> ab_pos body = 0 \<and> ab_parray body \<noteq> None \<longrightarrow>
        (\<exists>st. stream_add env body (sr_stream (stream_of check_id s)) = Some st \<and> P st)"
  obtains s' st where "recv_one env s = Some (RcvNext, s')" and "P st"
    and "sr_stream (stream_of check_id s') = st" and "ab_parray (sr_extension (stream_of check_id s')) = None"
    and "ic_has_checked (ll_identifychecker s') \<longleftrightarrow> ic_has_checked (ll_identifychecker s) \<or>
           le_identify_resp env (contents st) (contents (ic_hash_code_buffer (ll_identifychecker s)))"
proof -
  let ?v = "le_version env"
  have ok: "le_ok env = alloc_all" and wf: "wf_buffer (rw_bufrecv s)" "ab_length (rw_bufrecv s) < 2 ^ 64"
    and d: "d \<noteq> []" and n: "header_size + length d \<le> 1024 * 1024"
    and ic: "ic_taskid (ll_identifychecker s) = check_id"
    and ex0: "ab_parray (sr_extension (stream_of check_id s)) = None"
    using w by (simp_all add: answer_waits_def)
  obtain rest where c: "pending_in s = frame ?v c check_id d @ rest"
    using w by (auto simp: answer_waits_def prefix_def)
  have new: "wf_buffer (AutoBuffer_new 128)" "room (1024 * 1024) (AutoBuffer_new 128)"
    "contents (AutoBuffer_new 128) = []"
    by (rule wf_AutoBuffer_new, simp) (simp_all add: room_def AutoBuffer_new_def contents_def)
  let ?out = "\<lparr>uo_cmdid = c, uo_seq = check_id, uo_package_len = of_nat (header_size + length d),
      uo_body_len = of_nat (length d)\<rparr> :: u64 unpack_out"
  obtain body where up: "longlink_unpack alloc_all ?v (rw_bufrecv s)
      \<lparr>uo_cmdid = 0, uo_seq = kInvalidTaskID, uo_package_len = 0, uo_body_len = 0\<rparr> (AutoBuffer_new 128) =
      Some (LONGLINK_UNPACK_OK, ?out, body)" "wf_buffer body" "contents body = d"
    by (rule longlink_unpack_frame [where ok = alloc_all, OF wf c n new alloc_all])
  have "ab_pos body = 0" using unpack_pos [OF up(1)] by (simp add: AutoBuffer_new_def)
  moreover have "ab_parray body \<noteq> None" using up(3) d by (auto simp: contents_def block_def split: option.splits)
  ultimately obtain st where st: "stream_add env body (sr_stream (stream_of check_id s)) = Some st" "P st"
    using assms(2) up by blast
  let ?ex = "fst (Attach_from (AutoBuffer_new 128) (sr_extension (stream_of check_id s)))"
  note ex = attach_contents [OF ex0, of env "AutoBuffer_new 128"]
  have len: "header_size + length d \<le> ab_length (rw_bufrecv s)" using length_contents [OF wf(1)] c by simp
  obtain b where b: "Move (le_ok env) (- int (header_size + length d)) (rw_bufrecv s) = Some b"
    using Move_consume [OF wf(1) len] by metis
  let ?s = "took env check_id st ?ex b s"
  obtain s' where nr: "NoopResp env c check_id st ?s = (True, s')" "rw_sent_taskids s' = rw_sent_taskids ?s"
    "ic_has_checked (ll_identifychecker s') \<longleftrightarrow> ic_has_checked (ll_identifychecker ?s) \<or>
       le_identify_resp env (contents st) (contents (ic_hash_code_buffer (ll_identifychecker ?s)))"
    by (rule identify_NoopResp [of ?s]) (simp add: ic)
  have m: "Move (le_ok env) (- s32 (uint (uo_package_len ?out))) (rw_bufrecv s) = Some b"
    using b s32_nat [OF n] uint_of_small [of "header_size + length d"] n by simp
  have one: "recv_one env s = Some (RcvNext, s')"
    using recv_one_steps [of env s ?out body st ?ex b True s'] up(1) ok st(1) ex m nr(1) by simp
  have "sr_stream (stream_of check_id s') = st" "sr_extension (stream_of check_id s') = ?ex"
    using nr(2) by (simp_all add: stream_of_def mget_def map_of_mput)
  then show ?thesis using that [OF one st(2)] ex nr(3) by (simp add: AutoBuffer_new_def)
qed

text \<open>The answer that the identify check judges is not the one the server sent when an earlier one
  on the same connection was turned down. The entry of the check in \<open>sent_taskids\<close> is never
  erased, so the second answer is written over the first from its beginning, and
  \<open>OnLonglinkIdentifyResponse\<close> sees the rest of the first answer behind the second.\<close>

theorem identify_answer_stale:
  assumes "answer_waits env1 c1 d1 s" "sr_stream (stream_of check_id s) = KNullAtuoBuffer"
    and "recv_one env1 s = Some (RcvNext, s1)"
    and "answer_waits env2 c2 d2 s2" "sr_stream (stream_of check_id s2) = sr_stream (stream_of check_id s1)"
    and "\<not> ic_has_checked (ll_identifychecker s2)"
  shows "\<exists>s3. recv_one env2 s2 = Some (RcvNext, s3) \<and>
     (ic_has_checked (ll_identifychecker s3) \<longleftrightarrow>
      le_identify_resp env2 (d2 @ drop (length d2) d1) (contents (ic_hash_code_buffer (ll_identifychecker s2))))"
proof -
  let ?P = "\<lambda>st. wf_buffer st \<and> contents st = d1 \<and> ab_pos st = 0 \<and> ab_parray st \<noteq> None \<and> ab_malloc_unitsize st = 128"
  have first: "\<forall>body. wf_buffer body \<and> contents body = d1 \<and> ab_pos body = 0 \<and> ab_parray body \<noteq> None \<longrightarrow>
      (\<exists>st. stream_add env1 body (sr_stream (stream_of check_id s)) = Some st \<and> ?P st)"
    by (auto simp: assms(2) stream_add_def Attach_from_def Reset_def KNullAtuoBuffer_def AutoBuffer_new_def
        wf_buffer_def contents_def block_def)
  obtain s' st where r1: "recv_one env1 s = Some (RcvNext, s')" "?P st" "sr_stream (stream_of check_id s') = st"
    by (rule identify_answer [OF assms(1) first])
  have n: "length d2 \<le> 1024 * 1024" using assms(4) by (simp add: answer_waits_def)
  have ok: "le_ok env2 = alloc_all" using assms(4) by (simp add: answer_waits_def)
  have old: "?P (sr_stream (stream_of check_id s2))" using r1 assms(3,5) by simp
  let ?o = "sr_stream (stream_of check_id s2)" and ?Q = "\<lambda>st. contents st = d2 @ drop (length d2) d1"
  have "room (nat (ab_pos ?o) + length d2) ?o" using old n by (simp add: room_def)
  from Write_spec [OF _ this, of alloc_all] obtain st2 where "Write alloc_all d2 ?o = Some st2"
    "contents st2 = take (nat (ab_pos ?o)) (contents ?o) @ d2 @ drop (nat (ab_pos ?o) + length d2) (contents ?o)"
    using old alloc_all by metis
  then have second: "\<forall>body. wf_buffer body \<and> contents body = d2 \<and> ab_pos body = 0 \<and> ab_parray body \<noteq> None \<longrightarrow>
      (\<exists>st. stream_add env2 body ?o = Some st \<and> ?Q st)"
    using old ok by (simp add: stream_add_def)
  obtain s3 st3 where "recv_one env2 s2 = Some (RcvNext, s3)" "?Q st3"
    "ic_has_checked (ll_identifychecker s3) \<longleftrightarrow> ic_has_checked (ll_identifychecker s2) \<or>
       le_identify_resp env2 (contents st3) (contents (ic_hash_code_buffer (ll_identifychecker s2)))"
    by (rule identify_answer [OF assms(4) second])
  then show ?thesis using assms(6) by auto
qed

definition strict_env :: link_env where
  "strict_env = sample_link_env\<lparr>le_identify_resp := (\<lambda>d hash. d = [5])\<rparr>"

definition awaiting :: "bytes \<Rightarrow> rw_state \<Rightarrow> rw_state" where
  "awaiting bs s = s\<lparr>rw_bufrecv := rw_bufrecv (sample_received bs),
     ll_identifychecker := IC_SetID check_id IdentifyChecker_new\<rparr>"

lemma awaiting_waits:
  assumes "ab_parray (sr_extension (stream_of check_id s)) = None" "d \<noteq> []" "length d \<le> 1000"
  shows "answer_waits strict_env c d (awaiting (wire 200 (c, check_id, d)) s)"
  using assms sample_received_buffer [of "wire 200 (c, check_id, d)"] sample_env_ok(1)
  by (simp add: answer_waits_def awaiting_def strict_env_def env_ok_def IC_SetID_def stream_of_def header_size_def
      length_wire)

theorem identify_answer_stale_witness:
  "\<exists>s2 s3. answer_waits strict_env 1 [5] s2 \<and> recv_one strict_env s2 = Some (RcvNext, s3) \<and>
     le_identify_resp strict_env [5] [] \<and> \<not> ic_has_checked (ll_identifychecker s3)"
proof -
  let ?s = "awaiting (wire 200 (1, check_id, [9, 9, 9])) sample_start"
  have new: "stream_of check_id sample_start = StreamResp_new" "stream_of check_id ?s = StreamResp_new"
    by (simp_all add: stream_of_def awaiting_def mget_def)
  have w: "answer_waits strict_env 1 [9, 9, 9] ?s"
    by (rule awaiting_waits) (simp_all add: new StreamResp_new_def KNullAtuoBuffer_def AutoBuffer_new_def)
  have st: "sr_stream (stream_of check_id ?s) = KNullAtuoBuffer" unfolding new by (simp add: StreamResp_new_def)
  have "\<forall>body. wf_buffer body \<and> contents body = [9, 9, 9] \<and> ab_pos body = 0 \<and> ab_parray body \<noteq> None \<longrightarrow>
      (\<exists>st. stream_add strict_env body (sr_stream (stream_of check_id ?s)) = Some st \<and> True)"
    unfolding st by (simp add: stream_add_def KNullAtuoBuffer_def AutoBuffer_new_def)
  from identify_answer [OF w this] obtain s1 where s1: "recv_one strict_env ?s = Some (RcvNext, s1)"
    "ab_parray (sr_extension (stream_of check_id s1)) = None" by metis
  let ?s2 = "awaiting (wire 200 (1, check_id, [5])) s1"
  have w2: "answer_waits strict_env 1 [5] ?s2" by (rule awaiting_waits [OF s1(2)]) simp_all
  have same: "sr_stream (stream_of check_id ?s2) = sr_stream (stream_of check_id s1)"
    by (simp add: awaiting_def stream_of_def)
  have un: "\<not> ic_has_checked (ll_identifychecker ?s2)" by (simp add: awaiting_def IC_SetID_def IdentifyChecker_new_def)
  from identify_answer_stale [OF w st s1(1) w2 same un]
  show ?thesis using w2 by (auto simp: strict_env_def)
qed

section \<open>The address of a successful connection\<close>

text \<open>Every profile that is stored or waits to be stored has an address of \<open>A\<close>.\<close>

fun post_ips :: "link_post \<Rightarrow> string set" where
  "post_ips (PostProfile p) = {cp_ip p}"
| "post_ips (PostConnection st) = {}"

definition profile_ips :: "'a LongLink_scheme \<Rightarrow> string set" where
  "profile_ips s = insert (cp_ip (ll_conn_profile s)) (\<Union>p\<in>set (ll_posts s). post_ips p)"

lemma profile_ips_post [simp]:
  "profile_ips (post_link p s) = post_ips p \<union> profile_ips s" "profile_ips (emit e s) = profile_ips s"
  "profile_ips (UpdateProfile q s) = insert (cp_ip q) (profile_ips s)"
  "profile_ips (on_heart env f s) = profile_ips s" "profile_ips (s\<lparr>ll_events := evs\<rparr>) = profile_ips s"
  "profile_ips (s\<lparr>ll_connectstatus := st\<rparr>) = profile_ips s" "profile_ips (s\<lparr>ll_tracker := t\<rparr>) = profile_ips s"
  by (auto simp: profile_ips_def post_link_def emit_def UpdateProfile_def on_heart_def)

lemma profile_ips_status [simp]: "profile_ips (LL_ConnectStatus env st s) = profile_ips s"
  by (simp add: LL_ConnectStatus_def NotifyConnectStatus_def Let_def split: TLongLinkStatus.splits)

lemma profile_ips_posted: "profile_ips (RunPosted_link s) \<subseteq> profile_ips s"
  by (auto simp: RunPosted_link_def profile_ips_def emit_def Let_def split: list.splits link_post.splits)

lemma profile_ips_posted_n: "profile_ips ((RunPosted_link ^^ n) s) \<subseteq> profile_ips s"
  by (induction n) (use profile_ips_posted in auto)

lemma prepare_ips:
  assumes "RunConnect_prepare env ce p s = (Some x, p', s')"
  shows "profile_ips s' \<subseteq> profile_ips s \<union> {cp_ip p, str_ip (hd (ce_ip_items ce))}"
    and "cp_ip p' = str_ip (hd (ce_ip_items ce))"
  using assms by (auto simp: RunConnect_prepare_def Let_def split: if_splits option.splits list.splits)

text \<open>The addresses of the reports of success, in order.\<close>

fun ok_report :: "link_event \<Rightarrow> string list" where
  "ok_report (EvReport et ec ip port) = (if et = kEctOK then [ip] else [])"
| "ok_report _ = []"

definition success_reports :: "'a LongLink_scheme \<Rightarrow> string list" where
  "success_reports s = concat (map ok_report (ll_events s))"

lemma success_frames [simp]:
  "success_reports (emit e s) = success_reports s @ ok_report e"
  "success_reports (post_link p s) = success_reports s" "success_reports (UpdateProfile q s) = success_reports s"
  "success_reports (on_heart env f s) = success_reports s"
  "success_reports (s\<lparr>ll_connectstatus := st\<rparr>) = success_reports s"
  "success_reports (s\<lparr>ll_tracker := t\<rparr>) = success_reports s"
  "success_reports (s\<lparr>ll_events := ll_events s @ evs\<rparr>) = success_reports s @ concat (map ok_report evs)"
  by (simp_all add: success_reports_def emit_def post_link_def UpdateProfile_def on_heart_def)

lemma status_frames [simp]:
  "ll_conn_profile (UpdateProfile q s) = ll_conn_profile s" "ll_conn_profile (on_heart env f s) = ll_conn_profile s"
  "ll_connectstatus (UpdateProfile q s) = ll_connectstatus s" "ll_connectstatus (emit e s) = ll_connectstatus s"
  "ll_connectstatus (post_link p s) = ll_connectstatus s"
  "ll_connectstatus (LL_ConnectStatus env st s) = st"
  by (simp_all add: UpdateProfile_def post_link_def emit_def on_heart_def LL_ConnectStatus_def Let_def
      NotifyConnectStatus_def split: TLongLinkStatus.splits)

lemma status_report:
  "success_reports (LL_ConnectStatus env st s) = success_reports s @
     (if st = kConnected \<and> ll_connectstatus s \<noteq> kConnected then [cp_ip (ll_conn_profile s)] else [])"
  by (auto simp: LL_ConnectStatus_def NotifyConnectStatus_def Let_def split: TLongLinkStatus.splits)

lemma observe_reports:
  "observe env nv c (cs, evs) = Some (cs', evs') \<Longrightarrow> concat (map ok_report evs') = concat (map ok_report evs)"
  by (auto simp: observe_def split: observer_call.splits if_splits bind_splits)

lemma observe_all_reports:
  "observe_all env nv calls (cs, evs) = Some (cs', evs') \<Longrightarrow> concat (map ok_report evs') = concat (map ok_report evs)"
proof (induction calls arbitrary: cs evs)
  case (Cons c calls)
  then obtain cs1 evs1 where "observe env nv c (cs, evs) = Some (cs1, evs1)"
    "observe_all env nv calls (cs1, evs1) = Some (cs', evs')" by (auto split: bind_splits)
  then show ?case using Cons.IH observe_reports by fastforce
qed simp

lemma timed_out_silent: "concat (map ok_report (timed_out_reports n connecting items)) = []"
  by (simp add: timed_out_reports_def)

lemma finish_report:
  assumes "RunConnect_finish env nv ce cr p s = Some (True, p', s')" "ll_connectstatus s \<noteq> kConnected"
  shows "success_reports s' = success_reports s @ [cp_ip (ll_conn_profile s)]"
    and "\<exists>i. cr_index cr = Some i \<and> cp_ip p' = str_ip (ce_ip_items ce ! i)"
proof -
  obtain connecting evs where o: "observe_all env nv (cr_calls cr) (replicate 32 False, []) = Some (connecting, evs)"
    using assms(1) by (auto simp: RunConnect_finish_def split: bind_splits)
  let ?p = "p\<lparr>lp_conn_time := le_now env, lp_conn_errcode := cr_error cr, lp_conn_rtt := cr_rtt cr,
      lp_conn_cost := cr_cost cr, lp_tryip_count := cr_trycount cr\<rparr>"
  define s2 where "s2 = UpdateProfile ?p (s\<lparr>ll_events := ll_events s @ evs\<rparr>)"
  obtain i where i: "cr_index cr = Some i" "cp_ip p' = str_ip (ce_ip_items ce ! i)"
    "s' = UpdateProfile p' (LL_ConnectStatus env kConnected
       (s2\<lparr>ll_events := ll_events s2 @ timed_out_reports i connecting (ce_ip_items ce)\<rparr>))"
    using assms(1) by (auto simp: RunConnect_finish_def Let_def o s2_def split: option.splits if_splits)
  have s2: "success_reports s2 = success_reports s" "ll_connectstatus s2 = ll_connectstatus s"
    "ll_conn_profile s2 = ll_conn_profile s"
    using observe_all_reports [OF o] by (simp_all add: s2_def)
  show "success_reports s' = success_reports s @ [cp_ip (ll_conn_profile s)]"
    using assms(2) s2 by (simp add: i(3) status_report timed_out_silent)
  show "\<exists>i. cr_index cr = Some i \<and> cp_ip p' = str_ip (ce_ip_items ce ! i)" using i by blast
qed

lemma prepare_reports:
  assumes "RunConnect_prepare env ce p s = (Some x, p', s')"
  shows "success_reports s' = success_reports s" "ll_connectstatus s' = kConnecting"
  using assms by (auto simp: RunConnect_prepare_def Let_def status_report split: if_splits option.splits list.splits)

lemma posted_frames:
  "success_reports ((RunPosted_link ^^ n) s) = success_reports s"
  "ll_connectstatus ((RunPosted_link ^^ n) s) = ll_connectstatus s"
  by (induction n)
    (simp_all add: RunPosted_link_def Let_def success_reports_def emit_def split: list.splits link_post.splits)

text \<open>The success of a connection is reported for the wrong address. When a connection attempt
  has several addresses, \<open>__ConnectStatus\<close> reports the address of \<open>conn_profile_\<close>, which
  is filled in by the message queue: however many of the posted profiles it has stored by then,
  the attempt makes one report of success, and it names the first address of the list or none,
  while the profile of the connection itself has the address that was connected.\<close>

theorem success_report_address:
  assumes "ll_posts s = []" "cp_ip (ll_conn_profile s) = ''''"
    and "Run_begin env ce s = (p0, s0)" "RunConnect_prepare env ce p0 s0 = (Some x, p1, s1)"
    and "RunConnect_finish env nv ce cr p1 ((RunPosted_link ^^ n) s1) = Some (True, p2, s3)"
  shows "\<exists>ip i. success_reports s3 = success_reports s @ [ip] \<and> ip \<in> {'''', str_ip (hd (ce_ip_items ce))} \<and>
     cr_index cr = Some i \<and> cp_ip p2 = str_ip (ce_ip_items ce ! i)"
proof -
  let ?s2 = "(RunPosted_link ^^ n) s1"
  have p0: "cp_ip p0 = ''''"
    using assms(3) by (auto simp: Run_begin_def Let_def link_profile_new_def ConnectProfile_Reset_def
        ConnectProfile.defs link_profile.defs)
  have s0: "profile_ips s0 \<subseteq> {''''}" "success_reports s0 = success_reports s"
    using assms(1-3) p0 by (auto simp: Run_begin_def Let_def) (simp add: profile_ips_def)
  have "profile_ips ?s2 \<subseteq> {'''', str_ip (hd (ce_ip_items ce))}"
    using prepare_ips(1) [OF assms(4)] p0 s0(1) profile_ips_posted_n [of n s1] by auto
  then have ip: "cp_ip (ll_conn_profile ?s2) \<in> {'''', str_ip (hd (ce_ip_items ce))}"
    by (auto simp: profile_ips_def)
  have "ll_connectstatus ?s2 \<noteq> kConnected" by (simp add: posted_frames prepare_reports(2) [OF assms(4)])
  note r = finish_report [OF assms(5) this]
  have "success_reports ?s2 = success_reports s"
    using prepare_reports(1) [OF assms(4)] s0(2) by (simp add: posted_frames)
  then show ?thesis using r ip by auto
qed

definition two_addresses :: connect_env where
  "two_addresses = \<lparr>ce_ip_items =
       [\<lparr>str_ip = ''10.0.0.1'', ipport = 80, source_type = kIPSourceNewDns, str_host = ''h''\<rparr>,
        \<lparr>str_ip = ''10.0.0.2'', ipport = 80, source_type = kIPSourceBackup, str_host = ''h''\<rparr>],
     ce_proxy = ProxyInfo_new, ce_debug_ip = '''', ce_nat64 = False, ce_proxy_dns = None,
     ce_net_label = ''wifi'', ce_tid = 1\<rparr>"

definition second_connects :: connect_result where
  "second_connects = \<lparr>cr_calls = [OnConnect 0, OnConnect 1, OnConnected 1 0 ''10.0.0.2'' 80],
     cr_index = Some 1, cr_error = 0, cr_rtt = 30, cr_cost = 40, cr_trycount = 2,
     cr_local_ip = ''10.0.0.9'', cr_local_port = 4000\<rparr>"

theorem success_report_address_witness:
  "\<exists>p2 s3 ip. success_reports s3 = [ip] \<and> ip \<in> {'''', ''10.0.0.1''} \<and> cp_ip p2 = ''10.0.0.2'' \<and>
     (\<exists>p1 s2. RunConnect_finish sample_link_env False two_addresses second_connects p1 s2 =
        Some (True, p2, s3 :: LongLink))"
proof -
  let ?e = "sample_link_env" and ?c = two_addresses
  let ?s = "sample_link\<lparr>ll_connectstatus := kConnectIdle\<rparr>"
  have i: "ll_posts ?s = []" "cp_ip (ll_conn_profile ?s) = ''''"
    by (simp_all add: sample_link_def link_profile_new_def ConnectProfile_Reset_def ConnectProfile.defs
        link_profile.defs)
  obtain p0 s0 where b: "Run_begin ?e ?c ?s = (p0, s0)" by fastforce
  obtain x p1 s1 where p: "RunConnect_prepare ?e ?c p0 s0 = (Some x, p1, s1)"
    by (simp add: RunConnect_prepare_def two_addresses_def ProxyInfo_new_def Let_def)
  obtain p2 s3 where f: "RunConnect_finish ?e False ?c second_connects p1 ((RunPosted_link ^^ 2) s1) = Some (True, p2, s3)"
    by (simp add: RunConnect_finish_def second_connects_def observe_def two_addresses_def Let_def)
  have "success_reports ?s = []" by (simp add: success_reports_def sample_link_def)
  with success_report_address [OF i b p f] obtain ip where "success_reports s3 = [ip]"
    "ip \<in> {'''', str_ip (hd (ce_ip_items ?c))}" "cp_ip p2 = str_ip (ce_ip_items ?c ! 1)"
    by (auto simp: second_connects_def)
  moreover have "str_ip (hd (ce_ip_items ?c)) = ''10.0.0.1''" "str_ip (ce_ip_items ?c ! 1) = ''10.0.0.2''"
    by (simp_all add: two_addresses_def)
  ultimately show ?thesis using f by metis
qed

end
