(* ===== verification/Ticks.thy ===== *)
theory Ticks
  imports Mars_Prelude
begin

text \<open>
  The clocks of comm/time_utils.c and comm/tickcount.cc, and the histories of outcomes that
  several components keep in the bits of a word.

  \<open>gettickcount()\<close> is the millisecond clock; its readings are arguments. A
  \<open>tickcount_t\<close> is a reading of the same clock counted from the start of the process plus an
  offset, so that 0 can stand for no reading.
\<close>

section \<open>Clocks\<close>

text \<open>The C function, which answers 0 where the clock seems to have gone back.\<close>

definition gettickspan :: "u64 \<Rightarrow> u64 \<Rightarrow> int" where
  "gettickspan cur_tick old_tick = (if cur_tick < old_tick then 0 else sint (cur_tick - old_tick))"

type_synonym tickcount_t = u64

definition sg_tick_init :: u64 where "sg_tick_init = 2000000000"

text \<open>The reading of a \<open>tickcount_t\<close>; \<open>start\<close> is the clock at the start of the process.\<close>

definition tick_now :: "u64 \<Rightarrow> u64 \<Rightarrow> tickcount_t" where
  "tick_now start now = sg_tick_init + now - start"

text \<open>\<open>tickcount_t::gettickspan\<close>: a signed difference.\<close>

definition tick_span :: "tickcount_t \<Rightarrow> tickcount_t \<Rightarrow> int" where
  "tick_span tick old = sint (tick - old)"

definition tick_valid :: "tickcount_t \<Rightarrow> bool" where
  "tick_valid t \<longleftrightarrow> t \<noteq> 0"

text \<open>On a clock that has not gone back and has run for less than 290 million years, the spans are
  the differences.\<close>

lemma sint_diff:
  assumes "a \<le> (b :: u64)" "uint b - uint a < 2 ^ 63"
  shows "sint (b - a) = uint b - uint a"
proof -
  have "uint (b - a) < 2 ^ 63" using uint_diff_le [OF assms(1)] assms(2) by simp
  then have "sint (b - a) = uint (b - a)"
    using signed_take_bit_int_eq_self [of 63 "uint (b - a)"] order.trans [OF _ uint_ge_0, of "- (2 ^ 63)" "b - a"]
    by (simp add: sint_uint)
  then show ?thesis using uint_diff_le [OF assms(1)] by simp
qed

lemma gettickspan_diff:
  "a \<le> b \<Longrightarrow> uint b - uint a < 2 ^ 63 \<Longrightarrow> gettickspan b a = uint b - uint a"
  by (simp add: gettickspan_def sint_diff leD)

section \<open>Histories in the bits of a word\<close>

text \<open>The number of bits that are set, as the loops of the sources count them: each step clears
  the lowest one.\<close>

lemma clear_lowest_less: "r \<noteq> 0 \<Longrightarrow> unat (r AND (r - 1)) < unat (r :: 'a::len word)"
proof -
  assume r: "r \<noteq> 0"
  have "unat (r AND (r - 1)) \<le> unat (r - 1)" by (simp add: word_and_le1 flip: word_le_nat_alt)
  also have "unat (r - 1) < unat r" using r by (simp add: unat_minus_one unat_gt_0)
  finally show ?thesis .
qed

function CAL_BIT_COUNT :: "'a::len word \<Rightarrow> nat" where
  "CAL_BIT_COUNT records = (if records = 0 then 0 else Suc (CAL_BIT_COUNT (records AND (records - 1))))"
  by auto
termination
  by (relation "measure unat") (simp_all add: clear_lowest_less)

declare CAL_BIT_COUNT.simps [simp del]

text \<open>The number of set bits by halving, for comparison.\<close>

fun popcount :: "nat \<Rightarrow> nat" where
  "popcount n = (if n = 0 then 0 else n mod 2 + popcount (n div 2))"

declare popcount.simps [simp del]

lemma popcount_0 [simp]: "popcount 0 = 0"
  by (simp add: popcount.simps)

lemma popcount_double [simp]: "popcount (2 * n) = popcount n"
  by (cases "n = 0") (simp_all add: popcount.simps [of "2 * n"])

lemma popcount_double_Suc [simp]: "popcount (Suc (2 * n)) = Suc (popcount n)"
  by (simp add: popcount.simps [of "Suc (2 * n)"])

lemma and_double: "(2 * m AND Suc (2 * n) :: nat) = 2 * (m AND n)"
  by (simp add: and_rec [of "2 * m"])

lemma and_double_even: "(Suc (2 * m) AND 2 * n :: nat) = 2 * (m AND n)"
  by (simp add: and_rec [of "Suc (2 * m)"])

lemma popcount_clear_lowest: "0 < n \<Longrightarrow> Suc (popcount (n AND (n - 1))) = popcount n"
proof (induction n rule: nat_bit_induct)
  case (even n)
  then have "2 * n - 1 = Suc (2 * (n - 1))" by simp
  then show ?case using even by (simp add: and_double)
next
  case (odd n)
  then show ?case by (simp add: and_double_even)
qed simp

lemma bit_count_popcount: "CAL_BIT_COUNT r = popcount (unat (r :: 'a::len word))"
proof (induction r rule: CAL_BIT_COUNT.induct)
  case (1 r)
  show ?case
  proof (cases "r = 0")
    case True
    then show ?thesis by (simp add: CAL_BIT_COUNT.simps)
  next
    case False
    then have "unat (r AND (r - 1)) = unat r AND (unat r - 1)"
      by (simp add: unsigned_and_eq unat_minus_one)
    then show ?thesis
      using False 1 popcount_clear_lowest [of "unat r"] by (simp add: CAL_BIT_COUNT.simps [of r] unat_gt_0)
  qed
qed

definition SET_BIT :: "bool \<Rightarrow> 'a::len word \<Rightarrow> 'a word" where
  "SET_BIT b records = push_bit 1 records OR of_bool b"

text \<open>The number whose bits are the given ones, the first one lowest.\<close>

fun bits_val :: "bool list \<Rightarrow> nat" where
  "bits_val [] = 0"
| "bits_val (b # bs) = of_bool b + 2 * bits_val bs"

lemma popcount_bits [simp]: "popcount (bits_val bs) = length (filter id bs)"
  by (induction bs) auto

lemma bits_val_take: "take_bit n (bits_val bs) = bits_val (take n bs)"
  by (induction bs arbitrary: n) (simp, case_tac n, auto simp: take_bit_Suc)

lemma SET_BIT_plus: "SET_BIT b r = 2 * r + of_bool b" for r :: "'a::len word"
  using or_one_eq [of "2 * r"] by (cases b) (simp_all add: SET_BIT_def push_bit_eq_mult mult.commute)

lemma unat_SET_BIT: "unat (SET_BIT b r) = (2 * unat r + of_bool b) mod 2 ^ LENGTH('a)"
  for r :: "'a::len word"
  by (cases b) (simp_all add: SET_BIT_plus unat_word_ariths mod_simps unat_of_nat unsigned_1)

text \<open>The history \<open>fs\<close> of a word, the latest report first.\<close>

definition holds_bits :: "bool list \<Rightarrow> 'a::len word \<Rightarrow> bool" where
  "holds_bits fs r \<longleftrightarrow> unat r = bits_val (take LENGTH('a) fs)"

lemma holds_bits_new: "holds_bits [] 0"
  by (simp add: holds_bits_def)

lemma holds_bits_add: "holds_bits fs r \<Longrightarrow> holds_bits (f # fs) (SET_BIT f (r :: 'a::len word))"
proof -
  assume r: "holds_bits fs r"
  have "unat (SET_BIT f r) = take_bit LENGTH('a) (bits_val (f # take LENGTH('a) fs))"
    using r by (simp add: holds_bits_def unat_SET_BIT take_bit_eq_mod add.commute)
  then show ?thesis by (simp only: bits_val_take holds_bits_def) (simp add: take_Cons')
qed

lemma holds_bits_count: "holds_bits fs r \<Longrightarrow> CAL_BIT_COUNT (r :: 'a::len word) = length (filter id (take LENGTH('a) fs))"
  by (simp add: holds_bits_def bit_count_popcount)

text \<open>The counting loop of the address history and of the network check, which clears the lowest set
  bit in each round, counts the set bits: it agrees with counting by halving on words of any width.\<close>

theorem CAL_BIT_COUNT_popcount: "CAL_BIT_COUNT r = popcount (unat (r :: 'a::len word))"
  by (rule bit_count_popcount)

end
