(* ===== verification/Weak_Network.thy ===== *)
theory Weak_Network
  imports Ticks Stn_Task
begin

text \<open>
  The notion of a weak network, stn/src/weak_network_logic.cc: a flag that slow connections,
  packages and tasks set and that good tasks, failed connections, the background and time clear.
  Each call of \<open>report_weak_logic_\<close> is a pair of key and value in \<open>wn_reports\<close>. The readings
  of the tick clock are arguments, in their order; whether the application is in the foreground is an
  argument too.
\<close>

section \<open>State\<close>

definition MARK_TIMEOUT :: int where "MARK_TIMEOUT = 60 * 1000"
definition WEAK_CONNECT_RTT :: int where "WEAK_CONNECT_RTT = 2 * 1000"
definition WEAK_PKG_SPAN :: int where "WEAK_PKG_SPAN = 2 * 1000"
definition GOOD_TASK_SPAN :: u64 where "GOOD_TASK_SPAN = 600"
definition SURE_WEAK_SPAN :: int where "SURE_WEAK_SPAN = 5 * 1000"
definition WEAK_TASK_SPAN :: u64 where "WEAK_TASK_SPAN = 5 * 1000"

datatype TKey =
    kEnterWeak | kExitWeak | kWeakTime | kCGICount | kCGICost | kCGISucc | kSceneRtt | kSceneIndex
  | kSceneFirstPkg | kScenePkgPkg | kSceneTask | kExitSceneTask | kExitSceneTimeout | kExitSceneConnect
  | kExitSceneBackground | kExitQuickConnectNoNet | kSceneTaskBad | kFailStepDns | kFailStepConnect
  | kFailStepFirstPkg | kFailStepPkgPkg | kFailStepDecode | kFailStepOther | kFailStepTimeout

text \<open>The numbers of the enumeration.\<close>

fun key_code :: "TKey \<Rightarrow> int" where
  "key_code kEnterWeak = 0" | "key_code kExitWeak = 1" | "key_code kWeakTime = 2" | "key_code kCGICount = 3"
| "key_code kCGICost = 4" | "key_code kCGISucc = 5" | "key_code kSceneRtt = 6" | "key_code kSceneIndex = 7"
| "key_code kSceneFirstPkg = 8" | "key_code kScenePkgPkg = 9" | "key_code kSceneTask = 10"
| "key_code kExitSceneTask = 11" | "key_code kExitSceneTimeout = 12" | "key_code kExitSceneConnect = 13"
| "key_code kExitSceneBackground = 14" | "key_code kExitQuickConnectNoNet = 15" | "key_code kSceneTaskBad = 16"
| "key_code kFailStepDns = 31" | "key_code kFailStepConnect = 32" | "key_code kFailStepFirstPkg = 33"
| "key_code kFailStepPkgPkg = 34" | "key_code kFailStepDecode = 35" | "key_code kFailStepOther = 36"
| "key_code kFailStepTimeout = 37"

fun fail_step_code :: "TaskFailStep \<Rightarrow> int" where
  "fail_step_code kStepSucc = 0" | "fail_step_code kStepDns = 1" | "fail_step_code kStepConnect = 2"
| "fail_step_code kStepFirstPkg = 3" | "fail_step_code kStepPkgPkg = 4" | "fail_step_code kStepDecode = 5"
| "fail_step_code kStepOther = 6" | "fail_step_code kStepTimeout = 7" | "fail_step_code kStepServer = 8"

record WeakNetworkLogic =
  first_mark_tick :: tickcount_t
  last_mark_tick :: tickcount_t
  is_curr_weak :: bool
  connect_after_weak :: u32
  last_connect_fail_tick :: tickcount_t
  last_connect_suc_tick :: tickcount_t
  wn_reports :: "(int \<times> int) list"

definition WeakNetworkLogic_new :: WeakNetworkLogic where
  "WeakNetworkLogic_new = \<lparr>first_mark_tick = 0, last_mark_tick = 0, is_curr_weak = False, connect_after_weak = 0,
     last_connect_fail_tick = 0, last_connect_suc_tick = 0, wn_reports = []\<rparr>"

section \<open>Operations\<close>

definition ReportWeakLogic :: "int \<Rightarrow> int \<Rightarrow> WeakNetworkLogic \<Rightarrow> WeakNetworkLogic" where
  "ReportWeakLogic key v s = s\<lparr>wn_reports := wn_reports s @ [(key, v)]\<rparr>"

text \<open>The three reports at the end of a weak period.\<close>

definition leave_weak :: "TKey \<Rightarrow> tickcount_t \<Rightarrow> WeakNetworkLogic \<Rightarrow> WeakNetworkLogic" where
  "leave_weak scene tick s =
     ReportWeakLogic (key_code kWeakTime) (s32 (tick_span tick (first_mark_tick s)))
       (ReportWeakLogic (key_code scene) 1
          (ReportWeakLogic (key_code kExitWeak) 1 (s\<lparr>is_curr_weak := False\<rparr>)))"

definition WN_SignalForeground :: "tickcount_t \<Rightarrow> bool \<Rightarrow> WeakNetworkLogic \<Rightarrow> WeakNetworkLogic" where
  "WN_SignalForeground tick is_foreground s =
     (if \<not> is_foreground \<and> is_curr_weak s then leave_weak kExitSceneBackground tick s else s)"

definition IsCurrentNetworkWeak :: "tickcount_t \<Rightarrow> tickcount_t \<Rightarrow> WeakNetworkLogic \<Rightarrow> bool \<times> WeakNetworkLogic" where
  "IsCurrentNetworkWeak tick tick2 s =
     (if is_curr_weak s then
        if tick_span tick (last_mark_tick s) < MARK_TIMEOUT then (True, s)
        else (False, leave_weak kExitSceneTimeout tick2 s)
      else (False, s))"

text \<open>The span is left as it was where there is no valid tick.\<close>

definition IsLastValidConnectFail :: "tickcount_t \<Rightarrow> int \<Rightarrow> WeakNetworkLogic \<Rightarrow> bool \<times> int" where
  "IsLastValidConnectFail tick span s =
     (if tick_valid (last_connect_fail_tick s) then (True, tick_span tick (last_connect_fail_tick s))
      else if tick_valid (last_connect_suc_tick s) then (False, tick_span tick (last_connect_suc_tick s))
      else (False, span))"

text \<open>\<open>connect_ticks\<close> records the outcome; the rest of \<open>OnConnectEvent\<close> runs in the foreground
  only.\<close>

definition connect_ticks :: "tickcount_t \<Rightarrow> bool \<Rightarrow> WeakNetworkLogic \<Rightarrow> WeakNetworkLogic" where
  "connect_ticks tick is_suc s =
     (if is_suc then s\<lparr>last_connect_fail_tick := 0, last_connect_suc_tick := tick\<rparr>
      else s\<lparr>last_connect_fail_tick := tick, last_connect_suc_tick := 0\<rparr>)"

definition OnConnectEvent ::
    "(nat \<Rightarrow> tickcount_t) \<Rightarrow> bool \<Rightarrow> bool \<Rightarrow> int \<Rightarrow> int \<Rightarrow> WeakNetworkLogic \<Rightarrow> WeakNetworkLogic" where
  "OnConnectEvent tick foreground is_suc rtt index s =
     (let s1 = connect_ticks (tick 0) is_suc s
      in if \<not> foreground then s1
         else
           let s2 = (if is_curr_weak s1 then s1\<lparr>connect_after_weak := connect_after_weak s1 + 1\<rparr> else s1)
           in if \<not> is_suc then
                (if is_curr_weak s2 then
                   let s3 = leave_weak kExitSceneConnect (tick 1) s2
                   in if connect_after_weak s3 \<le> 1 \<and> tick_span (tick 2) (first_mark_tick s3) < SURE_WEAK_SPAN
                      then ReportWeakLogic (key_code kExitQuickConnectNoNet) 1 s3 else s3
                 else s2)
              else if \<not> (0 < index \<or> WEAK_CONNECT_RTT < rtt) then s2
              else
                let s3 = (if is_curr_weak s2 then s2
                          else ReportWeakLogic (key_code (if 0 < index then kSceneIndex else kSceneRtt)) 1 s2);
                    s4 = (if is_curr_weak s3 then s3
                          else ReportWeakLogic (key_code kEnterWeak) 1
                                 (s3\<lparr>is_curr_weak := True, connect_after_weak := 0, first_mark_tick := tick 1,
                                     last_mark_tick := tick 2\<rparr>))
                in s4\<lparr>last_mark_tick := tick 3\<rparr>)"

definition OnPkgEvent ::
    "(nat \<Rightarrow> tickcount_t) \<Rightarrow> bool \<Rightarrow> bool \<Rightarrow> int \<Rightarrow> WeakNetworkLogic \<Rightarrow> WeakNetworkLogic" where
  "OnPkgEvent tick foreground is_firstpkg span s =
     (if \<not> foreground then s
      else if \<not> WEAK_PKG_SPAN < span then s
      else
        let s1 = (if is_curr_weak s then s
                  else
                    (ReportWeakLogic (key_code (if is_firstpkg then kSceneFirstPkg else kScenePkgPkg)) 1
                       (ReportWeakLogic (key_code kEnterWeak) 1 (s\<lparr>first_mark_tick := tick 0\<rparr>)))
                      \<lparr>is_curr_weak := True, connect_after_weak := 0, last_mark_tick := tick 1\<rparr>)
        in s1\<lparr>last_mark_tick := tick 2\<rparr>)"

definition task_span :: "TaskProfile \<Rightarrow> u64" where
  "task_span p = end_task_time p - start_task_time p"

definition OnTaskEvent ::
    "(nat \<Rightarrow> tickcount_t) \<Rightarrow> bool \<Rightarrow> TaskProfile \<Rightarrow> WeakNetworkLogic \<Rightarrow> WeakNetworkLogic" where
  "OnTaskEvent tick foreground p s =
     (if \<not> foreground then s
      else
        let old_weak = is_curr_weak s;
            backup_failed = (0 < cp_ip_index (connect_profile (transfer_profile p)) \<and> err_type p \<noteq> kEctOK \<and>
                             err_type p \<noteq> kEctEnDecode);
            slow = (err_type p = kEctOK \<and> WEAK_TASK_SPAN \<le> task_span p);
            s1 = (if backup_failed \<or> slow then
                    let s2 = (if is_curr_weak s then s
                              else ReportWeakLogic (key_code (if backup_failed then kSceneTask else kSceneTaskBad)) 1 s);
                        s3 = (if is_curr_weak s2 then s2
                              else (ReportWeakLogic (key_code kEnterWeak) 1 (s2\<lparr>first_mark_tick := tick 0\<rparr>))
                                     \<lparr>is_curr_weak := True, connect_after_weak := 0, last_mark_tick := tick 1\<rparr>)
                    in s3\<lparr>last_mark_tick := tick 2\<rparr>
                  else if err_type p = kEctOK \<and> task_span p < GOOD_TASK_SPAN \<and> is_curr_weak s
                    then leave_weak kExitSceneTask (tick 0) s
                  else s)
        in if is_curr_weak s1 \<or> old_weak then
             let s2 = ReportWeakLogic (key_code kCGICount) 1 s1
             in if err_type p = kEctOK
                then ReportWeakLogic (key_code kCGICost) (s32 (uint (task_span p)))
                       (ReportWeakLogic (key_code kCGISucc) 1 s2)
                else ReportWeakLogic (key_code kFailStepDns + fail_step_code (GetFailStep p) - 1) 1 s2
           else s1)"

section \<open>Weak periods\<close>

datatype weak_event =
    WForeground tickcount_t bool
  | WQuery tickcount_t tickcount_t
  | WConnect "nat \<Rightarrow> tickcount_t" bool bool int int
  | WPkg "nat \<Rightarrow> tickcount_t" bool bool int
  | WTask "nat \<Rightarrow> tickcount_t" bool TaskProfile

fun weak_step :: "weak_event \<Rightarrow> WeakNetworkLogic \<Rightarrow> WeakNetworkLogic" where
  "weak_step (WForeground t f) s = WN_SignalForeground t f s"
| "weak_step (WQuery t t2) s = snd (IsCurrentNetworkWeak t t2 s)"
| "weak_step (WConnect tick f ok rtt i) s = OnConnectEvent tick f ok rtt i s"
| "weak_step (WPkg tick f first span) s = OnPkgEvent tick f first span s"
| "weak_step (WTask tick f p) s = OnTaskEvent tick f p s"

text \<open>The begins and ends of weak periods among the reports.\<close>

definition marks :: "WeakNetworkLogic \<Rightarrow> int list" where
  "marks s = filter (\<lambda>k. k = key_code kEnterWeak \<or> k = key_code kExitWeak) (map fst (wn_reports s))"

lemma marks_Report:
  "marks (ReportWeakLogic k v s) =
     marks s @ (if k = key_code kEnterWeak \<or> k = key_code kExitWeak then [k] else [])"
  by (simp add: marks_def ReportWeakLogic_def)

lemma weak_Report [simp]: "is_curr_weak (ReportWeakLogic k v s) = is_curr_weak s"
  by (simp add: ReportWeakLogic_def)

lemma marks_frame [simp]:
  "marks (s\<lparr>is_curr_weak := b\<rparr>) = marks s" "marks (s\<lparr>connect_after_weak := n\<rparr>) = marks s"
  "marks (s\<lparr>first_mark_tick := t\<rparr>) = marks s" "marks (s\<lparr>last_mark_tick := t\<rparr>) = marks s"
  "marks (s\<lparr>last_connect_fail_tick := t\<rparr>) = marks s" "marks (s\<lparr>last_connect_suc_tick := t\<rparr>) = marks s"
  by (simp_all add: marks_def)

definition balanced :: "WeakNetworkLogic \<Rightarrow> bool" where
  "balanced s \<longleftrightarrow> (\<exists>n. marks s = concat (replicate n [key_code kEnterWeak, key_code kExitWeak]) @
     (if is_curr_weak s then [key_code kEnterWeak] else []))"

lemma balanced_same: "marks s' = marks s \<Longrightarrow> is_curr_weak s' = is_curr_weak s \<Longrightarrow> balanced s' = balanced s"
  by (simp add: balanced_def)

lemma balanced_enter:
  "balanced s \<Longrightarrow> \<not> is_curr_weak s \<Longrightarrow> marks s' = marks s @ [key_code kEnterWeak] \<Longrightarrow> is_curr_weak s' \<Longrightarrow> balanced s'"
  by (simp add: balanced_def)

lemma balanced_leave:
  assumes "balanced s" "is_curr_weak s" "marks s' = marks s @ [key_code kExitWeak]" "\<not> is_curr_weak s'"
  shows "balanced s'"
proof -
  obtain n where n: "marks s = concat (replicate n [key_code kEnterWeak, key_code kExitWeak]) @ [key_code kEnterWeak]"
    using assms(1,2) by (auto simp: balanced_def)
  have "marks s' = concat (replicate (Suc n) [key_code kEnterWeak, key_code kExitWeak])"
    unfolding replicate_append_same [symmetric] replicate_Suc by (simp add: assms(3) n)
  then show ?thesis using assms(4) by (auto simp: balanced_def simp del: replicate_Suc)
qed

lemma leave_weak_marks [simp]:
  "scene \<noteq> kEnterWeak \<Longrightarrow> scene \<noteq> kExitWeak \<Longrightarrow> marks (leave_weak scene t s) = marks s @ [key_code kExitWeak]"
  "is_curr_weak (leave_weak scene t s) = False"
  by (cases scene; simp add: leave_weak_def marks_Report)+

lemma fail_step_key: "err_type p \<noteq> kEctOK \<Longrightarrow> key_code kFailStepDns + fail_step_code (GetFailStep p) - 1 \<in> {31..38}"
  by (cases "GetFailStep p") (auto simp: GetFailStep_def split: if_splits)

lemma balanced_leave_weak:
  "balanced s \<Longrightarrow> is_curr_weak s \<Longrightarrow> scene \<noteq> kEnterWeak \<Longrightarrow> scene \<noteq> kExitWeak \<Longrightarrow> balanced (leave_weak scene t s)"
  by (rule balanced_leave) simp_all

lemma balanced_Report:
  "balanced s \<Longrightarrow> k \<noteq> key_code kEnterWeak \<Longrightarrow> k \<noteq> key_code kExitWeak \<Longrightarrow> balanced (ReportWeakLogic k v s)"
  by (subst balanced_same [of _ s]) (simp_all add: marks_Report)

lemma balanced_enter_frame:
  assumes "balanced s" "\<not> is_curr_weak s"
  shows "balanced ((ReportWeakLogic (key_code kEnterWeak) 1 (s\<lparr>first_mark_tick := t\<rparr>))
           \<lparr>is_curr_weak := True, connect_after_weak := n, last_mark_tick := t2\<rparr>)"
  by (rule balanced_enter [OF assms]) (simp_all add: marks_Report)

lemma balanced_enter_late:
  assumes "balanced s" "\<not> is_curr_weak s"
  shows "balanced (ReportWeakLogic (key_code kEnterWeak) 1
           (s\<lparr>is_curr_weak := True, connect_after_weak := n, first_mark_tick := t, last_mark_tick := t2\<rparr>))"
  by (rule balanced_enter [OF assms]) (simp_all add: marks_Report)

lemma balanced_frame [simp]:
  "balanced (s\<lparr>connect_after_weak := n\<rparr>) = balanced s" "balanced (s\<lparr>last_mark_tick := t\<rparr>) = balanced s"
  "balanced (s\<lparr>last_connect_fail_tick := t1\<rparr>) = balanced s" "balanced (s\<lparr>last_connect_suc_tick := t2\<rparr>) = balanced s"
  "balanced (connect_ticks t3 ok s) = balanced s"
  "is_curr_weak (connect_ticks t3 ok s) = is_curr_weak s"
  by (simp_all add: balanced_def connect_ticks_def)

lemmas balanced_ops = balanced_leave_weak [simplified] balanced_Report [simplified]
  balanced_enter_frame [simplified] balanced_enter_late [simplified]

lemma balanced_SignalForeground: "balanced s \<Longrightarrow> balanced (WN_SignalForeground t f s)"
  by (simp add: WN_SignalForeground_def balanced_ops)

lemma balanced_IsCurrentNetworkWeak: "balanced s \<Longrightarrow> balanced (snd (IsCurrentNetworkWeak t t2 s))"
  by (simp add: IsCurrentNetworkWeak_def balanced_ops)

lemma balanced_OnConnectEvent: "balanced s \<Longrightarrow> balanced (OnConnectEvent tick f ok rtt i s)"
  by (simp add: OnConnectEvent_def Let_def balanced_ops)

lemma balanced_OnPkgEvent: "balanced s \<Longrightarrow> balanced (OnPkgEvent tick f fp span s)"
  by (auto simp: OnPkgEvent_def Let_def intro!: balanced_enter [of s] split: if_splits) (simp_all add: marks_Report)

lemma balanced_OnTaskEvent: "balanced s \<Longrightarrow> balanced (OnTaskEvent tick f p s)"
  using fail_step_key [of p] by (auto simp: OnTaskEvent_def Let_def intro!: balanced_ops)

lemma balanced_step: "balanced s \<Longrightarrow> balanced (weak_step e s)"
  by (cases e) (simp_all add: balanced_SignalForeground balanced_IsCurrentNetworkWeak balanced_OnConnectEvent
                  balanced_OnPkgEvent balanced_OnTaskEvent)

lemma balanced_fold: "balanced s \<Longrightarrow> balanced (fold weak_step es s)"
  by (induction es arbitrary: s) (simp_all add: balanced_step)

lemma balanced_new: "balanced WeakNetworkLogic_new"
  by (auto simp: balanced_def marks_def WeakNetworkLogic_new_def intro: exI [of _ 0])

text \<open>Over every sequence of connects, packages, tasks, queries and switches between
  foreground and background, the reported begins and ends of weak periods alternate, starting with a
  begin, and the flag says whether the last period is still open.\<close>

theorem weak_periods_alternate:
  "\<exists>n. marks (fold weak_step es WeakNetworkLogic_new) =
         concat (replicate n [key_code kEnterWeak, key_code kExitWeak]) @
         (if is_curr_weak (fold weak_step es WeakNetworkLogic_new) then [key_code kEnterWeak] else [])"
  using balanced_fold [OF balanced_new, of es] by (simp only: balanced_def)

end
