(* ===== verification/Net_Check.thy ===== *)
theory Net_Check
  imports Ticks Std_Map Anti_Avalanche
begin

text \<open>
  The trigger of the network diagnosis, stn/src/net_check_logic.cc. The outcomes of the tasks of
  each link are the bits of a 32-bit word, the latest in the lowest bit; a diagnosis starts when
  the recent outcomes are bad after good ones. The hosts, ports and DNS answers are arguments, and
  the call of \<open>StartActiveCheck\<close> is the result.
\<close>

section \<open>State\<close>

definition kMinCheckTimeSpan :: int where "kMinCheckTimeSpan = 5 * 60 * 1000"
definition kCheckTimeSpanIncrementStep :: int where "kCheckTimeSpanIncrementStep = 10 * 60 * 1000"
definition kValidBitsFilter :: u32 where "kValidBitsFilter = 0xFFFFFFFF"
definition kMostRecentTaskStartN :: "nat \<times> nat" where "kMostRecentTaskStartN = (24, 8)"
definition kSecondRecentTaskStartN :: "nat \<times> nat" where "kSecondRecentTaskStartN = (16, 8)"
definition kCheckifBelowCount :: nat where "kCheckifBelowCount = 3"
definition kCheckifAboveCount :: nat where "kCheckifAboveCount = 5"
definition kLimitCount :: nat where "kLimitCount = 1"
definition kLimitTimeSpan :: u64 where "kLimitTimeSpan = 60 * 60 * 1000"

record NetTaskStatusItem =
  ts_records :: u32
  last_failedtime :: u64

record NetCheckLogic =
  nc_frequency_limit :: CommFrequencyLimit
  last_netcheck_time :: u64
  longlink_taskstatus_item :: NetTaskStatusItem
  shortlink_taskstatus_item :: NetTaskStatusItem
  increment_steps :: int

definition NetTaskStatusItem_new :: NetTaskStatusItem where
  "NetTaskStatusItem_new = \<lparr>ts_records = 0xFFFFFFFF, last_failedtime = 0\<rparr>"

definition NetCheckLogic_new :: NetCheckLogic where
  "NetCheckLogic_new = \<lparr>nc_frequency_limit = \<lparr>cf_count = kLimitCount, time_span = kLimitTimeSpan, touch_times = []\<rparr>,
     last_netcheck_time = 0, longlink_taskstatus_item = NetTaskStatusItem_new,
     shortlink_taskstatus_item = NetTaskStatusItem_new, increment_steps = 0\<rparr>"

section \<open>The decision\<close>

definition SET_RECORD_BIT :: "bool \<Rightarrow> u32 \<Rightarrow> u32 \<Rightarrow> u32" where
  "SET_RECORD_BIT is_true records valid_bits =
     (let r = push_bit 1 records AND valid_bits in if is_true then r OR 1 else r AND NOT 1)"

definition EXTRACT_N_BITS :: "u32 \<Rightarrow> nat \<Rightarrow> nat \<Rightarrow> u32" where
  "EXTRACT_N_BITS records start_pos n =
     (let start = (if 32 < start_pos \<or> start_pos < 1 then 1 else start_pos);
          m = (if 32 < start + n then 32 - start else n)
      in drop_bit (32 - m) (push_bit (start - 1) records))"

definition succ_count :: "u32 \<Rightarrow> nat \<times> nat \<Rightarrow> nat" where
  "succ_count records w = CAL_BIT_COUNT (EXTRACT_N_BITS records (fst w) (snd w))"

text \<open>The test of one link: whether it is good, and whether it became bad.\<close>

definition link_good :: "u32 \<Rightarrow> bool" where
  "link_good records \<longleftrightarrow> kCheckifAboveCount < succ_count records kMostRecentTaskStartN"

definition link_shouldcheck :: "u32 \<Rightarrow> bool" where
  "link_shouldcheck records \<longleftrightarrow> succ_count records kMostRecentTaskStartN < kCheckifBelowCount \<and>
     kCheckifAboveCount < succ_count records kSecondRecentTaskStartN"

definition ShouldNetCheck :: "u64 \<Rightarrow> u64 \<Rightarrow> NetCheckLogic \<Rightarrow> bool \<times> NetCheckLogic" where
  "ShouldNetCheck now now2 s =
     (let long = ts_records (longlink_taskstatus_item s);
          short = ts_records (shortlink_taskstatus_item s);
          due = (link_shouldcheck long \<or> link_shouldcheck short);
          early = (gettickspan now (last_netcheck_time s) <
                   kMinCheckTimeSpan + increment_steps s * kCheckTimeSpanIncrementStep);
          ret = (due \<and> \<not> early);
          s1 = (if ret then s\<lparr>increment_steps := increment_steps s + 1\<rparr> else s);
          s2 = (if link_good short \<and> link_good long then s1\<lparr>increment_steps := 0\<rparr> else s1)
      in if ret then
           (case CommFrequencyLimit_Check now2 (nc_frequency_limit s2) of
              (ok, c) \<Rightarrow> (ok, s2\<lparr>nc_frequency_limit := c\<rparr>))
         else (False, s2))"

section \<open>The diagnosis\<close>

type_synonym check_items = "(string \<times> (string \<times> u16) list) list"

text \<open>What \<open>NetSource\<close>, the application and the two resolvers answer.\<close>

record check_env =
  ck_longlink_hosts :: "string list"
  ck_longlink_ports :: "u16 list"
  ck_shortlink_hosts :: "string list"
  ck_shortlink_port :: u16
  ck_new_dns :: "string \<Rightarrow> string list"
  ck_dns :: "string \<Rightarrow> string list"

definition resolve :: "check_env \<Rightarrow> string \<Rightarrow> string list" where
  "resolve env host = (if ck_new_dns env host = [] then ck_dns env host else ck_new_dns env host)"

text \<open>\<open>std::map::insert\<close> keeps the entry that is there.\<close>

definition minsert :: "'k::linorder \<Rightarrow> 'v \<Rightarrow> ('k \<times> 'v) list \<Rightarrow> ('k \<times> 'v) list" where
  "minsert k v m = (if mget m k = None then mput k v m else m)"

definition add_check :: "check_env \<Rightarrow> (string list \<Rightarrow> (string \<times> u16) list) \<Rightarrow> string \<Rightarrow> check_items \<Rightarrow> check_items" where
  "add_check env addrs host items =
     (let l = addrs (resolve env host)
      in if resolve env host = [] then items else if l \<noteq> [] then minsert host l items else items)"

definition longlink_addrs :: "check_env \<Rightarrow> string list \<Rightarrow> (string \<times> u16) list" where
  "longlink_addrs env ips = concat (map (\<lambda>port. map (\<lambda>ip. (ip, port)) ips) (ck_longlink_ports env))"

definition shortlink_addrs :: "check_env \<Rightarrow> string list \<Rightarrow> (string \<times> u16) list" where
  "shortlink_addrs env ips = map (\<lambda>ip. (ip, ck_shortlink_port env)) ips"

definition StartNetCheck :: "check_env \<Rightarrow> (check_items \<times> check_items) option" where
  "StartNetCheck env =
     (if ck_longlink_hosts env = [] then None
      else if ck_longlink_ports env = [] then None
      else
        let long = fold (add_check env (longlink_addrs env)) (ck_longlink_hosts env) [];
            short = fold (add_check env (shortlink_addrs env)) (ck_shortlink_hosts env) []
        in if long \<noteq> [] \<or> short \<noteq> [] then Some (long, short) else None)"

definition note_task :: "u64 \<Rightarrow> bool \<Rightarrow> NetTaskStatusItem \<Rightarrow> NetTaskStatusItem" where
  "note_task now task_succ i =
     (let i1 = (if \<not> task_succ then i\<lparr>last_failedtime := now\<rparr> else i)
      in i1\<lparr>ts_records := SET_RECORD_BIT task_succ (ts_records i1) kValidBitsFilter\<rparr>)"

definition UpdateLongLinkInfo ::
    "check_env \<Rightarrow> u64 \<times> u64 \<times> u64 \<Rightarrow> bool \<Rightarrow> NetCheckLogic \<Rightarrow> (check_items \<times> check_items) option \<times> NetCheckLogic" where
  "UpdateLongLinkInfo env clk task_succ s =
     (case clk of (now, now2, now3) \<Rightarrow>
        (case ShouldNetCheck now2 now3
                (s\<lparr>longlink_taskstatus_item := note_task now task_succ (longlink_taskstatus_item s)\<rparr>) of
           (check, s1) \<Rightarrow> (if check then StartNetCheck env else None, s1)))"

definition UpdateShortLinkInfo ::
    "check_env \<Rightarrow> u64 \<times> u64 \<times> u64 \<Rightarrow> bool \<Rightarrow> NetCheckLogic \<Rightarrow> (check_items \<times> check_items) option \<times> NetCheckLogic" where
  "UpdateShortLinkInfo env clk task_succ s =
     (case clk of (now, now2, now3) \<Rightarrow>
        (case ShouldNetCheck now2 now3
                (s\<lparr>shortlink_taskstatus_item := note_task now task_succ (shortlink_taskstatus_item s)\<rparr>) of
           (check, s1) \<Rightarrow> (if check then StartNetCheck env else None, s1)))"

section \<open>Which outcomes count\<close>

lemma SET_RECORD_BIT_plus: "SET_RECORD_BIT b r kValidBitsFilter = SET_BIT b r"
proof -
  have "push_bit 1 r AND kValidBitsFilter = push_bit 1 r"
  proof -
    have f: "kValidBitsFilter = - 1" by (simp add: kValidBitsFilter_def)
    show ?thesis unfolding f by simp
  qed
  moreover have "push_bit 1 r AND NOT 1 = push_bit 1 r"
    by (rule bit_eqI) (simp only: bit_and_iff bit_not_iff bit_push_bit_iff bit_1_iff, auto)
  ultimately show ?thesis by (simp add: SET_RECORD_BIT_def SET_BIT_def Let_def)
qed

lemma drop_bits_val: "drop_bit n (bits_val bs) = bits_val (drop n bs)"
  by (induction bs arbitrary: n) (simp, case_tac n, auto simp: drop_bit_Suc)

text \<open>The window of eight outcomes that starts \<open>k\<close> reports ago.\<close>

lemma window_bits:
  assumes "holds_bits h r" "0 < k" "k \<le> 16"
  shows "CAL_BIT_COUNT (EXTRACT_N_BITS r (25 - k) 8) = length (filter id (take 8 (drop k h)))"
proof -
  have e: "EXTRACT_N_BITS r (25 - k) 8 = drop_bit 24 (push_bit (24 - k) r)"
  proof -
    have "\<not> 32 < 25 - k" "\<not> 25 - k < 1" "\<not> 32 < 25 - k + 8" using assms(2,3) by linarith+
    moreover have "25 - k - 1 = 24 - k" by simp
    ultimately show ?thesis by (simp only: EXTRACT_N_BITS_def Let_def if_False simp_thms) simp
  qed
  have "unat (drop_bit 24 (push_bit (24 - k) r)) = drop_bit 24 (take_bit 32 (push_bit (24 - k) (unat r)))"
    by (simp add: unat_drop_bit_eq unsigned_push_bit_eq)
  also have "\<dots> = take_bit 8 (drop_bit k (unat r))"
    using assms(3) by (rule_tac bit_eqI) (auto simp: bit_simps ac_simps)
  also have "\<dots> = bits_val (take 8 (drop k (take 32 h)))"
    using assms(1) by (simp add: holds_bits_def drop_bits_val bits_val_take)
  finally show ?thesis
    using assms(3) by (simp add: e bit_count_popcount take_drop)
qed

text \<open>The rule: the outcomes are counted latest first, the tasks before the first one count as
  successes.\<close>

definition check_rule :: "bool list \<Rightarrow> bool" where
  "check_rule outcomes \<longleftrightarrow>
     (let h = outcomes @ replicate 32 True
      in length (filter id (take 8 (drop 1 h))) < 3 \<and> 5 < length (filter id (take 8 (drop 9 h))))"

definition records_of :: "bool list \<Rightarrow> u32" where
  "records_of outcomes = foldr (\<lambda>b r. SET_RECORD_BIT b r kValidBitsFilter) outcomes (ts_records NetTaskStatusItem_new)"

lemma bits_val_ones: "bits_val (replicate n True) = 2 ^ n - 1"
proof (induction n)
  case (Suc n)
  have "Suc (2 * (2 ^ n - 1)) = 2 * 2 ^ n - (1 :: nat)"
    by (cases "2 ^ n :: nat") simp_all
  then show ?case using Suc by simp
qed simp

lemma records_hold: "holds_bits (outcomes @ replicate 32 True) (records_of outcomes)"
proof (induction outcomes)
  case Nil
  have "unat (0xFFFFFFFF :: u32) = 2 ^ 32 - 1" by simp
  then show ?case
    unfolding records_of_def holds_bits_def NetTaskStatusItem_new_def by (simp add: bits_val_ones)
next
  case (Cons b outcomes)
  then show ?case using holds_bits_add by (simp add: records_of_def SET_RECORD_BIT_plus)
qed

lemma shouldcheck_rule: "link_shouldcheck (records_of outcomes) = check_rule outcomes"
  using window_bits [OF records_hold, of 1 outcomes] window_bits [OF records_hold, of 9 outcomes]
  by (simp add: link_shouldcheck_def succ_count_def check_rule_def kMostRecentTaskStartN_def
      kSecondRecentTaskStartN_def kCheckifBelowCount_def kCheckifAboveCount_def Let_def)

lemma check_rule_tail: "check_rule (b # outcomes) = check_rule (b' # outcomes)"
  by (simp add: check_rule_def Let_def)

lemma bits_val_bits: "bits_val (map (bit n) [0..<k]) = take_bit k (n :: nat)"
proof (induction k arbitrary: n)
  case (Suc k)
  have "map (bit n) [0..<Suc k] = odd n # map (bit (n div 2)) [0..<k]"
    by (simp only: upt_conv_Cons [OF zero_less_Suc] map_Suc_upt [symmetric]) (simp add: bit_0 bit_Suc)
  then show ?case using Suc.IH [of "n div 2"] by (simp add: take_bit_Suc mod2_eq_if)
qed simp

lemma some_history: "\<exists>h. holds_bits h (r :: u32)"
  using unsigned_less [of r, where 'a = nat]
  by (intro exI [of _ "map (bit (unat r)) [0..<32]"])
    (simp add: holds_bits_def bits_val_bits take_bit_nat_eq_self)

lemma window_ignores_latest:
  assumes "0 < k" "k \<le> 16"
  shows "CAL_BIT_COUNT (EXTRACT_N_BITS (SET_RECORD_BIT b r kValidBitsFilter) (25 - k) 8) =
         CAL_BIT_COUNT (EXTRACT_N_BITS (SET_RECORD_BIT b' r kValidBitsFilter) (25 - k) 8)"
proof -
  obtain h where h: "holds_bits h r" using some_history by blast
  have "drop k (b # h) = drop k (b' # h)" using assms(1) by (cases k) simp_all
  then show ?thesis
    using window_bits [OF holds_bits_add [OF h] assms] by (simp only: SET_RECORD_BIT_plus)
qed

lemma tests_ignore_latest:
  "link_good (SET_RECORD_BIT b r kValidBitsFilter) = link_good (SET_RECORD_BIT b' r kValidBitsFilter)"
  "link_shouldcheck (SET_RECORD_BIT b r kValidBitsFilter) = link_shouldcheck (SET_RECORD_BIT b' r kValidBitsFilter)"
  using window_ignores_latest [of 1 b r b'] window_ignores_latest [of 9 b r b']
  by (simp_all add: link_good_def link_shouldcheck_def succ_count_def kMostRecentTaskStartN_def kSecondRecentTaskStartN_def)

lemma ShouldNetCheck_cong:
  assumes "link_good (ts_records (longlink_taskstatus_item s)) = link_good (ts_records (longlink_taskstatus_item s'))"
    "link_shouldcheck (ts_records (longlink_taskstatus_item s)) = link_shouldcheck (ts_records (longlink_taskstatus_item s'))"
    "link_good (ts_records (shortlink_taskstatus_item s)) = link_good (ts_records (shortlink_taskstatus_item s'))"
    "link_shouldcheck (ts_records (shortlink_taskstatus_item s)) = link_shouldcheck (ts_records (shortlink_taskstatus_item s'))"
    "nc_frequency_limit s = nc_frequency_limit s'" "last_netcheck_time s = last_netcheck_time s'"
    "increment_steps s = increment_steps s'"
  shows "fst (ShouldNetCheck now now2 s) = fst (ShouldNetCheck now now2 s')"
  using assms by (simp add: ShouldNetCheck_def Let_def split: prod.splits)

text \<open>The outcome that is being reported never decides about the diagnosis: the windows of
  recent outcomes start one bit too high, so whether the report of a task starts a diagnosis, and
  which one, is the same for a success and for a failure.\<close>

theorem netcheck_latest_ignored:
  "fst (UpdateLongLinkInfo env clk True s) = fst (UpdateLongLinkInfo env clk False s) \<and>
   fst (UpdateShortLinkInfo env clk True s) = fst (UpdateShortLinkInfo env clk False s)"
proof -
  obtain now now2 now3 where c: "clk = (now, now2, now3)" by (cases clk) auto
  note t = tests_ignore_latest [of True _ False]
  have "fst (ShouldNetCheck now2 now3 (s\<lparr>longlink_taskstatus_item := note_task now True (longlink_taskstatus_item s)\<rparr>)) =
      fst (ShouldNetCheck now2 now3 (s\<lparr>longlink_taskstatus_item := note_task now False (longlink_taskstatus_item s)\<rparr>))"
    by (rule ShouldNetCheck_cong) (simp_all add: note_task_def Let_def t)
  moreover have
    "fst (ShouldNetCheck now2 now3 (s\<lparr>shortlink_taskstatus_item := note_task now True (shortlink_taskstatus_item s)\<rparr>)) =
      fst (ShouldNetCheck now2 now3 (s\<lparr>shortlink_taskstatus_item := note_task now False (shortlink_taskstatus_item s)\<rparr>))"
    by (rule ShouldNetCheck_cong) (simp_all add: note_task_def Let_def t)
  ultimately show ?thesis
    by (simp add: c UpdateLongLinkInfo_def UpdateShortLinkInfo_def case_prod_beta)
qed

text \<open>When a diagnosis starts: for one of the links, of the eight outcomes before the latest fewer
  than three are successes and of the eight before those more than five; the time since the
  start of the clock is long enough for the number of diagnoses since the links were last good;
  and the limiter of the last hour admits it.\<close>

theorem netcheck_rule:
  assumes "ts_records (longlink_taskstatus_item s) = records_of long"
    and "ts_records (shortlink_taskstatus_item s) = records_of short"
  shows "fst (ShouldNetCheck now now2 s) \<longleftrightarrow> (check_rule long \<or> check_rule short) \<and>
     5 * 60 * 1000 + increment_steps s * (10 * 60 * 1000) \<le> gettickspan now (last_netcheck_time s) \<and>
     fst (CommFrequencyLimit_Check now2 (nc_frequency_limit s))"
  using shouldcheck_rule [of long] shouldcheck_rule [of short]
  by (auto simp: ShouldNetCheck_def Let_def assms kMinCheckTimeSpan_def kCheckTimeSpanIncrementStep_def split: prod.splits)

theorem netcheck_rule_witness:
  "fst (ShouldNetCheck 400000 400000 (NetCheckLogic_new\<lparr>longlink_taskstatus_item :=
     NetTaskStatusItem_new\<lparr>ts_records := records_of (replicate 7 False)\<rparr>\<rparr>)) \<longleftrightarrow>
   (check_rule (replicate 7 False) \<or> check_rule []) \<and> 5 * 60 * 1000 \<le> gettickspan 400000 0 \<and>
   fst (CommFrequencyLimit_Check 400000 \<lparr>cf_count = kLimitCount, time_span = kLimitTimeSpan, touch_times = []\<rparr>)"
  using netcheck_rule [of "NetCheckLogic_new\<lparr>longlink_taskstatus_item :=
     NetTaskStatusItem_new\<lparr>ts_records := records_of (replicate 7 False)\<rparr>\<rparr>" "replicate 7 False" "[]" 400000 400000]
  by (simp add: NetCheckLogic_new_def records_of_def)

end
