(* ===== verification/Timers.thy ===== *)
theory Timers
  imports Alarm
begin

text \<open>
  An alarm together with the call of its target that waits in the message queue. An alarm of
  comm/alarm.cc that is not run in a thread of its own posts \<open>__Run\<close> on its handler when it goes
  off, and \<open>Cancel\<close> takes that call out of the queue again. The active logic, the timing sync and
  the connect monitor own such alarms; what they rely on is the locale \<open>one_shot\<close>.
\<close>

section \<open>Operations\<close>

record timer =
  tm_alarm :: Alarm
  tm_run :: bool

definition timer_new :: timer where
  "timer_new = \<lparr>tm_alarm = Alarm_new, tm_run = False\<rparr>"

definition timer_start :: "alarm_env \<Rightarrow> int \<Rightarrow> int \<Rightarrow> timer \<Rightarrow> int \<times> timer" where
  "timer_start env after sg_seq t =
     (let (ok, g, a) = Alarm_Start env after sg_seq (tm_alarm t) in (g, t\<lparr>tm_alarm := a\<rparr>))"

definition timer_cancel :: "alarm_env \<Rightarrow> timer \<Rightarrow> timer" where
  "timer_cancel env t = \<lparr>tm_alarm = snd (Alarm_Cancel env (tm_alarm t)), tm_run = False\<rparr>"

definition timer_waiting :: "timer \<Rightarrow> bool" where
  "timer_waiting t \<longleftrightarrow> Alarm_IsWaiting (tm_alarm t)"

text \<open>A broadcast message reaches the alarm, and the queue takes the posted call.\<close>

definition timer_message :: "alarm_env \<Rightarrow> int \<Rightarrow> timer \<Rightarrow> timer" where
  "timer_message env body1 t =
     (let (fired, a) = Alarm_OnAlarm env body1 (tm_alarm t)
      in \<lparr>tm_alarm = a, tm_run = (tm_run t \<or> fired)\<rparr>)"

definition timer_take :: "timer \<Rightarrow> timer" where
  "timer_take t = t\<lparr>tm_run := False\<rparr>"

text \<open>The environments in which an alarm can be started.\<close>

definition alarms_work :: "alarm_env \<Rightarrow> bool" where
  "alarms_work env \<longleftrightarrow> ae_post_ok env \<and> (ae_android env \<longrightarrow> ae_startAlarm env)"

definition timer_ok :: "int \<Rightarrow> timer \<Rightarrow> bool" where
  "timer_ok sg_seq t \<longleftrightarrow> 0 \<le> sg_seq \<and> alarm_ok (tm_alarm t)"

section \<open>What the owners of an alarm rely on\<close>

text \<open>A timer is armed when it waits or its target is still to run. Every message that is sent
  carries a number other than 0.\<close>

locale one_shot =
  fixes start :: "'e \<Rightarrow> int \<Rightarrow> 'g \<Rightarrow> 't \<Rightarrow> 'g \<times> 't"
    and cancel :: "'e \<Rightarrow> 't \<Rightarrow> 't"
    and message :: "'e \<Rightarrow> int \<Rightarrow> 't \<Rightarrow> 't"
    and took :: "'t \<Rightarrow> 't"
    and waits :: "'t \<Rightarrow> bool"
    and due :: "'t \<Rightarrow> bool"
    and works :: "'e \<Rightarrow> bool"
    and sound :: "'g \<Rightarrow> 't \<Rightarrow> bool"
  assumes start_sound: "sound g t \<Longrightarrow> sound (fst (start e n g t)) (snd (start e n g t))"
    and cancel_sound: "sound g t \<Longrightarrow> sound g (cancel e t)"
    and message_sound: "sound g t \<Longrightarrow> sound g (message e m t)"
    and took_sound: "sound g t \<Longrightarrow> sound g (took t)"
    and start_waits: "sound g t \<Longrightarrow> works e \<Longrightarrow> waits (snd (start e n g t))"
    and start_due: "due (snd (start e n g t)) = due t"
    and cancel_waits: "sound g t \<Longrightarrow> \<not> waits (cancel e t)"
    and cancel_due: "\<not> due (cancel e t)"
    and message_armed: "sound g t \<Longrightarrow> m \<noteq> 0 \<Longrightarrow> waits (message e m t) \<or> due (message e m t) \<longleftrightarrow> waits t \<or> due t"
    and message_single: "sound g t \<Longrightarrow> m \<noteq> 0 \<Longrightarrow> \<not> (waits t \<and> due t) \<Longrightarrow> \<not> (waits (message e m t) \<and> due (message e m t))"
    and took_waits: "waits (took t) = waits t"
    and took_due: "\<not> due (took t)"
begin

definition armed :: "'t \<Rightarrow> bool" where
  "armed t \<longleftrightarrow> waits t \<or> due t"

lemma armed_start: "sound g t \<Longrightarrow> works e \<Longrightarrow> armed (snd (start e n g t))"
  by (simp add: armed_def start_waits)

lemma armed_cancel: "sound g t \<Longrightarrow> \<not> armed (cancel e t)"
  using cancel_due cancel_waits by (auto simp: armed_def)

lemma armed_message: "sound g t \<Longrightarrow> m \<noteq> 0 \<Longrightarrow> armed (message e m t) = armed t"
  by (simp add: armed_def message_armed)

lemma restart_single: "\<not> due (snd (start e n g (cancel e' t)))"
  by (simp add: start_due cancel_due)

lemma armed_restart: "sound g t \<Longrightarrow> works e \<Longrightarrow> armed (snd (start e n g (cancel e' t)))"
  by (simp add: armed_start cancel_sound)

lemma sound_restart:
  "sound g t \<Longrightarrow> sound (fst (start e n g (cancel e' t))) (snd (start e n g (cancel e' t)))"
  by (simp add: start_sound cancel_sound)

lemmas sound_intros = start_sound cancel_sound message_sound took_sound sound_restart

end

text \<open>The alarms of the library keep these promises.\<close>

lemma Start_counter: "0 \<le> g \<Longrightarrow> 0 \<le> fst (snd (Alarm_Start env n g a))"
  by (simp add: Alarm_Start_def Let_def INVAILD_SEQ_def)

lemma Start_works:
  "alarm_ok a \<Longrightarrow> alarms_work env \<Longrightarrow> al_status (snd (snd (Alarm_Start env n g a))) = kStart"
  by (auto simp: Alarm_Start_def Let_def alarms_work_def alarm_ok_def)

lemma message_fires:
  "alarm_ok a \<Longrightarrow> m \<noteq> 0 \<Longrightarrow>
   (al_status (snd (Alarm_OnAlarm env m a)) = kStart \<or> fst (Alarm_OnAlarm env m a)) = (al_status a = kStart)"
  by (auto simp: Alarm_OnAlarm_def Let_def alarm_ok_def INVAILD_SEQ_def split: if_splits)

lemma message_once:
  "alarm_ok a \<Longrightarrow> m \<noteq> 0 \<Longrightarrow> \<not> (al_status (snd (Alarm_OnAlarm env m a)) = kStart \<and> fst (Alarm_OnAlarm env m a))"
  by (auto simp: Alarm_OnAlarm_def Let_def split: if_splits)

lemma message_waits: "al_status (snd (Alarm_OnAlarm env m a)) = kStart \<Longrightarrow> al_status a = kStart"
  by (auto simp: Alarm_OnAlarm_def Let_def split: if_splits)

lemmas timer_defs = timer_start_def timer_cancel_def timer_message_def timer_take_def timer_waiting_def
  timer_ok_def Alarm_IsWaiting_def

interpretation tm: one_shot timer_start timer_cancel timer_message timer_take timer_waiting tm_run
  alarms_work timer_ok
proof unfold_locales
  show "timer_ok (fst (timer_start e n g t)) (snd (timer_start e n g t))" if "timer_ok g t" for e n g t
    using that Start_counter [of g e n "tm_alarm t"] alarm_ok_Start [of g "tm_alarm t" e n]
    by (simp add: timer_defs case_prod_beta)
  show "timer_waiting (snd (timer_start e n g t))" if "timer_ok g t" "alarms_work e" for e n g t
    using that Start_works [of "tm_alarm t" e n g] by (simp add: timer_defs case_prod_beta)
  show "timer_waiting (timer_message e m t) \<or> tm_run (timer_message e m t) \<longleftrightarrow> timer_waiting t \<or> tm_run t"
    if "timer_ok g t" "m \<noteq> 0" for g e m t
    using that message_fires [of "tm_alarm t" m e] by (auto simp: timer_defs case_prod_beta)
  show "\<not> (timer_waiting (timer_message e m t) \<and> tm_run (timer_message e m t))"
    if "timer_ok g t" "m \<noteq> 0" "\<not> (timer_waiting t \<and> tm_run t)" for g e m t
    using that message_once [of "tm_alarm t" m e] message_waits [of e m "tm_alarm t"]
    by (auto simp: timer_defs case_prod_beta)
  show "\<not> timer_waiting (timer_cancel e t)" if "timer_ok g t" for g e t
    using that Cancel_not_waiting [of "tm_alarm t" e] by (simp add: timer_defs)
  show "timer_ok g (timer_cancel e t)" if "timer_ok g t" for g e t
    using that by (simp add: timer_defs alarm_ok_Cancel)
  show "timer_ok g (timer_message e m t)" if "timer_ok g t" for g e m t
    using that alarm_ok_OnAlarm [of "tm_alarm t" e m] by (simp add: timer_defs case_prod_beta)
qed (simp_all add: timer_defs case_prod_beta)

lemma timer_new_ok: "0 \<le> g \<Longrightarrow> timer_ok g timer_new"
  by (simp add: timer_ok_def timer_new_def alarm_ok_new)

lemma timer_new_idle: "\<not> tm.armed timer_new"
  by (simp add: tm.armed_def timer_new_def timer_waiting_def Alarm_IsWaiting_def Alarm_new_def)

lemma timer_new_run: "\<not> tm_run timer_new"
  by (simp add: timer_new_def)

lemma timer_start_after:
  assumes "al_seq (tm_alarm t) = 0" "alarms_work e"
  shows "al_after (tm_alarm (snd (timer_start e n g t))) = n"
  using assms by (auto simp: timer_start_def Alarm_Start_def alarms_work_def INVAILD_SEQ_def Let_def)

text \<open>An environment in which alarms work, for concrete runs.\<close>

definition sample_alarms :: "u64 \<Rightarrow> alarm_env" where
  "sample_alarms now =
     \<lparr>ae_now = now, ae_post_ok = True, ae_android = False, ae_startAlarm = False, ae_stopAlarm = False\<rparr>"

lemma sample_alarms_work: "alarms_work (sample_alarms now)"
  by (simp add: alarms_work_def sample_alarms_def)

end
