(* ===== verification/Active_Logic.thy ===== *)
theory Active_Logic
  imports Timers Ticks Longlink_Task_Manager
begin

text \<open>
  Whether the application is in the foreground and active, baseevent/src/active_logic.cc, and the
  periodic request for a sync, stn/src/timing_sync.cc. Both own an alarm. \<open>SignalForeground\<close> and
  \<open>SignalActive\<close> are the entries of \<open>act_signals\<close>; a call of \<open>RequestSync\<close> is counted in
  \<open>ts_syncs\<close>. \<open>apple\<close> says that the library is built for an Apple system, where the alarm of
  the active logic is never started. The counter of the alarms is passed through the calls.
\<close>

section \<open>ActiveLogic\<close>

definition INACTIVE_TIMEOUT :: int where "INACTIVE_TIMEOUT = 10 * 60 * 1000"

datatype active_signal = SignalForeground bool | SignalActive bool

record ActiveLogic =
  act_isforeground :: bool
  act_isactive :: bool
  act_timer :: timer
  act_lastforegroundchangetime :: u64
  act_signals :: "active_signal list"

text \<open>Starting the alarm, unless the system is Apple's.\<close>

definition act_start :: "bool \<Rightarrow> alarm_env \<Rightarrow> int \<Rightarrow> ActiveLogic \<Rightarrow> int \<times> ActiveLogic" where
  "act_start apple env sg_seq s =
     (if apple then (sg_seq, s)
      else let (g, t) = timer_start env INACTIVE_TIMEOUT sg_seq (act_timer s) in (g, s\<lparr>act_timer := t\<rparr>))"

definition ActiveLogic_new :: "bool \<Rightarrow> alarm_env \<Rightarrow> int \<Rightarrow> int \<times> ActiveLogic" where
  "ActiveLogic_new apple env sg_seq =
     act_start apple env sg_seq
       \<lparr>act_isforeground = False, act_isactive = True, act_timer = timer_new,
        act_lastforegroundchangetime = ae_now env, act_signals = []\<rparr>"

definition act_signal :: "active_signal \<Rightarrow> ActiveLogic \<Rightarrow> ActiveLogic" where
  "act_signal x s = s\<lparr>act_signals := act_signals s @ [x]\<rparr>"

definition OnForeground :: "bool \<Rightarrow> alarm_env \<Rightarrow> bool \<Rightarrow> int \<Rightarrow> ActiveLogic \<Rightarrow> int \<times> ActiveLogic" where
  "OnForeground apple env isforeground sg_seq s =
     (if isforeground = act_isforeground s then (sg_seq, s)
      else
        let oldisactive = act_isactive s;
            s1 = s\<lparr>act_isactive := True, act_isforeground := isforeground,
                   act_lastforegroundchangetime := ae_now env, act_timer := timer_cancel env (act_timer s)\<rparr>;
            (g, s2) = (if \<not> isforeground then act_start apple env sg_seq s1 else (sg_seq, s1));
            s3 = act_signal (SignalForeground isforeground) s2
        in (g, if \<not> oldisactive then act_signal (SignalActive True) s3 else s3))"

definition OnInActive :: "ActiveLogic \<Rightarrow> ActiveLogic" where
  "OnInActive s =
     (let s1 = (if \<not> act_isforeground s then s\<lparr>act_isactive := False\<rparr> else s)
      in act_signal (SignalActive (act_isactive s1)) s1)"

section \<open>Runs of the active logic\<close>

text \<open>The steps of the message queue: a change between foreground and background, a broadcast
  message that reaches the alarm, and the call of its target.\<close>

inductive active_step ::
    "(alarm_env \<Rightarrow> bool) \<Rightarrow> bool \<Rightarrow> int \<times> ActiveLogic \<Rightarrow> int \<times> ActiveLogic \<Rightarrow> bool"
  for admit :: "alarm_env \<Rightarrow> bool" and apple :: bool where
  foreground: "admit env \<Longrightarrow> active_step admit apple (g, s) (OnForeground apple env b g s)"
| message: "m \<noteq> 0 \<Longrightarrow> active_step admit apple (g, s) (g, s\<lparr>act_timer := timer_message env m (act_timer s)\<rparr>)"
| run: "tm_run (act_timer s) \<Longrightarrow> active_step admit apple (g, s) (g, OnInActive (s\<lparr>act_timer := timer_take (act_timer s)\<rparr>))"

inductive active_run :: "(alarm_env \<Rightarrow> bool) \<Rightarrow> bool \<Rightarrow> int \<times> ActiveLogic \<Rightarrow> bool"
  for admit :: "alarm_env \<Rightarrow> bool" and apple :: bool where
  new: "admit env \<Longrightarrow> 0 \<le> g \<Longrightarrow> active_run admit apple (ActiveLogic_new apple env g)"
| step: "active_run admit apple c \<Longrightarrow> active_step admit apple c c' \<Longrightarrow> active_run admit apple c'"

inductive_cases active_stepE: "active_step admit apple c c'"

text \<open>The values of \<open>SignalActive\<close>, in their order.\<close>

definition actives :: "ActiveLogic \<Rightarrow> bool list" where
  "actives s = concat (map (\<lambda>x. case x of SignalActive b \<Rightarrow> [b] | _ \<Rightarrow> []) (act_signals s))"

lemma actives_signal [simp]:
  "actives (act_signal (SignalActive b) s) = actives s @ [b]"
  "actives (act_signal (SignalForeground b) s) = actives s"
  by (simp_all add: actives_def act_signal_def)

lemma act_signal_frame [simp]:
  "act_isforeground (act_signal x s) = act_isforeground s" "act_isactive (act_signal x s) = act_isactive s"
  "act_timer (act_signal x s) = act_timer s"
  by (simp_all add: act_signal_def)

lemma actives_frame [simp]:
  "actives (s\<lparr>act_timer := t\<rparr>) = actives s" "actives (s\<lparr>act_isactive := b\<rparr>) = actives s"
  "actives (s\<lparr>act_isforeground := f\<rparr>) = actives s" "actives (s\<lparr>act_lastforegroundchangetime := n\<rparr>) = actives s"
  by (simp_all add: actives_def)

lemma act_start_frame [simp]:
  "act_isforeground (snd (act_start apple env g s)) = act_isforeground s"
  "act_isactive (snd (act_start apple env g s)) = act_isactive s"
  "actives (snd (act_start apple env g s)) = actives s"
  "act_timer (snd (act_start apple env g s)) =
     (if apple then act_timer s else snd (timer_start env INACTIVE_TIMEOUT g (act_timer s)))"
  "fst (act_start apple env g s) = (if apple then g else fst (timer_start env INACTIVE_TIMEOUT g (act_timer s)))"
  by (simp_all add: act_start_def case_prod_beta)

text \<open>In the foreground the application is active and the alarm is off; in the background it is
  active exactly while the alarm is armed, where alarms work; and the signals alternate.\<close>

definition active_inv :: "(alarm_env \<Rightarrow> bool) \<Rightarrow> bool \<Rightarrow> int \<times> ActiveLogic \<Rightarrow> bool" where
  "active_inv admit apple c \<longleftrightarrow>
     (let (g, s) = c in
        timer_ok g (act_timer s) \<and> \<not> (timer_waiting (act_timer s) \<and> tm_run (act_timer s)) \<and>
        (act_isforeground s \<or> \<not> act_isactive s \<or> apple \<longrightarrow> \<not> tm.armed (act_timer s)) \<and>
        (act_isforeground s \<or> apple \<longrightarrow> act_isactive s) \<and>
        (\<not> act_isforeground s \<and> act_isactive s \<and> \<not> apple \<and> admit \<le> alarms_work \<longrightarrow> tm.armed (act_timer s)) \<and>
        (\<exists>n. actives s = concat (replicate n [False, True]) @ (if act_isactive s then [] else [False])))"

lemma replicate_snoc2: "concat (replicate n [a, b]) @ [a, b] = concat (replicate (Suc n) [a, b])"
  unfolding replicate_append_same [symmetric] replicate_Suc by simp

lemma active_inv_new: "admit env \<Longrightarrow> 0 \<le> g \<Longrightarrow> active_inv admit apple (ActiveLogic_new apple env g)"
  using timer_new_ok [of g] timer_new_idle timer_new_run tm.start_due [of env INACTIVE_TIMEOUT g timer_new]
  by (auto simp: active_inv_def ActiveLogic_new_def case_prod_beta le_fun_def actives_def [of "ActiveLogic.make _ _ _ _ _", unfolded ActiveLogic.defs]
      intro!: tm.sound_intros tm.armed_start exI [of _ 0])

lemma active_inv_foreground:
  assumes "active_inv admit apple (g, s)" "admit env"
  shows "active_inv admit apple (OnForeground apple env b g s)"
proof (cases "b = act_isforeground s")
  case False
  obtain n where n: "actives s = concat (replicate n [False, True]) @ (if act_isactive s then [] else [False])"
    and ok: "timer_ok g (act_timer s)" using assms(1) by (auto simp: active_inv_def)
  have "\<exists>n. actives (snd (OnForeground apple env b g s)) = concat (replicate n [False, True])"
    using False n replicate_snoc2 [of n False True] replicate_Suc
    by (auto simp: OnForeground_def case_prod_beta Let_def simp del: replicate_Suc)
  then show ?thesis
    using False assms(2) tm.armed_cancel [OF ok] ok
    by (auto simp: active_inv_def OnForeground_def case_prod_beta Let_def le_fun_def tm.restart_single tm.cancel_due
             intro!: tm.sound_intros tm.armed_restart)
qed (use assms(1) in \<open>simp add: OnForeground_def\<close>)

lemma active_inv_step: "active_step admit apple c c' \<Longrightarrow> active_inv admit apple c \<Longrightarrow> active_inv admit apple c'"
proof (erule active_stepE)
  fix s g assume "active_inv admit apple c" "c = (g, s)" "tm_run (act_timer s)"
    "c' = (g, OnInActive (s\<lparr>act_timer := timer_take (act_timer s)\<rparr>))"
  then show "active_inv admit apple c'"
    by (auto simp: active_inv_def OnInActive_def Let_def tm.armed_def tm.took_sound tm.took_waits tm.took_due)
next
  fix m g s env assume "active_inv admit apple c" "c = (g, s)" "m \<noteq> 0"
    "c' = (g, s\<lparr>act_timer := timer_message env m (act_timer s)\<rparr>)"
  then show "active_inv admit apple c'"
    using tm.message_single [of g "act_timer s" m env]
    by (auto simp: active_inv_def tm.sound_intros tm.armed_message)
qed (simp add: active_inv_foreground)

lemma active_inv_run: "active_run admit apple c \<Longrightarrow> active_inv admit apple c"
  by (induction rule: active_run.induct) (auto intro: active_inv_new active_inv_step)

text \<open>Where alarms can be started and the system is not Apple's, after every sequence of
  changes between foreground and background, alarm messages and calls of the alarm's target: the
  application is active exactly in the foreground and, in the background, for as long as the ten
  minute alarm is waiting or its call is still in the queue; and the signals of activity alternate,
  each one telling of a change, the last one telling the state.\<close>

theorem active_logic_states:
  assumes "active_run alarms_work False (g, s)"
  shows "(act_isactive s \<longleftrightarrow> act_isforeground s \<or> timer_waiting (act_timer s) \<or> tm_run (act_timer s)) \<and>
         (\<exists>n. actives s = concat (replicate n [False, True]) @ (if act_isactive s then [] else [False]))"
  using active_inv_run [OF assms] by (auto simp: active_inv_def tm.armed_def)

theorem active_logic_states_witness:
  "act_isactive (snd (OnForeground False (sample_alarms 9) True 2 (snd (ActiveLogic_new False (sample_alarms 5) 1))))"
proof -
  let ?s = "snd (ActiveLogic_new False (sample_alarms 5) 1)"
  have "ActiveLogic_new False (sample_alarms 5) 1 = (2, ?s)"
    by (simp add: ActiveLogic_new_def act_start_def timer_start_def Alarm_Start_def timer_new_def Alarm_new_def
        INVAILD_SEQ_def sample_alarms_def)
  moreover have "active_run alarms_work False (ActiveLogic_new False (sample_alarms 5) 1)"
    by (intro active_run.new) (simp_all add: sample_alarms_work)
  ultimately have "active_run alarms_work False (2, ?s)" by simp
  then have "active_run alarms_work False (OnForeground False (sample_alarms 9) True 2 ?s)"
    by (rule active_run.step) (intro active_step.foreground sample_alarms_work)
  then have "active_run alarms_work False (fst (OnForeground False (sample_alarms 9) True 2 ?s),
      snd (OnForeground False (sample_alarms 9) True 2 ?s))" by simp
  from active_logic_states [OF this] show ?thesis
    by (simp add: OnForeground_def ActiveLogic_new_def case_prod_beta)
qed

section \<open>TimingSync\<close>

definition ACTIVE_SYNC_INTERVAL :: int where "ACTIVE_SYNC_INTERVAL = 90 * 1000"
definition UNLOGIN_SYNC_INTERVAL :: int where "UNLOGIN_SYNC_INTERVAL = 4 * 60 * 1000"
definition INACTIVE_SYNC_INTERVAL :: int where "INACTIVE_SYNC_INTERVAL = 10 * 60 * 1000"
definition NONET_SALT_RATE :: int where "NONET_SALT_RATE = 3"

text \<open>What a call sees: the alarms, the active logic, the account and the network.\<close>

record sync_env =
  se_alarm :: alarm_env
  se_isactive :: bool
  se_logoned :: bool
  se_net :: NetType

record TimingSync =
  ts_timer :: timer
  ts_syncs :: nat

definition GetAlarmTime :: "sync_env \<Rightarrow> bool \<Rightarrow> int" where
  "GetAlarmTime env is_actived =
     (let time = (if is_actived \<and> \<not> se_logoned env then UNLOGIN_SYNC_INTERVAL
                  else if is_actived then ACTIVE_SYNC_INTERVAL else INACTIVE_SYNC_INTERVAL)
      in if se_net env = kNoNet then time * NONET_SALT_RATE else time)"

definition ts_start :: "sync_env \<Rightarrow> bool \<Rightarrow> int \<Rightarrow> TimingSync \<Rightarrow> int \<times> TimingSync" where
  "ts_start env is_actived sg_seq s =
     (let (g, t) = timer_start (se_alarm env) (GetAlarmTime env is_actived) sg_seq (ts_timer s)
      in (g, s\<lparr>ts_timer := t\<rparr>))"

definition TimingSync_new :: "sync_env \<Rightarrow> int \<Rightarrow> int \<times> TimingSync" where
  "TimingSync_new env sg_seq = ts_start env (se_isactive env) sg_seq \<lparr>ts_timer = timer_new, ts_syncs = 0\<rparr>"

definition ts_cancel :: "sync_env \<Rightarrow> TimingSync \<Rightarrow> TimingSync" where
  "ts_cancel env s = s\<lparr>ts_timer := timer_cancel (se_alarm env) (ts_timer s)\<rparr>"

definition OnActiveChanged :: "sync_env \<Rightarrow> bool \<Rightarrow> int \<Rightarrow> TimingSync \<Rightarrow> int \<times> TimingSync" where
  "OnActiveChanged env is_actived sg_seq s =
     (if timer_waiting (ts_timer s) then ts_start env is_actived sg_seq (ts_cancel env s) else (sg_seq, s))"

definition TS_OnNetworkChange :: "sync_env \<Rightarrow> int \<Rightarrow> TimingSync \<Rightarrow> int \<times> TimingSync" where
  "TS_OnNetworkChange env sg_seq s =
     (if timer_waiting (ts_timer s) then ts_start env (se_isactive env) sg_seq (ts_cancel env s) else (sg_seq, s))"

definition TS_OnLongLinkStatuChanged ::
    "sync_env \<Rightarrow> TLongLinkStatus \<Rightarrow> int \<Rightarrow> TimingSync \<Rightarrow> int \<times> TimingSync" where
  "TS_OnLongLinkStatuChanged env status sg_seq s =
     (if status = kConnected then (sg_seq, ts_cancel env s)
      else if status = kDisConnected then ts_start env (se_isactive env) sg_seq s
      else (sg_seq, s))"

definition TS_OnAlarm :: "sync_env \<Rightarrow> int \<Rightarrow> TimingSync \<Rightarrow> int \<times> TimingSync" where
  "TS_OnAlarm env sg_seq s =
     ts_start env (se_isactive env) sg_seq
       (if se_net env \<noteq> kNoNet then s\<lparr>ts_syncs := Suc (ts_syncs s)\<rparr> else s)"

text \<open>The timing sync takes no lock, and its calls come from several threads: a change of activity on
  the thread that reports it, a change of the network and the reports of the link on the queue of the
  core, the alarm's target on the default queue. Only \<open>Start\<close>, \<open>Cancel\<close> and the message of the alarm,
  which hold the lock of the alarms, and the look at \<open>IsWaiting\<close> are single steps. \<open>sync_pc\<close> is where a call
  in progress stands: before the look of \<open>OnActiveChanged\<close> (with the activity it was told) or of
  \<open>OnNetworkChange\<close> (\<open>None\<close>), before its \<open>Cancel\<close>, before its \<open>Start\<close>, or at the head of \<open>__OnAlarm\<close>.
  \<open>OnLongLinkStatuChanged\<close> is one operation on the alarm at most.\<close>

datatype sync_pc = AtCheck "bool option" | AtCancel "bool option" | AtStart "bool option" | AtSync

fun sync_call :: "sync_env \<Rightarrow> sync_pc \<Rightarrow> int \<Rightarrow> TimingSync \<Rightarrow> sync_pc option \<times> int \<times> TimingSync" where
  "sync_call env (AtCheck b) sg_seq s = (if timer_waiting (ts_timer s) then Some (AtCancel b) else None, sg_seq, s)"
| "sync_call env (AtCancel b) sg_seq s = (Some (AtStart b), sg_seq, ts_cancel env s)"
| "sync_call env (AtStart b) sg_seq s =
     (None, ts_start env (case b of None \<Rightarrow> se_isactive env | Some is_actived \<Rightarrow> is_actived) sg_seq s)"
| "sync_call env AtSync sg_seq s =
     (Some (AtStart None), sg_seq, if se_net env \<noteq> kNoNet then s\<lparr>ts_syncs := Suc (ts_syncs s)\<rparr> else s)"

text \<open>A call that no other call overlaps, for at most \<open>n\<close> steps, is the method.\<close>

fun sync_alone ::
    "sync_env \<Rightarrow> nat \<Rightarrow> sync_pc option \<times> int \<times> TimingSync \<Rightarrow> sync_pc option \<times> int \<times> TimingSync" where
  "sync_alone env (Suc n) (Some pc, g, s) = sync_alone env n (sync_call env pc g s)"
| "sync_alone env n c = c"

lemma sync_alone_calls:
  "sync_alone env 3 (Some (AtCheck (Some b)), g, s) = (None, OnActiveChanged env b g s)"
  "sync_alone env 3 (Some (AtCheck None), g, s) = (None, TS_OnNetworkChange env g s)"
  "sync_alone env 3 (Some AtSync, g, s) = (None, TS_OnAlarm env g s)"
  by (simp_all add: numeral_3_eq_3 OnActiveChanged_def TS_OnNetworkChange_def TS_OnAlarm_def)

text \<open>A call past its check is going to start the alarm.\<close>

fun will_start :: "sync_pc \<Rightarrow> bool" where
  "will_start (AtCheck b) = False"
| "will_start pc = True"

text \<open>The calls the timing sync gets, in their order, where they do not overlap.\<close>

datatype sync_event =
    SyActive bool | SyNetwork | SyStatus TLongLinkStatus | SyMessage int | SyRun

fun sync_step :: "sync_env \<times> sync_event \<Rightarrow> int \<times> TimingSync \<Rightarrow> int \<times> TimingSync" where
  "sync_step (env, SyActive b) (g, s) = OnActiveChanged env b g s"
| "sync_step (env, SyNetwork) (g, s) = TS_OnNetworkChange env g s"
| "sync_step (env, SyStatus st) (g, s) = TS_OnLongLinkStatuChanged env st g s"
| "sync_step (env, SyMessage m) (g, s) = (g, s\<lparr>ts_timer := timer_message (se_alarm env) m (ts_timer s)\<rparr>)"
| "sync_step (env, SyRun) (g, s) =
     (if tm_run (ts_timer s) then TS_OnAlarm env g (s\<lparr>ts_timer := timer_take (ts_timer s)\<rparr>) else (g, s))"

text \<open>Whether the link is connected, by the last report that tells it.\<close>

fun link_up :: "sync_event \<Rightarrow> bool \<Rightarrow> bool" where
  "link_up (SyStatus kConnected) up = True"
| "link_up (SyStatus kDisConnected) up = False"
| "link_up e up = up"

definition sync_admits :: "sync_env \<times> sync_event \<Rightarrow> bool" where
  "sync_admits x \<longleftrightarrow> alarms_work (se_alarm (fst x)) \<and> snd x \<noteq> SyMessage 0"

lemma ts_start_timer [simp]:
  "ts_timer (snd (ts_start env b g s)) = snd (timer_start (se_alarm env) (GetAlarmTime env b) g (ts_timer s))"
  "fst (ts_start env b g s) = fst (timer_start (se_alarm env) (GetAlarmTime env b) g (ts_timer s))"
  "ts_timer (ts_cancel env s) = timer_cancel (se_alarm env) (ts_timer s)"
  by (simp_all add: ts_start_def ts_cancel_def case_prod_beta)

definition sync_inv :: "bool \<Rightarrow> int \<times> TimingSync \<Rightarrow> bool" where
  "sync_inv up c \<longleftrightarrow> timer_ok (fst c) (ts_timer (snd c)) \<and> (tm.armed (ts_timer (snd c)) \<longleftrightarrow> \<not> up)"

lemma waiting_armed: "timer_waiting t \<Longrightarrow> tm.armed t" "tm_run t \<Longrightarrow> tm.armed t"
  by (simp_all add: tm.armed_def)

lemma sync_inv_step:
  assumes "sync_inv up c" "sync_admits x"
  shows "sync_inv (link_up (snd x) up) (sync_step x c)"
proof -
  obtain env e g s where x: "x = (env, e)" "c = (g, s)" by (metis prod.collapse)
  have ok: "timer_ok g (ts_timer s)" and works: "alarms_work (se_alarm env)"
    and up: "tm.armed (ts_timer s) \<longleftrightarrow> \<not> up" using assms x by (auto simp: sync_inv_def sync_admits_def)
  note rules = sync_inv_def OnActiveChanged_def TS_OnNetworkChange_def TS_OnLongLinkStatuChanged_def TS_OnAlarm_def
    tm.sound_intros tm.armed_start tm.armed_restart tm.armed_cancel tm.armed_message
  show ?thesis
  proof (cases e)
    case (SyStatus st)
    then show ?thesis using x ok works up by (cases st) (auto simp: rules)
  next
    case (SyMessage m)
    then show ?thesis using x ok works up assms(2) by (auto simp: rules sync_admits_def)
  qed (use x ok works up waiting_armed [of "ts_timer s"] in \<open>auto simp: rules\<close>)
qed

lemma sync_inv_fold:
  "sync_inv up c \<Longrightarrow> list_all sync_admits xs \<Longrightarrow> sync_inv (fold link_up (map snd xs) up) (fold sync_step xs c)"
proof (induction xs arbitrary: up c)
  case (Cons x xs)
  from Cons.IH [OF sync_inv_step [OF Cons.prems(1)], of x] Cons.prems(2) show ?case by simp
qed simp

lemma sync_inv_new: "0 \<le> g \<Longrightarrow> alarms_work (se_alarm env) \<Longrightarrow> sync_inv False (TimingSync_new env g)"
  by (simp add: sync_inv_def TimingSync_new_def timer_new_ok tm.sound_intros tm.armed_start)

text \<open>Where alarms can be started: after any sequence of calls, the timer of the periodic
  sync is waiting, or its call is in the queue, exactly when the long link has not reported that it
  is connected since it last reported that it was disconnected. The calls do not overlap here;
  \<open>Link_Services\<close> has those that do. No change of activity or of the
  network, and no run of the timer, makes the sync stop or leaves it running beside a connected
  link.\<close>

theorem sync_timer_follows_link:
  assumes "0 \<le> g" "alarms_work (se_alarm env)" "list_all sync_admits xs"
  shows "(let t = ts_timer (snd (fold sync_step xs (TimingSync_new env g)))
          in (timer_waiting t \<or> tm_run t) \<longleftrightarrow> \<not> fold link_up (map snd xs) False)"
  using sync_inv_fold [OF sync_inv_new [OF assms(1,2)] assms(3)] by (simp add: sync_inv_def tm.armed_def Let_def)

theorem sync_timer_follows_link_witness:
  "\<exists>env. let t = ts_timer (snd (fold sync_step
      [(env, SyNetwork), (env, SyStatus kConnected), (env, SyActive False), (env, SyStatus kDisConnected)]
      (TimingSync_new env 1))) in timer_waiting t \<or> tm_run t"
proof
  let ?env = "\<lparr>se_alarm = sample_alarms 7, se_isactive = True, se_logoned = True, se_net = kWifi\<rparr>"
  let ?xs = "[(?env, SyNetwork), (?env, SyStatus kConnected), (?env, SyActive False), (?env, SyStatus kDisConnected)]"
  have "0 \<le> (1 :: int)" "alarms_work (se_alarm ?env)" "list_all sync_admits ?xs"
    by (simp_all add: sample_alarms_work sync_admits_def)
  from sync_timer_follows_link [OF this]
  show "let t = ts_timer (snd (fold sync_step ?xs (TimingSync_new ?env 1))) in timer_waiting t \<or> tm_run t"
    by (simp add: Let_def)
qed

text \<open>The interval is between a minute and a half and half an hour.\<close>

lemma GetAlarmTime_bounds: "90000 \<le> GetAlarmTime env b \<and> GetAlarmTime env b \<le> 1800000"
  by (simp add: GetAlarmTime_def Let_def ACTIVE_SYNC_INTERVAL_def UNLOGIN_SYNC_INTERVAL_def
      INACTIVE_SYNC_INTERVAL_def NONET_SALT_RATE_def)

end
