(* ===== verification/Connect_Monitor.thy ===== *)
theory Connect_Monitor
  imports Active_Logic Link_Run
begin

text \<open>
  The monitor that reconnects the long link, stn/src/longlink_connect_monitor.cc. It watches the
  active logic and the status of the link, and asks the link for a connection at once or when its
  alarm goes off. The link is the record of \<open>Long_Link\<close>, whose \<open>ll_sg_seq\<close> is the counter of the
  alarms. \<open>mon_env\<close> holds what a call sees of the system: the readings of the clock in their order,
  the account, the network, the random number, whether the code is built for an Apple system, what
  the name service and the threads answer, what the rest of the link's thread does while
  \<open>Disconnect\<close> waits for it, and the callback \<open>fun_longlink_reset_\<close>. An \<open>unsigned long\<close> has 64
  bits.
\<close>

section \<open>Intervals\<close>

definition kNoNetSaltRate :: u64 where "kNoNetSaltRate = 3"
definition kNoNetSaltRise :: u64 where "kNoNetSaltRise = 600"
definition kNoAccountInfoSaltRate :: u64 where "kNoAccountInfoSaltRate = 2"
definition kNoAccountInfoSaltRise :: u64 where "kNoAccountInfoSaltRise = 300"
definition kNoAccountInfoInactiveInterval :: u64 where "kNoAccountInfoInactiveInterval = 7 * 24 * 60 * 60"

datatype connect_type = kTaskConnect | kLongLinkConnect | kNetworkChangeConnect

datatype active_state = kForgroundOneMinute | kForgroundTenMinute | kForgroundActive | kBackgroundActive | kInactive

fun sg_interval :: "connect_type \<Rightarrow> active_state \<Rightarrow> u64" where
  "sg_interval kTaskConnect kForgroundOneMinute = 5"
| "sg_interval kTaskConnect kForgroundTenMinute = 10"
| "sg_interval kTaskConnect kForgroundActive = 20"
| "sg_interval kTaskConnect kBackgroundActive = 30"
| "sg_interval kTaskConnect kInactive = 300"
| "sg_interval kLongLinkConnect kForgroundOneMinute = 15"
| "sg_interval kLongLinkConnect kForgroundTenMinute = 30"
| "sg_interval kLongLinkConnect kForgroundActive = 240"
| "sg_interval kLongLinkConnect kBackgroundActive = 300"
| "sg_interval kLongLinkConnect kInactive = 600"
| "sg_interval kNetworkChangeConnect _ = 0"

record mon_env =
  me_link :: link_env
  me_clock :: "nat \<Rightarrow> u64"
  me_username_empty :: bool
  me_net :: NetType
  me_rand :: nat
  me_apple :: bool
  me_resolves :: bool
  me_thread_ok :: bool
  me_pipe_ok :: bool
  me_rest :: "LongLink \<Rightarrow> LongLink"
  me_reset :: "LongLink \<Rightarrow> LongLink"

text \<open>The two readings of the clock are taken only where the code gets to them.\<close>

definition CurActiveState :: "u64 \<Rightarrow> u64 \<Rightarrow> ActiveLogic \<Rightarrow> active_state" where
  "CurActiveState t1 t2 a =
     (if \<not> act_isactive a then kInactive
      else if \<not> act_isforeground a then kBackgroundActive
      else if 10 * 60 * 1000 \<le> t1 - act_lastforegroundchangetime a then kForgroundActive
      else if 60 * 1000 \<le> t2 - act_lastforegroundchangetime a then kForgroundTenMinute
      else kForgroundOneMinute)"

definition Interval :: "mon_env \<Rightarrow> connect_type \<Rightarrow> ActiveLogic \<Rightarrow> u64" where
  "Interval env type a =
     (let c = me_clock env;
          interval = sg_interval type (CurActiveState (c 0) (c 1) a)
      in if type \<noteq> kLongLinkConnect then interval
         else if CurActiveState (c 2) (c 3) a = kInactive \<or> CurActiveState (c 4) (c 5) a = kForgroundActive then
           if \<not> act_isactive a \<and> me_username_empty env then kNoAccountInfoInactiveInterval
           else if me_net env = kNoNet then interval * kNoNetSaltRate + kNoNetSaltRise
           else if me_username_empty env then interval * kNoAccountInfoSaltRate + kNoAccountInfoSaltRise
           else interval + of_nat (me_rand env mod 20)
         else interval)"

section \<open>Connecting\<close>

record Monitor =
  mon_timer :: timer
  mon_status :: TLongLinkStatus
  mon_last_connect_time :: u64
  mon_last_connect_net_type :: NetType
  mon_thread :: bool
  mon_conti_suc_count :: int
  mon_isstart :: bool

definition Monitor_new :: Monitor where
  "Monitor_new = \<lparr>mon_timer = timer_new, mon_status = kDisConnected, mon_last_connect_time = 0,
     mon_last_connect_net_type = kNoNet, mon_thread = False, mon_conti_suc_count = 0, mon_isstart = False\<rparr>"

definition IntervalConnect :: "mon_env \<Rightarrow> connect_type \<Rightarrow> ActiveLogic \<Rightarrow> LongLink \<Rightarrow> u64 \<times> LongLink" where
  "IntervalConnect env type a l =
     (if ll_connectstatus l = kConnecting \<or> ll_connectstatus l = kConnected then (0, l)
      else
        let interval = Interval env type a * 1000;
            posttime = me_clock env 6 - cp_dns_time (ll_conn_profile l)
        in if interval \<le> posttime then (0, snd (snd (MakeSureConnected l)))
           else (interval - posttime, l))"

definition mon_cancel :: "mon_env \<Rightarrow> Monitor \<Rightarrow> Monitor" where
  "mon_cancel env m = m\<lparr>mon_timer := timer_cancel (le_alarm (me_link env)) (mon_timer m)\<rparr>"

definition mon_start :: "mon_env \<Rightarrow> int \<Rightarrow> LongLink \<Rightarrow> Monitor \<Rightarrow> LongLink \<times> Monitor" where
  "mon_start env after l m =
     (let (g, t) = timer_start (le_alarm (me_link env)) after (ll_sg_seq l) (mon_timer m)
      in (l\<lparr>ll_sg_seq := g\<rparr>, m\<lparr>mon_timer := t\<rparr>))"

text \<open>The remaining time is cast to an \<open>int\<close> for the alarm.\<close>

definition AutoIntervalConnect ::
    "mon_env \<Rightarrow> ActiveLogic \<Rightarrow> LongLink \<Rightarrow> Monitor \<Rightarrow> u64 \<times> LongLink \<times> Monitor" where
  "AutoIntervalConnect env a l m =
     (let m1 = mon_cancel env m;
          (remain, l1) = IntervalConnect env kLongLinkConnect a l
      in if remain = 0 then (remain, l1, m1)
         else (remain, mon_start env (s32 (uint remain)) l1 m1))"

definition Mon_MakeSureConnected :: "mon_env \<Rightarrow> ActiveLogic \<Rightarrow> LongLink \<Rightarrow> bool \<times> LongLink" where
  "Mon_MakeSureConnected env a l =
     (let l1 = snd (IntervalConnect env kTaskConnect a l) in (ll_connectstatus l1 = kConnected, l1))"

text \<open>\<open>LongLink::Disconnect\<close> with the wait for the link's thread.\<close>

definition mon_disconnect :: "mon_env \<Rightarrow> TDisconnectInternalCode \<Rightarrow> LongLink \<Rightarrow> LongLink" where
  "mon_disconnect env scene l =
     (if \<not> ll_thread l then l
      else let (recreate, l1) = LongLink_Disconnect (me_link env) scene l
           in Disconnect_joined recreate (me_pipe_ok env) (me_rest env l1))"

section \<open>The test thread of Apple systems\<close>

definition StartTimer :: "mon_env \<Rightarrow> Monitor \<Rightarrow> bool \<times> Monitor" where
  "StartTimer env m =
     (let m1 = m\<lparr>mon_conti_suc_count := 0, mon_isstart := True\<rparr>
      in if mon_thread m1 then (True, m1)
         else (me_thread_ok env, m1\<lparr>mon_thread := me_thread_ok env\<rparr>))"

definition StopTimer :: "Monitor \<Rightarrow> bool \<times> Monitor" where
  "StopTimer m = (if \<not> mon_isstart m then (True, m) else (True, m\<lparr>mon_isstart := False, mon_thread := False\<rparr>))"

definition ReConnect :: "mon_env \<Rightarrow> LongLink \<Rightarrow> LongLink" where
  "ReConnect env l = me_reset env l"

definition Mon_Run :: "mon_env \<Rightarrow> LongLink \<Rightarrow> Monitor \<Rightarrow> LongLink \<times> Monitor" where
  "Mon_Run env l m =
     (if mon_status m \<noteq> kConnected \<or> me_clock env 0 - mon_last_connect_time m \<le> 12 * 1000 \<or>
         mon_last_connect_net_type m \<noteq> kMobile \<or> me_net env = kMobile
      then (l, m\<lparr>mon_thread := False\<rparr>)
      else
        let m1 = m\<lparr>mon_conti_suc_count := (if me_resolves env then mon_conti_suc_count m + 1 else 0)\<rparr>
        in if 3 \<le> mon_conti_suc_count m1 then (ReConnect env l, m1\<lparr>mon_thread := False\<rparr>) else (l, m1))"

section \<open>Handlers\<close>

definition Mon_NetworkChange ::
    "mon_env \<Rightarrow> ActiveLogic \<Rightarrow> LongLink \<Rightarrow> Monitor \<Rightarrow> bool \<times> LongLink \<times> Monitor" where
  "Mon_NetworkChange env a l m =
     (let m1 = (if me_apple env then snd (StopTimer m) else m);
          (held, m2) =
            (if me_apple env \<and> \<not> (mon_status m1 \<noteq> kConnected \<or> me_clock env 7 - mon_last_connect_time m1 \<le> 10 * 1000) \<and>
                mon_last_connect_net_type m1 = kMobile \<and> me_net env \<noteq> kNoNet
             then StartTimer env m1 else (False, m1))
      in if held then (False, l, m2)
         else
           let (remain, l1) = IntervalConnect env kNetworkChangeConnect a (mon_disconnect env kNetworkChange l)
           in (remain = 0, l1, m2))"

definition OnSignalForeground ::
    "mon_env \<Rightarrow> ActiveLogic \<Rightarrow> bool \<Rightarrow> LongLink \<Rightarrow> Monitor \<Rightarrow> LongLink \<times> Monitor" where
  "OnSignalForeground env a isForeground l m =
     (let l1 = (if me_apple env \<and> isForeground \<and> ll_connectstatus l = kConnected \<and>
                   270000 < tick_span (me_clock env 7) (ll_lastrecvtime l)
                then ReConnect env l else l)
      in snd (AutoIntervalConnect env a l1 m))"

definition OnSignalActive ::
    "mon_env \<Rightarrow> ActiveLogic \<Rightarrow> LongLink \<Rightarrow> Monitor \<Rightarrow> LongLink \<times> Monitor" where
  "OnSignalActive env a l m = snd (AutoIntervalConnect env a l m)"

definition Mon_OnLongLinkStatuChanged ::
    "mon_env \<Rightarrow> TLongLinkStatus \<Rightarrow> LongLink \<Rightarrow> Monitor \<Rightarrow> LongLink \<times> Monitor" where
  "Mon_OnLongLinkStatuChanged env status l m =
     (let m1 = mon_cancel env m;
          (l2, m2) = (if status = kConnectFailed \<or> status = kDisConnected then mon_start env 500 l m1 else (l, m1))
      in (l2, m2\<lparr>mon_status := status, mon_last_connect_time := me_clock env 0,
                 mon_last_connect_net_type := me_net env\<rparr>))"

definition Mon_OnAlarm :: "mon_env \<Rightarrow> ActiveLogic \<Rightarrow> LongLink \<Rightarrow> Monitor \<Rightarrow> LongLink \<times> Monitor" where
  "Mon_OnAlarm env a l m = snd (AutoIntervalConnect env a l m)"

section \<open>Bounds\<close>

lemma rand_small: "(of_nat (r mod 20) :: u64) \<le> 19"
  by (simp add: word_le_nat_alt unat_of_nat take_bit_nat_eq_self)

lemma interval_salted:
  assumes "i \<in> {15, 30, 240, 300, 600 :: u64}"
  shows "i + of_nat (r mod 20) \<le> 604800"
proof -
  have "i + of_nat (r mod 20) \<le> i + 19" using assms by (intro word_plus_mono_right rand_small) auto
  also have "i + 19 \<le> 604800" using assms by auto
  finally show ?thesis .
qed

lemma sg_interval_long: "sg_interval kLongLinkConnect st \<in> {15, 30, 240, 300, 600}"
  by (cases st) simp_all

lemma Interval_le: "Interval env type a \<le> 604800"
proof (cases "type = kLongLinkConnect")
  case True
  define i where "i = sg_interval type (CurActiveState (me_clock env 0) (me_clock env 1) a)"
  have i: "i \<in> {15, 30, 240, 300, 600}" using sg_interval_long True by (simp add: i_def)
  have "Interval env type a \<in> {i, 604800, i * 3 + 600, i * 2 + 300, i + of_nat (me_rand env mod 20)}"
    using True by (simp add: Interval_def Let_def kNoAccountInfoInactiveInterval_def kNoNetSaltRate_def kNoNetSaltRise_def
        kNoAccountInfoSaltRate_def kNoAccountInfoSaltRise_def i_def)
  moreover have "i \<le> 604800" "i * 3 + 600 \<le> 604800" "i * 2 + 300 \<le> 604800" using i by auto
  ultimately show ?thesis using interval_salted [OF i] by auto
next
  case False
  then show ?thesis
    by (cases type; cases "CurActiveState (me_clock env 0) (me_clock env 1) a") (simp_all add: Interval_def Let_def)
qed

lemma Interval_ms: "unat (Interval env type a * 1000) = unat (Interval env type a) * 1000"
proof -
  have "unat (Interval env type a) \<le> 604800" using Interval_le [of env type a] by (simp add: word_le_nat_alt)
  then show ?thesis using unat_mult_lem [of "Interval env type a" 1000] by simp
qed

lemma s32_small: "0 \<le> x \<Longrightarrow> x \<le> 604800000 \<Longrightarrow> s32 x = x"
  by (simp add: s32_id)

text \<open>The time that is left fits the \<open>int\<close> of the alarm, and it ends the interval exactly.\<close>

lemma IntervalConnect_remain:
  assumes "fst (IntervalConnect env type a l) \<noteq> 0"
  shows "uint (fst (IntervalConnect env type a l)) \<le> 604800000"
    "s32 (uint (fst (IntervalConnect env type a l))) = uint (fst (IntervalConnect env type a l))"
    "fst (IntervalConnect env type a l) + (me_clock env 6 - cp_dns_time (ll_conn_profile l)) = Interval env type a * 1000"
    "snd (IntervalConnect env type a l) = l"
proof -
  let ?i = "Interval env type a * 1000" and ?p = "me_clock env 6 - cp_dns_time (ll_conn_profile l)"
  have r: "IntervalConnect env type a l = (?i - ?p, l)" and lt: "?p < ?i"
    using assms by (auto simp: IntervalConnect_def Let_def split: if_splits)
  have "unat (Interval env type a) \<le> 604800" using Interval_le [of env type a] by (simp add: word_le_nat_alt)
  then have "unat ?i \<le> 604800000" by (simp add: Interval_ms)
  moreover have "unat (?i - ?p) \<le> unat ?i" using lt by (simp add: unat_sub less_imp_le)
  ultimately have "unat (?i - ?p) \<le> 604800000" by linarith
  then have "int (unat (?i - ?p)) \<le> 604800000" by linarith
  then show b: "uint (fst (IntervalConnect env type a l)) \<le> 604800000" by (simp only: r fst_conv uint_nat)
  show "s32 (uint (fst (IntervalConnect env type a l))) = uint (fst (IntervalConnect env type a l))"
    by (rule s32_small [OF uint_ge_0 b])
  show "fst (IntervalConnect env type a l) + ?p = ?i" by (simp add: r)
  show "snd (IntervalConnect env type a l) = l" by (simp add: r)
qed

section \<open>One attempt\<close>

lemma MakeSureConnected_thread:
  "ll_connectstatus l \<noteq> kConnected \<Longrightarrow> ll_thread (snd (snd (MakeSureConnected l)))"
  by (simp add: MakeSureConnected_def)

lemma mon_start_frame [simp]:
  "mon_timer (snd (mon_start env n l m)) = snd (timer_start (le_alarm (me_link env)) n (ll_sg_seq l) (mon_timer m))"
  "fst (mon_start env n l m) =
     l\<lparr>ll_sg_seq := fst (timer_start (le_alarm (me_link env)) n (ll_sg_seq l) (mon_timer m))\<rparr>"
  "mon_timer (mon_cancel env m) = timer_cancel (le_alarm (me_link env)) (mon_timer m)"
  by (simp_all add: mon_start_def mon_cancel_def case_prod_beta)

lemma timer_restart_after:
  "alarms_work e \<Longrightarrow> al_after (tm_alarm (snd (timer_start e n g (timer_cancel e t)))) = n"
  using Cancel_free [of e "tm_alarm t"]
  by (intro timer_start_after) (simp_all add: timer_cancel_def INVAILD_SEQ_def)

text \<open>The outcome of an automatic attempt (\<open>__AutoIntervalConnect\<close>, which runs at every
  change of activity, every change between foreground and background and when the alarm goes off).
  A link that is connecting or connected is left alone. Otherwise either a thread of the link is
  running afterwards, or the alarm waits for a positive time of at most a week, exactly the time at
  which the interval since the last name lookup is over, so the cast of the remaining time to a
  32-bit \<open>int\<close> never loses anything.\<close>

theorem auto_connect_outcome:
  assumes "alarms_work (le_alarm (me_link env))" "timer_ok (ll_sg_seq l) (mon_timer m)"
  shows "(case AutoIntervalConnect env a l m of (remain, l', m') \<Rightarrow>
     if ll_connectstatus l \<in> {kConnecting, kConnected} then remain = 0 \<and> l' = l
     else if remain = 0 then ll_thread l'
     else timer_waiting (mon_timer m') \<and> al_after (tm_alarm (mon_timer m')) = uint remain \<and>
          0 < uint remain \<and> uint remain \<le> 604800000 \<and>
          (me_clock env 6 - cp_dns_time (ll_conn_profile l)) + remain = Interval env kLongLinkConnect a * 1000)"
proof (cases "fst (IntervalConnect env kLongLinkConnect a l) = 0")
  case True
  then show ?thesis
    by (auto simp: AutoIntervalConnect_def IntervalConnect_def Let_def MakeSureConnected_thread split: if_splits)
next
  case False
  note r = IntervalConnect_remain [OF False]
  let ?r = "fst (IntervalConnect env kLongLinkConnect a l)"
  have "IntervalConnect env kLongLinkConnect a l = (?r, l)" using r(4) by (metis prod.collapse)
  then have "AutoIntervalConnect env a l m = (?r, mon_start env (uint ?r) l (mon_cancel env m))"
    using False r(2,4) by (simp add: AutoIntervalConnect_def Let_def case_prod_beta)
  moreover have "\<not> ll_connectstatus l \<in> {kConnecting, kConnected}"
    using False by (auto simp: IntervalConnect_def)
  moreover have "0 < uint ?r" using False uint_ge_0 [of ?r] by (simp add: order_less_le uint_0_iff)
  ultimately show ?thesis
    using False r(1,3) assms
    by (simp add: case_prod_beta tm.start_waits tm.cancel_sound timer_restart_after add.commute)
qed

text \<open>A system for concrete runs: the clock stands at the given time, and the thread of a link that
  is told to disconnect ends its read/write loop.\<close>

definition sample_mon_env :: "u64 \<Rightarrow> mon_env" where
  "sample_mon_env now =
     \<lparr>me_link = sample_link_env, me_clock = (\<lambda>_. now), me_username_empty = False, me_net = kWifi, me_rand = 7,
      me_apple = False, me_resolves = True, me_thread_ok = True, me_pipe_ok = True,
      me_rest = (\<lambda>l. Run_end sample_link_env 0 kEctOK 0 (ll_conn_profile l) l), me_reset = (\<lambda>l. l)\<rparr>"

definition sample_active :: "bool \<Rightarrow> ActiveLogic" where
  "sample_active b = \<lparr>act_isforeground = b, act_isactive = True, act_timer = timer_new,
     act_lastforegroundchangetime = 0, act_signals = []\<rparr>"

definition sample_idle :: LongLink where
  "sample_idle = LongLink_new None True True 1"

lemma sample_mon_works: "alarms_work (le_alarm (me_link (sample_mon_env now)))"
  by (simp add: sample_mon_env_def sample_link_env_def alarms_work_def)

theorem auto_connect_outcome_witness:
  "timer_waiting (mon_timer (snd (snd (AutoIntervalConnect (sample_mon_env 1000) (sample_active False)
     sample_idle Monitor_new))))"
proof -
  have "timer_ok (ll_sg_seq sample_idle) (mon_timer Monitor_new)"
    by (simp add: sample_idle_def LongLink_new_def Monitor_new_def timer_new_ok)
  from auto_connect_outcome [OF sample_mon_works this, of 1000 "sample_active False"]
  have "fst (AutoIntervalConnect (sample_mon_env 1000) (sample_active False) sample_idle Monitor_new) \<noteq> 0 \<Longrightarrow> ?thesis"
    by (simp add: case_prod_beta sample_idle_def LongLink_new_def)
  moreover have "fst (AutoIntervalConnect (sample_mon_env 1000) (sample_active False) sample_idle Monitor_new) \<noteq> 0"
    by (simp add: AutoIntervalConnect_def IntervalConnect_def Interval_def CurActiveState_def Let_def sample_idle_def
        LongLink_new_def sample_mon_env_def sample_active_def link_profile_new_def link_profile_Reset_def
        ConnectProfile_Reset_def ConnectProfile.defs link_profile.defs case_prod_beta)
  ultimately show ?thesis by blast
qed

section \<open>The monitor and the link together\<close>

text \<open>The statuses whose report is still in the queue.\<close>

definition conn_posts :: "LongLink \<Rightarrow> TLongLinkStatus list" where
  "conn_posts l = concat (map (\<lambda>p. case p of PostConnection st \<Rightarrow> [st] | _ \<Rightarrow> []) (ll_posts l))"

text \<open>What the link does besides its status, its thread and its reports.\<close>

definition same_link :: "LongLink \<Rightarrow> LongLink \<Rightarrow> bool" where
  "same_link l l' \<longleftrightarrow> ll_connectstatus l' = ll_connectstatus l \<and> ll_thread l' = ll_thread l \<and>
     conn_posts l' = conn_posts l \<and> 0 \<le> ll_sg_seq l'"

text \<open>The steps: the monitor's handlers, its alarm, the queue that delivers the next report, and the
  link's thread. The thread reports that it connects and that it is connected; it ends after a failed
  attempt (\<open>failed\<close>) or after its read/write loop (\<open>ended\<close>), each taken as one step: the
  thread that has reported its end is gone before the alarm of half a second that the report starts.\<close>

inductive mon_step :: "LongLink \<times> Monitor \<Rightarrow> LongLink \<times> Monitor \<Rightarrow> bool" where
  active: "alarms_work (le_alarm (me_link env)) \<Longrightarrow> mon_step (l, m) (OnSignalActive env a l m)"
| foreground: "alarms_work (le_alarm (me_link env)) \<Longrightarrow> \<not> me_apple env \<Longrightarrow>
     mon_step (l, m) (OnSignalForeground env a b l m)"
| task: "mon_step (l, m) (snd (Mon_MakeSureConnected env a l), m)"
| network: "\<not> me_apple env \<Longrightarrow> ll_thread l \<Longrightarrow>
     me_rest env (snd (LongLink_Disconnect (me_link env) kNetworkChange l)) = l' \<Longrightarrow>
     \<not> ll_thread l' \<Longrightarrow> ll_connectstatus l' \<in> {kDisConnected, kConnectFailed} \<Longrightarrow> 0 \<le> ll_sg_seq l' \<Longrightarrow>
     mon_step (l, m) (snd (Mon_NetworkChange env a l m))"
| network_idle: "\<not> me_apple env \<Longrightarrow> \<not> ll_thread l \<Longrightarrow> mon_step (l, m) (snd (Mon_NetworkChange env a l m))"
| message: "n \<noteq> 0 \<Longrightarrow> mon_step (l, m) (l, m\<lparr>mon_timer := timer_message e n (mon_timer m)\<rparr>)"
| alarm: "alarms_work (le_alarm (me_link env)) \<Longrightarrow> tm_run (mon_timer m) \<Longrightarrow>
     mon_step (l, m) (Mon_OnAlarm env a l (m\<lparr>mon_timer := timer_take (mon_timer m)\<rparr>))"
| report: "alarms_work (le_alarm (me_link env)) \<Longrightarrow> ll_posts l = PostConnection st # ps \<Longrightarrow>
     mon_step (l, m) (Mon_OnLongLinkStatuChanged env st (RunPosted_link l) m)"
| connects: "ll_thread l \<Longrightarrow> st \<in> {kConnecting, kConnected} \<Longrightarrow> mon_step (l, m) (LL_ConnectStatus e st l, m)"
| failed: "ll_thread l \<Longrightarrow> ll_connectstatus l = kConnecting \<Longrightarrow> same_link (LL_ConnectStatus e kConnectFailed l) l' \<Longrightarrow>
     mon_step (l, m) (Run_unconnected e' sig p l', m)"
| ended: "ll_thread l \<Longrightarrow> ll_connectstatus l = kConnected \<Longrightarrow> mon_step (l, m) (Run_end e sig et ec p l, m)"
| other: "same_link l l' \<Longrightarrow> mon_step (l, m) (l', m)"

inductive mon_run :: "LongLink \<times> Monitor \<Rightarrow> bool" where
  asked: "0 \<le> g \<Longrightarrow> mon_run (snd (snd (MakeSureConnected (LongLink_new h p1 p2 g))), Monitor_new)"
| step: "mon_run c \<Longrightarrow> mon_step c c' \<Longrightarrow> mon_run c'"

definition down :: "TLongLinkStatus set" where
  "down = {kConnectFailed, kDisConnected}"

definition mon_inv :: "LongLink \<times> Monitor \<Rightarrow> bool" where
  "mon_inv c \<longleftrightarrow> (let (l, m) = c in
     timer_ok (ll_sg_seq l) (mon_timer m) \<and>
     (\<not> ll_thread l \<longrightarrow> ll_connectstatus l \<in> down \<and>
        (if conn_posts l = [] then tm.armed (mon_timer m) else last (conn_posts l) \<in> down)))"

text \<open>How the parts of the link's code change its status, its thread and its reports.\<close>

lemma conn_posts_frame [simp]:
  "conn_posts (l\<lparr>ll_sg_seq := g\<rparr>) = conn_posts l" "conn_posts (l\<lparr>ll_thread := b\<rparr>) = conn_posts l"
  "conn_posts (l\<lparr>ll_tracker := b\<rparr>) = conn_posts l" "conn_posts (emit ev l) = conn_posts l"
  "conn_posts (post_link (PostConnection st) l) = conn_posts l @ [st]"
  "conn_posts (post_link (PostProfile p) l) = conn_posts l"
  by (simp_all add: conn_posts_def emit_def post_link_def)

lemma posted_frame [simp]:
  "ll_thread (post_link q l) = ll_thread l" "ll_connectstatus (post_link q l) = ll_connectstatus l"
  "ll_sg_seq (post_link q l) = ll_sg_seq l"
  "ll_thread (emit ev l) = ll_thread l" "ll_connectstatus (emit ev l) = ll_connectstatus l"
  "ll_sg_seq (emit ev l) = ll_sg_seq l"
  by (simp_all add: emit_def post_link_def)

lemma NotifyConnectStatus_frame [simp]:
  "ll_thread (NotifyConnectStatus e st l) = ll_thread l"
  "ll_connectstatus (NotifyConnectStatus e st l) = ll_connectstatus l"
  "ll_sg_seq (NotifyConnectStatus e st l) = ll_sg_seq l"
  "ll_posts (NotifyConnectStatus e st l) = ll_posts l"
  by (simp_all add: NotifyConnectStatus_def on_heart_def split: TLongLinkStatus.splits)

lemma ConnectStatus_effect:
  "ll_thread (LL_ConnectStatus e st l) = ll_thread l"
  "ll_connectstatus (LL_ConnectStatus e st l) = st"
  "ll_sg_seq (LL_ConnectStatus e st l) = ll_sg_seq l"
  "conn_posts (LL_ConnectStatus e st l) = conn_posts l @ (if st = ll_connectstatus l then [] else [st])"
  by (simp_all add: LL_ConnectStatus_def Let_def) (simp_all add: conn_posts_def)

lemma Run_unconnected_effect:
  "\<not> ll_thread (Run_unconnected e sig p l)"
  "ll_connectstatus (Run_unconnected e sig p l) = ll_connectstatus l"
  "ll_sg_seq (Run_unconnected e sig p l) = ll_sg_seq l"
  "conn_posts (Run_unconnected e sig p l) = conn_posts l"
  by (simp_all add: Run_unconnected_def UpdateProfile_def)

lemma Run_end_effect:
  "\<not> ll_thread (Run_end e sig et ec p l)"
  "ll_connectstatus (Run_end e sig et ec p l) = kDisConnected"
  "ll_sg_seq (Run_end e sig et ec p l) = ll_sg_seq l"
  "conn_posts (Run_end e sig et ec p l) = conn_posts l @ (if ll_connectstatus l = kDisConnected then [] else [kDisConnected])"
  by (auto simp: Run_end_def UpdateProfile_def RunResponseError_def Let_def ConnectStatus_effect)

lemma RunPosted_effect:
  assumes "ll_posts l = PostConnection st # ps"
  shows "ll_thread (RunPosted_link l) = ll_thread l" "ll_connectstatus (RunPosted_link l) = ll_connectstatus l"
    "ll_sg_seq (RunPosted_link l) = ll_sg_seq l" "conn_posts l = st # conn_posts (RunPosted_link l)"
  using assms by (simp_all add: RunPosted_link_def conn_posts_def emit_def)

lemma MakeSureConnected_frame [simp]: "ll_sg_seq (snd (snd (MakeSureConnected l))) = ll_sg_seq l"
  "conn_posts (snd (snd (MakeSureConnected l))) = conn_posts l"
  by (simp_all add: MakeSureConnected_def conn_posts_def)

lemma IntervalConnect_frame [simp]:
  "ll_sg_seq (snd (IntervalConnect env type a l)) = ll_sg_seq l"
  "ll_thread l \<Longrightarrow> ll_thread (snd (IntervalConnect env type a l))"
  by (simp_all add: IntervalConnect_def Let_def) (simp add: MakeSureConnected_def)

lemma IntervalConnect_now:
  "ll_connectstatus l \<in> down \<Longrightarrow> fst (IntervalConnect env type a l) = 0 \<Longrightarrow> ll_thread (snd (IntervalConnect env type a l))"
  by (auto simp: IntervalConnect_def Let_def down_def MakeSureConnected_thread split: if_splits)

lemma mon_inv_task:
  assumes "mon_inv (l, m)" shows "mon_inv (snd (IntervalConnect env type a l), m)"
proof (cases "ll_thread (snd (IntervalConnect env type a l))")
  case False
  then have "\<not> ll_thread l" using IntervalConnect_frame(2) by blast
  then have "fst (IntervalConnect env type a l) \<noteq> 0"
    using assms False IntervalConnect_now [of l env type a] by (auto simp: mon_inv_def)
  from IntervalConnect_remain(4) [OF this] assms show ?thesis by simp
qed (use assms in \<open>simp add: mon_inv_def\<close>)

text \<open>An automatic attempt restores the invariant even where the alarm is off.\<close>

definition mon_weak :: "LongLink \<times> Monitor \<Rightarrow> bool" where
  "mon_weak c \<longleftrightarrow> (let (l, m) = c in
     timer_ok (ll_sg_seq l) (mon_timer m) \<and>
     (\<not> ll_thread l \<longrightarrow> ll_connectstatus l \<in> down \<and> (conn_posts l = [] \<or> last (conn_posts l) \<in> down)))"

lemma mon_inv_weak: "mon_inv c \<Longrightarrow> mon_weak c"
  by (auto simp: mon_inv_def mon_weak_def split: if_splits)

lemma mon_weak_take: "mon_weak (l, m) \<Longrightarrow> mon_weak (l, m\<lparr>mon_timer := timer_take (mon_timer m)\<rparr>)"
  by (simp add: mon_weak_def tm.took_sound)

lemma mon_inv_thread:
  "ll_thread l \<Longrightarrow> timer_ok (ll_sg_seq l) (mon_timer m) \<Longrightarrow> mon_inv (l, m)"
  by (simp add: mon_inv_def)

lemma mon_inv_auto:
  assumes "mon_weak (l, m)" "alarms_work (le_alarm (me_link env))"
  shows "mon_inv (snd (AutoIntervalConnect env a l m))"
proof (cases "fst (IntervalConnect env kLongLinkConnect a l) = 0")
  case True
  have ok: "timer_ok (ll_sg_seq l) (mon_timer m)" using assms by (simp add: mon_weak_def)
  have "ll_thread (snd (IntervalConnect env kLongLinkConnect a l))"
    using True assms IntervalConnect_now [of l env] by (cases "ll_thread l") (auto simp: mon_weak_def)
  then show ?thesis
    using True ok by (simp add: AutoIntervalConnect_def Let_def case_prod_beta mon_inv_thread tm.cancel_sound)
next
  case False
  let ?r = "fst (IntervalConnect env kLongLinkConnect a l)"
  have ok: "timer_ok (ll_sg_seq l) (mon_timer m)" using assms by (simp add: mon_weak_def)
  have "snd (AutoIntervalConnect env a l m) = mon_start env (s32 (uint ?r)) l (mon_cancel env m)"
    using False IntervalConnect_remain(4) [OF False] by (simp add: AutoIntervalConnect_def Let_def case_prod_beta)
  then show ?thesis
    using assms ok by (auto simp: mon_inv_def mon_weak_def case_prod_beta tm.sound_restart tm.armed_restart)
qed

lemma mon_inv_network:
  assumes "\<not> me_apple env" "timer_ok (ll_sg_seq l') (mon_timer m)" "ll_connectstatus l' \<in> down"
    "mon_disconnect env kNetworkChange l = l'"
  shows "mon_inv (snd (Mon_NetworkChange env a l m))"
proof -
  have "fst (IntervalConnect env kNetworkChangeConnect a l') = 0"
    using assms(3) by (auto simp: IntervalConnect_def Interval_def Let_def down_def)
  from IntervalConnect_now [OF assms(3) this] show ?thesis
    using assms by (simp add: Mon_NetworkChange_def Let_def case_prod_beta mon_inv_thread)
qed

lemma mon_inv_report:
  assumes "mon_inv (l, m)" "alarms_work (le_alarm (me_link env))" "ll_posts l = PostConnection st # ps"
  shows "mon_inv (Mon_OnLongLinkStatuChanged env st (RunPosted_link l) m)"
proof -
  have ok: "timer_ok (ll_sg_seq l) (mon_timer m)" using assms by (simp add: mon_inv_def)
  note eff = RunPosted_effect [OF assms(3)]
  have "st \<notin> down \<Longrightarrow> \<not> ll_thread l \<Longrightarrow> conn_posts (RunPosted_link l) \<noteq> []"
    using assms(1) eff(4) by (auto simp: mon_inv_def)
  then show ?thesis
    using assms(1,2) ok eff
    by (auto simp: mon_inv_def Mon_OnLongLinkStatuChanged_def Let_def case_prod_beta down_def
             tm.sound_intros tm.armed_restart split: if_splits)
qed

lemma mon_inv_step: "mon_step c c' \<Longrightarrow> mon_inv c \<Longrightarrow> mon_inv c'"
proof (induction rule: mon_step.induct)
  case (active env l m a)
  then show ?case by (simp add: OnSignalActive_def mon_inv_auto mon_inv_weak)
next
  case (foreground env l m a b)
  then show ?case by (simp add: OnSignalForeground_def mon_inv_auto mon_inv_weak)
next
  case (task l m env a)
  then show ?case by (simp add: Mon_MakeSureConnected_def Let_def mon_inv_task)
next
  case (network env l l' m a)
  let ?l = "Disconnect_joined (fst (LongLink_Disconnect (me_link env) kNetworkChange l)) (me_pipe_ok env) l'"
  have "mon_disconnect env kNetworkChange l = ?l"
    using network by (simp add: mon_disconnect_def case_prod_beta)
  moreover have "ll_connectstatus ?l = ll_connectstatus l'" "ll_sg_seq ?l = ll_sg_seq l'"
    by (simp_all add: Disconnect_joined_def)
  ultimately show ?case
    using network by (intro mon_inv_network) (auto simp: down_def mon_inv_def timer_ok_def)
next
  case (network_idle env l m a)
  then show ?case by (intro mon_inv_network [of env l]) (auto simp: mon_disconnect_def mon_inv_def)
next
  case (message n l m e)
  then show ?case by (auto simp: mon_inv_def tm.sound_intros tm.armed_message)
next
  case (alarm env m l a)
  then show ?case by (simp add: Mon_OnAlarm_def mon_inv_auto mon_weak_take mon_inv_weak)
next
  case (report env l st ps m)
  then show ?case by (intro mon_inv_report)
next
  case (connects l st m e)
  then show ?case by (simp add: mon_inv_def ConnectStatus_effect)
next
  case (failed l e l' m e' sig p)
  then show ?case
    by (auto simp: mon_inv_def Run_unconnected_effect ConnectStatus_effect same_link_def down_def timer_ok_def)
next
  case (ended l m e sig et ec p)
  then show ?case by (auto simp: mon_inv_def Run_end_effect down_def)
next
  case (other l l' m)
  then show ?case by (auto simp: mon_inv_def same_link_def timer_ok_def split: if_splits)
qed

lemma mon_inv_run: "mon_run c \<Longrightarrow> mon_inv c"
proof (induction rule: mon_run.induct)
  case (asked g h p1 p2)
  then show ?case
    by (intro mon_inv_thread) (simp_all add: MakeSureConnected_def LongLink_new_def Monitor_new_def timer_new_ok)
qed (simp add: mon_inv_step)

text \<open>C9. Once the link has been asked for a connection, the monitor never forgets it: after any
  interleaving of its handlers, its alarm, the reports of the link and the link's thread, a thread of
  the link is running, or the monitor's alarm is waiting or its call is in the queue, or the report of
  a failure or of a disconnection, which starts the alarm, is still to be delivered. Here the thread
  that reports its end is gone before the alarm that the report starts goes off, and the alarms work.\<close>

theorem reconnect_never_forgotten:
  assumes "mon_run (l, m)"
  shows "ll_thread l \<or> timer_waiting (mon_timer m) \<or> tm_run (mon_timer m) \<or>
         PostConnection kConnectFailed \<in> set (ll_posts l) \<or> PostConnection kDisConnected \<in> set (ll_posts l)"
proof -
  have posted: "st \<in> set (conn_posts l) \<Longrightarrow> PostConnection st \<in> set (ll_posts l)" for st
    by (auto simp: conn_posts_def split: link_post.splits)
  show ?thesis
  proof (cases "conn_posts l = []")
    case True
    then show ?thesis using mon_inv_run [OF assms] by (auto simp: mon_inv_def tm.armed_def)
  next
    case False
    then show ?thesis
      using mon_inv_run [OF assms] posted [of "last (conn_posts l)"] by (auto simp: mon_inv_def down_def)
  qed
qed

theorem reconnect_never_forgotten_witness:
  "\<exists>l m. mon_run (l, m) \<and> \<not> ll_thread l \<and>
     (timer_waiting (mon_timer m) \<or> tm_run (mon_timer m) \<or>
      PostConnection kConnectFailed \<in> set (ll_posts l) \<or> PostConnection kDisConnected \<in> set (ll_posts l))"
proof -
  let ?l1 = "snd (snd (MakeSureConnected (LongLink_new None True True 1)))" and ?m = Monitor_new
  let ?l2 = "LL_ConnectStatus sample_link_env kConnecting ?l1"
  let ?l3 = "LL_ConnectStatus sample_link_env kConnected ?l2"
  let ?l4 = "Run_end sample_link_env 0 kEctOK 0 (ll_conn_profile ?l3) ?l3"
  have t1: "ll_thread ?l1" by (simp add: MakeSureConnected_def LongLink_new_def)
  have "mon_run (?l1, ?m)" by (intro mon_run.asked) simp
  then have "mon_run (?l2, ?m)" by (rule mon_run.step) (intro mon_step.connects, simp_all add: t1)
  then have "mon_run (?l3, ?m)" by (rule mon_run.step) (intro mon_step.connects, simp_all add: t1 ConnectStatus_effect)
  then have "mon_run (?l4, ?m)" by (rule mon_run.step) (intro mon_step.ended, simp_all add: t1 ConnectStatus_effect)
  moreover note reconnect_never_forgotten [OF this]
  ultimately show ?thesis using Run_end_effect(1) by blast
qed

text \<open>C23. The assumption on the link's thread is needed. If the alarm goes off while the thread that
  has reported the end of its connection is still running, and the interval is over,
  \<open>MakeSureConnected\<close> starts no thread, and the remaining time 0 leaves the alarm off; when the old
  thread is gone, no thread runs, no alarm waits and no report is to come: nothing reconnects the link
  until something else happens.\<close>

theorem reconnect_lost:
  assumes "ll_thread l" "ll_connectstatus l \<in> {kConnectFailed, kDisConnected}" "conn_posts l = []"
    and "timer_ok (ll_sg_seq l) (mon_timer m)"
    and "Interval env kLongLinkConnect a * 1000 \<le> me_clock env 6 - cp_dns_time (ll_conn_profile l)"
  shows "(let (l1, m1) = Mon_OnAlarm env a l m; l2 = Run_unconnected e sig p l1
          in \<not> ll_thread l2 \<and> \<not> timer_waiting (mon_timer m1) \<and> \<not> tm_run (mon_timer m1) \<and> conn_posts l2 = [])"
proof -
  have "Mon_OnAlarm env a l m = (l, mon_cancel env m)"
    using assms(1,2,5) by (auto simp: Mon_OnAlarm_def AutoIntervalConnect_def IntervalConnect_def MakeSureConnected_def)
  then show ?thesis
    using assms(3,4) tm.cancel_waits [OF assms(4)] tm.cancel_due by (simp add: Run_unconnected_effect)
qed

theorem reconnect_lost_witness:
  "\<not> ll_thread (Run_unconnected sample_link_env 0 link_profile_new (fst (Mon_OnAlarm (sample_mon_env 500000)
     (sample_active False) (sample_link\<lparr>ll_connectstatus := kConnectFailed\<rparr>) Monitor_new))) \<and>
   \<not> timer_waiting (mon_timer (snd (Mon_OnAlarm (sample_mon_env 500000)
     (sample_active False) (sample_link\<lparr>ll_connectstatus := kConnectFailed\<rparr>) Monitor_new)))"
proof -
  let ?l = "sample_link\<lparr>ll_connectstatus := kConnectFailed\<rparr>"
  have "ll_thread ?l" "ll_connectstatus ?l \<in> {kConnectFailed, kDisConnected}" "conn_posts ?l = []"
    "timer_ok (ll_sg_seq ?l) (mon_timer Monitor_new)"
    by (simp_all add: sample_link_def conn_posts_def Monitor_new_def timer_new_ok)
  moreover have "Interval (sample_mon_env 500000) kLongLinkConnect (sample_active False) * 1000 \<le>
      me_clock (sample_mon_env 500000) 6 - cp_dns_time (ll_conn_profile ?l)"
    by (simp add: Interval_def CurActiveState_def Let_def sample_mon_env_def sample_active_def sample_link_def
        link_profile_new_def link_profile_Reset_def ConnectProfile_Reset_def ConnectProfile.defs link_profile.defs)
  ultimately show ?thesis
    using reconnect_lost [of ?l Monitor_new "sample_mon_env 500000" "sample_active False" sample_link_env 0 link_profile_new]
    by (simp add: case_prod_beta Let_def)
qed

text \<open>A change of the network on a system other than Apple's: once the link's thread has ended, the
  handler answers true and a fresh attempt is under way, whatever the interval and the time of the last
  attempt: a new thread, the status idle, nothing left to send and the breakers cleared.\<close>

theorem network_change_reconnects:
  assumes "\<not> me_apple env" "mon_disconnect env kNetworkChange l = l'" "\<not> ll_thread l'"
    and "ll_connectstatus l' \<notin> {kConnecting, kConnected}"
  shows "(case Mon_NetworkChange env a l m of (ok, l2, m2) \<Rightarrow>
     ok \<and> m2 = m \<and> ll_thread l2 \<and> ll_connectstatus l2 = kConnectIdle \<and> ll_lstsenddata l2 = [] \<and>
     ll_disconnectinternalcode l2 = kNone \<and> ll_conn_profile l2 = link_profile_Reset (ll_conn_profile l'))"
proof -
  have "IntervalConnect env kNetworkChangeConnect a l' = (0, snd (snd (MakeSureConnected l')))"
    using assms(4) by (auto simp: IntervalConnect_def Interval_def Let_def)
  then show ?thesis
    using assms by (simp add: Mon_NetworkChange_def MakeSureConnected_def case_prod_beta)
qed

theorem network_change_reconnects_witness:
  "ll_thread (fst (snd (Mon_NetworkChange (sample_mon_env 500000) (sample_active True) sample_link Monitor_new)))"
proof -
  let ?env = "sample_mon_env 500000" and ?d = "LongLink_Disconnect sample_link_env kNetworkChange sample_link"
  let ?l = "Disconnect_joined (fst ?d) True (Run_end sample_link_env 0 kEctOK 0 (ll_conn_profile (snd ?d)) (snd ?d))"
  have "\<not> me_apple ?env" "mon_disconnect ?env kNetworkChange sample_link = ?l"
    by (simp_all add: sample_mon_env_def mon_disconnect_def case_prod_beta sample_link_def)
  moreover have "\<not> ll_thread ?l" "ll_connectstatus ?l \<notin> {kConnecting, kConnected}"
    by (simp_all add: Disconnect_joined_def Run_end_effect)
  ultimately show ?thesis
    using network_change_reconnects [of ?env sample_link ?l Monitor_new "sample_active True"]
    by (simp add: case_prod_beta)
qed

end
