(* ===== verification/Udp_Client.thy ===== *)
theory Udp_Client
  imports Socket_Breaker Auto_Buffer
begin

text \<open>
  The UDP client of comm/socket/udpclient.cc in its asynchronous form: \<open>SendAsync\<close> queues a
  datagram and wakes the thread, each pass of the thread's loop waits in \<open>select\<close> and sends the
  first datagram or reads one. \<open>udp_select\<close> is what the system answers in one pass;
  \<open>uc_sent\<close> is what \<open>sendto\<close> took, with its address, and \<open>uc_events\<close> are the calls of the
  observer. A synchronous client has no observer.
\<close>

section \<open>State\<close>

datatype udp_event = UdpError int | UdpRead bytes | UdpSent

record UdpClient =
  uc_socket :: bool
  uc_addr :: "string \<times> u32"
  uc_event :: bool
  uc_breaker :: SocketBreaker
  uc_thread :: bool
  uc_list :: "bytes list"
  uc_sent :: "((string \<times> u32) \<times> bytes) list"
  uc_events :: "udp_event list"

record udp_select =
  us_ret :: int
  us_errno :: int
  us_exception :: bool
  us_break :: bool
  us_fd_exception :: bool
  us_writable :: bool
  us_readable :: bool
  us_hangup :: bool
  us_sendto :: int
  us_recvfrom :: "bytes option"
  us_socket_errno :: int

definition MAX_DATAGRAM :: nat where "MAX_DATAGRAM = 65536"

definition UdpClient_new :: "bool \<Rightarrow> bool \<Rightarrow> string \<Rightarrow> u32 \<Rightarrow> bool \<Rightarrow> UdpClient" where
  "UdpClient_new socket_ok pipe_ok ip port event =
     \<lparr>uc_socket = socket_ok, uc_addr = (ip, port), uc_event = event, uc_breaker = SocketBreaker_new pipe_ok,
      uc_thread = False, uc_list = [], uc_sent = [], uc_events = []\<rparr>"

section \<open>Operations\<close>

definition HasBuuferToSend :: "UdpClient \<Rightarrow> bool" where
  "HasBuuferToSend u \<longleftrightarrow> uc_list u \<noteq> []"

definition SetIpPort :: "string \<Rightarrow> u32 \<Rightarrow> UdpClient \<Rightarrow> UdpClient" where
  "SetIpPort ip port u = u\<lparr>uc_addr := (ip, port)\<rparr>"

definition SendAsync :: "bool \<Rightarrow> bytes \<Rightarrow> UdpClient \<Rightarrow> UdpClient" where
  "SendAsync break_ok buf u =
     (if \<not> uc_socket u \<or> \<not> uc_event u then u
      else u\<lparr>uc_list := uc_list u @ [buf], uc_thread := True,
             uc_breaker := snd (Breaker_Break break_ok (uc_breaker u))\<rparr>)"

definition udp_notify :: "udp_event \<Rightarrow> UdpClient \<Rightarrow> UdpClient" where
  "udp_notify e u = (if uc_event u then u\<lparr>uc_events := uc_events u @ [e]\<rparr> else u)"

text \<open>\<open>__DoSelect\<close>: the size handled, 0 for a timeout, -1 for an error with its number, -2 for a
  break. The selector clears the breaker after each wait. The socket is polled for one of reading and
  writing, so only that one can be answered; a hang-up is answered in both modes and counts as
  readable.\<close>

definition DoSelect :: "bool \<Rightarrow> bytes \<Rightarrow> udp_select \<Rightarrow> UdpClient \<Rightarrow> int \<times> int \<times> UdpClient" where
  "DoSelect write_set buf sel u =
     (let u1 = u\<lparr>uc_breaker := snd (Breaker_Clear (uc_breaker u))\<rparr>
      in if us_ret sel < 0 then (-1, us_errno sel, u1)
         else if us_ret sel = 0 then (0, 0, u1)
         else if us_exception sel then (-1, us_errno sel, u1)
         else if us_break sel then (-2, 0, u1)
         else if us_fd_exception sel then (-1, us_socket_errno sel, u1)
         else if write_set \<and> us_writable sel then
           if us_sendto sel = -1 then (-1, us_socket_errno sel, u1)
           else (us_sendto sel, 0, udp_notify UdpSent (u1\<lparr>uc_sent := uc_sent u1 @ [(uc_addr u1, buf)]\<rparr>))
         else if \<not> write_set \<and> us_readable sel \<or> us_hangup sel then
           case us_recvfrom sel of
             None \<Rightarrow> (-1, us_socket_errno sel, u1)
           | Some d \<Rightarrow>
               let got = take (if write_set then length buf else MAX_DATAGRAM - 1) d
               in (int (length got), 0, udp_notify (UdpRead got) u1)
         else (-1, 0, u1))"

text \<open>One pass of \<open>__RunLoop\<close>; the thread ends on an error, or on a break without an observer. Other
  threads only add at the end of the list, so the datagram taken off is the one that was sent.\<close>

definition RunLoop_pass :: "udp_select \<Rightarrow> UdpClient \<Rightarrow> UdpClient" where
  "RunLoop_pass sel u =
     (if \<not> uc_thread u then u
      else if \<not> uc_socket u then u\<lparr>uc_thread := False\<rparr>
      else
        let write_set = (uc_list u \<noteq> []);
            (ret, err, u1) = DoSelect write_set (if write_set then hd (uc_list u) else []) sel u
        in if ret = -1 then (udp_notify (UdpError err) u1)\<lparr>uc_thread := False\<rparr>
           else if ret = -2 \<and> \<not> uc_event u1 then u1\<lparr>uc_thread := False\<rparr>
           else if ret = -2 then u1
           else if write_set then u1\<lparr>uc_list := tl (uc_list u1)\<rparr>
           else u1)"

text \<open>The synchronous calls: \<open>SendBlock\<close> and \<open>ReadBlock\<close>, which waits without a timeout, whatever
  its argument says.\<close>

definition SendBlock :: "bytes \<Rightarrow> udp_select \<Rightarrow> UdpClient \<Rightarrow> int \<times> UdpClient" where
  "SendBlock buf sel u =
     (if \<not> uc_socket u \<or> uc_event u then (-1, u)
      else let (ret, err, u1) = DoSelect True buf sel u in (ret, u1))"

definition ReadBlock :: "int \<Rightarrow> udp_select \<Rightarrow> UdpClient \<Rightarrow> int \<times> UdpClient" where
  "ReadBlock timeOutMs sel u =
     (if \<not> uc_socket u \<or> uc_event u then (-1, u)
      else let (ret, err, u1) = DoSelect False [] sel u in (ret, u1))"

section \<open>The queue\<close>

text \<open>An asynchronous client is a FIFO queue: what was submitted is what was sent, in order, followed
  by what is still listed.\<close>

datatype udp_op = UdpSend bool bytes | UdpAddress string u32 | UdpPass udp_select

fun udp_step :: "udp_op \<Rightarrow> UdpClient \<Rightarrow> UdpClient" where
  "udp_step (UdpSend ok d) u = SendAsync ok d u"
| "udp_step (UdpAddress ip port) u = SetIpPort ip port u"
| "udp_step (UdpPass sel) u = RunLoop_pass sel u"

fun submitted :: "udp_op list \<Rightarrow> bytes list" where
  "submitted [] = []"
| "submitted (UdpSend ok d # xs) = d # submitted xs"
| "submitted (_ # xs) = submitted xs"

definition udp_abs :: "UdpClient \<Rightarrow> bytes list" where
  "udp_abs u = map snd (uc_sent u) @ uc_list u"

text \<open>What \<open>select\<close> without a timeout and \<open>sendto\<close> answer on a UDP socket, which is not
  connected: never 0 sockets, never a hang-up, and -1 or a size.\<close>

definition udp_plausible :: "udp_op \<Rightarrow> bool" where
  "udp_plausible op =
     (case op of UdpPass sel \<Rightarrow> us_ret sel \<noteq> 0 \<and> \<not> us_hangup sel \<and> - 1 \<le> us_sendto sel | _ \<Rightarrow> True)"

lemma udp_notify_frame [simp]:
  "uc_list (udp_notify e u) = uc_list u" "uc_sent (udp_notify e u) = uc_sent u"
  "uc_socket (udp_notify e u) = uc_socket u" "uc_event (udp_notify e u) = uc_event u"
  by (simp_all add: udp_notify_def)

lemma DoSelect_frame:
  "uc_list (snd (snd (DoSelect w b sel u))) = uc_list u"
  "uc_socket (snd (snd (DoSelect w b sel u))) = uc_socket u"
  "uc_event (snd (snd (DoSelect w b sel u))) = uc_event u"
  by (simp_all add: DoSelect_def Let_def split: option.splits)

lemma DoSelect_sent:
  "us_ret sel \<noteq> 0 \<Longrightarrow> \<not> us_hangup sel \<Longrightarrow> - 1 \<le> us_sendto sel \<Longrightarrow>
   map snd (uc_sent (snd (snd (DoSelect w b sel u)))) =
     map snd (uc_sent u) @ (if w \<and> fst (DoSelect w b sel u) \<notin> {-1, -2} then [b] else [])"
  by (auto simp: DoSelect_def Let_def split: option.splits)

lemma udp_abs_pass:
  assumes "udp_plausible (UdpPass sel)"
  shows "udp_abs (RunLoop_pass sel u) = udp_abs u"
proof -
  define w b where "w = (uc_list u \<noteq> [])" and "b = (if w then hd (uc_list u) else [])"
  obtain ret err u1 where d: "DoSelect w b sel u = (ret, err, u1)" by (metis prod.collapse)
  have "uc_list u1 = uc_list u" using DoSelect_frame(1) [of w b sel u] d by simp
  moreover have "map snd (uc_sent u1) = map snd (uc_sent u) @ (if w \<and> ret \<notin> {-1, -2} then [b] else [])"
    using DoSelect_sent [of sel w b u] assms by (simp add: d udp_plausible_def)
  moreover have "RunLoop_pass sel u =
     (if \<not> uc_thread u then u
      else if \<not> uc_socket u then u\<lparr>uc_thread := False\<rparr>
      else if ret = -1 then (udp_notify (UdpError err) u1)\<lparr>uc_thread := False\<rparr>
      else if ret = -2 \<and> \<not> uc_event u1 then u1\<lparr>uc_thread := False\<rparr>
      else if ret = -2 then u1
      else if w then u1\<lparr>uc_list := tl (uc_list u1)\<rparr> else u1)"
    using d by (simp add: RunLoop_pass_def Let_def w_def b_def)
  ultimately show ?thesis by (auto simp: udp_abs_def w_def b_def)
qed

text \<open>C18. Refinement of the asynchronous UDP client by a FIFO queue: from an open client with an
  observer, over any sequence of submissions, changes of the address and passes of the thread,
  the datagrams that \<open>sendto\<close> took, followed by those still listed, are exactly the submitted ones in
  their order. Nothing is lost, doubled or overtaken, also across errors and restarts of the thread.\<close>

theorem udp_client_fifo:
  assumes "uc_socket u" "uc_event u" "list_all udp_plausible ops"
  shows "udp_abs (fold udp_step ops u) = udp_abs u @ submitted ops"
  using assms
proof (induction ops arbitrary: u)
  case (Cons op ops)
  have "uc_socket (udp_step op u) \<and> uc_event (udp_step op u)"
    using Cons.prems DoSelect_frame
    by (cases op) (auto simp: SendAsync_def SetIpPort_def RunLoop_pass_def Let_def case_prod_beta)
  moreover have "udp_abs (udp_step op u) = udp_abs u @ submitted [op]"
  proof (cases op)
    case (UdpPass sel)
    then show ?thesis using udp_abs_pass [of sel u] Cons.prems by simp
  qed (use Cons.prems in \<open>simp_all add: SendAsync_def SetIpPort_def udp_abs_def\<close>)
  moreover have "submitted (op # ops) = submitted [op] @ submitted ops" by (cases op) simp_all
  ultimately show ?case using Cons.IH [of "udp_step op u"] Cons.prems(3) by simp
qed simp

text \<open>A pass in which the socket can be written and \<open>sendto\<close> takes the datagram or fails.\<close>

definition sample_select :: "int \<Rightarrow> udp_select" where
  "sample_select n = \<lparr>us_ret = 1, us_errno = 0, us_exception = False, us_break = False, us_fd_exception = False,
     us_writable = True, us_readable = False, us_hangup = False, us_sendto = n, us_recvfrom = None,
     us_socket_errno = 101\<rparr>"

theorem udp_client_fifo_witness:
  "udp_abs (fold udp_step [UdpSend True [1, 2], UdpSend True [3], UdpPass (sample_select 2)]
     (UdpClient_new True True ''10.0.0.1'' 80 True)) = [[1, 2], [3]]"
proof -
  have "uc_socket (UdpClient_new True True ''10.0.0.1'' 80 True)" "uc_event (UdpClient_new True True ''10.0.0.1'' 80 True)"
    "list_all udp_plausible [UdpSend True [1, 2], UdpSend True [3], UdpPass (sample_select 2)]"
    by (simp_all add: UdpClient_new_def udp_plausible_def sample_select_def)
  from udp_client_fifo [OF this] show ?thesis by (simp add: udp_abs_def UdpClient_new_def)
qed

text \<open>After an error the thread is gone and the datagram is still listed.\<close>

lemma udp_error_stops:
  assumes "uc_thread u" "uc_socket u" "fst (DoSelect (uc_list u \<noteq> []) (if uc_list u \<noteq> [] then hd (uc_list u) else []) sel u) = -1"
  shows "\<not> uc_thread (RunLoop_pass sel u)" "uc_list (RunLoop_pass sel u) = uc_list u"
  using assms DoSelect_frame(1)
  by (simp_all add: RunLoop_pass_def Let_def case_prod_beta)

end
