(* ===== verification/Signalling_Keeper.thy ===== *)
theory Signalling_Keeper
  imports Udp_Client Link_Run
begin

text \<open>
  The signalling keeper, stn/src/signalling_keeper.cc: while it keeps, every transfer on the link
  starts a timer, and the timer sends a small package over UDP, or over the long link, which
  \<open>NetCore\<close> wires to \<open>LongLink::SendWhenNoData\<close>. The timer is a delayed call of the message queue:
  \<open>sk_postid\<close> says that the keeper holds the name of a post, \<open>sk_pending\<close> that the call is still to
  run. The strategy is a pair of variables of the file that \<open>SetStrategy\<close> sets. \<open>None\<close> is an access
  outside a memory block.
\<close>

section \<open>State\<close>

record SignallingKeeper =
  sk_last_touch_time :: u64
  sk_keeping :: bool
  sk_postid :: bool
  sk_pending :: bool
  sk_ip :: string
  sk_port :: u32
  sk_udp_client :: UdpClient
  sk_use_UDP :: bool
  sk_period :: u32
  sk_keepTime :: u32

definition kSignallingKeeperTaskID :: u32 where "kSignallingKeeperTaskID = 0xFFFFFFFD"

definition SignallingKeeper_new :: "bool \<Rightarrow> bool \<Rightarrow> bool \<Rightarrow> SignallingKeeper" where
  "SignallingKeeper_new socket_ok pipe_ok use_UDP =
     \<lparr>sk_last_touch_time = 0, sk_keeping = False, sk_postid = False, sk_pending = False, sk_ip = '''', sk_port = 0,
      sk_udp_client = UdpClient_new socket_ok pipe_ok '''' 0 True, sk_use_UDP = use_UDP,
      sk_period = 5 * 1000, sk_keepTime = 20 * 1000\<rparr>"

section \<open>Operations\<close>

definition SetStrategy :: "u32 \<Rightarrow> u32 \<Rightarrow> SignallingKeeper \<Rightarrow> SignallingKeeper" where
  "SetStrategy period keep_time k =
     (if period = 0 \<or> keep_time = 0 then k else k\<lparr>sk_period := period, sk_keepTime := keep_time\<rparr>)"

text \<open>The delayed call is posted again; \<open>post_ok\<close> says that the queue took it.\<close>

definition OnNetWorkDataChanged :: "u64 \<Rightarrow> bool \<Rightarrow> SignallingKeeper \<Rightarrow> SignallingKeeper" where
  "OnNetWorkDataChanged now post_ok k =
     (if \<not> sk_keeping k then k
      else if now < sk_last_touch_time k \<or> ucast (sk_keepTime k) < now - sk_last_touch_time k
        then k\<lparr>sk_keeping := False\<rparr>
      else k\<lparr>sk_postid := post_ok, sk_pending := post_ok\<rparr>)"

text \<open>The address that the datagrams go to follows the link's profile.\<close>

definition follow_link :: "link_profile \<Rightarrow> SignallingKeeper \<Rightarrow> SignallingKeeper" where
  "follow_link p k =
     (if cp_ip p \<noteq> '''' \<and> cp_port p \<noteq> 0 \<and> cp_ip p \<noteq> sk_ip k \<and> ucast (cp_port p) \<noteq> sk_port k
      then k\<lparr>sk_ip := cp_ip p, sk_port := ucast (cp_port p)\<rparr> else k)"

definition SendSignallingBuffer ::
    "link_env \<Rightarrow> LongLink \<Rightarrow> SignallingKeeper \<Rightarrow> (LongLink \<times> SignallingKeeper) option" where
  "SendSignallingBuffer env l k =
     (if sk_use_UDP k then
        if HasBuuferToSend (sk_udp_client k) then Some (l, k)
        else
          let k1 = follow_link (ll_conn_profile l) k
          in if sk_ip k1 \<noteq> '''' \<and> sk_port k1 \<noteq> 0 then do {
               b \<leftarrow> longlink_pack (le_ok env) (le_version env) SIGNALKEEP_CMDID 0 KNullAtuoBuffer (AutoBuffer_new 128);
               Some (l, k1\<lparr>sk_udp_client := SendAsync (le_break_ok env) (contents b)
                              (SetIpPort (sk_ip k1) (sk_port k1) (sk_udp_client k1))\<rparr>)
             } else Some (l, k1)
      else do {
        (ok, l1) \<leftarrow> SendWhenNoData env KNullAtuoBuffer SIGNALKEEP_CMDID kSignallingKeeperTaskID l;
        Some (l1, k)
      })"

definition Keep :: "link_env \<Rightarrow> LongLink \<Rightarrow> SignallingKeeper \<Rightarrow> (LongLink \<times> SignallingKeeper) option" where
  "Keep env l k =
     (let k1 = k\<lparr>sk_last_touch_time := le_now env\<rparr>
      in if sk_keeping k1 then Some (l, k1)
         else do { (l1, k2) \<leftarrow> SendSignallingBuffer env l k1; Some (l1, k2\<lparr>sk_keeping := True\<rparr>) })"

definition Keeper_Stop :: "SignallingKeeper \<Rightarrow> SignallingKeeper" where
  "Keeper_Stop k =
     (if sk_keeping k \<and> sk_postid k then k\<lparr>sk_keeping := False, sk_pending := False\<rparr> else k)"

definition Keeper_OnTimeOut :: "link_env \<Rightarrow> LongLink \<Rightarrow> SignallingKeeper \<Rightarrow> (LongLink \<times> SignallingKeeper) option" where
  "Keeper_OnTimeOut env l k = SendSignallingBuffer env l (k\<lparr>sk_pending := False\<rparr>)"

text \<open>\<open>OnError\<close> and \<open>OnDataGramRead\<close> do nothing.\<close>

definition Keeper_OnDataSent :: "u64 \<Rightarrow> bool \<Rightarrow> SignallingKeeper \<Rightarrow> SignallingKeeper" where
  "Keeper_OnDataSent now post_ok k = OnNetWorkDataChanged now post_ok k"

section \<open>The package and its address\<close>

lemma SendSignallingBuffer_UDP:
  assumes "env_ok v env" "sk_use_UDP k" "uc_list (sk_udp_client k) = []"
    and "uc_socket (sk_udp_client k)" "uc_event (sk_udp_client k)"
    and "sk_ip (follow_link (ll_conn_profile l) k) \<noteq> ''''" "sk_port (follow_link (ll_conn_profile l) k) \<noteq> 0"
  shows "\<exists>k'. SendSignallingBuffer env l k = Some (l, k') \<and>
     uc_addr (sk_udp_client k') = (sk_ip (follow_link (ll_conn_profile l) k), sk_port (follow_link (ll_conn_profile l) k)) \<and>
     uc_list (sk_udp_client k') = [wire v (SIGNALKEEP_CMDID, 0, [])] \<and> uc_thread (sk_udp_client k')"
proof -
  have "body_ok KNullAtuoBuffer" using body_ok_new by (simp add: KNullAtuoBuffer_def)
  then obtain b where
    b: "longlink_pack (le_ok env) (le_version env) SIGNALKEEP_CMDID 0 KNullAtuoBuffer (AutoBuffer_new 128) = Some b"
      "contents b = wire v (SIGNALKEEP_CMDID, 0, contents KNullAtuoBuffer)"
    using pack_ok [OF assms(1)] by metis
  have "contents KNullAtuoBuffer = []" by (simp add: KNullAtuoBuffer_def)
  moreover have "sk_udp_client (follow_link p k) = sk_udp_client k" for p by (simp add: follow_link_def)
  ultimately show ?thesis
    using assms b by (simp add: SendSignallingBuffer_def HasBuuferToSend_def Let_def SendAsync_def SetIpPort_def)
qed

text \<open>The keeper compares the link's address with its own by \<open>&&\<close>: when the link has moved to
  another host on the same port, or to another port of the same host, the next package is queued
  for the old address, not for the one the link uses.\<close>

theorem keeper_stale_address:
  assumes "env_ok v env" "sk_use_UDP k" "uc_list (sk_udp_client k) = []"
    and "uc_socket (sk_udp_client k)" "uc_event (sk_udp_client k)" "sk_ip k \<noteq> ''''" "sk_port k \<noteq> 0"
    and moved: "cp_ip (ll_conn_profile l) \<noteq> sk_ip k \<longleftrightarrow> ucast (cp_port (ll_conn_profile l)) = sk_port k"
  shows "\<exists>k'. SendSignallingBuffer env l k = Some (l, k') \<and>
     uc_list (sk_udp_client k') = [wire v (SIGNALKEEP_CMDID, 0, [])] \<and>
     uc_addr (sk_udp_client k') = (sk_ip k, sk_port k) \<and>
     uc_addr (sk_udp_client k') \<noteq> (cp_ip (ll_conn_profile l), ucast (cp_port (ll_conn_profile l)))"
proof -
  have "follow_link (ll_conn_profile l) k = k" using moved by (auto simp: follow_link_def)
  then show ?thesis
    using SendSignallingBuffer_UDP [OF assms(1-5), of l] assms(6,7) moved by auto
qed

definition sample_keeper :: SignallingKeeper where
  "sample_keeper = (SignallingKeeper_new True True True)\<lparr>sk_ip := ''10.0.0.1'', sk_port := 80\<rparr>"

definition sample_moved :: LongLink where
  "sample_moved = sample_link\<lparr>ll_conn_profile := link_profile_new\<lparr>cp_ip := ''10.0.0.2'', cp_port := 80\<rparr>\<rparr>"

theorem keeper_stale_address_witness:
  "\<exists>k'. SendSignallingBuffer sample_link_env sample_moved sample_keeper = Some (sample_moved, k') \<and>
     uc_addr (sk_udp_client k') = (''10.0.0.1'', 80)"
proof -
  have "sk_use_UDP sample_keeper" "uc_list (sk_udp_client sample_keeper) = []"
    "uc_socket (sk_udp_client sample_keeper)" "uc_event (sk_udp_client sample_keeper)" "sk_ip sample_keeper \<noteq> ''''"
    "sk_port sample_keeper \<noteq> 0"
    "cp_ip (ll_conn_profile sample_moved) \<noteq> sk_ip sample_keeper \<longleftrightarrow>
     ucast (cp_port (ll_conn_profile sample_moved)) = sk_port sample_keeper"
    by (simp_all add: sample_keeper_def sample_moved_def SignallingKeeper_new_def UdpClient_new_def)
  from keeper_stale_address [OF sample_env_ok(1) this] show ?thesis
    by (auto simp: sample_keeper_def SignallingKeeper_new_def)
qed

section \<open>After an error\<close>

text \<open>The calls the keeper gets; a pass of the UDP client that sends a datagram calls
  \<open>OnDataSent\<close>.\<close>

datatype keeper_op =
    KKeep link_env LongLink | KStop | KData u64 bool | KTimeout link_env LongLink
  | KPass udp_select u64 bool | KStrategy u32 u32

definition keeper_pass :: "udp_select \<Rightarrow> u64 \<Rightarrow> bool \<Rightarrow> SignallingKeeper \<Rightarrow> SignallingKeeper" where
  "keeper_pass sel now post_ok k =
     (let u = RunLoop_pass sel (sk_udp_client k);
          k1 = k\<lparr>sk_udp_client := u\<rparr>
      in if uc_events u = uc_events (sk_udp_client k) @ [UdpSent] then Keeper_OnDataSent now post_ok k1 else k1)"

fun keeper_step :: "keeper_op \<Rightarrow> SignallingKeeper \<Rightarrow> SignallingKeeper option" where
  "keeper_step (KKeep env l) k = map_option snd (Keep env l k)"
| "keeper_step KStop k = Some (Keeper_Stop k)"
| "keeper_step (KData now ok) k = Some (OnNetWorkDataChanged now ok k)"
| "keeper_step (KTimeout env l) k = (if sk_pending k then map_option snd (Keeper_OnTimeOut env l k) else Some k)"
| "keeper_step (KPass sel now ok) k = Some (keeper_pass sel now ok k)"
| "keeper_step (KStrategy p t) k = Some (SetStrategy p t k)"

fun keeper_run :: "keeper_op list \<Rightarrow> SignallingKeeper \<Rightarrow> SignallingKeeper option" where
  "keeper_run [] k = Some k"
| "keeper_run (x # xs) k = do { k' \<leftarrow> keeper_step x k; keeper_run xs k' }"

definition keeper_dead :: "UdpClient \<Rightarrow> SignallingKeeper \<Rightarrow> bool" where
  "keeper_dead u k \<longleftrightarrow> sk_use_UDP k \<and> sk_udp_client k = u \<and> uc_list u \<noteq> [] \<and> \<not> uc_thread u"

lemma dead_send: "keeper_dead u k \<Longrightarrow> SendSignallingBuffer env l k = Some (l, k)"
  by (simp add: keeper_dead_def SendSignallingBuffer_def HasBuuferToSend_def)

lemma dead_frame:
  "keeper_dead u (k\<lparr>sk_last_touch_time := t\<rparr>) = keeper_dead u k" "keeper_dead u (k\<lparr>sk_keeping := b\<rparr>) = keeper_dead u k"
  "keeper_dead u (k\<lparr>sk_pending := b\<rparr>) = keeper_dead u k" "keeper_dead u (k\<lparr>sk_postid := b\<rparr>) = keeper_dead u k"
  "keeper_dead u (k\<lparr>sk_period := p\<rparr>) = keeper_dead u k" "keeper_dead u (k\<lparr>sk_keepTime := p\<rparr>) = keeper_dead u k"
  by (simp_all add: keeper_dead_def)

lemma dead_pass: "keeper_dead u k \<Longrightarrow> keeper_pass sel now ok k = k"
  by (simp add: keeper_dead_def keeper_pass_def RunLoop_pass_def)

lemma dead_step: "keeper_dead u k \<Longrightarrow> \<exists>k'. keeper_step x k = Some k' \<and> keeper_dead u k'"
  by (cases x) (auto simp: Keep_def Let_def Keeper_Stop_def OnNetWorkDataChanged_def Keeper_OnTimeOut_def SetStrategy_def
                  dead_frame dead_pass dead_send [where u = u])

lemma dead_run: "keeper_dead u k \<Longrightarrow> \<exists>k'. keeper_run xs k = Some k' \<and> keeper_dead u k'"
proof (induction xs arbitrary: k)
  case (Cons x xs)
  from dead_step [OF Cons.prems, of x] obtain k1 where "keeper_step x k = Some k1" "keeper_dead u k1" by blast
  then show ?case using Cons.IH by simp
qed simp

text \<open>One failed \<open>sendto\<close> ends the keeping over UDP for good. The thread of the client ends and
  leaves the datagram in its list; the keeper sends only when that list is empty, and only a
  submission restarts the thread. So after any further calls of the keeper, passes included, the list
  and everything that was ever sent are the same.\<close>

theorem keeper_dead_after_error:
  assumes "sk_use_UDP k" "uc_thread (sk_udp_client k)" "uc_socket (sk_udp_client k)"
    and "uc_list (sk_udp_client k) = d # ds"
    and "0 < us_ret sel" "\<not> us_exception sel" "\<not> us_break sel" "\<not> us_fd_exception sel"
    and "us_writable sel" "us_sendto sel = -1"
  shows "\<exists>k'. keeper_run (KPass sel now ok # xs) k = Some k' \<and>
     uc_sent (sk_udp_client k') = uc_sent (sk_udp_client k) \<and> uc_list (sk_udp_client k') = d # ds"
proof -
  let ?u = "RunLoop_pass sel (sk_udp_client k)"
  have u: "uc_sent ?u = uc_sent (sk_udp_client k)" "uc_list ?u = d # ds" "\<not> uc_thread ?u"
    using assms by (simp_all add: RunLoop_pass_def DoSelect_def Let_def)
  have "keeper_dead ?u (keeper_pass sel now ok k)"
    using assms(1) u by (auto simp: keeper_pass_def Let_def Keeper_OnDataSent_def OnNetWorkDataChanged_def keeper_dead_def)
  from dead_run [OF this, of xs] u show ?thesis by (auto simp: keeper_dead_def)
qed

theorem keeper_dead_after_error_witness:
  "\<exists>k'. keeper_run [KPass (sample_select (-1)) 9 True, KKeep sample_link_env sample_link, KPass (sample_select 16) 9 True]
     (sample_keeper\<lparr>sk_udp_client := SendAsync True [1, 2] (sk_udp_client sample_keeper)\<rparr>) = Some k' \<and>
     uc_sent (sk_udp_client k') = [] \<and> uc_list (sk_udp_client k') = [[1, 2]]"
proof -
  let ?k = "sample_keeper\<lparr>sk_udp_client := SendAsync True [1, 2] (sk_udp_client sample_keeper)\<rparr>"
  have k: "sk_use_UDP ?k" "uc_thread (sk_udp_client ?k)" "uc_socket (sk_udp_client ?k)"
    "uc_list (sk_udp_client ?k) = [1, 2] # []"
    by (simp_all add: sample_keeper_def SignallingKeeper_new_def UdpClient_new_def SendAsync_def)
  have s: "0 < us_ret (sample_select (-1))" "\<not> us_exception (sample_select (-1))" "\<not> us_break (sample_select (-1))"
    "\<not> us_fd_exception (sample_select (-1))" "us_writable (sample_select (-1))" "us_sendto (sample_select (-1)) = -1"
    by (simp_all add: sample_select_def)
  have "uc_sent (sk_udp_client ?k) = []"
    by (simp add: sample_keeper_def SignallingKeeper_new_def UdpClient_new_def SendAsync_def)
  with keeper_dead_after_error [OF k s] show ?thesis by metis
qed

end
