(* ===== verification/Speed_Test.thy ===== *)
theory Speed_Test
  imports Link_Run
begin

text \<open>
  The speed test of the long link, stn/src/longlink_speed_test.cc. An item connects to one address,
  sends a heartbeat and waits for its answer; \<open>GetFastestSocket\<close> runs the items of several addresses
  until one has its answer. \<open>speed_answer\<close> is what the system answers for the socket of one item in
  one round: the bits of the selector and what \<open>send\<close> and \<open>recv\<close> return. \<open>st_closed\<close> are the
  sockets that were closed. \<open>None\<close> is an access outside a memory block.
\<close>

section \<open>An item\<close>

definition kCmdIdOutOfBand :: u32 where "kCmdIdOutOfBand = 72"

datatype ELongLinkSpeedTestState =
    kLongLinkSpeedTestConnecting | kLongLinkSpeedTestReq | kLongLinkSpeedTestResp
  | kLongLinkSpeedTestOOB | kLongLinkSpeedTestSuc | kLongLinkSpeedTestFail

record SpeedTestItem =
  si_ip :: string
  si_port :: u32
  si_socket :: int
  si_state :: ELongLinkSpeedTestState
  si_before_connect_time :: u64
  si_after_connect_time :: u64
  si_req :: AutoBuffer
  si_resp :: AutoBuffer

record speed_answer =
  sa_exception :: bool
  sa_writable :: bool
  sa_readable :: bool
  sa_send :: int
  sa_recv :: "bytes option"

text \<open>\<open>sock\<close> is what \<open>socket\<close> answers; an error of \<open>connect\<close> is only logged.\<close>

definition SpeedTestItem_new :: "link_env \<Rightarrow> int \<Rightarrow> bool \<Rightarrow> string \<Rightarrow> u16 \<Rightarrow> SpeedTestItem option" where
  "SpeedTestItem_new env sock nobio_ok ip port =
     do {
       req \<leftarrow> longlink_pack (le_ok env) (le_version env) NOOP_CMDID kNoopTaskID (AutoBuffer_new 128) (AutoBuffer_new 128);
       let item = \<lparr>si_ip = ip, si_port = ucast port, si_socket = sock, si_state = kLongLinkSpeedTestConnecting,
                   si_before_connect_time = 0, si_after_connect_time = 0, si_req = Seek 0 ESeekStart req,
                   si_resp = AutoBuffer_new 128\<rparr>;
       Some (if sock = -1 then item
             else if \<not> nobio_ok then item\<lparr>si_socket := -1\<rparr>
             else item\<lparr>si_before_connect_time := le_now env\<rparr>)
     }"

definition HandleSpeedTestReq :: "speed_answer \<Rightarrow> SpeedTestItem \<Rightarrow> ELongLinkSpeedTestState \<times> SpeedTestItem" where
  "HandleSpeedTestReq ans item =
     (if sa_send ans \<le> 0 then (kLongLinkSpeedTestFail, item)
      else
        let req = Seek (sa_send ans) ESeekCur (si_req item);
            item1 = item\<lparr>si_req := req\<rparr>
        in (if PosLength req \<le> 0 then kLongLinkSpeedTestResp else kLongLinkSpeedTestReq, item1))"

text \<open>\<open>recv\<close> at the position of the buffer, limited by its capacity.\<close>

definition resp_recv :: "link_env \<Rightarrow> bytes \<Rightarrow> AutoBuffer \<Rightarrow> AutoBuffer option" where
  "resp_recv env d b =
     (let got = take (ab_capacity b - nat (ab_pos b)) d
      in if ab_pos b < 0 \<or> int (length (block b)) < ab_pos b + int (length got) then None
         else Some (Length_set (int (length got) + ab_pos b) (ab_length b + length got)
                (b\<lparr>ab_parray := Some (mem_write (nat (ab_pos b)) got (block b))\<rparr>)))"

definition HandleSpeedTestResp ::
    "link_env \<Rightarrow> speed_answer \<Rightarrow> SpeedTestItem \<Rightarrow> (ELongLinkSpeedTestState \<times> SpeedTestItem) option" where
  "HandleSpeedTestResp env ans item =
     do {
       b \<leftarrow> (if int (ab_capacity (si_resp item)) - ab_pos (si_resp item) = 0
             then AddCapacity (le_ok env) (if ab_capacity (si_resp item) = 0 then 1024 else ab_capacity (si_resp item))
                    (si_resp item)
             else Some (si_resp item));
       case sa_recv ans of
         None \<Rightarrow> Some (kLongLinkSpeedTestFail, item\<lparr>si_resp := b\<rparr>)
       | Some d \<Rightarrow>
           if d = [] then Some (kLongLinkSpeedTestFail, item\<lparr>si_resp := b\<rparr>)
           else do {
             b1 \<leftarrow> resp_recv env d b;
             let item1 = item\<lparr>si_resp := b1\<rparr>;
             (ret, out, body) \<leftarrow> longlink_unpack (le_ok env) (le_version env) b1
               \<lparr>uo_cmdid = 0, uo_seq = 0, uo_package_len = 0, uo_body_len = 0\<rparr> (AutoBuffer_new 128);
             if ret = LONGLINK_UNPACK_FALSE then Some (kLongLinkSpeedTestFail, item1)
             else if ret = LONGLINK_UNPACK_CONTINUE then Some (kLongLinkSpeedTestResp, item1)
             else if kCmdIdOutOfBand = uo_cmdid out then do {
               _ \<leftarrow> ptr_read body 16 8;
               Some (kLongLinkSpeedTestOOB, item1\<lparr>si_resp := Reset b1\<rparr>)
             }
             else if longlink_noop_isresp kNoopTaskID (uo_cmdid out) (uo_seq out)
               then Some (kLongLinkSpeedTestSuc, item1)
             else Some (kLongLinkSpeedTestFail, item1)
           }
     }"

definition HandleFDISSet :: "link_env \<Rightarrow> speed_answer \<Rightarrow> SpeedTestItem \<Rightarrow> SpeedTestItem option" where
  "HandleFDISSet env ans item =
     (if si_state item = kLongLinkSpeedTestFail \<or> si_state item = kLongLinkSpeedTestSuc then Some item
      else if sa_exception ans then Some (item\<lparr>si_state := kLongLinkSpeedTestFail\<rparr>)
      else if sa_writable ans then
        let item1 = (if si_state item = kLongLinkSpeedTestConnecting
                     then item\<lparr>si_after_connect_time := le_now env\<rparr> else item);
            (st, item2) = HandleSpeedTestReq ans item1
        in Some (item2\<lparr>si_state := st\<rparr>)
      else if sa_readable ans then do {
        (st, item1) \<leftarrow> HandleSpeedTestResp env ans item;
        Some (item1\<lparr>si_state := st\<rparr>)
      }
      else Some item)"

text \<open>Which events an item waits for: writing, reading.\<close>

fun HandleSetFD :: "ELongLinkSpeedTestState \<Rightarrow> bool \<times> bool" where
  "HandleSetFD kLongLinkSpeedTestConnecting = (True, True)"
| "HandleSetFD kLongLinkSpeedTestOOB = (True, True)"
| "HandleSetFD kLongLinkSpeedTestReq = (True, True)"
| "HandleSetFD kLongLinkSpeedTestResp = (False, True)"
| "HandleSetFD _ = (False, False)"

definition GetConnectTime :: "SpeedTestItem \<Rightarrow> u64" where
  "GetConnectTime item = si_after_connect_time item - si_before_connect_time item"

definition CloseSocket :: "SpeedTestItem \<Rightarrow> int list \<Rightarrow> SpeedTestItem \<times> int list" where
  "CloseSocket item closed =
     (if 0 < si_socket item then (item\<lparr>si_socket := -1\<rparr>, closed @ [si_socket item]) else (item, closed))"

section \<open>Several items\<close>

record speed_round =
  sr_ret :: int
  sr_eintr :: bool
  sr_exception :: bool
  sr_break :: bool
  sr_answers :: "nat \<Rightarrow> speed_answer"

text \<open>The items of one round, up to the first one with its answer: whether there is one, the number
  of failed items and the items.\<close>

fun speed_pass :: "link_env \<Rightarrow> (SpeedTestItem \<times> speed_answer) list \<Rightarrow> nat \<Rightarrow> (bool \<times> nat \<times> SpeedTestItem list) option" where
  "speed_pass env [] fails = Some (False, fails, [])"
| "speed_pass env ((item, ans) # xs) fails =
     do {
       item1 \<leftarrow> HandleFDISSet env ans item;
       if si_state item1 = kLongLinkSpeedTestSuc then Some (True, fails, item1 # map fst xs)
       else do {
         (found, n, items) \<leftarrow> speed_pass env xs (if si_state item1 = kLongLinkSpeedTestFail then Suc fails else fails);
         Some (found, n, item1 # items)
       }
     }"

text \<open>The rounds of \<open>select\<close>; \<open>Unfinished\<close> is a loop that waits for more than the given ones.\<close>

fun speed_loop :: "link_env \<Rightarrow> speed_round list \<Rightarrow> nat \<Rightarrow> SpeedTestItem list \<Rightarrow> SpeedTestItem list exec" where
  "speed_loop env [] tryCount items = Unfinished"
| "speed_loop env (r # rs) tryCount items =
     (if sr_ret r = 0 then Finished items
      else if sr_ret r < 0 then
        if sr_eintr r \<and> tryCount < 3 then speed_loop env rs (tryCount + 1) items else Finished items
      else if sr_exception r \<or> sr_break r then Finished items
      else case speed_pass env (zip items (map (sr_answers r) [0..<length items])) 0 of
             None \<Rightarrow> Fault
           | Some (found, fails, items1) \<Rightarrow>
               if found \<or> fails = length items then Finished items1 else speed_loop env rs tryCount items1)"

text \<open>The end of \<open>GetFastestSocket\<close>: the socket and the connect time of the first item with its answer;
  the sockets of the others are closed, and deleting an item closes its socket as well.\<close>

fun speed_collect ::
    "SpeedTestItem list \<Rightarrow> (int \<times> u64) option \<Rightarrow> int list \<Rightarrow> (int \<times> u64) option \<times> int list" where
  "speed_collect [] best closed = (best, closed)"
| "speed_collect (item # items) best closed =
     (let (best1, item1, closed1) =
            (if si_state item = kLongLinkSpeedTestSuc \<and> best = None
             then (Some (si_socket item, GetConnectTime item), item, closed)
             else let (i, c) = CloseSocket item closed in (best, i, c));
          (item2, closed2) = CloseSocket item1 closed1
      in speed_collect items best1 closed2)"

text \<open>The type, the address and the port that the caller gets: those of the last item with an answer,
  looked up among the addresses of the test.\<close>

definition speed_address ::
    "IPPortItem list \<Rightarrow> SpeedTestItem list \<Rightarrow> (IPSourceType \<times> string \<times> u32) option" where
  "speed_address ips items =
     fold (\<lambda>item r.
        case find (\<lambda>a. str_ip a = si_ip item \<and> ucast (ipport a) = si_port item) ips of
          None \<Rightarrow> r
        | Some a \<Rightarrow> if si_state item = kLongLinkSpeedTestSuc
                    then Some (source_type a, str_ip a, si_port item) else r) items None"

text \<open>The items for the addresses; \<open>socks\<close> are the answers of \<open>socket\<close> and of making it
  non-blocking.\<close>

fun speed_items :: "link_env \<Rightarrow> (int \<times> bool) list \<Rightarrow> IPPortItem list \<Rightarrow> SpeedTestItem list option" where
  "speed_items env ((sock, nobio_ok) # socks) (a # ips) =
     do { item \<leftarrow> SpeedTestItem_new env sock nobio_ok (str_ip a) (ipport a);
          items \<leftarrow> speed_items env socks ips;
          Some (item # items) }"
| "speed_items env _ _ = Some []"

text \<open>\<open>ips\<close> is the answer of \<open>GetLongLinkSpeedTestIPs\<close>. The results are the socket with its connect
  time, the address, and the closed sockets.\<close>

definition GetFastestSocket ::
    "link_env \<Rightarrow> (int \<times> bool) list \<Rightarrow> speed_round list \<Rightarrow> IPPortItem list option
     \<Rightarrow> ((int \<times> u64) option \<times> (IPSourceType \<times> string \<times> u32) option \<times> int list) exec" where
  "GetFastestSocket env socks rounds ips =
     (case ips of
        None \<Rightarrow> Finished (None, None, [])
      | Some addrs \<Rightarrow>
          case speed_items env socks addrs of
            None \<Rightarrow> Fault
          | Some items \<Rightarrow>
              case speed_loop env rounds 0 items of
                Finished items1 \<Rightarrow>
                  let (best, closed) = speed_collect items1 None []
                  in Finished (best, speed_address addrs items1, closed)
              | Fault \<Rightarrow> Fault
              | Unfinished \<Rightarrow> Unfinished)"

section \<open>A test that is answered\<close>

text \<open>The buffer of the answer after the bytes \<open>q\<close>.\<close>

definition resp_holds :: "bytes \<Rightarrow> AutoBuffer \<Rightarrow> bool" where
  "resp_holds q b \<longleftrightarrow> wf_buffer b \<and> contents b = q \<and> ab_pos b = int (ab_length b) \<and> ab_malloc_unitsize b = 128 \<and>
     (if q = [] then ab_capacity b = 0 else 1024 \<le> ab_capacity b)"

lemma resp_holds_new: "resp_holds [] (AutoBuffer_new 128)"
  using wf_AutoBuffer_new [of 128] by (simp add: resp_holds_def) (simp add: AutoBuffer_new_def)

lemma resp_grown:
  assumes "resp_holds q b" "length q < 1024" "\<And>m. ok m"
  obtains b1 where "(if int (ab_capacity b) - ab_pos b = 0
      then AddCapacity ok (if ab_capacity b = 0 then 1024 else ab_capacity b) b else Some b) = Some b1"
    "wf_buffer b1" "contents b1 = q" "ab_pos b1 = int (ab_length b1)" "ab_malloc_unitsize b1 = 128" "1024 \<le> ab_capacity b1"
proof (cases "q = []")
  case True
  then have c0: "ab_capacity b = 0" "ab_pos b = 0" "wf_buffer b"
    using assms(1) length_contents [of b] by (auto simp: resp_holds_def)
  have room: "room 1024 b" using assms(1) by (simp add: room_def resp_holds_def)
  obtain b' k where b': "FitSize ok 1024 b = Some b'" "block b' = block b @ replicate k 0" "wf_buffer b'"
      "1024 \<le> ab_capacity b'" "ab_length b' = ab_length b" "ab_pos b' = ab_pos b" "ab_malloc_unitsize b' = ab_malloc_unitsize b"
    by (rule FitSize_grows [where ok = ok, OF c0(3) room assms(3)])
  moreover have "contents b' = q" using b' True c0 assms(1) by (simp add: contents_def wf_buffer_def)
  ultimately show ?thesis
    using that [of b'] c0 assms(1) by (simp add: AddCapacity_def resp_holds_def sz_id)
next
  case False
  have "length q = ab_length b" using assms(1) length_contents by (auto simp: resp_holds_def)
  then show ?thesis using that [of b] assms(1,2) False by (simp add: resp_holds_def)
qed

lemma resp_recv_appends:
  assumes "wf_buffer b" "ab_pos b = int (ab_length b)" "ab_length b + length d \<le> ab_capacity b"
  obtains b1 where "resp_recv env d b = Some b1" "wf_buffer b1" "contents b1 = contents b @ d"
    "ab_pos b1 = int (ab_length b1)" "ab_malloc_unitsize b1 = ab_malloc_unitsize b" "ab_capacity b1 = ab_capacity b"
proof -
  let ?m = "mem_write (ab_length b) d (block b)"
  let ?b1 = "Length_set (int (length d) + ab_pos b) (ab_length b + length d) (b\<lparr>ab_parray := Some ?m\<rparr>)"
  have blk: "length (block b) = ab_capacity b" using assms(1) by (simp add: wf_buffer_def)
  have "resp_recv env d b = Some ?b1"
    using assms blk by (simp add: resp_recv_def Let_def)
  moreover have "contents ?b1 = contents b @ d"
    using assms(3) blk take_mem_write [of "ab_length b" d "ab_length b + length d" "block b"]
    by (simp add: Length_set_def contents_def)
  moreover have "ab_pos ?b1 = int (ab_length ?b1)" using assms(2) by (simp add: Length_set_def Seek_def)
  moreover have "wf_buffer ?b1"
    using assms blk by (simp add: wf_buffer_def Length_set_def Seek_def Let_def block_def)
  ultimately show ?thesis using that [of ?b1] by (simp add: Length_set_def)
qed

definition reading :: "bytes \<Rightarrow> speed_answer" where
  "reading d = \<lparr>sa_exception = False, sa_writable = False, sa_readable = True, sa_send = 0, sa_recv = Some d\<rparr>"

fun speed_reads :: "link_env \<Rightarrow> bytes list \<Rightarrow> SpeedTestItem \<Rightarrow> SpeedTestItem option" where
  "speed_reads env [] item = Some item"
| "speed_reads env (d # ds) item = do { item1 \<leftarrow> HandleFDISSet env (reading d) item; speed_reads env ds item1 }"

text \<open>The answer to a heartbeat, in a buffer that holds the bytes \<open>q\<close>: complete or a part.\<close>

definition noop_answer :: "u32 \<Rightarrow> bytes" where
  "noop_answer v = wire v (NOOP_CMDID, kNoopTaskID, [])"

lemma noop_answer_length: "length (noop_answer v) = 20"
  by (simp add: noop_answer_def header_size_def)

lemma noop_unpack:
  assumes "wf_buffer b" "contents b = q" "prefix q (noop_answer v)" "\<And>m. ok m"
  shows "\<exists>out body. longlink_unpack ok v b \<lparr>uo_cmdid = 0, uo_seq = 0, uo_package_len = 0, uo_body_len = 0\<rparr>
      (AutoBuffer_new 128) = Some (if q = noop_answer v then LONGLINK_UNPACK_OK else LONGLINK_UNPACK_CONTINUE, out, body) \<and>
      (q = noop_answer v \<longrightarrow> uo_cmdid out = NOOP_CMDID)"
proof -
  have len: "ab_length b = length q" using assms(2) length_contents [OF assms(1)] by simp
  have "length q \<le> 20" using assms(3) prefix_length_le noop_answer_length by metis
  then have l64: "ab_length b < 2 ^ 64" using len by simp
  show ?thesis
  proof (cases "q = noop_answer v")
    case True
    have c: "contents b = frame v NOOP_CMDID kNoopTaskID [] @ []" using True assms(2) by (simp add: noop_answer_def)
    have small: "header_size + length ([] :: bytes) \<le> 1024 * 1024" by (simp add: header_size_def)
    have body: "wf_buffer (AutoBuffer_new 128)" "room (1024 * 1024) (AutoBuffer_new 128)" "contents (AutoBuffer_new 128) = []"
      using wf_AutoBuffer_new [of 128] by (simp_all add: room_def) (simp add: AutoBuffer_new_def)
    show ?thesis
      by (rule longlink_unpack_frame [where ok = ok, OF assms(1) l64 c small body assms(4)]) (auto simp: True)
  next
    case False
    then have "strict_prefix q (wire v (NOOP_CMDID, kNoopTaskID, []))"
      using assms(3) by (simp add: strict_prefix_def noop_answer_def)
    moreover have "regular (NOOP_CMDID, kNoopTaskID, [])"
      by (simp add: header_size_def kNoopTaskID_def kLongLinkIdentifyCheckerTaskID_def NOOP_CMDID_def)
    ultimately obtain out where "unpack_test v q (of_nat (length q) :: u64)
        \<lparr>uo_cmdid = 0, uo_seq = 0, uo_package_len = 0, uo_body_len = 0\<rparr> = (LONGLINK_UNPACK_CONTINUE, out)"
      using unpack_test_partial by blast
    then show ?thesis using False assms(2) len by (simp add: longlink_unpack_def)
  qed
qed

lemma speed_read_one:
  assumes e: "env_ok v env" and item: "si_state item = kLongLinkSpeedTestResp" "resp_holds q (si_resp item)"
    and d: "d \<noteq> []" "prefix (q @ d) (noop_answer v)"
  shows "\<exists>item'. HandleFDISSet env (reading d) item = Some item' \<and>
     (if q @ d = noop_answer v then si_state item' = kLongLinkSpeedTestSuc
      else si_state item' = kLongLinkSpeedTestResp \<and> resp_holds (q @ d) (si_resp item'))"
proof -
  have ok: "\<And>m. le_ok env m" and ver: "le_version env = v" using e by (auto simp: env_ok_def)
  have len: "length q + length d \<le> 20" using prefix_length_le [OF d(2)] by (simp add: noop_answer_length)
  then have q: "length q < 1024" by linarith
  obtain b1 where b1: "(if int (ab_capacity (si_resp item)) - ab_pos (si_resp item) = 0
      then AddCapacity (le_ok env) (if ab_capacity (si_resp item) = 0 then 1024 else ab_capacity (si_resp item)) (si_resp item)
      else Some (si_resp item)) = Some b1"
    "wf_buffer b1" "contents b1 = q" "ab_pos b1 = int (ab_length b1)" "ab_malloc_unitsize b1 = 128" "1024 \<le> ab_capacity b1"
    by (rule resp_grown [where ok = "le_ok env", OF item(2) q ok])
  have cap: "ab_length b1 + length d \<le> ab_capacity b1" using length_contents [OF b1(2)] b1(3,6) len by simp
  obtain b2 where b2: "resp_recv env d b1 = Some b2" "wf_buffer b2" "contents b2 = contents b1 @ d"
    "ab_pos b2 = int (ab_length b2)" "ab_malloc_unitsize b2 = ab_malloc_unitsize b1" "ab_capacity b2 = ab_capacity b1"
    by (rule resp_recv_appends [OF b1(2,4) cap])
  have c2: "contents b2 = q @ d" using b2(3) b1(3) by simp
  obtain out body where up: "longlink_unpack (le_ok env) v b2 \<lparr>uo_cmdid = 0, uo_seq = 0, uo_package_len = 0, uo_body_len = 0\<rparr>
      (AutoBuffer_new 128) = Some (if q @ d = noop_answer v then LONGLINK_UNPACK_OK else LONGLINK_UNPACK_CONTINUE, out, body)"
    and cmd: "q @ d = noop_answer v \<Longrightarrow> uo_cmdid out = NOOP_CMDID"
    using noop_unpack [where ok = "le_ok env", OF b2(2) c2 d(2) ok] by blast
  have "resp_holds (q @ d) b2" using b2 b1 c2 d(1) by (simp add: resp_holds_def)
  then show ?thesis
    using item(1) d(1) b1(1) b2(1) up cmd ver
    by (auto simp: HandleFDISSet_def HandleSpeedTestResp_def reading_def Let_def kCmdIdOutOfBand_def NOOP_CMDID_def
        longlink_noop_isresp_def)
qed

lemma speed_reads_all:
  assumes "env_ok v env" "si_state item = kLongLinkSpeedTestResp" "resp_holds q (si_resp item)"
    and "q @ concat ds = noop_answer v" "[] \<notin> set ds" "ds \<noteq> []"
  shows "\<exists>item'. speed_reads env ds item = Some item' \<and> si_state item' = kLongLinkSpeedTestSuc"
  using assms(2-)
proof (induction ds arbitrary: q item)
  case (Cons d ds)
  have d: "d \<noteq> []" "prefix (q @ d) (noop_answer v)" using Cons.prems(3,4) by (auto simp flip: Cons.prems(3))
  obtain item' where i: "HandleFDISSet env (reading d) item = Some item'"
    "if q @ d = noop_answer v then si_state item' = kLongLinkSpeedTestSuc
     else si_state item' = kLongLinkSpeedTestResp \<and> resp_holds (q @ d) (si_resp item')"
    using speed_read_one [OF assms(1) Cons.prems(1,2) d] by blast
  show ?case
  proof (cases "q @ d = noop_answer v")
    case True
    then have "concat ds = []" using Cons.prems(3) by (metis append.right_neutral append_assoc concat.simps(2) same_append_eq)
    then have "ds = []" using Cons.prems(4) by (cases ds) auto
    then show ?thesis using i True by simp
  next
    case False
    then have "ds \<noteq> []" using Cons.prems(3) by auto
    with False Cons.IH [of item' "q @ d"] i Cons.prems(3,4) show ?thesis by simp
  qed
qed simp

text \<open>A speed test that has sent its heartbeat succeeds when the answer comes in, however TCP
  splits it: fed with the 20 bytes in any non-empty pieces, the item handles each of them without
  leaving its buffer and ends in the state of success.\<close>

theorem speed_test_answered:
  assumes "env_ok v env" "si_state item = kLongLinkSpeedTestResp" "si_resp item = AutoBuffer_new 128"
    and "concat ds = noop_answer v" "[] \<notin> set ds"
  shows "\<exists>item'. speed_reads env ds item = Some item' \<and> si_state item' = kLongLinkSpeedTestSuc"
proof -
  have "ds \<noteq> []" using assms(4) noop_answer_length [of v] by auto
  then show ?thesis
    using speed_reads_all [OF assms(1,2), of "[]" ds] assms(3-5) resp_holds_new by simp
qed

definition sample_test :: SpeedTestItem where
  "sample_test = \<lparr>si_ip = ''10.0.0.1'', si_port = 80, si_socket = 5, si_state = kLongLinkSpeedTestResp,
     si_before_connect_time = 10, si_after_connect_time = 40, si_req = AutoBuffer_new 128,
     si_resp = AutoBuffer_new 128\<rparr>"

theorem speed_test_answered_witness:
  "\<exists>item'. speed_reads sample_link_env [take 7 (noop_answer 200), drop 7 (noop_answer 200)] sample_test = Some item' \<and>
     si_state item' = kLongLinkSpeedTestSuc"
proof (rule speed_test_answered [OF sample_env_ok(1)])
  show "si_state sample_test = kLongLinkSpeedTestResp" "si_resp sample_test = AutoBuffer_new 128"
    by (simp_all add: sample_test_def)
  show "[] \<notin> set [take 7 (noop_answer 200), drop 7 (noop_answer 200)]"
    using noop_answer_length [of 200] by auto
qed simp

section \<open>An out-of-band answer\<close>

text \<open>After an out-of-band package an item waits for writing again, with nothing left to send: the next
  time its socket can be written, \<open>send\<close> takes nothing and the test fails.\<close>

lemma oob_fails:
  "si_state item = kLongLinkSpeedTestOOB \<Longrightarrow> sa_send ans \<le> int (PosLength (si_req item)) \<Longrightarrow>
   PosLength (si_req item) = 0 \<Longrightarrow> sa_writable ans \<Longrightarrow>
   \<exists>item'. HandleFDISSet env ans item = Some item' \<and> si_state item' = kLongLinkSpeedTestFail"
  by (simp add: HandleFDISSet_def HandleSpeedTestReq_def)

section \<open>The fastest socket\<close>

lemma speed_collect_closes:
  assumes "\<And>fd t. best = Some (fd, t) \<Longrightarrow> 0 < fd \<Longrightarrow> fd \<in> set closed"
    and "speed_collect items best closed = (Some (fd, t), closed')" "0 < fd"
  shows "fd \<in> set closed'"
  using assms
proof (induction items arbitrary: best closed)
  case (Cons item items)
  show ?case
  proof (cases "si_state item = kLongLinkSpeedTestSuc \<and> best = None")
    case True
    with Cons.prems(2) have "speed_collect items (Some (si_socket item, GetConnectTime item)) (snd (CloseSocket item closed)) =
        (Some (fd, t), closed')" by (simp add: case_prod_beta)
    then show ?thesis
      by (rule Cons.IH [rotated]) (use Cons.prems(3) in \<open>auto simp: CloseSocket_def split: if_splits\<close>)
  next
    case False
    let ?c = "CloseSocket (fst (CloseSocket item closed)) (snd (CloseSocket item closed))"
    from False Cons.prems(2) have r: "speed_collect items best (snd ?c) = (Some (fd, t), closed')"
      by (auto simp: case_prod_beta Let_def)
    have "set closed \<subseteq> set (snd ?c)" by (auto simp: CloseSocket_def)
    then have "\<And>fd t. best = Some (fd, t) \<Longrightarrow> 0 < fd \<Longrightarrow> fd \<in> set (snd ?c)" using Cons.prems(1) by blast
    from Cons.IH [OF this r Cons.prems(3)] show ?thesis .
  qed
qed auto

text \<open>The socket that \<open>GetFastestSocket\<close> hands to its caller is always closed already: the item
  that owns it is deleted before the function returns, and its destructor closes the socket.\<close>

theorem fastest_socket_closed:
  assumes "GetFastestSocket env socks rounds ips = Finished (Some (fd, t), addr, closed)" "0 < fd"
  shows "fd \<in> set closed"
proof -
  obtain items1 where "speed_collect items1 None [] = (Some (fd, t), closed)"
    using assms(1) by (auto simp: GetFastestSocket_def Let_def split: option.splits exec.splits prod.splits)
  then show ?thesis using speed_collect_closes [of None "[]" items1] assms(2) by simp
qed

lemma sample_item:
  obtains b where "SpeedTestItem_new sample_link_env 5 True ip port =
      Some \<lparr>si_ip = ip, si_port = ucast port, si_socket = 5, si_state = kLongLinkSpeedTestConnecting,
        si_before_connect_time = le_now sample_link_env, si_after_connect_time = 0, si_req = Seek 0 ESeekStart b,
        si_resp = AutoBuffer_new 128\<rparr>" "ab_length b = 20"
proof -
  obtain b where b: "longlink_pack (le_ok sample_link_env) (le_version sample_link_env) NOOP_CMDID kNoopTaskID
      (AutoBuffer_new 128) (AutoBuffer_new 128) = Some b" "wf_buffer b"
      "contents b = wire 200 (NOOP_CMDID, kNoopTaskID, contents (AutoBuffer_new 128))"
    by (rule pack_ok [OF sample_env_ok(1) body_ok_new])
  have "ab_length b = 20" using length_contents [OF b(2)] b(3) by (simp add: header_size_def)
  then show ?thesis using that b(1) by (simp add: SpeedTestItem_new_def)
qed

text \<open>A socket that can be written and takes the whole request.\<close>

definition writing :: speed_answer where
  "writing = \<lparr>sa_exception = False, sa_writable = True, sa_readable = False, sa_send = 20, sa_recv = None\<rparr>"

lemma FDISSet_socket: "HandleFDISSet env ans item = Some item' \<Longrightarrow> si_socket item' = si_socket item"
  by (auto simp: HandleFDISSet_def HandleSpeedTestReq_def HandleSpeedTestResp_def Let_def
      split: if_splits bind_splits option.splits prod.splits)

lemma sample_test_runs:
  obtains item item1 item2 where "SpeedTestItem_new sample_link_env 5 True ip port = Some item"
    "HandleFDISSet sample_link_env writing item = Some item1" "si_state item1 = kLongLinkSpeedTestResp"
    "HandleFDISSet sample_link_env (reading (noop_answer 200)) item1 = Some item2"
    "si_state item2 = kLongLinkSpeedTestSuc" "si_socket item2 = 5"
proof -
  obtain b where b: "SpeedTestItem_new sample_link_env 5 True ip port =
      Some \<lparr>si_ip = ip, si_port = ucast port, si_socket = 5, si_state = kLongLinkSpeedTestConnecting,
        si_before_connect_time = le_now sample_link_env, si_after_connect_time = 0, si_req = Seek 0 ESeekStart b,
        si_resp = AutoBuffer_new 128\<rparr>" (is "_ = Some ?item") and l: "ab_length b = 20"
    by (rule sample_item)
  let ?item1 = "?item\<lparr>si_after_connect_time := le_now sample_link_env,
     si_req := Seek 20 ESeekCur (Seek 0 ESeekStart b), si_state := kLongLinkSpeedTestResp\<rparr>"
  have "PosLength (Seek 20 ESeekCur (Seek 0 ESeekStart b)) = 0"
    by (simp add: PosLength_def Seek_def l)
  then have one: "HandleFDISSet sample_link_env writing ?item = Some ?item1"
    by (simp add: HandleFDISSet_def HandleSpeedTestReq_def writing_def Let_def)
  have resp: "si_state ?item1 = kLongLinkSpeedTestResp" "resp_holds [] (si_resp ?item1)"
    using resp_holds_new by simp_all
  have "noop_answer 200 \<noteq> []" using noop_answer_length [of 200] by auto
  then obtain item2 where two: "HandleFDISSet sample_link_env (reading (noop_answer 200)) ?item1 = Some item2"
    "si_state item2 = kLongLinkSpeedTestSuc"
    using speed_read_one [OF sample_env_ok(1) resp, of "noop_answer 200"] by auto
  moreover have "si_socket item2 = 5" using FDISSet_socket [OF two(1)] by simp
  ultimately show ?thesis using that b one by simp
qed

definition sample_round :: "speed_answer \<Rightarrow> speed_round" where
  "sample_round ans = \<lparr>sr_ret = 1, sr_eintr = False, sr_exception = False, sr_break = False, sr_answers = (\<lambda>_. ans)\<rparr>"

theorem fastest_socket_closed_witness:
  "\<exists>t addr closed. GetFastestSocket sample_link_env [(5, True)]
       [sample_round writing, sample_round (reading (noop_answer 200))]
       (Some [\<lparr>str_ip = ''10.0.0.1'', ipport = 80, source_type = kIPSourceDNS, str_host = ''h''\<rparr>]) =
     Finished (Some (5, t), addr, closed) \<and> (5 :: int) \<in> set closed"
proof -
  let ?a = "\<lparr>str_ip = ''10.0.0.1'', ipport = 80, source_type = kIPSourceDNS, str_host = ''h''\<rparr>"
  let ?g = "GetFastestSocket sample_link_env [(5, True)] [sample_round writing, sample_round (reading (noop_answer 200))] (Some [?a])"
  obtain item item1 item2 where r: "SpeedTestItem_new sample_link_env 5 True ''10.0.0.1'' 80 = Some item"
    "HandleFDISSet sample_link_env writing item = Some item1" "si_state item1 = kLongLinkSpeedTestResp"
    "HandleFDISSet sample_link_env (reading (noop_answer 200)) item1 = Some item2"
    "si_state item2 = kLongLinkSpeedTestSuc" "si_socket item2 = 5"
    by (rule sample_test_runs)
  then have "\<exists>t addr closed. ?g = Finished (Some (5, t), addr, closed)"
    by (simp add: GetFastestSocket_def sample_round_def case_prod_beta)
  then obtain t addr closed where g: "?g = Finished (Some (5, t), addr, closed)" by blast
  have "(5 :: int) \<in> set closed" by (rule fastest_socket_closed [OF g]) simp
  then show ?thesis using g by blast
qed

end
