(* ===== verification/Ipport_Sort.thy ===== *)
theory Ipport_Sort
  imports Ticks Std_Map Long_Link
begin

text \<open>
  The choice among the addresses of a server, stn/src/simple_ipport_sort.cc. Every report of a
  connection that succeeded or failed is a bit of a history; an address whose history is bad is
  left out for a while, and the others are put in an order. The histories of a network are kept
  in an XML file.

  The document is the list of its \<open>record\<close> elements with the attributes that the code reads:
  \<open>None\<close> is a missing attribute, \<open>xr_time\<close> the number that \<open>strtoul\<close> reads in
  \<open>time\<close>, \<open>xi_port\<close> and \<open>xi_history\<close> the values of \<open>UnsignedAttribute\<close> and
  \<open>Int64Attribute\<close>, which are 0 where there is none. The label of the current network is an
  argument, \<open>None\<close> without a network. \<open>start\<close> is the clock at the start of the process.
\<close>

section \<open>State\<close>

definition kRecordTimeout :: int where "kRecordTimeout = 60 * 60 * 24"
definition kBanTime :: int where "kBanTime = 6 * 60 * 1000"
definition kMaxBanTime :: int where "kMaxBanTime = 30 * 60 * 1000"
definition kServerBanTime :: u64 where "kServerBanTime = 30 * 60 * 1000"
definition kBanFailCount :: nat where "kBanFailCount = 3"
definition kSuccessUpdateInterval :: int where "kSuccessUpdateInterval = 10 * 1000"
definition kFailUpdateInterval :: int where "kFailUpdateInterval = 10 * 1000"

record BanItem =
  bi_ip :: string
  bi_port :: u16
  bi_records :: u8
  last_fail_time :: tickcount_t
  last_suc_time :: tickcount_t

definition BanItem_new :: BanItem where
  "BanItem_new = \<lparr>bi_ip = '''', bi_port = 0, bi_records = 0, last_fail_time = 0, last_suc_time = 0\<rparr>"

record xml_item =
  xi_ip :: "string option"
  xi_port :: u32
  xi_history :: u64

record xml_record =
  xr_netinfo :: "string option"
  xr_time :: "int option"
  xr_items :: "xml_item list"

record SimpleIPPortSort =
  recordsxml :: "xml_record list"
  ban_fail_list :: "BanItem list"
  server_bans :: "(string \<times> u64) list"

section \<open>The bits\<close>

lemma unat_half: "unat (drop_bit 1 r) = unat (r :: 'a::len word) div 2"
  using unat_drop_bit_eq [of 1 r] drop_bit_eq_div [of 1 "unat r"] by (simp only: power_one_right)

function CAL_LAST_CONTINUOUS_BIT_COUNT :: "'a::len word \<Rightarrow> nat" where
  "CAL_LAST_CONTINUOUS_BIT_COUNT records =
     (if records AND 1 = 0 then 0 else Suc (CAL_LAST_CONTINUOUS_BIT_COUNT (drop_bit 1 records)))"
  by auto
termination
proof (relation "measure unat", simp)
  fix r :: "'a word"
  assume "r AND 1 \<noteq> 0"
  then have "unat r \<noteq> 0" by (metis and.commute and_zero_eq unat_eq_zero)
  then show "(drop_bit 1 r, r) \<in> measure unat" by (simp add: unat_half [unfolded One_nat_def] del: drop_bit_Suc)
qed

declare CAL_LAST_CONTINUOUS_BIT_COUNT.simps [simp del]

section \<open>The file\<close>

definition record_expired :: "int \<Rightarrow> xml_record \<Rightarrow> bool" where
  "record_expired now r =
     (case xr_time r of
        Some lasttime \<Rightarrow> now < lasttime \<or> kRecordTimeout \<le> now - lasttime
      | None \<Rightarrow> True)"

definition RemoveTimeoutXml :: "int \<Rightarrow> xml_record list \<Rightarrow> xml_record list" where
  "RemoveTimeoutXml now xml = filter (\<lambda>r. \<not> record_expired now r) xml"

text \<open>The result is what is written to the file.\<close>

definition SaveXml :: "int \<Rightarrow> SimpleIPPortSort \<Rightarrow> xml_record list \<times> SimpleIPPortSort" where
  "SaveXml now s = (let xml = RemoveTimeoutXml now (recordsxml s) in (xml, s\<lparr>recordsxml := xml\<rparr>))"

text \<open>\<open>None\<close>: the file cannot be read.\<close>

definition LoadXml :: "int \<Rightarrow> xml_record list option \<Rightarrow> SimpleIPPortSort \<Rightarrow> SimpleIPPortSort" where
  "LoadXml now file_xml s =
     (case file_xml of
        None \<Rightarrow> s\<lparr>recordsxml := []\<rparr>
      | Some xml \<Rightarrow> s\<lparr>recordsxml := RemoveTimeoutXml now xml\<rparr>)"

text \<open>Each bit of the new history stands for eight of the file.\<close>

fun fold_history :: "nat \<Rightarrow> u64 \<Rightarrow> u8 \<Rightarrow> u8" where
  "fold_history 0 historyresult records = records"
| "fold_history (Suc n) historyresult records =
     fold_history n (drop_bit 8 historyresult) (SET_BIT (historyresult AND 0xFF \<noteq> 0) records)"

definition history_item :: "xml_item \<Rightarrow> BanItem" where
  "history_item i = BanItem_new\<lparr>bi_ip := (case xi_ip i of None \<Rightarrow> '''' | Some ip \<Rightarrow> ip),
     bi_port := ucast (xi_port i), bi_records := fold_history 8 (xi_history i) 0\<rparr>"

definition InitHistory2BannedList ::
    "bool \<Rightarrow> int \<Rightarrow> string option \<Rightarrow> SimpleIPPortSort \<Rightarrow> xml_record list option \<times> SimpleIPPortSort" where
  "InitHistory2BannedList savexml now net s =
     (let (saved, s1) = (if savexml then map_prod Some id (SaveXml now s) else (None, s));
          s2 = s1\<lparr>ban_fail_list := []\<rparr>
      in (saved,
          case net of
            None \<Rightarrow> s2
          | Some curr_netinfo \<Rightarrow>
              (case find (\<lambda>r. xr_netinfo r = Some curr_netinfo) (recordsxml s2) of
                 None \<Rightarrow> s2
               | Some r \<Rightarrow> s2\<lparr>ban_fail_list := map history_item (xr_items r)\<rparr>)))"

definition SimpleIPPortSort_new :: "int \<Rightarrow> xml_record list option \<Rightarrow> string option \<Rightarrow> SimpleIPPortSort" where
  "SimpleIPPortSort_new now file_xml net =
     snd (InitHistory2BannedList False now net
       (LoadXml now file_xml \<lparr>recordsxml = [], ban_fail_list = [], server_bans = []\<rparr>))"

section \<open>Reports\<close>

definition RemoveBannedList :: "string \<Rightarrow> SimpleIPPortSort \<Rightarrow> SimpleIPPortSort" where
  "RemoveBannedList ip s = s\<lparr>ban_fail_list := filter (\<lambda>b. bi_ip b \<noteq> ip) (ban_fail_list s)\<rparr>"

abbreviation for_addr :: "string \<Rightarrow> u16 \<Rightarrow> BanItem \<Rightarrow> bool" where
  "for_addr ip port b \<equiv> bi_ip b = ip \<and> bi_port b = port"

definition CanUpdate :: "tickcount_t \<Rightarrow> string \<Rightarrow> u16 \<Rightarrow> bool \<Rightarrow> BanItem list \<Rightarrow> bool" where
  "CanUpdate tick ip port is_success bans =
     (case find (for_addr ip port) bans of
        None \<Rightarrow> True
      | Some b \<Rightarrow> if is_success then kSuccessUpdateInterval < tick_span tick (last_suc_time b)
                  else kFailUpdateInterval < tick_span tick (last_fail_time b))"

definition mark_item :: "tickcount_t \<Rightarrow> bool \<Rightarrow> BanItem \<Rightarrow> BanItem" where
  "mark_item tick is_success b =
     (let b1 = b\<lparr>bi_records := SET_BIT (\<not> is_success) (bi_records b)\<rparr>
      in if is_success then b1\<lparr>last_suc_time := tick\<rparr> else b1\<lparr>last_fail_time := tick\<rparr>)"

fun UpdateBanList :: "tickcount_t \<Rightarrow> bool \<Rightarrow> string \<Rightarrow> u16 \<Rightarrow> BanItem list \<Rightarrow> BanItem list" where
  "UpdateBanList tick is_success ip port [] =
     [mark_item tick is_success (BanItem_new\<lparr>bi_ip := ip, bi_port := port\<rparr>)]"
| "UpdateBanList tick is_success ip port (b # bs) =
     (if for_addr ip port b then mark_item tick is_success b # bs
      else b # UpdateBanList tick is_success ip port bs)"

text \<open>The item of an address in a record, and the record of a network, created where missing.\<close>

fun update_items :: "string \<Rightarrow> u16 \<Rightarrow> bool \<Rightarrow> xml_item list \<Rightarrow> xml_item list" where
  "update_items ip port is_success [] =
     [\<lparr>xi_ip = Some ip, xi_port = ucast port, xi_history = SET_BIT (\<not> is_success) 0\<rparr>]"
| "update_items ip port is_success (i # xs) =
     (if xi_ip i = Some ip \<and> xi_port i = ucast port
      then i\<lparr>xi_history := SET_BIT (\<not> is_success) (xi_history i)\<rparr> # xs
      else i # update_items ip port is_success xs)"

fun update_xml :: "int \<Rightarrow> string \<Rightarrow> string \<Rightarrow> u16 \<Rightarrow> bool \<Rightarrow> xml_record list \<Rightarrow> xml_record list" where
  "update_xml now net ip port is_success [] =
     [\<lparr>xr_netinfo = Some net, xr_time = Some now, xr_items = update_items ip port is_success []\<rparr>]"
| "update_xml now net ip port is_success (r # rs) =
     (if xr_netinfo r = Some net then r\<lparr>xr_items := update_items ip port is_success (xr_items r)\<rparr> # rs
      else r # update_xml now net ip port is_success rs)"

definition Sort_Update ::
    "tickcount_t \<Rightarrow> int \<Rightarrow> string option \<Rightarrow> string \<Rightarrow> u16 \<Rightarrow> bool \<Rightarrow> SimpleIPPortSort \<Rightarrow> SimpleIPPortSort" where
  "Sort_Update tick now net ip port is_success s =
     (case net of
        None \<Rightarrow> s
      | Some curr_net_info \<Rightarrow>
          if \<not> CanUpdate tick ip port is_success (ban_fail_list s) then s
          else s\<lparr>ban_fail_list := UpdateBanList tick is_success ip port (ban_fail_list s),
                 recordsxml := update_xml now curr_net_info ip port is_success (recordsxml s)\<rparr>)"

definition AddServerBan :: "u64 \<Rightarrow> string \<Rightarrow> SimpleIPPortSort \<Rightarrow> SimpleIPPortSort" where
  "AddServerBan now ip s = (if ip = '''' then s else s\<lparr>server_bans := mput ip now (server_bans s)\<rparr>)"

section \<open>Banned addresses\<close>

definition ban_time :: "u8 \<Rightarrow> int" where
  "ban_time records =
     (let last_continuous_cnt = CAL_LAST_CONTINUOUS_BIT_COUNT records
      in if kBanFailCount < last_continuous_cnt
         then min kMaxBanTime (kBanTime + int (last_continuous_cnt - kBanFailCount) * kBanTime)
         else kBanTime)"

definition item_banned :: "tickcount_t \<Rightarrow> BanItem \<Rightarrow> bool" where
  "item_banned tick b \<longleftrightarrow>
     kBanFailCount \<le> CAL_BIT_COUNT (bi_records b) \<and>
     tick_span tick (last_fail_time b) < ban_time (bi_records b)"

definition IsBanned :: "tickcount_t \<Rightarrow> string \<Rightarrow> u16 \<Rightarrow> BanItem list \<Rightarrow> bool" where
  "IsBanned tick ip port bans =
     (case find (for_addr ip port) bans of None \<Rightarrow> False | Some b \<Rightarrow> item_banned tick b)"

definition IsServerBan :: "u64 \<Rightarrow> string \<Rightarrow> (string \<times> u64) list \<Rightarrow> bool \<times> (string \<times> u64) list" where
  "IsServerBan now ip bans =
     (case mget bans ip of
        None \<Rightarrow> (False, bans)
      | Some t \<Rightarrow> if now - t < kServerBanTime then (True, bans) else (False, merase ip bans))"

text \<open>\<open>clk i\<close> is the reading of the clock for the \<open>i\<close>-th address of the pass.\<close>

fun FilterbyBanned ::
    "(nat \<Rightarrow> u64) \<Rightarrow> u64 \<Rightarrow> BanItem list \<Rightarrow> IPPortItem list \<Rightarrow> (string \<times> u64) list
     \<Rightarrow> IPPortItem list \<times> (string \<times> u64) list" where
  "FilterbyBanned clk start bans [] sb = ([], sb)"
| "FilterbyBanned clk start bans (it # items) sb =
     (let (banned, sb1) =
            (if IsBanned (tick_now start (clk 0)) (str_ip it) (ipport it) bans then (True, sb)
             else IsServerBan (clk 0) (str_ip it) sb);
          (rest, sb2) = FilterbyBanned (\<lambda>i. clk (Suc i)) start bans items sb1
      in (if banned then rest else it # rest, sb2))"

section \<open>The order\<close>

text \<open>What the library does with random numbers and with the order of equal elements: the
  permutation of \<open>random_shuffle\<close>, the answers of \<open>rand\<close> and \<open>std::sort\<close>.\<close>

record sort_env =
  se_shuffle :: "IPPortItem list \<Rightarrow> IPPortItem list"
  se_rand :: "nat \<Rightarrow> nat"
  se_sort :: "(IPPortItem \<Rightarrow> IPPortItem \<Rightarrow> bool) \<Rightarrow> IPPortItem list \<Rightarrow> IPPortItem list"

text \<open>The first position from \<open>j\<close> on with another address than \<open>ip\<close>.\<close>

fun find_other :: "string \<Rightarrow> nat \<Rightarrow> IPPortItem list \<Rightarrow> nat option" where
  "find_other ip j [] = None"
| "find_other ip j (x # xs) = (if ip \<noteq> str_ip x then Some j else find_other ip (Suc j) xs)"

function spread :: "nat \<Rightarrow> IPPortItem list \<Rightarrow> IPPortItem list" where
  "spread i items =
     (if i + 1 < length items then
        if str_ip (items ! i) = str_ip (items ! (i - 1)) then
          (case find_other (str_ip (items ! (i - 1))) (Suc i) (drop (Suc i) items) of
             None \<Rightarrow> items
           | Some j \<Rightarrow> spread (Suc i) (items[i := items ! j, j := items ! i]))
        else spread (Suc i) items
      else items)"
  by pat_completeness auto
termination
  by (relation "measure (\<lambda>(i, items). length items - i)") auto

declare spread.simps [simp del]

definition known :: "BanItem list \<Rightarrow> IPPortItem \<Rightarrow> bool" where
  "known bans v \<longleftrightarrow> list_ex (for_addr (str_ip v) (ipport v)) bans"

definition history_less :: "BanItem list \<Rightarrow> IPPortItem \<Rightarrow> IPPortItem \<Rightarrow> bool" where
  "history_less bans l r =
     (case (find (for_addr (str_ip l) (ipport l)) bans, find (for_addr (str_ip r) (ipport r)) bans) of
        (Some a, Some b) \<Rightarrow>
          if CAL_BIT_COUNT (bi_records a) \<noteq> CAL_BIT_COUNT (bi_records b)
          then CAL_BIT_COUNT (bi_records a) < CAL_BIT_COUNT (bi_records b)
          else if last_fail_time a \<noteq> last_fail_time b then last_fail_time a < last_fail_time b
          else if last_suc_time a \<noteq> last_suc_time b then last_suc_time b < last_suc_time a
          else False
      | _ \<Rightarrow> False)"

fun merge_random :: "(nat \<Rightarrow> nat) \<Rightarrow> IPPortItem list \<Rightarrow> IPPortItem list \<Rightarrow> IPPortItem list" where
  "merge_random rnd [] [] = []"
| "merge_random rnd [] (n # ns) = n # merge_random (\<lambda>i. rnd (Suc i)) [] ns"
| "merge_random rnd (h # hs) [] = h # merge_random (\<lambda>i. rnd (Suc i)) hs []"
| "merge_random rnd (h # hs) (n # ns) =
     (if rnd 0 mod (length (h # hs) + length (n # ns)) < length (h # hs)
      then h # merge_random (\<lambda>i. rnd (Suc i)) hs (n # ns)
      else n # merge_random (\<lambda>i. rnd (Suc i)) (h # hs) ns)"

definition SortbyBanned :: "sort_env \<Rightarrow> BanItem list \<Rightarrow> IPPortItem list \<Rightarrow> IPPortItem list" where
  "SortbyBanned env bans items =
     (let items1 = spread 1 (se_shuffle env items);
          items_history = filter (known bans) items1;
          items_new = filter (\<lambda>v. \<not> known bans v) items1
      in merge_random (se_rand env) (se_sort env (history_less bans) items_history) items_new)"

text \<open>\<open>None\<close>: a negative count makes \<open>resize\<close> throw.\<close>

definition SortandFilter ::
    "sort_env \<Rightarrow> (nat \<Rightarrow> u64) \<Rightarrow> u64 \<Rightarrow> IPPortItem list \<Rightarrow> int \<Rightarrow> SimpleIPPortSort
     \<Rightarrow> (IPPortItem list \<times> SimpleIPPortSort) option" where
  "SortandFilter env clk start items needcount s =
     (let (items1, sb) = FilterbyBanned clk start (ban_fail_list s) items (server_bans s);
          items2 = SortbyBanned env (ban_fail_list s) items1;
          s1 = s\<lparr>server_bans := sb\<rparr>
      in if needcount < int (length items2)
         then if needcount < 0 then None else Some (take (nat needcount) items2, s1)
         else Some (items2, s1))"

section \<open>What a history says\<close>

lemma holds_bits_8: "holds_bits fs (r :: u8) \<longleftrightarrow> unat r = bits_val (take 8 fs)"
  by (simp add: holds_bits_def)

lemma last_count_bits: "unat (r :: u8) = bits_val bs \<Longrightarrow> CAL_LAST_CONTINUOUS_BIT_COUNT r = length (takeWhile id bs)"
proof (induction r arbitrary: bs rule: CAL_LAST_CONTINUOUS_BIT_COUNT.induct)
  case (1 r)
  have odd: "r AND 1 = 0 \<longleftrightarrow> even (unat r)"
    using bit_unsigned_iff [of r 0, where 'a = nat] by (simp add: and_one_eq bit_0 mod2_eq_if)
  show ?case
  proof (cases bs)
    case Nil
    then show ?thesis using "1.prems" by (simp add: CAL_LAST_CONTINUOUS_BIT_COUNT.simps unat_eq_0)
  next
    case (Cons b bs')
    then have "even (unat r) \<longleftrightarrow> \<not> b" "unat (drop_bit 1 r) = bits_val bs'"
      using "1.prems" unat_half [of r] by auto
    then show ?thesis
      using "1.IH" [of bs'] Cons odd by (simp add: CAL_LAST_CONTINUOUS_BIT_COUNT.simps [of r] del: drop_bit_Suc)
  qed
qed

text \<open>The reports of a run, those that were accepted first to last.\<close>

type_synonym report = "tickcount_t \<times> int \<times> string option \<times> string \<times> u16 \<times> bool"

fun Sort_Update_of :: "report \<Rightarrow> SimpleIPPortSort \<Rightarrow> SimpleIPPortSort" where
  "Sort_Update_of (tick, now, net, ip, port, ok) s = Sort_Update tick now net ip port ok s"

fun accepts :: "report \<Rightarrow> SimpleIPPortSort \<Rightarrow> bool" where
  "accepts (tick, now, net, ip, port, ok) s \<longleftrightarrow> net \<noteq> None \<and> CanUpdate tick ip port ok (ban_fail_list s)"

fun run_reports :: "report list \<Rightarrow> SimpleIPPortSort \<Rightarrow> SimpleIPPortSort" where
  "run_reports [] s = s"
| "run_reports (u # us) s = run_reports us (Sort_Update_of u s)"

text \<open>The accepted reports on an address, the latest first.\<close>

fun reports_on :: "string \<Rightarrow> u16 \<Rightarrow> report list \<Rightarrow> SimpleIPPortSort \<Rightarrow> (tickcount_t \<times> bool) list" where
  "reports_on ip port [] s = []"
| "reports_on ip port (u # us) s =
     reports_on ip port us (Sort_Update_of u s) @
     (case u of (tick, now, net, ip', port', ok) \<Rightarrow>
        if accepts u s \<and> ip' = ip \<and> port' = port then [(tick, ok)] else [])"

abbreviation failures :: "(tickcount_t \<times> bool) list \<Rightarrow> bool list" where
  "failures h \<equiv> map (\<lambda>(t, ok). \<not> ok) h"

definition last_failure :: "(tickcount_t \<times> bool) list \<Rightarrow> tickcount_t" where
  "last_failure h = (case filter (\<lambda>(t, ok). \<not> ok) h of [] \<Rightarrow> 0 | (t, ok) # _ \<Rightarrow> t)"

text \<open>The rule that the bits implement.\<close>

definition ban_rule :: "tickcount_t \<Rightarrow> (tickcount_t \<times> bool) list \<Rightarrow> bool" where
  "ban_rule tick h \<longleftrightarrow>
     (let recent = failures (take 8 h); streak = length (takeWhile id recent)
      in 3 \<le> length (filter id recent) \<and>
         tick_span tick (last_failure h) < min (30 * 60 * 1000) (6 * 60 * 1000 * max 1 (int streak - 2)))"

definition records_history :: "(tickcount_t \<times> bool) list \<Rightarrow> string \<Rightarrow> u16 \<Rightarrow> BanItem list \<Rightarrow> bool" where
  "records_history h ip port bans =
     (case find (for_addr ip port) bans of
        None \<Rightarrow> h = []
      | Some b \<Rightarrow> holds_bits (failures h) (bi_records b) \<and> last_fail_time b = last_failure h)"

lemma find_UpdateBanList:
  "find (for_addr ip port) (UpdateBanList tick ok ip' port' bans) =
     (if ip = ip' \<and> port = port'
      then Some (mark_item tick ok (case find (for_addr ip port) bans of
                    None \<Rightarrow> BanItem_new\<lparr>bi_ip := ip, bi_port := port\<rparr> | Some b \<Rightarrow> b))
      else find (for_addr ip port) bans)"
  by (induction bans) (auto simp: mark_item_def Let_def)

lemma history_update:
  assumes "records_history h ip port (ban_fail_list s)"
  shows "records_history
     ((case u of (tick, now, net, ip', port', ok) \<Rightarrow>
        if accepts u s \<and> ip' = ip \<and> port' = port then [(tick, ok)] else []) @ h) ip port
     (ban_fail_list (Sort_Update_of u s))"
proof -
  obtain tick now net ip' port' ok where u: "u = (tick, now, net, ip', port', ok)" by (cases u) auto
  show ?thesis
  proof (cases "accepts u s")
    case False
    then show ?thesis using assms by (auto simp: u Sort_Update_def split: option.splits)
  next
    case True
    then obtain y where net: "net = Some y" and can: "CanUpdate tick ip' port' ok (ban_fail_list s)"
      by (auto simp: u)
    have s: "ban_fail_list (Sort_Update tick now (Some y) ip' port' ok s) =
        UpdateBanList tick ok ip' port' (ban_fail_list s)"
      using can by (simp add: Sort_Update_def)
    show ?thesis
    proof (cases "ip' = ip \<and> port' = port")
      case False
      then show ?thesis using assms by (auto simp: u net s records_history_def find_UpdateBanList split: option.splits)
    next
      case same: True
      then have eq: "ip' = ip" "port' = port" by simp_all
      note s' = s [unfolded eq]
      show ?thesis
      proof (cases "find (for_addr ip port) (ban_fail_list s)")
        case None
        then have "h = []" using assms by (simp add: records_history_def)
        then show ?thesis
          using can None holds_bits_add [OF holds_bits_new]
          by (auto simp: u net eq s' records_history_def find_UpdateBanList mark_item_def BanItem_new_def
              last_failure_def Let_def)
      next
        case (Some b)
        then have "holds_bits (failures h) (bi_records b)" "last_fail_time b = last_failure h"
          using assms by (simp_all add: records_history_def)
        then show ?thesis
          using can Some holds_bits_add [of "failures h" "bi_records b"]
          by (auto simp: u net eq s' records_history_def find_UpdateBanList mark_item_def last_failure_def Let_def)
      qed
    qed
  qed
qed

lemma history_run:
  "records_history h ip port (ban_fail_list s) \<Longrightarrow>
   records_history (reports_on ip port us s @ h) ip port (ban_fail_list (run_reports us s))"
proof (induction us arbitrary: s h)
  case (Cons u us)
  from Cons.IH [OF history_update [OF Cons.prems, of u]] show ?case by simp
qed simp

lemma ban_time_rule:
  "holds_bits fs r \<Longrightarrow> ban_time r =
     min (30 * 60 * 1000) (6 * 60 * 1000 * max 1 (int (length (takeWhile id (take 8 fs))) - 2))"
  using last_count_bits [of r "take 8 fs"]
  by (auto simp: holds_bits_8 ban_time_def Let_def kBanFailCount_def kMaxBanTime_def kBanTime_def of_nat_diff
      max_def algebra_simps)

text \<open>C15. The bit histories implement the ban rule. From the reports on an address that were accepted
  (outcomes of the same kind come at least ten seconds apart), however many other addresses were reported in
  between: the address is left out exactly while at least three of its last eight reports are
  failures and the latest failure is recent, which means six minutes, and six more for every
  failure in a row beyond the third, up to thirty.\<close>

theorem ban_follows_rule:
  assumes "ban_fail_list s = []"
  shows "IsBanned tick ip port (ban_fail_list (run_reports us s)) = ban_rule tick (reports_on ip port us s)"
proof -
  let ?h = "reports_on ip port us s" and ?bans = "ban_fail_list (run_reports us s)"
  have r: "records_history ?h ip port ?bans"
    using history_run [of "[]" ip port s us] assms by (simp add: records_history_def)
  show ?thesis
  proof (cases "find (for_addr ip port) ?bans")
    case None
    then show ?thesis using r by (simp add: records_history_def IsBanned_def ban_rule_def)
  next
    case (Some b)
    then have b: "holds_bits (failures ?h) (bi_records b)" "last_fail_time b = last_failure ?h"
      using r by (simp_all add: records_history_def)
    show ?thesis
      using Some b holds_bits_count [OF b(1)] ban_time_rule [OF b(1)]
      by (simp add: IsBanned_def item_banned_def ban_rule_def kBanFailCount_def take_map Let_def)
  qed
qed

definition sample_sort :: SimpleIPPortSort where
  "sample_sort = \<lparr>recordsxml = [], ban_fail_list = [], server_bans = []\<rparr>"

theorem ban_follows_rule_witness:
  "IsBanned 2000100000 ''1.2.3.4'' 80 (ban_fail_list (run_reports
       [(2000020000, 0, Some ''wifi'', ''1.2.3.4'', 80, False), (2000040000, 0, Some ''wifi'', ''1.2.3.4'', 80, False),
        (2000060000, 0, Some ''wifi'', ''1.2.3.4'', 80, False)] sample_sort)) =
   ban_rule 2000100000 (reports_on ''1.2.3.4'' 80
       [(2000020000, 0, Some ''wifi'', ''1.2.3.4'', 80, False), (2000040000, 0, Some ''wifi'', ''1.2.3.4'', 80, False),
        (2000060000, 0, Some ''wifi'', ''1.2.3.4'', 80, False)] sample_sort)"
  by (rule ban_follows_rule) (simp add: sample_sort_def)

section \<open>What the filter and the order keep\<close>

lemma find_other_some:
  "find_other ip j xs = Some k \<Longrightarrow> j \<le> k \<and> k < j + length xs \<and> str_ip (xs ! (k - j)) \<noteq> ip"
proof (induction xs arbitrary: j)
  case (Cons x xs)
  show ?case
  proof (cases "ip = str_ip x")
    case True
    then have "find_other ip (Suc j) xs = Some k" using Cons.prems by simp
    from Cons.IH [OF this] show ?thesis by (auto simp: Suc_diff_Suc nth_Cons' Suc_diff_le)
  next
    case False
    then show ?thesis using Cons.prems by auto
  qed
qed simp

lemma find_other_none: "find_other ip j xs = None \<Longrightarrow> x \<in> set xs \<Longrightarrow> str_ip x = ip"
  by (induction xs arbitrary: j) (auto split: if_splits)

lemma mset_spread [simp]: "mset (spread i items) = mset items"
proof (induction i items rule: spread.induct)
  case (1 i items)
  show ?case
  proof (cases "i + 1 < length items \<and> str_ip (items ! i) = str_ip (items ! (i - 1))")
    case False
    then show ?thesis using "1.IH"(2) by (simp add: spread.simps [of i items])
  next
    case True
    show ?thesis
    proof (cases "find_other (str_ip (items ! (i - 1))) (Suc i) (drop (Suc i) items)")
      case None
      then show ?thesis using True by (simp add: spread.simps [of i items])
    next
      case (Some j)
      then have "j < length items" using find_other_some [OF Some] True by (simp, linarith)
      then have "mset (items[i := items ! j, j := items ! i]) = mset items"
        using True by (intro mset_swap) simp_all
      then show ?thesis using "1.IH"(1) True Some by (simp add: spread.simps [of i items])
    qed
  qed
qed

lemma mset_merge_random [simp]: "mset (merge_random rnd hs ns) = mset hs + mset ns"
  by (induction rnd hs ns rule: merge_random.induct) auto

lemma merge_random_history:
  "list_all P hs \<Longrightarrow> list_all (\<lambda>x. \<not> P x) ns \<Longrightarrow> filter P (merge_random rnd hs ns) = hs"
  by (induction rnd hs ns rule: merge_random.induct) auto

text \<open>What \<open>random_shuffle\<close> and \<open>std::sort\<close> promise for an order \<open>less\<close>: a permutation, and
  no element that is less than an earlier one.\<close>

definition shuffles :: "sort_env \<Rightarrow> bool" where
  "shuffles env \<longleftrightarrow> (\<forall>xs. mset (se_shuffle env xs) = mset xs)"

definition sorts :: "sort_env \<Rightarrow> BanItem list \<Rightarrow> bool" where
  "sorts env bans \<longleftrightarrow> (\<forall>xs. mset (se_sort env (history_less bans) xs) = mset xs \<and>
     sorted_wrt (\<lambda>x y. \<not> history_less bans y x) (se_sort env (history_less bans) xs))"

lemma mset_SortbyBanned: "shuffles env \<Longrightarrow> sorts env bans \<Longrightarrow> mset (SortbyBanned env bans items) = mset items"
  by (simp add: SortbyBanned_def Let_def shuffles_def sorts_def flip: mset_filter)
    (metis mset_filter multiset_partition mset_spread)

lemma SortbyBanned_history:
  assumes "sorts env bans"
  shows "sorted_wrt (\<lambda>x y. \<not> history_less bans y x) (filter (known bans) (SortbyBanned env bans items))"
proof -
  let ?l = "spread 1 (se_shuffle env items)"
  let ?h = "se_sort env (history_less bans) (filter (known bans) ?l)"
  have "mset ?h = mset (filter (known bans) ?l)" using assms by (simp add: sorts_def)
  then have "set ?h = set (filter (known bans) ?l)" by (metis set_mset_mset)
  then have "list_all (known bans) ?h" by (auto simp: list_all_iff)
  moreover have "list_all (\<lambda>x. \<not> known bans x) (filter (\<lambda>v. \<not> known bans v) ?l)" by (simp add: list_all_iff)
  ultimately have "filter (known bans) (SortbyBanned env bans items) = ?h"
    by (simp add: SortbyBanned_def Let_def merge_random_history)
  then show ?thesis using assms by (simp add: sorts_def)
qed

text \<open>The addresses that are open at their reading of the clock.\<close>

definition server_banned :: "(string \<times> u64) list \<Rightarrow> u64 \<Rightarrow> string \<Rightarrow> bool" where
  "server_banned sb now ip \<longleftrightarrow> (case mget sb ip of None \<Rightarrow> False | Some t \<Rightarrow> now - t < kServerBanTime)"

fun open_addresses :: "(nat \<Rightarrow> u64) \<Rightarrow> u64 \<Rightarrow> BanItem list \<Rightarrow> (string \<times> u64) list \<Rightarrow> IPPortItem list \<Rightarrow> IPPortItem list" where
  "open_addresses clk start bans sb [] = []"
| "open_addresses clk start bans sb (it # items) =
     (if IsBanned (tick_now start (clk 0)) (str_ip it) (ipport it) bans \<or> server_banned sb (clk 0) (str_ip it)
      then [] else [it]) @ open_addresses (\<lambda>i. clk (Suc i)) start bans sb items"

text \<open>The clock does not go back, and no ban is from the future.\<close>

definition clock_ok :: "(nat \<Rightarrow> u64) \<Rightarrow> (string \<times> u64) list \<Rightarrow> bool" where
  "clock_ok clk sb \<longleftrightarrow> (\<forall>i j. i \<le> j \<longrightarrow> clk i \<le> clk j) \<and> (\<forall>(ip, t) \<in> set sb. t \<le> clk 0)"

lemma clock_ok_Suc:
  assumes "clock_ok clk sb" "set sb' \<subseteq> set sb"
  shows "clock_ok (\<lambda>i. clk (Suc i)) sb'"
proof -
  have m: "clk i \<le> clk j" if "i \<le> j" for i j using assms(1) that by (simp add: clock_ok_def)
  have "t \<le> clk (Suc 0)" if "(ip, t) \<in> set sb'" for ip t
  proof -
    have "t \<le> clk 0" using assms that by (auto simp: clock_ok_def)
    then show ?thesis using m [of 0 "Suc 0"] by simp
  qed
  then show ?thesis using m by (auto simp: clock_ok_def)
qed

lemma ban_expires_once:
  assumes "t \<le> now" "now \<le> (later :: u64)" "\<not> now - t < k"
  shows "\<not> later - t < k"
proof -
  have "t \<le> later" using assms(1,2) by simp
  then have "unat (now - t) \<le> unat (later - t)"
    using assms(1,2) unat_diff_le [of t now] unat_diff_le [of t later] by (simp add: word_le_nat_alt)
  then show ?thesis using assms(3) by (simp add: word_less_nat_alt)
qed

lemma IsServerBan_answer: "fst (IsServerBan now ip sb) = server_banned sb now ip"
  by (simp add: IsServerBan_def server_banned_def split: option.splits)

lemma IsServerBan_keeps:
  assumes "msorted sb" "clock_ok clk sb"
  shows "msorted (snd (IsServerBan (clk 0) ip sb))"
    and "clock_ok (\<lambda>i. clk (Suc i)) (snd (IsServerBan (clk 0) ip sb))"
    and "server_banned (snd (IsServerBan (clk 0) ip sb)) (clk (Suc i)) ip' = server_banned sb (clk (Suc i)) ip'"
proof -
  let ?sb = "snd (IsServerBan (clk 0) ip sb)"
  have sb: "?sb = sb \<or> ?sb = merase ip sb" by (simp add: IsServerBan_def split: option.splits)
  show "msorted ?sb" using sb assms(1) msorted_merase by metis
  have "set ?sb \<subseteq> set sb" using sb set_merase [of ip sb] by auto
  then show "clock_ok (\<lambda>i. clk (Suc i)) ?sb" by (rule clock_ok_Suc [OF assms(2)])
  show "server_banned ?sb (clk (Suc i)) ip' = server_banned sb (clk (Suc i)) ip'"
  proof (cases "?sb = sb")
    case False
    then obtain t where t: "mget sb ip = Some t" "\<not> clk 0 - t < kServerBanTime" "?sb = merase ip sb"
      by (auto simp: IsServerBan_def split: option.splits if_splits)
    have "t \<le> clk 0" "clk 0 \<le> clk (Suc i)"
      using assms t(1) by (auto simp: clock_ok_def mget_def dest!: map_of_SomeD)
    then have "\<not> clk (Suc i) - t < kServerBanTime" using ban_expires_once t(2) by blast
    then show ?thesis
      using t assms(1) by (auto simp: server_banned_def mget_def map_of_merase)
  qed simp
qed

lemma open_addresses_cong:
  "(\<And>i ip. server_banned sb (clk i) ip = server_banned sb' (clk i) ip) \<Longrightarrow>
   open_addresses clk start bans sb items = open_addresses clk start bans sb' items"
  by (induction items arbitrary: clk) simp_all

lemma FilterbyBanned_open:
  "msorted sb \<Longrightarrow> clock_ok clk sb \<Longrightarrow>
   fst (FilterbyBanned clk start bans items sb) = open_addresses clk start bans sb items"
proof (induction items arbitrary: clk sb)
  case (Cons it items)
  let ?b = "IsBanned (tick_now start (clk 0)) (str_ip it) (ipport it) bans"
  let ?sb = "if ?b then sb else snd (IsServerBan (clk 0) (str_ip it) sb)"
  have ck: "clock_ok (\<lambda>i. clk (Suc i)) sb"
    by (rule clock_ok_Suc [OF Cons.prems(2)]) simp
  have keep: "msorted ?sb" "clock_ok (\<lambda>i. clk (Suc i)) ?sb"
    using Cons.prems IsServerBan_keeps(1,2) ck by auto
  have "open_addresses (\<lambda>i. clk (Suc i)) start bans ?sb items = open_addresses (\<lambda>i. clk (Suc i)) start bans sb items"
    by (rule open_addresses_cong) (use IsServerBan_keeps(3) [OF Cons.prems] in simp)
  then have "fst (FilterbyBanned (\<lambda>i. clk (Suc i)) start bans items ?sb) =
      open_addresses (\<lambda>i. clk (Suc i)) start bans sb items"
    using Cons.IH [OF keep] by simp
  then show ?case
    using IsServerBan_answer [of "clk 0" "str_ip it" sb]
    by (cases ?b) (auto simp: Let_def split: prod.splits)
qed simp

text \<open>C16. The choice of addresses: the result consists of addresses that are open, that is neither banned by their
  history nor by the server, all of them unless the caller asks for fewer; among those with a
  history no address stands behind one with more failures, and the histories are left alone.\<close>

theorem sort_filter_result:
  assumes "shuffles env" "sorts env (ban_fail_list s)" "msorted (server_bans s)" "clock_ok clk (server_bans s)"
    and "0 \<le> needcount"
  shows "\<exists>items' s'. SortandFilter env clk start items needcount s = Some (items', s') \<and>
     (let opened = open_addresses clk start (ban_fail_list s) (server_bans s) items
      in mset items' \<subseteq># mset opened \<and> length items' = min (nat needcount) (length opened)) \<and>
     sorted_wrt (\<lambda>x y. \<not> history_less (ban_fail_list s) y x) (filter (known (ban_fail_list s)) items') \<and>
     ban_fail_list s' = ban_fail_list s"
proof -
  let ?bans = "ban_fail_list s"
  obtain items1 sb where f: "FilterbyBanned clk start ?bans items (server_bans s) = (items1, sb)" by fastforce
  define opened where "opened = open_addresses clk start ?bans (server_bans s) items"
  have op: "items1 = opened" using FilterbyBanned_open [OF assms(3,4), of start ?bans items] f opened_def by simp
  define items2 where "items2 = SortbyBanned env ?bans items1"
  have m: "mset items2 = mset opened" using mset_SortbyBanned [OF assms(1,2)] op by (simp add: items2_def)
  then have len: "length items2 = length opened" by (metis size_mset)
  let ?r = "take (nat needcount) items2"
  have r: "SortandFilter env clk start items needcount s = Some (?r, s\<lparr>server_bans := sb\<rparr>)"
    using f assms(5) by (auto simp: SortandFilter_def Let_def items2_def [symmetric])
  have "filter (known ?bans) items2 = filter (known ?bans) ?r @ filter (known ?bans) (drop (nat needcount) items2)"
    by (metis append_take_drop_id filter_append)
  then have "sorted_wrt (\<lambda>x y. \<not> history_less ?bans y x) (filter (known ?bans) ?r)"
    using SortbyBanned_history [OF assms(2), of items1] by (simp add: items2_def [symmetric] sorted_wrt_append)
  moreover have "mset ?r \<subseteq># mset opened" 
    using m by (metis append_take_drop_id mset_append mset_subset_eq_add_left)
  ultimately show ?thesis using r len by (simp add: Let_def opened_def [symmetric] min.commute)
qed

definition sample_addr :: "string \<Rightarrow> IPPortItem" where
  "sample_addr ip = \<lparr>str_ip = ip, ipport = 80, source_type = kIPSourceNewDns, str_host = ''h''\<rparr>"

definition sample_choice :: SimpleIPPortSort where
  "sample_choice = \<lparr>recordsxml = [], ban_fail_list = [BanItem_new\<lparr>bi_ip := ''10.0.0.1'', bi_port := 80\<rparr>],
     server_bans = [(''10.0.0.2'', 5)]\<rparr>"

definition sample_sort_env :: sort_env where
  "sample_sort_env = \<lparr>se_shuffle = rev, se_rand = (\<lambda>i. i), se_sort = (\<lambda>less xs. xs)\<rparr>"

theorem sort_filter_result_witness:
  "\<exists>items' s'. SortandFilter sample_sort_env (\<lambda>i. 10) 0 [sample_addr ''10.0.0.1'', sample_addr ''10.0.0.2''] 4 sample_choice =
     Some (items', s') \<and> length items' = 1"
proof -
  let ?items = "[sample_addr ''10.0.0.1'', sample_addr ''10.0.0.2'']" and ?s = sample_choice
  have 1: "shuffles sample_sort_env" by (simp add: shuffles_def sample_sort_env_def)
  have "\<not> history_less (ban_fail_list ?s) l r" for l r
    by (simp add: history_less_def sample_choice_def)
  then have 2: "sorts sample_sort_env (ban_fail_list ?s)"
    by (simp add: sorts_def sample_sort_env_def sorted_wrt_iff_nth_less)
  have 3: "msorted (server_bans ?s)" "clock_ok (\<lambda>i. 10) (server_bans ?s)"
    by (simp_all add: sample_choice_def msorted_def clock_ok_def)
  have one: "CAL_BIT_COUNT (0 :: u8) = 0" by (simp add: CAL_BIT_COUNT.simps)
  have "length (open_addresses (\<lambda>i. 10) 0 (ban_fail_list ?s) (server_bans ?s) ?items) = 1"
    by (simp add: sample_choice_def sample_addr_def IsBanned_def item_banned_def BanItem_new_def one kBanFailCount_def
        server_banned_def mget_def kServerBanTime_def)
  then show ?thesis
    using sort_filter_result [OF 1 2 3, of 4 0 ?items] by (auto simp: Let_def)
qed

text \<open>The loop that thins out neighbours with the same address: up to some position neighbours have
  different addresses, and from there on all addresses are the same, the last one excepted.\<close>

definition separated :: "nat \<Rightarrow> IPPortItem list \<Rightarrow> bool" where
  "separated k xs \<longleftrightarrow> (\<forall>i. 0 < i \<and> i < k \<longrightarrow> str_ip (xs ! i) \<noteq> str_ip (xs ! (i - 1)))"

lemma spread_separates:
  assumes "separated i items" "0 < i"
  shows "\<exists>k. separated k (spread i items) \<and>
     (length items \<le> k + 1 \<or> (\<forall>j. k \<le> j + 1 \<and> j < length items \<longrightarrow>
        str_ip (spread i items ! j) = str_ip (spread i items ! (k - 1))))"
  using assms
proof (induction i items rule: spread.induct)
  case (1 i items)
  let ?eq = "str_ip (items ! i) = str_ip (items ! (i - 1))"
  show ?case
  proof (cases "i + 1 < length items")
    case False
    then show ?thesis using "1.prems" by (intro exI [of _ i]) (simp add: spread.simps [of i items])
  next
    case in_range: True
    show ?thesis
    proof (cases ?eq)
      case False
      then have "separated (Suc i) items" using "1.prems" by (auto simp: separated_def less_Suc_eq)
      from "1.IH"(2) [OF in_range False this] show ?thesis using in_range False by (simp add: spread.simps [of i items])
    next
      case eq: True
      show ?thesis
      proof (cases "find_other (str_ip (items ! (i - 1))) (Suc i) (drop (Suc i) items)")
        case None
        have "str_ip (items ! j) = str_ip (items ! (i - 1))" if "i \<le> j + 1" "j < length items" for j
        proof (cases "Suc i \<le> j")
          case True
          then have "items ! j \<in> set (drop (Suc i) items)"
            using that by (auto simp: in_set_conv_nth intro!: exI [of _ "j - Suc i"])
          then show ?thesis using find_other_none [OF None] by simp
        next
          case False
          then have "j = i \<or> j = i - 1" using that by linarith
          then show ?thesis using eq by auto
        qed
        moreover have "spread i items = items" using in_range eq None by (simp add: spread.simps [of i items])
        ultimately show ?thesis using "1.prems" by (intro exI [of _ i]) metis
      next
        case (Some j)
        let ?items = "items[i := items ! j, j := items ! i]"
        have f: "Suc i \<le> j" "j < Suc i + length (drop (Suc i) items)"
          "str_ip (drop (Suc i) items ! (j - Suc i)) \<noteq> str_ip (items ! (i - 1))"
          using find_other_some [OF Some] by blast+
        have d: "drop (Suc i) items ! (j - Suc i) = items ! j"
          using nth_drop [of "Suc i" items "j - Suc i"] f(1) in_range by simp
        have j: "Suc i \<le> j" "j < length items" "str_ip (items ! j) \<noteq> str_ip (items ! (i - 1))"
          using f(1) f(2) [unfolded length_drop] in_range f(3) [unfolded d] by linarith+
        have low: "?items ! l = items ! l" if "l < i" for l using that j(1) by simp
        have at: "?items ! i = items ! j" using j(1,2) by simp
        have "str_ip (?items ! l) \<noteq> str_ip (?items ! (l - 1))" if "0 < l" "l < Suc i" for l
        proof (cases "l = i")
          case True
          have "?items ! (l - 1) = items ! (l - 1)" by (rule low) (use that True in simp)
          then show ?thesis using j(3) True at by metis
        next
          case False
          then have "?items ! l = items ! l" "?items ! (l - 1) = items ! (l - 1)" using that by (intro low; simp)+
          then show ?thesis using "1.prems"(1) that False by (simp add: separated_def)
        qed
        then have "separated (Suc i) ?items" by (simp only: separated_def) blast
        from "1.IH"(1) [OF in_range eq Some this] show ?thesis
          using in_range eq Some by (simp add: spread.simps [of i items])
      qed
    qed
  qed
qed

section \<open>The imported history\<close>

lemma bit_SET_BIT: "bit (SET_BIT b (r :: u8)) n \<longleftrightarrow> n < 8 \<and> (if n = 0 then b else bit r (n - 1))"
  unfolding SET_BIT_def bit_or_iff bit_push_bit_iff
  by (auto simp: bit_of_bool_iff dest: bit_imp_le_length)

lemma bit_fold_history:
  "i < 8 \<Longrightarrow> bit (fold_history n h r) i \<longleftrightarrow>
     (if i < n then drop_bit (8 * (n - 1 - i)) h AND 0xFF \<noteq> 0 else bit r (i - n))"
proof (induction n arbitrary: h r)
  case (Suc n)
  show ?case
  proof (cases "i < n")
    case True
    then have "8 * (Suc n - 1 - i) = 8 * (n - 1 - i) + 8" by simp
    then show ?thesis using Suc.IH [OF Suc.prems] True by (simp only: fold_history.simps drop_bit_drop_bit) simp
  next
    case False
    then show ?thesis using Suc.IH [OF Suc.prems] Suc.prems by (auto simp: bit_SET_BIT less_Suc_eq)
  qed
qed simp

text \<open>The history that is read from the file comes out in the wrong order: the bit for the latest eight
  reports of an address becomes the oldest of the new history, which the next report pushes out,
  and the bit for the oldest eight counts as the latest report.\<close>

theorem history_import_reversed:
  assumes "i < 8"
  shows "bit (bi_records (history_item x)) i \<longleftrightarrow> drop_bit (8 * (7 - i)) (xi_history x) AND 0xFF \<noteq> 0"
  using bit_fold_history [OF assms, of 8] assms by (simp add: history_item_def)

theorem history_import_reversed_witness:
  "bit (bi_records (history_item \<lparr>xi_ip = Some ''10.0.0.1'', xi_port = 80, xi_history = 0xFF\<rparr>)) 7 \<and>
   \<not> bit (bi_records (history_item \<lparr>xi_ip = Some ''10.0.0.1'', xi_port = 80, xi_history = 0xFF\<rparr>)) 0"
  using history_import_reversed [of 7 "\<lparr>xi_ip = Some ''10.0.0.1'', xi_port = 80, xi_history = 0xFF\<rparr>"]
    history_import_reversed [of 0 "\<lparr>xi_ip = Some ''10.0.0.1'', xi_port = 80, xi_history = 0xFF\<rparr>"]
  by simp

end
