(* ===== verification/Timer_Check.thy ===== *)
theory Timer_Check
  imports Speed_Test Ipport_Sort Anti_Avalanche
begin

text \<open>
  The periodic test for a better address, stn/src/netsource_timercheck.cc. While the application is
  active a call is posted every two and a half minutes; when the link is on a backup address it
  starts a thread that resolves the host again and runs one speed test. \<open>tc_post\<close> says that the
  periodic call is posted. The answers of the two name services, the ports of \<open>NetSource\<close>, the random
  numbers and the rounds of \<open>select\<close> are arguments; a success takes the address off the list of
  banned ones and calls \<open>fun_time_check_suc_\<close>, counted in \<open>tc_suc\<close>.
\<close>

section \<open>State and operations\<close>

definition kMaxSpeedTestCount :: nat where "kMaxSpeedTestCount = 30"
definition kIntervalTime :: u64 where "kIntervalTime = 1 * 60 * 60 * 1000"

record TimerCheck =
  tc_thread :: bool
  tc_breaker :: SocketBreaker
  tc_limit :: CommFrequencyLimit
  tc_post :: bool
  tc_suc :: nat

definition TimerCheck_new :: "bool \<Rightarrow> bool \<Rightarrow> TimerCheck" where
  "TimerCheck_new pipe_ok isactive =
     \<lparr>tc_thread = False, tc_breaker = SocketBreaker_new pipe_ok,
      tc_limit = \<lparr>cf_count = kMaxSpeedTestCount, time_span = kIntervalTime, touch_times = []\<rparr>,
      tc_post = isactive, tc_suc = 0\<rparr>"

definition CancelConnect :: "bool \<Rightarrow> TimerCheck \<Rightarrow> TimerCheck" where
  "CancelConnect break_ok s =
     (if \<not> tc_thread s then s else s\<lparr>tc_breaker := snd (Breaker_Break break_ok (tc_breaker s))\<rparr>)"

definition StartCheck :: "TimerCheck \<Rightarrow> TimerCheck" where
  "StartCheck s = (if tc_post s then s else s\<lparr>tc_post := True\<rparr>)"

text \<open>The periodic call, given the link's profile: whether it starts a test of the returned host.\<close>

definition Check :: "u64 \<Rightarrow> bool \<Rightarrow> link_profile \<Rightarrow> TimerCheck \<Rightarrow> string option \<times> TimerCheck" where
  "Check now pipe_ok p s =
     (if lp_ip_type p \<in> {kIPSourceDebug, kIPSourceNULL, kIPSourceNewDns, kIPSourceDNS} then (None, s)
      else if tc_thread s then (None, s)
      else
        let (pass, lim) = CommFrequencyLimit_Check now (tc_limit s);
            s1 = s\<lparr>tc_limit := lim\<rparr>
        in if \<not> pass then (None, s1)
           else
             let (ok, b) = (if sb_create_success (tc_breaker s1) then (True, tc_breaker s1)
                            else Breaker_ReCreate pipe_ok (tc_breaker s1));
                 s2 = s1\<lparr>tc_breaker := b\<rparr>
             in if \<not> ok then (None, s2) else (Some (cp_host p), s2\<lparr>tc_thread := True\<rparr>))"

text \<open>Joining the thread ends it.\<close>

definition StopCheck :: "bool \<Rightarrow> TimerCheck \<Rightarrow> TimerCheck" where
  "StopCheck break_ok s =
     (if \<not> tc_post s then s
      else if \<not> tc_thread s then s
      else
        let (ok, b) = Breaker_Break break_ok (tc_breaker s);
            s1 = s\<lparr>tc_breaker := b\<rparr>
        in if \<not> ok then s1 else s1\<lparr>tc_thread := False, tc_post := False\<rparr>)"

definition TC_OnActiveChanged :: "bool \<Rightarrow> bool \<Rightarrow> TimerCheck \<Rightarrow> TimerCheck" where
  "TC_OnActiveChanged break_ok is_active s = (if is_active then StartCheck s else StopCheck break_ok s)"

section \<open>The test\<close>

text \<open>A failing \<open>select\<close> is only logged; a wait of ten seconds without an event ends the loop.\<close>

fun try_loop :: "link_env \<Rightarrow> speed_round list \<Rightarrow> SpeedTestItem \<Rightarrow> SpeedTestItem exec" where
  "try_loop env [] item = Unfinished"
| "try_loop env (r # rs) item =
     (if sr_ret r = 0 then Finished item
      else if sr_exception r \<or> sr_break r then Finished item
      else case HandleFDISSet env (sr_answers r 0) item of
             None \<Rightarrow> Fault
           | Some item1 \<Rightarrow>
               if si_state item1 = kLongLinkSpeedTestSuc \<or> si_state item1 = kLongLinkSpeedTestFail
               then Finished item1 else try_loop env rs item1)"

record try_env =
  te_newdns :: "string \<Rightarrow> string list"
  te_dns :: "string \<Rightarrow> string list"
  te_ports :: "u16 list"
  te_rand1 :: nat
  te_rand2 :: nat
  te_socket :: int
  te_nobio_ok :: bool
  te_rounds :: "speed_round list"

definition resolved :: "try_env \<Rightarrow> string \<Rightarrow> string list" where
  "resolved te host = (if te_newdns te host = [] then te_dns te host else te_newdns te host)"

text \<open>The tested address, the answer, the ban list and the closed sockets.\<close>

definition TryConnnect ::
    "link_env \<Rightarrow> try_env \<Rightarrow> string \<Rightarrow> link_profile \<Rightarrow> SimpleIPPortSort
     \<Rightarrow> (bool \<times> (string \<times> u16) option \<times> SimpleIPPortSort \<times> int list) exec" where
  "TryConnnect env te host p ban =
     (let ip_vec = resolved te host
      in if ip_vec = [] then Finished (False, None, ban, [])
         else if cp_ip p \<in> set ip_vec then Finished (False, None, ban, [])
         else if te_ports te = [] then Finished (False, None, ban, [])
         else
           let ip = ip_vec ! (te_rand1 te mod length ip_vec);
               port = te_ports te ! (te_rand2 te mod length (te_ports te))
           in case SpeedTestItem_new env (te_socket te) (te_nobio_ok te) ip port of
                None \<Rightarrow> Fault
              | Some item \<Rightarrow>
                  case try_loop env (te_rounds te) item of
                    Fault \<Rightarrow> Fault
                  | Unfinished \<Rightarrow> Unfinished
                  | Finished item1 \<Rightarrow>
                      let (item2, closed) = CloseSocket item1 []
                      in if si_state item2 = kLongLinkSpeedTestSuc
                         then Finished (True, Some (ip, port), RemoveBannedList (si_ip item2) ban, closed)
                         else Finished (False, Some (ip, port), ban, closed))"

text \<open>\<open>__Run\<close>, the body of the thread.\<close>

definition TC_Run ::
    "link_env \<Rightarrow> try_env \<Rightarrow> string \<Rightarrow> link_profile \<Rightarrow> TimerCheck \<times> SimpleIPPortSort
     \<Rightarrow> (TimerCheck \<times> SimpleIPPortSort) exec" where
  "TC_Run env te host p c =
     (let (s, ban) = c; s1 = s\<lparr>tc_breaker := snd (Breaker_Clear (tc_breaker s))\<rparr>
      in case TryConnnect env te host p ban of
           Fault \<Rightarrow> Fault
         | Unfinished \<Rightarrow> Unfinished
         | Finished (ok, _, ban1, _) \<Rightarrow>
             Finished (s1\<lparr>tc_suc := (if ok then Suc (tc_suc s1) else tc_suc s1), tc_thread := False\<rparr>, ban1))"

section \<open>Properties\<close>

text \<open>Going inactive does not stop the periodic test unless a test happens to be running at
  that moment: after any sequence of changes of activity between tests, the periodic call that the
  first activation posted is still posted, and the next one starts a test of a link on a backup
  address, as far as the frequency limit lets it.\<close>

theorem timer_check_not_stopped:
  assumes "\<not> tc_thread s" "tc_post s" "sb_create_success (tc_breaker s)"
    and "lp_ip_type p = kIPSourceBackup" "fst (CommFrequencyLimit_Check now (tc_limit s))"
  shows "(let s' = fold (\<lambda>(ok, act). TC_OnActiveChanged ok act) (evs @ [(True, False)]) s
          in tc_post s' \<and> fst (Check now pipe_ok p s') = Some (cp_host p))"
proof -
  have "fold (\<lambda>(ok, act). TC_OnActiveChanged ok act) xs s = s" for xs
    by (induction xs) (auto simp: TC_OnActiveChanged_def StartCheck_def StopCheck_def assms(1,2))
  moreover have "fst (Check now pipe_ok p s) = Some (cp_host p)"
    using assms by (simp add: Check_def case_prod_beta Let_def)
  ultimately show ?thesis using assms(2) by (simp only: Let_def simp_thms)
qed

theorem timer_check_not_stopped_witness:
  "tc_post (TC_OnActiveChanged True False (TimerCheck_new True True))"
proof -
  have "\<not> tc_thread (TimerCheck_new True True)" "tc_post (TimerCheck_new True True)"
    "sb_create_success (tc_breaker (TimerCheck_new True True))"
    "lp_ip_type (link_profile_new\<lparr>lp_ip_type := kIPSourceBackup\<rparr>) = kIPSourceBackup"
    "fst (CommFrequencyLimit_Check 7 (tc_limit (TimerCheck_new True True)))"
    by (simp_all add: TimerCheck_new_def SocketBreaker_new_def Breaker_ReCreate_def CommFrequencyLimit_Check_def)
  from timer_check_not_stopped [OF this, of "[]" True] show ?thesis by (simp add: Let_def)
qed

lemma FDISSet_ip: "HandleFDISSet env ans item = Some item' \<Longrightarrow> si_ip item' = si_ip item"
  by (auto simp: HandleFDISSet_def HandleSpeedTestReq_def HandleSpeedTestResp_def Let_def
      split: if_splits bind_splits option.splits prod.splits)

lemma try_loop_ip: "try_loop env rs item = Finished item' \<Longrightarrow> si_ip item' = si_ip item"
  by (induction rs arbitrary: item) (auto simp: FDISSet_ip split: if_splits option.splits)

lemma SpeedTestItem_new_ip: "SpeedTestItem_new env sock nb ip port = Some item \<Longrightarrow> si_ip item = ip"
  by (auto simp: SpeedTestItem_new_def Let_def split: bind_splits if_splits)

text \<open>A successful test found a better address: the current address of the link is not among
  the addresses the host now resolves to, the tested address and port are among those and the
  configured ports, exactly the bans of that address are lifted, and the socket of the test is closed.\<close>

theorem try_connect_success:
  assumes "TryConnnect env te host p ban = Finished (True, addr, ban', closed)"
  shows "\<exists>ip port. addr = Some (ip, port) \<and> ip \<in> set (resolved te host) \<and> port \<in> set (te_ports te) \<and>
     cp_ip p \<notin> set (resolved te host) \<and>
     ban_fail_list ban' = filter (\<lambda>b. bi_ip b \<noteq> ip) (ban_fail_list ban)"
proof -
  let ?ips = "resolved te host" and ?ports = "te_ports te"
  let ?ip = "?ips ! (te_rand1 te mod length ?ips)" and ?port = "?ports ! (te_rand2 te mod length ?ports)"
  obtain item item1 where c: "cp_ip p \<notin> set ?ips" "?ips \<noteq> []" "?ports \<noteq> []"
    "SpeedTestItem_new env (te_socket te) (te_nobio_ok te) ?ip ?port = Some item"
    "try_loop env (te_rounds te) item = Finished item1" "addr = Some (?ip, ?port)"
    "ban' = RemoveBannedList (si_ip (fst (CloseSocket item1 []))) ban"
    using assms by (auto simp: TryConnnect_def Let_def case_prod_beta split: if_splits option.splits exec.splits)
  have "si_ip (fst (CloseSocket item1 [])) = ?ip"
    using SpeedTestItem_new_ip [OF c(4)] try_loop_ip [OF c(5)] by (simp add: CloseSocket_def)
  moreover have "?ip \<in> set ?ips" "?port \<in> set ?ports" using c(2,3) by simp_all
  ultimately show ?thesis using c by (simp add: RemoveBannedList_def)
qed

text \<open>A test in which the request is sent at once and the answer comes in one piece.\<close>

definition sample_try :: try_env where
  "sample_try = \<lparr>te_newdns = (\<lambda>_. []), te_dns = (\<lambda>_. [''10.0.0.7'', ''10.0.0.8'']), te_ports = [80, 8080],
     te_rand1 = 1, te_rand2 = 0, te_socket = 5, te_nobio_ok = True,
     te_rounds = [sample_round writing, sample_round (reading (noop_answer 200))]\<rparr>"

lemma sample_try_runs:
  "\<exists>ban'. TryConnnect sample_link_env sample_try ''host'' link_profile_new ban =
     Finished (True, Some (''10.0.0.8'', 80), ban', [5])"
proof -
  obtain item item1 item2 where "SpeedTestItem_new sample_link_env 5 True ''10.0.0.8'' 80 = Some item"
    "HandleFDISSet sample_link_env writing item = Some item1" "si_state item1 = kLongLinkSpeedTestResp"
    "HandleFDISSet sample_link_env (reading (noop_answer 200)) item1 = Some item2"
    "si_state item2 = kLongLinkSpeedTestSuc" "si_socket item2 = 5"
    by (rule sample_test_runs)
  moreover have "cp_ip link_profile_new = ''''"
    by (simp add: link_profile_new_def link_profile_Reset_def ConnectProfile_Reset_def ConnectProfile.defs link_profile.defs)
  ultimately show ?thesis
    by (simp add: TryConnnect_def resolved_def sample_try_def sample_round_def Let_def CloseSocket_def)
qed

theorem try_connect_success_witness:
  "\<exists>ban'. TryConnnect sample_link_env sample_try ''host'' link_profile_new sample_sort =
     Finished (True, Some (''10.0.0.8'', 80), ban', [5]) \<and>
     ban_fail_list ban' = filter (\<lambda>b. bi_ip b \<noteq> ''10.0.0.8'') (ban_fail_list sample_sort)"
proof -
  obtain ban' where r: "TryConnnect sample_link_env sample_try ''host'' link_profile_new sample_sort =
     Finished (True, Some (''10.0.0.8'', 80), ban', [5])" using sample_try_runs by blast
  from try_connect_success [OF r] r show ?thesis by auto
qed

end
