(* ===== verification/Net_Source.thy ===== *)
theory Net_Source
  imports Ipport_Sort
begin

text \<open>
  The source of the addresses, stn/src/net_source.cc: the configured hosts, ports, backup addresses
  and debug addresses, and the lists of addresses that the links connect to, built from two name
  services, the backup addresses and the histories of \<open>Ipport_Sort\<close>. The variables of the file and
  the members of the class are one record. \<open>source_env\<close> holds what the \<open>k\<close>-th call of
  \<open>__MakeIPPorts\<close> sees: the answers of the name services, the readings of the clock, and the random
  orders. \<open>None\<close> is an access to the first element of an empty vector, a division by zero or a
  \<open>resize\<close> with a negative count.
\<close>

section \<open>Configuration\<close>

definition kNumMakeCount :: nat where "kNumMakeCount = 5"

datatype DnsType = kType_NewDns | kType_Dns

record DnsProfile =
  dp_host :: string
  dp_failed :: bool
  dp_dnstype :: DnsType

record NetSource =
  sg_longlink_hosts :: "string list"
  sg_longlink_ports :: "u16 list"
  sg_longlink_debugip :: string
  sg_shortlink_port :: u16
  sg_shortlink_debugip :: string
  sg_host_backupips_mapping :: "(string \<times> string list) list"
  sg_lowpriority_longlink_ports :: "u16 list"
  sg_host_debugip_mapping :: "(string \<times> string) list"
  ipportstrategy :: SimpleIPPortSort
  ns_reports :: "DnsProfile list"

definition NetSource_new :: "SimpleIPPortSort \<Rightarrow> NetSource" where
  "NetSource_new strategy = \<lparr>sg_longlink_hosts = [], sg_longlink_ports = [], sg_longlink_debugip = '''',
     sg_shortlink_port = 0, sg_shortlink_debugip = '''', sg_host_backupips_mapping = [],
     sg_lowpriority_longlink_ports = [], sg_host_debugip_mapping = [], ipportstrategy = strategy, ns_reports = []\<rparr>"

definition SetLongLink :: "string list \<Rightarrow> u16 list \<Rightarrow> string \<Rightarrow> NetSource \<Rightarrow> NetSource" where
  "SetLongLink hosts ports debugip s =
     s\<lparr>sg_longlink_debugip := debugip,
       sg_longlink_hosts := (if hosts \<noteq> [] then hosts else sg_longlink_hosts s),
       sg_longlink_ports := ports\<rparr>"

definition SetShortlink :: "u16 \<Rightarrow> string \<Rightarrow> NetSource \<Rightarrow> NetSource" where
  "SetShortlink port debugip s = s\<lparr>sg_shortlink_port := port, sg_shortlink_debugip := debugip\<rparr>"

definition SetBackupIPs :: "string \<Rightarrow> string list \<Rightarrow> NetSource \<Rightarrow> NetSource" where
  "SetBackupIPs host ips s = s\<lparr>sg_host_backupips_mapping := mput host ips (sg_host_backupips_mapping s)\<rparr>"

definition SetDebugIP :: "string \<Rightarrow> string \<Rightarrow> NetSource \<Rightarrow> NetSource" where
  "SetDebugIP host ip s =
     (if ip = '''' \<and> mget (sg_host_debugip_mapping s) host \<noteq> None
      then s\<lparr>sg_host_debugip_mapping := merase host (sg_host_debugip_mapping s)\<rparr>
      else s\<lparr>sg_host_debugip_mapping := mput host ip (sg_host_debugip_mapping s)\<rparr>)"

definition SetLowPriorityLonglinkPorts :: "u16 list \<Rightarrow> NetSource \<Rightarrow> NetSource" where
  "SetLowPriorityLonglinkPorts ports s = s\<lparr>sg_lowpriority_longlink_ports := ports\<rparr>"

definition GetBackupIPs :: "string \<Rightarrow> NetSource \<Rightarrow> string list" where
  "GetBackupIPs host s = (case mget (sg_host_backupips_mapping s) host of None \<Rightarrow> [] | Some ips \<Rightarrow> ips)"

section \<open>Reports\<close>

text \<open>\<open>Update\<close> of the histories gets the reading of the clock, the time and the name of the network.\<close>

definition ReportLongIP ::
    "NetType \<Rightarrow> tickcount_t \<Rightarrow> int \<Rightarrow> string option \<Rightarrow> bool \<Rightarrow> string \<Rightarrow> u16 \<Rightarrow> NetSource \<Rightarrow> NetSource" where
  "ReportLongIP net tick now netinfo is_success ip port s =
     (if ip = '''' \<or> port = 0 then s
      else if net = kNoNet then s
      else s\<lparr>ipportstrategy := Sort_Update tick now netinfo ip port is_success (ipportstrategy s)\<rparr>)"

definition ReportShortIP ::
    "NetType \<Rightarrow> tickcount_t \<Rightarrow> int \<Rightarrow> string option \<Rightarrow> bool \<Rightarrow> string \<Rightarrow> u16 \<Rightarrow> NetSource \<Rightarrow> NetSource" where
  "ReportShortIP net tick now netinfo is_success ip port s =
     (if ip = '''' then s
      else if net = kNoNet then s
      else s\<lparr>ipportstrategy := Sort_Update tick now netinfo ip port is_success (ipportstrategy s)\<rparr>)"

definition RemoveLongBanIP :: "string \<Rightarrow> NetSource \<Rightarrow> NetSource" where
  "RemoveLongBanIP ip s = s\<lparr>ipportstrategy := RemoveBannedList ip (ipportstrategy s)\<rparr>"

definition NS_AddServerBan :: "u64 \<Rightarrow> string \<Rightarrow> NetSource \<Rightarrow> NetSource" where
  "NS_AddServerBan now ip s = s\<lparr>ipportstrategy := AddServerBan now ip (ipportstrategy s)\<rparr>"

text \<open>The history file is written, and the histories of the current network are read back.\<close>

definition ClearCache :: "int \<Rightarrow> string option \<Rightarrow> NetSource \<Rightarrow> xml_record list option \<times> NetSource" where
  "ClearCache now netinfo s =
     (let (saved, st) = InitHistory2BannedList True now netinfo (ipportstrategy s)
      in (saved, s\<lparr>ipportstrategy := st\<rparr>))"

section \<open>Debug addresses\<close>

definition debug_item :: "string \<Rightarrow> string \<Rightarrow> u16 \<Rightarrow> IPPortItem" where
  "debug_item ip host port = \<lparr>str_ip = ip, ipport = port, source_type = kIPSourceDebug, str_host = host\<rparr>"

definition GetLonglinkDebugIPPort :: "NetSource \<Rightarrow> (bool \<times> IPPortItem list) option" where
  "GetLonglinkDebugIPPort s =
     (case find (\<lambda>h. mget (sg_host_debugip_mapping s) h \<noteq> None) (sg_longlink_hosts s) of
        Some host \<Rightarrow>
          Some (True, map (debug_item (the (mget (sg_host_debugip_mapping s) host)) host) (sg_longlink_ports s))
      | None \<Rightarrow>
          if sg_longlink_debugip s \<noteq> '''' then
            if sg_longlink_hosts s = [] \<and> sg_longlink_ports s \<noteq> [] then None
            else Some (True, map (debug_item (sg_longlink_debugip s) (hd (sg_longlink_hosts s))) (sg_longlink_ports s))
          else Some (False, []))"

definition GetShortlinkDebugIPPort :: "string list \<Rightarrow> NetSource \<Rightarrow> (bool \<times> IPPortItem list) option" where
  "GetShortlinkDebugIPPort hosts s =
     (case find (\<lambda>h. mget (sg_host_debugip_mapping s) h \<noteq> None) hosts of
        Some host \<Rightarrow> Some (True, [debug_item (the (mget (sg_host_debugip_mapping s) host)) host (sg_shortlink_port s)])
      | None \<Rightarrow>
          if sg_shortlink_debugip s \<noteq> '''' then
            if hosts = [] then None
            else Some (True, [debug_item (sg_shortlink_debugip s) (hd hosts) (sg_shortlink_port s)])
          else Some (False, []))"

definition HasShortLinkDebugIP :: "string list \<Rightarrow> NetSource \<Rightarrow> bool" where
  "HasShortLinkDebugIP hosts s \<longleftrightarrow>
     sg_shortlink_debugip s \<noteq> '''' \<or> list_ex (\<lambda>h. mget (sg_host_debugip_mapping s) h \<noteq> None) hosts"

section \<open>The addresses of one host\<close>

record source_env =
  so_newdns :: "nat \<Rightarrow> string \<Rightarrow> bool \<times> string list"
  so_dns :: "nat \<Rightarrow> string \<Rightarrow> bool \<times> string list"
  so_sort :: "nat \<Rightarrow> sort_env"
  so_clk :: "nat \<Rightarrow> nat \<Rightarrow> u64"
  so_start :: u64
  so_shuffle :: "nat \<Rightarrow> IPPortItem list \<Rightarrow> IPPortItem list"

text \<open>Addresses that are already in the list are dropped while there are more than required.\<close>

fun prune :: "string set \<Rightarrow> nat \<Rightarrow> nat \<Rightarrow> nat \<Rightarrow> string list \<Rightarrow> string list" where
  "prune used ports_cnt require_cnt cur_cnt [] = []"
| "prune used ports_cnt require_cnt cur_cnt (ip # ips) =
     (if require_cnt < cur_cnt then
        if ip \<in> used then prune used ports_cnt require_cnt (cur_cnt - ports_cnt) ips
        else ip # prune used ports_cnt require_cnt cur_cnt ips
      else ip # ips)"

definition host_items :: "IPSourceType \<Rightarrow> string \<Rightarrow> string list \<Rightarrow> u16 list \<Rightarrow> IPPortItem list" where
  "host_items ist host ips ports =
     concat (map (\<lambda>ip. map (\<lambda>port. \<lparr>str_ip = ip, ipport = port, source_type = ist, str_host = host\<rparr>) ports) ips)"

text \<open>The name services: the new one, and the system's where that one has no address. The second
  report is about a profile that \<open>Reset\<close> has emptied.\<close>

definition lookup_host :: "source_env \<Rightarrow> nat \<Rightarrow> string \<Rightarrow> NetSource \<Rightarrow> IPSourceType \<times> string list \<times> NetSource" where
  "lookup_host env k host s =
     (let (ret, iplist) = so_newdns env k host;
          s1 = s\<lparr>ns_reports := ns_reports s @ [\<lparr>dp_host = host, dp_failed = \<not> ret, dp_dnstype = kType_NewDns\<rparr>]\<rparr>
      in if iplist \<noteq> [] then (kIPSourceNewDns, iplist, s1)
         else
           let (ret2, iplist2) = so_dns env k host
           in (kIPSourceDNS, iplist2,
               s1\<lparr>ns_reports := ns_reports s1 @ [\<lparr>dp_host = '''', dp_failed = \<not> ret2, dp_dnstype = kType_Dns\<rparr>]\<rparr>))"

text \<open>The backup addresses: configured ones, or an answer of the system's name service, which is kept
  as if it were configured.\<close>

definition backup_ips :: "source_env \<Rightarrow> nat \<Rightarrow> string \<Rightarrow> NetSource \<Rightarrow> string list \<times> NetSource" where
  "backup_ips env k host s =
     (let iplist = GetBackupIPs host s
      in if iplist = [] then
           let (ret, ips) = so_dns env k host
           in (ips, if ret then SetBackupIPs host ips s else s)
         else (iplist, s))"

definition link_ports :: "bool \<Rightarrow> bool \<Rightarrow> NetSource \<Rightarrow> u16 list" where
  "link_ports isbackup islonglink s =
     (if islonglink then
        if isbackup \<and> sg_lowpriority_longlink_ports s \<noteq> [] then sg_lowpriority_longlink_ports s
        else sg_longlink_ports s
      else [sg_shortlink_port s])"

definition MakeIPPorts ::
    "source_env \<Rightarrow> nat \<Rightarrow> string \<Rightarrow> nat \<Rightarrow> bool \<Rightarrow> bool \<Rightarrow> IPPortItem list \<times> NetSource
     \<Rightarrow> (nat \<times> IPPortItem list \<times> NetSource) option" where
  "MakeIPPorts env k host cnt isbackup islonglink c =
     (let (items, s) = c;
          ports = link_ports isbackup islonglink s
      in if \<not> isbackup then
           let (ist, iplist, s1) = lookup_host env k host s
           in if iplist = [] then Some (0, items, s1)
              else do {
                (temp, st) \<leftarrow> SortandFilter (so_sort env k) (so_clk env k) (so_start env) (host_items ist host iplist ports)
                               (int cnt - int (length items)) (ipportstrategy s1);
                Some (length (items @ temp), items @ temp, s1\<lparr>ipportstrategy := st\<rparr>)
              }
         else
           let (iplist, s1) = backup_ips env k host s;
               require0 = (if length items \<le> cnt then cnt - length items else cnt + 2 ^ 64 - length items);
               require_cnt = (if require0 < length ports then require0 + length ports else require0);
               iplist1 = (if iplist \<noteq> [] \<and> ports \<noteq> []
                          then prune (str_ip ` set items) (length ports) require_cnt (length iplist * length ports) iplist
                          else iplist)
           in if iplist1 = [] then Some (0, items, s1)
              else
                let items1 = take cnt (items @ so_shuffle env k (host_items kIPSourceBackup host iplist1 ports))
                in Some (length items1, items1, s1))"

section \<open>The addresses of a link\<close>

text \<open>The loop over the hosts while the application is active: the number of hosts that gave
  addresses and the size of the list decide whether one address more is taken.\<close>

fun make_active ::
    "source_env \<Rightarrow> nat \<Rightarrow> bool \<Rightarrow> bool \<Rightarrow> string list \<Rightarrow> nat \<Rightarrow> nat \<Rightarrow> IPPortItem list \<times> NetSource
     \<Rightarrow> (nat \<times> nat \<times> IPPortItem list \<times> NetSource) option" where
  "make_active env k isbackup islonglink [] merge_cnt make_cnt c = Some (merge_cnt, make_cnt, c)"
| "make_active env k isbackup islonglink (host # hosts) merge_cnt make_cnt c =
     (let make_cnt1 = (if merge_cnt = 1 \<and> length (fst c) = kNumMakeCount then kNumMakeCount + 1 else make_cnt)
      in do {
        (n, c1) \<leftarrow> MakeIPPorts env k host make_cnt1 isbackup islonglink c;
        make_active env (Suc k) isbackup islonglink hosts (if 0 < n then Suc merge_cnt else merge_cnt) make_cnt1 c1
      })"

text \<open>While it is inactive, four addresses are shared out to the hosts and the backup addresses fill the
  list up to five.\<close>

fun make_inactive ::
    "source_env \<Rightarrow> nat \<Rightarrow> bool \<Rightarrow> nat \<Rightarrow> nat \<Rightarrow> nat \<Rightarrow> string list \<Rightarrow> nat \<Rightarrow> IPPortItem list \<times> NetSource
     \<Rightarrow> (nat \<times> IPPortItem list \<times> NetSource) option" where
  "make_inactive env k islonglink ret ret2 i [] cnt c = Some (cnt, c)"
| "make_inactive env k islonglink ret ret2 i (host # hosts) cnt c =
     (if \<not> cnt < kNumMakeCount - 1 then Some (cnt, c)
      else
        let cnt1 = cnt + (if i < ret2 then ret + 1 else ret)
        in do {
          (n, c1) \<leftarrow> MakeIPPorts env k host cnt1 False islonglink c;
          make_inactive env (Suc k) islonglink ret ret2 (Suc i) hosts cnt1 c1
        })"

fun make_backups ::
    "source_env \<Rightarrow> nat \<Rightarrow> bool \<Rightarrow> string list \<Rightarrow> nat \<Rightarrow> IPPortItem list \<times> NetSource
     \<Rightarrow> (IPPortItem list \<times> NetSource) option" where
  "make_backups env k islonglink [] cnt c = Some c"
| "make_backups env k islonglink (host # hosts) cnt c =
     (if \<not> cnt < kNumMakeCount then Some c
      else do {
        (n, c1) \<leftarrow> MakeIPPorts env k host kNumMakeCount True islonglink c;
        make_backups env (Suc k) islonglink hosts cnt c1
      })"

definition GetIPPortItems ::
    "source_env \<Rightarrow> bool \<Rightarrow> string list \<Rightarrow> bool \<Rightarrow> NetSource \<Rightarrow> (IPPortItem list \<times> NetSource) option" where
  "GetIPPortItems env isactive hosts islonglink s =
     (if isactive then do {
        (m, n, c) \<leftarrow> make_active env 0 False islonglink hosts 0 kNumMakeCount ([], s);
        (m2, n2, c2) \<leftarrow> make_active env (length hosts) True islonglink hosts m n c;
        Some c2
      }
      else if hosts = [] then None
      else do {
        (cnt, c) \<leftarrow> make_inactive env 0 islonglink ((kNumMakeCount - 1) div length hosts)
                     ((kNumMakeCount - 1) mod length hosts) 0 hosts 0 ([], s);
        make_backups env (length hosts) islonglink hosts cnt c
      })"

definition GetLongLinkItems :: "source_env \<Rightarrow> bool \<Rightarrow> NetSource \<Rightarrow> (bool \<times> IPPortItem list \<times> NetSource) option" where
  "GetLongLinkItems env isactive s =
     do {
       (debug, items) \<leftarrow> GetLonglinkDebugIPPort s;
       if debug then Some (True, items, s)
       else if sg_longlink_hosts s = [] then Some (False, [], s)
       else do {
         (items1, s1) \<leftarrow> GetIPPortItems env isactive (sg_longlink_hosts s) True s;
         Some (items1 \<noteq> [], items1, s1)
       }
     }"

definition GetShortLinkItems ::
    "source_env \<Rightarrow> bool \<Rightarrow> string list \<Rightarrow> NetSource \<Rightarrow> (bool \<times> IPPortItem list \<times> NetSource) option" where
  "GetShortLinkItems env isactive hosts s =
     do {
       (debug, items) \<leftarrow> GetShortlinkDebugIPPort hosts s;
       if debug then Some (True, items, s)
       else if hosts = [] then Some (False, [], s)
       else do {
         (items1, s1) \<leftarrow> GetIPPortItems env isactive hosts False s;
         Some (items1 \<noteq> [], items1, s1)
       }
     }"

section \<open>The length of the list\<close>

lemma SortandFilter_length:
  "0 \<le> n \<Longrightarrow> \<exists>r st. SortandFilter env clk start items n s = Some (r, st) \<and> length r \<le> nat n"
  by (auto simp: SortandFilter_def Let_def case_prod_beta)

lemma MakeIPPorts_length:
  assumes "length items \<le> cnt"
  shows "\<exists>n items' s'. MakeIPPorts env k host cnt b long (items, s) = Some (n, items', s') \<and> length items' \<le> cnt"
proof (cases b)
  case True
  then show ?thesis using assms by (auto simp: MakeIPPorts_def Let_def case_prod_beta)
next
  case False
  obtain ist iplist s1 where l: "lookup_host env k host s = (ist, iplist, s1)" by (metis prod.collapse)
  obtain r st where "SortandFilter (so_sort env k) (so_clk env k) (so_start env) (host_items ist host iplist (link_ports b long s))
      (int cnt - int (length items)) (ipportstrategy s1) = Some (r, st)" "length r \<le> nat (int cnt - int (length items))"
    using SortandFilter_length [of "int cnt - int (length items)"] assms by fastforce
  moreover from this(2) have "length items + length r \<le> cnt" using assms by linarith
  ultimately show ?thesis using False l assms by (simp add: MakeIPPorts_def Let_def)
qed

lemma make_active_length:
  assumes "length (fst c) \<le> make_cnt" "make_cnt \<le> 6"
  shows "\<exists>m n c'. make_active env k b long hosts merge_cnt make_cnt c = Some (m, n, c') \<and> length (fst c') \<le> n \<and> n \<le> 6"
  using assms
proof (induction hosts arbitrary: k merge_cnt make_cnt c)
  case (Cons host hosts)
  let ?n = "if merge_cnt = 1 \<and> length (fst c) = kNumMakeCount then kNumMakeCount + 1 else make_cnt"
  have "length (fst c) \<le> ?n" "?n \<le> 6" using Cons.prems by (simp_all add: kNumMakeCount_def)
  moreover from this(1) obtain n c1 where "MakeIPPorts env k host ?n b long c = Some (n, c1)" "length (fst c1) \<le> ?n"
    using MakeIPPorts_length [of "fst c" ?n env k host b long "snd c"] by auto
  ultimately show ?case
    using Cons.IH [of c1 ?n "Suc k" "if 0 < n then Suc merge_cnt else merge_cnt"] by (simp only: make_active.simps Let_def bind.bind_lunit prod.case)
qed simp

lemma make_inactive_length:
  assumes "length (fst c) \<le> cnt" "cnt = i * ret + min i ret2" "(i + length hosts) * ret + ret2 = 4"
  shows "\<exists>cnt' c'. make_inactive env k long ret ret2 i hosts cnt c = Some (cnt', c') \<and> length (fst c') \<le> 4"
  using assms
proof (induction hosts arbitrary: k i cnt c)
  case Nil
  then show ?case by simp
next
  case (Cons host hosts)
  have le: "cnt \<le> 4" using Cons.prems(2,3) by (simp add: algebra_simps)
  show ?case
  proof (cases "cnt < kNumMakeCount - 1")
    case True
    define cnt1 where "cnt1 = cnt + (if i < ret2 then ret + 1 else ret)"
    have c: "cnt1 = Suc i * ret + min (Suc i) ret2" using Cons.prems(2) by (auto simp: cnt1_def)
    obtain n c1 where m: "MakeIPPorts env k host cnt1 False long c = Some (n, c1)" "length (fst c1) \<le> cnt1"
      using MakeIPPorts_length [of "fst c" cnt1 env k host False long "snd c"] Cons.prems(1) by (auto simp: cnt1_def)
    have "(Suc i + length hosts) * ret + ret2 = 4" using Cons.prems(3) by simp
    from Cons.IH [OF m(2) c this, of "Suc k"] True m(1) show ?thesis by (simp add: cnt1_def Let_def)
  next
    case False
    then show ?thesis using Cons.prems(1) le by simp
  qed
qed

lemma make_backups_length:
  assumes "length (fst c) \<le> 5"
  shows "\<exists>c'. make_backups env k long hosts cnt c = Some c' \<and> length (fst c') \<le> 5"
  using assms
proof (induction hosts arbitrary: k c)
  case (Cons host hosts)
  obtain n c1 where "MakeIPPorts env k host kNumMakeCount True long c = Some (n, c1)" "length (fst c1) \<le> kNumMakeCount"
    using MakeIPPorts_length [of "fst c" kNumMakeCount env k host True long "snd c"] Cons.prems by (auto simp: kNumMakeCount_def)
  then show ?case using Cons.IH [of c1 "Suc k"] Cons.prems by (cases c) (simp add: kNumMakeCount_def)
qed simp

lemma GetIPPortItems_total:
  assumes "hosts \<noteq> []"
  shows "\<exists>items s'. GetIPPortItems env isactive hosts long s = Some (items, s') \<and>
     length items \<le> (if isactive then 6 else 5)"
proof (cases isactive)
  case True
  obtain m n c where 1: "make_active env 0 False long hosts 0 kNumMakeCount ([], s) = Some (m, n, c)"
    "length (fst c) \<le> n" "n \<le> 6"
    using make_active_length [of "([], s)" kNumMakeCount env 0 False long hosts 0] by (auto simp: kNumMakeCount_def)
  obtain m2 n2 c2 where "make_active env (length hosts) True long hosts m n c = Some (m2, n2, c2)"
    "length (fst c2) \<le> n2" "n2 \<le> 6"
    using make_active_length [OF 1(2,3)] by blast
  then show ?thesis using True 1(1) by (cases c2) (auto simp: GetIPPortItems_def)
next
  case False
  let ?r = "(kNumMakeCount - 1) div length hosts" and ?r2 = "(kNumMakeCount - 1) mod length hosts"
  have "(0 + length hosts) * ?r + ?r2 = 4" by (simp add: kNumMakeCount_def)
  then obtain cnt c where 1: "make_inactive env 0 long ?r ?r2 0 hosts 0 ([], s) = Some (cnt, c)" "length (fst c) \<le> 4"
    using make_inactive_length [of "([], s)" 0 0 ?r ?r2 hosts env 0 long] by auto
  then obtain c2 where "make_backups env (length hosts) long hosts cnt c = Some c2" "length (fst c2) \<le> 5"
    using make_backups_length [of c env "length hosts" long hosts cnt] by auto
  then show ?thesis using False assms 1(1) by (cases c2) (auto simp: GetIPPortItems_def)
qed

text \<open>The list of addresses of a link: whatever the name services, the histories and the random orders
  answer, the code never divides by zero and never shortens a list to a negative size, and the list
  has at most six addresses while the application is active and at most five otherwise.\<close>

theorem address_list_bounded:
  assumes "hosts \<noteq> []"
  shows "\<exists>items s'. GetIPPortItems env isactive hosts long s = Some (items, s') \<and>
     length items \<le> (if isactive then 6 else 5)"
  by (rule GetIPPortItems_total [OF assms])

definition sample_source_env :: source_env where
  "sample_source_env = \<lparr>so_newdns = (\<lambda>_ _. (True, [''10.0.0.1'', ''10.0.0.2''])), so_dns = (\<lambda>_ _. (False, [])),
     so_sort = (\<lambda>_. sample_sort_env), so_clk = (\<lambda>_ _. 10), so_start = 0, so_shuffle = (\<lambda>_. rev)\<rparr>"

definition sample_source :: NetSource where
  "sample_source = SetLongLink [''a'', ''b'', ''c''] [80, 8080] '''' (NetSource_new sample_choice)"

theorem address_list_bounded_witness:
  "\<exists>items s'. GetIPPortItems sample_source_env True [''a'', ''b'', ''c''] True sample_source = Some (items, s') \<and> length items \<le> 6"
  using address_list_bounded [of "[''a'', ''b'', ''c'']" sample_source_env True True sample_source] by simp

section \<open>Where the addresses come from\<close>

text \<open>What the random orders and \<open>std::sort\<close> promise here: permutations.\<close>

definition permutes_lists :: "source_env \<Rightarrow> bool" where
  "permutes_lists env \<longleftrightarrow> (\<forall>k xs less. mset (se_shuffle (so_sort env k) xs) = mset xs \<and>
     mset (se_sort (so_sort env k) less xs) = mset xs \<and> mset (so_shuffle env k xs) = mset xs)"

text \<open>The addresses that the sources have for a host.\<close>

definition new_ips :: "source_env \<Rightarrow> string \<Rightarrow> string set" where
  "new_ips env host = (\<Union>k. set (snd (so_newdns env k host)))"

definition dns_ips :: "source_env \<Rightarrow> string \<Rightarrow> string set" where
  "dns_ips env host = (\<Union>k. set (snd (so_dns env k host)))"

definition sourced :: "source_env \<Rightarrow> string list \<Rightarrow> bool \<Rightarrow> NetSource \<Rightarrow> IPPortItem \<Rightarrow> bool" where
  "sourced env hosts long s it \<longleftrightarrow>
     str_host it \<in> set hosts \<and>
     (source_type it = kIPSourceNewDns \<and> str_ip it \<in> new_ips env (str_host it) \<and> ipport it \<in> set (link_ports False long s) \<or>
      source_type it = kIPSourceDNS \<and> str_ip it \<in> dns_ips env (str_host it) \<and> ipport it \<in> set (link_ports False long s) \<or>
      source_type it = kIPSourceBackup \<and> str_ip it \<in> set (GetBackupIPs (str_host it) s) \<union> dns_ips env (str_host it) \<and>
        ipport it \<in> set (link_ports True long s))"

text \<open>The ports stay, and the backup addresses grow by answers of the name service only.\<close>

definition source_step :: "source_env \<Rightarrow> NetSource \<Rightarrow> NetSource \<Rightarrow> bool" where
  "source_step env s s' \<longleftrightarrow> (\<forall>b long. link_ports b long s' = link_ports b long s) \<and>
     (\<forall>h. set (GetBackupIPs h s') \<subseteq> set (GetBackupIPs h s) \<union> dns_ips env h)"

lemma source_step_refl: "source_step env s s"
  by (auto simp: source_step_def)

lemma source_step_ports: "source_step env s s' \<Longrightarrow> link_ports b long s' = link_ports b long s"
  by (simp add: source_step_def)

lemma source_step_backups:
  "source_step env s s' \<Longrightarrow> x \<in> set (GetBackupIPs h s') \<Longrightarrow> x \<in> set (GetBackupIPs h s) \<union> dns_ips env h"
  by (auto simp: source_step_def)

lemma source_step_trans:
  assumes "source_step env s s'" "source_step env s' s''" shows "source_step env s s''"
  unfolding source_step_def
proof (intro conjI allI subsetI)
  show "link_ports b long s'' = link_ports b long s" for b long
    using assms by (simp add: source_step_ports)
  show "x \<in> set (GetBackupIPs h s) \<union> dns_ips env h" if "x \<in> set (GetBackupIPs h s'')" for x h
    using source_step_backups [OF assms(2) that] source_step_backups [OF assms(1)] by blast
qed

lemma sourced_step: "source_step env s s' \<Longrightarrow> sourced env hosts long s' it \<Longrightarrow> sourced env hosts long s it"
  using source_step_backups [of env s s' "str_ip it" "str_host it"] by (auto simp: sourced_def source_step_ports)

lemma FilterbyBanned_subset: "set (fst (FilterbyBanned clk start bans items sb)) \<subseteq> set items"
proof (induction items arbitrary: clk sb)
  case (Cons it items)
  show ?case
    using Cons.IH [of "\<lambda>i. clk (Suc i)"] by (simp add: Let_def case_prod_beta) blast
qed simp

lemma set_merge_random: "set (merge_random rnd hs ns) = set hs \<union> set ns"
  by (metis mset_merge_random set_mset_mset set_mset_union)

lemma SortandFilter_subset:
  assumes "permutes_lists env" "SortandFilter (so_sort env k) clk start items n st = Some (r, st')"
  shows "set r \<subseteq> set items"
proof -
  let ?e = "so_sort env k" and ?f = "FilterbyBanned clk start (ban_fail_list st) items (server_bans st)"
  let ?i = "fst ?f" and ?b = "ban_fail_list st"
  have perm: "set (se_shuffle ?e xs) = set xs" "set (se_sort ?e less xs) = set xs" for xs less
    using assms(1) by (metis permutes_lists_def set_mset_mset)+
  have "set (spread 1 xs) = set xs" for xs using mset_spread [of 1 xs] by (metis set_mset_mset)
  then have "set (SortbyBanned ?e ?b ?i) = set ?i"
    using perm by (auto simp: SortbyBanned_def Let_def set_merge_random)
  moreover have "set r \<subseteq> set (SortbyBanned ?e ?b ?i)"
    using assms(2) by (auto simp: SortandFilter_def Let_def case_prod_beta split: if_splits dest: in_set_takeD)
  ultimately show ?thesis using FilterbyBanned_subset [of clk start ?b items "server_bans st"] by simp
qed

lemma prune_subset: "set (prune used pc rq cur ips) \<subseteq> set ips"
  by (induction used pc rq cur ips rule: prune.induct) auto

lemma host_items_mem:
  "it \<in> set (host_items ist host ips ports) \<longleftrightarrow>
     source_type it = ist \<and> str_host it = host \<and> str_ip it \<in> set ips \<and> ipport it \<in> set ports"
  by (cases it) (auto simp: host_items_def image_iff)

lemma backups_frame [simp]: "GetBackupIPs h (s\<lparr>ns_reports := r\<rparr>) = GetBackupIPs h s"
  "GetBackupIPs h (s\<lparr>ipportstrategy := st\<rparr>) = GetBackupIPs h s"
  "link_ports b long (s\<lparr>ns_reports := r\<rparr>) = link_ports b long s"
  "link_ports b long (s\<lparr>ipportstrategy := st\<rparr>) = link_ports b long s"
  "link_ports b long (SetBackupIPs h' ips s) = link_ports b long s"
  by (simp_all add: GetBackupIPs_def link_ports_def SetBackupIPs_def)

lemma GetBackupIPs_Set: "GetBackupIPs h (SetBackupIPs h' ips s) = (if h = h' then ips else GetBackupIPs h s)"
  by (simp add: GetBackupIPs_def SetBackupIPs_def smap.get_put)

lemma lookup_host_sources:
  assumes "lookup_host env k host s = (ist, ips, s')"
  shows "ist = kIPSourceNewDns \<and> set ips \<subseteq> new_ips env host \<or> ist = kIPSourceDNS \<and> set ips \<subseteq> dns_ips env host"
    and "source_step env s s'"
  using assms by (auto simp: lookup_host_def Let_def case_prod_beta new_ips_def dns_ips_def source_step_def split: if_splits)

lemma backup_ips_sources:
  assumes "backup_ips env k host s = (ips, s')"
  shows "set ips \<subseteq> set (GetBackupIPs host s) \<union> dns_ips env host" and "source_step env s s'"
proof -
  have d: "set (snd (so_dns env k host)) \<subseteq> dns_ips env host" by (auto simp: dns_ips_def)
  then show "set ips \<subseteq> set (GetBackupIPs host s) \<union> dns_ips env host"
    using assms by (auto simp: backup_ips_def Let_def case_prod_beta split: if_splits)
  show "source_step env s s'"
    using assms d by (auto simp: backup_ips_def Let_def case_prod_beta source_step_def GetBackupIPs_Set split: if_splits)
qed

lemma MakeIPPorts_sources:
  assumes "permutes_lists env" "MakeIPPorts env k host cnt b long (items, s) = Some (n, items', s')" "host \<in> set hosts"
    and "\<forall>it \<in> set items. sourced env hosts long s0 it" "source_step env s0 s"
  shows "(\<forall>it \<in> set items'. sourced env hosts long s0 it) \<and> source_step env s0 s'"
proof (cases b)
  case False
  obtain ist ips s1 where l: "lookup_host env k host s = (ist, ips, s1)" by (metis prod.collapse)
  note src = lookup_host_sources [OF l]
  have s1: "source_step env s0 s1" by (rule source_step_trans [OF assms(5) src(2)])
  show ?thesis
  proof (cases "ips = []")
    case True
    then show ?thesis using assms(2,4) False l s1 by (auto simp: MakeIPPorts_def)
  next
    case nonempty: False
    let ?h = "host_items ist host ips (link_ports False long s)"
    obtain r st where r: "SortandFilter (so_sort env k) (so_clk env k) (so_start env) ?h (int cnt - int (length items))
        (ipportstrategy s1) = Some (r, st)" "items' = items @ r" "s' = s1\<lparr>ipportstrategy := st\<rparr>"
      using assms(2) False l nonempty by (auto simp: MakeIPPorts_def Let_def split: bind_splits)
    have "sourced env hosts long s0 it" if "it \<in> set r" for it
    proof -
      have "it \<in> set ?h" using SortandFilter_subset [OF assms(1) r(1)] that by blast
      then show ?thesis
        using src(1) assms(3) source_step_ports [OF assms(5)] by (auto simp: host_items_mem sourced_def)
    qed
    moreover have "source_step env s0 s'" using s1 r(3) by (simp add: source_step_def)
    ultimately show ?thesis using assms(4) r(2) by auto
  qed
next
  case True
  obtain ips s1 where l: "backup_ips env k host s = (ips, s1)" by (metis prod.collapse)
  note src = backup_ips_sources [OF l]
  have s1: "source_step env s0 s1" by (rule source_step_trans [OF assms(5) src(2)])
  define ports where "ports = link_ports True long s"
  define rq where "rq = (if length items \<le> cnt then cnt - length items else cnt + 2 ^ 64 - length items)"
  define ips' where "ips' = (if ips \<noteq> [] \<and> ports \<noteq> []
     then prune (str_ip ` set items) (length ports) (if rq < length ports then rq + length ports else rq)
            (length ips * length ports) ips else ips)"
  have "MakeIPPorts env k host cnt b long (items, s) =
      (if ips' = [] then Some (0, items, s1)
       else Some (length (take cnt (items @ so_shuffle env k (host_items kIPSourceBackup host ips' ports))),
                  take cnt (items @ so_shuffle env k (host_items kIPSourceBackup host ips' ports)), s1))"
    using True by (simp only: MakeIPPorts_def l Let_def prod.case simp_thms if_True if_False ports_def rq_def ips'_def)
  then have i: "s' = s1"
    "items' = items \<or> items' = take cnt (items @ so_shuffle env k (host_items kIPSourceBackup host ips' (link_ports True long s)))"
    using assms(2) by (auto simp: ports_def split: if_splits)
  have sub: "set ips' \<subseteq> set ips" using prune_subset by (simp add: ips'_def)
  let ?h = "host_items kIPSourceBackup host ips' (link_ports True long s)"
  have "set (so_shuffle env k ?h) = set ?h" using assms(1) by (metis permutes_lists_def set_mset_mset)
  moreover have "set items' \<subseteq> set items \<union> set (so_shuffle env k ?h)"
    using i(2) set_take_subset [of cnt "items @ so_shuffle env k ?h"] by (auto simp del: take_append)
  moreover have "sourced env hosts long s0 it" if "it \<in> set ?h" for it
  proof -
    have m: "source_type it = kIPSourceBackup" "str_host it = host" "str_ip it \<in> set ips'"
        "ipport it \<in> set (link_ports True long s)" using that by (simp_all add: host_items_mem)
    then have "str_ip it \<in> set (GetBackupIPs host s) \<union> dns_ips env host" using sub src(1) by blast
    then have "str_ip it \<in> set (GetBackupIPs host s0) \<union> dns_ips env host"
      using source_step_backups [OF assms(5), of "str_ip it" host] by blast
    then show ?thesis using m assms(3) source_step_ports [OF assms(5)] by (simp add: sourced_def)
  qed
  ultimately show ?thesis using i(1) s1 assms(4) by blast
qed

text \<open>The property that the loops keep.\<close>

definition list_sourced :: "source_env \<Rightarrow> string list \<Rightarrow> bool \<Rightarrow> NetSource \<Rightarrow> IPPortItem list \<times> NetSource \<Rightarrow> bool" where
  "list_sourced env hosts long s0 c \<longleftrightarrow> (\<forall>it \<in> set (fst c). sourced env hosts long s0 it) \<and> source_step env s0 (snd c)"

lemma MakeIPPorts_list:
  "permutes_lists env \<Longrightarrow> MakeIPPorts env k host cnt b long c = Some (n, c') \<Longrightarrow> host \<in> set hosts \<Longrightarrow>
   list_sourced env hosts long s0 c \<Longrightarrow> list_sourced env hosts long s0 c'"
  using MakeIPPorts_sources [of env k host cnt b long "fst c" "snd c" n "fst c'" "snd c'" hosts s0]
  by (simp add: list_sourced_def)

lemma make_active_list:
  assumes "permutes_lists env" "set hs \<subseteq> set hosts"
  shows "make_active env k b long hs m n c = Some (m', n', c') \<Longrightarrow>
    list_sourced env hosts long s0 c \<Longrightarrow> list_sourced env hosts long s0 c'"
  using assms(2)
proof (induction hs arbitrary: k m n c)
  case (Cons h hs)
  let ?n = "if m = 1 \<and> length (fst c) = kNumMakeCount then kNumMakeCount + 1 else n"
  obtain r c1 where r: "MakeIPPorts env k h ?n b long c = Some (r, c1)"
    "make_active env (Suc k) b long hs (if 0 < r then Suc m else m) ?n c1 = Some (m', n', c')"
    using Cons.prems(1) by (auto simp: Let_def split: bind_splits)
  have "list_sourced env hosts long s0 c1"
    using MakeIPPorts_list [OF assms(1) r(1) _ Cons.prems(2)] Cons.prems(3) by auto
  then show ?case using Cons.IH [OF r(2)] Cons.prems(3) by simp
qed simp

lemma make_inactive_list:
  assumes "permutes_lists env" "set hs \<subseteq> set hosts"
  shows "make_inactive env k long ret ret2 i hs cnt c = Some (cnt', c') \<Longrightarrow>
    list_sourced env hosts long s0 c \<Longrightarrow> list_sourced env hosts long s0 c'"
  using assms(2)
proof (induction hs arbitrary: k i cnt c)
  case (Cons h hs)
  show ?case
  proof (cases "cnt < kNumMakeCount - 1")
    case True
    let ?n = "cnt + (if i < ret2 then ret + 1 else ret)"
    obtain r c1 where r: "MakeIPPorts env k h ?n False long c = Some (r, c1)"
      "make_inactive env (Suc k) long ret ret2 (Suc i) hs ?n c1 = Some (cnt', c')"
      using Cons.prems(1) True by (auto simp: Let_def split: bind_splits)
    have "list_sourced env hosts long s0 c1"
      using MakeIPPorts_list [OF assms(1) r(1) _ Cons.prems(2)] Cons.prems(3) by auto
    then show ?thesis using Cons.IH [OF r(2)] Cons.prems(3) by simp
  qed (use Cons.prems in simp)
qed simp

lemma make_backups_list:
  assumes "permutes_lists env" "set hs \<subseteq> set hosts"
  shows "make_backups env k long hs cnt c = Some c' \<Longrightarrow>
    list_sourced env hosts long s0 c \<Longrightarrow> list_sourced env hosts long s0 c'"
  using assms(2)
proof (induction hs arbitrary: k c)
  case (Cons h hs)
  show ?case
  proof (cases "cnt < kNumMakeCount")
    case True
    obtain r c1 where r: "MakeIPPorts env k h kNumMakeCount True long c = Some (r, c1)"
      "make_backups env (Suc k) long hs cnt c1 = Some c'"
      using Cons.prems(1) True by (auto split: bind_splits)
    have "list_sourced env hosts long s0 c1"
      using MakeIPPorts_list [OF assms(1) r(1) _ Cons.prems(2)] Cons.prems(3) by auto
    then show ?thesis using Cons.IH [OF r(2)] Cons.prems(3) by simp
  qed (use Cons.prems in simp)
qed simp

text \<open>C17. Every address of a list comes from its source: its host is one of the hosts asked for; it is an answer
  of the name service its type names, with a port of the link, or a backup address of that host, configured
  or learned from the system's name service, with a port of the link for backup addresses.\<close>

theorem addresses_sourced:
  assumes "permutes_lists env" "GetIPPortItems env isactive hosts long s = Some (items, s')" "it \<in> set items"
  shows "str_host it \<in> set hosts \<and>
     (source_type it = kIPSourceNewDns \<and> str_ip it \<in> new_ips env (str_host it) \<and> ipport it \<in> set (link_ports False long s) \<or>
      source_type it = kIPSourceDNS \<and> str_ip it \<in> dns_ips env (str_host it) \<and> ipport it \<in> set (link_ports False long s) \<or>
      source_type it = kIPSourceBackup \<and> str_ip it \<in> set (GetBackupIPs (str_host it) s) \<union> dns_ips env (str_host it) \<and>
        ipport it \<in> set (link_ports True long s))"
proof -
  have init: "list_sourced env hosts long s ([], s)" by (simp add: list_sourced_def source_step_refl)
  have "list_sourced env hosts long s (items, s')"
  proof (cases isactive)
    case True
    then obtain m n c m2 n2 where 1: "make_active env 0 False long hosts 0 kNumMakeCount ([], s) = Some (m, n, c)"
      "make_active env (length hosts) True long hosts m n c = Some (m2, n2, (items, s'))"
      using assms(2) by (auto simp: GetIPPortItems_def split: bind_splits)
    show ?thesis by (rule make_active_list [OF assms(1) subset_refl 1(2) make_active_list [OF assms(1) subset_refl 1(1) init]])
  next
    case False
    then obtain cnt c where 1: "make_inactive env 0 long ((kNumMakeCount - 1) div length hosts)
        ((kNumMakeCount - 1) mod length hosts) 0 hosts 0 ([], s) = Some (cnt, c)"
      "make_backups env (length hosts) long hosts cnt c = Some (items, s')"
      using assms(2) by (auto simp: GetIPPortItems_def split: bind_splits if_splits)
    show ?thesis by (rule make_backups_list [OF assms(1) subset_refl 1(2) make_inactive_list [OF assms(1) subset_refl 1(1) init]])
  qed
  then show ?thesis using assms(3) by (auto simp: list_sourced_def sourced_def)
qed

theorem addresses_sourced_witness:
  "\<exists>items s'. GetIPPortItems sample_source_env False [''a''] True sample_source = Some (items, s') \<and>
     items \<noteq> [] \<and> (\<forall>it \<in> set items. str_host it = ''a'' \<and> ipport it \<in> {80, 8080})"
proof -
  have "case GetIPPortItems sample_source_env False [''a''] True sample_source of
      None \<Rightarrow> False | Some (items, s') \<Rightarrow> items \<noteq> []" by code_simp
  then obtain items s' where g: "GetIPPortItems sample_source_env False [''a''] True sample_source = Some (items, s')"
    "items \<noteq> []" by (auto split: option.splits)
  have "permutes_lists sample_source_env"
    by (simp add: permutes_lists_def sample_source_env_def sample_sort_env_def)
  moreover have "set (link_ports b True sample_source) \<subseteq> {80, 8080}" for b 
    by (auto simp: link_ports_def sample_source_def SetLongLink_def NetSource_new_def split: if_splits)
  ultimately show ?thesis using addresses_sourced [OF _ g(1)] g by fastforce
qed

section \<open>Clearing a debug address\<close>

text \<open>\<open>SetDebugIP\<close> with an empty address clears a debug address only where there is one. On a host
  without a debug address it stores the empty address as one: from then on \<open>GetLongLinkItems\<close> answers
  true with an empty address on every port, and no name service is asked.\<close>

theorem debug_ip_cleared_unset:
  assumes "mget (sg_host_debugip_mapping s) host = None" "sg_longlink_hosts s = host # hosts" "sg_longlink_ports s \<noteq> []"
  shows "\<exists>items. GetLongLinkItems env isactive (SetDebugIP host '''' s) = Some (True, items, SetDebugIP host '''' s) \<and>
     items \<noteq> [] \<and> (\<forall>it \<in> set items. str_ip it = '''' \<and> source_type it = kIPSourceDebug)"
proof -
  have "mget (sg_host_debugip_mapping (SetDebugIP host '''' s)) host = Some ''''"
    using assms(1) by (simp add: SetDebugIP_def smap.get_put)
  moreover have "sg_longlink_hosts (SetDebugIP host '''' s) = host # hosts"
    "sg_longlink_ports (SetDebugIP host '''' s) = sg_longlink_ports s"
    using assms(2) by (simp_all add: SetDebugIP_def)
  ultimately show ?thesis
    using assms(3) by (auto simp: GetLongLinkItems_def GetLonglinkDebugIPPort_def debug_item_def)
qed

theorem debug_ip_cleared_unset_witness:
  "\<exists>items. GetLongLinkItems sample_source_env True (SetDebugIP ''a'' '''' sample_source) =
     Some (True, items, SetDebugIP ''a'' '''' sample_source) \<and> items \<noteq> [] \<and>
     (\<forall>it \<in> set items. str_ip it = '''' \<and> source_type it = kIPSourceDebug)"
  by (rule debug_ip_cleared_unset [where hosts = "[''b'', ''c'']"])
    (simp_all add: sample_source_def SetLongLink_def NetSource_new_def mget_def)

end
