(* ===== verification/Link_Services.thy ===== *)
theory Link_Services
  imports Connect_Monitor Signalling_Keeper Timer_Check Net_Source "HOL-Library.Multiset"
begin

text \<open>
  The services around the long link as stn/src/net_core.cc composes them: the link, its connect
  monitor, the active logic, the timing sync, the signalling keeper, the periodic address check and
  the net source, with the signals between them. The tasks are in \<open>Net_Core\<close>, which has the handlers
  of the same signals that concern the task managers and the zombies. All alarms draw their numbers
  from one counter, \<open>ll_sg_seq\<close>. Slots that switch to the message queue of the core leave an entry of
  \<open>sv_queue\<close>; the others run within the signal. \<open>svc_env\<close> is what a call sees of the system.

  The handlers of the core's queue run one at a time. The timing sync is the part that other threads
  call as well, without a lock: \<open>sv_calls\<close> are the calls of it in progress (\<open>sync_pc\<close>), each of which is a
  sequence of steps with any other steps in between, and \<open>sv_slot\<close> is a report of the link that the monitor
  has got and the timing sync has not.
\<close>

section \<open>State\<close>

datatype svc_post = PostMonForeground bool | PostMonActive | PostCheck bool

record svc_env =
  ve_mon :: mon_env
  ve_logoned :: bool
  ve_break_ok :: bool
  ve_time :: int
  ve_netinfo :: "string option"
  ve_now :: u64

record Services =
  sv_link :: LongLink
  sv_monitor :: Monitor
  sv_active :: ActiveLogic
  sv_sync :: TimingSync
  sv_keeper :: SignallingKeeper
  sv_check :: TimerCheck
  sv_source :: NetSource
  sv_queue :: "svc_post list"
  sv_calls :: "sync_pc multiset"
  sv_slot :: "TLongLinkStatus option"

definition svc_alarm :: "svc_env \<Rightarrow> alarm_env" where
  "svc_alarm env = le_alarm (me_link (ve_mon env))"

definition sync_view :: "svc_env \<Rightarrow> ActiveLogic \<Rightarrow> sync_env" where
  "sync_view env a = \<lparr>se_alarm = svc_alarm env, se_isactive = act_isactive a, se_logoned = ve_logoned env,
     se_net = me_net (ve_mon env)\<rparr>"

definition with_mon :: "LongLink \<times> Monitor \<Rightarrow> Services \<Rightarrow> Services" where
  "with_mon c s = s\<lparr>sv_link := fst c, sv_monitor := snd c\<rparr>"

definition with_active :: "int \<times> ActiveLogic \<Rightarrow> Services \<Rightarrow> Services" where
  "with_active c s = s\<lparr>sv_link := (sv_link s)\<lparr>ll_sg_seq := fst c\<rparr>, sv_active := snd c\<rparr>"

definition with_sync :: "int \<times> TimingSync \<Rightarrow> Services \<Rightarrow> Services" where
  "with_sync c s = s\<lparr>sv_link := (sv_link s)\<lparr>ll_sg_seq := fst c\<rparr>, sv_sync := snd c\<rparr>"

text \<open>The constructor of the core: the active logic is there, the long link with its monitor, the
  keeper and the address check follow, and the timing sync, which starts its alarm.\<close>

definition Services_new ::
    "svc_env \<Rightarrow> SmartHeartbeat option \<Rightarrow> bool \<Rightarrow> bool \<Rightarrow> SimpleIPPortSort \<Rightarrow> int \<times> ActiveLogic \<Rightarrow> Services" where
  "Services_new env h pipe_ok use_UDP strategy active =
     (let (g, a) = active;
          (g', t) = TimingSync_new (sync_view env a) g
      in \<lparr>sv_link = LongLink_new h pipe_ok pipe_ok g', sv_monitor = Monitor_new, sv_active = a, sv_sync = t,
          sv_keeper = SignallingKeeper_new True pipe_ok use_UDP, sv_check = TimerCheck_new pipe_ok (act_isactive a),
          sv_source = NetSource_new strategy, sv_queue = [], sv_calls = {#}, sv_slot = None\<rparr>)"

section \<open>Signals\<close>

text \<open>The slots of \<open>SignalForeground\<close> and \<open>SignalActive\<close>: that of the timing sync begins its call, the
  others leave an entry in the queue.\<close>

fun svc_signal :: "active_signal \<Rightarrow> Services \<Rightarrow> Services" where
  "svc_signal (SignalForeground b) s = s\<lparr>sv_queue := sv_queue s @ [PostMonForeground b]\<rparr>"
| "svc_signal (SignalActive b) s =
     s\<lparr>sv_calls := add_mset (AtCheck (Some b)) (sv_calls s), sv_queue := sv_queue s @ [PostMonActive, PostCheck b]\<rparr>"

definition new_signals :: "ActiveLogic \<Rightarrow> ActiveLogic \<Rightarrow> active_signal list" where
  "new_signals a a' = drop (length (act_signals a)) (act_signals a')"

definition svc_foreground :: "svc_env \<Rightarrow> bool \<Rightarrow> Services \<Rightarrow> Services" where
  "svc_foreground env b s =
     (let c = OnForeground (me_apple (ve_mon env)) (svc_alarm env) b (ll_sg_seq (sv_link s)) (sv_active s)
      in fold svc_signal (new_signals (sv_active s) (snd c)) (with_active c s))"

definition svc_inactive :: "Services \<Rightarrow> Services" where
  "svc_inactive s =
     (let a = OnInActive ((sv_active s)\<lparr>act_timer := timer_take (act_timer (sv_active s))\<rparr>)
      in fold svc_signal (new_signals (sv_active s) a) (s\<lparr>sv_active := a\<rparr>))"

text \<open>The next step of a call of the timing sync, which is taken out of the calls before, and the default
  queue that takes the call of the sync's alarm.\<close>

definition svc_call :: "svc_env \<Rightarrow> sync_pc \<Rightarrow> Services \<Rightarrow> Services" where
  "svc_call env c s =
     (let (c', d) = sync_call (sync_view env (sv_active s)) c (ll_sg_seq (sv_link s)) (sv_sync s)
      in with_sync d (s\<lparr>sv_calls := (case c' of None \<Rightarrow> sv_calls s | Some p \<Rightarrow> add_mset p (sv_calls s))\<rparr>))"

definition svc_sync_alarm :: "Services \<Rightarrow> Services" where
  "svc_sync_alarm s =
     s\<lparr>sv_sync := (sv_sync s)\<lparr>ts_timer := timer_take (ts_timer (sv_sync s))\<rparr>, sv_calls := add_mset AtSync (sv_calls s)\<rparr>"

text \<open>The queue runs its next entry.\<close>

fun run_post :: "svc_env \<Rightarrow> svc_post \<Rightarrow> Services \<Rightarrow> Services" where
  "run_post env (PostMonForeground b) s = with_mon (OnSignalForeground (ve_mon env) (sv_active s) b (sv_link s) (sv_monitor s)) s"
| "run_post env PostMonActive s = with_mon (OnSignalActive (ve_mon env) (sv_active s) (sv_link s) (sv_monitor s)) s"
| "run_post env (PostCheck b) s = s\<lparr>sv_check := TC_OnActiveChanged (ve_break_ok env) b (sv_check s)\<rparr>"

definition svc_posted :: "svc_env \<Rightarrow> Services \<Rightarrow> Services" where
  "svc_posted env s = (case sv_queue s of [] \<Rightarrow> s | p # q \<Rightarrow> run_post env p (s\<lparr>sv_queue := q\<rparr>))"

text \<open>The queue delivers the next report of the link: the slots of \<open>SignalConnection\<close>, that of the monitor
  and then that of the timing sync.\<close>

definition svc_report :: "svc_env \<Rightarrow> Services \<Rightarrow> Services" where
  "svc_report env s =
     (let l = RunPosted_link (sv_link s)
      in case ll_posts (sv_link s) of
           PostConnection st # _ \<Rightarrow>
             (with_mon (Mon_OnLongLinkStatuChanged (ve_mon env) st l (sv_monitor s)) s)\<lparr>sv_slot := Some st\<rparr>
         | _ \<Rightarrow> s\<lparr>sv_link := l\<rparr>)"

definition svc_slot :: "svc_env \<Rightarrow> TLongLinkStatus \<Rightarrow> Services \<Rightarrow> Services" where
  "svc_slot env st s =
     with_sync (TS_OnLongLinkStatuChanged (sync_view env (sv_active s)) st (ll_sg_seq (sv_link s)) (sv_sync s))
       (s\<lparr>sv_slot := None\<rparr>)"

section \<open>Calls of the core\<close>

definition NC_KeepSignal :: "svc_env \<Rightarrow> Services \<Rightarrow> Services option" where
  "NC_KeepSignal env s = do {
     (l, k) \<leftarrow> Keep (me_link (ve_mon env)) (sv_link s) (sv_keeper s);
     Some (s\<lparr>sv_link := l, sv_keeper := k\<rparr>)
   }"

definition NC_StopSignal :: "Services \<Rightarrow> Services" where
  "NC_StopSignal s = s\<lparr>sv_keeper := Keeper_Stop (sv_keeper s)\<rparr>"

definition NC_MakeSureLongLinkConnect :: "Services \<Rightarrow> Services" where
  "NC_MakeSureLongLinkConnect s = s\<lparr>sv_link := snd (snd (MakeSureConnected (sv_link s)))\<rparr>"

definition NC_LongLinkIsConnected :: "Services \<Rightarrow> bool" where
  "NC_LongLinkIsConnected s \<longleftrightarrow> ll_connectstatus (sv_link s) = kConnected"

definition NC_DisConnectLonglink :: "svc_env \<Rightarrow> Services \<Rightarrow> Services" where
  "NC_DisConnectLonglink env s = s\<lparr>sv_link := mon_disconnect (ve_mon env) kReset (sv_link s)\<rparr>"

definition NC_OnTimerCheckSuc :: "svc_env \<Rightarrow> Services \<Rightarrow> Services" where
  "NC_OnTimerCheckSuc env s = s\<lparr>sv_link := mon_disconnect (ve_mon env) kTimeCheckSucc (sv_link s)\<rparr>"

definition NC_AddServerBan :: "svc_env \<Rightarrow> string \<Rightarrow> Services \<Rightarrow> Services" where
  "NC_AddServerBan env ip s = s\<lparr>sv_source := NS_AddServerBan (ve_now env) ip (sv_source s)\<rparr>"

text \<open>What \<open>OnNetworkChange\<close> and \<open>RedoTasks\<close> do to the services; the answer of the first is whether
  the tasks of the long link are to be redone. \<open>OnNetworkChange\<close> calls the timing sync between its begin
  and its end.\<close>

definition forget_addresses :: "svc_env \<Rightarrow> Services \<Rightarrow> Services" where
  "forget_addresses env s =
     s\<lparr>sv_check := CancelConnect (ve_break_ok env) (sv_check s),
       sv_source := snd (ClearCache (ve_time env) (ve_netinfo env) (sv_source s))\<rparr>"

definition network_begin :: "svc_env \<Rightarrow> Services \<Rightarrow> Services" where
  "network_begin env s =
     (let s1 = forget_addresses env s in s1\<lparr>sv_calls := add_mset (AtCheck None) (sv_calls s1)\<rparr>)"

definition network_end :: "svc_env \<Rightarrow> Services \<Rightarrow> bool \<times> Services" where
  "network_end env s =
     (let (redo, c) = Mon_NetworkChange (ve_mon env) (sv_active s) (sv_link s) (sv_monitor s) in (redo, with_mon c s))"

definition network_synced :: "svc_env \<Rightarrow> Services \<Rightarrow> Services" where
  "network_synced env s =
     (let s1 = forget_addresses env s
      in with_sync (TS_OnNetworkChange (sync_view env (sv_active s1)) (ll_sg_seq (sv_link s1)) (sv_sync s1)) s1)"

definition NC_services_NetworkChange :: "svc_env \<Rightarrow> Services \<Rightarrow> bool \<times> Services" where
  "NC_services_NetworkChange env s = network_end env (network_synced env s)"

definition NC_services_RedoTasks :: "svc_env \<Rightarrow> Services \<Rightarrow> Services" where
  "NC_services_RedoTasks env s = NC_MakeSureLongLinkConnect (NC_DisConnectLonglink env (forget_addresses env s))"

section \<open>Runs of the services\<close>

text \<open>The thread of the link reports that it connects and that it is connected, works, and ends after a
  failed attempt or after its read/write loop.\<close>

inductive thread_step :: "LongLink \<Rightarrow> LongLink \<Rightarrow> bool" where
  connecting: "ll_thread l \<Longrightarrow> ll_connectstatus l \<noteq> kConnected \<Longrightarrow> thread_step l (LL_ConnectStatus e kConnecting l)"
| connected: "ll_thread l \<Longrightarrow> thread_step l (LL_ConnectStatus e kConnected l)"
| failed: "ll_thread l \<Longrightarrow> ll_connectstatus l = kConnecting \<Longrightarrow> same_link (LL_ConnectStatus e kConnectFailed l) l' \<Longrightarrow>
     thread_step l (Run_unconnected e' sig p l')"
| ended: "ll_thread l \<Longrightarrow> ll_connectstatus l = kConnected \<Longrightarrow> thread_step l (Run_end e sig et ec p l)"
| working: "same_link l l' \<Longrightarrow> thread_step l l'"

text \<open>A call of \<open>Disconnect\<close> waits until the thread has ended.\<close>

definition joins :: "svc_env \<Rightarrow> TDisconnectInternalCode \<Rightarrow> LongLink \<Rightarrow> bool" where
  "joins env scene l \<longleftrightarrow> (ll_thread l \<longrightarrow>
     (let l1 = snd (LongLink_Disconnect (me_link (ve_mon env)) scene l); l2 = me_rest (ve_mon env) l1
      in thread_step\<^sup>*\<^sup>* l1 l2 \<and> \<not> ll_thread l2))"

text \<open>The steps. The operations that change only the alarm of the active logic, the address check, the
  net source or the keeper are taken together: \<open>active_message\<close>, \<open>check\<close>, \<open>source\<close> and \<open>keeper\<close> allow
  any change of these components. The slots of a change of activity need not run one after the other
  without others in between: with \<open>signal_call\<close> and \<open>signal_post\<close> a call of the timing sync and an entry of the
  queue can come at any time. The end of a change of the network need not wait for its call of the timing sync.\<close>

definition svc_admits :: "svc_env \<Rightarrow> bool" where
  "svc_admits env \<longleftrightarrow> alarms_work (svc_alarm env) \<and> \<not> me_apple (ve_mon env)"

inductive svc_step :: "Services \<Rightarrow> Services \<Rightarrow> bool" where
  foreground: "svc_admits env \<Longrightarrow> svc_step s (svc_foreground env b s)"
| active_message: "svc_step s (s\<lparr>sv_active := a'\<rparr>)"
| inactive: "svc_step s (svc_inactive s)"
| signal_call: "svc_step s (s\<lparr>sv_calls := add_mset (AtCheck b) (sv_calls s)\<rparr>)"
| signal_post: "svc_step s (s\<lparr>sv_queue := sv_queue s @ [q]\<rparr>)"
| posted: "svc_admits env \<Longrightarrow> svc_step s (svc_posted env s)"
| report: "svc_admits env \<Longrightarrow> sv_slot s = None \<Longrightarrow> svc_step s (svc_report env s)"
| mon_message: "n \<noteq> 0 \<Longrightarrow> svc_step s (s\<lparr>sv_monitor := (sv_monitor s)\<lparr>mon_timer := timer_message e n (mon_timer (sv_monitor s))\<rparr>\<rparr>)"
| mon_alarm: "svc_admits env \<Longrightarrow> tm_run (mon_timer (sv_monitor s)) \<Longrightarrow>
     svc_step s (with_mon (Mon_OnAlarm (ve_mon env) (sv_active s) (sv_link s)
       ((sv_monitor s)\<lparr>mon_timer := timer_take (mon_timer (sv_monitor s))\<rparr>)) s)"
| sync_message: "n \<noteq> 0 \<Longrightarrow> svc_step s (s\<lparr>sv_sync := (sv_sync s)\<lparr>ts_timer := timer_message e n (ts_timer (sv_sync s))\<rparr>\<rparr>)"
| sync_alarm: "tm_run (ts_timer (sv_sync s)) \<Longrightarrow> svc_step s (svc_sync_alarm s)"
| sync_calls: "svc_admits env \<Longrightarrow> sv_calls s = add_mset c cs \<Longrightarrow> svc_step s (svc_call env c (s\<lparr>sv_calls := cs\<rparr>))"
| task: "svc_step s (s\<lparr>sv_link := snd (Mon_MakeSureConnected env (sv_active s) (sv_link s))\<rparr>)"
| connect: "svc_step s (NC_MakeSureLongLinkConnect s)"
| disconnect: "joins env kReset (sv_link s) \<Longrightarrow> svc_step s (NC_DisConnectLonglink env s)"
| better: "joins env kTimeCheckSucc (sv_link s) \<Longrightarrow> svc_step s (NC_OnTimerCheckSuc env s)"
| network: "svc_step s (network_begin env s)"
| network_rest: "svc_admits env \<Longrightarrow> joins env kNetworkChange (sv_link s) \<Longrightarrow> svc_step s (snd (network_end env s))"
| redo: "joins env kReset (sv_link s) \<Longrightarrow> svc_step s (NC_services_RedoTasks env s)"
| ban: "svc_step s (NC_AddServerBan env ip s)"
| keep: "NC_KeepSignal env s = Some s' \<Longrightarrow> svc_step s s'"
| stop: "svc_step s (NC_StopSignal s)"
| check: "svc_step s (s\<lparr>sv_check := c\<rparr>)"
| source: "svc_step s (s\<lparr>sv_source := ns\<rparr>)"
| keeper: "svc_step s (s\<lparr>sv_keeper := k\<rparr>)"
| thread: "thread_step (sv_link s) l' \<Longrightarrow> svc_step s (s\<lparr>sv_link := l'\<rparr>)"

text \<open>A call past its check, which is going to start the sync's alarm. \<open>crossed\<close> tells whether the slot of
  the timing sync has got the report of the present connection while such a call was in progress.\<close>

definition sync_starting :: "sync_pc multiset \<Rightarrow> bool" where
  "sync_starting calls \<longleftrightarrow> (\<exists>c \<in># calls. will_start c)"

fun crossed :: "TLongLinkStatus \<Rightarrow> Services \<Rightarrow> bool \<Rightarrow> bool" where
  "crossed kConnected s ov = sync_starting (sv_calls s)"
| "crossed kDisConnected s ov = False"
| "crossed st s ov = ov"

inductive svc_run :: "bool \<Rightarrow> Services \<Rightarrow> bool" where
  asked: "svc_admits env \<Longrightarrow> 0 \<le> fst active \<Longrightarrow>
     svc_run False (NC_MakeSureLongLinkConnect (Services_new env h pipe_ok use_UDP strategy active))"
| step: "svc_run ov s \<Longrightarrow> svc_step s s' \<Longrightarrow> svc_run ov s'"
| slot: "svc_run ov s \<Longrightarrow> svc_admits env \<Longrightarrow> sv_slot s = Some st \<Longrightarrow> svc_run (crossed st s ov) (svc_slot env st s)"

lemma svc_run_steps: "svc_step\<^sup>*\<^sup>* s s' \<Longrightarrow> svc_run ov s \<Longrightarrow> svc_run ov s'"
  by (induction rule: rtranclp_induct) (auto intro: svc_run.step)

text \<open>A call of the timing sync that nothing overlaps is the method; so is a whole change of the network.\<close>

lemma call_alone:
  "svc_admits env \<Longrightarrow> sync_alone (sync_view env (sv_active s)) n (Some c, ll_sg_seq (sv_link s), sv_sync s) = (None, d) \<Longrightarrow>
   sv_calls s = add_mset c cs \<Longrightarrow> svc_step\<^sup>*\<^sup>* s (with_sync d (s\<lparr>sv_calls := cs\<rparr>))"
proof (induction n arbitrary: c s)
  case (Suc n)
  obtain c' d' where c: "sync_call (sync_view env (sv_active s)) c (ll_sg_seq (sv_link s)) (sv_sync s) = (c', d')"
    by (meson surj_pair)
  let ?s = "svc_call env c (s\<lparr>sv_calls := cs\<rparr>)"
  have 1: "svc_step s ?s" using Suc.prems(1,3) by (rule svc_step.sync_calls)
  show ?case
  proof (cases c')
    case None
    then have "d' = d" using Suc.prems(2) c by simp
    then show ?thesis using 1 c None by (simp add: svc_call_def r_into_rtranclp)
  next
    case (Some p)
    have "svc_step\<^sup>*\<^sup>* ?s (with_sync d (?s\<lparr>sv_calls := cs\<rparr>))"
      using Suc.prems Some c by (intro Suc.IH [of _ p]) (simp_all add: svc_call_def with_sync_def)
    then show ?thesis
      using 1 c Some by (simp add: svc_call_def with_sync_def converse_rtranclp_into_rtranclp)
  qed
qed simp

lemma network_steps:
  assumes "svc_admits env" "joins env kNetworkChange (sv_link (network_synced env s))"
  shows "svc_step\<^sup>*\<^sup>* s (snd (NC_services_NetworkChange env s))"
proof -
  let ?s = "network_begin env s"
  let ?d = "TS_OnNetworkChange (sync_view env (sv_active ?s)) (ll_sg_seq (sv_link ?s)) (sv_sync ?s)"
  have "svc_step\<^sup>*\<^sup>* ?s (with_sync ?d (?s\<lparr>sv_calls := sv_calls s\<rparr>))"
    by (rule call_alone [OF assms(1) sync_alone_calls(2)])
      (simp add: network_begin_def forget_addresses_def Let_def)
  moreover have "with_sync ?d (?s\<lparr>sv_calls := sv_calls s\<rparr>) = network_synced env s"
    by (intro Services.equality)
      (simp_all add: network_begin_def network_synced_def Let_def with_sync_def forget_addresses_def)
  ultimately have "svc_step\<^sup>*\<^sup>* s (network_synced env s)"
    using svc_step.network [of s env] by simp
  then show ?thesis
    using svc_step.network_rest [OF assms] by (simp add: NC_services_NetworkChange_def)
qed

section \<open>The monitor's view of the services\<close>

text \<open>Every step of the services is a sequence of steps of \<open>mon_step\<close>, so what holds of the link and its
  monitor alone holds within the services.\<close>

abbreviation mon_view :: "Services \<Rightarrow> LongLink \<times> Monitor" where
  "mon_view s \<equiv> (sv_link s, sv_monitor s)"

lemma mon_view_frame [simp]:
  "mon_view (with_mon c s) = c" "sv_monitor (with_sync d s) = sv_monitor s" "sv_monitor (with_active f s) = sv_monitor s"
  "sv_sync (with_mon c s) = sv_sync s" "sv_sync (with_active f s) = sv_sync s" "sv_sync (with_sync d s) = snd d"
  "sv_link (with_sync d s) = (sv_link s)\<lparr>ll_sg_seq := fst d\<rparr>" "sv_link (with_active f s) = (sv_link s)\<lparr>ll_sg_seq := fst f\<rparr>"
  "sv_link (with_mon c s) = fst c" "sv_monitor (with_mon c s) = snd c"
  "sv_slot (with_mon c s) = sv_slot s" "sv_slot (with_active f s) = sv_slot s" "sv_slot (with_sync d s) = sv_slot s"
  "sv_calls (with_mon c s) = sv_calls s" "sv_calls (with_active f s) = sv_calls s" "sv_calls (with_sync d s) = sv_calls s"
  by (simp_all add: with_mon_def with_sync_def with_active_def)

lemma same_link_seq: "0 \<le> g \<Longrightarrow> same_link l (l\<lparr>ll_sg_seq := g\<rparr>)"
  by (simp add: same_link_def)

lemma same_link_refl: "0 \<le> ll_sg_seq l \<Longrightarrow> same_link l l"
  by (simp add: same_link_def)

lemma same_link_trans: "same_link l1 l2 \<Longrightarrow> same_link l2 l3 \<Longrightarrow> same_link l1 l3"
  by (simp add: same_link_def)

lemma same_link_Disconnect: "0 \<le> ll_sg_seq l \<Longrightarrow> same_link l (snd (LongLink_Disconnect e scene l))"
  by (auto simp: same_link_def LongLink_Disconnect_def conn_posts_def Let_def case_prod_beta)

lemma same_link_joined: "0 \<le> ll_sg_seq l \<Longrightarrow> same_link l (Disconnect_joined r ok l)"
  by (auto simp: same_link_def Disconnect_joined_def conn_posts_def)

lemma same_link_SendWhenNoData:
  "SendWhenNoData e b c t l = Some (ok, l') \<Longrightarrow> 0 \<le> ll_sg_seq l \<Longrightarrow> same_link l l'"
  by (auto simp: SendWhenNoData_def same_link_def conn_posts_def split: if_splits bind_splits)

lemma same_link_Keep: "Keep e l k = Some (l', k') \<Longrightarrow> 0 \<le> ll_sg_seq l \<Longrightarrow> same_link l l'"
  by (auto simp: Keep_def SendSignallingBuffer_def Let_def same_link_refl same_link_SendWhenNoData
           split: if_splits bind_splits)

lemma thread_step_mon: "thread_step l l' \<Longrightarrow> mon_step (l, m) (l', m)"
  by (induction rule: thread_step.induct) (auto intro: mon_step.intros)

lemma thread_steps_mon: "thread_step\<^sup>*\<^sup>* l l' \<Longrightarrow> mon_step\<^sup>*\<^sup>* (l, m) (l', m)"
  by (induction rule: rtranclp_induct) (auto intro: thread_step_mon rtranclp.rtrancl_into_rtrancl)

text \<open>What every step keeps: the monitor's invariant, the timing sync's alarm (\<open>svc_inv\<close>), and that the reports
  still to be delivered lead from what the timing sync was told to the status of the link.\<close>

definition report_up :: "TLongLinkStatus \<Rightarrow> bool \<Rightarrow> bool" where
  "report_up st up \<longleftrightarrow> st = kConnected \<or> st \<noteq> kDisConnected \<and> up"

definition tells :: "bool \<Rightarrow> LongLink \<Rightarrow> bool" where
  "tells up l \<longleftrightarrow> (fold report_up (conn_posts l) up \<longleftrightarrow> ll_connectstatus l = kConnected)"

definition svc_inv :: "bool \<Rightarrow> Services \<Rightarrow> bool" where
  "svc_inv up s \<longleftrightarrow> mon_inv (mon_view s) \<and> timer_ok (ll_sg_seq (sv_link s)) (ts_timer (sv_sync s)) \<and>
     tells up (sv_link s)"

lemma tells_same: "same_link l l' \<Longrightarrow> tells up l' = tells up l"
  by (simp add: tells_def same_link_def)

lemma tells_seq [simp]: "tells up (l\<lparr>ll_sg_seq := g\<rparr>) = tells up l"
  by (simp add: tells_def)

lemma tells_thread_step: "thread_step l l' \<Longrightarrow> tells up l \<Longrightarrow> tells up l'"
proof (induction rule: thread_step.induct)
  case (failed l e l' e' sig p)
  then show ?case by (auto simp: tells_def Run_unconnected_effect ConnectStatus_effect same_link_def report_up_def)
qed (auto simp: tells_def Run_end_effect ConnectStatus_effect same_link_def report_up_def)

lemma tells_thread_steps: "thread_step\<^sup>*\<^sup>* l l' \<Longrightarrow> tells up l \<Longrightarrow> tells up l'"
  by (induction rule: rtranclp_induct) (auto intro: tells_thread_step)

lemma tells_MakeSure [simp]: "tells up (snd (snd (MakeSureConnected l))) = tells up l"
  by (simp add: tells_def MakeSureConnected_def conn_posts_def)

lemma tells_Interval [simp]: "tells up (snd (IntervalConnect env type a l)) = tells up l"
  by (simp add: IntervalConnect_def Let_def)

lemma tells_Auto [simp]: "tells up (fst (snd (AutoIntervalConnect env a l m))) = tells up l"
  by (simp add: AutoIntervalConnect_def Let_def case_prod_beta mon_start_def)

lemma tells_report:
  assumes "tells up l" "ll_posts l = PostConnection st # ps"
  shows "tells (report_up st up) (fst (Mon_OnLongLinkStatuChanged env st (RunPosted_link l) m))"
  using assms RunPosted_effect [OF assms(2)]
  by (auto simp: tells_def Mon_OnLongLinkStatuChanged_def Let_def mon_start_def case_prod_beta)

lemma svc_inv_frame [simp]:
  "svc_inv up (s\<lparr>sv_queue := q\<rparr>) = svc_inv up s" "svc_inv up (s\<lparr>sv_active := a\<rparr>) = svc_inv up s"
  "svc_inv up (s\<lparr>sv_keeper := k\<rparr>) = svc_inv up s" "svc_inv up (s\<lparr>sv_check := c\<rparr>) = svc_inv up s"
  "svc_inv up (s\<lparr>sv_source := ns\<rparr>) = svc_inv up s" "svc_inv up (s\<lparr>sv_calls := cs\<rparr>) = svc_inv up s"
  "svc_inv up (s\<lparr>sv_slot := st\<rparr>) = svc_inv up s"
  by (simp_all add: svc_inv_def)

lemma svc_inv_seq: "svc_inv up s \<Longrightarrow> 0 \<le> ll_sg_seq (sv_link s)"
  by (simp add: svc_inv_def timer_ok_def)

lemma svc_inv_with_mon:
  assumes "svc_inv up s" "mon_inv c" "tells up (fst c)"
  shows "svc_inv up (with_mon c s)"
  using assms by (auto simp: svc_inv_def mon_inv_def timer_ok_def)

lemma svc_inv_mon_steps:
  assumes "svc_inv up s" "mon_step\<^sup>*\<^sup>* (mon_view s) (l', m')" "tells up l'"
  shows "svc_inv up (with_mon (l', m') s)"
proof -
  have "mon_inv c'" if "mon_step\<^sup>*\<^sup>* c c'" "mon_inv c" for c c'
    using that by (induction rule: rtranclp_induct) (auto intro: mon_inv_step)
  then show ?thesis using assms by (intro svc_inv_with_mon) (auto simp: svc_inv_def)
qed

lemma svc_inv_thread_steps:
  assumes "svc_inv up s" "thread_step\<^sup>*\<^sup>* (sv_link s) l'"
  shows "svc_inv up (s\<lparr>sv_link := l'\<rparr>)"
  using svc_inv_mon_steps [of up s l' "sv_monitor s"] assms tells_thread_steps [OF assms(2)]
    thread_steps_mon [OF assms(2)] by (simp add: svc_inv_def with_mon_def)

lemma svc_inv_same: "svc_inv up s \<Longrightarrow> same_link (sv_link s) l' \<Longrightarrow> svc_inv up (s\<lparr>sv_link := l'\<rparr>)"
  by (auto intro!: svc_inv_thread_steps thread_step.working)

lemma svc_inv_with_sync:
  assumes "svc_inv up s" "timer_ok (fst d) (ts_timer (snd d))"
  shows "svc_inv up (with_sync d s)"
proof -
  have "svc_inv up (s\<lparr>sv_link := (sv_link s)\<lparr>ll_sg_seq := fst d\<rparr>\<rparr>)"
    using assms by (intro svc_inv_same same_link_seq) (simp_all add: timer_ok_def)
  then show ?thesis using assms(2) by (simp add: svc_inv_def)
qed

lemma svc_inv_signals [simp]: "svc_inv up (fold svc_signal xs s) = svc_inv up s"
proof (induction xs arbitrary: s)
  case (Cons x xs)
  then show ?case by (cases x) simp_all
qed simp

lemma svc_inv_with_active: "svc_inv up s \<Longrightarrow> 0 \<le> fst c \<Longrightarrow> svc_inv up (with_active c s)"
  using svc_inv_same [of up s] same_link_seq [of "fst c" "sv_link s"] by (simp add: with_active_def)

lemma svc_inv_mon_auto:
  assumes "svc_inv up s" "svc_admits env" "mon_weak (sv_link s, m)"
  shows "svc_inv up (with_mon (snd (AutoIntervalConnect (ve_mon env) a (sv_link s) m)) s)"
  using assms by (intro svc_inv_with_mon mon_inv_auto) (auto simp: svc_inv_def svc_admits_def svc_alarm_def)

lemma svc_inv_view: "svc_inv up s \<Longrightarrow> mon_weak (mon_view s)"
  by (simp add: svc_inv_def mon_inv_weak)

lemma svc_inv_run_post:
  assumes "svc_inv up s" "svc_admits env"
  shows "svc_inv up (run_post env p s)"
  using assms svc_inv_mon_auto [OF assms svc_inv_view [OF assms(1)]]
  by (cases p) (simp_all add: OnSignalForeground_def OnSignalActive_def svc_admits_def)

lemma svc_inv_report:
  assumes "svc_inv up s" "svc_admits env" "ll_posts (sv_link s) = PostConnection st # ps"
  shows "svc_inv (report_up st up) (svc_report env s)"
proof -
  let ?c = "Mon_OnLongLinkStatuChanged (ve_mon env) st (RunPosted_link (sv_link s)) (sv_monitor s)"
  have "mon_inv ?c" "tells (report_up st up) (fst ?c)"
    using assms mon_inv_report [OF _ _ assms(3)] tells_report [OF _ assms(3)]
    by (simp_all add: svc_inv_def svc_admits_def svc_alarm_def)
  then show ?thesis
    using assms by (auto simp: svc_report_def Let_def svc_inv_def mon_inv_def timer_ok_def)
qed

lemma svc_inv_profile:
  assumes "svc_inv up s" "\<nexists>st ps. ll_posts (sv_link s) = PostConnection st # ps"
  shows "svc_inv up (svc_report env s) \<and> sv_slot (svc_report env s) = sv_slot s"
proof -
  have "same_link (sv_link s) (RunPosted_link (sv_link s))"
    using assms(2) svc_inv_seq [OF assms(1)]
    by (auto simp: same_link_def RunPosted_link_def conn_posts_def emit_def Let_def
             split: list.splits link_post.splits if_splits)
  then show ?thesis
    using assms(2) svc_inv_same [OF assms(1)]
    by (auto simp: svc_report_def Let_def split: list.splits link_post.splits)
qed

lemma svc_inv_disconnect:
  assumes "svc_inv up s" "joins env scene (sv_link s)"
  shows "svc_inv up (s\<lparr>sv_link := mon_disconnect (ve_mon env) scene (sv_link s)\<rparr>)"
    "\<not> ll_thread (mon_disconnect (ve_mon env) scene (sv_link s))"
proof -
  let ?d = "LongLink_Disconnect (me_link (ve_mon env)) scene (sv_link s)"
  let ?l = "me_rest (ve_mon env) (snd ?d)"
  have "svc_inv up (s\<lparr>sv_link := mon_disconnect (ve_mon env) scene (sv_link s)\<rparr>) \<and>
      \<not> ll_thread (mon_disconnect (ve_mon env) scene (sv_link s))"
  proof (cases "ll_thread (sv_link s)")
    case True
    let ?s1 = "s\<lparr>sv_link := snd ?d\<rparr>"
    have 1: "svc_inv up ?s1" using assms(1) by (intro svc_inv_same same_link_Disconnect svc_inv_seq)
    have j: "thread_step\<^sup>*\<^sup>* (snd ?d) ?l" "\<not> ll_thread ?l" using assms(2) True by (simp_all add: joins_def Let_def)
    have 2: "svc_inv up (s\<lparr>sv_link := ?l\<rparr>)" using svc_inv_thread_steps [OF 1] j(1) by simp
    have 3: "same_link ?l (Disconnect_joined (fst ?d) (me_pipe_ok (ve_mon env)) ?l)"
      using svc_inv_seq [OF 2] by (intro same_link_joined) simp
    have "mon_disconnect (ve_mon env) scene (sv_link s) = Disconnect_joined (fst ?d) (me_pipe_ok (ve_mon env)) ?l"
      using True by (simp add: mon_disconnect_def case_prod_beta)
    then show ?thesis
      using svc_inv_same [OF 2] 3 j(2) by (simp add: same_link_def)
  qed (use assms(1) in \<open>simp add: mon_disconnect_def\<close>)
  then show "svc_inv up (s\<lparr>sv_link := mon_disconnect (ve_mon env) scene (sv_link s)\<rparr>)"
    "\<not> ll_thread (mon_disconnect (ve_mon env) scene (sv_link s))" by simp_all
qed

lemma svc_inv_connect: "svc_inv up s \<Longrightarrow> svc_inv up (NC_MakeSureLongLinkConnect s)"
proof -
  assume s: "svc_inv up s"
  have "mon_inv (snd (snd (MakeSureConnected (sv_link s))), sv_monitor s)"
    using s by (auto simp: svc_inv_def mon_inv_def MakeSureConnected_def)
  then show ?thesis
    using s svc_inv_with_mon [OF s, of "(snd (snd (MakeSureConnected (sv_link s))), sv_monitor s)"]
    by (simp add: NC_MakeSureLongLinkConnect_def with_mon_def svc_inv_def)
qed

lemma svc_inv_forget: "svc_inv up s \<Longrightarrow> svc_inv up (forget_addresses env s)"
  by (simp add: forget_addresses_def)

lemma forget_frame [simp]: "sv_link (forget_addresses env s) = sv_link s"
  "sv_monitor (forget_addresses env s) = sv_monitor s" "sv_active (forget_addresses env s) = sv_active s"
  "sv_sync (forget_addresses env s) = sv_sync s" "sv_calls (forget_addresses env s) = sv_calls s"
  "sv_slot (forget_addresses env s) = sv_slot s"
  by (simp_all add: forget_addresses_def)

lemma svc_inv_network:
  assumes "svc_inv up s" "svc_admits env" "joins env kNetworkChange (sv_link s)"
  shows "svc_inv up (snd (network_end env s))"
proof -
  let ?l = "mon_disconnect (ve_mon env) kNetworkChange (sv_link s)"
  note d = svc_inv_disconnect [OF assms(1,3)]
  have l: "mon_inv (?l, sv_monitor s)" "tells up ?l" using d(1) by (simp_all add: svc_inv_def)
  then have "mon_inv (snd (Mon_NetworkChange (ve_mon env) (sv_active s) (sv_link s) (sv_monitor s)))"
    using d(2) assms(2) by (intro mon_inv_network [of _ ?l]) (auto simp: mon_inv_def svc_admits_def)
  moreover have "fst (snd (Mon_NetworkChange (ve_mon env) (sv_active s) (sv_link s) (sv_monitor s))) =
      snd (IntervalConnect (ve_mon env) kNetworkChangeConnect (sv_active s) ?l)"
    using assms(2) by (simp add: Mon_NetworkChange_def Let_def case_prod_beta svc_admits_def)
  ultimately show ?thesis
    using assms(1) l(2) by (simp add: network_end_def case_prod_beta svc_inv_with_mon)
qed

lemma svc_inv_foreground:
  assumes "svc_inv up s" "svc_admits env"
  shows "svc_inv up (svc_foreground env b s)"
proof -
  have "0 \<le> fst (OnForeground (me_apple (ve_mon env)) (svc_alarm env) b (ll_sg_seq (sv_link s)) (sv_active s))"
    using svc_inv_seq [OF assms(1)] Start_counter
    by (auto simp: OnForeground_def Let_def case_prod_beta act_start_def timer_start_def)
  from svc_inv_with_active [OF assms(1) this] show ?thesis
    by (simp add: svc_foreground_def Let_def)
qed

text \<open>What the timing sync was told: \<open>up\<close> by the reports its slot has got, \<open>slot_up\<close> with the one that is on
  its way. Until it is told that the link is connected its alarm is armed or a call is going to start
  it; afterwards neither, unless such a call overlapped the slot.\<close>

definition slot_up :: "TLongLinkStatus option \<Rightarrow> bool \<Rightarrow> bool" where
  "slot_up slot up = (case slot of None \<Rightarrow> up | Some st \<Rightarrow> report_up st up)"

definition sync_told :: "bool \<Rightarrow> bool \<Rightarrow> TimingSync \<Rightarrow> sync_pc multiset \<Rightarrow> bool" where
  "sync_told ov up sync calls \<longleftrightarrow>
     (if up then ov \<or> \<not> tm.armed (ts_timer sync) \<and> \<not> sync_starting calls
      else tm.armed (ts_timer sync) \<or> sync_starting calls)"

lemma sync_starting_simps [simp]:
  "sync_starting (add_mset c cs) \<longleftrightarrow> will_start c \<or> sync_starting cs" "\<not> sync_starting {#}"
  by (auto simp: sync_starting_def)

lemma sync_told_check [simp]: "sync_told ov up t (add_mset (AtCheck b) cs) = sync_told ov up t cs"
  by (simp add: sync_told_def)

lemma signals_frame [simp]:
  "sv_slot (fold svc_signal xs s) = sv_slot s \<and> sv_sync (fold svc_signal xs s) = sv_sync s \<and>
   sync_told ov up t (sv_calls (fold svc_signal xs s)) = sync_told ov up t (sv_calls s)"
proof (induction xs arbitrary: s)
  case (Cons x xs)
  then show ?case by (cases x) simp_all
qed simp

lemmas told_frame [simp] = signals_frame [THEN conjunct1] signals_frame [THEN conjunct2, THEN conjunct1]
  signals_frame [THEN conjunct2, THEN conjunct2]

lemma sync_told_call:
  assumes "sync_told ov up (sv_sync s) (sv_calls s)" "svc_inv w s" "svc_admits env" "sv_calls s = add_mset c cs"
  shows "sync_told ov up (sv_sync (svc_call env c (s\<lparr>sv_calls := cs\<rparr>))) (sv_calls (svc_call env c (s\<lparr>sv_calls := cs\<rparr>))) \<and> svc_inv w (svc_call env c (s\<lparr>sv_calls := cs\<rparr>)) \<and>
     sv_slot (svc_call env c (s\<lparr>sv_calls := cs\<rparr>)) = sv_slot s"
proof -
  let ?env = "sync_view env (sv_active s)" and ?s = "s\<lparr>sv_calls := cs\<rparr>"
  have ok: "timer_ok (ll_sg_seq (sv_link s)) (ts_timer (sv_sync s))" using assms(2) by (simp add: svc_inv_def)
  have works: "alarms_work (se_alarm ?env)" using assms(3) by (simp add: sync_view_def svc_admits_def)
  have "timer_ok (fst d) (ts_timer (snd d))"
    if "sync_call ?env c (ll_sg_seq (sv_link s)) (sv_sync s) = (c', d)" for c' d
    using that ok by (cases c) (auto simp: tm.sound_intros split: if_splits)
  then have "svc_inv w (svc_call env c ?s)"
    using assms(2) by (auto simp: svc_call_def svc_inv_with_sync split: prod.splits)
  moreover have "sync_told ov up (sv_sync (svc_call env c ?s)) (sv_calls (svc_call env c ?s))"
    using assms(1,4) ok works waiting_armed [of "ts_timer (sv_sync s)"]
    by (cases c) (auto simp: svc_call_def sync_told_def tm.armed_start split: if_splits)
  ultimately show ?thesis by (simp add: svc_call_def case_prod_beta)
qed

lemma svc_step_keeps:
  "svc_step s s' \<Longrightarrow> svc_inv (slot_up (sv_slot s) up) s \<Longrightarrow> sync_told ov up (sv_sync s) (sv_calls s) \<Longrightarrow>
   svc_inv (slot_up (sv_slot s') up) s' \<and> sync_told ov up (sv_sync s') (sv_calls s')"
proof (induction rule: svc_step.induct)
  case (foreground env s b)
  then show ?case
    using svc_inv_foreground [of _ s env b] by (simp add: svc_foreground_def Let_def)
next
  case (inactive s)
  then show ?case by (simp add: svc_inactive_def Let_def)
next
  case (signal_call s b)
  then show ?case by simp
next
  case (posted env s)
  have "sv_slot (run_post env p t) = sv_slot t \<and> sv_sync (run_post env p t) = sv_sync t \<and> sv_calls (run_post env p t) = sv_calls t"
    for p t by (cases p) simp_all
  then show ?case
    using posted by (auto simp: svc_posted_def svc_inv_run_post split: list.splits)
next
  case (report env s)
  have f: "sync_told ov up (sv_sync (svc_report env s)) (sv_calls (svc_report env s))"
    using report by (auto simp: svc_report_def Let_def split: list.splits link_post.splits)
  show ?case
  proof (cases "\<exists>st ps. ll_posts (sv_link s) = PostConnection st # ps")
    case True
    then obtain st ps where p: "ll_posts (sv_link s) = PostConnection st # ps" by blast
    then have "sv_slot (svc_report env s) = Some st" by (simp add: svc_report_def Let_def)
    then show ?thesis using svc_inv_report [OF _ report(1) p] report f by (simp add: slot_up_def)
  qed (use svc_inv_profile [of _ s env] report f in \<open>simp add: slot_up_def\<close>)
next
  case (mon_message n s e)
  have "mon_step (mon_view s) (sv_link s, (sv_monitor s)\<lparr>mon_timer := timer_message e n (mon_timer (sv_monitor s))\<rparr>)"
    using mon_message by (intro mon_step.message)
  from mon_inv_step [OF this] mon_message show ?case by (simp add: svc_inv_def)
next
  case (mon_alarm env s)
  then show ?case
    by (simp add: Mon_OnAlarm_def svc_inv_mon_auto mon_weak_take svc_inv_view)
next
  case (sync_message n s e)
  then show ?case
    using tm.armed_message [of "ll_sg_seq (sv_link s)" "ts_timer (sv_sync s)" n e]
    by (simp add: svc_inv_def sync_told_def tm.sound_intros)
next
  case (sync_alarm s)
  then show ?case
    using waiting_armed [of "ts_timer (sv_sync s)"]
    by (auto simp: svc_sync_alarm_def svc_inv_def sync_told_def tm.sound_intros)
next
  case (sync_calls env s c cs)
  then show ?case using sync_told_call by simp
next
  case (task s env)
  let ?l = "snd (Mon_MakeSureConnected env (sv_active s) (sv_link s))"
  have "mon_inv (?l, sv_monitor s)" using mon_inv_step [OF mon_step.task] task by (simp add: svc_inv_def)
  then show ?case
    using task by (auto simp: svc_inv_def Mon_MakeSureConnected_def Let_def)
next
  case (connect s)
  then show ?case
    using svc_inv_connect [of _ s] by (simp add: NC_MakeSureLongLinkConnect_def)
next
  case (disconnect env s)
  then show ?case by (simp add: NC_DisConnectLonglink_def svc_inv_disconnect)
next
  case (better env s)
  then show ?case by (simp add: NC_OnTimerCheckSuc_def svc_inv_disconnect)
next
  case (network s env)
  then show ?case by (simp add: network_begin_def Let_def forget_addresses_def)
next
  case (network_rest env s)
  then show ?case
    using svc_inv_network [of _ s env] by (simp add: network_end_def case_prod_beta)
next
  case (redo env s)
  then have "svc_inv (slot_up (sv_slot s) up) (NC_DisConnectLonglink env (forget_addresses env s))"
    using svc_inv_disconnect(1) [OF svc_inv_forget, of _ s env kReset env] by (simp add: NC_DisConnectLonglink_def)
  from svc_inv_connect [OF this] redo show ?case
    by (simp add: NC_services_RedoTasks_def NC_MakeSureLongLinkConnect_def NC_DisConnectLonglink_def
       )
next
  case (keep env s s')
  then show ?case
    using svc_inv_same [OF _ same_link_Keep [OF _ svc_inv_seq]]
    by (fastforce simp: NC_KeepSignal_def split: bind_splits)
next
  case (thread s l')
  then show ?case by (auto intro!: svc_inv_thread_steps)
qed (simp_all add: NC_AddServerBan_def NC_StopSignal_def)

lemma svc_slot_keeps:
  assumes "svc_inv (slot_up (Some st) up) s" "sync_told ov up (sv_sync s) (sv_calls s)" "svc_admits env"
  shows "svc_inv (report_up st up) (svc_slot env st s) \<and> sync_told (crossed st s ov) (report_up st up) (sv_sync (svc_slot env st s)) (sv_calls (svc_slot env st s))"
proof -
  let ?env = "sync_view env (sv_active s)"
  let ?d = "TS_OnLongLinkStatuChanged ?env st (ll_sg_seq (sv_link s)) (sv_sync s)"
  have ok: "timer_ok (ll_sg_seq (sv_link s)) (ts_timer (sv_sync s))" using assms(1) by (simp add: svc_inv_def)
  have works: "alarms_work (se_alarm ?env)" using assms(3) by (simp add: sync_view_def svc_admits_def)
  have "timer_ok (fst ?d) (ts_timer (snd ?d))" using ok by (auto simp: TS_OnLongLinkStatuChanged_def tm.sound_intros)
  then have "svc_inv (report_up st up) (svc_slot env st s)"
    using assms(1) by (simp add: svc_slot_def svc_inv_with_sync slot_up_def)
  moreover have "sync_told (crossed st s ov) (report_up st up) (sv_sync (svc_slot env st s)) (sv_calls (svc_slot env st s))"
    using assms(2) ok works
    by (cases st) (auto simp: svc_slot_def sync_told_def TS_OnLongLinkStatuChanged_def report_up_def
        tm.armed_start tm.armed_cancel)
  ultimately show ?thesis by simp
qed

lemma svc_inv_asked:
  assumes "svc_admits env" "0 \<le> fst active"
    and s: "s = NC_MakeSureLongLinkConnect (Services_new env h pipe_ok use_UDP strategy active)"
  shows "svc_inv False s \<and> sync_told False False (sv_sync s) (sv_calls s) \<and> sv_slot s = None"
proof -
  have "sync_inv False (TimingSync_new (sync_view env (snd active)) (fst active))"
    using assms by (intro sync_inv_new) (simp_all add: svc_admits_def sync_view_def)
  then show ?thesis
    by (auto simp: s NC_MakeSureLongLinkConnect_def Services_new_def case_prod_beta svc_inv_def sync_inv_def mon_inv_def
        sync_told_def MakeSureConnected_def LongLink_new_def Monitor_new_def timer_ok_def timer_new_def alarm_ok_new
        tells_def conn_posts_def)
qed

lemma svc_run_inv: "svc_run ov s \<Longrightarrow> \<exists>up. svc_inv (slot_up (sv_slot s) up) s \<and> sync_told ov up (sv_sync s) (sv_calls s)"
proof (induction rule: svc_run.induct)
  case (asked env active h pipe_ok use_UDP strategy)
  then show ?case using svc_inv_asked [OF asked refl] by (intro exI [of _ False]) (simp add: slot_up_def)
next
  case (step ov s s')
  then show ?case using svc_step_keeps by blast
next
  case (slot ov s env st)
  then obtain up where "svc_inv (slot_up (Some st) up) s" "sync_told ov up (sv_sync s) (sv_calls s)" by auto
  from svc_slot_keeps [OF this slot(2)] show ?case
    by (intro exI [of _ "report_up st up"]) (simp add: slot_up_def svc_slot_def)
qed

section \<open>The services together\<close>

text \<open>C10. The services agree about the link. Once a connection was asked for, after any interleaving of
  the calls of the application, the signals and their queued slots, the alarms, changes of the
  network, disconnections that wait for the thread, the steps of the link's thread, and the single
  steps of the timing sync's calls on other threads: when every report of the link has been delivered,
  a link that is not connected has the periodic sync waiting, due or about to be started by a call in
  progress, and a thread at work on the connection or the monitor's alarm waiting or due; a connected
  link has its thread, and the periodic sync is off with no call about to start it, unless such a call
  was in progress when the timing sync got the report of the connection (\<open>ov\<close>; \<open>sync_beside_link\<close> is
  that case). The handlers of the core's queue, which run one at a time, are single steps except
  for what they call of the timing sync, as is the end of the link's thread.\<close>

theorem services_agree:
  assumes "svc_run ov s" "conn_posts (sv_link s) = []" "sv_slot s = None"
  shows "(let sync = ts_timer (sv_sync s); mon = mon_timer (sv_monitor s)
     in if NC_LongLinkIsConnected s
        then ll_thread (sv_link s) \<and>
          (\<not> ov \<longrightarrow> \<not> timer_waiting sync \<and> \<not> tm_run sync \<and> (\<forall>c \<in># sv_calls s. \<exists>b. c = AtCheck b))
        else (timer_waiting sync \<or> tm_run sync \<or> (\<exists>c \<in># sv_calls s. will_start c)) \<and>
          (ll_thread (sv_link s) \<or> timer_waiting mon \<or> tm_run mon))"
proof -
  obtain up where i: "svc_inv (slot_up (sv_slot s) up) s" "sync_told ov up (sv_sync s) (sv_calls s)"
    using svc_run_inv [OF assms(1)] by blast
  have check: "\<not> will_start c \<longleftrightarrow> (\<exists>b. c = AtCheck b)" for c by (cases c) simp_all
  have "up \<longleftrightarrow> NC_LongLinkIsConnected s"
    using i(1) assms by (simp add: svc_inv_def slot_up_def tells_def NC_LongLinkIsConnected_def)
  then show ?thesis
    using i assms by (auto simp: svc_inv_def mon_inv_def sync_told_def sync_starting_def check [symmetric] Let_def
        tm.armed_def down_def NC_LongLinkIsConnected_def)
qed

definition sample_svc_env :: svc_env where
  "sample_svc_env = \<lparr>ve_mon = sample_mon_env 1000, ve_logoned = True, ve_break_ok = True, ve_time = 0,
     ve_netinfo = None, ve_now = 1000\<rparr>"

definition sample_services :: Services where
  "sample_services = NC_MakeSureLongLinkConnect
     (Services_new sample_svc_env None True False sample_choice (ActiveLogic_new False (svc_alarm sample_svc_env) 1))"

text \<open>A link that has been asked for a connection and is connected, with both its reports to deliver.\<close>

definition sample_connected :: Services where
  "sample_connected = (let l = LL_ConnectStatus sample_link_env kConnecting (sv_link sample_services)
     in sample_services\<lparr>sv_link := LL_ConnectStatus sample_link_env kConnected l\<rparr>)"

lemma sample_svc_admits: "svc_admits sample_svc_env"
  by (simp add: svc_admits_def sample_svc_env_def svc_alarm_def sample_mon_works) (simp add: sample_mon_env_def)

lemma sample_connected_run: "svc_run False sample_connected"
proof -
  let ?s0 = sample_services and ?env = sample_svc_env
  let ?l1 = "LL_ConnectStatus sample_link_env kConnecting (sv_link ?s0)"
  let ?s1 = "?s0\<lparr>sv_link := ?l1\<rparr>"
  have l0: "ll_thread (sv_link ?s0)" "ll_connectstatus (sv_link ?s0) = kConnectIdle"
    by (simp_all add: sample_services_def NC_MakeSureLongLinkConnect_def Services_new_def case_prod_beta
        LongLink_new_def MakeSureConnected_def)
  have "0 \<le> fst (ActiveLogic_new False (svc_alarm ?env) 1)"
    by (simp add: ActiveLogic_new_def act_start_def timer_start_def Start_counter case_prod_beta)
  then have "svc_run False ?s0" unfolding sample_services_def using sample_svc_admits by (intro svc_run.asked)
  then have 1: "svc_run False ?s1"
    by (rule svc_run.step) (intro svc_step.thread thread_step.connecting, simp_all add: l0)
  have "thread_step (sv_link ?s1) (sv_link sample_connected)"
    by (simp add: sample_connected_def Let_def l0 ConnectStatus_effect thread_step.connected)
  from svc_run.step [OF 1 svc_step.thread [OF this]] show ?thesis by (simp add: sample_connected_def Let_def)
qed

lemma sample_connected_link:
  "ll_posts (sv_link sample_connected) = [PostConnection kConnecting, PostConnection kConnected]"
  "ll_connectstatus (sv_link sample_connected) = kConnected" "sv_slot sample_connected = None"
  "sv_calls sample_connected = {#}"
proof -
  note defs = sample_connected_def sample_services_def NC_MakeSureLongLinkConnect_def Services_new_def case_prod_beta
    LongLink_new_def MakeSureConnected_def Let_def
  show "sv_slot sample_connected = None" "sv_calls sample_connected = {#}" by (simp_all add: defs)
  show "ll_connectstatus (sv_link sample_connected) = kConnected" by (simp add: defs ConnectStatus_effect)
  show "ll_posts (sv_link sample_connected) = [PostConnection kConnecting, PostConnection kConnected]"
    by (simp add: defs LL_ConnectStatus_def) (simp add: post_link_def emit_def)
qed

text \<open>One report, delivered to both slots with no step between them.\<close>

lemma report_delivered:
  assumes "svc_run ov s" "sv_slot s = None" "ll_posts (sv_link s) = PostConnection st # ps"
  defines "s' \<equiv> svc_slot sample_svc_env st (svc_report sample_svc_env s)"
  shows "svc_run (crossed st s ov) s'" "sv_slot s' = None" "sv_calls s' = sv_calls s"
    "ll_posts (sv_link s') = ps" "ll_connectstatus (sv_link s') = ll_connectstatus (sv_link s)"
    "st = kConnecting \<Longrightarrow> sv_sync s' = sv_sync s"
proof -
  let ?s1 = "svc_report sample_svc_env s"
  have r: "sv_slot ?s1 = Some st" "sv_calls ?s1 = sv_calls s" "sv_sync ?s1 = sv_sync s"
    using assms(3) by (simp_all add: svc_report_def Let_def)
  have 1: "svc_run ov ?s1" using assms(1,2) sample_svc_admits by (intro svc_run.step [OF _ svc_step.report])
  have "crossed st ?s1 ov = crossed st s ov" using r by (cases st) simp_all
  with svc_run.slot [OF 1 sample_svc_admits r(1)] show "svc_run (crossed st s ov) s'" by (simp add: s'_def)
  show "sv_slot s' = None" "sv_calls s' = sv_calls s" "st = kConnecting \<Longrightarrow> sv_sync s' = sv_sync s"
    using r by (simp_all add: s'_def svc_slot_def TS_OnLongLinkStatuChanged_def)
  show "ll_posts (sv_link s') = ps" "ll_connectstatus (sv_link s') = ll_connectstatus (sv_link s)"
    using assms(3) RunPosted_effect [OF assms(3)]
    by (simp_all add: s'_def svc_slot_def svc_report_def Let_def Mon_OnLongLinkStatuChanged_def RunPosted_link_def
        emit_def mon_start_def case_prod_beta)
qed

theorem services_agree_witness:
  "\<exists>s. svc_run False s \<and> NC_LongLinkIsConnected s \<and> ll_thread (sv_link s) \<and> \<not> timer_waiting (ts_timer (sv_sync s)) \<and>
     \<not> tm_run (ts_timer (sv_sync s))"
proof -
  note c = sample_connected_link
  note 1 = report_delivered [OF sample_connected_run c(3,1)]
  note 2 = report_delivered [OF 1(1,2,4)]
  let ?s = "svc_slot sample_svc_env kConnected (svc_report sample_svc_env
    (svc_slot sample_svc_env kConnecting (svc_report sample_svc_env sample_connected)))"
  have run: "svc_run False ?s" using 2(1) 1(3) c(4) by simp
  have "conn_posts (sv_link ?s) = []" "NC_LongLinkIsConnected ?s"
    using 2(4,5) 1(5) c(2) by (simp_all add: conn_posts_def NC_LongLinkIsConnected_def)
  with services_agree [OF run this(1) 2(2)] run show ?thesis by (intro exI [of _ ?s]) (simp add: Let_def)
qed

text \<open>The sync beside a connected link. The sync's alarm goes off while the link connects; its target has
  asked for the sync and not yet started the alarm again when the report of the connection cancels
  it, and then starts it: the link is connected, everything is delivered, no call is in progress, and
  the sync's alarm is waiting.\<close>

theorem sync_beside_link:
  "\<exists>s. svc_run True s \<and> NC_LongLinkIsConnected s \<and> conn_posts (sv_link s) = [] \<and> sv_slot s = None \<and>
     sv_calls s = {#} \<and> timer_waiting (ts_timer (sv_sync s))"
proof -
  note c = sample_connected_link
  let ?env = sample_svc_env and ?t = "ts_timer (sv_sync sample_connected)"
  let ?n = "al_seq (tm_alarm ?t)"
  let ?s1 = "sample_connected\<lparr>sv_sync := (sv_sync sample_connected)\<lparr>ts_timer := timer_message (svc_alarm ?env) ?n ?t\<rparr>\<rparr>"
  have n: "?n \<noteq> 0" "tm_run (timer_message (svc_alarm ?env) ?n ?t)"
    by (simp_all add: sample_connected_def sample_services_def NC_MakeSureLongLinkConnect_def Services_new_def
        case_prod_beta Let_def TimingSync_new_def ts_start_def ActiveLogic_new_def act_start_def timer_start_def
        timer_message_def Alarm_Start_def Alarm_OnAlarm_def timer_new_def Alarm_new_def INVAILD_SEQ_def
        sample_svc_env_def svc_alarm_def sync_view_def sample_mon_env_def sample_link_env_def)
  have 1: "svc_run False ?s1" using sample_connected_run n(1) by (intro svc_run.step [OF _ svc_step.sync_message])
  let ?s2 = "svc_sync_alarm ?s1"
  have 2: "svc_run False ?s2" using n(2) by (intro svc_run.step [OF 1 svc_step.sync_alarm]) simp
  let ?s3 = "svc_call ?env AtSync (?s2\<lparr>sv_calls := {#}\<rparr>)"
  have 3: "svc_run False ?s3"
    using c(4) by (intro svc_run.step [OF 2 svc_step.sync_calls [OF sample_svc_admits]]) (simp add: svc_sync_alarm_def)
  have s3: "sv_calls ?s3 = {#AtStart None#}" "sv_slot ?s3 = None" "ll_connectstatus (sv_link ?s3) = kConnected"
    "ll_posts (sv_link ?s3) = [PostConnection kConnecting, PostConnection kConnected]"
    using c by (simp_all add: svc_call_def svc_sync_alarm_def)
  note 4 = report_delivered [OF 3 s3(2,4)]
  note 5 = report_delivered [OF 4(1,2,4)]
  let ?s5 = "svc_slot ?env kConnected (svc_report ?env (svc_slot ?env kConnecting (svc_report ?env ?s3)))"
  let ?s = "svc_call ?env (AtStart None) (?s5\<lparr>sv_calls := {#}\<rparr>)"
  have five: "svc_run True ?s5" "sv_calls ?s5 = {#AtStart None#}" using 5(1,3) 4(3) s3(1) by simp_all
  have run: "svc_run True ?s"
    using five(2) by (intro svc_run.step [OF five(1) svc_step.sync_calls [OF sample_svc_admits]])
  obtain up where "svc_inv up ?s5" using svc_run_inv [OF five(1)] by blast
  then have "timer_ok (ll_sg_seq (sv_link ?s5)) (ts_timer (sv_sync ?s5))" by (simp add: svc_inv_def)
  then have "timer_waiting (ts_timer (sv_sync ?s))"
    using sample_svc_admits by (simp add: svc_call_def tm.start_waits sync_view_def svc_admits_def)
  moreover have "NC_LongLinkIsConnected ?s" "conn_posts (sv_link ?s) = []" "sv_slot ?s = None" "sv_calls ?s = {#}"
    using 5(2,4,5) 4(5) s3(3) by (simp_all add: svc_call_def NC_LongLinkIsConnected_def conn_posts_def)
  ultimately show ?thesis using run by blast
qed

end
