(* ===== verification/Http.thy ===== *)
theory Http
  imports Std_Map String_Cast "HOL-Library.While_Combinator"
begin

text \<open>
  The HTTP messages of the short links, comm/http.h and comm/http.cc: the first lines, the header
  fields, the builder of messages and the incremental parser. A block of bytes is a string here, one
  character per byte; \<open>AutoBuffer\<close> is its contents, with its position where the code depends on it.
  A body receiver is the memory receiver of the short links: what it has been given, in order. Blocks
  are shorter than 2 GB, so that the casts of their lengths to \<open>int\<close> keep them.
\<close>

section \<open>C strings and numbers\<close>

text \<open>What a C function sees of a string.\<close>

definition cstr :: "string \<Rightarrow> string" where
  "cstr s = takeWhile (\<lambda>c. c \<noteq> CHR 0x00) s"

definition KStringSpace :: string where "KStringSpace = '' ''"
definition KStringCRLF :: string where "KStringCRLF = [CHR 0x0D, CHR 0x0A]"
definition KStringColon :: string where "KStringColon = '':''"

abbreviation CRLFCRLF :: string where
  "CRLFCRLF \<equiv> [CHR 0x0D, CHR 0x0A, CHR 0x0D, CHR 0x0A]"

definition string_strnstr :: "string \<Rightarrow> string \<Rightarrow> nat \<Rightarrow> nat option" where
  "string_strnstr src sfind n = (if sfind = [] then Some 0 else search (=) sfind (cstr (take n src)))"

text \<open>\<open>strtol\<close> of the C library in base 10 and 16.\<close>

definition strtol :: "nat \<Rightarrow> string \<Rightarrow> int" where
  "strtol base s =
     (let s1 = dropWhile is_space (cstr s);
          neg = (s1 \<noteq> [] \<and> hd s1 = CHR ''-'');
          s2 = (if s1 \<noteq> [] \<and> (hd s1 = CHR ''-'' \<or> hd s1 = CHR ''+'') then tl s1 else s1);
          s3 = (case s2 of
                  c # x # h # r \<Rightarrow>
                    if base = 16 \<and> c = CHR ''0'' \<and> (x = CHR ''x'' \<or> x = CHR ''X'') \<and> digit_val h < 16 then h # r else s2
                | _ \<Rightarrow> s2);
          n = digits_value base (takeWhile (\<lambda>c. digit_val c < base) s3)
      in if neg then max (- int n) (- (2 ^ 63)) else min (int n) (2 ^ 63 - 1))"

text \<open>The decimal and the hexadecimal text that \<open>snprintf\<close> prints.\<close>

definition print_int :: "int \<Rightarrow> string" where "print_int v = string_cast_itoa v 10 False"
definition print_hex :: "nat \<Rightarrow> string" where "print_hex n = string_cast_itoa (int n) 16 False"

section \<open>First lines\<close>

datatype THttpVersion = kVersion_0_9 | kVersion_1_0 | kVersion_1_1 | kVersion_2_0 | kVersion_Unknow

fun kHttpVersionString :: "THttpVersion \<Rightarrow> string" where
  "kHttpVersionString kVersion_0_9 = ''HTTP/0.9''"
| "kHttpVersionString kVersion_1_0 = ''HTTP/1.0''"
| "kHttpVersionString kVersion_1_1 = ''HTTP/1.1''"
| "kHttpVersionString kVersion_2_0 = ''HTTP/2''"
| "kHttpVersionString kVersion_Unknow = ''version_unknown''"

datatype TCsMode = kRequest | kRespond

datatype THttpMethod =
    kUnknown | kGet | kPost | kOptions | kHead | kPut | kDelete | kTrace | kConnect

fun kHttpMethodString :: "THttpMethod \<Rightarrow> string" where
  "kHttpMethodString kUnknown = ''UNKNOWN''"
| "kHttpMethodString kGet = ''GET''"
| "kHttpMethodString kPost = ''POST''"
| "kHttpMethodString kOptions = ''OPTIONS''"
| "kHttpMethodString kHead = ''HEAD''"
| "kHttpMethodString kPut = ''PUT''"
| "kHttpMethodString kDelete = ''DELETE''"
| "kHttpMethodString kTrace = ''TRACE''"
| "kHttpMethodString kConnect = ''CONNECT''"

definition GetHttpVersion :: "string \<Rightarrow> THttpVersion" where
  "GetHttpVersion s =
     (case find (\<lambda>v. cstr s = kHttpVersionString v)
             [kVersion_0_9, kVersion_1_0, kVersion_1_1, kVersion_2_0, kVersion_Unknow] of
        Some v \<Rightarrow> v | None \<Rightarrow> kVersion_Unknow)"

definition get_method :: "string \<Rightarrow> THttpMethod" where
  "get_method s =
     (case find (\<lambda>m. cstr s = kHttpMethodString m)
             [kUnknown, kGet, kPost, kOptions, kHead, kPut, kDelete, kTrace, kConnect] of
        Some m \<Rightarrow> m | None \<Rightarrow> kUnknown)"

record RequestLine =
  rq_method :: THttpMethod
  rq_url :: string
  rq_version :: THttpVersion

definition RequestLine_new :: RequestLine where
  "RequestLine_new = \<lparr>rq_method = kGet, rq_url = '''', rq_version = kVersion_1_0\<rparr>"

definition RequestLine_ToString :: "RequestLine \<Rightarrow> string" where
  "RequestLine_ToString r =
     kHttpMethodString (rq_method r) @ KStringSpace @ rq_url r @ KStringSpace @
     kHttpVersionString (rq_version r) @ KStringCRLF"

text \<open>The answer and the line with the members that were assigned.\<close>

definition RequestLine_FromString :: "string \<Rightarrow> RequestLine \<Rightarrow> bool \<times> RequestLine" where
  "RequestLine_FromString line r =
     (case str_find line KStringCRLF of
        None \<Rightarrow> (False, r)
      | Some pos \<Rightarrow>
          let ts = SplitToken (take pos line) KStringSpace
          in if length ts < 3 then (False, r)
             else if get_method (ts ! 0) = kUnknown then (False, r)
             else let v = GetHttpVersion (ts ! 2)
                  in (v \<noteq> kVersion_Unknow, \<lparr>rq_method = get_method (ts ! 0), rq_url = ts ! 1, rq_version = v\<rparr>))"

record StatusLine =
  sl_version :: THttpVersion
  sl_statuscode :: int
  sl_reason_phrase :: string

definition StatusLine_new :: StatusLine where
  "StatusLine_new = \<lparr>sl_version = kVersion_1_0, sl_statuscode = 0, sl_reason_phrase = ''''\<rparr>"

definition StatusLine_ToString :: "StatusLine \<Rightarrow> string" where
  "StatusLine_ToString r =
     kHttpVersionString (sl_version r) @ KStringSpace @ print_int (sl_statuscode r) @ KStringSpace @
     sl_reason_phrase r @ KStringCRLF"

definition StatusLine_FromString :: "string \<Rightarrow> StatusLine \<Rightarrow> bool \<times> StatusLine" where
  "StatusLine_FromString line r =
     (case str_find line KStringCRLF of
        None \<Rightarrow> (False, r)
      | Some pos \<Rightarrow>
          let ts = SplitToken (take pos line) KStringSpace
          in if length ts < 2 then (False, r)
             else let v = GetHttpVersion (ts ! 0); r1 = r\<lparr>sl_version := v\<rparr>
                  in if v = kVersion_Unknow then (False, r1)
                     else let r2 = r1\<lparr>sl_statuscode := s32 (strtol 10 (ts ! 1))\<rparr>
                          in (True, if length ts = 3 then r2\<lparr>sl_reason_phrase := ts ! 2\<rparr> else r2))"

section \<open>Header fields\<close>

text \<open>\<open>std::map\<close> with the comparison of \<open>strcasecmp\<close>: the fields in the increasing order of
  their names.\<close>

type_synonym HeaderFields = "(string \<times> string) list"

definition hless :: "string \<Rightarrow> string \<Rightarrow> bool" where
  "hless x y \<longleftrightarrow> ToLower (cstr x) < ToLower (cstr y)"

fun hinsert :: "string \<Rightarrow> string \<Rightarrow> HeaderFields \<Rightarrow> HeaderFields" where
  "hinsert n v [] = [(n, v)]"
| "hinsert n v ((n', v') # hs) =
     (if hless n n' then (n, v) # (n', v') # hs
      else if hless n' n then (n', v') # hinsert n v hs else (n', v') # hs)"

definition hfind :: "string \<Rightarrow> HeaderFields \<Rightarrow> (string \<times> string) option" where
  "hfind n hs = find (\<lambda>p. \<not> hless n (fst p) \<and> \<not> hless (fst p) n) hs"

text \<open>\<open>HeaderFiled\<close> with two C strings, with a pair, with all fields of another message; and the
  assignment.\<close>

definition HeaderFiled :: "string \<Rightarrow> string \<Rightarrow> HeaderFields \<Rightarrow> HeaderFields" where
  "HeaderFiled name value hs = hinsert (cstr name) (cstr value) hs"

definition HeaderFiled_all :: "HeaderFields \<Rightarrow> HeaderFields \<Rightarrow> HeaderFields" where
  "HeaderFiled_all hs' hs = fold (\<lambda>(n, v). hinsert n v) hs' hs"

definition InsertOrUpdate :: "string \<times> string \<Rightarrow> HeaderFields \<Rightarrow> HeaderFields" where
  "InsertOrUpdate p hs =
     (if hfind (fst p) hs = None then hinsert (fst p) (snd p) hs
      else map (\<lambda>(n, v). (n, if \<not> hless (fst p) n \<and> \<not> hless n (fst p) then snd p else v)) hs)"

definition HeaderField :: "string \<Rightarrow> HeaderFields \<Rightarrow> string option" where
  "HeaderField key hs = map_option (cstr \<circ> snd) (hfind key hs)"

definition KStringHost :: string where "KStringHost = ''Host''"
definition KStringAccept :: string where "KStringAccept = ''Accept''"
definition KStringUserAgent :: string where "KStringUserAgent = ''User-Agent''"
definition KStringCacheControl :: string where "KStringCacheControl = ''Cache-Control''"
definition KStringConnection :: string where "KStringConnection = ''Connection''"
definition kStringProxyAuthorization :: string where "kStringProxyAuthorization = ''Proxy-Authorization''"
definition KStringContentType :: string where "KStringContentType = ''Content-Type''"
definition KStringContentLength :: string where "KStringContentLength = ''Content-Length''"
definition KStringTransferEncoding :: string where "KStringTransferEncoding = ''Transfer-Encoding''"
definition KStringContentRange :: string where "KStringContentRange = ''Content-Range''"
definition KStringMicroMessenger :: string where "KStringMicroMessenger = ''MicroMessenger Client''"
definition KStringRange :: string where "KStringRange = ''Range''"
definition KStringAcceptEncoding :: string where "KStringAcceptEncoding = ''Accept-Encoding''"
definition KStringChunked :: string where "KStringChunked = ''chunked''"
definition KStringClose :: string where "KStringClose = ''close''"

definition MakeContentLength :: "int \<Rightarrow> string \<times> string" where
  "MakeContentLength len = (KStringContentLength, print_int len)"

definition MakeTransferEncodingChunked :: "string \<times> string" where
  "MakeTransferEncodingChunked = (KStringTransferEncoding, KStringChunked)"

definition MakeConnectionClose :: "string \<times> string" where
  "MakeConnectionClose = (KStringConnection, KStringClose)"

definition MakeConnectionKeepalive :: "string \<times> string" where
  "MakeConnectionKeepalive = (KStringConnection, ''Keep-Alive'')"

definition MakeAcceptEncodingDefalte :: "string \<times> string" where
  "MakeAcceptEncodingDefalte = (KStringAcceptEncoding, ''deflate'')"

definition MakeAcceptEncodingGzip :: "string \<times> string" where
  "MakeAcceptEncodingGzip = (KStringAcceptEncoding, ''gzip'')"

definition MakeAcceptAll :: "string \<times> string" where
  "MakeAcceptAll = (KStringAccept, ''*/*'')"

definition MakeCacheControlNoCache :: "string \<times> string" where
  "MakeCacheControlNoCache = (KStringCacheControl, ''no-cache'')"

definition MakeContentTypeOctetStream :: "string \<times> string" where
  "MakeContentTypeOctetStream = (KStringContentType, ''application/octet-stream'')"

definition IsTransferEncodingChunked :: "HeaderFields \<Rightarrow> bool" where
  "IsTransferEncodingChunked hs =
     (case HeaderField KStringTransferEncoding hs of None \<Rightarrow> False | Some v \<Rightarrow> strcaseeq v KStringChunked)"

definition IsConnectionClose :: "HeaderFields \<Rightarrow> bool" where
  "IsConnectionClose hs =
     (case HeaderField KStringConnection hs of None \<Rightarrow> False | Some v \<Rightarrow> strcaseeq v KStringClose)"

definition ContentLength :: "HeaderFields \<Rightarrow> int" where
  "ContentLength hs =
     (case HeaderField KStringContentLength hs of None \<Rightarrow> 0 | Some v \<Rightarrow> s32 (strtol 10 v))"

text \<open>\<open>Range\<close> gives the two numbers where it answers true; \<open>ContentRange\<close> gives its answer and
  the three numbers, which it sets to zero first.\<close>

definition Range :: "HeaderFields \<Rightarrow> (int \<times> int) option" where
  "Range hs =
     (case HeaderField KStringRange hs of
        None \<Rightarrow> None
      | Some text \<Rightarrow>
          if \<not> StartsWith text ''bytes='' then None
          else let bytes = Trim (drop 6 text)
               in case str_find bytes ''-'' of
                    None \<Rightarrow> None
                  | Some i \<Rightarrow> Some (strtol 10 (take i bytes), strtol 10 (drop (i + 1) bytes)))"

definition ContentRange :: "HeaderFields \<Rightarrow> bool \<times> int \<times> int \<times> int" where
  "ContentRange hs =
     (case HeaderField KStringContentRange hs of
        None \<Rightarrow> (False, 0, 0, 0)
      | Some text \<Rightarrow>
          if \<not> StartsWith text ''bytes '' then (False, 0, 0, 0)
          else let bytes = Trim (drop 6 text)
               in case str_find bytes ''-'' of
                    None \<Rightarrow> (False, 0, 0, 0)
                  | Some i \<Rightarrow>
                      let start = s32 (strtol 10 (take i bytes)); rest = drop (i + 1) bytes
                      in case str_find rest ''/'' of
                           None \<Rightarrow> (False, start, 0, 0)
                         | Some j \<Rightarrow> (True, start, s32 (strtol 10 (take j rest)), s32 (strtol 10 (drop (j + 1) rest))))"

definition field_line :: "string \<times> string \<Rightarrow> string" where
  "field_line p = fst p @ KStringColon @ KStringSpace @ snd p @ KStringCRLF"

definition HeaderFields_ToString :: "HeaderFields \<Rightarrow> string" where
  "HeaderFields_ToString hs = concat (map field_line hs)"

text \<open>\<open>__ParserHeaders\<close>: the lines up to each line break. A line without a colon has its name end at
  \<open>npos\<close>, and \<open>npos + 1\<close> is 0.\<close>

definition parse_field :: "string \<Rightarrow> HeaderFields \<Rightarrow> HeaderFields" where
  "parse_field line hs =
     (if \<forall>c \<in> set line. c = CHR '':'' then hs
      else
        let (name, rest) = (case find_first (\<lambda>c. c = CHR '':'') line 0 of
                              None \<Rightarrow> (line, line)
                            | Some i \<Rightarrow> (take i line, drop (i + 1) line))
        in if rest \<noteq> [] then HeaderFiled (Trim name) (Trim rest) hs else hs)"

function ParserHeaders :: "string \<Rightarrow> HeaderFields \<Rightarrow> HeaderFields" where
  "ParserHeaders s hs =
     (case str_find s KStringCRLF of
        None \<Rightarrow> hs
      | Some i \<Rightarrow> ParserHeaders (drop (i + 2) s) (parse_field (take i s) hs))"
  by pat_completeness auto

declare search.simps [simp del]

lemma search_Nil: "search (=) p [] = (if p = [] then Some 0 else None)"
  by (simp add: search.simps [of _ p "[]"] matches_at_prefix)

lemma search_Cons:
  "search (=) p (c # s) = (if prefix p (c # s) then Some 0 else map_option Suc (search (=) p s))"
  by (simp add: search.simps [of _ p "c # s"] matches_at_prefix)

lemma search_Some: "search (=) p s = Some i \<Longrightarrow> i + length p \<le> length s \<and> prefix p (drop i s)"
proof (induction s arbitrary: i)
  case (Cons c s)
  show ?case
  proof (cases "prefix p (c # s)")
    case True
    then show ?thesis using Cons.prems prefix_length_le [OF True] by (simp add: search_Cons)
  next
    case False
    then obtain k where "search (=) p s = Some k" "i = Suc k" using Cons.prems by (auto simp: search_Cons)
    then show ?thesis using Cons.IH by simp
  qed
qed (auto simp: search_Nil split: if_splits)

termination ParserHeaders
  by (relation "measure (\<lambda>(s, hs). length s)") (auto simp: str_find_def KStringCRLF_def dest: search_Some)

declare ParserHeaders.simps [simp del]

section \<open>Bodies and the builder\<close>

text \<open>\<open>BufferBodyProvider\<close>: the answers and the two buffers. A block without bytes has no pointer.\<close>

definition BufferBody_Data :: "string \<Rightarrow> string \<Rightarrow> bool \<times> string \<times> string" where
  "BufferBody_Data body buffer = (if body = [] then (False, body, buffer) else (True, [], buffer @ body))"

definition BufferBody_FillData :: "string \<Rightarrow> string \<Rightarrow> bool \<times> string \<times> string" where
  "BufferBody_FillData body buffer = (if buffer = [] then (False, body, buffer) else (True, body @ buffer, []))"

text \<open>\<open>IStreamBodyProvider\<close>: the frame of a chunk and the last chunk.\<close>

definition EofData :: string where
  "EofData = ''0'' @ CRLFCRLF"

definition AppendHeader :: "string \<Rightarrow> nat \<Rightarrow> string" where
  "AppendHeader body len = body @ print_hex len @ KStringCRLF"

definition AppendTail :: "string \<Rightarrow> string" where
  "AppendTail body = body @ KStringCRLF"

text \<open>A stream body is given by \<open>HaveData\<close> and by what \<open>Data\<close> writes, \<open>None\<close> when it fails.\<close>

record Builder =
  bd_csmode :: TCsMode
  bd_statusline :: StatusLine
  bd_requestline :: RequestLine
  bd_headfields :: HeaderFields
  bd_blockbody :: "string option"
  bd_streambody :: "(bool \<times> string option) option"

definition Builder_new :: "TCsMode \<Rightarrow> Builder" where
  "Builder_new csmode = \<lparr>bd_csmode = csmode, bd_statusline = StatusLine_new, bd_requestline = RequestLine_new,
     bd_headfields = [], bd_blockbody = None, bd_streambody = None\<rparr>"

definition BlockBody :: "string \<Rightarrow> Builder \<Rightarrow> Builder" where
  "BlockBody body b = (if bd_streambody b \<noteq> None then b else b\<lparr>bd_blockbody := Some body\<rparr>)"

definition StreamBody :: "bool \<times> string option \<Rightarrow> Builder \<Rightarrow> Builder" where
  "StreamBody body b = (if bd_blockbody b \<noteq> None then b else b\<lparr>bd_streambody := Some body\<rparr>)"

definition HeaderToBuffer :: "Builder \<Rightarrow> string \<Rightarrow> bool \<times> string" where
  "HeaderToBuffer b header =
     (let firstline = (case bd_csmode b of kRequest \<Rightarrow> RequestLine_ToString (bd_requestline b)
                                         | kRespond \<Rightarrow> StatusLine_ToString (bd_statusline b));
          strheaders = HeaderFields_ToString (bd_headfields b)
      in if firstline = [] then (False, header)
         else if strheaders = [] then (False, header)
         else (True, header @ firstline @ strheaders @ KStringCRLF))"

definition add_field :: "string \<times> string \<Rightarrow> Builder \<Rightarrow> Builder" where
  "add_field p b = b\<lparr>bd_headfields := hinsert (fst p) (snd p) (bd_headfields b)\<rparr>"

definition HttpToBuffer :: "Builder \<Rightarrow> string \<Rightarrow> bool \<times> string \<times> Builder" where
  "HttpToBuffer b http =
     (case bd_blockbody b of
        Some body \<Rightarrow>
          if 0 < length body then
            let b1 = add_field (MakeContentLength (s32 (int (length body)))) b;
                (ok, http1) = HeaderToBuffer b1 http
            in if \<not> ok then (False, http1, b1)
               else let (ok2, http2, rest) = BufferBody_FillData http1 body
                    in (ok2, http2, b1\<lparr>bd_blockbody := Some rest\<rparr>)
          else (True, http, b)
      | None \<Rightarrow>
          (case bd_streambody b of
             Some (have, data) \<Rightarrow>
               let b1 = add_field MakeTransferEncodingChunked b;
                   (ok, http1) = HeaderToBuffer b1 http
               in if \<not> ok then (False, http1, b1)
                  else if \<not> have then (True, http1, b1)
                  else (case data of None \<Rightarrow> (False, http1, b1) | Some d \<Rightarrow> (True, http1 @ d, b1))
           | None \<Rightarrow> (case HeaderToBuffer b http of (ok, http1) \<Rightarrow> (ok, http1, b))))"

section \<open>The parser\<close>

datatype TRecvStatus =
    kStart | kFirstLine | kFirstLineError | kHeaderFields | kHeaderFieldsError | kBody | kBodyError | kEnd

fun status_rank :: "TRecvStatus \<Rightarrow> nat" where
  "status_rank kStart = 0"
| "status_rank kFirstLine = 1"
| "status_rank kFirstLineError = 2"
| "status_rank kHeaderFields = 3"
| "status_rank kHeaderFieldsError = 4"
| "status_rank kBody = 5"
| "status_rank kBodyError = 6"
| "status_rank kEnd = 7"

text \<open>\<open>ps_headerbuf\<close> is the position and the contents of the buffer; the body receiver is what it was
  given.\<close>

record Parser =
  ps_recvstatus :: TRecvStatus
  ps_recvbuf :: string
  ps_headerbuf :: "nat \<times> string"
  ps_response_header_ready :: bool
  ps_csmode :: TCsMode
  ps_statusline :: StatusLine
  ps_requestline :: RequestLine
  ps_headfields :: HeaderFields
  ps_body :: string
  ps_firstlinelength :: nat
  ps_headerlength :: nat

definition Parser_new :: Parser where
  "Parser_new = \<lparr>ps_recvstatus = kStart, ps_recvbuf = [], ps_headerbuf = (0, []), ps_response_header_ready = False,
     ps_csmode = kRespond, ps_statusline = StatusLine_new, ps_requestline = RequestLine_new, ps_headfields = [],
     ps_body = [], ps_firstlinelength = 0, ps_headerlength = 0\<rparr>"

definition FirstLineReady :: "Parser \<Rightarrow> bool" where
  "FirstLineReady p \<longleftrightarrow> status_rank kFirstLineError < status_rank (ps_recvstatus p)"

definition FieldsReady :: "Parser \<Rightarrow> bool" where
  "FieldsReady p \<longleftrightarrow> status_rank kHeaderFieldsError < status_rank (ps_recvstatus p)"

definition BodyReady :: "Parser \<Rightarrow> bool" where
  "BodyReady p \<longleftrightarrow> status_rank kBodyError < status_rank (ps_recvstatus p)"

definition Parser_Error :: "Parser \<Rightarrow> bool" where
  "Parser_Error p \<longleftrightarrow> ps_recvstatus p \<in> {kFirstLineError, kHeaderFieldsError, kBodyError}"

definition Parser_Success :: "Parser \<Rightarrow> bool" where
  "Parser_Success p \<longleftrightarrow> ps_recvstatus p = kEnd"

text \<open>\<open>AutoBuffer::Write\<close> at the position, and \<open>Length(0, n)\<close>.\<close>

definition hb_write :: "string \<Rightarrow> nat \<times> string \<Rightarrow> nat \<times> string" where
  "hb_write d hb = (case hb of (pos, c) \<Rightarrow> (pos + length d, take pos c @ d @ drop (pos + length d) c))"

text \<open>The copy of the header that \<open>Recv\<close> takes before it parses.\<close>

definition keep_header :: "string \<Rightarrow> Parser \<Rightarrow> Parser" where
  "keep_header d p =
     (if status_rank (ps_recvstatus p) < status_rank kBody \<and> length (snd (ps_headerbuf p)) < 4096 \<and>
         \<not> ps_response_header_ready p then
        let hb = hb_write (take 4096 d) (ps_headerbuf p); p1 = p\<lparr>ps_headerbuf := hb\<rparr>
        in if 4 < length (snd hb) then
             (case string_strnstr (snd hb) CRLFCRLF (length (snd hb)) of
                None \<Rightarrow> p1
              | Some pos \<Rightarrow> p1\<lparr>ps_headerbuf := (0, take (pos + 4) (snd hb)), ps_response_header_ready := True\<rparr>)
           else p1
      else p)"

text \<open>One round of the loop over the states ends the call, goes on, or reads outside the bytes that were
  received (\<open>Overruns\<close>, with the state in whose round it does). The two
  overloads of \<open>Recv\<close> differ in the buffer that they parse: their own \<open>recvbuf_\<close> (\<open>own\<close>), to which
  the bytes are appended, or the caller's, in which case \<open>recvbuf_\<close> stays empty. \<open>ps_recvbuf\<close> is the
  buffer that is parsed. Buffers are below \<open>2 ^ 31\<close> bytes, the casts of their lengths to \<open>int\<close> exact.\<close>

datatype parse_result = Returned Parser | Continues Parser | Overruns Parser

definition take_first_line :: "string \<Rightarrow> Parser \<Rightarrow> bool \<times> Parser" where
  "take_first_line firstline p =
     (if StartsWith firstline ''HTTP/'' then
        (case StatusLine_FromString firstline (ps_statusline p) of
           (ok, l) \<Rightarrow> (ok, p\<lparr>ps_statusline := l, ps_csmode := (if ok then kRespond else ps_csmode p)\<rparr>))
      else
        (case RequestLine_FromString firstline (ps_requestline p) of
           (ok, l) \<Rightarrow> (ok, p\<lparr>ps_requestline := l, ps_csmode := (if ok then kRequest else ps_csmode p)\<rparr>)))"

definition parse_first :: "bool \<Rightarrow> Parser \<Rightarrow> parse_result" where
  "parse_first own p =
     (let buf = ps_recvbuf p in
      case string_strnstr buf KStringCRLF (length buf) of
        None \<Rightarrow>
          if 8 * 1024 < length buf then Returned (p\<lparr>ps_recvstatus := kFirstLineError\<rparr>)
          else Returned (p\<lparr>ps_recvstatus := kFirstLine\<rparr>)
      | Some pos \<Rightarrow>
          let len = pos + 2; firstline = take len buf;
              (suc, p1) = take_first_line firstline p
          in if \<not> suc then Returned (p1\<lparr>ps_recvstatus := kFirstLineError\<rparr>)
             else if own then
               let p2 = p1\<lparr>ps_headerbuf := hb_write firstline (ps_headerbuf p1), ps_firstlinelength := len\<rparr>
               in if string_strnstr buf CRLFCRLF (length buf) = Some pos
                  then Continues (p2\<lparr>ps_recvstatus := kBody, ps_recvbuf := drop (len + 2) buf\<rparr>)
                  else Continues (p2\<lparr>ps_recvstatus := kHeaderFields, ps_recvbuf := drop len buf\<rparr>)
             else Continues (p1\<lparr>ps_recvstatus := kHeaderFields, ps_recvbuf := drop len buf, ps_firstlinelength := len\<rparr>))"

definition parse_fields :: "bool \<Rightarrow> Parser \<Rightarrow> parse_result" where
  "parse_fields own p =
     (let buf = ps_recvbuf p in
      case string_strnstr buf CRLFCRLF (length buf) of
        None \<Rightarrow>
          if 128 * 1024 < length buf then Returned (p\<lparr>ps_recvstatus := kHeaderFieldsError\<rparr>) else Returned p
      | Some pos \<Rightarrow>
          let len = pos + 4
          in Continues (p\<lparr>ps_headfields := ParserHeaders (take len buf) (ps_headfields p), ps_recvstatus := kBody,
               ps_headerbuf := (if own then hb_write (take len buf) (ps_headerbuf p) else ps_headerbuf p),
               ps_recvbuf := drop len buf, ps_headerlength := len\<rparr>))"

definition if_more :: "Parser \<Rightarrow> parse_result" where
  "if_more p = (if ps_recvbuf p = [] then Returned p else Continues p)"

text \<open>A chunk: the line with its size, its data and a line break. A size near the largest
  number overflows the sum that it is compared by. The search for the end of the
  trailers is given the length of the whole buffer, but begins behind the size line: its \<open>strnlen\<close> runs
  on behind the received bytes unless one of the bytes that follow the size line is zero, also when the
  line break that is searched is there.\<close>

definition parse_chunk :: "bool \<Rightarrow> Parser \<Rightarrow> parse_result" where
  "parse_chunk own p =
     (let buf = ps_recvbuf p; n = length buf in
      case string_strnstr buf KStringCRLF n of
        None \<Rightarrow> Returned p
      | Some i \<Rightarrow>
          let size = strtol 16 (Trim (take i buf)) in
          if size \<noteq> 0 then
            let e = int i + 2 + size in
            if 2 ^ 63 \<le> size + int i + 4 then Overruns p
            else if int n < size + int i + 4 then Returned p
            else if e < 0 then Overruns p
            else if buf ! nat e \<noteq> CHR 0x0D \<or> buf ! (nat e + 1) \<noteq> CHR 0x0A
              then Returned (p\<lparr>ps_recvstatus := kBodyError\<rparr>)
            else if size < 0 then Overruns p
            else if_more (p\<lparr>ps_body := ps_body p @ take (nat size) (drop (i + 2) buf),
                            ps_recvbuf := drop (nat e + 2) buf\<rparr>)
          else
            if (if own then n else 0) < i + 4 then Returned p
            else if CHR 0x00 \<notin> set (drop (i + 2) buf) then Overruns p
            else case search (=) KStringCRLF (cstr (drop (i + 2) buf)) of
                   Some j \<Rightarrow> if_more (p\<lparr>ps_recvstatus := kEnd, ps_recvbuf := drop (i + 2 + j + 2) buf\<rparr>)
                 | None \<Rightarrow> Returned p)"

definition parse_plain :: "bool \<Rightarrow> Parser \<Rightarrow> parse_result" where
  "parse_plain own p =
     (let buf = ps_recvbuf p; n = length buf; have = length (ps_body p);
          content_length = ContentLength (ps_headfields p);
          appendlen = (if own \<and> IsConnectionClose (ps_headfields p) \<and> content_length = 0 then int n
                       else if int (n + have) \<le> content_length then int n
                       else content_length - int have)
      in if appendlen < 0 then Overruns p
         else let p1 = p\<lparr>ps_body := ps_body p @ take (nat appendlen) buf, ps_recvbuf := drop (nat appendlen) buf\<rparr>
              in if int (length (ps_body p1)) = content_length
                 then Returned (p1\<lparr>ps_recvstatus := kEnd\<rparr>) else if_more p1)"

definition parse_step :: "bool \<Rightarrow> Parser \<Rightarrow> parse_result" where
  "parse_step own p =
     (case ps_recvstatus p of
        kStart \<Rightarrow> parse_first own p
      | kFirstLine \<Rightarrow> parse_first own p
      | kHeaderFields \<Rightarrow> parse_fields own p
      | kBody \<Rightarrow> if IsTransferEncodingChunked (ps_headfields p) then parse_chunk own p else parse_plain own p
      | kEnd \<Rightarrow> Returned p
      | _ \<Rightarrow> Continues p)"

definition is_Continues :: "parse_result \<Rightarrow> bool" where
  "is_Continues r = (case r of Continues p \<Rightarrow> True | _ \<Rightarrow> False)"

text \<open>The loop; \<open>None\<close> when it does not end.\<close>

definition parse_loop :: "bool \<Rightarrow> Parser \<Rightarrow> parse_result option" where
  "parse_loop own p =
     while_option is_Continues (\<lambda>r. case r of Continues q \<Rightarrow> parse_step own q | _ \<Rightarrow> r) (Continues p)"

definition Parser_Recv :: "string \<Rightarrow> Parser \<Rightarrow> parse_result option" where
  "Parser_Recv d p =
     (if d = [] \<and> IsConnectionClose (ps_headfields p) \<and> ps_recvstatus p = kBody
      then Some (Returned (p\<lparr>ps_recvstatus := kEnd\<rparr>))
      else if d = [] then Some (Returned p)
      else let p1 = keep_header d p in parse_loop True (p1\<lparr>ps_recvbuf := ps_recvbuf p1 @ d\<rparr>))"

text \<open>The overload on a buffer of the caller, which holds what was not parsed yet; the answer is in
  \<open>ps_recvbuf\<close> as well.\<close>

definition Parser_Recv_buffer :: "string \<Rightarrow> Parser \<Rightarrow> parse_result option" where
  "Parser_Recv_buffer buf p =
     (if buf = [] then Some (Returned p)
      else let p1 = keep_header buf p in parse_loop False (p1\<lparr>ps_recvbuf := buf\<rparr>))"

section \<open>Finding line breaks\<close>

lemma search_first: "search (=) p s = Some i \<Longrightarrow> j < i \<Longrightarrow> \<not> prefix p (drop j s)"
proof (induction s arbitrary: i j)
  case (Cons c s)
  then have np: "\<not> prefix p (c # s)" by (auto simp: search_Cons split: if_splits)
  then obtain k where k: "search (=) p s = Some k" "i = Suc k" using Cons.prems by (auto simp: search_Cons)
  show ?case using np Cons.IH [OF k(1)] Cons.prems(2) k(2) by (cases j) auto
qed (auto simp: search_Nil split: if_splits)

lemma search_empty: "search (=) [] s = Some 0"
  by (cases s) (simp_all add: search_Nil search_Cons)

lemma prefix_take_iff: fixes p :: string shows "prefix p (take n s) \<longleftrightarrow> prefix p s \<and> length p \<le> n"
proof -
  have iff: "prefix p t \<longleftrightarrow> take (length p) t = p" for t :: string
    by (metis append_eq_conv_conj prefix_def take_is_prefix)
  show ?thesis
  proof (cases "length p \<le> n")
    case False
    then have "length (take (length p) (take n s)) < length p" by simp
    then show ?thesis using False iff [of "take n s"] by (metis nat_less_le)
  qed (simp add: iff min_absorb1)
qed

lemma search_take:
  "search (=) p (take n s) =
     (case search (=) p s of None \<Rightarrow> None | Some i \<Rightarrow> if i + length p \<le> n then Some i else None)"
proof (induction s arbitrary: n)
  case (Cons c s)
  show ?case
  proof (cases n)
    case 0
    then show ?thesis
      by (cases "p = []"; cases "search (=) p (c # s)") (simp_all add: search_Nil search_empty)
  next
    case (Suc m)
    have t: "take n (c # s) = c # take m s" using Suc by simp
    have "prefix p (c # take m s) \<longleftrightarrow> prefix p (c # s) \<and> length p \<le> n"
      using prefix_take_iff [of p n "c # s"] by (simp only: t)
    moreover have "length p \<le> n" if "search (=) p s = Some i" "Suc (i + length p) \<le> n" for i using that by simp
    ultimately show ?thesis
      using Suc unfolding t search_Cons Cons.IH [of m] by (cases "search (=) p s") (simp_all split: if_splits)
  qed
qed (auto simp: search_Nil)

lemma cstr_take: "cstr s = take (length (cstr s)) s"
  unfolding cstr_def by (rule takeWhile_eq_take)

lemma cstr_id: "CHR 0x00 \<notin> set s \<Longrightarrow> cstr s = s"
  by (auto simp: cstr_def takeWhile_eq_all_conv)

lemma cstr_append: "CHR 0x00 \<notin> set s \<Longrightarrow> cstr (s @ r) = s @ cstr r"
  by (induction s) (auto simp: cstr_def)

text \<open>A search that ends in the part without a zero byte is not cut off by one.\<close>

lemma strnstr_found:
  assumes "search (=) p (a @ r) = Some i" "i + length p \<le> length a" "CHR 0x00 \<notin> set a" "p \<noteq> []"
  shows "string_strnstr (take n (a @ r)) p (length (take n (a @ r))) =
     (if i + length p \<le> n then Some i else None)"
proof -
  let ?s = "take n (a @ r)"
  have c: "search (=) p (cstr ?s) = (case search (=) p ?s of None \<Rightarrow> None | Some i \<Rightarrow> if i + length p \<le> length (cstr ?s) then Some i else None)"
    by (subst cstr_take) (rule search_take)
  have s: "search (=) p ?s = (if i + length p \<le> n then Some i else None)"
    using search_take [of p n "a @ r"] assms(1) by (simp del: take_append)
  have "i + length p \<le> n \<Longrightarrow> i + length p \<le> length (cstr ?s)"
  proof -
    assume n: "i + length p \<le> n"
    have "CHR 0x00 \<notin> set (take n a)" using assms(3) in_set_takeD by metis
    then have "cstr ?s = take n a @ cstr (take (n - length a) r)" by (simp add: cstr_append)
    then show ?thesis using n assms(2) by simp
  qed
  then show ?thesis unfolding string_strnstr_def take_all [OF order_refl] using assms(4) c s by (simp del: take_append length_take)
qed

text \<open>Text without line breaks and zero bytes.\<close>

definition clean :: "string \<Rightarrow> bool" where
  "clean s \<longleftrightarrow> set s \<inter> {CHR 0x00, CHR 0x0D, CHR 0x0A} = {}"

lemma clean_simps [simp]: "clean []" "clean (c # s) \<longleftrightarrow> c \<notin> {CHR 0x00, CHR 0x0D, CHR 0x0A} \<and> clean s"
  "clean (s @ t) \<longleftrightarrow> clean s \<and> clean t"
  by (auto simp: clean_def)

lemma clean_cstr [simp]: "clean s \<Longrightarrow> cstr s = s"
  by (auto simp: clean_def intro: cstr_id)

lemma search_CR: "clean s \<Longrightarrow> search (=) (CHR 0x0D # p) (s @ r) = map_option ((+) (length s)) (search (=) (CHR 0x0D # p) r)"
proof (induction s)
  case (Cons c s)
  then have "\<not> prefix (CHR 0x0D # p) (c # s @ r)" by auto
  then show ?case using Cons by (cases "search (=) (CHR 0x0D # p) r") (auto simp: search_Cons)
next
  case Nil
  then show ?case by (cases "search (=) (CHR 0x0D # p) r") simp_all
qed

lemma find_CRLF: "clean s \<Longrightarrow> search (=) KStringCRLF (s @ KStringCRLF @ r) = Some (length s)"
  by (simp add: KStringCRLF_def search_CR) (simp add: search_Cons)

definition lines_text :: "string list \<Rightarrow> string" where
  "lines_text ls = concat (map (\<lambda>l. l @ KStringCRLF) ls)"

lemma find_CRLFCRLF:
  "\<forall>l \<in> set ls. clean l \<and> l \<noteq> [] \<Longrightarrow> ls \<noteq> [] \<Longrightarrow>
   search (=) CRLFCRLF (lines_text ls @ KStringCRLF @ r) = Some (length (lines_text ls) - 2)"
proof (induction ls)
  case (Cons l ls)
  show ?case
  proof (cases ls)
    case Nil
    then show ?thesis using Cons.prems by (simp add: lines_text_def KStringCRLF_def search_CR search_Cons)
  next
    case (Cons l' ls')
    obtain c t where c: "l' = c # t" "c \<noteq> CHR 0x0D" using Cons Cons.prems by (cases l') auto
    have l: "clean l" using Cons.prems by simp
    have "search (=) CRLFCRLF (lines_text ls @ KStringCRLF @ r) = Some (length (lines_text ls) - 2)"
      using Cons Cons.prems Cons.IH by simp
    moreover have "length (lines_text ls) \<ge> 2" using Cons by (simp add: lines_text_def KStringCRLF_def)
    moreover have "\<exists>w. lines_text ls @ KStringCRLF @ r = c # w" using Cons c by (simp add: lines_text_def)
    ultimately show ?thesis
      using l c(2) by (auto simp: lines_text_def KStringCRLF_def search_CR search_Cons)
  qed
qed simp

section \<open>The loop ends\<close>

lemma strnstr_bound: "string_strnstr s p n = Some i \<Longrightarrow> p \<noteq> [] \<Longrightarrow> i + length p \<le> length s"
proof -
  assume a: "string_strnstr s p n = Some i" "p \<noteq> []"
  have "length (cstr t) \<le> length t" for t by (simp add: cstr_def length_takeWhile_le)
  then have "length (cstr (take n s)) \<le> length s" by (metis length_take min.bounded_iff)
  then show ?thesis using a search_Some [of p "cstr (take n s)" i] by (simp add: string_strnstr_def)
qed

lemma parse_loop_unfold:
  "parse_loop own p =
     (case parse_step own p of Continues q \<Rightarrow> parse_loop own q | r \<Rightarrow> Some r)"
  unfolding parse_loop_def
  by (subst while_option_unfold, cases "parse_step own p")
    (simp_all add: is_Continues_def while_option_unfold [of _ _ "Returned q" for q] while_option_unfold [of _ _ "Overruns q" for q])

lemma parse_step_shrinks:
  assumes "parse_step own p = Continues q" "\<not> Parser_Error p"
  shows "length (ps_recvbuf q) < length (ps_recvbuf p) \<and> \<not> Parser_Error q"
proof -
  note b = strnstr_bound [of "ps_recvbuf p" KStringCRLF "length (ps_recvbuf p)"]
    strnstr_bound [of "ps_recvbuf p" CRLFCRLF "length (ps_recvbuf p)"]
  have first: "parse_first own p = Continues q \<Longrightarrow> ?thesis"
    using b(1) by (auto simp: parse_first_def Let_def KStringCRLF_def Parser_Error_def case_prod_beta
        split: option.splits if_splits prod.splits)
  have fields: "parse_fields own p = Continues q \<Longrightarrow> ?thesis"
    using b(2) by (auto simp: parse_fields_def Let_def Parser_Error_def split: option.splits if_splits)
  have chunk: "parse_chunk own p = Continues q \<Longrightarrow> ps_recvstatus p = kBody \<Longrightarrow> ?thesis"
    using b(1) by (auto simp: parse_chunk_def Let_def if_more_def KStringCRLF_def Parser_Error_def
        split: option.splits if_splits)
  have plain: "parse_plain own p = Continues q \<Longrightarrow> ?thesis"
    by (auto simp: parse_plain_def Let_def if_more_def split: if_splits)
  show ?thesis
    using assms first fields chunk plain
    by (auto simp: parse_step_def Parser_Error_def split: TRecvStatus.splits if_splits)
qed

lemma parse_loop_ends:
  "\<not> Parser_Error p \<Longrightarrow> \<exists>r. parse_loop own p = Some r \<and> \<not> is_Continues r"
proof (induction "length (ps_recvbuf p)" arbitrary: p rule: less_induct)
  case less
  show ?case
  proof (cases "parse_step own p")
    case (Continues q)
    then show ?thesis
      using less.hyps [of q] parse_step_shrinks [OF Continues less.prems] parse_loop_unfold [of own p] by simp
  qed (use parse_loop_unfold [of own p] in \<open>simp_all add: is_Continues_def\<close>)
qed

lemma parse_loop_error: "Parser_Error p \<Longrightarrow> parse_loop own p = None"
proof -
  assume e: "Parser_Error p"
  then have s: "parse_step own p = Continues p" by (auto simp: parse_step_def Parser_Error_def)
  let ?c = "\<lambda>r. case r of Continues q \<Rightarrow> parse_step own q | _ \<Rightarrow> r"
  have "(?c ^^ k) (Continues p) = Continues p" for k by (induction k) (simp_all add: s)
  then show ?thesis by (simp add: parse_loop_def while_option_def is_Continues_def)
qed

lemma keep_header_frame [simp]:
  "ps_recvstatus (keep_header d p) = ps_recvstatus p" "ps_recvbuf (keep_header d p) = ps_recvbuf p"
  "ps_headfields (keep_header d p) = ps_headfields p" "ps_body (keep_header d p) = ps_body p"
  "ps_statusline (keep_header d p) = ps_statusline p" "ps_requestline (keep_header d p) = ps_requestline p"
  "ps_csmode (keep_header d p) = ps_csmode p"
  by (auto simp: keep_header_def Let_def split: option.splits)

lemma Parser_Error_frame [simp]: "Parser_Error (p\<lparr>ps_recvbuf := b\<rparr>) = Parser_Error p"
  by (simp add: Parser_Error_def)

text \<open>The states that a new parser reaches by calls of \<open>Recv\<close>.\<close>

inductive parser_run :: "Parser \<Rightarrow> bool" where
  new: "parser_run Parser_new"
| recv: "parser_run p \<Longrightarrow> Parser_Recv d p = Some (Returned q) \<Longrightarrow> parser_run q"

text \<open>A state in which the next round leaves the received bytes: a chunk whose size is negative, near
  the largest number, or zero with no zero byte behind its line; without chunks, a negative announced
  length.\<close>

definition leaves_buffer :: "Parser \<Rightarrow> bool" where
  "leaves_buffer p \<longleftrightarrow> ps_recvstatus p = kBody \<and>
     (if IsTransferEncodingChunked (ps_headfields p)
      then \<exists>i. string_strnstr (ps_recvbuf p) KStringCRLF (length (ps_recvbuf p)) = Some i \<and>
             (let size = strtol 16 (Trim (take i (ps_recvbuf p)))
              in size < 0 \<or> 2 ^ 63 \<le> size + int i + 4 \<or> size = 0 \<and> CHR 0x00 \<notin> set (drop (i + 2) (ps_recvbuf p)))
      else ContentLength (ps_headfields p) < 0)"

text \<open>The body never has more than the announced length, where one is announced.\<close>

definition in_bounds :: "Parser \<Rightarrow> bool" where
  "in_bounds p \<longleftrightarrow>
     (ps_recvstatus p \<in> {kStart, kFirstLine, kHeaderFields} \<longrightarrow> ps_body p = []) \<and>
     (ps_recvstatus p = kBody \<and> \<not> IsTransferEncodingChunked (ps_headfields p) \<longrightarrow>
        (let content_length = ContentLength (ps_headfields p)
         in content_length < 0 \<or> int (length (ps_body p)) \<le> content_length \<or>
            IsConnectionClose (ps_headfields p) \<and> content_length = 0))"

lemma take_first_line_frame:
  "take_first_line f p = (ok, q) \<Longrightarrow> ps_body q = ps_body p \<and> ps_headfields q = ps_headfields p \<and>
     ps_recvbuf q = ps_recvbuf p \<and> ps_recvstatus q = ps_recvstatus p"
  by (auto simp: take_first_line_def split: if_splits prod.splits)

lemma parse_first_bounds:
  assumes "ps_body p = []"
  shows "case parse_first own p of
      Returned q \<Rightarrow> in_bounds q \<and> suffix (ps_recvbuf q) (ps_recvbuf p)
    | Continues q \<Rightarrow> in_bounds q \<and> suffix (ps_recvbuf q) (ps_recvbuf p)
    | Overruns q \<Rightarrow> False"
  using assms
  by (auto simp: parse_first_def Let_def in_bounds_def suffix_drop dest!: take_first_line_frame
      split: option.splits prod.splits)

lemma parse_fields_bounds:
  assumes "ps_body p = []" "ps_recvstatus p = kHeaderFields"
  shows "case parse_fields own p of
      Returned q \<Rightarrow> in_bounds q \<and> suffix (ps_recvbuf q) (ps_recvbuf p)
    | Continues q \<Rightarrow> in_bounds q \<and> suffix (ps_recvbuf q) (ps_recvbuf p)
    | Overruns q \<Rightarrow> False"
  using assms by (auto simp: parse_fields_def Let_def in_bounds_def suffix_drop split: option.splits)

lemma parse_chunk_bounds:
  assumes "ps_recvstatus p = kBody" "IsTransferEncodingChunked (ps_headfields p)"
  shows "case parse_chunk own p of
      Returned q \<Rightarrow> in_bounds q \<and> suffix (ps_recvbuf q) (ps_recvbuf p)
    | Continues q \<Rightarrow> in_bounds q \<and> suffix (ps_recvbuf q) (ps_recvbuf p)
    | Overruns q \<Rightarrow> leaves_buffer q"
  using assms
  by (auto simp: parse_chunk_def Let_def in_bounds_def if_more_def leaves_buffer_def suffix_drop split: option.splits)

lemma parse_plain_bounds:
  assumes "ps_recvstatus p = kBody" "\<not> IsTransferEncodingChunked (ps_headfields p)" "in_bounds p"
  shows "case parse_plain True p of
      Returned q \<Rightarrow> in_bounds q \<and> suffix (ps_recvbuf q) (ps_recvbuf p)
    | Continues q \<Rightarrow> in_bounds q \<and> suffix (ps_recvbuf q) (ps_recvbuf p)
    | Overruns q \<Rightarrow> leaves_buffer q"
  using assms
  by (auto simp: parse_plain_def Let_def in_bounds_def if_more_def leaves_buffer_def suffix_drop)

lemma parse_step_bounds:
  assumes "in_bounds p"
  shows "case parse_step True p of
      Returned q \<Rightarrow> in_bounds q \<and> suffix (ps_recvbuf q) (ps_recvbuf p)
    | Continues q \<Rightarrow> in_bounds q \<and> suffix (ps_recvbuf q) (ps_recvbuf p)
    | Overruns q \<Rightarrow> leaves_buffer q"
  using assms parse_first_bounds [of p True] parse_fields_bounds [of p True] parse_chunk_bounds [of p True]
    parse_plain_bounds [of p]
  by (auto simp: parse_step_def in_bounds_def [of p] split: TRecvStatus.splits parse_result.splits)

lemma parse_loop_bounds:
  "\<not> Parser_Error p \<Longrightarrow> in_bounds p \<Longrightarrow>
   case parse_loop True p of
      Some (Returned q) \<Rightarrow> in_bounds q \<and> suffix (ps_recvbuf q) (ps_recvbuf p)
    | Some (Overruns q) \<Rightarrow> leaves_buffer q
    | _ \<Rightarrow> False"
proof (induction "length (ps_recvbuf p)" arbitrary: p rule: less_induct)
  case less
  note step = parse_step_bounds [OF less.prems(2)]
  show ?case
  proof (cases "parse_step True p")
    case (Continues q)
    then have "length (ps_recvbuf q) < length (ps_recvbuf p)" "\<not> Parser_Error q" "in_bounds q"
      and q: "suffix (ps_recvbuf q) (ps_recvbuf p)"
      using parse_step_shrinks [OF Continues less.prems(1)] step by auto
    then show ?thesis
      using less.hyps [of q] suffix_order.trans [OF _ q] parse_loop_unfold [of True p] Continues
      by (auto split: option.splits parse_result.splits)
  qed (use step parse_loop_unfold [of True p] in simp_all)
qed

lemma recv_bounds:
  assumes "in_bounds p"
  shows "case Parser_Recv d p of
      None \<Rightarrow> d \<noteq> [] \<and> Parser_Error p
    | Some (Returned q) \<Rightarrow> (d = [] \<or> \<not> Parser_Error p) \<and> suffix (ps_recvbuf q) (ps_recvbuf p @ d) \<and> in_bounds q
    | Some (Overruns q) \<Rightarrow> \<not> Parser_Error p \<and> leaves_buffer q
    | Some (Continues q) \<Rightarrow> False"
proof -
  let ?q = "(keep_header d p)\<lparr>ps_recvbuf := ps_recvbuf p @ d\<rparr>"
  have e: "Parser_Error ?q = Parser_Error p" by (simp add: Parser_Error_def)
  have b: "in_bounds ?q" using assms by (simp add: in_bounds_def)
  show ?thesis
  proof (cases "d = []")
    case True
    then show ?thesis using assms by (auto simp: Parser_Recv_def in_bounds_def)
  next
    case False
    then have r: "Parser_Recv d p = parse_loop True ?q" by (simp add: Parser_Recv_def Let_def)
    show ?thesis
    proof (cases "Parser_Error p")
      case True
      then show ?thesis using False r e parse_loop_error [of ?q True] by simp
    next
      case f: False
      then show ?thesis
        using parse_loop_bounds [OF _ b] e r by (auto split: option.splits parse_result.splits)
    qed
  qed
qed

lemma parser_run_bounds: "parser_run p \<Longrightarrow> in_bounds p"
proof (induction rule: parser_run.induct)
  case new
  then show ?case by (simp add: in_bounds_def Parser_new_def)
next
  case (recv p d q)
  then show ?case using recv_bounds [of p d] by simp
qed

text \<open>C25. A call of \<open>Recv\<close> on a parser that was used by calls of \<open>Recv\<close> alone. It comes back with what is
  left of the received bytes still to be parsed, or leaves these bytes, which happens in the body only:
  of a chunk whose size is negative or near the largest number, of the last chunk, or of an announced
  length that is negative. It never ends exactly when it is given bytes after an error was reported.\<close>

theorem parser_returns:
  assumes "parser_run p"
  shows "case Parser_Recv d p of
      None \<Rightarrow> d \<noteq> [] \<and> Parser_Error p
    | Some (Returned q) \<Rightarrow> (d = [] \<or> \<not> Parser_Error p) \<and> suffix (ps_recvbuf q) (ps_recvbuf p @ d)
    | Some (Overruns q) \<Rightarrow> \<not> Parser_Error p \<and> leaves_buffer q
    | Some (Continues q) \<Rightarrow> False"
  using recv_bounds [OF parser_run_bounds [OF assms], of d]
  by (auto split: option.splits parse_result.splits)

lemma returned_iff:
  "(case r of Some (Returned p) \<Rightarrow> P p | _ \<Rightarrow> False) \<longleftrightarrow> (\<exists>p. r = Some (Returned p) \<and> P p)"
  by (auto split: option.splits parse_result.splits)

theorem parser_returns_witness:
  "\<exists>p q. parser_run p \<and> ps_recvstatus p = kBody \<and> Parser_Recv ''cde'' p = Some (Returned q) \<and>
     suffix (ps_recvbuf q) (ps_recvbuf p @ ''cde'') \<and> ps_body q = ''abc''"
proof -
  let ?d = "''HTTP/1.1 200 OK'' @ KStringCRLF @ ''Content-Length: 3'' @ CRLFCRLF @ ''ab''"
  let ?ok = "\<lambda>r P. case r of Some (Returned p) \<Rightarrow> P p | _ \<Rightarrow> False"
  have "?ok (Parser_Recv ?d Parser_new) (\<lambda>p. ps_recvstatus p = kBody \<and>
      ?ok (Parser_Recv ''cde'' p) (\<lambda>q. ps_body q = ''abc''))" by code_simp
  then obtain p q where p: "Parser_Recv ?d Parser_new = Some (Returned p)" "ps_recvstatus p = kBody"
    and q: "Parser_Recv ''cde'' p = Some (Returned q)" "ps_body q = ''abc''"
    unfolding returned_iff by blast
  have "parser_run p" using parser_run.recv [OF parser_run.new p(1)] .
  then show ?thesis using parser_returns [of p "''cde''"] p q by auto
qed

section \<open>A message in pieces\<close>

text \<open>A well-formed message: the first line, the header section up to the empty line, and a body of the
  announced length.\<close>

definition message_ok :: "string \<Rightarrow> string \<Rightarrow> string \<Rightarrow> HeaderFields \<Rightarrow> bool" where
  "message_ok first hdr body hs \<longleftrightarrow>
     clean first \<and> length first < 8 * 1024 \<and> length hdr \<le> 128 * 1024 \<and>
     CHR 0x00 \<notin> set hdr \<and> 4 \<le> length hdr \<and> hd hdr \<noteq> CHR 0x0D \<and>
     (\<forall>r. search (=) CRLFCRLF (hdr @ r) = Some (length hdr - 4)) \<and>
     ParserHeaders hdr [] = hs \<and> \<not> IsTransferEncodingChunked hs \<and> ContentLength hs = int (length body)"

definition line_is :: "string \<Rightarrow> TCsMode \<times> StatusLine \<times> RequestLine \<Rightarrow> bool" where
  "line_is first l \<longleftrightarrow>
     (\<forall>p. ps_csmode p = kRespond \<and> ps_statusline p = StatusLine_new \<and> ps_requestline p = RequestLine_new \<longrightarrow>
        take_first_line (first @ KStringCRLF) p =
          (True, p\<lparr>ps_csmode := fst l, ps_statusline := fst (snd l), ps_requestline := snd (snd l)\<rparr>))"

definition parsed_line :: "Parser \<Rightarrow> TCsMode \<times> StatusLine \<times> RequestLine" where
  "parsed_line p = (ps_csmode p, ps_statusline p, ps_requestline p)"

text \<open>The state of the parser after the first \<open>k\<close> bytes.\<close>

definition holds_bytes ::
    "string \<Rightarrow> string \<Rightarrow> string \<Rightarrow> HeaderFields \<Rightarrow> TCsMode \<times> StatusLine \<times> RequestLine \<Rightarrow> nat \<Rightarrow> Parser \<Rightarrow> bool" where
  "holds_bytes first hdr body hs l k p \<longleftrightarrow>
     (let w = first @ KStringCRLF @ hdr @ body; f = length first + 2; h = f + length hdr in
      if k < f then
        ps_recvstatus p \<in> {kStart, kFirstLine} \<and> ps_recvbuf p = take k w \<and> ps_headfields p = [] \<and> ps_body p = [] \<and>
        parsed_line p = (kRespond, StatusLine_new, RequestLine_new)
      else if k < h then
        ps_recvstatus p = kHeaderFields \<and> ps_recvbuf p = take (k - f) (hdr @ body) \<and> ps_headfields p = [] \<and>
        ps_body p = [] \<and> parsed_line p = l
      else
        ps_recvstatus p = (if k = length w then kEnd else kBody) \<and> ps_recvbuf p = [] \<and> ps_headfields p = hs \<and>
        ps_body p = take (k - h) body \<and> parsed_line p = l)"

lemma body_bytes:
  assumes "message_ok first hdr body hs" "ps_recvstatus p = kBody" "ps_headfields p = hs"
    and "ps_body p = take m body" "ps_recvbuf p = take n (drop m body)" "m + n \<le> length body"
  shows "\<exists>q. parse_loop True p = Some (Returned q) \<and> ps_recvbuf q = [] \<and> ps_headfields q = hs \<and>
     ps_body q = take (m + n) body \<and> parsed_line q = parsed_line p \<and>
     ps_recvstatus q = (if m + n = length body then kEnd else kBody)"
proof -
  have cl: "ContentLength hs = int (length body)" "\<not> IsTransferEncodingChunked hs" using assms(1) by (auto simp: message_ok_def)
  have len: "length (ps_body p) = m" "length (ps_recvbuf p) = n" using assms(4-6) by simp_all
  have b: "ps_body p @ ps_recvbuf p = take (m + n) body" using assms(4,5) by (simp add: take_add)
  let ?q = "p\<lparr>ps_body := take (m + n) body, ps_recvbuf := []\<rparr>"
  have "parse_plain True p =
      Returned (if m + n = length body then ?q\<lparr>ps_recvstatus := kEnd\<rparr> else ?q)"
    using assms(3,6) cl len b by (auto simp: parse_plain_def Let_def if_more_def)
  then show ?thesis
    using assms(2,3) cl(2) by (subst parse_loop_unfold) (auto simp: parse_step_def parsed_line_def)
qed

lemma fields_bytes:
  assumes ok: "message_ok first hdr body hs" and p: "ps_recvstatus p = kHeaderFields" "ps_headfields p = []" "ps_body p = []"
    and buf: "ps_recvbuf p = take n (hdr @ body)" "n \<le> length (hdr @ body)"
  shows "\<exists>q. parse_loop True p = Some (Returned q) \<and> parsed_line q = parsed_line p \<and>
     (if n < length hdr then ps_recvstatus q = kHeaderFields \<and> ps_recvbuf q = take n (hdr @ body) \<and> ps_headfields q = [] \<and> ps_body q = []
      else ps_recvstatus q = (if n = length (hdr @ body) then kEnd else kBody) \<and> ps_recvbuf q = [] \<and> ps_headfields q = hs \<and>
        ps_body q = take (n - length hdr) body)"
proof -
  have h: "search (=) CRLFCRLF (hdr @ body) = Some (length hdr - 4)" "4 \<le> length hdr" "CHR 0x00 \<notin> set hdr"
    "length hdr \<le> 128 * 1024" "ParserHeaders hdr [] = hs" using ok by (auto simp: message_ok_def)
  have s: "string_strnstr (ps_recvbuf p) CRLFCRLF (length (ps_recvbuf p)) = (if length hdr \<le> n then Some (length hdr - 4) else None)"
  proof -
    have "length hdr - 4 + length CRLFCRLF = length hdr" using h(2) by simp
    then show ?thesis using strnstr_found [OF h(1), of n] h(3) unfolding buf(1) by (simp del: take_append length_take)
  qed
  show ?thesis
  proof (cases "n < length hdr")
    case True
    then have "parse_fields True p = Returned p" using s h(4) buf by (simp add: parse_fields_def)
    then show ?thesis using True p buf by (subst parse_loop_unfold) (simp add: parse_step_def)
  next
    case False
    let ?q = "p\<lparr>ps_headfields := hs, ps_recvstatus := kBody, ps_headerbuf := hb_write hdr (ps_headerbuf p),
      ps_recvbuf := take (n - length hdr) body, ps_headerlength := length hdr\<rparr>"
    have t: "take (length hdr) (take n (hdr @ body)) = hdr" "drop (length hdr) (take n (hdr @ body)) = take (n - length hdr) body"
      using False by (simp_all add: drop_take)
    have "parse_fields True p = Continues ?q"
      using s h False t by (simp add: parse_fields_def Let_def p(2) buf(1))
    then have "parse_loop True p = parse_loop True ?q" using p(1) by (subst parse_loop_unfold) (simp add: parse_step_def)
    moreover obtain q where "parse_loop True ?q = Some (Returned q)" "ps_recvbuf q = []" "ps_headfields q = hs"
      "ps_body q = take (n - length hdr) body" "parsed_line q = parsed_line ?q"
      "ps_recvstatus q = (if n - length hdr = length body then kEnd else kBody)"
    proof -
      have "n - length hdr \<le> length body" using buf(2) by simp
      then show ?thesis using that body_bytes [OF ok, of ?q 0 "n - length hdr"] p(3) by auto
    qed
    moreover have "(n - length hdr = length body) = (n = length (hdr @ body))" using False by auto
    ultimately show ?thesis using False by (auto simp: parsed_line_def)
  qed
qed

lemma first_bytes:
  assumes ok: "message_ok first hdr body hs" "line_is first l"
    and p: "ps_recvstatus p \<in> {kStart, kFirstLine}" "ps_headfields p = []" "ps_body p = []"
      "parsed_line p = (kRespond, StatusLine_new, RequestLine_new)"
    and buf: "ps_recvbuf p = take n (first @ KStringCRLF @ hdr @ body)" "n \<le> length (first @ KStringCRLF @ hdr @ body)"
  shows "\<exists>q. parse_loop True p = Some (Returned q) \<and> (0 < n \<longrightarrow> holds_bytes first hdr body hs l n q)"
proof -
  let ?w = "first @ KStringCRLF @ hdr @ body" and ?buf = "ps_recvbuf p" and ?f = "length first + 2"
  have f: "clean first" "length first < 8 * 1024" and h: "4 \<le> length hdr" "hd hdr \<noteq> CHR 0x0D"
    using ok(1) by (auto simp: message_ok_def)
  have len2: "length KStringCRLF = 2" by (simp add: KStringCRLF_def)
  have nn: "CHR 0x00 \<notin> set (first @ KStringCRLF)" using f(1) by (auto simp: clean_def KStringCRLF_def)
  have s: "string_strnstr ?buf KStringCRLF (length ?buf) = (if ?f \<le> n then Some (length first) else None)"
  proof -
    have "search (=) KStringCRLF ((first @ KStringCRLF) @ hdr @ body) = Some (length first)"
      using find_CRLF [OF f(1)] by simp
    moreover have "length first + length KStringCRLF \<le> length (first @ KStringCRLF)" by simp
    moreover have "KStringCRLF \<noteq> []" by (simp add: KStringCRLF_def)
    ultimately show ?thesis
      using strnstr_found [of KStringCRLF "first @ KStringCRLF" "hdr @ body" "length first" n] nn
      unfolding buf(1) append_assoc len2 by simp
  qed
  have step: "parse_step True p = parse_first True p" using p(1) by (auto simp: parse_step_def)
  show ?thesis
  proof (cases "n < ?f")
    case True
    then have "length ?buf \<le> 8 * 1024" using f(2) buf(1) by simp
    then have "parse_first True p = Returned (p\<lparr>ps_recvstatus := kFirstLine\<rparr>)" using s True by (simp add: parse_first_def)
    then show ?thesis
      using True p buf by (subst parse_loop_unfold) (simp add: step holds_bytes_def parsed_line_def Let_def)
  next
    case False
    let ?p1 = "p\<lparr>ps_csmode := fst l, ps_statusline := fst (snd l), ps_requestline := snd (snd l)\<rparr>"
    let ?p2 = "?p1\<lparr>ps_headerbuf := hb_write (first @ KStringCRLF) (ps_headerbuf p), ps_firstlinelength := ?f\<rparr>"
    let ?q = "?p2\<lparr>ps_recvstatus := kHeaderFields, ps_recvbuf := take (n - ?f) (hdr @ body)\<rparr>"
    have t: "take ?f ?buf = first @ KStringCRLF" "drop ?f ?buf = take (n - ?f) (hdr @ body)"
      using False buf(1) by (simp_all add: len2 drop_take)
    have line: "take_first_line (first @ KStringCRLF) p = (True, ?p1)"
      using ok(2) p(4) by (simp add: line_is_def parsed_line_def)
    have "string_strnstr ?buf CRLFCRLF (length ?buf) \<noteq> Some (length first)"
    proof
      assume "string_strnstr ?buf CRLFCRLF (length ?buf) = Some (length first)"
      then have a: "search (=) CRLFCRLF (cstr ?buf) = Some (length first)" by (simp add: string_strnstr_def)
      have "prefix (cstr ?buf) ?buf" by (metis cstr_take take_is_prefix)
      then obtain z where z: "?buf = cstr ?buf @ z" unfolding prefix_def by blast
      have "prefix CRLFCRLF (drop (length first) (cstr ?buf @ z))" using search_Some [OF a] by simp
      then have "prefix CRLFCRLF (drop (length first) ?buf)" using z by metis
      moreover have "drop (length first) ?buf = KStringCRLF @ take (n - ?f) (hdr @ body)"
      proof -
        obtain m where "n = length first + Suc (Suc m)" using False by (intro that [of "n - ?f"]) simp
        then show ?thesis unfolding buf(1) by (simp add: KStringCRLF_def)
      qed
      moreover obtain c r where "hdr = c # r" "c \<noteq> CHR 0x0D" using h by (cases hdr) auto
      ultimately show False by (cases "n - ?f") (auto simp: KStringCRLF_def)
    qed
    then have "parse_first True p = Continues ?q"
      using s False t line by (simp add: parse_first_def Let_def case_prod_beta)
    then have "parse_loop True p = parse_loop True ?q" by (subst parse_loop_unfold) (simp add: step)
    moreover obtain q where "parse_loop True ?q = Some (Returned q)" "parsed_line q = parsed_line ?q"
      "if n - ?f < length hdr then ps_recvstatus q = kHeaderFields \<and> ps_recvbuf q = take (n - ?f) (hdr @ body) \<and> ps_headfields q = [] \<and> ps_body q = []
       else ps_recvstatus q = (if n - ?f = length (hdr @ body) then kEnd else kBody) \<and> ps_recvbuf q = [] \<and> ps_headfields q = hs \<and>
         ps_body q = take (n - ?f - length hdr) body"
    proof -
      have le: "n - ?f \<le> length (hdr @ body)" using buf(2) by (simp add: len2)
      have b: "ps_recvbuf ?q = take (n - ?f) (hdr @ body)" by simp
      show ?thesis using that fields_bytes [OF ok(1), of ?q, OF _ _ _ b le] p(2,3) by auto
    qed
    ultimately show ?thesis
      using False by (auto simp: holds_bytes_def Let_def parsed_line_def len2 split: if_splits)
  qed
qed

text \<open>One call of \<open>Recv\<close>, and any sequence of them; a call that does not return normally ends the
  sequence.\<close>

fun feed :: "string list \<Rightarrow> Parser \<Rightarrow> parse_result option" where
  "feed [] p = Some (Returned p)"
| "feed (d # ds) p = (case Parser_Recv d p of Some (Returned q) \<Rightarrow> feed ds q | r \<Rightarrow> r)"

lemma holds_recv:
  assumes ok: "message_ok first hdr body hs" "line_is first l" and p: "holds_bytes first hdr body hs l k p"
    and d: "d \<noteq> []" "first @ KStringCRLF @ hdr @ body = take k (first @ KStringCRLF @ hdr @ body) @ d @ rest"
    and k: "k \<le> length (first @ KStringCRLF @ hdr @ body)"
  shows "\<exists>q. Parser_Recv d p = Some (Returned q) \<and> holds_bytes first hdr body hs l (k + length d) q"
proof -
  define w where "w = first @ KStringCRLF @ hdr @ body"
  let ?f = "length first + 2"
  let ?h = "?f + length hdr" and ?n = "k + length d"
  let ?p = "(keep_header d p)\<lparr>ps_recvbuf := ps_recvbuf p @ d\<rparr>"
  have d2: "w = take k w @ d @ rest" "k \<le> length w" using d(2) k by (simp_all only: w_def)
  have w: "length w = ?h + length body" by (simp add: KStringCRLF_def w_def)
  have d': "drop k w = d @ rest" using d2(1) by (metis append_take_drop_id same_append_eq)
  then have tk: "take ?n w = take k w @ d" by (simp add: take_add)
  have n: "?n \<le> length w" using arg_cong [OF d', of length] d2(2) d(1) by (cases d) simp_all
  have recv: "Parser_Recv d p = parse_loop True ?p" using d(1) by (simp add: Parser_Recv_def Let_def)
  have frame: "parsed_line ?p = parsed_line p" by (simp add: parsed_line_def)
  consider "k < ?f" | "?f \<le> k" "k < ?h" | "?h \<le> k" by linarith
  then show ?thesis
  proof cases
    case 1
    then show ?thesis
      using first_bytes [OF ok, of ?p ?n, folded w_def] p frame n tk d(1) recv by (simp add: holds_bytes_def w_def [symmetric] Let_def)
  next
    case 2
    have b: "ps_recvbuf ?p = take (?n - ?f) (hdr @ body)"
    proof -
      have "drop ?f (take ?n w) = drop ?f (take k w) @ d" using tk 2 d2(2) by simp
      moreover have "drop ?f w = hdr @ body" by (simp add: KStringCRLF_def w_def)
      ultimately show ?thesis using p 2 by (simp add: holds_bytes_def w_def [symmetric] Let_def drop_take)
    qed
    have le: "?n - ?f \<le> length (hdr @ body)" using n w by simp
    obtain q where "parse_loop True ?p = Some (Returned q)" "parsed_line q = parsed_line ?p"
      "if ?n - ?f < length hdr then ps_recvstatus q = kHeaderFields \<and> ps_recvbuf q = take (?n - ?f) (hdr @ body) \<and> ps_headfields q = [] \<and> ps_body q = []
       else ps_recvstatus q = (if ?n - ?f = length (hdr @ body) then kEnd else kBody) \<and> ps_recvbuf q = [] \<and> ps_headfields q = hs \<and>
         ps_body q = take (?n - ?f - length hdr) body"
      using fields_bytes [OF ok(1), of ?p, OF _ _ _ b le] p 2 by (auto simp: holds_bytes_def w_def [symmetric] Let_def)
    then show ?thesis
      using 2 p frame recv w by (intro exI [of _ q]) (auto simp: holds_bytes_def w_def [symmetric] Let_def split: if_splits)
  next
    case 3
    have lt: "k < length w" using n d(1) by (cases d) simp_all
    have b: "d = take (length d) (drop (k - ?h) body)"
    proof -
      have "w = (first @ KStringCRLF @ hdr) @ body" "length (first @ KStringCRLF @ hdr) = ?h"
        by (simp_all add: w_def KStringCRLF_def)
      then have "drop k w = drop (k - ?h) body" using 3 by (simp only: drop_append) simp
      then show ?thesis using d' by (metis append_eq_conv_conj)
    qed
    have le: "k - ?h + length d \<le> length body" using 3 n w by linarith
    obtain q where "parse_loop True ?p = Some (Returned q)" "ps_recvbuf q = []" "ps_headfields q = hs"
      "ps_body q = take (k - ?h + length d) body" "parsed_line q = parsed_line ?p"
      "ps_recvstatus q = (if k - ?h + length d = length body then kEnd else kBody)"
      using body_bytes [OF ok(1), of ?p "k - ?h" "length d"] p 3 lt w b le
      by (auto simp: holds_bytes_def w_def [symmetric] Let_def)
    then show ?thesis
      using 3 p frame recv w by (intro exI [of _ q]) (auto simp: holds_bytes_def w_def [symmetric] Let_def)
  qed
qed

lemma message_received:
  assumes "message_ok first hdr body hs" "line_is first l" "concat ds = first @ KStringCRLF @ hdr @ body" "[] \<notin> set ds"
  shows "\<exists>p. feed ds Parser_new = Some (Returned p) \<and> Parser_Success p \<and> parsed_line p = l \<and>
     ps_headfields p = hs \<and> ps_body p = body"
proof -
  define w where "w = first @ KStringCRLF @ hdr @ body"
  note recv = holds_recv [OF assms(1,2), folded w_def]
  have run: "\<exists>q. feed ds p = Some (Returned q) \<and> holds_bytes first hdr body hs l (length w) q"
    if "holds_bytes first hdr body hs l k p" "take k w @ concat ds = w" "k \<le> length w" "[] \<notin> set ds" for ds k p
    using that
  proof (induction ds arbitrary: k p)
    case Nil
    then have "k = length w" by (metis append.right_neutral concat.simps(1) length_take min_absorb2)
    then show ?case using Nil by simp
  next
    case (Cons d ds)
    have w: "w = take k w @ d @ concat ds" using Cons.prems(2) by simp
    obtain q where q: "Parser_Recv d p = Some (Returned q)" "holds_bytes first hdr body hs l (k + length d) q"
      using recv [OF Cons.prems(1) _ w Cons.prems(3)] Cons.prems(4) by auto
    have dr: "drop k w = d @ concat ds" using w by (metis append_take_drop_id same_append_eq)
    then have "take (k + length d) w = take k w @ d" by (simp add: take_add)
    moreover have "length w = k + length d + length (concat ds)"
      using arg_cong [OF dr, of length] Cons.prems(3,4) by (cases d) simp_all
    ultimately show ?case using Cons.IH [OF q(2)] Cons.prems(4) w q(1) by simp
  qed
  have "holds_bytes first hdr body hs l 0 Parser_new"
    by (simp add: holds_bytes_def Let_def Parser_new_def parsed_line_def)
  from run [OF this, of ds] obtain q where "feed ds Parser_new = Some (Returned q)" "holds_bytes first hdr body hs l (length w) q"
    using assms(3,4) by (auto simp: w_def)
  moreover have "length first + 2 + length hdr \<le> length w" by (simp add: KStringCRLF_def w_def)
  ultimately show ?thesis
    by (intro exI [of _ q]) (auto simp: holds_bytes_def Let_def Parser_Success_def KStringCRLF_def w_def)
qed

section \<open>What the builder writes is parsed back\<close>

text \<open>Numbers.\<close>

lemma print_int_digits: "print_int (int n) = rev (digits_rev False 10 n)"
  using itoa_digits_abs [of 10 False n] by (simp add: print_int_def string_cast_itoa_def)

lemma strtol_print: "n < 2 ^ 63 \<Longrightarrow> strtol 10 (print_int (int n)) = int n"
proof -
  assume n: "n < 2 ^ 63"
  let ?s = "print_int (int n)"
  have plain: "c \<in> set ?s \<Longrightarrow> \<not> is_space c \<and> c \<noteq> CHR 0x00" for c
    unfolding print_int_def by (rule itoa_plain)
  have digits: "set ?s \<subseteq> digit_char False ` {0..<10}"
    using digits_rev_digits [of 10 False n] by (simp add: print_int_digits)
  have "?s \<noteq> []" using itoa_chars [of "int n" False] by (simp add: print_int_def)
  then obtain c r where s: "?s = c # r" by (cases ?s) auto
  have c: "c \<noteq> CHR ''-''" "c \<noteq> CHR ''+''" "\<not> is_space c"
    using digits s plain digit_char_plain by (auto simp: s)
  have "takeWhile (\<lambda>c. digit_val c < 10) ?s = ?s" using digits by (rule takeWhile_digits) simp
  moreover have "digits_value 10 ?s = n" using digits_rev_value [of 10 False n] by (simp add: print_int_digits)
  moreover have "cstr ?s = ?s" using plain by (intro cstr_id) blast
  moreover have "(case ?s of c # x # h # r \<Rightarrow> ?s | _ \<Rightarrow> ?s) = ?s" by (simp split: list.splits)
  ultimately show ?thesis
    using n c s by (simp add: strtol_def Let_def)
qed

lemma print_int_clean: "clean (print_int v)" "CHR '' '' \<notin> set (print_int v)" "print_int v \<noteq> []"
  "Trim (print_int v) = print_int v"
proof -
  have plain: "c \<in> set (print_int v) \<Longrightarrow> \<not> is_space c \<and> c \<noteq> CHR 0x00" for c
    unfolding print_int_def by (rule itoa_plain)
  show "clean (print_int v)" using plain by (fastforce simp: clean_def is_space_def)
  show "CHR '' '' \<notin> set (print_int v)" using plain by (auto simp: is_space_def)
  show ne: "print_int v \<noteq> []" using itoa_chars [of v False] by (simp add: print_int_def)
  have dw: "dropWhile is_space s = s" if "\<forall>c \<in> set s. \<not> is_space c" for s using that by (cases s) auto
  show "Trim (print_int v) = print_int v"
    using plain dw [of "print_int v"] dw [of "rev (print_int v)"] by (simp add: Trim_both TrimLeft_def TrimRight_rev)
qed

text \<open>First lines.\<close>

lemma three_tokens:
  assumes "a \<noteq> []" "b \<noteq> []" "CHR '' '' \<notin> set a" "CHR '' '' \<notin> set b" "CHR '' '' \<notin> set c"
  shows "SplitToken (a @ KStringSpace @ b @ KStringSpace @ c) KStringSpace = (if c = [] then [a, b] else [a, b, c])"
proof -
  let ?d = "\<lambda>x. x = CHR '' ''"
  have ns: "\<forall>x \<in> set a. x \<noteq> CHR '' ''" "\<forall>x \<in> set b. x \<noteq> CHR '' ''" "\<forall>x \<in> set c. x \<noteq> CHR '' ''"
    using assms(3-5) by auto
  have "tokens ?d (a @ KStringSpace @ b @ KStringSpace @ c) = a # b # tokens ?d c"
    using assms ns tokens_step [of a ?d "KStringSpace @ b @ KStringSpace @ c"] tokens_step [of b ?d "KStringSpace @ c"]
      tokens_skip [of KStringSpace ?d] by (auto simp: KStringSpace_def)
  moreover have "tokens ?d c = (if c = [] then [] else [c])"
    using ns(3) tokens_step [of c ?d "[]"] by (auto simp: tokens.simps [of _ "[]"])
  moreover have "SplitToken s KStringSpace = tokens ?d s" for s
    using split_tokens_eq [of "Tokenizer_new s KStringSpace"] by (simp add: SplitToken_def Tokenizer_new_def KStringSpace_def)
  ultimately show ?thesis by simp
qed

lemma version_text:
  "GetHttpVersion (kHttpVersionString v) = v" "kHttpVersionString v \<noteq> []" "CHR '' '' \<notin> set (kHttpVersionString v)"
  "clean (kHttpVersionString v)" "v \<noteq> kVersion_Unknow \<Longrightarrow> prefix ''HTTP/'' (kHttpVersionString v)"
  by (cases v; simp add: GetHttpVersion_def cstr_def)+

lemma method_text:
  "get_method (kHttpMethodString m) = m" "kHttpMethodString m \<noteq> []" "CHR '' '' \<notin> set (kHttpMethodString m)"
  "clean (kHttpMethodString m)" "\<not> prefix ''HTTP/'' (kHttpMethodString m @ s)"
  by (cases m; simp add: get_method_def cstr_def)+

definition status_good :: "StatusLine \<Rightarrow> bool" where
  "status_good s \<longleftrightarrow> sl_version s \<noteq> kVersion_Unknow \<and> 0 \<le> sl_statuscode s \<and> sl_statuscode s < 2 ^ 31 \<and>
     clean (sl_reason_phrase s) \<and> CHR '' '' \<notin> set (sl_reason_phrase s)"

definition request_good :: "RequestLine \<Rightarrow> bool" where
  "request_good r \<longleftrightarrow> rq_method r \<noteq> kUnknown \<and> rq_version r \<noteq> kVersion_Unknow \<and>
     rq_url r \<noteq> [] \<and> clean (rq_url r) \<and> CHR '' '' \<notin> set (rq_url r)"

lemma status_back:
  assumes "status_good s" "sl_reason_phrase r = []"
  shows "StatusLine_FromString (StatusLine_ToString s) r = (True, s)"
proof -
  let ?v = "kHttpVersionString (sl_version s)" and ?c = "print_int (sl_statuscode s)" and ?p = "sl_reason_phrase s"
  have "clean (?v @ KStringSpace @ ?c @ KStringSpace @ ?p)"
    using assms by (simp add: status_good_def version_text print_int_clean KStringSpace_def)
  then have f: "str_find (StatusLine_ToString s) KStringCRLF = Some (length (?v @ KStringSpace @ ?c @ KStringSpace @ ?p))"
    using find_CRLF [of "?v @ KStringSpace @ ?c @ KStringSpace @ ?p" "[]"] by (simp add: str_find_def StatusLine_ToString_def)
  have t: "take (length (?v @ KStringSpace @ ?c @ KStringSpace @ ?p)) (StatusLine_ToString s) = ?v @ KStringSpace @ ?c @ KStringSpace @ ?p"
    by (simp add: StatusLine_ToString_def)
  have k: "SplitToken (?v @ KStringSpace @ ?c @ KStringSpace @ ?p) KStringSpace = (if ?p = [] then [?v, ?c] else [?v, ?c, ?p])"
    using assms by (intro three_tokens) (simp_all add: status_good_def version_text print_int_clean)
  have "nat (sl_statuscode s) < 2 ^ 63" using assms by (simp add: status_good_def nat_less_iff)
  then have "s32 (strtol 10 ?c) = sl_statuscode s"
    using strtol_print [of "nat (sl_statuscode s)"] assms by (simp add: status_good_def s32_id)
  then show ?thesis
    using assms unfolding StatusLine_FromString_def f option.case t k
    by (simp add: status_good_def version_text Let_def)
qed

lemma request_back:
  assumes "request_good q"
  shows "RequestLine_FromString (RequestLine_ToString q) r = (True, q)"
proof -
  let ?m = "kHttpMethodString (rq_method q)" and ?u = "rq_url q" and ?v = "kHttpVersionString (rq_version q)"
  have "clean (?m @ KStringSpace @ ?u @ KStringSpace @ ?v)"
    using assms by (simp add: request_good_def version_text method_text KStringSpace_def)
  then have f: "str_find (RequestLine_ToString q) KStringCRLF = Some (length (?m @ KStringSpace @ ?u @ KStringSpace @ ?v))"
    using find_CRLF [of "?m @ KStringSpace @ ?u @ KStringSpace @ ?v" "[]"] by (simp add: str_find_def RequestLine_ToString_def)
  have t: "take (length (?m @ KStringSpace @ ?u @ KStringSpace @ ?v)) (RequestLine_ToString q) = ?m @ KStringSpace @ ?u @ KStringSpace @ ?v"
    by (simp add: RequestLine_ToString_def)
  have k: "SplitToken (?m @ KStringSpace @ ?u @ KStringSpace @ ?v) KStringSpace = [?m, ?u, ?v]"
    using assms three_tokens [of ?m ?u ?v] by (simp add: request_good_def version_text method_text)
  show ?thesis
    using assms unfolding RequestLine_FromString_def f option.case t k
    by (simp add: request_good_def version_text method_text Let_def)
qed

lemma StartsWith_prefix: "StartsWith s p \<longleftrightarrow> prefix p s"
  by (cases s) (auto simp: StartsWith_def str_find_def search_Nil search_Cons)

lemma line_is_status:
  assumes "status_good s" "StatusLine_ToString s = first @ KStringCRLF"
  shows "line_is first (kRespond, s, RequestLine_new)"
proof -
  have "prefix ''HTTP/'' (StatusLine_ToString s)"
    using assms(1) version_text(5) by (simp add: StatusLine_ToString_def status_good_def)
  then show ?thesis
    using status_back [OF assms(1)] assms(2)
    by (auto simp: line_is_def take_first_line_def StartsWith_prefix StatusLine_new_def)
qed

lemma line_is_request:
  assumes "request_good q" "RequestLine_ToString q = first @ KStringCRLF"
  shows "line_is first (kRequest, StatusLine_new, q)"
proof -
  have "\<not> prefix ''HTTP/'' (RequestLine_ToString q)" by (simp add: RequestLine_ToString_def method_text)
  then show ?thesis
    using request_back [OF assms(1)] assms(2) by (auto simp: line_is_def take_first_line_def StartsWith_prefix)
qed

text \<open>Header fields.\<close>

lemma hless_asym: "hless x y \<Longrightarrow> \<not> hless y x"
  by (simp add: hless_def)

lemma hless_trans: "hless x y \<Longrightarrow> hless y z \<Longrightarrow> hless x z"
  unfolding hless_def by (rule less_trans)

definition hsorted :: "HeaderFields \<Rightarrow> bool" where
  "hsorted hs \<longleftrightarrow> sorted_wrt (\<lambda>p q. hless (fst p) (fst q)) hs"

lemma hinsert_last: "\<forall>p \<in> set hs. hless (fst p) n \<Longrightarrow> hinsert n v hs = hs @ [(n, v)]"
  by (induction n v hs rule: hinsert.induct) (auto dest: hless_asym)

lemma set_hinsert: "set (hinsert n v hs) \<subseteq> insert (n, v) (set hs)"
  by (induction n v hs rule: hinsert.induct) auto

lemma hsorted_hinsert: "hsorted hs \<Longrightarrow> hsorted (hinsert n v hs)"
proof (induction n v hs rule: hinsert.induct)
  case (2 n v n' v' hs)
  then show ?case using set_hinsert [of n v hs] by (auto simp: hsorted_def dest: hless_trans)
qed (simp add: hsorted_def)

lemma fold_hinsert:
  "hsorted (acc @ hs) \<Longrightarrow> fold (\<lambda>(n, v). hinsert n v) hs acc = acc @ hs"
proof (induction hs arbitrary: acc)
  case (Cons p hs)
  then have "hinsert (fst p) (snd p) acc = acc @ [p]"
    using hinsert_last [of acc "fst p" "snd p"] by (auto simp: hsorted_def sorted_wrt_append)
  then show ?case using Cons.IH [of "acc @ [p]"] Cons.prems by (simp add: case_prod_beta)
qed simp

text \<open>Looking up a field after an insertion.\<close>

definition hkey :: "string \<Rightarrow> string" where
  "hkey x = ToLower (cstr x)"

lemma hless_key: "hless x y \<longleftrightarrow> hkey x < hkey y"
  by (simp add: hless_def hkey_def)

lemma hfind_key: "hfind n hs = find (\<lambda>p. hkey (fst p) = hkey n) hs"
proof -
  have "(\<not> hkey n < hkey x \<and> \<not> hkey x < hkey n) = (hkey x = hkey n)" for x by auto
  then show ?thesis by (simp add: hfind_def hless_key)
qed

lemma hfind_hinsert:
  "hsorted hs \<Longrightarrow> hfind m (hinsert n v hs) =
     (if hkey m = hkey n then (case hfind m hs of None \<Rightarrow> Some (n, v) | r \<Rightarrow> r) else hfind m hs)"
proof (induction n v hs rule: hinsert.induct)
  case (2 n v n' v' hs)
  have "find (\<lambda>p. hkey (fst p) = hkey m) hs = None" if "hkey m = hkey n" "hkey n < hkey n'"
    using that 2(2) by (auto simp: find_None_iff hsorted_def hless_key)
  then show ?case
    using 2 by (auto simp: hfind_key hless_key hsorted_def split: option.splits)
qed (simp add: hfind_key)

lemma parse_fields_text:
  "\<forall>l \<in> set ls. clean l \<Longrightarrow> ParserHeaders (lines_text ls @ KStringCRLF) hs = fold parse_field ls hs"
proof (induction ls arbitrary: hs)
  case Nil
  have "str_find KStringCRLF KStringCRLF = Some 0" "str_find [] KStringCRLF = None"
    by (simp_all add: str_find_def KStringCRLF_def search_Cons search_Nil)
  then show ?case
    by (subst ParserHeaders.simps) (simp add: lines_text_def ParserHeaders.simps [of "[]"] parse_field_def KStringCRLF_def)
next
  case (Cons l ls)
  then have "str_find (l @ KStringCRLF @ lines_text ls @ KStringCRLF) KStringCRLF = Some (length l)"
    using find_CRLF [of l "lines_text ls @ KStringCRLF"] by (simp add: str_find_def)
  moreover have "drop (Suc (Suc (length l))) (l @ KStringCRLF @ lines_text ls @ KStringCRLF) = lines_text ls @ KStringCRLF"
    by (simp add: KStringCRLF_def)
  ultimately show ?case
    using Cons by (subst ParserHeaders.simps) (simp add: lines_text_def)
qed

definition field_good :: "string \<times> string \<Rightarrow> bool" where
  "field_good p \<longleftrightarrow> clean (fst p) \<and> fst p \<noteq> [] \<and> CHR '':'' \<notin> set (fst p) \<and> Trim (fst p) = fst p \<and>
     clean (snd p) \<and> Trim (snd p) = snd p"

definition field_text :: "string \<times> string \<Rightarrow> string" where
  "field_text p = fst p @ KStringColon @ KStringSpace @ snd p"

lemma ToString_lines: "HeaderFields_ToString hs = lines_text (map field_text hs)"
  by (induction hs) (simp_all add: HeaderFields_ToString_def lines_text_def field_line_def field_text_def)

lemma parse_field_text:
  assumes "field_good p"
  shows "parse_field (field_text p) hs = hinsert (fst p) (snd p) hs"
proof -
  have tw: "takeWhile (\<lambda>c. c \<noteq> CHR '':'') (field_text p) = fst p"
    using assms by (auto simp: field_good_def field_text_def KStringColon_def takeWhile_append takeWhile_eq_all_conv)
  then have f: "find_first (\<lambda>c. c = CHR '':'') (field_text p) 0 = Some (length (fst p))"
    by (simp add: find_first_def Let_def) (simp add: field_text_def KStringColon_def)
  have r: "take (length (fst p)) (field_text p) = fst p" "drop (length (fst p) + 1) (field_text p) = CHR '' '' # snd p"
    by (simp_all add: field_text_def KStringColon_def KStringSpace_def)
  have "Trim (CHR '' '' # snd p) = snd p"
    using assms by (simp add: field_good_def Trim_def is_space_def)
  moreover have "\<not> (\<forall>c \<in> set (field_text p). c = CHR '':'')"
    using assms by (cases "fst p") (auto simp: field_good_def field_text_def)
  ultimately show ?thesis
    using assms f r unfolding parse_field_def by (auto simp: HeaderFiled_def field_good_def)
qed

lemma fields_back:
  assumes "hsorted hs" "\<forall>p \<in> set hs. field_good p"
  shows "ParserHeaders (HeaderFields_ToString hs @ KStringCRLF) [] = hs"
proof -
  have "fold parse_field (map field_text hs) acc = fold (\<lambda>(n, v). hinsert n v) hs acc" for acc
    using assms(2) by (induction hs arbitrary: acc) (simp_all add: parse_field_text case_prod_beta)
  moreover have "\<forall>l \<in> set (map field_text hs). clean l"
    using assms(2) by (auto simp: field_good_def field_text_def KStringColon_def KStringSpace_def)
  ultimately show ?thesis
    using parse_fields_text [of "map field_text hs" "[]"] fold_hinsert [of "[]" hs] assms(1) by (simp add: ToString_lines)
qed

section \<open>Properties\<close>

lemma lines_text_nonempty: "ls \<noteq> [] \<Longrightarrow> 2 \<le> length (lines_text ls)"
  by (cases ls) (simp_all add: lines_text_def KStringCRLF_def)

lemma built_ok:
  assumes "clean first" "length first < 8 * 1024" "hsorted hs" "\<forall>p \<in> set hs. field_good p" "hs \<noteq> []"
    and "length (HeaderFields_ToString hs) + 2 \<le> 128 * 1024"
    and "\<not> IsTransferEncodingChunked hs" "ContentLength hs = int (length body)"
  shows "message_ok first (HeaderFields_ToString hs @ KStringCRLF) body hs"
proof -
  let ?ls = "map field_text hs" and ?hdr = "HeaderFields_ToString hs @ KStringCRLF"
  have ls: "\<forall>l \<in> set ?ls. clean l \<and> l \<noteq> []"
    using assms(4) by (auto simp: field_good_def field_text_def KStringColon_def KStringSpace_def)
  have "search (=) CRLFCRLF (?hdr @ r) = Some (length ?hdr - 4)" for r
    using find_CRLFCRLF [OF ls, of r] assms(5) lines_text_nonempty [of ?ls]
    by (simp add: ToString_lines) (simp add: KStringCRLF_def)
  moreover have "CHR 0x00 \<notin> set ?hdr"
    using ls by (auto simp: ToString_lines lines_text_def KStringCRLF_def clean_def)
  moreover have "hd ?hdr \<noteq> CHR 0x0D"
  proof -
    obtain l r where l: "?ls = l # r" using assms(5) by (cases ?ls) auto
    then obtain c t where "l = c # t" "c \<noteq> CHR 0x0D" using ls by (cases l) auto
    then show ?thesis by (simp add: ToString_lines l lines_text_def)
  qed
  moreover have "4 \<le> length ?hdr"
    using assms(5) lines_text_nonempty [of ?ls] by (simp add: ToString_lines) (simp add: KStringCRLF_def)
  moreover have "length ?hdr \<le> 128 * 1024" using assms(6) by (simp add: KStringCRLF_def)
  ultimately show ?thesis
    using assms fields_back [OF assms(3,4)] by (simp add: message_ok_def)
qed

definition builder_good :: "Builder \<Rightarrow> bool" where
  "builder_good b \<longleftrightarrow>
     hsorted (bd_headfields b) \<and> (\<forall>p \<in> set (bd_headfields b). field_good p) \<and>
     hfind KStringContentLength (bd_headfields b) = None \<and> \<not> IsTransferEncodingChunked (bd_headfields b) \<and>
     (case bd_csmode b of kRequest \<Rightarrow> request_good (bd_requestline b) | kRespond \<Rightarrow> status_good (bd_statusline b))"

definition first_text :: "Builder \<Rightarrow> string" where
  "first_text b = (case bd_csmode b of kRequest \<Rightarrow> RequestLine_ToString (bd_requestline b)
                                     | kRespond \<Rightarrow> StatusLine_ToString (bd_statusline b))"

lemma header_written:
  "first_text b \<noteq> [] \<Longrightarrow> HeaderFields_ToString (bd_headfields b) \<noteq> [] \<Longrightarrow>
   HeaderToBuffer b h = (True, h @ first_text b @ HeaderFields_ToString (bd_headfields b) @ KStringCRLF)"
  by (simp add: HeaderToBuffer_def first_text_def Let_def)

lemma add_field_frame [simp]:
  "bd_headfields (add_field f b) = hinsert (fst f) (snd f) (bd_headfields b)"
  "first_text (add_field f b) = first_text b"
  by (simp_all add: first_text_def add_field_def split: TCsMode.split)

lemma first_line_good:
  assumes "case bd_csmode b of kRequest \<Rightarrow> request_good (bd_requestline b) | kRespond \<Rightarrow> status_good (bd_statusline b)"
  obtains first where "first_text b = first @ KStringCRLF" "clean first"
    "line_is first (bd_csmode b, (case bd_csmode b of kRequest \<Rightarrow> StatusLine_new | kRespond \<Rightarrow> bd_statusline b),
       (case bd_csmode b of kRequest \<Rightarrow> bd_requestline b | kRespond \<Rightarrow> RequestLine_new))"
proof (cases "bd_csmode b")
  case kRequest
  let ?r = "bd_requestline b"
  let ?f = "kHttpMethodString (rq_method ?r) @ KStringSpace @ rq_url ?r @ KStringSpace @ kHttpVersionString (rq_version ?r)"
  have "RequestLine_ToString ?r = ?f @ KStringCRLF" by (simp add: RequestLine_ToString_def)
  moreover have "clean ?f" using assms kRequest by (simp add: request_good_def method_text version_text KStringSpace_def)
  ultimately show ?thesis
    using that [of ?f] kRequest assms line_is_request [of ?r ?f] by (simp add: first_text_def)
next
  case kRespond
  let ?r = "bd_statusline b"
  let ?f = "kHttpVersionString (sl_version ?r) @ KStringSpace @ print_int (sl_statuscode ?r) @ KStringSpace @ sl_reason_phrase ?r"
  have "StatusLine_ToString ?r = ?f @ KStringCRLF" by (simp add: StatusLine_ToString_def)
  moreover have "clean ?f" using assms kRespond by (simp add: status_good_def print_int_clean version_text KStringSpace_def)
  ultimately show ?thesis
    using that [of ?f] kRespond assms line_is_status [of ?r ?f] by (simp add: first_text_def)
qed

text \<open>What the builder writes is a well-formed message.\<close>

lemma written_message:
  assumes "builder_good b" "bd_blockbody b = Some body" "body \<noteq> []" "length body < 2 ^ 31"
    and "HttpToBuffer b [] = (True, wire, b')"
    and "length (first_text b) \<le> 8 * 1024" "length (HeaderFields_ToString (bd_headfields b')) + 2 \<le> 128 * 1024"
  obtains first hdr where "wire = first @ KStringCRLF @ hdr @ body" "message_ok first hdr body (bd_headfields b')"
    "line_is first (bd_csmode b, (case bd_csmode b of kRequest \<Rightarrow> StatusLine_new | kRespond \<Rightarrow> bd_statusline b),
       (case bd_csmode b of kRequest \<Rightarrow> bd_requestline b | kRespond \<Rightarrow> RequestLine_new))"
proof -
  let ?cl = "print_int (int (length body))"
  let ?hs = "hinsert KStringContentLength ?cl (bd_headfields b)"
  obtain first where first: "first_text b = first @ KStringCRLF" "clean first"
    and line: "line_is first (bd_csmode b, (case bd_csmode b of kRequest \<Rightarrow> StatusLine_new | kRespond \<Rightarrow> bd_statusline b),
       (case bd_csmode b of kRequest \<Rightarrow> bd_requestline b | kRespond \<Rightarrow> RequestLine_new))"
    using assms(1) by (auto simp: builder_good_def intro: first_line_good)
  have b: "hsorted (bd_headfields b)" "\<forall>p \<in> set (bd_headfields b). field_good p"
    "hfind KStringContentLength (bd_headfields b) = None" "\<not> IsTransferEncodingChunked (bd_headfields b)"
    using assms(1) by (auto simp: builder_good_def)
  have keys: "hkey KStringTransferEncoding \<noteq> hkey KStringContentLength"
    by (simp add: hkey_def cstr_def KStringTransferEncoding_def KStringContentLength_def ToLower_def to_lower_def char_code_def)
  have "field_good (KStringContentLength, ?cl)"
    by (simp add: field_good_def print_int_clean)
      (simp add: KStringContentLength_def Trim_def is_space_def)
  then have good: "hsorted ?hs" "\<forall>p \<in> set ?hs. field_good p"
    using b(1,2) set_hinsert [of KStringContentLength ?cl "bd_headfields b"] by (auto simp: hsorted_hinsert)
  have found: "hfind KStringContentLength ?hs = Some (KStringContentLength, ?cl)"
    using b(1,3) by (simp add: hfind_hinsert)
  then have ne: "?hs \<noteq> []" by (auto simp: hfind_def)
  have chunked: "\<not> IsTransferEncodingChunked ?hs"
    using b(1,4) keys by (simp add: IsTransferEncodingChunked_def HeaderField_def hfind_hinsert)
  have "ContentLength ?hs = int (length body)"
    using found strtol_print [of "length body"] assms(4)
    by (simp add: ContentLength_def HeaderField_def print_int_clean s32_id)
  moreover have w: "wire = first @ KStringCRLF @ (HeaderFields_ToString ?hs @ KStringCRLF) @ body" "bd_headfields b' = ?hs"
  proof -
    have "HeaderFields_ToString ?hs \<noteq> []"
      using ne lines_text_nonempty [of "map field_text ?hs"] by (auto simp: ToString_lines)
    moreover have "first_text b \<noteq> []" using first(1) by (simp add: KStringCRLF_def)
    ultimately have "HeaderToBuffer (add_field (KStringContentLength, ?cl) b) [] =
        (True, first_text b @ HeaderFields_ToString ?hs @ KStringCRLF)"
      using header_written [of "add_field (KStringContentLength, ?cl) b" "[]"] by simp
    then have "HttpToBuffer b [] = (True, wire, b')" "wire = first_text b @ (HeaderFields_ToString ?hs @ KStringCRLF) @ body"
      "bd_headfields b' = ?hs"
      using assms(2-5) by (simp_all add: HttpToBuffer_def Let_def MakeContentLength_def s32_id BufferBody_FillData_def)
        auto
    then show "wire = first @ KStringCRLF @ (HeaderFields_ToString ?hs @ KStringCRLF) @ body" "bd_headfields b' = ?hs"
      using first(1) by simp_all
  qed
  ultimately have "message_ok first (HeaderFields_ToString ?hs @ KStringCRLF) body ?hs"
    using first good ne chunked assms(6,7) by (intro built_ok) (simp_all add: KStringCRLF_def)
  then show ?thesis using that [OF _ _ line] w by simp
qed

text \<open>C24. Messages survive the wire. What \<open>Builder::HttpToBuffer\<close> writes for a request or a response
  with a block body is parsed back by \<open>Parser::Recv\<close>, in whatever non-empty pieces it arrives: the
  parser never leaves its buffer, ends successfully after the last byte, and holds the same first line,
  the same header fields and the same body, byte by byte. The fields are trimmed and without line
  breaks, colons in names and zero bytes, no transfer coding is set and the reason is one word or empty.\<close>

theorem http_message_roundtrip:
  assumes "builder_good b" "bd_blockbody b = Some body" "body \<noteq> []" "length body < 2 ^ 31"
    and "HttpToBuffer b [] = (True, wire, b')" "concat ds = wire" "[] \<notin> set ds"
    and "length (first_text b) \<le> 8 * 1024" "length (HeaderFields_ToString (bd_headfields b')) + 2 \<le> 128 * 1024"
  shows "\<exists>p. feed ds Parser_new = Some (Returned p) \<and> Parser_Success p \<and> ps_body p = body \<and>
     ps_headfields p = bd_headfields b' \<and> ps_csmode p = bd_csmode b \<and>
     (case bd_csmode b of kRequest \<Rightarrow> ps_requestline p = bd_requestline b
                        | kRespond \<Rightarrow> ps_statusline p = bd_statusline b)"
proof -
  obtain first hdr where w: "wire = first @ KStringCRLF @ hdr @ body" "message_ok first hdr body (bd_headfields b')"
    "line_is first (bd_csmode b, (case bd_csmode b of kRequest \<Rightarrow> StatusLine_new | kRespond \<Rightarrow> bd_statusline b),
       (case bd_csmode b of kRequest \<Rightarrow> bd_requestline b | kRespond \<Rightarrow> RequestLine_new))"
    using written_message [OF assms(1-5,8,9)] .
  from message_received [OF w(2,3)] assms(6,7) w(1) show ?thesis
    by (cases "bd_csmode b") (auto simp: parsed_line_def)
qed

theorem http_message_roundtrip_witness:
  "\<exists>p. feed [''HTTP/1.1 20'', ''0 OK'' @ [CHR 0x0D], CHR 0x0A # ''Content-Length: 2'' @ KStringCRLF @ ''Host: a'' @ KStringCRLF,
            KStringCRLF @ ''h'', ''i''] Parser_new = Some (Returned p) \<and>
     Parser_Success p \<and> ps_body p = ''hi'' \<and> sl_statuscode (ps_statusline p) = 200"
proof -
  let ?ds = "[''HTTP/1.1 20'', ''0 OK'' @ [CHR 0x0D], CHR 0x0A # ''Content-Length: 2'' @ KStringCRLF @ ''Host: a'' @ KStringCRLF,
            KStringCRLF @ ''h'', ''i'']"
  let ?b = "\<lparr>bd_csmode = kRespond, bd_statusline = \<lparr>sl_version = kVersion_1_1, sl_statuscode = 200, sl_reason_phrase = ''OK''\<rparr>,
     bd_requestline = RequestLine_new, bd_headfields = [(''Host'', ''a'')], bd_blockbody = Some ''hi'', bd_streambody = None\<rparr>"
  let ?b' = "?b\<lparr>bd_headfields := [(KStringContentLength, ''2''), (''Host'', ''a'')], bd_blockbody := Some []\<rparr>"
  have "builder_good ?b" by code_simp
  moreover have "HttpToBuffer ?b [] = (True, concat ?ds, ?b')" by code_simp
  moreover have "length (first_text ?b) \<le> 8 * 1024" "length (HeaderFields_ToString (bd_headfields ?b')) + 2 \<le> 128 * 1024"
    by (simp_all add: first_text_def StatusLine_ToString_def HeaderFields_ToString_def field_line_def KStringContentLength_def
        KStringColon_def KStringSpace_def KStringCRLF_def) code_simp
  moreover have "[] \<notin> set ?ds" by (simp add: KStringCRLF_def)
  ultimately show ?thesis
    using http_message_roundtrip [of ?b "''hi''" "concat ?ds" ?b' ?ds] by auto
qed

text \<open>A response that announces a negative length makes the parser append bytes from behind its
  buffer: every call of \<open>Recv\<close> with the body in front does, whatever has arrived.\<close>

theorem http_negative_length:
  assumes "ps_recvstatus p = kBody" "\<not> IsTransferEncodingChunked (ps_headfields p)"
    and "ContentLength (ps_headfields p) < 0" "d \<noteq> []"
  shows "Parser_Recv d p = Some (Overruns ((keep_header d p)\<lparr>ps_recvbuf := ps_recvbuf p @ d\<rparr>))"
proof -
  let ?p = "(keep_header d p)\<lparr>ps_recvbuf := ps_recvbuf p @ d\<rparr>"
  have "parse_step True ?p = Overruns ?p"
    using assms by (simp add: parse_step_def parse_plain_def Let_def)
  then show ?thesis
    using assms by (simp add: Parser_Recv_def Let_def parse_loop_unfold [of True ?p])
qed

theorem http_negative_length_witness:
  "\<exists>q. Parser_Recv ''a'' (Parser_new\<lparr>ps_recvstatus := kBody,
     ps_headfields := ParserHeaders (''Content-Length: -1'' @ CRLFCRLF) []\<rparr>) = Some (Overruns q)"
  by (intro exI, rule http_negative_length) code_simp+

text \<open>The last chunk: with no zero byte behind its size line the length of what follows is counted
  behind the received bytes, whether the line break that ends the trailers is there or not.\<close>

lemma last_chunk_overreads:
  assumes "ps_recvstatus p = kBody" "IsTransferEncodingChunked (ps_headfields p)" "d \<noteq> []"
    and buf: "ps_recvbuf p @ d = ''0'' @ KStringCRLF @ r" "2 \<le> length r" "CHR 0x00 \<notin> set r"
  shows "\<exists>q. Parser_Recv d p = Some (Overruns q)"
proof -
  let ?p = "(keep_header d p)\<lparr>ps_recvbuf := ps_recvbuf p @ d\<rparr>"
  have "CHR 0x00 \<notin> set (''0'' @ KStringCRLF @ r)" using buf(3) by (simp add: KStringCRLF_def)
  then have "string_strnstr (''0'' @ KStringCRLF @ r) KStringCRLF (length (''0'' @ KStringCRLF @ r)) = Some 1"
    using find_CRLF [of "''0''" r] cstr_id by (simp add: string_strnstr_def KStringCRLF_def)
  moreover have "strtol 16 (Trim ''0'') = 0" by code_simp
  ultimately have "parse_chunk True ?p = Overruns ?p"
    using buf by (simp add: parse_chunk_def Let_def KStringCRLF_def)
  then have "parse_step True ?p = Overruns ?p" using assms(1,2) by (simp add: parse_step_def)
  then show ?thesis using assms(3) by (simp add: Parser_Recv_def Let_def parse_loop_unfold [of True ?p])
qed

text \<open>A status line that no field follows.\<close>

lemma bare_line_step:
  assumes f: "clean first" "length first < 8 * 1024" and l: "line_is first l"
    and p: "ps_recvstatus p = kStart" "ps_recvbuf p = first @ KStringCRLF @ r"
      "parsed_line p = (kRespond, StatusLine_new, RequestLine_new)" and r: "r = [] \<or> r = KStringCRLF"
  shows "\<exists>q. parse_step True p = Continues q \<and> parsed_line q = l \<and> ps_headfields q = ps_headfields p \<and>
     ps_body q = ps_body p \<and> ps_recvbuf q = [] \<and> ps_recvstatus q = (if r = [] then kHeaderFields else kBody)"
proof -
  let ?buf = "first @ KStringCRLF @ r"
  have nn: "CHR 0x00 \<notin> set ?buf" using f(1) r by (auto simp: clean_def KStringCRLF_def)
  have one: "string_strnstr ?buf KStringCRLF (length ?buf) = Some (length first)"
    using find_CRLF [OF f(1), of r] cstr_id [OF nn] by (simp add: string_strnstr_def) (simp add: KStringCRLF_def)
  have "search (=) CRLFCRLF ?buf = (if r = [] then None else Some (length first))"
    using f(1) r by (auto simp: KStringCRLF_def search_CR search_Cons search_Nil)
  then have two: "string_strnstr ?buf CRLFCRLF (length ?buf) = (if r = [] then None else Some (length first))"
    using cstr_id [OF nn] by (simp add: string_strnstr_def)
  have t: "take (length first + 2) ?buf = first @ KStringCRLF" "drop (length first + 2) ?buf = r"
    "r \<noteq> [] \<Longrightarrow> drop (length first + 4) ?buf = []"
    using r by (auto simp: KStringCRLF_def)
  have line: "take_first_line (first @ KStringCRLF) p =
      (True, p\<lparr>ps_csmode := fst l, ps_statusline := fst (snd l), ps_requestline := snd (snd l)\<rparr>)"
    using l p(3) by (simp add: line_is_def parsed_line_def)
  show ?thesis
    using p(1,2) one two t line by (simp add: parse_step_def parse_first_def Let_def parsed_line_def)
qed

text \<open>The answer depends on where a response without fields is cut. In one piece it is complete with
  its empty line; cut between the two line breaks, the parser waits for fields and, after the whole
  response, neither succeeds nor fails.\<close>

theorem http_bare_line_cut:
  assumes "clean first" "length first < 8 * 1024" "line_is first l"
  shows "(\<exists>q. feed [first @ KStringCRLF @ KStringCRLF] Parser_new = Some (Returned q) \<and>
            Parser_Success q \<and> parsed_line q = l \<and> ps_body q = []) \<and>
         (\<exists>q. feed [first @ KStringCRLF, KStringCRLF] Parser_new = Some (Returned q) \<and>
            \<not> Parser_Success q \<and> \<not> Parser_Error q \<and> parsed_line q = l)"
proof
  let ?p = "\<lambda>d. (keep_header d Parser_new)\<lparr>ps_recvbuf := d\<rparr>"
  have ne: "first @ KStringCRLF @ r \<noteq> []" for r by (simp add: KStringCRLF_def)
  have recv: "Parser_Recv d Parser_new = parse_loop True (?p d)" if "d \<noteq> []" for d
    using that by (simp add: Parser_Recv_def Let_def) (simp add: Parser_new_def)
  have new: "ps_recvstatus (?p d) = kStart" "ps_recvbuf (?p d) = d" "ps_headfields (?p d) = []" "ps_body (?p d) = []"
    "parsed_line (?p d) = (kRespond, StatusLine_new, RequestLine_new)" for d
    by (simp_all add: parsed_line_def) (simp_all add: Parser_new_def)
  note step = bare_line_step [OF assms new(1,2,5), unfolded new]
  obtain q where q: "parse_step True (?p (first @ KStringCRLF @ KStringCRLF)) = Continues q" "parsed_line q = l"
    "ps_headfields q = []" "ps_body q = []" "ps_recvbuf q = []" "ps_recvstatus q = kBody"
    using step [of KStringCRLF] by (auto simp: KStringCRLF_def)
  have "parse_step True q = Returned (q\<lparr>ps_recvstatus := kEnd\<rparr>)"
    using q by (simp add: parse_step_def parse_plain_def IsTransferEncodingChunked_def IsConnectionClose_def
        ContentLength_def HeaderField_def hfind_def Let_def)
  then have "feed [first @ KStringCRLF @ KStringCRLF] Parser_new = Some (Returned (q\<lparr>ps_recvstatus := kEnd\<rparr>))"
    using recv [OF ne] parse_loop_unfold [of True "?p (first @ KStringCRLF @ KStringCRLF)"] parse_loop_unfold [of True q] q(1) by simp
  then show "\<exists>q. feed [first @ KStringCRLF @ KStringCRLF] Parser_new = Some (Returned q) \<and>
            Parser_Success q \<and> parsed_line q = l \<and> ps_body q = []"
    using q by (auto simp: Parser_Success_def parsed_line_def)
  obtain r where r: "parse_step True (?p (first @ KStringCRLF)) = Continues r" "parsed_line r = l"
    "ps_headfields r = []" "ps_recvbuf r = []" "ps_recvstatus r = kHeaderFields"
    using step [of "[]"] by auto
  have wait: "parse_step True s = Returned s" if "ps_recvstatus s = kHeaderFields" "ps_recvbuf s = [] \<or> ps_recvbuf s = KStringCRLF" for s
    using that by (auto simp: parse_step_def parse_fields_def string_strnstr_def cstr_def search_Nil search_Cons KStringCRLF_def)
  let ?s = "(keep_header KStringCRLF r)\<lparr>ps_recvbuf := KStringCRLF\<rparr>"
  have "Parser_Recv (first @ KStringCRLF) Parser_new = Some (Returned r)"
    using recv ne [of "[]"] parse_loop_unfold [of True "?p (first @ KStringCRLF)"] parse_loop_unfold [of True r] r wait [of r] by simp
  moreover have "Parser_Recv KStringCRLF r = Some (Returned ?s)"
    using r wait [of ?s] parse_loop_unfold [of True ?s] by (simp add: Parser_Recv_def Let_def) (simp add: KStringCRLF_def)
  ultimately show "\<exists>q. feed [first @ KStringCRLF, KStringCRLF] Parser_new = Some (Returned q) \<and>
            \<not> Parser_Success q \<and> \<not> Parser_Error q \<and> parsed_line q = l"
    using r by (intro exI [of _ ?s]) (simp add: Parser_Success_def Parser_Error_def parsed_line_def)
qed
theorem http_bare_line_cut_witness:
  "\<exists>q. feed [''HTTP/1.1 304 Unmodified'' @ KStringCRLF, KStringCRLF] Parser_new = Some (Returned q) \<and>
     \<not> Parser_Success q \<and> \<not> Parser_Error q \<and> sl_statuscode (ps_statusline q) = 304"
proof -
  let ?s = "\<lparr>sl_version = kVersion_1_1, sl_statuscode = 304, sl_reason_phrase = ''Unmodified''\<rparr>"
  have "status_good ?s" by code_simp
  moreover have "StatusLine_ToString ?s = ''HTTP/1.1 304 Unmodified'' @ KStringCRLF" by code_simp
  ultimately have l: "line_is ''HTTP/1.1 304 Unmodified'' (kRespond, ?s, RequestLine_new)"
    by (rule line_is_status)
  have "clean ''HTTP/1.1 304 Unmodified''" "length ''HTTP/1.1 304 Unmodified'' < 8 * 1024" by simp_all
  from http_bare_line_cut [OF this l] obtain q where
    "feed [''HTTP/1.1 304 Unmodified'' @ KStringCRLF, KStringCRLF] Parser_new = Some (Returned q)"
    "\<not> Parser_Success q" "\<not> Parser_Error q" "parsed_line q = (kRespond, ?s, RequestLine_new)"
    by (elim conjE exE)
  then show ?thesis by (intro exI [of _ q]) (simp add: parsed_line_def del: feed.simps)
qed


end
