(* ===== verification/Base64.thy ===== *)
theory Base64
  imports Mars_Prelude "HOL-Library.Monad_Syntax"
begin

text \<open>
  The Base64 coding of comm/crypt/ibase64.cc. The two tables are functions, the blocks of the loops
  are the equations of the recursions; a target buffer is the bytes that are written into it.
\<close>

unbundle bit_operations_syntax

definition base64_to_char :: "u8 \<Rightarrow> u8" where
  "base64_to_char v =
     (if v < 26 then 0x41 + v else if v < 52 then 0x61 + v - 26 else if v < 62 then 0x30 + v - 52
      else if v = 62 then 0x2B else if v = 63 then 0x2F else 0)"

definition char_to_base64 :: "u8 \<Rightarrow> u8" where
  "char_to_base64 c =
     (if 0x41 \<le> c \<and> c \<le> 0x5A then c - 0x41 else if 0x61 \<le> c \<and> c \<le> 0x7A then c - 0x61 + 26
      else if 0x30 \<le> c \<and> c \<le> 0x39 then c - 0x30 + 52
      else if c = 0x2B then 62 else if c = 0x2F then 63 else 0)"

definition pad :: u8 where "pad = 0x3D"

fun EncodeBase64 :: "bytes \<Rightarrow> bytes" where
  "EncodeBase64 [] = []"
| "EncodeBase64 [a] =
     [base64_to_char (drop_bit 2 a), base64_to_char (push_bit 4 (a AND 0x03)), pad, pad]"
| "EncodeBase64 [a, b] =
     [base64_to_char (drop_bit 2 a), base64_to_char (push_bit 4 (a AND 0x03) OR drop_bit 4 (b AND 0xF0)),
      base64_to_char (push_bit 2 (b AND 0x0F)), pad]"
| "EncodeBase64 (a # b # c # r) =
     [base64_to_char (drop_bit 2 a), base64_to_char (push_bit 4 (a AND 0x03) OR drop_bit 4 (b AND 0xF0)),
      base64_to_char (push_bit 2 (b AND 0x0F) OR drop_bit 6 (c AND 0xC0)), base64_to_char (c AND 0x3F)]
     @ EncodeBase64 r"

text \<open>The table of the decoder has 128 entries, and a byte beyond it is read outside (\<open>None\<close>). What
  is left of an incomplete block at the end is not read.\<close>

definition char_value :: "u8 \<Rightarrow> u8 option" where
  "char_value c = (if c < 128 then Some (char_to_base64 c) else None)"

fun decode_blocks :: "bytes \<Rightarrow> bytes option" where
  "decode_blocks (p # q # r # s # rest) =
     do {
       v1 \<leftarrow> char_value p; v2 \<leftarrow> char_value q; v3 \<leftarrow> char_value r; v4 \<leftarrow> char_value s;
       ds \<leftarrow> decode_blocks rest;
       Some ([push_bit 2 v1 + drop_bit 4 (v2 AND 0x30), push_bit 4 (v2 AND 0x0F) + drop_bit 2 (v3 AND 0x3C),
              push_bit 6 (v3 AND 0x03) + v4] @ ds) }"
| "decode_blocks _ = Some []"

text \<open>The bytes that are written, without the terminator, and the length that is returned.\<close>

definition DecodeBase64 :: "bytes \<Rightarrow> (bytes \<times> int) option" where
  "DecodeBase64 src =
     (if src = [] then Some ([], 0)
      else do {
        ds \<leftarrow> decode_blocks src;
        Some (ds, int (length src div 4 * 3) - int (length (takeWhile (\<lambda>c. c = pad) (rev src)))) })"

section \<open>Decoding what was encoded\<close>

lemma table_inverse: "v < 64 \<Longrightarrow> char_to_base64 (base64_to_char v) = v"
proof -
  assume "v < 64"
  then have "unat v \<in> set [0..<64]" by (simp add: word_less_nat_alt)
  moreover have "\<forall>n \<in> set [0..<64]. char_to_base64 (base64_to_char (word_of_nat n)) = word_of_nat n"
    by code_simp
  ultimately have "char_to_base64 (base64_to_char (word_of_nat (unat v))) = word_of_nat (unat v)" by blast
  then show ?thesis by simp
qed

lemma table_not_pad: "v < 64 \<Longrightarrow> base64_to_char v \<noteq> pad"
proof -
  assume "v < 64"
  then have "unat v \<in> set [0..<64]" by (simp add: word_less_nat_alt)
  moreover have "\<forall>n \<in> set [0..<64]. base64_to_char (word_of_nat n) \<noteq> pad" by code_simp
  ultimately have "base64_to_char (word_of_nat (unat v)) \<noteq> pad" by blast
  then show ?thesis by simp
qed

lemma table_ascii: "v < 64 \<Longrightarrow> char_value (base64_to_char v) = Some v"
proof -
  assume v: "v < 64"
  then have "unat v \<in> set [0..<64]" by (simp add: word_less_nat_alt)
  moreover have "\<forall>n \<in> set [0..<64]. base64_to_char (word_of_nat n) < 128" by code_simp
  ultimately have "base64_to_char (word_of_nat (unat v)) < 128" by blast
  then show ?thesis using table_inverse [OF v] by (simp add: char_value_def)
qed

lemma six_bits: "drop_bit 2 (a :: u8) < 64" "push_bit 4 (a AND 0x03) OR drop_bit 4 (b AND 0xF0) < (64 :: u8)"
  "push_bit 4 (a AND 0x03) < (64 :: u8)" "push_bit 2 (b AND 0x0F) < (64 :: u8)"
  "push_bit 2 (b AND 0x0F) OR drop_bit 6 (c AND 0xC0) < (64 :: u8)" "c AND 0x3F < (64 :: u8)"
proof -
  have iff: "w < 64 \<longleftrightarrow> \<not> bit w 6 \<and> \<not> bit w 7" for w :: u8
  proof -
    have "w < 64 \<longleftrightarrow> drop_bit 6 w = 0"
      by (simp add: word_less_nat_alt unat_eq_0 [symmetric] drop_bit_eq_div unat_div div_eq_0_iff del: unat_eq_0)
    also have "\<dots> \<longleftrightarrow> (\<forall>n. n < 8 \<longrightarrow> \<not> bit (drop_bit 6 w) n)"
      by (auto simp: bit_eq_iff dest: bit_imp_le_length)
    also have "\<dots> \<longleftrightarrow> \<not> bit w 6 \<and> \<not> bit w 7"
      by (auto simp: bit_drop_bit_eq less_Suc_eq numeral_eq_Suc dest: bit_imp_le_length)
    finally show ?thesis .
  qed
  show "drop_bit 2 a < 64" "push_bit 4 (a AND 0x03) OR drop_bit 4 (b AND 0xF0) < (64 :: u8)"
  "push_bit 4 (a AND 0x03) < (64 :: u8)" "push_bit 2 (b AND 0x0F) < (64 :: u8)"
  "push_bit 2 (b AND 0x0F) OR drop_bit 6 (c AND 0xC0) < (64 :: u8)" "c AND 0x3F < (64 :: u8)"
    by (auto simp: iff bit_simps bit_numeral_rec dest: bit_imp_le_length)
qed

lemma byte_sum:
  assumes "\<And>n. n \<in> {0, 1, 2, 3, 4, 5, 6, 7} \<Longrightarrow> \<not> (bit x n \<and> bit y n) \<and> (bit x n \<or> bit y n) = bit z n"
  shows "x + y = (z :: u8)"
proof -
  have eight: "n < 8 \<Longrightarrow> n \<in> {0, 1, 2, 3, 4, 5, 6, 7}" for n :: nat by auto
  have "\<not> bit x n \<or> \<not> bit y n" for n
    using assms eight bit_imp_le_length [of x n] by auto
  then have "x + y = x OR y" by (rule disjunctive_add)
  also have "\<dots> = z" using assms eight by (intro bit_word_eqI) (auto simp: bit_or_iff)
  finally show ?thesis .
qed

lemma block_back:
  "push_bit 2 (drop_bit 2 a) + drop_bit 4 ((push_bit 4 (a AND 0x03) OR drop_bit 4 (b AND 0xF0)) AND 0x30) = (a :: u8)"
  "push_bit 2 (drop_bit 2 a) + drop_bit 4 (push_bit 4 (a AND 0x03) AND 0x30) = (a :: u8)"
  "push_bit 4 ((push_bit 4 (a AND 0x03) OR drop_bit 4 (b AND 0xF0)) AND 0x0F)
     + drop_bit 2 ((push_bit 2 (b AND 0x0F) OR drop_bit 6 (c AND 0xC0)) AND 0x3C) = (b :: u8)"
  "push_bit 4 ((push_bit 4 (a AND 0x03) OR drop_bit 4 (b AND 0xF0)) AND 0x0F)
     + drop_bit 2 (push_bit 2 (b AND 0x0F) AND 0x3C) = (b :: u8)"
  "push_bit 6 ((push_bit 2 (b AND 0x0F) OR drop_bit 6 (c AND 0xC0)) AND 0x03) + (c AND 0x3F) = (c :: u8)"
  by (rule byte_sum; elim insertE emptyE; simp add: bit_simps bit_numeral_rec; simp add: numeral_eq_Suc)+

lemma pad_value: "char_value pad = Some 0"
  by (simp add: char_value_def char_to_base64_def pad_def)

lemma blocks_Suc: "(5 + n) div 3 = Suc (Suc (Suc n) div 3)" for n :: nat
  by presburger

lemmas sextets = table_ascii [OF six_bits(1)] table_ascii [OF six_bits(2)] table_ascii [OF six_bits(3)]
  table_ascii [OF six_bits(4)] table_ascii [OF six_bits(5)] table_ascii [OF six_bits(6)]

lemma decode_encode: "\<exists>t. decode_blocks (EncodeBase64 s) = Some (s @ t) \<and> length (s @ t) = 3 * ((length s + 2) div 3)"
proof (induction s rule: EncodeBase64.induct)
  case (4 a b c r)
  then show ?case by (auto simp: sextets block_back blocks_Suc simp del: push_bit_and drop_bit_and)
qed (simp_all add: sextets block_back pad_value del: push_bit_and drop_bit_and)

lemma encode_length: "length (EncodeBase64 s) = 4 * ((length s + 2) div 3)"
  by (induction s rule: EncodeBase64.induct) (simp_all add: blocks_Suc)

lemma encode_starts: "s \<noteq> [] \<Longrightarrow> \<exists>x \<in> set (EncodeBase64 s). x \<noteq> pad"
  by (cases s rule: EncodeBase64.cases) (simp_all add: table_not_pad [OF six_bits(1)])

lemma encode_pads:
  "length (takeWhile (\<lambda>c. c = pad) (rev (EncodeBase64 s))) + length s = 3 * ((length s + 2) div 3)"
proof (induction s rule: EncodeBase64.induct)
  case (4 a b c r)
  show ?case
  proof (cases "r = []")
    case False
    then obtain x where "x \<in> set (rev (EncodeBase64 r))" "x \<noteq> pad" using encode_starts by auto
    then have "takeWhile (\<lambda>c. c = pad) (rev (EncodeBase64 r) @ bs) = takeWhile (\<lambda>c. c = pad) (rev (EncodeBase64 r))" for bs
      by (rule takeWhile_append1)
    then show ?thesis using 4 by (simp add: blocks_Suc)
  qed (use table_not_pad [OF six_bits(6)] in simp)
next
  case (2 a)
  show ?case using table_not_pad [OF six_bits(3), of a] by (simp del: push_bit_and)
next
  case (3 a b)
  show ?case using table_not_pad [OF six_bits(4), of b] by (simp del: push_bit_and)
qed simp

text \<open>C29. Decoding the text that was encoded writes the bytes back, answers their number, and never
  reads outside the table; the text has four characters for every three bytes begun, which fits the
  buffer of \<open>modp_b64_encode_len\<close>.\<close>

theorem base64_roundtrip:
  "\<exists>ws. DecodeBase64 (EncodeBase64 s) = Some (ws, int (length s)) \<and> take (length s) ws = s \<and>
     length (EncodeBase64 s) < (length s + 2) div 3 * 4 + 1"
proof (cases "s = []")
  case False
  obtain t where t: "decode_blocks (EncodeBase64 s) = Some (s @ t)" "length (s @ t) = 3 * ((length s + 2) div 3)"
    using decode_encode by blast
  have ne: "EncodeBase64 s \<noteq> []" using False encode_starts [OF False] by auto
  have "int (length (EncodeBase64 s) div 4 * 3) - int (length (takeWhile (\<lambda>c. c = pad) (rev (EncodeBase64 s)))) = int (length s)"
    using encode_pads [of s] by (simp add: encode_length)
  then show ?thesis using t ne by (simp add: DecodeBase64_def encode_length)
qed (simp add: DecodeBase64_def)

text \<open>A byte beyond 127 is looked up behind the table.\<close>

lemma decode_outside: "decode_blocks (0x80 # q # r # s # rest) = None"
  by (simp add: char_value_def)

end
