(* ===== verification/Short_Link.thy ===== *)
theory Short_Link
  imports Http Long_Link Base64
begin

text \<open>
  The worker of a short link, stn/src/shortlink.cc, and the request it sends,
  stn/proto/shortlink_packer.cc: one HTTP request over a socket of its own. The thread of the worker
  runs through the phases of \<open>__Run\<close>; each call into the system ends a phase, or a round of the
  loop that receives, and its answer is given by the next operation. What \<open>__UpdateProfile\<close>
  moves to the message queue waits in \<open>sw_posts\<close>; the callbacks of the task manager are the events
  of \<open>sw_events\<close>. A block of bytes is a string, as in \<open>Http\<close>. \<open>None\<close> is an access
  outside a memory block.
\<close>

section \<open>The request\<close>

definition octet_of :: "char \<Rightarrow> u8" where "octet_of c = word_of_nat (of_char c)"
definition char_of_byte :: "u8 \<Rightarrow> char" where "char_of_byte b = char_of (unat b)"

definition shortlink_pack :: "string \<Rightarrow> (string \<times> string) list \<Rightarrow> string \<Rightarrow> string \<Rightarrow> string" where
  "shortlink_pack url headers body out =
     (let b0 = (Builder_new kRequest)\<lparr>bd_requestline := \<lparr>rq_method = kPost, rq_url = [], rq_version = kVersion_1_1\<rparr>\<rparr>;
          hs = fold (\<lambda>f. hinsert (fst f) (snd f))
                 [MakeAcceptAll, (KStringUserAgent, KStringMicroMessenger), MakeCacheControlNoCache,
                  MakeContentTypeOctetStream, MakeConnectionClose,
                  (KStringContentLength, print_int (int (length body mod 2 ^ 32)))] (bd_headfields b0);
          b = b0\<lparr>bd_headfields := fold (\<lambda>f. HeaderFiled (fst f) (snd f)) headers hs,
                 bd_requestline := (bd_requestline b0)\<lparr>rq_url := url\<rparr>\<rparr>
      in snd (HeaderToBuffer b out) @ body)"

text \<open>The array of 1024 characters of \<open>auth_info\<close> cuts the text.\<close>

definition proxy_auth :: "ProxyInfo \<Rightarrow> string" where
  "proxy_auth px =
     take 1023 (''Basic '' @
       map char_of_byte (EncodeBase64 (map octet_of (px_username px @ '':'' @ px_password px))))"

definition request_url :: "Task \<Rightarrow> link_profile \<Rightarrow> string" where
  "request_url t p = (if lp_ip_type p = kIPSourceProxy then ''http://'' @ cp_host p else []) @ cgi t"

definition request_headers :: "link_profile \<Rightarrow> (string \<times> string) list" where
  "request_headers p =
     (let px = lp_proxy_info p in
      (KStringHost, cp_host p) #
      (if ProxyInfo_IsValid px \<and> px_type px = kProxyHttp \<and> px_username px \<noteq> '''' \<and> px_password px \<noteq> ''''
       then [(kStringProxyAuthorization, proxy_auth px)] else []))"

section \<open>The worker\<close>

datatype worker_event =
    SwSend
  | SwRecv nat nat
  | SwReport ErrCmdType int string string u16
  | SwResponse ErrCmdType int string link_profile
  | SwTraffic int nat
  | SwWeak bool u32 int

record ShortLink =
  sw_task :: Task
  sw_host_list :: "string list"
  sw_use_proxy :: bool
  sw_thread :: bool
  sw_breaker :: SocketBreaker
  sw_dns_canceled :: bool
  sw_conn_profile :: link_profile
  sw_send_body :: string
  sw_send_extend :: string
  sw_outter_vec_addr :: "IPPortItem list"
  sw_posts :: "link_profile list"
  sw_events :: "worker_event list"

definition ShortLink_new :: "bool \<Rightarrow> Task \<Rightarrow> string list \<Rightarrow> bool \<Rightarrow> ShortLink" where
  "ShortLink_new pipe_ok t hosts via_proxy =
     \<lparr>sw_task = t, sw_host_list = hosts, sw_use_proxy = via_proxy, sw_thread = False,
      sw_breaker = SocketBreaker_new pipe_ok, sw_dns_canceled = False, sw_conn_profile = link_profile_new,
      sw_send_body = [], sw_send_extend = [], sw_outter_vec_addr = [], sw_posts = [], sw_events = []\<rparr>"

definition SW_SendRequest :: "string \<Rightarrow> string \<Rightarrow> ShortLink \<Rightarrow> ShortLink" where
  "SW_SendRequest req ext s = s\<lparr>sw_send_body := req, sw_send_extend := ext, sw_thread := True\<rparr>"

definition FillOutterIPAddr :: "IPPortItem list \<Rightarrow> ShortLink \<Rightarrow> ShortLink" where
  "FillOutterIPAddr as s = (if as \<noteq> [] then s\<lparr>sw_outter_vec_addr := as\<rparr> else s)"

definition sw_emit :: "worker_event \<Rightarrow> ShortLink \<Rightarrow> ShortLink" where
  "sw_emit e s = s\<lparr>sw_events := sw_events s @ [e]\<rparr>"

text \<open>The post of \<open>__UpdateProfile\<close> and its delivery by the queue.\<close>

definition SW_UpdateProfile :: "link_profile \<Rightarrow> ShortLink \<Rightarrow> ShortLink" where
  "SW_UpdateProfile p s = s\<lparr>sw_posts := sw_posts s @ [p]\<rparr>"

definition sw_deliver :: "ShortLink \<Rightarrow> ShortLink" where
  "sw_deliver s = (case sw_posts s of [] \<Rightarrow> s | p # ps \<Rightarrow> s\<lparr>sw_conn_profile := p, sw_posts := ps\<rparr>)"

definition SW_OnResponse ::
    "ErrCmdType \<Rightarrow> int \<Rightarrow> string \<Rightarrow> bool \<Rightarrow> link_profile \<Rightarrow> ShortLink \<Rightarrow> link_profile \<times> ShortLink" where
  "SW_OnResponse et status body rep p s =
     (let p1 = p\<lparr>cp_disconn_errtype := et, cp_disconn_errcode := status\<rparr>;
          s1 = SW_UpdateProfile p1 s;
          s2 = (if et \<noteq> kEctOK \<and> rep then sw_emit (SwReport et status (cp_ip p1) (cp_host p1) (cp_port p1)) s1 else s1)
      in (p1, sw_emit (SwResponse et status body p1) s2))"

definition SW_RunResponseError ::
    "ErrCmdType \<Rightarrow> int \<Rightarrow> bool \<Rightarrow> link_profile \<Rightarrow> ShortLink \<Rightarrow> link_profile \<times> ShortLink" where
  "SW_RunResponseError et code rep p s = SW_OnResponse et code [] rep p s"

text \<open>\<open>__CancelAndWaitWorkerThread\<close> before it waits; \<open>ok\<close> says that the write into the pipe
  succeeds.\<close>

definition SW_Cancel :: "bool \<Rightarrow> ShortLink \<Rightarrow> ShortLink" where
  "SW_Cancel ok s =
     (if \<not> sw_thread s then s
      else let (b, br) = Breaker_Break ok (sw_breaker s)
           in s\<lparr>sw_breaker := (if b then br else Breaker_Close br), sw_dns_canceled := True\<rparr>)"

section \<open>Connecting\<close>

text \<open>The answers around a run: the readings of the clock, the port of the short links, the signal
  strength, and what the long link's \<open>connect_env\<close> holds, with the items of
  \<open>GetShortLinkItems\<close> and the debug address of the short links.\<close>

record short_env =
  sv_start :: u64
  sv_dns :: u64
  sv_dns_end :: u64
  sv_conn :: u64
  sv_port :: u16
  sv_signal :: u32
  sv_connect :: connect_env

definition SW_Run_begin :: "short_env \<Rightarrow> ShortLink \<Rightarrow> link_profile \<times> ShortLink" where
  "SW_Run_begin env s =
     (let p = link_profile_new\<lparr>lp_net_type := ce_net_label (sv_connect env), cp_start_time := sv_start env,
                lp_tid := ce_tid (sv_connect env)\<rparr>
      in (p, SW_UpdateProfile p s))"

definition set_item :: "IPPortItem \<Rightarrow> link_profile \<Rightarrow> link_profile" where
  "set_item i p = p\<lparr>cp_host := str_host i, lp_ip_type := source_type i, cp_ip := str_ip i, cp_port := ipport i\<rparr>"

text \<open>The first half: the host, the proxy and the addresses.\<close>

definition SW_addresses :: "short_env \<Rightarrow> link_profile \<Rightarrow> ShortLink \<Rightarrow> bool \<times> link_profile \<times> ShortLink" where
  "SW_addresses env p s =
     (let ce = sv_connect env;
          p1 = p\<lparr>cp_dns_time := sv_dns env\<rparr>;
          s1 = SW_UpdateProfile p1 s;
          p2 = (case sw_host_list s of [] \<Rightarrow> p1 | h # _ \<Rightarrow> p1\<lparr>cp_host := h\<rparr>);
          p3 = (if sw_use_proxy s then p2\<lparr>lp_proxy_info := ce_proxy ce\<rparr> else p2);
          px = lp_proxy_info p3;
          via_proxy = (sw_use_proxy s \<and> ProxyInfo_IsValid px)
      in if via_proxy \<and> px_type px = kProxyHttp \<and> ce_debug_ip ce = ''''
         then let item = \<lparr>str_ip = px_ip px, ipport = sv_port env, source_type = kIPSourceProxy, str_host = cp_host p3\<rparr>;
                  p4 = p3\<lparr>cp_ip := px_ip px, cp_port := px_port px, lp_ip_type := kIPSourceProxy,
                          lp_ip_items := lp_ip_items p3 @ [item]\<rparr>
              in (via_proxy, p4, SW_UpdateProfile p4 s1)
         else let items = (if sw_outter_vec_addr s \<noteq> [] then sw_outter_vec_addr s else ce_ip_items ce);
                  p4 = p3\<lparr>lp_ip_items := items\<rparr>
              in case items of [] \<Rightarrow> (via_proxy, p4, s1)
                 | i # _ \<Rightarrow> (via_proxy, set_item i p4, SW_UpdateProfile (set_item i p4) s1))"

datatype prepared = PrepFailed | PrepConnect "socket_address list" "socket_address option" ProxyType

text \<open>The host of a proxy that does not resolve ends the connection attempt without a word.\<close>

definition proxy_address :: "short_env \<Rightarrow> bool \<Rightarrow> ProxyInfo \<Rightarrow> string option" where
  "proxy_address env via_proxy px =
     (if via_proxy \<and> px_type px \<noteq> kProxyNone then
        if px_ip px = '''' \<and> px_host px \<noteq> '''' then
          (case ce_proxy_dns (sv_connect env) of Some (ip # _) \<Rightarrow> Some ip | _ \<Rightarrow> None)
        else Some (px_ip px)
      else Some '''')"

definition SW_RunConnect_prepare ::
    "short_env \<Rightarrow> link_profile \<Rightarrow> ShortLink \<Rightarrow> (prepared \<times> link_profile \<times> ShortLink) option" where
  "SW_RunConnect_prepare env p s =
     (let ce = sv_connect env in
      case SW_addresses env p s of (via_proxy, p1, s1) \<Rightarrow>
        let px = lp_proxy_info p1 in
        case proxy_address env via_proxy px of
          None \<Rightarrow> Some (PrepFailed, p1, s1)
        | Some proxy_ip \<Rightarrow>
            let vecaddr = (if via_proxy \<and> px_type px = kProxyHttp then [(proxy_ip, px_port px, ce_nat64 ce)]
                           else map (\<lambda>i. (str_ip i, ipport i, (\<not> via_proxy \<or> px_type px = kProxyNone) \<and> ce_nat64 ce))
                                  (lp_ip_items p1));
                tunnel = (via_proxy \<and> px_type px \<in> {kProxyHttpTunel, kProxySocks5});
                p2 = (if tunnel then p1\<lparr>lp_ip_type := kIPSourceProxy\<rparr> else p1)
            in if vecaddr = [] then
                 (case SW_RunResponseError kEctDns kEctDnsMakeSocketPrepared False p2 s1 of
                    (p3, s2) \<Rightarrow> Some (PrepFailed, p3, s2))
               else case lp_ip_items p2 of
                      [] \<Rightarrow> None
                    | i # _ \<Rightarrow>
                        let p3 = (set_item i p2)\<lparr>lp_nat64 := ce_nat64 ce, lp_dns_endtime := sv_dns_end env,
                                    lp_net_type := ce_net_label ce\<rparr>
                        in Some (PrepConnect vecaddr
                                   (if tunnel then Some (proxy_ip, px_port px, ce_nat64 ce) else None) (px_type px),
                                 p3, SW_UpdateProfile p3 s1))"

text \<open>The observer: it looks up the item of a failed address in the profile that the message queue
  has stored so far.\<close>

definition SW_observe :: "observer_call \<Rightarrow> bool list \<times> ShortLink \<Rightarrow> (bool list \<times> ShortLink) option" where
  "SW_observe c st =
     (case st of (connecting, s) \<Rightarrow>
        (case c of
           OnConnect i \<Rightarrow> if i < length connecting then Some (connecting[i := True], s) else None
         | OnConnected i err ip port \<Rightarrow>
             if \<not> i < length connecting then None
             else let items = lp_ip_items (sw_conn_profile s)
                  in Some (connecting[i := False],
                       if err \<noteq> 0 \<and> i < length items
                       then sw_emit (SwReport kEctSocket err ip (str_host (items ! i)) port) s else s)
         | OnVerifyRecv i buf ip port \<Rightarrow> Some (connecting, s)))"

definition SW_timed_out :: "nat \<Rightarrow> bool list \<Rightarrow> IPPortItem list \<Rightarrow> worker_event list" where
  "SW_timed_out n connecting items =
     map (\<lambda>i. SwReport kEctSocket ETIMEDOUT (str_ip (items ! i)) (str_host (items ! i)) (ipport (items ! i)))
       (filter (\<lambda>i. connecting ! i) [0..<n])"

definition SW_RunConnect_finish ::
    "short_env \<Rightarrow> bool list \<Rightarrow> connect_result \<Rightarrow> link_profile \<Rightarrow> ShortLink \<Rightarrow> (bool \<times> link_profile \<times> ShortLink) option" where
  "SW_RunConnect_finish env connecting cr p s =
     (let index = (case cr_index cr of None \<Rightarrow> -1 | Some i \<Rightarrow> int i);
          p1 = p\<lparr>lp_conn_rtt := cr_rtt cr, cp_ip_index := index, lp_conn_cost := cr_cost cr\<rparr>;
          s1 = sw_emit (SwWeak (cr_index cr \<noteq> None) (cr_rtt cr) index) (SW_UpdateProfile p1 s)
      in case cr_index cr of
           None \<Rightarrow>
             let p2 = p1\<lparr>lp_conn_errcode := cr_error cr\<rparr>
             in if \<not> sb_broken (sw_breaker s1)
                then (case SW_RunResponseError kEctSocket kEctSocketMakeSocketPrepared False p2 s1 of
                        (p3, s2) \<Rightarrow> Some (False, p3, s2))
                else let p3 = p2\<lparr>cp_disconn_errtype := kEctCanceld\<rparr> in Some (False, p3, SW_UpdateProfile p3 s1)
         | Some i \<Rightarrow>
             if \<not> (i < length (lp_ip_items p1) \<and> i \<le> length connecting) then None
             else let s2 = s1\<lparr>sw_events := sw_events s1 @ SW_timed_out i connecting (lp_ip_items p1)\<rparr>;
                      item = lp_ip_items p1 ! i;
                      p2 = p1\<lparr>cp_host := str_host item, lp_ip_type := source_type item, cp_ip := str_ip item,
                              lp_conn_time := sv_conn env, lp_local_ip := cr_local_ip cr, lp_local_port := cr_local_port cr\<rparr>
                  in Some (True, p2, SW_UpdateProfile p2 s2))"

section \<open>Sending and receiving\<close>

text \<open>\<open>out_buff\<close>, and the answer of \<open>block_socket_send\<close>: its result and its error code.\<close>

definition kEctSocketWritenWithNonBlock :: int where "kEctSocketWritenWithNonBlock = -10088"
definition kEctSocketReadOnce :: int where "kEctSocketReadOnce = -10089"
definition kEctHttpSplitHttpHeadAndBody :: int where "kEctHttpSplitHttpHeadAndBody = -10194"
definition kEctHttpParseStatusLine :: int where "kEctHttpParseStatusLine = -10195"

definition SW_request :: "link_profile \<Rightarrow> ShortLink \<Rightarrow> string" where
  "SW_request p s = shortlink_pack (request_url (sw_task s) p) (request_headers p) (sw_send_body s) []"

record reader =
  rd_recv_buf :: string
  rd_status_code :: int
  rd_parser :: Parser

definition reader_new :: reader where
  "reader_new = \<lparr>rd_recv_buf = [], rd_status_code = -1, rd_parser = Parser_new\<rparr>"

datatype phase =
    Created
  | Connecting "socket_address list" "socket_address option" ProxyType link_profile "bool list"
  | Sending link_profile
  | Receiving link_profile reader
  | Ended

definition SW_Run_end :: "short_env \<Rightarrow> link_profile \<Rightarrow> ShortLink \<Rightarrow> phase \<times> ShortLink" where
  "SW_Run_end env p s =
     (Ended, (SW_UpdateProfile (p\<lparr>lp_disconn_signal := sv_signal env\<rparr>) s)\<lparr>sw_thread := False\<rparr>)"

definition SW_fail :: "short_env \<Rightarrow> ErrCmdType \<Rightarrow> int \<Rightarrow> link_profile \<Rightarrow> ShortLink \<Rightarrow> phase \<times> ShortLink" where
  "SW_fail env et code p s = (case SW_RunResponseError et code True p s of (p1, s1) \<Rightarrow> SW_Run_end env p1 s1)"

definition SW_sent :: "short_env \<Rightarrow> int \<Rightarrow> int \<Rightarrow> link_profile \<Rightarrow> ShortLink \<Rightarrow> phase \<times> ShortLink" where
  "SW_sent env ret err p s =
     (if ret < 0 then SW_fail env kEctSocket (if err = 0 then kEctSocketWritenWithNonBlock else err) p s
      else let s1 = sw_emit (SwTraffic ret 0) s
           in if sb_broken (sw_breaker s1) then SW_Run_end env p s1 else (Receiving p reader_new, s1))"

text \<open>What the loop does with the answer of the parser.\<close>

definition SW_parsed :: "short_env \<Rightarrow> link_profile \<Rightarrow> reader \<Rightarrow> ShortLink \<Rightarrow> phase \<times> ShortLink" where
  "SW_parsed env p r s =
     (case ps_recvstatus (rd_parser r) of
        kFirstLineError \<Rightarrow> SW_fail env kEctHttp kEctHttpParseStatusLine p s
      | kHeaderFieldsError \<Rightarrow> SW_fail env kEctHttp kEctHttpSplitHttpHeadAndBody p s
      | kBodyError \<Rightarrow> SW_fail env kEctHttp kEctHttpSplitHttpHeadAndBody p s
      | kEnd \<Rightarrow>
          if rd_status_code r \<noteq> 200 then SW_fail env kEctHttp (rd_status_code r) p s
          else (case SW_OnResponse kEctOK (rd_status_code r) (ps_body (rd_parser r)) True p s of
                  (p1, s1) \<Rightarrow> SW_Run_end env p1 s1)
      | _ \<Rightarrow> (Receiving p r, s))"

text \<open>One round of the loop on an answer of \<open>block_socket_recv\<close>: \<open>None\<close> for a negative
  result, otherwise the bytes that were appended, with the error code. \<open>recv_pos\<close> is the position of
  the buffer, which stays 0.\<close>

definition SW_received ::
    "short_env \<Rightarrow> string option \<Rightarrow> int \<Rightarrow> link_profile \<Rightarrow> reader \<Rightarrow> ShortLink \<Rightarrow> (phase \<times> ShortLink) option" where
  "SW_received env answer err p r s =
     (case answer of
        None \<Rightarrow> Some (SW_fail env kEctSocket (if err = 0 then kEctSocketReadOnce else err) p s)
      | Some d \<Rightarrow>
          if sb_broken (sw_breaker s) then Some (SW_Run_end env (p\<lparr>cp_disconn_errtype := kEctCanceld\<rparr>) s)
          else if d = [] \<and> err = ETIMEDOUT then Some (Receiving p r, s)
          else if d = [] then Some (SW_fail env kEctSocket kEctSocketShutdown p s)
          else
            let buf = rd_recv_buf r @ d;
                s1 = sw_emit (SwRecv (length buf) (length buf)) (sw_emit (SwTraffic 0 (length d)) s)
            in (case Parser_Recv d (rd_parser r) of
                  Some (Returned q) \<Rightarrow>
                    Some (SW_parsed env p
                      \<lparr>rd_recv_buf = buf,
                       rd_status_code = (if FirstLineReady q then sl_statuscode (ps_statusline q) else rd_status_code r),
                       rd_parser = q\<rparr> s1)
                | _ \<Rightarrow> None))"

section \<open>A run\<close>

datatype worker_op =
    OpStart
  | OpObserve observer_call
  | OpConnect connect_result
  | OpSent int int
  | OpReceived "string option" int
  | OpCancel bool
  | OpDeliver

definition thread_ends :: "ShortLink \<Rightarrow> phase \<times> ShortLink" where
  "thread_ends s = (Ended, s\<lparr>sw_thread := False\<rparr>)"

text \<open>An operation that does not belong to the phase changes nothing.\<close>

fun worker_do :: "short_env \<Rightarrow> worker_op \<Rightarrow> phase \<times> ShortLink \<Rightarrow> (phase \<times> ShortLink) option" where
  "worker_do env OpStart (Created, s) =
     (if \<not> sw_thread s then Some (Created, s)
      else case SW_Run_begin env s of (p, s1) \<Rightarrow>
        (case SW_RunConnect_prepare env p s1 of
           None \<Rightarrow> None
         | Some (PrepFailed, q, s2) \<Rightarrow> Some (thread_ends s2)
         | Some (PrepConnect addrs proxy typ, q, s2) \<Rightarrow> Some (Connecting addrs proxy typ q (replicate 32 False), s2)))"
| "worker_do env (OpObserve c) (Connecting addrs proxy typ p connecting, s) =
     map_option (\<lambda>(connecting', s'). (Connecting addrs proxy typ p connecting', s')) (SW_observe c (connecting, s))"
| "worker_do env (OpConnect cr) (Connecting addrs proxy typ p connecting, s) =
     (case SW_RunConnect_finish env connecting cr p s of
        None \<Rightarrow> None
      | Some (True, q, s1) \<Rightarrow> Some (Sending q, sw_emit SwSend s1)
      | Some (False, q, s1) \<Rightarrow> Some (thread_ends s1))"
| "worker_do env (OpSent ret err) (Sending p, s) = Some (SW_sent env ret err p s)"
| "worker_do env (OpReceived answer err) (Receiving p r, s) = SW_received env answer err p r s"
| "worker_do env (OpCancel ok) (ph, s) = Some (ph, SW_Cancel ok s)"
| "worker_do env OpDeliver (ph, s) = Some (ph, sw_deliver s)"
| "worker_do env _ st = Some st"

inductive worker_reach :: "short_env \<Rightarrow> phase \<times> ShortLink \<Rightarrow> phase \<times> ShortLink \<Rightarrow> bool" for env st0 where
  start: "worker_reach env st0 st0"
| step: "worker_reach env st0 st \<Longrightarrow> worker_do env op st = Some st' \<Longrightarrow> worker_reach env st0 st'"

fun worker_run :: "short_env \<Rightarrow> worker_op list \<Rightarrow> phase \<times> ShortLink \<Rightarrow> (phase \<times> ShortLink) option" where
  "worker_run env [] st = Some st"
| "worker_run env (op # ops) st = (case worker_do env op st of None \<Rightarrow> None | Some st' \<Rightarrow> worker_run env ops st')"

definition responses :: "ShortLink \<Rightarrow> (ErrCmdType \<times> int \<times> string \<times> link_profile) list" where
  "responses s = List.map_filter (\<lambda>e. case e of SwResponse et st b p \<Rightarrow> Some (et, st, b, p) | _ \<Rightarrow> None) (sw_events s)"

section \<open>One answer\<close>

lemma responses_emit [simp]:
  "responses (sw_emit e s) = responses s @ (case e of SwResponse et st b p \<Rightarrow> [(et, st, b, p)] | _ \<Rightarrow> [])"
  by (simp add: responses_def sw_emit_def List.map_filter_def split: worker_event.split)

lemma emit_frame [simp]:
  "sw_breaker (sw_emit e s) = sw_breaker s" "sw_use_proxy (sw_emit e s) = sw_use_proxy s"
  by (simp_all add: sw_emit_def)

lemma profile_frame [simp]:
  "responses (SW_UpdateProfile p s) = responses s" "sw_breaker (SW_UpdateProfile p s) = sw_breaker s"
  "sw_use_proxy (SW_UpdateProfile p s) = sw_use_proxy s"
  by (simp_all add: SW_UpdateProfile_def responses_def)

lemma thread_frame [simp]: "responses (s\<lparr>sw_thread := b\<rparr>) = responses s"
  by (simp add: responses_def)

lemma deliver_frame [simp]:
  "responses (sw_deliver s) = responses s" "sw_breaker (sw_deliver s) = sw_breaker s"
  "sw_use_proxy (sw_deliver s) = sw_use_proxy s"
  by (simp_all add: sw_deliver_def responses_def split: list.split)

lemma cancel_frame [simp]:
  "responses (SW_Cancel ok s) = responses s" "sw_use_proxy (SW_Cancel ok s) = sw_use_proxy s"
  by (simp_all add: SW_Cancel_def responses_def case_prod_beta)

lemma cancel_breaks: "sb_broken (sw_breaker s) \<Longrightarrow> sb_broken (sw_breaker (SW_Cancel ok s))"
  by (simp add: SW_Cancel_def Breaker_Break_def)

lemma OnResponse_frame [simp]:
  assumes "SW_OnResponse et st body rep p s = (q, t)"
  shows "responses t = responses s @ [(et, st, body, q)]" "sw_breaker t = sw_breaker s" "sw_use_proxy t = sw_use_proxy s"
  using assms by (auto simp: SW_OnResponse_def Let_def split: if_splits)

text \<open>The host of the proxy has no address.\<close>

definition proxy_unresolved :: "short_env \<Rightarrow> ShortLink \<Rightarrow> bool" where
  "proxy_unresolved env s \<longleftrightarrow>
     sw_use_proxy s \<and> ProxyInfo_IsValid (ce_proxy (sv_connect env)) \<and>
     proxy_address env True (ce_proxy (sv_connect env)) = None"

definition answered_once :: "short_env \<Rightarrow> phase \<times> ShortLink \<Rightarrow> bool" where
  "answered_once env st \<longleftrightarrow>
     (case st of (ph, s) \<Rightarrow>
        if ph = Ended
        then length (responses s) = 1 \<or> responses s = [] \<and> (sb_broken (sw_breaker s) \<or> proxy_unresolved env s)
        else responses s = [])"

lemma set_item_frame [simp]: "lp_proxy_info (set_item i p) = lp_proxy_info p"
  by (simp add: set_item_def)

lemma addresses_frame:
  fixes env p s
  defines "r \<equiv> SW_addresses env p s"
  shows "responses (snd (snd r)) = responses s" "sw_breaker (snd (snd r)) = sw_breaker s"
    "sw_use_proxy (snd (snd r)) = sw_use_proxy s"
    "lp_proxy_info (fst (snd r)) = (if sw_use_proxy s then ce_proxy (sv_connect env) else lp_proxy_info p)"
    "fst r = (sw_use_proxy s \<and> ProxyInfo_IsValid (ce_proxy (sv_connect env)))"
proof -
  note d = SW_addresses_def Let_def
  show "responses (snd (snd r)) = responses s" unfolding r_def by (simp add: d split: list.split)
  show "sw_breaker (snd (snd r)) = sw_breaker s" unfolding r_def by (simp add: d split: list.split)
  show "sw_use_proxy (snd (snd r)) = sw_use_proxy s" unfolding r_def by (simp add: d split: list.split)
  show "lp_proxy_info (fst (snd r)) = (if sw_use_proxy s then ce_proxy (sv_connect env) else lp_proxy_info p)"
    unfolding r_def by (simp add: d split: list.split)
  show "fst r = (sw_use_proxy s \<and> ProxyInfo_IsValid (ce_proxy (sv_connect env)))"
    unfolding r_def by (simp add: d split: list.split)
qed

lemma prepare_answers:
  assumes "SW_RunConnect_prepare env p s = Some (r, q, t)" "lp_proxy_info p = ProxyInfo_new" "responses s = []"
  shows "sw_breaker t = sw_breaker s" "sw_use_proxy t = sw_use_proxy s"
    "if r = PrepFailed then length (responses t) = 1 \<or> responses t = [] \<and> proxy_unresolved env s else responses t = []"
proof -
  obtain up p1 s1 where a: "SW_addresses env p s = (up, p1, s1)" by (cases "SW_addresses env p s")
  note f = addresses_frame [of env p s, unfolded a, simplified]
  have "sw_breaker t = sw_breaker s \<and> sw_use_proxy t = sw_use_proxy s \<and>
    (if r = PrepFailed then length (responses t) = 1 \<or> responses t = [] \<and> proxy_unresolved env s else responses t = [])"
  proof (cases "proxy_address env up (lp_proxy_info p1)")
    case None
    then have "proxy_unresolved env s"
      using f by (auto simp: proxy_unresolved_def proxy_address_def split: if_splits)
    then show ?thesis using assms f a None by (simp add: SW_RunConnect_prepare_def Let_def)
  next
    case (Some ip)
    obtain q' t' where e: "SW_RunResponseError kEctDns kEctDnsMakeSocketPrepared False
      (if up \<and> px_type (lp_proxy_info p1) \<in> {kProxyHttpTunel, kProxySocks5} then p1\<lparr>lp_ip_type := kIPSourceProxy\<rparr> else p1) s1 = (q', t')"
      by (cases "SW_RunResponseError kEctDns kEctDnsMakeSocketPrepared False
      (if up \<and> px_type (lp_proxy_info p1) \<in> {kProxyHttpTunel, kProxySocks5} then p1\<lparr>lp_ip_type := kIPSourceProxy\<rparr> else p1) s1")
    then have t': "length (responses t') = 1" "sw_breaker t' = sw_breaker s" "sw_use_proxy t' = sw_use_proxy s"
      using f assms(3) by (simp_all add: SW_RunResponseError_def)
    consider "r = PrepFailed" "t = t'" | "r \<noteq> PrepFailed" "\<exists>p3. t = SW_UpdateProfile p3 s1"
      using assms(1) a Some e
      by (simp add: SW_RunConnect_prepare_def Let_def split: list.splits if_splits) blast+
    then show ?thesis using t' f assms(3) by cases auto
  qed
  then show "sw_breaker t = sw_breaker s" "sw_use_proxy t = sw_use_proxy s"
    "if r = PrepFailed then length (responses t) = 1 \<or> responses t = [] \<and> proxy_unresolved env s else responses t = []"
    by auto
qed

lemma Run_end_frame [simp]:
  "responses (snd (SW_Run_end env p s)) = responses s" "sw_breaker (snd (SW_Run_end env p s)) = sw_breaker s"
  "sw_use_proxy (snd (SW_Run_end env p s)) = sw_use_proxy s" "fst (SW_Run_end env p s) = Ended"
  by (simp_all add: SW_Run_end_def)

lemma fail_answers [simp]:
  "length (responses (snd (SW_fail env et c p s))) = Suc (length (responses s))"
  "sw_breaker (snd (SW_fail env et c p s)) = sw_breaker s" "fst (SW_fail env et c p s) = Ended"
  by (cases "SW_RunResponseError et c True p s"; simp add: SW_fail_def SW_RunResponseError_def)+

lemma proxy_unresolved_cong: "sw_use_proxy t = sw_use_proxy s \<Longrightarrow> proxy_unresolved env t = proxy_unresolved env s"
  by (simp add: proxy_unresolved_def)

lemma observe_frame:
  assumes "SW_observe c (connecting, s) = Some (connecting', t)"
  shows "responses t = responses s"
  using assms by (auto simp: SW_observe_def Let_def split: observer_call.splits if_splits)

lemma map_filter_app: "List.map_filter f (xs @ ys) = List.map_filter f xs @ List.map_filter f ys"
  by (simp add: List.map_filter_def)

lemma timed_out_responses [simp]:
  "List.map_filter (\<lambda>e. case e of SwResponse et st b p \<Rightarrow> Some (et, st, b, p) | _ \<Rightarrow> None) (SW_timed_out n c items) = []"
  by (auto simp: SW_timed_out_def List.map_filter_def filter_empty_conv)

lemma finish_answers:
  assumes "SW_RunConnect_finish env connecting cr p s = Some (ok, q, t)" "responses s = []"
  shows "if ok then responses t = []
         else length (responses t) = 1 \<or> responses t = [] \<and> sb_broken (sw_breaker t)"
proof (cases "cr_index cr")
  case None
  then show ?thesis
    using assms by (auto simp: SW_RunConnect_finish_def Let_def SW_RunResponseError_def split: prod.splits if_splits)
next
  case (Some i)
  have "responses (u\<lparr>sw_events := sw_events u @ SW_timed_out i c items\<rparr>) = responses u" for u c items
    by (simp add: responses_def map_filter_app)
  then show ?thesis
    using assms Some by (auto simp: SW_RunConnect_finish_def Let_def split: if_splits)
qed

lemma answered_fail: "responses s = [] \<Longrightarrow> answered_once env (SW_fail env et c p s)"
  using fail_answers [of env et c p s] by (cases "SW_fail env et c p s") (simp add: answered_once_def)

lemma answered_sent: "responses s = [] \<Longrightarrow> answered_once env (SW_sent env ret err p s)"
  using answered_fail [of s env] by (auto simp: SW_sent_def Let_def SW_Run_end_def answered_once_def [of _ "(_, _)"])

lemma answered_parsed:
  assumes "responses s = []"
  shows "answered_once env (SW_parsed env p r s)"
proof -
  have "answered_once env (SW_Run_end env q t)" if "SW_OnResponse kEctOK c body True p s = (q, t)" for c body q t
    using OnResponse_frame(1) [OF that] assms Run_end_frame [of env q t]
    by (cases "SW_Run_end env q t") (simp add: answered_once_def)
  then show ?thesis
    using answered_fail [OF assms] assms
    by (cases "ps_recvstatus (rd_parser r)")
      (auto simp: SW_parsed_def answered_once_def [of _ "(Receiving _ _, _)"] split: prod.split)
qed

lemma answered_received:
  assumes "SW_received env answer err p r s = Some st" "responses s = []"
  shows "answered_once env st"
proof (cases answer)
  case (Some d)
  have stop: "sb_broken (sw_breaker s) \<Longrightarrow> answered_once env (SW_Run_end env p' s)" for p'
    using assms(2) by (simp add: answered_once_def SW_Run_end_def)
  have wait: "answered_once env (Receiving p r, s)" using assms(2) by (simp add: answered_once_def)
  consider "st = SW_Run_end env (p\<lparr>cp_disconn_errtype := kEctCanceld\<rparr>) s" "sb_broken (sw_breaker s)"
    | "st = (Receiving p r, s)" | "st = SW_fail env kEctSocket kEctSocketShutdown p s"
    | r' s' where "st = SW_parsed env p r' s'" "responses s' = []"
    using assms Some by (auto simp: SW_received_def Let_def split: if_splits option.splits parse_result.splits)
  then show ?thesis
    by cases (simp_all add: stop wait answered_fail [OF assms(2)] answered_parsed)
qed (use assms answered_fail [OF assms(2)] in \<open>auto simp: SW_received_def\<close>)

lemma answered_start:
  assumes "worker_do env OpStart (Created, s) = Some st" "responses s = []"
  shows "answered_once env st"
proof (cases "sw_thread s")
  case True
  obtain p s1 where b: "SW_Run_begin env s = (p, s1)" by (cases "SW_Run_begin env s")
  then have s1: "lp_proxy_info p = ProxyInfo_new" "responses s1 = []" "sw_use_proxy s1 = sw_use_proxy s"
    using assms(2) by (auto simp: SW_Run_begin_def Let_def link_profile_new_def link_profile.defs ConnectProfile.defs)
  obtain r q t where r: "SW_RunConnect_prepare env p s1 = Some (r, q, t)"
    using assms(1) b True by (cases "SW_RunConnect_prepare env p s1") auto
  note f = prepare_answers [OF r s1(1,2)]
  show ?thesis
    using assms(1) b True r f(2,3) by (cases r) (auto simp: thread_ends_def answered_once_def proxy_unresolved_def)
qed (use assms in \<open>auto simp: answered_once_def\<close>)

lemma answered_step:
  assumes "worker_do env op st = Some st'" "answered_once env st"
  shows "answered_once env st'"
proof -
  obtain ph s where st: "st = (ph, s)" by (cases st)
  show ?thesis
  proof (cases op)
    case OpStart
    then show ?thesis using assms st answered_start by (cases ph) (auto simp: answered_once_def)
  next
    case (OpObserve c)
    then show ?thesis
      using assms st observe_frame [of c _ s] by (cases ph) (auto simp: answered_once_def)
  next
    case (OpConnect cr)
    then show ?thesis
    proof (cases ph)
      case (Connecting a pa t p connecting)
      then have "responses s = []" using assms(2) st by (simp add: answered_once_def)
      then show ?thesis
        using assms(1) st OpConnect Connecting finish_answers [of env connecting cr p s]
        by (auto simp: answered_once_def thread_ends_def split: option.splits bool.splits)
    qed (use assms st in auto)
  next
    case (OpSent ret err)
    then show ?thesis
    proof (cases ph)
      case (Sending p)
      then show ?thesis using assms st OpSent answered_sent [of s env ret err p] by (auto simp: answered_once_def [of _ "(Sending _, _)"])
    qed (use assms st OpSent in auto)
  next
    case (OpReceived answer err)
    then show ?thesis
    proof (cases ph)
      case (Receiving p r)
      then have "responses s = []" using assms st by (simp add: answered_once_def)
      then show ?thesis using assms(1) st OpReceived Receiving answered_received by auto
    qed (use assms st OpReceived in auto)
  next
    case (OpCancel ok)
    then show ?thesis
      using assms st cancel_breaks [of s ok] by (cases ph) (auto simp: answered_once_def proxy_unresolved_def)
  next
    case OpDeliver
    then show ?thesis using assms st by (cases ph) (auto simp: answered_once_def proxy_unresolved_def)
  qed
qed

lemma reach_answered: "worker_reach env st0 st \<Longrightarrow> answered_once env st0 \<Longrightarrow> answered_once env st"
  by (induction rule: worker_reach.induct) (auto intro: answered_step)

text \<open>C26. A worker answers once. Whatever the system answers, in whatever order the calls of other
  threads come, \<open>OnResponse\<close> is called at most once and not before the end of the run; a run that ends
  without an answer was cancelled, or the host of its proxy could not be resolved.\<close>

theorem worker_answers_once:
  assumes "worker_reach env (Created, SW_SendRequest req ext (FillOutterIPAddr as (ShortLink_new ok t hosts up))) (ph, s)"
  shows "length (responses s) \<le> 1 \<and> (responses s \<noteq> [] \<longrightarrow> ph = Ended) \<and>
    (ph = Ended \<and> responses s = [] \<longrightarrow> sb_broken (sw_breaker s) \<or> proxy_unresolved env s)"
proof -
  have "answered_once env (Created, SW_SendRequest req ext (FillOutterIPAddr as (ShortLink_new ok t hosts up)))"
    by (simp add: answered_once_def SW_SendRequest_def FillOutterIPAddr_def ShortLink_new_def responses_def List.map_filter_def)
  from reach_answered [OF assms this] show ?thesis by (auto simp: answered_once_def split: if_splits)
qed

section \<open>Responses\<close>

text \<open>The operations of a worker that nobody cancels, while the other side answers: bytes, timeouts of
  \<open>select\<close> and deliveries of profiles.\<close>

definition quiet_op :: "worker_op \<Rightarrow> bool" where
  "quiet_op op = (case op of OpReceived (Some d) err \<Rightarrow> d \<noteq> [] \<or> err = ETIMEDOUT | OpDeliver \<Rightarrow> True | _ \<Rightarrow> False)"

definition received_by :: "worker_op list \<Rightarrow> string" where
  "received_by ops = concat (map (\<lambda>op. case op of OpReceived (Some d) err \<Rightarrow> d | _ \<Rightarrow> []) ops)"

lemma received_by_simps [simp]: "received_by [] = []"
  "received_by (op # ops) = (case op of OpReceived (Some d) err \<Rightarrow> d | _ \<Rightarrow> []) @ received_by ops"
  by (simp_all add: received_by_def)

lemma quiet_op_cases:
  assumes "quiet_op op"
  obtains "op = OpDeliver" | "op = OpReceived (Some []) ETIMEDOUT" | d err where "op = OpReceived (Some d) err" "d \<noteq> []"
  using assms by (cases op) (auto simp: quiet_op_def split: option.splits)

lemma quiet_ended:
  "list_all quiet_op ops \<Longrightarrow> \<exists>t. worker_run env ops (Ended, s) = Some (Ended, t) \<and> responses t = responses s"
proof (induction ops arbitrary: s)
  case (Cons op ops)
  then have "\<exists>t. worker_do env op (Ended, s) = Some (Ended, t) \<and> responses t = responses s"
    by (auto elim!: quiet_op_cases)
  then show ?case using Cons by fastforce
qed simp

lemma answer_run_end:
  assumes "ps_recvstatus (rd_parser r) = kEnd" "rd_status_code r = 200"
  shows "\<exists>q t. SW_parsed env p r s = (Ended, t) \<and> responses t = responses s @ [(kEctOK, 200, ps_body (rd_parser r), q)]"
proof -
  obtain q t where a: "SW_OnResponse kEctOK 200 (ps_body (rd_parser r)) True p s = (q, t)"
    by (cases "SW_OnResponse kEctOK 200 (ps_body (rd_parser r)) True p s")
  then have "SW_parsed env p r s = SW_Run_end env q t" using assms by (simp add: SW_parsed_def)
  then show ?thesis using OnResponse_frame(1) [OF a] by (simp add: SW_Run_end_def)
qed

lemma response_read:
  assumes ok: "message_ok first hdr body hs" "line_is first l" "sl_statuscode (fst (snd l)) = 200"
    and w: "w = first @ KStringCRLF @ hdr @ body"
  shows "holds_bytes first hdr body hs l k (rd_parser r) \<Longrightarrow> k < length w \<Longrightarrow> \<not> sb_broken (sw_breaker s) \<Longrightarrow>
    list_all quiet_op ops \<Longrightarrow> take k w @ received_by ops = w \<Longrightarrow>
    \<exists>q t. worker_run env ops (Receiving p r, s) = Some (Ended, t) \<and> responses t = responses s @ [(kEctOK, 200, body, q)]"
proof (induction ops arbitrary: k r s)
  case Nil
  then have "length (take k w) = length w" by simp
  then show ?case using Nil.prems(2) by simp
next
  case (Cons op ops)
  have "quiet_op op" "list_all quiet_op ops" using Cons.prems(4) by simp_all
  from this(1) show ?case
  proof (cases rule: quiet_op_cases)
    case 1
    then show ?thesis using Cons.IH [of k r "sw_deliver s"] Cons.prems by simp
  next
    case 2
    then show ?thesis using Cons.IH [of k r s] Cons.prems by (simp add: SW_received_def)
  next
    case (3 d err)
    have whole: "w = take k w @ d @ received_by ops" using Cons.prems(5) 3 by simp
    obtain q where q: "Parser_Recv d (rd_parser r) = Some (Returned q)" "holds_bytes first hdr body hs l (k + length d) q"
      using holds_recv [OF ok(1,2) Cons.prems(1) 3(2), folded w, OF whole] Cons.prems(2) by auto
    have len: "length w = k + length d + length (received_by ops)"
      using arg_cong [OF whole, of length] Cons.prems(2) by simp
    define r' where "r' = \<lparr>rd_recv_buf = rd_recv_buf r @ d,
      rd_status_code = (if FirstLineReady q then sl_statuscode (ps_statusline q) else rd_status_code r), rd_parser = q\<rparr>"
    obtain s' where s': "worker_do env op (Receiving p r, s) = Some (SW_parsed env p r' s')"
      "responses s' = responses s" "sw_breaker s' = sw_breaker s"
      using 3 q(1) Cons.prems(3) by (simp add: SW_received_def Let_def r'_def)
    show ?thesis
    proof (cases "k + length d = length w")
      case True
      have "ps_recvstatus q = kEnd" "ps_body q = body" "parsed_line q = l"
        using q(2) True w by (auto simp: holds_bytes_def Let_def KStringCRLF_def)
      then have "ps_recvstatus (rd_parser r') = kEnd" "rd_status_code r' = 200" "ps_body (rd_parser r') = body"
        using ok(3) by (auto simp: r'_def FirstLineReady_def parsed_line_def)
      then obtain p' t where "SW_parsed env p r' s' = (Ended, t)" "responses t = responses s @ [(kEctOK, 200, body, p')]"
        using answer_run_end [of r' env p s'] s'(2) by auto
      then show ?thesis using s'(1) quiet_ended [OF \<open>list_all quiet_op ops\<close>, of env t] by auto
    next
      case False
      then have lt: "k + length d < length w" using len by simp
      then have "ps_recvstatus q \<in> {TRecvStatus.kStart, kFirstLine, kHeaderFields, kBody}"
        using q(2) w by (auto simp: holds_bytes_def Let_def split: if_splits)
      then have "SW_parsed env p r' s' = (Receiving p r', s')" by (auto simp: SW_parsed_def r'_def)
      moreover have "take (k + length d) w = take k w @ d"
        using arg_cong [OF whole, of "drop k"] Cons.prems(2) by (simp add: take_add)
      ultimately show ?thesis
        using Cons.IH [of "k + length d" r' s'] q(2) lt Cons.prems(3) s' whole \<open>list_all quiet_op ops\<close>
        by (simp add: r'_def)
    qed
  qed
qed

lemma reader_holds: "holds_bytes first hdr body hs l 0 (rd_parser reader_new)"
  by (simp add: holds_bytes_def Let_def reader_new_def Parser_new_def parsed_line_def)

text \<open>C28. A response is delivered whole. When the server answers with a message of status 200, in whatever
  pieces and with whatever timeouts in between, and nobody cancels the worker, the run ends with exactly
  one call of \<open>OnResponse\<close>: success with the body of the response, byte by byte.\<close>

theorem response_delivered:
  assumes "builder_good b" "bd_csmode b = kRespond" "sl_statuscode (bd_statusline b) = 200"
    and "bd_blockbody b = Some body" "body \<noteq> []" "length body < 2 ^ 31" "HttpToBuffer b [] = (True, wire, b')"
    and "length (first_text b) \<le> 8 * 1024" "length (HeaderFields_ToString (bd_headfields b')) + 2 \<le> 128 * 1024"
    and "list_all quiet_op ops" "received_by ops = wire" "\<not> sb_broken (sw_breaker s)"
  shows "\<exists>q t. worker_run env ops (Receiving p reader_new, s) = Some (Ended, t) \<and>
     responses t = responses s @ [(kEctOK, 200, body, q)]"
proof -
  obtain first hdr where m: "wire = first @ KStringCRLF @ hdr @ body" "message_ok first hdr body (bd_headfields b')"
    "line_is first (kRespond, bd_statusline b, RequestLine_new)"
    using written_message [OF assms(1,4-9)] assms(2) by auto
  from response_read [OF m(2,3) _ m(1) reader_holds] assms(3,10-12) m(1) show ?thesis
    by (simp add: KStringCRLF_def)
qed

section \<open>Requests\<close>

lemma Trim_id: "s \<noteq> [] \<Longrightarrow> \<not> is_space (hd s) \<Longrightarrow> \<not> is_space (last s) \<Longrightarrow> Trim s = s"
proof -
  assume a: "s \<noteq> []" "\<not> is_space (hd s)" "\<not> is_space (last s)"
  have "dropWhile is_space t = t" if "t \<noteq> []" "\<not> is_space (hd t)" for t using that by (cases t) auto
  then show ?thesis using a unfolding Trim_both TrimRight_rev TrimLeft_def by (simp add: hd_rev)
qed

definition plain_char :: "char \<Rightarrow> bool" where
  "plain_char c \<longleftrightarrow> \<not> is_space c \<and> c \<notin> {CHR 0x00, CHR 0x0D, CHR 0x0A}"

lemma encode_alphabet: "x \<in> set (EncodeBase64 s) \<Longrightarrow> x = pad \<or> (\<exists>v < 64. x = base64_to_char v)"
proof (induction s rule: EncodeBase64.induct)
  case (2 a)
  then show ?case using six_bits(1,3) [of a] by (simp del: push_bit_and drop_bit_and) blast
next
  case (3 a b)
  then show ?case using six_bits(1) [of a] six_bits(2) [of a b] six_bits(4) [of b]
    by (simp del: push_bit_and drop_bit_and) blast
next
  case (4 a b c r)
  then show ?case using six_bits(1) [of a] six_bits(2) [of a b] six_bits(5) [of b c] six_bits(6) [of c]
    by (simp del: push_bit_and drop_bit_and) blast
qed simp

lemma plain_octet: "33 \<le> b \<Longrightarrow> plain_char (char_of_byte b)"
proof -
  assume "33 \<le> b"
  then have b: "33 \<le> unat b" "unat b < 256" using unsigned_less [of b, where 'a = nat] by (simp_all add: word_le_nat_alt)
  define c where "c = char_of_byte b"
  have "of_char c = unat b" using b(2) by (simp add: c_def char_of_byte_def)
  then have "33 \<le> (of_char c :: nat)" using b(1) by simp
  moreover have "is_space c \<or> c \<in> {CHR 0x00, CHR 0x0D, CHR 0x0A} \<Longrightarrow> (of_char c :: nat) \<le> 32"
    by (auto simp: is_space_def)
  ultimately show ?thesis unfolding plain_char_def c_def [symmetric] by fastforce
qed

lemma table_plain: "v < 64 \<Longrightarrow> plain_char (char_of_byte (base64_to_char v))"
proof -
  assume "v < 64"
  then have "unat v \<in> set [0..<64]" by (simp add: word_less_nat_alt)
  moreover have "\<forall>n \<in> set [0..<64]. 33 \<le> base64_to_char (word_of_nat n)" by code_simp
  ultimately have "33 \<le> base64_to_char (word_of_nat (unat v))" by blast
  then show ?thesis by (intro plain_octet) simp
qed

lemma basic_good:
  assumes "\<forall>c \<in> set cs. plain_char c" "cs \<noteq> []"
  shows "clean (''Basic '' @ cs)" "Trim (''Basic '' @ cs) = ''Basic '' @ cs"
proof -
  show "clean (''Basic '' @ cs)" using assms(1) by (auto simp: clean_def plain_char_def)
  have "last cs \<in> set cs" using assms(2) by simp
  then have "\<not> is_space (last cs)" using assms(1) by (auto simp: plain_char_def)
  then show "Trim (''Basic '' @ cs) = ''Basic '' @ cs" using assms(2) by (intro Trim_id) (simp_all add: is_space_def)
qed

lemma proxy_auth_good: "field_good (kStringProxyAuthorization, proxy_auth px)"
proof -
  define es where "es = EncodeBase64 (map octet_of (px_username px @ '':'' @ px_password px))"
  define cs where "cs = take 1017 (map char_of_byte es)"
  have "plain_char (char_of_byte pad)" by (rule plain_octet) (simp add: pad_def)
  then have "plain_char (char_of_byte x)" if "x \<in> set es" for x
    using encode_alphabet [OF that [unfolded es_def]] table_plain by auto
  then have "\<forall>c \<in> set cs. plain_char c" unfolding cs_def by (auto dest!: in_set_takeD)
  moreover have "cs \<noteq> []"
    unfolding cs_def es_def using encode_starts [of "map octet_of (px_username px @ '':'' @ px_password px)"] by auto
  moreover have "proxy_auth px = ''Basic '' @ cs" by (simp add: proxy_auth_def cs_def es_def)
  ultimately show ?thesis
    using basic_good [of cs] by (simp add: field_good_def) (simp add: kStringProxyAuthorization_def Trim_id is_space_def)
qed

text \<open>Inserting fields keeps a list in order, and never changes a field that is there.\<close>

abbreviation inserted :: "HeaderFields \<Rightarrow> HeaderFields \<Rightarrow> HeaderFields" where
  "inserted fs hs \<equiv> fold (\<lambda>f. hinsert (fst f) (snd f)) fs hs"

lemma inserted_sorted: "hsorted hs \<Longrightarrow> hsorted (inserted fs hs)"
  by (induction fs arbitrary: hs) (simp_all add: hsorted_hinsert)

lemma inserted_subset: "set (inserted fs hs) \<subseteq> set fs \<union> set hs"
proof (induction fs arbitrary: hs)
  case (Cons f fs)
  have "set (inserted (f # fs) hs) \<subseteq> set fs \<union> set (hinsert (fst f) (snd f) hs)" using Cons by simp
  also have "\<dots> \<subseteq> set (f # fs) \<union> set hs" using set_hinsert [of "fst f" "snd f" hs] by auto
  finally show ?case .
qed simp

lemma found_after:
  "hsorted hs \<Longrightarrow> hfind m (inserted fs hs) =
     (case hfind m hs of None \<Rightarrow> find (\<lambda>f. hkey (fst f) = hkey m) fs | Some p \<Rightarrow> Some p)"
proof (induction fs arbitrary: hs)
  case (Cons f fs)
  have "hfind m (inserted (f # fs) hs) = hfind m (inserted fs (hinsert (fst f) (snd f) hs))" by simp
  then show ?case
    using Cons.IH [OF hsorted_hinsert [OF Cons.prems]] hfind_hinsert [OF Cons.prems]
    by (cases "hfind m hs"; cases "hkey m = hkey (fst f)") simp_all
qed (simp split: option.split)

lemma HeaderFiled_good: "field_good p \<Longrightarrow> HeaderFiled (fst p) (snd p) = hinsert (fst p) (snd p)"
  by (rule ext) (simp add: HeaderFiled_def field_good_def)

definition pack_fields :: "string \<Rightarrow> HeaderFields" where
  "pack_fields body =
     [MakeAcceptAll, (KStringUserAgent, KStringMicroMessenger), MakeCacheControlNoCache,
      MakeContentTypeOctetStream, MakeConnectionClose,
      (KStringContentLength, print_int (int (length body mod 2 ^ 32)))]"

lemma pack_fields_good: "\<forall>p \<in> set (pack_fields body). field_good p"
proof -
  have "field_good (KStringContentLength, print_int (int n))" for n
    by (simp add: field_good_def print_int_clean) (simp add: KStringContentLength_def Trim_def is_space_def)
  moreover have "field_good MakeAcceptAll" "field_good (KStringUserAgent, KStringMicroMessenger)"
    "field_good MakeCacheControlNoCache" "field_good MakeContentTypeOctetStream" "field_good MakeConnectionClose"
    by code_simp+
  ultimately show ?thesis by (simp add: pack_fields_def)
qed

lemma pack_keys:
  "map (hkey \<circ> fst) (pack_fields body) = map hkey [''Accept'', ''User-Agent'', ''Cache-Control'', ''Content-Type'', ''Connection'', ''Content-Length'']"
  by (simp add: pack_fields_def MakeAcceptAll_def KStringAccept_def KStringUserAgent_def MakeCacheControlNoCache_def
      KStringCacheControl_def MakeContentTypeOctetStream_def KStringContentType_def MakeConnectionClose_def
      KStringConnection_def KStringContentLength_def)

lemma request_headers_good:
  assumes "clean (cp_host p)" "Trim (cp_host p) = cp_host p"
  shows "\<forall>f \<in> set (request_headers p). field_good f"
proof -
  have "clean KStringHost \<and> KStringHost \<noteq> [] \<and> CHR '':'' \<notin> set KStringHost \<and> Trim KStringHost = KStringHost"
    by code_simp
  then show ?thesis using assms proxy_auth_good by (auto simp: request_headers_def Let_def field_good_def)
qed

lemma pack_wire:
  fixes url fs body
  defines "hs \<equiv> inserted fs (inserted (pack_fields body) [])"
  assumes "\<forall>f \<in> set fs. field_good f"
  shows "shortlink_pack url fs body [] =
     RequestLine_ToString \<lparr>rq_method = kPost, rq_url = url, rq_version = kVersion_1_1\<rparr> @
     HeaderFields_ToString hs @ KStringCRLF @ body"
proof -
  have "fold (\<lambda>f. HeaderFiled (fst f) (snd f)) fs x = inserted fs x" for x
    using assms(2) by (intro fold_cong) (auto simp: HeaderFiled_good)
  moreover have "hs \<noteq> []"
  proof -
    have "hfind KStringAccept (inserted (pack_fields body) []) \<noteq> None"
      using found_after [of "[]" KStringAccept "pack_fields body"]
      by (simp add: hsorted_def hfind_def pack_fields_def MakeAcceptAll_def)
    moreover have "hsorted (inserted (pack_fields body) [])" by (rule inserted_sorted) (simp add: hsorted_def)
    ultimately have "hfind KStringAccept hs \<noteq> None" by (auto simp: hs_def found_after)
    then show ?thesis by (auto simp: hfind_def)
  qed
  then have "HeaderFields_ToString hs \<noteq> []"
    using lines_text_nonempty [of "map field_text hs"] by (auto simp: ToString_lines)
  moreover have "RequestLine_ToString r \<noteq> []" for r by (simp add: RequestLine_ToString_def KStringSpace_def)
  ultimately show ?thesis
    by (simp add: shortlink_pack_def Let_def HeaderToBuffer_def Builder_new_def hs_def pack_fields_def RequestLine_ToString_def)
qed

lemma pack_found:
  fixes fs body
  defines "hs \<equiv> inserted fs (inserted (pack_fields body) [])"
  assumes "length body < 2 ^ 31" "\<forall>f \<in> set fs. hkey (fst f) \<noteq> hkey KStringTransferEncoding"
  shows "hsorted hs" "ContentLength hs = int (length body)" "\<not> IsTransferEncodingChunked hs"
    "hkey m \<notin> set (map (hkey \<circ> fst) (pack_fields body)) \<Longrightarrow> hfind m hs = find (\<lambda>f. hkey (fst f) = hkey m) fs"
proof -
  let ?ps = "inserted (pack_fields body) []"
  have s: "hsorted ?ps" by (rule inserted_sorted) (simp add: hsorted_def)
  then show "hsorted hs" by (simp add: hs_def inserted_sorted)
  have none: "hfind m ?ps = find (\<lambda>f. hkey (fst f) = hkey m) (pack_fields body)" for m
    using found_after [of "[]" m "pack_fields body"] by (simp add: hsorted_def hfind_def)
  have find: "find (\<lambda>f. hkey (fst f) = k) (pack_fields body) = None \<longleftrightarrow> k \<notin> set (map (hkey \<circ> fst) (pack_fields body))" for k
    by (force simp: find_None_iff)
  have keys: "hkey KStringTransferEncoding \<notin> set (map (hkey \<circ> fst) (pack_fields body))"
    unfolding pack_keys by code_simp
  have diff: "hkey KStringContentLength \<notin> {hkey ''Accept'', hkey ''User-Agent'', hkey ''Cache-Control'', hkey ''Content-Type'', hkey ''Connection''}"
    by code_simp
  have "find (\<lambda>f. hkey (fst f) = hkey KStringContentLength) (pack_fields body)
      = Some (KStringContentLength, print_int (int (length body)))"
    using diff pack_keys [of body] assms(2) by (auto simp: pack_fields_def)
  then have "hfind KStringContentLength hs = Some (KStringContentLength, print_int (int (length body)))"
    using s none by (simp add: hs_def found_after)
  then show "ContentLength hs = int (length body)"
    using strtol_print [of "length body"] assms(2) by (simp add: ContentLength_def HeaderField_def print_int_clean s32_id)
  have "find (\<lambda>f. hkey (fst f) = hkey KStringTransferEncoding) fs = None" using assms(3) by (auto simp: find_None_iff)
  then have "hfind KStringTransferEncoding hs = None"
    using s none [of KStringTransferEncoding] find [THEN iffD2, OF keys] by (simp add: hs_def found_after)
  then show "\<not> IsTransferEncodingChunked hs" by (simp add: IsTransferEncodingChunked_def HeaderField_def)
  show "hfind m hs = find (\<lambda>f. hkey (fst f) = hkey m) fs" if "hkey m \<notin> set (map (hkey \<circ> fst) (pack_fields body))"
    using s none [of m] find [THEN iffD2, OF that] by (simp add: hs_def found_after)
qed

text \<open>C27. A server understands the request. The bytes that a worker sends are parsed back, in whatever
  pieces they arrive, as a POST of the task's path to the host of the connection with exactly the body
  that was given to \<open>SendRequest\<close>; the host and, where they are sent, the credentials of the proxy
  arrive as they are, whatever characters these have.\<close>

theorem request_understood:
  assumes "request_url (sw_task s) p \<noteq> []" "clean (request_url (sw_task s) p)" "CHR '' '' \<notin> set (request_url (sw_task s) p)"
    and "clean (cp_host p)" "Trim (cp_host p) = cp_host p" "length (sw_send_body s) < 2 ^ 31"
    and "length (request_url (sw_task s) p) \<le> 8000" "length (SW_request p s) \<le> length (sw_send_body s) + 128 * 1024"
    and "concat ds = SW_request p s" "[] \<notin> set ds"
  shows "\<exists>q. feed ds Parser_new = Some (Returned q) \<and> Parser_Success q \<and> ps_csmode q = kRequest \<and>
     ps_requestline q = \<lparr>rq_method = kPost, rq_url = request_url (sw_task s) p, rq_version = kVersion_1_1\<rparr> \<and>
     ps_body q = sw_send_body s \<and> (\<forall>f \<in> set (request_headers p). HeaderField (fst f) (ps_headfields q) = Some (snd f))"
proof -
  let ?r = "\<lparr>rq_method = kPost, rq_url = request_url (sw_task s) p, rq_version = kVersion_1_1\<rparr>"
  let ?f = "''POST '' @ request_url (sw_task s) p @ '' HTTP/1.1''" and ?body = "sw_send_body s"
  define hs where "hs = inserted (request_headers p) (inserted (pack_fields ?body) [])"
  note good = request_headers_good [OF assms(4,5)]
  have line: "RequestLine_ToString ?r = ?f @ KStringCRLF" by (simp add: RequestLine_ToString_def KStringSpace_def)
  have wire: "SW_request p s = ?f @ KStringCRLF @ (HeaderFields_ToString hs @ KStringCRLF) @ ?body"
    using pack_wire [OF good] by (simp add: SW_request_def hs_def line)
  have keys: "hkey KStringHost \<noteq> hkey kStringProxyAuthorization" "hkey KStringHost \<notin> set (map (hkey \<circ> fst) (pack_fields ?body))"
    "hkey kStringProxyAuthorization \<notin> set (map (hkey \<circ> fst) (pack_fields ?body))"
    unfolding pack_keys by code_simp+
  have "hkey KStringHost \<noteq> hkey KStringTransferEncoding \<and> hkey kStringProxyAuthorization \<noteq> hkey KStringTransferEncoding"
    by code_simp
  then have "\<forall>f \<in> set (request_headers p). hkey (fst f) \<noteq> hkey KStringTransferEncoding"
    by (auto simp: request_headers_def Let_def)
  note f = pack_found [OF assms(6) this, folded hs_def]
  have host: "hfind KStringHost hs = Some (KStringHost, cp_host p)" by (simp add: f(4) [OF keys(2)] request_headers_def Let_def)
  have found: "\<forall>f \<in> set (request_headers p). hfind (fst f) hs = Some f"
    using keys(1) f(4) [OF keys(3)] host by (auto simp: request_headers_def Let_def)
  have "set hs \<subseteq> set (request_headers p) \<union> set (pack_fields ?body)"
    unfolding hs_def using inserted_subset [of "request_headers p"] inserted_subset [of "pack_fields ?body" "[]"] by fastforce
  then have hs: "\<forall>p \<in> set hs. field_good p" using good pack_fields_good by blast
  have "message_ok ?f (HeaderFields_ToString hs @ KStringCRLF) ?body hs"
  proof (rule built_ok [OF _ _ f(1) hs])
    show "clean ?f" using assms(2) by simp
    show "hs \<noteq> []" using host by (auto simp: hfind_def)
    show "length (HeaderFields_ToString hs) + 2 \<le> 128 * 1024" using assms(8) by (simp add: wire KStringCRLF_def)
  qed (use assms(7) f(2,3) in simp_all)
  moreover have "line_is ?f (kRequest, StatusLine_new, ?r)"
    using assms(1-3) line by (intro line_is_request) (simp_all add: request_good_def)
  ultimately obtain q where "feed ds Parser_new = Some (Returned q)" "Parser_Success q"
    "parsed_line q = (kRequest, StatusLine_new, ?r)" "ps_headfields q = hs" "ps_body q = ?body"
    using message_received [of ?f _ ?body hs _ ds] assms(9,10) wire by metis
  then show ?thesis
    using found good by (intro exI [of _ q]) (simp add: parsed_line_def HeaderField_def field_good_def)
qed

section \<open>The port of the profile\<close>

definition port_ok :: "phase \<Rightarrow> bool" where
  "port_ok ph \<longleftrightarrow>
     (case ph of
        Connecting addrs proxy typ p connecting \<Rightarrow> lp_ip_items p \<noteq> [] \<and> cp_port p = ipport (hd (lp_ip_items p))
      | Sending p \<Rightarrow> (\<exists>i < length (lp_ip_items p). cp_ip_index p = int i \<and> cp_ip p = str_ip (lp_ip_items p ! i) \<and>
                       cp_port p = ipport (hd (lp_ip_items p)))
      | _ \<Rightarrow> True)"

lemma prepare_port:
  assumes "SW_RunConnect_prepare env p s = Some (PrepConnect a b c, q, t)"
  shows "lp_ip_items q \<noteq> [] \<and> cp_port q = ipport (hd (lp_ip_items q))"
proof -
  obtain up p1 s1 where a: "SW_addresses env p s = (up, p1, s1)" by (cases "SW_addresses env p s")
  show ?thesis
  proof (cases "lp_ip_items p1")
    case Nil
    then show ?thesis
      using assms a by (simp add: SW_RunConnect_prepare_def Let_def split: option.splits list.splits prod.splits if_splits)
  next
    case (Cons i its)
    then show ?thesis
      using assms a
      by (auto simp: SW_RunConnect_prepare_def Let_def set_item_def split: option.splits prod.splits if_splits)
  qed
qed

lemma finish_port:
  assumes "SW_RunConnect_finish env connecting cr p s = Some (True, q, t)" "cp_port p = ipport (hd (lp_ip_items p))"
  shows "port_ok (Sending q)"
  using assms by (auto simp: SW_RunConnect_finish_def Let_def port_ok_def split: option.splits prod.splits if_splits)

lemma received_phase:
  assumes "SW_received env answer err p r s = Some (ph, t)"
  shows "ph = Ended \<or> (\<exists>p' r'. ph = Receiving p' r')"
  using assms
  by (auto simp: SW_received_def SW_parsed_def SW_fail_def SW_Run_end_def Let_def
      split: option.splits parse_result.splits if_splits prod.splits TRecvStatus.splits)

lemma port_step:
  assumes "worker_do env op st = Some st'" "port_ok (fst st)"
  shows "port_ok (fst st')"
proof -
  obtain ph s where st: "st = (ph, s)" by (cases st)
  show ?thesis
  proof (cases op)
    case OpStart
    then show ?thesis
      using assms st prepare_port
      by (cases ph) (auto simp: port_ok_def thread_ends_def split: if_splits prod.splits option.splits prepared.splits)
  next
    case (OpObserve c)
    then show ?thesis using assms st by (cases ph) (auto simp: port_ok_def)
  next
    case (OpConnect cr)
    then show ?thesis
      using assms st finish_port
      by (cases ph) (auto simp: port_ok_def [of "Connecting _ _ _ _ _"] port_ok_def [of Ended] thread_ends_def split: option.splits bool.splits)
  next
    case (OpSent ret err)
    then show ?thesis
      using assms st by (cases ph) (auto simp: port_ok_def SW_sent_def SW_Run_end_def Let_def split: if_splits)
  next
    case (OpReceived answer err)
    then show ?thesis
    proof (cases ph)
      case (Receiving p r)
      then have "fst st' = Ended \<or> (\<exists>p' r'. fst st' = Receiving p' r')"
        using assms(1) st OpReceived received_phase [of env answer err p r s "fst st'" "snd st'"] by simp
      then show ?thesis by (auto simp: port_ok_def)
    qed (use assms st OpReceived in \<open>auto simp: port_ok_def\<close>)
  next
    case (OpCancel ok)
    then show ?thesis using assms st by (cases ph) (auto simp: port_ok_def)
  next
    case OpDeliver
    then show ?thesis using assms st by (cases ph) (auto simp: port_ok_def)
  qed
qed

lemma reach_port: "worker_reach env st0 st \<Longrightarrow> port_ok (fst st0) \<Longrightarrow> port_ok (fst st)"
  by (induction rule: worker_reach.induct) (auto intro: port_step)

text \<open>A worker that is connected keeps the port of its first address. The profile of every
  connection holds the address that was reached but the port of the first item of the list, whichever
  address it was, so errors are reported for a pair of address and port that was not used.\<close>

theorem connected_port_first:
  assumes "worker_reach env (Created, s0) (Sending q, s)"
  shows "\<exists>i < length (lp_ip_items q). cp_ip_index q = int i \<and> cp_ip q = str_ip (lp_ip_items q ! i) \<and>
     cp_port q = ipport (hd (lp_ip_items q))"
  using reach_port [OF assms] by (simp add: port_ok_def)

section \<open>Samples\<close>

definition sample_items :: "IPPortItem list" where
  "sample_items = [\<lparr>str_ip = ''10.0.0.1'', ipport = 80, source_type = kIPSourceDNS, str_host = ''a''\<rparr>,
     \<lparr>str_ip = ''10.0.0.2'', ipport = 8080, source_type = kIPSourceDNS, str_host = ''a''\<rparr>]"

definition sample_connect :: connect_env where
  "sample_connect = \<lparr>ce_ip_items = sample_items, ce_proxy = ProxyInfo_new, ce_debug_ip = '''', ce_nat64 = False,
     ce_proxy_dns = None, ce_net_label = ''wifi'', ce_tid = 7\<rparr>"

definition sample_short_env :: short_env where
  "sample_short_env = \<lparr>sv_start = 1, sv_dns = 2, sv_dns_end = 3, sv_conn = 4, sv_port = 80, sv_signal = 0,
     sv_connect = sample_connect\<rparr>"

definition sample_worker :: ShortLink where
  "sample_worker = SW_SendRequest ''q'' [] (FillOutterIPAddr [] (ShortLink_new True ((Task_new 9)\<lparr>cgi := ''/c''\<rparr>) [''a''] False))"

definition sample_result :: connect_result where
  "sample_result = \<lparr>cr_calls = [], cr_index = Some 1, cr_error = 0, cr_rtt = 5, cr_cost = 6, cr_trycount = 2,
     cr_local_ip = ''10.0.0.9'', cr_local_port = 4000\<rparr>"

lemma run_reach: "worker_run env ops st = Some st' \<Longrightarrow> worker_reach env st0 st \<Longrightarrow> worker_reach env st0 st'"
  by (induction ops arbitrary: st) (auto split: option.splits intro: worker_reach.step)

lemma sample_connects:
  obtains q s where "worker_run sample_short_env [OpStart, OpConnect sample_result] (Created, sample_worker) = Some (Sending q, s)"
    "cp_ip q = ''10.0.0.2''" "cp_port q = 80" "cp_host q = ''a''" "request_headers q = [(KStringHost, ''a'')]"
    "request_url (sw_task s) q = ''/c''" "sw_send_body s = ''q''" "responses s = []" "\<not> sb_broken (sw_breaker s)"
proof -
  have "case worker_run sample_short_env [OpStart, OpConnect sample_result] (Created, sample_worker) of
      Some (Sending q, s) \<Rightarrow> cp_ip q = ''10.0.0.2'' \<and> cp_port q = 80 \<and> cp_host q = ''a'' \<and>
        request_headers q = [(KStringHost, ''a'')] \<and> request_url (sw_task s) q = ''/c'' \<and> sw_send_body s = ''q'' \<and>
        responses s = [] \<and> \<not> sb_broken (sw_breaker s)
    | _ \<Rightarrow> False"
    by code_simp
  then show ?thesis
    using that by (auto split: option.splits prod.splits phase.splits)
qed

theorem connected_port_first_witness:
  "\<exists>q s. worker_reach sample_short_env (Created, sample_worker) (Sending q, s) \<and> cp_port q = 80 \<and>
     (\<exists>i < length (lp_ip_items q). cp_ip_index q = int i \<and> cp_ip q = str_ip (lp_ip_items q ! i))"
proof -
  obtain q s where w: "worker_run sample_short_env [OpStart, OpConnect sample_result] (Created, sample_worker) = Some (Sending q, s)"
    "cp_port q = 80" by (rule sample_connects)
  have r: "worker_reach sample_short_env (Created, sample_worker) (Sending q, s)"
    by (rule run_reach [OF w(1) worker_reach.start])
  then show ?thesis using connected_port_first [OF r] w(2) by blast
qed

theorem worker_answers_once_witness:
  "\<exists>s. worker_reach sample_short_env (Created, sample_worker) (Ended, s) \<and> responses s \<noteq> [] \<and> length (responses s) \<le> 1"
proof -
  obtain q s where w: "worker_run sample_short_env [OpStart, OpConnect sample_result] (Created, sample_worker) = Some (Sending q, s)"
    "responses s = []" by (rule sample_connects)
  obtain t where t: "SW_fail sample_short_env kEctSocket 32 q s = (Ended, t)" "length (responses t) = 1"
    using fail_answers [of sample_short_env kEctSocket 32 q s] w(2)
    by (cases "SW_fail sample_short_env kEctSocket 32 q s") simp
  have "worker_reach sample_short_env (Created, sample_worker) (Sending q, s)"
    by (rule run_reach [OF w(1) worker_reach.start])
  then have "worker_reach sample_short_env (Created, sample_worker) (Ended, t)"
    by (rule worker_reach.step [where op = "OpSent (-1) 32"]) (simp add: SW_sent_def t(1))
  then show ?thesis
    using worker_answers_once [of sample_short_env "''q''" "[]" "[]" True "(Task_new 9)\<lparr>cgi := ''/c''\<rparr>" "[''a'']" False Ended t] t(2)
    by (auto simp: sample_worker_def)
qed

lemma inserted_length:
  "length (HeaderFields_ToString (inserted fs hs)) \<le> length (HeaderFields_ToString fs) + length (HeaderFields_ToString hs)"
proof (induction fs arbitrary: hs)
  case (Cons f fs)
  have "length (HeaderFields_ToString (hinsert n v hs)) \<le> length (field_line (n, v)) + length (HeaderFields_ToString hs)" for n v
    by (induction n v hs rule: hinsert.induct) (auto simp: HeaderFields_ToString_def)
  from this [of "fst f" "snd f"] Cons.IH [of "hinsert (fst f) (snd f) hs"] show ?case
    by (simp add: HeaderFields_ToString_def)
qed (simp add: HeaderFields_ToString_def)

theorem request_understood_witness:
  "\<exists>q p s. request_url (sw_task s) p = ''/c'' \<and> feed [SW_request p s] Parser_new = Some (Returned q) \<and> Parser_Success q \<and>
     ps_body q = ''q'' \<and> HeaderField KStringHost (ps_headfields q) = Some ''a''"
proof -
  obtain p :: link_profile and s :: ShortLink where w: "request_headers p = [(KStringHost, ''a'')]" "request_url (sw_task s) p = ''/c''" "sw_send_body s = ''q''"
    "cp_host p = ''a''" by (rule sample_connects) blast
  have good: "\<forall>f \<in> set [(KStringHost, ''a'')]. field_good f" by code_simp
  note wire = pack_wire [OF good, of "''/c''" "''q''"]
  have fields: "pack_fields ''q'' = [MakeAcceptAll, (KStringUserAgent, KStringMicroMessenger), MakeCacheControlNoCache,
      MakeContentTypeOctetStream, MakeConnectionClose, (KStringContentLength, print_int 1)]"
    by (simp add: pack_fields_def)
  have "length (HeaderFields_ToString (pack_fields ''q'')) \<le> 300" unfolding fields by code_simp
  moreover have "length (HeaderFields_ToString [(KStringHost, ''a'')]) = 9" "HeaderFields_ToString [] = []" by code_simp+
  moreover have "length (RequestLine_ToString \<lparr>rq_method = kPost, rq_url = ''/c'', rq_version = kVersion_1_1\<rparr>) = 18"
    by code_simp
  ultimately have l: "length (SW_request p s) \<le> 1000" "SW_request p s \<noteq> []"
    unfolding SW_request_def w wire
    using inserted_length [of "pack_fields ''q''" "[]"] inserted_length [of "[(KStringHost, ''a'')]" "inserted (pack_fields ''q'') []"]
    by (auto simp: KStringCRLF_def)
  then have ne: "[] \<notin> set [SW_request p s]" by auto
  have "clean ''/c'' \<and> clean ''a'' \<and> Trim ''a'' = ''a''" by code_simp
  then show ?thesis
    using request_understood [of s p "[SW_request p s]"] w l ne by (auto simp del: feed.simps)
qed

theorem response_delivered_witness:
  "\<exists>q t. worker_run sample_short_env
     [OpReceived (Some ''HTTP/1.1 20'') 0, OpReceived (Some []) ETIMEDOUT, OpDeliver,
      OpReceived (Some (''0 OK'' @ KStringCRLF @ ''Content-Length: 2'' @ KStringCRLF @ ''Host: a'' @ CRLFCRLF @ ''h'')) 0,
      OpReceived (Some ''i'') 0] (Receiving link_profile_new reader_new, sample_worker) = Some (Ended, t) \<and>
     responses t = [(kEctOK, 200, ''hi'', q)]"
proof -
  let ?ops = "[OpReceived (Some ''HTTP/1.1 20'') 0, OpReceived (Some []) ETIMEDOUT, OpDeliver,
      OpReceived (Some (''0 OK'' @ KStringCRLF @ ''Content-Length: 2'' @ KStringCRLF @ ''Host: a'' @ CRLFCRLF @ ''h'')) 0,
      OpReceived (Some ''i'') 0]"
  let ?b = "\<lparr>bd_csmode = kRespond, bd_statusline = \<lparr>sl_version = kVersion_1_1, sl_statuscode = 200, sl_reason_phrase = ''OK''\<rparr>,
     bd_requestline = RequestLine_new, bd_headfields = [(''Host'', ''a'')], bd_blockbody = Some ''hi'', bd_streambody = None\<rparr>"
  let ?b' = "?b\<lparr>bd_headfields := [(KStringContentLength, ''2''), (''Host'', ''a'')], bd_blockbody := Some []\<rparr>"
  have "builder_good ?b" by code_simp
  moreover have "HttpToBuffer ?b [] = (True, received_by ?ops, ?b')" by code_simp
  moreover have "length (first_text ?b) = 17" "length (HeaderFields_ToString (bd_headfields ?b')) = 28" by code_simp+
  moreover have "list_all quiet_op ?ops" by (simp add: quiet_op_def)
  moreover have "\<not> sb_broken (sw_breaker sample_worker)" "responses sample_worker = []" by code_simp+
  ultimately show ?thesis
    using response_delivered [of ?b "''hi''" "received_by ?ops" ?b' ?ops sample_worker sample_short_env link_profile_new] by simp
qed

section \<open>What goes unanswered or is lost\<close>

lemma addresses_events: "sw_events (snd (snd (SW_addresses env p s))) = sw_events s"
  by (simp add: SW_addresses_def Let_def SW_UpdateProfile_def split: list.split)

text \<open>A run whose proxy has no address ends without any event: no response, no report.\<close>

theorem proxy_dns_silent:
  assumes "proxy_unresolved env s" "sw_thread s"
  shows "\<exists>t. worker_do env OpStart (Created, s) = Some (Ended, t) \<and> sw_events t = sw_events s"
proof -
  obtain p s1 where b: "SW_Run_begin env s = (p, s1)" by (cases "SW_Run_begin env s")
  then have s1: "sw_events s1 = sw_events s" "sw_use_proxy s1 = sw_use_proxy s"
    by (auto simp: SW_Run_begin_def Let_def SW_UpdateProfile_def)
  obtain up q t where a: "SW_addresses env p s1 = (up, q, t)" by (cases "SW_addresses env p s1")
  have "up" "lp_proxy_info q = ce_proxy (sv_connect env)" "sw_events t = sw_events s"
    using addresses_frame [of env p s1, unfolded a] addresses_events [of env p s1, unfolded a] assms(1) s1
    by (simp_all add: proxy_unresolved_def)
  then show ?thesis
    using assms b a by (simp add: SW_RunConnect_prepare_def Let_def proxy_unresolved_def thread_ends_def)
qed

text \<open>A body that the end of the connection delimits.\<close>

lemma close_body_step:
  assumes m: "message_ok first hdr [] hs" "IsConnectionClose hs" and d: "d \<noteq> []"
    and p: "ps_recvstatus p = kHeaderFields" "ps_recvbuf p = hdr @ d" "ps_headfields p = []" "ps_body p = []"
  shows "\<exists>q. parse_loop True p = Some (Returned q) \<and> ps_recvstatus q = kBody \<and> ps_body q = d"
proof -
  have h: "search (=) CRLFCRLF (hdr @ d) = Some (length hdr - 4)" "4 \<le> length hdr" "CHR 0x00 \<notin> set hdr"
    "ParserHeaders hdr [] = hs" "\<not> IsTransferEncodingChunked hs" "ContentLength hs = 0"
    using m(1) by (auto simp: message_ok_def)
  have s: "string_strnstr (hdr @ d) CRLFCRLF (length (hdr @ d)) = Some (length hdr - 4)"
    using strnstr_found [OF h(1), of "length (hdr @ d)"] h(2,3) by simp
  let ?q = "p\<lparr>ps_headfields := hs, ps_recvstatus := kBody, ps_headerbuf := hb_write hdr (ps_headerbuf p),
    ps_recvbuf := d, ps_headerlength := length hdr\<rparr>"
  have "parse_step True p = Continues ?q"
    using p s h by (simp add: parse_step_def parse_fields_def Let_def)
  moreover have "parse_step True ?q = Returned (?q\<lparr>ps_body := d, ps_recvbuf := []\<rparr>)"
    using p h m(2) d by (simp add: parse_step_def parse_plain_def Let_def if_more_def)
  ultimately show ?thesis by (simp add: parse_loop_unfold [of True p] parse_loop_unfold [of True ?q])
qed

lemma received_goes_on:
  assumes "Parser_Recv d (rd_parser r) = Some (Returned q)" "d \<noteq> []" "\<not> sb_broken (sw_breaker s)"
    and "ps_recvstatus q \<in> {kHeaderFields, kBody}"
  shows "\<exists>r' s'. SW_received env (Some d) err p r s = Some (Receiving p r', s') \<and> rd_parser r' = q \<and>
     responses s' = responses s \<and> sw_breaker s' = sw_breaker s"
  using assms by (auto simp: SW_received_def Let_def SW_parsed_def)

text \<open>A response whose body ends with the connection is never delivered. When its header arrives
  alone, the worker reports success with an empty body and the body is lost; when the header arrives
  together with the body, the end of the connection is reported as an error.\<close>

theorem close_delimited_lost:
  assumes "message_ok first hdr [] hs" "line_is first l" "sl_statuscode (fst (snd l)) = 200" "IsConnectionClose hs"
    and "d \<noteq> []" "\<not> sb_broken (sw_breaker s)"
  shows "(\<exists>q t. worker_run env [OpReceived (Some (first @ KStringCRLF @ hdr)) 0, OpReceived (Some d) 0]
            (Receiving p reader_new, s) = Some (Ended, t) \<and> responses t = responses s @ [(kEctOK, 200, [], q)]) \<and>
         (\<exists>q t. worker_run env [OpReceived (Some (first @ KStringCRLF)) 0, OpReceived (Some (hdr @ d)) 0, OpReceived (Some []) 0]
            (Receiving p reader_new, s) = Some (Ended, t) \<and>
            responses t = responses s @ [(kEctSocket, kEctSocketShutdown, [], q)])"
proof
  let ?w = "first @ KStringCRLF @ hdr"
  let ?op = "OpReceived (Some ?w) 0"
  have "list_all quiet_op [?op]" "take 0 ?w @ received_by [?op] = ?w" "0 < length ?w"
    by (simp_all add: quiet_op_def KStringCRLF_def)
  then obtain q t where "worker_run env [?op] (Receiving p reader_new, s) = Some (Ended, t)"
    "responses t = responses s @ [(kEctOK, 200, [], q)]"
    using response_read [OF assms(1-3) _ reader_holds, of ?w s "[?op]" env p] assms(6)
    by (auto simp del: worker_run.simps received_by_simps)
  then show "\<exists>q t. worker_run env [OpReceived (Some ?w) 0, OpReceived (Some d) 0]
            (Receiving p reader_new, s) = Some (Ended, t) \<and> responses t = responses s @ [(kEctOK, 200, [], q)]"
    by (auto split: option.splits)
next
  let ?f = "first @ KStringCRLF"
  obtain q1 where q1: "Parser_Recv ?f Parser_new = Some (Returned q1)" "holds_bytes first hdr [] hs l (length first + 2) q1"
    using holds_recv [OF assms(1,2) reader_holds, of ?f hdr, unfolded reader_new_def, simplified]
    by (auto simp: KStringCRLF_def)
  have hdr: "4 \<le> length hdr" using assms(1) by (simp add: message_ok_def)
  then have b1: "ps_recvstatus q1 = kHeaderFields" "ps_recvbuf q1 = []" "ps_headfields q1 = []" "ps_body q1 = []"
    using q1(2) by (auto simp: holds_bytes_def Let_def KStringCRLF_def split: if_splits)
  let ?q = "(keep_header (hdr @ d) q1)\<lparr>ps_recvbuf := hdr @ d\<rparr>"
  obtain q2 where q2: "parse_loop True ?q = Some (Returned q2)" "ps_recvstatus q2 = kBody"
    using close_body_step [OF assms(1,4,5), of ?q] b1 by auto
  then have r2: "Parser_Recv (hdr @ d) q1 = Some (Returned q2)"
    using b1 assms(5) by (simp add: Parser_Recv_def Let_def)
  have ne: "?f \<noteq> []" "hdr @ d \<noteq> []" using assms(5) by (simp_all add: KStringCRLF_def)
  have "Parser_Recv ?f (rd_parser reader_new) = Some (Returned q1)" using q1(1) by (simp add: reader_new_def)
  from received_goes_on [OF this ne(1) assms(6)] b1(1) obtain r1 s1 where
    s1: "SW_received env (Some ?f) 0 p reader_new s = Some (Receiving p r1, s1)" "rd_parser r1 = q1"
      "responses s1 = responses s" "sw_breaker s1 = sw_breaker s" by blast
  have "Parser_Recv (hdr @ d) (rd_parser r1) = Some (Returned q2)" using r2 s1(2) by simp
  from received_goes_on [OF this ne(2)] q2(2) assms(6) s1(4) obtain r3 s3 where
    s3: "SW_received env (Some (hdr @ d)) 0 p r1 s1 = Some (Receiving p r3, s3)"
      "responses s3 = responses s" "sw_breaker s3 = sw_breaker s" using s1(3) by (metis insertCI)
  obtain q t where e: "SW_RunResponseError kEctSocket kEctSocketShutdown True p s3 = (q, t)"
    by (cases "SW_RunResponseError kEctSocket kEctSocketShutdown True p s3")
  then have "responses t = responses s @ [(kEctSocket, kEctSocketShutdown, [], q)]"
    using OnResponse_frame(1) s3(2) by (simp add: SW_RunResponseError_def)
  moreover have "SW_received env (Some []) 0 p r3 s3 = Some (SW_Run_end env q t)"
    using s3(3) assms(6) e by (simp add: SW_received_def SW_fail_def ETIMEDOUT_def)
  ultimately show "\<exists>q t. worker_run env [OpReceived (Some ?f) 0, OpReceived (Some (hdr @ d)) 0, OpReceived (Some []) 0]
            (Receiving p reader_new, s) = Some (Ended, t) \<and>
            responses t = responses s @ [(kEctSocket, kEctSocketShutdown, [], q)]"
    using s1(1) s3(1) by (simp add: SW_Run_end_def)
qed

theorem close_delimited_lost_witness:
  "\<exists>q t. worker_run sample_short_env
      [OpReceived (Some (''HTTP/1.1 200 OK'' @ KStringCRLF @ ''Connection: close'' @ CRLFCRLF)) 0, OpReceived (Some ''body'') 0]
      (Receiving link_profile_new reader_new, sample_worker) = Some (Ended, t) \<and>
    responses t = [(kEctOK, 200, [], q)]"
proof -
  let ?s = "\<lparr>sl_version = kVersion_1_1, sl_statuscode = 200, sl_reason_phrase = ''OK''\<rparr>"
  let ?f = "''HTTP/1.1 200 OK''" and ?hs = "[(''Connection'', ''close'')]"
  have "status_good ?s" "StatusLine_ToString ?s = ?f @ KStringCRLF" by code_simp+
  then have l: "line_is ?f (kRespond, ?s, RequestLine_new)" by (rule line_is_status)
  have hdr: "HeaderFields_ToString ?hs @ KStringCRLF = ''Connection: close'' @ CRLFCRLF" by code_simp
  have c: "\<not> IsTransferEncodingChunked ?hs" "ContentLength ?hs = int (length [])" "IsConnectionClose ?hs" by code_simp+
  have "message_ok ?f (HeaderFields_ToString ?hs @ KStringCRLF) [] ?hs"
  proof (rule built_ok)
    show "hsorted ?hs" "\<forall>p \<in> set ?hs. field_good p" by code_simp+
    show "length (HeaderFields_ToString ?hs) + 2 \<le> 128 * 1024"
      by (simp add: HeaderFields_ToString_def field_line_def KStringColon_def KStringSpace_def KStringCRLF_def)
  qed (use c in simp_all)
  moreover have "\<not> sb_broken (sw_breaker sample_worker)" "responses sample_worker = []" by code_simp+
  ultimately show ?thesis
    using close_delimited_lost [of ?f "''Connection: close'' @ CRLFCRLF" ?hs "(kRespond, ?s, RequestLine_new)" "''body''"
        sample_worker sample_short_env link_profile_new] l c(3) unfolding hdr
    by (simp del: worker_run.simps)
qed

end
