(* ===== verification/Message_Queue.thy ===== *)
theory Message_Queue
  imports Ticks "HOL-Library.Sublist"
begin

text \<open>
  The message queues of comm/messagequeue/message_queue.cc, on which the STN module runs its
  operations: every task operation of the network core, every alarm and every report of a link is a
  message that the thread of a queue takes out of a list and hands to the handlers installed for it.

  \<open>mq_state\<close> is what the mutex of the file guards: the map from queue ids (thread ids) to
  contents, and the counter of \<open>__MakeSeq\<close>. A wrapper carries the address at which it was
  allocated, since the loop keeps a pointer to it while it calls the handlers without the lock; the
  addresses and the condition variables are drawn from one counter. What an operation does besides
  is a list of events: the breaker of a queue is notified, a condition is notified, the loop sleeps,
  takes a message, calls a handler. The values a message holds (\<open>boost::any\<close>) and the
  handlers (\<open>boost::function\<close>) are of types left open. An operation reads the clock once;
  the handlers of a message get it by reference and are assumed not to write to it.
\<close>

section \<open>The data\<close>

definition MAX_MQ_SIZE :: nat where "MAX_MQ_SIZE = 5000"

type_synonym queue_id = u64

definition KInvalidQueueID :: queue_id where "KInvalidQueueID = 0"

record handler_id =
  hid_queue :: queue_id
  hid_seq :: u32

definition isbroadcast :: "handler_id \<Rightarrow> bool" where
  "isbroadcast h \<longleftrightarrow> hid_seq h = 0"

record post_id =
  pid_reg :: handler_id
  pid_seq :: u32

definition KNullHandler :: handler_id where
  "KNullHandler = \<lparr>hid_queue = KInvalidQueueID, hid_seq = 0\<rparr>"

definition KNullPost :: post_id where
  "KNullPost = \<lparr>pid_reg = KNullHandler, pid_seq = 0\<rparr>"

record 'b message =
  msg_title :: u64
  msg_body1 :: 'b
  msg_body2 :: 'b
  msg_anr_timeout :: int
  msg_create_time :: u64
  msg_execute_time :: u64

text \<open>Two messages are equal when their titles are.\<close>

definition same_message :: "'b message \<Rightarrow> 'b message \<Rightarrow> bool" where
  "same_message m n \<longleftrightarrow> msg_title m = msg_title n"

datatype timing_type = kAfter | kPeriod | kImmediately

record timing =
  tim_type :: timing_type
  tim_after :: int
  tim_period :: int

definition KDefTiming :: timing where
  "KDefTiming = \<lparr>tim_type = kImmediately, tim_after = 0, tim_period = 0\<rparr>"

definition timing_after :: "int \<Rightarrow> timing" where
  "timing_after a = \<lparr>tim_type = kAfter, tim_after = a, tim_period = 0\<rparr>"

definition timing_periodic :: "int \<Rightarrow> int \<Rightarrow> timing" where
  "timing_periodic a p = \<lparr>tim_type = kPeriod, tim_after = a, tim_period = p\<rparr>"

record 'b wrapper =
  wr_addr :: nat
  wr_post :: post_id
  wr_message :: "'b message"
  wr_timing :: timing
  wr_status :: timing_type
  wr_record :: u64
  wr_end_cond :: "nat option"

definition MessageWrapper ::
  "nat \<Rightarrow> handler_id \<Rightarrow> 'b message \<Rightarrow> timing \<Rightarrow> u32 \<Rightarrow> u64 \<Rightarrow> 'b wrapper" where
  "MessageWrapper addr h m t seq now =
     \<lparr>wr_addr = addr, wr_post = \<lparr>pid_reg = h, pid_seq = seq\<rparr>, wr_message = m, wr_timing = t,
      wr_status = (if tim_type t \<noteq> kImmediately then kAfter else kImmediately),
      wr_record = (if tim_type t \<noteq> kImmediately then now else 0), wr_end_cond = None\<rparr>"

record 'h handler =
  hdl_reg :: handler_id
  hdl_handler :: 'h
  hdl_recvbroadcast :: bool

record runloop_info =
  rli_cond :: nat
  rli_message_id :: post_id
  rli_message :: "nat option"
  rli_handler :: "handler_id list"

record ('b, 'h) content =
  ct_invoke_reg :: handler_id
  ct_breakflag :: bool
  ct_message :: "'b wrapper list"
  ct_handler :: "'h handler list"
  ct_runloop :: "runloop_info list"

datatype ('b, 'h) event =
    Wake queue_id
  | Notify nat
  | Sleep queue_id int
  | Ran queue_id "'b wrapper"
  | Called 'h post_id "'b message"

record ('b, 'h) mq_state =
  mq_seq :: u32
  mq_next :: nat
  mq_map :: "queue_id \<Rightarrow> ('b, 'h) content option"
  mq_events :: "('b, 'h) event list"

definition mq_new :: "('b, 'h) mq_state" where
  "mq_new = \<lparr>mq_seq = 0, mq_next = 0, mq_map = (\<lambda>_. None), mq_events = []\<rparr>"

section \<open>Posting\<close>

definition make_seq :: "('b, 'h) mq_state \<Rightarrow> u32 \<times> ('b, 'h) mq_state" where
  "make_seq s = (mq_seq s + 1, s\<lparr>mq_seq := mq_seq s + 1\<rparr>)"

definition alloc :: "('b, 'h) mq_state \<Rightarrow> nat \<times> ('b, 'h) mq_state" where
  "alloc s = (mq_next s, s\<lparr>mq_next := Suc (mq_next s)\<rparr>)"

definition emit :: "('b, 'h) event list \<Rightarrow> ('b, 'h) mq_state \<Rightarrow> ('b, 'h) mq_state" where
  "emit es s = s\<lparr>mq_events := mq_events s @ es\<rparr>"

definition put :: "queue_id \<Rightarrow> ('b, 'h) content \<Rightarrow> ('b, 'h) mq_state \<Rightarrow> ('b, 'h) mq_state" where
  "put q c s = s\<lparr>mq_map := (mq_map s)(q := Some c)\<rparr>"

text \<open>The destructor of a wrapper wakes the threads that wait for its end.\<close>

definition delete_events :: "'b wrapper \<Rightarrow> ('b, 'h) event list" where
  "delete_events w = (case wr_end_cond w of None \<Rightarrow> [] | Some k \<Rightarrow> [Notify k])"

text \<open>The common end of the posting functions: the new wrapper goes to the end of the list and the
  breaker of the queue is notified.\<close>

definition push_back ::
  "queue_id \<Rightarrow> ('b, 'h) content \<Rightarrow> 'b wrapper \<Rightarrow> ('b, 'h) mq_state \<Rightarrow> post_id \<times> ('b, 'h) mq_state" where
  "push_back q c w s =
     (wr_post w, emit [Wake q] (put q (c\<lparr>ct_message := ct_message c @ [w]\<rparr>) s))"

definition PostMessage ::
  "handler_id \<Rightarrow> 'b message \<Rightarrow> timing \<Rightarrow> u64 \<Rightarrow> ('b, 'h) mq_state \<Rightarrow> post_id \<times> ('b, 'h) mq_state" where
  "PostMessage h m t now s =
     (case mq_map s (hid_queue h) of
        None \<Rightarrow> (KNullPost, s)
      | Some c \<Rightarrow>
          if MAX_MQ_SIZE \<le> length (ct_message c) then (KNullPost, s)
          else let (seq, s1) = make_seq s; (a, s2) = alloc s1
               in push_back (hid_queue h) c (MessageWrapper a h m t seq now) s2)"

text \<open>The messages that \<open>SingletonMessage\<close> and \<open>FasterMessage\<close> take for the same.\<close>

definition matches :: "handler_id \<Rightarrow> 'b message \<Rightarrow> 'b wrapper \<Rightarrow> bool" where
  "matches h m w \<longleftrightarrow> pid_reg (wr_post w) = h \<and> same_message (wr_message w) m"

definition SingletonMessage ::
  "bool \<Rightarrow> handler_id \<Rightarrow> 'b message \<Rightarrow> timing \<Rightarrow> u64 \<Rightarrow> ('b, 'h) mq_state \<Rightarrow>
     post_id \<times> ('b, 'h) mq_state" where
  "SingletonMessage replace h m t now s =
     (case mq_map s (hid_queue h) of
        None \<Rightarrow> (KNullPost, s)
      | Some c \<Rightarrow>
          (case find (matches h m) (ct_message c) of
             Some w \<Rightarrow>
               if \<not> replace then (wr_post w, s)
               else
                 let c1 = c\<lparr>ct_message := remove_first (matches h m) (ct_message c)\<rparr>;
                     s1 = emit (delete_events w) (put (hid_queue h) c1 s)
                 in if MAX_MQ_SIZE \<le> length (ct_message c1) then (KNullPost, s1)
                    else let (seq, s2) = (if pid_seq (wr_post w) \<noteq> 0 then (pid_seq (wr_post w), s1)
                                          else make_seq s1);
                             (a, s3) = alloc s2
                         in push_back (hid_queue h) c1 (MessageWrapper a h m t seq now) s3
           | None \<Rightarrow>
               if MAX_MQ_SIZE \<le> length (ct_message c) then (KNullPost, s)
               else let (seq, s2) = make_seq s; (a, s3) = alloc s2
                    in push_back (hid_queue h) c (MessageWrapper a h m t seq now) s3))"

definition BroadcastMessage ::
  "queue_id \<Rightarrow> 'b message \<Rightarrow> timing \<Rightarrow> u64 \<Rightarrow> ('b, 'h) mq_state \<Rightarrow> post_id \<times> ('b, 'h) mq_state" where
  "BroadcastMessage q m t now s =
     (case mq_map s q of
        None \<Rightarrow> (KNullPost, s)
      | Some c \<Rightarrow>
          if MAX_MQ_SIZE \<le> length (ct_message c) then (KNullPost, s)
          else let (seq, s1) = make_seq s; (a, s2) = alloc s1
               in push_back q c
                    (MessageWrapper a \<lparr>hid_queue = q, hid_seq = 0\<rparr> m t seq now) s2)"

definition ComputerWaitTime :: "u64 \<Rightarrow> 'b wrapper \<Rightarrow> int" where
  "ComputerWaitTime now w =
     (let wait_time =
        (case tim_type (wr_timing w) of
           kImmediately \<Rightarrow> 0
         | kAfter \<Rightarrow> tim_after (wr_timing w) - gettickspan now (wr_record w)
         | kPeriod \<Rightarrow>
             (case wr_status w of
                kAfter \<Rightarrow> tim_after (wr_timing w) - gettickspan now (wr_record w)
              | kPeriod \<Rightarrow> tim_period (wr_timing w) - gettickspan now (wr_record w)
              | kImmediately \<Rightarrow> 0))
      in if 0 < wait_time then wait_time else 0)"

text \<open>The new wrapper is made first and takes a sequence number even where it is dropped; a message
  it replaces hands its id on.\<close>

definition FasterMessage ::
  "handler_id \<Rightarrow> 'b message \<Rightarrow> timing \<Rightarrow> u64 \<Rightarrow> ('b, 'h) mq_state \<Rightarrow> post_id \<times> ('b, 'h) mq_state" where
  "FasterMessage h m t now s =
     (case mq_map s (hid_queue h) of
        None \<Rightarrow> (KNullPost, s)
      | Some c \<Rightarrow>
          let (seq, s1) = make_seq s; (a, s2) = alloc s1; n = MessageWrapper a h m t seq now in
          (case find (matches h m) (ct_message c) of
             Some w \<Rightarrow>
               if ComputerWaitTime now w < ComputerWaitTime now n then (wr_post w, s2)
               else
                 let c1 = c\<lparr>ct_message := remove_first (matches h m) (ct_message c)\<rparr>;
                     s3 = emit (delete_events w) (put (hid_queue h) c1 s2)
                 in if MAX_MQ_SIZE \<le> length (ct_message c1) then (KNullPost, s3)
                    else push_back (hid_queue h) c1 (n\<lparr>wr_post := wr_post w\<rparr>) s3
           | None \<Rightarrow>
               if MAX_MQ_SIZE \<le> length (ct_message c) then (KNullPost, s2)
               else push_back (hid_queue h) c n s2))"

section \<open>Cancelling, handlers, queues\<close>

definition CancelMessage :: "post_id \<Rightarrow> ('b, 'h) mq_state \<Rightarrow> bool \<times> ('b, 'h) mq_state" where
  "CancelMessage p s =
     (if hid_queue (pid_reg p) = 0 \<or> pid_seq p = 0 then (False, s)
      else case mq_map s (hid_queue (pid_reg p)) of
        None \<Rightarrow> (False, s)
      | Some c \<Rightarrow>
          (case find (\<lambda>w. p = wr_post w) (ct_message c) of
             Some w \<Rightarrow>
               (True, emit (delete_events w)
                  (put (hid_queue (pid_reg p))
                     (c\<lparr>ct_message := remove_first (\<lambda>w. p = wr_post w) (ct_message c)\<rparr>) s))
           | None \<Rightarrow> (False, s)))"

text \<open>The loop of the other two: all messages that satisfy a test are deleted.\<close>

definition erase_all ::
  "('b wrapper \<Rightarrow> bool) \<Rightarrow> queue_id \<Rightarrow> ('b, 'h) content \<Rightarrow> ('b, 'h) mq_state \<Rightarrow> ('b, 'h) mq_state" where
  "erase_all P q c s =
     emit (concat (map delete_events (filter P (ct_message c))))
       (put q (c\<lparr>ct_message := filter (\<lambda>w. \<not> P w) (ct_message c)\<rparr>) s)"

definition CancelMessage_handler :: "handler_id \<Rightarrow> ('b, 'h) mq_state \<Rightarrow> ('b, 'h) mq_state" where
  "CancelMessage_handler h s =
     (if hid_queue h = 0 then s
      else case mq_map s (hid_queue h) of
        None \<Rightarrow> s
      | Some c \<Rightarrow> erase_all (\<lambda>w. h = pid_reg (wr_post w)) (hid_queue h) c s)"

definition CancelMessage_title :: "handler_id \<Rightarrow> u64 \<Rightarrow> ('b, 'h) mq_state \<Rightarrow> ('b, 'h) mq_state" where
  "CancelMessage_title h title s =
     (if hid_queue h = 0 then s
      else case mq_map s (hid_queue h) of
        None \<Rightarrow> s
      | Some c \<Rightarrow>
          erase_all (\<lambda>w. h = pid_reg (wr_post w) \<and> title = msg_title (wr_message w)) (hid_queue h) c s)"

definition InstallMessageHandler ::
  "'h \<Rightarrow> bool \<Rightarrow> queue_id \<Rightarrow> ('b, 'h) mq_state \<Rightarrow> handler_id \<times> ('b, 'h) mq_state" where
  "InstallMessageHandler f recvbroadcast q s =
     (case mq_map s q of
        None \<Rightarrow> (KNullHandler, s)
      | Some c \<Rightarrow>
          let (seq, s1) = make_seq s; reg = \<lparr>hid_queue = q, hid_seq = seq\<rparr>;
              h = \<lparr>hdl_reg = reg, hdl_handler = f, hdl_recvbroadcast = recvbroadcast\<rparr>
          in (reg, put q (c\<lparr>ct_handler := ct_handler c @ [h]\<rparr>) s1))"

definition UnInstallMessageHandler :: "handler_id \<Rightarrow> ('b, 'h) mq_state \<Rightarrow> ('b, 'h) mq_state" where
  "UnInstallMessageHandler h s =
     (if hid_queue h = 0 \<or> hid_seq h = 0 then s
      else case mq_map s (hid_queue h) of
        None \<Rightarrow> s
      | Some c \<Rightarrow>
          put (hid_queue h) (c\<lparr>ct_handler := remove_first (\<lambda>x. h = hdl_reg x) (ct_handler c)\<rparr>) s)"

text \<open>\<open>ScopeRegister::Cancel\<close>.\<close>

definition ScopeRegister_Cancel :: "handler_id \<Rightarrow> ('b, 'h) mq_state \<Rightarrow> ('b, 'h) mq_state" where
  "ScopeRegister_Cancel h s = CancelMessage_handler h (UnInstallMessageHandler h s)"

definition BreakMessageQueueRunloop :: "queue_id \<Rightarrow> ('b, 'h) mq_state \<Rightarrow> ('b, 'h) mq_state" where
  "BreakMessageQueueRunloop q s =
     (case mq_map s q of
        None \<Rightarrow> s
      | Some c \<Rightarrow> emit [Wake q] (put q (c\<lparr>ct_breakflag := True\<rparr>) s))"

text \<open>\<open>__CreateMessageQueueInfo\<close>: \<open>invoke\<close> is the function \<open>__AsyncInvokeHandler\<close>.\<close>

definition CreateMessageQueueInfo :: "'h \<Rightarrow> queue_id \<Rightarrow> ('b, 'h) mq_state \<Rightarrow> ('b, 'h) mq_state" where
  "CreateMessageQueueInfo invoke q s =
     (case mq_map s q of
        Some c \<Rightarrow> s
      | None \<Rightarrow>
          let (seq, s1) = make_seq s; reg = \<lparr>hid_queue = q, hid_seq = seq\<rparr>
          in put q \<lparr>ct_invoke_reg = reg, ct_breakflag = False, ct_message = [],
                ct_handler = [\<lparr>hdl_reg = reg, hdl_handler = invoke, hdl_recvbroadcast = False\<rparr>],
                ct_runloop = []\<rparr> s1)"

text \<open>\<open>__ReleaseMessageQueueInfo\<close>.\<close>

definition ReleaseMessageQueueInfo :: "queue_id \<Rightarrow> ('b, 'h) mq_state \<Rightarrow> ('b, 'h) mq_state" where
  "ReleaseMessageQueueInfo q s =
     (case mq_map s q of
        None \<Rightarrow> s
      | Some c \<Rightarrow>
          emit (concat (map delete_events (ct_message c))) (s\<lparr>mq_map := (mq_map s)(q := None)\<rparr>))"

definition DefAsyncInvokeHandler :: "queue_id \<Rightarrow> ('b, 'h) mq_state \<Rightarrow> handler_id" where
  "DefAsyncInvokeHandler q s =
     (case mq_map s q of None \<Rightarrow> KNullHandler | Some c \<Rightarrow> ct_invoke_reg c)"

text \<open>\<open>CurrentThreadMessageQueue\<close> and \<open>TID2MessageQueue\<close> of the thread \<open>tid\<close>.\<close>

definition TID2MessageQueue :: "u64 \<Rightarrow> ('b, 'h) mq_state \<Rightarrow> queue_id" where
  "TID2MessageQueue tid s = (if mq_map s tid = None then KInvalidQueueID else tid)"

text \<open>The constructor of a message and the functions of the header that post a function, which travels in
  \<open>body1\<close>, to the handler \<open>__AsyncInvokeHandler\<close>.\<close>

definition Message :: "u64 \<Rightarrow> 'b \<Rightarrow> 'b \<Rightarrow> u64 \<Rightarrow> 'b message" where
  "Message title body1 body2 now = \<lparr>msg_title = title, msg_body1 = body1, msg_body2 = body2,
     msg_anr_timeout = 10 * 60 * 1000, msg_create_time = now, msg_execute_time = 0\<rparr>"

definition AsyncInvoke ::
  "'b \<Rightarrow> 'b \<Rightarrow> u64 \<Rightarrow> handler_id \<Rightarrow> u64 \<Rightarrow> ('b, 'h) mq_state \<Rightarrow> post_id \<times> ('b, 'h) mq_state" where
  "AsyncInvoke func no_body title h now s = PostMessage h (Message title func no_body now) KDefTiming now s"

definition AsyncInvokeAfter ::
  "int \<Rightarrow> 'b \<Rightarrow> 'b \<Rightarrow> u64 \<Rightarrow> handler_id \<Rightarrow> u64 \<Rightarrow> ('b, 'h) mq_state \<Rightarrow>
     post_id \<times> ('b, 'h) mq_state" where
  "AsyncInvokeAfter after func no_body title h now s =
     PostMessage h (Message title func no_body now) (timing_after after) now s"

definition AsyncInvokePeriod ::
  "int \<Rightarrow> int \<Rightarrow> 'b \<Rightarrow> 'b \<Rightarrow> u64 \<Rightarrow> handler_id \<Rightarrow> u64 \<Rightarrow> ('b, 'h) mq_state \<Rightarrow>
     post_id \<times> ('b, 'h) mq_state" where
  "AsyncInvokePeriod after period func no_body title h now s =
     PostMessage h (Message title func no_body now) (timing_periodic after period) now s"

text \<open>The owner of a queue and its thread. Whether the thread runs, whether it could be started and its
  id are arguments; a call that joins the thread returns after the loop has been left.\<close>

record creater =
  cr_queue :: queue_id

definition CreateMessageQueue ::
  "'h \<Rightarrow> bool \<Rightarrow> bool \<Rightarrow> u64 \<Rightarrow> creater \<Rightarrow> ('b, 'h) mq_state \<Rightarrow>
     queue_id \<times> creater \<times> ('b, 'h) mq_state" where
  "CreateMessageQueue invoke isruning started tid cr s =
     (if isruning then (cr_queue cr, cr, s)
      else if \<not> started then (KInvalidQueueID, cr, s)
      else (tid, cr\<lparr>cr_queue := tid\<rparr>, CreateMessageQueueInfo invoke tid s))"

definition CancelAndWait :: "creater \<Rightarrow> ('b, 'h) mq_state \<Rightarrow> creater \<times> ('b, 'h) mq_state" where
  "CancelAndWait cr s =
     (if cr_queue cr = KInvalidQueueID then (cr, s)
      else (cr\<lparr>cr_queue := KInvalidQueueID\<rparr>, BreakMessageQueueRunloop (cr_queue cr) s))"

section \<open>Asking and waiting\<close>

definition FoundMessage :: "post_id \<Rightarrow> ('b, 'h) mq_state \<Rightarrow> bool" where
  "FoundMessage p s =
     (case mq_map s (hid_queue (pid_reg p)) of
        None \<Rightarrow> False
      | Some c \<Rightarrow>
          if ct_runloop c = [] then False
          else (\<exists>r \<in> set (ct_runloop c). p = rli_message_id r) \<or>
               (\<exists>w \<in> set (ct_message c). p = wr_post w))"

text \<open>\<open>RunningMessageID\<close>; without a running loop the source reads the last element of an
  empty list.\<close>

definition RunningMessageID :: "queue_id \<Rightarrow> ('b, 'h) mq_state \<Rightarrow> post_id option" where
  "RunningMessageID q s =
     (case mq_map s q of
        None \<Rightarrow> Some KNullPost
      | Some c \<Rightarrow> if ct_runloop c = [] then None else Some (rli_message_id (last (ct_runloop c))))"

text \<open>What a thread does that waits: it returns at once, blocks on a condition until that is
  notified or the time is over, or runs the loop of its own queue until the message has left the
  list.\<close>

datatype wait = Returns bool | Blocks nat | Nested

text \<open>\<open>WaitMessage\<close>, called by the thread \<open>tid\<close>. A thread that blocks returns
  true after a notification; with a timeout that is not negative it returns false when the time is
  over.\<close>

definition set_end_cond :: "post_id \<Rightarrow> nat \<Rightarrow> 'b wrapper list \<Rightarrow> 'b wrapper list" where
  "set_end_cond p k ws =
     (case dropWhile (\<lambda>w. p \<noteq> wr_post w) ws of
        [] \<Rightarrow> ws
      | w # rest \<Rightarrow> takeWhile (\<lambda>w. p \<noteq> wr_post w) ws @ w\<lparr>wr_end_cond := Some k\<rparr> # rest)"

definition WaitMessage :: "u64 \<Rightarrow> post_id \<Rightarrow> ('b, 'h) mq_state \<Rightarrow> wait \<times> ('b, 'h) mq_state" where
  "WaitMessage tid p s =
     (let q = hid_queue (pid_reg p); is_in_mq = (q = TID2MessageQueue tid s) in
      case mq_map s q of
        None \<Rightarrow> (Returns False, s)
      | Some c \<Rightarrow>
          (case find (\<lambda>w. p = wr_post w) (ct_message c) of
             None \<Rightarrow>
               (case find (\<lambda>r. p = rli_message_id r) (ct_runloop c) of
                  Some r \<Rightarrow> if is_in_mq then (Returns False, s) else (Blocks (rli_cond r), s)
                | None \<Rightarrow> (Returns True, s))
           | Some w \<Rightarrow>
               if is_in_mq then (Nested, s)
               else case wr_end_cond w of
                 Some k \<Rightarrow> (Blocks k, s)
               | None \<Rightarrow>
                   let (k, s1) = alloc s
                   in (Blocks k, put q (c\<lparr>ct_message := set_end_cond p k (ct_message c)\<rparr>) s1)))"

text \<open>The three \<open>WaitForRunningLockEnd\<close>: the condition to wait for, if any.\<close>

definition WaitForRunningLockEnd_post :: "u64 \<Rightarrow> post_id \<Rightarrow> ('b, 'h) mq_state \<Rightarrow> nat option" where
  "WaitForRunningLockEnd_post tid p s =
     (if hid_queue (pid_reg p) = TID2MessageQueue tid s then None
      else case mq_map s (hid_queue (pid_reg p)) of
        None \<Rightarrow> None
      | Some c \<Rightarrow> map_option rli_cond (find (\<lambda>r. p = rli_message_id r) (ct_runloop c)))"

definition WaitForRunningLockEnd_queue :: "u64 \<Rightarrow> queue_id \<Rightarrow> ('b, 'h) mq_state \<Rightarrow> nat option" where
  "WaitForRunningLockEnd_queue tid q s =
     (if q = TID2MessageQueue tid s then None
      else case mq_map s q of
        None \<Rightarrow> None
      | Some c \<Rightarrow>
          (case ct_runloop c of
             [] \<Rightarrow> None
           | r # _ \<Rightarrow> if rli_message_id r = KNullPost then None else Some (rli_cond r)))"

definition WaitForRunningLockEnd_handler :: "u64 \<Rightarrow> handler_id \<Rightarrow> ('b, 'h) mq_state \<Rightarrow> nat option" where
  "WaitForRunningLockEnd_handler tid h s =
     (if hid_queue h = TID2MessageQueue tid s then None
      else case mq_map s (hid_queue h) of
        None \<Rightarrow> None
      | Some c \<Rightarrow> map_option rli_cond (find (\<lambda>r. h \<in> set (rli_handler r)) (ct_runloop c)))"

section \<open>The loop of a queue\<close>

text \<open>The search of \<open>RunLoop::Run\<close>: the message to run with the flag \<open>delmessage\<close>
  and the list that is left, or none; and the time to sleep. A periodic message stays in the list
  and starts its next period.\<close>

type_synonym 'b found = "('b wrapper \<times> bool \<times> 'b wrapper list) option"

definition keep :: "'b wrapper \<Rightarrow> 'b found \<times> int \<Rightarrow> 'b found \<times> int" where
  "keep w r = (map_option (\<lambda>(x, d, ws). (x, d, w # ws)) (fst r), snd r)"

fun scan :: "u64 \<Rightarrow> int \<Rightarrow> 'b wrapper list \<Rightarrow> 'b found \<times> int" where
  "scan now wait_time [] = (None, wait_time)"
| "scan now wait_time (w # ws) =
     (let time_cost = gettickspan now (wr_record w);
          after = tim_after (wr_timing w); period = tim_period (wr_timing w)
      in case tim_type (wr_timing w) of
           kImmediately \<Rightarrow> (Some (w, True, ws), wait_time)
         | kAfter \<Rightarrow>
             if after \<le> time_cost then (Some (w, True, ws), wait_time)
             else keep w (scan now (min wait_time (after - time_cost)) ws)
         | kPeriod \<Rightarrow>
             (case wr_status w of
                kAfter \<Rightarrow>
                  if after \<le> time_cost
                  then let x = w\<lparr>wr_record := now, wr_status := kPeriod\<rparr>
                       in (Some (x, False, x # ws), wait_time)
                  else keep w (scan now (min wait_time (after - time_cost)) ws)
              | kPeriod \<Rightarrow>
                  if period \<le> time_cost
                  then let x = w\<lparr>wr_record := now\<rparr> in (Some (x, False, x # ws), wait_time)
                  else keep w (scan now (min wait_time (period - time_cost)) ws)
              | kImmediately \<Rightarrow> keep w (scan now wait_time ws)))"

definition fit_handler :: "post_id \<Rightarrow> 'h handler list \<Rightarrow> 'h handler list" where
  "fit_handler p hs =
     filter (\<lambda>h. pid_reg p = hdl_reg h \<or> hdl_recvbroadcast h \<and> isbroadcast (pid_reg p)) hs"

text \<open>A frame is one call of \<open>RunLoop::Run\<close>; a handler that waits for a message of its
  own queue calls it again, so that the frames of a thread form a stack, the innermost first.
  \<open>fr_breaker\<close> is the breaker function: none, or that of \<open>WaitMessage\<close>. Between two
  acquisitions of the lock a frame is in one of the phases: at the top of the loop; about to write the
  time of execution through the pointer; calling the handlers that are left. The loop owns a wrapper
  that it took out of the list; of a periodic one it only has the address. \<open>Dangling\<close> is the
  use of a wrapper that was deleted.\<close>

datatype ('b, 'h) phase =
    Top
  | Starting nat "'b wrapper option" "'h handler list"
  | Calling nat "'b wrapper option" "'h handler list"
  | Dangling

record ('b, 'h) frame =
  fr_breaker :: "post_id option"
  fr_phase :: "('b, 'h) phase"

text \<open>The entry of \<open>Run\<close>.\<close>

definition RunLoop_enter :: "queue_id \<Rightarrow> ('b, 'h) content \<Rightarrow> ('b, 'h) mq_state \<Rightarrow> ('b, 'h) mq_state" where
  "RunLoop_enter q c s =
     (let (k, s1) = alloc s
      in put q (c\<lparr>ct_runloop := ct_runloop c @
           [\<lparr>rli_cond = k, rli_message_id = KNullPost, rli_message = None, rli_handler = []\<rparr>]\<rparr>) s1)"

definition upd_last :: "('a \<Rightarrow> 'a) \<Rightarrow> 'a list \<Rightarrow> 'a list" where
  "upd_last f xs = (if xs = [] then [] else butlast xs @ [f (last xs)])"

text \<open>The head of an iteration: the loop has no running message, and who waited for one is
  woken.\<close>

definition loop_idle :: "('b, 'h) content \<Rightarrow> ('b, 'h) content" where
  "loop_idle c = c\<lparr>ct_runloop :=
     upd_last (\<lambda>r. r\<lparr>rli_message_id := KNullPost, rli_message := None, rli_handler := []\<rparr>) (ct_runloop c)\<rparr>"

definition idle_events :: "('b, 'h) content \<Rightarrow> ('b, 'h) event list" where
  "idle_events c = (if ct_runloop c = [] then [] else [Notify (rli_cond (last (ct_runloop c)))])"

definition breaks :: "post_id option \<Rightarrow> ('b, 'h) content \<Rightarrow> bool" where
  "breaks b c \<longleftrightarrow> ct_breakflag c \<or>
     (case b of None \<Rightarrow> False | Some p \<Rightarrow> find (\<lambda>w. p = wr_post w) (ct_message c) = None)"

definition loop_busy :: "'b wrapper \<Rightarrow> 'h handler list \<Rightarrow> ('b, 'h) content \<Rightarrow> ('b, 'h) content" where
  "loop_busy w hs c = c\<lparr>ct_runloop :=
     upd_last (\<lambda>r. r\<lparr>rli_message_id := wr_post w, rli_message := Some (wr_addr w),
                    rli_handler := rli_handler r @ map hdl_reg hs\<rparr>) (ct_runloop c)\<rparr>"

text \<open>One iteration up to the unlocking: the frame is left (None) or goes on in a phase.\<close>

definition RunLoop_top ::
  "queue_id \<Rightarrow> u64 \<Rightarrow> post_id option \<Rightarrow> ('b, 'h) content \<Rightarrow> ('b, 'h) mq_state \<Rightarrow>
     ('b, 'h) phase option \<times> ('b, 'h) mq_state" where
  "RunLoop_top q now b c s =
     (let c1 = loop_idle c; s1 = emit (idle_events c) (put q c1 s) in
      if breaks b c1
      then let c2 = c1\<lparr>ct_runloop := butlast (ct_runloop c1)\<rparr>; s2 = put q c2 s1
           in (None, if ct_runloop c2 = [] then ReleaseMessageQueueInfo q s2 else s2)
      else case scan now (10 * 60 * 1000) (ct_message c1) of
        (None, wait_time) \<Rightarrow> (Some Top, emit [Sleep q wait_time] s1)
      | (Some (w, delmessage, ws), _) \<Rightarrow>
          let fit = fit_handler (wr_post w) (ct_handler c1)
          in (Some (Starting (wr_addr w) (if delmessage then Some w else None) fit),
              emit [Ran q w] (put q (loop_busy w fit (c1\<lparr>ct_message := ws\<rparr>)) s1)))"

text \<open>The wrapper behind the pointer of the loop.\<close>

definition deref :: "nat \<Rightarrow> 'b wrapper option \<Rightarrow> ('b, 'h) content \<Rightarrow> 'b wrapper option" where
  "deref a own c = (case own of Some w \<Rightarrow> Some w | None \<Rightarrow> find (\<lambda>w. wr_addr w = a) (ct_message c))"

definition stamp :: "u64 \<Rightarrow> 'b wrapper \<Rightarrow> 'b wrapper" where
  "stamp now w = w\<lparr>wr_message := (wr_message w)\<lparr>msg_execute_time := now\<rparr>\<rparr>"

definition stamp_at :: "nat \<Rightarrow> u64 \<Rightarrow> 'b wrapper list \<Rightarrow> 'b wrapper list" where
  "stamp_at a now ws = map (\<lambda>w. if wr_addr w = a then stamp now w else w) ws"

text \<open>The rest of the iteration, one step at a time.\<close>

fun RunLoop_step ::
  "queue_id \<Rightarrow> u64 \<Rightarrow> post_id option \<Rightarrow> ('b, 'h) phase \<Rightarrow> ('b, 'h) content \<Rightarrow> ('b, 'h) mq_state \<Rightarrow>
     ('b, 'h) phase option \<times> ('b, 'h) mq_state" where
  "RunLoop_step q now b Top c s = RunLoop_top q now b c s"
| "RunLoop_step q now b (Starting a (Some w) hs) c s = (Some (Calling a (Some (stamp now w)) hs), s)"
| "RunLoop_step q now b (Starting a None hs) c s =
     (if deref a None c = None then (Some Dangling, s)
      else (Some (Calling a None hs),
            put q (c\<lparr>ct_message := stamp_at a now (ct_message c)\<rparr>) s))"
| "RunLoop_step q now b (Calling a own (h # hs)) c s =
     (case deref a own c of
        None \<Rightarrow> (Some Dangling, s)
      | Some w \<Rightarrow> (Some (Calling a own hs), emit [Called (hdl_handler h) (wr_post w) (wr_message w)] s))"
| "RunLoop_step q now b (Calling a (Some w) []) c s = (Some Top, emit (delete_events w) s)"
| "RunLoop_step q now b (Calling a None []) c s = (Some Top, s)"
| "RunLoop_step q now b Dangling c s = (Some Dangling, s)"

section \<open>Threads and interleavings\<close>

text \<open>The state of the process: the queues and the frames of every thread that runs the loop of
  its queue. An operation is one holding of the lock by one of the threads.\<close>

record ('b, 'h) mq_sys =
  sys_mq :: "('b, 'h) mq_state"
  sys_frames :: "queue_id \<Rightarrow> ('b, 'h) frame list"

definition sys_new :: "('b, 'h) mq_sys" where
  "sys_new = \<lparr>sys_mq = mq_new, sys_frames = (\<lambda>_. [])\<rparr>"

datatype ('b, 'h) op =
    Create 'h queue_id
  | Enter queue_id
  | Iterate queue_id u64
  | Post handler_id "'b message" timing u64
  | Singleton bool handler_id "'b message" timing u64
  | Broadcast queue_id "'b message" timing u64
  | Faster handler_id "'b message" timing u64
  | Cancel post_id
  | CancelHandler handler_id
  | CancelTitle handler_id u64
  | Install 'h bool queue_id
  | UnInstall handler_id
  | Break queue_id
  | Wait u64 post_id

definition on_mq ::
  "(('b, 'h) mq_state \<Rightarrow> ('b, 'h) mq_state) \<Rightarrow> ('b, 'h) mq_sys \<Rightarrow> ('b, 'h) mq_sys" where
  "on_mq f y = y\<lparr>sys_mq := f (sys_mq y)\<rparr>"

text \<open>\<open>Run\<close> asserts that its thread has a queue (\<open>ASSERT(0 != id)\<close>), and the model ends there: the
  operation does nothing on a thread without one. A build whose assertions only log goes on with the id 0: the
  index operator inserts an entry for it, whose breaker is the null pointer that the first wait
  follows. In the runs below that is no step.\<close>

definition push_frame :: "queue_id \<Rightarrow> post_id option \<Rightarrow> ('b, 'h) mq_sys \<Rightarrow> ('b, 'h) mq_sys" where
  "push_frame q b y =
     (case mq_map (sys_mq y) q of
        None \<Rightarrow> y
      | Some c \<Rightarrow>
          \<lparr>sys_mq = RunLoop_enter q c (sys_mq y),
           sys_frames = (sys_frames y)(q := \<lparr>fr_breaker = b, fr_phase = Top\<rparr> # sys_frames y q)\<rparr>)"

definition iterate :: "queue_id \<Rightarrow> u64 \<Rightarrow> ('b, 'h) mq_sys \<Rightarrow> ('b, 'h) mq_sys" where
  "iterate q now y =
     (case (mq_map (sys_mq y) q, sys_frames y q) of
        (Some c, f # fs) \<Rightarrow>
          (case RunLoop_step q now (fr_breaker f) (fr_phase f) c (sys_mq y) of
             (None, s) \<Rightarrow> \<lparr>sys_mq = s, sys_frames = (sys_frames y)(q := fs)\<rparr>
           | (Some p, s) \<Rightarrow>
               \<lparr>sys_mq = s, sys_frames = (sys_frames y)(q := f\<lparr>fr_phase := p\<rparr> # fs)\<rparr>)
      | _ \<Rightarrow> y)"

fun run_op :: "('b, 'h) op \<Rightarrow> ('b, 'h) mq_sys \<Rightarrow> ('b, 'h) mq_sys" where
  "run_op (Create f q) y = on_mq (CreateMessageQueueInfo f q) y"
| "run_op (Enter q) y = push_frame q None y"
| "run_op (Iterate q now) y = iterate q now y"
| "run_op (Post h m t now) y = on_mq (snd \<circ> PostMessage h m t now) y"
| "run_op (Singleton r h m t now) y = on_mq (snd \<circ> SingletonMessage r h m t now) y"
| "run_op (Broadcast q m t now) y = on_mq (snd \<circ> BroadcastMessage q m t now) y"
| "run_op (Faster h m t now) y = on_mq (snd \<circ> FasterMessage h m t now) y"
| "run_op (Cancel p) y = on_mq (snd \<circ> CancelMessage p) y"
| "run_op (CancelHandler h) y = on_mq (CancelMessage_handler h) y"
| "run_op (CancelTitle h t) y = on_mq (CancelMessage_title h t) y"
| "run_op (Install f r q) y = on_mq (snd \<circ> InstallMessageHandler f r q) y"
| "run_op (UnInstall h) y = on_mq (UnInstallMessageHandler h) y"
| "run_op (Break q) y = on_mq (BreakMessageQueueRunloop q) y"
| "run_op (Wait tid p) y =
     (let y1 = on_mq (snd \<circ> WaitMessage tid p) y
      in if fst (WaitMessage tid p (sys_mq y)) = Nested then push_frame tid (Some p) y1 else y1)"

definition run_ops :: "('b, 'h) op list \<Rightarrow> ('b, 'h) mq_sys \<Rightarrow> ('b, 'h) mq_sys" where
  "run_ops ops y = fold run_op ops y"

lemma run_ops_simps [simp]:
  "run_ops [] y = y"
  "run_ops (x # ops) y = run_ops ops (run_op x y)"
  "run_ops (ops @ ops') y = run_ops ops' (run_ops ops y)"
  by (simp_all add: run_ops_def)

section \<open>The order of the messages\<close>

text \<open>Addresses grow with every wrapper, so that their order is the order of posting. Over the
  messages a queue ran and those it still holds: the immediate ones are in the order of posting, and
  no message that is not periodic occurs twice.\<close>

definition imm :: "'b wrapper \<Rightarrow> bool" where
  "imm w \<longleftrightarrow> tim_type (wr_timing w) = kImmediately"

definition oneshot :: "'b wrapper \<Rightarrow> bool" where
  "oneshot w \<longleftrightarrow> tim_type (wr_timing w) \<noteq> kPeriod"

definition mq_ran :: "queue_id \<Rightarrow> ('b, 'h) event list \<Rightarrow> 'b wrapper list" where
  "mq_ran q es = concat (map (\<lambda>e. case e of Ran p w \<Rightarrow> if p = q then [w] else [] | _ \<Rightarrow> []) es)"

definition held :: "queue_id \<Rightarrow> ('b, 'h) mq_state \<Rightarrow> 'b wrapper list" where
  "held q s = (case mq_map s q of None \<Rightarrow> [] | Some c \<Rightarrow> ct_message c)"

definition hist_ok :: "nat \<Rightarrow> 'b wrapper list \<Rightarrow> 'b wrapper list \<Rightarrow> bool" where
  "hist_ok n rs ws \<longleftrightarrow>
     sorted_wrt (<) (map wr_addr (filter imm (rs @ ws))) \<and>
     distinct (map wr_addr (filter oneshot (rs @ ws))) \<and>
     (\<forall>w \<in> set (rs @ ws). wr_addr w < n) \<and> distinct (map wr_addr ws)"

lemma ran_simps [simp]:
  "mq_ran q [] = []" "mq_ran q (es @ fs) = mq_ran q es @ mq_ran q fs"
  "mq_ran q [Wake p] = []" "mq_ran q [Notify k] = []" "mq_ran q [Sleep p t] = []"
  "mq_ran q [Ran p w] = (if p = q then [w] else [])" "mq_ran q [Called h i m] = []"
  by (simp_all add: mq_ran_def)

lemma ran_delete [simp]: "mq_ran q (delete_events w) = []"
  by (simp add: delete_events_def split: option.split)

lemma ran_deletes [simp]: "mq_ran q (concat (map delete_events ws)) = []"
  by (induction ws) simp_all

lemma ran_idle [simp]: "mq_ran q (idle_events c) = []"
  by (simp add: idle_events_def)

lemma hist_ok_mono: "hist_ok n rs ws \<Longrightarrow> n \<le> n' \<Longrightarrow> hist_ok n' rs ws"
  unfolding hist_ok_def by (blast intro: order.strict_trans2)

lemma subseq_sorted_wrt: "subseq xs ys \<Longrightarrow> sorted_wrt P ys \<Longrightarrow> sorted_wrt P xs"
  by (induction rule: list_emb.induct) (auto dest: list_emb_set)

lemma subseq_distinct: "subseq xs ys \<Longrightarrow> distinct ys \<Longrightarrow> distinct xs"
  by (induction rule: list_emb.induct) (auto dest: list_emb_set)

lemma hist_ok_subseq:
  assumes "hist_ok n rs ws" "subseq ws' ws"
  shows "hist_ok n rs ws'"
proof -
  have sub: "subseq (map wr_addr (filter P (rs @ ws'))) (map wr_addr (filter P (rs @ ws)))" for P
    using assms(2) by (intro subseq_map subseq_filter list_emb_append_mono) simp_all
  have "subseq (map wr_addr ws') (map wr_addr ws)" using assms(2) by (rule subseq_map)
  moreover have "set ws' \<subseteq> set ws" using assms(2) by (auto dest: list_emb_set)
  ultimately show ?thesis
    using assms(1) subseq_sorted_wrt [OF sub [of imm]] subseq_distinct [OF sub [of oneshot]]
    by (auto simp: hist_ok_def dest: subseq_distinct)
qed

lemma subseq_remove_first: "subseq (remove_first P ws) ws"
  by (induction ws) (auto simp: list_emb_Nil intro: subseq_Cons')

text \<open>Changes in place that keep the address and the timing do not matter.\<close>

definition key :: "'b wrapper \<Rightarrow> nat \<times> timing_type" where
  "key w = (wr_addr w, tim_type (wr_timing w))"

lemma keys_addr: "map key ws' = map key ws \<Longrightarrow> map wr_addr ws' = map wr_addr ws"
  by (drule arg_cong [where f = "map fst"]) (simp add: key_def comp_def)

lemma keys_filter:
  assumes "map key ws' = map key ws" "\<And>w. P w = Q (tim_type (wr_timing w))"
  shows "map wr_addr (filter P ws') = map wr_addr (filter P ws)"
  using assms(1)
proof (induction ws arbitrary: ws')
  case (Cons w ws)
  then obtain x xs where "ws' = x # xs" by (cases ws') auto
  then show ?case using Cons.prems Cons.IH [of xs] by (simp add: assms(2) key_def split: if_split)
qed simp

lemma hist_ok_keys:
  assumes "hist_ok n rs ws" "map key ws' = map key ws"
  shows "hist_ok n rs ws'"
proof -
  have "map wr_addr (filter imm ws') = map wr_addr (filter imm ws)"
    by (rule keys_filter [OF assms(2), where Q = "\<lambda>t. t = kImmediately"]) (simp add: imm_def)
  moreover have "map wr_addr (filter oneshot ws') = map wr_addr (filter oneshot ws)"
    by (rule keys_filter [OF assms(2), where Q = "\<lambda>t. t \<noteq> kPeriod"]) (simp add: oneshot_def)
  moreover have "wr_addr ` set ws' = wr_addr ` set ws"
    using arg_cong [OF keys_addr [OF assms(2)], of set] by simp
  then have "(\<forall>w \<in> set ws'. wr_addr w < n) \<longleftrightarrow> (\<forall>w \<in> set ws. wr_addr w < n)"
    by (metis (no_types, lifting) imageE imageI)
  ultimately show ?thesis
    using assms(1) keys_addr [OF assms(2)]
    unfolding hist_ok_def filter_append map_append set_append ball_Un by simp
qed

lemma hist_ok_snoc:
  "hist_ok n rs ws \<Longrightarrow> wr_addr w = n \<Longrightarrow> hist_ok (Suc n) rs (ws @ [w])"
  unfolding hist_ok_def by (auto simp: sorted_wrt_append less_Suc_eq)

text \<open>What the search finds.\<close>

lemma keep_Some: "keep w r = (Some (x, d, ws), t) \<longleftrightarrow> (\<exists>vs. r = (Some (x, d, vs), t) \<and> ws = w # vs)"
  by (cases r) (auto simp: keep_def)

lemma keep_None: "keep w r = (None, t) \<longleftrightarrow> r = (None, t)"
  by (cases r) (auto simp: keep_def)

text \<open>A message is due when the search takes it, and what a due periodic message becomes.\<close>

definition due :: "u64 \<Rightarrow> 'b wrapper \<Rightarrow> bool" where
  "due now w =
     (case tim_type (wr_timing w) of
        kImmediately \<Rightarrow> True
      | kAfter \<Rightarrow> tim_after (wr_timing w) \<le> gettickspan now (wr_record w)
      | kPeriod \<Rightarrow>
          (case wr_status w of
             kAfter \<Rightarrow> tim_after (wr_timing w) \<le> gettickspan now (wr_record w)
           | kPeriod \<Rightarrow> tim_period (wr_timing w) \<le> gettickspan now (wr_record w)
           | kImmediately \<Rightarrow> False))"

definition restarted :: "u64 \<Rightarrow> 'b wrapper \<Rightarrow> 'b wrapper" where
  "restarted now w = (if oneshot w then w else w\<lparr>wr_record := now, wr_status := kPeriod\<rparr>)"

text \<open>A periodic message waits for its first or for a further period.\<close>

definition wr_ok :: "'b wrapper \<Rightarrow> bool" where
  "wr_ok w \<longleftrightarrow> (wr_status w = kImmediately \<longrightarrow> imm w)"

lemma scan_Cons:
  assumes "wr_ok w"
  shows "scan now t (w # ws) =
    (if due now w
     then (Some (restarted now w, oneshot w, if oneshot w then ws else restarted now w # ws), t)
     else keep w (scan now (min t (ComputerWaitTime now w)) ws))"
  using assms
  by (cases "tim_type (wr_timing w)"; cases "wr_status w")
     (simp_all add: due_def restarted_def oneshot_def ComputerWaitTime_def Let_def wr_ok_def imm_def)

declare scan.simps(2) [simp del]

lemma due_wait: "wr_ok w \<Longrightarrow> due now w \<longleftrightarrow> ComputerWaitTime now w = 0"
  by (cases "tim_type (wr_timing w)"; cases "wr_status w")
     (auto simp: due_def ComputerWaitTime_def Let_def wr_ok_def imm_def)

lemma wait_nonneg: "0 \<le> ComputerWaitTime now w"
  unfolding ComputerWaitTime_def Let_def by (rule if_split [THEN iffD2]) auto

lemma scan_found:
  assumes "\<forall>w \<in> set ws. wr_ok w" "scan now t ws = (Some (w, d, ws'), t')"
  shows "\<exists>us v vs. ws = us @ v # vs \<and> (\<forall>u \<in> set us. \<not> due now u) \<and> due now v \<and> w = restarted now v \<and>
    d = oneshot v \<and> ws' = us @ (if oneshot v then [] else [restarted now v]) @ vs"
  using assms
proof (induction ws arbitrary: t ws')
  case (Cons x ws)
  show ?case
  proof (cases "due now x")
    case True
    then show ?thesis using Cons.prems by (intro exI [of _ "[]"]) (auto simp: scan_Cons)
  next
    case False
    then obtain vs' where r: "scan now (min t (ComputerWaitTime now x)) ws = (Some (w, d, vs'), t')"
      "ws' = x # vs'"
      using Cons.prems by (auto simp: scan_Cons keep_Some)
    obtain us v vs where "ws = us @ v # vs" "\<forall>u \<in> set us. \<not> due now u" "due now v" "w = restarted now v"
      "d = oneshot v" "vs' = us @ (if oneshot v then [] else [restarted now v]) @ vs"
      using Cons.IH [OF _ r(1)] Cons.prems(1) by auto
    then show ?thesis using False r(2) by (intro exI [of _ "x # us"]) auto
  qed
qed simp

lemma scan_none:
  assumes "\<forall>w \<in> set ws. wr_ok w" "scan now t ws = (None, t')"
  shows "(\<forall>w \<in> set ws. \<not> due now w) \<and> t' = Min (insert t (ComputerWaitTime now ` set ws))"
  using assms
proof (induction ws arbitrary: t)
  case (Cons x ws)
  have "\<not> due now x" "scan now (min t (ComputerWaitTime now x)) ws = (None, t')"
    using Cons.prems by (simp_all add: scan_Cons keep_None split: if_splits)
  then show ?case
    using Cons.IH [of "min t (ComputerWaitTime now x)"] Cons.prems(1)
    by (cases "ws = []") (auto simp: min.assoc)
qed simp

lemma imm_due: "imm w \<Longrightarrow> due now w"
  by (simp add: imm_def due_def)

lemma imm_oneshot: "imm w \<Longrightarrow> oneshot w"
  by (simp add: imm_def oneshot_def)

lemma restarted_simps [simp]:
  "wr_addr (restarted now w) = wr_addr w" "wr_timing (restarted now w) = wr_timing w"
  "wr_post (restarted now w) = wr_post w" "wr_message (restarted now w) = wr_message w"
  "oneshot w \<Longrightarrow> restarted now w = w" "wr_ok w \<Longrightarrow> wr_ok (restarted now w)"
  "imm (restarted now w) = imm w" "oneshot (restarted now w) = oneshot w"
  by (auto simp: restarted_def wr_ok_def imm_def oneshot_def)

lemma filter_imm_before: "\<forall>u \<in> set us. \<not> due now u \<Longrightarrow> filter imm us = []"
  by (auto simp: filter_empty_conv dest: imm_due)

lemma hist_ok_run:
  assumes "hist_ok n rs ws" "\<forall>w \<in> set ws. wr_ok w" "scan now t ws = (Some (w, d, ws'), t')"
  shows "hist_ok n (rs @ [w]) ws' \<and> (\<forall>w \<in> set ws'. wr_ok w) \<and> length ws' \<le> length ws"
proof -
  obtain us v vs where s: "ws = us @ v # vs" "\<forall>u \<in> set us. \<not> due now u" "w = restarted now v"
    "ws' = us @ (if oneshot v then [] else [restarted now v]) @ vs"
    using scan_found [OF assms(2,3)] by blast
  have none: "filter imm us = []" using s(2) by (rule filter_imm_before)
  have "hist_ok n (rs @ [w]) ws'"
  proof (cases "oneshot v")
    case True
    then show ?thesis
      using assms(1) none by (auto simp: hist_ok_def s sorted_wrt_append)
  next
    case False
    then have "\<not> imm v" using imm_oneshot by blast
    then show ?thesis
      using assms(1) none False by (auto simp: hist_ok_def s sorted_wrt_append)
  qed
  then show ?thesis using assms(2) by (auto simp: s)
qed

text \<open>The invariant of the queues.\<close>

definition held_ok :: "'b wrapper list \<Rightarrow> bool" where
  "held_ok ws \<longleftrightarrow> length ws \<le> MAX_MQ_SIZE \<and> (\<forall>w \<in> set ws. wr_ok w)"

definition mq_inv :: "('b, 'h) mq_state \<Rightarrow> bool" where
  "mq_inv s \<longleftrightarrow>
     (\<forall>q. hist_ok (mq_next s) (mq_ran q (mq_events s)) (held q s) \<and> held_ok (held q s))"

lemma mq_invD:
  assumes "mq_inv s" "mq_map s q = Some c"
  shows "hist_ok (mq_next s) (mq_ran q (mq_events s)) (ct_message c)" "held_ok (ct_message c)"
  using assms by (auto simp: mq_inv_def held_def dest: spec [of _ q])

lemma put_simps [simp]:
  "mq_next (put q c s) = mq_next s" "mq_events (put q c s) = mq_events s" "mq_seq (put q c s) = mq_seq s"
  "mq_map (put q c s) = (mq_map s)(q \<mapsto> c)"
  by (simp_all add: put_def)

lemma emit_simps [simp]:
  "mq_next (emit es s) = mq_next s" "mq_events (emit es s) = mq_events s @ es"
  "mq_seq (emit es s) = mq_seq s" "mq_map (emit es s) = mq_map s"
  by (simp_all add: emit_def)

lemma make_seq_simps [simp]:
  "fst (make_seq s) = mq_seq s + 1" "snd (make_seq s) = s\<lparr>mq_seq := mq_seq s + 1\<rparr>"
  by (simp_all add: make_seq_def)

lemma alloc_simps [simp]:
  "fst (alloc s) = mq_next s" "snd (alloc s) = s\<lparr>mq_next := Suc (mq_next s)\<rparr>"
  by (simp_all add: alloc_def)

lemma held_simps [simp]:
  "held q (put p c s) = (if q = p then ct_message c else held q s)" "held q (emit es s) = held q s"
  "held q (s\<lparr>mq_seq := n\<rparr>) = held q s" "held q (s\<lparr>mq_next := k\<rparr>) = held q s"
  by (simp_all add: held_def)

lemma MessageWrapper_simps [simp]:
  "wr_addr (MessageWrapper a h m t seq now) = a" "wr_timing (MessageWrapper a h m t seq now) = t"
  "wr_message (MessageWrapper a h m t seq now) = m" "wr_end_cond (MessageWrapper a h m t seq now) = None"
  "wr_post (MessageWrapper a h m t seq now) = \<lparr>pid_reg = h, pid_seq = seq\<rparr>"
  by (simp_all add: MessageWrapper_def)

lemma MessageWrapper_ok [simp]: "wr_ok (MessageWrapper a h m t seq now)"
  by (simp add: wr_ok_def MessageWrapper_def imm_def)

text \<open>The steps of which the operations are made keep it.\<close>

lemma inv_seq: "mq_inv s \<Longrightarrow> mq_inv (s\<lparr>mq_seq := n\<rparr>)"
  by (simp add: mq_inv_def)

lemma inv_next: "mq_inv s \<Longrightarrow> mq_inv (s\<lparr>mq_next := Suc (mq_next s)\<rparr>)"
  by (auto simp: mq_inv_def intro: hist_ok_mono)

lemma inv_emit: "mq_inv s \<Longrightarrow> (\<And>q. mq_ran q es = []) \<Longrightarrow> mq_inv (emit es s)"
  by (simp add: mq_inv_def)

lemma inv_put:
  "mq_inv s \<Longrightarrow> hist_ok (mq_next s) (mq_ran q (mq_events s)) (ct_message c) \<Longrightarrow> held_ok (ct_message c) \<Longrightarrow>
     mq_inv (put q c s)"
  by (simp add: mq_inv_def)

lemma inv_same:
  "mq_inv s \<Longrightarrow> mq_map s q = Some c \<Longrightarrow> ct_message c' = ct_message c \<Longrightarrow> mq_inv (put q c' s)"
  by (rule inv_put) (simp_all add: mq_invD)

lemma inv_shrink:
  assumes "mq_inv s" "mq_map s q = Some c" "subseq (ct_message c') (ct_message c)"
  shows "mq_inv (put q c' s)"
proof (rule inv_put [OF assms(1)])
  show "hist_ok (mq_next s) (mq_ran q (mq_events s)) (ct_message c')"
    using mq_invD(1) [OF assms(1,2)] assms(3) by (rule hist_ok_subseq)
  have "length (ct_message c') \<le> length (ct_message c)" using assms(3) by (rule list_emb_length)
  moreover have "set (ct_message c') \<subseteq> set (ct_message c)" using assms(3) by (auto dest: list_emb_set)
  ultimately show "held_ok (ct_message c')"
    using mq_invD(2) [OF assms(1,2)] by (auto simp: held_ok_def)
qed

lemma inv_push:
  assumes "mq_inv s" "mq_map s q = Some c" "length (ct_message c) < MAX_MQ_SIZE"
    "wr_addr w = mq_next s" "wr_ok w"
  shows "mq_inv (snd (push_back q c w (s\<lparr>mq_next := Suc (mq_next s)\<rparr>)))"
proof -
  have "hist_ok (Suc (mq_next s)) (mq_ran q (mq_events s)) (ct_message c @ [w])"
    using mq_invD(1) [OF assms(1,2)] assms(4) by (rule hist_ok_snoc)
  moreover have "held_ok (ct_message c @ [w])"
    using mq_invD(2) [OF assms(1,2)] assms(3,5) by (auto simp: held_ok_def)
  ultimately show ?thesis
    unfolding push_back_def snd_conv
    by (intro inv_emit inv_put inv_next assms(1)) simp_all
qed

text \<open>The operations keep it.\<close>

lemmas mq_op_defs =
  PostMessage_def SingletonMessage_def BroadcastMessage_def FasterMessage_def CancelMessage_def
  CancelMessage_handler_def CancelMessage_title_def InstallMessageHandler_def
  UnInstallMessageHandler_def BreakMessageQueueRunloop_def CreateMessageQueueInfo_def

lemma pair_let: "(let (x, y) = p in f x y) = f (fst p) (snd p)"
  by (simp add: split_def)

lemma inv_post: "mq_inv s \<Longrightarrow> mq_inv (snd (PostMessage h m t now s))"
  unfolding PostMessage_def
  by (auto simp: split_def split: option.split intro!: inv_push [where s = "s\<lparr>mq_seq := _\<rparr>", simplified] inv_seq)

lemma inv_broadcast: "mq_inv s \<Longrightarrow> mq_inv (snd (BroadcastMessage q m t now s))"
  unfolding BroadcastMessage_def
  by (auto simp: split_def split: option.split intro!: inv_push [where s = "s\<lparr>mq_seq := _\<rparr>", simplified] inv_seq)

lemma inv_remove:
  "mq_inv s \<Longrightarrow> mq_map s q = Some c \<Longrightarrow>
     mq_inv (emit (delete_events w) (put q (c\<lparr>ct_message := remove_first P (ct_message c)\<rparr>) s))"
  by (rule inv_emit) (simp_all add: inv_shrink [where c = c] subseq_remove_first)

lemma inv_push_at:
  assumes "mq_inv s" "mq_map s q = Some c" "length (ct_message c) < MAX_MQ_SIZE"
    "wr_addr w = mq_next s" "wr_ok w" "s' = s\<lparr>mq_next := Suc (mq_next s)\<rparr>"
  shows "mq_inv (snd (push_back q c w s'))"
  unfolding assms(6) by (rule inv_push [OF assms(1-5)])

lemma inv_singleton: "mq_inv s \<Longrightarrow> mq_inv (snd (SingletonMessage r h m t now s))"
proof (cases "mq_map s (hid_queue h)")
  case (Some c)
  assume inv: "mq_inv s"
  show ?thesis
  proof (cases "find (matches h m) (ct_message c)")
    case None
    then show ?thesis
      using inv Some
      by (auto simp: SingletonMessage_def split_def intro!: inv_push_at [where s = "s\<lparr>mq_seq := _\<rparr>"] inv_seq)
  next
    case found: (Some w)
    define c1 where "c1 = c\<lparr>ct_message := remove_first (matches h m) (ct_message c)\<rparr>"
    define s1 where "s1 = emit (delete_events w) (put (hid_queue h) c1 s)"
    have inv1: "mq_inv s1" unfolding s1_def c1_def by (rule inv_remove [OF inv Some])
    have m1: "mq_map s1 (hid_queue h) = Some c1" by (simp add: s1_def)
    have "mq_inv (snd (push_back (hid_queue h) c1 (MessageWrapper (mq_next s1) h m t seq now) (s2\<lparr>mq_next := Suc (mq_next s1)\<rparr>)))"
      if "length (ct_message c1) < MAX_MQ_SIZE" "s2 = s1 \<or> s2 = s1\<lparr>mq_seq := mq_seq s1 + 1\<rparr>" for seq s2
      using that(2) by (auto intro!: inv_push_at [where s = s2] inv_seq inv1 m1 that(1) simp: m1)
    then show ?thesis
      using inv inv1 found Some
      by (simp add: SingletonMessage_def split_def Let_def flip: c1_def s1_def)
  qed
qed (simp add: SingletonMessage_def)

lemma inv_faster: "mq_inv s \<Longrightarrow> mq_inv (snd (FasterMessage h m t now s))"
proof (cases "mq_map s (hid_queue h)")
  case (Some c)
  assume inv: "mq_inv s"
  define s0 where "s0 = s\<lparr>mq_seq := mq_seq s + 1\<rparr>"
  have inv0: "mq_inv s0" unfolding s0_def by (rule inv_seq [OF inv])
  define s2 where "s2 = s0\<lparr>mq_next := Suc (mq_next s0)\<rparr>"
  have inv2: "mq_inv s2" unfolding s2_def by (rule inv_next [OF inv0])
  have m0: "mq_map s0 (hid_queue h) = Some c" by (simp add: s0_def Some)
  define n where "n = MessageWrapper (mq_next s) h m t (mq_seq s + 1) now"
  define c1 where "c1 = c\<lparr>ct_message := remove_first (matches h m) (ct_message c)\<rparr>"
  have inv1: "mq_inv (emit (delete_events w) (put (hid_queue h) c1 s0))" for w :: "'a wrapper"
    unfolding c1_def by (rule inv_remove [OF inv0 m0])
  have inv3: "mq_inv (emit (delete_events w) (put (hid_queue h) c1 s2))" for w :: "'a wrapper"
    unfolding c1_def by (rule inv_remove [OF inv2]) (simp add: s2_def m0)
  have push1: "mq_inv (snd (push_back (hid_queue h) c1 (n\<lparr>wr_post := p\<rparr>)
      (emit (delete_events w) (put (hid_queue h) c1 s2))))"
    if "length (ct_message c1) < MAX_MQ_SIZE" for w :: "'a wrapper" and p
    using that
    by (intro inv_push_at [where s = "emit (delete_events w) (put (hid_queue h) c1 s0)"] inv1)
       (auto simp: n_def s0_def s2_def wr_ok_def imm_def MessageWrapper_def put_def emit_def
          intro!: mq_state.equality)
  have push2: "mq_inv (snd (push_back (hid_queue h) c n s2))" if "length (ct_message c) < MAX_MQ_SIZE"
    using that
    by (intro inv_push_at [where s = s0] inv0 m0) (simp_all add: n_def s0_def s2_def)
  have "FasterMessage h m t now s =
      (case find (matches h m) (ct_message c) of
         Some w \<Rightarrow>
           if ComputerWaitTime now w < ComputerWaitTime now n then (wr_post w, s2)
           else if MAX_MQ_SIZE \<le> length (ct_message c1)
                then (KNullPost, emit (delete_events w) (put (hid_queue h) c1 s2))
                else push_back (hid_queue h) c1 (n\<lparr>wr_post := wr_post w\<rparr>)
                       (emit (delete_events w) (put (hid_queue h) c1 s2))
       | None \<Rightarrow>
           if MAX_MQ_SIZE \<le> length (ct_message c) then (KNullPost, s2)
           else push_back (hid_queue h) c n s2)"
    by (cases "find (matches h m) (ct_message c)")
       (simp_all add: FasterMessage_def Some split_def Let_def n_def s2_def s0_def c1_def)
  then show ?thesis
    using inv2 inv3 push1 push2 by (auto split: option.split)
qed (simp add: FasterMessage_def)

lemma inv_erase: "mq_inv s \<Longrightarrow> mq_map s q = Some c \<Longrightarrow> mq_inv (erase_all P q c s)"
  unfolding erase_all_def by (rule inv_emit) (simp_all add: inv_shrink [where c = c])

lemma inv_cancel: "mq_inv s \<Longrightarrow> mq_inv (snd (CancelMessage p s))"
  by (simp add: CancelMessage_def inv_remove split: option.split)

lemma inv_cancel_handler: "mq_inv s \<Longrightarrow> mq_inv (CancelMessage_handler h s)"
  by (simp add: CancelMessage_handler_def inv_erase split: option.split)

lemma inv_cancel_title: "mq_inv s \<Longrightarrow> mq_inv (CancelMessage_title h t s)"
  by (simp add: CancelMessage_title_def inv_erase split: option.split)

lemma inv_install: "mq_inv s \<Longrightarrow> mq_inv (snd (InstallMessageHandler f r q s))"
  by (auto simp: InstallMessageHandler_def split_def Let_def split: option.split
        intro: inv_same [where c = "the (mq_map s q)"] inv_seq)

lemma inv_uninstall: "mq_inv s \<Longrightarrow> mq_inv (UnInstallMessageHandler h s)"
  by (auto simp: UnInstallMessageHandler_def split: option.split intro: inv_same)

lemma inv_break: "mq_inv s \<Longrightarrow> mq_inv (BreakMessageQueueRunloop q s)"
  by (auto simp: BreakMessageQueueRunloop_def split: option.split intro!: inv_emit inv_same)

lemma held_None: "mq_map s q = None \<Longrightarrow> held q s = []"
  by (simp add: held_def)

lemma inv_create: "mq_inv s \<Longrightarrow> mq_inv (CreateMessageQueueInfo f q s)"
proof -
  assume inv: "mq_inv s"
  have "hist_ok (mq_next s) (mq_ran q (mq_events s)) []" if "mq_map s q = None"
    using inv that by (auto simp: mq_inv_def held_def dest: spec [of _ q])
  then show ?thesis
    using inv
    by (auto simp: CreateMessageQueueInfo_def split_def Let_def held_ok_def split: option.split
          intro!: inv_put inv_seq)
qed

lemma inv_release: "mq_inv s \<Longrightarrow> mq_inv (ReleaseMessageQueueInfo q s)"
proof -
  assume inv: "mq_inv s"
  have "hist_ok (mq_next s) (mq_ran q (mq_events s)) []"
    using inv by (auto simp: mq_inv_def intro: hist_ok_subseq dest: spec [of _ q])
  then have "mq_inv (s\<lparr>mq_map := (mq_map s)(q := None)\<rparr>)"
    using inv by (simp add: mq_inv_def held_def held_ok_def)
  then show ?thesis
    using inv by (simp add: ReleaseMessageQueueInfo_def inv_emit split: option.split)
qed

lemma set_end_cond_keys:
  "map key (set_end_cond p k ws) = map key ws" "length (set_end_cond p k ws) = length ws"
  "(\<forall>w \<in> set (set_end_cond p k ws). wr_ok w) \<longleftrightarrow> (\<forall>w \<in> set ws. wr_ok w)"
  by (induction ws) (auto simp: set_end_cond_def key_def wr_ok_def imm_def split: list.split)

lemma inv_wait: "mq_inv s \<Longrightarrow> mq_inv (snd (WaitMessage tid p s))"
proof -
  assume inv: "mq_inv s"
  have "mq_inv (put q (c\<lparr>ct_message := set_end_cond p k (ct_message c)\<rparr>) (s\<lparr>mq_next := Suc (mq_next s)\<rparr>))"
    if "mq_map s q = Some c" for q c k
    using mq_invD [OF inv that]
    by (intro inv_put inv_next inv)
       (auto simp: held_ok_def set_end_cond_keys intro: hist_ok_keys [OF _ set_end_cond_keys(1)] hist_ok_mono)
  then show ?thesis
    using inv by (auto simp: WaitMessage_def split_def Let_def split: option.split)
qed

lemma inv_enter: "mq_inv s \<Longrightarrow> mq_map s q = Some c \<Longrightarrow> mq_inv (RunLoop_enter q c s)"
  by (auto simp: RunLoop_enter_def split_def Let_def intro!: inv_same [where c = c] inv_next)

lemma idle_message [simp]: "ct_message (loop_idle c) = ct_message c"
  by (simp add: loop_idle_def)

lemma busy_message [simp]: "ct_message (loop_busy w hs c) = ct_message c"
  by (simp add: loop_busy_def)

lemma breaks_idle [simp]: "breaks b (loop_idle c) = breaks b c"
  by (cases b) (simp_all add: breaks_def, simp_all add: loop_idle_def)

lemma put_twice [simp]: "put q c (put q d s) = put q c s"
  by (simp add: put_def)

lemma inv_top: "mq_inv s \<Longrightarrow> mq_map s q = Some c \<Longrightarrow> mq_inv (snd (RunLoop_top q now b c s))"
proof -
  assume inv: "mq_inv s" and c: "mq_map s q = Some c"
  define c1 where "c1 = loop_idle c"
  define s1 where "s1 = emit (idle_events c) (put q c1 s)"
  have inv1: "mq_inv s1"
    unfolding s1_def c1_def by (intro inv_emit inv_same [OF inv c]) simp_all
  have m1: "mq_map s1 q = Some c1" by (simp add: s1_def)
  have brk: "mq_inv (put q (c1\<lparr>ct_runloop := butlast (ct_runloop c1)\<rparr>) s1)"
    by (rule inv_same [OF inv1 m1]) simp
  have run: "mq_inv (emit [Ran q w] (put q (loop_busy w fit (c1\<lparr>ct_message := ws\<rparr>)) s1))"
    if "scan now t (ct_message c1) = (Some (w, d, ws), t')" for w d ws fit t t'
  proof -
    have "hist_ok (mq_next s1) (mq_ran q (mq_events s1) @ [w]) ws \<and> (\<forall>w \<in> set ws. wr_ok w) \<and>
        length ws \<le> length (ct_message c1)"
      using mq_invD [OF inv1 m1] that by (intro hist_ok_run) (auto simp: held_ok_def)
    then show ?thesis
      using inv1 mq_invD(2) [OF inv1 m1] by (auto simp: mq_inv_def held_ok_def)
  qed
  show ?thesis
    using inv1 brk run inv_release [OF brk]
    by (auto simp: RunLoop_top_def Let_def inv_emit simp flip: c1_def s1_def split: prod.split option.split)
qed

lemma stamp_simps [simp]:
  "key (stamp now w) = key w" "wr_addr (stamp now w) = wr_addr w" "wr_ok (stamp now w) = wr_ok w"
  by (simp_all add: stamp_def key_def wr_ok_def imm_def)

lemma stamp_keys:
  "map key (stamp_at a now ws) = map key ws" "length (stamp_at a now ws) = length ws"
  "(\<forall>w \<in> set (stamp_at a now ws). wr_ok w) \<longleftrightarrow> (\<forall>w \<in> set ws. wr_ok w)"
  by (induction ws) (simp_all add: stamp_at_def)

lemma inv_step:
  assumes "mq_inv s" "mq_map s q = Some c"
  shows "mq_inv (snd (RunLoop_step q now b p c s))"
proof -
  have "mq_inv (put q (c\<lparr>ct_message := stamp_at a now (ct_message c)\<rparr>) s)" for a
    using mq_invD [OF assms]
    by (intro inv_put assms(1)) (auto simp: held_ok_def stamp_keys intro: hist_ok_keys [OF _ stamp_keys(1)])
  then show ?thesis
    using assms
    by (cases "(q, now, b, p, c, s)" rule: RunLoop_step.cases)
       (auto simp: inv_top inv_emit split: option.split)
qed

text \<open>The sequences of operations from the start of the process.\<close>

definition mq_reach :: "('b, 'h) op list \<Rightarrow> ('b, 'h) mq_sys" where
  "mq_reach ops = run_ops ops sys_new"

lemma on_mq_simps [simp]:
  "sys_mq (on_mq f y) = f (sys_mq y)" "sys_frames (on_mq f y) = sys_frames y"
  by (simp_all add: on_mq_def)

lemma inv_push_frame: "mq_inv (sys_mq y) \<Longrightarrow> mq_inv (sys_mq (push_frame q b y))"
  by (simp add: push_frame_def inv_enter split: option.split)

lemma inv_iterate: "mq_inv (sys_mq y) \<Longrightarrow> mq_inv (sys_mq (iterate q now y))"
proof -
  assume inv: "mq_inv (sys_mq y)"
  have "mq_inv s" if "mq_map (sys_mq y) q = Some c"
    "RunLoop_step q now b p c (sys_mq y) = (o', s)" for c b p o' s
    using inv_step [OF inv that(1), of now b p] that(2) by simp
  then show ?thesis
    using inv by (auto simp: iterate_def split: option.split list.split prod.split)
qed

lemma inv_op: "mq_inv (sys_mq y) \<Longrightarrow> mq_inv (sys_mq (run_op x y))"
  by (cases x)
     (simp_all add: Let_def inv_create inv_push_frame inv_iterate inv_post inv_singleton inv_broadcast
        inv_faster inv_cancel inv_cancel_handler inv_cancel_title inv_install inv_uninstall inv_break
        inv_wait)

lemma inv_new: "mq_inv (sys_mq sys_new)"
  by (simp add: mq_inv_def sys_new_def mq_new_def held_def hist_ok_def held_ok_def)

lemma inv_ops: "mq_inv (sys_mq y) \<Longrightarrow> mq_inv (sys_mq (run_ops ops y))"
  by (induction ops arbitrary: y) (simp_all add: inv_op)

lemma inv_reach: "mq_inv (sys_mq (mq_reach ops))"
  by (simp add: mq_reach_def inv_ops inv_new)

text \<open>C30. Over any interleaving of posts, cancellations, replacements, broken and nested loops of any
  threads: of the messages of a queue that are to run at once, those it ran and those it still holds
  are, in this order, in the order of their posting; no message that is not periodic is run twice,
  or is still in the list after it ran; and the list is at most 5000 long.\<close>

theorem immediate_in_order:
  "sorted_wrt (<) (map wr_addr (filter imm
      (mq_ran q (mq_events (sys_mq (mq_reach ops))) @ held q (sys_mq (mq_reach ops))))) \<and>
    distinct (map wr_addr (filter oneshot
      (mq_ran q (mq_events (sys_mq (mq_reach ops))) @ held q (sys_mq (mq_reach ops))))) \<and>
    length (held q (sys_mq (mq_reach ops))) \<le> MAX_MQ_SIZE"
proof -
  have "hist_ok (mq_next (sys_mq (mq_reach ops))) (mq_ran q (mq_events (sys_mq (mq_reach ops))))
      (held q (sys_mq (mq_reach ops)))" "held_ok (held q (sys_mq (mq_reach ops)))"
    using inv_reach [of ops] unfolding mq_inv_def by blast+
  then show ?thesis by (simp only: hist_ok_def held_ok_def)
qed

text \<open>C31. A thread at the top of its loop that has no reason to leave takes exactly
  the first message of the list that is due (it leaves the list or, if it is periodic, starts its
  next period in its place) and no other; if none is due it sleeps for the shortest of the waiting
  times \<open>__ComputerWaitTime\<close> gives for the held messages, ten minutes at most.\<close>

theorem first_due_taken:
  assumes "y = mq_reach ops" "mq_map (sys_mq y) q = Some c" "sys_frames y q = f # fs"
    "fr_phase f = Top" "\<not> breaks (fr_breaker f) c"
  shows "(\<exists>us v vs. ct_message c = us @ v # vs \<and> (\<forall>u \<in> set us. 0 < ComputerWaitTime now u) \<and>
        ComputerWaitTime now v = 0 \<and>
        held q (sys_mq (iterate q now y)) = us @ (if oneshot v then [] else [restarted now v]) @ vs \<and>
        mq_ran q (mq_events (sys_mq (iterate q now y))) = mq_ran q (mq_events (sys_mq y)) @ [restarted now v]) \<or>
     (\<forall>w \<in> set (ct_message c). 0 < ComputerWaitTime now w) \<and>
        (\<exists>es. mq_events (sys_mq (iterate q now y)) = mq_events (sys_mq y) @ es @
           [Sleep q (Min (insert (10 * 60 * 1000) (ComputerWaitTime now ` set (ct_message c))))] \<and>
           mq_ran q es = []) \<and>
        held q (sys_mq (iterate q now y)) = ct_message c"
proof -
  have inv: "mq_inv (sys_mq y)" unfolding assms(1) by (rule inv_reach)
  have ok: "\<forall>w \<in> set (ct_message c). wr_ok w"
    using mq_invD(2) [OF inv assms(2)] by (simp add: held_ok_def)
  have pos: "0 < ComputerWaitTime now w" if "\<not> due now w" "w \<in> set (ct_message c)" for w
    using that ok due_wait [of w now] wait_nonneg [of now w] by auto
  show ?thesis
  proof (cases "scan now (10 * 60 * 1000) (ct_message c)")
    case (Pair r t)
    show ?thesis
    proof (cases r)
      case None
      have n: "(\<forall>w \<in> set (ct_message c). \<not> due now w) \<and>
          t = Min (insert (10 * 60 * 1000) (ComputerWaitTime now ` set (ct_message c)))"
        using scan_none [OF ok] Pair None by auto
      then show ?thesis
        using assms(2-5) Pair None pos
        by (intro disjI2) (auto simp: iterate_def RunLoop_top_def Let_def)
    next
      case (Some x)
      obtain w d ws where x: "x = (w, d, ws)" by (cases x)
      obtain us v vs where s: "ct_message c = us @ v # vs" "\<forall>u \<in> set us. \<not> due now u" "due now v"
        "w = restarted now v" "d = oneshot v" "ws = us @ (if oneshot v then [] else [restarted now v]) @ vs"
        using scan_found [OF ok, of now _ w d ws t] Pair Some x by blast
      show ?thesis
        using assms(2-5) Pair Some x s pos ok due_wait [of v now]
        by (intro disjI1 exI [of _ us] exI [of _ v] exI [of _ vs])
           (auto simp: iterate_def RunLoop_top_def Let_def)
    qed
  qed
qed

section \<open>No message is late\<close>

text \<open>On a clock that has not gone back and has run for less than 290 million years, the waiting
  time of a message shrinks with the clock.\<close>

lemma span_passes:
  assumes "r \<le> (now :: u64)" "now \<le> later" "uint later - uint r < 2 ^ 63"
  shows "gettickspan later r = gettickspan now r + (uint later - uint now)"
proof -
  have "uint now \<le> uint later" using assms(2) by (simp add: word_le_def)
  then show ?thesis
    using assms gettickspan_diff [of r now] gettickspan_diff [of r later] by simp
qed

lemma wait_passes:
  assumes "wr_record w \<le> now" "now \<le> later" "uint later - uint (wr_record w) < 2 ^ 63"
    "0 < ComputerWaitTime now w"
  shows "ComputerWaitTime later w = max 0 (ComputerWaitTime now w - (uint later - uint now))"
  using span_passes [OF assms(1-3)] assms(4)
  by (cases "tim_type (wr_timing w)"; cases "wr_status w")
     (auto simp: ComputerWaitTime_def Let_def max_def split: if_splits)

definition sleep_time :: "u64 \<Rightarrow> 'b wrapper list \<Rightarrow> int" where
  "sleep_time now ws = snd (scan now (10 * 60 * 1000) ws)"

text \<open>C32. While the loop sleeps nothing is late: of the messages it holds none becomes due before the
  time it chose is over, and if that is less than ten minutes one is due exactly then.\<close>

theorem sleeps_until_due:
  assumes "ws = held q (sys_mq (mq_reach ops))" "fst (scan now (10 * 60 * 1000) ws) = None"
    "\<forall>w \<in> set ws. wr_record w \<le> now \<and> uint now + 600000 - uint (wr_record w) < 2 ^ 63"
    "uint now + 600000 < 2 ^ 64"
  shows "0 < sleep_time now ws \<and>
    (\<forall>d. 0 \<le> d \<and> d < sleep_time now ws \<longrightarrow> (\<forall>w \<in> set ws. \<not> due (now + word_of_int d) w)) \<and>
    (sleep_time now ws < 600000 \<longrightarrow> (\<exists>w \<in> set ws. due (now + word_of_int (sleep_time now ws)) w))"
proof -
  define T where "T = sleep_time now ws"
  have ok: "\<forall>w \<in> set ws. wr_ok w"
    using inv_reach [of ops] unfolding assms(1) mq_inv_def held_ok_def by blast
  have "scan now (10 * 60 * 1000) ws = (None, T)"
    using assms(2) by (simp add: T_def sleep_time_def prod_eq_iff)
  then have n: "\<forall>w \<in> set ws. \<not> due now w" "T = Min (insert 600000 (ComputerWaitTime now ` set ws))"
    using scan_none [OF ok] by auto
  have pos: "0 < ComputerWaitTime now w" if "w \<in> set ws" for w
    using that n(1) ok due_wait [of w now] wait_nonneg [of now w] by force
  have T: "T \<le> 600000" "\<forall>w \<in> set ws. T \<le> ComputerWaitTime now w" "0 < T"
    unfolding n(2) using pos by (auto intro: Min_le)
  have later: "ComputerWaitTime (now + word_of_int d) w = max 0 (ComputerWaitTime now w - d)"
    if "w \<in> set ws" "0 \<le> d" "d \<le> T" for w d
  proof -
    have u: "uint (now + word_of_int d) = uint now + d"
      using that(2,3) T(1) assms(4) uint_wi_u64 [of d] by (simp add: uint_word_ariths)
    then have "now \<le> now + word_of_int d" using that(2) by (simp add: word_le_def)
    then show ?thesis
      using wait_passes [of w now "now + word_of_int d"] assms(3) that T(1) pos [OF that(1)] u by auto
  qed
  have "\<not> due (now + word_of_int d) w" if "0 \<le> d" "d < T" "w \<in> set ws" for d w
    using later [OF that(3,1)] that ok due_wait [of w "now + word_of_int d"] T(2) by force
  moreover have "\<exists>w \<in> set ws. due (now + word_of_int T) w" if "T < 600000"
  proof -
    have "T \<in> insert 600000 (ComputerWaitTime now ` set ws)" unfolding n(2) by (rule Min_in) simp_all
    then obtain w where "w \<in> set ws" "ComputerWaitTime now w = T" using \<open>T < 600000\<close> by auto
    then show ?thesis using later [of w T] T(3) ok due_wait [of w "now + word_of_int T"] by auto
  qed
  ultimately show ?thesis using T(3) by (auto simp flip: T_def)
qed

section \<open>A run of the loop\<close>

definition calls :: "('b, 'h) event list \<Rightarrow> ('b, 'h) event list" where
  "calls es = filter (\<lambda>e. case e of Called h i m \<Rightarrow> True | _ \<Rightarrow> False) es"

lemma calls_simps [simp]:
  "calls [] = []" "calls (es @ fs) = calls es @ calls fs" "calls [Called h i m] = [Called h i m]"
  "calls [Wake q] = []" "calls [Notify k] = []" "calls [Sleep q t] = []" "calls [Ran q w] = []"
  by (simp_all add: calls_def)

lemma calls_delete [simp]: "calls (delete_events w) = []"
  by (simp add: delete_events_def split: option.split)

lemma calls_idle [simp]: "calls (idle_events c) = []"
  by (simp add: idle_events_def)

text \<open>A thread that runs the loop of its queue in one frame, is not to leave it and is in the phase
  \<open>p\<close>, with the messages \<open>ws\<close> in its list and the handlers \<open>hs\<close> installed.\<close>

definition running ::
  "queue_id \<Rightarrow> ('b, 'h) mq_sys \<Rightarrow> ('b, 'h) phase \<Rightarrow> 'b wrapper list \<Rightarrow> 'h handler list \<Rightarrow> bool" where
  "running q y p ws hs \<longleftrightarrow>
     sys_frames y q = [\<lparr>fr_breaker = None, fr_phase = p\<rparr>] \<and>
     (case mq_map (sys_mq y) q of
        None \<Rightarrow> False
      | Some c \<Rightarrow> ct_message c = ws \<and> ct_handler c = hs \<and> \<not> ct_breakflag c)"

definition evs :: "('b, 'h) mq_sys \<Rightarrow> ('b, 'h) event list" where
  "evs y = mq_events (sys_mq y)"

lemma content_simps [simp]:
  "ct_handler (loop_idle c) = ct_handler c" "ct_breakflag (loop_idle c) = ct_breakflag c"
  "ct_handler (loop_busy w fit c) = ct_handler c" "ct_breakflag (loop_busy w fit c) = ct_breakflag c"
  by (simp_all add: loop_idle_def loop_busy_def)

lemma run_top:
  assumes "running q y Top ws hs" "scan now (10 * 60 * 1000) ws = (Some (w, d, ws'), t)"
  shows "running q (iterate q now y)
      (Starting (wr_addr w) (if d then Some w else None) (fit_handler (wr_post w) hs)) ws' hs \<and>
    mq_ran q (evs (iterate q now y)) = mq_ran q (evs y) @ [w] \<and> calls (evs (iterate q now y)) = calls (evs y)"
  using assms
  by (auto simp: running_def iterate_def evs_def RunLoop_top_def Let_def breaks_def split: option.splits)

lemma run_start_own:
  assumes "running q y (Starting a (Some w) fit) ws hs"
  shows "running q (iterate q now y) (Calling a (Some (stamp now w)) fit) ws hs \<and> evs (iterate q now y) = evs y"
  using assms by (auto simp: running_def iterate_def evs_def split: option.splits)

lemma run_call_own:
  assumes "running q y (Calling a (Some w) (h # fit)) ws hs"
  shows "running q (iterate q now y) (Calling a (Some w) fit) ws hs \<and>
    evs (iterate q now y) = evs y @ [Called (hdl_handler h) (wr_post w) (wr_message w)]"
  using assms by (auto simp: running_def iterate_def evs_def deref_def split: option.splits)

lemma run_end_own:
  assumes "running q y (Calling a (Some w) []) ws hs"
  shows "running q (iterate q now y) Top ws hs \<and> evs (iterate q now y) = evs y @ delete_events w"
  using assms by (auto simp: running_def iterate_def evs_def split: option.splits)

definition calls_of :: "u64 \<Rightarrow> 'h handler list \<Rightarrow> 'b wrapper \<Rightarrow> ('b, 'h) event list" where
  "calls_of now hs w =
     map (\<lambda>h. Called (hdl_handler h) (wr_post w) (wr_message (stamp now w))) (fit_handler (wr_post w) hs)"

lemma run_calls_own:
  assumes "running q y (Calling a (Some w) fit) ws hs"
  shows "let y' = run_ops (replicate (length fit + 1) (Iterate q now)) y in
    running q y' Top ws hs \<and> mq_ran q (evs y') = mq_ran q (evs y) \<and>
    calls (evs y') = calls (evs y) @ map (\<lambda>h. Called (hdl_handler h) (wr_post w) (wr_message w)) fit"
  using assms
proof (induction fit arbitrary: y)
  case Nil
  then show ?case using run_end_own [OF Nil] by (simp add: Let_def)
next
  case (Cons h fit)
  then show ?case using Cons.IH [of "iterate q now y"] run_call_own [OF Cons.prems] by (auto simp: Let_def)
qed

text \<open>One iteration that takes a message which is not periodic.\<close>

lemma run_oneshot:
  assumes "running q y Top ws hs" "scan now (10 * 60 * 1000) ws = (Some (w, True, ws'), t)"
  shows "let y' = run_ops (replicate (length (fit_handler (wr_post w) hs) + 3) (Iterate q now)) y in
    running q y' Top ws' hs \<and> mq_ran q (evs y') = mq_ran q (evs y) @ [w] \<and>
    calls (evs y') = calls (evs y) @ calls_of now hs w"
proof -
  define y1 where "y1 = iterate q now y"
  define y2 where "y2 = iterate q now y1"
  have 1: "running q y1 (Starting (wr_addr w) (Some w) (fit_handler (wr_post w) hs)) ws' hs"
    "mq_ran q (evs y1) = mq_ran q (evs y) @ [w]" "calls (evs y1) = calls (evs y)"
    using run_top [OF assms] by (simp_all add: y1_def)
  have 2: "running q y2 (Calling (wr_addr w) (Some (stamp now w)) (fit_handler (wr_post w) hs)) ws' hs"
    "evs y2 = evs y1"
    using run_start_own [OF 1(1), of now] by (simp_all add: y2_def)
  have "run_ops (replicate (length (fit_handler (wr_post w) hs) + 3) (Iterate q now)) y =
      run_ops (replicate (length (fit_handler (wr_post w) hs) + 1) (Iterate q now)) y2"
    by (simp add: numeral_3_eq_3 y1_def y2_def)
  moreover have "wr_post (stamp now w) = wr_post w" by (simp add: stamp_def)
  ultimately show ?thesis
    using run_calls_own [OF 2(1), of now] 1 2(2) by (simp add: Let_def calls_of_def)
qed

lemma scan_imm: "imm w \<Longrightarrow> scan now t (w # ws) = (Some (w, True, ws), t)"
  by (simp add: scan.simps imm_def Let_def)

definition drain_steps :: "'h handler list \<Rightarrow> 'b wrapper list \<Rightarrow> nat" where
  "drain_steps hs ws = (\<Sum>w \<leftarrow> ws. length (fit_handler (wr_post w) hs) + 3)"

text \<open>A list of messages to run at once is emptied in its order: within as many steps as there are
  calls to make, and three for every message, each message is handed, with its id, to the handlers
  installed for it (a broadcast to all that receive broadcasts), in the order of their installation,
  once each.\<close>

theorem queue_drained:
  assumes "running q y Top ws hs" "\<forall>w \<in> set ws. imm w"
  shows "let y' = run_ops (replicate (drain_steps hs ws) (Iterate q now)) y in
    running q y' Top [] hs \<and> mq_ran q (evs y') = mq_ran q (evs y) @ ws \<and>
    calls (evs y') = calls (evs y) @ concat (map (calls_of now hs) ws)"
  using assms
proof (induction ws arbitrary: y)
  case (Cons w ws)
  define y1 where "y1 = run_ops (replicate (length (fit_handler (wr_post w) hs) + 3) (Iterate q now)) y"
  have "running q y1 Top ws hs" "mq_ran q (evs y1) = mq_ran q (evs y) @ [w]"
    "calls (evs y1) = calls (evs y) @ calls_of now hs w"
    using run_oneshot [OF Cons.prems(1) scan_imm] Cons.prems(2) by (simp_all add: y1_def Let_def)
  moreover have "run_ops (replicate (drain_steps hs (w # ws)) (Iterate q now)) y =
      run_ops (replicate (drain_steps hs ws) (Iterate q now)) y1"
    by (simp only: drain_steps_def list.map sum_list.Cons replicate_add run_ops_simps y1_def)
  ultimately show ?case using Cons.IH [of y1] Cons.prems(2) by (simp add: Let_def)
qed (simp add: drain_steps_def Let_def)

text \<open>The iteration that takes the first message of the list, a periodic one.\<close>

lemma run_start_ref:
  assumes "running q y (Starting a None fit) (x # ws) hs" "wr_addr x = a" "a \<notin> wr_addr ` set ws"
  shows "running q (iterate q now y) (Calling a None fit) (stamp now x # ws) hs \<and> evs (iterate q now y) = evs y"
proof -
  have "stamp_at a now (x # ws) = stamp now x # ws"
    using assms(2,3) by (induction ws) (auto simp: stamp_at_def)
  then show ?thesis
    using assms by (auto simp: running_def iterate_def evs_def deref_def split: option.splits)
qed

lemma run_calls_ref:
  assumes "running q y (Calling a None fit) (x # ws) hs" "wr_addr x = a"
  shows "let y' = run_ops (replicate (length fit + 1) (Iterate q now)) y in
    running q y' Top (x # ws) hs \<and> mq_ran q (evs y') = mq_ran q (evs y)"
  using assms
proof (induction fit arbitrary: y)
  case Nil
  then show ?case by (auto simp: running_def iterate_def evs_def Let_def split: option.splits)
next
  case (Cons h fit)
  have "running q (iterate q now y) (Calling a None fit) (x # ws) hs \<and>
      mq_ran q (evs (iterate q now y)) = mq_ran q (evs y)"
    using Cons.prems by (auto simp: running_def iterate_def evs_def deref_def split: option.splits)
  then show ?case using Cons.IH [of "iterate q now y"] Cons.prems(2) by (simp add: Let_def)
qed

definition round_of :: "queue_id \<Rightarrow> 'h handler list \<Rightarrow> 'b wrapper \<Rightarrow> u64 \<Rightarrow> ('b, 'h) op list" where
  "round_of q hs p now = replicate (length (fit_handler (wr_post p) hs) + 3) (Iterate q now)"

lemma run_periodic:
  assumes "running q y Top (p # ws) hs" "\<not> oneshot p" "wr_ok p" "due now p" "wr_addr p \<notin> wr_addr ` set ws"
  shows "let y' = run_ops (round_of q hs p now) y in
    running q y' Top (stamp now (restarted now p) # ws) hs \<and> mq_ran q (evs y') = mq_ran q (evs y) @ [restarted now p]"
proof -
  define y1 where "y1 = iterate q now y"
  define y2 where "y2 = iterate q now y1"
  define fit where "fit = fit_handler (wr_post p) hs"
  have "scan now (10 * 60 * 1000) (p # ws) = (Some (restarted now p, False, restarted now p # ws), 10 * 60 * 1000)"
    using assms(2-4) by (simp add: scan_Cons)
  from run_top [OF assms(1) this]
  have 1: "running q y1 (Starting (wr_addr p) None fit) (restarted now p # ws) hs"
    "mq_ran q (evs y1) = mq_ran q (evs y) @ [restarted now p]"
    by (simp_all add: y1_def fit_def)
  have 2: "running q y2 (Calling (wr_addr p) None fit) (stamp now (restarted now p) # ws) hs" "evs y2 = evs y1"
    using run_start_ref [OF 1(1) _ assms(5), of now] by (simp_all add: y2_def)
  have "run_ops (round_of q hs p now) y = run_ops (replicate (length fit + 1) (Iterate q now)) y2"
    by (simp add: round_of_def numeral_3_eq_3 y1_def y2_def fit_def)
  then show ?thesis using run_calls_ref [OF 2(1), of now] 1 2(2) by (simp add: Let_def)
qed

text \<open>Rounds at the times \<open>ts\<close>, each at least a period after the one before.\<close>

fun spaced :: "int \<Rightarrow> u64 \<Rightarrow> u64 list \<Rightarrow> bool" where
  "spaced period t0 [] = True"
| "spaced period t0 (t # ts) = (period \<le> gettickspan t t0 \<and> spaced period t ts)"

text \<open>A periodic message whose handlers take as long as its period starves the messages behind it
  in the list: however many iterations the loop makes, it only runs the periodic one, whatever the
  others are and however long they have been due.\<close>

theorem periodic_starves:
  assumes "running q y Top (p # ws) hs" "tim_type (wr_timing p) = kPeriod" "wr_status p = kPeriod"
    "wr_addr p \<notin> wr_addr ` set ws" "spaced (tim_period (wr_timing p)) (wr_record p) ts"
  shows "let y' = run_ops (concat (map (round_of q hs p) ts)) y in
    (\<exists>p'. running q y' Top (p' # ws) hs \<and> wr_addr p' = wr_addr p) \<and>
    (\<exists>ps. mq_ran q (evs y') = mq_ran q (evs y) @ ps \<and> length ps = length ts \<and> (\<forall>x \<in> set ps. wr_addr x = wr_addr p))"
  using assms
proof (induction ts arbitrary: y p)
  case (Cons t ts)
  define y1 where "y1 = run_ops (round_of q hs p t) y"
  define p1 where "p1 = stamp t (restarted t p)"
  have p: "\<not> oneshot p" "wr_ok p" "due t p"
    using Cons.prems by (simp_all add: oneshot_def wr_ok_def due_def)
  have 1: "running q y1 Top (p1 # ws) hs" "mq_ran q (evs y1) = mq_ran q (evs y) @ [restarted t p]"
    using run_periodic [OF Cons.prems(1) p Cons.prems(4)] by (simp_all add: Let_def y1_def p1_def)
  have p1: "wr_timing p1 = wr_timing p" "wr_status p1 = kPeriod" "wr_addr p1 = wr_addr p"
    "wr_record p1 = t" "wr_post p1 = wr_post p"
    using p(1) by (simp_all add: p1_def stamp_def restarted_def)
  have same: "round_of q hs p1 = round_of q hs p" by (simp add: round_of_def p1 fun_eq_iff)
  obtain p' ps where "running q (run_ops (concat (map (round_of q hs p) ts)) y1) Top (p' # ws) hs"
    "wr_addr p' = wr_addr p" "length ps = length ts" "\<forall>x \<in> set ps. wr_addr x = wr_addr p"
    "mq_ran q (evs (run_ops (concat (map (round_of q hs p) ts)) y1)) = mq_ran q (evs y1) @ ps"
    using Cons.IH [OF 1(1)] Cons.prems(2,4,5) unfolding same by (auto simp: p1 Let_def)
  then show ?case
    using 1(2) by (auto simp: Let_def y1_def intro!: exI [of _ p'] exI [of _ "restarted t p # ps"])
qed auto

section \<open>The pointer of the loop\<close>

definition periodic_addrs :: "queue_id \<Rightarrow> ('b, 'h) mq_state \<Rightarrow> nat set" where
  "periodic_addrs q s = wr_addr ` {w \<in> set (held q s). \<not> oneshot w}"

definition loops :: "queue_id \<Rightarrow> ('b, 'h) mq_state \<Rightarrow> nat" where
  "loops q s = (case mq_map s q of None \<Rightarrow> 0 | Some c \<Rightarrow> length (ct_runloop c))"

fun phase_ok :: "nat set \<Rightarrow> ('b, 'h) phase \<Rightarrow> bool" where
  "phase_ok A Top = True"
| "phase_ok A (Starting a own hs) = (own = None \<longrightarrow> a \<in> A)"
| "phase_ok A (Calling a own hs) = (own = None \<longrightarrow> a \<in> A)"
| "phase_ok A Dangling = False"

definition ptr_inv :: "('b, 'h) mq_sys \<Rightarrow> bool" where
  "ptr_inv y \<longleftrightarrow>
     (\<forall>q. loops q (sys_mq y) = length (sys_frames y q) \<and>
        (\<forall>f \<in> set (sys_frames y q). phase_ok (periodic_addrs q (sys_mq y)) (fr_phase f)))"

lemma phase_ok_mono: "phase_ok A p \<Longrightarrow> A \<subseteq> B \<Longrightarrow> phase_ok B p"
  by (cases p) auto

lemma loops_simps [simp]:
  "loops q (put p c s) = (if q = p then length (ct_runloop c) else loops q s)"
  "loops q (emit es s) = loops q s" "loops q (s\<lparr>mq_seq := n\<rparr>) = loops q s"
  "loops q (s\<lparr>mq_next := k\<rparr>) = loops q s"
  by (simp_all add: loops_def)

lemma loops_Some: "mq_map s q = Some c \<Longrightarrow> loops q s = length (ct_runloop c)"
  by (simp add: loops_def)

text \<open>No operation but those of the loop changes the stack of running loops.\<close>

lemma loops_push: "mq_map s p = Some c \<Longrightarrow> loops q (snd (push_back p c w s)) = loops q s"
  by (simp add: push_back_def loops_Some)

lemma loops_push': "ct_runloop c = ct_runloop c' \<Longrightarrow> mq_map s p = Some c' \<Longrightarrow> loops q (snd (push_back p c w s)) = loops q s"
  by (simp add: push_back_def loops_Some)

lemma loops_ops:
  "loops q (snd (PostMessage h m t now s)) = loops q s"
  "loops q (snd (BroadcastMessage p m t now s)) = loops q s"
  "loops q (snd (CancelMessage i s)) = loops q s"
  "loops q (CancelMessage_handler h s) = loops q s"
  "loops q (CancelMessage_title h ti s) = loops q s"
  "loops q (snd (InstallMessageHandler f r p s)) = loops q s"
  "loops q (UnInstallMessageHandler h s) = loops q s"
  "loops q (BreakMessageQueueRunloop p s) = loops q s"
  "loops q (CreateMessageQueueInfo f p s) = loops q s"
  "loops q (snd (WaitMessage tid i s)) = loops q s"
  by (auto simp: mq_op_defs WaitMessage_def erase_all_def split_def Let_def loops_push loops_Some
        split: option.split) (auto simp: loops_def)

lemma loops_singleton: "loops q (snd (SingletonMessage r h m t now s)) = loops q s"
  by (auto simp: SingletonMessage_def split_def Let_def push_back_def loops_Some split: option.split)

lemma loops_faster: "loops q (snd (FasterMessage h m t now s)) = loops q s"
  by (auto simp: FasterMessage_def split_def Let_def push_back_def loops_Some split: option.split)

text \<open>Which operations keep the periodic messages, and which make none.\<close>

lemma periodic_simps [simp]:
  "periodic_addrs q (put p c s) =
     (if q = p then wr_addr ` {w \<in> set (ct_message c). \<not> oneshot w} else periodic_addrs q s)"
  "periodic_addrs q (emit es s) = periodic_addrs q s"
  "periodic_addrs q (s\<lparr>mq_seq := n\<rparr>) = periodic_addrs q s"
  "periodic_addrs q (s\<lparr>mq_next := k\<rparr>) = periodic_addrs q s"
  by (simp_all add: periodic_addrs_def)

lemma periodic_Some:
  "mq_map s q = Some c \<Longrightarrow> periodic_addrs q s = wr_addr ` {w \<in> set (ct_message c). \<not> oneshot w}"
  by (simp add: periodic_addrs_def held_def)

lemma oneshot_new [simp]: "oneshot (MessageWrapper a h m t seq now) \<longleftrightarrow> tim_type t \<noteq> kPeriod"
  by (simp add: oneshot_def)

lemma oneshot_post [simp]: "oneshot (w\<lparr>wr_post := p\<rparr>) = oneshot w" "oneshot (stamp now w) = oneshot w"
  by (simp_all add: oneshot_def stamp_def)

lemma set_remove_first: "x \<in> set (remove_first P xs) \<Longrightarrow> x \<in> set xs"
  using remove_first_set by fast

lemma set_end_cond_periodic:
  "wr_addr ` {w \<in> set (set_end_cond p k ws). \<not> oneshot w} = wr_addr ` {w \<in> set ws. \<not> oneshot w}"
proof -
  have "map wr_addr (filter (\<lambda>w. \<not> oneshot w) (set_end_cond p k ws)) = map wr_addr (filter (\<lambda>w. \<not> oneshot w) ws)"
    by (rule keys_filter [OF set_end_cond_keys(1), where Q = "\<lambda>t. t = kPeriod"]) (simp add: oneshot_def)
  from arg_cong [OF this, of set] show ?thesis by simp
qed

lemma periodic_kept:
  "periodic_addrs q s \<subseteq> periodic_addrs q (snd (PostMessage h m t now s))"
  "periodic_addrs q s \<subseteq> periodic_addrs q (snd (SingletonMessage False h m t now s))"
  "periodic_addrs q s \<subseteq> periodic_addrs q (snd (BroadcastMessage p m t now s))"
  "periodic_addrs q s \<subseteq> periodic_addrs q (snd (InstallMessageHandler f r p s))"
  "periodic_addrs q s \<subseteq> periodic_addrs q (UnInstallMessageHandler h s)"
  "periodic_addrs q s \<subseteq> periodic_addrs q (BreakMessageQueueRunloop p s)"
  "periodic_addrs q s \<subseteq> periodic_addrs q (CreateMessageQueueInfo f p s)"
  "periodic_addrs q s \<subseteq> periodic_addrs q (snd (WaitMessage tid i s))"
  by (auto simp: mq_op_defs WaitMessage_def split_def Let_def push_back_def periodic_Some
        set_end_cond_periodic held_None split: option.split) (auto simp: periodic_addrs_def held_def)

lemma periodic_none:
  "tim_type t \<noteq> kPeriod \<Longrightarrow> periodic_addrs q (snd (PostMessage h m t now s)) \<subseteq> periodic_addrs q s"
  "tim_type t \<noteq> kPeriod \<Longrightarrow> periodic_addrs q (snd (BroadcastMessage p m t now s)) \<subseteq> periodic_addrs q s"
  "periodic_addrs q (snd (InstallMessageHandler f r p s)) \<subseteq> periodic_addrs q s"
  "periodic_addrs q (UnInstallMessageHandler h s) \<subseteq> periodic_addrs q s"
  "periodic_addrs q (BreakMessageQueueRunloop p s) \<subseteq> periodic_addrs q s"
  "periodic_addrs q (CreateMessageQueueInfo f p s) \<subseteq> periodic_addrs q s"
  "periodic_addrs q (snd (WaitMessage tid i s)) \<subseteq> periodic_addrs q s"
  "periodic_addrs q (snd (CancelMessage i s)) \<subseteq> periodic_addrs q s"
  "periodic_addrs q (CancelMessage_handler h s) \<subseteq> periodic_addrs q s"
  "periodic_addrs q (CancelMessage_title h ti s) \<subseteq> periodic_addrs q s"
  by (auto simp: mq_op_defs WaitMessage_def erase_all_def split_def Let_def push_back_def periodic_Some
        set_end_cond_periodic dest: set_remove_first split: option.split_asm option.split if_splits)

lemma periodic_none_replace:
  "tim_type t \<noteq> kPeriod \<Longrightarrow> periodic_addrs q (snd (SingletonMessage r h m t now s)) \<subseteq> periodic_addrs q s"
  "tim_type t \<noteq> kPeriod \<Longrightarrow> periodic_addrs q (snd (FasterMessage h m t now s)) \<subseteq> periodic_addrs q s"
  by (auto simp: SingletonMessage_def FasterMessage_def split_def Let_def push_back_def periodic_Some
        dest: set_remove_first split: option.split_asm option.split if_splits)

text \<open>A step of the loop concerns its queue only.\<close>

lemma step_other:
  assumes "p \<noteq> q" "mq_map s q = Some c"
  shows "mq_map (snd (RunLoop_step q now b ph c s)) p = mq_map s p"
proof -
  have "mq_map (snd (RunLoop_top q now b c s)) p = mq_map s p"
    using assms(1)
    by (auto simp: RunLoop_top_def Let_def ReleaseMessageQueueInfo_def split: option.split prod.split)
  then show ?thesis
    using assms(1) by (cases "(q, now, b, ph, c, s)" rule: RunLoop_step.cases) (auto split: option.split)
qed

lemma stamp_periodic:
  "wr_addr ` {w \<in> set (stamp_at a now ws). \<not> oneshot w} = wr_addr ` {w \<in> set ws. \<not> oneshot w}"
proof -
  have "map wr_addr (filter (\<lambda>w. \<not> oneshot w) (stamp_at a now ws)) = map wr_addr (filter (\<lambda>w. \<not> oneshot w) ws)"
    by (rule keys_filter [OF stamp_keys(1), where Q = "\<lambda>t. t = kPeriod"]) (simp add: oneshot_def)
  from arg_cong [OF this, of set] show ?thesis by simp
qed

lemma length_upd_last [simp]: "length (upd_last f xs) = length xs"
  by (simp add: upd_last_def)

lemma loops_content [simp]:
  "length (ct_runloop (loop_idle c)) = length (ct_runloop c)"
  "length (ct_runloop (loop_busy w fit c)) = length (ct_runloop c)"
  by (simp_all add: loop_idle_def loop_busy_def)

lemma deref_periodic:
  "a \<in> wr_addr ` {w \<in> set (ct_message c). \<not> oneshot w} \<Longrightarrow> deref a None c \<noteq> None"
  by (auto simp: deref_def find_None_iff)

text \<open>What a step does to the stack of its queue and the periodic messages of its list: it stays in
  the frame, with a valid pointer, or leaves it; the last to leave releases the queue.\<close>

definition stays :: "queue_id \<Rightarrow> ('b, 'h) mq_state \<Rightarrow> ('b, 'h) phase option \<times> ('b, 'h) mq_state \<Rightarrow> bool" where
  "stays q s r \<longleftrightarrow> (case r of
     (Some p, s') \<Rightarrow> loops q s' = loops q s \<and> periodic_addrs q s' = periodic_addrs q s \<and>
        phase_ok (periodic_addrs q s) p
   | (None, s') \<Rightarrow> loops q s' = loops q s - 1 \<and> periodic_addrs q s' \<subseteq> periodic_addrs q s \<and>
        (loops q s' = 0 \<or> periodic_addrs q s' = periodic_addrs q s))"

lemma top_stays:
  assumes "mq_inv s" "mq_map s q = Some c"
  shows "stays q s (RunLoop_top q now b c s)"
proof (cases "breaks b c")
  case True
  have "ct_runloop (loop_idle c) = [] \<longleftrightarrow> ct_runloop c = []"
    using loops_content(1) [of c] by (metis length_0_conv)
  moreover have "butlast (ct_runloop (loop_idle c)) = [] \<longleftrightarrow> length (ct_runloop c) \<le> 1"
    using loops_content(1) [of c] by (metis butlast_conv_take diff_is_0_eq length_butlast length_0_conv)
  ultimately show ?thesis
    using True assms(2) periodic_Some [OF assms(2)]
    by (auto simp: stays_def RunLoop_top_def Let_def loops_Some [OF assms(2)] ReleaseMessageQueueInfo_def)
       (simp_all add: loops_def periodic_addrs_def held_def emit_def put_def)
next
  case False
  have ok: "\<forall>w \<in> set (ct_message c). wr_ok w"
    using mq_invD(2) [OF assms] by (simp add: held_ok_def)
  show ?thesis
  proof (cases "scan now (10 * 60 * 1000) (ct_message c)")
    case (Pair r t)
    show ?thesis
    proof (cases r)
      case None
      then show ?thesis
        using False Pair assms(2) periodic_Some [OF assms(2)]
        by (simp add: stays_def RunLoop_top_def Let_def loops_Some)
    next
      case (Some x)
      obtain w d ws where x: "x = (w, d, ws)" by (cases x)
      obtain us v vs where s: "ct_message c = us @ v # vs" "w = restarted now v" "d = oneshot v"
        "ws = us @ (if oneshot v then [] else [restarted now v]) @ vs"
        using scan_found [OF ok, of now _ w d ws t] Pair Some x by blast
      have "map wr_addr (filter (\<lambda>w. \<not> oneshot w) ws) = map wr_addr (filter (\<lambda>w. \<not> oneshot w) (ct_message c))"
        by (simp add: s)
      from arg_cong [OF this, of set]
      have "wr_addr ` {w \<in> set ws. \<not> oneshot w} = wr_addr ` {w \<in> set (ct_message c). \<not> oneshot w}"
        by simp
      moreover have "\<not> oneshot v \<Longrightarrow> wr_addr v \<in> wr_addr ` {w \<in> set (ct_message c). \<not> oneshot w}"
        by (auto simp: s)
      ultimately show ?thesis
        using False Pair Some x s(2,3) assms(2) periodic_Some [OF assms(2)]
        by (auto simp: stays_def RunLoop_top_def Let_def loops_Some)
    qed
  qed
qed

lemma step_stays:
  assumes "mq_inv s" "mq_map s q = Some c" "phase_ok (periodic_addrs q s) p"
  shows "stays q s (RunLoop_step q now b p c s)"
proof (cases "p = Top")
  case True
  then show ?thesis by (simp add: top_stays [OF assms(1,2)])
next
  case False
  then show ?thesis
    using assms(3) deref_periodic [of _ c] periodic_Some [OF assms(2)]
    by (cases "(q, now, b, p, c, s)" rule: RunLoop_step.cases)
       (auto simp: stays_def loops_Some [OF assms(2)] stamp_periodic deref_def split: option.split)
qed

lemma ptr_mq:
  assumes "ptr_inv y" "\<And>q. loops q (f (sys_mq y)) = loops q (sys_mq y)"
    "\<And>q. periodic_addrs q (sys_mq y) \<subseteq> periodic_addrs q (f (sys_mq y))"
  shows "ptr_inv (on_mq f y)"
proof -
  have "phase_ok (periodic_addrs q (f (sys_mq y))) (fr_phase g)" if "g \<in> set (sys_frames y q)" for g q
    using assms(1) that by (intro phase_ok_mono [OF _ assms(3)]) (simp add: ptr_inv_def)
  then show ?thesis using assms(1,2) by (simp add: ptr_inv_def)
qed

lemma ptr_push:
  assumes "ptr_inv y"
  shows "ptr_inv (push_frame q b y)"
proof (cases "mq_map (sys_mq y) q")
  case (Some c)
  then show ?thesis
    using assms
    by (auto simp: push_frame_def RunLoop_enter_def split_def Let_def ptr_inv_def loops_Some periodic_Some
          dest: spec [of _ q])
qed (simp add: push_frame_def assms)

lemma ptr_iterate:
  assumes "ptr_inv y" "mq_inv (sys_mq y)"
  shows "ptr_inv (iterate q now y)"
proof (cases "mq_map (sys_mq y) q")
  case (Some c)
  show ?thesis
  proof (cases "sys_frames y q")
    case (Cons f fs)
    have ok: "phase_ok (periodic_addrs q (sys_mq y)) (fr_phase f)"
      "\<forall>g \<in> set fs. phase_ok (periodic_addrs q (sys_mq y)) (fr_phase g)"
      "loops q (sys_mq y) = Suc (length fs)"
      using assms(1) Cons by (auto simp: ptr_inv_def dest: spec [of _ q])
    define r where "r = RunLoop_step q now (fr_breaker f) (fr_phase f) c (sys_mq y)"
    have st: "stays q (sys_mq y) r" unfolding r_def by (rule step_stays [OF assms(2) Some ok(1)])
    have other: "loops p (snd r) = loops p (sys_mq y) \<and> periodic_addrs p (snd r) = periodic_addrs p (sys_mq y)"
      if "p \<noteq> q" for p
      using step_other [OF that Some] by (simp add: r_def loops_def periodic_addrs_def held_def)
    have "iterate q now y = (case r of
        (None, s) \<Rightarrow> \<lparr>sys_mq = s, sys_frames = (sys_frames y)(q := fs)\<rparr>
      | (Some p, s) \<Rightarrow> \<lparr>sys_mq = s, sys_frames = (sys_frames y)(q := f\<lparr>fr_phase := p\<rparr> # fs)\<rparr>)"
      by (simp add: iterate_def Some Cons r_def)
    then show ?thesis
      using st ok other assms(1)
      by (cases r; cases "fst r") (auto simp: stays_def ptr_inv_def)
  qed (simp add: iterate_def assms Some)
qed (simp add: iterate_def assms)

definition removes :: "('b, 'h) op \<Rightarrow> bool" where
  "removes x \<longleftrightarrow> (case x of Singleton r h m t now \<Rightarrow> r | Faster h m t now \<Rightarrow> True | Cancel p \<Rightarrow> True
     | CancelHandler h \<Rightarrow> True | CancelTitle h t \<Rightarrow> True | _ \<Rightarrow> False)"

definition posts_periodic :: "('b, 'h) op \<Rightarrow> bool" where
  "posts_periodic x \<longleftrightarrow> (case x of Post h m t now \<Rightarrow> tim_type t = kPeriod
     | Singleton r h m t now \<Rightarrow> tim_type t = kPeriod | Broadcast q m t now \<Rightarrow> tim_type t = kPeriod
     | Faster h m t now \<Rightarrow> tim_type t = kPeriod | _ \<Rightarrow> False)"

lemma ptr_op_kept:
  assumes "ptr_inv y" "mq_inv (sys_mq y)" "\<not> removes x"
  shows "ptr_inv (run_op x y)"
  using assms
  by (cases x)
     (auto simp: removes_def Let_def loops_ops loops_singleton
        intro!: ptr_mq ptr_push ptr_iterate intro: subsetD [OF periodic_kept(1)] subsetD [OF periodic_kept(2)]
          subsetD [OF periodic_kept(3)] subsetD [OF periodic_kept(4)] subsetD [OF periodic_kept(5)]
          subsetD [OF periodic_kept(6)] subsetD [OF periodic_kept(7)] subsetD [OF periodic_kept(8)])

lemma iterate_periodic:
  assumes "ptr_inv y" "mq_inv (sys_mq y)"
  shows "periodic_addrs p (sys_mq (iterate q now y)) \<subseteq> periodic_addrs p (sys_mq y)"
proof (cases "mq_map (sys_mq y) q")
  case (Some c)
  show ?thesis
  proof (cases "sys_frames y q")
    case (Cons f fs)
    have "phase_ok (periodic_addrs q (sys_mq y)) (fr_phase f)"
      using assms(1) Cons by (auto simp: ptr_inv_def dest: spec [of _ q])
    then show ?thesis
      using step_stays [OF assms(2) Some, of "fr_phase f" now "fr_breaker f"]
        step_other [OF _ Some, of p now "fr_breaker f" "fr_phase f"] Some Cons
      by (cases "p = q")
         (auto simp: iterate_def stays_def periodic_addrs_def held_def split: prod.splits option.splits)
  qed (simp add: iterate_def Some)
qed (simp add: iterate_def)

text \<open>The first case: there is no periodic message at all.\<close>

definition no_periodic :: "('b, 'h) mq_sys \<Rightarrow> bool" where
  "no_periodic y \<longleftrightarrow> ptr_inv y \<and> (\<forall>q. periodic_addrs q (sys_mq y) = {})"

definition gentle :: "(('b, 'h) mq_state \<Rightarrow> ('b, 'h) mq_state) \<Rightarrow> bool" where
  "gentle f \<longleftrightarrow> (\<forall>s q. loops q (f s) = loops q s \<and> periodic_addrs q (f s) \<subseteq> periodic_addrs q s)"

lemma gentle_ops:
  "tim_type t \<noteq> kPeriod \<Longrightarrow> gentle (snd \<circ> PostMessage h m t now)"
  "tim_type t \<noteq> kPeriod \<Longrightarrow> gentle (snd \<circ> SingletonMessage r h m t now)"
  "tim_type t \<noteq> kPeriod \<Longrightarrow> gentle (snd \<circ> BroadcastMessage p m t now)"
  "tim_type t \<noteq> kPeriod \<Longrightarrow> gentle (snd \<circ> FasterMessage h m t now)"
  "gentle (snd \<circ> CancelMessage i)" "gentle (CancelMessage_handler h)" "gentle (CancelMessage_title h ti)"
  "gentle (snd \<circ> InstallMessageHandler f r p)" "gentle (UnInstallMessageHandler h)"
  "gentle (BreakMessageQueueRunloop p)" "gentle (CreateMessageQueueInfo f p)"
  "gentle (snd \<circ> WaitMessage tid i)"
  by (simp_all add: gentle_def loops_ops loops_singleton loops_faster periodic_none periodic_none_replace)

lemma no_periodic_mq: "no_periodic y \<Longrightarrow> gentle f \<Longrightarrow> no_periodic (on_mq f y)"
  using ptr_mq [of y f] unfolding no_periodic_def gentle_def on_mq_simps by (metis subset_empty)

lemma no_periodic_push: "no_periodic y \<Longrightarrow> no_periodic (push_frame p b y)"
  by (auto simp: no_periodic_def ptr_push)
     (auto simp: push_frame_def RunLoop_enter_def split_def Let_def periodic_Some
       split: option.splits if_splits dest: spec [of _ p])

lemma no_periodic_iterate:
  "no_periodic y \<Longrightarrow> mq_inv (sys_mq y) \<Longrightarrow> no_periodic (iterate q now y)"
  using iterate_periodic [of y] by (auto simp: no_periodic_def ptr_iterate)

lemma no_periodic_op:
  "no_periodic y \<Longrightarrow> mq_inv (sys_mq y) \<Longrightarrow> \<not> posts_periodic x \<Longrightarrow> no_periodic (run_op x y)"
  by (cases x)
     (simp_all add: posts_periodic_def Let_def no_periodic_mq no_periodic_push no_periodic_iterate gentle_ops)

lemma ptr_new: "ptr_inv sys_new" "periodic_addrs q (sys_mq sys_new) = {}"
  by (simp_all add: ptr_inv_def sys_new_def mq_new_def loops_def periodic_addrs_def held_def)

text \<open>C33. The pointer the loop keeps to the message it runs stays valid, over any interleaving and
  nesting of loops, as long as no periodic message is ever posted, or no message is ever cancelled
  or replaced.\<close>

theorem pointer_valid:
  "(\<forall>x \<in> set ops. \<not> posts_periodic x) \<or> (\<forall>x \<in> set ops. \<not> removes x) \<Longrightarrow>
     f \<in> set (sys_frames (mq_reach ops) q) \<Longrightarrow> fr_phase f \<noteq> Dangling"
proof -
  assume calm: "(\<forall>x \<in> set ops. \<not> posts_periodic x) \<or> (\<forall>x \<in> set ops. \<not> removes x)"
  assume f: "f \<in> set (sys_frames (mq_reach ops) q)"
  have kept: "ptr_inv (run_ops xs y)" if "\<forall>x \<in> set xs. \<not> removes x" "ptr_inv y" "mq_inv (sys_mq y)"
    for xs and y :: "('a, 'b) mq_sys"
    using that by (induction xs arbitrary: y) (simp_all add: ptr_op_kept inv_op)
  have oneshots: "no_periodic (run_ops xs y)"
    if "\<forall>x \<in> set xs. \<not> posts_periodic x" "no_periodic y" "mq_inv (sys_mq y)"
    for xs and y :: "('a, 'b) mq_sys"
    using that by (induction xs arbitrary: y) (simp_all add: no_periodic_op inv_op)
  have "ptr_inv (mq_reach ops)"
    using calm kept oneshots ptr_new inv_new unfolding mq_reach_def no_periodic_def by blast
  then have "phase_ok (periodic_addrs q (sys_mq (mq_reach ops))) (fr_phase f)"
    using f by (simp add: ptr_inv_def)
  then show ?thesis by auto
qed

text \<open>Without either the pointer dangles: when the periodic message a thread runs is cancelled - by
  its own handler, or by another thread before the time of its execution is noted - the next use of
  the pointer is a use of the deleted wrapper.\<close>

lemma remove_first_addr:
  "find P ws = Some w \<Longrightarrow> distinct (map wr_addr ws) \<Longrightarrow> wr_addr w \<notin> wr_addr ` set (remove_first P ws)"
proof (induction ws)
  case (Cons x ws)
  show ?case
  proof (cases "P x")
    case False
    then have "find P ws = Some w" using Cons.prems(1) by simp
    then have "w \<in> set ws" by (auto simp: find_Some_iff)
    then have "wr_addr x \<noteq> wr_addr w" using Cons.prems(2) by (auto simp: image_iff)
    then show ?thesis using False Cons.IH [OF \<open>find P ws = Some w\<close>] Cons.prems(2) by simp
  qed (use Cons.prems in auto)
qed simp

text \<open>C34. A thread that has taken a periodic message and has yet to note the time of its execution, or
  to call a further handler, uses a deleted wrapper if the message is cancelled in between.\<close>

theorem cancelled_periodic_dangles:
  assumes "y = mq_reach ops" "sys_frames y (hid_queue (pid_reg p)) = f # fs"
    "fr_phase f = Starting a None hs \<or> (\<exists>h. fr_phase f = Calling a None (h # hs))"
    "find (\<lambda>x. p = wr_post x) (held (hid_queue (pid_reg p)) (sys_mq y)) = Some w" "wr_addr w = a"
    "hid_queue (pid_reg p) \<noteq> 0" "pid_seq p \<noteq> 0"
  shows "sys_frames (run_ops [Cancel p, Iterate (hid_queue (pid_reg p)) now] y) (hid_queue (pid_reg p)) =
    f\<lparr>fr_phase := Dangling\<rparr> # fs"
proof -
  define q where "q = hid_queue (pid_reg p)"
  obtain c where c: "mq_map (sys_mq y) q = Some c"
    using assms(4) by (cases "mq_map (sys_mq y) q") (auto simp: held_def q_def)
  have w: "find (\<lambda>x. p = wr_post x) (ct_message c) = Some w"
    using assms(4) c by (simp add: held_def q_def)
  have "distinct (map wr_addr (ct_message c))"
    using mq_invD(1) [OF inv_reach, of ops q c] c by (simp add: hist_ok_def assms(1))
  from remove_first_addr [OF w this]
  have gone: "find (\<lambda>x. wr_addr x = a) (remove_first (\<lambda>x. p = wr_post x) (ct_message c)) = None"
    by (auto simp: find_None_iff assms(5))
  define c1 where "c1 = c\<lparr>ct_message := remove_first (\<lambda>x. p = wr_post x) (ct_message c)\<rparr>"
  have "deref a None c1 = None" using gone by (simp add: deref_def c1_def)
  moreover have "mq_map (sys_mq (run_op (Cancel p) y)) q = Some c1" "sys_frames (run_op (Cancel p) y) q = f # fs"
    using assms(2,6,7) c w by (simp_all add: CancelMessage_def q_def c1_def)
  ultimately show ?thesis
    using assms(3) by (auto simp: iterate_def simp flip: q_def)
qed

section \<open>Waiting\<close>

text \<open>A thread that waits for a message is woken when the wrapper is deleted, so also when the
  message is cancelled: \<open>WaitMessage\<close> returns true though no handler was called.\<close>

lemma cancelled_wait_succeeds:
  assumes "mq_map s (hid_queue (pid_reg p)) = Some c" "find (\<lambda>w. p = wr_post w) (ct_message c) = Some w"
    "wr_end_cond w = Some k" "hid_queue (pid_reg p) \<noteq> 0" "pid_seq p \<noteq> 0"
  shows "fst (CancelMessage p s) \<and> mq_events (snd (CancelMessage p s)) = mq_events s @ [Notify k]"
  using assms by (simp add: CancelMessage_def delete_events_def)

text \<open>Before the thread of a queue has entered its loop, a message that is already in the list is not
  found.\<close>

lemma found_only_when_running:
  "mq_map s (hid_queue (pid_reg p)) = Some c \<Longrightarrow> ct_runloop c = [] \<Longrightarrow> \<not> FoundMessage p s"
  by (simp add: FoundMessage_def)

text \<open>A message that replaces another always finds room, since the other is removed first.\<close>

lemma replaced_never_lost:
  assumes "mq_inv s" "mq_map s (hid_queue h) = Some c" "find (matches h m) (ct_message c) = Some w"
  shows "\<exists>x. held (hid_queue h) (snd (SingletonMessage True h m t now s)) =
      remove_first (matches h m) (ct_message c) @ [x] \<and>
    wr_message x = m \<and> wr_timing x = t \<and> pid_reg (wr_post x) = h \<and>
    (pid_seq (wr_post w) \<noteq> 0 \<longrightarrow> wr_post x = wr_post w)"
proof -
  have "mset (ct_message c) = add_mset w (mset (remove_first (matches h m) (ct_message c)))"
    using mset_remove_first [of "ct_message c" "matches h m"] assms(3) by simp
  from arg_cong [OF this, of size]
  have "\<not> MAX_MQ_SIZE \<le> length (remove_first (matches h m) (ct_message c))"
    using mq_invD(2) [OF assms(1,2)] by (simp add: held_ok_def)
  moreover have "pid_reg (wr_post w) = h"
    using assms(3) by (auto simp: find_Some_iff matches_def)
  ultimately show ?thesis
    using assms(2,3) by (simp add: SingletonMessage_def split_def Let_def push_back_def)
qed

section \<open>What the users of a queue rely on\<close>

text \<open>The operations of the STN module, the calls of its alarms and the reports of its links are
  posted to run at once and in order; what they rely on is a mailbox: a message that was accepted is
  the last of the pending ones, a cancelled one is pending no more, and the thread carries out the
  first.\<close>

locale mailbox =
  fixes sound :: "'s \<Rightarrow> bool"
    and accepts :: "'s \<Rightarrow> bool"
    and pending :: "'s \<Rightarrow> 'i list"
    and carried_out :: "'s \<Rightarrow> 'i list"
    and post :: "'m \<Rightarrow> 's \<Rightarrow> 'i \<times> 's"
    and withdraw :: "'i \<Rightarrow> 's \<Rightarrow> 's"
    and step :: "'s \<Rightarrow> 's"
  assumes pending_distinct: "sound s \<Longrightarrow> distinct (pending s)"
    and post_sound: "sound s \<Longrightarrow> accepts s \<Longrightarrow> sound (snd (post m s))"
    and post_pending: "sound s \<Longrightarrow> accepts s \<Longrightarrow> pending (snd (post m s)) = pending s @ [fst (post m s)]"
    and post_done: "sound s \<Longrightarrow> accepts s \<Longrightarrow> carried_out (snd (post m s)) = carried_out s"
    and withdraw_sound: "sound s \<Longrightarrow> sound (withdraw i s)"
    and withdraw_pending: "sound s \<Longrightarrow> pending (withdraw i s) = remove1 i (pending s)"
    and withdraw_done: "sound s \<Longrightarrow> carried_out (withdraw i s) = carried_out s"
    and step_sound: "sound s \<Longrightarrow> pending s = i # is \<Longrightarrow> sound (step s)"
    and step_pending: "sound s \<Longrightarrow> pending s = i # is \<Longrightarrow> pending (step s) = is"
    and step_done: "sound s \<Longrightarrow> pending s = i # is \<Longrightarrow> carried_out (step s) = carried_out s @ [i]"
begin

definition steps :: "nat \<Rightarrow> 's \<Rightarrow> 's" where
  "steps n s = (step ^^ n) s"

lemma steps_Suc: "steps (Suc n) s = steps n (step s)"
  by (simp add: steps_def funpow_swap1)

lemma steps_carry_out:
  "sound s \<Longrightarrow> n \<le> length (pending s) \<Longrightarrow>
     sound (steps n s) \<and> carried_out (steps n s) = carried_out s @ take n (pending s) \<and>
     pending (steps n s) = drop n (pending s)"
proof (induction n arbitrary: s)
  case (Suc n)
  then obtain i "is" where p: "pending s = i # is" by (cases "pending s") auto
  show ?case
    using Suc.IH [OF step_sound [OF Suc.prems(1) p]] Suc.prems step_pending [OF _ p] step_done [OF _ p] p
    by (simp add: steps_Suc)
qed (simp add: steps_def)

lemma posted_is_carried_out:
  assumes "sound s" "accepts s"
  shows "carried_out (steps (Suc (length (pending s))) (snd (post m s))) =
    carried_out s @ pending s @ [fst (post m s)]"
  using steps_carry_out [OF post_sound [OF assms, of m], of "Suc (length (pending s))"] assms
  by (simp add: post_pending post_done)

lemma withdrawn_is_not:
  assumes "sound s" "n < length (pending s)"
  shows "\<exists>done. carried_out (steps n (withdraw i s)) = carried_out s @ done \<and> i \<notin> set done"
proof -
  have "n \<le> length (remove1 i (pending s))" using assms(2) by (auto simp: length_remove1)
  then have "carried_out (steps n (withdraw i s)) = carried_out s @ take n (remove1 i (pending s))"
    using steps_carry_out [OF withdraw_sound [OF assms(1)], of n i] assms(1)
    by (simp add: withdraw_pending withdraw_done)
  moreover have "i \<notin> set (take n (remove1 i (pending s)))"
    using pending_distinct [OF assms(1)] in_set_takeD by fastforce
  ultimately show ?thesis by blast
qed

end

text \<open>The queue of a thread that runs its loop, with messages to run at once, none of which was posted
  as a broadcast, keeps these promises as long as its list has room and the sequence numbers have
  not run out.\<close>

definition waiting_posts :: "queue_id \<Rightarrow> ('b, 'h) mq_sys \<Rightarrow> post_id list" where
  "waiting_posts q y = map wr_post (held q (sys_mq y))"

definition ran_posts :: "queue_id \<Rightarrow> ('b, 'h) mq_sys \<Rightarrow> post_id list" where
  "ran_posts q y = map wr_post (mq_ran q (evs y))"

definition box_ok :: "queue_id \<Rightarrow> ('b, 'h) mq_sys \<Rightarrow> bool" where
  "box_ok q y \<longleftrightarrow> q \<noteq> 0 \<and> (\<exists>ws hs. running q y Top ws hs \<and> (\<forall>w \<in> set ws. imm w) \<and>
     distinct (map wr_post ws) \<and>
     (\<forall>w \<in> set ws. hid_queue (pid_reg (wr_post w)) = q \<and> pid_seq (wr_post w) \<noteq> 0 \<and>
        pid_seq (wr_post w) \<le> mq_seq (sys_mq y)))"

definition box_accepts :: "queue_id \<Rightarrow> ('b, 'h) mq_sys \<Rightarrow> bool" where
  "box_accepts q y \<longleftrightarrow> length (held q (sys_mq y)) < MAX_MQ_SIZE \<and> mq_seq (sys_mq y) < - 1"

definition box_post ::
  "queue_id \<Rightarrow> u32 \<times> 'b message \<Rightarrow> ('b, 'h) mq_sys \<Rightarrow> post_id \<times> ('b, 'h) mq_sys" where
  "box_post q hm y =
     (let (p, s) = PostMessage \<lparr>hid_queue = q, hid_seq = fst hm\<rparr> (snd hm) KDefTiming 0 (sys_mq y)
      in (p, y\<lparr>sys_mq := s\<rparr>))"

definition box_cancel :: "queue_id \<Rightarrow> post_id \<Rightarrow> ('b, 'h) mq_sys \<Rightarrow> ('b, 'h) mq_sys" where
  "box_cancel q p y =
     (if hid_queue (pid_reg p) = q then on_mq (snd \<circ> CancelMessage p) y else y)"

text \<open>One iteration with its calls; the first message tells how many there are.\<close>

definition box_step :: "queue_id \<Rightarrow> u64 \<Rightarrow> ('b, 'h) mq_sys \<Rightarrow> ('b, 'h) mq_sys" where
  "box_step q now y =
     (case (mq_map (sys_mq y) q, held q (sys_mq y)) of
        (Some c, w # ws) \<Rightarrow>
          run_ops (replicate (length (fit_handler (wr_post w) (ct_handler c)) + 3) (Iterate q now)) y
      | _ \<Rightarrow> y)"

lemma running_held: "running q y p ws hs \<Longrightarrow> held q (sys_mq y) = ws"
  by (auto simp: running_def held_def split: option.splits)

lemma running_content:
  "running q y p ws hs \<Longrightarrow> \<exists>c. mq_map (sys_mq y) q = Some c \<and> ct_handler c = hs \<and> ct_message c = ws"
  by (auto simp: running_def split: option.splits)

lemma box_okE:
  assumes "box_ok q y"
  obtains ws hs where "running q y Top ws hs" "held q (sys_mq y) = ws" "\<forall>w \<in> set ws. imm w" "q \<noteq> 0"
    "distinct (map wr_post ws)"
    "\<forall>w \<in> set ws. hid_queue (pid_reg (wr_post w)) = q \<and> pid_seq (wr_post w) \<noteq> 0 \<and>
       pid_seq (wr_post w) \<le> mq_seq (sys_mq y)"
  using assms by (auto simp: box_ok_def dest: running_held)

lemma box_post_result:
  assumes "box_ok q y" "box_accepts q y"
  shows "\<exists>w. running q (snd (box_post q hm y)) Top (held q (sys_mq y) @ [w])
      (ct_handler (the (mq_map (sys_mq y) q))) \<and>
    imm w \<and> wr_post w = fst (box_post q hm y) \<and> fst (box_post q hm y) = \<lparr>pid_reg =
      \<lparr>hid_queue = q, hid_seq = fst hm\<rparr>, pid_seq = mq_seq (sys_mq y) + 1\<rparr> \<and>
    mq_seq (sys_mq (snd (box_post q hm y))) = mq_seq (sys_mq y) + 1 \<and>
    mq_ran q (evs (snd (box_post q hm y))) = mq_ran q (evs y)"
proof -
  obtain ws hs where r: "running q y Top ws hs" using assms(1) by (auto simp: box_ok_def)
  obtain c where c: "mq_map (sys_mq y) q = Some c" "ct_handler c = hs" "ct_message c = ws"
    using running_content [OF r] by blast
  have "\<not> MAX_MQ_SIZE \<le> length ws" using assms(2) running_held [OF r] by (simp add: box_accepts_def)
  then show ?thesis
    using r c
    by (intro exI [of _ "MessageWrapper (mq_next (sys_mq y)) \<lparr>hid_queue = q, hid_seq = fst hm\<rparr> (snd hm)
          KDefTiming (mq_seq (sys_mq y) + 1) 0"])
       (simp add: box_post_def PostMessage_def split_def Let_def push_back_def running_def evs_def held_def
          imm_def KDefTiming_def)
qed

lemma box_post_ok:
  assumes "box_ok q y" "box_accepts q y"
  shows "box_ok q (snd (box_post q hm y))"
    "waiting_posts q (snd (box_post q hm y)) = waiting_posts q y @ [fst (box_post q hm y)]"
    "ran_posts q (snd (box_post q hm y)) = ran_posts q y"
proof -
  define y1 where "y1 = snd (box_post q hm y)"
  obtain ws hs where y: "running q y Top ws hs" "held q (sys_mq y) = ws" "\<forall>w \<in> set ws. imm w" "q \<noteq> 0"
    "distinct (map wr_post ws)"
    "\<forall>w \<in> set ws. hid_queue (pid_reg (wr_post w)) = q \<and> pid_seq (wr_post w) \<noteq> 0 \<and>
       pid_seq (wr_post w) \<le> mq_seq (sys_mq y)"
    using assms(1) by (rule box_okE)
  define n where "n = mq_seq (sys_mq y)"
  obtain w hs' where w: "running q y1 Top (ws @ [w]) hs'" "imm w" "wr_post w = fst (box_post q hm y)"
    "fst (box_post q hm y) = \<lparr>pid_reg = \<lparr>hid_queue = q, hid_seq = fst hm\<rparr>, pid_seq = n + 1\<rparr>"
    "mq_seq (sys_mq y1) = n + 1" "mq_ran q (evs y1) = mq_ran q (evs y)"
    using box_post_result [OF assms, of hm] y(2) by (auto simp: y1_def n_def)
  have n: "n < n + 1"
    using assms(2) inc_less_eq_triv_imp [of n] by (auto simp: box_accepts_def simp flip: n_def not_le)
  have fresh: "fst (box_post q hm y) \<notin> wr_post ` set ws"
  proof
    assume "fst (box_post q hm y) \<in> wr_post ` set ws"
    then obtain x where x: "x \<in> set ws" "wr_post x = fst (box_post q hm y)" by auto
    have "pid_seq (wr_post x) \<le> n" using y(6) x(1) by (simp add: n_def)
    then have "n + 1 \<le> n" using x(2) w(4) by simp
    then show False using n by simp
  qed
  have "\<forall>x \<in> set ws. pid_seq (wr_post x) \<le> n + 1" using y(6) n by (auto simp: n_def)
  moreover have "n + 1 \<noteq> 0" using n by auto
  ultimately show "box_ok q (snd (box_post q hm y))"
    unfolding box_ok_def y1_def [symmetric]
    using w y fresh by (intro conjI exI [of _ "ws @ [w]"] exI [of _ hs']) auto
  show "waiting_posts q (snd (box_post q hm y)) = waiting_posts q y @ [fst (box_post q hm y)]"
    using running_held [OF w(1)] y(2) w(3) by (simp add: waiting_posts_def y1_def)
  show "ran_posts q (snd (box_post q hm y)) = ran_posts q y"
    using w(6) by (simp add: ran_posts_def y1_def)
qed

lemma map_remove_first: "map wr_post (remove_first (\<lambda>w. p = wr_post w) ws) = remove1 p (map wr_post ws)"
  by (induction ws) auto

lemma box_cancel_result:
  assumes "running q y Top ws hs" "q \<noteq> 0" "\<forall>w \<in> set ws. pid_seq (wr_post w) \<noteq> 0"
    "\<forall>w \<in> set ws. hid_queue (pid_reg (wr_post w)) = q"
  shows "running q (box_cancel q p y) Top (remove_first (\<lambda>w. p = wr_post w) ws) hs \<and>
    mq_seq (sys_mq (box_cancel q p y)) = mq_seq (sys_mq y) \<and>
    mq_ran q (evs (box_cancel q p y)) = mq_ran q (evs y)"
proof -
  obtain c where c: "mq_map (sys_mq y) q = Some c" "ct_handler c = hs" "ct_message c = ws"
    using running_content [OF assms(1)] by blast
  show ?thesis
  proof (cases "find (\<lambda>w. p = wr_post w) ws")
    case None
    then have "remove_first (\<lambda>w. p = wr_post w) ws = ws" by (simp add: find_None_iff)
    then show ?thesis using None assms(1) c by (simp add: box_cancel_def CancelMessage_def running_def evs_def)
  next
    case (Some w)
    then have "w \<in> set ws" "p = wr_post w" by (auto simp: find_Some_iff)
    then have "hid_queue (pid_reg p) = q" "pid_seq p \<noteq> 0" using assms(3,4) by auto
    then show ?thesis
      using Some assms(1,2) c by (simp add: box_cancel_def CancelMessage_def running_def evs_def)
  qed
qed

lemma box_cancel_ok:
  assumes "box_ok q y"
  shows "box_ok q (box_cancel q p y)"
    "waiting_posts q (box_cancel q p y) = remove1 p (waiting_posts q y)"
    "ran_posts q (box_cancel q p y) = ran_posts q y"
proof -
  obtain ws hs where y: "running q y Top ws hs" "held q (sys_mq y) = ws" "\<forall>w \<in> set ws. imm w" "q \<noteq> 0"
    "distinct (map wr_post ws)"
    "\<forall>w \<in> set ws. hid_queue (pid_reg (wr_post w)) = q \<and> pid_seq (wr_post w) \<noteq> 0 \<and>
       pid_seq (wr_post w) \<le> mq_seq (sys_mq y)"
    using assms by (rule box_okE)
  define vs where "vs = remove_first (\<lambda>w. p = wr_post w) ws"
  have r: "running q (box_cancel q p y) Top vs hs" "mq_seq (sys_mq (box_cancel q p y)) = mq_seq (sys_mq y)"
    "mq_ran q (evs (box_cancel q p y)) = mq_ran q (evs y)"
    using box_cancel_result [OF y(1,4), of p] y(6) by (simp_all add: vs_def)
  have vs: "set vs \<subseteq> set ws" "map wr_post vs = remove1 p (map wr_post ws)"
    by (simp_all add: vs_def remove_first_set map_remove_first)
  show "box_ok q (box_cancel q p y)"
    unfolding box_ok_def using r vs y by (intro conjI exI [of _ vs] exI [of _ hs]) auto
  show "waiting_posts q (box_cancel q p y) = remove1 p (waiting_posts q y)"
    using running_held [OF r(1)] y(2) vs(2) by (simp add: waiting_posts_def)
  show "ran_posts q (box_cancel q p y) = ran_posts q y"
    using r(3) by (simp add: ran_posts_def)
qed

text \<open>The steps of a loop draw no sequence numbers.\<close>

lemma step_seq: "mq_seq (snd (RunLoop_step q now b p c s)) = mq_seq s"
  by (cases "(q, now, b, p, c, s)" rule: RunLoop_step.cases)
     (auto simp: RunLoop_top_def Let_def ReleaseMessageQueueInfo_def split: option.split prod.split)

lemma iterate_seq: "mq_seq (sys_mq (iterate q now y)) = mq_seq (sys_mq y)"
proof -
  have "mq_seq s = mq_seq (sys_mq y)" if "RunLoop_step q now b p c (sys_mq y) = (o', s)" for b p c o' s
    using step_seq [of q now b p c "sys_mq y"] that by simp
  then show ?thesis by (auto simp: iterate_def split: option.split list.split prod.split)
qed

lemma iterates_seq: "mq_seq (sys_mq (run_ops (replicate n (Iterate q now)) y)) = mq_seq (sys_mq y)"
  by (induction n arbitrary: y) (simp_all add: iterate_seq)

lemma box_step_ok:
  assumes "box_ok q y" "waiting_posts q y = i # is"
  shows "box_ok q (box_step q now y)" "waiting_posts q (box_step q now y) = is"
    "ran_posts q (box_step q now y) = ran_posts q y @ [i]"
proof -
  obtain ws hs where y: "running q y Top ws hs" "held q (sys_mq y) = ws" "\<forall>w \<in> set ws. imm w" "q \<noteq> 0"
    "distinct (map wr_post ws)"
    "\<forall>w \<in> set ws. hid_queue (pid_reg (wr_post w)) = q \<and> pid_seq (wr_post w) \<noteq> 0 \<and>
       pid_seq (wr_post w) \<le> mq_seq (sys_mq y)"
    using assms(1) by (rule box_okE)
  obtain w vs where ws: "ws = w # vs" "wr_post w = i" "map wr_post vs = is"
    using assms(2) y(2) by (auto simp: waiting_posts_def)
  obtain c where c: "mq_map (sys_mq y) q = Some c" "ct_handler c = hs"
    using running_content [OF y(1)] by blast
  have step: "box_step q now y = run_ops (replicate (length (fit_handler (wr_post w) hs) + 3) (Iterate q now)) y"
    using c y(2) ws(1) by (simp add: box_step_def)
  have r: "running q (box_step q now y) Top vs hs" "mq_ran q (evs (box_step q now y)) = mq_ran q (evs y) @ [w]"
    using run_oneshot [OF y(1) [unfolded ws(1)] scan_imm] y(3) ws(1) unfolding step by (simp_all add: Let_def)
  show "box_ok q (box_step q now y)"
    unfolding box_ok_def
    using r y ws by (intro conjI exI [of _ vs] exI [of _ hs]) (auto simp: step iterates_seq)
  show "waiting_posts q (box_step q now y) = is"
    using running_held [OF r(1)] ws(3) by (simp add: waiting_posts_def)
  show "ran_posts q (box_step q now y) = ran_posts q y @ [i]"
    using r(2) ws(2) by (simp add: ran_posts_def)
qed

lemma box_distinct: "box_ok q y \<Longrightarrow> distinct (waiting_posts q y)"
  by (auto simp: waiting_posts_def elim: box_okE)

interpretation box: mailbox "box_ok q" "box_accepts q" "waiting_posts q" "ran_posts q" "box_post q"
  "box_cancel q" "box_step q now" for q now
  by unfold_locales (simp_all add: box_post_ok box_cancel_ok box_step_ok box_distinct)

text \<open>A call that was posted is made after those that were posted before it, and a call that was
  withdrawn is not made.\<close>

lemma posted_call_is_made:
  "box_ok q y \<Longrightarrow> box_accepts q y \<Longrightarrow>
     ran_posts q ((box_step q now ^^ Suc (length (waiting_posts q y))) (snd (box_post q hm y))) =
       ran_posts q y @ waiting_posts q y @ [fst (box_post q hm y)]"
  using box.posted_is_carried_out [of q y now hm] by (simp add: box.steps_def)

lemma withdrawn_call_is_not:
  "box_ok q y \<Longrightarrow> n < length (waiting_posts q y) \<Longrightarrow>
     \<exists>done. ran_posts q ((box_step q now ^^ n) (box_cancel q p y)) = ran_posts q y @ done \<and> p \<notin> set done"
  using box.withdrawn_is_not [of q y n now p] by (simp add: box.steps_def)

section \<open>Concrete runs\<close>

text \<open>A thread 7 with its queue and the handler 0; messages with a title each.\<close>

definition sample_handler :: handler_id where
  "sample_handler = \<lparr>hid_queue = 7, hid_seq = 1\<rparr>"

definition sample_message :: "u64 \<Rightarrow> nat message" where
  "sample_message title = \<lparr>msg_title = title, msg_body1 = 0, msg_body2 = 0, msg_anr_timeout = 600000,
     msg_create_time = 100, msg_execute_time = 0\<rparr>"

definition sample_start :: "(nat, nat) op list" where
  "sample_start = [Create 0 7, Enter 7]"

definition sample_later :: "(nat, nat) op list" where
  "sample_later = sample_start @ [Post sample_handler (sample_message 1) (timing_after 50) 100]"

definition sample_mixed :: "(nat, nat) op list" where
  "sample_mixed = sample_later @ [Post sample_handler (sample_message 2) KDefTiming 110]"

definition sample_periodic :: "(nat, nat) op list" where
  "sample_periodic = sample_start @ [Post sample_handler (sample_message 1) (timing_periodic 0 50) 100,
     Post sample_handler (sample_message 2) KDefTiming 110]"

lemmas sample_defs = sample_handler_def sample_message_def sample_start_def sample_later_def
  sample_mixed_def sample_periodic_def mq_reach_def sys_new_def mq_new_def on_mq_def push_frame_def
  CreateMessageQueueInfo_def PostMessage_def push_back_def RunLoop_enter_def make_seq_def alloc_def
  put_def emit_def MAX_MQ_SIZE_def KDefTiming_def timing_after_def timing_periodic_def MessageWrapper_def

definition sample_content :: "nat wrapper list \<Rightarrow> (nat, nat) content" where
  "sample_content ws = \<lparr>ct_invoke_reg = sample_handler, ct_breakflag = False, ct_message = ws,
     ct_handler = [\<lparr>hdl_reg = sample_handler, hdl_handler = 0, hdl_recvbroadcast = False\<rparr>],
     ct_runloop = [\<lparr>rli_cond = 0, rli_message_id = KNullPost, rli_message = None, rli_handler = []\<rparr>]\<rparr>"

lemma sample_mixed_content:
  "mq_map (sys_mq (mq_reach sample_mixed)) 7 = Some (sample_content
     [MessageWrapper 1 sample_handler (sample_message 1) (timing_after 50) 2 100,
      MessageWrapper 2 sample_handler (sample_message 2) KDefTiming 3 110])"
  "sys_frames (mq_reach sample_mixed) 7 = [\<lparr>fr_breaker = None, fr_phase = Top\<rparr>]"
  by (simp_all add: sample_defs sample_content_def Let_def)

lemma sample_later_content:
  "mq_map (sys_mq (mq_reach sample_later)) 7 = Some (sample_content
     [MessageWrapper 1 sample_handler (sample_message 1) (timing_after 50) 2 100])"
  "sys_frames (mq_reach sample_later) 7 = [\<lparr>fr_breaker = None, fr_phase = Top\<rparr>]"
  by (simp_all add: sample_defs sample_content_def Let_def)

lemma sample_periodic_content:
  "mq_map (sys_mq (mq_reach sample_periodic)) 7 = Some (sample_content
     [MessageWrapper 1 sample_handler (sample_message 1) (timing_periodic 0 50) 2 100,
      MessageWrapper 2 sample_handler (sample_message 2) KDefTiming 3 110])"
  "sys_frames (mq_reach sample_periodic) 7 = [\<lparr>fr_breaker = None, fr_phase = Top\<rparr>]"
  by (simp_all add: sample_defs sample_content_def Let_def)

lemma first_due_taken_witness:
  "\<exists>v. ComputerWaitTime 120 v = 0 \<and>
     mq_ran 7 (mq_events (sys_mq (iterate 7 120 (mq_reach sample_mixed)))) =
       mq_ran 7 (mq_events (sys_mq (mq_reach sample_mixed))) @ [restarted 120 v]"
proof -
  define c where "c = sample_content
     [MessageWrapper 1 sample_handler (sample_message 1) (timing_after 50) 2 100,
      MessageWrapper 2 sample_handler (sample_message 2) KDefTiming 3 110]"
  define f :: "(nat, nat) frame" where "f = \<lparr>fr_breaker = None, fr_phase = Top\<rparr>"
  have m: "mq_map (sys_mq (mq_reach sample_mixed)) 7 = Some c" "sys_frames (mq_reach sample_mixed) 7 = [f]"
    unfolding c_def f_def by (rule sample_mixed_content)+
  have f: "fr_phase f = Top" "\<not> breaks (fr_breaker f) c"
    by (simp_all add: f_def c_def breaks_def sample_content_def)
  have "\<exists>w \<in> set (ct_message c). \<not> 0 < ComputerWaitTime 120 w"
    by (simp add: c_def sample_content_def ComputerWaitTime_def KDefTiming_def)
  then show ?thesis using first_due_taken [OF refl m f, of 120] by blast
qed

lemma sleeps_until_due_witness:
  "\<exists>w \<in> set (held 7 (sys_mq (mq_reach sample_later))).
     due (120 + word_of_int (sleep_time 120 (held 7 (sys_mq (mq_reach sample_later))))) w"
proof -
  define w where "w = MessageWrapper 1 sample_handler (sample_message 1) (timing_after 50) 2 100"
  have ws: "held 7 (sys_mq (mq_reach sample_later)) = [w]"
    by (simp add: held_def sample_later_content sample_content_def w_def)
  have w: "tim_type (wr_timing w) = kAfter" "tim_after (wr_timing w) = 50" "wr_record w = 100"
    by (simp_all add: w_def MessageWrapper_def timing_after_def)
  have s: "scan 120 (10 * 60 * 1000) [w] = (None, 30)"
    by (simp add: scan.simps w Let_def keep_def gettickspan_def)
  show ?thesis
    using sleeps_until_due [OF ws [symmetric], of 120] s w(3) by (simp add: sleep_time_def ws)
qed

definition sample_two :: "(nat, nat) op list" where
  "sample_two = sample_start @ [Post sample_handler (sample_message 1) KDefTiming 100,
     Post sample_handler (sample_message 2) KDefTiming 110]"

lemma sample_two_running:
  "running 7 (mq_reach sample_two) Top
     [MessageWrapper 1 sample_handler (sample_message 1) KDefTiming 2 100,
      MessageWrapper 2 sample_handler (sample_message 2) KDefTiming 3 110]
     [\<lparr>hdl_reg = sample_handler, hdl_handler = 0, hdl_recvbroadcast = False\<rparr>]"
  by (simp add: running_def sample_two_def sample_defs Let_def)

lemma queue_drained_witness:
  "held 7 (sys_mq (run_ops (replicate 8 (Iterate 7 120)) (mq_reach sample_two))) = [] \<and>
   calls (evs (run_ops (replicate 8 (Iterate 7 120)) (mq_reach sample_two))) =
     calls (evs (mq_reach sample_two)) @
     [Called 0 \<lparr>pid_reg = sample_handler, pid_seq = 2\<rparr> ((sample_message 1)\<lparr>msg_execute_time := 120\<rparr>),
      Called 0 \<lparr>pid_reg = sample_handler, pid_seq = 3\<rparr> ((sample_message 2)\<lparr>msg_execute_time := 120\<rparr>)]"
proof -
  define hs :: "nat handler list"
    where "hs = [\<lparr>hdl_reg = sample_handler, hdl_handler = 0, hdl_recvbroadcast = False\<rparr>]"
  define ws where "ws = [MessageWrapper 1 sample_handler (sample_message 1) KDefTiming 2 100,
    MessageWrapper 2 sample_handler (sample_message 2) KDefTiming 3 110]"
  have "drain_steps hs ws = 8" by (simp add: drain_steps_def hs_def ws_def fit_handler_def)
  moreover have "concat (map (calls_of 120 hs) ws) =
      [Called 0 \<lparr>pid_reg = sample_handler, pid_seq = 2\<rparr> ((sample_message 1)\<lparr>msg_execute_time := 120\<rparr>),
       Called 0 \<lparr>pid_reg = sample_handler, pid_seq = 3\<rparr> ((sample_message 2)\<lparr>msg_execute_time := 120\<rparr>)]"
    by (simp add: calls_of_def hs_def ws_def fit_handler_def stamp_def)
  moreover have "\<forall>w \<in> set ws. imm w" by (simp add: ws_def imm_def KDefTiming_def)
  ultimately show ?thesis
    using queue_drained [OF sample_two_running, of 120] unfolding hs_def [symmetric] ws_def [symmetric]
    by (auto simp: Let_def dest: running_held)
qed

lemma sample_periodic_running:
  "running 7 (mq_reach sample_periodic) Top
     [MessageWrapper 1 sample_handler (sample_message 1) (timing_periodic 0 50) 2 100,
      MessageWrapper 2 sample_handler (sample_message 2) KDefTiming 3 110]
     [\<lparr>hdl_reg = sample_handler, hdl_handler = 0, hdl_recvbroadcast = False\<rparr>]"
  by (simp add: running_def sample_periodic_content sample_content_def)

text \<open>The first round starts the periods of the first message; after it every round takes it again.\<close>

lemma periodic_starves_witness:
  "\<exists>(y :: (nat, nat) mq_sys) p w hs. running 7 y Top [p, w] hs \<and> imm w \<and>
     (let y' = run_ops (concat (map (round_of 7 hs p) [170, 220, 300])) y in
        \<exists>p'. running 7 y' Top [p', w] hs)"
proof -
  define hs :: "nat handler list"
    where "hs = [\<lparr>hdl_reg = sample_handler, hdl_handler = 0, hdl_recvbroadcast = False\<rparr>]"
  define p where "p = MessageWrapper 1 sample_handler (sample_message 1) (timing_periodic 0 50) 2 100"
  define w where "w = MessageWrapper 2 sample_handler (sample_message 2) KDefTiming 3 110"
  define y where "y = run_ops (round_of 7 hs p 120) (mq_reach sample_periodic)"
  define p1 where "p1 = stamp 120 (restarted 120 p)"
  have p: "\<not> oneshot p" "wr_ok p" "due 120 p" "wr_addr p \<notin> wr_addr ` set [w]"
    by (simp_all add: p_def w_def timing_periodic_def due_def MessageWrapper_def oneshot_def wr_ok_def
        gettickspan_def)
  have r: "running 7 y Top [p1, w] hs"
    using run_periodic [OF sample_periodic_running [folded p_def w_def hs_def] p]
    by (simp add: Let_def y_def p1_def)
  have p1: "tim_type (wr_timing p1) = kPeriod" "wr_status p1 = kPeriod" "wr_addr p1 \<notin> wr_addr ` set [w]"
    "spaced (tim_period (wr_timing p1)) (wr_record p1) [170, 220, 300]"
    using p(1) by (simp_all add: p1_def stamp_def restarted_def p_def w_def timing_periodic_def gettickspan_def)
  have "imm w" by (simp add: w_def imm_def KDefTiming_def)
  moreover obtain p' where "running 7 (run_ops (concat (map (round_of 7 hs p1) [170, 220, 300])) y) Top [p', w] hs"
    using periodic_starves [OF r p1] unfolding Let_def by blast
  ultimately show ?thesis using r unfolding Let_def by blast
qed

definition sample_taken :: "(nat, nat) op list" where
  "sample_taken = sample_periodic @ [Iterate 7 120]"

lemma sample_taken_state:
  "sys_frames (mq_reach sample_taken) 7 = [\<lparr>fr_breaker = None, fr_phase = Starting 1 None
     [\<lparr>hdl_reg = sample_handler, hdl_handler = 0, hdl_recvbroadcast = False\<rparr>]\<rparr>]"
  "find (\<lambda>x. \<lparr>pid_reg = sample_handler, pid_seq = 2\<rparr> = wr_post x) (held 7 (sys_mq (mq_reach sample_taken))) =
     Some (restarted 120 (MessageWrapper 1 sample_handler (sample_message 1) (timing_periodic 0 50) 2 100))"
proof -
  define hs :: "nat handler list"
    where "hs = [\<lparr>hdl_reg = sample_handler, hdl_handler = 0, hdl_recvbroadcast = False\<rparr>]"
  define p where "p = MessageWrapper 1 sample_handler (sample_message 1) (timing_periodic 0 50) 2 100"
  define w where "w = MessageWrapper 2 sample_handler (sample_message 2) KDefTiming 3 110"
  have p: "\<not> oneshot p" "wr_ok p" "due 120 p" "wr_addr p = 1" "wr_post p = \<lparr>pid_reg = sample_handler, pid_seq = 2\<rparr>"
    by (simp_all add: p_def timing_periodic_def due_def MessageWrapper_def oneshot_def wr_ok_def gettickspan_def)
  have s: "scan 120 (10 * 60 * 1000) [p, w] =
      (Some (restarted 120 p, False, [restarted 120 p, w]), 10 * 60 * 1000)"
    using p by (simp add: scan_Cons)
  have r: "running 7 (iterate 7 120 (mq_reach sample_periodic)) (Starting 1 None hs) [restarted 120 p, w] hs"
    using run_top [OF sample_periodic_running [folded p_def w_def hs_def] s] p(4,5)
    by (simp add: fit_handler_def hs_def)
  have y: "mq_reach sample_taken = iterate 7 120 (mq_reach sample_periodic)"
    by (simp add: mq_reach_def sample_taken_def)
  show "sys_frames (mq_reach sample_taken) 7 = [\<lparr>fr_breaker = None, fr_phase = Starting 1 None
     [\<lparr>hdl_reg = sample_handler, hdl_handler = 0, hdl_recvbroadcast = False\<rparr>]\<rparr>]"
    using r unfolding y running_def hs_def by simp
  show "find (\<lambda>x. \<lparr>pid_reg = sample_handler, pid_seq = 2\<rparr> = wr_post x) (held 7 (sys_mq (mq_reach sample_taken))) =
     Some (restarted 120 (MessageWrapper 1 sample_handler (sample_message 1) (timing_periodic 0 50) 2 100))"
    using running_held [OF r] p(5) unfolding y p_def [symmetric] by simp
qed

lemma pointer_valid_witness:
  "\<exists>f :: (nat, nat) frame. f \<in> set (sys_frames (mq_reach sample_taken) 7) \<and> fr_phase f \<noteq> Top \<and> fr_phase f \<noteq> Dangling"
proof -
  define f :: "(nat, nat) frame" where "f = hd (sys_frames (mq_reach sample_taken) 7)"
  have f: "f \<in> set (sys_frames (mq_reach sample_taken) 7)" "fr_phase f \<noteq> Top"
    by (simp_all add: f_def sample_taken_state)
  have "\<forall>x \<in> set sample_taken. \<not> removes x"
    by (simp add: sample_taken_def sample_periodic_def sample_start_def removes_def)
  then show ?thesis using pointer_valid [OF disjI2 f(1)] f by blast
qed

lemma cancelled_periodic_dangles_witness:
  "\<exists>f :: (nat, nat) frame. sys_frames (run_ops [Cancel \<lparr>pid_reg = sample_handler, pid_seq = 2\<rparr>, Iterate 7 130]
     (mq_reach sample_taken)) 7 = [f\<lparr>fr_phase := Dangling\<rparr>]"
proof -
  define p where "p = \<lparr>pid_reg = sample_handler, pid_seq = 2\<rparr>"
  have q: "hid_queue (pid_reg p) = 7" "pid_seq p = 2" by (simp_all add: p_def sample_handler_def)
  define f :: "(nat, nat) frame" where "f = \<lparr>fr_breaker = None, fr_phase = Starting 1 None
     [\<lparr>hdl_reg = sample_handler, hdl_handler = 0, hdl_recvbroadcast = False\<rparr>]\<rparr>"
  have "sys_frames (run_ops [Cancel p, Iterate (hid_queue (pid_reg p)) 130] (mq_reach sample_taken))
      (hid_queue (pid_reg p)) = f\<lparr>fr_phase := Dangling\<rparr> # []"
    by (rule cancelled_periodic_dangles [OF refl, of sample_taken p f "[]" 1
          "[\<lparr>hdl_reg = sample_handler, hdl_handler = 0, hdl_recvbroadcast = False\<rparr>]"
          "restarted 120 (MessageWrapper 1 sample_handler (sample_message 1) (timing_periodic 0 50) 2 100)"])
       (simp_all add: q f_def sample_taken_state flip: p_def, simp add: sample_taken_state p_def)
  then have "sys_frames (run_ops [Cancel p, Iterate 7 130] (mq_reach sample_taken)) 7 = [f\<lparr>fr_phase := Dangling\<rparr>]"
    by (simp only: q(1))
  then show ?thesis unfolding p_def by blast
qed

end
