(* ===== verification/Log_Buffer.thy ===== *)
theory Log_Buffer
  imports Auto_Buffer
begin

text \<open>
  The buffer in which the log is kept until it is written to its file: comm/ptrbuffer.cc, a buffer over
  memory it does not own, log/crypt/log_crypt.cc, the records and their encryption, and
  log/src/log_buffer.cc, which compresses and encrypts the log lines as they come, inside a file that
  is mapped into memory, so that a crash does not lose them. The targets are little endian.

  The compressor (zlib) and the key agreement (micro-ecc) are parameters. The memory is a list of
  bytes; an access outside of it is \<open>None\<close>.
\<close>

section \<open>A buffer over given memory\<close>

record PtrBuffer =
  pb_parray :: "bytes option"
  pb_pos :: int
  pb_length :: nat
  pb_max_length :: nat

definition pb_block :: "PtrBuffer \<Rightarrow> bytes" where
  "pb_block b = (case pb_parray b of None \<Rightarrow> [] | Some m \<Rightarrow> m)"

definition PB_Reset :: PtrBuffer where
  "PB_Reset = \<lparr>pb_parray = None, pb_pos = 0, pb_length = 0, pb_max_length = 0\<rparr>"

definition PB_Attach :: "bytes \<Rightarrow> nat \<Rightarrow> nat \<Rightarrow> PtrBuffer" where
  "PB_Attach m len maxlen = PB_Reset\<lparr>pb_parray := Some m, pb_length := len, pb_max_length := maxlen\<rparr>"

text \<open>The comparison with the length converts the position to 32 bits.\<close>

definition PB_Seek :: "int \<Rightarrow> TSeek \<Rightarrow> PtrBuffer \<Rightarrow> PtrBuffer" where
  "PB_Seek offset origin b =
     (let p = (case origin of ESeekStart \<Rightarrow> offset | ESeekCur \<Rightarrow> pb_pos b + offset
                 | ESeekEnd \<Rightarrow> int (pb_length b) + offset);
          p' = (if p < 0 then 0 else p)
      in b\<lparr>pb_pos := (if int (pb_length b) < p' mod 2 ^ 32 then int (pb_length b) else p')\<rparr>)"

definition PB_Length :: "int \<Rightarrow> nat \<Rightarrow> PtrBuffer \<Rightarrow> PtrBuffer" where
  "PB_Length pos len b =
     PB_Seek pos ESeekStart (b\<lparr>pb_length := (if pb_max_length b < len then pb_max_length b else len)\<rparr>)"

definition PB_Write_at :: "bytes \<Rightarrow> int \<Rightarrow> PtrBuffer \<Rightarrow> PtrBuffer option" where
  "PB_Write_at d pos b =
     (let copylen = min (length d) (nat ((int (pb_max_length b) - pos) mod 2 ^ 64));
          b1 = b\<lparr>pb_length := max (pb_length b) (nat ((int copylen + pos) mod 2 ^ 64))\<rparr>
      in if copylen = 0 then Some b1
         else if pos < 0 \<or> length (pb_block b) < nat pos + copylen then None
         else Some (b1\<lparr>pb_parray := Some (mem_write (nat pos) (take copylen d) (pb_block b))\<rparr>))"

definition PB_Write :: "bytes \<Rightarrow> PtrBuffer \<Rightarrow> PtrBuffer option" where
  "PB_Write d b =
     (case PB_Write_at d (pb_pos b) b of
        None \<Rightarrow> None
      | Some b1 \<Rightarrow> Some (PB_Seek (int (length d)) ESeekCur b1))"

text \<open>As in the other buffer, the number of bytes is computed from the given position and the bytes are
  read at the position of the buffer.\<close>

definition PB_Read_at :: "nat \<Rightarrow> int \<Rightarrow> PtrBuffer \<Rightarrow> bytes option" where
  "PB_Read_at len pos b =
     (let n = min (nat ((int (pb_length b) - pos) mod 2 ^ 64)) len
      in if n = 0 then Some []
         else if pb_pos b < 0 \<or> length (pb_block b) < nat (pb_pos b) + n then None
         else Some (take n (drop (nat (pb_pos b)) (pb_block b))))"

definition PB_Read :: "nat \<Rightarrow> PtrBuffer \<Rightarrow> (bytes \<times> PtrBuffer) option" where
  "PB_Read len b =
     (case PB_Read_at len (pb_pos b) b of
        None \<Rightarrow> None
      | Some d \<Rightarrow> Some (d, PB_Seek (int (length d)) ESeekCur b))"

section \<open>Little endian numbers\<close>

definition le16 :: "u16 \<Rightarrow> bytes" where
  "le16 w = [ucast w, ucast (drop_bit 8 w)]"

definition le32 :: "u32 \<Rightarrow> bytes" where
  "le32 w = [ucast w, ucast (drop_bit 8 w), ucast (drop_bit 16 w), ucast (drop_bit 24 w)]"

fun rdle16 :: "bytes \<Rightarrow> u16" where
  "rdle16 (a # b # xs) = ucast a OR push_bit 8 (ucast b)"
| "rdle16 _ = 0"

fun rdle32 :: "bytes \<Rightarrow> u32" where
  "rdle32 (a # b # c # d # xs) =
     ucast a OR push_bit 8 (ucast b) OR push_bit 16 (ucast c) OR push_bit 24 (ucast d)"
| "rdle32 _ = 0"

section \<open>The cipher\<close>

type_synonym tea_key = "u32 \<times> u32 \<times> u32 \<times> u32"

definition TEA_BLOCK_LEN :: nat where "TEA_BLOCK_LEN = 8"

definition tea_delta :: u32 where "tea_delta = 0x9e3779b9"

definition tea_mix :: "u32 \<Rightarrow> u32 \<Rightarrow> u32 \<Rightarrow> u32 \<Rightarrow> u32" where
  "tea_mix v sm ka kb = (push_bit 4 v + ka) XOR (v + sm) XOR (drop_bit 5 v + kb)"

definition tea_round :: "u32 \<Rightarrow> tea_key \<Rightarrow> u32 \<times> u32 \<Rightarrow> u32 \<times> u32" where
  "tea_round sm k v =
     (let (k0, k1, k2, k3) = k; (v0, v1) = v;
          v0' = v0 + tea_mix v1 sm k0 k1; v1' = v1 + tea_mix v0' sm k2 k3
      in (v0', v1'))"

fun tea_rounds :: "nat \<Rightarrow> u32 \<Rightarrow> tea_key \<Rightarrow> u32 \<times> u32 \<Rightarrow> u32 \<times> u32" where
  "tea_rounds 0 sm k v = v"
| "tea_rounds (Suc n) sm k v = tea_rounds n (sm + tea_delta) k (tea_round (sm + tea_delta) k v)"

definition TeaEncrypt :: "tea_key \<Rightarrow> u32 \<times> u32 \<Rightarrow> u32 \<times> u32" where
  "TeaEncrypt k v = tea_rounds 16 0 k v"

text \<open>A block of eight bytes as the two numbers it holds in memory, and the loop over the blocks of a
  text: what is left at the end stays as it is.\<close>

definition on_block :: "(u32 \<times> u32 \<Rightarrow> u32 \<times> u32) \<Rightarrow> bytes \<Rightarrow> bytes" where
  "on_block f bs = (let (v0, v1) = f (rdle32 bs, rdle32 (drop 4 bs)) in le32 v0 @ le32 v1)"

function on_blocks :: "(u32 \<times> u32 \<Rightarrow> u32 \<times> u32) \<Rightarrow> bytes \<Rightarrow> bytes" where
  "on_blocks f bs =
     (if length bs < TEA_BLOCK_LEN then bs
      else on_block f (take TEA_BLOCK_LEN bs) @ on_blocks f (drop TEA_BLOCK_LEN bs))"
  by auto
termination
  by (relation "measure (\<lambda>(f, bs). length bs)") (auto simp: TEA_BLOCK_LEN_def)

declare on_blocks.simps [simp del]

section \<open>The records\<close>

definition kMagicSyncStart :: u8 where "kMagicSyncStart = 6"
definition kMagicSyncNoCryptStart :: u8 where "kMagicSyncNoCryptStart = 8"
definition kMagicAsyncStart :: u8 where "kMagicAsyncStart = 7"
definition kMagicAsyncNoCryptStart :: u8 where "kMagicAsyncNoCryptStart = 9"
definition kMagicEnd :: u8 where "kMagicEnd = 0"

text \<open>magic start (1), seq (2), begin hour (1), end hour (1), length (4), crypt key (64).\<close>

definition GetHeaderLen :: nat where "GetHeaderLen = 73"
definition GetTailerLen :: nat where "GetTailerLen = 1"

record LogCrypt =
  lc_seq :: u16
  lc_tea_key :: tea_key
  lc_client_pubkey :: bytes
  lc_is_crypt :: bool

text \<open>The constructor: the key of the server in hexadecimal, the key pair of the client and the agreement
  are parts of micro-ecc.\<close>

definition hex_value :: "u8 \<Rightarrow> u8 option" where
  "hex_value c =
     (if 48 \<le> c \<and> c \<le> 57 then Some (c - 48)
      else if 97 \<le> c \<and> c \<le> 102 then Some (c - 87)
      else if 65 \<le> c \<and> c \<le> 70 then Some (c - 55)
      else None)"

text \<open>An empty text or one of odd length is answered with -1, which is true as a bool.\<close>

fun hex_pairs :: "bytes \<Rightarrow> bytes option" where
  "hex_pairs (a # b # xs) =
     do { x \<leftarrow> hex_value a; y \<leftarrow> hex_value b; ys \<leftarrow> hex_pairs xs; Some ((push_bit 4 x OR y) # ys) }"
| "hex_pairs _ = Some []"

definition LogCrypt_new ::
  "(bytes \<times> bytes) option \<Rightarrow> (bytes \<Rightarrow> bytes \<Rightarrow> bytes option) \<Rightarrow> bytes option \<Rightarrow> bytes \<Rightarrow> LogCrypt" where
  "LogCrypt_new make_key shared_secret pubkey uninit =
     (let plain = \<lparr>lc_seq = 0, lc_tea_key = (0, 0, 0, 0), lc_client_pubkey = uninit, lc_is_crypt = False\<rparr> in
      case pubkey of
        None \<Rightarrow> plain
      | Some s \<Rightarrow>
          if length s \<noteq> 128 then plain
          else (case hex_pairs s of
                  None \<Rightarrow> plain
                | Some svr \<Rightarrow>
                    (case make_key of
                       None \<Rightarrow> plain
                     | Some (pub, pri) \<Rightarrow>
                         (case shared_secret svr pri of
                            None \<Rightarrow> plain\<lparr>lc_client_pubkey := pub\<rparr>
                          | Some e \<Rightarrow>
                              plain\<lparr>lc_client_pubkey := pub, lc_is_crypt := True,
                                lc_tea_key := (rdle32 e, rdle32 (drop 4 e), rdle32 (drop 8 e),
                                  rdle32 (drop 12 e))\<rparr>))))"

text \<open>The sequence numbers of the asynchronous records skip 0; \<open>s_seq\<close> is the static counter.\<close>

definition GetSeq :: "bool \<Rightarrow> u16 \<Rightarrow> u16 \<times> u16" where
  "GetSeq is_async s_seq =
     (if \<not> is_async then (0, s_seq)
      else let s1 = s_seq + 1; s2 = (if s1 = 0 then s1 + 1 else s1) in (s2, s2))"

definition is_magic :: "u8 \<Rightarrow> bool" where
  "is_magic c \<longleftrightarrow> c = kMagicAsyncStart \<or> c = kMagicSyncStart \<or> c = kMagicAsyncNoCryptStart \<or>
     c = kMagicSyncNoCryptStart"

text \<open>\<open>memcpy\<close> to and from an offset of the memory.\<close>

definition poke :: "nat \<Rightarrow> bytes \<Rightarrow> bytes \<Rightarrow> bytes option" where
  "poke p d m = (if length m < p + length d then None else Some (mem_write p d m))"

definition peek :: "nat \<Rightarrow> nat \<Rightarrow> bytes \<Rightarrow> bytes option" where
  "peek p n m = (if length m < p + n then None else Some (take n (drop p m)))"

definition GetLogHour :: "bytes \<Rightarrow> nat \<Rightarrow> (int \<times> int) option" where
  "GetLogHour m len =
     (if len < GetHeaderLen then None
      else if m ! 0 \<noteq> kMagicAsyncStart \<and> m ! 0 \<noteq> kMagicSyncStart then None
      else Some (sint (m ! 3), sint (m ! 4)))"

definition UpdateLogHour :: "u8 \<Rightarrow> bytes \<Rightarrow> bytes option" where
  "UpdateLogHour hour m = poke 4 [hour] m"

definition GetLogLen :: "bytes \<Rightarrow> nat \<Rightarrow> u32" where
  "GetLogLen m len =
     (if len < GetHeaderLen then 0
      else if \<not> is_magic (m ! 0) then 0
      else rdle32 (drop 5 m))"

definition UpdateLogLen :: "u32 \<Rightarrow> bytes \<Rightarrow> bytes option" where
  "UpdateLogLen add m = poke 5 (le32 (GetLogLen m GetHeaderLen + add)) m"

definition start_magic :: "bool \<Rightarrow> bool \<Rightarrow> u8" where
  "start_magic is_crypt is_async =
     (if is_async then (if is_crypt then kMagicAsyncStart else kMagicAsyncNoCryptStart)
      else (if is_crypt then kMagicSyncStart else kMagicSyncNoCryptStart))"

definition SetHeaderInfo ::
  "bool \<Rightarrow> u8 \<Rightarrow> u16 \<Rightarrow> LogCrypt \<Rightarrow> bytes \<Rightarrow> (u16 \<times> LogCrypt \<times> bytes) option" where
  "SetHeaderInfo is_async hour s_seq c m =
     (let (seq, s_seq') = GetSeq is_async s_seq in
      do { m1 \<leftarrow> poke 0 [start_magic (lc_is_crypt c) is_async] m;
           m2 \<leftarrow> poke 1 (le16 seq) m1;
           m3 \<leftarrow> poke 3 [hour] m2;
           m4 \<leftarrow> poke 4 [hour] m3;
           m5 \<leftarrow> poke 5 (le32 0) m4;
           m6 \<leftarrow> poke 9 (lc_client_pubkey c) m5;
           Some (s_seq', c\<lparr>lc_seq := seq\<rparr>, m6) })"

definition SetTailerInfo :: "nat \<Rightarrow> bytes \<Rightarrow> bytes option" where
  "SetTailerInfo p m = poke p [kMagicEnd] m"

text \<open>A record of a log that is written at once. The new block of the output buffer is \<open>m\<close>; the
  encryption is commented out in the source.\<close>

definition CryptSyncLog ::
  "u8 \<Rightarrow> u16 \<Rightarrow> LogCrypt \<Rightarrow> bytes \<Rightarrow> bytes \<Rightarrow> (u16 \<times> LogCrypt \<times> bytes) option" where
  "CryptSyncLog hour s_seq c d m =
     do { (s_seq', c', m1) \<leftarrow> SetHeaderInfo False hour s_seq c m;
          m2 \<leftarrow> UpdateLogLen (of_nat (length d)) m1;
          m3 \<leftarrow> SetTailerInfo (length d + GetHeaderLen) m2;
          m4 \<leftarrow> poke GetHeaderLen d m3;
          Some (s_seq', c', m4) }"

text \<open>The encryption of what was appended, with the bytes before it that did not fill a block; the number
  of bytes that are left over now.\<close>

definition CryptAsyncLog :: "LogCrypt \<Rightarrow> bytes \<Rightarrow> bytes \<times> nat" where
  "CryptAsyncLog c d =
     (if \<not> lc_is_crypt c then (d, 0)
      else (on_blocks (TeaEncrypt (lc_tea_key c)) d, length d mod TEA_BLOCK_LEN))"

definition Fix :: "bytes \<Rightarrow> nat \<Rightarrow> LogCrypt \<Rightarrow> (bool \<times> u32 \<times> LogCrypt) option" where
  "Fix m len c =
     (if len < GetHeaderLen then None
      else if \<not> is_magic (m ! 0) then None
      else Some (m ! 0 \<noteq> kMagicSyncStart \<and> m ! 0 \<noteq> kMagicSyncNoCryptStart, GetLogLen m len,
             c\<lparr>lc_seq := rdle16 (drop 1 m)\<rparr>))"

section \<open>The buffer of the log\<close>

text \<open>The compressor: its initial state, and what it does with an input and a number of bytes it may
  write: whether it succeeded, the bytes it wrote, its new state.\<close>

record 'z zlib =
  z_init :: "'z option"
  z_deflate :: "'z \<Rightarrow> bytes \<Rightarrow> nat \<Rightarrow> bool \<times> bytes \<times> 'z"

record 'z LogBuffer =
  lb_buff :: PtrBuffer
  lb_is_compress :: bool
  lb_cstream :: "'z option"
  lb_crypt :: LogCrypt
  lb_remain_nocrypt_len :: nat
  lb_s_seq :: u16

definition on_mem :: "(bytes \<Rightarrow> bytes option) \<Rightarrow> 'z LogBuffer \<Rightarrow> 'z LogBuffer option" where
  "on_mem f b =
     do { m \<leftarrow> f (pb_block (lb_buff b)); Some (b\<lparr>lb_buff := (lb_buff b)\<lparr>pb_parray := Some m\<rparr>\<rparr>) }"

definition set_length :: "nat \<Rightarrow> 'z LogBuffer \<Rightarrow> 'z LogBuffer" where
  "set_length n b = b\<lparr>lb_buff := PB_Length (int n) n (lb_buff b)\<rparr>"

text \<open>\<open>__Clear\<close>, \<open>__Reset\<close>, \<open>__Flush\<close>, \<open>__Fix\<close>.\<close>

definition LB_Clear :: "'z LogBuffer \<Rightarrow> 'z LogBuffer option" where
  "LB_Clear b =
     do { b1 \<leftarrow> on_mem (poke 0 (replicate (pb_length (lb_buff b)) 0)) b;
          Some ((set_length 0 b1)\<lparr>lb_remain_nocrypt_len := 0\<rparr>) }"

definition LB_Reset :: "'z zlib \<Rightarrow> u8 \<Rightarrow> 'z LogBuffer \<Rightarrow> (bool \<times> 'z LogBuffer) option" where
  "LB_Reset env hour b =
     do { b1 \<leftarrow> LB_Clear b;
          if lb_is_compress b1 \<and> z_init env = None then Some (False, b1)
          else do { (s, c, m) \<leftarrow> SetHeaderInfo (lb_is_compress b1) hour (lb_s_seq b1) (lb_crypt b1)
                      (pb_block (lb_buff b1));
                    Some (True, set_length GetHeaderLen
                      (b1\<lparr>lb_buff := (lb_buff b1)\<lparr>pb_parray := Some m\<rparr>, lb_s_seq := s, lb_crypt := c,
                         lb_cstream := (if lb_is_compress b1 then z_init env else lb_cstream b1)\<rparr>)) } }"

definition LB_Flush_record :: "u8 \<Rightarrow> 'z LogBuffer \<Rightarrow> 'z LogBuffer option" where
  "LB_Flush_record hour b =
     do { b1 \<leftarrow> on_mem (UpdateLogHour hour) b;
          b2 \<leftarrow> on_mem (SetTailerInfo (pb_length (lb_buff b1))) b1;
          Some (set_length (pb_length (lb_buff b2) + GetTailerLen) b2) }"

definition LB_Fix :: "'z LogBuffer \<Rightarrow> 'z LogBuffer" where
  "LB_Fix b =
     (case Fix (pb_block (lb_buff b)) (pb_length (lb_buff b)) (lb_crypt b) of
        Some (_, raw_log_len, c) \<Rightarrow> set_length (unat raw_log_len + GetHeaderLen) (b\<lparr>lb_crypt := c\<rparr>)
      | None \<Rightarrow> set_length 0 b)"

definition LogBuffer_new :: "bytes \<Rightarrow> nat \<Rightarrow> bool \<Rightarrow> LogCrypt \<Rightarrow> u16 \<Rightarrow> 'z LogBuffer" where
  "LogBuffer_new m len is_compress c s_seq =
     LB_Fix \<lparr>lb_buff = PB_Attach m len len, lb_is_compress = is_compress, lb_cstream = None, lb_crypt = c,
             lb_remain_nocrypt_len = 0, lb_s_seq = s_seq\<rparr>"

text \<open>\<open>Flush\<close>: the bytes it writes to the given buffer.\<close>

definition LB_Flush :: "u8 \<Rightarrow> 'z LogBuffer \<Rightarrow> (bytes \<times> 'z LogBuffer) option" where
  "LB_Flush hour b =
     (let b0 = b\<lparr>lb_cstream := (if lb_is_compress b then None else lb_cstream b)\<rparr> in
      if GetLogLen (pb_block (lb_buff b0)) (pb_length (lb_buff b0)) = 0
      then do { b1 \<leftarrow> LB_Clear b0; Some ([], b1) }
      else do { b1 \<leftarrow> LB_Flush_record hour b0;
                d \<leftarrow> peek 0 (pb_length (lb_buff b1)) (pb_block (lb_buff b1));
                b2 \<leftarrow> LB_Clear b1;
                Some (d, b2) })"

text \<open>\<open>Write\<close> in its two forms. The asynchronous one lets the compressor write behind the data, or
  copies the line, encrypts what is new in place, and adds to the length in the header.\<close>

definition LB_Write_sync ::
  "u8 \<Rightarrow> bytes \<Rightarrow> bytes \<Rightarrow> 'z LogBuffer \<Rightarrow> (bool \<times> bytes \<times> 'z LogBuffer) option" where
  "LB_Write_sync hour d m b =
     (if d = [] then Some (False, m, b)
      else do { (s, c, m') \<leftarrow> CryptSyncLog hour (lb_s_seq b) (lb_crypt b) d m;
                Some (True, m', b\<lparr>lb_s_seq := s, lb_crypt := c\<rparr>) })"

definition LB_append ::
  "'z zlib \<Rightarrow> bytes \<Rightarrow> 'z LogBuffer \<Rightarrow> (bool \<times> nat \<times> 'z LogBuffer) option" where
  "LB_append env d b =
     (let p = lb_buff b in
      if lb_is_compress b
      then (case lb_cstream b of
              None \<Rightarrow> Some (False, 0, b)
            | Some z \<Rightarrow>
                let (ok, out, z') = z_deflate env z (take (length d mod 2 ^ 32) d)
                      ((pb_max_length p - pb_length p) mod 2 ^ 32)
                in do { b1 \<leftarrow> on_mem (poke (nat (pb_pos p)) out) b;
                        Some (ok, length out, b1\<lparr>lb_cstream := Some z'\<rparr>) })
      else do { p1 \<leftarrow> PB_Write d p; Some (True, length d, b\<lparr>lb_buff := p1\<rparr>) })"

definition LB_encrypt :: "nat \<Rightarrow> nat \<Rightarrow> 'z LogBuffer \<Rightarrow> 'z LogBuffer option" where
  "LB_encrypt before write_len b =
     (let r = lb_remain_nocrypt_len b in
      if before < r then None
      else do { d \<leftarrow> peek (before - r) (write_len + r) (pb_block (lb_buff b));
                let (out, r') = CryptAsyncLog (lb_crypt b) d;
                p \<leftarrow> PB_Write_at out (int (before - r)) (lb_buff b);
                b1 \<leftarrow> on_mem (UpdateLogLen (of_nat (length out) - of_nat r))
                        (set_length (before - r + length out)
                          (b\<lparr>lb_buff := p, lb_remain_nocrypt_len := r'\<rparr>));
                Some b1 })"

definition LB_Write :: "'z zlib \<Rightarrow> u8 \<Rightarrow> bytes \<Rightarrow> 'z LogBuffer \<Rightarrow> (bool \<times> 'z LogBuffer) option" where
  "LB_Write env hour d b =
     (if d = [] then Some (False, b)
      else do { (ok, b1) \<leftarrow> (if pb_length (lb_buff b) = 0 then LB_Reset env hour b else Some (True, b));
                if \<not> ok then Some (False, b1)
                else do { let before = pb_length (lb_buff b1);
                          (ok2, write_len, b2) \<leftarrow> LB_append env d b1;
                          if \<not> ok2 then Some (False, b2)
                          else do { b3 \<leftarrow> LB_encrypt before write_len b2; Some (True, b3) } } })"

section \<open>Numbers and blocks in memory\<close>

lemma length_le [simp]: "length (le16 a) = 2" "length (le32 b) = 4"
  by (simp_all add: le16_def le32_def)

lemma rdle32_le32 [simp]: "rdle32 (le32 w @ xs) = w"
proof -
  have "bit (rdle32 (le32 w @ xs)) n = bit w n" if "n < 32" for n
    using that
    by (cases "n < 8"; cases "n < 16"; cases "n < 24")
      (auto simp: le32_def bit_or_iff bit_push_bit_iff bit_ucast_iff bit_drop_bit_eq)
  then show ?thesis by (intro bit_word_eqI) simp
qed

lemma rdle16_le16 [simp]: "rdle16 (le16 w @ xs) = w"
proof -
  have "bit (rdle16 (le16 w @ xs)) n = bit w n" if "n < 16" for n
    using that
    by (cases "n < 8") (auto simp: le16_def bit_or_iff bit_push_bit_iff bit_ucast_iff bit_drop_bit_eq)
  then show ?thesis by (intro bit_word_eqI) simp
qed

lemma le32_rdle32: "length bs = 4 \<Longrightarrow> le32 (rdle32 bs) = bs"
proof -
  assume "length bs = 4"
  then obtain a b c d where bs: "bs = [a, b, c, d]"
    by (auto simp: length_Suc_conv numeral_eq_Suc)
  have "ucast (rdle32 bs) = a" "ucast (drop_bit 8 (rdle32 bs)) = b" "ucast (drop_bit 16 (rdle32 bs)) = c"
    "ucast (drop_bit 24 (rdle32 bs)) = d"
    by (rule bit_word_eqI; simp add: bs bit_or_iff bit_push_bit_iff bit_ucast_iff bit_drop_bit_eq;
        auto dest: bit_imp_le_length)+
  then show ?thesis by (simp add: le32_def bs)
qed

text \<open>The cipher on texts: whole blocks can be taken off, and a function that undoes another on a block
  undoes it on a text.\<close>

lemma length_on_block [simp]: "length (on_block f bs) = 8"
  by (simp add: on_block_def split_def Let_def)

lemma length_on_blocks [simp]: "length (on_blocks f bs) = length bs"
proof (induction f bs rule: on_blocks.induct)
  case (1 f bs)
  then show ?case by (subst on_blocks.simps) (auto simp: TEA_BLOCK_LEN_def)
qed

lemma on_blocks_short: "length bs < 8 \<Longrightarrow> on_blocks f bs = bs"
  by (subst on_blocks.simps) (simp add: TEA_BLOCK_LEN_def)

lemma on_blocks_block: "length bs = 8 \<Longrightarrow> on_blocks f (bs @ xs) = on_block f bs @ on_blocks f xs"
  by (subst on_blocks.simps) (simp add: TEA_BLOCK_LEN_def)

lemma on_blocks_append: "8 dvd length xs \<Longrightarrow> on_blocks f (xs @ ys) = on_blocks f xs @ on_blocks f ys"
proof (induction "length xs" arbitrary: xs rule: less_induct)
  case less
  show ?case
  proof (cases "xs = []")
    case False
    then have len: "8 \<le> length xs" using less.prems by (auto dest: dvd_imp_le)
    define b where "b = take 8 xs"
    define r where "r = drop 8 xs"
    have xs: "xs = b @ r" "length b = 8" "length r < length xs"
      using len by (simp_all add: b_def r_def)
    have "8 dvd length r" using less.prems unfolding r_def by simp
    then have "on_blocks f (r @ ys) = on_blocks f r @ on_blocks f ys" using less.hyps [OF xs(3)] by blast
    then show ?thesis using xs(2) by (simp add: xs(1) on_blocks_block)
  qed (simp add: on_blocks_short)
qed

lemma on_block_inverse:
  assumes "\<And>v. g (f v) = v" "length bs = 8"
  shows "on_block g (on_block f bs) = bs"
proof -
  obtain a b where f: "f (rdle32 bs, rdle32 (drop 4 bs)) = (a, b)" by (cases "f (rdle32 bs, rdle32 (drop 4 bs))")
  have "g (a, b) = (rdle32 bs, rdle32 (drop 4 bs))" using assms(1) f by metis
  moreover have "rdle32 (drop 4 (le32 a @ le32 b)) = b" using rdle32_le32 [of b "[]"] by simp
  moreover have "le32 (rdle32 bs) = take 4 bs"
  proof -
    have "rdle32 bs = rdle32 (take 4 bs)"
      using assms(2) by (cases bs; cases "tl bs"; cases "tl (tl bs)"; cases "tl (tl (tl bs))") auto
    then show ?thesis using le32_rdle32 [of "take 4 bs"] assms(2) by simp
  qed
  moreover have "le32 (rdle32 (drop 4 bs)) = drop 4 bs"
    using assms(2) by (intro le32_rdle32) simp
  ultimately show ?thesis by (simp add: on_block_def f)
qed

lemma on_blocks_inverse:
  assumes "\<And>v. g (f v) = v"
  shows "on_blocks g (on_blocks f bs) = bs"
proof (induction "length bs" arbitrary: bs rule: less_induct)
  case less
  show ?case
  proof (cases "length bs < 8")
    case False
    define b where "b = take 8 bs"
    define r where "r = drop 8 bs"
    have bs: "bs = b @ r" "length b = 8" "length r < length bs"
      using False by (simp_all add: b_def r_def)
    show ?thesis
      using less.hyps [OF bs(3)] on_block_inverse [of g f b, OF assms bs(2)] bs(2)
      by (simp add: bs(1) on_blocks_block)
  qed (simp add: on_blocks_short)
qed

section \<open>What a buffer holds\<close>

text \<open>The text \<open>plain\<close> in the form in which it stands in the memory, and the bytes at its end that
  wait for more.\<close>

definition cipher :: "LogCrypt \<Rightarrow> bytes \<Rightarrow> bytes" where
  "cipher c plain = (if lc_is_crypt c then on_blocks (TeaEncrypt (lc_tea_key c)) plain else plain)"

definition left_over :: "LogCrypt \<Rightarrow> bytes \<Rightarrow> nat" where
  "left_over c plain = (if lc_is_crypt c then length plain mod 8 else 0)"

definition record_head :: "u8 \<Rightarrow> u16 \<Rightarrow> u8 \<Rightarrow> u8 \<Rightarrow> nat \<Rightarrow> bytes \<Rightarrow> bytes" where
  "record_head magic seq bh eh n pub = [magic] @ le16 seq @ [bh, eh] @ le32 (of_nat n) @ pub"

definition head_of :: "'z LogBuffer \<Rightarrow> u16 \<Rightarrow> u8 \<Rightarrow> u8 \<Rightarrow> nat \<Rightarrow> bytes" where
  "head_of b seq bh eh n = record_head (start_magic (lc_is_crypt (lb_crypt b)) (lb_is_compress b)) seq bh eh n
     (lc_client_pubkey (lb_crypt b))"

text \<open>The memory of a buffer: large enough for a record, smaller than 4 GB.\<close>

definition memory_ok :: "'z LogBuffer \<Rightarrow> bool" where
  "memory_ok b \<longleftrightarrow> pb_parray (lb_buff b) \<noteq> None \<and>
     pb_max_length (lb_buff b) = length (pb_block (lb_buff b)) \<and> length (pb_block (lb_buff b)) < 2 ^ 32 \<and>
     GetHeaderLen < length (pb_block (lb_buff b)) \<and> length (lc_client_pubkey (lb_crypt b)) = 64"

text \<open>The buffer has begun the record \<open>seq\<close> at the hour \<open>h\<close> and holds \<open>plain\<close>.\<close>

definition holds :: "'z LogBuffer \<Rightarrow> u16 \<Rightarrow> u8 \<Rightarrow> bytes \<Rightarrow> bool" where
  "holds b seq h plain \<longleftrightarrow> memory_ok b \<and>
     pb_length (lb_buff b) = GetHeaderLen + length plain \<and>
     pb_pos (lb_buff b) = int (pb_length (lb_buff b)) \<and>
     lb_remain_nocrypt_len b = left_over (lb_crypt b) plain \<and>
     (\<exists>rest. pb_block (lb_buff b) = head_of b seq h h (length plain) @ cipher (lb_crypt b) plain @ rest)"

definition is_empty :: "'z LogBuffer \<Rightarrow> bool" where
  "is_empty b \<longleftrightarrow> memory_ok b \<and> pb_length (lb_buff b) = 0"

lemma length_cipher [simp]: "length (cipher c plain) = length plain"
  by (simp add: cipher_def)

lemma length_head [simp]: "length pub = 64 \<Longrightarrow> length (record_head m s b e n pub) = 73"
  by (simp add: record_head_def)

lemma length_head_of: "memory_ok b \<Longrightarrow> length (head_of b seq bh eh n) = 73"
  by (simp add: head_of_def memory_ok_def)

lemma holds_fits: "holds b seq h plain \<Longrightarrow> GetHeaderLen + length plain \<le> length (pb_block (lb_buff b))"
  by (auto simp: holds_def length_head_of GetHeaderLen_def)

text \<open>Every text splits into what is encrypted for good and what is left over.\<close>

lemma cipher_split:
  "\<exists>a r. cipher c plain = a @ r \<and> length r = left_over c plain \<and>
    (\<forall>out. cipher c (plain @ out) = a @ fst (CryptAsyncLog c (r @ out)) \<and>
       snd (CryptAsyncLog c (r @ out)) = left_over c (plain @ out))"
proof (cases "lc_is_crypt c")
  case False
  then show ?thesis
    by (intro exI [of _ plain] exI [of _ "[]"]) (simp add: cipher_def left_over_def CryptAsyncLog_def)
next
  case True
  define n where "n = length plain - length plain mod 8"
  define x where "x = take n plain"
  define r where "r = drop n plain"
  have n: "8 dvd n" "n \<le> length plain" by (simp_all add: n_def dvd_minus_mod)
  have p: "plain = x @ r" "8 dvd length x" "length r = length plain mod 8"
    using n by (auto simp: x_def r_def min_def) (simp add: n_def)
  have m: "(length r + k) mod 8 = (length plain + k) mod 8" for k
    unfolding p(3) by (simp add: mod_add_left_eq)
  have "cipher c plain = on_blocks (TeaEncrypt (lc_tea_key c)) x @ r"
    using True p(3) on_blocks_append [OF p(2), of _ r] by (simp add: cipher_def p(1) on_blocks_short)
  moreover have "length r = left_over c plain" using True p(3) by (simp add: left_over_def)
  moreover have "cipher c (plain @ out) = on_blocks (TeaEncrypt (lc_tea_key c)) x @ fst (CryptAsyncLog c (r @ out))" for out
    using True on_blocks_append [OF p(2), of _ "r @ out"] by (simp add: cipher_def p(1) CryptAsyncLog_def)
  moreover have "snd (CryptAsyncLog c (r @ out)) = left_over c (plain @ out)" for out
    using True m by (simp add: CryptAsyncLog_def left_over_def TEA_BLOCK_LEN_def)
  ultimately show ?thesis by blast
qed

text \<open>Writing into memory that is given in pieces.\<close>

lemma poke_at:
  "length d \<le> length rest \<Longrightarrow> poke (length a) d (a @ rest) = Some (a @ d @ drop (length d) rest)"
  by (simp add: poke_def mem_write_def)

lemma poke_over:
  "p = length a \<Longrightarrow> length d = length x \<Longrightarrow> poke p d (a @ x @ rest) = Some (a @ d @ rest)"
  by (simp add: poke_def mem_write_def)

lemma peek_at: "p = length a \<Longrightarrow> n = length d \<Longrightarrow> peek p n (a @ d @ rest) = Some d"
  by (simp add: peek_def)

lemma PB_Length_simp:
  "n \<le> pb_max_length b \<Longrightarrow> n < 2 ^ 32 \<Longrightarrow> PB_Length (int n) n b = b\<lparr>pb_length := n, pb_pos := int n\<rparr>"
  by (simp add: PB_Length_def PB_Seek_def)

lemma pb_block_simps [simp]:
  "pb_block (p\<lparr>pb_parray := Some m\<rparr>) = m" "pb_block (p\<lparr>pb_length := n\<rparr>) = pb_block p"
  "pb_block (p\<lparr>pb_pos := i\<rparr>) = pb_block p"
  by (simp_all add: pb_block_def)

lemma PB_Write_at_fits:
  assumes "length d \<le> length x" "pb_block b = a @ x" "pb_max_length b = length (pb_block b)"
    "pb_parray b \<noteq> None" "length (pb_block b) < 2 ^ 32"
  shows "PB_Write_at d (int (length a)) b = Some (b\<lparr>pb_parray := Some (a @ d @ drop (length d) x),
    pb_length := max (pb_length b) (length a + length d)\<rparr>)"
proof -
  have r: "nat ((int (pb_max_length b) - int (length a)) mod 2 ^ 64) = length x"
    using assms(2,3,5) by (simp add: mod_pos_pos_trivial)
  have l: "nat ((int (length d) + int (length a)) mod 2 ^ 64) = length a + length d"
    using assms(1,2,5) nat_mod64 [of "length d + length a"] by simp
  have mn: "min (length d) (length x) = length d" using assms(1) by simp
  show ?thesis
  proof (cases "d = []")
    case True
    have "b\<lparr>pb_parray := Some (a @ x)\<rparr> = b" using assms(2,4) by (cases b) (auto simp: pb_block_def split: option.splits)
    then show ?thesis unfolding PB_Write_at_def r Let_def mn l using True by simp
  next
    case False
    then show ?thesis unfolding PB_Write_at_def r Let_def mn l using assms(1,2) by (simp add: mem_write_def)
  qed
qed

section \<open>Writing\<close>

text \<open>The length in the header of a record.\<close>

lemma start_magic_is: "is_magic (start_magic c a)"
  by (simp add: start_magic_def is_magic_def)

lemma GetLogLen_head:
  "is_magic g \<Longrightarrow> GetHeaderLen \<le> k \<Longrightarrow> GetLogLen (record_head g s b e n pub @ xs) k = of_nat n"
  using rdle32_le32 [of "of_nat n" "pub @ xs"] by (simp add: GetLogLen_def record_head_def le16_def)

lemma UpdateLogLen_head:
  assumes "is_magic g" "length pub = 64"
  shows "UpdateLogLen (of_nat k) (record_head g s b e n pub @ xs) = Some (record_head g s b e (n + k) pub @ xs)"
proof -
  have l: "GetLogLen (record_head g s b e n pub @ xs) GetHeaderLen = of_nat n"
    using assms(1) by (simp add: GetLogLen_head)
  have h: "record_head g s b e k pub @ xs = ([g] @ le16 s @ [b, e]) @ le32 (of_nat k) @ pub @ xs" for k
    by (simp add: record_head_def)
  show ?thesis
    unfolding UpdateLogLen_def l unfolding h by (subst poke_over) simp_all
qed

lemma on_mem_Some:
  "f (pb_block (lb_buff b)) = Some m \<Longrightarrow> on_mem f b = Some (b\<lparr>lb_buff := (lb_buff b)\<lparr>pb_parray := Some m\<rparr>\<rparr>)"
  by (simp add: on_mem_def)

text \<open>Encrypting what was appended.\<close>

lemma LB_encrypt_holds:
  assumes "memory_ok b"
    "pb_block (lb_buff b) = head_of b seq h h (length plain) @ cipher (lb_crypt b) plain @ out @ rest"
    "lb_remain_nocrypt_len b = left_over (lb_crypt b) plain"
  shows "\<exists>b'. LB_encrypt (GetHeaderLen + length plain) (length out) b = Some b' \<and> holds b' seq h (plain @ out) \<and>
    lb_crypt b' = lb_crypt b \<and> lb_is_compress b' = lb_is_compress b \<and> lb_cstream b' = lb_cstream b \<and>
    length (pb_block (lb_buff b')) = length (pb_block (lb_buff b))"
proof -
  define c where "c = lb_crypt b"
  define H where "H = head_of b seq h h (length plain)"
  obtain a r where ar: "cipher c plain = a @ r" "length r = left_over c plain"
    "cipher c (plain @ out) = a @ fst (CryptAsyncLog c (r @ out))"
    "snd (CryptAsyncLog c (r @ out)) = left_over c (plain @ out)"
    using cipher_split [of c plain] by blast
  define e where "e = fst (CryptAsyncLog c (r @ out))"
  have e: "CryptAsyncLog c (r @ out) = (e, left_over c (plain @ out))"
    using ar(4) by (simp add: e_def prod_eq_iff)
  have le: "length e = length r + length out" by (simp add: e_def CryptAsyncLog_def)
  have pl: "length plain = length a + length r"
    using arg_cong [OF ar(1), of length] by simp
  have blk: "pb_block (lb_buff b) = (H @ a) @ (r @ out) @ rest"
    using assms(2) by (simp add: H_def c_def [symmetric] ar(1))
  have lH: "length H = 73" unfolding H_def by (rule length_head_of [OF assms(1)])
  have pos: "GetHeaderLen + length plain - left_over c plain = length (H @ a)"
    "\<not> GetHeaderLen + length plain < left_over c plain"
    using pl ar(2) lH by (simp_all add: GetHeaderLen_def)
  have mem: "pb_max_length (lb_buff b) = length (pb_block (lb_buff b))" "pb_parray (lb_buff b) \<noteq> None"
    "length (pb_block (lb_buff b)) < 2 ^ 32" "length (lc_client_pubkey c) = 64"
    using assms(1) by (simp_all add: memory_ok_def c_def)
  define p1 where "p1 = (lb_buff b)\<lparr>pb_parray := Some ((H @ a) @ e @ rest),
    pb_length := max (pb_length (lb_buff b)) (length (H @ a) + length e)\<rparr>"
  have w: "PB_Write_at e (int (length (H @ a))) (lb_buff b) = Some p1"
    unfolding p1_def
    using PB_Write_at_fits [OF _ blk mem(1,2,3), of e] le by simp
  define n where "n = length (H @ a) + length e"
  have n: "n = GetHeaderLen + length (plain @ out)" using le pl lH by (simp add: n_def GetHeaderLen_def)
  have nmax: "n \<le> pb_max_length p1" "n < 2 ^ 32"
    using mem(1,3) le by (simp_all add: p1_def blk n_def)
  define b1 where "b1 = set_length n (b\<lparr>lb_buff := p1, lb_remain_nocrypt_len := left_over c (plain @ out)\<rparr>)"
  have b1: "b1 = b\<lparr>lb_buff := p1\<lparr>pb_length := n, pb_pos := int n\<rparr>, lb_remain_nocrypt_len := left_over c (plain @ out)\<rparr>"
    unfolding b1_def set_length_def by (rule LogBuffer.equality) (simp_all add: PB_Length_simp [OF nmax])
  have "UpdateLogLen (of_nat (length e) - of_nat (left_over c plain)) (H @ a @ e @ rest) =
      Some (head_of b seq h h (length (plain @ out)) @ a @ e @ rest)"
    using UpdateLogLen_head [OF start_magic_is mem(4), of "length out"] le ar(2)
    unfolding H_def head_of_def c_def [symmetric] by simp
  then have u: "on_mem (UpdateLogLen (of_nat (length e) - of_nat (left_over c plain))) b1 =
      Some (b1\<lparr>lb_buff := (lb_buff b1)\<lparr>pb_parray := Some (head_of b seq h h (length (plain @ out)) @ a @ e @ rest)\<rparr>\<rparr>)"
    by (intro on_mem_Some) (simp add: b1 p1_def)
  define b2 where "b2 = b1\<lparr>lb_buff := (lb_buff b1)\<lparr>pb_parray := Some (head_of b seq h h (length (plain @ out)) @ a @ e @ rest)\<rparr>\<rparr>"
  have pk: "peek (length (H @ a)) (length out + left_over c plain) (pb_block (lb_buff b)) = Some (r @ out)"
    unfolding blk by (rule peek_at) (simp_all add: ar(2))
  have "LB_encrypt (GetHeaderLen + length plain) (length out) b = Some b2"
    using pos(2) w pk u
    by (simp add: LB_encrypt_def assms(3) c_def [symmetric] pos(1) e n_def [symmetric] b1_def [symmetric] b2_def
          del: length_append)
  moreover have blk2: "pb_block (lb_buff b2) = head_of b2 seq h h (length (plain @ out)) @ cipher c (plain @ out) @ rest"
    using ar(3) by (simp add: b2_def head_of_def b1 e_def)
  moreover have "length (pb_block (lb_buff b2)) = length (pb_block (lb_buff b))"
    using lH le length_head_of [OF assms(1)] by (simp add: b2_def blk)
  moreover have "holds b2 seq h (plain @ out)"
  proof -
    have m2: "memory_ok b2"
      using assms(1) calculation(3) by (simp add: memory_ok_def) (simp add: b2_def b1 p1_def)
    have c2: "lb_crypt b2 = c" by (simp add: b2_def b1 c_def)
    show ?thesis
      unfolding holds_def c2
      using m2 blk2 n by (intro conjI exI [of _ rest]) (simp_all add: b2_def b1)
  qed
  ultimately show ?thesis by (intro exI [of _ b2]) (simp add: b2_def b1)
qed

text \<open>A compressor never writes more than it may.\<close>

definition z_fits :: "'z zlib \<Rightarrow> bool" where
  "z_fits env \<longleftrightarrow> (\<forall>z d n. length (fst (snd (z_deflate env z d n))) \<le> n)"

definition lb_room :: "'z LogBuffer \<Rightarrow> nat" where
  "lb_room b = pb_max_length (lb_buff b) - pb_length (lb_buff b)"

text \<open>What the appended bytes are: the output of the compressor or the line.\<close>

definition appended :: "'z zlib \<Rightarrow> bytes \<Rightarrow> 'z LogBuffer \<Rightarrow> bytes \<times> 'z option" where
  "appended env d b =
     (case lb_cstream b of
        Some z \<Rightarrow> if lb_is_compress b
                  then (fst (snd (z_deflate env z d (lb_room b))), Some (snd (snd (z_deflate env z d (lb_room b)))))
                  else (d, Some z)
      | None \<Rightarrow> (d, None))"

text \<open>The conditions under which a line is taken.\<close>

definition takes_line :: "'z zlib \<Rightarrow> bytes \<Rightarrow> 'z LogBuffer \<Rightarrow> bool" where
  "takes_line env d b \<longleftrightarrow> d \<noteq> [] \<and> length d < 2 ^ 32 \<and>
     (if lb_is_compress b
      then (case lb_cstream b of None \<Rightarrow> False | Some z \<Rightarrow> fst (z_deflate env z d (lb_room b)))
      else length d \<le> lb_room b)"

lemma LB_append_holds:
  assumes "holds b seq h plain" "takes_line env d b" "z_fits env"
  shows "\<exists>b1 rest. LB_append env d b = Some (True, length (fst (appended env d b)), b1) \<and> memory_ok b1 \<and>
    pb_block (lb_buff b1) =
      head_of b1 seq h h (length plain) @ cipher (lb_crypt b) plain @ fst (appended env d b) @ rest \<and>
    lb_crypt b1 = lb_crypt b \<and> lb_is_compress b1 = lb_is_compress b \<and>
    lb_remain_nocrypt_len b1 = lb_remain_nocrypt_len b \<and> lb_cstream b1 = snd (appended env d b) \<and>
    length (pb_block (lb_buff b1)) = length (pb_block (lb_buff b))"
proof -
  define x where "x = head_of b seq h h (length plain) @ cipher (lb_crypt b) plain"
  obtain rest where blk: "pb_block (lb_buff b) = x @ rest"
    using assms(1) by (auto simp: holds_def x_def)
  have mem: "memory_ok b" "pb_max_length (lb_buff b) = length (pb_block (lb_buff b))"
    "pb_parray (lb_buff b) \<noteq> None" "length (pb_block (lb_buff b)) < 2 ^ 32"
    using assms(1) by (simp_all add: holds_def memory_ok_def)
  have lx: "length x = pb_length (lb_buff b)" "pb_pos (lb_buff b) = int (length x)"
    using assms(1) length_head_of [OF mem(1)] by (simp_all add: holds_def x_def GetHeaderLen_def)
  have room: "lb_room b = length rest" using mem(2) lx(1) blk by (simp add: lb_room_def)
  have upd: "length out \<le> length rest \<Longrightarrow> memory_ok (b\<lparr>lb_buff := p, lb_cstream := z\<rparr>) \<and>
      pb_block p = head_of b seq h h (length plain) @ cipher (lb_crypt b) plain @ out @ drop (length out) rest \<and>
      length (pb_block p) = length (pb_block (lb_buff b))"
    if "pb_block p = x @ out @ drop (length out) rest" "pb_parray p \<noteq> None"
      "pb_max_length p = pb_max_length (lb_buff b)" for p out z
    using that mem(1) blk by (auto simp: memory_ok_def x_def)
  show ?thesis
  proof (cases "lb_is_compress b")
    case True
    then obtain z where z: "lb_cstream b = Some z" "fst (z_deflate env z d (lb_room b))"
      using assms(2) by (auto simp: takes_line_def split: option.splits)
    obtain out z' where o: "z_deflate env z d (lb_room b) = (True, out, z')"
      using z(2) by (cases "z_deflate env z d (lb_room b)") auto
    have lo: "length out \<le> length rest"
      using assms(3) o room unfolding z_fits_def by (metis fst_conv snd_conv)
    have av: "(pb_max_length (lb_buff b) - pb_length (lb_buff b)) mod 2 ^ 32 = lb_room b"
      using mem(2,4) by (simp add: lb_room_def)
    have len: "take (length d mod 2 ^ 32) d = d" using assms(2) by (simp add: takes_line_def)
    define p where "p = (lb_buff b)\<lparr>pb_parray := Some (x @ out @ drop (length out) rest)\<rparr>"
    have "on_mem (poke (nat (pb_pos (lb_buff b))) out) b = Some (b\<lparr>lb_buff := p\<rparr>)"
      unfolding p_def using poke_at [OF lo, of x] lx(2) blk by (intro on_mem_Some) simp
    then have "LB_append env d b = Some (True, length out, b\<lparr>lb_buff := p, lb_cstream := Some z'\<rparr>)"
      unfolding LB_append_def Let_def av len using True z(1) o by simp
    moreover have "appended env d b = (out, Some z')" using True z(1) o by (simp add: appended_def)
    ultimately show ?thesis
      using upd [OF _ _ _ lo, of p "Some z'"] by (intro exI [of _ "b\<lparr>lb_buff := p, lb_cstream := Some z'\<rparr>"])
        (auto simp: p_def head_of_def)
  next
    case False
    have ld: "length d \<le> length rest" using False assms(2) room by (simp add: takes_line_def)
    define p where "p = (lb_buff b)\<lparr>pb_parray := Some (x @ d @ drop (length d) rest),
      pb_length := max (pb_length (lb_buff b)) (length x + length d)\<rparr>"
    have w: "PB_Write_at d (int (length x)) (lb_buff b) = Some p"
      unfolding p_def by (rule PB_Write_at_fits [OF ld blk mem(2,3,4)])
    define p2 where "p2 = PB_Seek (int (length d)) ESeekCur p"
    have "LB_append env d b = Some (True, length d, b\<lparr>lb_buff := p2\<rparr>)"
      using False w lx(2) by (simp add: LB_append_def PB_Write_def p2_def Let_def)
    moreover have "appended env d b = (d, lb_cstream b)" using False by (simp add: appended_def split: option.split)
    moreover have "pb_block p2 = x @ d @ drop (length d) rest" "pb_parray p2 \<noteq> None"
      "pb_max_length p2 = pb_max_length (lb_buff b)"
      by (simp_all add: p2_def PB_Seek_def Let_def p_def pb_block_def)
    moreover have "b\<lparr>lb_buff := p2, lb_cstream := lb_cstream b\<rparr> = b\<lparr>lb_buff := p2\<rparr>" by simp
    ultimately show ?thesis
      using upd [OF _ _ _ ld, of p2 "lb_cstream b"] by (intro exI [of _ "b\<lparr>lb_buff := p2\<rparr>"]) (auto simp: head_of_def)
  qed
qed

text \<open>A line that is taken by a buffer that holds a record.\<close>

lemma LB_Write_holds:
  assumes "holds b seq h plain" "takes_line env d b" "z_fits env"
  shows "\<exists>b'. LB_Write env hour d b = Some (True, b') \<and> holds b' seq h (plain @ fst (appended env d b)) \<and>
    lb_crypt b' = lb_crypt b \<and> lb_is_compress b' = lb_is_compress b \<and> lb_cstream b' = snd (appended env d b) \<and>
    length (pb_block (lb_buff b')) = length (pb_block (lb_buff b))"
proof -
  define out where "out = fst (appended env d b)"
  obtain b1 rest where b1: "LB_append env d b = Some (True, length out, b1)" "memory_ok b1"
    "pb_block (lb_buff b1) = head_of b1 seq h h (length plain) @ cipher (lb_crypt b) plain @ out @ rest"
    "lb_crypt b1 = lb_crypt b" "lb_is_compress b1 = lb_is_compress b"
    "lb_remain_nocrypt_len b1 = lb_remain_nocrypt_len b" "lb_cstream b1 = snd (appended env d b)"
    "length (pb_block (lb_buff b1)) = length (pb_block (lb_buff b))"
    using LB_append_holds [OF assms] unfolding out_def by blast
  have r: "lb_remain_nocrypt_len b1 = left_over (lb_crypt b1) plain" using assms(1) b1(4,6) by (simp add: holds_def)
  obtain b' where b': "LB_encrypt (GetHeaderLen + length plain) (length out) b1 = Some b'"
    "holds b' seq h (plain @ out)" "lb_crypt b' = lb_crypt b1" "lb_is_compress b' = lb_is_compress b1"
    "lb_cstream b' = lb_cstream b1" "length (pb_block (lb_buff b')) = length (pb_block (lb_buff b1))"
    using LB_encrypt_holds [OF b1(2) _ r, of seq h out rest] b1(3,4) by auto
  have "pb_length (lb_buff b) = GetHeaderLen + length plain" "d \<noteq> []"
    using assms(1,2) by (simp_all add: holds_def takes_line_def)
  then have "LB_Write env hour d b = Some (True, b')"
    using b1(1) b'(1) by (simp add: LB_Write_def GetHeaderLen_def)
  then show ?thesis using b' b1 by (intro exI [of _ b']) (simp add: out_def)
qed

text \<open>A buffer without a record begins one.\<close>

lemma poke_head:
  assumes "length pub = 64" "73 \<le> length m"
  shows "\<exists>rest. do { m1 \<leftarrow> poke 0 [g] m; m2 \<leftarrow> poke 1 (le16 s) m1; m3 \<leftarrow> poke 3 [hr] m2; m4 \<leftarrow> poke 4 [hr] m3;
      m5 \<leftarrow> poke 5 (le32 0) m4; m6 \<leftarrow> poke 9 pub m5; Some m6 } = Some (record_head g s hr hr 0 pub @ rest) \<and>
    length rest = length m - 73"
proof -
  define x0 where "x0 = take 1 m"
  define x1 where "x1 = take 2 (drop 1 m)"
  define x3 where "x3 = take 1 (drop 3 m)"
  define x4 where "x4 = take 1 (drop 4 m)"
  define x5 where "x5 = take 4 (drop 5 m)"
  define x9 where "x9 = take 64 (drop 9 m)"
  define rest where "rest = drop 73 m"
  have c: "drop n m = take k (drop n m) @ drop (n + k) m" for n k
    by (metis append_take_drop_id drop_drop add.commute)
  have "m = x0 @ drop 1 m" by (simp add: x0_def)
  also have "drop 1 m = x1 @ drop 3 m" using c [of 1 2] by (simp add: x1_def numeral_3_eq_3)
  also have "drop 3 m = x3 @ drop 4 m" using c [of 3 1] by (simp add: x3_def)
  also have "drop 4 m = x4 @ drop 5 m" using c [of 4 1] by (simp add: x4_def)
  also have "drop 5 m = x5 @ drop 9 m" using c [of 5 4] by (simp add: x5_def)
  also have "drop 9 m = x9 @ rest" using c [of 9 64] by (simp add: x9_def rest_def)
  finally have m: "m = x0 @ x1 @ x3 @ x4 @ x5 @ x9 @ rest" .
  have l: "length x0 = 1" "length x1 = 2" "length x3 = 1" "length x4 = 1" "length x5 = 4" "length x9 = 64"
    using assms(2) by (simp_all add: x0_def x1_def x3_def x4_def x5_def x9_def)
  have "poke 0 [g] m = Some ([g] @ x1 @ x3 @ x4 @ x5 @ x9 @ rest)"
    using poke_over [of 0 "[]" "[g]" x0] l unfolding m by simp
  moreover have "poke 1 (le16 s) ([g] @ x1 @ x3 @ x4 @ x5 @ x9 @ rest) =
      Some (([g] @ le16 s) @ x3 @ x4 @ x5 @ x9 @ rest)"
    using poke_over [of 1 "[g]" "le16 s" x1] l by simp
  moreover have "poke 3 [hr] (([g] @ le16 s) @ x3 @ x4 @ x5 @ x9 @ rest) =
      Some (([g] @ le16 s @ [hr]) @ x4 @ x5 @ x9 @ rest)"
    using poke_over [of 3 "[g] @ le16 s" "[hr]" x3] l by simp
  moreover have "poke 4 [hr] (([g] @ le16 s @ [hr]) @ x4 @ x5 @ x9 @ rest) =
      Some (([g] @ le16 s @ [hr, hr]) @ x5 @ x9 @ rest)"
    using poke_over [of 4 "[g] @ le16 s @ [hr]" "[hr]" x4] l by simp
  moreover have "poke 5 (le32 0) (([g] @ le16 s @ [hr, hr]) @ x5 @ x9 @ rest) =
      Some (([g] @ le16 s @ [hr, hr] @ le32 0) @ x9 @ rest)"
    using poke_over [of 5 "[g] @ le16 s @ [hr, hr]" "le32 0" x5] l by simp
  moreover have "poke 9 pub (([g] @ le16 s @ [hr, hr] @ le32 0) @ x9 @ rest) =
      Some (([g] @ le16 s @ [hr, hr] @ le32 0 @ pub) @ rest)"
    using poke_over [of 9 "[g] @ le16 s @ [hr, hr] @ le32 0" pub x9] l assms(1) by simp
  ultimately show ?thesis
    by (intro exI [of _ rest]) (simp add: record_head_def rest_def)
qed

lemma SetHeaderInfo_head:
  assumes "length (lc_client_pubkey c) = 64" "73 \<le> length m"
  shows "\<exists>rest. SetHeaderInfo a hr ss c m = Some (snd (GetSeq a ss), c\<lparr>lc_seq := fst (GetSeq a ss)\<rparr>,
      record_head (start_magic (lc_is_crypt c) a) (fst (GetSeq a ss)) hr hr 0 (lc_client_pubkey c) @ rest) \<and>
    length rest = length m - 73"
proof -
  define g where "g = start_magic (lc_is_crypt c) a"
  define s where "s = fst (GetSeq a ss)"
  obtain rest where "do { m1 \<leftarrow> poke 0 [g] m; m2 \<leftarrow> poke 1 (le16 s) m1; m3 \<leftarrow> poke 3 [hr] m2; m4 \<leftarrow> poke 4 [hr] m3;
      m5 \<leftarrow> poke 5 (le32 0) m4; m6 \<leftarrow> poke 9 (lc_client_pubkey c) m5; Some m6 } =
      Some (record_head g s hr hr 0 (lc_client_pubkey c) @ rest)" "length rest = length m - 73"
    using poke_head [OF assms, of g s hr] by blast
  then show ?thesis
    by (intro exI [of _ rest])
       (auto simp: SetHeaderInfo_def split_def s_def [symmetric] g_def [symmetric] split: Option.bind_splits)
qed

lemma LB_Clear_memory:
  assumes "memory_ok b" "pb_length (lb_buff b) \<le> length (pb_block (lb_buff b))"
  shows "\<exists>b1. LB_Clear b = Some b1 \<and> is_empty b1 \<and> lb_crypt b1 = lb_crypt b \<and> lb_is_compress b1 = lb_is_compress b \<and>
    lb_cstream b1 = lb_cstream b \<and> lb_s_seq b1 = lb_s_seq b \<and> lb_remain_nocrypt_len b1 = 0 \<and>
    length (pb_block (lb_buff b1)) = length (pb_block (lb_buff b))"
  using assms
  by (auto simp: LB_Clear_def on_mem_def poke_def set_length_def PB_Length_def PB_Seek_def Let_def is_empty_def memory_ok_def
        pb_block_def mem_write_def split: option.splits)

lemma LB_Reset_holds:
  assumes "is_empty b" "lb_is_compress b \<longrightarrow> z_init env \<noteq> None"
  shows "\<exists>b1. LB_Reset env hour b = Some (True, b1) \<and> holds b1 (fst (GetSeq (lb_is_compress b) (lb_s_seq b))) hour [] \<and>
    lb_crypt b1 = (lb_crypt b)\<lparr>lc_seq := fst (GetSeq (lb_is_compress b) (lb_s_seq b))\<rparr> \<and>
    lb_is_compress b1 = lb_is_compress b \<and>
    lb_cstream b1 = (if lb_is_compress b then z_init env else lb_cstream b) \<and>
    length (pb_block (lb_buff b1)) = length (pb_block (lb_buff b))"
proof -
  obtain b0 where b0: "LB_Clear b = Some b0" "is_empty b0" "lb_crypt b0 = lb_crypt b"
    "lb_is_compress b0 = lb_is_compress b" "lb_cstream b0 = lb_cstream b" "lb_s_seq b0 = lb_s_seq b"
    "lb_remain_nocrypt_len b0 = 0" "length (pb_block (lb_buff b0)) = length (pb_block (lb_buff b))"
    using LB_Clear_memory [of b] assms(1) by (auto simp: is_empty_def)
  define c where "c = lb_crypt b"
  define seq where "seq = fst (GetSeq (lb_is_compress b) (lb_s_seq b))"
  have mem: "length (lc_client_pubkey c) = 64" "73 \<le> length (pb_block (lb_buff b0))"
    "pb_max_length (lb_buff b0) = length (pb_block (lb_buff b0))" "length (pb_block (lb_buff b0)) < 2 ^ 32"
    "73 < length (pb_block (lb_buff b0))"
    using b0(2,3) by (simp_all add: is_empty_def memory_ok_def c_def GetHeaderLen_def)
  obtain rest where h: "SetHeaderInfo (lb_is_compress b) hour (lb_s_seq b) c (pb_block (lb_buff b0)) =
      Some (snd (GetSeq (lb_is_compress b) (lb_s_seq b)), c\<lparr>lc_seq := seq\<rparr>,
        record_head (start_magic (lc_is_crypt c) (lb_is_compress b)) seq hour hour 0 (lc_client_pubkey c) @ rest)"
    "length rest = length (pb_block (lb_buff b0)) - 73"
    using SetHeaderInfo_head [OF mem(1,2), of "lb_is_compress b" hour "lb_s_seq b"] unfolding seq_def by blast
  define H where "H = record_head (start_magic (lc_is_crypt c) (lb_is_compress b)) seq hour hour 0 (lc_client_pubkey c)"
  define b1 where "b1 = set_length GetHeaderLen
    (b0\<lparr>lb_buff := (lb_buff b0)\<lparr>pb_parray := Some (H @ rest)\<rparr>, lb_s_seq := snd (GetSeq (lb_is_compress b) (lb_s_seq b)),
       lb_crypt := c\<lparr>lc_seq := seq\<rparr>, lb_cstream := (if lb_is_compress b0 then z_init env else lb_cstream b0)\<rparr>)"
  have b1: "b1 = b0\<lparr>lb_buff := (lb_buff b0)\<lparr>pb_parray := Some (H @ rest), pb_length := 73, pb_pos := 73\<rparr>,
       lb_s_seq := snd (GetSeq (lb_is_compress b) (lb_s_seq b)),
       lb_crypt := c\<lparr>lc_seq := seq\<rparr>, lb_cstream := (if lb_is_compress b0 then z_init env else lb_cstream b0)\<rparr>"
    unfolding b1_def set_length_def GetHeaderLen_def
    using mem by (intro LogBuffer.equality) (simp_all add: PB_Length_def PB_Seek_def)
  have "LB_Reset env hour b = Some (True, b1)"
    using b0 assms(2) h(1) by (simp add: LB_Reset_def c_def [symmetric] b1_def H_def)
  moreover have "length (H @ rest) = length (pb_block (lb_buff b0))"
    using h(2) mem by (simp add: H_def)
  moreover have "holds b1 seq hour []"
    using mem calculation(2)
    by (auto simp: holds_def memory_ok_def b1 GetHeaderLen_def left_over_def cipher_def head_of_def H_def b0 on_blocks_short)
  ultimately show ?thesis
    using b0 by (intro exI [of _ b1]) (simp add: b1 seq_def c_def)
qed

section \<open>Flushing and recovery\<close>

text \<open>A finished record.\<close>

definition record_bytes :: "u8 \<Rightarrow> u16 \<Rightarrow> u8 \<Rightarrow> u8 \<Rightarrow> bytes \<Rightarrow> bytes \<Rightarrow> bytes" where
  "record_bytes magic seq bh eh pub payload =
     record_head magic seq bh eh (length payload) pub @ payload @ [kMagicEnd]"

lemma UpdateLogHour_head:
  "UpdateLogHour e' (record_head g s b e n pub @ xs) = Some (record_head g s b e' n pub @ xs)"
proof -
  have h: "record_head g s b e n pub @ xs = ([g] @ le16 s @ [b]) @ [e] @ le32 (of_nat n) @ pub @ xs" for e
    by (simp add: record_head_def)
  show ?thesis unfolding UpdateLogHour_def h by (subst poke_over) simp_all
qed

lemma holds_len:
  assumes "holds b seq h plain"
  shows "GetLogLen (pb_block (lb_buff b)) (pb_length (lb_buff b)) = of_nat (length plain)"
  using assms GetLogLen_head [OF start_magic_is] by (auto simp: holds_def head_of_def)

lemma length_u32: "n < 2 ^ 32 \<Longrightarrow> unat (of_nat n :: u32) = n"
  by (simp add: unat_of_nat take_bit_nat_eq_self)

text \<open>What a buffer holds is written as one record, and the buffer is empty again.\<close>

lemma LB_Flush_memory:
  assumes "memory_ok b" "pb_block (lb_buff b) = record_head g seq h h (length C) pub @ C @ rest"
    "pb_length (lb_buff b) = GetHeaderLen + length C" "is_magic g" "length pub = 64" "C \<noteq> []" "rest \<noteq> []"
  shows "\<exists>b'. LB_Flush hour b = Some (record_bytes g seq h hour pub C, b') \<and> is_empty b' \<and> lb_crypt b' = lb_crypt b \<and>
    lb_is_compress b' = lb_is_compress b \<and> lb_s_seq b' = lb_s_seq b \<and>
    length (pb_block (lb_buff b')) = length (pb_block (lb_buff b))"
proof -
  define b0 where "b0 = b\<lparr>lb_cstream := (if lb_is_compress b then None else lb_cstream b)\<rparr>"
  note blk = assms(2)
  have mem: "memory_ok b" "pb_length (lb_buff b) = 73 + length C"
    "pb_max_length (lb_buff b) = length (pb_block (lb_buff b))" "length pub = 64"
    "length (pb_block (lb_buff b)) < 2 ^ 32"
    using assms by (simp_all add: memory_ok_def GetHeaderLen_def)
  obtain x rest' where rest: "rest = x # rest'" using assms(7) by (cases rest) auto
  have small: "length C < 2 ^ 32" using mem(5) by (simp add: blk)
  have "unat (of_nat (length C) :: u32) \<noteq> 0" using assms(6) length_u32 [OF small] by simp
  then have nz: "(of_nat (length C) :: u32) \<noteq> 0" by (metis unat_0)
  define b1 where "b1 = b0\<lparr>lb_buff := (lb_buff b0)\<lparr>pb_parray := Some (record_head g seq h hour (length C) pub @ C @ rest)\<rparr>\<rparr>"
  have "on_mem (UpdateLogHour hour) b0 = Some b1"
    unfolding b1_def by (rule on_mem_Some) (simp add: b0_def blk UpdateLogHour_head)
  moreover define b2 where "b2 = b1\<lparr>lb_buff := (lb_buff b1)\<lparr>pb_parray := Some (record_head g seq h hour (length C) pub @ C @ [kMagicEnd] @ rest')\<rparr>\<rparr>"
  have "on_mem (SetTailerInfo (pb_length (lb_buff b1))) b1 = Some b2"
    unfolding b2_def
    using poke_over [of "73 + length C" "record_head g seq h hour (length C) pub @ C" "[kMagicEnd]" "[x]" rest'] mem
    by (intro on_mem_Some) (simp add: SetTailerInfo_def b1_def b0_def rest)
  moreover define b3 where "b3 = set_length (74 + length C) b2"
  have b3: "b3 = b2\<lparr>lb_buff := (lb_buff b2)\<lparr>pb_length := 74 + length C, pb_pos := int (74 + length C)\<rparr>\<rparr>"
    unfolding b3_def set_length_def
    using mem rest by (subst PB_Length_simp) (simp_all add: b2_def b1_def b0_def blk)
  have len2: "pb_length (lb_buff b2) + GetTailerLen = 74 + length C"
    using mem by (simp add: b2_def b1_def b0_def GetTailerLen_def)
  ultimately have f: "LB_Flush_record hour b0 = Some b3"
    by (simp add: LB_Flush_record_def len2 b3_def)
  have blk3: "pb_block (lb_buff b3) = record_bytes g seq h hour pub C @ rest'"
    by (simp add: b3 b2_def record_bytes_def)
  have l3: "length (record_bytes g seq h hour pub C) = 74 + length C"
    using mem(4) by (simp add: record_bytes_def)
  have lb3: "length (pb_block (lb_buff b3)) = length (pb_block (lb_buff b))"
    using mem(4) unfolding blk3 by (simp add: l3 blk rest)
  have same: "lb_crypt b3 = lb_crypt b" "lb_is_compress b3 = lb_is_compress b" "lb_s_seq b3 = lb_s_seq b"
    "pb_length (lb_buff b3) = 74 + length C"
    by (simp_all add: b3 b2_def b1_def b0_def)
  have m3: "memory_ok b3"
    using mem(1) lb3 by (simp add: memory_ok_def same) (simp add: b3 b2_def b1_def b0_def)
  obtain b4 where b4: "LB_Clear b3 = Some b4" "is_empty b4" "lb_crypt b4 = lb_crypt b" "lb_is_compress b4 = lb_is_compress b"
    "lb_s_seq b4 = lb_s_seq b" "length (pb_block (lb_buff b4)) = length (pb_block (lb_buff b3))"
    using LB_Clear_memory [OF m3] same l3 blk3 by auto
  have pk: "peek 0 (pb_length (lb_buff b3)) (pb_block (lb_buff b3)) = Some (record_bytes g seq h hour pub C)"
    using peek_at [of 0 "[]" "74 + length C" "record_bytes g seq h hour pub C" rest'] l3 by (simp add: same blk3)
  have "GetLogLen (pb_block (lb_buff b0)) (pb_length (lb_buff b0)) \<noteq> 0"
    using GetLogLen_head [OF assms(4)] mem(2) nz by (simp add: b0_def blk GetHeaderLen_def)
  then have "LB_Flush hour b = Some (record_bytes g seq h hour pub C, b4)"
    using f pk b4(1) by (simp add: LB_Flush_def b0_def [symmetric])
  then show ?thesis using b4 lb3 by (intro exI [of _ b4]) simp
qed

lemma LB_Flush_holds:
  assumes "holds b seq h plain" "plain \<noteq> []" "0 < lb_room b"
  shows "\<exists>b'. LB_Flush hour b = Some (record_bytes (start_magic (lc_is_crypt (lb_crypt b)) (lb_is_compress b)) seq h hour
      (lc_client_pubkey (lb_crypt b)) (cipher (lb_crypt b) plain), b') \<and> is_empty b' \<and> lb_crypt b' = lb_crypt b \<and>
    lb_is_compress b' = lb_is_compress b \<and> lb_s_seq b' = lb_s_seq b \<and>
    length (pb_block (lb_buff b')) = length (pb_block (lb_buff b))"
proof -
  have mem: "memory_ok b" "length (lc_client_pubkey (lb_crypt b)) = 64"
    "pb_max_length (lb_buff b) = length (pb_block (lb_buff b))" "pb_length (lb_buff b) = 73 + length plain"
    using assms(1) by (simp_all add: holds_def memory_ok_def GetHeaderLen_def)
  obtain rest where blk: "pb_block (lb_buff b) = record_head (start_magic (lc_is_crypt (lb_crypt b)) (lb_is_compress b)) seq h h
      (length (cipher (lb_crypt b) plain)) (lc_client_pubkey (lb_crypt b)) @ cipher (lb_crypt b) plain @ rest"
    using assms(1) by (auto simp: holds_def head_of_def)
  have "rest \<noteq> []" using assms(3) mem by (auto simp: lb_room_def blk)
  moreover have "cipher (lb_crypt b) plain \<noteq> []" using assms(2) length_cipher [of "lb_crypt b" plain] by fastforce
  ultimately show ?thesis
    using LB_Flush_memory [OF mem(1) blk _ start_magic_is mem(2)] mem(4) by (simp add: GetHeaderLen_def)
qed

text \<open>A process that ended left its memory in the file. A new buffer over it has the length of the record,
  so that the flush at the start of the next process writes what was held.\<close>

lemma LogBuffer_new_holds:
  assumes "holds b seq h plain" "length (lc_client_pubkey c) = 64"
  shows "\<exists>b'. LogBuffer_new (pb_block (lb_buff b)) (length (pb_block (lb_buff b))) is_compress c s_seq = b' \<and>
    memory_ok b' \<and> pb_block (lb_buff b') = pb_block (lb_buff b) \<and>
    pb_length (lb_buff b') = GetHeaderLen + length plain"
proof -
  define m where "m = pb_block (lb_buff b)"
  obtain rest where blk: "m = head_of b seq h h (length plain) @ cipher (lb_crypt b) plain @ rest"
    using assms(1) by (auto simp: holds_def m_def)
  have mem: "73 < length m" "length m < 2 ^ 32" "73 + length plain \<le> length m"
    using assms(1) holds_fits [OF assms(1)] by (simp_all add: holds_def memory_ok_def m_def GetHeaderLen_def)
  have g: "is_magic (m ! 0)" using start_magic_is by (simp add: blk head_of_def record_head_def)
  have l: "GetLogLen m (length m) = of_nat (length plain)"
    unfolding blk head_of_def using mem by (intro GetLogLen_head start_magic_is) (simp add: blk head_of_def GetHeaderLen_def)
  have u: "unat (of_nat (length plain) :: u32) = length plain" using mem by (intro length_u32) simp
  show ?thesis
    unfolding m_def [symmetric] LogBuffer_new_def LB_Fix_def
    using mem g l u assms(2)
    by (auto simp: Fix_def PB_Attach_def PB_Reset_def GetHeaderLen_def set_length_def PB_Length_def PB_Seek_def Let_def
          memory_ok_def pb_block_def)
qed

section \<open>Sequences of lines\<close>

text \<open>The text that a sequence of lines makes of the compressor, or without it, as long as there is room
  for it; the buffer plays no part.\<close>

fun stream :: "'z zlib \<Rightarrow> bool \<Rightarrow> 'z option \<Rightarrow> nat \<Rightarrow> bytes list \<Rightarrow> bytes option" where
  "stream env cz z avail [] = Some []"
| "stream env cz z avail (d # ds) =
     (if d = [] \<or> 2 ^ 32 \<le> length d then None
      else if cz
      then (case z of
              None \<Rightarrow> None
            | Some z0 \<Rightarrow>
                (case z_deflate env z0 d avail of
                   (ok, out, z') \<Rightarrow>
                     if ok then map_option ((@) out) (stream env cz (Some z') (avail - length out) ds) else None))
      else if length d \<le> avail then map_option ((@) d) (stream env cz z (avail - length d) ds)
      else None)"

fun LB_Writes :: "'z zlib \<Rightarrow> (u8 \<times> bytes) list \<Rightarrow> 'z LogBuffer \<Rightarrow> 'z LogBuffer option" where
  "LB_Writes env [] b = Some b"
| "LB_Writes env ((hour, d) # ls) b =
     (case LB_Write env hour d b of Some (True, b') \<Rightarrow> LB_Writes env ls b' | _ \<Rightarrow> None)"

lemma stream_takes_line:
  assumes "stream env (lb_is_compress b) (lb_cstream b) (lb_room b) (d # ds) = Some s"
  shows "takes_line env d b \<and> (\<exists>s'. s = fst (appended env d b) @ s' \<and>
    stream env (lb_is_compress b) (snd (appended env d b)) (lb_room b - length (fst (appended env d b))) ds = Some s')"
  using assms
  by (auto simp: takes_line_def appended_def split: if_splits option.splits prod.splits)

lemma LB_Writes_holds:
  assumes "holds b seq h plain" "z_fits env"
    "stream env (lb_is_compress b) (lb_cstream b) (lb_room b) (map snd ls) = Some s"
  shows "\<exists>b'. LB_Writes env ls b = Some b' \<and> holds b' seq h (plain @ s) \<and> lb_crypt b' = lb_crypt b \<and>
    lb_is_compress b' = lb_is_compress b \<and> length (pb_block (lb_buff b')) = length (pb_block (lb_buff b))"
  using assms(1,3)
proof (induction ls arbitrary: b plain s)
  case (Cons x ls)
  obtain hour d where x: "x = (hour, d)" by (cases x)
  have st: "stream env (lb_is_compress b) (lb_cstream b) (lb_room b) (d # map snd ls) = Some s"
    using Cons.prems(2) x by (simp only: list.map snd_conv)
  obtain s' where s': "takes_line env d b" "s = fst (appended env d b) @ s'"
    "stream env (lb_is_compress b) (snd (appended env d b)) (lb_room b - length (fst (appended env d b))) (map snd ls) = Some s'"
    using stream_takes_line [OF st] by blast
  obtain b1 where b1: "LB_Write env hour d b = Some (True, b1)" "holds b1 seq h (plain @ fst (appended env d b))"
    "lb_crypt b1 = lb_crypt b" "lb_is_compress b1 = lb_is_compress b" "lb_cstream b1 = snd (appended env d b)"
    "length (pb_block (lb_buff b1)) = length (pb_block (lb_buff b))"
    using LB_Write_holds [OF Cons.prems(1) s'(1) assms(2), of hour] by blast
  have "lb_room b1 = lb_room b - length (fst (appended env d b))"
    using Cons.prems(1) b1(2,6) by (simp add: lb_room_def holds_def memory_ok_def)
  then show ?case using Cons.IH [OF b1(2)] s'(2,3) b1 x by auto
qed simp

text \<open>From an empty buffer: the first line begins the record.\<close>

lemma LB_Write_first:
  assumes "is_empty b" "lb_is_compress b \<longrightarrow> z_init env \<noteq> None" "d \<noteq> []"
  shows "\<exists>b1. LB_Write env hour d b = LB_Write env hour d b1 \<and>
    holds b1 (fst (GetSeq (lb_is_compress b) (lb_s_seq b))) hour [] \<and>
    lb_crypt b1 = (lb_crypt b)\<lparr>lc_seq := fst (GetSeq (lb_is_compress b) (lb_s_seq b))\<rparr> \<and>
    lb_is_compress b1 = lb_is_compress b \<and>
    lb_cstream b1 = (if lb_is_compress b then z_init env else lb_cstream b) \<and>
    length (pb_block (lb_buff b1)) = length (pb_block (lb_buff b))"
proof -
  obtain b1 where b1: "LB_Reset env hour b = Some (True, b1)"
    "holds b1 (fst (GetSeq (lb_is_compress b) (lb_s_seq b))) hour []"
    "lb_crypt b1 = (lb_crypt b)\<lparr>lc_seq := fst (GetSeq (lb_is_compress b) (lb_s_seq b))\<rparr>"
    "lb_is_compress b1 = lb_is_compress b" "lb_cstream b1 = (if lb_is_compress b then z_init env else lb_cstream b)"
    "length (pb_block (lb_buff b1)) = length (pb_block (lb_buff b))"
    using LB_Reset_holds [OF assms(1,2)] by blast
  have "pb_length (lb_buff b1) \<noteq> 0" using b1(2) by (simp add: holds_def GetHeaderLen_def)
  then have "LB_Write env hour d b = LB_Write env hour d b1"
    using assms(1,3) b1(1) by (simp add: LB_Write_def is_empty_def)
  then show ?thesis using b1 by blast
qed

lemma written_record:
  assumes "is_empty b" "lb_is_compress b \<longrightarrow> z_init env \<noteq> None" "z_fits env"
    "stream env (lb_is_compress b) (if lb_is_compress b then z_init env else lb_cstream b)
       (length (pb_block (lb_buff b)) - GetHeaderLen) (map snd ((h, d) # ls)) = Some s"
    "s \<noteq> []" "GetHeaderLen + length s < length (pb_block (lb_buff b))"
  shows "\<exists>b1 b2. LB_Writes env ((h, d) # ls) b = Some b1 \<and>
    LB_Flush hour b1 = Some (record_bytes (start_magic (lc_is_crypt (lb_crypt b)) (lb_is_compress b))
      (fst (GetSeq (lb_is_compress b) (lb_s_seq b))) h hour (lc_client_pubkey (lb_crypt b)) (cipher (lb_crypt b) s), b2) \<and>
    is_empty b2"
proof -
  have d: "d \<noteq> []" using assms(4) by auto
  obtain b0 where b0: "LB_Write env h d b = LB_Write env h d b0"
    "holds b0 (fst (GetSeq (lb_is_compress b) (lb_s_seq b))) h []"
    "lb_crypt b0 = (lb_crypt b)\<lparr>lc_seq := fst (GetSeq (lb_is_compress b) (lb_s_seq b))\<rparr>"
    "lb_is_compress b0 = lb_is_compress b" "lb_cstream b0 = (if lb_is_compress b then z_init env else lb_cstream b)"
    "length (pb_block (lb_buff b0)) = length (pb_block (lb_buff b))"
    using LB_Write_first [OF assms(1,2) d, of h] by blast
  have "lb_room b0 = length (pb_block (lb_buff b)) - GetHeaderLen"
    using b0(2,6) by (simp add: lb_room_def holds_def memory_ok_def)
  then have st: "stream env (lb_is_compress b0) (lb_cstream b0) (lb_room b0) (map snd ((h, d) # ls)) = Some s"
    using assms(4) b0(4,5) by simp
  obtain b1 where b1: "LB_Writes env ((h, d) # ls) b0 = Some b1"
    "holds b1 (fst (GetSeq (lb_is_compress b) (lb_s_seq b))) h s" "lb_crypt b1 = lb_crypt b0"
    "lb_is_compress b1 = lb_is_compress b0" "length (pb_block (lb_buff b1)) = length (pb_block (lb_buff b0))"
    using LB_Writes_holds [OF b0(2) assms(3) st] by auto
  have "0 < lb_room b1" using b1(2,5) b0(6) assms(6) by (simp add: lb_room_def holds_def memory_ok_def)
  from LB_Flush_holds [OF b1(2) assms(5) this]
  obtain b2 where b2: "LB_Flush hour b1 = Some (record_bytes (start_magic (lc_is_crypt (lb_crypt b1)) (lb_is_compress b1))
      (fst (GetSeq (lb_is_compress b) (lb_s_seq b))) h hour (lc_client_pubkey (lb_crypt b1)) (cipher (lb_crypt b1) s), b2)"
    "is_empty b2"
    by blast
  moreover have "cipher (lb_crypt b1) s = cipher (lb_crypt b) s" by (simp add: b1(3) b0(3) cipher_def)
  moreover have "LB_Writes env ((h, d) # ls) b = Some b1" using b1(1) b0(1) by simp
  ultimately show ?thesis using b1(3,4) b0(3,4) by auto
qed

section \<open>A small buffer\<close>

text \<open>Two hundred bytes, a compressor that copies, and the key \<open>(1, 2, 3, 4)\<close>; a buffer of the same kind
  without a key that holds three bytes in front of \<open>n\<close> free ones.\<close>

definition ex_zlib :: "unit zlib" where
  "ex_zlib = \<lparr>z_init = Some (), z_deflate = (\<lambda>_ d n. (length d \<le> n, take n d, ()))\<rparr>"

definition ex_crypt :: "bool \<Rightarrow> LogCrypt" where
  "ex_crypt is_crypt = \<lparr>lc_seq = 0, lc_tea_key = (1, 2, 3, 4), lc_client_pubkey = replicate 64 7, lc_is_crypt = is_crypt\<rparr>"

definition ex_buffer :: "bool \<Rightarrow> unit LogBuffer" where
  "ex_buffer is_compress = LogBuffer_new (replicate 200 0) 200 is_compress (ex_crypt True) 0"

definition ex_holding :: "nat \<Rightarrow> unit LogBuffer" where
  "ex_holding n =
     \<lparr>lb_buff = \<lparr>pb_parray = Some (record_head 9 1 10 10 3 (replicate 64 7) @ [1, 2, 3] @ replicate n 0),
                pb_pos = 76, pb_length = 76, pb_max_length = 76 + n\<rparr>,
      lb_is_compress = True, lb_cstream = Some (), lb_crypt = ex_crypt False, lb_remain_nocrypt_len = 0, lb_s_seq = 1\<rparr>"

lemma ex_zlib: "z_fits ex_zlib" "z_init ex_zlib = Some ()" "z_deflate ex_zlib z d n = (length d \<le> n, take n d, ())"
  by (simp_all add: ex_zlib_def z_fits_def)

lemma ex_crypt [simp]:
  "lc_is_crypt (ex_crypt c) = c" "lc_tea_key (ex_crypt c) = (1, 2, 3, 4)" "lc_client_pubkey (ex_crypt c) = replicate 64 7"
  by (simp_all add: ex_crypt_def)

lemma ex_buffer:
  "is_empty (ex_buffer c)" "lb_is_compress (ex_buffer c) = c" "lb_crypt (ex_buffer c) = ex_crypt True"
  "length (pb_block (lb_buff (ex_buffer c))) = 200" "lb_s_seq (ex_buffer c) = 0"
  by (simp_all add: ex_buffer_def LogBuffer_new_def LB_Fix_def Fix_def PB_Attach_def PB_Reset_def pb_block_def
      is_magic_def kMagicAsyncStart_def kMagicSyncStart_def kMagicAsyncNoCryptStart_def kMagicSyncNoCryptStart_def
      GetHeaderLen_def set_length_def PB_Length_def PB_Seek_def Let_def is_empty_def memory_ok_def ex_crypt_def)

lemma ex_holding:
  "n < 1000 \<Longrightarrow> holds (ex_holding n) 1 10 [1, 2, 3]" "lb_room (ex_holding n) = n"
  by (simp_all add: holds_def ex_holding_def memory_ok_def pb_block_def GetHeaderLen_def ex_crypt_def left_over_def
      head_of_def start_magic_def kMagicAsyncNoCryptStart_def cipher_def lb_room_def numeral_3_eq_3)

text \<open>C35. However the log is cut into lines, the buffer holds the encryption of the whole text that the
  compressor makes of them (or of the lines themselves), as if it had come at once; with the
  terminating byte added, the flush writes it as one record, with the hours of the first line and of
  the flush, and empties the buffer.\<close>

theorem log_written_as_one:
  assumes "is_empty b" "lb_is_compress b \<longrightarrow> z_init env \<noteq> None" "z_fits env"
    "stream env (lb_is_compress b) (if lb_is_compress b then z_init env else lb_cstream b)
       (length (pb_block (lb_buff b)) - GetHeaderLen) (map snd ((h, d) # ls)) = Some s"
    "s \<noteq> []" "GetHeaderLen + length s < length (pb_block (lb_buff b))"
  shows "\<exists>b1 b2. LB_Writes env ((h, d) # ls) b = Some b1 \<and>
    LB_Flush hour b1 = Some (record_bytes (start_magic (lc_is_crypt (lb_crypt b)) (lb_is_compress b))
      (fst (GetSeq (lb_is_compress b) (lb_s_seq b))) h hour (lc_client_pubkey (lb_crypt b)) (cipher (lb_crypt b) s), b2) \<and>
    is_empty b2"
  using assms by (rule written_record)

lemma log_written_as_one_witness:
  "\<exists>b1 b2. LB_Writes ex_zlib [(10, [1, 2, 3]), (11, [4, 5])] (ex_buffer True) = Some b1 \<and>
    LB_Flush 12 b1 = Some (record_bytes 7 1 10 12 (replicate 64 7) (cipher (ex_crypt True) [1, 2, 3, 4, 5]), b2) \<and>
    is_empty b2"
  using log_written_as_one [of "ex_buffer True" ex_zlib 10 "[1, 2, 3]" "[(11, [4, 5])]" "[1, 2, 3, 4, 5]" 12]
  by (simp add: ex_zlib ex_buffer GetHeaderLen_def GetSeq_def start_magic_def kMagicAsyncStart_def ex_crypt_def)

text \<open>C38. A process that ends loses nothing of what its buffer held: a buffer made over the same memory,
  whatever its keys are, flushes the record with the text and the public key it was begun with.\<close>

theorem log_survives_restart:
  fixes b :: "'z LogBuffer"
  assumes "holds b seq h plain" "plain \<noteq> []" "0 < lb_room b" "length (lc_client_pubkey c) = 64"
  shows "\<exists>b'. LB_Flush hour (LogBuffer_new (pb_block (lb_buff b)) (length (pb_block (lb_buff b))) is_compress c s_seq :: 'z LogBuffer) =
    Some (record_bytes (start_magic (lc_is_crypt (lb_crypt b)) (lb_is_compress b)) seq h hour
      (lc_client_pubkey (lb_crypt b)) (cipher (lb_crypt b) plain), b')"
proof -
  define b1 :: "'z LogBuffer" where "b1 = LogBuffer_new (pb_block (lb_buff b)) (length (pb_block (lb_buff b))) is_compress c s_seq"
  have b1: "memory_ok b1" "pb_block (lb_buff b1) = pb_block (lb_buff b)" "pb_length (lb_buff b1) = GetHeaderLen + length plain"
    using LogBuffer_new_holds [OF assms(1,4), of is_compress s_seq, where ?'b = 'z] unfolding b1_def by blast+
  have mem: "length (lc_client_pubkey (lb_crypt b)) = 64"
    "pb_max_length (lb_buff b) = length (pb_block (lb_buff b))" "pb_length (lb_buff b) = 73 + length plain"
    using assms(1) by (simp_all add: holds_def memory_ok_def GetHeaderLen_def)
  obtain rest where blk: "pb_block (lb_buff b1) = record_head (start_magic (lc_is_crypt (lb_crypt b)) (lb_is_compress b)) seq h h
      (length (cipher (lb_crypt b) plain)) (lc_client_pubkey (lb_crypt b)) @ cipher (lb_crypt b) plain @ rest"
    using assms(1) b1(2) by (auto simp: holds_def head_of_def)
  have "rest \<noteq> []" using assms(3) mem blk by (auto simp: lb_room_def b1(2) simp flip: b1(2))
  moreover have "cipher (lb_crypt b) plain \<noteq> []" using assms(2) length_cipher [of "lb_crypt b" plain] by fastforce
  ultimately show ?thesis
    using LB_Flush_memory [OF b1(1) blk _ start_magic_is mem(1), of hour] b1(3) unfolding b1_def by auto
qed

lemma log_survives_restart_witness:
  "holds (ex_holding 20) 1 10 [1, 2, 3] \<and>
    (\<exists>b'. LB_Flush 12 (LogBuffer_new (pb_block (lb_buff (ex_holding 20)))
        (length (pb_block (lb_buff (ex_holding 20)))) True (ex_crypt True) 0 :: unit LogBuffer) =
      Some (record_bytes 9 1 10 12 (replicate 64 7) [1, 2, 3], b'))"
  using log_survives_restart [of "ex_holding 20" 1 10 "[1, 2, 3]" "ex_crypt True" 12 True 0] ex_holding [of 20]
  by (simp add: ex_holding_def ex_crypt_def start_magic_def kMagicAsyncNoCryptStart_def cipher_def)

lemma PB_Write_at_length:
  assumes "PB_Write_at d pos p = Some p'"
  shows "length (pb_block p') = length (pb_block p)"
proof -
  define n where "n = min (length d) (nat ((int (pb_max_length p) - pos) mod 2 ^ 64))"
  have "length (mem_write (nat pos) (take n d) (pb_block p)) = length (pb_block p)"
    if "nat pos + n \<le> length (pb_block p)"
    using that by (intro length_mem_write) (simp add: n_def)
  then show ?thesis
    using assms unfolding PB_Write_at_def n_def [symmetric] by (auto simp: Let_def split: if_splits)
qed

lemma PB_Write_length: "PB_Write d p = Some p' \<Longrightarrow> length (pb_block p') = length (pb_block p)"
  using PB_Write_at_length [of d "pb_pos p" p]
  by (auto simp: PB_Write_def PB_Seek_def Let_def pb_block_def split: option.splits)

text \<open>A line longer than the room is cut when it is copied, but the encryption is told its whole length
  and reads behind the memory.\<close>

lemma long_line_overread:
  fixes b :: "'z LogBuffer"
  assumes "holds b seq h plain" "\<not> lb_is_compress b" "lb_room b < length d"
  shows "LB_Write env hour d b = None"
proof -
  have mem: "pb_max_length (lb_buff b) = length (pb_block (lb_buff b))" "pb_length (lb_buff b) = GetHeaderLen + length plain"
    "length (pb_block (lb_buff b)) < 2 ^ 32" "pb_pos (lb_buff b) = int (pb_length (lb_buff b))"
    "GetHeaderLen + length plain \<le> length (pb_block (lb_buff b))"
    using assms(1) holds_fits [OF assms(1)] by (simp_all add: holds_def memory_ok_def)
  have d: "d \<noteq> []" using assms(3) by auto
  have enc: "LB_encrypt (pb_length (lb_buff b)) (length d) b2 = None"
    if "length (pb_block (lb_buff b2)) = length (pb_block (lb_buff b))" for b2 :: "'z LogBuffer"
    using that assms(3) mem by (auto simp: LB_encrypt_def peek_def lb_room_def Let_def)
  have "length (pb_block (lb_buff b1)) = length (pb_block (lb_buff b))"
    if app: "LB_append env d b = Some (True, n, b1)" for n b1
  proof -
    obtain p where "PB_Write d (lb_buff b) = Some p" "b1 = b\<lparr>lb_buff := p\<rparr>"
      using app assms(2) by (cases "PB_Write d (lb_buff b)") (auto simp: LB_append_def Let_def)
    then show ?thesis using PB_Write_length by simp
  qed
  moreover have "LB_append env d b = None \<or> (\<exists>b1. LB_append env d b = Some (True, length d, b1))"
    using assms(2) by (auto simp: LB_append_def Let_def split: option.splits)
      (cases "PB_Write d (lb_buff b)"; simp)
  ultimately show ?thesis
    using enc d mem(2) by (auto simp: LB_Write_def GetHeaderLen_def)
qed

text \<open>C40. A record that fills the memory cannot be flushed: its terminating byte is written behind the
  memory. The compressor may fill the memory, since it is given all of the rest.\<close>

theorem full_buffer_overrun:
  fixes b :: "'z LogBuffer"
  assumes "holds b seq h plain" "plain \<noteq> []" "lb_room b = 0"
  shows "LB_Flush hour b = None"
proof -
  have mem: "pb_max_length (lb_buff b) = length (pb_block (lb_buff b))" "pb_length (lb_buff b) = GetHeaderLen + length plain"
    "GetHeaderLen + length plain \<le> length (pb_block (lb_buff b))" "length (pb_block (lb_buff b)) < 2 ^ 32"
    using assms(1) holds_fits [OF assms(1)] by (simp_all add: holds_def memory_ok_def)
  have "unat (of_nat (length plain) :: u32) \<noteq> 0" using assms(2) mem by (subst length_u32) auto
  then have nz: "(of_nat (length plain) :: u32) \<noteq> 0" by (metis unat_0)
  have "LB_Flush_record hour b0 = None" if "lb_buff b0 = lb_buff b" for b0 :: "'z LogBuffer"
    using that assms(3) mem
    by (auto simp: LB_Flush_record_def on_mem_def UpdateLogHour_def SetTailerInfo_def poke_def lb_room_def)
  then show ?thesis using holds_len [OF assms(1)] nz by (simp add: LB_Flush_def Let_def)
qed

lemma full_buffer_overrun_witness: "holds (ex_holding 0) 1 10 [1, 2, 3] \<and> LB_Flush 12 (ex_holding 0) = None"
  using full_buffer_overrun [of "ex_holding 0" 1 10 "[1, 2, 3]" 12] ex_holding [of 0] by simp

end
