(* ===== verification/Log_Decoder.thy ===== *)
theory Log_Decoder
  imports Log_Buffer
begin

text \<open>
  Reading logs: the decoder of log/crypt/decode_log_file_c_impl/decode_log_file.c, which finds the
  records in a file, undoes the encryption and the compression and reports gaps, and
  \<open>GetPeriodLogs\<close> of log/crypt/log_crypt.cc, which finds the part of a file for given hours.

  zlib and the key agreement are parameters again. Files are smaller than 2 GB, since the decoder
  returns an offset as an \<open>int\<close>. Its output is a list of items: what it decodes, and the
  messages it inserts.
\<close>

section \<open>The decoder\<close>

definition MAGIC_END :: u8 where "MAGIC_END = 0"
definition BASE_KEY :: u8 where "BASE_KEY = 0xCC"

definition tea_unround :: "u32 \<Rightarrow> tea_key \<Rightarrow> u32 \<times> u32 \<Rightarrow> u32 \<times> u32" where
  "tea_unround sm k v =
     (let (k0, k1, k2, k3) = k; (v0, v1) = v;
          v1' = v1 - tea_mix v0 sm k2 k3; v0' = v0 - tea_mix v1' sm k0 k1
      in (v0', v1'))"

fun tea_unrounds :: "nat \<Rightarrow> u32 \<Rightarrow> tea_key \<Rightarrow> u32 \<times> u32 \<Rightarrow> u32 \<times> u32" where
  "tea_unrounds 0 sm k v = v"
| "tea_unrounds (Suc n) sm k v = tea_unrounds n (sm - tea_delta) k (tea_unround sm k v)"

definition teaDecrypt :: "tea_key \<Rightarrow> u32 \<times> u32 \<Rightarrow> u32 \<times> u32" where
  "teaDecrypt k v = tea_unrounds 16 (push_bit 4 tea_delta) k v"

text \<open>The lengths of the header and of the key in it, by the magic number.\<close>

definition header_lens :: "u8 \<Rightarrow> (nat \<times> nat) option" where
  "header_lens c =
     (if c = 1 \<or> c = 2 then Some (5, 0)
      else if c = 3 \<or> c = 4 \<or> c = 5 then Some (9, 0)
      else if c = 7 \<or> c = 6 \<or> c = 8 \<or> c = 9 then Some (73, 64)
      else None)"

definition rec_length :: "bytes \<Rightarrow> nat \<Rightarrow> nat \<Rightarrow> nat \<Rightarrow> nat" where
  "rec_length buf off h k = unat (rdle32 (drop (off + h - k - 4) buf))"

function isGoodLogBuffer :: "bytes \<Rightarrow> nat \<Rightarrow> nat \<Rightarrow> bool" where
  "isGoodLogBuffer buf off cnt =
     (if off = length buf then True
      else case header_lens (buf ! off) of
        None \<Rightarrow> False
      | Some (h, k) \<Rightarrow>
          if length buf < off + h + 1 + 1 then False
          else let n = rec_length buf off h k in
            if length buf < off + h + n + 1 then False
            else if buf ! (off + h + n) \<noteq> MAGIC_END then False
            else if cnt \<le> 1 then True
            else isGoodLogBuffer buf (off + h + n + 1) (cnt - 1))"
  by pat_completeness auto
termination
  by (relation "measure (\<lambda>(buf, off, cnt). cnt)") auto

declare isGoodLogBuffer.simps [simp del]

definition getLogStartPos :: "bytes \<Rightarrow> nat \<Rightarrow> nat option" where
  "getLogStartPos buf cnt =
     find (\<lambda>off. 1 \<le> buf ! off \<and> buf ! off \<le> 9 \<and> isGoodLogBuffer buf off cnt) [0..<length buf]"

text \<open>What the program is linked with: the text of the private key, the agreement with the key of a client,
  the inflater (its state for an input, a step with the room it is given, its end), and the bytes of
  a new block of memory.\<close>

datatype inflate_code = Z_OK | Z_STREAM_END | Z_BUF_ERROR

record 's dec_env =
  de_privkey :: bytes
  de_shared :: "bytes \<Rightarrow> bytes \<Rightarrow> bytes option"
  de_inflateInit2 :: "bytes \<Rightarrow> 's option"
  de_inflate :: "'s \<Rightarrow> nat \<Rightarrow> inflate_code \<times> bytes \<times> 's"
  de_inflateEnd :: "'s \<Rightarrow> bool"
  de_uninit :: "nat \<Rightarrow> bytes"

text \<open>The ways in which the program ends early, and the items of its output.\<close>

datatype dec_end = Exit nat | OverRead | Hang

datatype item = DecodeError nat | SeqMissing int int | BadMagic nat u8 | Data bytes

text \<open>The private key is read up to its 64th character; the terminating byte of a shorter text is no
  digit.\<close>

definition privKey :: "'s dec_env \<Rightarrow> bytes option" where
  "privKey env = hex_pairs (take 64 (de_privkey env @ replicate 64 0))"

text \<open>The loop over the inflater: the block of \<open>n\<close> bytes grows by \<open>half\<close> when it is full; an
  answer other than \<open>Z_OK\<close> ends it, whatever it is.\<close>

partial_function (option) inflate_loop ::
  "'s dec_env \<Rightarrow> nat \<Rightarrow> 's \<Rightarrow> nat \<Rightarrow> bytes \<Rightarrow> (dec_end + 's \<times> bytes) option" where
  "inflate_loop env half st n out =
     (let n' = (if n \<le> length out then n + half else n) in
      if 2 ^ 32 \<le> n' then Some (Inl OverRead)
      else case de_inflate env st (n' - length out) of
        (code, d, st') \<Rightarrow>
          if code = Z_OK then inflate_loop env half st' n' (out @ d) else Some (Inr (st', out @ d)))"

definition zlibDecompress :: "'s dec_env \<Rightarrow> bytes \<Rightarrow> dec_end + bytes" where
  "zlibDecompress env d =
     (if d = [] then Inr []
      else case de_inflateInit2 env d of
        None \<Rightarrow> Inl (Exit 6)
      | Some st \<Rightarrow>
          (case inflate_loop env (length d div 2) st (length d) [] of
             None \<Rightarrow> Inl Hang
           | Some (Inl e) \<Rightarrow> Inl e
           | Some (Inr (st', out)) \<Rightarrow> if de_inflateEnd env st' then Inr out else Inl (Exit 6)))"

text \<open>\<open>appendBuffer\<close> on the block of a record: the bytes written so far and the size of the
  block.\<close>

definition appendBuffer :: "bytes \<Rightarrow> bytes \<times> nat \<Rightarrow> bytes \<times> nat" where
  "appendBuffer d out =
     (fst out @ d, if snd out - length (fst out) < length d + 1 then snd out + 2 * length d else snd out)"

text \<open>The old format in which every line has its own length.\<close>

function join_lines :: "bytes \<Rightarrow> nat \<Rightarrow> nat \<Rightarrow> nat \<Rightarrow> bytes \<times> nat \<Rightarrow> dec_end + bytes \<times> nat" where
  "join_lines buf start n pos out =
     (if n \<le> pos then Inr out
      else if length buf < start + pos + 2 then Inl OverRead
      else let s = unat (rdle16 (drop (start + pos) buf)) in
        if length buf < start + pos + 2 + s then Inl OverRead
        else join_lines buf start n (pos + s + 2) (appendBuffer (take s (drop (start + pos + 2) buf)) out))"
  by pat_completeness auto
termination
  by (relation "measure (\<lambda>(buf, start, n, pos, out). n - pos)") auto

declare join_lines.simps [simp del]

definition words_of_key :: "bytes \<Rightarrow> tea_key" where
  "words_of_key e = (rdle32 e, rdle32 (drop 4 e), rdle32 (drop 8 e), rdle32 (drop 12 e))"

definition decode_payload :: "'s dec_env \<Rightarrow> u8 \<Rightarrow> u8 \<Rightarrow> bytes \<Rightarrow> nat \<Rightarrow> bytes \<Rightarrow> nat \<Rightarrow> dec_end + bytes" where
  "decode_payload env magic key buf start pub n =
     (let d = take n (drop start buf) in
      if magic = 2 \<or> magic = 4 then zlibDecompress env (map (\<lambda>x. key XOR x) d)
      else if magic = 5 then
        (case join_lines buf start n 0 ([], n) of
           Inl e \<Rightarrow> Inl e
         | Inr (w, blk) \<Rightarrow>
             zlibDecompress env (map (\<lambda>x. key XOR x) w @ de_uninit env (blk - length w)))
      else if magic = 6 \<or> magic = 8 then Inr d
      else if magic = 7 then
        (case privKey env of
           None \<Rightarrow> Inl (Exit 7)
         | Some pri \<Rightarrow>
             (case de_shared env pub pri of
                None \<Rightarrow> Inl (Exit 8)
              | Some e \<Rightarrow> zlibDecompress env (on_blocks (teaDecrypt (words_of_key e)) d)))
      else if magic = 9 then zlibDecompress env d
      else Inr (map (\<lambda>x. key XOR x) d))"

text \<open>One record: the offset of the next one (None for -1), the items written, the number of the last
  record.\<close>

definition decodeBuffer ::
  "'s dec_env \<Rightarrow> bytes \<Rightarrow> nat \<Rightarrow> int \<Rightarrow> dec_end + nat option \<times> item list \<times> int" where
  "decodeBuffer env buf offset lastseq =
     (if length buf \<le> offset then Inr (None, [], lastseq)
      else
        let fixed = (if isGoodLogBuffer buf offset 1 then Some (offset, [])
                     else map_option (\<lambda>p. (offset + p, [DecodeError p])) (getLogStartPos (drop offset buf) 1))
        in case fixed of
          None \<Rightarrow> Inr (None, [], lastseq)
        | Some (off, items) \<Rightarrow>
            (case header_lens (buf ! off) of
               None \<Rightarrow> Inr (None, items @ [BadMagic off (buf ! off)], lastseq)
             | Some (h, k) \<Rightarrow>
                 let n = rec_length buf off h k;
                     old = (buf ! off = 1 \<or> buf ! off = 2);
                     seq = rdle16 (drop (off + h - k - 8) buf);
                     key = BASE_KEY XOR (if old then of_nat n else ucast seq) XOR buf ! off;
                     gap = (\<not> old \<and> seq \<noteq> 0 \<and> seq \<noteq> 1 \<and> lastseq \<noteq> 0 \<and> uint seq \<noteq> lastseq + 1);
                     lastseq' = (if \<not> old \<and> seq \<noteq> 0 then uint seq else lastseq)
                 in case decode_payload env (buf ! off) key buf (off + h) (take k (drop (off + h - k) buf)) n of
                      Inl e \<Rightarrow> Inl e
                    | Inr d \<Rightarrow>
                        Inr (Some (off + h + n + 1),
                             items @ (if gap then [SeqMissing (lastseq + 1) (uint seq - 1)] else []) @ [Data d],
                             lastseq')))"

text \<open>The loop of \<open>parseFile\<close>; the offsets grow.\<close>

lemma decodeBuffer_next: "decodeBuffer env buf offset ls = Inr (Some p, r) \<Longrightarrow> offset < p \<and> offset < length buf"
  by (auto simp: decodeBuffer_def Let_def split: if_splits option.splits sum.splits)

function decode_from :: "'s dec_env \<Rightarrow> bytes \<Rightarrow> nat \<Rightarrow> int \<Rightarrow> dec_end + item list" where
  "decode_from env buf offset lastseq =
     (case decodeBuffer env buf offset lastseq of
        Inl e \<Rightarrow> Inl e
      | Inr (None, items, _) \<Rightarrow> Inr items
      | Inr (Some p, items, ls) \<Rightarrow>
          (case decode_from env buf p ls of Inl e \<Rightarrow> Inl e | Inr rest \<Rightarrow> Inr (items @ rest)))"
  by pat_completeness auto
termination
  by (relation "measure (\<lambda>(env, buf, offset, ls). length buf - offset)")
     (auto dest: decodeBuffer_next)

declare decode_from.simps [simp del]

text \<open>No file is written where no start is found.\<close>

definition parseFile :: "'s dec_env \<Rightarrow> bytes \<Rightarrow> int \<Rightarrow> dec_end + item list option" where
  "parseFile env buf lastseq =
     (case getLogStartPos buf 2 of
        None \<Rightarrow> Inr None
      | Some p \<Rightarrow> (case decode_from env buf p lastseq of Inl e \<Rightarrow> Inl e | Inr items \<Rightarrow> Inr (Some items)))"

section \<open>The hours of a log\<close>

text \<open>\<open>GetPeriodLogs\<close> on the bytes of a file that could be opened: the loop over the positions with
  the variables it keeps, and the range it finds.\<close>

record period =
  pe_begin :: nat
  pe_end :: nat
  pe_found :: bool
  pe_last_hour :: int
  pe_last_pos :: nat

definition period_record :: "int \<Rightarrow> int \<Rightarrow> nat \<Rightarrow> nat \<Rightarrow> int \<Rightarrow> int \<Rightarrow> period \<Rightarrow> period" where
  "period_record bhour ehour before after rb re v =
     (let rb' = (if re < rb then re else rb);
          v1 = (if \<not> pe_found v \<and> (rb' < bhour \<and> bhour \<le> re \<or> pe_last_hour v < bhour \<and> bhour \<le> rb')
                then v\<lparr>pe_begin := before, pe_found := True\<rparr> else v);
          v2 = (if pe_found v1 \<and> rb' < ehour \<and> ehour \<le> re then v1\<lparr>pe_end := after\<rparr> else v1);
          v3 = (if pe_found v2 \<and> pe_last_hour v2 < ehour \<and> ehour \<le> rb' then v2\<lparr>pe_end := pe_last_pos v2\<rparr> else v2)
      in v3\<lparr>pe_last_hour := re, pe_last_pos := after\<rparr>)"

function period_loop :: "bytes \<Rightarrow> int \<Rightarrow> int \<Rightarrow> nat \<Rightarrow> period \<Rightarrow> period" where
  "period_loop file bhour ehour pos v =
     (if length file < pos + GetHeaderLen + GetTailerLen then v
      else
        let head = take GetHeaderLen (drop pos file); n = unat (GetLogLen head GetHeaderLen);
            next = pos + GetHeaderLen + n
        in if \<not> is_magic (head ! 0) \<or> length file < next + 1 \<or> file ! next \<noteq> kMagicEnd
           then period_loop file bhour ehour (pos + 1) v
           else case GetLogHour head GetHeaderLen of
             None \<Rightarrow> v
           | Some (rb, re) \<Rightarrow>
               period_loop file bhour ehour (next + 1) (period_record bhour ehour pos (next + 1) rb re v))"
  by pat_completeness auto
termination
  by (relation "measure (\<lambda>(file, b, e, pos, v). length file - pos)") (auto simp: GetHeaderLen_def GetTailerLen_def)

declare period_loop.simps [simp del]

definition GetPeriodLogs :: "bytes \<Rightarrow> int \<Rightarrow> int \<Rightarrow> (nat \<times> nat) option" where
  "GetPeriodLogs file bhour ehour =
     (if ehour \<le> bhour then None
      else
        let v = period_loop file bhour ehour 0
              \<lparr>pe_begin = 0, pe_end = 0, pe_found = False, pe_last_hour = - 1, pe_last_pos = 0\<rparr>;
            e = (if pe_found v \<and> pe_last_hour v < ehour then length file else pe_end v)
        in if pe_begin v < e then Some (pe_begin v, e) else None)"

section \<open>The cipher is undone\<close>

lemma tea_unround_round: "tea_unround sm k (tea_round sm k v) = v"
  by (cases k; cases v) (simp add: tea_unround_def tea_round_def Let_def)

lemma tea_rounds_snoc:
  "tea_rounds (Suc n) sm k v = tea_round (sm + of_nat (Suc n) * tea_delta) k (tea_rounds n sm k v)"
proof (induction n arbitrary: sm v)
  case (Suc n)
  have "tea_rounds (Suc (Suc n)) sm k v = tea_rounds (Suc n) (sm + tea_delta) k (tea_round (sm + tea_delta) k v)"
    by simp
  also have "\<dots> = tea_round (sm + tea_delta + of_nat (Suc n) * tea_delta) k
      (tea_rounds n (sm + tea_delta) k (tea_round (sm + tea_delta) k v))"
    by (rule Suc)
  finally show ?case by (simp add: algebra_simps)
qed simp

lemma tea_unrounds_rounds: "tea_unrounds n (sm + of_nat n * tea_delta) k (tea_rounds n sm k v) = v"
proof (induction n arbitrary: v)
  case (Suc n)
  have "sm + of_nat (Suc n) * tea_delta - tea_delta = sm + of_nat n * tea_delta" by (simp add: algebra_simps)
  then show ?case unfolding tea_rounds_snoc tea_unrounds.simps tea_unround_round by (simp only: Suc)
qed simp

lemma teaDecrypt_TeaEncrypt: "teaDecrypt k (TeaEncrypt k v) = v"
proof -
  have "push_bit 4 tea_delta = 0 + of_nat 16 * tea_delta" by (simp add: tea_delta_def)
  then show ?thesis unfolding teaDecrypt_def TeaEncrypt_def using tea_unrounds_rounds [of 16 0 k v] by simp
qed

section \<open>Records in a file\<close>

definition new_magic :: "u8 \<Rightarrow> bool" where
  "new_magic g \<longleftrightarrow> g = 6 \<or> g = 7 \<or> g = 8 \<or> g = 9"

lemma length_record_bytes: "length pub = 64 \<Longrightarrow> length (record_bytes g s b e pub d) = 74 + length d"
  by (simp add: record_bytes_def)

lemma drop_at: "drop (length pre + n) (pre @ xs) = drop n xs"
  by simp

text \<open>The fields of a record that begins at an offset.\<close>

lemma record_fields:
  assumes "buf = pre @ record_bytes g s b e pub d @ post" "length pub = 64" "length d < 2 ^ 32"
  shows "buf ! length pre = g" "rec_length buf (length pre) 73 64 = length d"
    "rdle16 (drop (length pre + 73 - 64 - 8) buf) = s" "take 64 (drop (length pre + 73 - 64) buf) = pub"
    "take (length d) (drop (length pre + 73) buf) = d" "buf ! (length pre + 73 + length d) = 0"
proof -
  have r: "record_bytes g s b e pub d = g # le16 s @ [b, e] @ le32 (of_nat (length d)) @ pub @ d @ [0]"
    by (simp add: record_bytes_def record_head_def kMagicEnd_def)
  show "buf ! length pre = g" by (simp add: assms(1) r nth_append)
  have o: "length pre + 73 - 64 - 4 = length pre + 5" "length pre + 73 - 64 - 8 = length pre + 1"
    "length pre + 73 - 64 = length pre + 9"
    by simp_all
  show "rec_length buf (length pre) 73 64 = length d"
    unfolding rec_length_def o assms(1) drop_at using length_u32 [OF assms(3)] by (simp add: r le16_def)
  show "rdle16 (drop (length pre + 73 - 64 - 8) buf) = s"
    unfolding o assms(1) drop_at by (simp add: r)
  show "take 64 (drop (length pre + 73 - 64) buf) = pub"
    unfolding o assms(1) drop_at using assms(2) by (simp add: r le16_def le32_def)
  show "take (length d) (drop (length pre + 73) buf) = d"
    unfolding assms(1) drop_at using assms(2) by (simp add: r le16_def le32_def)
  have "buf ! (length pre + (73 + length d)) = (record_bytes g s b e pub d @ post) ! (73 + length d)"
    unfolding assms(1) by (rule nth_append_length_plus)
  also have "record_bytes g s b e pub d @ post = (g # le16 s @ [b, e] @ le32 (of_nat (length d)) @ pub @ d) @ 0 # post"
    by (simp add: r)
  also have "\<dots> ! (73 + length d) = 0"
    using assms(2) nth_append_length [of "g # le16 s @ [b, e] @ le32 (of_nat (length d)) @ pub @ d" 0 post] by simp
  finally show "buf ! (length pre + 73 + length d) = 0" by (simp add: add.assoc)
qed

lemma header_lens_new: "new_magic g \<Longrightarrow> header_lens g = Some (73, 64)"
  by (auto simp: new_magic_def header_lens_def)

lemma good_record:
  assumes "buf = pre @ record_bytes g s b e pub d @ post" "length pub = 64" "length d < 2 ^ 32" "new_magic g"
    "d \<noteq> []"
  shows "isGoodLogBuffer buf (length pre) cnt \<longleftrightarrow>
    cnt \<le> 1 \<or> isGoodLogBuffer buf (length pre + 74 + length d) (cnt - 1)"
proof -
  note f = record_fields [OF assms(1-3)]
  have l: "length buf = length pre + 74 + length d + length post"
    using assms(2) by (simp add: assms(1) length_record_bytes)
  have z: "buf ! (length d + (length pre + 73)) = 0" using f(6) by (simp add: ac_simps)
  show ?thesis
    using assms(5)
    by (subst isGoodLogBuffer.simps)
       (simp add: f(1,2) z header_lens_new [OF assms(4)] l MAGIC_END_def Let_def ac_simps)
qed

text \<open>A record as it was written: the keys, the kind, the fields of the header, the text before the
  encryption.\<close>

record log_rec =
  lr_crypt :: LogCrypt
  lr_async :: bool
  lr_seq :: u16
  lr_begin :: u8
  lr_end :: u8
  lr_plain :: bytes

definition rec_magic :: "log_rec \<Rightarrow> u8" where
  "rec_magic r = start_magic (lc_is_crypt (lr_crypt r)) (lr_async r)"

definition rec_payload :: "log_rec \<Rightarrow> bytes" where
  "rec_payload r = (if lr_async r then cipher (lr_crypt r) (lr_plain r) else lr_plain r)"

definition rec_file :: "log_rec \<Rightarrow> bytes" where
  "rec_file r = record_bytes (rec_magic r) (lr_seq r) (lr_begin r) (lr_end r) (lc_client_pubkey (lr_crypt r)) (rec_payload r)"

text \<open>The text of a record, which the decoder has to find, and the records it can decode: their public key
  leads to the key they were encrypted with, and what the compressor wrote can be inflated.\<close>

definition rec_text :: "'s dec_env \<Rightarrow> log_rec \<Rightarrow> bytes" where
  "rec_text env r = (if lr_async r then projr (zlibDecompress env (lr_plain r)) else lr_plain r)"

definition keys_agree :: "'s dec_env \<Rightarrow> LogCrypt \<Rightarrow> bool" where
  "keys_agree env c \<longleftrightarrow> (lc_is_crypt c \<longrightarrow> (\<exists>pri e. privKey env = Some pri \<and>
     de_shared env (lc_client_pubkey c) pri = Some e \<and> lc_tea_key c = words_of_key e))"

definition decodable :: "'s dec_env \<Rightarrow> log_rec \<Rightarrow> bool" where
  "decodable env r \<longleftrightarrow> keys_agree env (lr_crypt r) \<and> length (lc_client_pubkey (lr_crypt r)) = 64 \<and>
     lr_plain r \<noteq> [] \<and> length (lr_plain r) < 2 ^ 32 \<and> (lr_async r \<longrightarrow> \<not> isl (zlibDecompress env (lr_plain r)))"

lemma rec_magic_new: "new_magic (rec_magic r)"
  by (simp add: rec_magic_def start_magic_def new_magic_def kMagicAsyncStart_def kMagicAsyncNoCryptStart_def
      kMagicSyncStart_def kMagicSyncNoCryptStart_def)

lemma length_rec_payload [simp]: "length (rec_payload r) = length (lr_plain r)"
  by (simp add: rec_payload_def)

lemma rec_payload_empty [simp]: "rec_payload r = [] \<longleftrightarrow> lr_plain r = []"
  using length_rec_payload [of r] by (metis length_0_conv)

lemma cipher_decrypted: "lc_is_crypt c \<Longrightarrow> on_blocks (teaDecrypt (lc_tea_key c)) (cipher c d) = d"
  by (simp add: cipher_def on_blocks_inverse teaDecrypt_TeaEncrypt)

lemma decode_payload_rec:
  assumes "decodable env r" "buf = pre @ rec_file r @ post"
  shows "decode_payload env (rec_magic r) key buf (length pre + 73) (lc_client_pubkey (lr_crypt r)) (length (lr_plain r)) =
    Inr (rec_text env r)"
proof -
  have d: "take (length (lr_plain r)) (drop (length pre + 73) buf) = rec_payload r"
    using record_fields(5) [of buf pre "rec_magic r" "lr_seq r" "lr_begin r" "lr_end r"
        "lc_client_pubkey (lr_crypt r)" "rec_payload r" post] assms
    by (simp add: rec_file_def decodable_def)
  show ?thesis
  proof (cases "lr_async r")
    case False
    then show ?thesis
      unfolding decode_payload_def Let_def d
      by (simp add: rec_magic_def start_magic_def kMagicSyncStart_def kMagicSyncNoCryptStart_def rec_text_def rec_payload_def)
  next
    case True
    obtain x where x: "zlibDecompress env (lr_plain r) = Inr x"
      using True assms(1) by (cases "zlibDecompress env (lr_plain r)") (auto simp: decodable_def)
    show ?thesis
    proof (cases "lc_is_crypt (lr_crypt r)")
      case c: True
      obtain pri e where e: "privKey env = Some pri" "de_shared env (lc_client_pubkey (lr_crypt r)) pri = Some e"
        "lc_tea_key (lr_crypt r) = words_of_key e"
        using c assms(1) by (auto simp: decodable_def keys_agree_def)
      have "on_blocks (teaDecrypt (words_of_key e)) (rec_payload r) = lr_plain r"
        using c True cipher_decrypted [of "lr_crypt r"] e(3) by (simp add: rec_payload_def)
      then show ?thesis
        unfolding decode_payload_def Let_def d
        using True c e x
        by (simp add: rec_magic_def start_magic_def kMagicAsyncStart_def rec_text_def)
    next
      case c: False
      then show ?thesis
        unfolding decode_payload_def Let_def d
        using True x
        by (simp add: rec_magic_def start_magic_def kMagicAsyncNoCryptStart_def rec_text_def rec_payload_def cipher_def)
    qed
  qed
qed

text \<open>What the decoder has to write for a sequence of records: their texts, and a message before a record
  whose number does not follow the last one.\<close>

definition gap_items :: "int \<Rightarrow> log_rec \<Rightarrow> item list" where
  "gap_items ls r =
     (if lr_seq r \<noteq> 0 \<and> lr_seq r \<noteq> 1 \<and> ls \<noteq> 0 \<and> uint (lr_seq r) \<noteq> ls + 1
      then [SeqMissing (ls + 1) (uint (lr_seq r) - 1)] else [])"

definition next_seq :: "int \<Rightarrow> log_rec \<Rightarrow> int" where
  "next_seq ls r = (if lr_seq r \<noteq> 0 then uint (lr_seq r) else ls)"

fun report_of :: "'s dec_env \<Rightarrow> int \<Rightarrow> log_rec list \<Rightarrow> item list" where
  "report_of env ls [] = []"
| "report_of env ls (r # rs) = gap_items ls r @ [Data (rec_text env r)] @ report_of env (next_seq ls r) rs"

lemma length_rec_file: "length (lc_client_pubkey (lr_crypt r)) = 64 \<Longrightarrow> length (rec_file r) = 74 + length (lr_plain r)"
  by (simp add: rec_file_def length_record_bytes)

lemma decodeBuffer_rec:
  assumes "decodable env r" "buf = pre @ rec_file r @ post"
  shows "decodeBuffer env buf (length pre) ls =
    Inr (Some (length (pre @ rec_file r)), gap_items ls r @ [Data (rec_text env r)], next_seq ls r)"
proof -
  have a: "buf = pre @ record_bytes (rec_magic r) (lr_seq r) (lr_begin r) (lr_end r) (lc_client_pubkey (lr_crypt r))
      (rec_payload r) @ post"
    "length (lc_client_pubkey (lr_crypt r)) = 64" "length (rec_payload r) < 2 ^ 32" "rec_payload r \<noteq> []"
    using assms by (simp_all add: rec_file_def decodable_def)
  note f = record_fields [OF a(1-3)]
  have g: "isGoodLogBuffer buf (length pre) 1" using good_record [OF a(1-3) rec_magic_new a(4)] by simp
  have old: "rec_magic r \<noteq> 1" "rec_magic r \<noteq> 2" using rec_magic_new [of r] by (auto simp: new_magic_def)
  have lt: "length pre < length buf" using a(2) by (simp add: a(1) length_record_bytes)
  have len: "length pre + 73 + length (rec_payload r) + 1 = length (pre @ rec_file r)"
    using a(2) by (simp add: length_rec_file)
  have d: "decode_payload env (rec_magic r) key buf (length pre + 73) (lc_client_pubkey (lr_crypt r)) (length (rec_payload r)) =
      Inr (rec_text env r)" for key
    using decode_payload_rec [OF assms, of key] by simp
  show ?thesis
    unfolding decodeBuffer_def Let_def
    by (simp only: linorder_not_le [THEN iffD2, OF lt] g if_False if_True option.case prod.case f
          header_lens_new [OF rec_magic_new] old simp_thms d sum.case len gap_items_def next_seq_def append_Nil)
qed

lemma decode_from_end: "decode_from env buf (length buf) ls = Inr []"
  by (subst decode_from.simps) (simp add: decodeBuffer_def)

lemma decode_from_recs:
  assumes "\<forall>r \<in> set rs. decodable env r" "buf = pre @ concat (map rec_file rs)"
  shows "decode_from env buf (length pre) ls = Inr (report_of env ls rs)"
  using assms
proof (induction rs arbitrary: pre ls)
  case Nil
  then show ?case using decode_from_end [of env buf] by simp
next
  case (Cons r rs)
  have "decodeBuffer env buf (length pre) ls =
      Inr (Some (length (pre @ rec_file r)), gap_items ls r @ [Data (rec_text env r)], next_seq ls r)"
    using Cons.prems by (intro decodeBuffer_rec [where post = "concat (map rec_file rs)"]) simp_all
  moreover have "decode_from env buf (length (pre @ rec_file r)) (next_seq ls r) = Inr (report_of env (next_seq ls r) rs)"
    using Cons.prems by (intro Cons.IH) simp_all
  ultimately show ?case by (subst decode_from.simps) simp
qed

lemma good_recs:
  assumes "\<forall>r \<in> set rs. decodable env r" "buf = pre @ concat (map rec_file rs)"
  shows "isGoodLogBuffer buf (length pre) cnt"
  using assms
proof (induction rs arbitrary: pre cnt)
  case Nil
  then show ?case by (subst isGoodLogBuffer.simps) simp
next
  case (Cons r rs pre cnt)
  have a: "buf = pre @ record_bytes (rec_magic r) (lr_seq r) (lr_begin r) (lr_end r) (lc_client_pubkey (lr_crypt r))
      (rec_payload r) @ concat (map rec_file rs)"
    "length (lc_client_pubkey (lr_crypt r)) = 64" "length (rec_payload r) < 2 ^ 32" "rec_payload r \<noteq> []"
    using Cons.prems by (simp_all add: decodable_def flip: rec_file_def)
  have "isGoodLogBuffer buf (length (pre @ rec_file r)) (cnt - 1)"
    using Cons.prems by (intro Cons.IH) simp_all
  moreover have "length (pre @ rec_file r) = length pre + 74 + length (rec_payload r)"
    using a(2) by (simp add: length_rec_file)
  ultimately show ?case using good_record [OF a(1-3) rec_magic_new a(4), of cnt] by (simp add: add.assoc)
qed

lemma find_first: "P x \<Longrightarrow> find P (x # xs) = Some x"
  by simp

lemma recs_decoded:
  assumes "rs \<noteq> []" "\<forall>r \<in> set rs. decodable env r"
  shows "parseFile env (concat (map rec_file rs)) lastseq = Inr (Some (report_of env lastseq rs))"
proof -
  define buf where "buf = concat (map rec_file rs)"
  obtain r rs' where rs: "rs = r # rs'" using assms(1) by (cases rs) auto
  have r: "buf = [] @ record_bytes (rec_magic r) (lr_seq r) (lr_begin r) (lr_end r) (lc_client_pubkey (lr_crypt r))
      (rec_payload r) @ concat (map rec_file rs')"
    by (simp add: buf_def rs rec_file_def)
  have m: "buf ! 0 = rec_magic r" by (simp add: r record_bytes_def record_head_def)
  have "0 < length buf" by (simp add: r record_bytes_def record_head_def)
  then have idx: "[0..<length buf] = 0 # [1..<length buf]" by (simp add: upt_conv_Cons)
  have "1 \<le> buf ! 0 \<and> buf ! 0 \<le> 9 \<and> isGoodLogBuffer buf 0 2"
    using rec_magic_new [of r] good_recs [OF assms(2), of buf "[]" 2] unfolding m by (auto simp: new_magic_def buf_def)
  then have "getLogStartPos buf 2 = Some 0"
    unfolding getLogStartPos_def idx by (rule find_first)
  then show ?thesis
    using decode_from_recs [OF assms(2), of buf "[]" lastseq] by (simp add: parseFile_def flip: buf_def)
qed

definition begin_hour :: "log_rec \<Rightarrow> int" where "begin_hour r = sint (lr_begin r)"
definition end_hour :: "log_rec \<Rightarrow> int" where "end_hour r = sint (lr_end r)"

definition well_formed :: "log_rec \<Rightarrow> bool" where
  "well_formed r \<longleftrightarrow> length (lc_client_pubkey (lr_crypt r)) = 64 \<and> length (lr_plain r) < 2 ^ 32"

section \<open>A small decoder\<close>

text \<open>The agreement gives the key \<open>(1, 2, 3, 4)\<close>, and the inflater copies its input.\<close>

definition ex_denv :: "bytes dec_env" where
  "ex_denv = \<lparr>de_privkey = replicate 64 48,
     de_shared = (\<lambda>_ _. Some [1, 0, 0, 0, 2, 0, 0, 0, 3, 0, 0, 0, 4, 0, 0, 0]),
     de_inflateInit2 = Some,
     de_inflate = (\<lambda>st n. (if length st \<le> n then Z_BUF_ERROR else Z_OK, take n st, drop n st)),
     de_inflateEnd = (\<lambda>_. True), de_uninit = (\<lambda>n. replicate n 0)\<rparr>"

definition ex_rec :: "bool \<Rightarrow> u16 \<Rightarrow> u8 \<Rightarrow> u8 \<Rightarrow> bytes \<Rightarrow> log_rec" where
  "ex_rec c seq bh eh d = \<lparr>lr_crypt = ex_crypt c, lr_async = True, lr_seq = seq, lr_begin = bh, lr_end = eh, lr_plain = d\<rparr>"

lemma ex_keys: "keys_agree ex_denv (ex_crypt c)"
proof -
  have "hex_pairs (replicate (2 * n) 48) = Some (replicate n 0)" for n
    by (induction n) (simp_all add: hex_value_def)
  from this [of 32] have "privKey ex_denv = Some (replicate 32 0)"
    by (simp add: privKey_def ex_denv_def)
  moreover have "words_of_key [1, 0, 0, 0, 2, 0, 0, 0, 3, 0, 0, 0, 4, 0, 0, 0] = (1, 2, 3, 4)"
    by (simp add: words_of_key_def)
  moreover have "de_shared ex_denv pub pri = Some [1, 0, 0, 0, 2, 0, 0, 0, 3, 0, 0, 0, 4, 0, 0, 0]" for pub pri
    by (simp add: ex_denv_def)
  ultimately show ?thesis by (simp add: keys_agree_def)
qed

lemma ex_inflates:
  assumes "d \<noteq> []" "length d < 2 ^ 32"
  shows "zlibDecompress ex_denv d = Inr d"
proof -
  have "inflate_loop ex_denv (length d div 2) d (length d) [] = Some (Inr ([], d))"
    using assms by (subst inflate_loop.simps) (simp add: ex_denv_def)
  then show ?thesis using assms(1) by (simp add: zlibDecompress_def) (simp add: ex_denv_def)
qed

lemma ex_decodable: "d \<noteq> [] \<Longrightarrow> length d < 2 ^ 32 \<Longrightarrow> decodable ex_denv (ex_rec c seq bh eh d)"
  by (simp add: decodable_def ex_rec_def ex_keys ex_inflates)

lemma ex_rec [simp]:
  "lr_seq (ex_rec c seq bh eh d) = seq" "lr_plain (ex_rec c seq bh eh d) = d" "lr_crypt (ex_rec c seq bh eh d) = ex_crypt c"
  "rec_text env (ex_rec c seq bh eh d) = projr (zlibDecompress env d)" "well_formed (ex_rec c seq bh eh d) \<longleftrightarrow> length d < 2 ^ 32"
  "begin_hour (ex_rec c seq bh eh d) = sint bh" "end_hour (ex_rec c seq bh eh d) = sint eh"
  by (simp_all add: ex_rec_def rec_text_def well_formed_def begin_hour_def end_hour_def)

text \<open>C37. A file of records, of whatever kinds and in whatever order, is decoded into the texts of the
  records in their order; the only other items are the messages before the records whose numbers do
  not follow each other.\<close>

theorem log_file_decoded:
  assumes "rs \<noteq> []" "\<forall>r \<in> set rs. decodable env r"
  shows "parseFile env (concat (map rec_file rs)) lastseq = Inr (Some (report_of env lastseq rs))"
  using assms by (rule recs_decoded)

lemma log_file_decoded_witness:
  "parseFile ex_denv (rec_file (ex_rec True 3 10 10 [1, 2, 3]) @ rec_file (ex_rec False 6 11 11 [4])) 0 =
    Inr (Some [Data [1, 2, 3], SeqMissing 4 5, Data [4]])"
  using log_file_decoded [of "[ex_rec True 3 10 10 [1, 2, 3], ex_rec False 6 11 11 [4]]" ex_denv 0]
  by (simp add: ex_decodable gap_items_def next_seq_def ex_inflates)

text \<open>C36. What was logged is what is read: the lines written to a compressing buffer, however they are cut,
  and flushed into a file, are decoded into the inflation of the stream that the compressor made of
  them, if the keys of the two sides agree.\<close>

theorem log_roundtrip:
  assumes "is_empty b" "lb_is_compress b" "z_init env \<noteq> None" "z_fits env"
    "stream env True (z_init env) (length (pb_block (lb_buff b)) - GetHeaderLen) (map snd ((h, d) # ls)) = Some s"
    "s \<noteq> []" "GetHeaderLen + length s < length (pb_block (lb_buff b))"
    "keys_agree denv (lb_crypt b)" "zlibDecompress denv s = Inr text"
  shows "\<exists>b1 file b2. LB_Writes env ((h, d) # ls) b = Some b1 \<and> LB_Flush hour b1 = Some (file, b2) \<and>
    is_empty b2 \<and> parseFile denv file 0 = Inr (Some [Data text])"
proof -
  define r where "r = \<lparr>lr_crypt = lb_crypt b, lr_async = True, lr_seq = fst (GetSeq True (lb_s_seq b)), lr_begin = h,
    lr_end = hour, lr_plain = s\<rparr>"
  have mem: "length (lc_client_pubkey (lb_crypt b)) = 64" "length (pb_block (lb_buff b)) < 2 ^ 32"
    using assms(1) by (simp_all add: is_empty_def memory_ok_def)
  obtain b1 b2 where w: "LB_Writes env ((h, d) # ls) b = Some b1" "LB_Flush hour b1 = Some (rec_file r, b2)" "is_empty b2"
    using written_record [of b env h d ls s hour] assms
    by (auto simp: rec_file_def rec_magic_def rec_payload_def r_def)
  have "decodable denv r"
    using mem assms(6-9) by (simp add: decodable_def r_def keys_agree_def)
  then have "parseFile denv (rec_file r) 0 = Inr (Some (report_of denv 0 [r]))"
    using recs_decoded [of "[r]" denv 0] by simp
  moreover have "report_of denv 0 [r] = [Data text]"
    using assms(9) by (simp add: gap_items_def rec_text_def r_def)
  ultimately show ?thesis using w by auto
qed

lemma log_roundtrip_witness:
  "\<exists>b1 file b2. LB_Writes ex_zlib [(10, [1, 2, 3]), (11, [4, 5])] (ex_buffer True) = Some b1 \<and>
    LB_Flush 12 b1 = Some (file, b2) \<and> is_empty b2 \<and> parseFile ex_denv file 0 = Inr (Some [Data [1, 2, 3, 4, 5]])"
  using log_roundtrip [of "ex_buffer True" ex_zlib 10 "[1, 2, 3]" "[(11, [4, 5])]" "[1, 2, 3, 4, 5]" ex_denv
      "[1, 2, 3, 4, 5]" 12]
  by (simp add: ex_zlib ex_buffer GetHeaderLen_def ex_keys ex_inflates)

section \<open>Inflation to the end\<close>

text \<open>What zlib promises for a stream that stands for \<open>text\<close>, with \<open>R\<close> relating its states to what is
  still to come: a step fills the room it is given or delivers the rest, and without anything left to
  deliver it does not answer \<open>Z_OK\<close>; the logs are never finished, so that their end is not
  \<open>Z_STREAM_END\<close>.\<close>

definition inflates :: "'s dec_env \<Rightarrow> ('s \<Rightarrow> bytes \<Rightarrow> bool) \<Rightarrow> bool" where
  "inflates env R \<longleftrightarrow> (\<forall>st t n. R st t \<longrightarrow> 0 < n \<longrightarrow>
     (case de_inflate env st n of
        (code, d, st') \<Rightarrow> d = take n t \<and> R st' (drop n t) \<and> de_inflateEnd env st' \<and>
          (code \<noteq> Z_OK \<longrightarrow> length t \<le> n) \<and> (t = [] \<longrightarrow> code \<noteq> Z_OK)))"

lemma inflate_loop_whole:
  assumes "inflates env R" "0 < half" "R st t" "n < 2 ^ 32" "length out \<le> n" "length out + length t + half < 2 ^ 32"
  shows "\<exists>st'. inflate_loop env half st n out = Some (Inr (st', out @ t)) \<and> de_inflateEnd env st'"
  using assms(3-6)
proof (induction "length t" arbitrary: st t n out rule: less_induct)
  case less
  define n' where "n' = (if n \<le> length out then n + half else n)"
  obtain code d st' where s: "de_inflate env st (n' - length out) = (code, d, st')" by (metis prod_cases3)
  have n': "n' < 2 ^ 32" "length out < n'" using less.prems assms(2) by (auto simp: n'_def)
  have c: "d = take (n' - length out) t" "R st' (drop (n' - length out) t)" "de_inflateEnd env st'"
    "code \<noteq> Z_OK \<Longrightarrow> length t \<le> n' - length out" "t = [] \<Longrightarrow> code \<noteq> Z_OK"
    using assms(1) less.prems(1) n'(2) s unfolding inflates_def by (fastforce split: prod.splits)+
  have step: "inflate_loop env half st n out =
      (if code = Z_OK then inflate_loop env half st' n' (out @ d) else Some (Inr (st', out @ d)))"
    using n' s by (subst inflate_loop.simps) (simp add: n'_def Let_def)
  show ?case
  proof (cases "code = Z_OK")
    case True
    have t: "t \<noteq> []" using c(5) True by blast
    have "length (drop (n' - length out) t) < length t" using t n'(2) by (cases t) auto
    moreover have "length (out @ d) \<le> n'" "length (out @ d) + length (drop (n' - length out) t) + half < 2 ^ 32"
      using c(1) n'(2) less.prems(4) by (auto simp: min_def)
    ultimately obtain st2 where "inflate_loop env half st' n' (out @ d) = Some (Inr (st2, (out @ d) @ drop (n' - length out) t))"
      "de_inflateEnd env st2"
      using less.hyps [of "drop (n' - length out) t" st' n' "out @ d"] c(2) n'(1) by blast
    then show ?thesis using True step c(1) by simp
  next
    case False
    then show ?thesis using step c by simp
  qed
qed

text \<open>The loop around the inflater ends and returns the whole text, however much larger than its input
  it is: the block grows whenever it is full. An input of at least two bytes is needed, since the block
  grows by half of it.\<close>

theorem inflated_whole:
  fixes env :: "'s dec_env"
  assumes "inflates env R" "de_inflateInit2 env d = Some st" "R st t" "2 \<le> length d"
    "length d + length t < 2 ^ 32"
  shows "zlibDecompress env d = Inr t"
proof -
  have "0 < length d div 2" "length ([] :: bytes) + length t + length d div 2 < 2 ^ 32" "length d < 2 ^ 32"
    using assms(4,5) by auto
  from inflate_loop_whole [OF assms(1) this(1) assms(3) this(3) _ this(2)]
  obtain st' where "inflate_loop env (length d div 2) st (length d) [] = Some (Inr (st', t))" "de_inflateEnd env st'"
    by auto
  then show ?thesis using assms(2,4) by (auto simp: zlibDecompress_def)
qed

lemma inflated_whole_witness:
  "zlibDecompress (ex_denv\<lparr>de_inflateInit2 := (\<lambda>d. Some (d @ d @ d @ d))\<rparr>) [1, 2] = Inr [1, 2, 1, 2, 1, 2, 1, 2]"
proof -
  have "inflates (ex_denv\<lparr>de_inflateInit2 := (\<lambda>d. Some (d @ d @ d @ d))\<rparr>) (=)"
    by (simp add: inflates_def ex_denv_def)
  from inflated_whole [OF this, of "[1, 2]" "[1, 2, 1, 2, 1, 2, 1, 2]" "[1, 2, 1, 2, 1, 2, 1, 2]"] show ?thesis
    by simp
qed

text \<open>A buffer that does not compress, but has a key, encrypts its lines and marks the record like one
  that was written at once; the decoder copies the encrypted text into its output.\<close>

theorem plain_buffer_undecoded:
  assumes "is_empty b" "\<not> lb_is_compress b" "lc_is_crypt (lb_crypt b)" "z_fits env"
    "stream env False (lb_cstream b) (length (pb_block (lb_buff b)) - GetHeaderLen) (map snd ((h, d) # ls)) = Some s"
    "s \<noteq> []" "GetHeaderLen + length s < length (pb_block (lb_buff b))"
    "keys_agree denv (lb_crypt b)"
  shows "\<exists>b1 file b2. LB_Writes env ((h, d) # ls) b = Some b1 \<and> LB_Flush hour b1 = Some (file, b2) \<and>
    parseFile denv file 0 = Inr (Some [Data (on_blocks (TeaEncrypt (lc_tea_key (lb_crypt b))) s)])"
proof -
  define x where "x = cipher (lb_crypt b) s"
  define r where "r = \<lparr>lr_crypt = lb_crypt b, lr_async = False, lr_seq = 0, lr_begin = h, lr_end = hour, lr_plain = x\<rparr>"
  have mem: "length (lc_client_pubkey (lb_crypt b)) = 64" "length (pb_block (lb_buff b)) < 2 ^ 32"
    using assms(1) by (simp_all add: is_empty_def memory_ok_def)
  have x: "x \<noteq> []" "length x = length s" using assms(6) length_cipher [of "lb_crypt b" s] unfolding x_def by fastforce+
  obtain b1 b2 where w: "LB_Writes env ((h, d) # ls) b = Some b1" "LB_Flush hour b1 = Some (rec_file r, b2)"
    using written_record [of b env h d ls s hour] assms
    by (auto simp: rec_file_def rec_magic_def rec_payload_def r_def x_def GetSeq_def)
  have "decodable denv r"
    using mem assms(7,8) x by (simp add: decodable_def r_def)
  then have "parseFile denv (rec_file r) 0 = Inr (Some (report_of denv 0 [r]))"
    using recs_decoded [of "[r]" denv 0] by simp
  moreover have "report_of denv 0 [r] = [Data (on_blocks (TeaEncrypt (lc_tea_key (lb_crypt b))) s)]"
    using assms(3) by (simp add: gap_items_def rec_text_def r_def x_def cipher_def)
  ultimately show ?thesis using w by auto
qed

lemma plain_buffer_undecoded_witness:
  "\<exists>b1 file b2. LB_Writes ex_zlib [(10, [1, 2, 3])] (ex_buffer False) = Some b1 \<and>
    LB_Flush 12 b1 = Some (file, b2) \<and>
    parseFile ex_denv file 0 = Inr (Some [Data (on_blocks (TeaEncrypt (1, 2, 3, 4)) [1, 2, 3])])"
  using plain_buffer_undecoded [of "ex_buffer False" ex_zlib 10 "[1, 2, 3]" "[]" "[1, 2, 3]" ex_denv 12]
  by (simp add: ex_zlib ex_buffer GetHeaderLen_def ex_keys)

section \<open>The part of a file for given hours\<close>

abbreviation files :: "log_rec list \<Rightarrow> bytes" where
  "files rs \<equiv> concat (map rec_file rs)"

lemma period_loop_rec:
  assumes "buf = pre @ rec_file r @ post" "well_formed r"
  shows "period_loop buf bh eh (length pre) v =
    (if lc_is_crypt (lr_crypt r)
     then period_loop buf bh eh (length (pre @ rec_file r))
            (period_record bh eh (length pre) (length (pre @ rec_file r)) (begin_hour r) (end_hour r) v)
     else v)"
proof -
  define d where "d = rec_payload r"
  have a: "buf = pre @ record_bytes (rec_magic r) (lr_seq r) (lr_begin r) (lr_end r) (lc_client_pubkey (lr_crypt r)) d @ post"
    "length (lc_client_pubkey (lr_crypt r)) = 64" "length d < 2 ^ 32"
    using assms by (simp_all add: rec_file_def well_formed_def d_def)
  have z: "buf ! (length pre + 73 + length d) = 0" by (rule record_fields(6) [OF a])
  have len: "length (pre @ rec_file r) = length pre + 74 + length d"
    using a(2) by (simp add: length_rec_file d_def)
  have lb: "length buf = length pre + 74 + length d + length post" using len by (simp add: assms(1))
  define hd where "hd = take 73 (drop (length pre) buf)"
  have hd: "hd = rec_magic r # le16 (lr_seq r) @ [lr_begin r, lr_end r] @ le32 (of_nat (length d)) @ lc_client_pubkey (lr_crypt r)"
    using a(2) by (simp add: hd_def a(1) record_bytes_def record_head_def)
  have g: "is_magic (rec_magic r)" by (simp add: rec_magic_def start_magic_is)
  have m: "hd ! 0 = rec_magic r" "hd ! 3 = lr_begin r" "hd ! 4 = lr_end r"
    by (simp_all add: hd le16_def)
  have n: "unat (GetLogLen hd 73) = length d"
    using g length_u32 [OF a(3)] by (simp add: GetLogLen_def GetHeaderLen_def m(1)) (simp add: hd le16_def)
  have h: "GetLogHour hd 73 = (if lc_is_crypt (lr_crypt r) then Some (begin_hour r, end_hour r) else None)"
    by (simp add: GetLogHour_def GetHeaderLen_def m begin_hour_def end_hour_def rec_magic_def start_magic_def
        kMagicAsyncStart_def kMagicSyncStart_def kMagicAsyncNoCryptStart_def kMagicSyncNoCryptStart_def)
  show ?thesis
    unfolding len using lb z n h g
    by (subst period_loop.simps)
       (simp add: GetHeaderLen_def GetTailerLen_def Let_def m(1) kMagicEnd_def ac_simps flip: hd_def)
qed

text \<open>The loop over a file of encrypted records.\<close>

fun period_recs :: "int \<Rightarrow> int \<Rightarrow> nat \<Rightarrow> log_rec list \<Rightarrow> period \<Rightarrow> period" where
  "period_recs bh eh pos [] v = v"
| "period_recs bh eh pos (r # rs) v =
     period_recs bh eh (pos + length (rec_file r)) rs
       (period_record bh eh pos (pos + length (rec_file r)) (begin_hour r) (end_hour r) v)"

lemma period_loop_recs:
  assumes "\<forall>r \<in> set rs. well_formed r \<and> lc_is_crypt (lr_crypt r)" "buf = pre @ files rs"
  shows "period_loop buf bh eh (length pre) v = period_recs bh eh (length pre) rs v"
  using assms
proof (induction rs arbitrary: pre v)
  case Nil
  then show ?case by (subst period_loop.simps) (simp add: GetHeaderLen_def)
next
  case (Cons r rs)
  have "period_loop buf bh eh (length pre) v = period_loop buf bh eh (length (pre @ rec_file r))
      (period_record bh eh (length pre) (length (pre @ rec_file r)) (begin_hour r) (end_hour r) v)"
    using Cons.prems period_loop_rec [of buf pre r "files rs"] by simp
  then show ?case using Cons.IH [of "pre @ rec_file r"] Cons.prems by simp
qed

lemma period_recs_append:
  "period_recs bh eh pos (xs @ ys) v = period_recs bh eh (pos + length (files xs)) ys (period_recs bh eh pos xs v)"
  by (induction xs arbitrary: pos v) (auto simp: add.assoc)

text \<open>The hours of the records in the order of the file do not decrease.\<close>

definition in_order :: "int \<Rightarrow> log_rec list \<Rightarrow> bool" where
  "in_order h rs \<longleftrightarrow> sorted (h # concat (map (\<lambda>r. [begin_hour r, end_hour r]) rs))"

lemma in_order_Nil [simp]: "in_order h []"
  by (simp add: in_order_def)

lemma in_order_Cons [simp]:
  "in_order h (r # rs) \<longleftrightarrow> h \<le> begin_hour r \<and> begin_hour r \<le> end_hour r \<and> in_order (end_hour r) rs"
  by (auto simp: in_order_def intro: order_trans)

fun last_hour :: "int \<Rightarrow> log_rec list \<Rightarrow> int" where
  "last_hour h [] = h"
| "last_hour h (r # rs) = last_hour (end_hour r) rs"

lemma in_order_append: "in_order h (xs @ ys) \<longleftrightarrow> in_order h xs \<and> in_order (last_hour h xs) ys"
  by (induction xs arbitrary: h) auto

text \<open>The records before the period, those of the period, those after it.\<close>

lemma period_before:
  assumes "in_order (pe_last_hour v) rs" "\<forall>r \<in> set rs. end_hour r < bh" "\<not> pe_found v" "pe_last_pos v = pos"
  shows "period_recs bh eh pos rs v =
    v\<lparr>pe_last_hour := last_hour (pe_last_hour v) rs, pe_last_pos := pos + length (files rs)\<rparr>"
  using assms
proof (induction rs arbitrary: v pos)
  case (Cons r rs)
  have "period_record bh eh pos p (begin_hour r) (end_hour r) v = v\<lparr>pe_last_hour := end_hour r, pe_last_pos := p\<rparr>" for p
    using Cons.prems by (auto simp: period_record_def Let_def)
  then show ?case using Cons.prems by (simp add: Cons.IH add.assoc)
qed simp

lemma period_within:
  assumes "in_order (pe_last_hour v) rs" "\<forall>r \<in> set rs. begin_hour r < eh" "pe_found v" "pe_last_pos v = pos"
    "eh \<le> pe_last_hour v \<longrightarrow> pe_end v = pos"
  shows "\<exists>e. period_recs bh eh pos rs v =
      v\<lparr>pe_end := e, pe_last_hour := last_hour (pe_last_hour v) rs, pe_last_pos := pos + length (files rs)\<rparr> \<and>
    (eh \<le> last_hour (pe_last_hour v) rs \<longrightarrow> e = pos + length (files rs))"
  using assms
proof (induction rs arbitrary: v pos)
  case Nil
  then show ?case by (intro exI [of _ "pe_end v"]) simp
next
  case (Cons r rs)
  define p where "p = pos + length (rec_file r)"
  define e where "e = (if eh \<le> end_hour r then p else pe_end v)"
  define v1 where "v1 = v\<lparr>pe_end := e, pe_last_hour := end_hour r, pe_last_pos := p\<rparr>"
  have "period_record bh eh pos p (begin_hour r) (end_hour r) v = v1"
    using Cons.prems by (auto simp: period_record_def Let_def v1_def e_def)
  moreover obtain e' where "period_recs bh eh p rs v1 =
      v1\<lparr>pe_end := e', pe_last_hour := last_hour (pe_last_hour v1) rs, pe_last_pos := p + length (files rs)\<rparr>"
    "eh \<le> last_hour (pe_last_hour v1) rs \<longrightarrow> e' = p + length (files rs)"
    using Cons.IH [of v1 p] Cons.prems by (auto simp: v1_def e_def)
  ultimately show ?case by (intro exI [of _ e']) (simp add: p_def v1_def add.assoc)
qed

lemma period_after:
  assumes "in_order (pe_last_hour v) rs" "eh \<le> pe_last_hour v" "pe_found v"
  shows "pe_begin (period_recs bh eh pos rs v) = pe_begin v \<and> pe_end (period_recs bh eh pos rs v) = pe_end v \<and>
    pe_found (period_recs bh eh pos rs v) \<and> eh \<le> pe_last_hour (period_recs bh eh pos rs v)"
  using assms
proof (induction rs arbitrary: v pos)
  case (Cons r rs)
  have "period_record bh eh pos p (begin_hour r) (end_hour r) v = v\<lparr>pe_last_hour := end_hour r, pe_last_pos := p\<rparr>" for p
    using Cons.prems by (auto simp: period_record_def Let_def)
  then show ?case using Cons.prems by (simp add: Cons.IH)
qed simp

lemma period_rest:
  assumes "in_order (pe_last_hour w) C" "\<forall>r \<in> set C. eh \<le> begin_hour r" "pe_found w" "pe_last_pos w = q"
    "eh \<le> pe_last_hour w \<longrightarrow> pe_end w = q" "u = period_recs bh eh q C w"
  shows "pe_begin u = pe_begin w \<and>
    (if pe_found u \<and> pe_last_hour u < eh then q + length (files C) else pe_end u) = q"
proof (cases C)
  case Nil
  then show ?thesis using assms(3,5,6) by auto
next
  case (Cons r C')
  define p where "p = q + length (rec_file r)"
  define w1 where "w1 = w\<lparr>pe_end := q, pe_last_hour := end_hour r, pe_last_pos := p\<rparr>"
  have r: "eh \<le> begin_hour r" "pe_last_hour w \<le> begin_hour r" "begin_hour r \<le> end_hour r" "in_order (end_hour r) C'"
    using assms(1,2) Cons by auto
  have "period_record bh eh q p (begin_hour r) (end_hour r) w = w1"
    using r assms(3-5) by (auto simp: period_record_def Let_def w1_def)
  then have "u = period_recs bh eh p C' w1" using assms(6) by (simp add: Cons p_def)
  then show ?thesis using period_after [of w1 C' eh bh p] r assms(3) by (auto simp: w1_def)
qed

text \<open>Without records of the period, the first one behind it is found, and given up.\<close>

lemma period_none:
  assumes "in_order (pe_last_hour v) C" "\<forall>r \<in> set C. eh \<le> begin_hour r" "\<not> pe_found v" "pe_last_hour v < bh" "bh < eh"
    "pe_begin v = 0" "pe_end v = 0" "pe_last_pos v = pos" "u = period_recs bh eh pos C v"
  shows "pe_begin u = pe_end u \<and> (pe_found u \<longrightarrow> eh \<le> pe_last_hour u)"
proof (cases C)
  case (Cons r C')
  define p where "p = pos + length (rec_file r)"
  define v1 where "v1 = v\<lparr>pe_begin := pos, pe_end := pos, pe_found := True, pe_last_hour := end_hour r, pe_last_pos := p\<rparr>"
  have r: "eh \<le> begin_hour r" "begin_hour r \<le> end_hour r" "in_order (end_hour r) C'"
    using assms(1,2) Cons by auto
  have "period_record bh eh pos p (begin_hour r) (end_hour r) v = v1"
    using r assms(3-8) by (auto simp: period_record_def Let_def v1_def)
  then have "u = period_recs bh eh p C' v1" using assms(9) by (simp add: Cons p_def)
  then show ?thesis using period_after [of v1 C' eh bh p] r by (simp add: v1_def)
qed (use assms in simp)

text \<open>With them, the first one gives the begin and the last one the end.\<close>

lemma period_some:
  assumes "in_order (pe_last_hour v) (r # B)" "\<forall>r \<in> set (r # B). begin_hour r < eh" "bh \<le> end_hour r"
    "\<not> pe_found v" "pe_last_hour v < bh"
  shows "\<exists>w. period_recs bh eh pos (r # B) v = w \<and> pe_begin w = pos \<and> pe_found w \<and>
    pe_last_hour w = last_hour (pe_last_hour v) (r # B) \<and> pe_last_pos w = pos + length (files (r # B)) \<and>
    (eh \<le> pe_last_hour w \<longrightarrow> pe_end w = pos + length (files (r # B)))"
proof -
  define p where "p = pos + length (rec_file r)"
  define v1 where "v1 = v\<lparr>pe_begin := pos, pe_end := (if eh \<le> end_hour r then p else pe_end v), pe_found := True,
    pe_last_hour := end_hour r, pe_last_pos := p\<rparr>"
  have r: "begin_hour r < eh" "begin_hour r \<le> end_hour r" "pe_last_hour v \<le> begin_hour r" "in_order (end_hour r) B"
    using assms(1,2) by auto
  have "period_record bh eh pos p (begin_hour r) (end_hour r) v = v1"
    using r assms(3-5) by (auto simp: period_record_def Let_def v1_def)
  moreover obtain e where "period_recs bh eh p B v1 =
      v1\<lparr>pe_end := e, pe_last_hour := last_hour (pe_last_hour v1) B, pe_last_pos := p + length (files B)\<rparr>"
    "eh \<le> last_hour (pe_last_hour v1) B \<longrightarrow> e = p + length (files B)"
    using period_within [of v1 B eh p bh] r(4) assms(2) by (auto simp: v1_def)
  ultimately show ?thesis by (simp add: p_def v1_def add.assoc)
qed

text \<open>C39. In a file of encrypted records whose hours do not decrease, the part found for the hours from
  \<open>bh\<close> to \<open>eh\<close> is exactly the sequence of the records that end at \<open>bh\<close> or later and begin before
  \<open>eh\<close>; without such a record nothing is found.\<close>

theorem period_found:
  assumes "bh < eh" "0 \<le> bh" "in_order (- 1) (A @ B @ C)"
    "\<forall>r \<in> set (A @ B @ C). well_formed r \<and> lc_is_crypt (lr_crypt r)"
    "\<forall>r \<in> set A. end_hour r < bh" "\<forall>r \<in> set B. bh \<le> end_hour r \<and> begin_hour r < eh"
    "\<forall>r \<in> set C. eh \<le> begin_hour r"
  shows "GetPeriodLogs (files (A @ B @ C)) bh eh =
    (if B = [] then None else Some (length (files A), length (files (A @ B))))"
proof -
  define v0 where "v0 = \<lparr>pe_begin = 0, pe_end = 0, pe_found = False, pe_last_hour = - 1, pe_last_pos = 0\<rparr>"
  define vA where "vA = v0\<lparr>pe_last_hour := last_hour (- 1) A, pe_last_pos := length (files A)\<rparr>"
  define v where "v = period_recs bh eh (length (files A)) (B @ C) vA"
  have o: "in_order (- 1) A" "in_order (pe_last_hour vA) (B @ C)"
    using assms(3) by (simp_all add: in_order_append vA_def)
  have "period_recs bh eh 0 A v0 = vA"
    using period_before [of v0 A bh 0 eh] o(1) assms(5) by (simp add: v0_def vA_def)
  then have "period_loop (files (A @ B @ C)) bh eh 0 v0 = v"
    using period_loop_recs [of "A @ B @ C" "files (A @ B @ C)" "[]" bh eh v0] assms(4)
    by (simp add: period_recs_append [of bh eh 0 A] v_def)
  moreover define e where
    "e = (if pe_found v \<and> pe_last_hour v < eh then length (files (A @ B)) + length (files C) else pe_end v)"
  ultimately have G: "GetPeriodLogs (files (A @ B @ C)) bh eh = (if pe_begin v < e then Some (pe_begin v, e) else None)"
    using assms(1) by (simp add: GetPeriodLogs_def v0_def Let_def add.assoc)
  have "last_hour h A < bh" if "h < bh" for h
    using that assms(5) by (induction A arbitrary: h) auto
  then have vA: "pe_last_hour vA < bh" "\<not> pe_found vA" "pe_begin vA = 0" "pe_end vA = 0" "pe_last_pos vA = length (files A)"
    using assms(2) by (simp_all add: vA_def v0_def)
  show ?thesis
  proof (cases B)
    case Nil
    then have "pe_begin v = pe_end v \<and> (pe_found v \<longrightarrow> eh \<le> pe_last_hour v)"
      using period_none [of vA C eh bh "length (files A)" v] o(2) assms(1,7) vA by (simp add: v_def)
    then show ?thesis using G Nil by (auto simp: e_def)
  next
    case (Cons r B')
    define q where "q = length (files (A @ B))"
    obtain w where w: "period_recs bh eh (length (files A)) B vA = w" "pe_begin w = length (files A)" "pe_found w"
      "pe_last_hour w = last_hour (pe_last_hour vA) B" "pe_last_pos w = q" "eh \<le> pe_last_hour w \<longrightarrow> pe_end w = q"
      using period_some [of vA r B' eh bh "length (files A)"] o(2) assms(6) vA Cons
      by (auto simp: in_order_append q_def)
    have "v = period_recs bh eh q C w" by (simp add: v_def period_recs_append w(1) q_def)
    from period_rest [OF _ assms(7) w(3,5,6) this]
    moreover have "e = (if pe_found v \<and> pe_last_hour v < eh then q + length (files C) else pe_end v)"
      by (simp only: e_def q_def)
    ultimately have "pe_begin v = length (files A)" "e = q"
      using o(2) w(2,4) by (simp_all add: in_order_append)
    moreover have "length (files A) < q"
      using Cons assms(4) by (simp add: q_def length_rec_file well_formed_def)
    ultimately show ?thesis using G Cons unfolding q_def by (simp only: if_True list.distinct if_False)
  qed
qed

lemma period_found_witness:
  "GetPeriodLogs (files [ex_rec True 1 1 1 [1], ex_rec True 2 2 3 [2, 3], ex_rec True 3 5 6 [4]]) 2 4 = Some (75, 151)"
  using period_found [of 2 4 "[ex_rec True 1 1 1 [1]]" "[ex_rec True 2 2 3 [2, 3]]" "[ex_rec True 3 5 6 [4]]"]
  by (simp add: length_rec_file)

text \<open>A file that begins with a record that is not encrypted is searched no further: whatever records
  follow it, nothing is found for any hours.\<close>

theorem period_lost:
  assumes "well_formed r" "\<not> lc_is_crypt (lr_crypt r)"
  shows "GetPeriodLogs (rec_file r @ rest) bh eh = None"
  using period_loop_rec [of "rec_file r @ rest" "[]" r rest bh eh] assms by (simp add: GetPeriodLogs_def Let_def)

lemma period_lost_witness: "GetPeriodLogs (rec_file (ex_rec False 1 2 3 [1]) @ rec_file (ex_rec True 2 3 3 [2])) 2 4 = None"
  using period_lost [of "ex_rec False 1 2 3 [1]"] by simp

end
