(* ===== verification/Spec2Isabelle.thy ===== *)
theory Spec2Isabelle
  imports Net_Core Smart_Heartbeat Link_Progress Weak_Network Net_Check Link_Services Short_Link Message_Queue
    Log_Decoder
begin

text \<open>
  A verification development of the signalling network library under src/marsksim: its STN module
  (stn/), which carries the tasks of an application over one long connection and over short HTTP
  connections, and the parts of comm/ that STN is built from.

  \<^bold>\<open>The parts and how they interact.\<close> The application starts a task (\<open>Task\<close>: command, ids,
  timeouts, retry counts). The network core (stn/src/net_core.cc) checks it, asks the avalanche
  limiters and hands it to the long link or the short link task manager. A manager keeps a profile
  per task, asks the application for the request bytes, sends them over its link, watches the
  timeouts, retries, and reports the end of the task to the core, which passes it to the
  application or, when the network is to blame and time is left, to the zombie task manager, which
  starts the task again later. The dynamic timeout grades the network from the outcomes and selects
  the timeouts. The long link (stn/src/longlink.cc) is a thread that connects, then sends and
  receives frames and heartbeats in one loop until an error ends it; the smart heartbeat learns the
  heartbeat interval per network and keeps it in an INI file; the alarm is the timer of the
  heartbeat, the socket breaker the pipe that wakes the thread.

  Around the link: the net source (stn/src/net_source.cc) makes the list of addresses of a link from
  the name services, the configuration and the history of past connections, which bans and orders
  addresses (simple_ipport_sort.cc). The connect monitor decides when the link is connected again.
  The signalling keeper sends small packets while it is told to, over the link or over the UDP
  client; the timing sync asks for a synchronisation while the link is down; the periodic address
  check looks for a better address while the link runs on a backup one. The asynchronous work of all
  of them goes through the message queues (comm/messagequeue/). Log lines are compressed and
  encrypted in a buffer inside a mapped file (log/src/log_buffer.cc) and read back by a decoder. The
  network check and the weak network detection watch the outcomes. The base event (baseevent/) says
  whether the application is in the foreground and active, on which most of the intervals depend.

  \<^bold>\<open>Theories and sources.\<close>
  \<^item> \<open>Mars_Prelude\<close>: machine types, conversions, shared list, sorting and word facts.
  \<^item> \<open>Std_Map\<close>: \<open>std::map\<close> as a sorted list, the locale \<open>ordered_map\<close>.
  \<^item> \<open>Auto_Buffer\<close>: comm/autobuffer.cc. \<open>Longlink_Packer\<close>: stn/proto/longlink_packer.cc.
  \<^item> \<open>Stn_Task\<close>: stn/stn.h, stn/task_profile.h, stn/src/task_profile.cc. \<open>Task_Env\<close>: the
    functions the managers call, with the locales \<open>task_sink\<close> and \<open>task_store\<close>.
  \<^item> \<open>Longlink_Task_Manager\<close>, \<open>Shortlink_Task_Manager\<close>, \<open>Zombie_Task_Manager\<close>,
    \<open>Dynamic_Timeout\<close>, \<open>Net_Core\<close>: the files of the same names under stn/src.
  \<^item> \<open>Anti_Avalanche\<close>: stn/src/flow_limit.cc, frequency_limit.cc, anti_avalanche.cc and
    comm/comm_frequency_limit.cc, with the locale \<open>limiter\<close>.
  \<^item> \<open>Str_Util\<close>, \<open>String_Cast\<close>, \<open>Ini_File\<close>: comm/strutil.cc, comm/string_cast.h,
    comm/ini.h with stn/src/special_ini.h. \<open>Smart_Heartbeat\<close>: stn/src/smart_heartbeat.cc.
  \<^item> \<open>Alarm\<close>: comm/alarm.cc. \<open>Socket_Breaker\<close>: comm/unix/socket/socketbreaker.cc.
  \<^item> \<open>Long_Link\<close>: stn/src/longlink.cc and longlink_identify_checker.cc. \<open>Link_Receive\<close>,
    \<open>Link_Run\<close>, \<open>Link_Progress\<close>: the theorems about it.
  \<^item> \<open>Ticks\<close>: comm/time_utils.c, comm/tickcount.cc and the bit counting macros.
    \<open>Ipport_Sort\<close>: stn/src/simple_ipport_sort.cc. \<open>Net_Source\<close>: stn/src/net_source.cc.
  \<^item> \<open>Timers\<close>: an alarm with the messages on their way to it, the locale \<open>one_shot\<close>.
    \<open>Active_Logic\<close>: baseevent/src/active_logic.cc and stn/src/timing_sync.cc.
    \<open>Connect_Monitor\<close>: stn/src/longlink_connect_monitor.cc with the link it drives.
  \<^item> \<open>Udp_Client\<close>: comm/socket/udpclient.cc. \<open>Signalling_Keeper\<close>: stn/src/signalling_keeper.cc.
    \<open>Speed_Test\<close>: stn/src/longlink_speed_test.cc. \<open>Timer_Check\<close>: stn/src/netsource_timercheck.cc.
  \<^item> \<open>Link_Services\<close>: the composition of the link, its monitor, the active logic, the timing sync, the
    keeper, the address check and the net source in stn/src/net_core.cc.
  \<^item> \<open>Http\<close>: comm/http.cc. \<open>Base64\<close>: comm/crypt/ibase64.cc. \<open>Short_Link\<close>: stn/src/shortlink.cc
    and stn/proto/shortlink_packer.cc.
  \<^item> \<open>Message_Queue\<close>: comm/messagequeue/message_queue.cc, the queues of the threads and their run
    loops, with the locale \<open>mailbox\<close>.
  \<^item> \<open>Log_Buffer\<close>: comm/ptrbuffer.cc, log/src/log_buffer.cc and the records of
    log/crypt/log_crypt.cc. \<open>Log_Decoder\<close>: log/crypt/decode_log_file_c_impl/decode_log_file.c and
    the search for the records of given hours in log_crypt.cc.
  \<^item> \<open>Net_Check\<close>: stn/src/net_check_logic.cc. \<open>Weak_Network\<close>: stn/src/weak_network_logic.cc.

  \<^bold>\<open>Correspondence.\<close> A class is a record of its members, a member function is a definition of the
  same name (with a prefix where two classes share one: \<open>LL_\<close> and \<open>SL_\<close> the two managers,
  \<open>Z_\<close> the zombies, \<open>NC_\<close> the core, \<open>LongLink_\<close> the link), which takes the object and
  returns it updated. Unsigned integers are words of their width, signed ones integers with the
  conversion written out (\<open>s32\<close>); readings of the clock are arguments, in the order of the
  source. Callbacks and other components that a class calls are fields of an environment record and
  act on a state of their own; the network core ties the knot by instantiating them with its own
  functions. \<open>None\<close>, and \<open>Fault\<close> in the long link, is an access outside a memory block.
  Log output and assertions, which only log in release builds, are left out.

  A pass of the read/write loop of the long link is split at \<open>select\<close>: \<open>rw_prepare\<close> and
  \<open>rw_io\<close>. \<open>link_op\<close> lists these passes together with what other threads, the alarms and the
  message queue may do in between, and \<open>rw_run\<close> runs any sequence of them.

  \<^bold>\<open>What is shown.\<close>
  \<^item> Network core: through any sequence of messages no task is lost or duplicated, a task ends at
    most once, every reachable state is well formed, and no task outlives its deadlines beyond the
    next timer run. These rest on \<open>task_sink\<close>: the managers are verified once against any
    callback that accounts for the tasks it is given, and the core's callback is an instance.
  \<^item> Long link: the bytes on the socket, in both directions, are tied to the messages. A sender and a
    receiver together refine a FIFO channel; the receiver does not depend on how the stream is cut;
    what is accepted by the socket is a sequence of whole frames. An unanswered heartbeat ends the
    link. The receive loop ends, except on a header that announces no bytes.
  \<^item> Limiters: bounds on what is admitted over any history. Dynamic timeout: which evidence moves the
    grade. Smart heartbeat: range and convergence of the interval, and its survival of a restart.
  \<^item> Addresses: the bit histories implement a rule on the list of reports, the chosen addresses are
    open ones in the order of their failures, and the list of a link is bounded and each address of
    it comes from the source it names.
  \<^item> Reconnecting: a connection that was asked for is never forgotten, and when the next attempt
    comes. The link, the periodic sync and the monitor agree once the reports are delivered. Here the
    handlers on the queue of the core, which runs one at a time, are single steps, and the calls of the
    timing sync on other threads are taken apart into their single operations on the alarm; a call
    that overlaps the report of a connection leaves the sync running beside the link. Activity, periodic
    sync and weak periods: invariants over all histories of events.
  \<^item> UDP client: refinement of a FIFO queue. Speed test: success on the answer in whatever pieces.
    Network check: the rule by which a diagnosis starts.
  \<^item> HTTP: what the builder writes is parsed back in whatever pieces it arrives; a call of the parser
    returns, leaves the received bytes only for the chunks and lengths that are named, and never
    ends after an error; the answers that depend on the cuts.
    Short link worker: it answers once through any interleaving with other threads, a server
    understands what it sends, and a response is delivered whole.
  \<^item> Message queue: over all interleavings of posts, cancellations and nested loops, messages of one
    kind keep their order, the loop takes the first message that is due and does not sleep beyond
    the next one, the pointer it keeps stays valid as long as nothing cancels the running message.
  \<^item> Logs: however the lines are cut, a flush writes their compressed and encrypted text as one record,
    also after the process has ended in between; a file of records is decoded into what was logged;
    the records of given hours are found.
  \<^item> Data formats: round trips of frames, INI files, numbers, tokens and encodings, with the inputs on
    which the code fails to give one.
  \<^item> Defects of the code are theorems as well: wrapping lengths on 32-bit targets, the overflow of the
    idle funnel, the endless receive loop, the stale identify answer, the address of the success
    report, the breaker that stays dead, the values that an INI file does not give back, the keeper that
    is silent after one error, the reconnect that is lost, the sync beside a connected link, the search
    that runs behind the last chunk, the histories that are read in reverse, the
    socket that is closed before it is returned, the check that is not stopped, the periodic message
    that is cancelled while it runs, and the one that starves the others, the log record whose end is written behind the memory.

  \<^bold>\<open>Bounds and fuel.\<close> The only loop of the model with fuel is \<open>recv_loop\<close>, because the source
  may run for ever; running out is the value \<open>Unfinished\<close>. \<open>recv_fuel\<close>, a megabyte and 64 KB,
  is the largest buffer that a stream of regular frames leaves after one \<open>recv\<close>, and each
  iteration takes at least one byte. Allocation and word sizes appear as hypotheses: buffers shorter
  than \<open>2 ^ 63\<close> and frames of at most a megabyte, the limit of the unpacker. The loop of the log
  decoder over the inflater may run for ever with a faulty one; it is a partial function whose value
  is then \<open>Hang\<close>.

  \<^bold>\<open>Not modelled.\<close> Third-party code (boost, openssl, tinyxml2, zlib, micro-ecc, md5,
  adler32), which is an argument where the code uses its results; the bindings (JNI, Objective-C, UWP,
  Windows), the log appender with its files and threads, the formatting of lines (xlogger) and the crash
  helpers, whose effect is output; threads, locks and coroutines, of which the model keeps the order of
  the steps; the watchdog, the dumps and the duty function of the message queue and its wrappers that
  return results (\<open>WaitInvoke\<close>); sockets, DNS and \<open>ComplexConnect\<close>, whose
  answers are arguments; the XML library behind the address history, of which the model keeps the
  records; the proxy test and the diagnosis tools of sdt/; the floating point casts and the wide string
  variants.
\<close>

end
